(* ===== verification/Prelude.thy ===== *)
theory Prelude
  imports
    Main
    "HOL-Library.Word"
    "HOL-Library.List_Lexorder"
    "HOL-Library.Char_ord"
    "HOL-Library.AList"
    "HOL-Library.Monad_Syntax"
begin

text \<open>
  Shared vocabulary of the development: the machine types of the Go sources, Go maps as
  association lists (with \<open>nil\<close> as \<open>None\<close>), saturating index arithmetic on
  64-bit words, and the generic lemmas on lists, majorities and words that the
  component theories use. Nothing in this theory is specific to one component.
\<close>

section \<open>Machine types\<close>

type_synonym u8 = "8 word"
type_synonym u64 = "64 word"
type_synonym byte = "8 word"
type_synonym bytes = "byte list"

text \<open>\<open>raft.NodeID\<close> and \<open>sim.NodeID\<close> are Go strings, compared bytewise; the empty string is the
  zero value. The order on \<open>string\<close> used below is the lexicographic one.\<close>

type_synonym NodeID = string

definition MaxUint64 :: u64 where
  "MaxUint64 = 18446744073709551615"

text \<open>\<open>math.MaxInt64\<close>: the largest \<open>time.Duration\<close>. Durations are modelled as integers; every
  operation that adds two of them writes the overflow check out.\<close>

definition MaxInt64 :: int where
  "MaxInt64 = 2 ^ 63 - 1"

named_theorems wf_simps \<open>unfolding rules for the well-formedness predicates\<close>
named_theorems const_defs \<open>values of the numeric enumeration constants\<close>
named_theorems frame_simps \<open>fields an operation leaves unchanged\<close>

section \<open>Go maps\<close>

text \<open>
  A Go map is \<open>nil\<close> (\<open>None\<close>) or a finite map, kept as an association list with distinct keys.
  Reading a missing key or a \<open>nil\<close> map yields the zero value; writing to a \<open>nil\<close> map panics,
  which is the outer \<open>None\<close> of \<^term>\<open>map_put\<close>.
\<close>

type_synonym ('k, 'v) gomap = "('k \<times> 'v) list option"

definition map_get :: "'v \<Rightarrow> ('k, 'v) gomap \<Rightarrow> 'k \<Rightarrow> 'v" where
  "map_get zero m k = (case m of None \<Rightarrow> zero
     | Some al \<Rightarrow> (case map_of al k of None \<Rightarrow> zero | Some v \<Rightarrow> v))"

definition map_put :: "'k \<Rightarrow> 'v \<Rightarrow> ('k, 'v) gomap \<Rightarrow> ('k, 'v) gomap option" where
  "map_put k v m = (case m of None \<Rightarrow> None | Some al \<Rightarrow> Some (Some (AList.update k v al)))"

lemma map_get_nil [simp]: "map_get z None k = z"
  by (simp add: map_get_def)

lemma map_get_update [simp]:
  "map_get z (Some (AList.update k v al)) j = (if j = k then v else map_get z (Some al) j)"
  by (simp add: map_get_def update_conv')

lemma map_put_nil [simp]: "map_put k v None = None"
  by (simp add: map_put_def)

lemma map_put_some [simp]: "map_put k v (Some al) = Some (Some (AList.update k v al))"
  by (simp add: map_put_def)

lemma map_put_eq_Some:
  "map_put k v m = Some m' \<longleftrightarrow> (\<exists>al. m = Some al \<and> m' = Some (AList.update k v al))"
  by (cases m) (auto simp: map_put_def)

section \<open>Index arithmetic on 64-bit words\<close>

lemma unat_MaxUint64 [simp]: "unat MaxUint64 = 2 ^ 64 - 1"
  by (simp add: MaxUint64_def)

lemma unat_u64_less: "unat (x :: u64) < 2 ^ 64"
  using unsigned_less [of x] by simp

lemma word_le_MaxUint64 [simp]: "(x :: u64) \<le> MaxUint64"
  using unat_u64_less [of x] by (simp add: word_le_nat_alt)

lemma MaxUint64_le_iff [simp]: "MaxUint64 \<le> x \<longleftrightarrow> x = MaxUint64"
  using word_le_MaxUint64 [of x] by (auto intro: antisym)

lemma unat_plus_one: "x \<noteq> MaxUint64 \<Longrightarrow> unat (x + 1) = Suc (unat x)"
  using unat_u64_less [of x] by (simp add: unat_word_ariths word_unat_eq_iff)

lemma less_imp_not_MaxUint64: "(x :: u64) < y \<Longrightarrow> x \<noteq> MaxUint64"
  using unat_u64_less [of y] by (auto simp: word_less_nat_alt)

lemma unat_plus_of_nat:
  "unat (x :: u64) + k < 2 ^ 64 \<Longrightarrow> unat (x + of_nat k) = unat x + k"
  by (simp add: unat_word_ariths unat_of_nat)

lemma unat_minus_le: "(y :: u64) \<le> x \<Longrightarrow> unat (x - y) = unat x - unat y"
  by (simp add: unat_sub)

lemma unat_minus_one: "(x :: u64) \<noteq> 0 \<Longrightarrow> unat (x - 1) = unat x - 1"
  by (simp add: unat_minus_one)

text \<open>\<open>nextIndexAfter\<close> and its uses need the saturating successor.\<close>

definition sat_succ :: "u64 \<Rightarrow> u64" where
  "sat_succ x = (if x = MaxUint64 then MaxUint64 else x + 1)"

lemma unat_sat_succ: "unat (sat_succ x) = min (Suc (unat x)) (2 ^ 64 - 1)"
  using unat_u64_less [of x] by (auto simp: sat_succ_def unat_plus_one word_unat_eq_iff)

section \<open>Majorities of a list\<close>

text \<open>Two majorities of the same duplicate-free list share an element.\<close>

lemma majorities_share:
  assumes "distinct xs"
    and "length xs div 2 + 1 \<le> length (filter P xs)"
    and "length xs div 2 + 1 \<le> length (filter Q xs)"
  shows "\<exists>x \<in> set xs. P x \<and> Q x"
proof (rule ccontr)
  assume no: "\<not> ?thesis"
  have "length (filter P xs) + length (filter Q xs) = card ({x \<in> set xs. P x} \<union> {x \<in> set xs. Q x})"
    using no by (subst card_Un_disjoint) (auto simp: distinct_card [symmetric] assms(1))
  also have "\<dots> \<le> card (set xs)"
    by (rule card_mono) auto
  also have "\<dots> = length xs"
    by (rule distinct_card) (rule assms(1))
  finally show False
    using assms(2,3) by linarith
qed

end
