(* ===== verification/RaftData.thy ===== *)
theory RaftData
  imports Prelude
begin

text \<open>
  The data model of package \<open>raft\<close> (\<open>src/raft/types.go\<close>, \<open>src/raft/membership.go\<close>): one record per
  Go struct with its fields in order, the byte-sized enumerations that arrive in messages as
  \<^typ>\<open>8 word\<close> with named constants, and the tagged structs \<open>Input\<close> and \<open>Effect\<close> as datatypes
  whose constructors are the values of their kind field. Deep copies (\<open>cloneEntry\<close>,
  \<open>cloneSnapshot\<close>, \<open>cloneState\<close>, ...) are the identity on these immutable values.
\<close>

section \<open>Errors\<close>

datatype raft_error =
    ErrInvalidConfig | ErrInvalidState | ErrInvalidInput | ErrNotLeader
  | ErrAwaitingPersistence | ErrUnexpectedPersistence | ErrTermExhausted
  | ErrIndexExhausted | ErrNotVoter | ErrMembershipInProgress

section \<open>Roles and byte-sized enumerations\<close>

datatype Role = Follower | Candidate | Leader

type_synonym EntryType = u8

definition EntryNoop :: EntryType where [const_defs]: "EntryNoop = 1"
definition EntryCommand :: EntryType where [const_defs]: "EntryCommand = 2"
definition EntryConfigJoint :: EntryType where [const_defs]: "EntryConfigJoint = 3"
definition EntryConfigFinal :: EntryType where [const_defs]: "EntryConfigFinal = 4"

type_synonym MessageType = u8

definition RequestVote :: MessageType where [const_defs]: "RequestVote = 1"
definition RequestVoteResponse :: MessageType where [const_defs]: "RequestVoteResponse = 2"
definition AppendEntries :: MessageType where [const_defs]: "AppendEntries = 3"
definition AppendEntriesResponse :: MessageType where [const_defs]: "AppendEntriesResponse = 4"
definition InstallSnapshot :: MessageType where [const_defs]: "InstallSnapshot = 5"
definition InstallSnapshotResponse :: MessageType where [const_defs]: "InstallSnapshotResponse = 6"

section \<open>Durable state\<close>

record Membership =
  Voters :: "NodeID list"
  VotersOutgoing :: "NodeID list"
  Learners :: "NodeID list"
  LearnersNext :: "NodeID list"

text \<open>The zero value \<open>Membership{}\<close>.\<close>

definition zeroMembership :: Membership where
  "zeroMembership = \<lparr>Voters = [], VotersOutgoing = [], Learners = [], LearnersNext = []\<rparr>"

record Entry =
  eIndex :: u64
  eTerm :: u64
  eType :: EntryType
  eData :: bytes
  eMembership :: Membership

record HardState =
  CurrentTerm :: u64
  VotedFor :: NodeID
  CommitIndex :: u64

record Snapshot =
  LastIncludedIndex :: u64
  LastIncludedTerm :: u64
  sMembers :: "NodeID list"
  sData :: bytes
  sMembership :: Membership

definition zeroSnapshot :: Snapshot where
  "zeroSnapshot = \<lparr>LastIncludedIndex = 0, LastIncludedTerm = 0, sMembers = [], sData = [],
     sMembership = zeroMembership\<rparr>"

record PersistentState =
  hardState :: HardState
  snapshot :: Snapshot
  log :: "Entry list"

text \<open>The zero value \<open>PersistentState{}\<close> of a node that never wrote.\<close>

definition zeroState :: PersistentState where
  "zeroState = \<lparr>hardState = \<lparr>CurrentTerm = 0, VotedFor = [], CommitIndex = 0\<rparr>,
     snapshot = zeroSnapshot, log = []\<rparr>"

record Config =
  cID :: NodeID
  cMembers :: "NodeID list"
  cVoters :: "NodeID list"
  cLearners :: "NodeID list"
  AppliedIndex :: u64

section \<open>Messages, inputs and effects\<close>

record Message =
  mType :: MessageType
  mFrom :: NodeID
  mTo :: NodeID
  mTerm :: u64
  mSequence :: u64
  mLastLogIndex :: u64
  mLastLogTerm :: u64
  mVoteGranted :: bool
  mPrevLogIndex :: u64
  mPrevLogTerm :: u64
  mEntries :: "Entry list"
  mLeaderCommit :: u64
  mSuccess :: bool
  mMatchIndex :: u64
  mRejectHint :: u64
  mSnapshot :: Snapshot

definition zeroMessage :: Message where
  "zeroMessage = \<lparr>mType = 0, mFrom = [], mTo = [], mTerm = 0, mSequence = 0, mLastLogIndex = 0,
     mLastLogTerm = 0, mVoteGranted = False, mPrevLogIndex = 0, mPrevLogTerm = 0, mEntries = [],
     mLeaderCommit = 0, mSuccess = False, mMatchIndex = 0, mRejectHint = 0,
     mSnapshot = zeroSnapshot\<rparr>"

text \<open>\<open>Input\<close> with an unknown kind byte reaches the \<open>default\<close> branch of \<open>Step\<close>.\<close>

datatype Input =
    InputElectionTimeout
  | InputHeartbeatTimeout
  | InputMessage Message
  | InputProposal bytes
  | InputPersisted u64
  | InputSnapshot u64 bytes
  | InputBeginMembership "NodeID list" "NodeID list"
  | InputFinalizeMembership
  | InputUnknown u8

datatype Effect =
    EffectPersist u64 PersistentState
  | EffectSend Message
  | EffectResetElectionTimer
  | EffectResetHeartbeatTimer
  | EffectApply Entry
  | EffectInstallSnapshot Snapshot

section \<open>The node\<close>

text \<open>
  \<open>type Node struct\<close> of \<open>src/raft/node.go\<close>. \<open>votes\<close> is a Go map used as a set: its keys, without
  repetition, or \<open>None\<close> when the map is \<open>nil\<close>. \<open>pending\<close> is the outstanding write: its token and
  the effects it holds back.
\<close>

record Node =
  nid :: NodeID
  members :: "NodeID list"
  initialMembership :: Membership
  membership :: Membership
  role :: Role
  leader :: NodeID
  state :: PersistentState
  applied :: u64
  votes :: "NodeID list option"
  electionVotes :: "NodeID list"
  electionMembership :: Membership
  nextIndex :: "(NodeID, u64) gomap"
  matchIndex :: "(NodeID, u64) gomap"
  appendSequence :: "(NodeID, u64) gomap"
  nextWriteToken :: u64
  pending :: "(u64 \<times> Effect list) option"

end
