(* ===== verification/RaftMembership.thy ===== *)
theory RaftMembership
  imports RaftData
begin

text \<open>
  Voting configurations (\<open>src/raft/membership.go\<close>): canonical node sets, stable and joint
  configurations, quorums, and the transition a log entry makes. The quorum interface is the
  locale \<open>quorum_system\<close>, interpreted on \<^term>\<open>majorityMatches\<close>; joint quorums inherit intersection
  with both halves from it.
\<close>

section \<open>Operations\<close>

definition Joint :: "Membership \<Rightarrow> bool" where
  "Joint m \<longleftrightarrow> length (VotersOutgoing m) > 0"

definition membershipIsZero :: "Membership \<Rightarrow> bool" where
  "membershipIsZero m \<longleftrightarrow> length (Voters m) = 0 \<and> length (VotersOutgoing m) = 0
     \<and> length (Learners m) = 0 \<and> length (LearnersNext m) = 0"

definition isVoter :: "Membership \<Rightarrow> NodeID \<Rightarrow> bool" where
  "isVoter m i \<longleftrightarrow> i \<in> set (Voters m) \<or> i \<in> set (VotersOutgoing m)"

text \<open>The counting loop of \<open>majorityMatches\<close>.\<close>

fun countMatches :: "(NodeID \<Rightarrow> bool) \<Rightarrow> NodeID list \<Rightarrow> nat \<Rightarrow> nat" where
  "countMatches matches [] c = c"
| "countMatches matches (v # vs) c = countMatches matches vs (if matches v then Suc c else c)"

definition majorityMatches :: "NodeID list \<Rightarrow> (NodeID \<Rightarrow> bool) \<Rightarrow> bool" where
  "majorityMatches voters matches \<longleftrightarrow> countMatches matches voters 0 \<ge> length voters div 2 + 1"

definition quorum :: "Membership \<Rightarrow> (NodeID \<Rightarrow> bool) \<Rightarrow> bool" where
  "quorum m matches \<longleftrightarrow>
     (if \<not> majorityMatches (Voters m) matches then False
      else length (VotersOutgoing m) = 0 \<or> majorityMatches (VotersOutgoing m) matches)"

definition HasQuorum :: "Membership \<Rightarrow> NodeID list \<Rightarrow> bool" where
  "HasQuorum m nodes \<longleftrightarrow> quorum m (\<lambda>i. i \<in> set nodes)"

definition stableMembership :: "NodeID list \<Rightarrow> NodeID list \<Rightarrow> Membership" where
  "stableMembership vs ls =
     \<lparr>Voters = sort vs, VotersOutgoing = [], Learners = sort ls, LearnersNext = []\<rparr>"

text \<open>The loop of \<open>canonicalNodeSet\<close>; the first argument is the previous element, if any.\<close>

fun canonicalNodes :: "NodeID option \<Rightarrow> NodeID list \<Rightarrow> NodeID list \<Rightarrow> bool" where
  "canonicalNodes prev [] universe = True"
| "canonicalNodes prev (n # ns) universe =
     (if n = [] \<or> n \<notin> set universe \<or> prev = Some n then False
      else canonicalNodes (Some n) ns universe)"

definition canonicalNodeSet :: "NodeID list \<Rightarrow> NodeID list \<Rightarrow> bool" where
  "canonicalNodeSet nodes universe \<longleftrightarrow> sorted nodes \<and> canonicalNodes None nodes universe"

definition validateMembership :: "Membership \<Rightarrow> NodeID list \<Rightarrow> bool" where
  "validateMembership m universe \<longleftrightarrow>
     (if length (Voters m) = 0 \<or> \<not> canonicalNodeSet (Voters m) universe
         \<or> \<not> canonicalNodeSet (VotersOutgoing m) universe
         \<or> \<not> canonicalNodeSet (Learners m) universe
         \<or> \<not> canonicalNodeSet (LearnersNext m) universe then False
      else if \<not> Joint m \<and> length (LearnersNext m) \<noteq> 0 then False
      else if \<exists>v \<in> set (Voters m). v \<in> set (Learners m) \<or> v \<in> set (LearnersNext m) then False
      else if \<exists>v \<in> set (VotersOutgoing m). v \<in> set (Learners m) then False
      else True)"

definition ValidateMembership :: "Membership \<Rightarrow> NodeID list \<Rightarrow> bool" where
  "ValidateMembership m universe = validateMembership m (sort universe)"

definition membershipsEqual :: "Membership \<Rightarrow> Membership \<Rightarrow> bool" where
  "membershipsEqual l r \<longleftrightarrow> Voters l = Voters r \<and> VotersOutgoing l = VotersOutgoing r
     \<and> Learners l = Learners r \<and> LearnersNext l = LearnersNext r"

definition initialMembershipOf :: "Config \<Rightarrow> NodeID list \<Rightarrow> Membership \<times> bool" where
  "initialMembershipOf c universe =
     (if length (cVoters c) = 0 \<and> length (cLearners c) = 0
      then (stableMembership universe [], True)
      else let m = stableMembership (cVoters c) (cLearners c)
           in (m, validateMembership m universe))"

text \<open>The learners of a joint configuration: those of the next one that are no outgoing voters.\<close>

definition jointLearnersOf :: "NodeID list \<Rightarrow> NodeID list \<Rightarrow> NodeID list" where
  "jointLearnersOf next outgoing = filter (\<lambda>l. l \<notin> set outgoing) next"

text \<open>\<open>None\<close> is the \<open>false\<close> result.\<close>

definition transitionMembership :: "Membership \<Rightarrow> Entry \<Rightarrow> NodeID list \<Rightarrow> Membership option" where
  "transitionMembership current entry universe =
     (let em = eMembership entry in
      if eType entry = EntryConfigJoint then
        (if length (eData entry) \<noteq> 0 \<or> Joint current \<or> \<not> Joint em
            \<or> \<not> validateMembership em universe \<or> VotersOutgoing em \<noteq> Voters current then None
         else if Learners em \<noteq> jointLearnersOf (LearnersNext em) (VotersOutgoing em) then None
         else Some em)
      else if eType entry = EntryConfigFinal then
        (if length (eData entry) \<noteq> 0 \<or> \<not> Joint current \<or> Joint em
            \<or> \<not> validateMembership em universe \<or> Voters em \<noteq> Voters current
            \<or> Learners em \<noteq> LearnersNext current then None
         else Some em)
      else if \<not> membershipIsZero em then None
      else Some current)"

fun unionInto :: "NodeID list \<Rightarrow> NodeID list \<Rightarrow> NodeID list" where
  "unionInto result [] = result"
| "unionInto result (v # vs) = unionInto (if v \<in> set result then result else result @ [v]) vs"

definition voterUnion :: "Membership \<Rightarrow> NodeID list" where
  "voterUnion m = sort (unionInto (Voters m) (VotersOutgoing m))"

section \<open>Canonical node sets\<close>

lemma canonicalNodes_iff:
  "canonicalNodes prev nodes universe \<longleftrightarrow>
     [] \<notin> set nodes \<and> set nodes \<subseteq> set universe
     \<and> successively (\<noteq>) (case prev of None \<Rightarrow> nodes | Some p \<Rightarrow> p # nodes)"
  by (induction prev nodes universe rule: canonicalNodes.induct)
    (auto split: option.splits simp: successively_Cons)

lemma sorted_successively_neq:
  "sorted xs \<Longrightarrow> successively (\<noteq>) xs \<Longrightarrow> distinct (xs :: 'a :: linorder list)"
proof (induction xs)
  case (Cons x xs)
  show ?case
  proof (cases xs)
    case (Cons y ys)
    with Cons.prems have "x < y" and "sorted (y # ys)"
      by auto
    then have "x \<notin> set xs"
      using \<open>xs = y # ys\<close> by auto
    with Cons.prems Cons.IH show ?thesis
      using \<open>xs = y # ys\<close> by (auto simp: successively_Cons)
  qed simp
qed simp

lemma distinct_successively_neq: "distinct xs \<Longrightarrow> successively (\<noteq>) xs"
  by (induction xs) (auto simp: successively_Cons neq_Nil_conv)

lemma canonicalNodeSet_iff:
  "canonicalNodeSet nodes universe \<longleftrightarrow>
     sorted nodes \<and> distinct nodes \<and> [] \<notin> set nodes \<and> set nodes \<subseteq> set universe"
  by (auto simp: canonicalNodeSet_def canonicalNodes_iff
      intro: sorted_successively_neq distinct_successively_neq)

lemma canonicalNodeSet_Nil [simp]: "canonicalNodeSet [] universe"
  by (simp add: canonicalNodeSet_def)

lemma validateMembership_iff:
  "validateMembership m universe \<longleftrightarrow>
     Voters m \<noteq> [] \<and> canonicalNodeSet (Voters m) universe
     \<and> canonicalNodeSet (VotersOutgoing m) universe
     \<and> canonicalNodeSet (Learners m) universe \<and> canonicalNodeSet (LearnersNext m) universe
     \<and> (VotersOutgoing m = [] \<longrightarrow> LearnersNext m = [])
     \<and> set (Voters m) \<inter> (set (Learners m) \<union> set (LearnersNext m)) = {}
     \<and> set (VotersOutgoing m) \<inter> set (Learners m) = {}"
  by (auto simp: validateMembership_def Joint_def)

lemma membershipsEqual_iff [simp]: "membershipsEqual l r \<longleftrightarrow> l = r"
  by (cases l; cases r) (auto simp: membershipsEqual_def)

lemma membershipIsZero_iff: "membershipIsZero m \<longleftrightarrow> m = zeroMembership"
  by (cases m) (auto simp: membershipIsZero_def zeroMembership_def)

section \<open>Quorums\<close>

lemma countMatches_filter: "countMatches f vs c = c + length (filter f vs)"
  by (induction f vs c rule: countMatches.induct) auto

lemma majorityMatches_filter:
  "majorityMatches vs f \<longleftrightarrow> length vs div 2 + 1 \<le> length (filter f vs)"
  by (simp add: majorityMatches_def countMatches_filter)

text \<open>
  What a protocol step relies on when it counts answers: supersets of a quorum are quorums, and
  two quorums of the same voters share a member.
\<close>

locale quorum_system =
  fixes quorate :: "'c \<Rightarrow> (NodeID \<Rightarrow> bool) \<Rightarrow> bool"
    and valid :: "'c \<Rightarrow> bool"
    and voters :: "'c \<Rightarrow> NodeID set"
  assumes quorate_mono: "quorate c P \<Longrightarrow> (\<And>i. i \<in> voters c \<Longrightarrow> P i \<Longrightarrow> Q i) \<Longrightarrow> quorate c Q"
    and quorate_share: "valid c \<Longrightarrow> quorate c P \<Longrightarrow> quorate c Q \<Longrightarrow> \<exists>i \<in> voters c. P i \<and> Q i"
begin

text \<open>If every voter follows one candidate at most, two candidates with a quorum coincide.\<close>

lemma unique_winner:
  assumes "valid c" and "quorate c (\<lambda>i. pick i = Some a)" and "quorate c (\<lambda>i. pick i = Some b)"
  shows "a = b"
  using quorate_share [OF assms] by auto

lemma quorate_nonempty: "valid c \<Longrightarrow> quorate c P \<Longrightarrow> \<exists>i \<in> voters c. P i"
  using quorate_share [of c P P] by auto

end

lemma majorityMatches_mono:
  assumes "majorityMatches vs P" and "\<And>i. i \<in> set vs \<Longrightarrow> P i \<Longrightarrow> Q i"
  shows "majorityMatches vs Q"
proof -
  have "length (filter P vs) \<le> length (filter Q vs)"
    using assms(2) by (induction vs) auto
  with assms(1) show ?thesis
    by (simp add: majorityMatches_filter)
qed

interpretation maj: quorum_system majorityMatches distinct set
proof unfold_locales
  show "majorityMatches c Q" if "majorityMatches c P" "\<And>i. i \<in> set c \<Longrightarrow> P i \<Longrightarrow> Q i" for c P Q
    using that by (rule majorityMatches_mono)
  show "\<exists>i \<in> set c. P i \<and> Q i"
    if "distinct c" "majorityMatches c P" "majorityMatches c Q" for c P Q
    using that majorities_share [of c P Q] by (simp add: majorityMatches_filter)
qed

text \<open>The configuration's own quorum, over all its voters.\<close>

definition electorate :: "Membership \<Rightarrow> NodeID set" where
  "electorate m = set (Voters m) \<union> set (VotersOutgoing m)"

lemma isVoter_electorate: "isVoter m i \<longleftrightarrow> i \<in> electorate m"
  by (simp add: isVoter_def electorate_def)

lemma quorum_iff:
  "quorum m f \<longleftrightarrow> majorityMatches (Voters m) f
     \<and> (VotersOutgoing m = [] \<or> majorityMatches (VotersOutgoing m) f)"
  by (simp add: quorum_def)

interpretation cfg: quorum_system quorum "\<lambda>m. distinct (Voters m)" electorate
proof unfold_locales
  show "quorum m Q" if "quorum m P" "\<And>i. i \<in> electorate m \<Longrightarrow> P i \<Longrightarrow> Q i" for m P Q
    using that majorityMatches_mono [of "Voters m" P Q] majorityMatches_mono [of "VotersOutgoing m" P Q]
    by (auto simp: quorum_iff electorate_def)
  show "\<exists>i \<in> electorate m. P i \<and> Q i"
    if "distinct (Voters m)" "quorum m P" "quorum m Q" for m P Q
    using that maj.quorate_share [of "Voters m" P Q] by (auto simp: quorum_iff electorate_def)
qed

text \<open>Quorums of configurations one log entry apart share a voter: a joint configuration keeps the old
  voters as its outgoing half, and a final one keeps the incoming half.\<close>

definition adjacent :: "Membership \<Rightarrow> Membership \<Rightarrow> bool" where
  "adjacent m m' \<longleftrightarrow> (\<exists>e u. transitionMembership m e u = Some m')"

lemma adjacent_share:
  assumes adj: "adjacent m m'" and d: "distinct (Voters m)" and q: "quorum m P" "quorum m' Q"
  shows "\<exists>i \<in> electorate m \<inter> electorate m'. P i \<and> Q i"
proof -
  from adj obtain e u where tr: "transitionMembership m e u = Some m'"
    by (auto simp: adjacent_def)
  consider "VotersOutgoing m' = Voters m" "VotersOutgoing m' \<noteq> []" | "Voters m' = Voters m" | "m' = m"
    using tr by (auto simp: transitionMembership_def Let_def Joint_def split: if_splits)
  then show ?thesis
  proof cases
    case 1
    then have "\<exists>i \<in> set (Voters m). P i \<and> Q i"
      using q d by (intro maj.quorate_share) (auto simp: quorum_iff)
    with 1 show ?thesis by (auto simp: electorate_def)
  next
    case 2
    then have "\<exists>i \<in> set (Voters m). P i \<and> Q i"
      using q d by (intro maj.quorate_share) (auto simp: quorum_iff)
    with 2 show ?thesis by (auto simp: electorate_def)
  next
    case 3
    then show ?thesis
      using cfg.quorate_share [OF d q(1)] q(2) by simp
  qed
qed

end
