(* ===== verification/RaftConfig.thy ===== *)
theory RaftConfig
  imports RaftMembership
begin

text \<open>
  \<open>Config.validate\<close> of \<open>src/raft/types.go\<close>: the checks a durable state passes before a node is
  built from it. The loop over the log is \<^term>\<open>validateLog\<close>; what it accepts is stated
  independently as \<^term>\<open>wfEntries\<close> (contiguous indices, non-zero non-decreasing terms, known entry
  types) and \<^term>\<open>memChain\<close> (the configuration changes in the log form a legal chain).
\<close>

section \<open>Validation of a durable state\<close>

text \<open>The loop over the sorted members: \<open>Some\<close> on a repeated neighbour.\<close>

fun hasDuplicateNeighbour :: "NodeID list \<Rightarrow> bool" where
  "hasDuplicateNeighbour (a # b # xs) = (if b = a then True else hasDuplicateNeighbour (b # xs))"
| "hasDuplicateNeighbour _ = False"

fun validateLog ::
    "HardState \<Rightarrow> NodeID list \<Rightarrow> u64 \<Rightarrow> nat \<Rightarrow> u64 \<Rightarrow> Membership \<Rightarrow> Entry list \<Rightarrow> bool" where
  "validateLog hs universe boundary index previousTerm m [] = True"
| "validateLog hs universe boundary index previousTerm m (entry # rest) =
     (let want = boundary + of_nat index + 1 in
      if eIndex entry \<noteq> want \<or> eTerm entry = 0 \<or> eTerm entry > CurrentTerm hs
         \<or> eTerm entry < previousTerm \<or> eType entry < EntryNoop \<or> eType entry > EntryConfigFinal
      then False
      else if eType entry = EntryConfigFinal \<and> CommitIndex hs < eIndex entry - 1 then False
      else case transitionMembership m entry universe of
             None \<Rightarrow> False
           | Some m' \<Rightarrow> validateLog hs universe boundary (Suc index) (eTerm entry) m' rest)"

definition validateTail ::
    "Config \<Rightarrow> PersistentState \<Rightarrow> NodeID list \<Rightarrow> Membership \<Rightarrow> raft_error option" where
  "validateTail c st universe m =
     (let snap = snapshot st; hs = hardState st; boundary = LastIncludedIndex snap in
      if MaxUint64 - boundary < of_nat (length (log st)) then Some ErrInvalidState
      else if \<not> validateLog hs universe boundary 0 (LastIncludedTerm snap) m (log st)
      then Some ErrInvalidState
      else let last = boundary + of_nat (length (log st)) in
        if CommitIndex hs < boundary \<or> CommitIndex hs > last \<or> AppliedIndex c > CommitIndex hs
        then Some ErrInvalidState
        else None)"

text \<open>\<open>None\<close> is \<open>nil\<close>: the configuration and the state are accepted.\<close>

definition validate :: "Config \<Rightarrow> PersistentState \<Rightarrow> raft_error option" where
  "validate c st =
     (if cID c = [] \<or> length (cMembers c) = 0 then Some ErrInvalidConfig
      else let universe = sort (cMembers c) in
        if [] \<in> set universe then Some ErrInvalidConfig
        else if hasDuplicateNeighbour universe then Some ErrInvalidConfig
        else if cID c \<notin> set universe then Some ErrInvalidConfig
        else let (m, valid) = initialMembershipOf c universe; snap = snapshot st in
          if \<not> valid then Some ErrInvalidConfig
          else if LastIncludedIndex snap = 0 then
            (if LastIncludedTerm snap \<noteq> 0 \<or> length (sMembers snap) \<noteq> 0
                \<or> length (sData snap) \<noteq> 0 \<or> \<not> membershipIsZero (sMembership snap)
             then Some ErrInvalidState
             else validateTail c st universe m)
          else if LastIncludedTerm snap = 0
                 \<or> LastIncludedTerm snap > CurrentTerm (hardState st) \<or> sMembers snap \<noteq> universe
          then Some ErrInvalidState
          else if \<not> membershipIsZero (sMembership snap) then
            (if \<not> validateMembership (sMembership snap) universe then Some ErrInvalidState
             else validateTail c st universe (sMembership snap))
          else if \<not> membershipsEqual m (stableMembership universe []) then Some ErrInvalidState
          else validateTail c st universe m)"

section \<open>What an accepted log looks like\<close>

text \<open>Entries that follow index \<open>b\<close> and term \<open>t\<close>, in no term above \<open>cap\<close>.\<close>

fun wfEntries :: "u64 \<Rightarrow> u64 \<Rightarrow> u64 \<Rightarrow> Entry list \<Rightarrow> bool" where
  "wfEntries b t cap [] = True"
| "wfEntries b t cap (e # es) =
     (eIndex e = b + 1 \<and> eTerm e \<noteq> 0 \<and> t \<le> eTerm e \<and> eTerm e \<le> cap
      \<and> EntryNoop \<le> eType e \<and> eType e \<le> EntryConfigFinal \<and> wfEntries (b + 1) (eTerm e) cap es)"

text \<open>The configuration after a sequence of entries, if every transition is legal.\<close>

fun memChain :: "NodeID list \<Rightarrow> Membership \<Rightarrow> Entry list \<Rightarrow> Membership option" where
  "memChain universe m [] = Some m"
| "memChain universe m (e # es) =
     (case transitionMembership m e universe of None \<Rightarrow> None
      | Some m' \<Rightarrow> memChain universe m' es)"

lemma memChain_append:
  "memChain u m (xs @ ys) = (case memChain u m xs of None \<Rightarrow> None | Some m' \<Rightarrow> memChain u m' ys)"
  by (induction xs arbitrary: m) (auto split: option.splits)

lemma memChain_prefix: "memChain u m (xs @ ys) \<noteq> None \<Longrightarrow> memChain u m xs \<noteq> None"
  by (auto simp: memChain_append split: option.splits)

lemma wfEntries_append:
  "wfEntries b t cap (xs @ ys) \<longleftrightarrow>
     wfEntries b t cap xs
     \<and> wfEntries (b + of_nat (length xs)) (if xs = [] then t else eTerm (last xs)) cap ys"
  by (induction b t cap xs rule: wfEntries.induct) (auto simp: algebra_simps)

lemma wfEntries_top: "wfEntries b t cap es \<Longrightarrow> cap \<le> cap' \<Longrightarrow> wfEntries b t cap' es"
  by (induction b t cap es rule: wfEntries.induct) auto

lemma wfEntries_low: "wfEntries b t cap es \<Longrightarrow> t' \<le> t \<Longrightarrow> wfEntries b t' cap es"
  by (cases es) auto

lemma wfEntries_nth:
  assumes "wfEntries b t cap es" and "k < length es"
  shows "eIndex (es ! k) = b + of_nat (Suc k)"
    and "eTerm (es ! k) \<noteq> 0" and "t \<le> eTerm (es ! k)" and "eTerm (es ! k) \<le> cap"
    and "EntryNoop \<le> eType (es ! k)" and "eType (es ! k) \<le> EntryConfigFinal"
proof -
  have "eIndex (es ! k) = b + of_nat (Suc k) \<and> eTerm (es ! k) \<noteq> 0 \<and> t \<le> eTerm (es ! k)
      \<and> eTerm (es ! k) \<le> cap \<and> EntryNoop \<le> eType (es ! k) \<and> eType (es ! k) \<le> EntryConfigFinal"
    using assms
  proof (induction b t cap es arbitrary: k rule: wfEntries.induct)
    case (2 b t cap e es)
    show ?case
    proof (cases k)
      case (Suc j)
      with 2 have "eIndex (es ! j) = (b + 1) + of_nat (Suc j)" and "eTerm e \<le> eTerm (es ! j)"
        by auto
      with 2 Suc show ?thesis
        by (auto simp: algebra_simps intro: order_trans)
    qed (use 2 in auto)
  qed simp
  then show "eIndex (es ! k) = b + of_nat (Suc k)"
    and "eTerm (es ! k) \<noteq> 0" and "t \<le> eTerm (es ! k)" and "eTerm (es ! k) \<le> cap"
    and "EntryNoop \<le> eType (es ! k)" and "eType (es ! k) \<le> EntryConfigFinal"
    by auto
qed

lemma validateLog_sound:
  "validateLog hs u b k t m es \<Longrightarrow>
     wfEntries (b + of_nat k) t (CurrentTerm hs) es \<and> memChain u m es \<noteq> None"
proof (induction hs u b k t m es rule: validateLog.induct)
  case (2 hs u b k t m e es)
  from "2.prems" obtain m' where m': "transitionMembership m e u = Some m'"
    and v: "validateLog hs u b (Suc k) (eTerm e) m' es"
    and e: "eIndex e = b + of_nat k + 1" "eTerm e \<noteq> 0" "eTerm e \<le> CurrentTerm hs" "t \<le> eTerm e"
      "EntryNoop \<le> eType e" "eType e \<le> EntryConfigFinal"
    by (auto simp: Let_def not_less split: if_splits option.splits)
  have "wfEntries (b + of_nat (Suc k)) (eTerm e) (CurrentTerm hs) es \<and> memChain u m' es \<noteq> None"
    using 2 m' v e by (auto simp: Let_def not_less split: if_splits)
  with m' e show ?case
    by (auto simp: algebra_simps)
qed simp

lemma hasDuplicateNeighbour_iff:
  "hasDuplicateNeighbour xs \<longleftrightarrow> \<not> successively (\<noteq>) xs"
  by (induction xs rule: hasDuplicateNeighbour.induct) auto

end
