(* ===== verification/RaftNode.thy ===== *)
theory RaftNode
  imports RaftConfig
begin

text \<open>
  The pure Raft state machine of \<open>src/raft/node.go\<close>, one definition per method. A method that
  mutates its receiver takes the node and returns the new one. \<open>None\<close> is a Go panic (a committed
  entry that is unavailable, an illegal configuration chain, a write to a \<open>nil\<close> map); an error
  return is \<open>Inl\<close> beside the node as the method left it. The handlers' three results
  \<open>(dirty, effects, err)\<close> are \<open>Inr (dirty, effects)\<close> or \<open>Inl err\<close>.
\<close>

section \<open>Log access\<close>

abbreviation hs :: "Node \<Rightarrow> HardState" where "hs n \<equiv> hardState (state n)"
abbreviation snap :: "Node \<Rightarrow> Snapshot" where "snap n \<equiv> snapshot (state n)"
abbreviation nlog :: "Node \<Rightarrow> Entry list" where "nlog n \<equiv> log (state n)"
abbreviation boundary :: "Node \<Rightarrow> u64" where "boundary n \<equiv> LastIncludedIndex (snap n)"

definition nextIndexAfter :: "u64 \<Rightarrow> u64" where
  "nextIndexAfter index = (if index = MaxUint64 then MaxUint64 else index + 1)"

definition lastIndex :: "Node \<Rightarrow> u64" where
  "lastIndex n = boundary n + of_nat (length (nlog n))"

definition entryAt :: "Node \<Rightarrow> u64 \<Rightarrow> Entry option" where
  "entryAt n index =
     (if index \<le> boundary n \<or> index > lastIndex n then None
      else Some (nlog n ! unat (index - boundary n - 1)))"

definition termAt :: "Node \<Rightarrow> u64 \<Rightarrow> u64" where
  "termAt n index =
     (if index = 0 then 0
      else if index = boundary n then LastIncludedTerm (snap n)
      else case entryAt n index of None \<Rightarrow> 0 | Some e \<Rightarrow> eTerm e)"

definition lastTerm :: "Node \<Rightarrow> u64" where
  "lastTerm n = termAt n (lastIndex n)"

definition entriesFrom :: "Node \<Rightarrow> u64 \<Rightarrow> Entry list" where
  "entriesFrom n index =
     (if index \<le> boundary n then nlog n
      else if index > lastIndex n then []
      else drop (unat (index - boundary n - 1)) (nlog n))"

definition setLog :: "Entry list \<Rightarrow> Node \<Rightarrow> Node" where
  "setLog es n = n\<lparr>state := (state n)\<lparr>log := es\<rparr>\<rparr>"

definition setHard :: "HardState \<Rightarrow> Node \<Rightarrow> Node" where
  "setHard h n = n\<lparr>state := (state n)\<lparr>hardState := h\<rparr>\<rparr>"

definition truncateFrom :: "u64 \<Rightarrow> Node \<Rightarrow> Node" where
  "truncateFrom index n =
     (if index \<le> boundary n then setLog [] n
      else if index \<le> lastIndex n then setLog (take (unat (index - boundary n - 1)) (nlog n)) n
      else n)"

definition candidateLogIsUpToDate :: "Node \<Rightarrow> u64 \<Rightarrow> u64 \<Rightarrow> bool" where
  "candidateLogIsUpToDate n index term \<longleftrightarrow>
     term > lastTerm n \<or> term = lastTerm n \<and> index \<ge> lastIndex n"

section \<open>The configuration in force\<close>

text \<open>The loop of \<open>membershipAt\<close>: entries up to \<open>index\<close>, other entry types skipped.\<close>

fun membershipLoop :: "NodeID list \<Rightarrow> u64 \<Rightarrow> Membership \<Rightarrow> Entry list \<Rightarrow> Membership option" where
  "membershipLoop universe index m [] = Some m"
| "membershipLoop universe index m (e # es) =
     (if eIndex e > index then Some m
      else if eType e \<noteq> EntryConfigJoint \<and> eType e \<noteq> EntryConfigFinal
      then membershipLoop universe index m es
      else case transitionMembership m e universe of
             None \<Rightarrow> None
           | Some m' \<Rightarrow> membershipLoop universe index m' es)"

definition baseMembership :: "Node \<Rightarrow> u64 \<Rightarrow> Membership" where
  "baseMembership n index =
     (if boundary n > 0 \<and> index \<ge> boundary n
      then if membershipIsZero (sMembership (snap n)) then stableMembership (sMembers (snap n)) []
           else sMembership (snap n)
      else initialMembership n)"

definition membershipAt :: "Node \<Rightarrow> u64 \<Rightarrow> Membership option" where
  "membershipAt n index = membershipLoop (members n) index (baseMembership n index) (nlog n)"

definition refreshMembership :: "Node \<Rightarrow> Node option" where
  "refreshMembership n =
     (case membershipAt n (lastIndex n) of None \<Rightarrow> None | Some m \<Rightarrow> Some (n\<lparr>membership := m\<rparr>))"

definition hasUncommittedConfiguration :: "Node \<Rightarrow> bool" where
  "hasUncommittedConfiguration n \<longleftrightarrow>
     (\<exists>e \<in> set (nlog n). eIndex e > CommitIndex (hs n)
        \<and> (eType e = EntryConfigJoint \<or> eType e = EntryConfigFinal))"

section \<open>Construction\<close>

definition New :: "Config \<Rightarrow> PersistentState \<Rightarrow> (raft_error + Node) option" where
  "New config st =
     (case validate config st of
        Some err \<Rightarrow> Some (Inl err)
      | None \<Rightarrow>
          (let universe = sort (cMembers config);
               (initial, _) = initialMembershipOf config universe;
               node = \<lparr>nid = cID config, members = universe, initialMembership = initial,
                 membership = zeroMembership, role = Follower, leader = [], state = st,
                 applied = AppliedIndex config, votes = None, electionVotes = [],
                 electionMembership = zeroMembership, nextIndex = None, matchIndex = None,
                 appendSequence = None, nextWriteToken = 1, pending = None\<rparr>
           in case refreshMembership node of None \<Rightarrow> None | Some n \<Rightarrow> Some (Inr n)))"

section \<open>Applying committed entries\<close>

function applyCommitted :: "Node \<Rightarrow> (Node \<times> Effect list) option" where
  "applyCommitted n =
     (if applied n < CommitIndex (hs n) then
        (let n1 = n\<lparr>applied := applied n + 1\<rparr> in
         case entryAt n1 (applied n1) of
           None \<Rightarrow> None
         | Some e \<Rightarrow> (case applyCommitted n1 of None \<Rightarrow> None
             | Some (n2, effs) \<Rightarrow> Some (n2, EffectApply e # effs)))
      else Some (n, []))"
  by pat_completeness auto
termination
proof (relation "measure (\<lambda>n. unat (CommitIndex (hs n)) - unat (applied n))", simp, goal_cases)
  case (1 n x e)
  then show ?case
    using unat_plus_one [of "applied n"] less_imp_not_MaxUint64 [of "applied n"]
    by (auto simp: word_less_nat_alt)
qed

declare applyCommitted.simps [simp del]

definition Start :: "Node \<Rightarrow> (Node \<times> Effect list) option" where
  "Start n =
     (let (n1, effs) =
        (if applied n < boundary n
         then (n\<lparr>applied := boundary n\<rparr>, [EffectInstallSnapshot (snap n)])
         else (n, []))
      in case applyCommitted n1 of None \<Rightarrow> None
         | Some (n2, applies) \<Rightarrow>
             Some (n2, effs @ applies @ (if isVoter (membership n2) (nid n2)
                                      then [EffectResetElectionTimer] else [])))"

section \<open>Roles\<close>

definition becomeFollower :: "u64 \<Rightarrow> NodeID \<Rightarrow> Node \<Rightarrow> Node" where
  "becomeFollower term lead n =
     (let n1 = n\<lparr>role := Follower, leader := lead, votes := None, electionVotes := [],
            electionMembership := zeroMembership, nextIndex := None, matchIndex := None,
            appendSequence := None\<rparr>
      in if term > CurrentTerm (hs n)
         then setHard ((hs n)\<lparr>CurrentTerm := term, VotedFor := []\<rparr>) n1
         else n1)"

text \<open>The loop of \<open>advanceCommit\<close>, from \<open>index\<close> down to the old commit index.\<close>

function advanceLoop :: "u64 \<Rightarrow> u64 \<Rightarrow> Node \<Rightarrow> (Node \<times> Effect list) option" where
  "advanceLoop index oldCommit n =
     (if index > oldCommit then
        (if termAt n index \<noteq> CurrentTerm (hs n) then advanceLoop (index - 1) oldCommit n
         else case membershipAt n index of
           None \<Rightarrow> None
         | Some m \<Rightarrow>
             if quorum m (\<lambda>i. map_get 0 (matchIndex n) i \<ge> index) then
               (let n1 = setHard ((hs n)\<lparr>CommitIndex := index\<rparr>) n in
                case applyCommitted n1 of
                  None \<Rightarrow> None
                | Some (n2, effs) \<Rightarrow>
                    Some (if role n2 = Leader \<and> \<not> isVoter (membership n2) (nid n2)
                          then becomeFollower (CurrentTerm (hs n2)) [] n2 else n2, effs))
             else advanceLoop (index - 1) oldCommit n)
      else Some (n, []))"
  by pat_completeness auto
termination
  by (relation "measure (\<lambda>(index, _, _). unat index)")
    (auto simp: word_less_nat_alt Prelude.unat_minus_one word_neq_0_conv)

declare advanceLoop.simps [simp del]

definition advanceCommit :: "Node \<Rightarrow> (Node \<times> Effect list) option" where
  "advanceCommit n = advanceLoop (lastIndex n) (CommitIndex (hs n)) n"

section \<open>Outgoing messages\<close>

definition appendResponse :: "Node \<Rightarrow> NodeID \<Rightarrow> u64 \<Rightarrow> bool \<Rightarrow> u64 \<Rightarrow> u64 \<Rightarrow> Message" where
  "appendResponse n dest sequence success match hint =
     zeroMessage\<lparr>mType := AppendEntriesResponse, mFrom := nid n, mTo := dest,
       mTerm := CurrentTerm (hs n), mSequence := sequence, mSuccess := success,
       mMatchIndex := match, mRejectHint := hint\<rparr>"

definition snapshotResponse :: "Node \<Rightarrow> NodeID \<Rightarrow> u64 \<Rightarrow> bool \<Rightarrow> u64 \<Rightarrow> Message" where
  "snapshotResponse n dest sequence success match =
     zeroMessage\<lparr>mType := InstallSnapshotResponse, mFrom := nid n, mTo := dest,
       mTerm := CurrentTerm (hs n), mSequence := sequence, mSuccess := success,
       mMatchIndex := match\<rparr>"

definition appendFor :: "NodeID \<Rightarrow> Node \<Rightarrow> (Node \<times> Message) option" where
  "appendFor member n =
     (case map_put member (map_get 0 (appendSequence n) member + 1) (appendSequence n) of
        None \<Rightarrow> None
      | Some seqs \<Rightarrow>
          (let n1 = n\<lparr>appendSequence := seqs\<rparr>;
               base = zeroMessage\<lparr>mFrom := nid n1, mTo := member, mTerm := CurrentTerm (hs n1),
                 mSequence := map_get 0 (appendSequence n1) member\<rparr>
           in if map_get 0 (matchIndex n1) member = MaxUint64 then
                Some (n1, base\<lparr>mType := AppendEntries, mPrevLogIndex := MaxUint64,
                  mPrevLogTerm := termAt n1 MaxUint64, mLeaderCommit := CommitIndex (hs n1)\<rparr>)
              else
                (let next0 = map_get 0 (nextIndex n1) member;
                     next1 = (if next0 = 0 then nextIndexAfter (lastIndex n1) else next0)
                 in if next1 \<le> boundary n1 then
                      Some (n1, base\<lparr>mType := InstallSnapshot, mSnapshot := snap n1\<rparr>)
                    else
                      (let prev = next1 - 1;
                           entries = (if next1 \<le> lastIndex n1 then entriesFrom n1 next1 else [])
                       in Some (n1, base\<lparr>mType := AppendEntries, mPrevLogIndex := prev,
                            mPrevLogTerm := termAt n1 prev, mEntries := entries,
                            mLeaderCommit := CommitIndex (hs n1)\<rparr>)))))"

fun broadcastLoop :: "NodeID list \<Rightarrow> Node \<Rightarrow> (Node \<times> Effect list) option" where
  "broadcastLoop [] n = Some (n, [])"
| "broadcastLoop (member # rest) n =
     (if member \<noteq> nid n then
        (case appendFor member n of None \<Rightarrow> None
         | Some (n1, msg) \<Rightarrow> (case broadcastLoop rest n1 of None \<Rightarrow> None
             | Some (n2, effs) \<Rightarrow> Some (n2, EffectSend msg # effs)))
      else broadcastLoop rest n)"

definition broadcastAppend :: "Node \<Rightarrow> (Node \<times> Effect list) option" where
  "broadcastAppend n = broadcastLoop (members n) n"

section \<open>Elections\<close>

definition becomeLeader :: "Node \<Rightarrow> (Node \<times> (raft_error + Effect list)) option" where
  "becomeLeader n =
     (if lastIndex n = MaxUint64 then Some (n, Inl ErrIndexExhausted)
      else do {
        let voted = (case votes n of None \<Rightarrow> [] | Some vs \<Rightarrow> vs);
        let last = lastIndex n;
        let noop = \<lparr>eIndex = last + 1, eTerm = CurrentTerm (hs n), eType = EntryNoop,
                    eData = [], eMembership = zeroMembership\<rparr>;
        let matches = AList.update (nid n) last (map (\<lambda>i. (i, 0)) (members n));
        let n1 = setLog (nlog n @ [noop])
          (n\<lparr>role := Leader, leader := nid n,
             electionVotes := filter (\<lambda>i. i \<in> set voted) (members n),
             electionMembership := membership n,
             nextIndex := Some (map (\<lambda>i. (i, last + 1)) (members n)),
             matchIndex := Some (AList.update (nid n) (eIndex noop) matches),
             appendSequence := Some []\<rparr>);
        (n2, commits) \<leftarrow> advanceCommit n1;
        (n3, sends) \<leftarrow> broadcastAppend n2;
        Some (n3, Inr ([EffectResetHeartbeatTimer] @ commits @ sends))
      })"

definition voteRequest :: "Node \<Rightarrow> NodeID \<Rightarrow> Message" where
  "voteRequest n member =
     zeroMessage\<lparr>mType := RequestVote, mFrom := nid n, mTo := member,
       mTerm := CurrentTerm (hs n), mLastLogIndex := lastIndex n, mLastLogTerm := lastTerm n\<rparr>"

definition startElection :: "Node \<Rightarrow> (Node \<times> (raft_error + bool \<times> Effect list)) option" where
  "startElection n =
     (if \<not> isVoter (membership n) (nid n) then Some (n, Inl ErrNotVoter)
      else if quorum (membership n) (\<lambda>i. i = nid n) \<and> lastIndex n = MaxUint64
      then Some (n, Inl ErrIndexExhausted)
      else
        let n1 = setHard ((hs n)\<lparr>CurrentTerm := CurrentTerm (hs n) + 1, VotedFor := nid n\<rparr>)
              (n\<lparr>role := Candidate, leader := [], votes := Some [nid n], electionVotes := [],
                 nextIndex := None, matchIndex := None, appendSequence := None\<rparr>)
        in if quorum (membership n1) (\<lambda>i. i \<in> set [nid n]) then
             (case becomeLeader n1 of
                None \<Rightarrow> None
              | Some (n2, Inl err) \<Rightarrow> Some (n2, Inl err)
              | Some (n2, Inr effs) \<Rightarrow> Some (n2, Inr (True, [EffectResetElectionTimer] @ effs)))
           else Some (n1, Inr (True, [EffectResetElectionTimer]
                  @ map (\<lambda>i. EffectSend (voteRequest n1 i))
                      (filter (\<lambda>i. i \<noteq> nid n1) (voterUnion (membership n1))))))"

definition handleRequestVote :: "Message \<Rightarrow> Node \<Rightarrow> Node \<times> bool \<times> Effect list" where
  "handleRequestVote msg n =
     (let granted = (mTerm msg = CurrentTerm (hs n) \<and> isVoter (membership n) (nid n)
            \<and> isVoter (membership n) (mFrom msg)
            \<and> (VotedFor (hs n) = [] \<or> VotedFor (hs n) = mFrom msg)
            \<and> candidateLogIsUpToDate n (mLastLogIndex msg) (mLastLogTerm msg));
          dirty = (granted \<and> VotedFor (hs n) \<noteq> mFrom msg);
          n1 = (if dirty then setHard ((hs n)\<lparr>VotedFor := mFrom msg\<rparr>) n else n);
          reply = EffectSend (zeroMessage\<lparr>mType := RequestVoteResponse, mFrom := nid n1,
            mTo := mFrom msg, mTerm := CurrentTerm (hs n1), mVoteGranted := granted\<rparr>)
      in (n1, dirty, if granted then [EffectResetElectionTimer, reply] else [reply]))"

definition handleRequestVoteResponse ::
    "Message \<Rightarrow> Node \<Rightarrow> (Node \<times> (raft_error + bool \<times> Effect list)) option" where
  "handleRequestVoteResponse msg n =
     (if role n \<noteq> Candidate \<or> mTerm msg \<noteq> CurrentTerm (hs n) \<or> \<not> mVoteGranted msg
      then Some (n, Inr (False, []))
      else case votes n of
        None \<Rightarrow> None
      | Some vs \<Rightarrow>
          if mFrom msg \<in> set vs then Some (n, Inr (False, []))
          else
            let n1 = n\<lparr>votes := Some (vs @ [mFrom msg])\<rparr>
            in if \<not> quorum (membership n1) (\<lambda>i. i \<in> set (vs @ [mFrom msg]))
               then Some (n1, Inr (False, []))
               else (case becomeLeader n1 of
                  None \<Rightarrow> None
                | Some (n2, Inl err) \<Rightarrow> Some (n2, Inl err)
                | Some (n2, Inr effs) \<Rightarrow> Some (n2, Inr (True, effs))))"

section \<open>Replication\<close>

text \<open>The validation loop over the incoming entries: \<open>Inl\<close> the index to report on a rejection.\<close>

fun checkIncoming ::
    "NodeID list \<Rightarrow> u64 \<Rightarrow> u64 \<Rightarrow> u64 \<Rightarrow> Membership \<Rightarrow> Entry list \<Rightarrow> u64 + unit" where
  "checkIncoming universe term index previousTerm m [] = Inr ()"
| "checkIncoming universe term index previousTerm m (e # es) =
     (if eIndex e \<noteq> index \<or> eTerm e = 0 \<or> eTerm e > term \<or> eTerm e < previousTerm
         \<or> eType e < EntryNoop \<or> eType e > EntryConfigFinal then Inl index
      else case transitionMembership m e universe of
             None \<Rightarrow> Inl index
           | Some m' \<Rightarrow> checkIncoming universe term (index + 1) (eTerm e) m' es)"

text \<open>The append loop: the node, the dirty flag, and whether it ran to its end.\<close>

fun appendLoop :: "u64 \<Rightarrow> Entry list \<Rightarrow> bool \<Rightarrow> Node \<Rightarrow> Node \<times> bool \<times> bool" where
  "appendLoop index [] dirty n = (n, dirty, True)"
| "appendLoop index (e # es) dirty n =
     (if index \<le> lastIndex n \<and> termAt n index = eTerm e then appendLoop (index + 1) es dirty n
      else
        let n1 = (if index \<le> lastIndex n then truncateFrom index n else n)
        in if index > lastIndex n1 then
             (if index \<noteq> nextIndexAfter (lastIndex n1) then (n1, dirty, False)
              else appendLoop (index + 1) es True (setLog (nlog n1 @ [e]) n1))
           else appendLoop (index + 1) es dirty n1)"

definition followLeader :: "Message \<Rightarrow> Node \<Rightarrow> Node" where
  "followLeader msg n =
     (if role n \<noteq> Follower \<or> leader n \<noteq> mFrom msg
      then becomeFollower (mTerm msg) (mFrom msg) n else n)"

definition rejectHintFor :: "Message \<Rightarrow> Node \<Rightarrow> u64" where
  "rejectHintFor msg n =
     (let hint = (if mPrevLogIndex msg < boundary n then nextIndexAfter (boundary n)
                  else min (mPrevLogIndex msg) (nextIndexAfter (lastIndex n)))
      in if hint = 0 then 1 else hint)"

definition rejectAppend :: "Message \<Rightarrow> u64 \<Rightarrow> Node \<Rightarrow> Effect list" where
  "rejectAppend msg hint n =
     [EffectResetElectionTimer,
      EffectSend (appendResponse n (mFrom msg) (mSequence msg) False 0 hint)]"

text \<open>The last part of \<open>handleAppendEntries\<close>: following the leader's commit index, and the reply.\<close>

definition finishAppend :: "Message \<Rightarrow> bool \<Rightarrow> Node \<Rightarrow> (Node \<times> bool \<times> Effect list) option" where
  "finishAppend msg dirty n =
     do {
       (n1, dirty1, applies) \<leftarrow>
         (if mLeaderCommit msg > CommitIndex (hs n) then do {
            (n', effs) \<leftarrow> applyCommitted
              (setHard ((hs n)\<lparr>CommitIndex := min (mLeaderCommit msg) (lastIndex n)\<rparr>) n);
            Some (n', True, effs)
          } else Some (n, dirty, []));
       let match = mPrevLogIndex msg + of_nat (length (mEntries msg));
       Some (n1, dirty1, [EffectResetElectionTimer] @ applies
         @ [EffectSend (appendResponse n1 (mFrom msg) (mSequence msg) True match 0)])
     }"

text \<open>The part of \<open>handleAppendEntries\<close> after the entries passed validation.\<close>

definition storeEntries :: "Message \<Rightarrow> Node \<Rightarrow> (Node \<times> bool \<times> Effect list) option" where
  "storeEntries msg n =
     (case appendLoop (mPrevLogIndex msg + 1) (mEntries msg) False n of
        (n1, dirty, False) \<Rightarrow>
          Some (n1, dirty, rejectAppend msg (nextIndexAfter (lastIndex n1)) n1)
      | (n1, dirty, True) \<Rightarrow> do {
          n2 \<leftarrow> (if dirty then refreshMembership n1 else Some n1);
          finishAppend msg dirty n2
        })"

definition handleAppendEntries :: "Message \<Rightarrow> Node \<Rightarrow> (Node \<times> bool \<times> Effect list) option" where
  "handleAppendEntries msg n0 =
     (if mTerm msg < CurrentTerm (hs n0) then
        Some (n0, False, [EffectSend (appendResponse n0 (mFrom msg) (mSequence msg) False 0
          (nextIndexAfter (lastIndex n0)))])
      else
        let n = followLeader msg n0
        in if mPrevLogIndex msg < boundary n \<or> termAt n (mPrevLogIndex msg) \<noteq> mPrevLogTerm msg
           then Some (n, False, rejectAppend msg (rejectHintFor msg n) n)
           else if of_nat (length (mEntries msg)) > MaxUint64 - mPrevLogIndex msg
           then Some (n, False, rejectAppend msg (nextIndexAfter (lastIndex n)) n)
           else case membershipAt n (mPrevLogIndex msg) of
             None \<Rightarrow> None
           | Some m \<Rightarrow>
               (case checkIncoming (members n) (mTerm msg) (mPrevLogIndex msg + 1)
                       (mPrevLogTerm msg) m (mEntries msg) of
                  Inl index \<Rightarrow> Some (n, False, rejectAppend msg index n)
                | Inr _ \<Rightarrow> storeEntries msg n))"

definition rejectSnapshot :: "Message \<Rightarrow> Node \<Rightarrow> Effect list" where
  "rejectSnapshot msg n =
     [EffectResetElectionTimer,
      EffectSend (snapshotResponse n (mFrom msg) (mSequence msg) False (boundary n))]"

definition snapshotMembershipOf :: "Snapshot \<Rightarrow> Membership" where
  "snapshotMembershipOf s =
     (if membershipIsZero (sMembership s) then stableMembership (sMembers s) [] else sMembership s)"

definition handleInstallSnapshot :: "Message \<Rightarrow> Node \<Rightarrow> (Node \<times> bool \<times> Effect list) option" where
  "handleInstallSnapshot msg n0 =
     (if mTerm msg < CurrentTerm (hs n0) then
        Some (n0, False, [EffectSend (snapshotResponse n0 (mFrom msg) (mSequence msg) False
          (boundary n0))])
      else
        let n = followLeader msg n0; s = mSnapshot msg; sm = snapshotMembershipOf s;
            legacyMismatch = (membershipIsZero (sMembership s)
              \<and> \<not> membershipsEqual (initialMembership n) (stableMembership (members n) []))
        in if LastIncludedIndex s = 0 \<or> LastIncludedTerm s = 0 \<or> LastIncludedTerm s > mTerm msg
              \<or> sMembers s \<noteq> members n \<or> \<not> validateMembership sm (members n) \<or> legacyMismatch
           then Some (n, False, rejectSnapshot msg n)
           else if LastIncludedIndex s \<le> CommitIndex (hs n) then
             Some (n, False, [EffectResetElectionTimer,
               EffectSend (snapshotResponse n (mFrom msg) (mSequence msg) True
                 (LastIncludedIndex s))])
           else
             let suffix = (if termAt n (LastIncludedIndex s) = LastIncludedTerm s
                              \<and> LastIncludedIndex s < MaxUint64
                           then entriesFrom n (LastIncludedIndex s + 1) else [])
             in case memChain (members n) sm suffix of
                  None \<Rightarrow> Some (n, False, rejectSnapshot msg n)
                | Some _ \<Rightarrow> do {
                    let n1 = n\<lparr>state := \<lparr>hardState = (hs n)\<lparr>CommitIndex := LastIncludedIndex s\<rparr>,
                               snapshot = s, log = suffix\<rparr>,
                               applied := LastIncludedIndex s\<rparr>;
                    n2 \<leftarrow> refreshMembership n1;
                    Some (n2, True, [EffectResetElectionTimer, EffectInstallSnapshot s,
                      EffectSend (snapshotResponse n2 (mFrom msg) (mSequence msg) True
                        (LastIncludedIndex s))])
                  })"

text \<open>The progress update and commit attempt shared by the two success responses.\<close>

definition recordMatch :: "Message \<Rightarrow> Node \<Rightarrow> Node option" where
  "recordMatch msg n =
     (if mMatchIndex msg > map_get 0 (matchIndex n) (mFrom msg) then do {
        m1 \<leftarrow> map_put (mFrom msg) (min (mMatchIndex msg) (lastIndex n)) (matchIndex n);
        n1 \<leftarrow> map_put (mFrom msg) (nextIndexAfter (map_get 0 m1 (mFrom msg))) (nextIndex n);
        Some (n\<lparr>matchIndex := m1, nextIndex := n1\<rparr>)
      } else Some n)"

definition advanceAfterMatch :: "Message \<Rightarrow> Node \<Rightarrow> (Node \<times> bool \<times> Effect list) option" where
  "advanceAfterMatch msg n =
     do {
       n1 \<leftarrow> recordMatch msg n;
       (n2, effs) \<leftarrow> advanceCommit n1;
       let dirty = (length effs > 0);
       (if role n2 \<noteq> Leader then Some (n2, dirty, effs)
        else if map_get 0 (matchIndex n2) (mFrom msg) < lastIndex n2 then do {
          (n3, next) \<leftarrow> appendFor (mFrom msg) n2;
          Some (n3, dirty, effs @ [EffectSend next])
        } else Some (n2, dirty, effs))
     }"

definition handleInstallSnapshotResponse ::
    "Message \<Rightarrow> Node \<Rightarrow> (Node \<times> bool \<times> Effect list) option" where
  "handleInstallSnapshotResponse msg n =
     (if role n \<noteq> Leader \<or> mTerm msg \<noteq> CurrentTerm (hs n) \<or> \<not> mSuccess msg
      then Some (n, False, []) else advanceAfterMatch msg n)"

definition handleAppendEntriesResponse ::
    "Message \<Rightarrow> Node \<Rightarrow> (Node \<times> bool \<times> Effect list) option" where
  "handleAppendEntriesResponse msg n =
     (if role n \<noteq> Leader \<or> mTerm msg \<noteq> CurrentTerm (hs n) then Some (n, False, [])
      else if \<not> mSuccess msg then
        (if mSequence msg \<noteq> map_get 0 (appendSequence n) (mFrom msg) then Some (n, False, [])
         else do {
           let next0 = map_get 0 (nextIndex n) (mFrom msg);
           let next1 = (if next0 > 1 then next0 - 1 else next0);
           let next2 = (if mRejectHint msg > 0 \<and> mRejectHint msg < next1
                        then mRejectHint msg else next1);
           m \<leftarrow> map_put (mFrom msg) (max 1 next2) (nextIndex n);
           (n1, msg1) \<leftarrow> appendFor (mFrom msg) (n\<lparr>nextIndex := m\<rparr>);
           Some (n1, False, [EffectSend msg1])
         })
      else advanceAfterMatch msg n)"

section \<open>Membership changes\<close>

definition appendMembershipEntry ::
    "EntryType \<Rightarrow> Membership \<Rightarrow> Node \<Rightarrow> (Node \<times> (raft_error + bool \<times> Effect list)) option" where
  "appendMembershipEntry ty m n =
     (let entry = \<lparr>eIndex = lastIndex n + 1, eTerm = CurrentTerm (hs n), eType = ty,
                   eData = [], eMembership = m\<rparr>
      in case transitionMembership (membership n) entry (members n) of
           None \<Rightarrow> Some (n, Inl ErrInvalidInput)
         | Some _ \<Rightarrow> do {
             n1 \<leftarrow> refreshMembership (setLog (nlog n @ [entry]) n);
             ms \<leftarrow> map_put (nid n1) (eIndex entry) (matchIndex n1);
             (n2, effs) \<leftarrow> advanceCommit (n1\<lparr>matchIndex := ms\<rparr>);
             (if role n2 = Leader then do {
                (n3, sends) \<leftarrow> broadcastAppend n2;
                Some (n3, Inr (True, effs @ sends))
              } else Some (n2, Inr (True, effs)))
           })"

definition beginMembership ::
    "NodeID list \<Rightarrow> NodeID list \<Rightarrow> Node
       \<Rightarrow> (Node \<times> (raft_error + bool \<times> Effect list)) option" where
  "beginMembership vs ls n =
     (if role n \<noteq> Leader then Some (n, Inl ErrNotLeader)
      else if \<not> isVoter (membership n) (nid n) then Some (n, Inl ErrNotVoter)
      else if Joint (membership n) \<or> hasUncommittedConfiguration n
      then Some (n, Inl ErrMembershipInProgress)
      else if lastIndex n = MaxUint64 then Some (n, Inl ErrIndexExhausted)
      else
        let target = stableMembership vs ls
        in if \<not> validateMembership target (members n) \<or> membershipsEqual target (membership n)
           then Some (n, Inl ErrInvalidInput)
           else appendMembershipEntry EntryConfigJoint
                  \<lparr>Voters = Voters target, VotersOutgoing = Voters (membership n),
                   Learners = jointLearnersOf (Learners target) (Voters (membership n)),
                   LearnersNext = Learners target\<rparr> n)"

definition finalizeMembership :: "Node \<Rightarrow> (Node \<times> (raft_error + bool \<times> Effect list)) option" where
  "finalizeMembership n =
     (if role n \<noteq> Leader then Some (n, Inl ErrNotLeader)
      else if \<not> Joint (membership n) \<or> hasUncommittedConfiguration n
              \<or> CommitIndex (hs n) \<noteq> lastIndex n
      then Some (n, Inl ErrMembershipInProgress)
      else if lastIndex n = MaxUint64 then Some (n, Inl ErrIndexExhausted)
      else appendMembershipEntry EntryConfigFinal
             (stableMembership (Voters (membership n)) (LearnersNext (membership n))) n)"

section \<open>The step function\<close>

definition stepMessage :: "Message \<Rightarrow> Node \<Rightarrow> (Node \<times> (raft_error + bool \<times> Effect list)) option" where
  "stepMessage msg n0 =
     (if mTo msg \<noteq> nid n0 \<or> mFrom msg = [] \<or> mFrom msg = nid n0 \<or> mFrom msg \<notin> set (members n0)
      then Some (n0, Inl ErrInvalidInput)
      else if mType msg < RequestVote \<or> mType msg > InstallSnapshotResponse
      then Some (n0, Inl ErrInvalidInput)
      else
        let higher = (mTerm msg > CurrentTerm (hs n0));
            n = (if higher then becomeFollower (mTerm msg) [] n0 else n0);
            lift = map_option (\<lambda>(n1, changed, effs). (n1, Inr (higher \<or> changed, effs)))
        in if mType msg = RequestVote then lift (Some (handleRequestVote msg n))
           else if mType msg = RequestVoteResponse then
             map_option (\<lambda>(n1, r). (n1, map_sum id (\<lambda>(changed, effs). (higher \<or> changed, effs)) r))
               (handleRequestVoteResponse msg n)
           else if mType msg = AppendEntries then lift (handleAppendEntries msg n)
           else if mType msg = AppendEntriesResponse then lift (handleAppendEntriesResponse msg n)
           else if mType msg = InstallSnapshot then lift (handleInstallSnapshot msg n)
           else lift (handleInstallSnapshotResponse msg n))"

definition acknowledgePersistence :: "u64 \<Rightarrow> Node \<Rightarrow> Node \<times> (raft_error + Effect list)" where
  "acknowledgePersistence token n =
     (case pending n of
        None \<Rightarrow> (n, Inl ErrUnexpectedPersistence)
      | Some (t, effs) \<Rightarrow>
          if token = 0 \<or> token \<noteq> t then (n, Inl ErrUnexpectedPersistence)
          else (n\<lparr>pending := None\<rparr>, Inr effs))"

definition propose :: "bytes \<Rightarrow> Node \<Rightarrow> (Node \<times> (raft_error + bool \<times> Effect list)) option" where
  "propose payload n =
     (if role n \<noteq> Leader then Some (n, Inl ErrNotLeader)
      else if \<not> isVoter (membership n) (nid n) then Some (n, Inl ErrNotVoter)
      else if hasUncommittedConfiguration n then Some (n, Inl ErrMembershipInProgress)
      else if lastIndex n = MaxUint64 then Some (n, Inl ErrIndexExhausted)
      else do {
        let entry = \<lparr>eIndex = lastIndex n + 1, eTerm = CurrentTerm (hs n), eType = EntryCommand,
                     eData = payload, eMembership = zeroMembership\<rparr>;
        ms \<leftarrow> map_put (nid n) (eIndex entry) (matchIndex n);
        (n1, commits) \<leftarrow> advanceCommit (setLog (nlog n @ [entry]) (n\<lparr>matchIndex := ms\<rparr>));
        (n2, sends) \<leftarrow> broadcastAppend n1;
        Some (n2, Inr (True, commits @ sends))
      })"

definition takeSnapshot ::
    "u64 \<Rightarrow> bytes \<Rightarrow> Node \<Rightarrow> (Node \<times> (raft_error + bool \<times> Effect list)) option" where
  "takeSnapshot index payload n =
     (if index = 0 \<or> index \<le> boundary n \<or> index > applied n \<or> index > CommitIndex (hs n)
      then Some (n, Inl ErrInvalidInput)
      else if termAt n index = 0 then Some (n, Inl ErrInvalidInput)
      else do {
        let suffix = (if index < MaxUint64 then entriesFrom n (index + 1) else []);
        m \<leftarrow> membershipAt n index;
        let s = \<lparr>LastIncludedIndex = index, LastIncludedTerm = termAt n index,
                 sMembers = members n, sData = payload, sMembership = m\<rparr>;
        n1 \<leftarrow> refreshMembership
               (n\<lparr>state := \<lparr>hardState = hs n, snapshot = s, log = suffix\<rparr>\<rparr>);
        Some (n1, Inr (True, []))
      })"

text \<open>The \<open>switch\<close> of \<open>Step\<close>: what each input does before the persistence decision.\<close>

definition dispatch :: "Input \<Rightarrow> Node \<Rightarrow> (Node \<times> (raft_error + bool \<times> Effect list)) option" where
  "dispatch input n =
     (case input of
        InputElectionTimeout \<Rightarrow>
          if \<not> isVoter (membership n) (nid n) then Some (n, Inr (False, []))
          else if CurrentTerm (hs n) = MaxUint64 then Some (n, Inl ErrTermExhausted)
          else startElection n
      | InputHeartbeatTimeout \<Rightarrow>
          if role n = Leader
          then map_option (\<lambda>(n1, sends). (n1, Inr (False, EffectResetHeartbeatTimer # sends)))
                 (broadcastAppend n)
          else Some (n, Inr (False, []))
      | InputMessage msg \<Rightarrow> stepMessage msg n
      | InputProposal payload \<Rightarrow> propose payload n
      | InputPersisted token \<Rightarrow> Some (n, Inl ErrInvalidInput)
      | InputSnapshot index payload \<Rightarrow> takeSnapshot index payload n
      | InputBeginMembership vs ls \<Rightarrow> beginMembership vs ls n
      | InputFinalizeMembership \<Rightarrow> finalizeMembership n
      | InputUnknown k \<Rightarrow> Some (n, Inl ErrInvalidInput))"

definition Step :: "Input \<Rightarrow> Node \<Rightarrow> (Node \<times> (raft_error + Effect list)) option" where
  "Step input n =
     (case input of
        InputPersisted token \<Rightarrow> Some (acknowledgePersistence token n)
      | _ \<Rightarrow>
          if pending n \<noteq> None then Some (n, Inl ErrAwaitingPersistence)
          else (case dispatch input n of
              None \<Rightarrow> None
            | Some (n1, Inl err) \<Rightarrow> Some (n1, Inl err)
            | Some (n1, Inr (dirty, effs)) \<Rightarrow>
                if dirty then
                  (let token = nextWriteToken n1
                   in Some (n1\<lparr>nextWriteToken := nextWriteToken n1 + 1,
                               pending := Some (token, effs)\<rparr>,
                            Inr [EffectPersist token (state n1)]))
                else Some (n1, Inr effs)))"

end
