(* ===== verification/RaftWf.thy ===== *)
theory RaftWf
  imports RaftNode
begin

text \<open>
  Well-formedness of durable states and nodes, and the node's log operations read over natural
  numbers. \<^term>\<open>wfStore\<close> is what \<open>Config.validate\<close> accepts (lemma \<open>validate_wfStore\<close>); \<^term>\<open>wfNode\<close>
  adds the agreement of the volatile fields with it. The access lemmas collected in
  \<open>log_access\<close> hold whenever the log fits the 64-bit index space.
\<close>

section \<open>Well-formed durable states\<close>

definition stBase :: "Membership \<Rightarrow> PersistentState \<Rightarrow> Membership" where
  "stBase init st = (if LastIncludedIndex (snapshot st) > 0
     then snapshotMembershipOf (snapshot st) else init)"

definition wfSnapshot :: "NodeID list \<Rightarrow> Membership \<Rightarrow> u64 \<Rightarrow> Snapshot \<Rightarrow> bool" where
  "wfSnapshot ms init term s \<longleftrightarrow>
     (if LastIncludedIndex s = 0 then LastIncludedTerm s = 0
      else LastIncludedTerm s \<noteq> 0 \<and> LastIncludedTerm s \<le> term \<and> sMembers s = ms
        \<and> validateMembership (snapshotMembershipOf s) ms
        \<and> (membershipIsZero (sMembership s) \<longrightarrow> init = stableMembership ms []))"

definition fitsIndexSpace :: "PersistentState \<Rightarrow> bool" where
  "fitsIndexSpace st \<longleftrightarrow> unat (LastIncludedIndex (snapshot st)) + length (log st) < 2 ^ 64"

definition wfStore :: "NodeID list \<Rightarrow> Membership \<Rightarrow> PersistentState \<Rightarrow> bool" where
  "wfStore ms init st \<longleftrightarrow>
     validateMembership init ms
     \<and> wfSnapshot ms init (CurrentTerm (hardState st)) (snapshot st)
     \<and> fitsIndexSpace st
     \<and> wfEntries (LastIncludedIndex (snapshot st)) (LastIncludedTerm (snapshot st))
         (CurrentTerm (hardState st)) (log st)
     \<and> memChain ms (stBase init st) (log st) \<noteq> None
     \<and> LastIncludedIndex (snapshot st) \<le> CommitIndex (hardState st)
     \<and> unat (CommitIndex (hardState st))
         \<le> unat (LastIncludedIndex (snapshot st)) + length (log st)"

definition wfUniverse :: "NodeID list \<Rightarrow> NodeID \<Rightarrow> bool" where
  "wfUniverse ms i \<longleftrightarrow> sorted ms \<and> distinct ms \<and> [] \<notin> set ms \<and> i \<in> set ms"

definition wfRole :: "Node \<Rightarrow> bool" where
  "wfRole n \<longleftrightarrow>
     (role n = Leader \<longrightarrow> nextIndex n \<noteq> None \<and> matchIndex n \<noteq> None \<and> appendSequence n \<noteq> None)
     \<and> (role n = Candidate \<longrightarrow> votes n \<noteq> None \<and> isVoter (membership n) (nid n))
     \<and> (role n \<noteq> Follower \<longrightarrow> CurrentTerm (hs n) \<noteq> 0)"

definition wfNode :: "Node \<Rightarrow> bool" where
  "wfNode n \<longleftrightarrow>
     wfUniverse (members n) (nid n)
     \<and> wfStore (members n) (initialMembership n) (state n)
     \<and> memChain (members n) (stBase (initialMembership n) (state n)) (nlog n) = Some (membership n)
     \<and> applied n = CommitIndex (hs n)
     \<and> wfRole n"

lemma wfNodeD:
  assumes "wfNode n"
  shows "wfUniverse (members n) (nid n)" and "wfStore (members n) (initialMembership n) (state n)"
    and "memChain (members n) (stBase (initialMembership n) (state n)) (nlog n) = Some (membership n)"
    and "applied n = CommitIndex (hs n)" and "wfRole n" and "fitsIndexSpace (state n)"
    and "wfEntries (boundary n) (LastIncludedTerm (snap n)) (CurrentTerm (hs n)) (nlog n)"
    and "boundary n \<le> CommitIndex (hs n)"
    and "unat (CommitIndex (hs n)) \<le> unat (boundary n) + length (nlog n)"
  using assms by (auto simp: wfNode_def wfStore_def)

section \<open>Log access over natural numbers\<close>

lemma nextIndexAfter_sat: "nextIndexAfter i = sat_succ i"
  by (simp add: nextIndexAfter_def sat_succ_def)

lemma unat_lastIndex:
  "fitsIndexSpace (state n) \<Longrightarrow> unat (lastIndex n) = unat (boundary n) + length (nlog n)"
  by (simp add: lastIndex_def fitsIndexSpace_def unat_plus_of_nat)

lemma unat_offset:
  assumes "(b :: u64) < i"
  shows "unat (i - b - 1) = unat i - unat b - 1"
proof -
  have "unat (i - b) = unat i - unat b"
    using assms by (simp add: unat_minus_le)
  moreover have "i - b \<noteq> 0"
    using assms by auto
  ultimately show ?thesis
    by (simp add: Prelude.unat_minus_one)
qed

lemma entryAt_nat:
  assumes "fitsIndexSpace (state n)"
  shows "entryAt n i =
    (if unat i \<le> unat (boundary n) \<or> unat (boundary n) + length (nlog n) < unat i then None
     else Some (nlog n ! (unat i - unat (boundary n) - 1)))"
  using unat_lastIndex [OF assms] unat_offset [of "boundary n" i]
  by (auto simp: entryAt_def word_less_nat_alt word_le_nat_alt)

text \<open>The slice read in \<open>entryAt\<close> never leaves the log, even for an ill-formed state.\<close>

lemma entryAt_in_range:
  assumes "length (nlog n) < 2 ^ 64" and "\<not> (i \<le> boundary n \<or> i > lastIndex n)"
  shows "unat (i - boundary n - 1) < length (nlog n)"
proof -
  have lt: "boundary n < i" and le: "i \<le> lastIndex n"
    using assms(2) by auto
  have "unat (lastIndex n) = (unat (boundary n) + length (nlog n)) mod 2 ^ 64"
    using assms(1) by (simp add: lastIndex_def unat_word_ariths unat_of_nat)
  moreover have "(unat (boundary n) + length (nlog n)) mod 2 ^ 64 \<le> unat (boundary n) + length (nlog n)"
    by simp
  ultimately have "unat i \<le> unat (boundary n) + length (nlog n)"
    using le by (simp add: word_le_nat_alt)
  with lt show ?thesis
    by (simp add: unat_offset word_less_nat_alt)
qed

lemma entriesFrom_nat:
  assumes "fitsIndexSpace (state n)"
  shows "entriesFrom n i = drop (unat i - unat (boundary n) - 1) (nlog n)"
  using unat_lastIndex [OF assms] unat_offset [of "boundary n" i]
  by (auto simp: entriesFrom_def word_less_nat_alt word_le_nat_alt not_le)

lemma truncateFrom_nat:
  assumes "fitsIndexSpace (state n)"
  shows "truncateFrom i n = setLog (take (unat i - unat (boundary n) - 1) (nlog n)) n"
  using unat_lastIndex [OF assms] unat_offset [of "boundary n" i]
  by (auto simp: truncateFrom_def setLog_def word_less_nat_alt word_le_nat_alt not_le)

lemma termAt_nat:
  assumes "fitsIndexSpace (state n)"
  shows "termAt n i =
    (if i = 0 then 0 else if i = boundary n then LastIncludedTerm (snap n)
     else if unat i < unat (boundary n) \<or> unat (boundary n) + length (nlog n) < unat i then 0
     else eTerm (nlog n ! (unat i - unat (boundary n) - 1)))"
  using assms by (auto simp: termAt_def entryAt_nat word_unat_eq_iff)

lemmas log_access = unat_lastIndex entryAt_nat entriesFrom_nat truncateFrom_nat termAt_nat

lemma setLog_simps [simp]:
  "nlog (setLog es n) = es" "hs (setLog es n) = hs n" "snap (setLog es n) = snap n"
  "nid (setLog es n) = nid n" "members (setLog es n) = members n"
  "initialMembership (setLog es n) = initialMembership n" "membership (setLog es n) = membership n"
  "role (setLog es n) = role n" "leader (setLog es n) = leader n" "applied (setLog es n) = applied n"
  "votes (setLog es n) = votes n" "nextIndex (setLog es n) = nextIndex n"
  "matchIndex (setLog es n) = matchIndex n" "appendSequence (setLog es n) = appendSequence n"
  "nextWriteToken (setLog es n) = nextWriteToken n" "pending (setLog es n) = pending n"
  "electionMembership (setLog es n) = electionMembership n"
  "electionVotes (setLog es n) = electionVotes n"
  "setLog es' (setLog es n) = setLog es' n"
  by (simp_all add: setLog_def)

lemma setHard_simps [simp]:
  "nlog (setHard h n) = nlog n" "hs (setHard h n) = h" "snap (setHard h n) = snap n"
  "nid (setHard h n) = nid n" "members (setHard h n) = members n"
  "initialMembership (setHard h n) = initialMembership n" "membership (setHard h n) = membership n"
  "role (setHard h n) = role n" "leader (setHard h n) = leader n" "applied (setHard h n) = applied n"
  "votes (setHard h n) = votes n" "nextIndex (setHard h n) = nextIndex n"
  "matchIndex (setHard h n) = matchIndex n" "appendSequence (setHard h n) = appendSequence n"
  "nextWriteToken (setHard h n) = nextWriteToken n" "pending (setHard h n) = pending n"
  "electionMembership (setHard h n) = electionMembership n"
  "electionVotes (setHard h n) = electionVotes n"
  by (simp_all add: setHard_def)

lemma stBase_setLog [simp]: "stBase init (state (setLog es n)) = stBase init (state n)"
  by (simp add: stBase_def)

lemma stBase_setHard [simp]: "stBase init (state (setHard h n)) = stBase init (state n)"
  by (simp add: stBase_def)

lemma setLog_same [simp]: "setLog (nlog n) n = n"
  by (simp add: setLog_def)

section \<open>Configurations along the log\<close>

lemma transition_other:
  "eType e \<noteq> EntryConfigJoint \<Longrightarrow> eType e \<noteq> EntryConfigFinal
     \<Longrightarrow> transitionMembership m e u = (if membershipIsZero (eMembership e) then Some m else None)"
  by (simp add: transitionMembership_def)

lemma transition_valid:
  "transitionMembership m e u = Some m' \<Longrightarrow> validateMembership m u \<Longrightarrow> validateMembership m' u"
  by (auto simp: transitionMembership_def Let_def split: if_splits)

lemma memChain_valid:
  "memChain u m es = Some m' \<Longrightarrow> validateMembership m u \<Longrightarrow> validateMembership m' u"
  by (induction es arbitrary: m) (auto split: option.splits dest: transition_valid)

lemma membershipLoop_prefix:
  assumes "wfEntries b t cap es" and "unat b + length es < 2 ^ 64"
    and "memChain u m es \<noteq> None" and "b \<le> i"
  shows "membershipLoop u i m es = memChain u m (take (unat i - unat b) es)"
  using assms
proof (induction es arbitrary: b t m)
  case (Cons e es)
  from Cons.prems have idx: "eIndex e = b + 1" and wf: "wfEntries (b + 1) (eTerm e) cap es"
    by auto
  have b1: "unat (b + 1) = Suc (unat b)"
    using Cons.prems(2) by (intro unat_plus_one) auto
  from Cons.prems(3) obtain m' where tr: "transitionMembership m e u = Some m'"
    and ch: "memChain u m' es \<noteq> None"
    by (auto split: option.splits)
  show ?case
  proof (cases "i < b + 1")
    case True
    then have "unat i - unat b = 0"
      using Cons.prems(4) b1 by (simp add: word_less_nat_alt word_le_nat_alt)
    with True show ?thesis
      by (simp add: idx)
  next
    case False
    then have "b + 1 \<le> i" by simp
    then have "membershipLoop u i m' es = memChain u m' (take (unat i - unat (b + 1)) es)"
      using Cons.IH [OF wf _ ch] Cons.prems(2) b1 by simp
    moreover have "unat i - unat b = Suc (unat i - unat (b + 1))"
      using \<open>b + 1 \<le> i\<close> b1 by (simp add: word_le_nat_alt)
    moreover have "m' = m" if "eType e \<noteq> EntryConfigJoint" "eType e \<noteq> EntryConfigFinal"
      using tr that by (simp add: transition_other split: if_splits)
    ultimately show ?thesis
      using False tr by (auto simp: idx)
  qed
qed simp

lemma baseMembership_stBase:
  "boundary n \<le> i \<Longrightarrow> baseMembership n i = stBase (initialMembership n) (state n)"
  by (auto simp: baseMembership_def stBase_def snapshotMembershipOf_def)

lemma membershipAt_chain:
  assumes "wfStore (members n) (initialMembership n) (state n)" and "boundary n \<le> i"
  shows "membershipAt n i = memChain (members n) (stBase (initialMembership n) (state n))
           (take (unat i - unat (boundary n)) (nlog n))"
  using assms unfolding membershipAt_def baseMembership_stBase [OF assms(2)] wfStore_def fitsIndexSpace_def
  by (intro membershipLoop_prefix) auto

lemma memChain_take: "memChain u m es \<noteq> None \<Longrightarrow> memChain u m (take k es) \<noteq> None"
  using memChain_prefix [of u m "take k es" "drop k es"] by simp

lemma membershipAt_total:
  assumes "wfStore (members n) (initialMembership n) (state n)" and "boundary n \<le> i"
  shows "membershipAt n i \<noteq> None"
  using assms by (simp add: membershipAt_chain memChain_take wfStore_def)

lemma membershipAt_valid:
  assumes "wfStore (members n) (initialMembership n) (state n)"
    and "boundary n \<le> i" and "membershipAt n i = Some m"
  shows "validateMembership m (members n)"
proof -
  have "validateMembership (stBase (initialMembership n) (state n)) (members n)"
    using assms(1) by (auto simp: wfStore_def stBase_def wfSnapshot_def split: if_splits)
  with assms show ?thesis
    by (auto simp: membershipAt_chain intro: memChain_valid)
qed

lemma boundary_le_lastIndex: "fitsIndexSpace (state n) \<Longrightarrow> boundary n \<le> lastIndex n"
  by (simp add: word_le_nat_alt unat_lastIndex)

lemma refreshMembership_chain:
  assumes "wfStore (members n) (initialMembership n) (state n)"
  shows "refreshMembership n =
    Some (n\<lparr>membership := the (memChain (members n) (stBase (initialMembership n) (state n)) (nlog n))\<rparr>)"
proof -
  have fits: "fitsIndexSpace (state n)"
    using assms by (simp add: wfStore_def)
  have "membershipAt n (lastIndex n)
      = memChain (members n) (stBase (initialMembership n) (state n)) (nlog n)"
    using membershipAt_chain [OF assms boundary_le_lastIndex [OF fits]]
    by (simp add: unat_lastIndex [OF fits])
  with assms show ?thesis
    by (auto simp: refreshMembership_def wfStore_def split: option.splits)
qed

section \<open>Construction\<close>

lemma hasDuplicateNeighbour_distinct:
  "sorted xs \<Longrightarrow> \<not> hasDuplicateNeighbour xs \<longleftrightarrow> distinct xs"
  by (auto simp: hasDuplicateNeighbour_iff intro: sorted_successively_neq distinct_successively_neq)

lemma stableMembership_universe:
  assumes "sorted u" "distinct u" "[] \<notin> set u" "u \<noteq> []"
  shows "validateMembership (stableMembership u []) u"
  using assms by (simp add: validateMembership_iff stableMembership_def canonicalNodeSet_iff sorted_sort_id)

lemma initialMembershipOf_valid:
  assumes "initialMembershipOf c u = (m, True)" and "sorted u" "distinct u" "[] \<notin> set u" "u \<noteq> []"
  shows "validateMembership m u"
  using assms stableMembership_universe [of u]
  by (auto simp: initialMembershipOf_def Let_def split: if_splits)

lemma validateTail_wf:
  assumes "validateTail c st u m = None" and "length (log st) < 2 ^ 64"
  shows "fitsIndexSpace st"
    and "wfEntries (LastIncludedIndex (snapshot st)) (LastIncludedTerm (snapshot st))
         (CurrentTerm (hardState st)) (log st)"
    and "memChain u m (log st) \<noteq> None"
    and "LastIncludedIndex (snapshot st) \<le> CommitIndex (hardState st)"
    and "unat (CommitIndex (hardState st))
         \<le> unat (LastIncludedIndex (snapshot st)) + length (log st)"
    and "AppliedIndex c \<le> CommitIndex (hardState st)"
proof -
  let ?b = "LastIncludedIndex (snapshot st)"
  from assms(1) have room: "\<not> MaxUint64 - ?b < of_nat (length (log st))"
    and v: "validateLog (hardState st) u ?b 0 (LastIncludedTerm (snapshot st)) m (log st)"
    and c: "?b \<le> CommitIndex (hardState st)"
      "CommitIndex (hardState st) \<le> ?b + of_nat (length (log st))"
      "AppliedIndex c \<le> CommitIndex (hardState st)"
    by (auto simp: validateTail_def Let_def not_less split: if_splits)
  have "unat (MaxUint64 - ?b) = 2 ^ 64 - 1 - unat ?b"
    by (simp add: unat_minus_le)
  with room assms(2) show fits: "fitsIndexSpace st"
    using unat_u64_less [of ?b]
    by (simp add: fitsIndexSpace_def word_less_nat_alt unat_of_nat)
  show "wfEntries ?b (LastIncludedTerm (snapshot st)) (CurrentTerm (hardState st)) (log st)"
    and "memChain u m (log st) \<noteq> None"
    using validateLog_sound [OF v] by simp_all
  show "?b \<le> CommitIndex (hardState st)" and "AppliedIndex c \<le> CommitIndex (hardState st)"
    by (rule c)+
  show "unat (CommitIndex (hardState st)) \<le> unat ?b + length (log st)"
    using c(2) fits by (simp add: word_le_nat_alt fitsIndexSpace_def unat_plus_of_nat)
qed

lemma validate_wf:
  assumes "validate c st = None" and "length (log st) < 2 ^ 64"
  shows "wfUniverse (sort (cMembers c)) (cID c)"
    and "wfStore (sort (cMembers c)) (fst (initialMembershipOf c (sort (cMembers c)))) st"
    and "AppliedIndex c \<le> CommitIndex (hardState st)"
proof -
  let ?u = "sort (cMembers c)" and ?s = "snapshot st"
  obtain m ok where im: "initialMembershipOf c ?u = (m, ok)"
    by (cases "initialMembershipOf c ?u")
  have u: "[] \<notin> set ?u" "\<not> hasDuplicateNeighbour ?u" "cID c \<in> set ?u" and ok
    using assms(1) im by (auto simp: validate_def Let_def split: if_splits)
  then have dist: "distinct ?u"
    using hasDuplicateNeighbour_distinct [of ?u] by simp
  from u(3) have ne: "?u \<noteq> []"
    by (metis empty_iff list.set(1))
  from u dist show "wfUniverse ?u (cID c)"
    by (simp add: wfUniverse_def)
  have vm: "validateMembership m ?u"
    using initialMembershipOf_valid [of c ?u m] im \<open>ok\<close> u dist ne by simp
  have tail: "validateTail c st ?u (stBase m st) = None"
    and snap: "wfSnapshot ?u m (CurrentTerm (hardState st)) ?s"
    using assms(1) im \<open>ok\<close> u ne vm
    by (auto simp: validate_def Let_def stBase_def wfSnapshot_def snapshotMembershipOf_def
        not_less word_gt_0 split: if_splits)
  show "wfStore ?u (fst (initialMembershipOf c ?u)) st"
    using validateTail_wf [OF tail assms(2)] snap vm im by (simp add: wfStore_def)
  show "AppliedIndex c \<le> CommitIndex (hardState st)"
    using validateTail_wf(6) [OF tail assms(2)] .
qed

text \<open>\<open>New\<close> never panics, and what it returns is the durable state with a fresh follower around it.\<close>

lemma New_cases:
  assumes "length (log st) < 2 ^ 64"
  shows "(\<exists>err. validate c st = Some err \<and> New c st = Some (Inl err))
    \<or> (\<exists>n. validate c st = None \<and> New c st = Some (Inr n)
        \<and> wfUniverse (members n) (nid n) \<and> wfStore (members n) (initialMembership n) (state n)
        \<and> memChain (members n) (stBase (initialMembership n) (state n)) (nlog n) = Some (membership n)
        \<and> nid n = cID c \<and> state n = st \<and> applied n = AppliedIndex c
        \<and> applied n \<le> CommitIndex (hs n) \<and> role n = Follower \<and> pending n = None)"
proof (cases "validate c st")
  case (Some err)
  then show ?thesis by (simp add: New_def)
next
  case None
  let ?u = "sort (cMembers c)"
  let ?n = "\<lparr>nid = cID c, members = ?u, initialMembership = fst (initialMembershipOf c ?u),
    membership = zeroMembership, role = Follower, leader = [], state = st,
    applied = AppliedIndex c, votes = None, electionVotes = [],
    electionMembership = zeroMembership, nextIndex = None, matchIndex = None,
    appendSequence = None, nextWriteToken = 1, pending = None\<rparr>"
  note wf = validate_wf [OF None assms]
  have "wfStore (members ?n) (initialMembership ?n) (state ?n)"
    using wf(2) by simp
  note r = refreshMembership_chain [OF this]
  have "New c st = Some (Inr (?n\<lparr>membership :=
      the (memChain ?u (stBase (initialMembership ?n) st) (log st))\<rparr>))"
    using r by (simp add: New_def None Let_def split_def)
  with None wf show ?thesis
    by (auto simp: wfStore_def)
qed

end
