(* ===== verification/RaftLog.thy ===== *)
theory RaftLog
  imports RaftWf
begin

text \<open>
  Correctness of the two loops that change the log or read it for application: the append loop of
  \<open>handleAppendEntries\<close> equals the reference merge \<^term>\<open>mergeLog\<close> on the part of the log after the
  message's previous index, and \<open>applyCommitted\<close> emits exactly the entries between the applied and
  the commit index, in order. \<^term>\<open>logsMatch\<close> is Raft's Log Matching property between a log and the
  entries of a message.
\<close>

section \<open>Merging entries into a log\<close>

text \<open>Reference definition: keep entries whose terms agree; from the first disagreement on, take the
  incoming ones.\<close>

fun mergeLog :: "Entry list \<Rightarrow> Entry list \<Rightarrow> Entry list" where
  "mergeLog ls [] = ls"
| "mergeLog [] es = es"
| "mergeLog (l # ls) (e # es) = (if eTerm l = eTerm e then l # mergeLog ls es else e # es)"

text \<open>Whether merging changes the log at all.\<close>

fun extendsLog :: "Entry list \<Rightarrow> Entry list \<Rightarrow> bool" where
  "extendsLog ls [] = False"
| "extendsLog [] es = True"
| "extendsLog (l # ls) (e # es) = (if eTerm l = eTerm e then extendsLog ls es else True)"

text \<open>Log Matching: where a log and the incoming entries have the same term, they agree up to there.\<close>

definition logsMatch :: "Entry list \<Rightarrow> Entry list \<Rightarrow> bool" where
  "logsMatch ls es \<longleftrightarrow> (\<forall>k < min (length ls) (length es).
     eTerm (ls ! k) = eTerm (es ! k) \<longrightarrow> take (Suc k) ls = take (Suc k) es)"

lemma mergeLog_Nil [simp]: "mergeLog [] es = es"
  by (cases es) auto

lemma extendsLog_Nil [simp]: "extendsLog [] es \<longleftrightarrow> es \<noteq> []"
  by (cases es) auto

lemma mergeLog_same: "\<not> extendsLog ls es \<Longrightarrow> mergeLog ls es = ls"
  by (induction ls es rule: mergeLog.induct) (auto split: if_splits)

lemma length_mergeLog: "length es \<le> length (mergeLog ls es)"
  "length (mergeLog ls es) \<le> max (length ls) (length es)"
  by (induction ls es rule: mergeLog.induct) auto

lemma logsMatch_Cons:
  assumes "logsMatch (l # ls) (e # es)"
  shows "eTerm l = eTerm e \<Longrightarrow> l = e" and "eTerm l = eTerm e \<Longrightarrow> logsMatch ls es"
proof -
  show *: "l = e" if "eTerm l = eTerm e"
    using assms that by (auto simp: logsMatch_def dest: spec [of _ 0])
  show "logsMatch ls es" if "eTerm l = eTerm e"
    using assms *[OF that] unfolding logsMatch_def by (auto dest: spec [of _ "Suc _"])
qed

text \<open>After a merge under Log Matching the log holds all the incoming entries.\<close>

lemma mergeLog_prefix: "logsMatch ls es \<Longrightarrow> take (length es) (mergeLog ls es) = es"
  by (induction ls es rule: mergeLog.induct) (auto dest: logsMatch_Cons)

lemma mergeLog_split:
  "logsMatch ls es \<Longrightarrow>
     (\<exists>rest. mergeLog ls es = es @ rest \<and> ls = es @ rest) \<or> mergeLog ls es = es"
  by (induction ls es rule: mergeLog.induct) (auto dest: logsMatch_Cons)

lemma mergeLog_keeps:
  "take k ls = take k es \<Longrightarrow> k \<le> length es \<Longrightarrow> take k (mergeLog ls es) = take k ls"
proof (induction ls es arbitrary: k rule: mergeLog.induct)
  case (3 l ls e es)
  then show ?case by (cases k) auto
qed auto

section \<open>The append loop\<close>

lemma fits_setLog: "fitsIndexSpace (state (setLog es n)) \<longleftrightarrow> unat (boundary n) + length es < 2 ^ 64"
  by (simp add: fitsIndexSpace_def setLog_def)

lemma appendLoop_past:
  assumes "fitsIndexSpace (state n)" and "unat (boundary n) + length (nlog n) + length es < 2 ^ 64"
    and "index = lastIndex n + 1" and "es \<noteq> []"
  shows "appendLoop index es dirty n = (setLog (nlog n @ es) n, True, True)"
  using assms
proof (induction es arbitrary: n index dirty)
  case (Cons e es)
  let ?n = "setLog (nlog n @ [e]) n"
  have last: "lastIndex n \<noteq> MaxUint64"
    using Cons.prems(1,2) unat_lastIndex [OF Cons.prems(1)] by auto
  then have gt: "lastIndex n < index" and nxt: "index = nextIndexAfter (lastIndex n)"
    using Cons.prems(3) by (auto simp: nextIndexAfter_def word_less_nat_alt unat_plus_one)
  have step: "appendLoop index (e # es) dirty n = appendLoop (index + 1) es True ?n"
    using gt nxt by (auto simp: not_le [symmetric])
  show ?case
  proof (cases "es = []")
    case False
    have "fitsIndexSpace (state ?n)"
      using Cons.prems(2) by (simp add: fits_setLog)
    moreover have "index + 1 = lastIndex ?n + 1"
      using Cons.prems(3) by (simp add: lastIndex_def algebra_simps)
    ultimately show ?thesis
      using Cons.IH [of ?n "index + 1" True] False Cons.prems(2) step by simp
  qed (use step in simp)
qed simp

lemma appendLoop_merge:
  assumes "fitsIndexSpace (state n)" and "boundary n \<le> prev" and "prev \<le> lastIndex n"
    and "unat prev + length es < 2 ^ 64"
  shows "appendLoop (prev + 1) es dirty n =
    (let p = unat prev - unat (boundary n) in
     (setLog (take p (nlog n) @ mergeLog (drop p (nlog n)) es) n,
      dirty \<or> extendsLog (drop p (nlog n)) es, True))"
  using assms
proof (induction es arbitrary: prev dirty)
  case Nil
  then show ?case by (simp add: Let_def)
next
  case (Cons e es)
  let ?b = "unat (boundary n)" and ?p = "unat prev - unat (boundary n)"
  have prev1: "unat (prev + 1) = Suc (unat prev)"
    using Cons.prems(4) by (intro unat_plus_one) auto
  have bp: "?b \<le> unat prev" and pl: "unat prev \<le> ?b + length (nlog n)"
    using Cons.prems(1-3) unat_lastIndex by (auto simp: word_le_nat_alt)
  show ?case
  proof (cases "unat prev = ?b + length (nlog n)")
    case True
    then have "prev = lastIndex n"
      using unat_lastIndex [OF Cons.prems(1)] by (simp add: word_unat_eq_iff)
    then have "appendLoop (prev + 1) (e # es) dirty n = (setLog (nlog n @ e # es) n, True, True)"
      using Cons.prems True by (intro appendLoop_past) auto
    with True show ?thesis by (simp add: Let_def)
  next
    case False
    then have lt: "?p < length (nlog n)"
      using bp pl by linarith
    then have ls: "drop ?p (nlog n) = nlog n ! ?p # drop (Suc ?p) (nlog n)"
      by (simp add: Cons_nth_drop_Suc)
    have le: "prev + 1 \<le> lastIndex n"
      using prev1 lt bp unat_lastIndex [OF Cons.prems(1)] by (simp add: word_le_nat_alt)
    have off: "unat (prev + 1) - ?b - 1 = ?p"
      using prev1 bp by simp
    have tm: "termAt n (prev + 1) = eTerm (nlog n ! ?p)"
      using termAt_nat [OF Cons.prems(1), of "prev + 1"] prev1 bp lt off
      by (auto simp: word_unat_eq_iff)
    show ?thesis
    proof (cases "eTerm (nlog n ! ?p) = eTerm e")
      case True
      then have "appendLoop (prev + 1) (e # es) dirty n = appendLoop (prev + 1 + 1) es dirty n"
        using le tm by simp
      also have "\<dots> = (let p = unat (prev + 1) - ?b in
         (setLog (take p (nlog n) @ mergeLog (drop p (nlog n)) es) n,
          dirty \<or> extendsLog (drop p (nlog n)) es, True))"
        using Cons.prems le bp prev1 by (intro Cons.IH) (auto simp: word_le_nat_alt)
      finally show ?thesis
        using True lt bp by (simp add: Let_def ls prev1 Suc_diff_le take_Suc_conv_app_nth)
    next
      case False
      let ?t = "setLog (take ?p (nlog n)) n"
      have tr: "truncateFrom (prev + 1) n = ?t"
        using truncateFrom_nat [OF Cons.prems(1), of "prev + 1"] off by simp
      have lastt: "lastIndex ?t = prev"
        using bp lt by (simp add: lastIndex_def word_unat_eq_iff unat_plus_of_nat unat_u64_less)
      have "\<not> prev + 1 \<le> prev"
        using prev1 by (simp add: word_le_nat_alt)
      then have "appendLoop (prev + 1) (e # es) dirty n = appendLoop (prev + 1) (e # es) dirty ?t"
        using False le tm tr lastt by simp
      also have "\<dots> = (setLog (nlog ?t @ e # es) ?t, True, True)"
        using Cons.prems(4) lt bp lastt by (intro appendLoop_past) (auto simp: fits_setLog min_def)
      finally show ?thesis
        using False by (simp add: Let_def ls)
    qed
  qed
qed

text \<open>A previous index past the log with a zero term passes the term check; the loop then stops at
  once, or there is nothing to append.\<close>

lemma appendLoop_gap:
  assumes "fitsIndexSpace (state n)" and "lastIndex n < prev" and "prev \<noteq> MaxUint64"
  shows "appendLoop (prev + 1) es dirty n = (n, dirty, es = [])"
proof (cases es)
  case (Cons e es')
  have p1: "unat (prev + 1) = Suc (unat prev)"
    using assms(3) by (rule unat_plus_one)
  have "\<not> prev + 1 \<le> lastIndex n" and "prev + 1 \<noteq> nextIndexAfter (lastIndex n)"
    using assms(2) p1 unat_sat_succ [of "lastIndex n"]
    by (auto simp: word_le_nat_alt word_less_nat_alt nextIndexAfter_sat word_unat_eq_iff)
  moreover from this(1) have "lastIndex n < prev + 1" by simp
  ultimately show ?thesis using Cons by simp
qed simp

section \<open>Applying committed entries\<close>

lemma applyCommitted_done: "\<not> applied n < CommitIndex (hs n) \<Longrightarrow> applyCommitted n = Some (n, [])"
  by (simp add: applyCommitted.simps [of n])

lemma applyCommitted_spec:
  assumes "fitsIndexSpace (state n)" and "boundary n \<le> applied n"
    and "applied n \<le> CommitIndex (hs n)" and "CommitIndex (hs n) \<le> lastIndex n"
  shows "applyCommitted n =
    Some (n\<lparr>applied := CommitIndex (hs n)\<rparr>,
      map EffectApply (take (unat (CommitIndex (hs n)) - unat (applied n))
        (drop (unat (applied n) - unat (boundary n)) (nlog n))))"
  using assms
proof (induction n rule: applyCommitted.induct)
  case (1 n)
  let ?a = "unat (applied n)" and ?c = "unat (CommitIndex (hs n))" and ?b = "unat (boundary n)"
  show ?case
  proof (cases "applied n < CommitIndex (hs n)")
    case False
    with "1.prems"(3) have "applied n = CommitIndex (hs n)" by simp
    then show ?thesis by (simp add: applyCommitted.simps [of n])
  next
    case True
    let ?n = "n\<lparr>applied := applied n + 1\<rparr>"
    have a1: "unat (applied n + 1) = Suc ?a"
      using True by (intro unat_plus_one less_imp_not_MaxUint64)
    have le: "?b \<le> ?a" "?a < ?c" "?c \<le> ?b + length (nlog n)"
      using "1.prems" True unat_lastIndex [OF "1.prems"(1)]
      by (auto simp: word_le_nat_alt word_less_nat_alt)
    then have lt: "?a - ?b < length (nlog n)" by linarith
    have e: "entryAt ?n (applied n + 1) = Some (nlog n ! (?a - ?b))"
      using entryAt_nat [of ?n "applied n + 1"] "1.prems"(1) a1 le by simp
    have IH: "applyCommitted ?n = Some (?n\<lparr>applied := CommitIndex (hs n)\<rparr>,
        map EffectApply (take (?c - Suc ?a) (drop (Suc ?a - ?b) (nlog n))))"
      using "1.IH" [OF True refl] e "1.prems" a1 le
      by (simp add: word_le_nat_alt lastIndex_def)
    have "take (?c - ?a) (drop (?a - ?b) (nlog n))
        = nlog n ! (?a - ?b) # take (?c - Suc ?a) (drop (Suc ?a - ?b) (nlog n))"
      using le lt by (simp add: Suc_diff_le Cons_nth_drop_Suc [symmetric] take_Cons')
    with True e IH show ?thesis
      by (simp add: applyCommitted.simps [of n] Let_def)
  qed
qed

end
