(* ===== verification/RaftProgress.thy ===== *)
theory RaftProgress
  imports RaftLog
begin

text \<open>
  The relation \<^term>\<open>progress\<close> between a node before and after an operation: identity and universe
  are fixed, the term, the commit index and the snapshot boundary never go back, a vote stays
  within its term, and every committed entry that is still in the log is the same. It is a
  preorder; the lemmas here give it for the building blocks of the handlers, together with
  \<^term>\<open>wfNode\<close>.
\<close>

section \<open>The progress preorder\<close>

definition progress :: "Node \<Rightarrow> Node \<Rightarrow> bool" where
  "progress n n' \<longleftrightarrow>
     nid n' = nid n \<and> members n' = members n \<and> initialMembership n' = initialMembership n
     \<and> CurrentTerm (hs n) \<le> CurrentTerm (hs n')
     \<and> (CurrentTerm (hs n') = CurrentTerm (hs n) \<longrightarrow> VotedFor (hs n) \<noteq> []
          \<longrightarrow> VotedFor (hs n') = VotedFor (hs n))
     \<and> CommitIndex (hs n) \<le> CommitIndex (hs n')
     \<and> boundary n \<le> boundary n'
     \<and> (\<forall>i. boundary n' < i \<and> i \<le> CommitIndex (hs n) \<longrightarrow> entryAt n' i = entryAt n i)"

definition bookkeeping :: "Node \<Rightarrow> Node \<Rightarrow> bool" where
  "bookkeeping n n' \<longleftrightarrow> pending n' = pending n \<and> nextWriteToken n' = nextWriteToken n"

lemma progress_refl [simp, intro]: "progress n n"
  by (simp add: progress_def)

lemma progress_trans [trans]:
  assumes "progress a b" and "progress b c"
  shows "progress a c"
proof -
  note ab = assms(1) [unfolded progress_def] and bc = assms(2) [unfolded progress_def]
  have "VotedFor (hs c) = VotedFor (hs a)"
    if "CurrentTerm (hs c) = CurrentTerm (hs a)" "VotedFor (hs a) \<noteq> []"
  proof -
    have "CurrentTerm (hs b) = CurrentTerm (hs a)"
      using ab bc that(1) by (auto intro: order_antisym)
    with ab bc that show ?thesis by simp
  qed
  moreover have "entryAt c i = entryAt a i" if "boundary c < i" "i \<le> CommitIndex (hs a)" for i
  proof -
    have "boundary b < i" "i \<le> CommitIndex (hs b)"
      using ab bc that by (auto intro: order_trans order.strict_trans1)
    with ab bc that show ?thesis by simp
  qed
  moreover have "CurrentTerm (hs a) \<le> CurrentTerm (hs c)"
    "CommitIndex (hs a) \<le> CommitIndex (hs c)" "boundary a \<le> boundary c"
    using ab bc by (blast intro: order_trans)+
  ultimately show ?thesis
    using ab bc unfolding progress_def by simp
qed

lemma bookkeeping_refl [simp, intro]: "bookkeeping n n"
  by (simp add: bookkeeping_def)

lemma bookkeeping_trans [trans]: "bookkeeping a b \<Longrightarrow> bookkeeping b c \<Longrightarrow> bookkeeping a c"
  by (simp add: bookkeeping_def)

lemma entryAt_cong: "snap n' = snap n \<Longrightarrow> nlog n' = nlog n \<Longrightarrow> entryAt n' i = entryAt n i"
  by (simp add: entryAt_def lastIndex_def)

lemma termAt_cong: "snap n' = snap n \<Longrightarrow> nlog n' = nlog n \<Longrightarrow> termAt n' i = termAt n i"
  by (simp add: termAt_def entryAt_def lastIndex_def)

lemma lastIndex_cong: "snap n' = snap n \<Longrightarrow> nlog n' = nlog n \<Longrightarrow> lastIndex n' = lastIndex n"
  by (simp add: lastIndex_def)

text \<open>Operations that leave the durable state alone.\<close>

lemma progress_state:
  "state n' = state n \<Longrightarrow> nid n' = nid n \<Longrightarrow> members n' = members n
     \<Longrightarrow> initialMembership n' = initialMembership n \<Longrightarrow> progress n n'"
  by (simp add: progress_def entryAt_def lastIndex_def)

text \<open>Operations that change the log past the commit index only.\<close>

lemma progress_setLog:
  assumes "wfNode n" and "unat (boundary n) + length es < 2 ^ 64"
    and "take (unat (CommitIndex (hs n)) - unat (boundary n)) es
       = take (unat (CommitIndex (hs n)) - unat (boundary n)) (nlog n)"
  shows "progress n (setLog es n)"
proof -
  let ?c = "unat (CommitIndex (hs n))" and ?b = "unat (boundary n)"
  have len: "?c - ?b \<le> length (nlog n)"
    using wfNodeD(9) [OF assms(1)] by linarith
  then have len': "?c - ?b \<le> length es"
    using arg_cong [OF assms(3), of length] by simp
  have "entryAt (setLog es n) i = entryAt n i" if "boundary n < i" "i \<le> CommitIndex (hs n)" for i
  proof -
    have i: "?b < unat i" "unat i \<le> ?c"
      using that by (simp_all add: word_less_nat_alt word_le_nat_alt)
    then have k: "unat i - ?b - 1 < ?c - ?b" by linarith
    then have "es ! (unat i - ?b - 1) = nlog n ! (unat i - ?b - 1)"
      using arg_cong [OF assms(3), of "\<lambda>xs. xs ! (unat i - ?b - 1)"] by simp
    then show ?thesis
      using i len len' assms(2) wfNodeD(6) [OF assms(1)]
      by (auto simp: entryAt_nat fits_setLog)
  qed
  then show ?thesis
    by (simp add: progress_def)
qed

section \<open>Becoming a follower\<close>

lemma becomeFollower_frame [simp]:
  "nid (becomeFollower t l n) = nid n" "members (becomeFollower t l n) = members n"
  "initialMembership (becomeFollower t l n) = initialMembership n"
  "membership (becomeFollower t l n) = membership n" "role (becomeFollower t l n) = Follower"
  "leader (becomeFollower t l n) = l" "applied (becomeFollower t l n) = applied n"
  "nlog (becomeFollower t l n) = nlog n" "snap (becomeFollower t l n) = snap n"
  "CommitIndex (hs (becomeFollower t l n)) = CommitIndex (hs n)"
  "pending (becomeFollower t l n) = pending n"
  "nextWriteToken (becomeFollower t l n) = nextWriteToken n"
  "CurrentTerm (hs (becomeFollower t l n)) = max t (CurrentTerm (hs n))"
  by (auto simp: becomeFollower_def Let_def max_def)

lemma becomeFollower_vote:
  "VotedFor (hs (becomeFollower t l n)) = (if t > CurrentTerm (hs n) then [] else VotedFor (hs n))"
  by (simp add: becomeFollower_def Let_def)

lemma becomeFollower_state:
  "t \<le> CurrentTerm (hs n) \<Longrightarrow> state (becomeFollower t l n) = state n"
  by (simp add: becomeFollower_def Let_def)

lemma becomeFollower_progress: "progress n (becomeFollower t l n)"
  by (auto simp: progress_def becomeFollower_vote entryAt_def lastIndex_def max_def)

lemma becomeFollower_bookkeeping: "bookkeeping n (becomeFollower t l n)"
  by (simp add: bookkeeping_def)

lemma stBase_cong: "snapshot st' = snapshot st \<Longrightarrow> stBase init st' = stBase init st"
  by (simp add: stBase_def)

lemma wfSnapshot_mono: "wfSnapshot ms init t s \<Longrightarrow> t \<le> t' \<Longrightarrow> wfSnapshot ms init t' s"
  by (auto simp: wfSnapshot_def split: if_splits)

lemma wfStore_term:
  assumes "wfStore ms init st" and "snapshot st' = snapshot st" and "log st' = log st"
    and "CommitIndex (hardState st') = CommitIndex (hardState st)"
    and "CurrentTerm (hardState st) \<le> CurrentTerm (hardState st')"
  shows "wfStore ms init st'"
  using assms stBase_cong [OF assms(2)]
  by (auto simp: wfStore_def fitsIndexSpace_def intro: wfSnapshot_mono wfEntries_top)

lemma becomeFollower_wf: "wfNode n \<Longrightarrow> wfNode (becomeFollower t l n)"
  using stBase_cong [of "state (becomeFollower t l n)" "state n" "initialMembership n"]
    wfStore_term [of "members n" "initialMembership n" "state n" "state (becomeFollower t l n)"]
  by (simp add: wfNode_def wfRole_def)

section \<open>Advancing the commit index\<close>

text \<open>What \<open>advanceCommit\<close> may commit: an entry of the current term that a quorum of the
  configuration in force at its index has stored.\<close>

definition committable :: "Node \<Rightarrow> u64 \<Rightarrow> bool" where
  "committable n i \<longleftrightarrow> termAt n i = CurrentTerm (hs n)
     \<and> (case membershipAt n i of None \<Rightarrow> False
        | Some m \<Rightarrow> quorum m (\<lambda>j. map_get 0 (matchIndex n) j \<ge> i))"

definition commitTo :: "u64 \<Rightarrow> Node \<Rightarrow> Node" where
  "commitTo i n =
     (let n2 = (setHard ((hs n)\<lparr>CommitIndex := i\<rparr>) n)\<lparr>applied := i\<rparr>
      in if role n = Leader \<and> \<not> isVoter (membership n) (nid n)
         then becomeFollower (CurrentTerm (hs n)) [] n2 else n2)"

definition appliesBetween :: "Node \<Rightarrow> u64 \<Rightarrow> u64 \<Rightarrow> Effect list" where
  "appliesBetween n lo hi = map EffectApply
     (take (unat hi - unat lo) (drop (unat lo - unat (boundary n)) (nlog n)))"

lemma advanceLoop_spec:
  assumes "wfNode n" and "index \<le> lastIndex n"
  shows "(\<forall>i. CommitIndex (hs n) < i \<and> i \<le> index \<longrightarrow> \<not> committable n i)
        \<and> advanceLoop index (CommitIndex (hs n)) n = Some (n, [])
    \<or> (\<exists>i. CommitIndex (hs n) < i \<and> i \<le> index \<and> committable n i
        \<and> (\<forall>j. i < j \<and> j \<le> index \<longrightarrow> \<not> committable n j)
        \<and> advanceLoop index (CommitIndex (hs n)) n
            = Some (commitTo i n, appliesBetween n (CommitIndex (hs n)) i))"
  using assms(2)
proof (induction "unat index" arbitrary: index rule: less_induct)
  case less
  let ?c = "CommitIndex (hs n)"
  note wf = wfNodeD [OF assms(1)]
  show ?case
  proof (cases "index > ?c")
    case False
    then show ?thesis
      by (auto simp: advanceLoop.simps [of index])
  next
    case True
    then have "index \<noteq> 0" by auto
    then have idx: "unat (index - 1) < unat index" and le1: "index - 1 \<le> index"
      and below: "\<And>i. i \<le> index \<longleftrightarrow> i \<le> index - 1 \<or> i = index"
      using Prelude.unat_minus_one [of index]
      by (auto simp: word_le_nat_alt word_unat_eq_iff unat_gt_0 [symmetric])
    have bi: "boundary n \<le> index"
      using True wf(8) by auto
    obtain m where m: "membershipAt n index = Some m"
      using membershipAt_total [OF wf(2) bi] by auto
    show ?thesis
    proof (cases "committable n index")
      case True
      let ?n1 = "setHard ((hs n)\<lparr>CommitIndex := index\<rparr>) n"
      have "applyCommitted ?n1 = Some (?n1\<lparr>applied := index\<rparr>, appliesBetween n ?c index)"
        using applyCommitted_spec [of ?n1] wf \<open>index > ?c\<close> less.prems
        by (simp add: appliesBetween_def fitsIndexSpace_def lastIndex_def)
      with True m \<open>index > ?c\<close>
      have "advanceLoop index ?c n = Some (commitTo index n, appliesBetween n ?c index)"
        by (simp add: advanceLoop.simps [of index] committable_def commitTo_def Let_def)
      with True \<open>index > ?c\<close> show ?thesis
        by auto
    next
      case False
      with m \<open>index > ?c\<close> have "advanceLoop index ?c n = advanceLoop (index - 1) ?c n"
        by (auto simp: advanceLoop.simps [of index] committable_def)
      then show ?thesis
        using less.hyps [OF idx order_trans [OF le1 less.prems]] False unfolding below by fastforce
    qed
  qed
qed

lemma commitTo_frame [simp]:
  "nid (commitTo i n) = nid n" "members (commitTo i n) = members n"
  "initialMembership (commitTo i n) = initialMembership n"
  "membership (commitTo i n) = membership n" "applied (commitTo i n) = i"
  "nlog (commitTo i n) = nlog n" "snap (commitTo i n) = snap n"
  "CommitIndex (hs (commitTo i n)) = i" "CurrentTerm (hs (commitTo i n)) = CurrentTerm (hs n)"
  "VotedFor (hs (commitTo i n)) = VotedFor (hs n)"
  "pending (commitTo i n) = pending n" "nextWriteToken (commitTo i n) = nextWriteToken n"
  by (simp_all add: commitTo_def Let_def becomeFollower_vote)

lemma commitTo_wf:
  assumes "wfNode n" and "CommitIndex (hs n) < i" and "i \<le> lastIndex n"
  shows "wfNode (commitTo i n)" and "progress n (commitTo i n)"
proof -
  note wf = wfNodeD [OF assms(1)]
  have base: "stBase (initialMembership n) (state (commitTo i n))
      = stBase (initialMembership n) (state n)"
    by (simp add: stBase_def)
  have "boundary n \<le> i" and "unat i \<le> unat (boundary n) + length (nlog n)"
    using wf(8) assms(2,3) unat_lastIndex [OF wf(6)]
    by (auto simp: word_le_nat_alt word_less_nat_alt)
  with wf(2) have st: "wfStore (members n) (initialMembership n) (state (commitTo i n))"
    by (simp add: wfStore_def fitsIndexSpace_def base)
  have "wfRole (commitTo i n)"
    using wf(5) by (auto simp: wfRole_def commitTo_def Let_def)
  with st wf show "wfNode (commitTo i n)"
    by (simp add: wfNode_def base)
  show "progress n (commitTo i n)"
    using assms(2) by (simp add: progress_def entryAt_def lastIndex_def)
qed

text \<open>The summary the handlers use.\<close>

lemma advanceCommit_wf:
  assumes "wfNode n"
  obtains n' effs where "advanceCommit n = Some (n', effs)" and "wfNode n'" and "progress n n'"
    and "bookkeeping n n'" and "effs = [] \<Longrightarrow> n' = n"
    and "snap n' = snap n" and "nlog n' = nlog n" and "membership n' = membership n"
    and "hs n' = (hs n)\<lparr>CommitIndex := CommitIndex (hs n')\<rparr>"
    and "effs = appliesBetween n (CommitIndex (hs n)) (CommitIndex (hs n'))"
    and "isVoter (membership n) (nid n) \<Longrightarrow> role n' = role n"
proof -
  note wf = wfNodeD [OF assms]
  from advanceLoop_spec [OF assms order_refl]
  consider "advanceCommit n = Some (n, [])"
    | i where "CommitIndex (hs n) < i" "i \<le> lastIndex n"
      "advanceCommit n = Some (commitTo i n, appliesBetween n (CommitIndex (hs n)) i)"
    unfolding advanceCommit_def by blast
  then show ?thesis
  proof cases
    case 1
    then show ?thesis
      using assms by (intro that [of n "[]"]) (auto simp: appliesBetween_def)
  next
    case 2
    have "appliesBetween n (CommitIndex (hs n)) i \<noteq> []"
      using 2(1,2) wf unat_lastIndex [OF wf(6)]
      by (auto simp: appliesBetween_def word_less_nat_alt word_le_nat_alt)
    moreover have "hs (commitTo i n) = (hs n)\<lparr>CommitIndex := i\<rparr>"
      by (simp add: commitTo_def Let_def becomeFollower_state)
    ultimately show ?thesis
      using 2 commitTo_wf [OF assms 2(1,2)]
      by (intro that [of "commitTo i n" "appliesBetween n (CommitIndex (hs n)) i"])
        (auto simp: bookkeeping_def commitTo_def Let_def)
  qed
qed

end
