(* ===== verification/RaftOps.thy ===== *)
theory RaftOps
  imports RaftProgress
begin

text \<open>
  The leader's operations keep a well-formed node well-formed and never panic: building and
  broadcasting replication messages, elections, proposals and membership changes. The relation
  \<^term>\<open>advances\<close> bundles what every handler guarantees of the node it returns; \<^term>\<open>safeResult\<close> says it
  of a handler's whole result, together with the rule that a result that is not marked dirty left
  the durable state alone.
\<close>

section \<open>The contract of a handler\<close>

definition advances :: "Node \<Rightarrow> Node \<Rightarrow> bool" where
  "advances n n' \<longleftrightarrow> wfNode n' \<and> progress n n' \<and> bookkeeping n n'"

definition safeResult :: "Node \<Rightarrow> (Node \<times> bool \<times> Effect list) option \<Rightarrow> bool" where
  "safeResult n r \<longleftrightarrow> (case r of None \<Rightarrow> False
     | Some (n', dirty, effs) \<Rightarrow> advances n n' \<and> (\<not> dirty \<longrightarrow> state n' = state n))"

definition safeOutcome :: "Node \<Rightarrow> (Node \<times> (raft_error + bool \<times> Effect list)) option \<Rightarrow> bool" where
  "safeOutcome n r \<longleftrightarrow> (case r of None \<Rightarrow> False
     | Some (n', Inl err) \<Rightarrow> advances n n' \<and> state n' = state n
     | Some (n', Inr (dirty, effs)) \<Rightarrow> advances n n' \<and> (\<not> dirty \<longrightarrow> state n' = state n))"

lemma safeResult_Some [simp]:
  "safeResult n (Some (n', dirty, effs)) \<longleftrightarrow> advances n n' \<and> (\<not> dirty \<longrightarrow> state n' = state n)"
  "\<not> safeResult n None"
  by (simp_all add: safeResult_def)

lemma safeOutcome_Some [simp]:
  "safeOutcome n (Some (n', Inl err)) \<longleftrightarrow> advances n n' \<and> state n' = state n"
  "safeOutcome n (Some (n', Inr (dirty, effs))) \<longleftrightarrow> advances n n' \<and> (\<not> dirty \<longrightarrow> state n' = state n)"
  "\<not> safeOutcome n None"
  by (simp_all add: safeOutcome_def)

lemma advances_refl [simp]: "advances n n \<longleftrightarrow> wfNode n"
  by (simp add: advances_def)

lemma advances_wf: "advances n n' \<Longrightarrow> wfNode n'"
  by (simp add: advances_def)

lemma advances_trans [trans]: "advances a b \<Longrightarrow> advances b c \<Longrightarrow> advances a c"
  by (auto simp: advances_def intro: progress_trans bookkeeping_trans)

text \<open>Changes of the volatile fields alone.\<close>

lemma advances_volatile:
  assumes "wfNode n" and "state n' = state n" and "nid n' = nid n" and "members n' = members n"
    and "initialMembership n' = initialMembership n" and "membership n' = membership n"
    and "applied n' = applied n" and "pending n' = pending n"
    and "nextWriteToken n' = nextWriteToken n" and "wfRole n'"
  shows "advances n n'"
  using assms by (simp add: advances_def wfNode_def bookkeeping_def progress_state)

lemma advances_becomeFollower: "wfNode n \<Longrightarrow> advances n (becomeFollower t l n)"
  by (simp add: advances_def becomeFollower_wf becomeFollower_progress becomeFollower_bookkeeping)

section \<open>Changing the log past the commit index\<close>

lemma advances_setLog:
  assumes wf: "wfNode n" and fits: "unat (boundary n) + length es < 2 ^ 64"
    and entries: "wfEntries (boundary n) (LastIncludedTerm (snap n)) (CurrentTerm (hs n)) es"
    and chain: "memChain (members n) (stBase (initialMembership n) (state n)) es = Some m"
    and keep: "take (unat (CommitIndex (hs n)) - unat (boundary n)) es
       = take (unat (CommitIndex (hs n)) - unat (boundary n)) (nlog n)"
    and voter: "role n = Candidate \<Longrightarrow> isVoter m (nid n)"
  shows "advances n ((setLog es n)\<lparr>membership := m\<rparr>)" (is "advances n ?n")
proof -
  note w = wfNodeD [OF wf]
  have base: "stBase (initialMembership n) (state (setLog es n))
      = stBase (initialMembership n) (state n)"
    by (simp add: stBase_def)
  have "unat (CommitIndex (hs n)) \<le> unat (boundary n) + length es"
    using arg_cong [OF keep, of length] w(9) by (simp add: min_def split: if_splits)
  with w(2) fits entries chain
  have "wfStore (members n) (initialMembership n) (state (setLog es n))"
    by (simp add: wfStore_def fitsIndexSpace_def base)
  with w voter chain have "wfNode ?n"
    by (auto simp: wfNode_def wfRole_def base)
  moreover have "progress n ?n"
    using progress_trans [OF progress_setLog [OF wf fits keep] progress_state [of ?n "setLog es n"]]
    by simp
  ultimately show ?thesis
    by (simp add: advances_def bookkeeping_def)
qed

lemma lastTerm_le:
  assumes "wfNode n"
  shows "(if nlog n = [] then LastIncludedTerm (snap n) else eTerm (last (nlog n))) \<le> CurrentTerm (hs n)"
proof (cases "nlog n = []")
  case True
  then show ?thesis
    using wfNodeD(2) [OF assms] by (auto simp: wfStore_def wfSnapshot_def split: if_splits)
next
  case False
  then show ?thesis
    using wfEntries_nth(4) [OF wfNodeD(7) [OF assms], of "length (nlog n) - 1"]
    by (simp add: last_conv_nth)
qed

lemma advances_append:
  assumes wf: "wfNode n" and room: "lastIndex n \<noteq> MaxUint64"
    and e: "eIndex e = lastIndex n + 1" "eTerm e = CurrentTerm (hs n)"
      "EntryNoop \<le> eType e" "eType e \<le> EntryConfigFinal"
    and tr: "transitionMembership (membership n) e (members n) = Some m"
    and role: "role n = Leader"
  shows "advances n ((setLog (nlog n @ [e]) n)\<lparr>membership := m\<rparr>)"
proof (rule advances_setLog [OF wf])
  note w = wfNodeD [OF wf]
  have "unat (lastIndex n) \<noteq> unat MaxUint64"
    using room by (simp only: word_unat_eq_iff [symmetric] not_False_eq_True)
  then show "unat (boundary n) + length (nlog n @ [e]) < 2 ^ 64"
    using unat_lastIndex [OF w(6)] unat_u64_less [of "lastIndex n"] by simp
  show "wfEntries (boundary n) (LastIncludedTerm (snap n)) (CurrentTerm (hs n)) (nlog n @ [e])"
    using w(5,7) e lastTerm_le [OF wf] role
    by (auto simp: wfEntries_append lastIndex_def wfRole_def)
  show "memChain (members n) (stBase (initialMembership n) (state n)) (nlog n @ [e]) = Some m"
    using w(3) tr by (simp add: memChain_append)
  show "take (unat (CommitIndex (hs n)) - unat (boundary n)) (nlog n @ [e])
      = take (unat (CommitIndex (hs n)) - unat (boundary n)) (nlog n)"
    using w(9) by simp
  show "isVoter m (nid n)" if "role n = Candidate"
    using that role by simp
qed

lemma transition_plain:
  "eMembership e = zeroMembership \<Longrightarrow> eType e \<noteq> EntryConfigJoint \<Longrightarrow> eType e \<noteq> EntryConfigFinal
     \<Longrightarrow> transitionMembership m e u = Some m"
  by (simp add: transition_other membershipIsZero_iff)

section \<open>Outgoing messages\<close>

lemma appendFor_frame:
  assumes "appendSequence n = Some seqs"
  obtains seqs' msg where "appendFor member n = Some (n\<lparr>appendSequence := Some seqs'\<rparr>, msg)"
proof -
  let ?s = "AList.update member (map_get 0 (Some seqs) member + 1) seqs"
  have "map_option fst (appendFor member n) = Some (n\<lparr>appendSequence := Some ?s\<rparr>)"
    using assms by (simp add: appendFor_def Let_def)
  then show ?thesis
    by (auto intro: that)
qed

lemma broadcastLoop_frame:
  assumes "appendSequence n = Some seqs"
  shows "\<exists>seqs' effs. broadcastLoop ms n = Some (n\<lparr>appendSequence := Some seqs'\<rparr>, effs)"
  using assms
proof (induction ms arbitrary: n seqs)
  case Nil
  then have "n = n\<lparr>appendSequence := Some seqs\<rparr>" by (cases n) simp
  then show ?case by auto
next
  case (Cons m ms)
  show ?case
  proof (cases "m = nid n")
    case False
    obtain seqs' msg where "appendFor m n = Some (n\<lparr>appendSequence := Some seqs'\<rparr>, msg)"
      using appendFor_frame [OF Cons.prems] .
    moreover obtain seqs2 effs where
      "broadcastLoop ms (n\<lparr>appendSequence := Some seqs'\<rparr>) = Some (n\<lparr>appendSequence := Some seqs2\<rparr>, effs)"
      using Cons.IH [of "n\<lparr>appendSequence := Some seqs'\<rparr>" seqs'] by auto
    ultimately have "broadcastLoop (m # ms) n
        = Some (n\<lparr>appendSequence := Some seqs2\<rparr>, EffectSend msg # effs)"
      using False by simp
    then show ?thesis
      by blast
  qed (use Cons in simp)
qed

lemma advances_sequence:
  "wfNode n \<Longrightarrow> advances n (n\<lparr>appendSequence := Some seqs\<rparr>)"
  by (rule advances_volatile) (auto simp: wfNode_def wfRole_def)

lemma appendFor_safe:
  assumes "wfNode n" and "role n = Leader"
  obtains n' msg where "appendFor member n = Some (n', msg)" and "advances n n'"
    and "state n' = state n"
proof -
  obtain seqs where "appendSequence n = Some seqs"
    using assms(2) wfNodeD(5) [OF assms(1)] by (auto simp: wfRole_def)
  then show ?thesis
    by (rule appendFor_frame [of n seqs member]) (auto intro!: that advances_sequence assms(1))
qed

lemma broadcastAppend_safe:
  assumes "wfNode n" and "role n = Leader"
  obtains n' effs where "broadcastAppend n = Some (n', effs)" and "advances n n'"
    and "state n' = state n"
  using assms advances_sequence [OF assms(1)] wfNodeD(5) [OF assms(1)]
    broadcastLoop_frame [of n _ "members n"]
  by (fastforce simp: wfRole_def broadcastAppend_def)

lemma advanceCommit_safe:
  assumes "wfNode n"
  obtains n' effs where "advanceCommit n = Some (n', effs)" and "advances n n'"
    and "effs = [] \<Longrightarrow> n' = n" and "isVoter (membership n) (nid n) \<Longrightarrow> role n' = role n"
  using advanceCommit_wf [OF assms] by (metis advances_def)

section \<open>Elections\<close>

lemma becomeLeader_safe:
  assumes wf: "wfNode n" and role: "role n = Candidate"
  obtains (exhausted) "lastIndex n = MaxUint64" "becomeLeader n = Some (n, Inl ErrIndexExhausted)"
  | (elected) n' effs where "lastIndex n \<noteq> MaxUint64" "becomeLeader n = Some (n', Inr effs)"
      "advances n n'"
proof (cases "lastIndex n = MaxUint64")
  case True
  then show ?thesis by (simp add: exhausted becomeLeader_def)
next
  case False
  note w = wfNodeD [OF wf]
  have voter: "isVoter (membership n) (nid n)"
    using w(5) role by (simp add: wfRole_def)
  define noop where "noop = \<lparr>eIndex = lastIndex n + 1, eTerm = CurrentTerm (hs n),
    eType = EntryNoop, eData = [], eMembership = zeroMembership\<rparr>"
  define n0 where "n0 = n\<lparr>role := Leader, leader := nid n,
     electionVotes := filter (\<lambda>i. i \<in> set (case votes n of None \<Rightarrow> [] | Some vs \<Rightarrow> vs)) (members n),
     electionMembership := membership n,
     nextIndex := Some (map (\<lambda>i. (i, lastIndex n + 1)) (members n)),
     matchIndex := Some (AList.update (nid n) (eIndex noop)
       (AList.update (nid n) (lastIndex n) (map (\<lambda>i. (i, 0)) (members n)))),
     appendSequence := Some []\<rparr>"
  have a0: "advances n n0"
    using w(5) role by (intro advances_volatile [OF wf]) (auto simp: n0_def wfRole_def)
  have "transitionMembership (membership n0) noop (members n0) = Some (membership n0)"
    by (intro transition_plain) (simp_all add: noop_def const_defs)
  then have "advances n0 ((setLog (nlog n0 @ [noop]) n0)\<lparr>membership := membership n0\<rparr>)"
    using False by (intro advances_append advances_wf [OF a0])
      (simp_all add: n0_def noop_def lastIndex_def const_defs)
  then have a1: "advances n0 (setLog (nlog n @ [noop]) n0)" (is "advances _ ?n1")
    by (simp add: setLog_def n0_def)
  obtain n2 commits where n2: "advanceCommit ?n1 = Some (n2, commits)" "advances ?n1 n2"
    "isVoter (membership ?n1) (nid ?n1) \<Longrightarrow> role n2 = role ?n1"
    using advanceCommit_safe [OF advances_wf [OF a1]] by metis
  have r2: "role n2 = Leader"
    using n2(3) voter by (simp add: n0_def)
  obtain n3 sends where n3: "broadcastAppend n2 = Some (n3, sends)" "advances n2 n3"
    using broadcastAppend_safe [OF advances_wf [OF n2(2)] r2] .
  have "becomeLeader n = Some (n3, Inr ([EffectResetHeartbeatTimer] @ commits @ sends))"
    using False n2(1) n3(1) by (simp add: becomeLeader_def Let_def n0_def noop_def)
  moreover have "advances n n3"
    using a0 a1 n2(2) n3(2) by (blast intro: advances_trans)
  ultimately show ?thesis
    using elected False by blast
qed

lemma startElection_safe:
  assumes wf: "wfNode n" and room: "CurrentTerm (hs n) \<noteq> MaxUint64"
  shows "safeOutcome n (startElection n)"
proof -
  let ?h = "(hs n)\<lparr>CurrentTerm := CurrentTerm (hs n) + 1, VotedFor := nid n\<rparr>"
  let ?n1 = "setHard ?h (n\<lparr>role := Candidate, leader := [], votes := Some [nid n],
    electionVotes := [], nextIndex := None, matchIndex := None, appendSequence := None\<rparr>)"
  note w = wfNodeD [OF wf]
  have up: "CurrentTerm (hs n) < CurrentTerm (hs n) + 1"
    using room unat_plus_one [OF room] by (simp add: word_less_nat_alt)
  have a1: "advances n ?n1" if voter: "isVoter (membership n) (nid n)"
  proof -
    have base: "stBase (initialMembership n) (state ?n1) = stBase (initialMembership n) (state n)"
      by (simp add: stBase_def)
    have "CurrentTerm (hs n) + 1 \<noteq> 0"
      using up by auto
    then have "wfRole ?n1"
      using voter by (simp add: wfRole_def)
    moreover have "wfStore (members n) (initialMembership n) (state ?n1)"
      by (rule wfStore_term [OF w(2)]) (use up in \<open>simp_all add: order_less_imp_le\<close>)
    ultimately have "wfNode ?n1"
      using w by (simp add: wfNode_def base)
    moreover have "progress n ?n1"
      using up by (auto simp: progress_def entryAt_def lastIndex_def)
    ultimately show ?thesis
      by (simp add: advances_def bookkeeping_def)
  qed
  show ?thesis
  proof (cases "isVoter (membership n) (nid n)
      \<and> \<not> (quorum (membership n) (\<lambda>i. i = nid n) \<and> lastIndex n = MaxUint64)")
    case False
    then show ?thesis
      using wf by (auto simp: startElection_def)
  next
    case True
    then have wf1: "wfNode ?n1" and adv: "advances n ?n1"
      using a1 advances_wf by blast+
    have "role ?n1 = Candidate" by simp
    from wf1 this show ?thesis
    proof (cases rule: becomeLeader_safe)
      case exhausted
      then show ?thesis
        using True adv by (simp add: startElection_def Let_def lastIndex_def)
    next
      case (elected n' effs)
      then show ?thesis
        using True adv by (auto simp: startElection_def Let_def intro: advances_trans)
    qed
  qed
qed

end
