(* ===== verification/RaftStep.thy ===== *)
theory RaftStep
  imports RaftOps
begin

text \<open>
  The remaining handlers of \<open>src/raft/node.go\<close> and the dispatcher \<open>Step\<close>: none of them panics on a
  well-formed node, and each keeps the node well-formed and makes only the progress of
  \<^term>\<open>progress\<close>. The one assumption on the input is \<^term>\<open>safeAppend\<close>, the Log Matching property
  between the receiver's log and the entries of an AppendEntries message.
\<close>

section \<open>Votes\<close>

lemma handleRequestVote_safe:
  assumes "wfNode n"
  shows "safeResult n (Some (handleRequestVote msg n))"
proof -
  let ?n1 = "setHard ((hs n)\<lparr>VotedFor := mFrom msg\<rparr>) n"
  note w = wfNodeD [OF assms]
  have base: "stBase (initialMembership n) (state ?n1) = stBase (initialMembership n) (state n)"
    by (simp add: stBase_def)
  have "wfStore (members n) (initialMembership n) (state ?n1)"
    by (rule wfStore_term [OF w(2)]) simp_all
  with w have "wfNode ?n1"
    by (simp add: wfNode_def base wfRole_def)
  moreover have "progress n ?n1" if "VotedFor (hs n) = [] \<or> VotedFor (hs n) = mFrom msg"
    using that by (auto simp: progress_def entryAt_def lastIndex_def)
  ultimately have "advances n ?n1" if "VotedFor (hs n) = [] \<or> VotedFor (hs n) = mFrom msg"
    using that by (simp add: advances_def bookkeeping_def)
  with assms show ?thesis
    by (auto simp: handleRequestVote_def Let_def)
qed

lemma handleRequestVoteResponse_safe:
  assumes wf: "wfNode n"
  shows "safeOutcome n (handleRequestVoteResponse msg n)"
proof (cases "role n \<noteq> Candidate \<or> mTerm msg \<noteq> CurrentTerm (hs n) \<or> \<not> mVoteGranted msg")
  case True
  then show ?thesis
    using wf by (simp add: handleRequestVoteResponse_def)
next
  case False
  then obtain vs where vs: "votes n = Some vs"
    using wfNodeD(5) [OF wf] by (auto simp: wfRole_def)
  let ?n1 = "n\<lparr>votes := Some (vs @ [mFrom msg])\<rparr>"
  have a1: "advances n ?n1"
    using wfNodeD(5) [OF wf] by (intro advances_volatile [OF wf]) (auto simp: wfRole_def)
  have "role ?n1 = Candidate"
    using False by simp
  with advances_wf [OF a1] show ?thesis
    by (cases rule: becomeLeader_safe)
      (use False vs a1 wf in \<open>auto simp: handleRequestVoteResponse_def Let_def intro: advances_trans\<close>)
qed

section \<open>Proposals and membership changes\<close>

lemma leader_maps:
  assumes "wfNode n" and "role n = Leader"
  obtains next_m match_m where "nextIndex n = Some next_m" and "matchIndex n = Some match_m"
  using assms by (auto simp: wfNode_def wfRole_def)

lemma advances_match:
  "wfNode n \<Longrightarrow> advances n (n\<lparr>matchIndex := Some ms\<rparr>)"
  by (rule advances_volatile) (auto simp: wfNode_def wfRole_def)

lemma propose_safe:
  assumes wf: "wfNode n"
  shows "safeOutcome n (propose payload n)"
proof (cases "role n \<noteq> Leader \<or> \<not> isVoter (membership n) (nid n)
    \<or> hasUncommittedConfiguration n \<or> lastIndex n = MaxUint64")
  case True
  then show ?thesis
    using wf by (auto simp: propose_def)
next
  case False
  then obtain next_m match_m where m: "matchIndex n = Some match_m"
    using leader_maps [OF wf] by metis
  define e where "e = \<lparr>eIndex = lastIndex n + 1, eTerm = CurrentTerm (hs n),
    eType = EntryCommand, eData = payload, eMembership = zeroMembership\<rparr>"
  define n0 where "n0 = n\<lparr>matchIndex := Some (AList.update (nid n) (eIndex e) match_m)\<rparr>"
  have a0: "advances n n0"
    by (simp add: n0_def advances_match wf)
  have "transitionMembership (membership n0) e (members n0) = Some (membership n0)"
    by (intro transition_plain) (simp_all add: e_def const_defs)
  then have "advances n0 ((setLog (nlog n0 @ [e]) n0)\<lparr>membership := membership n0\<rparr>)"
    using False by (intro advances_append advances_wf [OF a0])
      (simp_all add: n0_def e_def lastIndex_def const_defs)
  then have a1: "advances n0 (setLog (nlog n @ [e]) n0)" (is "advances _ ?n1")
    by (simp add: setLog_def n0_def)
  obtain n2 commits where n2: "advanceCommit ?n1 = Some (n2, commits)" "advances ?n1 n2"
    "isVoter (membership ?n1) (nid ?n1) \<Longrightarrow> role n2 = role ?n1"
    using advanceCommit_safe [OF advances_wf [OF a1]] by metis
  have "role n2 = Leader"
    using n2(3) False by (simp add: n0_def)
  from advances_wf [OF n2(2)] this
  obtain n3 sends where n3: "broadcastAppend n2 = Some (n3, sends)" "advances n2 n3"
    by (rule broadcastAppend_safe)
  have "propose payload n = Some (n3, Inr (True, commits @ sends))"
    using False n2(1) n3(1) m by (simp add: propose_def Let_def n0_def e_def)
  moreover have "advances n n3"
    using a0 a1 n2(2) n3(2) by (blast intro: advances_trans)
  ultimately show ?thesis by simp
qed

lemma appendMembershipEntry_safe:
  assumes wf: "wfNode n" and role: "role n = Leader" and room: "lastIndex n \<noteq> MaxUint64"
    and ty: "EntryNoop \<le> ty" "ty \<le> EntryConfigFinal"
  shows "safeOutcome n (appendMembershipEntry ty m n)"
proof -
  define e where "e = \<lparr>eIndex = lastIndex n + 1, eTerm = CurrentTerm (hs n), eType = ty,
    eData = [], eMembership = m\<rparr>"
  show ?thesis
  proof (cases "transitionMembership (membership n) e (members n)")
    case None
    then show ?thesis
      using wf by (simp add: appendMembershipEntry_def Let_def e_def)
  next
    case (Some m')
    let ?n0 = "setLog (nlog n @ [e]) n"
    let ?n1 = "?n0\<lparr>membership := m'\<rparr>"
    have a1: "advances n ?n1"
      using Some by (intro advances_append wf room role) (simp_all add: e_def ty)
    have base: "stBase (initialMembership n) (state ?n0) = stBase (initialMembership n) (state n)"
      by (simp add: stBase_def)
    have ch: "memChain (members n) (stBase (initialMembership n) (state n)) (nlog n @ [e]) = Some m'"
      using wfNodeD(3) [OF wf] Some by (simp add: memChain_append)
    have "wfStore (members ?n0) (initialMembership ?n0) (state ?n0)"
      using wfNodeD(2) [OF advances_wf [OF a1]] by simp
    from refreshMembership_chain [OF this] have r: "refreshMembership ?n0 = Some ?n1"
      using ch by (simp add: base)
    from wf role obtain next_m match_m where mm: "matchIndex n = Some match_m"
      by (rule leader_maps)
    let ?n2 = "?n1\<lparr>matchIndex := Some (AList.update (nid n) (eIndex e) match_m)\<rparr>"
    have a2: "advances ?n1 ?n2"
      by (rule advances_match [OF advances_wf [OF a1]])
    obtain n3 effs where n3: "advanceCommit ?n2 = Some (n3, effs)" "advances ?n2 n3"
      using advanceCommit_safe [OF advances_wf [OF a2]] by metis
    have a3: "advances n n3"
      using a1 a2 n3(2) by (blast intro: advances_trans)
    have step: "appendMembershipEntry ty m n =
      (if role n3 = Leader then do {
         (n4, sends) \<leftarrow> broadcastAppend n3; Some (n4, Inr (True, effs @ sends))
       } else Some (n3, Inr (True, effs)))"
      using Some r mm n3(1) by (simp add: appendMembershipEntry_def Let_def e_def)
    show ?thesis
    proof (cases "role n3 = Leader")
      case True
      with advances_wf [OF n3(2)] obtain n4 sends
        where "broadcastAppend n3 = Some (n4, sends)" "advances n3 n4"
        by (rule broadcastAppend_safe)
      then show ?thesis
        using True step a3 by (auto intro: advances_trans)
    qed (use step a3 in simp)
  qed
qed

lemma broadcast_membership: "broadcastLoop ms n = Some (n', effs) \<Longrightarrow> membership n' = membership n"
proof (induction ms arbitrary: n effs)
  case (Cons m ms)
  have "membership n1 = membership n" if "appendFor m n = Some (n1, msg)" for n1 msg
    using that by (auto simp: appendFor_def Let_def split: option.splits if_splits)
  with Cons show ?case
    by (fastforce split: if_splits option.splits)
qed simp

lemma appendMembershipEntry_membership:
  assumes wf: "wfNode n" and role: "role n = Leader" and room: "lastIndex n \<noteq> MaxUint64"
    and ty: "ty = EntryConfigJoint \<or> ty = EntryConfigFinal"
    and r: "appendMembershipEntry ty m n = Some (n', Inr x)"
  shows "membership n' = m"
proof -
  define e where "e = \<lparr>eIndex = lastIndex n + 1, eTerm = CurrentTerm (hs n), eType = ty,
    eData = [], eMembership = m\<rparr>"
  have tr: "transitionMembership (membership n) e (members n) = Some m"
    using r ty by (auto simp: appendMembershipEntry_def Let_def e_def transitionMembership_def
        split: if_splits option.splits)
  let ?n0 = "setLog (nlog n @ [e]) n"
  have a1: "advances n (?n0\<lparr>membership := m\<rparr>)"
    using tr ty by (intro advances_append wf room role) (auto simp: e_def const_defs)
  have "memChain (members n) (stBase (initialMembership n) (state n)) (nlog n @ [e]) = Some m"
    using wfNodeD(3) [OF wf] tr by (simp add: memChain_append)
  moreover have "wfStore (members ?n0) (initialMembership ?n0) (state ?n0)"
    using wfNodeD(2) [OF advances_wf [OF a1]] by simp
  note refreshMembership_chain [OF this]
  ultimately have rf: "refreshMembership ?n0 = Some (?n0\<lparr>membership := m\<rparr>)"
    by simp
  obtain ms n2 effs where ac: "advanceCommit (?n0\<lparr>membership := m, matchIndex := ms\<rparr>) = Some (n2, effs)"
    and ms: "map_put (nid n) (eIndex e) (matchIndex n) = Some ms"
    and rest: "n' = n2 \<or> (\<exists>sends. broadcastAppend n2 = Some (n', sends))"
    using r tr rf by (auto simp: appendMembershipEntry_def Let_def e_def split: bind_splits if_splits)
  have "wfNode (?n0\<lparr>membership := m, matchIndex := ms\<rparr>)"
    using advances_match [OF advances_wf [OF a1]] ms by (auto simp: map_put_eq_Some advances_def)
  then have "membership n2 = m"
    by (rule advanceCommit_wf) (use ac in simp)
  with rest show ?thesis
    by (auto simp: broadcastAppend_def dest: broadcast_membership)
qed

lemma beginMembership_safe: "wfNode n \<Longrightarrow> safeOutcome n (beginMembership vs ls n)"
  by (auto simp: beginMembership_def Let_def const_defs intro: appendMembershipEntry_safe)

lemma finalizeMembership_safe: "wfNode n \<Longrightarrow> safeOutcome n (finalizeMembership n)"
  by (auto simp: finalizeMembership_def const_defs intro: appendMembershipEntry_safe)

section \<open>Responses\<close>

lemma recordMatch_safe:
  assumes wf: "wfNode n" and role: "role n = Leader"
  obtains n' where "recordMatch msg n = Some n'" and "advances n n'" and "state n' = state n"
    and "role n' = Leader"
proof -
  from wf role obtain next_m match_m where m: "nextIndex n = Some next_m" "matchIndex n = Some match_m"
    by (rule leader_maps)
  have "advances n (n\<lparr>matchIndex := Some a, nextIndex := Some b\<rparr>)" for a b
    using wfNodeD(5) [OF wf] by (intro advances_volatile [OF wf]) (auto simp: wfRole_def)
  then show ?thesis
    using m role wf that by (cases "mMatchIndex msg > map_get 0 (matchIndex n) (mFrom msg)")
      (auto simp: recordMatch_def)
qed

lemma advanceAfterMatch_safe:
  assumes wf: "wfNode n" and role: "role n = Leader"
  shows "safeResult n (advanceAfterMatch msg n)"
proof -
  from wf role obtain n1 where n1: "recordMatch msg n = Some n1" "advances n n1" "state n1 = state n"
    by (rule recordMatch_safe)
  obtain n2 effs where n2: "advanceCommit n1 = Some (n2, effs)" "advances n1 n2"
    "effs = [] \<Longrightarrow> n2 = n1"
    using advanceCommit_safe [OF advances_wf [OF n1(2)]] by metis
  have a2: "advances n n2"
    using n1(2) n2(2) by (rule advances_trans)
  show ?thesis
  proof (cases "role n2 = Leader \<and> map_get 0 (matchIndex n2) (mFrom msg) < lastIndex n2")
    case True
    then have "role n2 = Leader" by simp
    with advances_wf [OF a2] obtain n3 next_msg where
      "appendFor (mFrom msg) n2 = Some (n3, next_msg)" "advances n2 n3" "state n3 = state n2"
      by (rule appendFor_safe)
    with True n1 n2 a2 show ?thesis
      by (auto simp: advanceAfterMatch_def Let_def intro: advances_trans)
  next
    case False
    with n1 n2 a2 show ?thesis
      by (auto simp: advanceAfterMatch_def Let_def)
  qed
qed

lemma handleInstallSnapshotResponse_safe:
  "wfNode n \<Longrightarrow> safeResult n (handleInstallSnapshotResponse msg n)"
  by (auto simp: handleInstallSnapshotResponse_def intro: advanceAfterMatch_safe)

lemma handleAppendEntriesResponse_safe:
  assumes wf: "wfNode n"
  shows "safeResult n (handleAppendEntriesResponse msg n)"
proof (cases "role n = Leader \<and> mTerm msg = CurrentTerm (hs n) \<and> \<not> mSuccess msg
    \<and> mSequence msg = map_get 0 (appendSequence n) (mFrom msg)")
  case True
  from wf True obtain next_m match_m where m: "nextIndex n = Some next_m"
    by (auto elim: leader_maps)
  have a: "advances n (n\<lparr>nextIndex := Some b\<rparr>)" for b
    using wfNodeD(5) [OF wf] by (intro advances_volatile [OF wf]) (auto simp: wfRole_def)
  have "safeResult n (do { (n1, msg1) \<leftarrow> appendFor (mFrom msg) (n\<lparr>nextIndex := Some b\<rparr>);
      Some (n1, False, [EffectSend msg1]) })" for b
  proof -
    have "role (n\<lparr>nextIndex := Some b\<rparr>) = Leader"
      using True by simp
    with advances_wf [OF a] obtain n1 msg1 where
      "appendFor (mFrom msg) (n\<lparr>nextIndex := Some b\<rparr>) = Some (n1, msg1)"
      "advances (n\<lparr>nextIndex := Some b\<rparr>) n1" "state n1 = state (n\<lparr>nextIndex := Some b\<rparr>)"
      by (rule appendFor_safe)
    then show ?thesis
      using a [of b] by (auto intro: advances_trans)
  qed
  then show ?thesis
    using True m by (simp add: handleAppendEntriesResponse_def Let_def)
next
  case False
  then show ?thesis
    using wf by (auto simp: handleAppendEntriesResponse_def intro: advanceAfterMatch_safe)
qed

section \<open>Snapshots\<close>

text \<open>Both snapshot operations replace a prefix of the log: they keep the suffix after the snapshot
  index, or drop the whole log when nothing past that index is committed.\<close>

definition compacted :: "Snapshot \<Rightarrow> Entry list \<Rightarrow> Node \<Rightarrow> Node" where
  "compacted s suffix n =
     (let c = max (LastIncludedIndex s) (CommitIndex (hs n)) in
      n\<lparr>state := \<lparr>hardState = (hs n)\<lparr>CommitIndex := c\<rparr>, snapshot = s, log = suffix\<rparr>, applied := c\<rparr>)"

definition keepsSuffix :: "Snapshot \<Rightarrow> Entry list \<Rightarrow> Node \<Rightarrow> bool" where
  "keepsSuffix s suffix n \<longleftrightarrow>
     suffix = drop (unat (LastIncludedIndex s) - unat (boundary n)) (nlog n)
       \<and> LastIncludedIndex s \<le> lastIndex n \<and> termAt n (LastIncludedIndex s) = LastIncludedTerm s
     \<or> suffix = [] \<and> CommitIndex (hs n) \<le> LastIncludedIndex s"

lemma compacted_simps [simp]:
  "nid (compacted s suffix n) = nid n" "members (compacted s suffix n) = members n"
  "initialMembership (compacted s suffix n) = initialMembership n"
  "snap (compacted s suffix n) = s" "nlog (compacted s suffix n) = suffix"
  "hs (compacted s suffix n) = (hs n)\<lparr>CommitIndex := max (LastIncludedIndex s) (CommitIndex (hs n))\<rparr>"
  "applied (compacted s suffix n) = max (LastIncludedIndex s) (CommitIndex (hs n))"
  "role (compacted s suffix n) = role n" "pending (compacted s suffix n) = pending n"
  "nextWriteToken (compacted s suffix n) = nextWriteToken n"
  "votes (compacted s suffix n) = votes n" "nextIndex (compacted s suffix n) = nextIndex n"
  "matchIndex (compacted s suffix n) = matchIndex n"
  "appendSequence (compacted s suffix n) = appendSequence n"
  by (simp_all add: compacted_def Let_def)

lemma take_index:
  assumes wf: "wfNode n" and i: "boundary n \<le> i" "i \<le> lastIndex n"
  defines "p \<equiv> unat i - unat (boundary n)"
  shows "p \<le> length (nlog n)" and "boundary n + of_nat p = i"
    and "(if take p (nlog n) = [] then LastIncludedTerm (snap n) else eTerm (last (take p (nlog n))))
       = termAt n i"
proof -
  note w = wfNodeD [OF wf]
  have le: "unat (boundary n) \<le> unat i" "unat i \<le> unat (boundary n) + length (nlog n)"
    using i unat_lastIndex [OF w(6)] by (simp_all add: word_le_nat_alt)
  then show p: "p \<le> length (nlog n)"
    by (simp add: p_def)
  show "boundary n + of_nat p = i"
    using le by (simp add: p_def of_nat_diff word_unat_eq_iff unat_plus_of_nat unat_u64_less)
  show "(if take p (nlog n) = [] then LastIncludedTerm (snap n) else eTerm (last (take p (nlog n))))
       = termAt n i"
  proof (cases "p = 0")
    case True
    then have "i = boundary n"
      using le by (simp add: p_def word_unat_eq_iff)
    then show ?thesis
      using True w(2) by (auto simp: termAt_def wfStore_def wfSnapshot_def)
  next
    case False
    then have "i \<noteq> 0" "i \<noteq> boundary n"
      using le by (auto simp: p_def)
    then show ?thesis
      using False p le by (auto simp: termAt_nat [OF w(6)] last_conv_nth p_def)
  qed
qed

lemma wfEntries_drop:
  assumes wf: "wfNode n" and i: "boundary n \<le> i" "i \<le> lastIndex n"
  shows "wfEntries i (termAt n i) (CurrentTerm (hs n)) (drop (unat i - unat (boundary n)) (nlog n))"
  using wfNodeD(7) [OF wf] take_index [OF assms]
    wfEntries_append [of "boundary n" "LastIncludedTerm (snap n)" "CurrentTerm (hs n)"
      "take (unat i - unat (boundary n)) (nlog n)" "drop (unat i - unat (boundary n)) (nlog n)"]
  by (simp add: min_absorb2)

lemma advances_compacted:
  assumes wf: "wfNode n" and bi: "boundary n < LastIncludedIndex s"
    and snapok: "wfSnapshot (members n) (initialMembership n) (CurrentTerm (hs n)) s"
    and keep: "keepsSuffix s suffix n"
    and chain: "memChain (members n) (snapshotMembershipOf s) suffix = Some m"
    and voter: "role n = Candidate \<Longrightarrow> isVoter m (nid n)"
  shows "advances n ((compacted s suffix n)\<lparr>membership := m\<rparr>)" (is "advances n ?n")
    and "refreshMembership (compacted s suffix n) = Some ((compacted s suffix n)\<lparr>membership := m\<rparr>)"
proof -
  note w = wfNodeD [OF wf]
  let ?i = "LastIncludedIndex s" and ?c = "max (LastIncludedIndex s) (CommitIndex (hs n))"
  let ?b = "unat (boundary n)" and ?p = "unat (LastIncludedIndex s) - unat (boundary n)"
  have base: "stBase (initialMembership n) (state (compacted s suffix n)) = snapshotMembershipOf s"
    using bi by (auto simp: stBase_def word_gt_0)
  have lt: "?b < unat ?i"
    using bi by (simp add: word_less_nat_alt)
  have whole: "suffix = drop ?p (nlog n)" "unat ?i \<le> ?b + length (nlog n)" if "suffix \<noteq> []"
    using keep that unat_lastIndex [OF w(6)] by (auto simp: keepsSuffix_def word_le_nat_alt)
  have "wfEntries ?i (LastIncludedTerm s) (CurrentTerm (hs n)) suffix"
    using keep bi wfEntries_drop [OF wf, of ?i] by (auto simp: keepsSuffix_def order_less_imp_le)
  moreover have "unat ?i + length suffix < 2 ^ 64"
    using whole w(6) lt unat_u64_less [of ?i] by (cases "suffix = []") (auto simp: fitsIndexSpace_def)
  moreover have "unat ?c \<le> unat ?i + length suffix"
    using keep lt w(9) unat_lastIndex [OF w(6)]
    by (auto simp: keepsSuffix_def max_def word_le_nat_alt)
  moreover have "?i \<le> ?c" by simp
  ultimately have store: "wfStore (members n) (initialMembership n) (state (compacted s suffix n))"
    using w(2) snapok chain by (simp add: wfStore_def fitsIndexSpace_def base)
  with w chain voter have wf': "wfNode ?n"
    by (auto simp: wfNode_def wfRole_def base)
  have "entryAt ?n j = entryAt n j" if "?i < j" "j \<le> CommitIndex (hs n)" for j
  proof -
    have j: "unat ?i < unat j" "unat j \<le> unat (CommitIndex (hs n))"
      using that by (simp_all add: word_less_nat_alt word_le_nat_alt)
    then have "suffix = drop ?p (nlog n)" "unat ?i \<le> ?b + length (nlog n)"
      using keep unat_lastIndex [OF w(6)] by (auto simp: keepsSuffix_def word_le_nat_alt)
    then show ?thesis
      using j lt w(9) entryAt_nat [OF w(6), of j] entryAt_nat [OF wfNodeD(6) [OF wf'], of j]
      by auto
  qed
  then have "progress n ?n"
    using bi by (simp add: progress_def order_less_imp_le)
  with wf' show "advances n ?n"
    by (simp add: advances_def bookkeeping_def)
  have "wfStore (members (compacted s suffix n)) (initialMembership (compacted s suffix n))
      (state (compacted s suffix n))"
    using store by simp
  from refreshMembership_chain [OF this] show "refreshMembership (compacted s suffix n) = Some ?n"
    by (simp add: base chain)
qed

lemma suffix_after:
  assumes fits: "fitsIndexSpace (state n)" and bi: "boundary n < i"
  shows "(if i < MaxUint64 then entriesFrom n (i + 1) else [])
     = drop (unat i - unat (boundary n)) (nlog n)"
proof (cases "i < MaxUint64")
  case True
  then show ?thesis
    using bi less_imp_not_MaxUint64 [OF True] unat_plus_one [of i]
    by (simp add: entriesFrom_nat [OF fits] word_less_nat_alt)
next
  case False
  then have "i = MaxUint64"
    using word_le_MaxUint64 [of i] by simp
  then show ?thesis
    using fits bi by (simp add: fitsIndexSpace_def)
qed

lemma valid_not_zero: "validateMembership m u \<Longrightarrow> \<not> membershipIsZero m"
  by (auto simp: validateMembership_iff membershipIsZero_iff zeroMembership_def)

lemma takeSnapshot_spec:
  assumes wf: "wfNode n"
    and False: "\<not> (index = 0 \<or> index \<le> boundary n \<or> index > CommitIndex (hs n) \<or> termAt n index = 0)"
  obtains m n' where "membershipAt n index = Some m" and "advances n n'"
    and "takeSnapshot index payload n = Some (n', Inr (True, []))"
    and "snap n' = \<lparr>LastIncludedIndex = index, LastIncludedTerm = termAt n index,
       sMembers = members n, sData = payload, sMembership = m\<rparr>"
    and "nlog n' = drop (unat index - unat (boundary n)) (nlog n)" and "hs n' = hs n"
    and "membership n' = membership n" and "index \<le> lastIndex n"
proof -
  note w = wfNodeD [OF wf]
  let ?p = "unat index - unat (boundary n)"
  let ?suffix = "if index < MaxUint64 then entriesFrom n (index + 1) else []"
  have b: "boundary n < index" and c: "index \<le> CommitIndex (hs n)" and t: "termAt n index \<noteq> 0"
    using False by auto
  have l: "index \<le> lastIndex n"
    using c w(9) unat_lastIndex [OF w(6)] by (simp add: word_le_nat_alt)
  have suf: "?suffix = drop ?p (nlog n)"
    by (rule suffix_after [OF w(6) b])
  obtain m where m: "membershipAt n index = Some m"
    using membershipAt_total [OF w(2)] b by fastforce
  then have mv: "validateMembership m (members n)"
    using membershipAt_valid [OF w(2) order_less_imp_le [OF b]] by blast
  define s where "s = \<lparr>LastIncludedIndex = index, LastIncludedTerm = termAt n index,
    sMembers = members n, sData = payload, sMembership = m\<rparr>"
  have sm: "snapshotMembershipOf s = m"
    using valid_not_zero [OF mv] by (simp add: snapshotMembershipOf_def s_def)
  have "termAt n index \<le> CurrentTerm (hs n)"
    using b l wfEntries_nth(4) [OF w(7), of "unat index - unat (boundary n) - 1"]
    by (auto simp: termAt_nat [OF w(6)] word_less_nat_alt word_le_nat_alt unat_lastIndex [OF w(6)])
  then have snapok: "wfSnapshot (members n) (initialMembership n) (CurrentTerm (hs n)) s"
    using b t mv valid_not_zero [OF mv] by (auto simp: wfSnapshot_def sm) (auto simp: s_def)
  have keep: "keepsSuffix s ?suffix n"
    using l by (simp add: keepsSuffix_def suf s_def)
  have "memChain (members n) m ?suffix = Some (membership n)"
    using w(3) m b memChain_append [of "members n" "stBase (initialMembership n) (state n)"
      "take ?p (nlog n)" "drop ?p (nlog n)"]
    by (simp add: suf membershipAt_chain [OF w(2)])
  then have chain: "memChain (members n) (snapshotMembershipOf s) ?suffix = Some (membership n)"
    by (simp add: sm)
  have cm: "compacted s ?suffix n = n\<lparr>state := \<lparr>hardState = hs n, snapshot = s, log = ?suffix\<rparr>\<rparr>"
    using c w(4) by (simp add: compacted_def Let_def s_def max_absorb2)
  have b': "boundary n < LastIncludedIndex s"
    using b by (simp add: s_def)
  have "role n = Candidate \<Longrightarrow> isVoter (membership n) (nid n)"
    using w(5) by (simp add: wfRole_def)
  note adv = advances_compacted [OF wf b' snapok keep chain this]
  show ?thesis
  proof (rule that [OF m adv(1)])
    show "takeSnapshot index payload n
        = Some ((compacted s ?suffix n)\<lparr>membership := membership n\<rparr>, Inr (True, []))"
      using adv(2) False m c w(4) unfolding cm by (simp add: takeSnapshot_def Let_def s_def)
    show "hs ((compacted s ?suffix n)\<lparr>membership := membership n\<rparr>) = hs n"
      by (simp add: cm)
  qed (use suf l in \<open>simp_all add: s_def\<close>)
qed

lemma takeSnapshot_safe:
  assumes wf: "wfNode n"
  shows "safeOutcome n (takeSnapshot index payload n)"
proof (cases "index = 0 \<or> index \<le> boundary n \<or> index > CommitIndex (hs n) \<or> termAt n index = 0")
  case True
  then show ?thesis
    using wf by (auto simp: takeSnapshot_def wfNodeD(4) [OF wf])
next
  case False
  then show ?thesis
    by (rule takeSnapshot_spec [OF wf, where payload = payload]) simp
qed

lemma followLeader_safe:
  assumes wf: "wfNode n" and tm: "mTerm msg \<le> CurrentTerm (hs n)"
  shows "advances n (followLeader msg n)" and "state (followLeader msg n) = state n"
    and "role (followLeader msg n) = Follower"
  using wf tm by (auto simp: followLeader_def advances_becomeFollower becomeFollower_state)

lemma handleInstallSnapshot_safe:
  assumes wf0: "wfNode n0" and tm: "mTerm msg \<le> CurrentTerm (hs n0)"
  shows "safeResult n0 (handleInstallSnapshot msg n0)"
proof (cases "mTerm msg < CurrentTerm (hs n0)")
  case True
  then show ?thesis
    using wf0 by (simp add: handleInstallSnapshot_def)
next
  case False
  define n where "n = followLeader msg n0"
  define s where "s = mSnapshot msg"
  have a0: "advances n0 n" and st: "state n = state n0" and role: "role n = Follower"
    by (simp_all add: n_def followLeader_safe [OF wf0 tm])
  note wf = advances_wf [OF a0]
  note w = wfNodeD [OF wf]
  have ct: "mTerm msg = CurrentTerm (hs n)"
    using False tm st by simp
  let ?suffix = "if termAt n (LastIncludedIndex s) = LastIncludedTerm s
      \<and> LastIncludedIndex s < MaxUint64 then entriesFrom n (LastIncludedIndex s + 1) else []"
  let ?bad = "LastIncludedIndex s = 0 \<or> LastIncludedTerm s = 0 \<or> LastIncludedTerm s > mTerm msg
    \<or> sMembers s \<noteq> members n \<or> \<not> validateMembership (snapshotMembershipOf s) (members n)
    \<or> (membershipIsZero (sMembership s)
        \<and> initialMembership n \<noteq> stableMembership (members n) [])"
  show ?thesis
  proof (cases "?bad \<or> LastIncludedIndex s \<le> CommitIndex (hs n)
      \<or> memChain (members n) (snapshotMembershipOf s) ?suffix = None")
    case True
    then show ?thesis
      using False a0 st
      by (auto simp: handleInstallSnapshot_def Let_def n_def [symmetric] s_def [symmetric])
  next
    case ok: False
    then obtain m where chain: "memChain (members n) (snapshotMembershipOf s) ?suffix = Some m"
      by auto
    have c: "CommitIndex (hs n) < LastIncludedIndex s" and b: "boundary n < LastIncludedIndex s"
      using ok w(8) by auto
    have snapok: "wfSnapshot (members n) (initialMembership n) (CurrentTerm (hs n)) s"
      using ok ct by (auto simp: wfSnapshot_def)
    have keep: "keepsSuffix s ?suffix n"
    proof (cases "termAt n (LastIncludedIndex s) = LastIncludedTerm s")
      case True
      then have "LastIncludedIndex s \<le> lastIndex n"
        using ok b by (auto simp: termAt_nat [OF w(6)] word_le_nat_alt unat_lastIndex [OF w(6)]
            split: if_splits)
      then show ?thesis
        using True suffix_after [OF w(6) b] by (simp add: keepsSuffix_def)
    next
      case False
      then show ?thesis
        using c by (simp add: keepsSuffix_def)
    qed
    have cm: "compacted s ?suffix n = n\<lparr>state := \<lparr>hardState = (hs n)\<lparr>CommitIndex := LastIncludedIndex s\<rparr>,
        snapshot = s, log = ?suffix\<rparr>, applied := LastIncludedIndex s\<rparr>"
      using c by (simp add: compacted_def Let_def max_absorb1)
    have "role n = Candidate \<Longrightarrow> isVoter m (nid n)"
      using role by simp
    note r = advances_compacted [OF wf b snapok keep chain this]
    have "advances n0 ((compacted s ?suffix n)\<lparr>membership := m\<rparr>)"
      using a0 r(1) by (rule advances_trans)
    then show ?thesis
      using False ok r(2) unfolding cm
      by (auto simp: handleInstallSnapshot_def Let_def n_def [symmetric] s_def [symmetric])
  qed
qed

end
