(* ===== verification/RaftSafety.thy ===== *)
theory RaftSafety
  imports RaftStep
begin

text \<open>
  Replication into a follower and the dispatcher. \<^term>\<open>safeAppend\<close> is the one thing assumed of the
  network's content: an AppendEntries message obeys Log Matching with the receiver's log and agrees
  with what the receiver has committed. Under it \<open>Step\<close> never panics on any input.
\<close>

section \<open>AppendEntries\<close>

definition safeAppend :: "Message \<Rightarrow> Node \<Rightarrow> bool" where
  "safeAppend msg n \<longleftrightarrow>
     (let prev = unat (mPrevLogIndex msg); es = mEntries msg;
          ls = drop (prev - unat (boundary n)) (nlog n);
          k = min (unat (CommitIndex (hs n)) - prev) (length es)
      in length es < 2 ^ 64 \<and> logsMatch ls es \<and> take k ls = take k es)"

lemma checkIncoming_sound:
  "checkIncoming u t index pt m es = Inr r \<Longrightarrow>
     wfEntries (index - 1) pt t es \<and> memChain u m es \<noteq> None"
proof (induction es arbitrary: index pt m)
  case (Cons e es)
  then obtain m' where "transitionMembership m e u = Some m'"
    and "checkIncoming u t (index + 1) (eTerm e) m' es = Inr r"
    by (auto split: if_splits option.splits)
  with Cons show ?case
    using Cons.IH [of "index + 1" "eTerm e" m'] by (auto simp: not_less split: if_splits)
qed simp

lemma mergeLog_keeps_min:
  "take (min k (length es)) ls = take (min k (length es)) es
     \<Longrightarrow> take k (mergeLog ls es) = take k ls"
proof (induction ls es arbitrary: k rule: mergeLog.induct)
  case (3 l ls e es)
  then show ?case by (cases k) (auto split: if_splits)
qed (auto simp: min_def split: if_splits)

lemma storedLog_ok:
  assumes wf: "wfNode n" and role: "role n = Follower"
    and prev: "boundary n \<le> prev" "prev \<le> lastIndex n"
    and room: "unat prev + length es < 2 ^ 64"
    and chk: "wfEntries prev (termAt n prev) (CurrentTerm (hs n)) es"
    and m: "membershipAt n prev = Some m" "memChain (members n) m es \<noteq> None"
    and match: "logsMatch (drop (unat prev - unat (boundary n)) (nlog n)) es"
    and agree: "take (min (unat (CommitIndex (hs n)) - unat prev) (length es))
          (drop (unat prev - unat (boundary n)) (nlog n))
        = take (min (unat (CommitIndex (hs n)) - unat prev) (length es)) es"
  defines "L \<equiv> take (unat prev - unat (boundary n)) (nlog n)
              @ mergeLog (drop (unat prev - unat (boundary n)) (nlog n)) es"
  shows "\<exists>m'. advances n ((setLog L n)\<lparr>membership := m'\<rparr>)
           \<and> refreshMembership (setLog L n) = Some ((setLog L n)\<lparr>membership := m'\<rparr>)
           \<and> (L = nlog n \<longrightarrow> m' = membership n)"
proof -
  note w = wfNodeD [OF wf] and ti = take_index [OF wf prev]
  let ?p = "unat prev - unat (boundary n)" and ?base = "stBase (initialMembership n) (state n)"
  have bp: "unat (boundary n) \<le> unat prev"
    using prev(1) by (simp add: word_le_nat_alt)
  have L: "L = nlog n \<or> L = take ?p (nlog n) @ es"
    using mergeLog_split [OF match] append_take_drop_id [of ?p "nlog n"] unfolding L_def by metis
  have fits: "unat (boundary n) + length L < 2 ^ 64"
    using L w(6) room bp ti(1) by (auto simp: fitsIndexSpace_def)
  have pre: "wfEntries (boundary n) (LastIncludedTerm (snap n)) (CurrentTerm (hs n)) (take ?p (nlog n))"
    using w(7) wfEntries_append [of "boundary n" _ _ "take ?p (nlog n)" "drop ?p (nlog n)"] by simp
  have entries: "wfEntries (boundary n) (LastIncludedTerm (snap n)) (CurrentTerm (hs n)) L"
    using L w(7) pre chk ti by (auto simp: wfEntries_append min_absorb2)
  have "memChain (members n) ?base (take ?p (nlog n)) = Some m"
    using m(1) membershipAt_chain [OF w(2) prev(1)] by simp
  then have "memChain (members n) ?base L \<noteq> None"
    using L m(2) w(3) by (auto simp: memChain_append)
  then obtain m' where chain: "memChain (members n) ?base L = Some m'"
    by auto
  have keep: "take (unat (CommitIndex (hs n)) - unat (boundary n)) L
      = take (unat (CommitIndex (hs n)) - unat (boundary n)) (nlog n)"
  proof -
    have "take (unat (CommitIndex (hs n)) - unat prev) (mergeLog (drop ?p (nlog n)) es)
        = take (unat (CommitIndex (hs n)) - unat prev) (drop ?p (nlog n))"
      using agree by (rule mergeLog_keeps_min)
    moreover have "unat (CommitIndex (hs n)) - unat (boundary n) - ?p = unat (CommitIndex (hs n)) - unat prev"
      using bp by simp
    ultimately have "take (unat (CommitIndex (hs n)) - unat (boundary n)) L
        = take (unat (CommitIndex (hs n)) - unat (boundary n)) (take ?p (nlog n) @ drop ?p (nlog n))"
      using ti(1) unfolding L_def take_append by (simp only: length_take min_absorb2)
    then show ?thesis by simp
  qed
  have "role n = Candidate \<Longrightarrow> isVoter m' (nid n)"
    using role by simp
  note adv = advances_setLog [OF wf fits entries chain keep this]
  have "wfStore (members (setLog L n)) (initialMembership (setLog L n)) (state (setLog L n))"
    using wfNodeD(2) [OF advances_wf [OF adv]] by simp
  from refreshMembership_chain [OF this] chain
  have "refreshMembership (setLog L n) = Some ((setLog L n)\<lparr>membership := m'\<rparr>)"
    by simp
  with adv chain w(3) show ?thesis by auto
qed

lemma commitUpTo_safe:
  assumes wf: "wfNode n" and c: "CommitIndex (hs n) \<le> c" "c \<le> lastIndex n"
  obtains n' where "applyCommitted (setHard ((hs n)\<lparr>CommitIndex := c\<rparr>) n)
      = Some (n', appliesBetween n (CommitIndex (hs n)) c)"
    and "n' = (setHard ((hs n)\<lparr>CommitIndex := c\<rparr>) n)\<lparr>applied := c\<rparr>" and "advances n n'"
proof -
  note w = wfNodeD [OF wf]
  let ?n1 = "setHard ((hs n)\<lparr>CommitIndex := c\<rparr>) n"
  let ?n2 = "?n1\<lparr>applied := c\<rparr>"
  have ap: "applyCommitted ?n1 = Some (?n2, appliesBetween n (CommitIndex (hs n)) c)"
    using applyCommitted_spec [of ?n1] w c
    by (simp add: appliesBetween_def fitsIndexSpace_def lastIndex_def)
  have base: "stBase (initialMembership n) (state ?n1) = stBase (initialMembership n) (state n)"
    by (simp add: stBase_def)
  have "boundary n \<le> c" "unat c \<le> unat (boundary n) + length (nlog n)"
    using w(8) c unat_lastIndex [OF w(6)] by (auto simp: word_le_nat_alt)
  with w(2) have "wfStore (members n) (initialMembership n) (state ?n1)"
    by (simp add: wfStore_def fitsIndexSpace_def base)
  with w have "wfNode ?n2"
    by (simp add: wfNode_def wfRole_def base)
  moreover have "progress n ?n2"
    using c(1) by (simp add: progress_def entryAt_def lastIndex_def)
  ultimately show ?thesis
    using that [OF ap refl] by (simp add: advances_def bookkeeping_def)
qed

lemma finishAppend_safe:
  assumes adv: "advances n0 n1" and dirty: "\<not> dirty \<Longrightarrow> state n1 = state n0"
  shows "safeResult n0 (finishAppend msg dirty n1)"
proof (cases "mLeaderCommit msg > CommitIndex (hs n1)")
  case False
  then show ?thesis
    using assms by (simp add: finishAppend_def Let_def)
next
  case True
  note w = wfNodeD [OF advances_wf [OF adv]]
  have "CommitIndex (hs n1) \<le> lastIndex n1"
    using w(9) unat_lastIndex [OF w(6)] by (simp add: word_le_nat_alt)
  then have "CommitIndex (hs n1) \<le> min (mLeaderCommit msg) (lastIndex n1)"
    using True by simp
  then obtain n' where "applyCommitted (setHard ((hs n1)\<lparr>CommitIndex := min (mLeaderCommit msg)
      (lastIndex n1)\<rparr>) n1) = Some (n', appliesBetween n1 (CommitIndex (hs n1))
        (min (mLeaderCommit msg) (lastIndex n1)))" and "advances n1 n'"
    by (rule commitUpTo_safe [OF advances_wf [OF adv]]) auto
  with True adv show ?thesis
    by (auto simp: finishAppend_def Let_def intro: advances_trans)
qed

lemma storeEntries_safe:
  assumes wf: "wfNode n" and role: "role n = Follower"
    and prev: "boundary n \<le> mPrevLogIndex msg"
    and room: "unat (mPrevLogIndex msg) + length (mEntries msg) < 2 ^ 64"
    and chk: "wfEntries (mPrevLogIndex msg) (termAt n (mPrevLogIndex msg)) (CurrentTerm (hs n))
       (mEntries msg)"
    and m: "membershipAt n (mPrevLogIndex msg) = Some m"
      "memChain (members n) m (mEntries msg) \<noteq> None"
    and safe: "safeAppend msg n"
  shows "safeResult n (storeEntries msg n)"
proof -
  let ?prev = "mPrevLogIndex msg" and ?es = "mEntries msg"
  note w = wfNodeD [OF wf]
  show ?thesis
  proof (cases "?prev \<le> lastIndex n")
    case True
    let ?p = "unat ?prev - unat (boundary n)"
    define L where "L = take ?p (nlog n) @ mergeLog (drop ?p (nlog n)) ?es"
    let ?dirty = "extendsLog (drop ?p (nlog n)) ?es"
    obtain m' where adv: "advances n ((setLog L n)\<lparr>membership := m'\<rparr>)"
      and r: "refreshMembership (setLog L n) = Some ((setLog L n)\<lparr>membership := m'\<rparr>)"
      using storedLog_ok [OF wf role prev True room chk m] safe
      by (auto simp: safeAppend_def Let_def L_def)
    have clean: "setLog L n = n" if "\<not> ?dirty"
      using that by (simp add: L_def mergeLog_same)
    have loop: "appendLoop (?prev + 1) ?es False n = (setLog L n, ?dirty, True)"
      using appendLoop_merge [OF w(6) prev True room, of False] by (simp add: Let_def L_def)
    show ?thesis
    proof (cases ?dirty)
      case True
      then show ?thesis
        using finishAppend_safe [OF adv, of True] loop r by (simp add: storeEntries_def)
    next
      case False
      have "advances n n" using wf by simp
      then show ?thesis
        using finishAppend_safe [of n n False] loop False clean [OF False]
        by (simp add: storeEntries_def)
    qed
  next
    case False
    then have gap: "lastIndex n < ?prev" by simp
    have loop: "appendLoop (?prev + 1) ?es False n = (n, False, ?es = [])"
    proof (cases "?prev = MaxUint64")
      case True
      then have "?es = []" using room by simp
      then show ?thesis by simp
    qed (use gap in \<open>simp add: appendLoop_gap [OF w(6)]\<close>)
    have "advances n n" using wf by simp
    then show ?thesis
      using finishAppend_safe [of n n False] loop wf
      by (cases "?es = []") (simp_all add: storeEntries_def)
  qed
qed

lemma handleAppendEntries_safe:
  assumes wf0: "wfNode n0" and tm: "mTerm msg \<le> CurrentTerm (hs n0)" and safe: "safeAppend msg n0"
  shows "safeResult n0 (handleAppendEntries msg n0)"
proof (cases "mTerm msg < CurrentTerm (hs n0)")
  case True
  then show ?thesis
    using wf0 by (simp add: handleAppendEntries_def)
next
  case False
  define n where "n = followLeader msg n0"
  have a0: "advances n0 n" and st: "state n = state n0" and role: "role n = Follower"
    by (simp_all add: n_def followLeader_safe [OF wf0 tm])
  note wf = advances_wf [OF a0]
  note w = wfNodeD [OF wf]
  have ct: "mTerm msg = CurrentTerm (hs n)"
    using False tm st by simp
  show ?thesis
  proof (cases "mPrevLogIndex msg < boundary n \<or> termAt n (mPrevLogIndex msg) \<noteq> mPrevLogTerm msg
      \<or> of_nat (length (mEntries msg)) > MaxUint64 - mPrevLogIndex msg")
    case True
    then show ?thesis
      using False a0 st by (auto simp: handleAppendEntries_def n_def [symmetric])
  next
    case ok: False
    then have b: "boundary n \<le> mPrevLogIndex msg" by auto
    obtain m where m: "membershipAt n (mPrevLogIndex msg) = Some m"
      using membershipAt_total [OF w(2) b] by auto
    have "length (mEntries msg) < 2 ^ 64"
      using safe by (simp add: safeAppend_def Let_def)
    then have room: "unat (mPrevLogIndex msg) + length (mEntries msg) < 2 ^ 64"
      using ok unat_minus_le [of "mPrevLogIndex msg" MaxUint64] unat_u64_less [of "mPrevLogIndex msg"]
      by (auto simp: not_less word_le_nat_alt unat_of_nat)
    show ?thesis
    proof (cases "checkIncoming (members n) (mTerm msg) (mPrevLogIndex msg + 1) (mPrevLogTerm msg)
        m (mEntries msg)")
      case (Inl index)
      then show ?thesis
        using False ok m a0 st by (simp add: handleAppendEntries_def n_def [symmetric])
    next
      case (Inr r)
      have "safeAppend msg n"
        using safe st by (simp add: safeAppend_def)
      then have "safeResult n (storeEntries msg n)"
        using checkIncoming_sound [OF Inr] ok ct
        by (intro storeEntries_safe [OF wf role b room _ m]) auto
      then have "safeResult n0 (storeEntries msg n)"
        using a0 st by (auto simp: safeResult_def split: option.splits intro: advances_trans)
      then show ?thesis
        using False ok m Inr by (simp add: handleAppendEntries_def n_def [symmetric])
    qed
  qed
qed

section \<open>Dispatch\<close>

definition safeInput :: "Input \<Rightarrow> Node \<Rightarrow> bool" where
  "safeInput input n \<longleftrightarrow>
     (case input of InputMessage msg \<Rightarrow> mType msg = AppendEntries \<longrightarrow> safeAppend msg n | _ \<Rightarrow> True)"

lemma safeResult_lift:
  assumes "safeResult n r" and "advances n0 n" and "\<not> higher \<Longrightarrow> n = n0"
  shows "safeOutcome n0 (map_option (\<lambda>(n1, changed, effs). (n1, Inr (higher \<or> changed, effs))) r)"
  using assms by (cases higher)
    (auto simp: safeResult_def safeOutcome_def split: option.splits intro: advances_trans)

lemma safeOutcome_lift:
  assumes "safeOutcome n r" and "advances n0 n" and "\<not> higher \<Longrightarrow> n = n0"
    and "higher \<Longrightarrow> r = Some (n, Inr (False, []))"
  shows "safeOutcome n0 (map_option
    (\<lambda>(n1, r). (n1, map_sum id (\<lambda>(changed, effs). (higher \<or> changed, effs)) r)) r)"
proof (cases higher)
  case False
  with assms show ?thesis
    by (cases r; cases "snd (the r)") (auto simp: safeOutcome_def)
qed (use assms in simp)

lemma stepMessage_safe:
  assumes wf: "wfNode n0" and safe: "mType msg = AppendEntries \<longrightarrow> safeAppend msg n0"
  shows "safeOutcome n0 (stepMessage msg n0)"
proof -
  let ?higher = "mTerm msg > CurrentTerm (hs n0)"
  define n where "n = (if ?higher then becomeFollower (mTerm msg) [] n0 else n0)"
  have a: "advances n0 n"
    using wf by (simp add: n_def advances_becomeFollower)
  note wfn = advances_wf [OF a]
  have same: "\<not> ?higher \<Longrightarrow> n = n0"
    by (simp add: n_def)
  have tm: "mTerm msg \<le> CurrentTerm (hs n)"
    by (auto simp: n_def)
  have safen: "mType msg = AppendEntries \<Longrightarrow> safeAppend msg n"
    using safe by (auto simp: n_def safeAppend_def)
  have vr: "handleRequestVoteResponse msg n = Some (n, Inr (False, []))" if ?higher
    using that by (simp add: n_def handleRequestVoteResponse_def)
  note lift = safeResult_lift [OF _ a same] safeOutcome_lift [OF _ a same vr]
  show ?thesis
    unfolding stepMessage_def Let_def n_def [symmetric]
    using wf handleRequestVote_safe [OF wfn] handleRequestVoteResponse_safe [OF wfn]
      handleAppendEntries_safe [OF wfn tm safen] handleAppendEntriesResponse_safe [OF wfn]
      handleInstallSnapshot_safe [OF wfn tm] handleInstallSnapshotResponse_safe [OF wfn]
    by (simp add: lift del: option.map)
qed

lemma dispatch_safe:
  assumes "wfNode n" and "safeInput input n"
  shows "safeOutcome n (dispatch input n)"
proof (cases input)
  case InputElectionTimeout
  then show ?thesis
    using assms by (auto simp: dispatch_def intro: startElection_safe)
next
  case InputHeartbeatTimeout
  show ?thesis
  proof (cases "role n = Leader")
    case True
    with assms(1) obtain n' effs where "broadcastAppend n = Some (n', effs)" "advances n n'"
      "state n' = state n"
      by (rule broadcastAppend_safe)
    with True show ?thesis
      by (simp add: dispatch_def InputHeartbeatTimeout)
  qed (use assms in \<open>simp add: dispatch_def InputHeartbeatTimeout\<close>)
next
  case (InputMessage msg)
  then show ?thesis
    using assms stepMessage_safe [of n msg] by (simp add: dispatch_def safeInput_def)
qed (use assms in \<open>auto simp: dispatch_def propose_safe takeSnapshot_safe beginMembership_safe
  finalizeMembership_safe\<close>)

section \<open>The persistence barrier\<close>

text \<open>The tail of \<open>Step\<close> as a function of what the handler returned.\<close>

fun barrier :: "Node \<times> (raft_error + bool \<times> Effect list) \<Rightarrow> Node \<times> (raft_error + Effect list)" where
  "barrier (n, Inl err) = (n, Inl err)"
| "barrier (n, Inr (dirty, effs)) =
     (if dirty then (n\<lparr>nextWriteToken := nextWriteToken n + 1,
                       pending := Some (nextWriteToken n, effs)\<rparr>,
                     Inr [EffectPersist (nextWriteToken n) (state n)])
      else (n, Inr effs))"

lemma Step_pending:
  "pending n \<noteq> None \<Longrightarrow> (\<And>t. input \<noteq> InputPersisted t)
     \<Longrightarrow> Step input n = Some (n, Inl ErrAwaitingPersistence)"
  by (cases input) (auto simp: Step_def)

lemma Step_dispatch:
  assumes "pending n = None" and "\<And>t. input \<noteq> InputPersisted t"
  shows "Step input n = map_option barrier (dispatch input n)"
proof -
  have "(case r of None \<Rightarrow> None | Some (n1, Inl err) \<Rightarrow> Some (n1, Inl err)
        | Some (n1, Inr (dirty, effs)) \<Rightarrow>
            if dirty then (let token = nextWriteToken n1
                   in Some (n1\<lparr>nextWriteToken := nextWriteToken n1 + 1, pending := Some (token, effs)\<rparr>,
                            Inr [EffectPersist token (state n1)]))
            else Some (n1, Inr effs)) = map_option barrier r" for r
    by (cases r) (auto simp: Let_def split: sum.splits)
  with assms show ?thesis
    by (cases input) (auto simp: Step_def)
qed

lemma wfNode_bookkeeping [simp]:
  "wfNode (n\<lparr>nextWriteToken := t\<rparr>) = wfNode n" "wfNode (n\<lparr>pending := p\<rparr>) = wfNode n"
  by (simp_all add: wfNode_def wfRole_def)

lemma progress_bookkeeping [simp]:
  "progress n (n'\<lparr>nextWriteToken := t\<rparr>) = progress n n'"
  "progress n (n'\<lparr>pending := p\<rparr>) = progress n n'"
  by (simp_all add: progress_def entryAt_def lastIndex_def)

text \<open>What \<open>Step\<close> returns: no panic, a well-formed node, only progress; and a change of the durable
  state is always announced as a \<open>Persist\<close> effect that holds every other effect back.\<close>

lemma Step_total:
  assumes wf: "wfNode n" and safe: "safeInput input n"
  obtains n' r where "Step input n = Some (n', r)" and "wfNode n'" and "progress n n'"
    and "state n' = state n
      \<or> (\<exists>held. pending n = None \<and> pending n' = Some (nextWriteToken n, held)
          \<and> nextWriteToken n' = nextWriteToken n + 1
          \<and> r = Inr [EffectPersist (nextWriteToken n) (state n')])"
proof (cases "\<exists>t. input = InputPersisted t")
  case True
  then obtain t where t: "input = InputPersisted t" by blast
  then show ?thesis
    using wf by (intro that [of "fst (acknowledgePersistence t n)" "snd (acknowledgePersistence t n)"])
      (auto simp: Step_def acknowledgePersistence_def split: option.splits)
next
  case False
  then have other: "\<And>t. input \<noteq> InputPersisted t" by blast
  show ?thesis
  proof (cases "pending n")
    case (Some p)
    then have "Step input n = Some (n, Inl ErrAwaitingPersistence)"
      using other by (intro Step_pending) simp_all
    then show ?thesis using wf that by blast
  next
    case None
    have safeO: "safeOutcome n (dispatch input n)"
      using wf safe by (rule dispatch_safe)
    then obtain n1 x where d: "dispatch input n = Some (n1, x)"
      by (cases "dispatch input n") auto
    have adv: "advances n n1"
      using safeO d by (cases x) auto
    have tok: "nextWriteToken n1 = nextWriteToken n"
      using adv by (simp add: advances_def bookkeeping_def)
    obtain n' r where b: "barrier (n1, x) = (n', r)" by fastforce
    have "Step input n = Some (n', r)"
      using None other d b by (simp add: Step_dispatch)
    then show ?thesis
      using b adv safeO d tok None
      by (intro that [of n' r]; cases x) (auto simp: advances_def split: if_splits)
  qed
qed

end
