(* ===== verification/RaftElection.thy ===== *)
theory RaftElection
  imports RaftSafety
begin

text \<open>
  What the handlers do to terms, votes and roles, proved without assuming a well-formed node or a
  well-behaved network: these lemmas feed the cluster-level proof of Election Safety. \<^term>\<open>grants\<close>
  lists the votes a list of effects gives away; \<^term>\<open>quiet\<close> relates a node to the one an operation
  returns when the operation starts no election and gives no vote; \<^term>\<open>ballotInv\<close> justifies a node's
  votes by the set of votes granted so far.
\<close>

type_synonym ballot = "NodeID \<times> NodeID \<times> u64"

section \<open>Votes in effects\<close>

fun grantOf :: "Effect \<Rightarrow> ballot list" where
  "grantOf (EffectSend m) =
     (if mType m = RequestVoteResponse \<and> mVoteGranted m then [(mFrom m, mTo m, mTerm m)] else [])"
| "grantOf _ = []"

definition grants :: "Effect list \<Rightarrow> ballot list" where
  "grants effs = concat (map grantOf effs)"

lemma grants_simps [simp]:
  "grants [] = []" "grants (e # effs) = grantOf e @ grants effs"
  "grants (xs @ ys) = grants xs @ grants ys" "grants (map EffectApply es) = []"
  by (auto simp: grants_def)

section \<open>Valid configurations\<close>

definition validBases :: "Node \<Rightarrow> bool" where
  "validBases n \<longleftrightarrow> validateMembership (initialMembership n) (members n)
     \<and> (boundary n > 0 \<longrightarrow> validateMembership (snapshotMembershipOf (snap n)) (members n))
     \<and> validateMembership (membership n) (members n)"

lemma membershipLoop_valid:
  "membershipLoop u i m es = Some m' \<Longrightarrow> validateMembership m u \<Longrightarrow> validateMembership m' u"
  by (induction es arbitrary: m) (auto split: if_splits option.splits dest: transition_valid)

lemma membershipAt_validBases:
  assumes "validBases n" and "membershipAt n i = Some m"
  shows "validateMembership m (members n)"
  using assms membershipLoop_valid
  by (auto simp: membershipAt_def validBases_def baseMembership_def snapshotMembershipOf_def
      split: if_splits)

lemma refreshMembership_validBases:
  assumes "refreshMembership n = Some n'" and "validateMembership (initialMembership n) (members n)"
    and "boundary n > 0 \<longrightarrow> validateMembership (snapshotMembershipOf (snap n)) (members n)"
  shows "validBases n'" and "n' = n\<lparr>membership := membership n'\<rparr>"
proof -
  obtain m where m: "membershipAt n (lastIndex n) = Some m" and n': "n' = n\<lparr>membership := m\<rparr>"
    using assms(1) by (auto simp: refreshMembership_def split: option.splits)
  have "validateMembership m (members n)"
    using assms(2,3) m membershipLoop_valid
    by (auto simp: membershipAt_def baseMembership_def snapshotMembershipOf_def split: if_splits)
  then show "validBases n'"
    using assms(2,3) by (simp add: n' validBases_def)
  show "n' = n\<lparr>membership := membership n'\<rparr>"
    by (simp add: n')
qed

section \<open>Quiet operations\<close>

definition sameBallot :: "Node \<Rightarrow> Node \<Rightarrow> bool" where
  "sameBallot n n' \<longleftrightarrow> role n' = role n \<and> votes n' = votes n \<and> electionVotes n' = electionVotes n
     \<and> electionMembership n' = electionMembership n"

definition quiet :: "Node \<Rightarrow> Node \<Rightarrow> Effect list \<Rightarrow> bool" where
  "quiet n n' effs \<longleftrightarrow>
     nid n' = nid n \<and> members n' = members n
     \<and> CurrentTerm (hs n') = CurrentTerm (hs n) \<and> VotedFor (hs n') = VotedFor (hs n)
     \<and> bookkeeping n n' \<and> (validBases n \<longrightarrow> validBases n')
     \<and> (role n' = Follower \<or> sameBallot n n') \<and> grants effs = []"

lemma quiet_refl [simp]: "quiet n n effs \<longleftrightarrow> grants effs = []"
  by (simp add: quiet_def sameBallot_def)

lemma quiet_trans: "quiet a b xs \<Longrightarrow> quiet b c ys \<Longrightarrow> quiet a c (xs @ ys)"
  by (auto simp: quiet_def sameBallot_def intro: bookkeeping_trans)

lemma quiet_weaken: "quiet a b xs \<Longrightarrow> grants ys = [] \<Longrightarrow> quiet a b ys"
  by (simp add: quiet_def)

lemma quiet_trans_any: "quiet a b xs \<Longrightarrow> quiet b c ys \<Longrightarrow> grants zs = [] \<Longrightarrow> quiet a c zs"
  by (blast intro: quiet_weaken quiet_trans)

text \<open>An operation that keeps the durable configuration data and the ballot fields.\<close>

lemma quiet_frame:
  assumes "nid n' = nid n" "members n' = members n" "initialMembership n' = initialMembership n"
    and "membership n' = membership n" "snap n' = snap n"
    and "CurrentTerm (hs n') = CurrentTerm (hs n)" "VotedFor (hs n') = VotedFor (hs n)"
    and "pending n' = pending n" "nextWriteToken n' = nextWriteToken n"
    and "role n' = Follower \<or> sameBallot n n'" "grants effs = []"
  shows "quiet n n' effs"
  using assms by (simp add: quiet_def bookkeeping_def validBases_def)

lemma quiet_becomeFollower: "t \<le> CurrentTerm (hs n) \<Longrightarrow> quiet n (becomeFollower t l n) []"
  by (rule quiet_frame) (auto simp: becomeFollower_vote max_def)

lemma applyCommitted_frame:
  "applyCommitted n = Some (n', effs) \<Longrightarrow> (\<exists>a. n' = n\<lparr>applied := a\<rparr>) \<and> grants effs = []"
proof (induction n arbitrary: n' effs rule: applyCommitted.induct)
  case (1 n)
  show ?case
  proof (cases "applied n < CommitIndex (hs n)")
    case False
    with "1.prems" have "n' = n\<lparr>applied := applied n\<rparr> \<and> effs = []"
      by (simp add: applyCommitted.simps [of n])
    then show ?thesis by (metis grants_simps(1))
  next
    case True
    let ?n = "n\<lparr>applied := applied n + 1\<rparr>"
    from True "1.prems" obtain e es where e: "entryAt ?n (applied n + 1) = Some e"
      and rest: "applyCommitted ?n = Some (n', es)" and effs: "effs = EffectApply e # es"
      by (auto simp: applyCommitted.simps [of n] Let_def split: option.splits)
    have "(\<exists>a. n' = ?n\<lparr>applied := a\<rparr>) \<and> grants es = []"
      using "1.IH" [OF True refl] e rest by simp
    with effs show ?thesis by auto
  qed
qed

lemma applyCommitted_sends:
  "applyCommitted n = Some (n', effs) \<Longrightarrow> EffectSend m \<notin> set effs"
proof (induction n arbitrary: effs rule: applyCommitted.induct)
  case (1 n)
  then show ?case
    by (subst (asm) (2) applyCommitted.simps) (auto simp: Let_def split: if_splits option.splits)
qed

lemma quiet_commit:
  assumes "applyCommitted (setHard ((hs n)\<lparr>CommitIndex := c\<rparr>) n) = Some (n', effs)"
  shows "quiet n n' effs"
proof -
  obtain a where "n' = (setHard ((hs n)\<lparr>CommitIndex := c\<rparr>) n)\<lparr>applied := a\<rparr>" and "grants effs = []"
    using applyCommitted_frame [OF assms] by blast
  then show ?thesis
    by (intro quiet_frame) (simp_all add: sameBallot_def)
qed

lemma quiet_advanceLoop:
  "advanceLoop i c n = Some (n', effs) \<Longrightarrow> quiet n n' effs"
proof (induction i c n rule: advanceLoop.induct)
  case (1 i c n)
  show ?case
  proof (cases "i > c \<and> termAt n i = CurrentTerm (hs n)
      \<and> (\<exists>m. membershipAt n i = Some m \<and> quorum m (\<lambda>j. map_get 0 (matchIndex n) j \<ge> i))")
    case True
    with "1.prems" obtain n2 where ap: "applyCommitted (setHard ((hs n)\<lparr>CommitIndex := i\<rparr>) n) = Some (n2, effs)"
      and n': "n' = (if role n2 = Leader \<and> \<not> isVoter (membership n2) (nid n2)
        then becomeFollower (CurrentTerm (hs n2)) [] n2 else n2)"
      by (auto simp: advanceLoop.simps [of i] Let_def split: option.splits)
    have "quiet n n2 effs"
      by (rule quiet_commit [OF ap])
    moreover have "quiet n2 n' []"
      by (simp add: n' quiet_becomeFollower)
    ultimately show ?thesis
      using quiet_trans by fastforce
  next
    case False
    then show ?thesis
      using "1.prems" "1.IH" by (subst (asm) advanceLoop.simps) (auto split: if_splits option.splits)
  qed
qed

lemma quiet_advanceCommit: "advanceCommit n = Some (n', effs) \<Longrightarrow> quiet n n' effs"
  by (auto simp: advanceCommit_def intro: quiet_advanceLoop)

text \<open>Replication messages carry no vote, and sending them touches the sequence numbers only.\<close>

lemma quiet_appendFor:
  assumes "appendFor member n = Some (n', msg)"
  shows "quiet n n' [EffectSend msg]"
proof -
  obtain seqs where "n' = n\<lparr>appendSequence := seqs\<rparr>"
    using assms by (auto simp: appendFor_def Let_def split: option.splits if_splits)
  moreover have "mType msg \<noteq> RequestVoteResponse"
    using assms by (auto simp: appendFor_def Let_def const_defs split: option.splits if_splits)
  ultimately show ?thesis
    by (intro quiet_frame) (simp_all add: sameBallot_def)
qed

lemma quiet_broadcastLoop: "broadcastLoop ms n = Some (n', effs) \<Longrightarrow> quiet n n' effs"
proof (induction ms arbitrary: n effs)
  case (Cons m ms)
  then show ?case
    using quiet_trans [OF quiet_appendFor]
    by (fastforce split: if_splits option.splits)
qed simp

lemma quiet_broadcastAppend: "broadcastAppend n = Some (n', effs) \<Longrightarrow> quiet n n' effs"
  by (auto simp: broadcastAppend_def intro: quiet_broadcastLoop)

section \<open>Quiet handlers\<close>

definition quietResult :: "Node \<Rightarrow> (Node \<times> bool \<times> Effect list) option \<Rightarrow> bool" where
  "quietResult n r \<longleftrightarrow> (\<forall>n' dirty effs. r = Some (n', dirty, effs) \<longrightarrow> quiet n n' effs)"

definition quietOutcome :: "Node \<Rightarrow> (Node \<times> (raft_error + bool \<times> Effect list)) option \<Rightarrow> bool" where
  "quietOutcome n r \<longleftrightarrow>
     (\<forall>n' x. r = Some (n', x) \<longrightarrow> quiet n n' (case x of Inl _ \<Rightarrow> [] | Inr (_, effs) \<Rightarrow> effs))"

lemma quietResult_intros [simp]:
  "quietResult n None" "quietResult n (Some (n', d, effs)) \<longleftrightarrow> quiet n n' effs"
  by (auto simp: quietResult_def)

lemma quietOutcome_intros [simp]:
  "quietOutcome n None" "quietOutcome n (Some (n', Inl err)) \<longleftrightarrow> quiet n n' []"
  "quietOutcome n (Some (n', Inr (d, effs))) \<longleftrightarrow> quiet n n' effs"
  by (auto simp: quietOutcome_def)

lemma quietResult_if:
  "(c \<Longrightarrow> quietResult n a) \<Longrightarrow> (\<not> c \<Longrightarrow> quietResult n b) \<Longrightarrow> quietResult n (if c then a else b)"
  by simp

lemma quietResult_bind:
  "(\<And>x. r = Some x \<Longrightarrow> quietResult n (f x)) \<Longrightarrow> quietResult n (Option.bind r f)"
  by (cases r) simp_all

lemma quietResult_option:
  "(r = None \<Longrightarrow> quietResult n a) \<Longrightarrow> (\<And>x. r = Some x \<Longrightarrow> quietResult n (f x))
     \<Longrightarrow> quietResult n (case r of None \<Rightarrow> a | Some x \<Rightarrow> f x)"
  by (cases r) simp_all

lemma quietResult_trans:
  assumes "quiet n0 n []" and "quietResult n r"
  shows "quietResult n0 r"
  using assms quiet_trans [OF assms(1)] by (fastforce simp: quietResult_def)

lemma quiet_recordMatch: "recordMatch msg n = Some n' \<Longrightarrow> quiet n n' []"
  by (rule quiet_frame)
    (auto simp: recordMatch_def sameBallot_def split: if_splits bind_splits option.splits)

lemma quiet_advanceAfterMatch: "quietResult n (advanceAfterMatch msg n)"
proof -
  have "quiet n n' effs" if r: "advanceAfterMatch msg n = Some (n', d, effs)" for n' d effs
  proof -
    obtain n1 n2 es where n12: "recordMatch msg n = Some n1" "advanceCommit n1 = Some (n2, es)"
      using r by (auto simp: advanceAfterMatch_def split: bind_splits)
    note q = quiet_recordMatch [OF n12(1)] quiet_advanceCommit [OF n12(2)]
    have rest: "n' = n2 \<and> effs = es
        \<or> (\<exists>m. appendFor (mFrom msg) n2 = Some (n', m) \<and> effs = es @ [EffectSend m])"
      using r n12 by (auto simp: advanceAfterMatch_def Let_def split: bind_splits if_splits)
    have "quiet n n2 es"
      using quiet_trans [OF q] by simp
    then show ?thesis
      using rest quiet_appendFor quiet_trans by blast
  qed
  then show ?thesis by (simp add: quietResult_def)
qed

lemma quiet_handleInstallSnapshotResponse: "quietResult n (handleInstallSnapshotResponse msg n)"
  by (simp add: handleInstallSnapshotResponse_def quiet_advanceAfterMatch)

lemma quiet_handleAppendEntriesResponse: "quietResult n (handleAppendEntriesResponse msg n)"
proof -
  have "quiet n n' [EffectSend m]" if "appendFor (mFrom msg) (n\<lparr>nextIndex := x\<rparr>) = Some (n', m)" for x n' m
  proof -
    have "quiet n (n\<lparr>nextIndex := x\<rparr>) []"
      by (rule quiet_frame) (simp_all add: sameBallot_def)
    from quiet_trans [OF this quiet_appendFor [OF that]] show ?thesis by simp
  qed
  then show ?thesis
    by (auto simp: handleAppendEntriesResponse_def Let_def quiet_advanceAfterMatch
        split: bind_splits)
qed

lemma quiet_propose: "quietOutcome n (propose payload n)"
proof -
  have "quiet n n2 (commits @ sends)"
    if "advanceCommit (setLog es (n\<lparr>matchIndex := ms\<rparr>)) = Some (n1, commits)"
      and "broadcastAppend n1 = Some (n2, sends)" for es ms n1 n2 commits sends
  proof -
    have "quiet n (setLog es (n\<lparr>matchIndex := ms\<rparr>)) []"
      by (rule quiet_frame) (simp_all add: sameBallot_def)
    from quiet_trans [OF this quiet_trans [OF quiet_advanceCommit [OF that(1)]
          quiet_broadcastAppend [OF that(2)]]]
    show ?thesis by simp
  qed
  then show ?thesis
    by (auto simp: propose_def Let_def split: bind_splits)
qed

lemma quiet_refresh:
  assumes "refreshMembership n = Some n'" and "validBases n0" and "nid n = nid n0"
    "members n = members n0" "initialMembership n = initialMembership n0"
    "boundary n > 0 \<longrightarrow> validateMembership (snapshotMembershipOf (snap n)) (members n)"
  shows "validBases n'"
  using refreshMembership_validBases(1) [OF assms(1)] assms by (simp add: validBases_def)

lemma quiet_appendMembershipEntry: "quietOutcome n (appendMembershipEntry ty m n)"
proof -
  let ?n0 = "\<lambda>e. setLog (nlog n @ [e]) n"
  have q1: "quiet n (n1\<lparr>matchIndex := ms\<rparr>) []" if r: "refreshMembership (?n0 e) = Some n1" for e n1 ms
  proof -
    obtain m' where n1: "n1 = (?n0 e)\<lparr>membership := m'\<rparr>"
      using r by (auto simp: refreshMembership_def split: option.splits)
    have "validBases n \<longrightarrow> validBases n1"
      using quiet_refresh [OF r, of n] by (auto simp: validBases_def)
    then show ?thesis
      by (simp add: quiet_def bookkeeping_def sameBallot_def n1 validBases_def)
  qed
  have q2: "quiet n n2 effs" if "refreshMembership (?n0 e) = Some n1"
    "advanceCommit (n1\<lparr>matchIndex := ms\<rparr>) = Some (n2, effs)" for e n1 ms n2 effs
    using quiet_trans [OF q1 [OF that(1)] quiet_advanceCommit [OF that(2)]] by simp
  show ?thesis
    by (auto simp: appendMembershipEntry_def Let_def split: bind_splits option.splits
        dest!: quiet_broadcastAppend intro: q2 quiet_trans)
qed

lemma quiet_beginMembership: "quietOutcome n (beginMembership vs ls n)"
  by (simp add: beginMembership_def Let_def quiet_appendMembershipEntry)

lemma quiet_finalizeMembership: "quietOutcome n (finalizeMembership n)"
  by (simp add: finalizeMembership_def quiet_appendMembershipEntry)

lemma quiet_snapshot:
  assumes r: "refreshMembership (n\<lparr>state := \<lparr>hardState = h, snapshot = s, log = es\<rparr>, applied := a\<rparr>) = Some n'"
    and h: "CurrentTerm h = CurrentTerm (hs n)" "VotedFor h = VotedFor (hs n)"
    and v: "validBases n \<Longrightarrow> validateMembership (snapshotMembershipOf s) (members n)"
    and g: "grants effs = []"
  shows "quiet n n' effs"
proof -
  let ?n0 = "n\<lparr>state := \<lparr>hardState = h, snapshot = s, log = es\<rparr>, applied := a\<rparr>"
  obtain m' where n': "n' = ?n0\<lparr>membership := m'\<rparr>"
    using r by (auto simp: refreshMembership_def split: option.splits)
  have "validBases n'" if "validBases n"
    using quiet_refresh [OF r that] v [OF that] by simp
  then show ?thesis
    using h g by (auto simp: quiet_def bookkeeping_def sameBallot_def n')
qed

lemma quiet_takeSnapshot: "quietOutcome n (takeSnapshot index payload n)"
proof -
  have "quiet n n' []"
    if m: "membershipAt n index = Some m"
      and r: "refreshMembership (n\<lparr>state := \<lparr>hardState = hs n,
         snapshot = \<lparr>LastIncludedIndex = index, LastIncludedTerm = t, sMembers = members n,
           sData = payload, sMembership = m\<rparr>, log = es\<rparr>\<rparr>) = Some n'" for m t es n'
  proof (rule quiet_snapshot [where a = "applied n"])
    show "refreshMembership (n\<lparr>state := \<lparr>hardState = hs n,
         snapshot = \<lparr>LastIncludedIndex = index, LastIncludedTerm = t, sMembers = members n,
           sData = payload, sMembership = m\<rparr>, log = es\<rparr>, applied := applied n\<rparr>) = Some n'"
      using r by simp
    show "validateMembership (snapshotMembershipOf \<lparr>LastIncludedIndex = index, LastIncludedTerm = t,
        sMembers = members n, sData = payload, sMembership = m\<rparr>) (members n)" if "validBases n"
      using membershipAt_validBases [OF that m] valid_not_zero
      by (auto simp: snapshotMembershipOf_def)
  qed simp_all
  then show ?thesis
    by (auto simp: takeSnapshot_def Let_def split: bind_splits)
qed

lemma quiet_followLeader:
  assumes "mTerm msg \<le> CurrentTerm (hs n)"
  shows "quiet n (followLeader msg n) []"
  using assms by (simp add: followLeader_def quiet_becomeFollower)

lemma no_vote_replies [simp]:
  "\<not> mVoteGranted (appendResponse n d sq ok mt hint)"
  "\<not> mVoteGranted (snapshotResponse n d sq ok mt)"
  by (simp_all add: appendResponse_def snapshotResponse_def zeroMessage_def)

lemma grants_replies [simp]:
  "grants (rejectAppend msg hint n) = []" "grants (rejectSnapshot msg n) = []"
  by (simp_all add: rejectAppend_def rejectSnapshot_def)

lemma quiet_handleInstallSnapshot:
  assumes "mTerm msg \<le> CurrentTerm (hs n0)"
  shows "quietResult n0 (handleInstallSnapshot msg n0)"
proof -
  define n where "n = followLeader msg n0"
  have q: "quiet n0 n []"
    unfolding n_def using assms by (rule quiet_followLeader)
  show ?thesis
  proof (cases "mTerm msg < CurrentTerm (hs n0)")
    case False
    have "quietResult n (handleInstallSnapshot msg n0)"
      unfolding handleInstallSnapshot_def Let_def n_def [symmetric] if_not_P [OF False]
      by (intro quietResult_if quietResult_option quietResult_bind; (simp; fail)?)
        (simp, erule quiet_snapshot, simp_all)
    with q show ?thesis by (rule quietResult_trans)
  qed (simp add: handleInstallSnapshot_def)
qed

lemma quiet_finishAppend: "quietResult n (finishAppend msg dirty n)"
  unfolding finishAppend_def Let_def
  by (intro quietResult_bind)
    (auto split: if_splits bind_splits dest!: quiet_commit simp: quiet_def)

lemma appendLoop_frame:
  "appendLoop i es d n = (n', d', ok) \<Longrightarrow> \<exists>es'. n' = setLog es' n"
proof (induction i es d n rule: appendLoop.induct)
  case (1 i d n)
  then have "n' = setLog (nlog n) n" by simp
  then show ?case by blast
next
  case (2 i e es d n)
  have tr: "\<exists>es'. truncateFrom i n = setLog es' n"
    by (auto simp: truncateFrom_def) (metis setLog_same)
  with 2 show ?case
    by (auto simp: Let_def split: if_splits) (metis setLog_same setLog_simps(19))+
qed

lemma quiet_storeEntries: "quietResult n (storeEntries msg n)"
proof -
  obtain n1 d ok where loop: "appendLoop (mPrevLogIndex msg + 1) (mEntries msg) False n = (n1, d, ok)"
    by (metis prod_cases3)
  obtain es where n1: "n1 = setLog es n"
    using appendLoop_frame [OF loop] by blast
  have q1: "quiet n n1 []"
    unfolding n1 by (rule quiet_frame) (simp_all add: sameBallot_def)
  have q2: "quiet n n2 []" if r: "refreshMembership n1 = Some n2" for n2
  proof -
    obtain m' where n2: "n2 = n1\<lparr>membership := m'\<rparr>"
      using r by (auto simp: refreshMembership_def split: option.splits)
    have "validBases n \<longrightarrow> validBases n2"
      using quiet_refresh [OF r, of n] by (auto simp: validBases_def n1)
    then show ?thesis
      by (simp add: quiet_def bookkeeping_def sameBallot_def n1 n2)
  qed
  show ?thesis
    using loop q1 q2 quiet_weaken quietResult_trans [OF _ quiet_finishAppend]
    by (cases ok) (auto simp: storeEntries_def intro!: quietResult_bind split: if_splits)
qed

lemma quiet_handleAppendEntries:
  assumes "mTerm msg \<le> CurrentTerm (hs n0)"
  shows "quietResult n0 (handleAppendEntries msg n0)"
proof (cases "mTerm msg < CurrentTerm (hs n0)")
  case False
  define n where "n = followLeader msg n0"
  have q: "quiet n0 n []"
    unfolding n_def using assms by (rule quiet_followLeader)
  have "quietResult n (handleAppendEntries msg n0)"
    unfolding handleAppendEntries_def Let_def n_def [symmetric] if_not_P [OF False]
    by (intro quietResult_if quietResult_option) (auto intro: quiet_storeEntries split: sum.splits)
  with q show ?thesis by (rule quietResult_trans)
qed (simp add: handleAppendEntries_def)

section \<open>Justified ballots\<close>

text \<open>Every vote a candidate counts, and every vote a leader was elected with, is its own or was
  granted to it in its term.\<close>

definition justified :: "ballot set \<Rightarrow> Node \<Rightarrow> NodeID list \<Rightarrow> bool" where
  "justified G n vs \<longleftrightarrow> (\<forall>v \<in> set vs. v = nid n \<or> (v, nid n, CurrentTerm (hs n)) \<in> G)"

definition ballotInv :: "ballot set \<Rightarrow> Node \<Rightarrow> bool" where
  "ballotInv G n \<longleftrightarrow> validBases n \<and> nid n \<noteq> []
     \<and> (role n \<noteq> Follower \<longrightarrow> VotedFor (hs n) = nid n)
     \<and> (role n = Candidate \<longrightarrow> (\<exists>vs. votes n = Some vs \<and> justified G n vs))
     \<and> (role n = Leader \<longrightarrow> justified G n (electionVotes n)
          \<and> validateMembership (electionMembership n) (members n)
          \<and> quorum (electionMembership n) (\<lambda>v. v \<in> set (electionVotes n)))"

text \<open>What a step may do: the term never decreases, a vote is never changed within a term, and the
  votes in the effects are the node's own recorded vote.\<close>

definition keepsVote :: "HardState \<Rightarrow> HardState \<Rightarrow> bool" where
  "keepsVote h h' \<longleftrightarrow> CurrentTerm h \<le> CurrentTerm h'
     \<and> (CurrentTerm h' = CurrentTerm h \<longrightarrow> VotedFor h \<noteq> [] \<longrightarrow> VotedFor h' = VotedFor h)"

definition grantsOwn :: "Node \<Rightarrow> Effect list \<Rightarrow> bool" where
  "grantsOwn n effs \<longleftrightarrow> (\<forall>(v, c, t) \<in> set (grants effs).
     v = nid n \<and> t = CurrentTerm (hs n) \<and> c = VotedFor (hs n) \<and> c \<noteq> [])"

definition ballotStep :: "ballot set \<Rightarrow> Node \<Rightarrow> Node \<Rightarrow> Effect list \<Rightarrow> bool" where
  "ballotStep G n n' effs \<longleftrightarrow> ballotInv G n' \<and> nid n' = nid n \<and> members n' = members n
     \<and> bookkeeping n n' \<and> keepsVote (hs n) (hs n') \<and> grantsOwn n' effs"

lemma ballotInv_mono: "ballotInv G n \<Longrightarrow> G \<subseteq> G' \<Longrightarrow> ballotInv G' n"
  by (fastforce simp: ballotInv_def justified_def)

lemma keepsVote_refl [simp]: "keepsVote h h"
  by (simp add: keepsVote_def)

lemma keepsVote_trans: "keepsVote a b \<Longrightarrow> keepsVote b c \<Longrightarrow> keepsVote a c"
  unfolding keepsVote_def by (metis order_antisym order_trans)

lemma grantsOwn_none [simp]: "grants effs = [] \<Longrightarrow> grantsOwn n effs"
  by (simp add: grantsOwn_def)

lemma ballot_bookkeeping [simp]:
  "ballotInv G (n\<lparr>nextWriteToken := a\<rparr>) = ballotInv G n"
  "ballotInv G (n\<lparr>pending := b\<rparr>) = ballotInv G n"
  "grantsOwn (n\<lparr>nextWriteToken := a\<rparr>) effs = grantsOwn n effs"
  "grantsOwn (n\<lparr>pending := b\<rparr>) effs = grantsOwn n effs"
  by (simp_all add: ballotInv_def validBases_def justified_def grantsOwn_def)

lemma ballotStep_refl [simp]: "ballotStep G n n effs \<longleftrightarrow> ballotInv G n \<and> grantsOwn n effs"
  by (simp add: ballotStep_def)

lemma ballotStep_trans:
  "ballotStep G a b xs \<Longrightarrow> ballotStep G b c ys \<Longrightarrow> ballotStep G a c ys"
  by (auto simp: ballotStep_def intro: bookkeeping_trans keepsVote_trans)

lemma ballotStep_weaken:
  assumes "grants ys = grants xs"
  shows "ballotStep G n n' ys \<longleftrightarrow> ballotStep G n n' xs"
  by (simp only: ballotStep_def grantsOwn_def assms)

lemma ballotStep_reset [simp]:
  "ballotStep G n n' (EffectResetElectionTimer # effs) \<longleftrightarrow> ballotStep G n n' effs"
  by (rule ballotStep_weaken) simp

lemma quiet_ballotInv: "quiet n n' effs \<Longrightarrow> ballotInv G n \<Longrightarrow> ballotInv G n'"
  by (auto simp: quiet_def ballotInv_def sameBallot_def justified_def)

lemma quiet_ballotStep: "quiet n n' effs \<Longrightarrow> ballotInv G n \<Longrightarrow> ballotStep G n n' effs"
  using quiet_ballotInv [of n n' effs G] by (simp add: quiet_def ballotStep_def keepsVote_def)

lemma becomeFollower_ballotStep:
  "ballotInv G n \<Longrightarrow> ballotStep G n (becomeFollower t l n) []"
  by (auto simp: ballotStep_def ballotInv_def validBases_def keepsVote_def becomeFollower_vote
      bookkeeping_def max_def)

lemma quorum_members:
  assumes "validateMembership m ms" and "quorum m (\<lambda>v. v \<in> set vs)"
  shows "quorum m (\<lambda>v. v \<in> set (filter (\<lambda>i. i \<in> set vs) ms))"
proof -
  have "\<And>v. v \<in> electorate m \<Longrightarrow> v \<in> set ms"
    using assms(1) by (auto simp: validateMembership_iff electorate_def canonicalNodeSet_iff)
  then show ?thesis
    by (intro cfg.quorate_mono [OF assms(2)]) simp
qed

lemma becomeLeader_ballotStep:
  assumes inv: "ballotInv G n" and cand: "role n = Candidate" and vs: "votes n = Some vs"
    and q: "quorum (membership n) (\<lambda>v. v \<in> set vs)"
    and r: "becomeLeader n = Some (n', x)"
  shows "(x = Inl ErrIndexExhausted \<and> n' = n) \<or> (\<exists>effs. x = Inr effs \<and> ballotStep G n n' effs)"
proof (cases "lastIndex n = MaxUint64")
  case True
  then show ?thesis using r by (simp add: becomeLeader_def)
next
  case False
  then obtain es mi ni n2 commits sends where
    ac: "advanceCommit (setLog es (n\<lparr>role := Leader, leader := nid n,
       electionVotes := filter (\<lambda>i. i \<in> set vs) (members n), electionMembership := membership n,
       nextIndex := ni, matchIndex := mi, appendSequence := Some []\<rparr>)) = Some (n2, commits)"
    (is "advanceCommit ?n1 = _") and bc: "broadcastAppend n2 = Some (n', sends)"
    and x: "x = Inr ([EffectResetHeartbeatTimer] @ commits @ sends)"
    using r vs by (auto simp: becomeLeader_def Let_def split: bind_splits)
  have "validateMembership (membership n) (members n)"
    using inv by (simp add: ballotInv_def validBases_def)
  then have "ballotInv G ?n1"
    using inv cand vs quorum_members [OF _ q]
    by (auto simp: ballotInv_def validBases_def justified_def)
  then have "ballotStep G n ?n1 []"
    by (simp add: ballotStep_def bookkeeping_def)
  moreover have "ballotStep G ?n1 n' ([EffectResetHeartbeatTimer] @ commits @ sends)"
    using \<open>ballotInv G ?n1\<close> quiet_trans [OF quiet_advanceCommit [OF ac] quiet_broadcastAppend [OF bc]]
    by (intro quiet_ballotStep) (auto simp: quiet_def)
  ultimately show ?thesis
    using x ballotStep_trans by blast
qed

section \<open>Ballots across a step\<close>

definition ballotOutcome ::
    "ballot set \<Rightarrow> Node \<Rightarrow> (Node \<times> (raft_error + bool \<times> Effect list)) option \<Rightarrow> bool" where
  "ballotOutcome G n r \<longleftrightarrow>
     (\<forall>n' x. r = Some (n', x) \<longrightarrow> ballotStep G n n' (case x of Inl _ \<Rightarrow> [] | Inr (_, effs) \<Rightarrow> effs))"

lemma ballotOutcome_intros [simp]:
  "ballotOutcome G n None" "ballotOutcome G n (Some (n', Inl err)) \<longleftrightarrow> ballotStep G n n' []"
  "ballotOutcome G n (Some (n', Inr (d, effs))) \<longleftrightarrow> ballotStep G n n' effs"
  by (auto simp: ballotOutcome_def)

lemma quietOutcome_ballot: "quietOutcome n r \<Longrightarrow> ballotInv G n \<Longrightarrow> ballotOutcome G n r"
  by (auto simp: quietOutcome_def ballotOutcome_def intro: quiet_ballotStep)

lemma quietResult_ballot:
  assumes "quietResult n r" and "ballotInv G n"
  shows "ballotOutcome G n (map_option (\<lambda>(n1, changed, effs). (n1, Inr (h \<or> changed, effs))) r)"
  using assms by (auto simp: quietResult_def ballotOutcome_def intro: quiet_ballotStep)

lemma ballotOutcome_trans:
  "ballotStep G a b xs \<Longrightarrow> ballotOutcome G b r \<Longrightarrow> ballotOutcome G a r"
  by (auto simp: ballotOutcome_def intro: ballotStep_trans)

lemma ballotOutcome_map:
  assumes "ballotOutcome G n r"
  shows "ballotOutcome G n (map_option
    (\<lambda>(n1, r). (n1, map_sum id (\<lambda>(changed, effs). (h \<or> changed, effs)) r)) r)"
proof (cases r)
  case (Some p)
  then show ?thesis
    using assms by (cases p; cases "snd p") auto
qed simp

lemma startElection_ballot:
  assumes inv: "ballotInv G n" and room: "CurrentTerm (hs n) \<noteq> MaxUint64"
  shows "ballotOutcome G n (startElection n)"
proof -
  let ?n1 = "setHard ((hs n)\<lparr>CurrentTerm := CurrentTerm (hs n) + 1, VotedFor := nid n\<rparr>)
    (n\<lparr>role := Candidate, leader := [], votes := Some [nid n], electionVotes := [],
       nextIndex := None, matchIndex := None, appendSequence := None\<rparr>)"
  have "CurrentTerm (hs n) < CurrentTerm (hs n) + 1"
    using unat_plus_one [OF room] by (simp add: word_less_nat_alt)
  then have kv: "keepsVote (hs n) (hs ?n1)"
    by (auto simp: keepsVote_def)
  have inv1: "ballotInv G ?n1"
    using inv by (simp add: ballotInv_def validBases_def justified_def)
  have step1: "ballotStep G n ?n1 effs" if "grants effs = []" for effs
    using that inv1 kv by (simp add: ballotStep_def bookkeeping_def)
  have lead: "ballotOutcome G n (case becomeLeader ?n1 of None \<Rightarrow> None
      | Some (n2, Inl err) \<Rightarrow> Some (n2, Inl err)
      | Some (n2, Inr effs) \<Rightarrow> Some (n2, Inr (True, [EffectResetElectionTimer] @ effs)))"
    if "quorum (membership n) (\<lambda>v. v = nid n)"
  proof (cases "becomeLeader ?n1")
    case (Some p)
    then obtain n2 x where p: "becomeLeader ?n1 = Some (n2, x)" by (cases p) auto
    have "(x = Inl ErrIndexExhausted \<and> n2 = ?n1) \<or> (\<exists>effs. x = Inr effs \<and> ballotStep G ?n1 n2 effs)"
      using that by (intro becomeLeader_ballotStep [OF inv1 _ _ _ p, of "[nid n]"]) simp_all
    then show ?thesis
      using p step1 [of "[]"] ballotStep_trans [OF step1 [of "[]"]]
      by auto
  qed simp
  have "grants (map (\<lambda>i. EffectSend (voteRequest n' i)) xs) = []" for n' xs
    by (induction xs) (simp_all add: voteRequest_def zeroMessage_def)
  then show ?thesis
    using inv lead step1 by (simp add: startElection_def Let_def)
qed

lemma handleRequestVote_ballot:
  assumes inv: "ballotInv G n" and other: "mFrom msg \<noteq> nid n" "mFrom msg \<noteq> []"
    and r: "handleRequestVote msg n = (n', d, effs)"
  shows "ballotStep G n n' effs"
proof -
  let ?granted = "mTerm msg = CurrentTerm (hs n) \<and> isVoter (membership n) (nid n)
    \<and> isVoter (membership n) (mFrom msg) \<and> (VotedFor (hs n) = [] \<or> VotedFor (hs n) = mFrom msg)
    \<and> candidateLogIsUpToDate n (mLastLogIndex msg) (mLastLogTerm msg)"
  have n': "n' = (if ?granted \<and> VotedFor (hs n) \<noteq> mFrom msg
      then setHard ((hs n)\<lparr>VotedFor := mFrom msg\<rparr>) n else n)"
    and g: "grants effs = (if ?granted then [(nid n', mFrom msg, CurrentTerm (hs n'))] else [])"
    using r by (auto simp: handleRequestVote_def Let_def)
  show ?thesis
  proof (cases ?granted)
    case False
    then show ?thesis using inv n' g by (auto simp: grantsOwn_def)
  next
    case True
    then have "role n = Follower"
      using inv other by (auto simp: ballotInv_def)
    moreover have "VotedFor (hs n') = mFrom msg"
      using n' True by auto
    ultimately show ?thesis
      using inv n' g True other
      by (cases "VotedFor (hs n) = mFrom msg")
        (simp_all add: ballotStep_def ballotInv_def validBases_def keepsVote_def grantsOwn_def
          bookkeeping_def)
  qed
qed

lemma handleRequestVoteResponse_ballot:
  assumes inv: "ballotInv G n" and just: "mVoteGranted msg \<Longrightarrow> (mFrom msg, nid n, mTerm msg) \<in> G"
  shows "ballotOutcome G n (handleRequestVoteResponse msg n)"
proof (cases "role n \<noteq> Candidate \<or> mTerm msg \<noteq> CurrentTerm (hs n) \<or> \<not> mVoteGranted msg")
  case True
  then show ?thesis using inv by (simp add: handleRequestVoteResponse_def)
next
  case False
  obtain vs where vs: "votes n = Some vs" and j: "justified G n vs"
    using inv False by (auto simp: ballotInv_def)
  let ?n1 = "n\<lparr>votes := Some (vs @ [mFrom msg])\<rparr>"
  have inv1: "ballotInv G ?n1"
    using inv just False j by (auto simp: ballotInv_def validBases_def justified_def)
  have step1: "ballotStep G n ?n1 []"
    using inv1 by (simp add: ballotStep_def bookkeeping_def)
  have "ballotOutcome G n (case becomeLeader ?n1 of None \<Rightarrow> None
      | Some (n2, Inl err) \<Rightarrow> Some (n2, Inl err) | Some (n2, Inr effs) \<Rightarrow> Some (n2, Inr (True, effs)))"
    if "quorum (membership n) (\<lambda>v. v \<in> set (vs @ [mFrom msg]))"
  proof (cases "becomeLeader ?n1")
    case (Some p)
    then obtain n2 x where p: "becomeLeader ?n1 = Some (n2, x)" by (cases p) auto
    have "(x = Inl ErrIndexExhausted \<and> n2 = ?n1) \<or> (\<exists>effs. x = Inr effs \<and> ballotStep G ?n1 n2 effs)"
      using that False by (intro becomeLeader_ballotStep [OF inv1 _ _ _ p]) auto
    then show ?thesis
      using p step1 ballotStep_trans [OF step1] by auto
  qed simp
  then show ?thesis
    using False vs inv step1 by (simp add: handleRequestVoteResponse_def Let_def)
qed

lemma stepMessage_ballot:
  assumes inv: "ballotInv G n0"
    and just: "mType msg = RequestVoteResponse \<Longrightarrow> mVoteGranted msg \<Longrightarrow> mTo msg = nid n0
      \<Longrightarrow> (mFrom msg, nid n0, mTerm msg) \<in> G"
  shows "ballotOutcome G n0 (stepMessage msg n0)"
proof (cases "mTo msg \<noteq> nid n0 \<or> mFrom msg = [] \<or> mFrom msg = nid n0 \<or> mFrom msg \<notin> set (members n0)
    \<or> mType msg < RequestVote \<or> mType msg > InstallSnapshotResponse")
  case True
  then show ?thesis using inv by (auto simp: stepMessage_def)
next
  case False
  let ?higher = "mTerm msg > CurrentTerm (hs n0)"
  define n where "n = (if ?higher then becomeFollower (mTerm msg) [] n0 else n0)"
  have s: "ballotStep G n0 n []"
    using inv by (simp add: n_def becomeFollower_ballotStep)
  then have invn: "ballotInv G n" and nid: "nid n = nid n0"
    by (simp_all add: ballotStep_def)
  have tm: "mTerm msg \<le> CurrentTerm (hs n)"
    by (auto simp: n_def)
  have rv: "ballotOutcome G n (map_option (\<lambda>(n1, changed, effs). (n1, Inr (?higher \<or> changed, effs)))
      (Some (handleRequestVote msg n)))"
    using handleRequestVote_ballot [OF invn] False nid by (cases "handleRequestVote msg n") auto
  have rr: "ballotOutcome G n (map_option (\<lambda>(n1, r). (n1, map_sum id (\<lambda>(changed, effs).
      (?higher \<or> changed, effs)) r)) (handleRequestVoteResponse msg n))"
    if "mType msg = RequestVoteResponse"
    using handleRequestVoteResponse_ballot [OF invn, of msg] just that False nid
    by (intro ballotOutcome_map) auto
  have "ballotOutcome G n (stepMessage msg n0)"
    unfolding stepMessage_def Let_def n_def [symmetric]
    using False rv rr quietResult_ballot [OF quiet_handleAppendEntries [OF tm] invn, of ?higher]
      quietResult_ballot [OF quiet_handleInstallSnapshot [OF tm] invn, of ?higher]
      quietResult_ballot [OF quiet_handleAppendEntriesResponse invn, of ?higher]
      quietResult_ballot [OF quiet_handleInstallSnapshotResponse invn, of ?higher]
    by (simp del: option.map)
  with s show ?thesis by (rule ballotOutcome_trans)
qed

text \<open>A vote delivered to a node is among those granted.\<close>

definition backed :: "ballot set \<Rightarrow> Input \<Rightarrow> Node \<Rightarrow> bool" where
  "backed G input n \<longleftrightarrow> (\<forall>msg. input = InputMessage msg \<and> mType msg = RequestVoteResponse
     \<and> mVoteGranted msg \<and> mTo msg = nid n \<longrightarrow> (mFrom msg, nid n, mTerm msg) \<in> G)"

lemma dispatch_ballot:
  assumes inv: "ballotInv G n" and just: "backed G input n"
  shows "ballotOutcome G n (dispatch input n)"
proof (cases input)
  case InputElectionTimeout
  then show ?thesis
    using inv by (simp add: dispatch_def startElection_ballot)
next
  case InputHeartbeatTimeout
  then show ?thesis
    using inv by (cases "broadcastAppend n")
      (auto simp: dispatch_def quiet_def dest!: quiet_broadcastAppend intro!: quiet_ballotStep)
next
  case (InputMessage msg)
  then show ?thesis
    using inv just stepMessage_ballot [OF inv, of msg] by (simp add: dispatch_def backed_def)
qed (use inv in \<open>simp_all add: dispatch_def quietOutcome_ballot quiet_propose quiet_takeSnapshot
  quiet_beginMembership quiet_finalizeMembership\<close>)

lemma Step_ballot:
  assumes inv: "ballotInv G n" and r: "Step input n = Some (n', x)"
    and just: "backed G input n"
    and other: "\<And>t. input \<noteq> InputPersisted t"
  shows "ballotInv G n'" and "nid n' = nid n" and "members n' = members n"
    and "keepsVote (hs n) (hs n')"
    and "x = Inr effs \<Longrightarrow> grantsOwn n' effs"
    and "pending n = None \<Longrightarrow> pending n' = Some (t, held) \<Longrightarrow> grantsOwn n' held"
proof -
  have "ballotInv G n' \<and> nid n' = nid n \<and> members n' = members n \<and> keepsVote (hs n) (hs n')
      \<and> (x = Inr effs \<longrightarrow> grantsOwn n' effs)
      \<and> (pending n = None \<and> pending n' = Some (t, held) \<longrightarrow> grantsOwn n' held)"
  proof (cases "pending n")
    case (Some p)
    then have "n' = n \<and> x = Inl ErrAwaitingPersistence"
      using r other by (auto simp: Step_def split: Input.splits)
    with inv Some show ?thesis by simp
  next
    case None
    obtain n1 y where d: "dispatch input n = Some (n1, y)" and res: "barrier (n1, y) = (n', x)"
      using r unfolding Step_dispatch [OF None other] by (auto simp: map_option_case split: option.splits)
    have "ballotOutcome G n (dispatch input n)"
      by (rule dispatch_ballot [OF inv just])
    with d have st: "ballotStep G n n1 (case y of Inl _ \<Rightarrow> [] | Inr (_, effs) \<Rightarrow> effs)"
      by (simp add: ballotOutcome_def)
    then have p1: "pending n1 = None"
      using None by (simp add: ballotStep_def bookkeeping_def)
    show ?thesis
      using res st p1 by (cases y) (auto simp: ballotStep_def split: if_splits)
  qed
  then show "ballotInv G n'" and "nid n' = nid n" and "members n' = members n"
    and "keepsVote (hs n) (hs n')"
    and "x = Inr effs \<Longrightarrow> grantsOwn n' effs"
    and "pending n = None \<Longrightarrow> pending n' = Some (t, held) \<Longrightarrow> grantsOwn n' held"
    by simp_all
qed

section \<open>Unmarked outcomes keep the vote\<close>

text \<open>A handler that does not ask for persistence has left the term and the vote alone.\<close>

definition sameVote :: "Node \<Rightarrow> Node \<Rightarrow> bool" where
  "sameVote n n' \<longleftrightarrow> CurrentTerm (hs n') = CurrentTerm (hs n) \<and> VotedFor (hs n') = VotedFor (hs n)"

definition cleanKeeps :: "Node \<Rightarrow> (Node \<times> (raft_error + bool \<times> Effect list)) option \<Rightarrow> bool" where
  "cleanKeeps n r \<longleftrightarrow> (\<forall>n' x. r = Some (n', x) \<longrightarrow>
     (case x of Inl _ \<Rightarrow> True | Inr (dirty, _) \<Rightarrow> \<not> dirty) \<longrightarrow> sameVote n n')"

lemma cleanKeeps_intros [simp]:
  "cleanKeeps n None" "cleanKeeps n (Some (n', Inl err)) \<longleftrightarrow> sameVote n n'"
  "cleanKeeps n (Some (n', Inr (d, effs))) \<longleftrightarrow> d \<or> sameVote n n'"
  by (auto simp: cleanKeeps_def)

lemma sameVote_refl [simp]: "sameVote n n"
  by (simp add: sameVote_def)

lemma quiet_sameVote: "quiet n n' effs \<Longrightarrow> sameVote n n'"
  by (simp add: quiet_def sameVote_def)

lemma quietOutcome_clean: "quietOutcome n r \<Longrightarrow> cleanKeeps n r"
  unfolding quietOutcome_def cleanKeeps_def by (blast intro: quiet_sameVote)

lemma quietResult_clean:
  assumes "quietResult n r" and "h \<or> n = n0"
  shows "cleanKeeps n0 (map_option (\<lambda>(n1, changed, effs). (n1, Inr (h \<or> changed, effs))) r)"
proof (cases r)
  case (Some p)
  then show ?thesis
    using assms by (cases p) (auto intro: quiet_sameVote)
qed simp

lemma becomeLeader_error: "becomeLeader n = Some (n', Inl err) \<Longrightarrow> n' = n \<and> lastIndex n = MaxUint64"
  by (auto simp: becomeLeader_def Let_def split: if_splits bind_splits)

lemma startElection_clean: "cleanKeeps n (startElection n)"
proof -
  let ?n1 = "setHard ((hs n)\<lparr>CurrentTerm := CurrentTerm (hs n) + 1, VotedFor := nid n\<rparr>)
    (n\<lparr>role := Candidate, leader := [], votes := Some [nid n], electionVotes := [],
       nextIndex := None, matchIndex := None, appendSequence := None\<rparr>)"
  have last: "lastIndex ?n1 = lastIndex n"
    by (simp add: lastIndex_def)
  show ?thesis
  proof (cases "becomeLeader ?n1")
    case (Some p)
    then obtain n2 x where "becomeLeader ?n1 = Some (n2, x)" by (cases p) auto
    then show ?thesis
      using becomeLeader_error [of ?n1 n2] last
      by (cases x) (auto simp: startElection_def Let_def)
  qed (simp add: startElection_def Let_def)
qed

lemma handleRequestVoteResponse_clean:
  assumes "handleRequestVoteResponse msg n = Some (n', x)"
  shows "sameVote n n' \<or> (\<exists>effs. x = Inr (True, effs))"
  using assms becomeLeader_error
  by (fastforce simp: handleRequestVoteResponse_def Let_def sameVote_def
      split: if_splits option.splits sum.splits)

lemma stepMessage_clean: "cleanKeeps n0 (stepMessage msg n0)"
proof -
  let ?higher = "mTerm msg > CurrentTerm (hs n0)"
  define n where "n = (if ?higher then becomeFollower (mTerm msg) [] n0 else n0)"
  have same: "?higher \<or> n = n0" and tm: "mTerm msg \<le> CurrentTerm (hs n)"
    by (auto simp: n_def)
  have rv: "cleanKeeps n0 (map_option (\<lambda>(n1, changed, effs). (n1, Inr (?higher \<or> changed, effs)))
      (Some (handleRequestVote msg n)))"
    using same by (auto simp: handleRequestVote_def Let_def)
  have rr: "cleanKeeps n0 (map_option (\<lambda>(n1, r). (n1, map_sum id (\<lambda>(changed, effs).
      (?higher \<or> changed, effs)) r)) (handleRequestVoteResponse msg n))"
  proof (cases "handleRequestVoteResponse msg n")
    case (Some p)
    then obtain n1 x where p: "handleRequestVoteResponse msg n = Some (n1, x)" by (cases p) auto
    show ?thesis
    proof (cases ?higher)
      case True
      then have "handleRequestVoteResponse msg n = Some (n, Inr (False, []))"
        by (simp add: handleRequestVoteResponse_def n_def)
      with True show ?thesis by simp
    next
      case False
      then show ?thesis
        using handleRequestVoteResponse_clean [OF p] p same by (cases x) auto
    qed
  qed simp
  show ?thesis
    unfolding stepMessage_def Let_def n_def [symmetric]
    using rv rr quietResult_clean [OF quiet_handleAppendEntries [OF tm] same]
      quietResult_clean [OF quiet_handleInstallSnapshot [OF tm] same]
      quietResult_clean [OF quiet_handleAppendEntriesResponse same]
      quietResult_clean [OF quiet_handleInstallSnapshotResponse same]
    by (simp del: option.map)
qed

lemma dispatch_clean: "cleanKeeps n (dispatch input n)"
proof (cases input)
  case InputElectionTimeout
  then show ?thesis
    by (simp add: dispatch_def startElection_clean)
next
  case InputHeartbeatTimeout
  then show ?thesis
    by (cases "broadcastAppend n")
      (auto simp: dispatch_def quiet_def sameVote_def dest!: quiet_broadcastAppend)
next
  case (InputMessage msg)
  then show ?thesis
    by (simp add: dispatch_def stepMessage_clean)
qed (simp_all add: dispatch_def quietOutcome_clean quiet_propose quiet_takeSnapshot
  quiet_beginMembership quiet_finalizeMembership)

lemma Step_clean:
  assumes "pending n = None" and "\<And>t. input \<noteq> InputPersisted t" and "Step input n = Some (n', x)"
    and inv: "ballotInv G n"
    and just: "backed G input n"
  shows "pending n' = None \<and> sameVote n n'
    \<or> (\<exists>t held. pending n' = Some (t, held) \<and> x = Inr [EffectPersist t (state n')])"
proof -
  obtain n1 y where d: "dispatch input n = Some (n1, y)" and res: "barrier (n1, y) = (n', x)"
    using assms(3) unfolding Step_dispatch [OF assms(1,2)]
    by (auto simp: map_option_case split: option.splits)
  have "ballotOutcome G n (dispatch input n)"
    by (rule dispatch_ballot [OF inv just])
  with d have "pending n1 = None"
    using assms(1) by (auto simp: ballotOutcome_def ballotStep_def bookkeeping_def)
  with d res show ?thesis
    using dispatch_clean [of n input] by (cases y) (auto split: if_splits)
qed

end
