(* ===== verification/RaftCluster.thy ===== *)
theory RaftCluster
  imports RaftElection
begin

text \<open>
  A cluster of nodes with their disks and everything that was ever sent, as a step relation: nodes
  take inputs, disks complete writes, completed writes are acknowledged, nodes crash and restart
  from disk. Messages may be lost, duplicated, delayed and reordered at will, since any message ever
  sent may be delivered at any time. Election Safety is proved for every reachable cluster by rule
  induction, without assuming well-formed logs.
\<close>

record Cluster =
  live :: "NodeID \<Rightarrow> Node option"
  disk :: "NodeID \<Rightarrow> PersistentState"
  writes :: "NodeID \<Rightarrow> (u64 \<times> PersistentState) option"
  sent :: "Message set"

definition sends :: "raft_error + Effect list \<Rightarrow> Message set" where
  "sends r = (case r of Inl _ \<Rightarrow> {} | Inr effs \<Rightarrow> {m. EffectSend m \<in> set effs})"

text \<open>The write in flight after a step: the one the step's Persist effect asks for, the earlier one
  while the node still waits for it, none otherwise.\<close>

definition started ::
    "Node \<Rightarrow> raft_error + Effect list \<Rightarrow> (u64 \<times> PersistentState) option \<Rightarrow> (u64 \<times> PersistentState) option" where
  "started n r w = (case pending n of None \<Rightarrow> None
     | Some _ \<Rightarrow> (case r of Inr [EffectPersist t st] \<Rightarrow> Some (t, st) | _ \<Rightarrow> w))"

inductive cstep :: "Cluster \<Rightarrow> Cluster \<Rightarrow> bool" where
  input: "live C i = Some n \<Longrightarrow> (\<And>t. inp \<noteq> InputPersisted t)
    \<Longrightarrow> (\<And>msg. inp = InputMessage msg \<Longrightarrow> msg \<in> sent C) \<Longrightarrow> Step inp n = Some (n', r)
    \<Longrightarrow> cstep C (C\<lparr>live := (live C)(i \<mapsto> n'), writes := (writes C)(i := started n' r (writes C i)),
          sent := sent C \<union> sends r\<rparr>)"
| flush: "writes C i = Some (t, st) \<Longrightarrow> cstep C (C\<lparr>disk := (disk C)(i := st)\<rparr>)"
| ack: "live C i = Some n \<Longrightarrow> writes C i = Some (t, st) \<Longrightarrow> disk C i = st
    \<Longrightarrow> Step (InputPersisted t) n = Some (n', r)
    \<Longrightarrow> cstep C (C\<lparr>live := (live C)(i \<mapsto> n'), writes := (writes C)(i := None),
          sent := sent C \<union> sends r\<rparr>)"
| crash: "cstep C (C\<lparr>live := (live C)(i := None), writes := (writes C)(i := None)\<rparr>)"
| restart: "live C i = None \<Longrightarrow> cID config = i \<Longrightarrow> New config (disk C i) = Some (Inr n) \<Longrightarrow> Start n = Some (n', effs)
    \<Longrightarrow> cstep C (C\<lparr>live := (live C)(i \<mapsto> n'), writes := (writes C)(i := None),
          sent := sent C \<union> sends (Inr effs)\<rparr>)"

definition cinit :: "Cluster \<Rightarrow> bool" where
  "cinit C \<longleftrightarrow> live C = (\<lambda>_. None) \<and> writes C = (\<lambda>_. None) \<and> sent C = {}"

inductive creach :: "Cluster \<Rightarrow> bool" where
  start: "cinit C \<Longrightarrow> creach C"
| step: "creach C \<Longrightarrow> cstep C C' \<Longrightarrow> creach C'"

text \<open>The votes on the wire.\<close>

definition ballots :: "Message set \<Rightarrow> ballot set" where
  "ballots S = {(mFrom m, mTo m, mTerm m) | m. m \<in> S \<and> mType m = RequestVoteResponse \<and> mVoteGranted m}"

lemma ballots_Un [simp]: "ballots (S \<union> T) = ballots S \<union> ballots T"
  by (auto simp: ballots_def)

lemma ballots_empty [simp]: "ballots {} = {}"
  by (simp add: ballots_def)

lemma set_grants: "set (grants effs) = ballots {m. EffectSend m \<in> set effs}"
proof (induction effs)
  case (Cons e effs)
  have "{m. EffectSend m \<in> set (e # effs)} = {m. e = EffectSend m} \<union> {m. EffectSend m \<in> set effs}"
    by auto
  moreover have "set (grantOf e) = ballots {m. e = EffectSend m}"
    by (cases e) (auto simp: ballots_def)
  ultimately show ?case
    using Cons.IH by simp
qed simp

section \<open>The invariant\<close>

text \<open>A vote on the wire is recorded on its voter's disk, unless the disk has moved to a later term.\<close>

definition onRecord :: "PersistentState \<Rightarrow> NodeID \<Rightarrow> u64 \<Rightarrow> bool" where
  "onRecord st c t \<longleftrightarrow> c \<noteq> [] \<and> (t < CurrentTerm (hardState st)
     \<or> t = CurrentTerm (hardState st) \<and> VotedFor (hardState st) = c)"

definition nodeInv :: "ballot set \<Rightarrow> PersistentState \<Rightarrow> Node \<Rightarrow> bool" where
  "nodeInv G st n \<longleftrightarrow> ballotInv G n \<and> keepsVote (hardState st) (hs n)
     \<and> (case pending n of
          None \<Rightarrow> CurrentTerm (hardState st) = CurrentTerm (hs n)
            \<and> VotedFor (hardState st) = VotedFor (hs n)
        | Some (_, held) \<Rightarrow> grantsOwn n held)"

definition clusterInv :: "Cluster \<Rightarrow> bool" where
  "clusterInv C \<longleftrightarrow>
     (\<forall>i n. live C i = Some n \<longrightarrow> nid n = i \<and> nodeInv (ballots (sent C)) (disk C i) n)
     \<and> (\<forall>i t st. writes C i = Some (t, st) \<longrightarrow>
          (\<exists>n held. live C i = Some n \<and> pending n = Some (t, held) \<and> state n = st))
     \<and> (\<forall>v c t. (v, c, t) \<in> ballots (sent C) \<longrightarrow> onRecord (disk C v) c t)
     \<and> (\<forall>v c c' t. (v, c, t) \<in> ballots (sent C) \<and> (v, c', t) \<in> ballots (sent C) \<longrightarrow> c = c')"

lemma nodeInv_mono: "nodeInv G st n \<Longrightarrow> G \<subseteq> G' \<Longrightarrow> nodeInv G' st n"
  by (auto simp: nodeInv_def intro: ballotInv_mono)

lemma onRecord_mono: "onRecord st c t \<Longrightarrow> keepsVote (hardState st) (hardState st') \<Longrightarrow> onRecord st' c t"
  by (auto simp: onRecord_def keepsVote_def)

lemma clusterInvI:
  assumes "\<And>i n. live C i = Some n \<Longrightarrow> nid n = i \<and> nodeInv (ballots (sent C)) (disk C i) n"
    and "\<And>i t st. writes C i = Some (t, st)
      \<Longrightarrow> \<exists>n held. live C i = Some n \<and> pending n = Some (t, held) \<and> state n = st"
    and "\<And>v c t. (v, c, t) \<in> ballots (sent C) \<Longrightarrow> onRecord (disk C v) c t"
    and "\<And>v c c' t. (v, c, t) \<in> ballots (sent C) \<Longrightarrow> (v, c', t) \<in> ballots (sent C) \<Longrightarrow> c = c'"
  shows "clusterInv C"
  unfolding clusterInv_def using assms by blast

lemma clusterInvD:
  assumes "clusterInv C"
  shows "live C i = Some n \<Longrightarrow> nid n = i" and "live C i = Some n \<Longrightarrow> nodeInv (ballots (sent C)) (disk C i) n"
    and "writes C i = Some (t, st) \<Longrightarrow> \<exists>n held. live C i = Some n \<and> pending n = Some (t, held) \<and> state n = st"
    and "(v, c, t) \<in> ballots (sent C) \<Longrightarrow> onRecord (disk C v) c t"
    and "(v, c, t) \<in> ballots (sent C) \<Longrightarrow> (v, c', t) \<in> ballots (sent C) \<Longrightarrow> c = c'"
  using assms unfolding clusterInv_def by blast+

text \<open>Sending votes that the disk has on record keeps the invariant.\<close>

lemma clusterInv_update:
  assumes inv: "clusterInv C" and nid: "nid n' = i"
    and node: "nodeInv (ballots (sent C)) (disk C i) n'"
    and w: "\<And>t st. w = Some (t, st) \<Longrightarrow> \<exists>held. pending n' = Some (t, held) \<and> state n' = st"
    and out: "\<And>v c t. (v, c, t) \<in> ballots S \<Longrightarrow> v = i \<and> onRecord (disk C i) c t
        \<and> t = CurrentTerm (hardState (disk C i))"
  shows "clusterInv (C\<lparr>live := (live C)(i \<mapsto> n'), writes := (writes C)(i := w), sent := sent C \<union> S\<rparr>)"
  (is "clusterInv ?C")
proof (rule clusterInvI)
  note I = clusterInvD [OF inv]
  show "nid n = j \<and> nodeInv (ballots (sent ?C)) (disk ?C j) n" if "live ?C j = Some n" for j n
  proof -
    have "nid n = j \<and> nodeInv (ballots (sent C)) (disk C j) n"
      using that I(1,2) nid node by (cases "j = i") auto
    then show ?thesis
      by (auto intro: nodeInv_mono)
  qed
  show "\<exists>n held. live ?C j = Some n \<and> pending n = Some (t, held) \<and> state n = st"
    if "writes ?C j = Some (t, st)" for j t st
    using that w I(3) by (cases "j = i") auto
  show rec: "onRecord (disk ?C v) c t" if "(v, c, t) \<in> ballots (sent ?C)" for v c t
    using that I(4) out [of v c t] by auto
  show "c = c'" if "(v, c, t) \<in> ballots (sent ?C)" "(v, c', t) \<in> ballots (sent ?C)" for v c c' t
  proof (cases "(v, c, t) \<in> ballots (sent C) \<and> (v, c', t) \<in> ballots (sent C)")
    case False
    then have "v = i" "t = CurrentTerm (hardState (disk C i))"
      using that out by auto
    then show ?thesis
      using rec [OF that(1)] rec [OF that(2)] by (auto simp: onRecord_def)
  qed (use I(5) in blast)
qed

lemma clusterInv_init: "cinit C \<Longrightarrow> clusterInv C"
  by (simp add: cinit_def clusterInv_def)

lemma grantsOwn_record:
  assumes "grantsOwn n effs" and "(v, c, t) \<in> ballots (sends (Inr effs))"
    and "CurrentTerm (hardState st) = CurrentTerm (hs n)" and "VotedFor (hardState st) = VotedFor (hs n)"
  shows "v = nid n \<and> onRecord st c t \<and> t = CurrentTerm (hardState st)"
  using assms by (auto simp: grantsOwn_def set_grants sends_def onRecord_def)

lemma clusterInv_input:
  assumes inv: "clusterInv C" and n: "live C i = Some n" and other: "\<And>t. inp \<noteq> InputPersisted t"
    and from_wire: "\<And>msg. inp = InputMessage msg \<Longrightarrow> msg \<in> sent C"
    and r: "Step inp n = Some (n', r)"
  shows "clusterInv (C\<lparr>live := (live C)(i \<mapsto> n'), writes := (writes C)(i := started n' r (writes C i)),
          sent := sent C \<union> sends r\<rparr>)"
proof -
  note I = clusterInvD [OF inv]
  have nid: "nid n = i" and ni: "nodeInv (ballots (sent C)) (disk C i) n"
    using I(1,2) n by auto
  have just: "backed (ballots (sent C)) inp n"
    unfolding backed_def ballots_def using from_wire by fastforce
  have binv: "ballotInv (ballots (sent C)) n"
    using ni by (simp add: nodeInv_def)
  show ?thesis
  proof (cases "pending n")
    case (Some p)
    then have "n' = n \<and> r = Inl ErrAwaitingPersistence"
      using r Step_pending [of n inp] other by simp
    moreover from this Some have "started n' r (writes C i) = writes C i" "sends r = {}"
      by (auto simp: started_def sends_def)
    moreover have "\<exists>held. pending n = Some (t, held) \<and> state n = st"
      if "writes C i = Some (t, st)" for t st
      using I(3) [OF that] n by auto
    ultimately show ?thesis
      using clusterInv_update [OF inv nid ni, of "writes C i" "{}"] by simp
  next
    case None
    note st = Step_ballot [OF binv r just other]
    have disk: "CurrentTerm (hardState (disk C i)) = CurrentTerm (hs n)"
      "VotedFor (hardState (disk C i)) = VotedFor (hs n)"
      using ni None by (simp_all add: nodeInv_def)
    have kv: "keepsVote (hardState (disk C i)) (hs n')"
      using st(4) disk by (simp add: keepsVote_def)
    have nowrite: "writes C i = None"
      using I(3) [of i] n None by (cases "writes C i") auto
    have "pending n' = None \<and> sameVote n n'
        \<or> (\<exists>t held. pending n' = Some (t, held) \<and> r = Inr [EffectPersist t (state n')])"
      by (rule Step_clean [OF None other r binv just])
    then consider (clean) "pending n' = None" "sameVote n n'"
      | (dirty) t held where "pending n' = Some (t, held)" "r = Inr [EffectPersist t (state n')]"
      by (elim disjE conjE exE) simp_all
    then show ?thesis
    proof cases
      case clean
      have "nodeInv (ballots (sent C)) (disk C i) n'"
        using st(1) kv clean disk by (simp add: nodeInv_def sameVote_def)
      moreover have "v = i \<and> onRecord (disk C i) c t \<and> t = CurrentTerm (hardState (disk C i))"
        if "(v, c, t) \<in> ballots (sends r)" for v c t
      proof (cases r)
        case (Inr effs)
        then show ?thesis
          using grantsOwn_record [OF st(5) [OF Inr]] that disk clean st(2) nid by (simp add: sameVote_def)
      qed (use that in \<open>simp add: sends_def\<close>)
      ultimately show ?thesis
        using st(2) nid clean by (intro clusterInv_update [OF inv]) (auto simp: started_def)
    next
      case dirty
      have "nodeInv (ballots (sent C)) (disk C i) n'"
        using st(1,6) kv dirty None by (simp add: nodeInv_def)
      then show ?thesis
        using clusterInv_update [OF inv, of n' i "Some (t, state n')" "{}"] st(2) nid dirty
        by (simp add: started_def sends_def)
    qed
  qed
qed

lemma clusterInv_ack:
  assumes inv: "clusterInv C" and n: "live C i = Some n" and w: "writes C i = Some (t, st)"
    and disk: "disk C i = st" and r: "Step (InputPersisted t) n = Some (n', r)"
  shows "clusterInv (C\<lparr>live := (live C)(i \<mapsto> n'), writes := (writes C)(i := None),
          sent := sent C \<union> sends r\<rparr>)"
proof -
  note I = clusterInvD [OF inv]
  have nid: "nid n = i" and ni: "nodeInv (ballots (sent C)) (disk C i) n"
    using I(1,2) n by auto
  obtain held where p: "pending n = Some (t, held)" and st: "state n = st"
    using I(3) [OF w] n by auto
  have own: "grantsOwn n held" and binv: "ballotInv (ballots (sent C)) n"
    using ni p by (simp_all add: nodeInv_def)
  show ?thesis
  proof (cases "t = 0")
    case True
    then have "n' = n \<and> sends r = {}"
      using r p by (auto simp: Step_def acknowledgePersistence_def sends_def)
    then show ?thesis
      using clusterInv_update [OF inv nid ni, of None "{}"] by simp
  next
    case False
    then have n': "n' = n\<lparr>pending := None\<rparr>" and rr: "r = Inr held"
      using r p by (simp_all add: Step_def acknowledgePersistence_def)
    have "nodeInv (ballots (sent C)) (disk C i) n'"
      using binv st disk by (simp add: nodeInv_def n')
    moreover have "v = i \<and> onRecord (disk C i) c u \<and> u = CurrentTerm (hardState (disk C i))"
      if "(v, c, u) \<in> ballots (sends r)" for v c u
      using grantsOwn_record [OF own] that rr st disk nid by simp
    ultimately show ?thesis
      using nid n' by (intro clusterInv_update [OF inv]) auto
  qed
qed

lemma clusterInv_flush:
  assumes inv: "clusterInv C" and w: "writes C i = Some (t, st)"
  shows "clusterInv (C\<lparr>disk := (disk C)(i := st)\<rparr>)" (is "clusterInv ?C")
proof (rule clusterInvI)
  note I = clusterInvD [OF inv]
  obtain n held where n: "live C i = Some n" and p: "pending n = Some (t, held)" and st: "state n = st"
    using I(3) [OF w] by auto
  have kv: "keepsVote (hardState (disk C i)) (hardState st)"
    using I(2) [OF n] st by (simp add: nodeInv_def)
  show "nid m = j \<and> nodeInv (ballots (sent ?C)) (disk ?C j) m" if "live ?C j = Some m" for j m
    using that I(1,2) [of j m] n p st by (cases "j = i") (auto simp: nodeInv_def)
  show "\<exists>n held. live ?C j = Some n \<and> pending n = Some (u, held) \<and> state n = s"
    if "writes ?C j = Some (u, s)" for j u s
    using I(3) that by simp
  show "onRecord (disk ?C v) c u" if "(v, c, u) \<in> ballots (sent ?C)" for v c u
    using I(4) [of v c u] that onRecord_mono [OF _ kv, of c u] by (cases "v = i") auto
  show "c = c'" if "(v, c, u) \<in> ballots (sent ?C)" "(v, c', u) \<in> ballots (sent ?C)" for v c c' u
    using I(5) that by simp
qed

lemma clusterInv_crash:
  assumes "clusterInv C"
  shows "clusterInv (C\<lparr>live := (live C)(i := None), writes := (writes C)(i := None)\<rparr>)"
    (is "clusterInv ?C")
proof (rule clusterInvI)
  note I = clusterInvD [OF assms]
  show "nid m = j \<and> nodeInv (ballots (sent ?C)) (disk ?C j) m" if "live ?C j = Some m" for j m
    using that I(1,2) [of j m] by (cases "j = i") auto
  show "\<exists>n held. live ?C j = Some n \<and> pending n = Some (u, held) \<and> state n = s"
    if "writes ?C j = Some (u, s)" for j u s
    using I(3) [of j] that by (cases "j = i") auto
  show "onRecord (disk ?C v) c u" if "(v, c, u) \<in> ballots (sent ?C)" for v c u
    using I(4) that by simp
  show "c = c'" if "(v, c, u) \<in> ballots (sent ?C)" "(v, c', u) \<in> ballots (sent ?C)" for v c c' u
    using I(5) that by simp
qed

lemma Start_frame:
  assumes "Start n = Some (n', effs)"
  obtains a where "n' = n\<lparr>applied := a\<rparr>" and "grants effs = []"
proof -
  let ?n1 = "if applied n < boundary n then n\<lparr>applied := boundary n\<rparr> else n"
  obtain applies where ap: "applyCommitted ?n1 = Some (n', applies)" and g: "grants effs = grants applies"
    using assms by (auto simp: Start_def Let_def split: if_splits option.splits)
  obtain a where "n' = ?n1\<lparr>applied := a\<rparr>" and "grants applies = []"
    using applyCommitted_frame [OF ap] by blast
  with g show ?thesis
    by (intro that [of a]) (auto split: if_splits)
qed

text \<open>Whatever its size, an accepted durable state is taken over unchanged by a follower that waits for no write.\<close>

lemma validate_bases:
  assumes "validate c st = None"
  shows "cID c \<noteq> []"
    and "validateMembership (fst (initialMembershipOf c (sort (cMembers c)))) (sort (cMembers c))"
    and "LastIncludedIndex (snapshot st) \<noteq> 0
      \<Longrightarrow> validateMembership (snapshotMembershipOf (snapshot st)) (sMembers (snapshot st)) \<and> sMembers (snapshot st) = sort (cMembers c)"
proof -
  let ?u = "sort (cMembers c)" and ?s = "snapshot st"
  obtain m ok where im: "initialMembershipOf c ?u = (m, ok)"
    by (cases "initialMembershipOf c ?u")
  have u: "[] \<notin> set ?u" "\<not> hasDuplicateNeighbour ?u" "cID c \<in> set ?u" and ok
    using assms im by (auto simp: validate_def Let_def split: if_splits)
  then have dist: "distinct ?u"
    using hasDuplicateNeighbour_distinct [of ?u] by simp
  from u(1,3) show "cID c \<noteq> []"
    by metis
  from u(3) have ne: "?u \<noteq> []"
    by (metis empty_iff list.set(1))
  have vm: "validateMembership m ?u"
    using initialMembershipOf_valid [of c ?u m] im \<open>ok\<close> u dist ne by simp
  then show "validateMembership (fst (initialMembershipOf c ?u)) ?u"
    by (simp add: im)
  show "validateMembership (snapshotMembershipOf ?s) (sMembers ?s) \<and> sMembers ?s = ?u" if "LastIncludedIndex ?s \<noteq> 0"
    using assms im \<open>ok\<close> u ne vm that
    by (auto simp: validate_def Let_def snapshotMembershipOf_def split: if_splits)
qed

lemma New_fresh:
  assumes "New c st = Some (Inr n)"
  shows "validBases n" and "nid n = cID c" and "cID c \<noteq> []" and "state n = st" and "role n = Follower" and "pending n = None"
proof -
  have v: "validate c st = None"
    using assms by (auto simp: New_def split: option.splits)
  let ?u = "sort (cMembers c)"
  let ?n = "\<lparr>nid = cID c, members = ?u, initialMembership = fst (initialMembershipOf c ?u),
    membership = zeroMembership, role = Follower, leader = [], state = st,
    applied = AppliedIndex c, votes = None, electionVotes = [],
    electionMembership = zeroMembership, nextIndex = None, matchIndex = None,
    appendSequence = None, nextWriteToken = 1, pending = None\<rparr>"
  have r: "refreshMembership ?n = Some n"
    using assms v by (auto simp: New_def Let_def split_def split: option.splits)
  note b = validate_bases [OF v]
  show "cID c \<noteq> []"
    by (rule b(1))
  have "boundary ?n > 0 \<longrightarrow> validateMembership (snapshotMembershipOf (snap ?n)) (members ?n)"
    using b(3) by (auto simp: word_gt_0)
  from refreshMembership_validBases [OF r _ this] b(2)
  have vb: "validBases n" and n: "n = ?n\<lparr>membership := membership n\<rparr>"
    by simp_all
  show "validBases n"
    by (rule vb)
  show "nid n = cID c" "state n = st" "role n = Follower" "pending n = None"
    using arg_cong [OF n, of nid] arg_cong [OF n, of state] arg_cong [OF n, of role] arg_cong [OF n, of pending] by simp_all
qed

lemma clusterInv_restart:
  assumes inv: "clusterInv C" and cid: "cID config = i"
    and new: "New config (disk C i) = Some (Inr n)" and start: "Start n = Some (n', effs)"
  shows "clusterInv (C\<lparr>live := (live C)(i \<mapsto> n'), writes := (writes C)(i := None),
          sent := sent C \<union> sends (Inr effs)\<rparr>)"
proof -
  note n = New_fresh [OF new, unfolded cid]
  from start obtain a where n': "n' = n\<lparr>applied := a\<rparr>" and g: "grants effs = []"
    by (rule Start_frame)
  have "nodeInv (ballots (sent C)) (disk C i) n'"
    using n by (simp add: nodeInv_def ballotInv_def validBases_def n')
  moreover have "ballots (sends (Inr effs)) = {}"
    using g set_grants [of effs] by (simp add: sends_def)
  ultimately show ?thesis
    using n(2) n' by (intro clusterInv_update [OF inv]) auto
qed

lemma clusterInv_reach: "creach C \<Longrightarrow> clusterInv C"
proof (induction rule: creach.induct)
  case (start C)
  then show ?case by (rule clusterInv_init)
next
  case (step C C')
  from step.hyps(2) step.IH show ?case
  proof cases
    case (input i n inp n' r)
    show ?thesis
      unfolding input(1) by (rule clusterInv_input [OF step.IH input(2-5)])
  qed (simp_all add: clusterInv_flush clusterInv_ack clusterInv_crash clusterInv_restart)
qed

section \<open>Election Safety\<close>

text \<open>Configurations whose quorums intersect: equal, or one log entry apart.\<close>

definition compatible :: "Membership \<Rightarrow> Membership \<Rightarrow> bool" where
  "compatible m m' \<longleftrightarrow> m = m' \<or> adjacent m m' \<or> adjacent m' m"

lemma compatible_share:
  assumes "compatible m m'" and "validateMembership m u" and "validateMembership m' u'"
    and "quorum m P" and "quorum m' Q"
  shows "\<exists>v. P v \<and> Q v"
proof -
  have d: "distinct (Voters m)" "distinct (Voters m')"
    using assms(2,3) by (auto simp: validateMembership_iff canonicalNodeSet_iff)
  from assms(1) consider "m = m'" | "adjacent m m'" | "adjacent m' m"
    by (auto simp: compatible_def)
  then show ?thesis
  proof cases
    case 1
    then show ?thesis using cfg.quorate_share [OF d(1) assms(4)] assms(5) by blast
  next
    case 2
    then show ?thesis using adjacent_share [OF _ d(1) assms(4,5)] by blast
  next
    case 3
    then show ?thesis using adjacent_share [OF _ d(2) assms(5,4)] by blast
  qed
qed

text \<open>A voter counted by two leaders of one term settles on one of them.\<close>

lemma one_vote:
  assumes inv: "clusterInv C"
    and i: "live C i = Some n" "VotedFor (hs n) = i" "i \<noteq> []"
    and j: "live C j = Some n'" "VotedFor (hs n') = j" "j \<noteq> []"
    and t: "CurrentTerm (hs n) = t" "CurrentTerm (hs n') = t"
    and v: "v = i \<or> (v, i, t) \<in> ballots (sent C)" "v = j \<or> (v, j, t) \<in> ballots (sent C)"
  shows "i = j"
proof -
  note I = clusterInvD [OF inv]
  have self: "c = k" if "(k, c, t) \<in> ballots (sent C)" "live C k = Some m" "VotedFor (hs m) = k"
    "CurrentTerm (hs m) = t" for k c m
  proof -
    have "keepsVote (hardState (disk C k)) (hs m)"
      using I(2) [OF that(2)] by (simp add: nodeInv_def)
    moreover have "onRecord (disk C k) c t"
      by (rule I(4) [OF that(1)])
    ultimately show ?thesis
      using that(3,4) by (auto simp: keepsVote_def onRecord_def)
  qed
  from v consider "v = i" "v = j" | "v = i" "(i, j, t) \<in> ballots (sent C)"
    | "v = j" "(j, i, t) \<in> ballots (sent C)" | "(v, i, t) \<in> ballots (sent C)" "(v, j, t) \<in> ballots (sent C)"
    by blast
  then show ?thesis
    using self [of i j n] self [of j i n'] i j t I(5) by cases auto
qed

text \<open>Election Safety: in every reachable cluster, two live leaders of the same term that were elected
  under the same configuration, or under configurations one log entry apart, are the same node.\<close>

lemma leaders_agree:
  assumes reach: "creach C"
    and i: "live C i = Some n" "role n = Leader" and j: "live C j = Some n'" "role n' = Leader"
    and t: "CurrentTerm (hs n) = CurrentTerm (hs n')"
    and c: "compatible (electionMembership n) (electionMembership n')"
  shows "i = j"
proof -
  note inv = clusterInv_reach [OF reach]
  note I = clusterInvD [OF inv]
  have ni: "nid n = i" "ballotInv (ballots (sent C)) n" and nj: "nid n' = j" "ballotInv (ballots (sent C)) n'"
    using I(1,2) i j by (auto simp: nodeInv_def)
  obtain v where "v \<in> set (electionVotes n)" "v \<in> set (electionVotes n')"
    using compatible_share [OF c, of "members n" "members n'" "\<lambda>v. v \<in> set (electionVotes n)"
        "\<lambda>v. v \<in> set (electionVotes n')"] ni(2) nj(2) i(2) j(2) by (auto simp: ballotInv_def)
  then have v: "v = i \<or> (v, i, CurrentTerm (hs n')) \<in> ballots (sent C)"
    "v = j \<or> (v, j, CurrentTerm (hs n')) \<in> ballots (sent C)"
    using ni nj i(2) j(2) t by (auto simp: ballotInv_def justified_def)
  show ?thesis
    using ni nj i j t by (intro one_vote [OF inv i(1) _ _ j(1) _ _ t refl v]) (auto simp: ballotInv_def)
qed

end
