(* ===== verification/RaftView.thy ===== *)
theory RaftView
  imports RaftNode "HOL-Library.Multiset"
begin

text \<open>
  The observers of \<open>src/raft/node.go\<close>: \<open>Status\<close> and the canonical \<open>State\<close> used for hashing and
  state comparison. Deep copies are the identity on values. A Go map is iterated in an arbitrary
  order; the lemma \<open>State_canonical\<close> shows that the sorted slices do not depend on it.
\<close>

record Status =
  stID :: NodeID
  stRole :: Role
  stTerm :: u64
  stVotedFor :: NodeID
  stLeader :: NodeID
  stCommitIndex :: u64
  stAppliedIndex :: u64
  stLastLogIndex :: u64
  stLastLogTerm :: u64
  stSnapshot :: Snapshot
  stMembership :: Membership
  stLog :: "Entry list"
  stElectionVotes :: "NodeID list"
  stElectionMembership :: Membership
  stAwaitingPersistence :: bool
  stWriteToken :: u64

record NodeIndex =
  niNode :: NodeID
  niValue :: u64

record NodeState =
  nsSchema :: string
  nsID :: NodeID
  nsMembers :: "NodeID list"
  nsInitialMembership :: Membership
  nsMembership :: Membership
  nsRole :: Role
  nsLeader :: NodeID
  nsPersistent :: PersistentState
  nsApplied :: u64
  nsVotes :: "NodeID list"
  nsElectionVotes :: "NodeID list"
  nsElectionMembership :: Membership
  nsNextIndex :: "NodeIndex list"
  nsMatchIndex :: "NodeIndex list"
  nsAppendSequence :: "NodeIndex list"
  nsNextWriteToken :: u64
  nsPending :: "(u64 \<times> Effect list) option"

definition AwaitingPersistence :: "Node \<Rightarrow> bool" where
  "AwaitingPersistence n \<longleftrightarrow> pending n \<noteq> None"

definition IsVoter :: "Node \<Rightarrow> bool" where
  "IsVoter n \<longleftrightarrow> isVoter (membership n) (nid n)"

definition nodeStatus :: "Node \<Rightarrow> Status" where
  "nodeStatus n =
     \<lparr>stID = nid n, stRole = role n, stTerm = CurrentTerm (hs n), stVotedFor = VotedFor (hs n),
      stLeader = leader n, stCommitIndex = CommitIndex (hs n), stAppliedIndex = applied n,
      stLastLogIndex = lastIndex n, stLastLogTerm = lastTerm n, stSnapshot = snap n,
      stMembership = membership n, stLog = nlog n, stElectionVotes = electionVotes n,
      stElectionMembership = electionMembership n, stAwaitingPersistence = (pending n \<noteq> None),
      stWriteToken = (case pending n of None \<Rightarrow> 0 | Some (token, _) \<Rightarrow> token)\<rparr>"

definition sortedNodeSet :: "NodeID list option \<Rightarrow> NodeID list" where
  "sortedNodeSet values = sort (case values of None \<Rightarrow> [] | Some vs \<Rightarrow> vs)"

definition sortedNodeIndexes :: "(NodeID, u64) gomap \<Rightarrow> NodeIndex list" where
  "sortedNodeIndexes values =
     sort_key niNode (map (\<lambda>(node, value). \<lparr>niNode = node, niValue = value\<rparr>)
       (case values of None \<Rightarrow> [] | Some al \<Rightarrow> al))"

definition StateSchemaVersion :: string where
  "StateSchemaVersion = ''d-raft.raft-node-state/v1''"

definition nodeState :: "Node \<Rightarrow> NodeState" where
  "nodeState n =
     \<lparr>nsSchema = StateSchemaVersion, nsID = nid n, nsMembers = members n,
      nsInitialMembership = initialMembership n, nsMembership = membership n, nsRole = role n,
      nsLeader = leader n, nsPersistent = state n, nsApplied = applied n,
      nsVotes = sortedNodeSet (votes n), nsElectionVotes = electionVotes n,
      nsElectionMembership = electionMembership n, nsNextIndex = sortedNodeIndexes (nextIndex n),
      nsMatchIndex = sortedNodeIndexes (matchIndex n),
      nsAppendSequence = sortedNodeIndexes (appendSequence n),
      nsNextWriteToken = nextWriteToken n, nsPending = pending n\<rparr>"

section \<open>Canonicity\<close>

text \<open>The entries of a Go map, and a map value whose keys are listed once.\<close>

definition mapEntries :: "('k, 'v) gomap \<Rightarrow> ('k \<times> 'v) set" where
  "mapEntries m = (case m of None \<Rightarrow> {} | Some al \<Rightarrow> set al)"

definition goodMap :: "('k, 'v) gomap \<Rightarrow> bool" where
  "goodMap m \<longleftrightarrow> (case m of None \<Rightarrow> True | Some al \<Rightarrow> distinct (map fst al))"

definition keyed :: "Node \<Rightarrow> bool" where
  "keyed n \<longleftrightarrow> goodMap (nextIndex n) \<and> goodMap (matchIndex n) \<and> goodMap (appendSequence n)
     \<and> (case votes n of None \<Rightarrow> True | Some vs \<Rightarrow> distinct vs)"

text \<open>Nodes that differ in the order of their maps at most.\<close>

definition sameContents :: "Node \<Rightarrow> Node \<Rightarrow> bool" where
  "sameContents n n' \<longleftrightarrow>
     nid n = nid n' \<and> members n = members n' \<and> initialMembership n = initialMembership n'
     \<and> membership n = membership n' \<and> role n = role n' \<and> leader n = leader n' \<and> state n = state n'
     \<and> applied n = applied n' \<and> electionVotes n = electionVotes n'
     \<and> electionMembership n = electionMembership n' \<and> nextWriteToken n = nextWriteToken n'
     \<and> pending n = pending n'
     \<and> set (case votes n of None \<Rightarrow> [] | Some vs \<Rightarrow> vs) = set (case votes n' of None \<Rightarrow> [] | Some vs \<Rightarrow> vs)
     \<and> mapEntries (nextIndex n) = mapEntries (nextIndex n')
     \<and> mapEntries (matchIndex n) = mapEntries (matchIndex n')
     \<and> mapEntries (appendSequence n) = mapEntries (appendSequence n')"

lemma sortedNodeIndexes_eq:
  assumes "goodMap m" and "goodMap m'"
  shows "sortedNodeIndexes m = sortedNodeIndexes m' \<longleftrightarrow> mapEntries m = mapEntries m'"
proof -
  let ?f = "\<lambda>(node, value). \<lparr>niNode = node, niValue = value :: u64\<rparr>"
  let ?xs = "case m of None \<Rightarrow> [] | Some al \<Rightarrow> al" and ?ys = "case m' of None \<Rightarrow> [] | Some al \<Rightarrow> al"
  have d: "distinct (map fst ?xs)" "distinct (map fst ?ys)"
    using assms by (auto simp: goodMap_def split: option.splits)
  have e: "mapEntries m = set ?xs" "mapEntries m' = set ?ys"
    by (auto simp: mapEntries_def split: option.splits)
  have inj: "inj ?f"
    by (rule injI) (auto split: prod.splits)
  have k: "map niNode (map ?f zs) = map fst zs" for zs
    by (simp add: comp_def split_def)
  show ?thesis
  proof
    assume eq: "sortedNodeIndexes m = sortedNodeIndexes m'"
    have "?f ` set ?xs = set (sortedNodeIndexes m)" "?f ` set ?ys = set (sortedNodeIndexes m')"
      by (simp_all add: sortedNodeIndexes_def)
    with eq inj show "mapEntries m = mapEntries m'"
      unfolding e by (metis inj_image_eq_iff)
  next
    assume "mapEntries m = mapEntries m'"
    then have "set ?xs = set ?ys" by (simp add: e)
    then have "mset ?xs = mset ?ys"
      using d by (simp add: set_eq_iff_mset_eq_distinct [symmetric] distinct_map)
    then have "mset (map ?f ?xs) = mset (map ?f ?ys)"
      by simp
    moreover have "inj_on niNode (set (map ?f ?xs))"
      using d(1) k [of ?xs] distinct_map by metis
    ultimately show "sortedNodeIndexes m = sortedNodeIndexes m'"
      unfolding sortedNodeIndexes_def
      by (intro sort_key_inj_key_eq) (simp_all add: inj_on_def)
  qed
qed

lemma sort_eq_iff_set:
  "distinct xs \<Longrightarrow> distinct ys \<Longrightarrow> sort xs = sort ys \<longleftrightarrow> set xs = set (ys :: 'a :: linorder list)"
  by (metis set_sort sorted_list_of_set_sort_remdups distinct_remdups_id)

lemma State_canonical:
  assumes "keyed n" and "keyed n'"
  shows "nodeState n = nodeState n' \<longleftrightarrow> sameContents n n'"
proof -
  have v: "sortedNodeSet (votes n) = sortedNodeSet (votes n') \<longleftrightarrow>
      set (case votes n of None \<Rightarrow> [] | Some vs \<Rightarrow> vs) = set (case votes n' of None \<Rightarrow> [] | Some vs \<Rightarrow> vs)"
    unfolding sortedNodeSet_def
    by (rule sort_eq_iff_set) (use assms in \<open>auto simp: keyed_def split: option.splits\<close>)
  show ?thesis
    using assms v sortedNodeIndexes_eq
    by (auto simp: nodeState_def sameContents_def keyed_def)
qed

end
