(* ===== verification/RaftProps.thy ===== *)
theory RaftProps
  imports RaftCluster RaftView
begin

text \<open>
  The properties of the Raft state machine and their witnesses. The examples are a three-node
  follower and a single-voter node, both built by \<open>New\<close> from the zero state.
\<close>

section \<open>Booting a node\<close>

lemma Start_spec:
  assumes len: "length (log st) < 2 ^ 64" and new: "New c st = Some (Inr n)"
  shows "\<exists>n'. Start n = Some (n',
      (if AppliedIndex c < LastIncludedIndex (snapshot st) then [EffectInstallSnapshot (snapshot st)] else [])
      @ appliesBetween n (max (AppliedIndex c) (LastIncludedIndex (snapshot st))) (CommitIndex (hardState st))
      @ (if isVoter (membership n) (cID c) then [EffectResetElectionTimer] else []))
    \<and> wfNode n' \<and> state n' = st \<and> nid n' = cID c \<and> pending n' = None \<and> role n' = Follower
    \<and> initialMembership n' = initialMembership n \<and> members n' = members n \<and> nextWriteToken n' = nextWriteToken n"
proof -
  from New_cases [OF len, of c] new
  have n: "wfUniverse (members n) (nid n)" "wfStore (members n) (initialMembership n) (state n)"
    "memChain (members n) (stBase (initialMembership n) (state n)) (nlog n) = Some (membership n)"
    "nid n = cID c" "state n = st" "applied n = AppliedIndex c" "applied n \<le> CommitIndex (hs n)"
    "role n = Follower" "pending n = None"
    by auto
  let ?b = "LastIncludedIndex (snapshot st)" and ?c = "CommitIndex (hardState st)"
  let ?n1 = "if applied n < ?b then n\<lparr>applied := ?b\<rparr> else n"
  have st1: "state ?n1 = state n" and a1: "applied ?n1 = max (AppliedIndex c) ?b"
    using n(6) by auto
  have fits: "fitsIndexSpace (state n)" and bc: "?b \<le> ?c"
    and cl: "unat ?c \<le> unat ?b + length (log st)"
    using n(2,5) by (simp_all add: wfStore_def)
  have last: "lastIndex ?n1 = lastIndex n"
    by (simp add: lastIndex_def st1)
  have "applyCommitted ?n1 = Some (?n1\<lparr>applied := CommitIndex (hs ?n1)\<rparr>,
      map EffectApply (take (unat (CommitIndex (hs ?n1)) - unat (applied ?n1))
        (drop (unat (applied ?n1) - unat (boundary ?n1)) (nlog ?n1))))"
  proof (rule applyCommitted_spec)
    show "fitsIndexSpace (state ?n1)" using fits st1 by simp
    show "boundary ?n1 \<le> applied ?n1" using a1 n(5) st1 by simp
    show "applied ?n1 \<le> CommitIndex (hs ?n1)" using a1 n(5-7) st1 bc by simp
    show "CommitIndex (hs ?n1) \<le> lastIndex ?n1"
      using last cl unat_lastIndex [OF fits] n(5) st1 by (simp add: word_le_nat_alt)
  qed
  then have ap: "applyCommitted ?n1
      = Some (?n1\<lparr>applied := ?c\<rparr>, appliesBetween n (max (AppliedIndex c) ?b) ?c)"
    using n(5) by (simp add: st1 a1 appliesBetween_def del: if_image_distrib)
  have "wfNode (?n1\<lparr>applied := ?c\<rparr>)"
    using n by (auto simp: wfNode_def wfRole_def)
  then show ?thesis
    using ap n by (auto simp: Start_def Let_def split: if_splits)
qed

section \<open>Examples\<close>

definition exConfig :: "NodeID \<Rightarrow> NodeID list \<Rightarrow> Config" where
  "exConfig i ms = \<lparr>cID = i, cMembers = ms, cVoters = [], cLearners = [], AppliedIndex = 0\<rparr>"

definition exNode :: "NodeID \<Rightarrow> NodeID list \<Rightarrow> Node" where
  "exNode i ms =
     \<lparr>nid = i, members = ms, initialMembership = stableMembership ms [],
      membership = stableMembership ms [], role = Follower, leader = [], state = zeroState,
      applied = 0, votes = None, electionVotes = [], electionMembership = zeroMembership,
      nextIndex = None, matchIndex = None, appendSequence = None, nextWriteToken = 1, pending = None\<rparr>"

abbreviation exTrio :: "NodeID list" where "exTrio \<equiv> [''a'', ''b'', ''c'']"

lemma exNode_New:
  "New (exConfig ''b'' exTrio) zeroState = Some (Inr (exNode ''b'' exTrio))"
  "New (exConfig ''a'' [''a'']) zeroState = Some (Inr (exNode ''a'' [''a'']))"
  by code_simp+

lemma exNode_Start:
  "Start (exNode ''b'' exTrio) = Some (exNode ''b'' exTrio, [EffectResetElectionTimer])"
  "Start (exNode ''a'' [''a'']) = Some (exNode ''a'' [''a''], [EffectResetElectionTimer])"
  by code_simp+

lemma exNode_wf: "wfNode (exNode ''b'' exTrio)" "wfNode (exNode ''a'' [''a''])"
  using Start_spec [OF _ exNode_New(1)] Start_spec [OF _ exNode_New(2)]
  by (auto simp: exNode_Start zeroState_def)

definition exEntry :: Entry where
  "exEntry = \<lparr>eIndex = 1, eTerm = 1, eType = EntryNoop, eData = [], eMembership = zeroMembership\<rparr>"

definition exAppend :: Message where
  "exAppend = zeroMessage\<lparr>mType := AppendEntries, mFrom := ''a'', mTo := ''b'', mTerm := 1,
     mEntries := [exEntry], mLeaderCommit := 1\<rparr>"

lemma exAppend_safe: "safeAppend exAppend (exNode ''b'' exTrio)"
  by (simp add: safeAppend_def exAppend_def exNode_def zeroState_def zeroMessage_def logsMatch_def)

section \<open>Elections\<close>

text \<open>C1. Election Safety. In every cluster reachable by inputs, completed writes, acknowledgements,
  crashes and restarts, with messages lost, duplicated and reordered at will, two live leaders of the
  same term elected under the same configuration, or under configurations one log entry apart, are
  the same node.\<close>

theorem election_safety:
  assumes "creach C" and "live C i = Some n" and "live C j = Some n'"
    and "role n = Leader" and "role n' = Leader"
    and "CurrentTerm (hs n) = CurrentTerm (hs n')"
    and "compatible (electionMembership n) (electionMembership n')"
  shows "i = j"
  using assms by (intro leaders_agree)

definition exLeader :: Node where
  "exLeader = (case Step InputElectionTimeout (exNode ''a'' [''a'']) of Some (n, _) \<Rightarrow> n)"

definition exBoot :: Cluster where
  "exBoot = \<lparr>live = [''a'' \<mapsto> exNode ''a'' [''a'']], disk = (\<lambda>_. zeroState), writes = (\<lambda>_. None), sent = {}\<rparr>"

definition exElected :: Cluster where
  "exElected = exBoot\<lparr>live := [''a'' \<mapsto> exLeader], writes := (\<lambda>_. None)(''a'' := Some (1, state exLeader))\<rparr>"

lemma exLeader_Step:
  "Step InputElectionTimeout (exNode ''a'' [''a'']) = Some (exLeader, Inr [EffectPersist 1 (state exLeader)])"
  by code_simp

lemma exElected_reach: "creach exElected"
proof -
  let ?C = "\<lparr>live = (\<lambda>_. None), disk = (\<lambda>_. zeroState), writes = (\<lambda>_. None), sent = {}\<rparr>"
  have "creach ?C"
    by (rule creach.start) (simp add: cinit_def)
  moreover have "cstep ?C exBoot"
    using cstep.restart [of ?C "''a''" "exConfig ''a'' [''a'']" "exNode ''a'' [''a'']"
        "exNode ''a'' [''a'']" "[EffectResetElectionTimer]"] exNode_New(2) exNode_Start(2)
    by (simp add: exBoot_def exConfig_def zeroState_def sends_def fun_upd_idem)
  moreover have "pending exLeader \<noteq> None"
    by code_simp
  then have "started exLeader (Inr [EffectPersist 1 (state exLeader)]) w = Some (1, state exLeader)" for w
    by (auto simp: started_def)
  then have "cstep exBoot exElected"
    using cstep.input [OF _ _ _ exLeader_Step, of exBoot "''a''"]
    by (simp add: exBoot_def exElected_def sends_def)
  ultimately show ?thesis
    using creach.step by blast
qed

lemma election_safety_witness:
  "creach exElected \<and> live exElected ''a'' = Some exLeader \<and> role exLeader = Leader
     \<and> compatible (electionMembership exLeader) (electionMembership exLeader) \<and> ''a'' = ''a''"
proof (intro conjI)
  show l: "live exElected ''a'' = Some exLeader"
    by (simp add: exElected_def)
  show r: "role exLeader = Leader"
    by code_simp
  show c: "compatible (electionMembership exLeader) (electionMembership exLeader)"
    by (simp add: compatible_def)
  show "''a'' = ''a''"
    by (rule election_safety [OF exElected_reach l l r r refl c])
qed (rule exElected_reach)

section \<open>Stepping a node\<close>


lemma exAppend_safeInput: "safeInput (InputMessage exAppend) (exNode ''b'' exTrio)"
  using exAppend_safe by (simp add: safeInput_def)


text \<open>C5. durability before visibility. A step that changes the durable state had no write in flight
  before it, returns nothing but a Persist effect carrying the new state under a fresh token, and
  holds every other effect back under that token.\<close>

theorem durable_before_visible:
  assumes "wfNode n" and "safeInput input n" and "Step input n = Some (n', r)"
    and "state n' \<noteq> state n"
  shows "pending n = None \<and> r = Inr [EffectPersist (nextWriteToken n) (state n')]
    \<and> nextWriteToken n' = nextWriteToken n + 1
    \<and> (\<exists>held. pending n' = Some (nextWriteToken n, held))"
  using Step_total [OF assms(1,2)] assms(3,4) by (metis option.inject prod.inject)

definition exAppended :: Node where
  "exAppended = (case Step (InputMessage exAppend) (exNode ''b'' exTrio) of Some (n, _) \<Rightarrow> n)"

lemma exAppended_Step:
  "Step (InputMessage exAppend) (exNode ''b'' exTrio) = Some (exAppended, Inr [EffectPersist 1 (state exAppended)])"
  by code_simp

lemma exAppended_pending: "\<exists>held. pending exAppended = Some (1, held)"
proof -
  have "map_option fst (pending exAppended) = Some 1"
    by code_simp
  then show ?thesis by auto
qed

lemma durable_before_visible_witness:
  "state exAppended \<noteq> state (exNode ''b'' exTrio) \<and> pending (exNode ''b'' exTrio) = None
    \<and> (\<exists>held. pending exAppended = Some (nextWriteToken (exNode ''b'' exTrio), held))"
proof -
  have "state exAppended \<noteq> state (exNode ''b'' exTrio)"
    by code_simp
  with durable_before_visible [OF exNode_wf(1) exAppend_safeInput exAppended_Step this]
  show ?thesis by blast
qed

text \<open>C15. the acknowledgement protocol. While a write is in flight the node refuses every input but the
  acknowledgement of that write; the matching token releases exactly the held effects and nothing
  else changes; any other token is refused; and the effects are released once.\<close>

theorem acknowledgement_protocol:
  assumes "pending n = Some (t, held)" and "t \<noteq> 0"
  shows "Step (InputPersisted t) n = Some (n\<lparr>pending := None\<rparr>, Inr held)
    \<and> (\<forall>u. u \<noteq> t \<longrightarrow> Step (InputPersisted u) n = Some (n, Inl ErrUnexpectedPersistence))
    \<and> (\<forall>input. (\<forall>u. input \<noteq> InputPersisted u) \<longrightarrow> Step input n = Some (n, Inl ErrAwaitingPersistence))
    \<and> Step (InputPersisted t) (n\<lparr>pending := None\<rparr>)
        = Some (n\<lparr>pending := None\<rparr>, Inl ErrUnexpectedPersistence)"
  using assms Step_pending [of n] by (auto simp: Step_def acknowledgePersistence_def)

lemma acknowledgement_protocol_witness:
  "\<exists>held. pending exAppended = Some (1, held) \<and> (1 :: u64) \<noteq> 0
    \<and> Step (InputPersisted 1) exAppended = Some (exAppended\<lparr>pending := None\<rparr>, Inr held)
    \<and> Step InputHeartbeatTimeout exAppended = Some (exAppended, Inl ErrAwaitingPersistence)"
proof -
  obtain held where p: "pending exAppended = Some (1, held)"
    using exAppended_pending by blast
  then show ?thesis
    using acknowledgement_protocol [OF p] by simp
qed

section \<open>Quorums, commits and logs\<close>

text \<open>quorum intersection across a configuration change. When a log entry legally takes
  configuration \<open>m\<close> to \<open>m'\<close>, any quorum of \<open>m\<close> and any quorum of \<open>m'\<close> share a voter of both.\<close>

theorem quorums_intersect_across_change:
  assumes "transitionMembership m e u = Some m'" and "validateMembership m u"
    and "quorum m P" and "quorum m' Q"
  shows "\<exists>i \<in> electorate m \<inter> electorate m'. P i \<and> Q i"
  using assms by (intro adjacent_share)
    (auto simp: adjacent_def validateMembership_iff canonicalNodeSet_iff)

definition exJoint :: Entry where
  "exJoint = \<lparr>eIndex = 1, eTerm = 1, eType = EntryConfigJoint, eData = [],
     eMembership = \<lparr>Voters = [''b''], VotersOutgoing = [''a'', ''b''], Learners = [], LearnersNext = []\<rparr>\<rparr>"

lemma quorums_intersect_across_change_witness:
  "transitionMembership (stableMembership [''a'', ''b''] []) exJoint exTrio = Some (eMembership exJoint)
    \<and> quorum (stableMembership [''a'', ''b''] []) (\<lambda>_. True) \<and> quorum (eMembership exJoint) (\<lambda>_. True)
    \<and> (\<exists>i \<in> electorate (stableMembership [''a'', ''b''] []) \<inter> electorate (eMembership exJoint).
         True \<and> True)"
proof (intro conjI)
  show t: "transitionMembership (stableMembership [''a'', ''b''] []) exJoint exTrio = Some (eMembership exJoint)"
    by code_simp
  have v: "validateMembership (stableMembership [''a'', ''b''] []) exTrio"
    by code_simp
  show q: "quorum (stableMembership [''a'', ''b''] []) (\<lambda>_. True)" "quorum (eMembership exJoint) (\<lambda>_. True)"
    by code_simp+
  show "\<exists>i \<in> electorate (stableMembership [''a'', ''b''] []) \<inter> electorate (eMembership exJoint). True \<and> True"
    by (rule quorums_intersect_across_change [OF t v q])
qed

text \<open>C8. \<open>advanceCommit\<close> moves the commit index to the greatest index past it that holds an entry of
  the current term stored by a quorum of the configuration in force at that index, and emits the
  newly committed entries in order; if there is no such index it changes nothing. A leader that is no
  voter any more steps down.\<close>

theorem advanceCommit_greatest:
  assumes "wfNode n"
  shows "(\<forall>i. CommitIndex (hs n) < i \<and> i \<le> lastIndex n \<longrightarrow> \<not> committable n i)
        \<and> advanceCommit n = Some (n, [])
    \<or> (\<exists>i. CommitIndex (hs n) < i \<and> i \<le> lastIndex n \<and> committable n i
        \<and> (\<forall>j. i < j \<and> j \<le> lastIndex n \<longrightarrow> \<not> committable n j)
        \<and> advanceCommit n = Some (commitTo i n, appliesBetween n (CommitIndex (hs n)) i))"
  using advanceLoop_spec [OF assms order_refl] by (simp add: advanceCommit_def)

lemma advanceCommit_greatest_witness:
  "wfNode (exNode ''b'' exTrio) \<and> advanceCommit (exNode ''b'' exTrio) = Some (exNode ''b'' exTrio, [])"
proof -
  have "lastIndex (exNode ''b'' exTrio) = 0"
    by code_simp
  then show ?thesis
    using advanceCommit_greatest [OF exNode_wf(1)] exNode_wf(1) by auto
qed

text \<open>C10. the append loop of \<open>handleAppendEntries\<close>, which compares, truncates and appends entry by entry
  over 64-bit indexes, computes the reference merge: the log up to the previous index is kept, then
  entries whose terms agree, then from the first disagreement the incoming ones; the dirty flag says
  whether anything changed.\<close>

theorem appendLoop_is_merge:
  assumes "fitsIndexSpace (state n)" and "boundary n \<le> prev" and "prev \<le> lastIndex n"
    and "unat prev + length es < 2 ^ 64"
  shows "appendLoop (prev + 1) es dirty n =
    (setLog (take (unat prev - unat (boundary n)) (nlog n)
        @ mergeLog (drop (unat prev - unat (boundary n)) (nlog n)) es) n,
     dirty \<or> extendsLog (drop (unat prev - unat (boundary n)) (nlog n)) es, True)"
  using appendLoop_merge [OF assms] by (simp add: Let_def)

lemma appendLoop_is_merge_witness:
  "appendLoop (0 + 1) [exEntry] False (exNode ''b'' exTrio) = (setLog [exEntry] (exNode ''b'' exTrio), True, True)"
  using appendLoop_is_merge [OF wfNodeD(6) [OF exNode_wf(1)], of 0 "[exEntry]" False]
  by (simp add: exNode_def zeroState_def zeroSnapshot_def setLog_def)







text \<open>booting. From any durable state \<open>New\<close> does not panic: it returns the validation error, or a
  follower with exactly that durable state; then \<open>Start\<close> yields a well-formed node, hands out the
  snapshot if the application is behind it, and replays the committed entries past what the
  application has applied, in order.\<close>

theorem boot_replays_committed:
  assumes "length (log st) < 2 ^ 64"
  shows "(\<exists>err. validate c st = Some err \<and> New c st = Some (Inl err))
    \<or> (\<exists>n n'. New c st = Some (Inr n) \<and> state n = st \<and> role n = Follower
        \<and> Start n = Some (n',
            (if AppliedIndex c < LastIncludedIndex (snapshot st)
             then [EffectInstallSnapshot (snapshot st)] else [])
            @ appliesBetween n (max (AppliedIndex c) (LastIncludedIndex (snapshot st)))
                (CommitIndex (hardState st))
            @ (if isVoter (membership n) (cID c) then [EffectResetElectionTimer] else []))
        \<and> wfNode n' \<and> state n' = st)"
proof -
  from New_cases [OF assms, of c] consider err where "validate c st = Some err" "New c st = Some (Inl err)"
    | n where "New c st = Some (Inr n)" "state n = st" "role n = Follower"
    by blast
  then show ?thesis
  proof cases
    case 2
    then show ?thesis using Start_spec [OF assms 2(1)] by blast
  qed blast
qed

lemma boot_replays_committed_witness:
  "length (log zeroState) < 2 ^ 64 \<and> (\<exists>n'. Start (exNode ''b'' exTrio) = Some (n', [EffectResetElectionTimer])
    \<and> wfNode n' \<and> state n' = zeroState)"
proof -
  have len: "length (log zeroState) < 2 ^ 64"
    by (simp add: zeroState_def)
  show ?thesis
    using boot_replays_committed [OF len, of "exConfig ''b'' exTrio"] exNode_New(1) exNode_Start(1) len by auto
qed

section \<open>Snapshots and membership changes\<close>

text \<open>compaction loses nothing. A successful \<open>takeSnapshot\<close> moves the boundary to the requested
  index, records that index's term, the application's bytes and the configuration in force there,
  keeps the hard state, the last index and the current configuration, and keeps every later entry.\<close>

theorem snapshot_keeps_suffix:
  assumes "wfNode n" and "takeSnapshot index payload n = Some (n', Inr (d, effs))"
  shows "boundary n' = index \<and> LastIncludedTerm (snap n') = termAt n index \<and> sData (snap n') = payload
    \<and> membershipAt n index = Some (sMembership (snap n')) \<and> hs n' = hs n
    \<and> lastIndex n' = lastIndex n \<and> membership n' = membership n
    \<and> (\<forall>i. index < i \<longrightarrow> entryAt n' i = entryAt n i)"
proof -
  have ok: "\<not> (index = 0 \<or> index \<le> boundary n \<or> index > CommitIndex (hs n) \<or> termAt n index = 0)"
    using assms(2) wfNodeD(4) [OF assms(1)] by (auto simp: takeSnapshot_def split: if_splits)
  obtain m where m: "membershipAt n index = Some m" and adv: "advances n n'"
    and sn: "snap n' = \<lparr>LastIncludedIndex = index, LastIncludedTerm = termAt n index,
       sMembers = members n, sData = payload, sMembership = m\<rparr>"
    and lg: "nlog n' = drop (unat index - unat (boundary n)) (nlog n)" and hs: "hs n' = hs n"
    and mem: "membership n' = membership n" and le: "index \<le> lastIndex n"
    using takeSnapshot_spec [OF assms(1) ok, where payload = payload] assms(2) by auto
  note f = wfNodeD(6) [OF assms(1)] and f' = wfNodeD(6) [OF advances_wf [OF adv]]
  have b: "unat (boundary n) < unat index" "unat index \<le> unat (boundary n) + length (nlog n)"
    using ok le unat_lastIndex [OF f] by (auto simp: word_le_nat_alt)
  have "lastIndex n' = lastIndex n"
    using b by (simp add: word_unat_eq_iff unat_lastIndex [OF f] unat_lastIndex [OF f'] sn lg)
  moreover have "entryAt n' i = entryAt n i" if "index < i" for i
    using that b by (auto simp: entryAt_nat [OF f] entryAt_nat [OF f'] sn lg word_less_nat_alt)
  ultimately show ?thesis
    using sn m hs mem by simp
qed

lemma exAppended_wf: "wfNode exAppended"
  using Step_total [OF exNode_wf(1) exAppend_safeInput] exAppended_Step by (metis option.inject prod.inject)

definition exCompacted :: Node where
  "exCompacted = fst (the (takeSnapshot 1 [7] exAppended))"

lemma snapshot_keeps_suffix_witness:
  "wfNode exAppended \<and> boundary exCompacted = 1 \<and> lastIndex exCompacted = lastIndex exAppended
    \<and> sData (snap exCompacted) = [7]"
proof -
  have "takeSnapshot 1 [7] exAppended = Some (exCompacted, Inr (True, []))"
    by code_simp
  from snapshot_keeps_suffix [OF exAppended_wf this] exAppended_wf show ?thesis by blast
qed

text \<open>C16. a membership change reaches its target. When \<open>beginMembership\<close> succeeds the leader's
  configuration is the joint one, whose incoming half is the target and whose outgoing half is the
  old electorate; when \<open>finalizeMembership\<close> later succeeds from that configuration, the
  configuration is exactly the requested voters and learners.\<close>

theorem membership_change_reaches_target:
  assumes "wfNode n" and "beginMembership vs ls n = Some (n1, Inr x)"
    and "wfNode n2" and "membership n2 = membership n1"
    and "finalizeMembership n2 = Some (n3, Inr y)"
  shows "Joint (membership n1) \<and> VotersOutgoing (membership n1) = Voters (membership n)
    \<and> Voters (membership n1) = sort vs \<and> membership n3 = stableMembership vs ls"
proof -
  let ?j = "\<lparr>Voters = sort vs, VotersOutgoing = Voters (membership n),
    Learners = jointLearnersOf (sort ls) (Voters (membership n)), LearnersNext = sort ls\<rparr>"
  have n: "role n = Leader" "lastIndex n \<noteq> MaxUint64"
    and r: "appendMembershipEntry EntryConfigJoint ?j n = Some (n1, Inr x)"
    using assms(2) by (auto simp: beginMembership_def Let_def stableMembership_def split: if_splits)
  have m1: "membership n1 = ?j"
    by (rule appendMembershipEntry_membership [OF assms(1) n _ r]) simp
  have n2: "role n2 = Leader" "lastIndex n2 \<noteq> MaxUint64"
    and r2: "appendMembershipEntry EntryConfigFinal
      (stableMembership (Voters (membership n2)) (LearnersNext (membership n2))) n2 = Some (n3, Inr y)"
    and joint: "Joint (membership n2)"
    using assms(5) by (auto simp: finalizeMembership_def split: if_splits)
  have "membership n3 = stableMembership (sort vs) (sort ls)"
    using appendMembershipEntry_membership [OF assms(3) n2 _ r2] assms(4) m1 by simp
  with m1 joint assms(4) show ?thesis
    by (simp add: stableMembership_def sorted_sort_id)
qed

definition exAdminConfig :: Config where
  "exAdminConfig = \<lparr>cID = ''a'', cMembers = [''a'', ''b''], cVoters = [''a''], cLearners = [], AppliedIndex = 0\<rparr>"

definition exAdmin0 :: Node where
  "exAdmin0 = (case New exAdminConfig zeroState of Some (Inr n) \<Rightarrow> n)"

definition exAdmin :: Node where
  "exAdmin = fst (the (Step InputElectionTimeout exAdmin0))"

definition exJointed :: "Node \<times> (raft_error + bool \<times> Effect list)" where
  "exJointed = the (beginMembership [''a''] [''b''] exAdmin)"

definition exFinal :: "Node \<times> (raft_error + bool \<times> Effect list)" where
  "exFinal = the (finalizeMembership (fst exJointed))"

lemma exAdmin_wf: "wfNode exAdmin"
proof -
  have new: "New exAdminConfig zeroState = Some (Inr exAdmin0)"
    by code_simp
  have st: "Start exAdmin0 = Some (exAdmin0, [EffectResetElectionTimer])"
    by code_simp
  have wf0: "wfNode exAdmin0"
    using Start_spec [OF _ new] st by (auto simp: zeroState_def)
  have "Step InputElectionTimeout exAdmin0 = Some (exAdmin, snd (the (Step InputElectionTimeout exAdmin0)))"
    by code_simp
  moreover have "safeInput InputElectionTimeout exAdmin0"
    by (simp add: safeInput_def)
  ultimately show ?thesis
    using Step_total [OF wf0] by (metis option.inject prod.inject)
qed

lemma membership_change_reaches_target_witness:
  "wfNode exAdmin \<and> Joint (membership (fst exJointed))
    \<and> membership (fst exFinal) = stableMembership [''a''] [''b'']"
proof -
  have b: "beginMembership [''a''] [''b''] exAdmin = Some (fst exJointed, Inr (projr (snd exJointed)))"
    by code_simp
  have "safeOutcome exAdmin (beginMembership [''a''] [''b''] exAdmin)"
    by (rule beginMembership_safe [OF exAdmin_wf])
  with b have wf2: "wfNode (fst exJointed)"
    by (cases "projr (snd exJointed)") (simp add: advances_def)
  have f: "finalizeMembership (fst exJointed) = Some (fst exFinal, Inr (projr (snd exFinal)))"
    by code_simp
  show ?thesis
    using membership_change_reaches_target [OF exAdmin_wf b wf2 refl f] exAdmin_wf by blast
qed

section \<open>The canonical state\<close>

text \<open>\<open>State\<close> is canonical. Two nodes have the same \<open>State\<close> exactly when all their fields agree
  up to the iteration order of their maps (and the difference between a nil and an empty map).\<close>

theorem State_identifies_nodes:
  assumes "keyed n" and "keyed n'"
  shows "nodeState n = nodeState n' \<longleftrightarrow> sameContents n n'"
  using assms by (rule State_canonical)

lemma State_identifies_nodes_witness:
  "nodeState (exLeader\<lparr>matchIndex := Some [(''a'', 1), (''b'', 2)]\<rparr>)
     = nodeState (exLeader\<lparr>matchIndex := Some [(''b'', 2), (''a'', 1)]\<rparr>)"
proof -
  let ?n = "exLeader\<lparr>matchIndex := Some [(''a'', 1), (''b'', 2)]\<rparr>"
  let ?n' = "exLeader\<lparr>matchIndex := Some [(''b'', 2), (''a'', 1)]\<rparr>"
  have "keyed ?n" "keyed ?n'"
    by code_simp+
  moreover have "sameContents ?n ?n'"
    by (auto simp: sameContents_def mapEntries_def)
  ultimately show ?thesis
    using State_identifies_nodes by blast
qed

section \<open>An acknowledgement without the entry\<close>

text \<open>past the end of the log \<open>termAt\<close> is 0, so an empty AppendEntries whose previous index lies
  beyond the log and whose previous term is 0 passes the consistency check: the follower reports a
  match at an index it does not have. (A leader of this code base never sends such a message.)\<close>

theorem gap_is_acknowledged:
  assumes "wfNode n" and "mTerm msg = CurrentTerm (hs n)" and "lastIndex n < mPrevLogIndex msg"
    and "mPrevLogTerm msg = 0" and "mEntries msg = []" and "mLeaderCommit msg \<le> CommitIndex (hs n)"
  shows "handleAppendEntries msg n = Some (followLeader msg n, False, [EffectResetElectionTimer,
    EffectSend (appendResponse (followLeader msg n) (mFrom msg) (mSequence msg) True (mPrevLogIndex msg) 0)])"
proof -
  define n1 where "n1 = followLeader msg n"
  have a1: "advances n n1" and st: "state n1 = state n"
    using followLeader_safe [OF assms(1), of msg] assms(2) by (simp_all add: n1_def)
  note w = wfNodeD [OF advances_wf [OF a1]]
  have last: "lastIndex n1 < mPrevLogIndex msg"
    using assms(3) st by (simp add: lastIndex_def)
  then have b: "boundary n1 \<le> mPrevLogIndex msg" and p: "mPrevLogIndex msg \<noteq> boundary n1"
    and t: "termAt n1 (mPrevLogIndex msg) = 0"
    using boundary_le_lastIndex [OF w(6)] by (auto simp: termAt_def entryAt_def)
  obtain m where "membershipAt n1 (mPrevLogIndex msg) = Some m"
    using membershipAt_total [OF w(2) b] by auto
  then show ?thesis
    using assms b t st unfolding handleAppendEntries_def n1_def [symmetric]
    by (auto simp: Let_def storeEntries_def finishAppend_def not_less)
qed

definition exPhantom :: Message where
  "exPhantom = zeroMessage\<lparr>mType := AppendEntries, mFrom := ''a'', mTo := ''b'', mPrevLogIndex := 7\<rparr>"

lemma gap_is_acknowledged_witness:
  "lastIndex (exNode ''b'' exTrio) < mPrevLogIndex exPhantom
    \<and> handleAppendEntries exPhantom (exNode ''b'' exTrio)
      = Some (followLeader exPhantom (exNode ''b'' exTrio), False, [EffectResetElectionTimer,
          EffectSend (appendResponse (followLeader exPhantom (exNode ''b'' exTrio)) (mFrom exPhantom)
            (mSequence exPhantom) True (mPrevLogIndex exPhantom) 0)])"
proof -
  have l: "lastIndex (exNode ''b'' exTrio) < mPrevLogIndex exPhantom"
    by code_simp
  have "mTerm exPhantom = CurrentTerm (hs (exNode ''b'' exTrio))" "mPrevLogTerm exPhantom = 0"
    "mEntries exPhantom = []" "mLeaderCommit exPhantom \<le> CommitIndex (hs (exNode ''b'' exTrio))"
    by code_simp+
  from gap_is_acknowledged [OF exNode_wf(1) this(1) l this(2-4)] l show ?thesis by blast
qed

end
