(* ===== verification/ListHeap.thy ===== *)
theory ListHeap
  imports Prelude "HOL-Library.Multiset"
begin

text \<open>
  Binary heaps stored in a list, over any linear order: the reference for the pointer-based event
  queue. \<^term>\<open>siftUp\<close> and \<^term>\<open>siftDown\<close> repair a heap that is broken at one position.
\<close>

abbreviation parent :: "nat \<Rightarrow> nat" where "parent i \<equiv> (i - 1) div 2"

definition heapOrdered :: "'k :: linorder list \<Rightarrow> bool" where
  "heapOrdered ks \<longleftrightarrow> (\<forall>i < length ks. 0 < i \<longrightarrow> ks ! parent i \<le> ks ! i)"

definition swapAt :: "nat \<Rightarrow> nat \<Rightarrow> 'k list \<Rightarrow> 'k list" where
  "swapAt i j ks = ks[i := ks ! j, j := ks ! i]"

lemma length_swapAt [simp]: "length (swapAt i j ks) = length ks"
  by (simp add: swapAt_def)

lemma nth_swapAt:
  "i < length ks \<Longrightarrow> j < length ks \<Longrightarrow>
     swapAt i j ks ! k = (if k = j then ks ! i else if k = i then ks ! j else ks ! k)"
  by (auto simp: swapAt_def nth_list_update)

lemma mset_swapAt [simp]: "i < length ks \<Longrightarrow> j < length ks \<Longrightarrow> mset (swapAt i j ks) = mset ks"
  by (simp add: swapAt_def mset_swap)

lemma set_swapAt [simp]: "i < length ks \<Longrightarrow> j < length ks \<Longrightarrow> set (swapAt i j ks) = set ks"
  using mset_swapAt mset_eq_setD by blast

lemma map_swapAt: "i < length ks \<Longrightarrow> j < length ks \<Longrightarrow> map f (swapAt i j ks) = swapAt i j (map f ks)"
  by (simp add: swapAt_def map_update)

function siftUp :: "nat \<Rightarrow> 'k :: linorder list \<Rightarrow> 'k list" where
  "siftUp i ks =
     (if 0 < i \<and> ks ! i < ks ! parent i then siftUp (parent i) (swapAt i (parent i) ks) else ks)"
  by pat_completeness auto
termination by (relation "measure fst") auto

declare siftUp.simps [simp del]

text \<open>The smaller child of \<open>i\<close>, which must have one.\<close>

definition smallestChild :: "nat \<Rightarrow> 'k :: linorder list \<Rightarrow> nat" where
  "smallestChild i ks =
     (if 2 * i + 2 < length ks \<and> ks ! (2 * i + 2) < ks ! (2 * i + 1) then 2 * i + 2 else 2 * i + 1)"

function siftDown :: "nat \<Rightarrow> 'k :: linorder list \<Rightarrow> 'k list \<times> nat" where
  "siftDown i ks =
     (if 2 * i + 1 < length ks \<and> ks ! smallestChild i ks < ks ! i
      then siftDown (smallestChild i ks) (swapAt i (smallestChild i ks) ks) else (ks, i))"
  by pat_completeness auto
termination
  by (relation "measure (\<lambda>(i, ks). length ks - i)") (auto simp: smallestChild_def)

declare siftDown.simps [simp del]

section \<open>Repairing a heap\<close>

definition upBroken :: "nat \<Rightarrow> 'k :: linorder list \<Rightarrow> bool" where
  "upBroken i ks \<longleftrightarrow> (\<forall>j < length ks. 0 < j \<and> j \<noteq> i \<longrightarrow> ks ! parent j \<le> ks ! j)
     \<and> (\<forall>j < length ks. 0 < j \<and> parent j = i \<and> 0 < i \<longrightarrow> ks ! parent i \<le> ks ! j)"

definition downBroken :: "nat \<Rightarrow> 'k :: linorder list \<Rightarrow> bool" where
  "downBroken i ks \<longleftrightarrow> (\<forall>j < length ks. 0 < j \<and> parent j \<noteq> i \<longrightarrow> ks ! parent j \<le> ks ! j)
     \<and> (\<forall>j < length ks. 0 < j \<and> parent j = i \<and> 0 < i \<longrightarrow> ks ! parent i \<le> ks ! j)"

lemma parent_less: "0 < i \<Longrightarrow> parent i < i"
  by auto

lemma siftUp_heap:
  "i < length ks \<Longrightarrow> upBroken i ks \<Longrightarrow> heapOrdered (siftUp i ks) \<and> mset (siftUp i ks) = mset ks"
proof (induction i ks rule: siftUp.induct)
  case (1 i ks)
  show ?case
  proof (cases "0 < i \<and> ks ! i < ks ! parent i")
    case False
    then have "heapOrdered ks"
      using "1.prems"(2) unfolding heapOrdered_def upBroken_def by (metis not_le_imp_less)
    then show ?thesis
      using False by (auto simp: siftUp.simps [of i])
  next
    case True
    let ?p = "parent i" and ?ks = "swapAt i (parent i) ks"
    have pl: "?p < length ks" and pi: "?p < i"
      using "1.prems"(1) True by auto
    note nth = nth_swapAt [OF "1.prems"(1) pl]
    have b: "\<And>j. j < length ks \<Longrightarrow> 0 < j \<Longrightarrow> j \<noteq> i \<Longrightarrow> ks ! parent j \<le> ks ! j"
      and g: "\<And>j. j < length ks \<Longrightarrow> 0 < j \<Longrightarrow> parent j = i \<Longrightarrow> ks ! ?p \<le> ks ! j"
      using "1.prems"(2) True by (auto simp: upBroken_def)
    have "upBroken ?p ?ks"
      unfolding upBroken_def length_swapAt
    proof (intro conjI allI impI)
      fix j assume j: "j < length ks" "0 < j \<and> j \<noteq> ?p"
      show "?ks ! parent j \<le> ?ks ! j"
        unfolding nth using j b [of j] g [of j] pi True parent_less [of j] by auto
    next
      fix j assume j: "j < length ks" "0 < j \<and> parent j = ?p \<and> 0 < ?p"
      have "ks ! parent ?p \<le> ks ! ?p"
        using b [of ?p] pl pi j by auto
      then show "?ks ! parent ?p \<le> ?ks ! j"
        unfolding nth using j b [of j] pi parent_less [of ?p] by (auto intro: order_trans)
    qed
    then have "heapOrdered (siftUp ?p ?ks) \<and> mset (siftUp ?p ?ks) = mset ?ks"
      using "1.IH" [OF True] pl by simp
    then show ?thesis
      using True "1.prems"(1) pl by (simp add: siftUp.simps [of i])
  qed
qed

lemma child_cases: "0 < (j :: nat) \<Longrightarrow> parent j = i \<Longrightarrow> j = 2 * i + 1 \<or> j = 2 * i + 2"
  by linarith

lemma smallestChild_le:
  assumes "2 * i + 1 < length ks" and "j < length ks" and "0 < j" and "parent j = i"
  shows "ks ! smallestChild i ks \<le> ks ! j"
  using child_cases [OF assms(3,4)] assms(1,2) by (auto simp: smallestChild_def not_less)

lemma smallestChild_child:
  "2 * i + 1 < length ks \<Longrightarrow> smallestChild i ks < length ks \<and> parent (smallestChild i ks) = i
     \<and> i < smallestChild i ks \<and> 0 < smallestChild i ks"
  by (auto simp: smallestChild_def)

text \<open>One step down: the smaller child moves up and the broken position moves to it.\<close>

lemma siftDown_step:
  assumes i: "2 * i + 1 < length ks" and lt: "ks ! smallestChild i ks < ks ! i"
    and rest: "\<forall>j < length ks. 0 < j \<and> parent j \<noteq> i \<and> j \<noteq> i \<longrightarrow> ks ! parent j \<le> ks ! j"
    and grand: "\<forall>j < length ks. 0 < j \<and> parent j = i \<and> 0 < i \<longrightarrow> ks ! parent i \<le> ks ! j"
  shows "downBroken (smallestChild i ks) (swapAt i (smallestChild i ks) ks)"
proof -
  let ?s = "smallestChild i ks" and ?ks = "swapAt i (smallestChild i ks) ks"
  note s = smallestChild_child [OF i]
  have il: "i < length ks" using i by simp
  note nth = nth_swapAt [OF il conjunct1 [OF s]]
  have sp: "parent ?s = i" "i < ?s" "?s < length ks" using s by auto
  show ?thesis
    unfolding downBroken_def length_swapAt
  proof (intro conjI allI impI)
    fix j assume j: "j < length ks" "0 < j \<and> parent j \<noteq> ?s"
    consider "j = i" | "j = ?s" | "j \<noteq> i" "j \<noteq> ?s" "parent j = i" | "j \<noteq> i" "j \<noteq> ?s" "parent j \<noteq> i"
      by blast
    then show "?ks ! parent j \<le> ?ks ! j"
    proof cases
      case 1
      then have "parent i < i" using j by auto
      then show ?thesis
        using 1 j grand s by (auto simp: nth)
    next
      case 2
      then show ?thesis using lt sp by (simp add: nth)
    next
      case 3
      then show ?thesis using smallestChild_le [OF i j(1)] j by (simp add: nth)
    next
      case 4
      then show ?thesis using rest j by (simp add: nth)
    qed
  next
    fix j assume j: "j < length ks" "0 < j \<and> parent j = ?s \<and> 0 < ?s"
    then have "j \<noteq> i" "j \<noteq> ?s" using sp parent_less [of j] by auto
    moreover have "ks ! ?s \<le> ks ! j"
      using rest j sp \<open>j \<noteq> i\<close> by auto
    ultimately show "?ks ! parent ?s \<le> ?ks ! j"
      using sp by (simp add: nth)
  qed
qed

lemma siftDown_heap:
  "i < length ks \<Longrightarrow> downBroken i ks \<Longrightarrow>
     heapOrdered (fst (siftDown i ks)) \<and> mset (fst (siftDown i ks)) = mset ks"
proof (induction i ks rule: siftDown.induct)
  case (1 i ks)
  show ?case
  proof (cases "2 * i + 1 < length ks \<and> ks ! smallestChild i ks < ks ! i")
    case True
    let ?s = "smallestChild i ks" and ?ks = "swapAt i (smallestChild i ks) ks"
    have s: "?s < length ks"
      using smallestChild_child True by blast
    have "downBroken ?s ?ks"
      using True "1.prems"(2) by (intro siftDown_step) (auto simp: downBroken_def)
    then have "heapOrdered (fst (siftDown ?s ?ks)) \<and> mset (fst (siftDown ?s ?ks)) = mset ?ks"
      using "1.IH" [OF True] s by simp
    then show ?thesis
      using True "1.prems"(1) s by (simp add: siftDown.simps [of i])
  next
    case False
    have "ks ! parent j \<le> ks ! j" if j: "j < length ks" "0 < j" for j
    proof (cases "parent j = i")
      case True
      then have "2 * i + 1 < length ks"
        using child_cases [OF j(2)] j(1) by auto
      then show ?thesis
        using False smallestChild_le [OF _ j True] True by (auto simp: not_less intro: order_trans)
    next
      case False
      then show ?thesis using "1.prems"(2) j by (simp add: downBroken_def)
    qed
    then have "heapOrdered ks"
      by (simp add: heapOrdered_def)
    then show ?thesis
      using False by (auto simp: siftDown.simps [of i])
  qed
qed

lemma siftDown_index: "i < length ks \<Longrightarrow> i \<le> snd (siftDown i ks)"
proof (induction i ks rule: siftDown.induct)
  case (1 i ks)
  show ?case
  proof (cases "2 * i + 1 < length ks \<and> ks ! smallestChild i ks < ks ! i")
    case True
    then have "smallestChild i ks \<le> snd (siftDown (smallestChild i ks) (swapAt i (smallestChild i ks) ks))"
      using "1.IH" smallestChild_child by (metis length_swapAt)
    moreover have "i < smallestChild i ks"
      using True smallestChild_child by blast
    ultimately show ?thesis
      using True by (simp add: siftDown.simps [of i])
  qed (auto simp: siftDown.simps [of i])
qed

text \<open>Replacing the element at \<open>i\<close>: sift it down, and up if it did not move.\<close>

lemma repair_heap:
  assumes i: "i < length ks"
    and rest: "\<forall>j < length ks. 0 < j \<and> parent j \<noteq> i \<and> j \<noteq> i \<longrightarrow> ks ! parent j \<le> ks ! j"
    and grand: "\<forall>j < length ks. 0 < j \<and> parent j = i \<and> 0 < i \<longrightarrow> ks ! parent i \<le> ks ! j"
  shows "heapOrdered (if snd (siftDown i ks) \<noteq> i then fst (siftDown i ks) else siftUp i (fst (siftDown i ks)))"
proof (cases "2 * i + 1 < length ks \<and> ks ! smallestChild i ks < ks ! i")
  case True
  let ?s = "smallestChild i ks" and ?ks = "swapAt i (smallestChild i ks) ks"
  have eq: "siftDown i ks = siftDown ?s ?ks"
    using True by (subst siftDown.simps) simp
  have s: "?s < length ks" "i < ?s"
    using smallestChild_child True by blast+
  have "downBroken ?s ?ks"
    using True rest grand by (intro siftDown_step) auto
  then have "heapOrdered (fst (siftDown ?s ?ks))"
    using siftDown_heap [of ?s ?ks] s by simp
  moreover have "?s \<le> snd (siftDown ?s ?ks)"
    using s by (intro siftDown_index) simp
  ultimately show ?thesis
    using s(2) unfolding eq by auto
next
  case False
  then have eq: "siftDown i ks = (ks, i)"
    by (subst siftDown.simps) auto
  have "ks ! parent j \<le> ks ! j" if j: "j < length ks" "0 < j" "j \<noteq> i" for j
  proof (cases "parent j = i")
    case True
    then have "2 * i + 1 < length ks"
      using child_cases [OF j(2)] j(1) by auto
    then show ?thesis
      using False smallestChild_le [OF _ j(1,2) True] True by (auto simp: not_less intro: order_trans)
  next
    case False
    then show ?thesis using rest j by simp
  qed
  then have "upBroken i ks"
    using grand by (auto simp: upBroken_def)
  then show ?thesis
    using siftUp_heap [OF i] by (simp add: eq)
qed

text \<open>The front of a heap is its least element.\<close>

lemma heap_front:
  assumes "heapOrdered ks" and "j < length ks"
  shows "ks ! 0 \<le> ks ! j"
  using assms(2)
proof (induction j rule: less_induct)
  case (less j)
  show ?case
  proof (cases "j = 0")
    case False
    then have "ks ! 0 \<le> ks ! parent j" "ks ! parent j \<le> ks ! j"
      using less assms(1) by (auto simp: heapOrdered_def)
    then show ?thesis by (rule order_trans)
  qed simp
qed

end
