(* ===== verification/SimQueue.thy ===== *)
theory SimQueue
  imports ListHeap "HOL-Library.Product_Lexorder"
begin

text \<open>
  The event queue of \<open>src/queue.go\<close>: a binary heap of pointers to events, each of which carries its own
  position. Event identifiers are unique, so they stand for the pointers: \<^term>\<open>store\<close> is the memory
  and \<^term>\<open>slots\<close> the heap's slice. The refinement lemmas map every operation to the list heap of
  the previous theory by reading off the keys (time, identifier); the locale \<^term>\<open>event_queue\<close> states
  what the simulator relies on, and the heap is an instance of it.
\<close>

type_synonym EventID = u64

record 'a ScheduledEvent =
  evWhen :: int
  evTag :: "string \<times> bytes"
  evAction :: "'a option"
  evIndex :: int

record 'a eventHeap =
  store :: "EventID \<Rightarrow> 'a ScheduledEvent"
  slots :: "EventID list"

definition less_at :: "'a eventHeap \<Rightarrow> nat \<Rightarrow> nat \<Rightarrow> bool" where
  "less_at h i j =
     (let a = slots h ! i; b = slots h ! j in
      if evWhen (store h a) \<noteq> evWhen (store h b) then evWhen (store h a) < evWhen (store h b)
      else a < b)"

definition setIndex :: "EventID \<Rightarrow> int \<Rightarrow> 'a eventHeap \<Rightarrow> 'a eventHeap" where
  "setIndex a i h = h\<lparr>store := (store h)(a := (store h a)\<lparr>evIndex := i\<rparr>)\<rparr>"

definition swap_at :: "nat \<Rightarrow> nat \<Rightarrow> 'a eventHeap \<Rightarrow> 'a eventHeap" where
  "swap_at i j h =
     (let h1 = h\<lparr>slots := (slots h)[i := slots h ! j, j := slots h ! i]\<rparr>;
          h2 = setIndex (slots h1 ! i) (int i) h1
      in setIndex (slots h2 ! j) (int j) h2)"

function heap_up :: "nat \<Rightarrow> 'a eventHeap \<Rightarrow> 'a eventHeap" where
  "heap_up i h =
     (if i > 0 then
        (let p = (i - 1) div 2 in
         if \<not> less_at h i p then h else heap_up p (swap_at i p h))
      else h)"
  by pat_completeness auto
termination by (relation "measure fst") auto

declare heap_up.simps [simp del]

lemma length_slots_swap [simp]: "length (slots (swap_at i j h)) = length (slots h)"
  by (simp add: swap_at_def setIndex_def Let_def)

function heap_down_from :: "nat \<Rightarrow> 'a eventHeap \<Rightarrow> 'a eventHeap \<times> nat" where
  "heap_down_from i h =
     (let left = 2 * i + 1 in
      if left \<ge> length (slots h) then (h, i)
      else
        let right = left + 1;
            smallest = (if right < length (slots h) \<and> less_at h right left then right else left)
        in if \<not> less_at h smallest i then (h, i) else heap_down_from smallest (swap_at i smallest h))"
  by pat_completeness auto
termination
  by (relation "measure (\<lambda>(i, h). length (slots h) - i)") (auto split: if_splits)

declare heap_down_from.simps [simp del]

definition heap_down :: "nat \<Rightarrow> 'a eventHeap \<Rightarrow> 'a eventHeap \<times> bool" where
  "heap_down i h = (let (h', j) = heap_down_from i h in (h', j \<noteq> i))"

text \<open>Pushing the event at address \<open>a\<close>.\<close>

definition heap_push :: "EventID \<Rightarrow> 'a eventHeap \<Rightarrow> 'a eventHeap" where
  "heap_push a h =
     (let h1 = setIndex a (int (length (slots h))) h;
          h2 = h1\<lparr>slots := slots h1 @ [a]\<rparr>
      in heap_up (length (slots h)) h2)"

text \<open>\<open>None\<close> is the index panic of an out-of-range position.\<close>

definition heap_remove :: "nat \<Rightarrow> 'a eventHeap \<Rightarrow> ('a eventHeap \<times> EventID) option" where
  "heap_remove i h =
     (if i < length (slots h) then
        (let last_i = length (slots h) - 1;
             h1 = swap_at i last_i h;
             a = slots h1 ! last_i;
             h2 = setIndex a (- 1) (h1\<lparr>slots := take last_i (slots h1)\<rparr>)
         in Some (if i \<noteq> last_i
                  then (case heap_down i h2 of (h3, moved) \<Rightarrow> if moved then h3 else heap_up i h3)
                  else h2, a))
      else None)"

definition heap_pop :: "'a eventHeap \<Rightarrow> ('a eventHeap \<times> EventID) option" where
  "heap_pop h = heap_remove 0 h"

section \<open>Reading off the keys\<close>

definition keyAt :: "'a eventHeap \<Rightarrow> EventID \<Rightarrow> int \<times> EventID" where
  "keyAt h a = (evWhen (store h a), a)"

definition keys :: "'a eventHeap \<Rightarrow> (int \<times> EventID) list" where
  "keys h = map (keyAt h) (slots h)"

text \<open>Changes of positions only.\<close>

definition sameEvents :: "'a eventHeap \<Rightarrow> 'a eventHeap \<Rightarrow> bool" where
  "sameEvents h h' \<longleftrightarrow> (\<forall>a. evWhen (store h' a) = evWhen (store h a) \<and> evTag (store h' a) = evTag (store h a)
     \<and> evAction (store h' a) = evAction (store h a))"

definition indexed :: "'a eventHeap \<Rightarrow> bool" where
  "indexed h \<longleftrightarrow> distinct (slots h) \<and> (\<forall>i < length (slots h). evIndex (store h (slots h ! i)) = int i)"

definition heapInv :: "'a eventHeap \<Rightarrow> bool" where
  "heapInv h \<longleftrightarrow> indexed h \<and> heapOrdered (keys h)"

lemma length_keys [simp]: "length (keys h) = length (slots h)"
  by (simp add: keys_def)

lemma sameEvents_refl [simp]: "sameEvents h h"
  by (simp add: sameEvents_def)

lemma sameEvents_trans: "sameEvents a b \<Longrightarrow> sameEvents b c \<Longrightarrow> sameEvents a c"
  by (simp add: sameEvents_def)

lemma sameEvents_key: "sameEvents h h' \<Longrightarrow> keyAt h' = keyAt h"
  by (rule ext) (simp add: sameEvents_def keyAt_def)

lemma sameEvents_setIndex [simp]: "sameEvents h (setIndex a i h)"
  by (simp add: sameEvents_def setIndex_def)

lemma slots_setIndex [simp]: "slots (setIndex a i h) = slots h"
  by (simp add: setIndex_def)

lemma sameEvents_slots [simp]:
  "sameEvents h (h'\<lparr>slots := s\<rparr>) = sameEvents h h'" "sameEvents (h\<lparr>slots := s\<rparr>) h' = sameEvents h h'"
  by (simp_all add: sameEvents_def)

lemma less_at_keys: "i < length (slots h) \<Longrightarrow> j < length (slots h) \<Longrightarrow> less_at h i j \<longleftrightarrow> keys h ! i < keys h ! j"
  by (auto simp: less_at_def keys_def keyAt_def Let_def)

lemma slots_swap: "slots (swap_at i j h) = swapAt i j (slots h)"
  by (simp add: swap_at_def swapAt_def Let_def)

lemma sameEvents_swap [simp]: "sameEvents h (swap_at i j h)"
  unfolding swap_at_def Let_def
  by (intro sameEvents_trans [OF _ sameEvents_setIndex]) simp

lemma keys_swap: "i < length (slots h) \<Longrightarrow> j < length (slots h) \<Longrightarrow> keys (swap_at i j h) = swapAt i j (keys h)"
  using sameEvents_key [OF sameEvents_swap [of h i j]] by (simp add: keys_def slots_swap map_swapAt)

lemma indexed_swap:
  assumes "indexed h" and "i < length (slots h)" and "j < length (slots h)"
  shows "indexed (swap_at i j h)"
proof -
  have d: "distinct (slots h)" using assms(1) by (simp add: indexed_def)
  then have d': "distinct (swapAt i j (slots h))"
    using assms(2,3) mset_swapAt mset_eq_imp_distinct_iff by metis
  let ?s = "swapAt i j (slots h)"
  have "evIndex (store (swap_at i j h) (?s ! k)) = int k" if k: "k < length (slots h)" for k
  proof -
    have inj: "?s ! k = ?s ! l \<longleftrightarrow> k = l" if "l < length (slots h)" for l
      using d' k that by (simp add: nth_eq_iff_index_eq)
    have sl: "slots (h\<lparr>slots := (slots h)[i := slots h ! j, j := slots h ! i]\<rparr>) = ?s"
      by (simp add: swapAt_def)
    have "evIndex (store h (?s ! k)) = int k" if "k \<noteq> i" "k \<noteq> j"
      using assms k that by (simp add: nth_swapAt indexed_def)
    then show ?thesis
      using inj [OF assms(2)] inj [OF assms(3)]
      by (auto simp: swap_at_def setIndex_def Let_def swapAt_def)
  qed
  with d' show ?thesis
    by (simp add: indexed_def slots_swap)
qed

section \<open>Refinement of the sifting loops\<close>

text \<open>Rearrangements of the heap: same events, same elements, positions kept up to date.\<close>

definition moved :: "'a eventHeap \<Rightarrow> 'a eventHeap \<Rightarrow> bool" where
  "moved h h' \<longleftrightarrow> sameEvents h h' \<and> mset (slots h') = mset (slots h) \<and> (indexed h \<longrightarrow> indexed h')"

lemma moved_refl [simp]: "moved h h"
  by (simp add: moved_def)

lemma moved_trans: "moved a b \<Longrightarrow> moved b c \<Longrightarrow> moved a c"
  by (auto simp: moved_def intro: sameEvents_trans)

lemma moved_swap: "i < length (slots h) \<Longrightarrow> j < length (slots h) \<Longrightarrow> moved h (swap_at i j h)"
  by (simp add: moved_def slots_swap indexed_swap)

lemma moved_length: "moved h h' \<Longrightarrow> length (slots h') = length (slots h)"
  by (auto simp: moved_def dest: mset_eq_length)

lemma heap_up_refines:
  "i < length (slots h) \<Longrightarrow> keys (heap_up i h) = siftUp i (keys h) \<and> moved h (heap_up i h)"
proof (induction i h rule: heap_up.induct)
  case (1 i h)
  show ?case
  proof (cases "i > 0 \<and> less_at h i (parent i)")
    case True
    have p: "parent i < length (slots h)" using "1.prems" by simp
    have eq: "heap_up i h = heap_up (parent i) (swap_at i (parent i) h)"
      using True by (subst heap_up.simps) (simp add: Let_def)
    have ks: "siftUp i (keys h) = siftUp (parent i) (keys (swap_at i (parent i) h))"
      using True "1.prems" p keys_swap [OF "1.prems" p]
      by (subst siftUp.simps) (simp add: less_at_keys)
    have "keys (heap_up (parent i) (swap_at i (parent i) h)) = siftUp (parent i) (keys (swap_at i (parent i) h))
        \<and> moved (swap_at i (parent i) h) (heap_up (parent i) (swap_at i (parent i) h))"
      using True p by (intro "1.IH") auto
    then show ?thesis
      unfolding eq ks using moved_trans [OF moved_swap [OF "1.prems" p]] by blast
  next
    case False
    then have "heap_up i h = h"
      by (subst heap_up.simps) (auto simp: Let_def)
    moreover have "siftUp i (keys h) = keys h"
      using False "1.prems" by (subst siftUp.simps) (auto simp: less_at_keys)
    ultimately show ?thesis by simp
  qed
qed

lemma heap_down_refines:
  "i < length (slots h) \<Longrightarrow> keys (fst (heap_down_from i h)) = fst (siftDown i (keys h))
     \<and> snd (heap_down_from i h) = snd (siftDown i (keys h)) \<and> moved h (fst (heap_down_from i h))"
proof (induction i h rule: heap_down_from.induct)
  case (1 i h)
  let ?s = "smallestChild i (keys h)"
  have small: "(if 2 * i + 1 + 1 < length (slots h) \<and> less_at h (2 * i + 1 + 1) (2 * i + 1)
      then 2 * i + 1 + 1 else 2 * i + 1) = ?s" if "2 * i + 1 < length (slots h)"
    using that by (auto simp: smallestChild_def less_at_keys)
  have step: "heap_down_from i h = (if 2 * i + 1 \<ge> length (slots h) then (h, i)
      else if \<not> less_at h ?s i then (h, i) else heap_down_from ?s (swap_at i ?s h))"
  proof (cases "2 * i + 1 < length (slots h)")
    case True
    show ?thesis
      by (subst heap_down_from.simps) (simp only: Let_def small [OF True])
  next
    case False
    then show ?thesis
      by (subst heap_down_from.simps) (simp only: Let_def not_less if_True)
  qed
  show ?case
  proof (cases "2 * i + 1 < length (slots h) \<and> less_at h ?s i")
    case True
    have s: "?s < length (slots h)"
      using smallestChild_child [of i "keys h"] True by simp
    have eq: "heap_down_from i h = heap_down_from ?s (swap_at i ?s h)"
      unfolding step using True by simp
    have ks: "siftDown i (keys h) = siftDown ?s (keys (swap_at i ?s h))"
      using True "1.prems" s by (subst siftDown.simps) (simp add: less_at_keys keys_swap)
    have "keys (fst (heap_down_from ?s (swap_at i ?s h))) = fst (siftDown ?s (keys (swap_at i ?s h)))
        \<and> snd (heap_down_from ?s (swap_at i ?s h)) = snd (siftDown ?s (keys (swap_at i ?s h)))
        \<and> moved (swap_at i ?s h) (fst (heap_down_from ?s (swap_at i ?s h)))"
      using True s small
      by (intro "1.IH" [OF refl _ refl small [symmetric]]) auto
    then show ?thesis
      unfolding eq ks using moved_trans [OF moved_swap [OF "1.prems" s]] by blast
  next
    case False
    then have "heap_down_from i h = (h, i)"
      unfolding step by auto
    moreover have "siftDown i (keys h) = (keys h, i)"
      using False "1.prems" smallestChild_child [of i "keys h"]
      by (subst siftDown.simps) (auto simp: less_at_keys)
    ultimately show ?thesis by simp
  qed
qed

section \<open>The operations\<close>

text \<open>Pushing a fresh event.\<close>

lemma heap_push_inv:
  assumes inv: "heapInv h" and fresh: "a \<notin> set (slots h)"
  shows "heapInv (heap_push a h)" and "mset (slots (heap_push a h)) = add_mset a (mset (slots h))"
    and "sameEvents h (heap_push a h)"
proof -
  let ?n = "length (slots h)"
  let ?h = "(setIndex a (int ?n) h)\<lparr>slots := slots h @ [a]\<rparr>"
  have eq: "heap_push a h = heap_up ?n ?h"
    by (simp add: heap_push_def Let_def)
  have se: "sameEvents h ?h" by simp
  have ks: "keys ?h = keys h @ [keyAt h a]"
    using sameEvents_key [OF se] by (simp add: keys_def)
  have idx: "indexed ?h"
    using inv fresh by (auto simp: heapInv_def indexed_def setIndex_def nth_append less_Suc_eq)
  have "upBroken ?n (keys ?h)"
    using inv unfolding upBroken_def ks
    by (auto simp: heapInv_def heapOrdered_def nth_append less_Suc_eq)
  then have "heapOrdered (siftUp ?n (keys ?h))"
    using siftUp_heap [of ?n "keys ?h"] ks by simp
  moreover have r: "keys (heap_up ?n ?h) = siftUp ?n (keys ?h) \<and> moved ?h (heap_up ?n ?h)"
    by (rule heap_up_refines) simp
  ultimately show "heapInv (heap_push a h)"
    using idx by (simp add: heapInv_def eq moved_def)
  show "mset (slots (heap_push a h)) = add_mset a (mset (slots h))"
    using r by (simp add: eq moved_def)
  show "sameEvents h (heap_push a h)"
    using r sameEvents_trans [OF se] by (auto simp: eq moved_def)
qed

text \<open>Detaching the event at position \<open>i\<close>: the last event takes its place.\<close>

definition detached :: "nat \<Rightarrow> 'a eventHeap \<Rightarrow> 'a eventHeap" where
  "detached i h =
     (let h1 = swap_at i (length (slots h) - 1) h
      in setIndex (slots h ! i) (- 1) (h1\<lparr>slots := butlast (slots h1)\<rparr>))"

lemma slots_detached: "slots (detached i h) = butlast (swapAt i (length (slots h) - 1) (slots h))"
  by (simp add: detached_def Let_def slots_swap)

lemma sameEvents_detached: "sameEvents h (detached i h)"
  unfolding detached_def Let_def
  by (intro sameEvents_trans [OF _ sameEvents_setIndex]) simp

lemma keys_detached:
  assumes "i < length (slots h)"
  shows "keys (detached i h) = butlast (swapAt i (length (slots h) - 1) (keys h))"
proof -
  have "length (slots h) - 1 < length (slots h)" using assms by linarith
  then show ?thesis
    using sameEvents_key [OF sameEvents_detached [of h i]] assms
    by (simp add: keys_def slots_detached map_butlast map_swapAt)
qed

lemma nth_detached:
  assumes "i < length (slots h)" and "j < length (slots h) - 1"
  shows "keys (detached i h) ! j = keys h ! (if j = i then length (slots h) - 1 else j)"
proof -
  have "length (slots h) - 1 < length (slots h)" using assms by linarith
  then show ?thesis
    using assms by (simp add: keys_detached nth_butlast nth_swapAt)
qed

lemma mset_butlast: "xs \<noteq> [] \<Longrightarrow> mset (butlast xs) = mset xs - {#last xs#}"
  by (metis add_mset_remove_trivial append_butlast_last_id mset.simps union_mset_add_mset_right
      add.right_neutral mset_append)

lemma detached_slots:
  assumes "i < length (slots h)"
  shows "mset (slots (detached i h)) = mset (slots h) - {#slots h ! i#}"
proof -
  let ?l = "length (slots h) - 1"
  have l: "?l < length (slots h)" using assms by linarith
  have ne: "swapAt i ?l (slots h) \<noteq> []"
    using assms by (auto simp: swapAt_def)
  have "last (swapAt i ?l (slots h)) = slots h ! i"
    using assms l ne by (simp add: last_conv_nth nth_swapAt)
  then show ?thesis
    using ne assms l by (simp add: slots_detached mset_butlast)
qed

lemma indexed_detached:
  assumes "indexed h" and "i < length (slots h)"
  shows "indexed (detached i h)"
proof -
  let ?l = "length (slots h) - 1"
  let ?h1 = "swap_at i ?l h"
  have l: "?l < length (slots h)" using assms by linarith
  have i1: "indexed ?h1"
    by (rule indexed_swap [OF assms l])
  have "slots ?h1 ! j \<noteq> slots h ! i" if "j < ?l" for j
  proof -
    have "slots h ! i = slots ?h1 ! ?l"
      using assms l by (simp add: slots_swap nth_swapAt)
    then show ?thesis
      using i1 that l by (simp add: indexed_def nth_eq_iff_index_eq)
  qed
  with i1 show ?thesis
    by (auto simp: indexed_def detached_def setIndex_def Let_def distinct_butlast nth_butlast)
qed

lemma heap_remove_detached:
  assumes "i < length (slots h)"
  shows "heap_remove i h = Some
    (if i \<noteq> length (slots h) - 1
     then (let r = heap_down_from i (detached i h)
           in if snd r \<noteq> i then fst r else heap_up i (fst r))
     else detached i h, slots h ! i)"
proof -
  let ?l = "length (slots h) - 1"
  have l: "?l < length (slots h)" using assms by linarith
  have at: "slots (swap_at i ?l h) ! ?l = slots h ! i"
    using assms l by (simp add: slots_swap nth_swapAt)
  have "take ?l (slots (swap_at i ?l h)) = butlast (slots (swap_at i ?l h))"
    by (simp add: butlast_conv_take)
  then have d: "setIndex (slots h ! i) (- 1) ((swap_at i ?l h)\<lparr>slots := take ?l (slots (swap_at i ?l h))\<rparr>)
      = detached i h"
    by (simp add: detached_def Let_def)
  show ?thesis
    unfolding heap_remove_def Let_def at d heap_down_def using assms
    by (simp add: split_def)
qed

lemma heap_remove_spec:
  assumes inv: "heapInv h" and i: "i < length (slots h)"
  obtains h' where "heap_remove i h = Some (h', slots h ! i)" and "heapInv h'"
    and "mset (slots h') = mset (slots h) - {#slots h ! i#}" and "sameEvents h h'"
proof -
  let ?l = "length (slots h) - 1" and ?d = "detached i h"
  have ord: "keys h ! parent j \<le> keys h ! j" if "j < length (slots h)" "0 < j" for j
    using inv that by (simp add: heapInv_def heapOrdered_def)
  have idx: "indexed ?d"
    using inv i by (intro indexed_detached) (auto simp: heapInv_def)
  have len: "length (slots ?d) = ?l"
    by (simp add: slots_detached)
  note nth = nth_detached [OF i]
  show ?thesis
  proof (cases "i = ?l")
    case True
    have "keys ?d ! parent j \<le> keys ?d ! j" if "j < ?l" "0 < j" for j
      using that nth [of j] nth [of "parent j"] ord [of j] parent_less [OF that(2)] True by simp
    then have "heapOrdered (keys ?d)"
      using len by (simp add: heapOrdered_def)
    then show ?thesis
      using that [of ?d] idx True heap_remove_detached [OF i] detached_slots [OF i]
      by (simp add: heapInv_def sameEvents_detached)
  next
    case False
    then have il: "i < ?l" using i by linarith
    let ?r = "heap_down_from i ?d"
    have rd: "keys (fst ?r) = fst (siftDown i (keys ?d)) \<and> snd ?r = snd (siftDown i (keys ?d)) \<and> moved ?d (fst ?r)"
      using il len by (intro heap_down_refines) simp
    have "keys ?d ! parent j \<le> keys ?d ! j" if "j < ?l" "0 < j" "parent j \<noteq> i" "j \<noteq> i" for j
    proof -
      have "keys ?d ! parent j = keys h ! parent j" "keys ?d ! j = keys h ! j"
        using that nth [of j] nth [of "parent j"] by auto
      then show ?thesis using ord [of j] that by simp
    qed
    moreover have "keys ?d ! parent i \<le> keys ?d ! j" if "j < ?l" "0 < j" "parent j = i" "0 < i" for j
    proof -
      have "j \<noteq> i" "parent i \<noteq> i" using that parent_less [of j] parent_less [of i] by auto
      then have "keys ?d ! parent i = keys h ! parent i" "keys ?d ! j = keys h ! j"
        using that il nth [of j] nth [of "parent i"] by auto
      then show ?thesis using ord [of j] ord [of i] that i by (auto intro: order_trans)
    qed
    ultimately have heap: "heapOrdered (if snd (siftDown i (keys ?d)) \<noteq> i then fst (siftDown i (keys ?d))
        else siftUp i (fst (siftDown i (keys ?d))))"
      using il len by (intro repair_heap) auto
    let ?h' = "if snd ?r \<noteq> i then fst ?r else heap_up i (fst ?r)"
    have lr: "length (slots (fst ?r)) = ?l"
      using rd moved_length len by metis
    have up: "keys (heap_up i (fst ?r)) = siftUp i (keys (fst ?r)) \<and> moved (fst ?r) (heap_up i (fst ?r))"
      using il lr by (intro heap_up_refines) simp
    have mv: "moved ?d ?h'"
      using rd up moved_trans by auto
    have "heapOrdered (keys ?h')"
      using heap rd up by auto
    with mv idx have "heapInv ?h'"
      by (auto simp: heapInv_def moved_def)
    then show ?thesis
      using that [of ?h'] mv False heap_remove_detached [OF i] detached_slots [OF i]
        sameEvents_trans [OF sameEvents_detached]
      by (auto simp: moved_def Let_def)
  qed
qed

section \<open>The queue as the simulator sees it\<close>

text \<open>
  A queue of events with a total order of keys: push adds an event, pop takes the least, and any
  event can be removed at its recorded position; none of them changes a key.
\<close>

locale event_queue =
  fixes qinv :: "'q \<Rightarrow> bool" and elems :: "'q \<Rightarrow> EventID set" and key :: "'q \<Rightarrow> EventID \<Rightarrow> int \<times> EventID"
    and push :: "EventID \<Rightarrow> 'q \<Rightarrow> 'q" and pop :: "'q \<Rightarrow> ('q \<times> EventID) option"
    and remove_at :: "nat \<Rightarrow> 'q \<Rightarrow> ('q \<times> EventID) option" and position :: "'q \<Rightarrow> EventID \<Rightarrow> nat"
  assumes key_inj: "key q a = key q b \<Longrightarrow> a = b"
    and push_law: "qinv q \<Longrightarrow> a \<notin> elems q
      \<Longrightarrow> qinv (push a q) \<and> elems (push a q) = insert a (elems q) \<and> key (push a q) = key q"
    and pop_law: "qinv q \<Longrightarrow> elems q \<noteq> {} \<Longrightarrow> \<exists>q' a. pop q = Some (q', a) \<and> qinv q' \<and> a \<in> elems q
      \<and> (\<forall>b \<in> elems q. key q a \<le> key q b) \<and> elems q' = elems q - {a} \<and> key q' = key q"
    and remove_law: "qinv q \<Longrightarrow> a \<in> elems q \<Longrightarrow> \<exists>q'. remove_at (position q a) q = Some (q', a)
      \<and> qinv q' \<and> elems q' = elems q - {a} \<and> key q' = key q"
begin

text \<open>Successive pops come out in strictly increasing order.\<close>

lemma pops_increase:
  assumes "qinv q" and "elems q \<noteq> {}" and "pop q = Some (q1, a)" and "elems q1 \<noteq> {}"
    and "pop q1 = Some (q2, b)"
  shows "key q a < key q b"
proof -
  from pop_law [OF assms(1,2)] assms(3)
  have 1: "qinv q1" "\<forall>b \<in> elems q. key q a \<le> key q b" "elems q1 = elems q - {a}" "key q1 = key q"
    by auto
  from pop_law [OF 1(1) assms(4)] assms(5) have "b \<in> elems q1" by auto
  then have "b \<in> elems q" "b \<noteq> a" using 1(3) by auto
  then have "key q a \<le> key q b" "key q a \<noteq> key q b"
    using 1(2) key_inj by blast+
  then show ?thesis by simp
qed

text \<open>A cancelled event is never popped.\<close>

lemma removed_not_popped:
  assumes "qinv q" and "a \<in> elems q" and "remove_at (position q a) q = Some (q1, a)"
    and "elems q1 \<noteq> {}" and "pop q1 = Some (q2, b)"
  shows "b \<noteq> a"
  using remove_law [OF assms(1,2)] assms(3-5) pop_law [of q1] by auto

end

lemma heap_pop_spec:
  assumes inv: "heapInv h" and ne: "slots h \<noteq> []"
  obtains h' where "heap_pop h = Some (h', slots h ! 0)" and "heapInv h'" and "sameEvents h h'"
    and "mset (slots h') = mset (slots h) - {#slots h ! 0#}"
    and "\<forall>b \<in> set (slots h). keyAt h (slots h ! 0) \<le> keyAt h b"
proof -
  have l: "0 < length (slots h)" using ne by simp
  have "keyAt h (slots h ! 0) \<le> keyAt h b" if b: "b \<in> set (slots h)" for b
  proof -
    from b obtain j where "j < length (slots h)" "b = slots h ! j"
      by (auto simp: in_set_conv_nth)
    then show ?thesis
      using heap_front [of "keys h" j] inv l by (simp add: heapInv_def keys_def)
  qed
  moreover obtain h' where "heap_remove 0 h = Some (h', slots h ! 0)" "heapInv h'"
    "mset (slots h') = mset (slots h) - {#slots h ! 0#}" "sameEvents h h'"
    using heap_remove_spec [OF inv l] by metis
  ultimately show ?thesis
    using that [of h'] by (simp add: heap_pop_def)
qed

lemma set_diff_mset: "distinct xs \<Longrightarrow> mset ys = mset xs - {#a#} \<Longrightarrow> set ys = set xs - {a}"
  by (metis mset_remove1 mset_eq_setD set_remove1_eq)

interpretation hq: event_queue heapInv "\<lambda>h. set (slots h)" keyAt heap_push heap_pop heap_remove
  "\<lambda>h a. nat (evIndex (store h a))"
proof unfold_locales
  show "a = b" if "keyAt h a = keyAt h b" for h :: "'a eventHeap" and a b
    using that by (simp add: keyAt_def)
  show "heapInv (heap_push a h) \<and> set (slots (heap_push a h)) = insert a (set (slots h))
      \<and> keyAt (heap_push a h) = keyAt h"
    if "heapInv h" "a \<notin> set (slots h)" for h :: "'a eventHeap" and a
    using heap_push_inv [OF that] sameEvents_key by (metis set_mset_add_mset_insert set_mset_mset)
  show "\<exists>h' a. heap_pop h = Some (h', a) \<and> heapInv h' \<and> a \<in> set (slots h)
      \<and> (\<forall>b \<in> set (slots h). keyAt h a \<le> keyAt h b) \<and> set (slots h') = set (slots h) - {a}
      \<and> keyAt h' = keyAt h"
    if inv: "heapInv h" and ne: "set (slots h) \<noteq> {}" for h :: "'a eventHeap"
  proof -
    have ne': "slots h \<noteq> []" and d: "distinct (slots h)"
      using inv ne by (auto simp: heapInv_def indexed_def)
    obtain h' where "heap_pop h = Some (h', slots h ! 0)" "heapInv h'" "sameEvents h h'"
      "mset (slots h') = mset (slots h) - {#slots h ! 0#}"
      "\<forall>b \<in> set (slots h). keyAt h (slots h ! 0) \<le> keyAt h b"
      using heap_pop_spec [OF inv ne'] by metis
    then show ?thesis
      using set_diff_mset [OF d] sameEvents_key ne' by (metis length_greater_0_conv nth_mem)
  qed
  show "\<exists>h'. heap_remove (nat (evIndex (store h a))) h = Some (h', a) \<and> heapInv h'
      \<and> set (slots h') = set (slots h) - {a} \<and> keyAt h' = keyAt h"
    if inv: "heapInv h" and a: "a \<in> set (slots h)" for h :: "'a eventHeap" and a
  proof -
    obtain i where i: "i < length (slots h)" "a = slots h ! i"
      using a by (auto simp: in_set_conv_nth)
    have d: "distinct (slots h)" and p: "nat (evIndex (store h a)) = i"
      using inv i by (auto simp: heapInv_def indexed_def)
    obtain h' where "heap_remove i h = Some (h', slots h ! i)" "heapInv h'"
      "mset (slots h') = mset (slots h) - {#slots h ! i#}" "sameEvents h h'"
      using heap_remove_spec [OF inv i(1)] by metis
    then show ?thesis
      unfolding p using set_diff_mset [OF d] sameEvents_key i(2) by blast
  qed
qed

end
