(* ===== verification/Json.thy ===== *)
theory Json
  imports Prelude
begin

text \<open>
  \<open>json.Valid\<close> of Go's \<open>encoding/json\<close>: whether a byte sequence is one JSON value surrounded by white
  space. Each function takes the remaining bytes and returns what is left after the construct it
  reads, or \<open>None\<close>. The fuel bounds the recursion; the number of bytes is enough, since every call
  consumes a byte. Nesting deeper than 10000 is refused, as in Go.
\<close>

definition isWS :: "byte \<Rightarrow> bool" where
  "isWS b \<longleftrightarrow> b = 32 \<or> b = 9 \<or> b = 13 \<or> b = 10"

definition isDigit :: "byte \<Rightarrow> bool" where
  "isDigit b \<longleftrightarrow> 48 \<le> b \<and> b \<le> 57"

definition isHex :: "byte \<Rightarrow> bool" where
  "isHex b \<longleftrightarrow> isDigit b \<or> 97 \<le> b \<and> b \<le> 102 \<or> 65 \<le> b \<and> b \<le> 70"

definition skipWS :: "bytes \<Rightarrow> bytes" where
  "skipWS = dropWhile isWS"

fun expect :: "bytes \<Rightarrow> bytes \<Rightarrow> bytes option" where
  "expect [] bs = Some bs"
| "expect (w # ws) (b # bs) = (if w = b then expect ws bs else None)"
| "expect (w # ws) [] = None"

text \<open>The rest of a string after its opening quote.\<close>

fun jsonString :: "bytes \<Rightarrow> bytes option" where
  "jsonString [] = None"
| "jsonString (b # bs) =
     (if b = 34 then Some bs
      else if b < 32 then None
      else if b = 92 then
        (case bs of [] \<Rightarrow> None
         | e # rest \<Rightarrow>
             if e \<in> {34, 92, 47, 98, 102, 110, 114, 116} then jsonString rest
             else if e = 117 then
               (case rest of h1 # h2 # h3 # h4 # rest' \<Rightarrow>
                  if isHex h1 \<and> isHex h2 \<and> isHex h3 \<and> isHex h4 then jsonString rest' else None
                | _ \<Rightarrow> None)
             else None)
      else jsonString bs)"

definition digits1 :: "bytes \<Rightarrow> bytes option" where
  "digits1 bs = (case bs of b # rest \<Rightarrow> if isDigit b then Some (dropWhile isDigit rest) else None | [] \<Rightarrow> None)"

definition jsonInt :: "bytes \<Rightarrow> bytes option" where
  "jsonInt bs = (case bs of b # rest \<Rightarrow> if b = 48 then Some rest else digits1 bs | [] \<Rightarrow> None)"

definition jsonFrac :: "bytes \<Rightarrow> bytes option" where
  "jsonFrac bs = (case bs of b # rest \<Rightarrow> if b = 46 then digits1 rest else Some bs | [] \<Rightarrow> Some bs)"

definition jsonExp :: "bytes \<Rightarrow> bytes option" where
  "jsonExp bs = (case bs of b # rest \<Rightarrow>
       if b = 101 \<or> b = 69
       then (case rest of s # rest' \<Rightarrow> if s = 43 \<or> s = 45 then digits1 rest' else digits1 rest | [] \<Rightarrow> None)
       else Some bs
     | [] \<Rightarrow> Some bs)"

definition jsonNumber :: "bytes \<Rightarrow> bytes option" where
  "jsonNumber bs =
     do {
       r1 \<leftarrow> jsonInt (case bs of b # rest \<Rightarrow> if b = 45 then rest else bs | [] \<Rightarrow> bs);
       r2 \<leftarrow> jsonFrac r1;
       jsonExp r2
     }"

text \<open>A value; the elements of an array after its opening bracket; the members of an object.\<close>

fun jsonValue :: "nat \<Rightarrow> nat \<Rightarrow> bytes \<Rightarrow> bytes option"
  and jsonElements :: "nat \<Rightarrow> nat \<Rightarrow> bytes \<Rightarrow> bytes option"
  and jsonMembers :: "nat \<Rightarrow> nat \<Rightarrow> bytes \<Rightarrow> bytes option" where
  "jsonValue 0 depth bs = None"
| "jsonValue (Suc fuel) depth bs =
     (case skipWS bs of
        [] \<Rightarrow> None
      | b # rest \<Rightarrow>
          if b = 123 then
            (if depth \<ge> 10000 then None
             else case skipWS rest of
               c # rest' \<Rightarrow> if c = 125 then Some rest' else jsonMembers fuel (Suc depth) rest
             | [] \<Rightarrow> None)
          else if b = 91 then
            (if depth \<ge> 10000 then None
             else case skipWS rest of
               c # rest' \<Rightarrow> if c = 93 then Some rest' else jsonElements fuel (Suc depth) rest
             | [] \<Rightarrow> None)
          else if b = 34 then jsonString rest
          else if b = 116 then expect [114, 117, 101] rest
          else if b = 102 then expect [97, 108, 115, 101] rest
          else if b = 110 then expect [117, 108, 108] rest
          else jsonNumber (b # rest))"
| "jsonElements 0 depth bs = None"
| "jsonElements (Suc fuel) depth bs =
     (case jsonValue fuel depth bs of
        None \<Rightarrow> None
      | Some r \<Rightarrow> (case skipWS r of
           b # rest \<Rightarrow> if b = 44 then jsonElements fuel depth rest
                      else if b = 93 then Some rest else None
         | [] \<Rightarrow> None))"
| "jsonMembers 0 depth bs = None"
| "jsonMembers (Suc fuel) depth bs =
     (case skipWS bs of
        q # r0 \<Rightarrow>
          if q \<noteq> 34 then None
          else (case jsonString r0 of
             None \<Rightarrow> None
           | Some r1 \<Rightarrow> (case skipWS r1 of
                c # r2 \<Rightarrow>
                  if c \<noteq> 58 then None
                  else (case jsonValue fuel depth r2 of
                     None \<Rightarrow> None
                   | Some r3 \<Rightarrow> (case skipWS r3 of
                        b # rest \<Rightarrow> if b = 44 then jsonMembers fuel depth rest
                                   else if b = 125 then Some rest else None
                      | [] \<Rightarrow> None))
              | [] \<Rightarrow> None))
      | [] \<Rightarrow> None)"

definition jsonValid :: "bytes \<Rightarrow> bool" where
  "jsonValid bs =
     (case jsonValue (2 * length bs + 2) 0 bs of None \<Rightarrow> False | Some rest \<Rightarrow> skipWS rest = [])"

end
