(* ===== verification/Simulator.thy ===== *)
theory Simulator
  imports SimQueue Json
begin

text \<open>
  The discrete-event scheduler of \<open>src/simulator.go\<close>. Callbacks are values of a type \<open>'a\<close> that a
  parameter \<open>exec\<close> runs on the simulator, as \<open>action(s)\<close> does; \<open>None\<close> as an action is Go's \<open>nil\<close>.
  Durations are the integers of an \<open>int64\<close>, and the overflow checks of the code are written out.
  The trace sink collects what it is given.
\<close>

section \<open>State\<close>

datatype sim_error =
    ErrNegativeTime | ErrPast | ErrTimeOverflow | ErrEventIDExhausted | ErrUncacheableState
  | ErrInvalidEventTag | ErrNilAction

datatype sim_trace =
    TraceEventScheduled int EventID int
  | TraceEventCanceled int EventID int
  | TraceEventExecuted int EventID
  | TraceClockAdvanced int

type_synonym EventTag = "string \<times> bytes"

record 'a Simulator =
  now :: int
  queue :: "'a eventHeap"
  pendingIDs :: "EventID list"
  nextID :: EventID
  exhausted :: bool
  trace :: "sim_trace list option"

definition emptyHeap :: "'a eventHeap" where
  "emptyHeap = \<lparr>store = (\<lambda>_. \<lparr>evWhen = 0, evTag = ([], []), evAction = None, evIndex = 0\<rparr>), slots = []\<rparr>"

definition newSimulator :: "'a Simulator" where
  "newSimulator = \<lparr>now = 0, queue = emptyHeap, pendingIDs = [], nextID = 1, exhausted = False, trace = None\<rparr>"

definition recordTrace :: "sim_trace \<Rightarrow> 'a Simulator \<Rightarrow> 'a Simulator" where
  "recordTrace e s = s\<lparr>trace := map_option (\<lambda>es. es @ [e]) (trace s)\<rparr>"

definition Len :: "'a Simulator \<Rightarrow> nat" where
  "Len s = length (slots (queue s))"

section \<open>Scheduling\<close>

definition eventKinds :: "string list" where
  "eventKinds = [''network_delivery'', ''storage_completion'', ''persistence_ack'', ''election_timer'',
     ''heartbeat_timer'', ''external_action'', ''scheduled_crash'', ''scheduled_restart'']"

definition validateEventTag :: "EventTag \<Rightarrow> sim_error option" where
  "validateEventTag tag =
     (if fst tag \<notin> set eventKinds then Some ErrInvalidEventTag
      else if length (snd tag) = 0 \<or> \<not> jsonValid (snd tag) then Some ErrInvalidEventTag
      else None)"

text \<open>The new event at address \<open>id\<close>, not yet in the heap.\<close>

definition allocate :: "EventID \<Rightarrow> int \<Rightarrow> EventTag \<Rightarrow> 'a option \<Rightarrow> 'a eventHeap \<Rightarrow> 'a eventHeap" where
  "allocate i t tag action h =
     h\<lparr>store := (store h)(i := \<lparr>evWhen = t, evTag = tag, evAction = action, evIndex = 0\<rparr>)\<rparr>"

definition scheduleAt ::
    "int \<Rightarrow> EventTag \<Rightarrow> 'a option \<Rightarrow> 'a Simulator \<Rightarrow> 'a Simulator \<times> (sim_error + EventID)" where
  "scheduleAt t tag action s =
     (if t < 0 then (s, Inl ErrNegativeTime)
      else if t < now s then (s, Inl ErrPast)
      else if action = None then (s, Inl ErrNilAction)
      else if exhausted s then (s, Inl ErrEventIDExhausted)
      else
        let s1 = (if nextID s = 0 then s\<lparr>nextID := 1\<rparr> else s);
            i = nextID s1;
            s2 = (if i = MaxUint64 then s1\<lparr>exhausted := True\<rparr> else s1\<lparr>nextID := i + 1\<rparr>);
            s3 = s2\<lparr>pendingIDs := List.insert i (pendingIDs s2),
                    queue := heap_push i (allocate i t tag action (queue s2))\<rparr>
        in (recordTrace (TraceEventScheduled (now s3) i t) s3, Inr i))"

definition ScheduleAt :: "int \<Rightarrow> 'a option \<Rightarrow> 'a Simulator \<Rightarrow> 'a Simulator \<times> (sim_error + EventID)" where
  "ScheduleAt t action s = scheduleAt t ([], []) action s"

definition ScheduleAtTagged ::
    "int \<Rightarrow> EventTag \<Rightarrow> 'a option \<Rightarrow> 'a Simulator \<Rightarrow> 'a Simulator \<times> (sim_error + EventID)" where
  "ScheduleAtTagged t tag action s =
     (case validateEventTag tag of Some err \<Rightarrow> (s, Inl err) | None \<Rightarrow> scheduleAt t tag action s)"

definition Schedule :: "int \<Rightarrow> 'a option \<Rightarrow> 'a Simulator \<Rightarrow> 'a Simulator \<times> (sim_error + EventID)" where
  "Schedule delay action s =
     (if delay < 0 then (s, Inl ErrNegativeTime)
      else if now s > MaxInt64 - delay then (s, Inl ErrTimeOverflow)
      else ScheduleAt (now s + delay) action s)"

definition ScheduleTagged ::
    "int \<Rightarrow> EventTag \<Rightarrow> 'a option \<Rightarrow> 'a Simulator \<Rightarrow> 'a Simulator \<times> (sim_error + EventID)" where
  "ScheduleTagged delay tag action s =
     (if delay < 0 then (s, Inl ErrNegativeTime)
      else if now s > MaxInt64 - delay then (s, Inl ErrTimeOverflow)
      else ScheduleAtTagged (now s + delay) tag action s)"

section \<open>Cancelling and executing\<close>

definition clearAction :: "EventID \<Rightarrow> 'a eventHeap \<Rightarrow> 'a eventHeap" where
  "clearAction a h = h\<lparr>store := (store h)(a := (store h a)\<lparr>evAction := None\<rparr>)\<rparr>"

text \<open>\<open>None\<close> is a panic: a position outside the heap.\<close>

definition Cancel :: "EventID \<Rightarrow> 'a Simulator \<Rightarrow> ('a Simulator \<times> bool) option" where
  "Cancel a s =
     (if a \<notin> set (pendingIDs s) then Some (s, False)
      else
        let s1 = s\<lparr>pendingIDs := filter (\<lambda>b. b \<noteq> a) (pendingIDs s)\<rparr>
        in case heap_remove (nat (evIndex (store (queue s) a))) (queue s1) of
             None \<Rightarrow> None
           | Some (h, _) \<Rightarrow>
               Some (recordTrace (TraceEventCanceled (now s) a (evWhen (store h a)))
                       (s1\<lparr>queue := clearAction a h\<rparr>), True))"

definition NextEventTime :: "'a Simulator \<Rightarrow> int \<times> bool" where
  "NextEventTime s =
     (if slots (queue s) = [] then (0, False)
      else (evWhen (store (queue s) (slots (queue s) ! 0)), True))"

text \<open>One event; \<open>None\<close> is the panic of calling a nil action.\<close>

definition simStep :: "('a \<Rightarrow> 'a Simulator \<Rightarrow> 'a Simulator) \<Rightarrow> 'a Simulator \<Rightarrow> ('a Simulator \<times> bool) option" where
  "simStep exec s =
     (case heap_pop (queue s) of
        None \<Rightarrow> Some (s, False)
      | Some (h, a) \<Rightarrow>
          let s1 = s\<lparr>queue := h, pendingIDs := filter (\<lambda>b. b \<noteq> a) (pendingIDs s), now := evWhen (store h a)\<rparr>;
              s2 = recordTrace (TraceEventExecuted (evWhen (store h a)) a) s1
          in case evAction (store h a) of
               None \<Rightarrow> None
             | Some action \<Rightarrow> Some (exec action (s2\<lparr>queue := clearAction a (queue s2)\<rparr>), True))"

partial_function (option) simRun ::
    "('a \<Rightarrow> 'a Simulator \<Rightarrow> 'a Simulator) \<Rightarrow> nat \<Rightarrow> 'a Simulator \<Rightarrow> ('a Simulator \<times> nat) option" where
  "simRun exec ran_n s =
     Option.bind (simStep exec s) (\<lambda>(s1, more_left).
       if more_left then simRun exec (Suc ran_n) s1 else Some (s1, ran_n))"

definition Run :: "('a \<Rightarrow> 'a Simulator \<Rightarrow> 'a Simulator) \<Rightarrow> 'a Simulator \<Rightarrow> ('a Simulator \<times> nat) option" where
  "Run exec s = simRun exec 0 s"

fun runStepsFrom ::
    "('a \<Rightarrow> 'a Simulator \<Rightarrow> 'a Simulator) \<Rightarrow> nat \<Rightarrow> nat \<Rightarrow> 'a Simulator \<Rightarrow> ('a Simulator \<times> nat) option" where
  "runStepsFrom exec 0 ran_n s = Some (s, ran_n)"
| "runStepsFrom exec (Suc limit) ran_n s =
     (case simStep exec s of
        None \<Rightarrow> None
      | Some (s1, False) \<Rightarrow> Some (s1, ran_n)
      | Some (s1, True) \<Rightarrow> runStepsFrom exec limit (Suc ran_n) s1)"

definition RunSteps ::
    "('a \<Rightarrow> 'a Simulator \<Rightarrow> 'a Simulator) \<Rightarrow> int \<Rightarrow> 'a Simulator \<Rightarrow> ('a Simulator \<times> nat) option" where
  "RunSteps exec limit s = runStepsFrom exec (nat limit) 0 s"

partial_function (option) runUntilLoop ::
    "('a \<Rightarrow> 'a Simulator \<Rightarrow> 'a Simulator) \<Rightarrow> int \<Rightarrow> nat \<Rightarrow> 'a Simulator \<Rightarrow> ('a Simulator \<times> nat) option" where
  "runUntilLoop exec t ran_n s =
     (if slots (queue s) \<noteq> [] \<and> evWhen (store (queue s) (slots (queue s) ! 0)) \<le> t
      then Option.bind (simStep exec s) (\<lambda>(s1, _). runUntilLoop exec t (Suc ran_n) s1)
      else Some (s, ran_n))"

definition RunUntil ::
    "('a \<Rightarrow> 'a Simulator \<Rightarrow> 'a Simulator) \<Rightarrow> int \<Rightarrow> 'a Simulator
       \<Rightarrow> ('a Simulator \<times> (sim_error + nat)) option" where
  "RunUntil exec t s =
     (if t < 0 then Some (s, Inl ErrNegativeTime)
      else if t < now s then Some (s, Inl ErrPast)
      else case runUntilLoop exec t 0 s of
        None \<Rightarrow> None
      | Some (s1, ran_n) \<Rightarrow>
          Some (if now s1 \<noteq> t then recordTrace (TraceClockAdvanced t) (s1\<lparr>now := t\<rparr>) else s1, Inr ran_n))"

section \<open>The canonical state\<close>

record PendingEventState =
  peID :: EventID
  peAtNS :: int
  peOrder :: u64
  peTag :: EventTag

record SimulatorState =
  ssSchema :: string
  ssNowNS :: int
  ssNextID :: EventID
  ssExhausted :: bool
  ssEvents :: "PendingEventState list"

fun pendingStates :: "'a eventHeap \<Rightarrow> EventID list \<Rightarrow> sim_error + PendingEventState list" where
  "pendingStates h [] = Inr []"
| "pendingStates h (a # as) =
     (if fst (evTag (store h a)) = [] then Inl ErrUncacheableState
      else case validateEventTag (evTag (store h a)) of
        Some err \<Rightarrow> Inl err
      | None \<Rightarrow> (case pendingStates h as of Inl err \<Rightarrow> Inl err
          | Inr es \<Rightarrow> Inr (\<lparr>peID = a, peAtNS = evWhen (store h a), peOrder = a, peTag = evTag (store h a)\<rparr> # es)))"

definition CanonicalState :: "'a Simulator \<Rightarrow> sim_error + SimulatorState" where
  "CanonicalState s =
     (if trace s \<noteq> None then Inl ErrUncacheableState
      else case pendingStates (queue s) (slots (queue s)) of
        Inl err \<Rightarrow> Inl err
      | Inr es \<Rightarrow> Inr \<lparr>ssSchema = ''d-raft.sim-state/v1'', ssNowNS = now s, ssNextID = nextID s,
          ssExhausted = exhausted s, ssEvents = sort_key (\<lambda>e. (peAtNS e, peOrder e)) es\<rparr>)"

end
