(* ===== verification/SimProps.thy ===== *)
theory SimProps
  imports Simulator
begin

text \<open>
  The scheduler's invariant \<^term>\<open>simInv\<close>, its preservation by every operation, and the order in which
  events run: always the pending event with the least time, and among equal times the one scheduled
  first. Callbacks are assumed \<^term>\<open>respectful\<close>: they may schedule and cancel, and do not run the
  simulator themselves.
\<close>

section \<open>The invariant\<close>

definition nextFree :: "'a Simulator \<Rightarrow> EventID" where
  "nextFree s = (if nextID s = 0 then 1 else nextID s)"

definition simInv :: "'a Simulator \<Rightarrow> bool" where
  "simInv s \<longleftrightarrow> heapInv (queue s) \<and> set (pendingIDs s) = set (slots (queue s)) \<and> 0 \<le> now s
     \<and> (\<forall>a \<in> set (slots (queue s)). now s \<le> evWhen (store (queue s) a)
          \<and> evAction (store (queue s) a) \<noteq> None \<and> 0 < a \<and> (\<not> exhausted s \<longrightarrow> a < nextFree s))"

definition respectful :: "('a \<Rightarrow> 'a Simulator \<Rightarrow> 'a Simulator) \<Rightarrow> bool" where
  "respectful exec \<longleftrightarrow> (\<forall>act s. simInv s \<longrightarrow> simInv (exec act s) \<and> now (exec act s) = now s)"

lemma recordTrace_simps [simp]:
  "now (recordTrace e s) = now s" "queue (recordTrace e s) = queue s"
  "pendingIDs (recordTrace e s) = pendingIDs s" "nextID (recordTrace e s) = nextID s"
  "exhausted (recordTrace e s) = exhausted s"
  by (simp_all add: recordTrace_def)

lemma simInv_trace [simp]: "simInv (recordTrace e s) = simInv s"
  by (simp add: simInv_def nextFree_def)

lemma newSimulator_inv: "simInv newSimulator"
  by (simp add: simInv_def newSimulator_def emptyHeap_def heapInv_def indexed_def keys_def heapOrdered_def)

section \<open>Heap memory updates\<close>

lemma heapInv_allocate:
  assumes "heapInv h" and "i \<notin> set (slots h)"
  shows "heapInv (allocate i t tag action h)"
proof -
  have "slots h ! k \<noteq> i" if "k < length (slots h)" for k
    using assms(2) that by (metis nth_mem)
  moreover have "keys (allocate i t tag action h) = keys h"
    using assms(2) by (auto simp: keys_def keyAt_def allocate_def)
  ultimately show ?thesis
    using assms(1) by (auto simp: heapInv_def indexed_def allocate_def)
qed

lemma keyAt_clearAction [simp]: "keyAt (clearAction a h) = keyAt h"
  by (rule ext) (simp add: keyAt_def clearAction_def)

lemma heapInv_clearAction: "heapInv h \<Longrightarrow> heapInv (clearAction a h)"
  by (auto simp: heapInv_def indexed_def keys_def) (auto simp: clearAction_def)

lemma clearAction_simps [simp]:
  "slots (clearAction a h) = slots h" "evWhen (store (clearAction a h) b) = evWhen (store h b)"
  "evTag (store (clearAction a h) b) = evTag (store h b)"
  "b \<noteq> a \<Longrightarrow> store (clearAction a h) b = store h b"
  by (auto simp: clearAction_def)

section \<open>Scheduling\<close>

lemma scheduleAt_refused:
  "\<lbrakk>t < 0 \<or> t < now s \<or> action = None \<or> exhausted s\<rbrakk> \<Longrightarrow> \<exists>err. scheduleAt t tag action s = (s, Inl err)"
  by (auto simp: scheduleAt_def)

lemma scheduleAt_accepted:
  assumes inv: "simInv s" and ok: "0 \<le> t" "now s \<le> t" "\<not> exhausted s"
  obtains s' where "scheduleAt t tag (Some act) s = (s', Inr (nextFree s))" and "simInv s'"
    and "now s' = now s"
    and "set (slots (queue s')) = insert (nextFree s) (set (slots (queue s)))"
    and "nextFree s \<notin> set (slots (queue s))"
    and "evWhen (store (queue s') (nextFree s)) = t" and "evTag (store (queue s') (nextFree s)) = tag"
    and "evAction (store (queue s') (nextFree s)) = Some act"
    and "\<forall>a \<in> set (slots (queue s)). evWhen (store (queue s') a) = evWhen (store (queue s) a)
      \<and> evTag (store (queue s') a) = evTag (store (queue s) a)
      \<and> evAction (store (queue s') a) = evAction (store (queue s) a)"
proof -
  let ?i = "nextFree s"
  let ?h = "allocate ?i t tag (Some act) (queue s)"
  let ?s2 = "if ?i = MaxUint64 then s\<lparr>nextID := ?i, exhausted := True\<rparr> else s\<lparr>nextID := ?i + 1\<rparr>"
  let ?s3 = "?s2\<lparr>pendingIDs := List.insert ?i (pendingIDs s), queue := heap_push ?i ?h\<rparr>"
  have fresh: "?i \<notin> set (slots (queue s))" and heap: "heapInv (queue s)"
    using inv ok(3) by (auto simp: simInv_def)
  have slots_h: "slots ?h = slots (queue s)"
    by (simp add: allocate_def)
  have inv': "heapInv (heap_push ?i ?h)"
    and set': "set (slots (heap_push ?i ?h)) = insert ?i (set (slots (queue s)))"
    and same: "sameEvents ?h (heap_push ?i ?h)"
    using hq.push_law [OF heapInv_allocate [OF heap fresh, of t tag "Some act"], of ?i]
      heap_push_inv(3) [OF heapInv_allocate [OF heap fresh, of t tag "Some act"], of ?i] fresh slots_h
    by simp_all
  have at: "evWhen (store (heap_push ?i ?h) b) = evWhen (store ?h b)"
    "evTag (store (heap_push ?i ?h) b) = evTag (store ?h b)"
    "evAction (store (heap_push ?i ?h) b) = evAction (store ?h b)" for b
    using same by (simp_all add: sameEvents_def)
  have old: "store ?h a = store (queue s) a" if "a \<in> set (slots (queue s))" for a
    using that fresh by (auto simp: allocate_def)
  have new: "evWhen (store ?h ?i) = t" "evTag (store ?h ?i) = tag" "evAction (store ?h ?i) = Some act"
    by (simp_all add: allocate_def)
  have eq: "scheduleAt t tag (Some act) s = (recordTrace (TraceEventScheduled (now s) ?i t) ?s3, Inr ?i)"
    using ok by (cases s) (auto simp: scheduleAt_def nextFree_def Let_def)
  have free: "a < nextFree ?s3" if "\<not> exhausted ?s3" "a \<in> insert ?i (set (slots (queue s)))" for a
  proof -
    have n: "?i \<noteq> MaxUint64" using that(1) by auto
    have lt: "?i < ?i + 1"
      using unat_plus_one [OF n] by (simp add: word_less_nat_alt)
    then have "nextFree ?s3 = ?i + 1"
      using n by (auto simp: nextFree_def)
    moreover have "a \<le> ?i"
      using that(2) inv ok(3) by (auto simp: simInv_def)
    ultimately show ?thesis using lt by simp
  qed
  have pos: "0 < ?i"
    by (simp add: nextFree_def word_gt_0)
  have "simInv ?s3"
    using inv inv' set' ok free pos
    unfolding simInv_def by (auto simp: at old new List.insert_def)
  then show ?thesis
    using eq set' fresh by (intro that [OF eq]) (auto simp: at old new)
qed

section \<open>Cancelling\<close>

lemma simInv_remove:
  assumes inv: "simInv s" and h: "heapInv h" and se: "sameEvents (queue s) h"
    and sl: "set (slots h) = set (slots (queue s)) - {a}"
    and t: "\<forall>b \<in> set (slots h). t \<le> evWhen (store (queue s) b)" "0 \<le> t"
  shows "simInv (s\<lparr>queue := clearAction a h, pendingIDs := filter (\<lambda>b. b \<noteq> a) (pendingIDs s), now := t\<rparr>)"
proof -
  have "evWhen (store (clearAction a h) b) = evWhen (store (queue s) b)"
    "evAction (store (clearAction a h) b) = evAction (store (queue s) b)" if "b \<noteq> a" for b
    using se that by (auto simp: sameEvents_def)
  then show ?thesis
    using inv sl t heapInv_clearAction [OF h, of a] unfolding simInv_def by (auto simp: nextFree_def)
qed

lemma Cancel_unknown: "a \<notin> set (pendingIDs s) \<Longrightarrow> Cancel a s = Some (s, False)"
  by (simp add: Cancel_def)

lemma Cancel_pending:
  assumes inv: "simInv s" and a: "a \<in> set (pendingIDs s)"
  obtains s' where "Cancel a s = Some (s', True)" and "simInv s'" and "now s' = now s"
    and "set (slots (queue s')) = set (slots (queue s)) - {a}"
    and "\<forall>b \<in> set (slots (queue s')). evWhen (store (queue s') b) = evWhen (store (queue s) b)
      \<and> evAction (store (queue s') b) = evAction (store (queue s) b)"
proof -
  have mem: "a \<in> set (slots (queue s))" and heap: "heapInv (queue s)"
    using inv a by (auto simp: simInv_def)
  obtain i where i: "i < length (slots (queue s))" "a = slots (queue s) ! i"
    using mem by (auto simp: in_set_conv_nth)
  have p: "nat (evIndex (store (queue s) a)) = i" and d: "distinct (slots (queue s))"
    using heap i by (auto simp: heapInv_def indexed_def)
  obtain h where h: "heap_remove i (queue s) = Some (h, slots (queue s) ! i)" "heapInv h"
    "mset (slots h) = mset (slots (queue s)) - {#slots (queue s) ! i#}" "sameEvents (queue s) h"
    using heap_remove_spec [OF heap i(1)] by metis
  have sl: "set (slots h) = set (slots (queue s)) - {a}"
    using set_diff_mset [OF d] h(3) i(2) by blast
  let ?s = "s\<lparr>queue := clearAction a h, pendingIDs := filter (\<lambda>b. b \<noteq> a) (pendingIDs s)\<rparr>"
  have eq: "Cancel a s = Some (recordTrace (TraceEventCanceled (now s) a (evWhen (store h a))) ?s, True)"
    using a h(1) i(2) p by (cases s) (simp add: Cancel_def)
  have "simInv (?s\<lparr>now := now s\<rparr>)"
    using simInv_remove [OF inv h(2,4) sl, of "now s"] inv sl by (auto simp: simInv_def)
  then have "simInv ?s" by simp
  then show ?thesis
    using sl h(4) by (intro that [OF eq]) (auto simp: sameEvents_def)
qed

section \<open>Executing\<close>

lemma simStep_empty: "slots (queue s) = [] \<Longrightarrow> simStep exec s = Some (s, False)"
  by (simp add: simStep_def heap_pop_def heap_remove_def)

text \<open>The state the callback of the next event is called on.\<close>

lemma simStep_next_all:
  assumes inv: "simInv s" and ne: "slots (queue s) \<noteq> []"
  obtains a act s1 where "a = slots (queue s) ! 0" and "a \<in> set (slots (queue s))"
    and "\<forall>b \<in> set (slots (queue s)). keyAt (queue s) a \<le> keyAt (queue s) b"
    and "evAction (store (queue s) a) = Some act"
    and "simStep exec s = Some (exec act s1, True)" and "simInv s1"
    and "now s1 = evWhen (store (queue s) a)" and "now s \<le> now s1"
    and "set (slots (queue s1)) = set (slots (queue s)) - {a}"
    and "\<forall>b. evWhen (store (queue s1) b) = evWhen (store (queue s) b)"
    and "\<forall>b. b \<noteq> a \<longrightarrow> evAction (store (queue s1) b) = evAction (store (queue s) b)"
proof -
  have heap: "heapInv (queue s)" using inv by (simp add: simInv_def)
  let ?a = "slots (queue s) ! 0"
  obtain h where h: "heap_pop (queue s) = Some (h, ?a)" "heapInv h" "sameEvents (queue s) h"
    "mset (slots h) = mset (slots (queue s)) - {#?a#}"
    "\<forall>b \<in> set (slots (queue s)). keyAt (queue s) ?a \<le> keyAt (queue s) b"
    using heap_pop_spec [OF heap ne] by metis
  have mem: "?a \<in> set (slots (queue s))" using ne by simp
  obtain act where act: "evAction (store (queue s) ?a) = Some act"
    using inv mem by (auto simp: simInv_def)
  have sl: "set (slots h) = set (slots (queue s)) - {?a}"
    using set_diff_mset h(4) heap by (metis heapInv_def indexed_def)
  let ?t = "evWhen (store (queue s) ?a)"
  let ?s = "s\<lparr>queue := clearAction ?a h, pendingIDs := filter (\<lambda>b. b \<noteq> ?a) (pendingIDs s), now := ?t\<rparr>"
  let ?s1 = "recordTrace (TraceEventExecuted ?t ?a) ?s"
  have at: "evWhen (store h ?a) = ?t" "evAction (store h ?a) = Some act"
    using h(3) act by (simp_all add: sameEvents_def)
  have eq: "simStep exec s = Some (exec act ?s1, True)"
    using h(1) at by (cases s) (simp add: simStep_def Let_def recordTrace_def)
  have le: "now s \<le> ?t" "0 \<le> ?t"
    using inv mem by (auto simp: simInv_def intro: order_trans)
  have "\<forall>b \<in> set (slots h). ?t \<le> evWhen (store (queue s) b)"
    using h(5) sl by (auto simp: keyAt_def)
  then have "simInv ?s"
    using simInv_remove [OF inv h(2,3) sl, of ?t] le by simp
  then show ?thesis
    using that [OF refl mem h(5) act eq] le sl h(3) by (simp add: sameEvents_def)
qed

lemma simStep_next:
  assumes inv: "simInv s" and ne: "slots (queue s) \<noteq> []"
  obtains a act s1 where "a = slots (queue s) ! 0" and "a \<in> set (slots (queue s))"
    and "\<forall>b \<in> set (slots (queue s)). keyAt (queue s) a \<le> keyAt (queue s) b"
    and "evAction (store (queue s) a) = Some act"
    and "simStep exec s = Some (exec act s1, True)" and "simInv s1"
    and "now s1 = evWhen (store (queue s) a)" and "now s \<le> now s1"
    and "set (slots (queue s1)) = set (slots (queue s)) - {a}"
    and "\<forall>b. evWhen (store (queue s1) b) = evWhen (store (queue s) b)"
  by (rule simStep_next_all [OF inv ne, of exec]) (rule that)

lemma runStepsFrom_total:
  assumes "respectful exec"
  shows "simInv s \<Longrightarrow> \<exists>s' k. runStepsFrom exec limit ran_n s = Some (s', ran_n + k) \<and> simInv s' \<and> now s \<le> now s'
    \<and> k \<le> limit \<and> (k < limit \<longrightarrow> slots (queue s') = [])"
proof (induction limit arbitrary: ran_n s)
  case (Suc limit)
  show ?case
  proof (cases "slots (queue s) = []")
    case True
    then show ?thesis
      using Suc.prems by (auto simp: simStep_empty intro: exI [of _ 0])
  next
    case False
    obtain a act s1 where st: "simStep exec s = Some (exec act s1, True)" "simInv s1" "now s \<le> now s1"
      using simStep_next [OF Suc.prems False] by metis
    have e: "simInv (exec act s1)" "now (exec act s1) = now s1"
      using assms st(2) by (auto simp: respectful_def)
    obtain s' k where "runStepsFrom exec limit (Suc ran_n) (exec act s1) = Some (s', Suc ran_n + k)"
      "simInv s'" "now (exec act s1) \<le> now s'" "k \<le> limit" "k < limit \<longrightarrow> slots (queue s') = []"
      using Suc.IH [OF e(1), of "Suc ran_n"] by auto
    then show ?thesis
      using st e by (intro exI [of _ s'] exI [of _ "Suc k"]) auto
  qed
qed auto

section \<open>Running up to a time\<close>

text \<open>How many pending events are due.\<close>

definition due :: "int \<Rightarrow> 'a Simulator \<Rightarrow> nat" where
  "due t s = card {a \<in> set (slots (queue s)). evWhen (store (queue s) a) \<le> t}"

lemma none_due:
  assumes "simInv s" and "slots (queue s) = [] \<or> \<not> evWhen (store (queue s) (slots (queue s) ! 0)) \<le> t"
    and "a \<in> set (slots (queue s))"
  shows "t < evWhen (store (queue s) a)"
proof -
  have ne: "slots (queue s) \<noteq> []" using assms(3) by auto
  have "heapInv (queue s)" using assms(1) by (simp add: simInv_def)
  from heap_pop_spec [OF this ne] have "keyAt (queue s) (slots (queue s) ! 0) \<le> keyAt (queue s) a"
    using assms(3) by metis
  then show ?thesis
    using assms(2) ne by (auto simp: keyAt_def)
qed

lemma runUntilLoop_ends:
  assumes resp: "respectful exec"
    and dec: "\<And>act s. simInv s \<Longrightarrow> due t (exec act s) \<le> due t s"
  shows "simInv s \<Longrightarrow> now s \<le> t \<Longrightarrow> \<exists>s' k. runUntilLoop exec t ran_n s = Some (s', k) \<and> simInv s' \<and> now s' \<le> t
    \<and> (\<forall>a \<in> set (slots (queue s')). t < evWhen (store (queue s') a))"
proof (induction "due t s" arbitrary: s ran_n rule: less_induct)
  case less
  show ?case
  proof (cases "slots (queue s) \<noteq> [] \<and> evWhen (store (queue s) (slots (queue s) ! 0)) \<le> t")
    case False
    then have "runUntilLoop exec t ran_n s = Some (s, ran_n)"
      by (subst runUntilLoop.simps) auto
    then show ?thesis
      using less.prems none_due [OF less.prems(1)] False by blast
  next
    case True
    then have ne: "slots (queue s) \<noteq> []" by blast
    obtain a act s1 where a: "a = slots (queue s) ! 0" "a \<in> set (slots (queue s))"
      and st: "simStep exec s = Some (exec act s1, True)" "simInv s1"
      and n: "now s1 = evWhen (store (queue s) a)"
      and sl: "set (slots (queue s1)) = set (slots (queue s)) - {a}"
        "\<forall>b. evWhen (store (queue s1) b) = evWhen (store (queue s) b)"
      using simStep_next [OF less.prems(1) ne] by metis
    have "{b \<in> set (slots (queue s1)). evWhen (store (queue s1) b) \<le> t}
        = {b \<in> set (slots (queue s)). evWhen (store (queue s) b) \<le> t} - {a}"
      using sl by auto
    moreover have "a \<in> {b \<in> set (slots (queue s)). evWhen (store (queue s) b) \<le> t}"
      using a True by auto
    moreover have "finite {b \<in> set (slots (queue s)). evWhen (store (queue s) b) \<le> t}"
      by simp
    ultimately have "due t s1 < due t s"
      unfolding due_def by (simp only: card_Diff1_less)
    then have d: "due t (exec act s1) < due t s"
      using dec [OF st(2), of act] by linarith
    have e: "simInv (exec act s1)" "now (exec act s1) = now s1"
      using resp st(2) by (auto simp: respectful_def)
    have "now (exec act s1) \<le> t"
      using e(2) n a True by auto
    from less.hyps [OF d e(1) this, of "Suc ran_n"] obtain s' k where
      "runUntilLoop exec t (Suc ran_n) (exec act s1) = Some (s', k)" "simInv s'" "now s' \<le> t"
      "\<forall>a \<in> set (slots (queue s')). t < evWhen (store (queue s') a)"
      by blast
    moreover have "runUntilLoop exec t ran_n s = runUntilLoop exec t (Suc ran_n) (exec act s1)"
      using True st(1) by (subst runUntilLoop.simps) auto
    ultimately show ?thesis by simp
  qed
qed

section \<open>The canonical state\<close>

text \<open>Simulators with the same clock, counters and pending events, however their heaps are laid out.\<close>

definition sameSchedule :: "'a Simulator \<Rightarrow> 'b Simulator \<Rightarrow> bool" where
  "sameSchedule s s' \<longleftrightarrow> now s = now s' \<and> nextID s = nextID s' \<and> exhausted s = exhausted s'
     \<and> set (slots (queue s)) = set (slots (queue s'))
     \<and> (\<forall>a \<in> set (slots (queue s)). evWhen (store (queue s) a) = evWhen (store (queue s') a)
          \<and> evTag (store (queue s) a) = evTag (store (queue s') a))"

definition eventState :: "'a eventHeap \<Rightarrow> EventID \<Rightarrow> PendingEventState" where
  "eventState h a = \<lparr>peID = a, peAtNS = evWhen (store h a), peOrder = a, peTag = evTag (store h a)\<rparr>"

lemma pendingStates_map:
  "(\<forall>a \<in> set as. fst (evTag (store h a)) \<noteq> [] \<and> validateEventTag (evTag (store h a)) = None)
     \<Longrightarrow> pendingStates h as = Inr (map (eventState h) as)"
  by (induction as) (auto simp: eventState_def)

lemma CanonicalState_tagged:
  assumes "trace s = None"
    and "\<forall>a \<in> set (slots (queue s)). fst (evTag (store (queue s) a)) \<noteq> []
       \<and> validateEventTag (evTag (store (queue s) a)) = None"
  shows "CanonicalState s = Inr \<lparr>ssSchema = ''d-raft.sim-state/v1'', ssNowNS = now s, ssNextID = nextID s,
    ssExhausted = exhausted s,
    ssEvents = sort_key (\<lambda>e. (peAtNS e, peOrder e)) (map (eventState (queue s)) (slots (queue s)))\<rparr>"
  using assms pendingStates_map [OF assms(2)] by (simp add: CanonicalState_def)

lemma canonical_events:
  assumes "distinct as" "distinct bs" "set as = set bs"
    and "\<forall>a \<in> set as. evWhen (store h a) = evWhen (store h' a) \<and> evTag (store h a) = evTag (store h' a)"
  shows "sort_key (\<lambda>e. (peAtNS e, peOrder e)) (map (eventState h) as)
    = sort_key (\<lambda>e. (peAtNS e, peOrder e)) (map (eventState h') bs)"
proof -
  have "map (eventState h) as = map (eventState h') as"
    using assms(4) by (auto simp: eventState_def)
  moreover have "mset as = mset bs"
    using assms(1-3) by (simp add: set_eq_iff_mset_eq_distinct)
  ultimately have "mset (map (eventState h) as) = mset (map (eventState h') bs)"
    by (simp only: mset_map)
  moreover have "inj_on (\<lambda>e. (peAtNS e, peOrder e)) (set (map (eventState h) as))"
    by (auto simp: inj_on_def eventState_def)
  ultimately show ?thesis
    by (intro sort_key_inj_key_eq) simp_all
qed

section \<open>Properties\<close>

text \<open>Examples: two events at the same time and an earlier one, with a callback that does nothing.\<close>

definition idle :: "unit \<Rightarrow> unit Simulator \<Rightarrow> unit Simulator" where
  "idle _ s = s"

definition exSchedule :: "unit Simulator" where
  "exSchedule = fst (scheduleAt 3 ([], []) (Some ()) (fst (scheduleAt 5 ([], []) (Some ())
     (fst (scheduleAt 5 ([], []) (Some ()) newSimulator)))))"

lemma idle_respectful: "respectful idle"
  by (simp add: respectful_def idle_def)

lemma scheduleAt_inv:
  assumes "simInv s"
  shows "simInv (fst (scheduleAt t tag action s))"
proof (cases "t < 0 \<or> t < now s \<or> action = None \<or> exhausted s")
  case True
  then show ?thesis using scheduleAt_refused [OF True, of tag] assms by auto
next
  case False
  then obtain act where act: "action = Some act" and ok: "0 \<le> t" "now s \<le> t" "\<not> exhausted s"
    by auto
  from scheduleAt_accepted [OF assms ok, of tag act] show ?thesis
    unfolding act by (metis fst_conv)
qed

lemma exSchedule_inv: "simInv exSchedule"
  unfolding exSchedule_def by (intro scheduleAt_inv newSimulator_inv)

lemma exSchedule_slots: "slots (queue exSchedule) = [3, 2, 1]" "pendingIDs exSchedule = [3, 2, 1]"
  by code_simp+

text \<open>C17. the scheduler runs events in order. If an event is pending, \<open>Step\<close> removes the one with the
  least (time, identifier), so equal times run in scheduling order; it sets the clock to that
  event's time, which is never before the old clock, and calls that event's callback on a state
  that satisfies the invariant. With no event pending it does nothing.\<close>

theorem step_runs_earliest:
  assumes "simInv s"
  shows "(slots (queue s) = [] \<longrightarrow> simStep exec s = Some (s, False))
    \<and> (slots (queue s) \<noteq> [] \<longrightarrow> (\<exists>a act s1. a \<in> set (slots (queue s))
        \<and> (\<forall>b \<in> set (slots (queue s)). keyAt (queue s) a \<le> keyAt (queue s) b)
        \<and> evAction (store (queue s) a) = Some act \<and> simStep exec s = Some (exec act s1, True)
        \<and> simInv s1 \<and> now s1 = evWhen (store (queue s) a) \<and> now s \<le> now s1
        \<and> set (slots (queue s1)) = set (slots (queue s)) - {a}))"
proof (cases "slots (queue s) = []")
  case False
  from simStep_next [OF assms False, of exec] show ?thesis
    using False by metis
qed (simp add: simStep_empty)

lemma step_runs_earliest_witness:
  "simInv exSchedule \<and> (\<exists>a act s1. a \<in> set (slots (queue exSchedule))
     \<and> simStep idle exSchedule = Some (idle act s1, True) \<and> simInv s1)"
  using step_runs_earliest [OF exSchedule_inv, of idle] exSchedule_inv exSchedule_slots by auto

text \<open>scheduling. A request in the past, with a negative time, without an action, or after the last
  identifier leaves the simulator unchanged and returns an error; any other gets a fresh identifier,
  adds exactly that event with its time, tag and action, and keeps the invariant.\<close>

theorem schedule_exact:
  assumes "simInv s"
  shows "(t < 0 \<or> t < now s \<or> action = None \<or> exhausted s
        \<longrightarrow> (\<exists>err. scheduleAt t tag action s = (s, Inl err)))
    \<and> (\<not> (t < 0 \<or> t < now s \<or> action = None \<or> exhausted s)
        \<longrightarrow> (\<exists>s'. scheduleAt t tag action s = (s', Inr (nextFree s)) \<and> simInv s' \<and> now s' = now s
          \<and> nextFree s \<notin> set (slots (queue s))
          \<and> set (slots (queue s')) = insert (nextFree s) (set (slots (queue s)))
          \<and> evWhen (store (queue s') (nextFree s)) = t
          \<and> evAction (store (queue s') (nextFree s)) = action
          \<and> (\<forall>a \<in> set (slots (queue s)). evWhen (store (queue s') a) = evWhen (store (queue s) a)
               \<and> evAction (store (queue s') a) = evAction (store (queue s) a))))"
proof (intro conjI impI)
  assume "\<not> (t < 0 \<or> t < now s \<or> action = None \<or> exhausted s)"
  then obtain act where act: "action = Some act" and ok: "0 \<le> t" "now s \<le> t" "\<not> exhausted s"
    by auto
  from scheduleAt_accepted [OF assms ok, of tag act] show "\<exists>s'. scheduleAt t tag action s = (s', Inr (nextFree s))
      \<and> simInv s' \<and> now s' = now s \<and> nextFree s \<notin> set (slots (queue s))
      \<and> set (slots (queue s')) = insert (nextFree s) (set (slots (queue s)))
      \<and> evWhen (store (queue s') (nextFree s)) = t \<and> evAction (store (queue s') (nextFree s)) = action
      \<and> (\<forall>a \<in> set (slots (queue s)). evWhen (store (queue s') a) = evWhen (store (queue s) a)
           \<and> evAction (store (queue s') a) = evAction (store (queue s) a))"
    unfolding act by metis
qed (rule scheduleAt_refused)

lemma schedule_exact_witness:
  "simInv exSchedule \<and> (\<exists>s'. scheduleAt 9 ([], []) (Some ()) exSchedule = (s', Inr (nextFree exSchedule)) \<and> simInv s')
    \<and> (\<exists>err. scheduleAt (- 1) ([], []) (Some ()) exSchedule = (exSchedule, Inl err))"
proof -
  have "now exSchedule = 0" "\<not> exhausted exSchedule"
    by code_simp+
  then show ?thesis
    using schedule_exact [OF exSchedule_inv, of 9 "Some ()" "([], [])"]
      schedule_exact [OF exSchedule_inv, of "- 1" "Some ()" "([], [])"] exSchedule_inv by auto
qed

text \<open>cancelling. A pending event is found at its recorded position and removed, and nothing else:
  the others keep their times and actions; an identifier that is not pending changes nothing.\<close>

theorem cancel_exact:
  assumes "simInv s"
  shows "(a \<notin> set (pendingIDs s) \<longrightarrow> Cancel a s = Some (s, False))
    \<and> (a \<in> set (pendingIDs s) \<longrightarrow> (\<exists>s'. Cancel a s = Some (s', True) \<and> simInv s' \<and> now s' = now s
        \<and> set (slots (queue s')) = set (slots (queue s)) - {a}
        \<and> (\<forall>b \<in> set (slots (queue s')). evWhen (store (queue s') b) = evWhen (store (queue s) b)
             \<and> evAction (store (queue s') b) = evAction (store (queue s) b))))"
  using Cancel_pending [OF assms, of a] Cancel_unknown [of a s] by metis

lemma cancel_exact_witness:
  "simInv exSchedule \<and> (\<exists>s'. Cancel 2 exSchedule = Some (s', True) \<and> simInv s')"
  using cancel_exact [OF exSchedule_inv, of 2] exSchedule_inv exSchedule_slots by auto

text \<open>\<open>RunSteps\<close> always returns. It runs at most \<open>limit\<close> events (none for a negative limit), fewer
  only if the queue ran empty, and never moves the clock back.\<close>

theorem run_steps_bounded:
  assumes "simInv s" and "respectful exec"
  shows "\<exists>s' k. RunSteps exec limit s = Some (s', k) \<and> simInv s' \<and> now s \<le> now s' \<and> k \<le> nat limit
    \<and> (k < nat limit \<longrightarrow> slots (queue s') = [])"
  using runStepsFrom_total [OF assms(2,1), of "nat limit" 0] by (auto simp: RunSteps_def)

lemma run_steps_bounded_witness:
  "\<exists>s' k. RunSteps idle 2 exSchedule = Some (s', k) \<and> simInv s' \<and> k \<le> nat 2"
  using run_steps_bounded [OF exSchedule_inv idle_respectful, of 2] by blast

text \<open>\<open>RunUntil\<close> drains everything due. If callbacks do not keep adding events that are due, it
  returns with the clock exactly at \<open>end\<close>, no pending event due at or before it, and the invariant
  kept.\<close>

theorem run_until_drains:
  assumes "simInv s" and "respectful exec" and "\<And>act s. simInv s \<Longrightarrow> due t (exec act s) \<le> due t s"
    and "0 \<le> t" and "now s \<le> t"
  shows "\<exists>s' k. RunUntil exec t s = Some (s', Inr k) \<and> simInv s' \<and> now s' = t
    \<and> (\<forall>a \<in> set (slots (queue s')). t < evWhen (store (queue s') a))"
proof -
  obtain s1 k where s1: "runUntilLoop exec t 0 s = Some (s1, k)" "simInv s1" "now s1 \<le> t"
    "\<forall>a \<in> set (slots (queue s1)). t < evWhen (store (queue s1) a)"
    using runUntilLoop_ends [OF assms(2,3,1,5), of 0] by blast
  have "simInv (s1\<lparr>now := t\<rparr>)"
    using s1 assms(4) by (auto simp: simInv_def nextFree_def)
  then show ?thesis
    using s1 assms(4,5) by (auto simp: RunUntil_def)
qed

lemma run_until_drains_witness:
  "\<exists>s' k. RunUntil idle 4 exSchedule = Some (s', Inr k) \<and> simInv s' \<and> now s' = 4
    \<and> (\<forall>a \<in> set (slots (queue s')). 4 < evWhen (store (queue s') a))"
proof (rule run_until_drains [OF exSchedule_inv idle_respectful])
  show "due 4 (idle act s) \<le> due 4 s" for act s
    by (simp add: idle_def)
  show "now exSchedule \<le> 4"
    by code_simp
qed simp

text \<open>the canonical state does not depend on the heap's layout: simulators with the same clock,
  counters and tagged pending events have the same canonical state.\<close>

theorem canonical_state_layout_independent:
  assumes "simInv s" and "simInv s'" and "trace s = None" and "trace s' = None" and "sameSchedule s s'"
    and "\<forall>a \<in> set (slots (queue s)). fst (evTag (store (queue s) a)) \<noteq> []
       \<and> validateEventTag (evTag (store (queue s) a)) = None"
  shows "\<exists>c. CanonicalState s = Inr c \<and> CanonicalState s' = Inr c"
proof -
  have "\<forall>a \<in> set (slots (queue s')). fst (evTag (store (queue s') a)) \<noteq> []
       \<and> validateEventTag (evTag (store (queue s') a)) = None"
    using assms(5,6) by (auto simp: sameSchedule_def)
  moreover have "distinct (slots (queue s))" "distinct (slots (queue s'))"
    using assms(1,2) by (auto simp: simInv_def heapInv_def indexed_def)
  then have "sort_key (\<lambda>e. (peAtNS e, peOrder e)) (map (eventState (queue s)) (slots (queue s)))
      = sort_key (\<lambda>e. (peAtNS e, peOrder e)) (map (eventState (queue s')) (slots (queue s')))"
    using assms(5) by (intro canonical_events) (auto simp: sameSchedule_def)
  ultimately show ?thesis
    using CanonicalState_tagged [OF assms(3,6)] CanonicalState_tagged [OF assms(4)] assms(5)
    by (simp add: sameSchedule_def)
qed

definition exTag :: EventTag where
  "exTag = (''election_timer'', [123, 125])"

definition exTagged :: "unit Simulator" where
  "exTagged = fst (ScheduleTagged 5 exTag (Some ()) newSimulator)"

lemma canonical_state_layout_independent_witness:
  "\<exists>c. CanonicalState exTagged = Inr c \<and> CanonicalState exTagged = Inr c"
proof (rule canonical_state_layout_independent)
  have v: "validateEventTag exTag = None"
    by code_simp
  have eq: "exTagged = fst (scheduleAt 5 exTag (Some ()) newSimulator)"
    using v by (simp add: exTagged_def ScheduleTagged_def ScheduleAtTagged_def newSimulator_def MaxInt64_def)
  show "simInv exTagged" "simInv exTagged"
    unfolding eq by (intro scheduleAt_inv newSimulator_inv)+
  show "trace exTagged = None" "trace exTagged = None"
    by code_simp+
  have "slots (queue exTagged) = [1]" "evTag (store (queue exTagged) 1) = exTag"
    by code_simp+
  then show "\<forall>a \<in> set (slots (queue exTagged)). fst (evTag (store (queue exTagged) a)) \<noteq> []
       \<and> validateEventTag (evTag (store (queue exTagged) a)) = None"
    using v by (simp add: exTag_def)
qed (simp add: sameSchedule_def)

text \<open>the pointer heap of \<open>queue.go\<close> is a priority queue: successive pops return events in strictly
  increasing order of (time, identifier).\<close>

theorem queue_pops_increase:
  assumes "heapInv h" and "set (slots h) \<noteq> {}" and "heap_pop h = Some (h1, a)"
    and "set (slots h1) \<noteq> {}" and "heap_pop h1 = Some (h2, b)"
  shows "keyAt h a < keyAt h b"
  using assms by (rule hq.pops_increase)

definition exPop1 :: "unit eventHeap \<times> EventID" where "exPop1 = the (heap_pop (queue exSchedule))"
definition exPop2 :: "unit eventHeap \<times> EventID" where "exPop2 = the (heap_pop (fst exPop1))"

lemma queue_pops_increase_witness: "keyAt (queue exSchedule) 3 < keyAt (queue exSchedule) 1"
proof (rule queue_pops_increase)
  show "heapInv (queue exSchedule)"
    using exSchedule_inv by (simp add: simInv_def)
  show "set (slots (queue exSchedule)) \<noteq> {}"
    by (simp add: exSchedule_slots)
  have 1: "slots (queue exSchedule) \<noteq> []"
    by (simp add: exSchedule_slots)
  have s1: "snd exPop1 = 3" "snd exPop2 = 1" "slots (fst exPop1) = [1, 2]"
    by code_simp+
  show "heap_pop (queue exSchedule) = Some (fst exPop1, 3)"
    using s1 1 by (auto simp: exPop1_def heap_pop_def heap_remove_def Let_def)
  show "set (slots (fst exPop1)) \<noteq> {}"
    using s1 by simp
  show "heap_pop (fst exPop1) = Some (fst exPop2, 1)"
    using s1 by (auto simp: exPop2_def heap_pop_def heap_remove_def Let_def)
qed

end
