(* ===== verification/SimRand.thy ===== *)
theory SimRand
  imports Complex_Main Prelude
begin

text \<open>
  The random streams of \<open>src/rand.go\<close>: SplitMix64 on 64-bit words, bounded draws by multiplication with
  rejection, durations, probabilities and derived streams. A \<open>float64\<close> drawn here is a multiple of
  \<open>2^-53\<close> and is modelled by that rational; a probability given by the caller is a rational or NaN.
  The trace records the drawn value itself instead of its decimal or hexadecimal rendering.
\<close>

unbundle bit_operations_syntax

text \<open>A \<open>float64\<close>: a finite value, an infinity (with its sign) or NaN.\<close>

datatype gofloat = Finite rat | Infinite bool | NaN

datatype rand_value = VUint u64 | VInt int | VFloat rat | VBool bool | VStr string

record rand_draw =
  rdStream :: string
  rdOperation :: string
  rdArguments :: "rand_value list"
  rdResult :: rand_value

text \<open>
  \<open>rtrace\<close> is \<open>None\<close> when the stream has no sink; otherwise it holds the events this stream has sent to
  its sink, in order. A sink that several streams share sees an interleaving of their events.
\<close>

record Rand =
  rstate :: u64
  rtrace :: "rand_draw list option"
  stream :: string
  splitCount :: u64

record RandState =
  rsState :: u64
  rsSplitCount :: u64

definition NewRand :: "u64 \<Rightarrow> Rand" where
  "NewRand seed = \<lparr>rstate = seed, rtrace = None, stream = ''default'', splitCount = 0\<rparr>"

definition SetTraceSink :: "bool \<Rightarrow> string \<Rightarrow> Rand \<Rightarrow> Rand" where
  "SetTraceSink sink label r =
     r\<lparr>rtrace := (if sink then Some [] else None), stream := (if label = [] then ''default'' else label)\<rparr>"

definition RandStateOf :: "Rand option \<Rightarrow> RandState" where
  "RandStateOf r = (case r of None \<Rightarrow> \<lparr>rsState = 0, rsSplitCount = 0\<rparr>
     | Some r \<Rightarrow> \<lparr>rsState = rstate r, rsSplitCount = splitCount r\<rparr>)"

definition recordRandom :: "string \<Rightarrow> rand_value list \<Rightarrow> rand_value \<Rightarrow> Rand \<Rightarrow> Rand" where
  "recordRandom operation arguments result r =
     r\<lparr>rtrace := map_option (\<lambda>ds. ds @ [\<lparr>rdStream = stream r, rdOperation = operation,
        rdArguments = arguments, rdResult = result\<rparr>]) (rtrace r)\<rparr>"

section \<open>SplitMix64\<close>

definition gamma :: u64 where
  "gamma = 0x9e3779b97f4a7c15"

definition mix :: "u64 \<Rightarrow> u64" where
  "mix z0 =
     (let z1 = (z0 XOR drop_bit 30 z0) * 0xbf58476d1ce4e5b9;
          z2 = (z1 XOR drop_bit 27 z1) * 0x94d049bb133111eb
      in z2 XOR drop_bit 31 z2)"

definition nextUint64 :: "Rand \<Rightarrow> Rand \<times> u64" where
  "nextUint64 r = (let s = rstate r + gamma in (r\<lparr>rstate := s\<rparr>, mix s))"

definition Uint64 :: "Rand \<Rightarrow> Rand \<times> u64" where
  "Uint64 r = (let (r1, v) = nextUint64 r in (recordRandom ''uint64'' [] (VUint v) r1, v))"

section \<open>Bounded draws\<close>

text \<open>\<open>bits.Mul64\<close>: the high and low words of the product.\<close>

definition Mul64 :: "u64 \<Rightarrow> u64 \<Rightarrow> u64 \<times> u64" where
  "Mul64 x y = (of_nat (unat x * unat y div 2 ^ 64), x * y)"

partial_function (option) rejectLoop :: "u64 \<Rightarrow> u64 \<Rightarrow> u64 \<times> u64 \<Rightarrow> Rand \<Rightarrow> (Rand \<times> u64) option" where
  "rejectLoop n threshold p r =
     (if snd p < threshold then
        rejectLoop n threshold (Mul64 (snd (nextUint64 r)) n) (fst (nextUint64 r))
      else Some (r, fst p))"

definition uint64N :: "u64 \<Rightarrow> Rand \<Rightarrow> (Rand \<times> u64) option" where
  "uint64N n r =
     (let (r1, x) = nextUint64 r; (hi, lo) = Mul64 x n in
      if lo < n then rejectLoop n ((- n) mod n) (hi, lo) r1
      else Some (r1, hi))"

text \<open>The exported draws; the outer \<open>None\<close> is a panic on a bad argument.\<close>

definition Uint64N :: "u64 \<Rightarrow> Rand \<Rightarrow> (Rand \<times> u64) option" where
  "Uint64N n r =
     (if n = 0 then None
      else map_option (\<lambda>(r1, v). (recordRandom ''uint64n'' [VUint n] (VUint v) r1, v)) (uint64N n r))"

definition IntN :: "int \<Rightarrow> Rand \<Rightarrow> (Rand \<times> int) option" where
  "IntN n r =
     (if n \<le> 0 then None
      else map_option (\<lambda>(r1, v). (recordRandom ''intn'' [VInt n] (VInt (uint v)) r1, uint v))
             (uint64N (of_int n) r))"

definition drawFloat :: "Rand \<Rightarrow> Rand \<times> rat" where
  "drawFloat r = (let (r1, v) = nextUint64 r in (r1, of_int (uint (drop_bit 11 v)) / 2 ^ 53))"

definition Float64 :: "Rand \<Rightarrow> Rand \<times> rat" where
  "Float64 r = (let (r1, v) = drawFloat r in (recordRandom ''float64'' [] (VFloat v) r1, v))"

definition Chance :: "gofloat \<Rightarrow> Rand \<Rightarrow> (Rand \<times> bool) option" where
  "Chance p r =
     (case p of
        NaN \<Rightarrow> None
      | Infinite _ \<Rightarrow> None
      | Finite q \<Rightarrow>
          if q < 0 \<or> q > 1 then None
          else if q = 0 then Some (recordRandom ''chance'' [VFloat 0] (VBool False) r, False)
          else if q = 1 then Some (recordRandom ''chance'' [VFloat 1] (VBool True) r, True)
          else (let (r1, v) = drawFloat r; b = (v < q)
                in Some (recordRandom ''chance'' [VFloat q] (VBool b) r1, b)))"

definition Duration :: "int \<Rightarrow> int \<Rightarrow> Rand \<Rightarrow> (Rand \<times> int) option" where
  "Duration lo hi r =
     (if lo < 0 \<or> hi < lo then None
      else if lo = hi then Some (recordRandom ''duration'' [VInt lo, VInt hi] (VInt lo) r, lo)
      else map_option (\<lambda>(r1, v). (recordRandom ''duration'' [VInt lo, VInt hi] (VInt (lo + uint v)) r1, lo + uint v))
             (uint64N (of_int (hi - lo) + 1) r))"

text \<open>The label of a child stream appends the split number; \<open>showN\<close> is its decimal rendering.\<close>

fun showNat :: "nat \<Rightarrow> string" where
  "showNat n = (if n < 10 then [char_of (48 + n)] else showNat (n div 10) @ [char_of (48 + n mod 10)])"

declare showNat.simps [simp del]

definition Split :: "Rand \<Rightarrow> Rand \<times> Rand" where
  "Split r =
     (let (r1, seed) = nextUint64 r;
          r2 = r1\<lparr>splitCount := splitCount r1 + 1\<rparr>;
          childStream = stream r2 @ ''/'' @ showNat (unat (splitCount r2));
          r3 = recordRandom ''split'' [VStr childStream] (VUint seed) r2;
          child = NewRand seed
      in (r3, if rtrace r \<noteq> None then SetTraceSink True childStream child
              else child\<lparr>stream := childStream\<rparr>))"

section \<open>The stream visits every state\<close>

lemma gamma_inverse: "gamma * 0xf1de83e19937733d = 1"
  by (simp add: gamma_def)

lemma mix_hits_max: "mix 0xcf9a04affa6badc0 = MaxUint64"
  by code_simp

lemma stream_reaches: "\<exists>k. s = r + of_nat (Suc k) * gamma"
proof -
  let ?w = "(s - r) * 0xf1de83e19937733d :: u64"
  have "of_nat (unat ?w + 2 ^ 64) = ?w"
    by simp
  then have "r + of_nat (unat ?w + 2 ^ 64) * gamma = r + (s - r) * (gamma * 0xf1de83e19937733d)"
    by (simp only: mult_ac)
  also have "\<dots> = s"
    by (simp add: gamma_inverse)
  finally have "r + of_nat (unat ?w + 2 ^ 64) * gamma = s" .
  moreover have "Suc (unat ?w + 2 ^ 64 - 1) = unat ?w + 2 ^ 64"
    by simp
  ultimately have "s = r + of_nat (Suc (unat ?w + 2 ^ 64 - 1)) * gamma"
    by (simp only:)
  then show ?thesis by blast
qed

section \<open>Acceptance\<close>

definition accepted :: "u64 \<Rightarrow> u64 \<Rightarrow> bool" where
  "accepted n x \<longleftrightarrow> \<not> x * n < (- n) mod n"

lemma MaxUint64_minus_one: "MaxUint64 = - 1"
  by (simp add: MaxUint64_def)

lemma unat_uminus:
  assumes "(n :: u64) \<noteq> 0"
  shows "unat (- n) = 2 ^ 64 - unat n"
proof -
  have "unat (MaxUint64 - n) = unat MaxUint64 - unat n"
    by (rule unat_sub) simp
  moreover have "MaxUint64 - n \<noteq> MaxUint64"
    using assms by simp
  then have "unat (MaxUint64 - n + 1) = Suc (unat (MaxUint64 - n))"
    by (rule unat_plus_one)
  moreover have "- n = MaxUint64 - n + 1"
    by (simp add: MaxUint64_minus_one)
  ultimately have "unat (- n) = Suc (unat MaxUint64 - unat n)"
    by (simp only:)
  then show ?thesis
    using unat_u64_less [of n] by simp
qed

lemma unat_threshold:
  assumes "(n :: u64) \<noteq> 0"
  shows "unat ((- n) mod n) = 2 ^ 64 mod unat n"
proof -
  have "unat n \<le> 2 ^ 64"
    using unat_u64_less [of n] by simp
  then have "(2 ^ 64 - unat n) mod unat n = 2 ^ 64 mod unat n"
    by (rule le_mod_geq [symmetric])
  then show ?thesis
    by (simp only: unat_mod unat_uminus [OF assms])
qed

lemma accepted_max: "accepted n MaxUint64"
proof -
  have "MaxUint64 * n = - n"
    by (simp add: MaxUint64_minus_one)
  moreover have "unat ((- n) mod n) \<le> unat (- n)"
    by (simp add: unat_mod)
  ultimately show ?thesis
    by (simp add: accepted_def word_le_nat_alt not_less)
qed

lemma accepted_no_threshold: "n \<noteq> 0 \<Longrightarrow> \<not> x * n < n \<Longrightarrow> accepted n x"
  unfolding accepted_def by (metis less_trans word_mod_less_divisor word_neq_0_conv)

lemma unat_of_nat_u64:
  assumes "k < 2 ^ 64"
  shows "unat (of_nat k :: u64) = k"
  using assms by (simp add: unsigned_of_nat take_bit_nat_eq_self)

lemma Mul64_low: "snd (Mul64 x n) = x * n"
  by (simp add: Mul64_def)

lemma Mul64_eta: "(fst (Mul64 x n), x * n) = Mul64 x n"
  by (simp add: Mul64_def)

lemma Mul64_high:
  assumes "n \<noteq> 0"
  shows "unat (fst (Mul64 x n)) = unat x * unat n div 2 ^ 64"
    and "fst (Mul64 x n) < n"
proof -
  have "unat x * unat n < 2 ^ 64 * unat n"
    using assms unat_u64_less [of x] by (simp add: unat_gt_0)
  then have less: "unat x * unat n div 2 ^ 64 < unat n"
    by (simp only: less_mult_imp_div_less mult.commute)
  show *: "unat (fst (Mul64 x n)) = unat x * unat n div 2 ^ 64"
    unfolding Mul64_def fst_conv using less_trans [OF less unat_u64_less] by (rule unat_of_nat_u64)
  then show "fst (Mul64 x n) < n"
    using less by (simp only: word_less_nat_alt)
qed

section \<open>The rejection loop\<close>

lemma rejectLoop_first:
  "accepted n (mix (rstate r + of_nat k * gamma)) \<Longrightarrow>
   \<forall>j<k. \<not> accepted n (mix (rstate r + of_nat j * gamma)) \<Longrightarrow>
   rejectLoop n ((- n) mod n) (Mul64 (mix (rstate r)) n) r =
     Some (r\<lparr>rstate := rstate r + of_nat k * gamma\<rparr>, fst (Mul64 (mix (rstate r + of_nat k * gamma)) n))"
proof (induction k arbitrary: r)
  case 0
  then show ?case
    by (subst rejectLoop.simps) (simp add: accepted_def Mul64_low)
next
  case (Suc k)
  let ?r = "r\<lparr>rstate := rstate r + gamma\<rparr>"
  have shift: "rstate ?r + of_nat j * gamma = rstate r + of_nat (Suc j) * gamma" for j
    by (simp add: algebra_simps)
  have "\<not> accepted n (mix (rstate r))"
    using Suc.prems(2) by (auto dest: spec [of _ 0])
  then have step: "rejectLoop n ((- n) mod n) (Mul64 (mix (rstate r)) n) r =
      rejectLoop n ((- n) mod n) (Mul64 (mix (rstate ?r)) n) ?r"
    by (subst rejectLoop.simps) (simp add: accepted_def Mul64_low nextUint64_def Let_def)
  have "\<forall>j<k. \<not> accepted n (mix (rstate ?r + of_nat j * gamma))"
    unfolding shift using Suc.prems(2) by auto
  moreover have "accepted n (mix (rstate ?r + of_nat k * gamma))"
    unfolding shift by (rule Suc.prems(1))
  ultimately show ?case
    unfolding step using Suc.IH [of ?r] unfolding shift by simp
qed

lemma uint64N_first:
  assumes "n \<noteq> 0"
    and "accepted n (mix (rstate r + of_nat (Suc k) * gamma))"
    and "\<forall>j<k. \<not> accepted n (mix (rstate r + of_nat (Suc j) * gamma))"
  shows "uint64N n r = Some (r\<lparr>rstate := rstate r + of_nat (Suc k) * gamma\<rparr>,
    fst (Mul64 (mix (rstate r + of_nat (Suc k) * gamma)) n))"
proof -
  let ?r = "r\<lparr>rstate := rstate r + gamma\<rparr>"
  have shift: "rstate ?r + of_nat j * gamma = rstate r + of_nat (Suc j) * gamma" for j
    by (simp add: algebra_simps)
  have loop: "rejectLoop n ((- n) mod n) (Mul64 (mix (rstate ?r)) n) ?r =
     Some (?r\<lparr>rstate := rstate ?r + of_nat k * gamma\<rparr>, fst (Mul64 (mix (rstate ?r + of_nat k * gamma)) n))"
    using assms(2,3) by (intro rejectLoop_first) (simp_all only: shift)
  show ?thesis
  proof (cases "mix (rstate r + gamma) * n < n")
    case True
    then show ?thesis
      using loop unfolding shift
      by (simp add: uint64N_def nextUint64_def Let_def split_beta Mul64_low Mul64_eta)
  next
    case False
    then have acc: "accepted n (mix (rstate r + of_nat (Suc 0) * gamma))"
      using assms(1) by (simp add: accepted_no_threshold)
    have "k = 0"
    proof (rule ccontr)
      assume "k \<noteq> 0"
      then have "\<not> accepted n (mix (rstate r + of_nat (Suc 0) * gamma))"
        using assms(3) by blast
      then show False
        using acc by blast
    qed
    then show ?thesis
      using False by (simp add: uint64N_def nextUint64_def Let_def split_beta Mul64_low)
  qed
qed

lemma some_draw_accepted: "\<exists>k. accepted n (mix (s + of_nat (Suc k) * gamma))"
proof -
  obtain k where "0xcf9a04affa6badc0 = s + of_nat (Suc k) * gamma"
    using stream_reaches by blast
  then have "mix (s + of_nat (Suc k) * gamma) = MaxUint64"
    using mix_hits_max by simp
  then show ?thesis
    using accepted_max by metis
qed

lemma first_accepted:
  assumes "n \<noteq> 0"
  shows "\<exists>k v. uint64N n r = Some (r\<lparr>rstate := rstate r + of_nat (Suc k) * gamma\<rparr>, v) \<and> v < n \<and>
    v = fst (Mul64 (mix (rstate r + of_nat (Suc k) * gamma)) n) \<and>
    accepted n (mix (rstate r + of_nat (Suc k) * gamma)) \<and>
    (\<forall>j<k. \<not> accepted n (mix (rstate r + of_nat (Suc j) * gamma)))"
proof -
  define k where "k = (LEAST k. accepted n (mix (rstate r + of_nat (Suc k) * gamma)))"
  have acc: "accepted n (mix (rstate r + of_nat (Suc k) * gamma))"
    unfolding k_def using some_draw_accepted by (rule LeastI_ex)
  have least: "\<forall>j<k. \<not> accepted n (mix (rstate r + of_nat (Suc j) * gamma))"
    unfolding k_def using not_less_Least by blast
  show ?thesis
    using uint64N_first [OF assms acc least] Mul64_high(2) [OF assms] acc least by blast
qed

section \<open>Multiples in an interval\<close>

lemma ceil_div_le_iff:
  fixes a x n :: nat
  assumes "0 < n"
  shows "(a + n - 1) div n \<le> x \<longleftrightarrow> a \<le> x * n"
proof -
  have "(a + n - 1) div n \<le> x \<longleftrightarrow> (a + n - 1) div n < Suc x"
    by (simp only: less_Suc_eq_le)
  also have "\<dots> \<longleftrightarrow> a + n - 1 < Suc x * n"
    using assms by (rule div_less_iff_less_mult)
  also have "\<dots> \<longleftrightarrow> a \<le> x * n"
    using assms by auto
  finally show ?thesis .
qed

lemma multiples_in_interval:
  fixes a q n :: nat
  assumes "0 < n"
  shows "card {x. a \<le> x * n \<and> x * n < a + q * n} = q"
proof -
  define c where "c = (a + n - 1) div n"
  have low: "a \<le> x * n \<longleftrightarrow> c \<le> x" for x
    unfolding c_def by (rule ceil_div_le_iff [OF assms, symmetric])
  have "a + q * n + n - 1 = a + n - 1 + q * n"
    using assms by simp
  then have "(a + q * n + n - 1) div n = q + c"
    unfolding c_def using assms by (simp only: div_mult_self1 less_not_refl2 not_False_eq_True)
  then have high: "x * n < a + q * n \<longleftrightarrow> x < q + c" for x
    using ceil_div_le_iff [OF assms, of "a + q * n" x] by (simp only: not_le [symmetric] not_less)
  have "{x. a \<le> x * n \<and> x * n < a + q * n} = {c..<q + c}"
    unfolding low high by auto
  then show ?thesis by simp
qed

lemma accepted_interval:
  assumes "n \<noteq> 0"
  shows "accepted n x \<and> fst (Mul64 x n) = v \<longleftrightarrow>
    unat v * 2 ^ 64 + 2 ^ 64 mod unat n \<le> unat x * unat n \<and> unat x * unat n < unat v * 2 ^ 64 + 2 ^ 64"
proof -
  let ?p = "unat x * unat n" and ?t = "2 ^ 64 mod unat n"
  have "fst (Mul64 x n) = v \<longleftrightarrow> ?p div 2 ^ 64 = unat v"
    using Mul64_high(1) [OF assms] by (metis word_unat_eq_iff)
  moreover have "accepted n x \<longleftrightarrow> ?t \<le> ?p mod 2 ^ 64"
    unfolding accepted_def word_less_nat_alt unat_threshold [OF assms] not_less
    by (simp add: unat_word_ariths)
  moreover have "?t \<le> ?p mod 2 ^ 64 \<and> ?p div 2 ^ 64 = unat v \<longleftrightarrow>
      unat v * 2 ^ 64 + ?t \<le> ?p \<and> ?p < unat v * 2 ^ 64 + 2 ^ 64" (is "?l \<longleftrightarrow> ?r")
  proof
    assume l: ?l
    have "?p = unat v * 2 ^ 64 + ?p mod 2 ^ 64"
      using l div_mult_mod_eq [of ?p "2 ^ 64"] by simp
    moreover have "?p mod 2 ^ 64 < 2 ^ 64"
      by simp
    ultimately show ?r
      using l by linarith
  next
    assume r: ?r
    then have d: "?p div 2 ^ 64 = unat v"
      by (intro div_nat_eqI) simp_all
    moreover have "?p = unat v * 2 ^ 64 + ?p mod 2 ^ 64"
      using d div_mult_mod_eq [of ?p "2 ^ 64"] by simp
    ultimately show ?l
      using r by linarith
  qed
  ultimately show ?thesis by blast
qed

section \<open>The output function is a bijection\<close>

lemma xorshift_inj:
  assumes "0 < k"
  shows "inj (\<lambda>z :: u64. z XOR drop_bit k z)"
proof (rule injI)
  fix x y :: u64
  assume "x XOR drop_bit k x = y XOR drop_bit k y"
  then have "(x XOR drop_bit k x) XOR (y XOR drop_bit k x) = (y XOR drop_bit k y) XOR (y XOR drop_bit k x)"
    by simp
  then have "x XOR y = drop_bit k (x XOR y)"
    by (simp add: bit_eq_iff bit_simps) blast
  then have "unat (x XOR y) = unat (drop_bit k (x XOR y))"
    by (rule arg_cong)
  also have "\<dots> = unat (x XOR y) div 2 ^ k"
    unfolding unat_drop_bit_eq by (rule drop_bit_eq_div)
  finally have "unat (x XOR y) = 0"
    using assms by (metis div_less_dividend less_irrefl not_gr0 one_less_power one_less_numeral_iff semiring_norm(76))
  then show "x = y"
    by (simp add: bit_eq_iff bit_simps unat_eq_zero)
qed

lemma mult_inj: "a * b = 1 \<Longrightarrow> inj (\<lambda>z :: u64. z * a)"
proof (rule injI)
  fix x y :: u64
  assume ab: "a * b = 1" and "x * a = y * a"
  then have "x * a * b = y * a * b"
    by (simp only:)
  then show "x = y"
    by (simp only: mult.assoc ab mult.right_neutral)
qed

lemma mix_inj: "inj mix"
proof -
  have 1: "inj (\<lambda>z :: u64. z * 0xbf58476d1ce4e5b9)"
    by (rule mult_inj [where b = "0x96de1b173f119089"]) simp
  have 2: "inj (\<lambda>z :: u64. z * 0x94d049bb133111eb)"
    by (rule mult_inj [where b = "0x319642b2d24d8ec3"]) simp
  have comp: "inj ((\<lambda>z. z XOR drop_bit 31 z) \<circ> (\<lambda>z. z * 0x94d049bb133111eb) \<circ> (\<lambda>z. z XOR drop_bit 27 z)
      \<circ> (\<lambda>z. z * 0xbf58476d1ce4e5b9) \<circ> (\<lambda>z :: u64. z XOR drop_bit 30 z))"
    by (intro inj_compose xorshift_inj 1 2) simp_all
  have eq: "mix = (\<lambda>z. z XOR drop_bit 31 z) \<circ> (\<lambda>z. z * 0x94d049bb133111eb) \<circ> (\<lambda>z. z XOR drop_bit 27 z)
      \<circ> (\<lambda>z. z * 0xbf58476d1ce4e5b9) \<circ> (\<lambda>z. z XOR drop_bit 30 z)"
    by (simp add: fun_eq_iff mix_def Let_def)
  show ?thesis
    unfolding eq by (rule comp)
qed

lemma bij_mix: "bij mix"
  using mix_inj by (simp add: bij_betw_def finite_UNIV_inj_surj)

lemma bij_betw_shift:
  assumes "bij f"
  shows "bij_betw (\<lambda>s :: u64. f (s + c)) {s. f (s + c) \<in> A} A"
proof (rule bij_betw_imageI)
  show "inj_on (\<lambda>s. f (s + c)) {s. f (s + c) \<in> A}"
    using bij_is_inj [OF assms] by (auto intro!: inj_onI dest!: injD)
  have "\<exists>s. x = f (s + c)" for x
  proof -
    obtain y where "x = f y"
      using assms by (metis bij_pointE)
    then show ?thesis
      by (intro exI [of _ "y - c"]) simp
  qed
  then show "(\<lambda>s. f (s + c)) ` {s. f (s + c) \<in> A} = A"
    by (fastforce simp: image_iff)
qed

lemma uint64N_one_draw:
  assumes "n \<noteq> 0"
  shows "(\<exists>r'. uint64N n (r\<lparr>rstate := s\<rparr>) = Some (r', v) \<and> rstate r' = s + gamma) \<longleftrightarrow>
    accepted n (mix (s + gamma)) \<and> fst (Mul64 (mix (s + gamma)) n) = v" (is "?l \<longleftrightarrow> ?r")
proof
  assume ?r
  then show ?l
    using uint64N_first [of n "r\<lparr>rstate := s\<rparr>" 0] assms by simp
next
  assume ?l
  then obtain r' where r': "uint64N n (r\<lparr>rstate := s\<rparr>) = Some (r', v)" "rstate r' = s + gamma"
    by blast
  obtain k where acc: "accepted n (mix (s + of_nat (Suc k) * gamma))"
    and res: "r' = r\<lparr>rstate := s + of_nat (Suc k) * gamma\<rparr>"
      "v = fst (Mul64 (mix (s + of_nat (Suc k) * gamma)) n)"
    using first_accepted [OF assms, of "r\<lparr>rstate := s\<rparr>"] r'(1) by auto
  have "of_nat (Suc k) * gamma = gamma"
    using res(1) r'(2) by simp
  then show ?r
    using acc res(2) by (simp only:)
qed

section \<open>Properties\<close>

text \<open>
  A bounded draw always returns: for every positive bound and every generator state the rejection loop
  stops, the result is the high word of the first accepted output of the stream, the state is the one after
  that output, and the result is below the bound.
\<close>

theorem uint64N_total:
  assumes "n \<noteq> 0"
  shows "\<exists>k v. uint64N n r = Some (r\<lparr>rstate := rstate r + of_nat (Suc k) * gamma\<rparr>, v) \<and> v < n \<and>
    v = fst (Mul64 (mix (rstate r + of_nat (Suc k) * gamma)) n) \<and>
    accepted n (mix (rstate r + of_nat (Suc k) * gamma)) \<and>
    (\<forall>j<k. \<not> accepted n (mix (rstate r + of_nat (Suc j) * gamma)))"
  using assms by (rule first_accepted)

theorem uint64N_total_witness:
  "(3 :: u64) \<noteq> 0 \<and> (\<exists>k v. uint64N 3 (NewRand 7) =
     Some ((NewRand 7)\<lparr>rstate := rstate (NewRand 7) + of_nat (Suc k) * gamma\<rparr>, v) \<and> v < 3)"
  using uint64N_total [of 3 "NewRand 7"] by fastforce

text \<open>
  C18. A bounded draw has no modulo bias: over all \<open>2^64\<close> generator states, every value below the bound
  is the result of a draw that needs one output in exactly \<open>2^64 div n\<close> of them, the same number for
  every value.
\<close>

theorem uint64N_unbiased:
  assumes "v < n"
  shows "card {s. \<exists>r'. uint64N n (r\<lparr>rstate := s\<rparr>) = Some (r', v) \<and> rstate r' = s + gamma} = 2 ^ 64 div unat n"
proof -
  have n: "n \<noteq> 0" "0 < unat n"
    using assms by (auto simp: unat_gt_0)
  let ?A = "{x. accepted n x \<and> fst (Mul64 x n) = v}"
  let ?B = "{x. unat v * 2 ^ 64 + 2 ^ 64 mod unat n \<le> x * unat n \<and>
     x * unat n < unat v * 2 ^ 64 + 2 ^ 64 mod unat n + 2 ^ 64 div unat n * unat n}"
  have len: "unat v * 2 ^ 64 + 2 ^ 64 mod unat n + 2 ^ 64 div unat n * unat n = unat v * 2 ^ 64 + 2 ^ 64"
    by (simp only: add.assoc mod_div_mult_eq)
  have top: "x < 2 ^ 64" if "x \<in> ?B" for x
  proof -
    have "x * unat n < (unat v + 1) * 2 ^ 64"
      using that unfolding len by simp
    also have "\<dots> \<le> unat n * 2 ^ 64"
      using assms by (intro mult_right_mono) (simp_all add: word_less_nat_alt)
    finally show ?thesis
      by (simp only: mult.commute [of x] nat_mult_less_cancel1 n)
  qed
  have "unat ` ?A = ?B"
  proof (intro set_eqI iffI)
    fix x assume "x \<in> unat ` ?A"
    then show "x \<in> ?B"
      unfolding len accepted_interval [OF n(1)] by blast
  next
    fix x assume x: "x \<in> ?B"
    then have "unat (of_nat x :: u64) = x"
      by (intro unat_of_nat_u64 top)
    then show "x \<in> unat ` ?A"
      using x unfolding len accepted_interval [OF n(1)] by (metis (no_types, lifting) imageI mem_Collect_eq)
  qed
  moreover have "card (unat ` ?A) = card ?A"
    by (rule card_image) (simp add: inj_on_def word_unat_eq_iff)
  ultimately have "card ?A = card ?B"
    by (simp only:)
  moreover have "bij_betw (\<lambda>s. mix (s + gamma)) {s. mix (s + gamma) \<in> ?A} ?A"
    using bij_mix by (rule bij_betw_shift)
  then have "card {s. mix (s + gamma) \<in> ?A} = card ?A"
    by (rule bij_betw_same_card)
  ultimately have "card {s. accepted n (mix (s + gamma)) \<and> fst (Mul64 (mix (s + gamma)) n) = v} = card ?B"
    by simp
  then show ?thesis
    unfolding uint64N_one_draw [OF n(1)] multiples_in_interval [OF n(2)] .
qed

theorem uint64N_unbiased_witness:
  "(4 :: u64) < 6 \<and>
   card {s. \<exists>r'. uint64N 6 ((NewRand 7)\<lparr>rstate := s\<rparr>) = Some (r', 4) \<and> rstate r' = s + gamma} = 2 ^ 64 div unat (6 :: u64)"
  using uint64N_unbiased [of 4 6 "NewRand 7"] by simp

lemma Duration_range:
  assumes "lo \<le> MaxInt64" and "hi \<le> MaxInt64"
  shows "if lo < 0 \<or> hi < lo then Duration lo hi r = None
    else \<exists>r' d. Duration lo hi r = Some (r', d) \<and> lo \<le> d \<and> d \<le> hi"
proof (cases "lo < 0 \<or> hi < lo \<or> lo = hi")
  case True
  then show ?thesis by (auto simp: Duration_def)
next
  case False
  let ?n = "of_int (hi - lo) + 1 :: u64"
  have bound: "0 < hi - lo + 1" "hi - lo + 1 < 2 ^ 64"
    using False assms by (auto simp: MaxInt64_def)
  have n: "uint ?n = hi - lo + 1"
  proof -
    have "?n = of_int (hi - lo + 1)"
      by simp
    moreover have "uint (of_int (hi - lo + 1) :: u64) = hi - lo + 1"
      using bound by (subst unsigned_of_int) (simp add: take_bit_int_eq_self)
    ultimately show ?thesis by (simp only:)
  qed
  then have "?n \<noteq> 0"
    using bound by (metis less_irrefl uint_0_eq)
  then obtain k v where "uint64N ?n r = Some (r\<lparr>rstate := rstate r + of_nat (Suc k) * gamma\<rparr>, v)" "v < ?n"
    using first_accepted [of ?n r] by blast
  moreover have "0 \<le> uint v" "uint v < hi - lo + 1"
    using \<open>v < ?n\<close> n by (simp_all add: word_less_def)
  ultimately show ?thesis
    using False by (auto simp: Duration_def)
qed

text \<open>
  A random duration panics exactly on an empty or negative range; otherwise the draw returns a duration
  inside the inclusive range, for all bounds that a \<open>time.Duration\<close> can hold, and the addition of the
  offset does not overflow.
\<close>

theorem Duration_in_range:
  assumes "lo \<le> MaxInt64" and "hi \<le> MaxInt64"
  shows "if lo < 0 \<or> hi < lo then Duration lo hi r = None
    else \<exists>r' d. Duration lo hi r = Some (r', d) \<and> lo \<le> d \<and> d \<le> hi"
  using assms by (rule Duration_range)

theorem Duration_in_range_witness:
  "(3 :: int) \<le> MaxInt64 \<and> (9 :: int) \<le> MaxInt64 \<and>
   (\<exists>r' d. Duration 3 9 (NewRand 1) = Some (r', d) \<and> 3 \<le> d \<and> d \<le> 9)"
  using Duration_in_range [of 3 9 "NewRand 1"] by (simp add: MaxInt64_def)

end
