(* ===== verification/Encoding.thy ===== *)
theory Encoding
  imports Prelude
begin

text \<open>
  Byte encodings of the Go standard library that several packages use: ASCII literals, big-endian integers
  of \<open>encoding/binary\<close>, and \<open>encoding/hex\<close>, with their inverses.
\<close>

abbreviation ascii :: "string \<Rightarrow> bytes" where
  "ascii s \<equiv> map of_char s"

section \<open>Fixed-width integers and hexadecimal\<close>

definition be32 :: "nat \<Rightarrow> bytes" where
  "be32 n = [of_nat (n div 2 ^ 24), of_nat (n div 2 ^ 16), of_nat (n div 2 ^ 8), of_nat n]"

definition be64 :: "nat \<Rightarrow> bytes" where
  "be64 n = be32 (n div 2 ^ 32) @ be32 n"

fun beNat :: "nat \<Rightarrow> bytes \<Rightarrow> nat" where
  "beNat acc [] = acc"
| "beNat acc (b # bs) = beNat (acc * 256 + unat b) bs"

definition hexDigit :: "nat \<Rightarrow> char" where
  "hexDigit n = ''0123456789abcdef'' ! n"

fun EncodeToString :: "bytes \<Rightarrow> string" where
  "EncodeToString [] = []"
| "EncodeToString (b # bs) = hexDigit (unat b div 16) # hexDigit (unat b mod 16) # EncodeToString bs"

definition fromHexChar :: "char \<Rightarrow> nat option" where
  "fromHexChar c =
     (let n = of_char c in
      if 48 \<le> n \<and> n \<le> 57 then Some (n - 48)
      else if 97 \<le> n \<and> n \<le> 102 then Some (n - 97 + 10)
      else if 65 \<le> n \<and> n \<le> 70 then Some (n - 65 + 10)
      else None)"

fun DecodeString :: "string \<Rightarrow> bytes option" where
  "DecodeString [] = Some []"
| "DecodeString [c] = None"
| "DecodeString (c # d # cs) =
     (case (fromHexChar c, fromHexChar d, DecodeString cs) of
        (Some hi, Some lo, Some bs) \<Rightarrow> Some (of_nat (hi * 16 + lo) # bs)
      | _ \<Rightarrow> None)"

section \<open>Fixed-width encodings\<close>

lemma length_be32 [simp]: "length (be32 n) = 4"
  by (simp add: be32_def)

lemma length_be64 [simp]: "length (be64 n) = 8"
  by (simp add: be64_def)

lemma unat_byte: "unat (of_nat n :: byte) = n mod 256"
  by (simp add: unsigned_of_nat take_bit_eq_mod)

lemma beNat_be32:
  assumes "n < 2 ^ 32"
  shows "beNat 0 (be32 n) = n"
proof -
  have a: "(n div 16777216 * 256 + n div 65536 mod 256) = n div 65536"
    using div_mult_mod_eq [of "n div 65536" 256] by (simp add: div_mult2_eq [symmetric])
  have b: "n div 65536 * 256 + n div 256 mod 256 = n div 256"
    using div_mult_mod_eq [of "n div 256" 256] by (simp add: div_mult2_eq [symmetric])
  have c: "n div 256 * 256 + n mod 256 = n"
    by (rule div_mult_mod_eq)
  have "n div 16777216 < 256"
    using assms by (simp add: div_less_iff_less_mult)
  then show ?thesis
    using a b c by (simp add: be32_def unat_byte)
qed

lemma unat_byte_less: "unat (b :: byte) < 256"
  using unsigned_less [of b, where 'a = nat] by simp

lemma base256:
  fixes d :: byte
  shows "(x * 256 + unat d) mod 256 = unat d" and "(x * 256 + unat d) div 256 = x"
  using unat_byte_less [of d] by simp_all

lemma of_nat_unat_mod:
  fixes b :: byte
  assumes "n mod 256 = unat b"
  shows "of_nat n = b"
  using assms by (simp add: word_unat_eq_iff unat_byte)

lemma be32_beNat:
  assumes "length bs = 4"
  shows "be32 (beNat 0 bs) = bs" and "beNat 0 bs < 2 ^ 32"
proof -
  obtain a b c d where bs: "bs = [a, b, c, d]"
    using assms by (auto simp: numeral_eq_Suc length_Suc_conv)
  define n3 where "n3 = unat a * 256 + unat b"
  define n2 where "n2 = n3 * 256 + unat c"
  define n where "n = n2 * 256 + unat d"
  have n: "beNat 0 bs = n"
    by (simp add: bs n_def n2_def n3_def)
  show "beNat 0 bs < 2 ^ 32"
    unfolding n n_def n2_def n3_def
    using unat_byte_less [of a] unat_byte_less [of b] unat_byte_less [of c] unat_byte_less [of d]
    by simp
  have d8: "n div 256 = n2" and d16: "n2 div 256 = n3" and d24: "n3 div 256 = unat a"
    unfolding n_def n2_def n3_def by (rule base256)+
  have "n div (256 * 256) = n3" "n div (256 * 256 * 256) = unat a"
    by (simp_all only: div_mult2_eq d8 d16 d24)
  then have "n div 65536 = n3" "n div 16777216 = unat a"
    by simp_all
  moreover have "of_nat n = d" "of_nat n2 = c" "of_nat n3 = b"
    unfolding n_def n2_def n3_def by (rule of_nat_unat_mod, rule base256)+
  ultimately show "be32 (beNat 0 bs) = bs"
    unfolding n by (simp add: be32_def bs d8)
qed

lemma take_drop_segment: "take n (drop i xs) @ drop (i + n) xs = drop i xs"
  by (metis add.commute append_take_drop_id drop_drop)

section \<open>Hexadecimal digests\<close>

lemma fromHexChar_hexDigit:
  assumes "n < 16"
  shows "fromHexChar (hexDigit n) = Some n"
proof -
  have "\<forall>n<16. fromHexChar (hexDigit n) = Some n"
    by code_simp
  then show ?thesis
    using assms by blast
qed

lemma DecodeString_EncodeToString [simp]: "DecodeString (EncodeToString bs) = Some bs"
proof (induction bs)
  case (Cons b bs)
  have "unat b div 16 < 16" "unat b mod 16 < 16"
    using unat_byte_less [of b] by auto
  moreover have "of_nat (unat b div 16 * 16 + unat b mod 16) = b"
    by (simp only: div_mult_mod_eq) simp
  ultimately show ?case
    using Cons by (simp add: fromHexChar_hexDigit)
qed simp

lemma EncodeToString_inject [simp]: "EncodeToString a = EncodeToString b \<longleftrightarrow> a = b"
  by (metis DecodeString_EncodeToString option.inject)

lemma length_EncodeToString [simp]: "length (EncodeToString bs) = 2 * length bs"
  by (induction bs) simp_all

end
