(* ===== verification/AppOracle.thy ===== *)
theory AppOracle
  imports RaftData Encoding
begin

text \<open>
  The portable key/value oracle of \<open>src/apporacle/apporacle.go\<close>: the binary command format, the state
  machine with its hash chain, checkpoints and their verification, and the projection of applied Raft
  entries. \<open>crypto/sha256\<close> is the argument \<open>sha\<close> of the definitions that hash; the theorems need at most
  that its results have 32 bytes. A Go map is an association list with distinct keys; a slice that the code
  compares with \<open>nil\<close> is an \<open>option\<close>. A \<^emph>\<open>machine\<close> receiver is \<open>None\<close> for a nil pointer or the unusable
  zero value, the two cases the code rejects.
\<close>

section \<open>Limits, errors and schemas\<close>

definition MaxCommandBytes :: nat where "MaxCommandBytes = 1048576"
definition MaxCheckpointBytes :: nat where "MaxCheckpointBytes = 67108864"
definition MaxKeyBytes :: nat where "MaxKeyBytes = 65536"
definition MaxValueBytes :: nat where "MaxValueBytes = MaxCommandBytes - 64"
definition MaxCommands :: nat where "MaxCommands = 50000"
definition MaxHistoryBytes :: int where "MaxHistoryBytes = 12582912"
definition MaxStateBytes :: int where "MaxStateBytes = 8388608"

lemmas oracle_limits = MaxCommandBytes_def MaxCheckpointBytes_def MaxKeyBytes_def MaxValueBytes_def
  MaxCommands_def MaxHistoryBytes_def MaxStateBytes_def

datatype app_error =
    ErrInvalidCommand | ErrInvalidCheckpoint | ErrDuplicateCommand | ErrInvalidEntry | ErrTooLarge

definition CommandSchema :: string where "CommandSchema = ''d-raft.kv-command/v1''"
definition StateSchema :: string where "StateSchema = ''d-raft.kv-state/v1''"
definition ChainSchema :: string where "ChainSchema = ''d-raft.kv-chain/v1''"
definition CheckpointSchema :: string where "CheckpointSchema = ''d-raft.kv-checkpoint/v1''"
definition CommitmentSchema :: string where "CommitmentSchema = ''d-raft.kv-commitment/v1''"

definition commandMagic :: bytes where
  "commandMagic = ascii ''DRAFTKV1''"

definition configValidate :: "string \<Rightarrow> app_error option" where
  "configValidate schema = (if schema \<noteq> CommandSchema then Some ErrInvalidCommand else None)"

definition validDigest :: "string \<Rightarrow> bool" where
  "validDigest v \<longleftrightarrow> length v = 64 \<and> map_option EncodeToString (DecodeString v) = Some v"

section \<open>Commands\<close>

type_synonym CommandID = bytes

definition zeroCommandID :: CommandID where
  "zeroCommandID = replicate 16 0"

definition ParseCommandID :: "string \<Rightarrow> app_error + CommandID" where
  "ParseCommandID value =
     (if length value \<noteq> 32 then Inl ErrInvalidCommand
      else (case DecodeString value of
          None \<Rightarrow> Inl ErrInvalidCommand
        | Some decoded \<Rightarrow>
            if EncodeToString decoded \<noteq> value then Inl ErrInvalidCommand
            else if decoded = zeroCommandID then Inl ErrInvalidCommand
            else Inr decoded))"

definition Put :: u8 where [const_defs]: "Put = 1"
definition Delete :: u8 where [const_defs]: "Delete = 2"

text \<open>\<open>type Command struct\<close>; the array \<open>ID\<close> has 16 bytes in every command (\<open>wfCommand\<close>).\<close>

record Command =
  cmdID :: CommandID
  cmdOperation :: u8
  cmdKey :: bytes
  cmdValue :: bytes

definition wfCommand :: "Command \<Rightarrow> bool" where
  "wfCommand c \<longleftrightarrow> length (cmdID c) = 16"

definition validateCommand :: "Command \<Rightarrow> app_error option" where
  "validateCommand c =
     (if cmdID c = zeroCommandID \<or> length (cmdKey c) = 0 \<or> length (cmdKey c) > MaxKeyBytes
         \<or> length (cmdValue c) > MaxValueBytes then Some ErrInvalidCommand
      else if cmdOperation c = Put then None
      else if cmdOperation c = Delete then
        (if length (cmdValue c) \<noteq> 0 then Some ErrInvalidCommand else None)
      else Some ErrInvalidCommand)"

definition EncodeCommand :: "Command \<Rightarrow> app_error + bytes" where
  "EncodeCommand c =
     (case validateCommand c of
        Some e \<Rightarrow> Inl e
      | None \<Rightarrow>
          let size = length commandMagic + 1 + length (cmdID c) + 4 + 4 + length (cmdKey c) + length (cmdValue c) in
          if size > MaxCommandBytes then Inl ErrTooLarge
          else Inr (commandMagic @ [cmdOperation c] @ cmdID c @ be32 (length (cmdKey c))
                 @ be32 (length (cmdValue c)) @ cmdKey c @ cmdValue c))"

definition DecodeCommand :: "bytes \<Rightarrow> app_error + Command" where
  "DecodeCommand data =
     (if length data < 33 then Inl ErrInvalidCommand
      else if length data > MaxCommandBytes then Inl ErrTooLarge
      else if take 8 data \<noteq> commandMagic then Inl ErrInvalidCommand
      else
        let operation = data ! 8;
            ident = take 16 (drop 9 data);
            keyLength = beNat 0 (take 4 (drop 25 data));
            valueLength = beNat 0 (take 4 (drop 29 data));
            body = drop 33 data
        in
        if keyLength > MaxKeyBytes \<or> valueLength > MaxValueBytes \<or> keyLength + valueLength \<noteq> length body
        then Inl ErrInvalidCommand
        else
          let command = \<lparr>cmdID = ident, cmdOperation = operation,
                cmdKey = take keyLength body, cmdValue = drop keyLength body\<rparr>
          in (case validateCommand command of Some e \<Rightarrow> Inl e | None \<Rightarrow> Inr command))"

definition CommandDigest :: "(bytes \<Rightarrow> bytes) \<Rightarrow> Command \<Rightarrow> app_error + string" where
  "CommandDigest sha c = (case EncodeCommand c of Inl e \<Rightarrow> Inl e
     | Inr encoded \<Rightarrow> Inr (EncodeToString (sha encoded)))"

section \<open>The machine\<close>

record Block =
  bOrdinal :: u64
  bCommandID :: string
  bCommand :: "bytes option"
  bCommandDigest :: string
  bStateDigest :: string
  bDigest :: string

record Commitment =
  cmSchema :: string
  cmCommands :: u64
  cmChainDigest :: string
  cmStateDigest :: string

record Pair =
  pKey :: bytes
  pValue :: "bytes option"

record Checkpoint =
  cpSchema :: string
  cpCommands :: u64
  cpChainDigest :: string
  cpStateDigest :: string
  cpState :: "Pair list option"
  cpHistory :: "Block list option"

record Machine =
  kvState :: "(bytes \<times> bytes) list"
  kvSeen :: "(CommandID \<times> string) list"
  kvHistory :: "Block list"
  chainDigest :: bytes
  historyBytes :: int
  stateBytes :: int

definition newMachine :: "(bytes \<Rightarrow> bytes) \<Rightarrow> Machine" where
  "newMachine sha = \<lparr>kvState = [], kvSeen = [], kvHistory = [], chainDigest = sha (ascii ChainSchema @ [0]),
     historyBytes = 0, stateBytes = 0\<rparr>"

definition cloneMachine :: "Machine option \<Rightarrow> app_error + Machine" where
  "cloneMachine m = (case m of None \<Rightarrow> Inl ErrInvalidCheckpoint | Some m \<Rightarrow> Inr m)"

definition sortedPairs :: "(bytes \<times> bytes) list \<Rightarrow> (bytes \<times> bytes) list" where
  "sortedPairs st = sort_key fst st"

definition digestState :: "(bytes \<Rightarrow> bytes) \<Rightarrow> (bytes \<times> bytes) list \<Rightarrow> bytes" where
  "digestState sha st =
     sha (ascii StateSchema @ [0] @ be64 (length st) @
       concat (map (\<lambda>(k, v). be32 (length k) @ k @ be32 (length v) @ v) (sortedPairs st)))"

definition newStateBytes :: "Command \<Rightarrow> Machine \<Rightarrow> int" where
  "newStateBytes c m =
     (case map_of (kvState m) (cmdKey c) of
        Some previous \<Rightarrow>
          if cmdOperation c = Put then stateBytes m - int (length previous) + int (length (cmdValue c))
          else if cmdOperation c = Delete then stateBytes m - (int (length (cmdKey c)) + int (length previous))
          else stateBytes m
      | None \<Rightarrow>
          if cmdOperation c = Put then stateBytes m + int (length (cmdKey c)) + int (length (cmdValue c))
          else stateBytes m)"

definition applyOperation :: "Command \<Rightarrow> (bytes \<times> bytes) list \<Rightarrow> (bytes \<times> bytes) list" where
  "applyOperation c st =
     (if cmdOperation c = Put then AList.update (cmdKey c) (cmdValue c) st
      else if cmdOperation c = Delete then AList.delete (cmdKey c) st
      else st)"

definition chainInput :: "bytes \<Rightarrow> nat \<Rightarrow> bytes \<Rightarrow> bytes \<Rightarrow> bytes" where
  "chainInput previous ordinal canonical stateDigest =
     ascii ChainSchema @ [0] @ previous @ be64 ordinal @ be32 (length canonical) @ canonical @ stateDigest"

definition applyCanonical ::
  "(bytes \<Rightarrow> bytes) \<Rightarrow> Command \<Rightarrow> bytes \<Rightarrow> Machine option \<Rightarrow> Machine option \<times> (app_error + Block)" where
  "applyCanonical sha c canonical mo =
     (case mo of
        None \<Rightarrow> (mo, Inl ErrInvalidCheckpoint)
      | Some m \<Rightarrow>
          if map_of (kvSeen m) (cmdID c) \<noteq> None then (mo, Inl ErrDuplicateCommand)
          else if length (kvHistory m) \<ge> MaxCommands \<or> int (length canonical) > MaxHistoryBytes - historyBytes m
          then (mo, Inl ErrTooLarge)
          else if newStateBytes c m > MaxStateBytes then (mo, Inl ErrTooLarge)
          else
            let st = applyOperation c (kvState m);
                ordinal = length (kvHistory m) + 1;
                stateDigest = digestState sha st;
                chain = sha (chainInput (chainDigest m) ordinal canonical stateDigest);
                commandDigest = EncodeToString (sha canonical);
                block = \<lparr>bOrdinal = of_nat ordinal, bCommandID = EncodeToString (cmdID c), bCommand = Some canonical,
                  bCommandDigest = commandDigest, bStateDigest = EncodeToString stateDigest,
                  bDigest = EncodeToString chain\<rparr>
            in (Some \<lparr>kvState = st, kvSeen = AList.update (cmdID c) commandDigest (kvSeen m),
                  kvHistory = kvHistory m @ [block], chainDigest = chain,
                  historyBytes = historyBytes m + int (length canonical), stateBytes = newStateBytes c m\<rparr>,
                Inr block))"

definition Apply ::
  "(bytes \<Rightarrow> bytes) \<Rightarrow> Command \<Rightarrow> Machine option \<Rightarrow> Machine option \<times> (app_error + Block)" where
  "Apply sha c m = (case EncodeCommand c of Inl e \<Rightarrow> (m, Inl e) | Inr encoded \<Rightarrow> applyCanonical sha c encoded m)"

definition ApplyEncoded ::
  "(bytes \<Rightarrow> bytes) \<Rightarrow> bytes \<Rightarrow> Machine option \<Rightarrow> Machine option \<times> (app_error + Block)" where
  "ApplyEncoded sha data m = (case DecodeCommand data of Inl e \<Rightarrow> (m, Inl e) | Inr c \<Rightarrow> applyCanonical sha c data m)"

definition commitmentOf :: "(bytes \<Rightarrow> bytes) \<Rightarrow> Machine \<Rightarrow> Commitment" where
  "commitmentOf sha m = \<lparr>cmSchema = CommitmentSchema, cmCommands = of_nat (length (kvHistory m)),
     cmChainDigest = EncodeToString (chainDigest m), cmStateDigest = EncodeToString (digestState sha (kvState m))\<rparr>"

definition checkpointOf :: "(bytes \<Rightarrow> bytes) \<Rightarrow> Machine \<Rightarrow> Checkpoint" where
  "checkpointOf sha m =
     (let commitment = commitmentOf sha m in
      \<lparr>cpSchema = CheckpointSchema, cpCommands = cmCommands commitment,
       cpChainDigest = cmChainDigest commitment, cpStateDigest = cmStateDigest commitment,
       cpState = Some (map (\<lambda>(k, v). \<lparr>pKey = k, pValue = Some v\<rparr>) (sortedPairs (kvState m))),
       cpHistory = Some (kvHistory m)\<rparr>)"

section \<open>Restoring a checkpoint\<close>

text \<open>\<open>bytes.Equal\<close> does not distinguish a nil slice from an empty one.\<close>

definition bytesEqual :: "bytes option \<Rightarrow> bytes option \<Rightarrow> bool" where
  "bytesEqual a b \<longleftrightarrow> (case a of None \<Rightarrow> [] | Some x \<Rightarrow> x) = (case b of None \<Rightarrow> [] | Some x \<Rightarrow> x)"

definition blocksEqual :: "Block \<Rightarrow> Block \<Rightarrow> bool" where
  "blocksEqual a b \<longleftrightarrow> bOrdinal a = bOrdinal b \<and> bCommandID a = bCommandID b \<and> bytesEqual (bCommand a) (bCommand b)
     \<and> bCommandDigest a = bCommandDigest b \<and> bStateDigest a = bStateDigest b \<and> bDigest a = bDigest b"

definition pairsEqual :: "Pair list \<Rightarrow> Pair list \<Rightarrow> bool" where
  "pairsEqual a b \<longleftrightarrow> list_all2 (\<lambda>p q. pKey p = pKey q \<and> bytesEqual (pValue p) (pValue q)) a b"

fun checkPairs :: "bytes option \<Rightarrow> int \<Rightarrow> Pair list \<Rightarrow> app_error option" where
  "checkPairs previous used [] = None"
| "checkPairs previous used (p # ps) =
     (if length (pKey p) = 0 \<or> pValue p = None \<or> length (pKey p) > MaxKeyBytes
         \<or> length (the (pValue p)) > MaxValueBytes
         \<or> (case previous of None \<Rightarrow> False | Some k \<Rightarrow> k \<ge> pKey p)
      then Some ErrInvalidCheckpoint
      else if int (length (pKey p)) + int (length (the (pValue p))) > MaxStateBytes - used
      then Some ErrTooLarge
      else checkPairs (Some (pKey p)) (used + (int (length (pKey p)) + int (length (the (pValue p))))) ps)"

definition commandLength :: "Block \<Rightarrow> int" where
  "commandLength b = (case bCommand b of None \<Rightarrow> 0 | Some c \<Rightarrow> int (length c))"

fun checkHistoryBytes :: "int \<Rightarrow> Block list \<Rightarrow> app_error option" where
  "checkHistoryBytes used [] = None"
| "checkHistoryBytes used (b # bs) =
     (if commandLength b > MaxHistoryBytes - used then Some ErrTooLarge
      else checkHistoryBytes (used + commandLength b) bs)"

fun replayBlocks :: "(bytes \<Rightarrow> bytes) \<Rightarrow> Block list \<Rightarrow> Machine \<Rightarrow> app_error + Machine" where
  "replayBlocks sha [] m = Inr m"
| "replayBlocks sha (expected # bs) m =
     (if bCommand expected = None \<or> \<not> validDigest (bCommandDigest expected) \<or> \<not> validDigest (bStateDigest expected)
         \<or> \<not> validDigest (bDigest expected) then Inl ErrInvalidCheckpoint
      else (case ApplyEncoded sha (the (bCommand expected)) (Some m) of
          (Some m', Inr actual) \<Rightarrow>
            if blocksEqual actual expected then replayBlocks sha bs m' else Inl ErrInvalidCheckpoint
        | _ \<Rightarrow> Inl ErrInvalidCheckpoint))"

definition Restore :: "(bytes \<Rightarrow> bytes) \<Rightarrow> Checkpoint \<Rightarrow> app_error + Machine" where
  "Restore sha cp =
     (case (cpState cp, cpHistory cp) of
        (Some st, Some history) \<Rightarrow>
          if cpSchema cp \<noteq> CheckpointSchema \<or> cpCommands cp \<noteq> of_nat (length history)
             \<or> \<not> validDigest (cpChainDigest cp) \<or> \<not> validDigest (cpStateDigest cp) then Inl ErrInvalidCheckpoint
          else if length history > MaxCommands then Inl ErrTooLarge
          else (case checkPairs None 0 st of Some e \<Rightarrow> Inl e | None \<Rightarrow>
            (case checkHistoryBytes 0 history of Some e \<Rightarrow> Inl e | None \<Rightarrow>
              (case replayBlocks sha history (newMachine sha) of
                 Inl e \<Rightarrow> Inl e
               | Inr m \<Rightarrow>
                   let actual = commitmentOf sha m in
                   if cmCommands actual \<noteq> cpCommands cp \<or> cmChainDigest actual \<noteq> cpChainDigest cp
                      \<or> cmStateDigest actual \<noteq> cpStateDigest cp then Inl ErrInvalidCheckpoint
                   else if \<not> pairsEqual (the (cpState (checkpointOf sha m))) st then Inl ErrInvalidCheckpoint
                   else Inr m)))
      | _ \<Rightarrow> Inl ErrInvalidCheckpoint)"

text \<open>
  \<open>encoding/json\<close> enters through \<open>marshal\<close> and the strict decoder \<open>decodeStrict\<close> (unknown fields and
  trailing values are errors).
\<close>

definition EncodeCheckpoint ::
  "(bytes \<Rightarrow> bytes) \<Rightarrow> (Checkpoint \<Rightarrow> bytes) \<Rightarrow> Checkpoint \<Rightarrow> app_error + bytes" where
  "EncodeCheckpoint sha marshal cp =
     (case Restore sha cp of
        Inl e \<Rightarrow> Inl e
      | Inr _ \<Rightarrow> let encoded = marshal cp in
          if length encoded > MaxCheckpointBytes then Inl ErrTooLarge else Inr encoded)"

definition DecodeCheckpoint ::
  "(bytes \<Rightarrow> bytes) \<Rightarrow> (Checkpoint \<Rightarrow> bytes) \<Rightarrow> (bytes \<Rightarrow> Checkpoint option) \<Rightarrow> bytes \<Rightarrow> app_error + Checkpoint" where
  "DecodeCheckpoint sha marshal decodeStrict data =
     (if length data = 0 \<or> length data > MaxCheckpointBytes then Inl ErrTooLarge
      else (case decodeStrict data of
          None \<Rightarrow> Inl ErrInvalidCheckpoint
        | Some cp \<Rightarrow>
            if data \<noteq> marshal cp then Inl ErrInvalidCheckpoint
            else (case Restore sha cp of Inl e \<Rightarrow> Inl e | Inr _ \<Rightarrow> Inr cp)))"

section \<open>Projection of applied entries\<close>

fun replayEntries ::
  "(bytes \<Rightarrow> bytes) \<Rightarrow> Entry list \<Rightarrow> Machine \<Rightarrow> Block list \<Rightarrow> app_error + (Commitment \<times> Block list)" where
  "replayEntries sha [] m blocks = Inr (commitmentOf sha m, blocks)"
| "replayEntries sha (e # es) m blocks =
     (if eType e = EntryNoop \<or> eType e = EntryConfigJoint \<or> eType e = EntryConfigFinal
      then replayEntries sha es m blocks
      else if eType e = EntryCommand then
        (case ApplyEncoded sha (eData e) (Some m) of
           (Some m', Inr block) \<Rightarrow> replayEntries sha es m' (blocks @ [block])
         | (_, Inl err) \<Rightarrow> Inl err
         | (None, Inr _) \<Rightarrow> Inl ErrInvalidCheckpoint)
      else Inl ErrInvalidEntry)"

definition ReplayEntries ::
  "(bytes \<Rightarrow> bytes) \<Rightarrow> Checkpoint option \<Rightarrow> Entry list \<Rightarrow> app_error + (Commitment \<times> Block list)" where
  "ReplayEntries sha base entries =
     (case base of
        None \<Rightarrow> replayEntries sha entries (newMachine sha) []
      | Some cp \<Rightarrow> (case Restore sha cp of Inl e \<Rightarrow> Inl e | Inr m \<Rightarrow> replayEntries sha entries m []))"

section \<open>The command format\<close>

lemma length_commandMagic [simp]: "length commandMagic = 8"
  by (simp add: commandMagic_def)

lemma EncodeCommand_Inr:
  "EncodeCommand c = Inr bs \<longleftrightarrow> validateCommand c = None \<and>
     17 + length (cmdID c) + length (cmdKey c) + length (cmdValue c) \<le> MaxCommandBytes \<and>
     bs = commandMagic @ [cmdOperation c] @ cmdID c @ be32 (length (cmdKey c))
                 @ be32 (length (cmdValue c)) @ cmdKey c @ cmdValue c"
  by (auto simp: EncodeCommand_def Let_def split: option.splits)

lemma validateCommand_bounds:
  "validateCommand c = None \<Longrightarrow> cmdKey c \<noteq> [] \<and> length (cmdKey c) \<le> MaxKeyBytes
     \<and> length (cmdValue c) \<le> MaxValueBytes \<and> cmdID c \<noteq> zeroCommandID
     \<and> (cmdOperation c = Put \<or> cmdOperation c = Delete \<and> cmdValue c = [])"
  by (auto simp: validateCommand_def split: if_splits)

lemma DecodeCommand_split:
  assumes "length ident = 16" and "length keyLen = 4" and "length valueLen = 4"
  shows "DecodeCommand (commandMagic @ [operation] @ ident @ keyLen @ valueLen @ body) =
    (if 33 + length body > MaxCommandBytes then Inl ErrTooLarge
     else if beNat 0 keyLen > MaxKeyBytes \<or> beNat 0 valueLen > MaxValueBytes
       \<or> beNat 0 keyLen + beNat 0 valueLen \<noteq> length body then Inl ErrInvalidCommand
     else let command = \<lparr>cmdID = ident, cmdOperation = operation,
         cmdKey = take (beNat 0 keyLen) body, cmdValue = drop (beNat 0 keyLen) body\<rparr>
       in case validateCommand command of Some e \<Rightarrow> Inl e | None \<Rightarrow> Inr command)"
  using assms by (simp add: DecodeCommand_def nth_append Let_def)

lemma header_split:
  assumes "33 \<le> length (data :: bytes)" and "take 8 data = commandMagic"
  obtains operation ident keyLen valueLen body
  where "data = commandMagic @ [operation] @ ident @ keyLen @ valueLen @ body"
    and "length ident = 16" and "length keyLen = 4" and "length valueLen = 4"
proof -
  have "data = take 8 data @ take 1 (drop 8 data) @ take 16 (drop 9 data) @ take 4 (drop 25 data)
      @ take 4 (drop 29 data) @ drop 33 data"
    using take_drop_segment [of 1 8 data] take_drop_segment [of 16 9 data] take_drop_segment [of 4 25 data]
      take_drop_segment [of 4 29 data] append_take_drop_id [of 8 data] by simp
  moreover have "take 1 (drop 8 data) = [data ! 8]"
    using assms(1) by (simp add: take_Suc_conv_app_nth hd_drop_conv_nth take_Suc numeral_eq_Suc)
  ultimately show thesis
    using assms by (intro that [of "data ! 8" "take 16 (drop 9 data)" "take 4 (drop 25 data)"
      "take 4 (drop 29 data)" "drop 33 data"]) simp_all
qed

text \<open>The encoder and the strict decoder are inverse to each other on the commands the types allow.\<close>

lemma DecodeCommand_Inr:
  assumes "DecodeCommand data = Inr c"
  shows "wfCommand c" and "EncodeCommand c = Inr data"
proof -
  have len: "33 \<le> length data" and magic: "take 8 data = commandMagic"
    using assms by (auto simp: DecodeCommand_def split: if_splits)
  obtain operation ident keyLen valueLen body
    where data: "data = commandMagic @ [operation] @ ident @ keyLen @ valueLen @ body"
      and parts: "length ident = 16" "length keyLen = 4" "length valueLen = 4"
    using len magic by (rule header_split)
  note dec = assms [unfolded data DecodeCommand_split [OF parts]]
  have c: "c = \<lparr>cmdID = ident, cmdOperation = operation,
         cmdKey = take (beNat 0 keyLen) body, cmdValue = drop (beNat 0 keyLen) body\<rparr>"
    and "validateCommand c = None" "33 + length body \<le> MaxCommandBytes"
    and sum: "beNat 0 keyLen + beNat 0 valueLen = length body"
    using dec by (auto simp: Let_def split: if_splits option.splits)
  moreover have "length (cmdKey c) = beNat 0 keyLen" "length (cmdValue c) = beNat 0 valueLen"
    using sum by (simp_all add: c)
  moreover have "be32 (beNat 0 keyLen) = keyLen" "be32 (beNat 0 valueLen) = valueLen"
    using parts be32_beNat(1) by blast+
  ultimately show "EncodeCommand c = Inr data" "wfCommand c"
    using parts by (simp_all add: EncodeCommand_Inr data wfCommand_def)
qed

lemma Command_eta:
  "\<lparr>cmdID = cmdID c, cmdOperation = cmdOperation c, cmdKey = cmdKey c, cmdValue = cmdValue c\<rparr> = c"
  by simp

lemma EncodeCommand_decodes:
  assumes "wfCommand c" and "EncodeCommand c = Inr bs"
  shows "DecodeCommand bs = Inr c"
proof -
  have v: "validateCommand c = None" and size: "33 + length (cmdKey c @ cmdValue c) \<le> MaxCommandBytes"
    and bs: "bs = commandMagic @ [cmdOperation c] @ cmdID c @ be32 (length (cmdKey c))
                 @ be32 (length (cmdValue c)) @ (cmdKey c @ cmdValue c)"
    using assms by (auto simp: EncodeCommand_Inr wfCommand_def)
  have k: "beNat 0 (be32 (length (cmdKey c))) = length (cmdKey c)"
    using validateCommand_bounds [OF v] by (intro beNat_be32) (simp add: oracle_limits)
  have l: "beNat 0 (be32 (length (cmdValue c))) = length (cmdValue c)"
    using validateCommand_bounds [OF v] by (intro beNat_be32) (simp add: oracle_limits)
  have "length (cmdID c) = 16"
    using assms(1) by (simp add: wfCommand_def)
  then show ?thesis
    using validateCommand_bounds [OF v] size v
    unfolding bs by (subst DecodeCommand_split) (simp_all add: k l Let_def Command_eta)
qed

lemma validDigest_EncodeToString: "validDigest (EncodeToString bs) \<longleftrightarrow> length bs = 32"
  by (auto simp: validDigest_def)

end
