(* ===== verification/AppMachine.thy ===== *)
theory AppMachine
  imports AppOracle "HOL-Library.Multiset"
begin

text \<open>
  Lemmas on the key/value machine of \<open>AppOracle\<close>: the reachable machines, their invariant, the replay of a
  history, and the properties of commands, machines, checkpoints and commitments.
\<close>

section \<open>The size of the state\<close>

definition stateSize :: "(bytes \<times> bytes) list \<Rightarrow> int" where
  "stateSize st = sum_list (map (\<lambda>(k, v). int (length k) + int (length v)) st)"

lemma stateSize_update:
  "stateSize (AList.update k v st) = stateSize st + int (length v) +
     (case map_of st k of None \<Rightarrow> int (length k) | Some p \<Rightarrow> - int (length p))"
  by (induction st) (auto simp: stateSize_def split: option.splits)

lemma delete_absent: "k \<notin> fst ` set st \<Longrightarrow> AList.delete k st = st"
  by (induction st) auto

lemma stateSize_delete:
  "distinct (map fst st) \<Longrightarrow> stateSize (AList.delete k st) = stateSize st -
     (case map_of st k of None \<Rightarrow> 0 | Some p \<Rightarrow> int (length k) + int (length p))"
proof (induction st)
  case (Cons x st)
  then show ?case
    by (cases x) (auto simp: stateSize_def delete_absent split: option.splits)
qed (simp add: stateSize_def)

section \<open>Reachable machines\<close>

inductive reached :: "(bytes \<Rightarrow> bytes) \<Rightarrow> Machine \<Rightarrow> bool" for sha where
  reached_new: "reached sha (newMachine sha)"
| reached_apply: "reached sha m \<Longrightarrow> ApplyEncoded sha data (Some m) = (Some m', Inr b) \<Longrightarrow> reached sha m'"

definition digestSize :: "(bytes \<Rightarrow> bytes) \<Rightarrow> bool" where
  "digestSize sha \<longleftrightarrow> (\<forall>x. length (sha x) = 32)"

definition pairOk :: "bytes \<times> bytes \<Rightarrow> bool" where
  "pairOk p \<longleftrightarrow> fst p \<noteq> [] \<and> length (fst p) \<le> MaxKeyBytes \<and> length (snd p) \<le> MaxValueBytes"

definition blockOk :: "Block \<Rightarrow> bool" where
  "blockOk b \<longleftrightarrow> bCommand b \<noteq> None \<and> validDigest (bCommandDigest b) \<and> validDigest (bStateDigest b) \<and> validDigest (bDigest b)"

definition machineInv :: "Machine \<Rightarrow> bool" where
  "machineInv m \<longleftrightarrow> distinct (map fst (kvState m)) \<and> (\<forall>p\<in>set (kvState m). pairOk p) \<and>
     stateBytes m = stateSize (kvState m) \<and> stateBytes m \<le> MaxStateBytes \<and>
     historyBytes m = sum_list (map commandLength (kvHistory m)) \<and> historyBytes m \<le> MaxHistoryBytes \<and>
     length (kvHistory m) \<le> MaxCommands \<and> length (chainDigest m) = 32 \<and> (\<forall>b\<in>set (kvHistory m). blockOk b)"

text \<open>The one step that changes a machine, with everything the code wrote.\<close>

definition appendedBlock :: "(bytes \<Rightarrow> bytes) \<Rightarrow> Command \<Rightarrow> bytes \<Rightarrow> Machine \<Rightarrow> Block" where
  "appendedBlock sha c data m =
     (let ordinal = length (kvHistory m) + 1; d = digestState sha (applyOperation c (kvState m)) in
      \<lparr>bOrdinal = of_nat ordinal, bCommandID = EncodeToString (cmdID c), bCommand = Some data,
       bCommandDigest = EncodeToString (sha data), bStateDigest = EncodeToString d,
       bDigest = EncodeToString (sha (chainInput (chainDigest m) ordinal data d))\<rparr>)"

lemma applyCanonical_Inr:
  "applyCanonical sha c data (Some m) = (mo, Inr b) \<longleftrightarrow>
     map_of (kvSeen m) (cmdID c) = None \<and> length (kvHistory m) < MaxCommands \<and>
     int (length data) \<le> MaxHistoryBytes - historyBytes m \<and> newStateBytes c m \<le> MaxStateBytes \<and>
     b = appendedBlock sha c data m \<and>
     mo = Some \<lparr>kvState = applyOperation c (kvState m),
       kvSeen = AList.update (cmdID c) (EncodeToString (sha data)) (kvSeen m), kvHistory = kvHistory m @ [b],
       chainDigest = sha (chainInput (chainDigest m) (length (kvHistory m) + 1) data
         (digestState sha (applyOperation c (kvState m)))),
       historyBytes = historyBytes m + int (length data), stateBytes = newStateBytes c m\<rparr>"
  by (auto simp: applyCanonical_def appendedBlock_def Let_def split: if_splits)

lemma ApplyEncoded_Inr:
  "ApplyEncoded sha data (Some m) = (mo, Inr b) \<longleftrightarrow>
     (\<exists>c. DecodeCommand data = Inr c \<and> applyCanonical sha c data (Some m) = (mo, Inr b))"
  by (auto simp: ApplyEncoded_def split: sum.splits)

lemma Apply_is_ApplyEncoded:
  assumes "wfCommand c" and "EncodeCommand c = Inr data"
  shows "Apply sha c m = ApplyEncoded sha data m"
  using assms(2) EncodeCommand_decodes [OF assms] by (simp add: Apply_def ApplyEncoded_def)

lemma ApplyEncoded_history:
  "ApplyEncoded sha data (Some m) = (Some m', Inr b) \<Longrightarrow> kvHistory m' = kvHistory m @ [b] \<and> bCommand b = Some data"
  by (auto simp: ApplyEncoded_Inr applyCanonical_Inr appendedBlock_def Let_def)

subsection \<open>The invariant\<close>

lemma decoded_valid: "DecodeCommand data = Inr c \<Longrightarrow> validateCommand c = None"
  using DecodeCommand_Inr(2) [of data c] by (simp add: EncodeCommand_Inr)

lemma newStateBytes_exact:
  assumes "machineInv m" and "validateCommand c = None"
  shows "newStateBytes c m = stateSize (applyOperation c (kvState m))"
proof -
  have "Put \<noteq> Delete"
    by (simp add: const_defs)
  then show ?thesis
    using assms validateCommand_bounds [OF assms(2)]
    by (auto simp: machineInv_def newStateBytes_def applyOperation_def stateSize_update stateSize_delete
        split: option.splits)
qed

lemma applyOperation_distinct:
  "distinct (map fst st) \<Longrightarrow> distinct (map fst (applyOperation c st))"
  by (simp add: applyOperation_def distinct_update distinct_delete)

lemma set_alist_update: "set (AList.update k v st) \<subseteq> insert (k, v) (set st)"
  by (induction st) auto

lemma set_alist_delete: "set (AList.delete k st) \<subseteq> set st"
  by (induction st) auto

lemma set_applyOperation: "set (applyOperation c st) \<subseteq> insert (cmdKey c, cmdValue c) (set st)"
  using set_alist_update [of "cmdKey c" "cmdValue c" st] set_alist_delete [of "cmdKey c" st]
  unfolding applyOperation_def by (simp add: subset_insertI subset_insertI2)

lemma applyOperation_pairOk:
  assumes "\<forall>p\<in>set st. pairOk p" and "validateCommand c = None"
  shows "\<forall>p\<in>set (applyOperation c st). pairOk p"
proof -
  have "pairOk (cmdKey c, cmdValue c)"
    using validateCommand_bounds [OF assms(2)] by (simp add: pairOk_def)
  then show ?thesis
    using assms(1) set_applyOperation by blast
qed

lemma length_digestState: "digestSize sha \<Longrightarrow> length (digestState sha st) = 32"
  by (simp add: digestSize_def digestState_def)

lemma appendedBlock_ok: "digestSize sha \<Longrightarrow> blockOk (appendedBlock sha c data m)"
  by (simp add: blockOk_def appendedBlock_def Let_def validDigest_EncodeToString length_digestState)
    (simp add: digestSize_def)

lemma machineInv_new: "digestSize sha \<Longrightarrow> machineInv (newMachine sha)"
  by (simp add: machineInv_def newMachine_def stateSize_def digestSize_def oracle_limits)

lemma machineInv_apply:
  assumes sz: "digestSize sha" and inv: "machineInv m"
    and step: "ApplyEncoded sha data (Some m) = (Some m', Inr b)"
  shows "machineInv m'"
proof -
  obtain c where dec: "DecodeCommand data = Inr c"
    and app: "applyCanonical sha c data (Some m) = (Some m', Inr b)"
    using step by (auto simp: ApplyEncoded_Inr)
  have v: "validateCommand c = None"
    using dec by (rule decoded_valid)
  have "blockOk b" "commandLength b = int (length data)"
    using app appendedBlock_ok [OF sz] by (auto simp: applyCanonical_Inr appendedBlock_def Let_def commandLength_def)
  then show ?thesis
    using inv app applyOperation_distinct applyOperation_pairOk [OF _ v] newStateBytes_exact [OF inv v] sz
    unfolding machineInv_def applyCanonical_Inr
    by (auto simp: digestSize_def)
qed

lemma reached_inv: "reached sha m \<Longrightarrow> digestSize sha \<Longrightarrow> machineInv m"
  by (induction rule: reached.induct) (simp_all add: machineInv_new machineInv_apply)

section \<open>Replaying a history\<close>

lemma replayBlocks_append:
  "replayBlocks sha (xs @ ys) m = (case replayBlocks sha xs m of Inl e \<Rightarrow> Inl e | Inr m' \<Rightarrow> replayBlocks sha ys m')"
  by (induction xs arbitrary: m) (auto split: option.splits sum.splits prod.splits)

lemma blocksEqual_refl [simp]: "blocksEqual b b"
  by (simp add: blocksEqual_def bytesEqual_def)

lemma blocksEqual_eq: "blocksEqual a b \<Longrightarrow> bCommand a \<noteq> None \<Longrightarrow> bCommand b \<noteq> None \<Longrightarrow> a = b"
  by (auto simp: blocksEqual_def bytesEqual_def)

lemma replay_history:
  assumes "reached sha m" and "digestSize sha"
  shows "replayBlocks sha (kvHistory m) (newMachine sha) = Inr m"
  using assms(1)
proof (induction rule: reached.induct)
  case reached_new
  then show ?case by (simp add: newMachine_def)
next
  case (reached_apply m data m' b)
  have "reached sha m'"
    using reached_apply.hyps by (rule reached.reached_apply)
  then have "machineInv m'"
    using assms(2) by (rule reached_inv)
  then have "blockOk b"
    using ApplyEncoded_history [OF reached_apply.hyps(2)] by (simp add: machineInv_def)
  then show ?case
    using reached_apply ApplyEncoded_history [OF reached_apply.hyps(2)]
    by (simp add: replayBlocks_append blockOk_def)
qed

lemma replay_reaches:
  "replayBlocks sha bs m = Inr m' \<Longrightarrow> reached sha m \<Longrightarrow> reached sha m' \<and> kvHistory m' = kvHistory m @ bs"
proof (induction bs arbitrary: m)
  case (Cons b bs)
  obtain m1 a where step: "ApplyEncoded sha (the (bCommand b)) (Some m) = (Some m1, Inr a)"
    and eq: "blocksEqual a b" and some: "bCommand b \<noteq> None" and rest: "replayBlocks sha bs m1 = Inr m'"
    using Cons.prems(1) by (auto split: if_splits option.splits sum.splits prod.splits)
  have "a = b"
    using eq some ApplyEncoded_history [OF step] by (intro blocksEqual_eq) auto
  then show ?case
    using Cons.IH [OF rest] reached_apply [OF Cons.prems(2) step] ApplyEncoded_history [OF step] by simp
qed simp

section \<open>Checkpoints\<close>

definition toPair :: "bytes \<times> bytes \<Rightarrow> Pair" where
  "toPair p = \<lparr>pKey = fst p, pValue = Some (snd p)\<rparr>"

lemma toPair_sel [simp]: "pKey (toPair p) = fst p" "pValue (toPair p) = Some (snd p)"
  by (simp_all add: toPair_def)

lemma cpState_checkpointOf: "cpState (checkpointOf sha m) = Some (map toPair (sortedPairs (kvState m)))"
  by (simp add: checkpointOf_def Let_def toPair_def split_beta')

lemma checkPairs_ok:
  "sorted_wrt (<) (map fst st) \<Longrightarrow> (case previous of None \<Rightarrow> True | Some k \<Rightarrow> \<forall>x\<in>set st. k < fst x) \<Longrightarrow>
   \<forall>p\<in>set st. pairOk p \<Longrightarrow> used + stateSize st \<le> MaxStateBytes \<Longrightarrow>
   checkPairs previous used (map toPair st) = None"
proof (induction st arbitrary: previous used)
  case (Cons p st)
  have "0 \<le> stateSize st"
    by (auto simp: stateSize_def intro!: sum_list_nonneg)
  then have size: "int (length (fst p)) + int (length (snd p)) \<le> MaxStateBytes - used"
    using Cons.prems(4) by (simp add: stateSize_def split_beta)
  have "checkPairs (Some (fst p)) (used + (int (length (fst p)) + int (length (snd p)))) (map toPair st) = None"
    using Cons.prems by (intro Cons.IH) (auto simp: stateSize_def split_beta)
  then show ?case
    using Cons.prems size by (auto simp: toPair_sel pairOk_def not_le split: option.splits)
qed simp

lemma checkPairs_values: "checkPairs previous used ps = None \<Longrightarrow> \<forall>p\<in>set ps. pValue p \<noteq> None"
  by (induction ps arbitrary: previous used) (auto split: if_splits)

lemma pairsEqual_toPair:
  "pairsEqual (map toPair st) ps \<Longrightarrow> \<forall>p\<in>set ps. pValue p \<noteq> None \<Longrightarrow> map toPair st = ps"
  unfolding pairsEqual_def
proof (induction st arbitrary: ps)
  case (Cons x st)
  then show ?case
    by (cases ps) (auto simp: toPair_def bytesEqual_def)
qed simp

lemma pairsEqual_refl [simp]: "pairsEqual ps ps"
  by (simp add: pairsEqual_def bytesEqual_def list.rel_refl)

lemma sortedPairs_strict: "distinct (map fst st) \<Longrightarrow> sorted_wrt (<) (map fst (sortedPairs st))"
  by (simp add: sortedPairs_def strict_sorted_iff sorted_sort_key distinct_map inj_on_def)

lemma stateSize_sortedPairs: "stateSize (sortedPairs st) = stateSize st"
proof -
  have "mset (map g (sort_key fst st)) = mset (map g st)" for g :: "bytes \<times> bytes \<Rightarrow> int"
    by simp
  then show ?thesis
    unfolding stateSize_def sortedPairs_def by (metis sum_mset_sum_list)
qed

lemma checkHistoryBytes_ok:
  "used + sum_list (map commandLength bs) \<le> MaxHistoryBytes \<Longrightarrow> checkHistoryBytes used bs = None"
proof (induction bs arbitrary: used)
  case (Cons b bs)
  have "0 \<le> sum_list (map commandLength bs)"
    by (rule sum_list_nonneg) (auto simp: commandLength_def split: option.splits)
  then show ?case
    using Cons by simp
qed simp

lemma Restore_checkpointOf:
  assumes "reached sha m" and sz: "digestSize sha"
  shows "Restore sha (checkpointOf sha m) = Inr m"
proof -
  have inv: "machineInv m"
    using assms by (rule reached_inv)
  have pairs: "checkPairs None 0 (map toPair (sortedPairs (kvState m))) = None"
    using inv by (intro checkPairs_ok)
      (simp_all add: machineInv_def sortedPairs_strict stateSize_sortedPairs, simp add: sortedPairs_def)
  have hist: "checkHistoryBytes 0 (kvHistory m) = None"
    using inv by (intro checkHistoryBytes_ok) (simp add: machineInv_def)
  have "validDigest (cpChainDigest (checkpointOf sha m))" "validDigest (cpStateDigest (checkpointOf sha m))"
    using inv length_digestState [OF sz]
    by (simp_all add: checkpointOf_def commitmentOf_def Let_def validDigest_EncodeToString machineInv_def)
  moreover have "cpHistory (checkpointOf sha m) = Some (kvHistory m)" "cpSchema (checkpointOf sha m) = CheckpointSchema"
    "cpCommands (checkpointOf sha m) = of_nat (length (kvHistory m))"
    by (simp_all add: checkpointOf_def commitmentOf_def Let_def)
  moreover have "cmCommands (commitmentOf sha m) = cpCommands (checkpointOf sha m)"
    "cmChainDigest (commitmentOf sha m) = cpChainDigest (checkpointOf sha m)"
    "cmStateDigest (commitmentOf sha m) = cpStateDigest (checkpointOf sha m)"
    by (simp_all add: checkpointOf_def Let_def)
  moreover have "length (kvHistory m) \<le> MaxCommands"
    using inv by (simp add: machineInv_def)
  ultimately show ?thesis
    using replay_history [OF assms] pairs hist
    by (simp add: Restore_def cpState_checkpointOf Let_def)
qed

lemma Restore_sound:
  assumes "Restore sha cp = Inr m"
  shows "reached sha m" and "checkpointOf sha m = cp"
proof -
  obtain st hist where cp: "cpState cp = Some st" "cpHistory cp = Some hist"
    using assms by (auto simp: Restore_def split: option.splits)
  note res = assms [unfolded Restore_def cp Let_def, simplified]
  have m: "replayBlocks sha hist (newMachine sha) = Inr m"
    using res by (auto split: if_splits option.splits sum.splits)
  then have r: "reached sha m" "kvHistory m = hist"
    using replay_reaches reached_new by (fastforce simp: newMachine_def)+
  have "checkPairs None 0 st = None" "pairsEqual (map toPair (sortedPairs (kvState m))) st"
    using res m by (auto simp: cpState_checkpointOf split: if_splits option.splits)
  then have "map toPair (sortedPairs (kvState m)) = st"
    using checkPairs_values pairsEqual_toPair by blast
  moreover have "cpSchema cp = CheckpointSchema" "cmCommands (commitmentOf sha m) = cpCommands cp"
    "cmChainDigest (commitmentOf sha m) = cpChainDigest cp" "cmStateDigest (commitmentOf sha m) = cpStateDigest cp"
    using res m by (auto split: if_splits option.splits)
  ultimately show "checkpointOf sha m = cp"
    using r(2) cp cpState_checkpointOf [of sha m] by (simp add: checkpointOf_def Let_def)
  show "reached sha m"
    by (rule r(1))
qed

section \<open>The hash chain\<close>

definition genesis :: bytes where
  "genesis = ascii ChainSchema @ [0]"

text \<open>The byte strings whose hashes form the chain of a history.\<close>

fun blockInputs :: "bytes \<Rightarrow> nat \<Rightarrow> Block list \<Rightarrow> bytes list" where
  "blockInputs previous n [] = []"
| "blockInputs previous n (b # bs) =
     chainInput previous n (the (bCommand b)) (the (DecodeString (bStateDigest b)))
       # blockInputs (the (DecodeString (bDigest b))) (Suc n) bs"

definition hashedInputs :: "(bytes \<Rightarrow> bytes) \<Rightarrow> Machine \<Rightarrow> bytes list" where
  "hashedInputs sha m = genesis # blockInputs (sha genesis) 1 (kvHistory m)"

definition headOf :: "bytes \<Rightarrow> Block list \<Rightarrow> bytes" where
  "headOf d bs = (if bs = [] then d else the (DecodeString (bDigest (last bs))))"

lemma headOf_Cons [simp]: "headOf d (b # bs) = headOf (the (DecodeString (bDigest b))) bs"
  by (simp add: headOf_def)

lemma blockInputs_snoc:
  "blockInputs d n (bs @ [b]) = blockInputs d n bs @
     [chainInput (headOf d bs) (n + length bs) (the (bCommand b)) (the (DecodeString (bStateDigest b)))]"
  by (induction bs arbitrary: d n) (simp_all add: headOf_def)

lemma reached_head: "reached sha m \<Longrightarrow> headOf (sha genesis) (kvHistory m) = chainDigest m"
  by (induction rule: reached.induct)
    (auto simp: headOf_def newMachine_def genesis_def ApplyEncoded_Inr applyCanonical_Inr appendedBlock_def Let_def)

lemma hashedInputs_apply:
  assumes "reached sha m" and "ApplyEncoded sha data (Some m) = (Some m', Inr b)"
  obtains sd where "hashedInputs sha m' = hashedInputs sha m @ [chainInput (chainDigest m) (length (kvHistory m) + 1) data sd]"
    and "chainDigest m' = sha (chainInput (chainDigest m) (length (kvHistory m) + 1) data sd)"
    and "digestSize sha \<Longrightarrow> length sd = 32"
proof -
  obtain c where step: "applyCanonical sha c data (Some m) = (Some m', Inr b)"
    using assms(2) by (auto simp: ApplyEncoded_Inr)
  show thesis
  proof (rule that [of "digestState sha (applyOperation c (kvState m))"])
    show "chainDigest m' = sha (chainInput (chainDigest m) (length (kvHistory m) + 1) data
        (digestState sha (applyOperation c (kvState m))))"
      using step by (auto simp: applyCanonical_Inr)
    show "hashedInputs sha m' = hashedInputs sha m @ [chainInput (chainDigest m) (length (kvHistory m) + 1) data
        (digestState sha (applyOperation c (kvState m)))]"
      using step reached_head [OF assms(1)]
      by (auto simp: applyCanonical_Inr hashedInputs_def blockInputs_snoc appendedBlock_def Let_def)
  qed (rule length_digestState)
qed

lemma chainInput_inject:
  assumes "chainInput p n c s = chainInput p' n' c' s'"
    and "length p = 32" and "length p' = 32" and "length s = 32" and "length s' = 32"
  shows "p = p'" and "c = c'"
proof -
  have eq: "p @ be64 n @ be32 (length c) @ c @ s = p' @ be64 n' @ be32 (length c') @ c' @ s'"
    using assms(1) by (simp add: chainInput_def)
  then show "p = p'"
    using assms(2,3) by (simp add: append_eq_append_conv)
  have "length c = length c'"
    using arg_cong [OF eq, of length] assms(2-5) by simp
  then show "c = c'"
    using eq assms(2,3) by (simp add: append_eq_append_conv)
qed

lemma genesis_not_chained: "genesis \<noteq> chainInput p n c s"
proof
  assume "genesis = chainInput p n c s"
  then have "length genesis = length (chainInput p n c s)"
    by (rule arg_cong)
  then show False
    by (simp add: genesis_def chainInput_def)
qed

lemma chain_binding:
  assumes sz: "digestSize sha"
  shows "reached sha m \<Longrightarrow> reached sha m2 \<Longrightarrow> inj_on sha (set (hashedInputs sha m) \<union> set (hashedInputs sha m2)) \<Longrightarrow>
    chainDigest m = chainDigest m2 \<Longrightarrow> m = m2"
proof (induction arbitrary: m2 rule: reached.induct)
  case reached_new
  from reached_new.prems(1) show ?case
  proof cases
    case (reached_apply m data b)
    then obtain sd where "hashedInputs sha m2 = hashedInputs sha m @ [chainInput (chainDigest m) (length (kvHistory m) + 1) data sd]"
      and "chainDigest m2 = sha (chainInput (chainDigest m) (length (kvHistory m) + 1) data sd)"
      by (metis hashedInputs_apply)
    moreover have "chainDigest (newMachine sha) = sha genesis" "genesis \<in> set (hashedInputs sha (newMachine sha))"
      by (simp_all add: newMachine_def genesis_def hashedInputs_def)
    ultimately have "genesis = chainInput (chainDigest m) (length (kvHistory m) + 1) data sd"
      using reached_new.prems(2,3) by (metis UnCI in_set_conv_decomp inj_onD)
    then show ?thesis
      by (simp add: genesis_not_chained)
  qed simp
next
  case (reached_apply m data m' b)
  obtain sd where h: "hashedInputs sha m' = hashedInputs sha m @ [chainInput (chainDigest m) (length (kvHistory m) + 1) data sd]"
    and d: "chainDigest m' = sha (chainInput (chainDigest m) (length (kvHistory m) + 1) data sd)" and "length sd = 32"
    using hashedInputs_apply [OF reached_apply.hyps] sz by metis
  from reached_apply.prems(1) show ?case
  proof cases
    case reached_new
    then have "chainDigest m2 = sha genesis" "genesis \<in> set (hashedInputs sha m2)"
      by (simp_all add: newMachine_def genesis_def hashedInputs_def)
    then have "genesis = chainInput (chainDigest m) (length (kvHistory m) + 1) data sd"
      using h d reached_apply.prems(2,3) by (metis UnCI in_set_conv_decomp inj_onD)
    then show ?thesis
      by (simp add: genesis_not_chained)
  next
    case prev2: (reached_apply n data2 b2)
    obtain sd2 where h2: "hashedInputs sha m2 = hashedInputs sha n @ [chainInput (chainDigest n) (length (kvHistory n) + 1) data2 sd2]"
      and d2: "chainDigest m2 = sha (chainInput (chainDigest n) (length (kvHistory n) + 1) data2 sd2)" and "length sd2 = 32"
      using hashedInputs_apply [OF prev2] sz by metis
    have "chainInput (chainDigest m) (length (kvHistory m) + 1) data sd = chainInput (chainDigest n) (length (kvHistory n) + 1) data2 sd2"
      using h h2 d d2 reached_apply.prems(2,3) by (metis UnCI in_set_conv_decomp inj_onD)
    then have same: "chainDigest m = chainDigest n" "data = data2"
      using chainInput_inject reached_inv [OF reached_apply.hyps(1) sz] reached_inv [OF prev2(1) sz]
        \<open>length sd = 32\<close> \<open>length sd2 = 32\<close> unfolding machineInv_def by blast+
    have "inj_on sha (set (hashedInputs sha m) \<union> set (hashedInputs sha n))"
      using reached_apply.prems(2) h h2 by (auto intro: inj_on_subset)
    then have "m = n"
      using reached_apply.IH prev2(1) same(1) by blast
    then show ?thesis
      using reached_apply.hyps(2) prev2(2) same(2) by simp
  qed
qed

end
