(* ===== verification/AppProps.thy ===== *)
theory AppProps
  imports AppMachine
begin

text \<open>
  The properties of the key/value oracle: the command format, the machine against the map it stands for,
  checkpoints, and the commitment.
\<close>

lemma reached_seen:
  "reached sha m \<Longrightarrow> map_of (kvSeen m) i \<noteq> None \<longleftrightarrow> EncodeToString i \<in> bCommandID ` set (kvHistory m)"
  by (induction rule: reached.induct)
    (auto simp: newMachine_def ApplyEncoded_Inr applyCanonical_Inr appendedBlock_def Let_def update_conv')

lemma map_of_applyOperation:
  "validateCommand c = None \<Longrightarrow> map_of (applyOperation c st) =
     (if cmdOperation c = Put then (map_of st)(cmdKey c \<mapsto> cmdValue c) else (map_of st)(cmdKey c := None))"
  using validateCommand_bounds [of c]
  by (auto simp: applyOperation_def update_conv' delete_conv' const_defs)

text \<open>A stand-in hash for the witnesses: 31 zero bytes and the length of the input.\<close>

definition exSha :: "bytes \<Rightarrow> bytes" where
  "exSha x = replicate 31 0 @ [of_nat (length x)]"

lemma digestSize_exSha: "digestSize exSha"
  by (simp add: digestSize_def exSha_def)

definition exCommand :: Command where
  "exCommand = \<lparr>cmdID = 7 # replicate 15 0, cmdOperation = Put, cmdKey = [65], cmdValue = [1, 2]\<rparr>"

definition exData :: bytes where
  "exData = commandMagic @ [1] @ (7 # replicate 15 0) @ [0, 0, 0, 1] @ [0, 0, 0, 2] @ [65] @ [1, 2]"

definition exMachine :: Machine where
  "exMachine = the (fst (ApplyEncoded exSha exData (Some (newMachine exSha))))"

lemma exID_nonzero: "7 # replicate 15 0 \<noteq> zeroCommandID"
  using replicate_Suc [of 15 "0 :: byte"] by (simp add: zeroCommandID_def)

lemma exCommand_encodes: "EncodeCommand exCommand = Inr exData"
  using exID_nonzero
  by (simp add: EncodeCommand_Inr validateCommand_def exCommand_def exData_def const_defs oracle_limits be32_def)

lemma exCommand_wf: "wfCommand exCommand"
  by (simp add: wfCommand_def exCommand_def)

lemma exMachine_step: "\<exists>b. ApplyEncoded exSha exData (Some (newMachine exSha)) = (Some exMachine, Inr b)"
proof -
  have "DecodeCommand exData = Inr exCommand"
    using exCommand_wf exCommand_encodes by (rule EncodeCommand_decodes)
  then show ?thesis
    by (simp add: exMachine_def ApplyEncoded_def applyCanonical_def newMachine_def Let_def oracle_limits
        newStateBytes_def exCommand_def exData_def const_defs)
qed

lemma exMachine_reached: "reached exSha exMachine"
  using exMachine_step reached_new reached_apply by metis

text \<open>
  C19. The command format is unique: on every command whose identifier has 16 bytes, the encoder returns a
  byte string exactly when the strict decoder returns that command for it, so decoding inverts encoding and
  no other byte string decodes to the same command.
\<close>

theorem command_roundtrip:
  assumes "wfCommand c"
  shows "EncodeCommand c = Inr bs \<longleftrightarrow> DecodeCommand bs = Inr c"
  using assms EncodeCommand_decodes DecodeCommand_Inr(2) by blast

theorem command_roundtrip_witness:
  "wfCommand exCommand \<and> DecodeCommand exData = Inr exCommand"
  using command_roundtrip [of exCommand exData] exCommand_wf exCommand_encodes by simp

text \<open>
  Applying a command to a machine built from scratch: an invalid or oversized command, a repeated
  identifier and an exceeded limit are reported and leave the machine as it was; otherwise one block is
  appended, it carries the encoded command, and the key/value map changes at exactly the command's key.
\<close>

theorem apply_exact:
  assumes "reached sha m" and "digestSize sha" and "wfCommand c"
  shows "case EncodeCommand c of
      Inl e \<Rightarrow> Apply sha c (Some m) = (Some m, Inl e)
    | Inr data \<Rightarrow>
        if EncodeToString (cmdID c) \<in> bCommandID ` set (kvHistory m)
        then Apply sha c (Some m) = (Some m, Inl ErrDuplicateCommand)
        else if length (kvHistory m) = MaxCommands
          \<or> sum_list (map commandLength (kvHistory m)) + int (length data) > MaxHistoryBytes
          \<or> stateSize (applyOperation c (kvState m)) > MaxStateBytes
        then Apply sha c (Some m) = (Some m, Inl ErrTooLarge)
        else \<exists>m' b. Apply sha c (Some m) = (Some m', Inr b) \<and> reached sha m'
          \<and> kvHistory m' = kvHistory m @ [b] \<and> bCommand b = Some data
          \<and> bOrdinal b = of_nat (length (kvHistory m) + 1)
          \<and> map_of (kvState m') = (if cmdOperation c = Put then (map_of (kvState m))(cmdKey c \<mapsto> cmdValue c)
                                  else (map_of (kvState m))(cmdKey c := None))"
proof (cases "EncodeCommand c")
  case (Inl e)
  then show ?thesis by (simp add: Apply_def)
next
  case (Inr data)
  have v: "validateCommand c = None"
    using Inr by (simp add: EncodeCommand_Inr)
  have inv: "machineInv m"
    using assms(1,2) by (rule reached_inv)
  let ?dup = "EncodeToString (cmdID c) \<in> bCommandID ` set (kvHistory m)"
  let ?large = "length (kvHistory m) = MaxCommands
    \<or> sum_list (map commandLength (kvHistory m)) + int (length data) > MaxHistoryBytes
    \<or> stateSize (applyOperation c (kvState m)) > MaxStateBytes"
  have dup: "?dup \<longleftrightarrow> map_of (kvSeen m) (cmdID c) \<noteq> None"
    using reached_seen [OF assms(1)] by blast
  have large: "?large \<longleftrightarrow> length (kvHistory m) \<ge> MaxCommands
      \<or> int (length data) > MaxHistoryBytes - historyBytes m \<or> newStateBytes c m > MaxStateBytes"
    using inv newStateBytes_exact [OF inv v] by (auto simp: machineInv_def)
  have app: "Apply sha c (Some m) = applyCanonical sha c data (Some m)"
    using Inr by (simp add: Apply_def)
  consider (dup) "?dup" | (large) "\<not> ?dup" "?large" | (ok) "\<not> ?dup" "\<not> ?large"
    by blast
  then show ?thesis
  proof cases
    case ok
    then obtain m' b where res: "applyCanonical sha c data (Some m) = (Some m', Inr b)"
      unfolding dup large by (auto simp: applyCanonical_Inr)
    moreover have "reached sha m'"
      using assms(1) res Apply_is_ApplyEncoded [OF assms(3) Inr, of sha "Some m"] app
      by (metis reached_apply)
    ultimately show ?thesis
      using ok Inr app map_of_applyOperation [OF v]
      by (auto simp: applyCanonical_Inr appendedBlock_def Let_def)
  next
    case large
    then have "Apply sha c (Some m) = (Some m, Inl ErrTooLarge)"
      unfolding app using dup \<open>?large \<longleftrightarrow> _\<close> by (auto simp: applyCanonical_def)
    then show ?thesis
      using Inr large by simp
  qed (use Inr app dup in \<open>auto simp: applyCanonical_def\<close>)
qed

theorem apply_exact_witness:
  "reached exSha (newMachine exSha) \<and> digestSize exSha \<and> wfCommand exCommand \<and>
   (\<exists>m' b. Apply exSha exCommand (Some (newMachine exSha)) = (Some m', Inr b) \<and>
     map_of (kvState m') = [[65] \<mapsto> [1, 2]])"
proof -
  have "length exData = 36"
    by (simp add: exData_def)
  moreover have "stateSize (applyOperation exCommand []) = 3"
    by (simp add: stateSize_def applyOperation_def exCommand_def)
  ultimately show ?thesis
    using apply_exact [OF reached_new digestSize_exSha exCommand_wf] exCommand_wf digestSize_exSha
      reached_new [of exSha] exCommand_encodes
    by (auto simp: newMachine_def oracle_limits) (auto simp: exCommand_def)
qed

text \<open>
  C20. Checkpoints: \<open>Restore\<close> accepts a checkpoint exactly when it is the checkpoint of some machine built by
  applying commands, and returns that machine; so a checkpoint restores to the machine it was taken from, and
  one whose state, history, digests or counters were altered is rejected.
\<close>

theorem restore_iff:
  assumes "digestSize sha"
  shows "Restore sha cp = Inr m \<longleftrightarrow> reached sha m \<and> checkpointOf sha m = cp"
  using assms Restore_sound Restore_checkpointOf by blast

theorem restore_iff_witness:
  "digestSize exSha \<and> Restore exSha (checkpointOf exSha exMachine) = Inr exMachine"
  using restore_iff [of exSha "checkpointOf exSha exMachine" exMachine] digestSize_exSha exMachine_reached by simp

text \<open>
  C21. The commitment binds the whole history: two machines whose chain digests agree are the same machine,
  unless the hash collides on two of the byte strings that were chained.
\<close>

theorem commitment_binding:
  assumes "digestSize sha" and "reached sha m" and "reached sha m'"
    and "inj_on sha (set (hashedInputs sha m) \<union> set (hashedInputs sha m'))"
    and "cmChainDigest (commitmentOf sha m) = cmChainDigest (commitmentOf sha m')"
  shows "m = m'"
  using assms by (intro chain_binding) (simp_all add: commitmentOf_def)

theorem commitment_binding_witness:
  "digestSize exSha \<and> reached exSha exMachine \<and>
   inj_on exSha (set (hashedInputs exSha exMachine) \<union> set (hashedInputs exSha exMachine)) \<and>
   Restore exSha (checkpointOf exSha exMachine) = Inr exMachine"
proof -
  have "inj_on exSha (set (hashedInputs exSha exMachine) \<union> set (hashedInputs exSha exMachine))"
  proof -
    obtain sd where "hashedInputs exSha exMachine = hashedInputs exSha (newMachine exSha) @
        [chainInput (chainDigest (newMachine exSha)) (length (kvHistory (newMachine exSha)) + 1) exData sd]"
      and "length sd = 32"
      using exMachine_step hashedInputs_apply [OF reached_new] digestSize_exSha by metis
    then show ?thesis
      by (simp add: hashedInputs_def newMachine_def exSha_def genesis_def ChainSchema_def chainInput_def exData_def)
  qed
  note inj = this
  have same: "restored = exMachine" if "Restore exSha (checkpointOf exSha exMachine) = Inr restored" for restored
    using that Restore_checkpointOf [OF exMachine_reached digestSize_exSha] by simp
  obtain restored where r: "Restore exSha (checkpointOf exSha exMachine) = Inr restored"
    using Restore_checkpointOf [OF exMachine_reached digestSize_exSha] by blast
  have "exMachine = restored"
    using digestSize_exSha exMachine_reached Restore_sound(1) [OF r]
    by (rule commitment_binding) (simp_all only: same [OF r] inj)
  then show ?thesis
    using r inj digestSize_exSha exMachine_reached by blast
qed

text \<open>
  Encoded checkpoints: if the JSON decoder inverts the JSON encoder, a checkpoint that the encoder accepts
  decodes to itself, and every byte string that the decoder accepts is the encoding of its result.
\<close>

lemma checkpoint_roundtrip:
  assumes "decodeStrict (marshal cp) = Some cp" and "marshal cp \<noteq> []"
  shows "EncodeCheckpoint sha marshal cp = Inr data \<longleftrightarrow> DecodeCheckpoint sha marshal decodeStrict data = Inr cp"
proof
  assume "EncodeCheckpoint sha marshal cp = Inr data"
  then show "DecodeCheckpoint sha marshal decodeStrict data = Inr cp"
    using assms by (auto simp: EncodeCheckpoint_def DecodeCheckpoint_def Let_def split: sum.splits if_splits)
next
  assume "DecodeCheckpoint sha marshal decodeStrict data = Inr cp"
  then show "EncodeCheckpoint sha marshal cp = Inr data"
    by (auto simp: EncodeCheckpoint_def DecodeCheckpoint_def Let_def split: sum.splits if_splits option.splits)
qed

end
