(* ===== verification/JsonText.thy ===== *)
theory JsonText
  imports Json Encoding
begin

text \<open>
  What the program writes with Go's \<open>encoding/json\<close>: string literals with the escapes of \<open>json.Marshal\<close>
  (quotes, control characters, the HTML characters, U+2028 and U+2029, and the replacement of bytes that are
  not UTF-8), decimal integers, and \<open>json.Compact\<close>, which drops white space outside string literals.
\<close>

text \<open>The width of the rune at the head, or 0 when it is not valid UTF-8 (\<open>utf8.DecodeRune\<close>).\<close>

definition cont :: "byte \<Rightarrow> bool" where
  "cont b \<longleftrightarrow> 0x80 \<le> b \<and> b \<le> 0xBF"

definition runeWidth :: "bytes \<Rightarrow> nat" where
  "runeWidth bs =
     (case bs of
        [] \<Rightarrow> 0
      | b # r \<Rightarrow>
          if b < 0x80 then 1
          else (case r of
             [] \<Rightarrow> 0
           | c # r2 \<Rightarrow>
               if 0xC2 \<le> b \<and> b \<le> 0xDF then (if cont c then 2 else 0)
               else (case r2 of
                  [] \<Rightarrow> 0
                | d # r3 \<Rightarrow>
                    if 0xE0 \<le> b \<and> b \<le> 0xEF then
                      (if cont c \<and> cont d \<and> (b = 0xE0 \<longrightarrow> 0xA0 \<le> c) \<and> (b = 0xED \<longrightarrow> c \<le> 0x9F) then 3 else 0)
                    else (case r3 of
                       [] \<Rightarrow> 0
                     | e # _ \<Rightarrow>
                         if 0xF0 \<le> b \<and> b \<le> 0xF4 \<and> cont c \<and> cont d \<and> cont e
                            \<and> (b = 0xF0 \<longrightarrow> 0x90 \<le> c) \<and> (b = 0xF4 \<longrightarrow> c \<le> 0x8F) then 4 else 0))))"

definition hexByte :: "byte \<Rightarrow> bytes" where
  "hexByte b = ascii [hexDigit (unat b div 16), hexDigit (unat b mod 16)]"

definition escapeASCII :: "byte \<Rightarrow> bytes" where
  "escapeASCII b =
     (if b = 34 then [92, 34]
      else if b = 92 then [92, 92]
      else if b = 8 then ascii [CHR 0x5C, CHR ''b'']
      else if b = 12 then ascii [CHR 0x5C, CHR ''f'']
      else if b = 10 then ascii [CHR 0x5C, CHR ''n'']
      else if b = 13 then ascii [CHR 0x5C, CHR ''r'']
      else if b = 9 then ascii [CHR 0x5C, CHR ''t'']
      else if b < 32 \<or> b = 60 \<or> b = 62 \<or> b = 38 then [92] @ ascii ''u00'' @ hexByte b
      else [b])"

function escapeString :: "bytes \<Rightarrow> bytes" where
  "escapeString [] = []"
| "escapeString (b # bs) =
     (if b < 0x80 then escapeASCII b @ escapeString bs
      else let n = runeWidth (b # bs) in
        if n = 0 then [92] @ ascii ''ufffd'' @ escapeString bs
        else if take 2 (b # bs) = [0xE2, 0x80] \<and> n = 3 \<and> bs ! 1 \<in> {0xA8, 0xA9}
        then [92] @ ascii ''u202'' @ [bs ! 1 - 0x70] @ escapeString (drop 2 bs)
        else take n (b # bs) @ escapeString (drop (n - 1) bs))"
  by pat_completeness auto
termination
  by (relation "measure length") auto

definition jsonQuote :: "bytes \<Rightarrow> bytes" where
  "jsonQuote s = [34] @ escapeString s @ [34]"

fun showDec :: "nat \<Rightarrow> bytes" where
  "showDec n = (if n < 10 then [48 + of_nat n] else showDec (n div 10) @ [48 + of_nat (n mod 10)])"

declare showDec.simps [simp del]

definition showInt :: "int \<Rightarrow> bytes" where
  "showInt i = (if i < 0 then 45 # showDec (nat (- i)) else showDec (nat i))"

text \<open>\<open>json.Compact\<close>: the flag says whether the scan is inside a string literal.\<close>

fun stripSpace :: "bool \<Rightarrow> bytes \<Rightarrow> bytes" where
  "stripSpace q [] = []"
| "stripSpace True [b] = [b]"
| "stripSpace True (b # c # bs) =
     (if b = 92 then b # c # stripSpace True bs
      else b # stripSpace (b \<noteq> 34) (c # bs))"
| "stripSpace False (b # bs) =
     (if isWS b then stripSpace False bs else b # stripSpace (b = 34) bs)"

definition jsonCompact :: "bytes \<Rightarrow> bytes option" where
  "jsonCompact bs = (if jsonValid bs then Some (stripSpace False bs) else None)"

lemma escape_samples:
  "jsonQuote (ascii ''a<b'') = ascii ([CHR 0x22] @ ''a'' @ [CHR 0x5C] @ ''u003cb'' @ [CHR 0x22])"
  "jsonQuote [0xE2, 0x80, 0xA8, 0xFF] = [34, 92] @ ascii ''u2028'' @ [92] @ ascii ''ufffd'' @ [34]"
  by code_simp+

end
