(* ===== verification/Decision.thy ===== *)
theory Decision
  imports JsonText SimRand
begin

text \<open>
  Semantic choices (\<open>src/decision/decision.go\<close>, \<open>src/decision/control.go\<close>): validation of choices and
  selections, canonical encodings, and the deciders: seeded, recording, exact replay, prefix replay and
  guidance. A decider is a function from its state and a choice to the new state and the answer; the outer
  \<open>None\<close> is a panic. \<open>crypto/sha256\<close> is the argument \<open>sha\<close>. Copies of tapes, choices and selections are the
  identity on immutable values.
\<close>

section \<open>Choices\<close>

record DOption =
  oID :: string
  oWeight :: u64

record Choice =
  chID :: string
  chKind :: string
  chOptions :: "DOption list"
  chMin :: "int option"
  chMax :: "int option"
  chContext :: bytes

record Selection =
  selOption :: string
  selNumber :: "int option"

record TapeEntry =
  teChoice :: Choice
  teDomainDigest :: string
  teContextDigest :: string
  teSelection :: Selection

record Tape =
  tpSchema :: string
  tpEntries :: "TapeEntry list"

datatype dec_error =
    ErrInvalidChoice | ErrTapeExhausted | ErrTapeMismatch | ErrTapeNotConsumed
  | OpenChoice nat Choice | ErrNoBase | ErrNilFallback

definition DecisionSchema :: string where "DecisionSchema = ''d-raft.decisions/v1''"

definition optionSelection :: "string \<Rightarrow> Selection" where
  "optionSelection i = \<lparr>selOption = i, selNumber = None\<rparr>"

definition numberSelection :: "int \<Rightarrow> Selection" where
  "numberSelection n = \<lparr>selOption = [], selNumber = Some n\<rparr>"

text \<open>The bounds of a range are \<open>int64\<close> values.\<close>

definition wfChoice :: "Choice \<Rightarrow> bool" where
  "wfChoice c \<longleftrightarrow> (case chMax c of None \<Rightarrow> True | Some hi \<Rightarrow> hi \<le> MaxInt64)"

fun optionsValid :: "string list \<Rightarrow> DOption list \<Rightarrow> bool" where
  "optionsValid seen [] = True"
| "optionsValid seen (opt # opts) =
     (if oID opt = [] \<or> oWeight opt = 0 then False
      else if oID opt \<in> set seen then False
      else optionsValid (oID opt # seen) opts)"

definition ValidateChoice :: "Choice \<Rightarrow> dec_error option" where
  "ValidateChoice c =
     (let hasOptions = chOptions c \<noteq> []; hasRange = chMin c \<noteq> None \<or> chMax c \<noteq> None in
      if chID c = [] \<or> chKind c = [] then Some ErrInvalidChoice
      else if chContext c \<noteq> [] \<and> \<not> jsonValid (chContext c) then Some ErrInvalidChoice
      else if hasOptions = hasRange \<or> hasRange \<and>
          (case (chMin c, chMax c) of (Some lo, Some hi) \<Rightarrow> lo < 0 \<or> hi < lo | _ \<Rightarrow> True)
      then Some ErrInvalidChoice
      else if \<not> optionsValid [] (chOptions c) then Some ErrInvalidChoice
      else None)"

text \<open>
  Every caller validates the choice first, so a choice without options has both bounds (the code would
  dereference a nil pointer otherwise).
\<close>

definition validateSelection :: "Choice \<Rightarrow> Selection \<Rightarrow> dec_error option" where
  "validateSelection c s =
     (if chOptions c \<noteq> [] then
        (if selNumber s \<noteq> None \<or> selOption s = [] then Some ErrInvalidChoice
         else if \<exists>opt \<in> set (chOptions c). selOption s = oID opt then None
         else Some ErrInvalidChoice)
      else (case (selNumber s, chMin c, chMax c) of
          (Some n, Some lo, Some hi) \<Rightarrow>
            if selOption s \<noteq> [] \<or> n < lo \<or> n > hi then Some ErrInvalidChoice else None
        | _ \<Rightarrow> Some ErrInvalidChoice))"

definition ValidateSelection :: "Choice \<Rightarrow> Selection \<Rightarrow> dec_error option" where
  "ValidateSelection c s = (case ValidateChoice c of Some e \<Rightarrow> Some e | None \<Rightarrow> validateSelection c s)"

section \<open>Canonical encodings\<close>

definition joinComma :: "bytes list \<Rightarrow> bytes" where
  "joinComma xs = (case xs of [] \<Rightarrow> [] | y # ys \<Rightarrow> y @ concat (map (\<lambda>z. 44 # z) ys))"

definition jsonField :: "string \<Rightarrow> bytes \<Rightarrow> bytes" where
  "jsonField name v = [34] @ ascii name @ [34, 58] @ v"

definition marshalOption :: "DOption \<Rightarrow> bytes" where
  "marshalOption opt =
     [123] @ joinComma [jsonField ''id'' (jsonQuote (ascii (oID opt))),
       jsonField ''weight'' (showDec (unat (oWeight opt)))] @ [125]"

definition marshalCanonicalDomain :: "Choice \<Rightarrow> bytes" where
  "marshalCanonicalDomain c =
     [123] @ joinComma ([jsonField ''kind'' (jsonQuote (ascii (chKind c)))]
       @ (if chOptions c = [] then []
          else [jsonField ''options'' ([91] @ joinComma (map marshalOption (chOptions c)) @ [93])])
       @ (case chMin c of None \<Rightarrow> [] | Some n \<Rightarrow> [jsonField ''min'' (showInt n)])
       @ (case chMax c of None \<Rightarrow> [] | Some n \<Rightarrow> [jsonField ''max'' (showInt n)])) @ [125]"

definition marshalCanonicalContext :: "Choice \<Rightarrow> dec_error + bytes" where
  "marshalCanonicalContext c =
     (case jsonCompact (if chContext c = [] then ascii ''null'' else chContext c) of
        None \<Rightarrow> Inl ErrInvalidChoice | Some b \<Rightarrow> Inr b)"

definition canonicalChoiceUnchecked :: "Choice \<Rightarrow> dec_error + (bytes \<times> bytes)" where
  "canonicalChoiceUnchecked c =
     (case marshalCanonicalContext c of Inl e \<Rightarrow> Inl e | Inr ctx \<Rightarrow> Inr (marshalCanonicalDomain c, ctx))"

definition canonicalChoice :: "Choice \<Rightarrow> dec_error + (bytes \<times> bytes)" where
  "canonicalChoice c = (case ValidateChoice c of Some e \<Rightarrow> Inl e | None \<Rightarrow> canonicalChoiceUnchecked c)"

definition CanonicalDomain :: "Choice \<Rightarrow> dec_error + bytes" where
  "CanonicalDomain c = (case ValidateChoice c of Some e \<Rightarrow> Inl e | None \<Rightarrow> Inr (marshalCanonicalDomain c))"

definition CanonicalContext :: "Choice \<Rightarrow> dec_error + bytes" where
  "CanonicalContext c = (case ValidateChoice c of Some e \<Rightarrow> Inl e | None \<Rightarrow> marshalCanonicalContext c)"

definition digestBytes :: "(bytes \<Rightarrow> bytes) \<Rightarrow> bytes \<Rightarrow> string" where
  "digestBytes sha raw = EncodeToString (sha raw)"

definition DomainDigest :: "(bytes \<Rightarrow> bytes) \<Rightarrow> Choice \<Rightarrow> dec_error + string" where
  "DomainDigest sha c = (case CanonicalDomain c of Inl e \<Rightarrow> Inl e | Inr raw \<Rightarrow> Inr (digestBytes sha raw))"

definition ContextDigest :: "(bytes \<Rightarrow> bytes) \<Rightarrow> Choice \<Rightarrow> dec_error + string" where
  "ContextDigest sha c = (case CanonicalContext c of Inl e \<Rightarrow> Inl e | Inr raw \<Rightarrow> Inr (digestBytes sha raw))"

definition newEntry :: "(bytes \<Rightarrow> bytes) \<Rightarrow> Choice \<Rightarrow> Selection \<Rightarrow> dec_error + TapeEntry" where
  "newEntry sha c s =
     (case ValidateSelection c s of
        Some e \<Rightarrow> Inl e
      | None \<Rightarrow> (case canonicalChoiceUnchecked c of
           Inl e \<Rightarrow> Inl e
         | Inr (dm, ctx) \<Rightarrow> Inr \<lparr>teChoice = c, teDomainDigest = digestBytes sha dm,
             teContextDigest = digestBytes sha ctx, teSelection = s\<rparr>))"

section \<open>The seeded decider\<close>

type_synonym 's chooser = "'s \<Rightarrow> Choice \<Rightarrow> ('s \<times> (dec_error + Selection)) option"

fun totalWeight :: "u64 \<Rightarrow> DOption list \<Rightarrow> u64 option" where
  "totalWeight acc [] = Some acc"
| "totalWeight acc (opt # opts) =
     (if MaxUint64 - acc < oWeight opt then None else totalWeight (acc + oWeight opt) opts)"

fun pickWeighted :: "u64 \<Rightarrow> DOption list \<Rightarrow> string option" where
  "pickWeighted draw [] = None"
| "pickWeighted draw (opt # opts) =
     (if draw < oWeight opt then Some (oID opt) else pickWeighted (draw - oWeight opt) opts)"

definition NewSeedDecider :: "u64 \<Rightarrow> Rand" where
  "NewSeedDecider seed = NewRand seed"

definition seedChoose :: "Rand chooser" where
  "seedChoose r c =
     (case ValidateChoice c of
        Some e \<Rightarrow> Some (r, Inl e)
      | None \<Rightarrow>
          if chOptions c \<noteq> [] then
            (if length (chOptions c) = 1 then Some (r, Inr (optionSelection (oID (hd (chOptions c)))))
             else (case totalWeight 0 (chOptions c) of
                None \<Rightarrow> Some (r, Inl ErrInvalidChoice)
              | Some t \<Rightarrow>
                  (case Uint64N t r of
                     None \<Rightarrow> None
                   | Some (r', draw) \<Rightarrow>
                       map_option (\<lambda>i. (r', Inr (optionSelection i))) (pickWeighted draw (chOptions c)))))
          else
            let lo = the (chMin c); hi = the (chMax c) in
            if lo = hi then Some (r, Inr (numberSelection lo))
            else map_option (\<lambda>(r', v). (r', Inr (numberSelection (lo + uint v))))
                   (Uint64N (of_int (hi - lo) + 1) r))"

section \<open>Recording\<close>

record 's Recorder =
  recBase :: "'s option"
  recEntries :: "TapeEntry list"
  recErr :: "dec_error option"

definition NewRecorder :: "'s option \<Rightarrow> 's Recorder" where
  "NewRecorder base = \<lparr>recBase = base, recEntries = [], recErr = None\<rparr>"

definition recorderChoose :: "(bytes \<Rightarrow> bytes) \<Rightarrow> 's chooser \<Rightarrow> 's Recorder chooser" where
  "recorderChoose sha pick r c =
     (case recErr r of
        Some e \<Rightarrow> Some (r, Inl e)
      | None \<Rightarrow>
          (case recBase r of
             None \<Rightarrow> Some (r\<lparr>recErr := Some ErrNoBase\<rparr>, Inl ErrNoBase)
           | Some s \<Rightarrow>
               (case pick s c of
                  None \<Rightarrow> None
                | Some (s', Inl e) \<Rightarrow> Some (r\<lparr>recBase := Some s', recErr := Some e\<rparr>, Inl e)
                | Some (s', Inr sel) \<Rightarrow>
                    (case newEntry sha c sel of
                       Inl e \<Rightarrow> Some (r\<lparr>recBase := Some s', recErr := Some e\<rparr>, Inl e)
                     | Inr entry \<Rightarrow> Some (r\<lparr>recBase := Some s', recEntries := recEntries r @ [entry]\<rparr>, Inr sel)))))"

definition recorderTape :: "'s Recorder \<Rightarrow> Tape" where
  "recorderTape r = \<lparr>tpSchema = DecisionSchema, tpEntries = recEntries r\<rparr>"

definition recorderSuffix :: "int \<Rightarrow> 's Recorder \<Rightarrow> TapeEntry list option" where
  "recorderSuffix start r =
     (if start < 0 \<or> start > int (length (recEntries r)) then None else Some (drop (nat start) (recEntries r)))"

section \<open>Exact replay\<close>

record TapeDecider =
  tdTape :: Tape
  tdIndex :: nat
  tdIncludeOperationIDs :: bool

definition entryStored :: "(bytes \<Rightarrow> bytes) \<Rightarrow> TapeEntry \<Rightarrow> bool" where
  "entryStored sha e \<longleftrightarrow>
     (case canonicalChoice (teChoice e) of
        Inl _ \<Rightarrow> False
      | Inr (dm, ctx) \<Rightarrow> digestBytes sha dm = teDomainDigest e \<and> digestBytes sha ctx = teContextDigest e
          \<and> validateSelection (teChoice e) (teSelection e) = None)"

definition newTapeDecider :: "(bytes \<Rightarrow> bytes) \<Rightarrow> Tape \<Rightarrow> bool \<Rightarrow> dec_error + TapeDecider" where
  "newTapeDecider sha tape includeOperationIDs =
     (if tpSchema tape \<noteq> DecisionSchema then Inl ErrTapeMismatch
      else if \<not> list_all (entryStored sha) (tpEntries tape) then Inl ErrTapeMismatch
      else Inr \<lparr>tdTape = tape, tdIndex = 0, tdIncludeOperationIDs = includeOperationIDs\<rparr>)"

definition tapeChoose :: "(bytes \<Rightarrow> bytes) \<Rightarrow> TapeDecider chooser" where
  "tapeChoose sha d c =
     (if tdIndex d \<ge> length (tpEntries (tdTape d)) then Some (d, Inl ErrTapeExhausted)
      else
        let entry = tpEntries (tdTape d) ! tdIndex d in
        (case canonicalChoice c of
           Inl e \<Rightarrow> Some (d, Inl e)
         | Inr (actualDomain, actualContext) \<Rightarrow>
             (case canonicalChoiceUnchecked (teChoice entry) of
                Inl e \<Rightarrow> Some (d, Inl e)
              | Inr (recordedDomain, recordedContext) \<Rightarrow>
                  if chID (teChoice entry) \<noteq> chID c \<or> chKind (teChoice entry) \<noteq> chKind c
                     \<or> recordedDomain \<noteq> actualDomain \<or> recordedContext \<noteq> actualContext
                     \<or> teDomainDigest entry \<noteq> digestBytes sha actualDomain
                     \<or> teContextDigest entry \<noteq> digestBytes sha actualContext
                  then Some (d, Inl ErrTapeMismatch)
                  else (case validateSelection c (teSelection entry) of
                     Some _ \<Rightarrow> Some (d, Inl ErrTapeMismatch)
                   | None \<Rightarrow> Some (d\<lparr>tdIndex := Suc (tdIndex d)\<rparr>, Inr (teSelection entry))))))"

definition tapeFinish :: "TapeDecider \<Rightarrow> dec_error option" where
  "tapeFinish d = (if tdIndex d \<noteq> length (tpEntries (tdTape d)) then Some ErrTapeNotConsumed else None)"

section \<open>Prefixes and guidance\<close>

record PrefixDecider =
  pdReplay :: TapeDecider
  pdLength :: nat

definition NewPrefixDecider :: "(bytes \<Rightarrow> bytes) \<Rightarrow> Tape \<Rightarrow> dec_error + PrefixDecider" where
  "NewPrefixDecider sha prefix = (case newTapeDecider sha prefix False of Inl e \<Rightarrow> Inl e
     | Inr d \<Rightarrow> Inr \<lparr>pdReplay = d, pdLength = length (tpEntries prefix)\<rparr>)"

definition prefixChoose :: "(bytes \<Rightarrow> bytes) \<Rightarrow> PrefixDecider chooser" where
  "prefixChoose sha d c =
     (if tdIndex (pdReplay d) < pdLength d
      then map_option (\<lambda>(t, a). (d\<lparr>pdReplay := t\<rparr>, a)) (tapeChoose sha (pdReplay d) c)
      else (case ValidateChoice c of
          Some e \<Rightarrow> Some (d, Inl e)
        | None \<Rightarrow> Some (d, Inl (OpenChoice (pdLength d) c))))"

definition prefixFinish :: "PrefixDecider \<Rightarrow> dec_error option" where
  "prefixFinish d = tapeFinish (pdReplay d)"

record 's PrefixThenDecider =
  ptReplay :: TapeDecider
  ptLength :: nat
  ptFallback :: 's

definition NewPrefixThenDecider ::
  "(bytes \<Rightarrow> bytes) \<Rightarrow> Tape \<Rightarrow> 's option \<Rightarrow> dec_error + 's PrefixThenDecider" where
  "NewPrefixThenDecider sha prefix fallback =
     (case fallback of
        None \<Rightarrow> Inl ErrNilFallback
      | Some s \<Rightarrow> (case newTapeDecider sha prefix False of Inl e \<Rightarrow> Inl e
          | Inr d \<Rightarrow> Inr \<lparr>ptReplay = d, ptLength = length (tpEntries prefix), ptFallback = s\<rparr>))"

definition prefixThenChoose :: "(bytes \<Rightarrow> bytes) \<Rightarrow> 's chooser \<Rightarrow> 's PrefixThenDecider chooser" where
  "prefixThenChoose sha pick d c =
     (if tdIndex (ptReplay d) < ptLength d
      then map_option (\<lambda>(t, a). (d\<lparr>ptReplay := t\<rparr>, a)) (tapeChoose sha (ptReplay d) c)
      else map_option (\<lambda>(s, a). (d\<lparr>ptFallback := s\<rparr>, a)) (pick (ptFallback d) c))"

definition prefixThenFinish :: "'s PrefixThenDecider \<Rightarrow> dec_error option" where
  "prefixThenFinish d = tapeFinish (ptReplay d)"

definition appendKeyField :: "bytes \<Rightarrow> bytes \<Rightarrow> bytes" where
  "appendKeyField destination field = destination @ be64 (length field) @ field"

definition choiceKey :: "Choice \<Rightarrow> dec_error + bytes" where
  "choiceKey c =
     (case CanonicalDomain c of
        Inl e \<Rightarrow> Inl e
      | Inr dm \<Rightarrow> (case CanonicalContext c of
           Inl e \<Rightarrow> Inl e
         | Inr ctx \<Rightarrow> Inr (appendKeyField (appendKeyField (appendKeyField (appendKeyField []
             (ascii (chID c))) (ascii (chKind c))) dm) ctx)))"

record 's GuidedDecider =
  gdEntries :: "(bytes \<times> TapeEntry) list"
  gdFallback :: 's

fun guideEntries :: "(bytes \<times> TapeEntry) list \<Rightarrow> TapeEntry list \<Rightarrow> dec_error + (bytes \<times> TapeEntry) list" where
  "guideEntries acc [] = Inr acc"
| "guideEntries acc (e # es) =
     (case choiceKey (teChoice e) of
        Inl err \<Rightarrow> Inl err
      | Inr key \<Rightarrow>
          if map_of acc key \<noteq> None then Inl ErrTapeMismatch else guideEntries (AList.update key e acc) es)"

definition NewGuidedDecider :: "(bytes \<Rightarrow> bytes) \<Rightarrow> Tape \<Rightarrow> 's option \<Rightarrow> dec_error + 's GuidedDecider" where
  "NewGuidedDecider sha guide fallback =
     (case fallback of
        None \<Rightarrow> Inl ErrNilFallback
      | Some s \<Rightarrow> (case newTapeDecider sha guide False of
           Inl e \<Rightarrow> Inl e
         | Inr _ \<Rightarrow> (case guideEntries [] (tpEntries guide) of
              Inl e \<Rightarrow> Inl e
            | Inr al \<Rightarrow> Inr \<lparr>gdEntries = al, gdFallback = s\<rparr>)))"

definition guidedChoose :: "'s chooser \<Rightarrow> 's GuidedDecider chooser" where
  "guidedChoose pick d c =
     (case choiceKey c of
        Inl e \<Rightarrow> Some (d, Inl e)
      | Inr key \<Rightarrow> (case map_of (gdEntries d) key of
           Some e \<Rightarrow> Some (d, Inr (teSelection e))
         | None \<Rightarrow> map_option (\<lambda>(s, a). (d\<lparr>gdFallback := s\<rparr>, a)) (pick (gdFallback d) c)))"

end
