(* ===== verification/DecisionProps.thy ===== *)
theory DecisionProps
  imports Decision
begin

text \<open>
  Properties of the deciders: the interface they share, seeded selection, recording and exact replay, and
  the keys of guided replay.
\<close>

section \<open>Valid choices\<close>

lemma valid_canonical:
  assumes "ValidateChoice c = None"
  shows "\<exists>ctx. canonicalChoiceUnchecked c = Inr (marshalCanonicalDomain c, ctx)"
proof -
  have "jsonValid (if chContext c = [] then ascii ''null'' else chContext c)"
  proof (cases "chContext c = []")
    case True
    have "jsonValid [110, 117, 108, 108]"
      by code_simp
    moreover have "ascii ''null'' = [110, 117, 108, 108 :: byte]"
      by code_simp
    ultimately show ?thesis
      using True by simp
  next
    case False
    then show ?thesis
      using assms by (auto simp: ValidateChoice_def Let_def split: if_splits)
  qed
  then show ?thesis
    by (simp add: canonicalChoiceUnchecked_def marshalCanonicalContext_def jsonCompact_def)
qed

lemma valid_domain:
  assumes "ValidateChoice c = None" and "chOptions c = []"
  obtains lo hi where "chMin c = Some lo" and "chMax c = Some hi" and "0 \<le> lo" and "lo \<le> hi"
  using assms by (auto simp: ValidateChoice_def Let_def split: if_splits option.splits)

lemma valid_options: "ValidateChoice c = None \<Longrightarrow> optionsValid [] (chOptions c)"
  by (auto simp: ValidateChoice_def Let_def split: if_splits)

lemma optionsValid_iff:
  "optionsValid seen opts \<longleftrightarrow> (\<forall>opt\<in>set opts. oID opt \<noteq> [] \<and> oWeight opt \<noteq> 0 \<and> oID opt \<notin> set seen)
     \<and> distinct (map oID opts)"
  by (induction opts arbitrary: seen) (auto, metis image_eqI)

lemma newEntry_Inr:
  "newEntry sha c s = Inr e \<longleftrightarrow> ValidateChoice c = None \<and> validateSelection c s = None \<and>
     (\<exists>ctx. canonicalChoiceUnchecked c = Inr (marshalCanonicalDomain c, ctx) \<and>
       e = \<lparr>teChoice = c, teDomainDigest = digestBytes sha (marshalCanonicalDomain c),
            teContextDigest = digestBytes sha ctx, teSelection = s\<rparr>)"
  by (auto simp: newEntry_def ValidateSelection_def canonicalChoiceUnchecked_def split: option.splits sum.splits)

lemma newEntry_valid:
  "ValidateChoice c = None \<Longrightarrow> validateSelection c s = None \<Longrightarrow> \<exists>e. newEntry sha c s = Inr e"
  using valid_canonical [of c] by (auto simp: newEntry_Inr)

lemma newEntry_stored: "newEntry sha c s = Inr e \<Longrightarrow> entryStored sha e"
  by (auto simp: newEntry_Inr entryStored_def canonicalChoice_def)

section \<open>The interface of deciders\<close>

text \<open>
  The contract of \<open>decision.Decider\<close>: an answer lies in the domain of a valid choice. A recorder in front
  of such a decider changes nothing that its client sees.
\<close>

locale decider =
  fixes pick :: "'s chooser"
  assumes answers_valid:
    "pick s c = Some (s', Inr sel) \<Longrightarrow> wfChoice c \<Longrightarrow> ValidateChoice c = None \<and> validateSelection c sel = None"
begin

lemma recorder_transparent:
  assumes "wfChoice c" and "recErr r = None" and "recBase r = Some s" and "pick s c = Some (s', a)"
  shows "\<exists>r'. recorderChoose sha pick r c = Some (r', a) \<and> recBase r' = Some s'"
proof (cases a)
  case (Inl e)
  then show ?thesis
    using assms by (simp add: recorderChoose_def)
next
  case (Inr sel)
  then obtain e where "newEntry sha c sel = Inr e"
    using newEntry_valid answers_valid assms(1,4) by blast
  then show ?thesis
    using assms Inr by (simp add: recorderChoose_def)
qed

end

subsection \<open>The seeded decider\<close>

lemma totalWeight_sum:
  "totalWeight acc opts = Some t \<Longrightarrow> unat t = unat acc + sum_list (map (\<lambda>opt. unat (oWeight opt)) opts)"
proof (induction opts arbitrary: acc)
  case (Cons opt opts)
  then have le: "oWeight opt \<le> MaxUint64 - acc" and rest: "totalWeight (acc + oWeight opt) opts = Some t"
    by (auto split: if_splits)
  have "unat (MaxUint64 - acc) = unat MaxUint64 - unat acc"
    by (rule unat_sub) simp
  then have "unat acc + unat (oWeight opt) < 2 ^ 64"
    using le unat_u64_less [of acc] by (simp add: word_le_nat_alt)
  then have "unat (acc + oWeight opt) = unat acc + unat (oWeight opt)"
    using unat_plus_of_nat [of acc "unat (oWeight opt)"] by simp
  then show ?case
    using Cons.IH [OF rest] by simp
qed simp

lemma pickWeighted_some:
  "unat draw < sum_list (map (\<lambda>opt. unat (oWeight opt)) opts) \<Longrightarrow>
   \<exists>opt\<in>set opts. pickWeighted draw opts = Some (oID opt)"
proof (induction opts arbitrary: draw)
  case (Cons opt opts)
  show ?case
  proof (cases "draw < oWeight opt")
    case False
    then have "unat (draw - oWeight opt) = unat draw - unat (oWeight opt)"
      by (intro unat_sub) simp
    then have "unat (draw - oWeight opt) < sum_list (map (\<lambda>opt. unat (oWeight opt)) opts)"
      using Cons.prems False by (simp add: not_less word_le_nat_alt)
    then show ?thesis
      using Cons.IH False by simp
  qed simp
qed simp

lemma Uint64N_draw:
  assumes "n \<noteq> 0"
  obtains r' v where "Uint64N n r = Some (r', v)" and "v < n"
  using first_accepted [OF assms, of r] assms by (fastforce simp: Uint64N_def)

lemma span_unat:
  assumes "0 \<le> lo" and "lo < hi" and "hi \<le> MaxInt64"
  shows "uint (of_int (hi - lo) + 1 :: u64) = hi - lo + 1"
proof -
  have "(of_int (hi - lo) + 1 :: u64) = of_int (hi - lo + 1)"
    by simp
  moreover have "uint (of_int (hi - lo + 1) :: u64) = hi - lo + 1"
    using assms by (subst unsigned_of_int) (simp add: take_bit_int_eq_self MaxInt64_def)
  ultimately show ?thesis by (simp only:)
qed

lemma sum_weights_positive:
  "opts \<noteq> [] \<Longrightarrow> optionsValid seen opts \<Longrightarrow> 0 < sum_list (map (\<lambda>opt. unat (oWeight opt)) opts)"
  by (cases opts) (auto simp: unat_gt_0)

lemma seed_options:
  assumes v: "ValidateChoice c = None" and ne: "chOptions c \<noteq> []" and t: "totalWeight 0 (chOptions c) = Some t"
  shows "\<exists>r' sel. seedChoose r c = Some (r', Inr sel) \<and> validateSelection c sel = None"
proof (cases "length (chOptions c) = 1")
  case True
  then obtain opt where "chOptions c = [opt]"
    by (auto simp: length_Suc_conv)
  then show ?thesis
    using v valid_options [OF v] by (simp add: seedChoose_def validateSelection_def optionSelection_def split: if_splits)
next
  case False
  let ?w = "sum_list (map (\<lambda>opt. unat (oWeight opt)) (chOptions c))"
  have t': "unat t = ?w"
    using totalWeight_sum [OF t] by simp
  then have "unat t \<noteq> 0"
    using sum_weights_positive [OF ne valid_options [OF v]] by (simp only: less_not_refl2 not_False_eq_True)
  then have "t \<noteq> 0"
    by auto
  then obtain r' draw where d: "Uint64N t r = Some (r', draw)" "draw < t"
    by (rule Uint64N_draw)
  then obtain opt where "opt \<in> set (chOptions c)" "pickWeighted draw (chOptions c) = Some (oID opt)"
    using pickWeighted_some [of draw "chOptions c"] t' by (auto simp: word_less_nat_alt)
  moreover have "oID opt \<noteq> []"
    using calculation valid_options [OF v] by (auto simp: optionsValid_iff)
  ultimately show ?thesis
    using v ne t d False by (auto simp: seedChoose_def validateSelection_def optionSelection_def)
qed

lemma seed_range:
  assumes v: "ValidateChoice c = None" and ne: "chOptions c = []" and wf: "wfChoice c"
  shows "\<exists>r' sel. seedChoose r c = Some (r', Inr sel) \<and> validateSelection c sel = None"
proof -
  obtain lo hi where b: "chMin c = Some lo" "chMax c = Some hi" "0 \<le> lo" "lo \<le> hi"
    using v ne by (rule valid_domain)
  show ?thesis
  proof (cases "lo = hi")
    case True
    then show ?thesis
      using v ne b by (simp add: seedChoose_def validateSelection_def numberSelection_def)
  next
    case False
    let ?n = "of_int (hi - lo) + 1 :: u64"
    have span: "uint ?n = hi - lo + 1"
      using b wf False by (intro span_unat) (auto simp: wfChoice_def)
    then have "?n \<noteq> 0"
      using b(4) by (metis add_nonneg_pos diff_ge_0_iff_ge less_irrefl uint_0_eq zero_less_one)
    then obtain r' w where "Uint64N ?n r = Some (r', w)" "w < ?n"
      by (rule Uint64N_draw)
    moreover have "0 \<le> uint w" "uint w < hi - lo + 1"
      using \<open>w < ?n\<close> span by (simp_all add: word_less_def)
    ultimately show ?thesis
      using v ne b False by (simp add: seedChoose_def validateSelection_def numberSelection_def)
  qed
qed

lemma seed_answers:
  assumes "seedChoose r c = Some (r', Inr sel)" and wf: "wfChoice c"
  shows "ValidateChoice c = None \<and> validateSelection c sel = None"
proof -
  have v: "ValidateChoice c = None"
    using assms(1) by (auto simp: seedChoose_def split: option.splits)
  show ?thesis
  proof (cases "chOptions c = []")
    case True
    then show ?thesis
      using seed_range [OF v True wf, of r] assms(1) v by auto
  next
    case False
    show ?thesis
    proof (cases "totalWeight 0 (chOptions c)")
      case None
      then show ?thesis
        using assms(1) v False valid_options [OF v]
        by (cases "chOptions c") (auto simp: seedChoose_def validateSelection_def optionSelection_def split: if_splits)
    next
      case (Some t)
      then show ?thesis
        using seed_options [OF v False Some, of r] assms(1) v by auto
    qed
  qed
qed

interpretation seed: decider seedChoose
  by unfold_locales (rule seed_answers)

subsection \<open>The replaying deciders\<close>

definition entryMatches :: "TapeEntry \<Rightarrow> Choice \<Rightarrow> bool" where
  "entryMatches e c \<longleftrightarrow> ValidateChoice c = None \<and> chID (teChoice e) = chID c \<and> chKind (teChoice e) = chKind c
     \<and> canonicalChoiceUnchecked (teChoice e) = canonicalChoiceUnchecked c
     \<and> validateSelection c (teSelection e) = None"

lemma tapeChoose_Inr:
  assumes "list_all (entryStored sha) (tpEntries (tdTape d))"
  shows "tapeChoose sha d c = Some (d', Inr sel) \<longleftrightarrow> tdIndex d < length (tpEntries (tdTape d))
    \<and> entryMatches (tpEntries (tdTape d) ! tdIndex d) c \<and> sel = teSelection (tpEntries (tdTape d) ! tdIndex d)
    \<and> d' = d\<lparr>tdIndex := Suc (tdIndex d)\<rparr>" (is "?l \<longleftrightarrow> ?r")
proof (cases "tdIndex d < length (tpEntries (tdTape d))")
  case True
  let ?e = "tpEntries (tdTape d) ! tdIndex d"
  have "entryStored sha ?e"
    using assms True by (simp add: list_all_length)
  then obtain ctx where e: "ValidateChoice (teChoice ?e) = None"
      "canonicalChoiceUnchecked (teChoice ?e) = Inr (marshalCanonicalDomain (teChoice ?e), ctx)"
      "teDomainDigest ?e = digestBytes sha (marshalCanonicalDomain (teChoice ?e))" "teContextDigest ?e = digestBytes sha ctx"
    by (auto simp: entryStored_def canonicalChoice_def canonicalChoiceUnchecked_def split: option.splits sum.splits)
  show ?thesis
  proof (cases "ValidateChoice c")
    case None
    then obtain ctx' where c: "canonicalChoiceUnchecked c = Inr (marshalCanonicalDomain c, ctx')"
      using valid_canonical by blast
    show ?thesis
      using True e c None
      by (auto simp: tapeChoose_def entryMatches_def canonicalChoice_def Let_def split: option.splits)
  next
    case (Some err)
    then show ?thesis
      using True by (auto simp: tapeChoose_def entryMatches_def canonicalChoice_def Let_def)
  qed
qed (auto simp: tapeChoose_def)

lemma tapeChoose_answers:
  assumes "tapeChoose sha d c = Some (d', Inr sel)"
  shows "ValidateChoice c = None \<and> validateSelection c sel = None"
proof -
  have "ValidateChoice c = None"
    using assms by (auto simp: tapeChoose_def canonicalChoice_def Let_def split: if_splits option.splits)
  moreover have "validateSelection c sel = None"
    using assms by (auto simp: tapeChoose_def Let_def split: if_splits option.splits sum.splits prod.splits)
  ultimately show ?thesis by blast
qed

interpretation replay: decider "tapeChoose sha" for sha
  by unfold_locales (rule tapeChoose_answers)

lemma prefixChoose_answers:
  assumes "prefixChoose sha d c = Some (d', Inr sel)"
  shows "ValidateChoice c = None \<and> validateSelection c sel = None"
  using assms tapeChoose_answers
  by (auto simp: prefixChoose_def split: if_splits option.splits)

interpretation prefix: decider "prefixChoose sha" for sha
  by unfold_locales (rule prefixChoose_answers)

context decider
begin

lemma prefixThen_answers:
  assumes "prefixThenChoose sha pick d c = Some (d', Inr sel)" and "wfChoice c"
  shows "ValidateChoice c = None \<and> validateSelection c sel = None"
proof (cases "tdIndex (ptReplay d) < ptLength d")
  case True
  then obtain t where "tapeChoose sha (ptReplay d) c = Some (t, Inr sel)"
    using assms(1) by (auto simp: prefixThenChoose_def)
  then show ?thesis
    by (rule tapeChoose_answers)
next
  case False
  then obtain s where "pick (ptFallback d) c = Some (s, Inr sel)"
    using assms(1) by (auto simp: prefixThenChoose_def)
  then show ?thesis
    using assms(2) by (rule answers_valid)
qed

end

interpretation prefixSeed: decider "prefixThenChoose sha seedChoose" for sha
  by unfold_locales (rule seed.prefixThen_answers)

section \<open>Runs\<close>

text \<open>A client that asks for a list of choices and stops at the first error.\<close>

fun askAll :: "'s chooser \<Rightarrow> 's \<Rightarrow> Choice list \<Rightarrow> ('s \<times> (dec_error + Selection list)) option" where
  "askAll pick s [] = Some (s, Inr [])"
| "askAll pick s (c # cs) =
     (case pick s c of
        None \<Rightarrow> None
      | Some (s', Inl e) \<Rightarrow> Some (s', Inl e)
      | Some (s', Inr sel) \<Rightarrow>
          (case askAll pick s' cs of
             Some (s'', Inr sels) \<Rightarrow> Some (s'', Inr (sel # sels))
           | other \<Rightarrow> other))"

lemma askAll_Cons_Inr:
  "askAll pick s (c # cs) = Some (t, Inr sels) \<longleftrightarrow>
     (\<exists>s' sel sels'. pick s c = Some (s', Inr sel) \<and> askAll pick s' cs = Some (t, Inr sels') \<and> sels = sel # sels')"
  by (auto split: option.splits sum.splits prod.splits)

lemma recorderChoose_Inr:
  "recorderChoose sha pick r c = Some (r', Inr sel) \<Longrightarrow>
     \<exists>e. newEntry sha c sel = Inr e \<and> recEntries r' = recEntries r @ [e]"
  by (auto simp: recorderChoose_def split: option.splits sum.splits prod.splits)

lemma record_run:
  "askAll (recorderChoose sha pick) r cs = Some (r', Inr sels) \<Longrightarrow>
   \<exists>es. recEntries r' = recEntries r @ es \<and> list_all2 (\<lambda>(c, sel) e. newEntry sha c sel = Inr e) (zip cs sels) es
     \<and> length sels = length cs"
proof (induction cs arbitrary: r sels)
  case (Cons c cs)
  then obtain r1 sel sels' where 1: "recorderChoose sha pick r c = Some (r1, Inr sel)"
    and 2: "askAll (recorderChoose sha pick) r1 cs = Some (r', Inr sels')" and s: "sels = sel # sels'"
    by (auto simp: askAll_Cons_Inr simp del: askAll.simps)
  obtain e where e: "newEntry sha c sel = Inr e" "recEntries r1 = recEntries r @ [e]"
    using recorderChoose_Inr [OF 1] by blast
  obtain es where "recEntries r' = recEntries r1 @ es" "length sels' = length cs"
    "list_all2 (\<lambda>(c, sel) e. newEntry sha c sel = Inr e) (zip cs sels') es"
    using Cons.IH [OF 2] by blast
  then show ?case
    using e s by (intro exI [of _ "e # es"]) simp
qed simp

lemma replay_run:
  assumes "list_all (entryStored sha) (tpEntries (tdTape d))" and "tdIndex d \<le> length (tpEntries (tdTape d))"
  shows "askAll (tapeChoose sha) d cs = Some (d', Inr sels) \<longleftrightarrow>
    tdIndex d + length cs \<le> length (tpEntries (tdTape d)) \<and> d' = d\<lparr>tdIndex := tdIndex d + length cs\<rparr> \<and>
    list_all2 entryMatches (take (length cs) (drop (tdIndex d) (tpEntries (tdTape d)))) cs \<and>
    sels = map teSelection (take (length cs) (drop (tdIndex d) (tpEntries (tdTape d))))"
  using assms
proof (induction cs arbitrary: d sels)
  case Nil
  then show ?case by auto
next
  case (Cons c cs)
  let ?es = "tpEntries (tdTape d)" and ?i = "tdIndex d"
  show ?case
  proof (cases "?i < length ?es")
    case True
    let ?d = "d\<lparr>tdIndex := Suc ?i\<rparr>"
    have dr: "drop ?i ?es = ?es ! ?i # drop (Suc ?i) ?es"
      using True by (simp add: Cons_nth_drop_Suc)
    have IH: "askAll (tapeChoose sha) ?d cs = Some (d', Inr sels') \<longleftrightarrow>
        Suc ?i + length cs \<le> length ?es \<and> d' = ?d\<lparr>tdIndex := Suc ?i + length cs\<rparr> \<and>
        list_all2 entryMatches (take (length cs) (drop (Suc ?i) ?es)) cs \<and>
        sels' = map teSelection (take (length cs) (drop (Suc ?i) ?es))" for sels'
      using Cons.IH [of ?d sels'] Cons.prems True by simp
    show ?thesis
      unfolding askAll_Cons_Inr tapeChoose_Inr [OF Cons.prems(1)]
      using True IH by (auto simp: dr simp del: askAll.simps)
  next
    case False
    then show ?thesis
      unfolding askAll_Cons_Inr tapeChoose_Inr [OF Cons.prems(1)] by (simp del: askAll.simps)
  qed
qed

section \<open>Keys\<close>

lemma ascii_inject: "ascii s = ascii t \<longleftrightarrow> s = t"
proof -
  have "inj (of_char :: char \<Rightarrow> byte)"
  proof (rule injI)
    fix a b :: char
    assume "(of_char a :: byte) = of_char b"
    then have "unat (of_nat (of_char a) :: byte) = unat (of_nat (of_char b) :: byte)"
      by (simp only: of_nat_of_char)
    moreover have "of_char a < (256 :: nat)" "of_char b < (256 :: nat)"
      by simp_all
    ultimately have "of_char a = (of_char b :: nat)"
      by (simp add: unat_byte)
    then show "a = b"
      by (simp only: of_char_eq_iff)
  qed
  then show ?thesis
    by (simp add: inj_map_eq_map)
qed

lemma beNat_be32_mod: "beNat 0 (be32 n) = n mod 2 ^ 32"
proof -
  have 1: "n mod (256 * 256) = 256 * (n div 256 mod 256) + n mod 256"
    by (rule mod_mult2_eq)
  have 2: "n mod (65536 * 256) = 65536 * (n div 65536 mod 256) + n mod 65536"
    by (rule mod_mult2_eq)
  have 3: "n mod (16777216 * 256) = 16777216 * (n div 16777216 mod 256) + n mod 16777216"
    by (rule mod_mult2_eq)
  show ?thesis
    using 1 2 3 by (simp add: be32_def unat_byte)
qed

lemma be64_inject:
  assumes "m < 2 ^ 64" and "n < 2 ^ 64" and "be64 m = be64 n"
  shows "m = n"
proof -
  have "be32 (m div 2 ^ 32) = be32 (n div 2 ^ 32)" "be32 m = be32 n"
    using assms(3) by (simp_all add: be64_def)
  then have "m div 2 ^ 32 mod 2 ^ 32 = n div 2 ^ 32 mod 2 ^ 32" "m mod 2 ^ 32 = n mod 2 ^ 32"
    by (metis beNat_be32_mod)+
  moreover have "m mod (2 ^ 32 * 2 ^ 32) = 2 ^ 32 * (m div 2 ^ 32 mod 2 ^ 32) + m mod 2 ^ 32"
      "n mod (2 ^ 32 * 2 ^ 32) = 2 ^ 32 * (n div 2 ^ 32 mod 2 ^ 32) + n mod 2 ^ 32"
    by (rule mod_mult2_eq)+
  ultimately have "m mod (2 ^ 32 * 2 ^ 32) = n mod (2 ^ 32 * 2 ^ 32)"
    by (simp only:)
  then show ?thesis
    using assms(1,2) by simp
qed

lemma keyField_inject:
  assumes "length a < 2 ^ 64" and "length b < 2 ^ 64" and "be64 (length a) @ a @ xs = be64 (length b) @ b @ ys"
  shows "a = b \<and> xs = ys"
proof -
  have "be64 (length a) = be64 (length b)" "a @ xs = b @ ys"
    using assms(3) by (simp_all add: append_eq_append_conv)
  moreover have "length a = length b"
    using assms(1,2) calculation(1) by (rule be64_inject)
  ultimately show ?thesis
    by (simp add: append_eq_append_conv)
qed

text \<open>No field of a key is longer than a Go slice can be.\<close>

definition keyFits :: "Choice \<Rightarrow> bool" where
  "keyFits c \<longleftrightarrow> length (chID c) < 2 ^ 64 \<and> length (chKind c) < 2 ^ 64 \<and> length (marshalCanonicalDomain c) < 2 ^ 64"

lemma choiceKey_fields:
  "choiceKey c = Inr k \<longleftrightarrow> ValidateChoice c = None \<and> (\<exists>ctx. canonicalChoiceUnchecked c = Inr (marshalCanonicalDomain c, ctx) \<and>
     k = be64 (length (chID c)) @ ascii (chID c) @ be64 (length (chKind c)) @ ascii (chKind c) @
       be64 (length (marshalCanonicalDomain c)) @ marshalCanonicalDomain c @ be64 (length ctx) @ ctx)"
  by (auto simp: choiceKey_def CanonicalDomain_def CanonicalContext_def canonicalChoiceUnchecked_def appendKeyField_def
      split: option.splits sum.splits)

lemma choiceKey_inject:
  assumes "keyFits c" and "keyFits c'" and "choiceKey c = Inr k" and "choiceKey c' = Inr k"
  shows "chID c = chID c' \<and> chKind c = chKind c' \<and> canonicalChoiceUnchecked c = canonicalChoiceUnchecked c'"
proof -
  obtain ctx ctx' where c: "canonicalChoiceUnchecked c = Inr (marshalCanonicalDomain c, ctx)"
      "canonicalChoiceUnchecked c' = Inr (marshalCanonicalDomain c', ctx')"
    and k: "be64 (length (chID c)) @ ascii (chID c) @ be64 (length (chKind c)) @ ascii (chKind c) @
       be64 (length (marshalCanonicalDomain c)) @ marshalCanonicalDomain c @ be64 (length ctx) @ ctx =
       be64 (length (chID c')) @ ascii (chID c') @ be64 (length (chKind c')) @ ascii (chKind c') @
       be64 (length (marshalCanonicalDomain c')) @ marshalCanonicalDomain c' @ be64 (length ctx') @ ctx'"
    using assms(3,4) by (auto simp: choiceKey_fields)
  have 1: "ascii (chID c) = ascii (chID c') \<and> be64 (length (chKind c)) @ ascii (chKind c) @
       be64 (length (marshalCanonicalDomain c)) @ marshalCanonicalDomain c @ be64 (length ctx) @ ctx =
       be64 (length (chKind c')) @ ascii (chKind c') @
       be64 (length (marshalCanonicalDomain c')) @ marshalCanonicalDomain c' @ be64 (length ctx') @ ctx'"
    using k assms(1,2) by (intro keyField_inject) (simp_all add: keyFits_def)
  then have 2: "ascii (chKind c) = ascii (chKind c') \<and>
       be64 (length (marshalCanonicalDomain c)) @ marshalCanonicalDomain c @ be64 (length ctx) @ ctx =
       be64 (length (marshalCanonicalDomain c')) @ marshalCanonicalDomain c' @ be64 (length ctx') @ ctx'"
    using assms(1,2) by (intro keyField_inject) (simp_all add: keyFits_def)
  then have 3: "marshalCanonicalDomain c = marshalCanonicalDomain c' \<and> be64 (length ctx) @ ctx = be64 (length ctx') @ ctx'"
    using assms(1,2) by (intro keyField_inject) (simp_all add: keyFits_def)
  then have "ctx = ctx'"
    by (simp add: append_eq_append_conv)
  then show ?thesis
    using 1 2 3 c by (simp add: ascii_inject)
qed

section \<open>Weights\<close>

abbreviation weights :: "DOption list \<Rightarrow> nat" where
  "weights opts \<equiv> sum_list (map (\<lambda>opt. unat (oWeight opt)) opts)"

lemma totalWeight_fits:
  "unat acc + weights opts < 2 ^ 64 \<Longrightarrow> \<exists>t. totalWeight acc opts = Some t"
proof (induction opts arbitrary: acc)
  case (Cons opt opts)
  have sum: "unat (acc + oWeight opt) = unat acc + unat (oWeight opt)"
    using Cons.prems unat_plus_of_nat [of acc "unat (oWeight opt)"] by simp
  have "unat (MaxUint64 - acc) = unat MaxUint64 - unat acc"
    by (rule unat_sub) simp
  then have "\<not> MaxUint64 - acc < oWeight opt"
    using Cons.prems by (simp add: word_less_nat_alt)
  then show ?case
    using Cons.IH [of "acc + oWeight opt"] Cons.prems sum by simp
qed simp

lemma pickWeighted_interval:
  "distinct (map oID (pre @ opt # post)) \<Longrightarrow>
   pickWeighted draw (pre @ opt # post) = Some (oID opt) \<longleftrightarrow>
     weights pre \<le> unat draw \<and> unat draw < weights pre + unat (oWeight opt)"
proof (induction pre arbitrary: draw)
  case Nil
  have "pickWeighted d post \<noteq> Some (oID opt)" for d
  proof -
    have "pickWeighted d opts = Some i \<Longrightarrow> i \<in> oID ` set opts" for opts i
      by (induction opts arbitrary: d) (auto split: if_splits)
    then show ?thesis
      using Nil by auto
  qed
  then show ?case
    by (simp add: word_less_nat_alt)
next
  case (Cons p pre)
  show ?case
  proof (cases "draw < oWeight p")
    case True
    then show ?thesis
      using Cons.prems by (auto simp: word_less_nat_alt)
  next
    case False
    then have "unat (draw - oWeight p) = unat draw - unat (oWeight p)" "unat (oWeight p) \<le> unat draw"
      by (simp_all add: unat_sub not_less word_le_nat_alt)
    then show ?thesis
      using Cons.IH [of "draw - oWeight p"] Cons.prems False by auto
  qed
qed

lemma card_word_interval:
  assumes "a + w \<le> 2 ^ 64"
  shows "card {d :: u64. a \<le> unat d \<and> unat d < a + w} = w"
proof -
  have "unat ` {d :: u64. a \<le> unat d \<and> unat d < a + w} = {a..<a + w}"
  proof (intro set_eqI iffI)
    fix x assume x: "x \<in> {a..<a + w}"
    then have "unat (of_nat x :: u64) = x"
      using assms by (intro unat_of_nat_u64) auto
    then show "x \<in> unat ` {d :: u64. a \<le> unat d \<and> unat d < a + w}"
      using x by (metis (mono_tags, lifting) atLeastLessThan_iff image_eqI mem_Collect_eq)
  qed auto
  moreover have "card (unat ` {d :: u64. a \<le> unat d \<and> unat d < a + w}) = card {d :: u64. a \<le> unat d \<and> unat d < a + w}"
    by (rule card_image) (simp add: inj_on_def word_unat_eq_iff)
  ultimately show ?thesis by simp
qed

section \<open>Guided replay\<close>

definition sameChoice :: "Choice \<Rightarrow> TapeEntry \<Rightarrow> bool" where
  "sameChoice c e \<longleftrightarrow> chID (teChoice e) = chID c \<and> chKind (teChoice e) = chKind c
     \<and> canonicalChoiceUnchecked (teChoice e) = canonicalChoiceUnchecked c"

lemma guideEntries_keep:
  "guideEntries acc es = Inr al \<Longrightarrow> map_of acc k = Some y \<Longrightarrow> map_of al k = Some y"
proof (induction es arbitrary: acc)
  case (Cons e es)
  then obtain key where "choiceKey (teChoice e) = Inr key" "map_of acc key = None"
    and rest: "guideEntries (AList.update key e acc) es = Inr al"
    by (auto split: sum.splits if_splits)
  then have "map_of (AList.update key e acc) k = Some y"
    using Cons.prems(2) by (auto simp: update_conv')
  then show ?case
    using Cons.IH [OF rest] by blast
qed simp

lemma guideEntries_map_of:
  "guideEntries acc es = Inr al \<Longrightarrow>
   map_of al k = (case find (\<lambda>e. choiceKey (teChoice e) = Inr k) es of Some e \<Rightarrow> Some e | None \<Rightarrow> map_of acc k)"
proof (induction es arbitrary: acc)
  case (Cons e es)
  then obtain key where key: "choiceKey (teChoice e) = Inr key" "map_of acc key = None"
    and rest: "guideEntries (AList.update key e acc) es = Inr al"
    by (auto split: sum.splits if_splits)
  show ?case
  proof (cases "key = k")
    case True
    then show ?thesis
      using key guideEntries_keep [OF rest, of k] by (simp add: update_conv')
  next
    case False
    then show ?thesis
      using Cons.IH [OF rest] key by (simp add: update_conv' split: option.splits)
  qed
qed simp

lemma canonical_domain:
  "canonicalChoiceUnchecked c = Inr (d, ctx) \<Longrightarrow> d = marshalCanonicalDomain c"
  by (auto simp: canonicalChoiceUnchecked_def split: sum.splits)

lemma choiceKey_same:
  assumes "keyFits c" and "keyFits (teChoice e)" and "ValidateChoice (teChoice e) = None" and "choiceKey c = Inr k"
  shows "choiceKey (teChoice e) = Inr k \<longleftrightarrow> sameChoice c e"
proof
  assume "choiceKey (teChoice e) = Inr k"
  then show "sameChoice c e"
    using choiceKey_inject [OF assms(2,1) _ assms(4)] by (simp add: sameChoice_def)
next
  assume "sameChoice c e"
  then show "choiceKey (teChoice e) = Inr k"
    using assms(3,4) canonical_domain [of "teChoice e"]
    by (auto simp: choiceKey_fields sameChoice_def)
qed

lemma entryStored_valid: "entryStored sha e \<Longrightarrow> ValidateChoice (teChoice e) = None"
  by (auto simp: entryStored_def canonicalChoice_def split: option.splits)

lemma newTapeDecider_Inr:
  "newTapeDecider sha tape b = Inr d \<longleftrightarrow> tpSchema tape = DecisionSchema \<and> list_all (entryStored sha) (tpEntries tape)
     \<and> d = \<lparr>tdTape = tape, tdIndex = 0, tdIncludeOperationIDs = b\<rparr>"
  by (auto simp: newTapeDecider_def)

section \<open>Replaying a recorded run\<close>

lemma recorded_replays:
  assumes "askAll (recorderChoose sha pick) (NewRecorder (Some s)) cs = Some (r, Inr sels)"
  shows "\<exists>d d'. newTapeDecider sha (recorderTape r) b = Inr d \<and>
    askAll (tapeChoose sha) d cs = Some (d', Inr sels) \<and> tapeFinish d' = None"
proof -
  obtain es where es: "recEntries r = es" "length sels = length cs"
    and new: "list_all2 (\<lambda>(c, sel) e. newEntry sha c sel = Inr e) (zip cs sels) es"
    using record_run [OF assms] by (auto simp: NewRecorder_def)
  have len: "length es = length cs"
    using list_all2_lengthD [OF new] es(2) by simp
  have each: "newEntry sha (cs ! i) (sels ! i) = Inr (es ! i)" if "i < length cs" for i
    using list_all2_nthD [OF new, of i] that es(2) by simp
  let ?d = "\<lparr>tdTape = recorderTape r, tdIndex = 0, tdIncludeOperationIDs = b\<rparr>"
  have stored: "list_all (entryStored sha) (tpEntries (recorderTape r))"
    using newEntry_stored [OF each] len es(1) by (auto simp: recorderTape_def list_all_length)
  have "list_all2 entryMatches es cs"
  proof (rule list_all2_all_nthI [OF len])
    fix i assume "i < length es"
    then show "entryMatches (es ! i) (cs ! i)"
      using each [of i] len by (auto simp: newEntry_Inr entryMatches_def)
  qed
  moreover have "sels = map teSelection es"
    using each len es(2) by (intro nth_equalityI) (simp_all, fastforce simp: newEntry_Inr)
  ultimately have "askAll (tapeChoose sha) ?d cs = Some (?d\<lparr>tdIndex := length cs\<rparr>, Inr sels)"
    using replay_run [of sha ?d cs _ sels] stored len es(1) by (simp add: recorderTape_def)
  moreover have "tapeFinish (?d\<lparr>tdIndex := length cs\<rparr>) = None"
    using len es(1) by (simp add: tapeFinish_def recorderTape_def)
  moreover have "newTapeDecider sha (recorderTape r) b = Inr ?d"
    using stored by (simp add: newTapeDecider_Inr recorderTape_def)
  ultimately show ?thesis by blast
qed

definition exChoice :: Choice where
  "exChoice = \<lparr>chID = ''loss/1'', chKind = ''network_loss'', chOptions = [\<lparr>oID = ''drop'', oWeight = 1\<rparr>, \<lparr>oID = ''keep'', oWeight = 3\<rparr>],
     chMin = None, chMax = None, chContext = []\<rparr>"

definition exRange :: Choice where
  "exRange = \<lparr>chID = ''lat/1'', chKind = ''network_latency'', chOptions = [], chMin = Some 5, chMax = Some 5, chContext = []\<rparr>"

definition exRecorder :: "Rand Recorder" where
  "exRecorder = fst (the (askAll (recorderChoose id seedChoose) (NewRecorder (Some (NewSeedDecider 1))) [exRange]))"

lemma exRange_recorded:
  "askAll (recorderChoose id seedChoose) (NewRecorder (Some (NewSeedDecider 1))) [exRange] =
     Some (exRecorder, Inr [numberSelection 5])"
proof -
  have v: "ValidateChoice exRange = None"
    by (simp add: ValidateChoice_def exRange_def)
  moreover have sel: "validateSelection exRange (numberSelection 5) = None"
    by (simp add: validateSelection_def exRange_def numberSelection_def)
  moreover obtain e where "newEntry id exRange (numberSelection 5) = Inr e"
    using newEntry_valid [OF v sel] by blast
  moreover have "seedChoose r exRange = Some (r, Inr (numberSelection 5))" for r
    using v by (simp add: seedChoose_def) (simp add: exRange_def)
  ultimately show ?thesis
    by (simp add: exRecorder_def recorderChoose_def NewRecorder_def)
qed

section \<open>Properties\<close>

text \<open>
  C22. Recording and replay: whatever decider answered, the tape recorded from a run that answered every
  choice is accepted for replay, replaying it on the same choices returns the same selections, and the tape
  is then consumed exactly.
\<close>

theorem record_replay:
  assumes "askAll (recorderChoose sha pick) (NewRecorder (Some s)) cs = Some (r, Inr sels)"
  shows "\<exists>d d'. newTapeDecider sha (recorderTape r) b = Inr d \<and>
    askAll (tapeChoose sha) d cs = Some (d', Inr sels) \<and> tapeFinish d' = None"
  using assms by (rule recorded_replays)

theorem record_replay_witness:
  "\<exists>d d'. newTapeDecider id (recorderTape exRecorder) False = Inr d \<and>
    askAll (tapeChoose id) d [exRange] = Some (d', Inr [numberSelection 5]) \<and> tapeFinish d' = None"
  using record_replay [OF exRange_recorded] by blast

text \<open>
  C23. Replay accepts nothing but the recorded run: on a tape that passed validation, a list of choices is
  answered in full and consumes the tape exactly when the choices agree with the entries one by one in
  identity, kind, canonical domain and canonical context, and then the answers are the recorded selections.
\<close>

theorem replay_exact:
  assumes "newTapeDecider sha tape b = Inr d"
  shows "(\<exists>d'. askAll (tapeChoose sha) d cs = Some (d', Inr sels) \<and> tapeFinish d' = None) \<longleftrightarrow>
    list_all2 entryMatches (tpEntries tape) cs \<and> sels = map teSelection (tpEntries tape)"
proof -
  have d: "list_all (entryStored sha) (tpEntries (tdTape d))" "tdTape d = tape" "tdIndex d = 0"
    using assms by (auto simp: newTapeDecider_Inr)
  show ?thesis
    using replay_run [OF d(1), of cs _ sels] d list_all2_lengthD [of entryMatches "tpEntries tape" cs]
    by (auto simp: tapeFinish_def)
qed

theorem replay_exact_witness:
  "newTapeDecider id (recorderTape exRecorder) False \<noteq> Inl ErrTapeMismatch \<and>
   list_all2 entryMatches (tpEntries (recorderTape exRecorder)) [exRange]"
proof -
  obtain d d' where "newTapeDecider id (recorderTape exRecorder) False = Inr d"
    "askAll (tapeChoose id) d [exRange] = Some (d', Inr [numberSelection 5])" "tapeFinish d' = None"
    using recorded_replays [OF exRange_recorded] by blast
  then show ?thesis
    using replay_exact [of id "recorderTape exRecorder" False d "[exRange]" "[numberSelection 5]"] by auto
qed

text \<open>
  The seeded decider never panics or loops: on a valid choice whose weights add up to less than \<open>2^64\<close>
  it returns a selection inside the domain, from every generator state.
\<close>

theorem seed_total:
  assumes "ValidateChoice c = None" and "wfChoice c" and "weights (chOptions c) < 2 ^ 64"
  shows "\<exists>r' sel. seedChoose r c = Some (r', Inr sel) \<and> validateSelection c sel = None"
proof (cases "chOptions c = []")
  case True
  then show ?thesis
    using assms by (intro seed_range)
next
  case False
  moreover obtain t where "totalWeight 0 (chOptions c) = Some t"
    using totalWeight_fits [of 0 "chOptions c"] assms(3) by auto
  ultimately show ?thesis
    using assms(1) by (intro seed_options)
qed

lemma exChoice_valid: "ValidateChoice exChoice = None" "wfChoice exChoice" "weights (chOptions exChoice) = 4"
  by (simp_all add: ValidateChoice_def exChoice_def wfChoice_def)

theorem seed_total_witness:
  "ValidateChoice exChoice = None \<and> wfChoice exChoice \<and> weights (chOptions exChoice) < 2 ^ 64 \<and>
   (\<exists>r' sel. seedChoose (NewSeedDecider 9) exChoice = Some (r', Inr sel) \<and> validateSelection exChoice sel = None)"
  using seed_total [of exChoice "NewSeedDecider 9"] exChoice_valid by simp

text \<open>
  Weights are exact: of the values below the total weight, precisely as many select an option as its
  weight says.
\<close>

theorem weighted_share:
  assumes "optionsValid [] opts" and "opt \<in> set opts" and "totalWeight 0 opts = Some t"
  shows "card {draw. draw < t \<and> pickWeighted draw opts = Some (oID opt)} = unat (oWeight opt)"
proof -
  obtain pre post where opts: "opts = pre @ opt # post"
    using assms(2) by (auto dest: split_list)
  have "distinct (map oID (pre @ opt # post))"
    using assms(1) unfolding opts optionsValid_iff by blast
  then have pick: "pickWeighted draw opts = Some (oID opt) \<longleftrightarrow>
      weights pre \<le> unat draw \<and> unat draw < weights pre + unat (oWeight opt)" for draw
    unfolding opts by (rule pickWeighted_interval)
  have t: "unat t = weights pre + unat (oWeight opt) + weights post"
    using totalWeight_sum [OF assms(3)] by (simp add: opts)
  then have "draw < t" if "unat draw < weights pre + unat (oWeight opt)" for draw
    using that by (simp add: word_less_nat_alt)
  then have "{draw. draw < t \<and> pickWeighted draw opts = Some (oID opt)} =
      {draw. weights pre \<le> unat draw \<and> unat draw < weights pre + unat (oWeight opt)}"
    unfolding pick by blast
  then show ?thesis
    using card_word_interval [of "weights pre" "unat (oWeight opt)"] t unat_u64_less [of t] by simp
qed

theorem weighted_share_witness:
  "optionsValid [] (chOptions exChoice) \<and>
   card {draw. draw < 4 \<and> pickWeighted draw (chOptions exChoice) = Some ''keep''} = 3"
proof -
  have "totalWeight 0 (chOptions exChoice) = Some 4" "optionsValid [] (chOptions exChoice)"
    by (simp_all add: exChoice_def MaxUint64_def)
  then show ?thesis
    using weighted_share [of "chOptions exChoice" "\<lparr>oID = ''keep'', oWeight = 3\<rparr>" 4] by (simp add: exChoice_def)
qed

text \<open>
  Guidance: a guided decider reuses the recorded selection of the entry whose choice has the same
  identity, kind, canonical domain and canonical context, and asks the fallback exactly when there is none.
\<close>

theorem guided_exact:
  assumes "NewGuidedDecider sha guide (Some s) = Inr d" and "ValidateChoice c = None" and "keyFits c"
    and "\<forall>e \<in> set (tpEntries guide). keyFits (teChoice e)"
  shows "guidedChoose pick d c = (case find (sameChoice c) (tpEntries guide) of
      Some e \<Rightarrow> Some (d, Inr (teSelection e))
    | None \<Rightarrow> map_option (\<lambda>(s', a). (d\<lparr>gdFallback := s'\<rparr>, a)) (pick s c))"
proof -
  have al: "guideEntries [] (tpEntries guide) = Inr (gdEntries d)" "gdFallback d = s"
    and stored: "list_all (entryStored sha) (tpEntries guide)"
    using assms(1) by (auto simp: NewGuidedDecider_def newTapeDecider_Inr split: sum.splits)
  obtain k where k: "choiceKey c = Inr k"
    using assms(2) valid_canonical [of c] by (auto simp: choiceKey_fields)
  have "find (\<lambda>e. choiceKey (teChoice e) = Inr k) (tpEntries guide) = find (sameChoice c) (tpEntries guide)"
  proof (rule find_cong [OF refl])
    fix e assume "e \<in> set (tpEntries guide)"
    then show "(choiceKey (teChoice e) = Inr k) = sameChoice c e"
      using assms(3,4) stored entryStored_valid k by (intro choiceKey_same) (auto simp: list_all_iff)
  qed
  then show ?thesis
    using guideEntries_map_of [OF al(1), of k] k al(2) by (simp add: guidedChoose_def split: option.splits)
qed

theorem guided_exact_witness:
  "ValidateChoice exRange = None \<and>
   guidedChoose seedChoose \<lparr>gdEntries = [], gdFallback = NewSeedDecider 1\<rparr> exRange =
     Some (\<lparr>gdEntries = [], gdFallback = NewSeedDecider 1\<rparr>, Inr (numberSelection 5))"
proof -
  have v: "ValidateChoice exRange = None"
    by (simp add: ValidateChoice_def exRange_def)
  have "keyFits exRange"
    by (simp add: keyFits_def marshalCanonicalDomain_def exRange_def joinComma_def jsonField_def jsonQuote_def
        escapeString.simps escapeASCII_def showInt_def showDec.simps)
  moreover have "NewGuidedDecider id \<lparr>tpSchema = DecisionSchema, tpEntries = []\<rparr> (Some (NewSeedDecider 1)) =
      Inr \<lparr>gdEntries = [], gdFallback = NewSeedDecider 1\<rparr>"
    by (simp add: NewGuidedDecider_def newTapeDecider_def)
  moreover have "seedChoose r exRange = Some (r, Inr (numberSelection 5))" for r
    using v by (simp add: seedChoose_def) (simp add: exRange_def)
  ultimately show ?thesis
    using guided_exact [of id "\<lparr>tpSchema = DecisionSchema, tpEntries = []\<rparr>" "NewSeedDecider 1"
        "\<lparr>gdEntries = [], gdFallback = NewSeedDecider 1\<rparr>" exRange seedChoose] v by simp
qed

end
