(* ===== verification/Checker.thy ===== *)
theory Checker
  imports RaftView JsonText
begin

text \<open>
  The history-aware safety checker of \<open>src/check/check.go\<close>: the ledgers it keeps, the checks it runs on
  every observation of the cluster, and the violations it reports. \<open>encoding/json\<close>'s encoder of evidence is
  the argument \<open>marshal\<close> and \<open>crypto/sha256\<close> the argument \<open>sha\<close>; every operation takes them as \<open>h\<close>, a pair.
  A Go map is an association list with distinct keys. Reading a missing key gives the zero value.
\<close>

section \<open>Vocabulary\<close>

definition SchemaV1 :: string where "SchemaV1 = ''d-raft.check/v1''"
definition SchemaV2 :: string where "SchemaV2 = ''d-raft.check/v2''"
definition CheckSchema :: string where "CheckSchema = ''d-raft.check/v3''"
definition CheckStateSchema :: string where "CheckStateSchema = ''d-raft.check-state/v1''"

definition ElectionSafety :: string where "ElectionSafety = ''raft/election-safety''"
definition ElectionCertificate :: string where "ElectionCertificate = ''raft/election-certificate''"
definition DurableTermMonotonic :: string where "DurableTermMonotonic = ''raft/durable-term-monotonic''"
definition DurableDoubleVote :: string where "DurableDoubleVote = ''raft/durable-double-vote''"
definition VolatileDurableMatch :: string where "VolatileDurableMatch = ''raft/volatile-durable-match''"
definition LogMatching :: string where "LogMatching = ''raft/log-matching''"
definition LeaderCompleteness :: string where "LeaderCompleteness = ''raft/leader-completeness''"
definition CommittedConflict :: string where "CommittedConflict = ''raft/committed-conflict''"
definition CommitMonotonic :: string where "CommitMonotonic = ''raft/commit-monotonic''"
definition AppliedConflict :: string where "AppliedConflict = ''raft/applied-conflict''"
definition AppliedMonotonic :: string where "AppliedMonotonic = ''raft/applied-monotonic''"
definition SnapshotConflict :: string where "SnapshotConflict = ''raft/snapshot-conflict''"
definition MembershipTransition :: string where "MembershipTransition = ''raft/membership-transition''"

record NodeObservation =
  noID :: NodeID
  noUp :: bool
  noStatus :: "Status option"
  noDurable :: PersistentState
  noAppliedIndex :: u64
  noApplied :: "Entry list"

record Observation =
  obAt :: int
  obNodes :: "NodeObservation list"

record Violation =
  vID :: string
  vAtNS :: int
  vNodes :: "NodeID list"
  vEvidence :: bytes
  vFingerprint :: string

record entryWitness =
  ewNode :: NodeID
  ewEntry :: Entry
  ewCommitTerm :: u64

record snapshotWitness =
  swNode :: NodeID
  swSnapshot :: Snapshot

text \<open>The values that the checks pass to \<open>json.Marshal\<close>.\<close>

datatype evidence =
    EvMonotonic u64 u64
  | EvDoubleVote u64 NodeID NodeID
  | EvStatusHard Status HardState
  | EvEntries u64 entryWitness entryWitness
  | EvSnapshots u64 snapshotWitness snapshotWitness
  | EvMembershipSnapshot Membership
  | EvMembershipEntry u64 "Membership option" Entry
  | EvLogMatching u64 u64 u64
  | EvElection u64 NodeID NodeID
  | EvCertificate u64 "NodeID list" Membership
  | EvCompleteness u64 u64 entryWitness

type_synonym hasher = "(evidence \<Rightarrow> bytes) \<times> (bytes \<Rightarrow> bytes)"

section \<open>Violations\<close>

datatype check_error =
    ErrIdentity | ErrUnsorted | ErrNodes | ErrFingerprint | ErrVocabulary

definition Fingerprint :: "(bytes \<Rightarrow> bytes) \<Rightarrow> string \<Rightarrow> NodeID list \<Rightarrow> bytes \<Rightarrow> check_error + string" where
  "Fingerprint sha i nodes ev =
     (if i = [] then Inl ErrIdentity
      else (case jsonCompact ev of
          None \<Rightarrow> Inl ErrIdentity
        | Some canonicalEvidence \<Rightarrow>
            Inr (EncodeToString (take 12 (sha (ascii i @ [0] @
              concat (map (\<lambda>n. ascii n @ [0]) (sort nodes)) @ canonicalEvidence))))))"

fun nodesProper :: "NodeID option \<Rightarrow> NodeID list \<Rightarrow> bool" where
  "nodesProper previous [] = True"
| "nodesProper previous (n # ns) = (if n = [] \<or> previous = Some n then False else nodesProper (Some n) ns)"

definition ValidateViolation :: "(bytes \<Rightarrow> bytes) \<Rightarrow> Violation \<Rightarrow> check_error option" where
  "ValidateViolation sha v =
     (if \<not> sorted (vNodes v) then Some ErrUnsorted
      else if \<not> nodesProper None (vNodes v) then Some ErrNodes
      else (case Fingerprint sha (vID v) (vNodes v) (vEvidence v) of
          Inl e \<Rightarrow> Some e
        | Inr f \<Rightarrow> if f \<noteq> vFingerprint v then Some ErrFingerprint else None))"

definition violationSupported :: "string \<Rightarrow> string \<Rightarrow> bool" where
  "violationSupported schema i =
     (if i \<in> {ElectionSafety, ElectionCertificate, DurableTermMonotonic, DurableDoubleVote, VolatileDurableMatch,
            LogMatching, LeaderCompleteness, CommittedConflict, CommitMonotonic, AppliedConflict, AppliedMonotonic}
      then schema = SchemaV1 \<or> schema = SchemaV2 \<or> schema = CheckSchema
      else if i = SnapshotConflict then schema = SchemaV2 \<or> schema = CheckSchema
      else if i = MembershipTransition then schema = CheckSchema
      else False)"

definition ValidateViolationForSchema :: "(bytes \<Rightarrow> bytes) \<Rightarrow> string \<Rightarrow> Violation \<Rightarrow> check_error option" where
  "ValidateViolationForSchema sha schema v =
     (case ValidateViolation sha v of
        Some e \<Rightarrow> Some e
      | None \<Rightarrow> if \<not> violationSupported schema (vID v) then Some ErrVocabulary else None)"

section \<open>The checker\<close>

record Checker =
  ckMembers :: "NodeID list"
  ckInitial :: Membership
  ckSeen :: "string list"
  ckLeaders :: "(u64 \<times> NodeID) list"
  ckVotes :: "(NodeID \<times> (u64 \<times> NodeID) list) list"
  ckDurableTerms :: "(NodeID \<times> u64) list"
  ckCommitIndexes :: "(NodeID \<times> u64) list"
  ckAppliedIndexes :: "(NodeID \<times> u64) list"
  ckCommitted :: "(u64 \<times> entryWitness) list"
  ckApplied :: "(u64 \<times> entryWitness) list"
  ckSnapshots :: "(u64 \<times> snapshotWitness) list"
  ckViolations :: "Violation list"

definition NewWithMembership :: "NodeID list \<Rightarrow> Membership \<Rightarrow> Checker" where
  "NewWithMembership universe initial =
     \<lparr>ckMembers = sort universe, ckInitial = initial, ckSeen = [], ckLeaders = [], ckVotes = [], ckDurableTerms = [],
      ckCommitIndexes = [], ckAppliedIndexes = [], ckCommitted = [], ckApplied = [], ckSnapshots = [],
      ckViolations = []\<rparr>"

definition newChecker :: "NodeID list \<Rightarrow> Checker" where
  "newChecker universe = NewWithMembership universe (stableMembership universe [])"

definition entriesEqual :: "Entry \<Rightarrow> Entry \<Rightarrow> bool" where
  "entriesEqual l r \<longleftrightarrow> eIndex l = eIndex r \<and> eTerm l = eTerm r \<and> eType l = eType r \<and> eData l = eData r
     \<and> membershipsEqual (eMembership l) (eMembership r)"

text \<open>
  \<open>add\<close> panics when the evidence does not encode; the encoder returns valid JSON for every value passed
  here, and then \<open>Fingerprint\<close> has no error.
\<close>

definition addViolation :: "hasher \<Rightarrow> int \<Rightarrow> string \<Rightarrow> NodeID list \<Rightarrow> evidence \<Rightarrow> Checker \<Rightarrow> Checker" where
  "addViolation h t i nodes ev c =
     (let canonicalNodes = sort nodes; raw = fst h ev in
      (case Fingerprint (snd h) i canonicalNodes raw of
         Inl _ \<Rightarrow> c
       | Inr f \<Rightarrow>
           if f \<in> set (ckSeen c) then c
           else c\<lparr>ckSeen := f # ckSeen c,
                  ckViolations := ckViolations c @ [\<lparr>vID = i, vAtNS = t, vNodes = canonicalNodes,
                    vEvidence = raw, vFingerprint = f\<rparr>]\<rparr>))"

definition lookupOr :: "'v \<Rightarrow> ('k \<times> 'v) list \<Rightarrow> 'k \<Rightarrow> 'v" where
  "lookupOr z al k = (case map_of al k of None \<Rightarrow> z | Some v \<Rightarrow> v)"

abbreviation hardOf :: "NodeObservation \<Rightarrow> HardState" where
  "hardOf n \<equiv> hardState (noDurable n)"

abbreviation snapOf :: "NodeObservation \<Rightarrow> Snapshot" where
  "snapOf n \<equiv> snapshot (noDurable n)"

abbreviation logOf :: "NodeObservation \<Rightarrow> Entry list" where
  "logOf n \<equiv> RaftData.log (noDurable n)"

subsection \<open>Durable terms and votes\<close>

definition checkTerm :: "hasher \<Rightarrow> int \<Rightarrow> NodeObservation \<Rightarrow> Checker \<Rightarrow> Checker" where
  "checkTerm h t n c =
     (let cur = CurrentTerm (hardOf n);
          c1 = (case map_of (ckDurableTerms c) (noID n) of
                  Some previous \<Rightarrow>
                    if cur < previous then addViolation h t DurableTermMonotonic [noID n] (EvMonotonic previous cur) c else c
                | None \<Rightarrow> c)
      in if cur > lookupOr 0 (ckDurableTerms c1) (noID n)
         then c1\<lparr>ckDurableTerms := AList.update (noID n) cur (ckDurableTerms c1)\<rparr> else c1)"

definition checkVote :: "hasher \<Rightarrow> int \<Rightarrow> NodeObservation \<Rightarrow> Checker \<Rightarrow> Checker" where
  "checkVote h t n c =
     (let hard = hardOf n in
      if VotedFor hard = [] then c
      else
        let ledger = lookupOr [] (ckVotes c) (noID n);
            c1 = c\<lparr>ckVotes := AList.update (noID n) ledger (ckVotes c)\<rparr>
        in (case map_of ledger (CurrentTerm hard) of
              Some previous \<Rightarrow>
                if previous \<noteq> VotedFor hard
                then addViolation h t DurableDoubleVote [noID n, previous, VotedFor hard]
                       (EvDoubleVote (CurrentTerm hard) previous (VotedFor hard)) c1
                else c1\<lparr>ckVotes := AList.update (noID n) (AList.update (CurrentTerm hard) (VotedFor hard) ledger) (ckVotes c1)\<rparr>
            | None \<Rightarrow>
                c1\<lparr>ckVotes := AList.update (noID n) (AList.update (CurrentTerm hard) (VotedFor hard) ledger) (ckVotes c1)\<rparr>))"

definition checkVolatile :: "hasher \<Rightarrow> int \<Rightarrow> NodeObservation \<Rightarrow> Checker \<Rightarrow> Checker" where
  "checkVolatile h t n c =
     (let hard = hardOf n in
      (case noStatus n of
         None \<Rightarrow> c
       | Some st \<Rightarrow>
           if noUp n \<and> \<not> stAwaitingPersistence st
              \<and> (stTerm st \<noteq> CurrentTerm hard \<or> stVotedFor st \<noteq> VotedFor hard \<or> stCommitIndex st \<noteq> CommitIndex hard)
           then addViolation h t VolatileDurableMatch [noID n] (EvStatusHard st hard) c
           else c))"

definition checkDurableHistory :: "hasher \<Rightarrow> int \<Rightarrow> NodeObservation \<Rightarrow> Checker \<Rightarrow> Checker" where
  "checkDurableHistory h t n c = checkVolatile h t n (checkVote h t n (checkTerm h t n c))"

subsection \<open>Committed and applied entries\<close>

fun committedLoop :: "hasher \<Rightarrow> int \<Rightarrow> NodeObservation \<Rightarrow> Entry list \<Rightarrow> Checker \<Rightarrow> Checker" where
  "committedLoop h t n [] c = c"
| "committedLoop h t n (e # es) c =
     (if eIndex e > CommitIndex (hardOf n) then c
      else committedLoop h t n es
        (case map_of (ckCommitted c) (eIndex e) of
           Some previous \<Rightarrow>
             if \<not> entriesEqual (ewEntry previous) e
             then addViolation h t CommittedConflict [ewNode previous, noID n]
                    (EvEntries (eIndex e) previous \<lparr>ewNode = noID n, ewEntry = e, ewCommitTerm = 0\<rparr>) c
             else c
         | None \<Rightarrow> c\<lparr>ckCommitted := AList.update (eIndex e)
             \<lparr>ewNode = noID n, ewEntry = e, ewCommitTerm = CurrentTerm (hardOf n)\<rparr> (ckCommitted c)\<rparr>))"

definition checkCommitIndex :: "hasher \<Rightarrow> int \<Rightarrow> NodeObservation \<Rightarrow> Checker \<Rightarrow> Checker" where
  "checkCommitIndex h t n c =
     (let commit = CommitIndex (hardOf n);
          previous = lookupOr 0 (ckCommitIndexes c) (noID n);
          c1 = (if commit < previous then addViolation h t CommitMonotonic [noID n] (EvMonotonic previous commit) c else c)
      in if commit > lookupOr 0 (ckCommitIndexes c1) (noID n)
         then c1\<lparr>ckCommitIndexes := AList.update (noID n) commit (ckCommitIndexes c1)\<rparr> else c1)"

definition checkCommittedHistory :: "hasher \<Rightarrow> int \<Rightarrow> NodeObservation \<Rightarrow> Checker \<Rightarrow> Checker" where
  "checkCommittedHistory h t n c = committedLoop h t n (logOf n) (checkCommitIndex h t n c)"

definition sameSnapshot :: "Snapshot \<Rightarrow> Snapshot \<Rightarrow> bool" where
  "sameSnapshot p s \<longleftrightarrow> LastIncludedTerm p = LastIncludedTerm s \<and> sMembers p = sMembers s \<and> sData p = sData s
     \<and> membershipsEqual (sMembership p) (sMembership s)"

definition checkSnapshotHistory :: "hasher \<Rightarrow> int \<Rightarrow> NodeObservation \<Rightarrow> Checker \<Rightarrow> Checker" where
  "checkSnapshotHistory h t n c =
     (let s = snapOf n in
      if LastIncludedIndex s = 0 then c
      else (case map_of (ckSnapshots c) (LastIncludedIndex s) of
          Some previous \<Rightarrow>
            if \<not> sameSnapshot (swSnapshot previous) s
            then addViolation h t SnapshotConflict [swNode previous, noID n]
                   (EvSnapshots (LastIncludedIndex s) previous \<lparr>swNode = noID n, swSnapshot = s\<rparr>) c
            else c
        | None \<Rightarrow> c\<lparr>ckSnapshots := AList.update (LastIncludedIndex s) \<lparr>swNode = noID n, swSnapshot = s\<rparr> (ckSnapshots c)\<rparr>))"

fun appliedLoop :: "hasher \<Rightarrow> int \<Rightarrow> NodeObservation \<Rightarrow> Entry list \<Rightarrow> Checker \<Rightarrow> Checker" where
  "appliedLoop h t n [] c = c"
| "appliedLoop h t n (e # es) c =
     appliedLoop h t n es
       (case map_of (ckApplied c) (eIndex e) of
          Some previous \<Rightarrow>
            if \<not> entriesEqual (ewEntry previous) e
            then addViolation h t AppliedConflict [ewNode previous, noID n]
                   (EvEntries (eIndex e) previous \<lparr>ewNode = noID n, ewEntry = e, ewCommitTerm = 0\<rparr>) c
            else c
        | None \<Rightarrow> c\<lparr>ckApplied := AList.update (eIndex e) \<lparr>ewNode = noID n, ewEntry = e, ewCommitTerm = 0\<rparr> (ckApplied c)\<rparr>)"

definition checkAppliedIndex :: "hasher \<Rightarrow> int \<Rightarrow> NodeObservation \<Rightarrow> Checker \<Rightarrow> Checker" where
  "checkAppliedIndex h t n c =
     (let previous = lookupOr 0 (ckAppliedIndexes c) (noID n);
          c1 = (if noAppliedIndex n < previous
                then addViolation h t AppliedMonotonic [noID n] (EvMonotonic previous (noAppliedIndex n)) c else c)
      in if noAppliedIndex n > lookupOr 0 (ckAppliedIndexes c1) (noID n)
         then c1\<lparr>ckAppliedIndexes := AList.update (noID n) (noAppliedIndex n) (ckAppliedIndexes c1)\<rparr> else c1)"

definition checkAppliedHistory :: "hasher \<Rightarrow> int \<Rightarrow> NodeObservation \<Rightarrow> Checker \<Rightarrow> Checker" where
  "checkAppliedHistory h t n c = appliedLoop h t n (noApplied n) (checkAppliedIndex h t n c)"

subsection \<open>Membership\<close>

definition jointStepOk :: "Membership \<Rightarrow> NodeID list \<Rightarrow> Entry \<Rightarrow> bool" where
  "jointStepOk m universe e \<longleftrightarrow>
     (let em = eMembership e; expected = filter (\<lambda>l. l \<notin> set (VotersOutgoing em)) (LearnersNext em) in
      length (eData e) = 0 \<and> \<not> Joint m \<and> Joint em \<and> ValidateMembership em universe
      \<and> VotersOutgoing em = Voters m \<and> Learners em = expected)"

definition finalStepOk :: "Membership \<Rightarrow> NodeID list \<Rightarrow> Entry \<Rightarrow> bool" where
  "finalStepOk m universe e \<longleftrightarrow>
     (let em = eMembership e in
      length (eData e) = 0 \<and> Joint m \<and> \<not> Joint em \<and> ValidateMembership em universe
      \<and> Voters em = Voters m \<and> Learners em = LearnersNext m)"

fun membershipWalk :: "hasher \<Rightarrow> int \<Rightarrow> NodeObservation \<Rightarrow> Membership \<Rightarrow> Entry list \<Rightarrow> Checker \<Rightarrow> Checker" where
  "membershipWalk h t n m [] c = c"
| "membershipWalk h t n m (e # es) c =
     (if eType e = EntryConfigJoint then
        (if \<not> jointStepOk m (ckMembers c) e
         then addViolation h t MembershipTransition [noID n] (EvMembershipEntry (eIndex e) (Some m) e) c
         else membershipWalk h t n (eMembership e) es c)
      else if eType e = EntryConfigFinal then
        (if \<not> finalStepOk m (ckMembers c) e
         then addViolation h t MembershipTransition [noID n] (EvMembershipEntry (eIndex e) (Some m) e) c
         else membershipWalk h t n (eMembership e) es c)
      else if \<not> membershipsEqual (eMembership e) zeroMembership
      then addViolation h t MembershipTransition [noID n] (EvMembershipEntry (eIndex e) None e) c
      else membershipWalk h t n m es c)"

definition checkMembershipHistory :: "hasher \<Rightarrow> int \<Rightarrow> NodeObservation \<Rightarrow> Checker \<Rightarrow> Checker" where
  "checkMembershipHistory h t n c =
     (let s = snapOf n in
      if LastIncludedIndex s > 0 \<and> \<not> membershipsEqual (sMembership s) zeroMembership then
        (if \<not> ValidateMembership (sMembership s) (ckMembers c)
         then addViolation h t MembershipTransition [noID n] (EvMembershipSnapshot (sMembership s)) c
         else membershipWalk h t n (sMembership s) (logOf n) c)
      else membershipWalk h t n (ckInitial c) (logOf n) c)"

subsection \<open>Logs\<close>

definition stateLastIndex :: "PersistentState \<Rightarrow> u64" where
  "stateLastIndex s =
     (let base = LastIncludedIndex (snapshot s) in
      if length (RaftData.log s) > unat (MaxUint64 - base) then MaxUint64
      else base + of_nat (length (RaftData.log s)))"

definition entryFrom :: "u64 \<Rightarrow> Entry list \<Rightarrow> u64 \<Rightarrow> Entry option" where
  "entryFrom base es index =
     (if index \<le> base then None
      else let offset = index - base - 1 in
        if unat offset \<ge> length es then None else Some (es ! unat offset))"

definition stateEntryAt :: "PersistentState \<Rightarrow> u64 \<Rightarrow> Entry option" where
  "stateEntryAt s index = entryFrom (LastIncludedIndex (snapshot s)) (RaftData.log s) index"

definition statusEntryAt :: "Status \<Rightarrow> u64 \<Rightarrow> Entry option" where
  "statusEntryAt s index = entryFrom (LastIncludedIndex (stSnapshot s)) (stLog s) index"

text \<open>The indexes of the inner loop of \<open>checkLogs\<close>, from \<open>start\<close> to \<open>limit\<close> inclusive.\<close>

definition indexRange :: "u64 \<Rightarrow> u64 \<Rightarrow> u64 list" where
  "indexRange start limit = map of_nat [unat start ..< Suc (unat limit)]"

fun compareLogs ::
  "hasher \<Rightarrow> int \<Rightarrow> NodeObservation \<Rightarrow> NodeObservation \<Rightarrow> u64 list \<Rightarrow> u64 option \<Rightarrow> Checker \<Rightarrow> Checker" where
  "compareLogs h t l r [] conflict c = c"
| "compareLogs h t l r (i # is) conflict c =
     (let le = stateEntryAt (noDurable l) i; re = stateEntryAt (noDurable r) i;
          equal = (case (le, re) of (Some a, Some b) \<Rightarrow> entriesEqual a b | _ \<Rightarrow> False);
          conflict' = (if conflict = None \<and> \<not> equal then Some i else conflict);
          c' = (case (conflict', le, re) of
                  (Some first, Some a, Some b) \<Rightarrow>
                    if eTerm a = eTerm b
                    then addViolation h t LogMatching [noID l, noID r] (EvLogMatching i first (eTerm a)) c else c
                | _ \<Rightarrow> c)
      in compareLogs h t l r is conflict' c')"

definition checkPair :: "hasher \<Rightarrow> int \<Rightarrow> NodeObservation \<Rightarrow> NodeObservation \<Rightarrow> Checker \<Rightarrow> Checker" where
  "checkPair h t l r c =
     (let base = max (LastIncludedIndex (snapOf l)) (LastIncludedIndex (snapOf r)) in
      if base = MaxUint64 then c
      else
        let start = base + 1; limit = min (stateLastIndex (noDurable l)) (stateLastIndex (noDurable r)) in
        if start > limit then c
        else compareLogs h t l r (indexRange start limit) None c)"

fun checkLogs :: "hasher \<Rightarrow> int \<Rightarrow> NodeObservation list \<Rightarrow> Checker \<Rightarrow> Checker" where
  "checkLogs h t [] c = c"
| "checkLogs h t (l # rs) c = checkLogs h t rs (fold (checkPair h t l) rs c)"

subsection \<open>Leaders\<close>

definition checkElection :: "hasher \<Rightarrow> int \<Rightarrow> NodeObservation \<Rightarrow> Status \<Rightarrow> Checker \<Rightarrow> Checker" where
  "checkElection h t n st c =
     (case map_of (ckLeaders c) (stTerm st) of
        Some previous \<Rightarrow>
          if previous \<noteq> noID n
          then addViolation h t ElectionSafety [previous, noID n] (EvElection (stTerm st) previous (noID n)) c
          else c\<lparr>ckLeaders := AList.update (stTerm st) (noID n) (ckLeaders c)\<rparr>
      | None \<Rightarrow> c\<lparr>ckLeaders := AList.update (stTerm st) (noID n) (ckLeaders c)\<rparr>)"

definition certifiedVotes :: "Checker \<Rightarrow> u64 \<Rightarrow> NodeID \<Rightarrow> NodeID list" where
  "certifiedVotes c tm i = filter (\<lambda>v. lookupOr [] (lookupOr [] (ckVotes c) v) tm = i) (ckMembers c)"

definition checkCertificate :: "hasher \<Rightarrow> int \<Rightarrow> NodeObservation \<Rightarrow> Status \<Rightarrow> Checker \<Rightarrow> Checker" where
  "checkCertificate h t n st c =
     (let certified = certifiedVotes c (stTerm st) (noID n);
          m = (if length (Voters (stElectionMembership st)) = 0 then ckInitial c else stElectionMembership st)
      in if \<not> ValidateMembership m (ckMembers c) \<or> \<not> HasQuorum m certified
         then addViolation h t ElectionCertificate [noID n] (EvCertificate (stTerm st) certified m) c
         else c)"

definition committedIndexesFor :: "Checker \<Rightarrow> Status \<Rightarrow> u64 list" where
  "committedIndexesFor c st =
     sort (map fst (filter (\<lambda>(i, w). stTerm st \<ge> ewCommitTerm w \<and> i > LastIncludedIndex (stSnapshot st)) (ckCommitted c)))"

fun completenessLoop :: "hasher \<Rightarrow> int \<Rightarrow> NodeObservation \<Rightarrow> Status \<Rightarrow> u64 list \<Rightarrow> Checker \<Rightarrow> Checker" where
  "completenessLoop h t n st [] c = c"
| "completenessLoop h t n st (i # is) c =
     completenessLoop h t n st is
       (case map_of (ckCommitted c) i of
          None \<Rightarrow> c
        | Some w \<Rightarrow>
            (case statusEntryAt st i of
               Some e \<Rightarrow> if entriesEqual e (ewEntry w) then c
                 else addViolation h t LeaderCompleteness [noID n, ewNode w] (EvCompleteness (stTerm st) i w) c
             | None \<Rightarrow> addViolation h t LeaderCompleteness [noID n, ewNode w] (EvCompleteness (stTerm st) i w) c))"

definition checkLeader :: "hasher \<Rightarrow> int \<Rightarrow> NodeObservation \<Rightarrow> Status \<Rightarrow> Checker \<Rightarrow> Checker" where
  "checkLeader h t n st c =
     (let c1 = checkCertificate h t n st (checkElection h t n st c)
      in completenessLoop h t n st (committedIndexesFor c1 st) c1)"

text \<open>The leaders that an observation shows: up, in role, and with no write outstanding.\<close>

definition leaderStatus :: "NodeObservation \<Rightarrow> Status option" where
  "leaderStatus n =
     (case noStatus n of
        Some st \<Rightarrow> if noUp n \<and> stRole st = Leader \<and> \<not> stAwaitingPersistence st then Some st else None
      | None \<Rightarrow> None)"

definition checkIfLeader :: "hasher \<Rightarrow> int \<Rightarrow> NodeObservation \<Rightarrow> Checker \<Rightarrow> Checker" where
  "checkIfLeader h t n c = (case leaderStatus n of None \<Rightarrow> c | Some st \<Rightarrow> checkLeader h t n st c)"

subsection \<open>Observations\<close>

definition checkNode :: "hasher \<Rightarrow> int \<Rightarrow> NodeObservation \<Rightarrow> Checker \<Rightarrow> Checker" where
  "checkNode h t n c =
     checkMembershipHistory h t n (checkSnapshotHistory h t n (checkAppliedHistory h t n
       (checkCommittedHistory h t n (checkDurableHistory h t n c))))"

definition Observe :: "hasher \<Rightarrow> Observation \<Rightarrow> Checker \<Rightarrow> Checker \<times> Violation list" where
  "Observe h ob c =
     (let nodes = sort_key noID (obNodes ob);
          c1 = fold (checkNode h (obAt ob)) nodes c;
          c2 = checkLogs h (obAt ob) nodes c1;
          c3 = fold (checkIfLeader h (obAt ob)) nodes c2
      in (c3, drop (length (ckViolations c)) (ckViolations c3)))"

section \<open>The canonical state\<close>

record CheckerState =
  csSchema :: string
  csMembers :: "NodeID list"
  csInitial :: Membership
  csSeen :: "string list"
  csLeaders :: "(u64 \<times> NodeID) list"
  csVotes :: "(NodeID \<times> u64 \<times> NodeID) list"
  csDurableTerms :: "(NodeID \<times> u64) list"
  csCommitIndexes :: "(NodeID \<times> u64) list"
  csAppliedIndexes :: "(NodeID \<times> u64) list"
  csCommitted :: "(u64 \<times> entryWitness) list"
  csApplied :: "(u64 \<times> entryWitness) list"
  csSnapshots :: "(u64 \<times> snapshotWitness) list"
  csViolations :: "Violation list"

definition sortedNodeValues :: "(NodeID \<times> u64) list \<Rightarrow> (NodeID \<times> u64) list" where
  "sortedNodeValues values = sort_key fst values"

definition sortedEntryWitnesses :: "(u64 \<times> entryWitness) list \<Rightarrow> (u64 \<times> entryWitness) list" where
  "sortedEntryWitnesses ws = sort_key fst ws"

definition sortedSnapshotWitnesses :: "(u64 \<times> snapshotWitness) list \<Rightarrow> (u64 \<times> snapshotWitness) list" where
  "sortedSnapshotWitnesses ws = sort_key fst ws"

text \<open>Sorting by node and then by term: a stable sort by the minor key, then by the major one.\<close>

definition sortedVotes :: "(NodeID \<times> (u64 \<times> NodeID) list) list \<Rightarrow> (NodeID \<times> u64 \<times> NodeID) list" where
  "sortedVotes vs =
     sort_key fst (sort_key (\<lambda>(n, tm, cand). tm) (concat (map (\<lambda>(n, ledger). map (\<lambda>(tm, cand). (n, tm, cand)) ledger) vs)))"

definition checkerState :: "Checker \<Rightarrow> CheckerState" where
  "checkerState c =
     \<lparr>csSchema = CheckStateSchema, csMembers = ckMembers c, csInitial = ckInitial c, csSeen = sort (ckSeen c),
      csLeaders = sort_key fst (ckLeaders c), csVotes = sortedVotes (ckVotes c),
      csDurableTerms = sortedNodeValues (ckDurableTerms c), csCommitIndexes = sortedNodeValues (ckCommitIndexes c),
      csAppliedIndexes = sortedNodeValues (ckAppliedIndexes c), csCommitted = sortedEntryWitnesses (ckCommitted c),
      csApplied = sortedEntryWitnesses (ckApplied c), csSnapshots = sortedSnapshotWitnesses (ckSnapshots c),
      csViolations = ckViolations c\<rparr>"

end
