(* ===== verification/CheckerProps.thy ===== *)
theory CheckerProps
  imports Checker
begin

text \<open>
  What a run of the checker without violations says about the observed history, and one case in which a
  reported violation is refused by the checker's own validation.
\<close>

section \<open>Checks as growing ledgers\<close>

definition encodes :: "hasher \<Rightarrow> bool" where
  "encodes h \<longleftrightarrow> (\<forall>ev. jsonValid (fst h ev))"

definition tracked :: "Checker \<Rightarrow> bool" where
  "tracked c \<longleftrightarrow> (ckViolations c = [] \<longrightarrow> ckSeen c = [])"

definition clean :: "Checker \<Rightarrow> bool" where
  "clean c \<longleftrightarrow> ckViolations c = []"

definition voteOf :: "Checker \<Rightarrow> NodeID \<Rightarrow> u64 \<rightharpoonup> NodeID" where
  "voteOf c n = map_of (lookupOr [] (ckVotes c) n)"

definition grows :: "Checker \<Rightarrow> Checker \<Rightarrow> bool" where
  "grows c c' \<longleftrightarrow> map_of (ckLeaders c) \<subseteq>\<^sub>m map_of (ckLeaders c') \<and> (\<forall>n. voteOf c n \<subseteq>\<^sub>m voteOf c' n)
     \<and> map_of (ckCommitted c) \<subseteq>\<^sub>m map_of (ckCommitted c') \<and> map_of (ckApplied c) \<subseteq>\<^sub>m map_of (ckApplied c')
     \<and> map_of (ckSnapshots c) \<subseteq>\<^sub>m map_of (ckSnapshots c')
     \<and> (\<forall>n. lookupOr 0 (ckDurableTerms c) n \<le> lookupOr 0 (ckDurableTerms c') n)
     \<and> (\<forall>n. lookupOr 0 (ckCommitIndexes c) n \<le> lookupOr 0 (ckCommitIndexes c') n)
     \<and> (\<forall>n. lookupOr 0 (ckAppliedIndexes c) n \<le> lookupOr 0 (ckAppliedIndexes c') n)
     \<and> ckMembers c = ckMembers c' \<and> ckInitial c = ckInitial c'"

lemma grows_refl [simp]: "grows c c"
  by (simp add: grows_def)

lemma grows_trans:
  assumes ab: "grows a b" and bc: "grows b c"
  shows "grows a c"
proof -
  have "voteOf a n \<subseteq>\<^sub>m voteOf c n" for n
    using ab bc map_le_trans [of "voteOf a n" "voteOf b n" "voteOf c n"] by (simp add: grows_def)
  moreover have "lookupOr 0 (ckDurableTerms a) n \<le> lookupOr 0 (ckDurableTerms c) n"
      "lookupOr 0 (ckCommitIndexes a) n \<le> lookupOr 0 (ckCommitIndexes c) n"
      "lookupOr 0 (ckAppliedIndexes a) n \<le> lookupOr 0 (ckAppliedIndexes c) n" for n
    using ab bc order_trans [of "lookupOr 0 (ckDurableTerms a) n" "lookupOr 0 (ckDurableTerms b) n"]
      order_trans [of "lookupOr 0 (ckCommitIndexes a) n" "lookupOr 0 (ckCommitIndexes b) n"]
      order_trans [of "lookupOr 0 (ckAppliedIndexes a) n" "lookupOr 0 (ckAppliedIndexes b) n"]
    by (simp_all add: grows_def)
  ultimately show ?thesis
    using ab bc map_le_trans [of "map_of (ckLeaders a)" "map_of (ckLeaders b)"]
      map_le_trans [of "map_of (ckCommitted a)" "map_of (ckCommitted b)"]
      map_le_trans [of "map_of (ckApplied a)" "map_of (ckApplied b)"]
      map_le_trans [of "map_of (ckSnapshots a)" "map_of (ckSnapshots b)"]
    by (simp add: grows_def)
qed

text \<open>A step of the checker that only adds to the ledgers unless it reports.\<close>

definition okstep :: "Checker \<Rightarrow> Checker \<Rightarrow> bool" where
  "okstep c c' \<longleftrightarrow> (tracked c \<longrightarrow> tracked c' \<and> (clean c' \<longrightarrow> clean c \<and> grows c c'))"

lemma okstep_refl [simp]: "okstep c c"
  by (simp add: okstep_def)

lemma okstep_trans [trans]: "okstep a b \<Longrightarrow> okstep b c \<Longrightarrow> okstep a c"
  using grows_trans [of a b c] by (auto simp: okstep_def)

lemma okstep_fold: "(\<And>x c. okstep c (g x c)) \<Longrightarrow> okstep c (fold g xs c)"
proof (induction xs arbitrary: c)
  case (Cons x xs)
  show ?case
    using okstep_trans [OF Cons.prems Cons.IH [OF Cons.prems], of c x] by simp
qed simp

lemma okstep_put:
  "grows c c' \<Longrightarrow> ckViolations c' = ckViolations c \<Longrightarrow> ckSeen c' = ckSeen c \<Longrightarrow> okstep c c'"
  by (simp add: okstep_def tracked_def clean_def)

lemma okstepD:
  assumes "okstep c c'" and "tracked c"
  shows "tracked c'" and "clean c' \<Longrightarrow> clean c" and "clean c' \<Longrightarrow> grows c c'"
  using assms by (simp_all add: okstep_def)

text \<open>A report on a checker with a clean record is never swallowed.\<close>

lemma add_tracked: "tracked c \<Longrightarrow> tracked (addViolation h t i ns ev c)"
  by (auto simp: addViolation_def tracked_def Let_def split: sum.splits)

lemma add_not_clean:
  assumes "encodes h" and "tracked c" and "i \<noteq> []"
  shows "\<not> clean (addViolation h t i ns ev c)"
proof -
  obtain f where "Fingerprint (snd h) i (sort ns) (fst h ev) = Inr f"
    using assms(1,3) by (simp add: encodes_def Fingerprint_def jsonCompact_def)
  then show ?thesis
    using assms(2) by (auto simp: addViolation_def clean_def tracked_def Let_def)
qed

lemmas violation_ids = ElectionSafety_def ElectionCertificate_def DurableTermMonotonic_def DurableDoubleVote_def
  VolatileDurableMatch_def LogMatching_def LeaderCompleteness_def CommittedConflict_def CommitMonotonic_def
  AppliedConflict_def AppliedMonotonic_def SnapshotConflict_def MembershipTransition_def

lemma ids_nonempty [simp]:
  "ElectionSafety \<noteq> []" "ElectionCertificate \<noteq> []" "DurableTermMonotonic \<noteq> []" "DurableDoubleVote \<noteq> []"
  "VolatileDurableMatch \<noteq> []" "LogMatching \<noteq> []" "LeaderCompleteness \<noteq> []" "CommittedConflict \<noteq> []"
  "CommitMonotonic \<noteq> []" "AppliedConflict \<noteq> []" "AppliedMonotonic \<noteq> []" "SnapshotConflict \<noteq> []"
  "MembershipTransition \<noteq> []"
  by (simp_all add: violation_ids)

lemma okstep_add: "encodes h \<Longrightarrow> i \<noteq> [] \<Longrightarrow> okstep c (addViolation h t i ns ev c)"
  using add_tracked add_not_clean by (auto simp: okstep_def)

lemma lookupOr_update: "lookupOr z (AList.update k v al) n = (if n = k then v else lookupOr z al n)"
  by (simp add: lookupOr_def update_conv')

lemma map_le_update: "map_of al k = None \<or> map_of al k = Some v \<Longrightarrow> map_of al \<subseteq>\<^sub>m map_of (AList.update k v al)"
  by (auto simp: map_le_def update_conv')

lemma grows_ledgers:
  "map_of (ckLeaders c) \<subseteq>\<^sub>m map_of l \<Longrightarrow> grows c (c\<lparr>ckLeaders := l\<rparr>)"
  "(\<And>n. voteOf c n \<subseteq>\<^sub>m map_of (lookupOr [] v n)) \<Longrightarrow> grows c (c\<lparr>ckVotes := v\<rparr>)"
  "map_of (ckCommitted c) \<subseteq>\<^sub>m map_of m \<Longrightarrow> grows c (c\<lparr>ckCommitted := m\<rparr>)"
  "map_of (ckApplied c) \<subseteq>\<^sub>m map_of m \<Longrightarrow> grows c (c\<lparr>ckApplied := m\<rparr>)"
  "map_of (ckSnapshots c) \<subseteq>\<^sub>m map_of s \<Longrightarrow> grows c (c\<lparr>ckSnapshots := s\<rparr>)"
  "(\<And>n. lookupOr 0 (ckDurableTerms c) n \<le> lookupOr 0 d n) \<Longrightarrow> grows c (c\<lparr>ckDurableTerms := d\<rparr>)"
  "(\<And>n. lookupOr 0 (ckCommitIndexes c) n \<le> lookupOr 0 d n) \<Longrightarrow> grows c (c\<lparr>ckCommitIndexes := d\<rparr>)"
  "(\<And>n. lookupOr 0 (ckAppliedIndexes c) n \<le> lookupOr 0 d n) \<Longrightarrow> grows c (c\<lparr>ckAppliedIndexes := d\<rparr>)"
  by (simp_all add: grows_def voteOf_def)

lemma okstep_ledgers:
  "map_of (ckLeaders c) k = None \<or> map_of (ckLeaders c) k = Some v \<Longrightarrow>
     okstep c (c\<lparr>ckLeaders := AList.update k v (ckLeaders c)\<rparr>)"
  "map_of (ckCommitted c) i = None \<Longrightarrow> okstep c (c\<lparr>ckCommitted := AList.update i w (ckCommitted c)\<rparr>)"
  "map_of (ckApplied c) i = None \<Longrightarrow> okstep c (c\<lparr>ckApplied := AList.update i w (ckApplied c)\<rparr>)"
  "map_of (ckSnapshots c) i = None \<Longrightarrow> okstep c (c\<lparr>ckSnapshots := AList.update i s (ckSnapshots c)\<rparr>)"
  "lookupOr 0 (ckDurableTerms c) n < d \<Longrightarrow> okstep c (c\<lparr>ckDurableTerms := AList.update n d (ckDurableTerms c)\<rparr>)"
  "lookupOr 0 (ckCommitIndexes c) n < d \<Longrightarrow> okstep c (c\<lparr>ckCommitIndexes := AList.update n d (ckCommitIndexes c)\<rparr>)"
  "lookupOr 0 (ckAppliedIndexes c) n < d \<Longrightarrow> okstep c (c\<lparr>ckAppliedIndexes := AList.update n d (ckAppliedIndexes c)\<rparr>)"
  by (rule okstep_put, rule grows_ledgers, simp_all add: map_le_update lookupOr_update order.strict_implies_order)+

section \<open>The checks\<close>

text \<open>Every check is such a step.\<close>

lemma okstep_term: "encodes h \<Longrightarrow> okstep c (checkTerm h t n c)"
proof -
  assume enc: "encodes h"
  let ?cur = "CurrentTerm (hardOf n)"
  define c1 where "c1 = (case map_of (ckDurableTerms c) (noID n) of
      Some previous \<Rightarrow> if ?cur < previous then addViolation h t DurableTermMonotonic [noID n] (EvMonotonic previous ?cur) c else c
    | None \<Rightarrow> c)"
  have "okstep c c1"
    using enc by (auto simp: c1_def intro: okstep_add split: option.splits)
  also have "okstep c1 (checkTerm h t n c)"
    unfolding checkTerm_def Let_def c1_def [symmetric]
    by (auto intro!: okstep_put grows_ledgers simp: lookupOr_update)
  finally show ?thesis .
qed

lemma okstep_vote: "encodes h \<Longrightarrow> okstep c (checkVote h t n c)"
proof -
  assume enc: "encodes h"
  let ?hard = "hardOf n"
  define ledger where "ledger = lookupOr [] (ckVotes c) (noID n)"
  define c1 where "c1 = c\<lparr>ckVotes := AList.update (noID n) ledger (ckVotes c)\<rparr>"
  have c1: "okstep c c1"
    by (auto simp: c1_def ledger_def voteOf_def lookupOr_update intro!: okstep_put grows_ledgers)
  have led: "lookupOr [] (ckVotes c1) (noID n) = ledger"
    by (simp add: c1_def lookupOr_update)
  have "okstep c1 (c1\<lparr>ckVotes := AList.update (noID n) (AList.update (CurrentTerm ?hard) (VotedFor ?hard) ledger) (ckVotes c1)\<rparr>)"
    if "map_of ledger (CurrentTerm ?hard) = None \<or> map_of ledger (CurrentTerm ?hard) = Some (VotedFor ?hard)"
    using map_le_update [OF that] led by (auto simp: voteOf_def lookupOr_update intro!: okstep_put grows_ledgers)
  then have "okstep c1 (checkVote h t n c)" if "VotedFor ?hard \<noteq> []"
    using that enc unfolding checkVote_def Let_def ledger_def [symmetric] c1_def [symmetric]
    by (auto intro: okstep_add split: option.splits)
  then show ?thesis
    using okstep_trans [OF c1] by (cases "VotedFor ?hard = []") (auto simp: checkVote_def Let_def)
qed

lemma okstep_volatile: "encodes h \<Longrightarrow> okstep c (checkVolatile h t n c)"
  by (auto simp: checkVolatile_def Let_def intro: okstep_add split: option.splits)

lemma okstep_durable: "encodes h \<Longrightarrow> okstep c (checkDurableHistory h t n c)"
  unfolding checkDurableHistory_def by (meson okstep_term okstep_vote okstep_volatile okstep_trans)

lemma okstep_committedLoop: "encodes h \<Longrightarrow> okstep c (committedLoop h t n es c)"
proof (induction es arbitrary: c)
  case (Cons e es)
  let ?c = "case map_of (ckCommitted c) (eIndex e) of
           Some previous \<Rightarrow>
             if \<not> entriesEqual (ewEntry previous) e
             then addViolation h t CommittedConflict [ewNode previous, noID n]
                    (EvEntries (eIndex e) previous \<lparr>ewNode = noID n, ewEntry = e, ewCommitTerm = 0\<rparr>) c
             else c
         | None \<Rightarrow> c\<lparr>ckCommitted := AList.update (eIndex e)
             \<lparr>ewNode = noID n, ewEntry = e, ewCommitTerm = CurrentTerm (hardOf n)\<rparr> (ckCommitted c)\<rparr>"
  have "okstep c ?c"
    using Cons.prems by (auto intro: okstep_add okstep_ledgers split: option.splits)
  then have "okstep c (committedLoop h t n es ?c)"
    using Cons.IH [OF Cons.prems] by (rule okstep_trans)
  then show ?case
    by simp
qed simp

lemma okstep_appliedLoop: "encodes h \<Longrightarrow> okstep c (appliedLoop h t n es c)"
proof (induction es arbitrary: c)
  case (Cons e es)
  let ?c = "case map_of (ckApplied c) (eIndex e) of
          Some previous \<Rightarrow>
            if \<not> entriesEqual (ewEntry previous) e
            then addViolation h t AppliedConflict [ewNode previous, noID n]
                   (EvEntries (eIndex e) previous \<lparr>ewNode = noID n, ewEntry = e, ewCommitTerm = 0\<rparr>) c
            else c
        | None \<Rightarrow> c\<lparr>ckApplied := AList.update (eIndex e) \<lparr>ewNode = noID n, ewEntry = e, ewCommitTerm = 0\<rparr> (ckApplied c)\<rparr>"
  have "okstep c ?c"
    using Cons.prems by (auto intro: okstep_add okstep_ledgers split: option.splits)
  then have "okstep c (appliedLoop h t n es ?c)"
    using Cons.IH [OF Cons.prems] by (rule okstep_trans)
  then show ?case
    by simp
qed simp

lemma okstep_commitIndex: "encodes h \<Longrightarrow> okstep c (checkCommitIndex h t n c)"
proof -
  assume enc: "encodes h"
  let ?p = "lookupOr 0 (ckCommitIndexes c) (noID n)" and ?i = "CommitIndex (hardOf n)"
  define c1 where "c1 = (if ?i < ?p then addViolation h t CommitMonotonic [noID n] (EvMonotonic ?p ?i) c else c)"
  have "okstep c c1"
    using enc by (auto simp: c1_def intro: okstep_add)
  also have "okstep c1 (checkCommitIndex h t n c)"
    unfolding checkCommitIndex_def Let_def c1_def [symmetric] by (auto intro: okstep_ledgers)
  finally show ?thesis .
qed

lemma okstep_appliedIndex: "encodes h \<Longrightarrow> okstep c (checkAppliedIndex h t n c)"
proof -
  assume enc: "encodes h"
  let ?p = "lookupOr 0 (ckAppliedIndexes c) (noID n)" and ?i = "noAppliedIndex n"
  define c1 where "c1 = (if ?i < ?p then addViolation h t AppliedMonotonic [noID n] (EvMonotonic ?p ?i) c else c)"
  have "okstep c c1"
    using enc by (auto simp: c1_def intro: okstep_add)
  also have "okstep c1 (checkAppliedIndex h t n c)"
    unfolding checkAppliedIndex_def Let_def c1_def [symmetric] by (auto intro: okstep_ledgers)
  finally show ?thesis .
qed

lemma okstep_committed: "encodes h \<Longrightarrow> okstep c (checkCommittedHistory h t n c)"
  unfolding checkCommittedHistory_def by (rule okstep_trans [OF okstep_commitIndex okstep_committedLoop])

lemma okstep_applied: "encodes h \<Longrightarrow> okstep c (checkAppliedHistory h t n c)"
  unfolding checkAppliedHistory_def by (rule okstep_trans [OF okstep_appliedIndex okstep_appliedLoop])

lemma okstep_snapshot: "encodes h \<Longrightarrow> okstep c (checkSnapshotHistory h t n c)"
  by (auto simp: checkSnapshotHistory_def Let_def intro: okstep_add okstep_ledgers split: option.splits)

lemma okstep_membershipWalk: "encodes h \<Longrightarrow> okstep c (membershipWalk h t n m es c)"
  by (induction es arbitrary: m) (auto intro: okstep_add)

lemma okstep_membership: "encodes h \<Longrightarrow> okstep c (checkMembershipHistory h t n c)"
  by (auto simp: checkMembershipHistory_def Let_def intro: okstep_add okstep_membershipWalk)

lemma okstep_compareLogs: "encodes h \<Longrightarrow> okstep c (compareLogs h t l r is conflict c)"
proof (induction "is" arbitrary: conflict c)
  case (Cons i "is")
  show ?case
    unfolding compareLogs.simps Let_def
    by (rule okstep_trans [OF _ Cons.IH [OF Cons.prems]])
      (use Cons.prems in \<open>auto intro: okstep_add split: option.splits\<close>)
qed simp

lemma okstep_pair: "encodes h \<Longrightarrow> okstep c (checkPair h t l r c)"
  by (simp add: checkPair_def Let_def okstep_compareLogs)

lemma okstep_logs: "encodes h \<Longrightarrow> okstep c (checkLogs h t ns c)"
proof (induction ns arbitrary: c)
  case (Cons l rs)
  have "okstep c (fold (checkPair h t l) rs c)"
    using Cons.prems by (intro okstep_fold okstep_pair)
  then show ?case
    using okstep_trans [OF _ Cons.IH [OF Cons.prems]] by simp
qed simp

lemma okstep_election: "encodes h \<Longrightarrow> okstep c (checkElection h t n st c)"
  by (auto simp: checkElection_def intro: okstep_add okstep_ledgers split: option.splits)

lemma okstep_certificate: "encodes h \<Longrightarrow> okstep c (checkCertificate h t n st c)"
  by (auto simp: checkCertificate_def Let_def intro: okstep_add)

lemma okstep_completeness: "encodes h \<Longrightarrow> okstep c (completenessLoop h t n st is c)"
proof (induction "is" arbitrary: c)
  case (Cons i "is")
  show ?case
    unfolding completenessLoop.simps
    by (rule okstep_trans [OF _ Cons.IH [OF Cons.prems]])
      (use Cons.prems in \<open>auto intro: okstep_add split: option.splits\<close>)
qed simp

lemma okstep_leader: "encodes h \<Longrightarrow> okstep c (checkIfLeader h t n c)"
  unfolding checkIfLeader_def checkLeader_def Let_def
  by (auto split: option.splits intro: okstep_trans [OF okstep_trans [OF okstep_election okstep_certificate] okstep_completeness])

lemma okstep_node: "encodes h \<Longrightarrow> okstep c (checkNode h t n c)"
  unfolding checkNode_def
  by (rule okstep_trans [OF okstep_trans [OF okstep_trans [OF okstep_trans [OF okstep_durable okstep_committed]
     okstep_applied] okstep_snapshot] okstep_membership])

lemma okstep_observe: "encodes h \<Longrightarrow> okstep c (fst (Observe h ob c))"
  unfolding Observe_def Let_def fst_conv
  by (rule okstep_trans [OF okstep_trans [OF okstep_fold [OF okstep_node] okstep_logs] okstep_fold [OF okstep_leader]])

section \<open>What the ledgers record\<close>

lemma entriesEqual_eq: "entriesEqual a b \<longleftrightarrow> (a :: Entry) = b"
  by (cases a, cases b) (auto simp: entriesEqual_def membershipsEqual_def)

lemma election_records:
  assumes "encodes h" and "tracked c" and "clean (checkElection h t n st c)"
  shows "map_of (ckLeaders (checkElection h t n st c)) (stTerm st) = Some (noID n)"
  using assms add_not_clean [OF assms(1,2)]
  by (auto simp: checkElection_def update_conv' split: option.splits if_splits)

lemma term_records:
  assumes "encodes h" and "tracked c" and "clean (checkTerm h t n c)"
  shows "lookupOr 0 (ckDurableTerms (checkTerm h t n c)) (noID n) = CurrentTerm (hardOf n)"
proof -
  let ?cur = "CurrentTerm (hardOf n)"
  define c1 where "c1 = (case map_of (ckDurableTerms c) (noID n) of
      Some previous \<Rightarrow> if ?cur < previous then addViolation h t DurableTermMonotonic [noID n] (EvMonotonic previous ?cur) c else c
    | None \<Rightarrow> c)"
  have step: "checkTerm h t n c = (if ?cur > lookupOr 0 (ckDurableTerms c1) (noID n)
      then c1\<lparr>ckDurableTerms := AList.update (noID n) ?cur (ckDurableTerms c1)\<rparr> else c1)"
    by (simp add: checkTerm_def Let_def c1_def)
  have "clean c1"
    using assms(3) unfolding step by (auto simp: clean_def split: if_splits)
  then have "c1 = c" "lookupOr 0 (ckDurableTerms c) (noID n) \<le> ?cur"
    using add_not_clean [OF assms(1,2)] by (auto simp: c1_def lookupOr_def split: option.splits if_splits)
  then show ?thesis
    unfolding step by (auto simp: lookupOr_update)
qed

lemma vote_records:
  assumes "encodes h" and "tracked c" and "clean (checkVote h t n c)" and "VotedFor (hardOf n) \<noteq> []"
  shows "voteOf (checkVote h t n c) (noID n) (CurrentTerm (hardOf n)) = Some (VotedFor (hardOf n))"
proof -
  define ledger where "ledger = lookupOr [] (ckVotes c) (noID n)"
  define c1 where "c1 = c\<lparr>ckVotes := AList.update (noID n) ledger (ckVotes c)\<rparr>"
  have "tracked c1"
    using assms(2) by (simp add: c1_def tracked_def)
  then show ?thesis
    using assms(3,4) add_not_clean [OF assms(1) \<open>tracked c1\<close>]
    unfolding checkVote_def Let_def ledger_def [symmetric] c1_def [symmetric]
    by (auto simp: voteOf_def lookupOr_update update_conv' split: option.splits if_splits)
qed

lemma commitIndex_records:
  assumes "encodes h" and "tracked c" and "clean (checkCommitIndex h t n c)"
  shows "lookupOr 0 (ckCommitIndexes (checkCommitIndex h t n c)) (noID n) = CommitIndex (hardOf n)"
proof -
  let ?p = "lookupOr 0 (ckCommitIndexes c) (noID n)" and ?i = "CommitIndex (hardOf n)"
  define c1 where "c1 = (if ?i < ?p then addViolation h t CommitMonotonic [noID n] (EvMonotonic ?p ?i) c else c)"
  have step: "checkCommitIndex h t n c = (if ?i > lookupOr 0 (ckCommitIndexes c1) (noID n)
      then c1\<lparr>ckCommitIndexes := AList.update (noID n) ?i (ckCommitIndexes c1)\<rparr> else c1)"
    by (simp add: checkCommitIndex_def Let_def c1_def)
  have "clean c1"
    using assms(3) unfolding step by (auto simp: clean_def split: if_splits)
  then have "c1 = c" "?p \<le> ?i"
    using add_not_clean [OF assms(1,2)] by (auto simp: c1_def split: if_splits)
  then show ?thesis
    unfolding step by (auto simp: lookupOr_update)
qed

lemma appliedIndex_records:
  assumes "encodes h" and "tracked c" and "clean (checkAppliedIndex h t n c)"
  shows "lookupOr 0 (ckAppliedIndexes (checkAppliedIndex h t n c)) (noID n) = noAppliedIndex n"
proof -
  let ?p = "lookupOr 0 (ckAppliedIndexes c) (noID n)" and ?i = "noAppliedIndex n"
  define c1 where "c1 = (if ?i < ?p then addViolation h t AppliedMonotonic [noID n] (EvMonotonic ?p ?i) c else c)"
  have step: "checkAppliedIndex h t n c = (if ?i > lookupOr 0 (ckAppliedIndexes c1) (noID n)
      then c1\<lparr>ckAppliedIndexes := AList.update (noID n) ?i (ckAppliedIndexes c1)\<rparr> else c1)"
    by (simp add: checkAppliedIndex_def Let_def c1_def)
  have "clean c1"
    using assms(3) unfolding step by (auto simp: clean_def split: if_splits)
  then have "c1 = c" "?p \<le> ?i"
    using add_not_clean [OF assms(1,2)] by (auto simp: c1_def split: if_splits)
  then show ?thesis
    unfolding step by (auto simp: lookupOr_update)
qed

definition witnessed :: "(u64 \<times> entryWitness) list \<Rightarrow> Entry \<Rightarrow> bool" where
  "witnessed al e \<longleftrightarrow> (\<exists>w. map_of al (eIndex e) = Some w \<and> ewEntry w = e)"

lemma witnessed_mono: "witnessed al e \<Longrightarrow> map_of al \<subseteq>\<^sub>m map_of al' \<Longrightarrow> witnessed al' e"
  by (auto simp: witnessed_def map_le_def dom_def)

definition committedPrefix :: "NodeObservation \<Rightarrow> Entry list" where
  "committedPrefix n = takeWhile (\<lambda>e. eIndex e \<le> CommitIndex (hardOf n)) (logOf n)"

lemma committedLoop_records:
  assumes "encodes h"
  shows "tracked c \<Longrightarrow> clean (committedLoop h t n es c) \<Longrightarrow>
    \<forall>e\<in>set (takeWhile (\<lambda>e. eIndex e \<le> CommitIndex (hardOf n)) es). witnessed (ckCommitted (committedLoop h t n es c)) e"
proof (induction es arbitrary: c)
  case (Cons e es)
  define c1 where "c1 = (case map_of (ckCommitted c) (eIndex e) of
           Some previous \<Rightarrow>
             if \<not> entriesEqual (ewEntry previous) e
             then addViolation h t CommittedConflict [ewNode previous, noID n]
                    (EvEntries (eIndex e) previous \<lparr>ewNode = noID n, ewEntry = e, ewCommitTerm = 0\<rparr>) c
             else c
         | None \<Rightarrow> c\<lparr>ckCommitted := AList.update (eIndex e)
             \<lparr>ewNode = noID n, ewEntry = e, ewCommitTerm = CurrentTerm (hardOf n)\<rparr> (ckCommitted c)\<rparr>)"
  show ?case
  proof (cases "eIndex e \<le> CommitIndex (hardOf n)")
    case True
    then have step: "committedLoop h t n (e # es) c = committedLoop h t n es c1"
      by (simp add: c1_def not_less)
    have ok: "okstep c c1"
      using assms by (auto simp: c1_def intro: okstep_add okstep_ledgers split: option.splits)
    have tr: "tracked c1" and g: "clean c1 \<and> grows c1 (committedLoop h t n es c1)"
      using okstepD [OF ok Cons.prems(1)] okstepD(2,3) [OF okstep_committedLoop [OF assms], of c1] Cons.prems(2)
      unfolding step by auto
    have "witnessed (ckCommitted c1) e"
      using g add_not_clean [OF assms Cons.prems(1)]
      by (auto simp: c1_def witnessed_def update_conv' entriesEqual_eq split: option.splits if_splits)
    then have "witnessed (ckCommitted (committedLoop h t n es c1)) e"
      using g witnessed_mono by (auto simp: grows_def)
    then show ?thesis
      using Cons.IH [OF tr] Cons.prems(2) True unfolding step by simp
  qed simp
qed simp

lemma appliedLoop_records:
  assumes "encodes h"
  shows "tracked c \<Longrightarrow> clean (appliedLoop h t n es c) \<Longrightarrow> \<forall>e\<in>set es. witnessed (ckApplied (appliedLoop h t n es c)) e"
proof (induction es arbitrary: c)
  case (Cons e es)
  define c1 where "c1 = (case map_of (ckApplied c) (eIndex e) of
          Some previous \<Rightarrow>
            if \<not> entriesEqual (ewEntry previous) e
            then addViolation h t AppliedConflict [ewNode previous, noID n]
                   (EvEntries (eIndex e) previous \<lparr>ewNode = noID n, ewEntry = e, ewCommitTerm = 0\<rparr>) c
            else c
        | None \<Rightarrow> c\<lparr>ckApplied := AList.update (eIndex e) \<lparr>ewNode = noID n, ewEntry = e, ewCommitTerm = 0\<rparr> (ckApplied c)\<rparr>)"
  have step: "appliedLoop h t n (e # es) c = appliedLoop h t n es c1"
    by (simp add: c1_def)
  have ok: "okstep c c1"
    using assms by (auto simp: c1_def intro: okstep_add okstep_ledgers split: option.splits)
  have tr: "tracked c1" and g: "clean c1 \<and> grows c1 (appliedLoop h t n es c1)"
    using okstepD [OF ok Cons.prems(1)] okstepD(2,3) [OF okstep_appliedLoop [OF assms], of c1] Cons.prems(2)
    unfolding step by auto
  have "witnessed (ckApplied c1) e"
    using g add_not_clean [OF assms Cons.prems(1)]
    by (auto simp: c1_def witnessed_def update_conv' entriesEqual_eq split: option.splits if_splits)
  then have "witnessed (ckApplied (appliedLoop h t n es c1)) e"
    using g witnessed_mono by (auto simp: grows_def)
  then show ?case
    using Cons.IH [OF tr] Cons.prems(2) unfolding step by simp
qed simp

definition snapshotRecorded :: "Checker \<Rightarrow> Snapshot \<Rightarrow> bool" where
  "snapshotRecorded c s \<longleftrightarrow> (LastIncludedIndex s \<noteq> 0 \<longrightarrow>
     (\<exists>w. map_of (ckSnapshots c) (LastIncludedIndex s) = Some w \<and> sameSnapshot (swSnapshot w) s))"

lemma snapshot_records:
  assumes "encodes h" and "tracked c" and "clean (checkSnapshotHistory h t n c)"
  shows "snapshotRecorded (checkSnapshotHistory h t n c) (snapOf n)"
  using assms add_not_clean [OF assms(1,2)]
  by (auto simp: checkSnapshotHistory_def snapshotRecorded_def update_conv' sameSnapshot_def membershipsEqual_def Let_def
      split: option.splits if_splits)

end
