(* ===== verification/CheckerHistory.thy ===== *)
theory CheckerHistory
  imports CheckerProps
begin

text \<open>
  From single checks to whole histories: what a run of observations without a violation guarantees about
  leaders, votes, committed and applied entries, snapshots, monotonic counters and logs.
\<close>

section \<open>One node\<close>

definition recorded :: "NodeObservation \<Rightarrow> Checker \<Rightarrow> bool" where
  "recorded n c \<longleftrightarrow> (VotedFor (hardOf n) \<noteq> [] \<longrightarrow> voteOf c (noID n) (CurrentTerm (hardOf n)) = Some (VotedFor (hardOf n)))
     \<and> (\<forall>e\<in>set (committedPrefix n). witnessed (ckCommitted c) e) \<and> (\<forall>e\<in>set (noApplied n). witnessed (ckApplied c) e)
     \<and> snapshotRecorded c (snapOf n)
     \<and> CurrentTerm (hardOf n) \<le> lookupOr 0 (ckDurableTerms c) (noID n)
     \<and> CommitIndex (hardOf n) \<le> lookupOr 0 (ckCommitIndexes c) (noID n)
     \<and> noAppliedIndex n \<le> lookupOr 0 (ckAppliedIndexes c) (noID n)"

definition below :: "Checker \<Rightarrow> NodeObservation \<Rightarrow> bool" where
  "below c n \<longleftrightarrow> lookupOr 0 (ckDurableTerms c) (noID n) \<le> CurrentTerm (hardOf n)
     \<and> lookupOr 0 (ckCommitIndexes c) (noID n) \<le> CommitIndex (hardOf n)
     \<and> lookupOr 0 (ckAppliedIndexes c) (noID n) \<le> noAppliedIndex n"

lemma map_le_Some: "f \<subseteq>\<^sub>m g \<Longrightarrow> f k = Some v \<Longrightarrow> g k = Some v"
  by (metis domI map_le_def)

lemma growsD:
  assumes "grows c c'"
  shows "voteOf c n k = Some v \<Longrightarrow> voteOf c' n k = Some v"
    and "map_of (ckLeaders c) k = Some v \<Longrightarrow> map_of (ckLeaders c') k = Some v"
    and "witnessed (ckCommitted c) e \<Longrightarrow> witnessed (ckCommitted c') e"
    and "witnessed (ckApplied c) e \<Longrightarrow> witnessed (ckApplied c') e"
    and "snapshotRecorded c s \<Longrightarrow> snapshotRecorded c' s"
    and "lookupOr 0 (ckDurableTerms c) n \<le> lookupOr 0 (ckDurableTerms c') n"
    and "lookupOr 0 (ckCommitIndexes c) n \<le> lookupOr 0 (ckCommitIndexes c') n"
    and "lookupOr 0 (ckAppliedIndexes c) n \<le> lookupOr 0 (ckAppliedIndexes c') n"
proof -
  have m: "map_of (ckSnapshots c) \<subseteq>\<^sub>m map_of (ckSnapshots c')"
    using assms by (simp add: grows_def)
  show "snapshotRecorded c s \<Longrightarrow> snapshotRecorded c' s"
    using map_le_Some [OF m] by (auto simp: snapshotRecorded_def)
  show "voteOf c n k = Some v \<Longrightarrow> voteOf c' n k = Some v"
    using assms map_le_Some [of "voteOf c n" "voteOf c' n"] by (simp add: grows_def)
  show "map_of (ckLeaders c) k = Some v \<Longrightarrow> map_of (ckLeaders c') k = Some v"
    using assms map_le_Some [of "map_of (ckLeaders c)" "map_of (ckLeaders c')"] by (simp add: grows_def)
  show "witnessed (ckCommitted c) e \<Longrightarrow> witnessed (ckCommitted c') e"
    using assms witnessed_mono by (simp add: grows_def)
  show "witnessed (ckApplied c) e \<Longrightarrow> witnessed (ckApplied c') e"
    using assms witnessed_mono by (simp add: grows_def)
qed (use assms in \<open>simp_all add: grows_def\<close>)

lemma recorded_grows:
  assumes "recorded n c" and "grows c c'"
  shows "recorded n c'"
  using assms(1) growsD [OF assms(2)] order_trans unfolding recorded_def by blast

lemma below_grows:
  assumes "below c' n" and "grows c c'"
  shows "below c n"
  using assms(1) growsD(6-8) [OF assms(2)] order_trans unfolding below_def by blast

text \<open>A state between two steps, when the result is clean.\<close>

lemma okstep_mid:
  assumes "okstep a b" and "okstep b d" and "tracked a" and "clean d"
  shows "tracked b" and "clean b" and "grows a b" and "grows b d"
  using assms by (simp_all add: okstep_def)

lemma node_recorded:
  assumes enc: "encodes h" and tr: "tracked c" and cl: "clean (checkNode h t n c)"
  shows "recorded n (checkNode h t n c)" and "below c n"
proof -
  define c1 where "c1 = checkTerm h t n c"
  define c2 where "c2 = checkVote h t n c1"
  define c3 where "c3 = checkVolatile h t n c2"
  define c4 where "c4 = checkCommitIndex h t n c3"
  define c5 where "c5 = committedLoop h t n (logOf n) c4"
  define c6 where "c6 = checkAppliedIndex h t n c5"
  define c7 where "c7 = appliedLoop h t n (noApplied n) c6"
  define c8 where "c8 = checkSnapshotHistory h t n c7"
  define c9 where "c9 = checkNode h t n c"
  have c9: "c9 = checkMembershipHistory h t n c8"
    by (simp add: checkNode_def checkDurableHistory_def checkCommittedHistory_def checkAppliedHistory_def
        c1_def c2_def c3_def c4_def c5_def c6_def c7_def c8_def c9_def)
  have ok: "okstep c c1" "okstep c1 c2" "okstep c2 c3" "okstep c3 c4" "okstep c4 c5" "okstep c5 c6" "okstep c6 c7"
      "okstep c7 c8" "okstep c8 c9"
    unfolding c1_def c2_def c3_def c4_def c5_def c6_def c7_def c8_def c9
    by (intro okstep_term okstep_vote okstep_volatile okstep_commitIndex okstep_committedLoop okstep_appliedIndex
        okstep_appliedLoop okstep_snapshot okstep_membership enc)+
  note suf8 = ok(9) and suf7 = okstep_trans [OF ok(8) ok(9)]
  note suf6 = okstep_trans [OF ok(7) suf7]
  note suf5 = okstep_trans [OF ok(6) suf6]
  note suf4 = okstep_trans [OF ok(5) suf5]
  note suf3 = okstep_trans [OF ok(4) suf4]
  note suf2 = okstep_trans [OF ok(3) suf3]
  note suf1 = okstep_trans [OF ok(2) suf2]
  have cl9: "clean c9"
    using cl by (simp add: c9_def)
  note m1 = okstep_mid [OF ok(1) suf1 tr cl9]
  note m2 = okstep_mid [OF ok(2) suf2 m1(1) cl9]
  note m3 = okstep_mid [OF okstep_trans [OF ok(1) okstep_trans [OF ok(2) ok(3)]] suf3 tr cl9]
  note m4 = okstep_mid [OF ok(4) suf4 m3(1) cl9]
  note m5 = okstep_mid [OF okstep_trans [OF ok(4) ok(5)] suf5 m3(1) cl9]
  note m6 = okstep_mid [OF ok(6) suf6 m5(1) cl9]
  note m7 = okstep_mid [OF ok(7) suf7 m6(1) cl9]
  note m8 = okstep_mid [OF ok(8) suf8 m7(1) cl9]
  note cur = term_records [OF enc tr, of t n, folded c1_def, OF m1(2)]
    and commit = commitIndex_records [OF enc m3(1), of t n, folded c4_def, OF m4(2)]
    and appl = appliedIndex_records [OF enc m5(1), of t n, folded c6_def, OF m6(2)]
  show "below c n"
    using growsD(6) [OF m1(3), of "noID n"] growsD(7) [OF grows_trans [OF m3(3) m4(3)], of "noID n"] cur commit appl
      growsD(8) [OF grows_trans [OF m3(3) grows_trans [OF m5(3) m6(3)]], of "noID n"] by (simp add: below_def)
  have "recorded n c9"
    unfolding recorded_def committedPrefix_def
    using growsD(1) [OF m2(4)] vote_records [OF enc m1(1), of t n, folded c2_def, OF m2(2)]
      growsD(3) [OF m5(4)] committedLoop_records [OF enc m4(1), of t n "logOf n", folded c5_def, OF m5(2)]
      growsD(4) [OF m7(4)] appliedLoop_records [OF enc m6(1), of t n "noApplied n", folded c7_def, OF m7(2)]
      growsD(5) [OF m8(4)] snapshot_records [OF enc m7(1), of t n, folded c8_def, OF m8(2)]
      growsD(6) [OF m1(4), of "noID n"] growsD(7) [OF m4(4), of "noID n"] growsD(8) [OF m6(4), of "noID n"] cur commit appl
    by simp
  then show "recorded n (checkNode h t n c)"
    by (simp add: c9_def)
qed

definition leaderRecorded :: "NodeObservation \<Rightarrow> Checker \<Rightarrow> bool" where
  "leaderRecorded n c \<longleftrightarrow> (\<forall>st. leaderStatus n = Some st \<longrightarrow> map_of (ckLeaders c) (stTerm st) = Some (noID n))"

lemma leader_recorded:
  assumes enc: "encodes h" and tr: "tracked c" and cl: "clean (checkIfLeader h t n c)"
  shows "leaderRecorded n (checkIfLeader h t n c)"
proof (cases "leaderStatus n")
  case (Some st)
  define c1 where "c1 = checkElection h t n st c"
  have step: "checkIfLeader h t n c = completenessLoop h t n st
      (committedIndexesFor (checkCertificate h t n st c1) st) (checkCertificate h t n st c1)"
    using Some by (simp add: checkIfLeader_def checkLeader_def Let_def c1_def)
  have t1: "tracked c1"
    using okstepD(1) [OF okstep_election [OF enc] tr] by (simp add: c1_def)
  have "okstep c1 (checkIfLeader h t n c)"
    unfolding step by (rule okstep_trans [OF okstep_certificate okstep_completeness]) (rule enc)+
  then have "clean c1" "grows c1 (checkIfLeader h t n c)"
    using okstepD(2,3) t1 cl by blast+
  moreover have "map_of (ckLeaders c1) (stTerm st) = Some (noID n)"
    using election_records [OF enc tr] \<open>clean c1\<close> unfolding c1_def by blast
  ultimately show ?thesis
    using Some growsD(2) by (auto simp: leaderRecorded_def)
qed (simp add: leaderRecorded_def)

section \<open>Observations\<close>

lemma fold_split:
  assumes "\<And>x c. okstep c (g x c)" and "x \<in> set xs" and "tracked c" and "clean (fold g xs c)"
  obtains c0 where "tracked c0" and "clean (g x c0)" and "grows c c0" and "grows (g x c0) (fold g xs c)"
proof -
  obtain ys zs where xs: "xs = ys @ x # zs"
    using assms(2) by (auto dest: split_list)
  let ?c0 = "fold g ys c"
  have f: "fold g xs c = fold g zs (g x ?c0)"
    by (simp add: xs)
  have t0: "tracked ?c0" and t1: "tracked (g x ?c0)"
    using okstepD(1) [OF okstep_fold [of g, OF assms(1)] assms(3)] okstepD(1) [OF assms(1)] by blast+
  have l1: "clean (g x ?c0)" and g1: "grows (g x ?c0) (fold g xs c)"
    using okstepD(2,3) [OF okstep_fold [of g, OF assms(1)] t1] assms(4) unfolding f by blast+
  have "clean ?c0"
    using okstepD(2) [OF assms(1) t0 l1] .
  then have "grows c ?c0"
    using okstepD(3) [OF okstep_fold [of g, OF assms(1)] assms(3)] by blast
  then show thesis
    using that t0 l1 g1 by blast
qed

lemma observe_recorded:
  assumes enc: "encodes h" and tr: "tracked c" and cl: "clean (fst (Observe h ob c))" and n: "n \<in> set (obNodes ob)"
  shows "recorded n (fst (Observe h ob c))" and "leaderRecorded n (fst (Observe h ob c))" and "below c n"
proof -
  let ?ns = "sort_key noID (obNodes ob)" and ?t = "obAt ob"
  define c1 where "c1 = fold (checkNode h ?t) ?ns c"
  define c2 where "c2 = checkLogs h ?t ?ns c1"
  have c3: "fst (Observe h ob c) = fold (checkIfLeader h ?t) ?ns c2"
    by (simp add: Observe_def Let_def c1_def c2_def)
  have o1: "okstep c c1"
    unfolding c1_def using enc by (intro okstep_fold okstep_node)
  have o2: "okstep c1 c2"
    unfolding c2_def using enc by (rule okstep_logs)
  have o3: "okstep c2 (fst (Observe h ob c))"
    unfolding c3 using enc by (intro okstep_fold okstep_leader)
  have t1: "tracked c1" by (rule okstepD(1) [OF o1 tr])
  have t2: "tracked c2" by (rule okstepD(1) [OF o2 t1])
  have l2: "clean c2" by (rule okstepD(2) [OF o3 t2 cl])
  have l1: "clean c1" by (rule okstepD(2) [OF o2 t1 l2])
  have g: "grows c1 (fst (Observe h ob c))"
    by (rule grows_trans [OF okstepD(3) [OF o2 t1 l2] okstepD(3) [OF o3 t2 cl]])
  have m: "n \<in> set ?ns"
    using n by simp
  obtain c0 where c0: "tracked c0" "clean (checkNode h ?t n c0)" "grows c c0" "grows (checkNode h ?t n c0) c1"
    using fold_split [of "checkNode h ?t", OF okstep_node [OF enc] m tr l1 [unfolded c1_def]] unfolding c1_def by blast
  show "recorded n (fst (Observe h ob c))"
    using node_recorded(1) [OF enc c0(1,2)] grows_trans [OF c0(4) g] by (rule recorded_grows)
  show "below c n"
    using node_recorded(2) [OF enc c0(1,2)] c0(3) by (rule below_grows)
  obtain d0 where d0: "tracked d0" "clean (checkIfLeader h ?t n d0)" "grows (checkIfLeader h ?t n d0) (fst (Observe h ob c))"
    using fold_split [of "checkIfLeader h ?t", OF okstep_leader [OF enc] m t2 cl [unfolded c3]] unfolding c3 by blast
  show "leaderRecorded n (fst (Observe h ob c))"
    using leader_recorded [OF enc d0(1,2)] growsD(2) [OF d0(3)] by (simp add: leaderRecorded_def)
qed

section \<open>Histories\<close>

definition runChecker :: "hasher \<Rightarrow> Observation list \<Rightarrow> Checker \<Rightarrow> Checker" where
  "runChecker h obs c = fold (\<lambda>ob c. fst (Observe h ob c)) obs c"

lemma tracked_new [simp]: "tracked (NewWithMembership ms im)"
  by (simp add: tracked_def NewWithMembership_def)

lemma history_recorded:
  assumes enc: "encodes h" and cl: "ckViolations (runChecker h obs (NewWithMembership ms im)) = []"
    and ob: "ob \<in> set obs" and n: "n \<in> set (obNodes ob)"
  shows "recorded n (runChecker h obs (NewWithMembership ms im))"
    and "leaderRecorded n (runChecker h obs (NewWithMembership ms im))"
proof -
  let ?g = "\<lambda>ob c. fst (Observe h ob c)" and ?c = "NewWithMembership ms im"
  have cl': "clean (fold ?g obs ?c)"
    using cl by (simp add: clean_def runChecker_def)
  obtain c0 where c0: "tracked c0" "clean (fst (Observe h ob c0))" "grows (fst (Observe h ob c0)) (fold ?g obs ?c)"
    using fold_split [of ?g, OF okstep_observe [OF enc] ob tracked_new cl'] by blast
  show "recorded n (runChecker h obs ?c)"
    unfolding runChecker_def using observe_recorded(1) [OF enc c0(1,2) n] c0(3) by (rule recorded_grows)
  show "leaderRecorded n (runChecker h obs ?c)"
    unfolding runChecker_def using observe_recorded(2) [OF enc c0(1,2) n] growsD(2) [OF c0(3)]
    by (simp add: leaderRecorded_def)
qed

lemma history_monotonic:
  assumes enc: "encodes h" and cl: "ckViolations (runChecker h (xs @ ob # ys @ ob' # zs) (NewWithMembership ms im)) = []"
    and n: "n \<in> set (obNodes ob)" and n': "n' \<in> set (obNodes ob')"
  shows "\<exists>c. recorded n c \<and> below c n'"
proof -
  let ?g = "\<lambda>ob c. fst (Observe h ob c)"
  define c0 where "c0 = fold ?g xs (NewWithMembership ms im)"
  define c1 where "c1 = ?g ob c0"
  define c2 where "c2 = fold ?g ys c1"
  have run: "runChecker h (xs @ ob # ys @ ob' # zs) (NewWithMembership ms im) = fold ?g zs (?g ob' c2)"
    by (simp add: runChecker_def c0_def c1_def c2_def)
  have ok: "okstep (NewWithMembership ms im) c0" "okstep c0 c1" "okstep c1 c2" "okstep c2 (?g ob' c2)"
      "okstep (?g ob' c2) (fold ?g zs (?g ob' c2))"
    unfolding c0_def c1_def c2_def using enc by (intro okstep_fold okstep_observe | assumption)+
  have t0: "tracked c0" by (rule okstepD(1) [OF ok(1) tracked_new])
  have t1: "tracked c1" by (rule okstepD(1) [OF ok(2) t0])
  have t2: "tracked c2" by (rule okstepD(1) [OF ok(3) t1])
  have l3: "clean (?g ob' c2)"
    using okstepD(2) [OF ok(5) okstepD(1) [OF ok(4) t2]] cl unfolding run by (simp add: clean_def)
  have l2: "clean c2" by (rule okstepD(2) [OF ok(4) t2 l3])
  have l1: "clean c1" by (rule okstepD(2) [OF ok(3) t1 l2])
  have "recorded n c1"
    using observe_recorded(1) [OF enc t0 _ n] l1 unfolding c1_def by blast
  then have "recorded n c2"
    using okstepD(3) [OF ok(3) t1 l2] by (rule recorded_grows)
  moreover have "below c2 n'"
    by (rule observe_recorded(3) [OF enc t2 l3 n'])
  ultimately show ?thesis by blast
qed

section \<open>Logs\<close>

definition agreeAt :: "NodeObservation \<Rightarrow> NodeObservation \<Rightarrow> u64 \<Rightarrow> bool" where
  "agreeAt l r j \<longleftrightarrow> stateEntryAt (noDurable l) j \<noteq> None \<and> stateEntryAt (noDurable l) j = stateEntryAt (noDurable r) j"

definition sameTermAt :: "NodeObservation \<Rightarrow> NodeObservation \<Rightarrow> u64 \<Rightarrow> bool" where
  "sameTermAt l r i \<longleftrightarrow> (\<exists>a b. stateEntryAt (noDurable l) i = Some a \<and> stateEntryAt (noDurable r) i = Some b \<and> eTerm a = eTerm b)"

lemma compareLogs_Cons:
  "compareLogs h t l r (i # is) conflict c =
     (let conflict' = (if conflict = None \<and> \<not> agreeAt l r i then Some i else conflict);
          c' = (if conflict' \<noteq> None \<and> sameTermAt l r i
                then addViolation h t LogMatching [noID l, noID r]
                  (EvLogMatching i (the conflict') (eTerm (the (stateEntryAt (noDurable l) i)))) c else c)
      in compareLogs h t l r is conflict' c')"
  by (auto simp: Let_def agreeAt_def sameTermAt_def entriesEqual_eq split: option.splits)

lemma compareLogs_conflict:
  assumes "encodes h"
  shows "tracked c \<Longrightarrow> clean (compareLogs h t l r is (Some f) c) \<Longrightarrow> i \<in> set is \<Longrightarrow> \<not> sameTermAt l r i"
proof (induction "is" arbitrary: c)
  case (Cons j "is")
  let ?c = "if sameTermAt l r j then addViolation h t LogMatching [noID l, noID r]
      (EvLogMatching j f (eTerm (the (stateEntryAt (noDurable l) j)))) c else c"
  have step: "compareLogs h t l r (j # is) (Some f) c = compareLogs h t l r is (Some f) ?c"
    by (simp add: compareLogs_Cons del: compareLogs.simps)
  have tr: "tracked ?c"
    using Cons.prems(1) add_tracked by simp
  have "clean ?c"
    using okstepD(2) [OF okstep_compareLogs [OF assms] tr] Cons.prems(2) unfolding step by blast
  then have "\<not> sameTermAt l r j"
    using add_not_clean [OF assms Cons.prems(1)] by (auto split: if_splits)
  then show ?case
    using Cons.IH [OF tr] Cons.prems(2,3) unfolding step by auto
qed simp

lemma compareLogs_match:
  assumes "encodes h"
  shows "tracked c \<Longrightarrow> clean (compareLogs h t l r (pre @ i # post) None c) \<Longrightarrow> sameTermAt l r i \<Longrightarrow>
    \<forall>j\<in>set (pre @ [i]). agreeAt l r j"
proof (induction pre arbitrary: c)
  case Nil
  have "agreeAt l r i"
  proof (rule ccontr)
    assume "\<not> agreeAt l r i"
    then have "compareLogs h t l r ([] @ i # post) None c = compareLogs h t l r post (Some i)
        (addViolation h t LogMatching [noID l, noID r]
          (EvLogMatching i i (eTerm (the (stateEntryAt (noDurable l) i)))) c)"
      using Nil.prems(3) by (simp add: compareLogs_Cons del: compareLogs.simps)
    then have "clean (addViolation h t LogMatching [noID l, noID r]
          (EvLogMatching i i (eTerm (the (stateEntryAt (noDurable l) i)))) c)"
      using okstepD(2) [OF okstep_compareLogs [OF assms] add_tracked [OF Nil.prems(1)]] Nil.prems(2)
      by (simp only:)
    then show False
      using add_not_clean [OF assms Nil.prems(1) ids_nonempty(6)] by blast
  qed
  then show ?case by simp
next
  case (Cons k pre)
  show ?case
  proof (cases "agreeAt l r k")
    case True
    then have "compareLogs h t l r ((k # pre) @ i # post) None c = compareLogs h t l r (pre @ i # post) None c"
      by (simp add: compareLogs_Cons del: compareLogs.simps)
    then show ?thesis
      using Cons.IH [OF Cons.prems(1) _ Cons.prems(3)] Cons.prems(2) True by simp
  next
    case False
    let ?c = "if sameTermAt l r k then addViolation h t LogMatching [noID l, noID r]
        (EvLogMatching k k (eTerm (the (stateEntryAt (noDurable l) k)))) c else c"
    have "compareLogs h t l r ((k # pre) @ i # post) None c = compareLogs h t l r (pre @ i # post) (Some k) ?c"
      using False by (simp add: compareLogs_Cons del: compareLogs.simps)
    moreover have "tracked ?c"
      using Cons.prems(1) by (simp add: add_tracked)
    ultimately have "\<not> sameTermAt l r i"
      using compareLogs_conflict [OF assms, of ?c t l r "pre @ i # post" k i] Cons.prems(2)
      by (simp only: set_append list.set in_set_conv_decomp Un_iff insert_iff simp_thms)
    then show ?thesis
      using Cons.prems(3) by blast
  qed
qed

lemma indexRange_split:
  assumes "start \<le> i" and "i \<le> limit"
  obtains pre post where "indexRange start limit = pre @ i # post" and "set pre = {j. start \<le> j \<and> j < i}"
proof -
  have le: "unat start \<le> unat i" "unat i \<le> unat limit"
    using assms by (simp_all add: word_le_nat_alt)
  have "[unat start ..< Suc (unat limit)] = [unat start ..< unat i] @ unat i # [Suc (unat i) ..< Suc (unat limit)]"
    using le upt_add_eq_append [of "unat start" "unat i" "Suc (unat limit) - unat i"]
      upt_conv_Cons [of "unat i" "Suc (unat limit)"] by simp
  then have "indexRange start limit = map of_nat [unat start ..< unat i] @ i # map of_nat [Suc (unat i) ..< Suc (unat limit)]"
    by (simp add: indexRange_def)
  moreover have "set (map of_nat [unat start ..< unat i]) = {j. start \<le> j \<and> j < i}"
  proof (intro set_eqI iffI)
    fix j :: u64
    assume "j \<in> {j. start \<le> j \<and> j < i}"
    then show "j \<in> set (map of_nat [unat start ..< unat i])"
      by (auto simp: word_le_nat_alt word_less_nat_alt image_iff intro!: bexI [of _ "unat j"])
  next
    fix j :: u64
    assume "j \<in> set (map of_nat [unat start ..< unat i])"
    then obtain k where k: "j = of_nat k" "unat start \<le> k" "k < unat i"
      by auto
    moreover have "unat (of_nat k :: u64) = k"
      using k(3) unat_u64_less [of i] by (simp add: unsigned_of_nat take_bit_nat_eq_self)
    ultimately show "j \<in> {j. start \<le> j \<and> j < i}"
      by (simp add: word_le_nat_alt word_less_nat_alt)
  qed
  ultimately show thesis
    using that by blast
qed

lemma entry_within:
  assumes "stateEntryAt s i = Some a"
  shows "i \<le> stateLastIndex s" and "LastIncludedIndex (snapshot s) < i"
proof -
  let ?b = "LastIncludedIndex (snapshot s)" and ?len = "length (RaftData.log s)"
  have i: "?b < i" and off: "unat (i - ?b - 1) < ?len"
    using assms by (auto simp: stateEntryAt_def entryFrom_def Let_def split: if_splits)
  show "?b < i" by (rule i)
  have "unat (i - ?b) = unat i - unat ?b"
    using i by (intro unat_sub) simp
  moreover have "unat (i - ?b - 1) = unat (i - ?b) - 1"
    using i by (subst unat_sub) (auto simp: word_le_nat_alt word_less_nat_alt calculation)
  ultimately have d: "unat i \<le> unat ?b + ?len"
    using off i by (simp add: word_less_nat_alt)
  show "i \<le> stateLastIndex s"
  proof (cases "?len > unat (MaxUint64 - ?b)")
    case False
    have "unat (MaxUint64 - ?b) = unat MaxUint64 - unat ?b"
      by (rule unat_sub) simp
    then have "unat ?b + ?len < 2 ^ 64"
      using False unat_u64_less [of ?b] by simp
    then have "unat (?b + of_nat ?len) = unat ?b + ?len"
      by (rule unat_plus_of_nat)
    then show ?thesis
      using d False by (simp add: stateLastIndex_def Let_def word_le_nat_alt)
  qed (simp add: stateLastIndex_def Let_def)
qed

lemma pair_match:
  assumes enc: "encodes h" and tr: "tracked c" and cl: "clean (checkPair h t l r c)" and same: "sameTermAt l r i"
    and j: "max (LastIncludedIndex (snapOf l)) (LastIncludedIndex (snapOf r)) < j" "j \<le> i"
  shows "agreeAt l r j"
proof -
  define b where "b = max (LastIncludedIndex (snapOf l)) (LastIncludedIndex (snapOf r))"
  define limit where "limit = min (stateLastIndex (noDurable l)) (stateLastIndex (noDurable r))"
  have bound: "b < i" "i \<le> limit"
    using same entry_within by (auto simp: sameTermAt_def b_def limit_def)
  have ne: "b \<noteq> MaxUint64"
    using bound(1) by (rule less_imp_not_MaxUint64)
  then have succ: "b + 1 \<le> x \<longleftrightarrow> b < x" for x
    by (simp add: word_le_nat_alt word_less_nat_alt unat_plus_one Suc_le_eq)
  have "b + 1 \<le> i"
    using bound(1) succ by blast
  then obtain pre post where rng: "indexRange (b + 1) limit = pre @ i # post" "set pre = {j. b + 1 \<le> j \<and> j < i}"
    using bound(2) by (rule indexRange_split)
  have "\<not> limit < b + 1"
    using \<open>b + 1 \<le> i\<close> bound(2) by simp
  then have "checkPair h t l r c = compareLogs h t l r (pre @ i # post) None c"
    unfolding checkPair_def Let_def b_def [symmetric] limit_def [symmetric] rng(1) [symmetric]
    using ne by (simp only: if_False)
  then have "\<forall>j\<in>set (pre @ [i]). agreeAt l r j"
    using compareLogs_match [OF enc tr _ same] cl by metis
  moreover have "j \<in> set (pre @ [i])"
  proof (cases "j = i")
    case False
    then have "b + 1 \<le> j \<and> j < i"
      using j succ [of j] unfolding b_def [symmetric] by (simp only: order_less_le simp_thms)
    then show ?thesis
      using rng(2) by simp
  qed simp
  ultimately show ?thesis by blast
qed

lemma logs_pair:
  assumes enc: "encodes h"
  shows "tracked c \<Longrightarrow> clean (checkLogs h t (xs @ l # ys @ r # zs) c) \<Longrightarrow> \<exists>c0. tracked c0 \<and> clean (checkPair h t l r c0)"
proof (induction xs arbitrary: c)
  case Nil
  let ?rs = "ys @ r # zs"
  have ok: "okstep c (fold (checkPair h t l) ?rs c)"
    using enc by (intro okstep_fold okstep_pair)
  have "clean (fold (checkPair h t l) ?rs c)"
    using okstepD(2) [OF okstep_logs [OF enc] okstepD(1) [OF ok Nil.prems(1)]] Nil.prems(2) by simp
  then show ?case
    using fold_split [of "checkPair h t l" r ?rs c, OF okstep_pair [OF enc]] Nil.prems(1) by auto
next
  case (Cons x xs)
  let ?c = "fold (checkPair h t x) (xs @ l # ys @ r # zs) c"
  have "okstep c ?c"
    using enc by (intro okstep_fold okstep_pair)
  then show ?case
    using Cons.IH [of ?c] okstepD(1) [OF _ Cons.prems(1)] Cons.prems(2) by simp
qed

lemma two_members:
  assumes "x \<in> set xs" and "y \<in> set xs"
  obtains "x = y" | us vs ws where "xs = us @ x # vs @ y # ws" | us vs ws where "xs = us @ y # vs @ x # ws"
proof -
  obtain us zs where xs: "xs = us @ x # zs"
    using assms(1) by (auto dest: split_list)
  consider "y \<in> set us" | "y = x" | "y \<in> set zs"
    using assms(2) xs by auto
  then show thesis
  proof cases
    case 1
    then obtain a b where "us = a @ y # b"
      by (auto dest: split_list)
    then show thesis
      using that(3) [of a b zs] xs by simp
  next
    case 3
    then obtain a b where "zs = a @ y # b"
      by (auto dest: split_list)
    then show thesis
      using that(2) [of us a b] xs by simp
  qed (use that(1) in simp)
qed

lemma prefix_present:
  assumes "stateEntryAt s i = Some a" and "LastIncludedIndex (snapshot s) < j" and "j \<le> i"
  shows "stateEntryAt s j \<noteq> None"
proof -
  let ?b = "LastIncludedIndex (snapshot s)"
  have "?b < i" "unat (i - ?b - 1) < length (RaftData.log s)"
    using assms(1) by (auto simp: stateEntryAt_def entryFrom_def Let_def split: if_splits)
  moreover have "unat (x - ?b - 1) = unat x - unat ?b - 1" if "?b < x" for x
  proof -
    have "unat (x - ?b) = unat x - unat ?b"
      using that by (intro unat_sub) simp
    then show ?thesis
      using that by (subst unat_sub) (auto simp: word_le_nat_alt word_less_nat_alt)
  qed
  ultimately show ?thesis
    using assms(2,3) by (auto simp: stateEntryAt_def entryFrom_def Let_def word_le_nat_alt word_less_nat_alt)
qed

lemma observe_logs:
  assumes enc: "encodes h" and tr: "tracked c" and cl: "clean (fst (Observe h ob c))"
    and l: "l \<in> set (obNodes ob)" and r: "r \<in> set (obNodes ob)" and same: "sameTermAt l r i"
    and j: "max (LastIncludedIndex (snapOf l)) (LastIncludedIndex (snapOf r)) < j" "j \<le> i"
  shows "agreeAt l r j"
proof -
  let ?ns = "sort_key noID (obNodes ob)" and ?t = "obAt ob"
  define c1 where "c1 = fold (checkNode h ?t) ?ns c"
  have step: "fst (Observe h ob c) = fold (checkIfLeader h ?t) ?ns (checkLogs h ?t ?ns c1)"
    by (simp add: Observe_def Let_def c1_def)
  have o1: "okstep c c1"
    unfolding c1_def using enc by (intro okstep_fold okstep_node)
  have o2: "okstep (checkLogs h ?t ?ns c1) (fst (Observe h ob c))"
    unfolding step using enc by (intro okstep_fold okstep_leader)
  have t1: "tracked c1" by (rule okstepD(1) [OF o1 tr])
  have cl2: "clean (checkLogs h ?t ?ns c1)"
    by (rule okstepD(2) [OF o2 okstepD(1) [OF okstep_logs [OF enc] t1] cl])
  have ordered: "agreeAt x y j" if "?ns = xs @ x # ys @ y # zs" "sameTermAt x y i"
      "max (LastIncludedIndex (snapOf x)) (LastIncludedIndex (snapOf y)) < j" for x y xs ys zs
    using logs_pair [OF enc t1] pair_match [OF enc _ _ that(2,3) j(2)] cl2 unfolding that(1) by blast
  have "l \<in> set ?ns" "r \<in> set ?ns"
    using l r by simp_all
  then consider "l = r" | xs ys zs where "?ns = xs @ l # ys @ r # zs" | xs ys zs where "?ns = xs @ r # ys @ l # zs"
    by (rule two_members)
  then show ?thesis
  proof cases
    case 1
    then show ?thesis
      using same prefix_present j by (auto simp: agreeAt_def sameTermAt_def)
  next
    case 2
    then show ?thesis
      using ordered same j(1) by blast
  next
    case 3
    have "sameTermAt r l i"
      using same by (auto simp: sameTermAt_def)
    then have "agreeAt r l j"
      using ordered [OF 3] j(1) by (simp add: max.commute)
    then show ?thesis
      unfolding agreeAt_def by metis
  qed
qed

end
