(* ===== verification/CheckerSafety.thy ===== *)
theory CheckerSafety
  imports CheckerHistory
begin

text \<open>
  The properties of the checker: a history observed without a violation is safe, and a reported double vote
  whose first vote was for the voter itself does not pass the checker's own validation.
\<close>

section \<open>A concrete history\<close>

definition exHasher :: hasher where
  "exHasher = ((\<lambda>_. [110, 117, 108, 108]), (\<lambda>_. replicate 32 0))"

lemma encodes_exHasher: "encodes exHasher"
proof -
  have "jsonValid [110, 117, 108, 108]"
    by code_simp
  then show ?thesis
    by (simp add: encodes_def exHasher_def)
qed

definition exEntry :: Entry where
  "exEntry = \<lparr>eIndex = 1, eTerm = 1, eType = EntryNoop, eData = [], eMembership = zeroMembership\<rparr>"

definition exObserved :: "NodeID \<Rightarrow> NodeObservation" where
  "exObserved i = \<lparr>noID = i, noUp = False, noStatus = None,
     noDurable = \<lparr>hardState = \<lparr>CurrentTerm = 1, VotedFor = ''a'', CommitIndex = 1\<rparr>, snapshot = zeroSnapshot, log = [exEntry]\<rparr>,
     noAppliedIndex = 1, noApplied = [exEntry]\<rparr>"

definition exObservation :: Observation where
  "exObservation = \<lparr>obAt = 0, obNodes = [exObserved ''a'', exObserved ''b'']\<rparr>"

lemmas node_checks = checkNode_def checkDurableHistory_def checkTerm_def checkVote_def checkVolatile_def
  checkCommittedHistory_def checkCommitIndex_def checkAppliedHistory_def checkAppliedIndex_def checkSnapshotHistory_def
  checkMembershipHistory_def membershipsEqual_def lookupOr_def Let_def

definition exLedger :: "NodeID list \<Rightarrow> Checker" where
  "exLedger ns = (NewWithMembership [''a'', ''b''] zeroMembership)\<lparr>ckVotes := map (\<lambda>n. (n, [(1, ''a'')])) ns,
     ckDurableTerms := map (\<lambda>n. (n, 1)) ns, ckCommitIndexes := map (\<lambda>n. (n, 1)) ns, ckAppliedIndexes := map (\<lambda>n. (n, 1)) ns,
     ckCommitted := (if ns = [] then [] else [(1, \<lparr>ewNode = ''a'', ewEntry = exEntry, ewCommitTerm = 1\<rparr>)]),
     ckApplied := (if ns = [] then [] else [(1, \<lparr>ewNode = ''a'', ewEntry = exEntry, ewCommitTerm = 0\<rparr>)])\<rparr>"

lemma exNode_steps:
  "checkNode h 0 (exObserved ''a'') (exLedger []) = exLedger [''a'']"
  "checkNode h 0 (exObserved ''b'') (exLedger [''a'']) = exLedger [''a'', ''b'']"
  "checkNode h 0 (exObserved ''a'') (exLedger [''a'', ''b'']) = exLedger [''a'', ''b'']"
  "checkNode h 0 (exObserved ''b'') (exLedger [''a'', ''b'']) = exLedger [''a'', ''b'']"
  by (simp_all add: node_checks exObserved_def exLedger_def exEntry_def NewWithMembership_def zeroSnapshot_def
      zeroMembership_def entriesEqual_def const_defs)

lemma exPair_step: "checkPair h 0 (exObserved ''a'') (exObserved ''b'') c = c"
proof -
  have "stateLastIndex (noDurable (exObserved i)) = 1" "LastIncludedIndex (snapOf (exObserved i)) = 0"
      "stateEntryAt (noDurable (exObserved i)) 1 = Some exEntry" for i
    by (simp_all add: stateLastIndex_def exObserved_def zeroSnapshot_def Let_def MaxUint64_def stateEntryAt_def entryFrom_def)
  then show ?thesis
    by (simp add: checkPair_def Let_def MaxUint64_def indexRange_def entriesEqual_eq)
qed

lemma exObserve_steps:
  "fst (Observe h exObservation (exLedger [])) = exLedger [''a'', ''b'']"
  "fst (Observe h exObservation (exLedger [''a'', ''b''])) = exLedger [''a'', ''b'']"
proof -
  have "sort_key noID (obNodes exObservation) = [exObserved ''a'', exObserved ''b'']"
    by (simp add: exObservation_def exObserved_def less_eq_list_code)
  moreover have "obAt exObservation = 0" "leaderStatus (exObserved i) = None" for i
    by (simp_all add: exObservation_def exObserved_def leaderStatus_def)
  ultimately show "fst (Observe h exObservation (exLedger [])) = exLedger [''a'', ''b'']"
      "fst (Observe h exObservation (exLedger [''a'', ''b''])) = exLedger [''a'', ''b'']"
    by (simp_all add: Observe_def Let_def exNode_steps exPair_step checkIfLeader_def)
qed

lemma exHistory_clean:
  "ckViolations (runChecker exHasher [exObservation, exObservation] (NewWithMembership [''a'', ''b''] zeroMembership)) = []"
proof -
  have "NewWithMembership [''a'', ''b''] zeroMembership = exLedger []"
    by (simp add: exLedger_def NewWithMembership_def)
  then show ?thesis
    by (simp add: runChecker_def exObserve_steps) (simp add: exLedger_def NewWithMembership_def)
qed

lemma witnessed_unique:
  assumes "witnessed al e" and "witnessed al e'" and "eIndex e = eIndex e'"
  shows "e = e'"
proof -
  obtain w w' where "map_of al (eIndex e) = Some w" "ewEntry w = e" "map_of al (eIndex e') = Some w'" "ewEntry w' = e'"
    using assms(1,2) unfolding witnessed_def by blast
  then show ?thesis
    using assms(3) by (metis option.inject)
qed

lemma snapshots_agree:
  assumes "snapshotRecorded c s" and "snapshotRecorded c s'" and "LastIncludedIndex s = LastIncludedIndex s'"
    and "LastIncludedIndex s \<noteq> 0"
  shows "sameSnapshot s s'"
proof -
  obtain w w' where w: "map_of (ckSnapshots c) (LastIncludedIndex s) = Some w" "sameSnapshot (swSnapshot w) s"
      "map_of (ckSnapshots c) (LastIncludedIndex s') = Some w'" "sameSnapshot (swSnapshot w') s'"
    using assms unfolding snapshotRecorded_def by metis
  then have "w = w'"
    using assms(3) by (metis option.inject)
  then show ?thesis
    using w(2,4) by (simp add: sameSnapshot_def membershipsEqual_def)
qed

text \<open>
  C24. No missed conflicts: if the checker reports nothing over a whole history of observations, then in that
  history no two nodes were observed as leaders of one term, no node persisted two votes in one term, and the
  committed entries, the applied entries and the snapshots observed at one index, on whatever nodes and at
  whatever times, agree.
\<close>

theorem clean_history_safe:
  assumes "encodes h" and "ckViolations (runChecker h obs (NewWithMembership ms im)) = []"
    and "ob \<in> set obs" and "n \<in> set (obNodes ob)" and "ob' \<in> set obs" and "n' \<in> set (obNodes ob')"
  shows "(\<forall>st st'. leaderStatus n = Some st \<longrightarrow> leaderStatus n' = Some st' \<longrightarrow> stTerm st = stTerm st' \<longrightarrow> noID n = noID n')
    \<and> (noID n = noID n' \<longrightarrow> CurrentTerm (hardOf n) = CurrentTerm (hardOf n') \<longrightarrow> VotedFor (hardOf n) \<noteq> [] \<longrightarrow>
        VotedFor (hardOf n') \<noteq> [] \<longrightarrow> VotedFor (hardOf n) = VotedFor (hardOf n'))
    \<and> (\<forall>e\<in>set (committedPrefix n). \<forall>e'\<in>set (committedPrefix n'). eIndex e = eIndex e' \<longrightarrow> e = e')
    \<and> (\<forall>e\<in>set (noApplied n). \<forall>e'\<in>set (noApplied n'). eIndex e = eIndex e' \<longrightarrow> e = e')
    \<and> (LastIncludedIndex (snapOf n) = LastIncludedIndex (snapOf n') \<longrightarrow> LastIncludedIndex (snapOf n) \<noteq> 0 \<longrightarrow>
        sameSnapshot (snapOf n) (snapOf n'))"
proof -
  let ?c = "runChecker h obs (NewWithMembership ms im)"
  have r: "recorded n ?c" "recorded n' ?c" and l: "leaderRecorded n ?c" "leaderRecorded n' ?c"
    using history_recorded [OF assms(1-4)] history_recorded [OF assms(1,2,5,6)] by blast+
  have "noID n = noID n'" if "leaderStatus n = Some st" "leaderStatus n' = Some st'" "stTerm st = stTerm st'" for st st'
    using l that by (simp add: leaderRecorded_def)
  moreover have "VotedFor (hardOf n) = VotedFor (hardOf n')"
    if "noID n = noID n'" "CurrentTerm (hardOf n) = CurrentTerm (hardOf n')" "VotedFor (hardOf n) \<noteq> []" "VotedFor (hardOf n') \<noteq> []"
    using r that by (simp add: recorded_def)
  moreover have "e = e'" if "e \<in> set (committedPrefix n)" "e' \<in> set (committedPrefix n')" "eIndex e = eIndex e'" for e e'
    using r that witnessed_unique unfolding recorded_def by metis
  moreover have "e = e'" if "e \<in> set (noApplied n)" "e' \<in> set (noApplied n')" "eIndex e = eIndex e'" for e e'
    using r that witnessed_unique unfolding recorded_def by metis
  moreover have "sameSnapshot (snapOf n) (snapOf n')"
    if "LastIncludedIndex (snapOf n) = LastIncludedIndex (snapOf n')" "LastIncludedIndex (snapOf n) \<noteq> 0"
    using r snapshots_agree [OF _ _ that] unfolding recorded_def by blast
  ultimately show ?thesis by blast
qed

theorem clean_history_safe_witness:
  "encodes exHasher \<and> committedPrefix (exObserved ''a'') \<noteq> [] \<and>
   hd (committedPrefix (exObserved ''a'')) = hd (committedPrefix (exObserved ''b''))"
proof -
  have p: "committedPrefix (exObserved i) = [exEntry]" for i
    by (simp add: committedPrefix_def exObserved_def exEntry_def)
  show ?thesis
    using clean_history_safe [OF encodes_exHasher exHistory_clean, of exObservation "exObserved ''a''" exObservation "exObserved ''b''"]
      encodes_exHasher by (simp add: exObservation_def p)
qed

text \<open>
  Counters only grow: if the checker reports nothing, then for a node observed twice the later observation
  has a durable term, a commit index and an applied index at least as large as the earlier one.
\<close>

theorem clean_history_monotonic:
  assumes "encodes h" and "ckViolations (runChecker h (xs @ ob # ys @ ob' # zs) (NewWithMembership ms im)) = []"
    and "n \<in> set (obNodes ob)" and "n' \<in> set (obNodes ob')" and "noID n = noID n'"
  shows "CurrentTerm (hardOf n) \<le> CurrentTerm (hardOf n') \<and> CommitIndex (hardOf n) \<le> CommitIndex (hardOf n')
    \<and> noAppliedIndex n \<le> noAppliedIndex n'"
proof -
  obtain c where "recorded n c" "below c n'"
    using history_monotonic [OF assms(1-4)] by blast
  then have "CurrentTerm (hardOf n) \<le> lookupOr 0 (ckDurableTerms c) (noID n')"
      "CommitIndex (hardOf n) \<le> lookupOr 0 (ckCommitIndexes c) (noID n')"
      "noAppliedIndex n \<le> lookupOr 0 (ckAppliedIndexes c) (noID n')"
      "lookupOr 0 (ckDurableTerms c) (noID n') \<le> CurrentTerm (hardOf n')"
      "lookupOr 0 (ckCommitIndexes c) (noID n') \<le> CommitIndex (hardOf n')"
      "lookupOr 0 (ckAppliedIndexes c) (noID n') \<le> noAppliedIndex n'"
    using assms(5) by (simp_all add: recorded_def below_def)
  then show ?thesis
    using order_trans by blast
qed

theorem clean_history_monotonic_witness:
  "ckViolations (runChecker exHasher ([] @ exObservation # [] @ exObservation # []) (NewWithMembership [''a'', ''b''] zeroMembership)) = [] \<and>
   noAppliedIndex (exObserved ''a'') \<le> noAppliedIndex (exObserved ''a'')"
  using clean_history_monotonic [of exHasher "[]" exObservation "[]" exObservation "[]" "[''a'', ''b'']" zeroMembership
      "exObserved ''a''" "exObserved ''a''"] encodes_exHasher exHistory_clean
  by (simp add: exObservation_def)

text \<open>
  Log matching: if the checker reports nothing, then in every observation two logs that hold entries of
  the same term at one index hold the same entries at every index from there down to the later of the two
  snapshots.
\<close>

theorem clean_logs_match:
  assumes "encodes h" and "ckViolations (runChecker h obs (NewWithMembership ms im)) = []"
    and "ob \<in> set obs" and "l \<in> set (obNodes ob)" and "r \<in> set (obNodes ob)"
    and "stateEntryAt (noDurable l) i = Some a" and "stateEntryAt (noDurable r) i = Some b" and "eTerm a = eTerm b"
    and "LastIncludedIndex (snapOf l) < j" and "LastIncludedIndex (snapOf r) < j" and "j \<le> i"
  shows "\<exists>e. stateEntryAt (noDurable l) j = Some e \<and> stateEntryAt (noDurable r) j = Some e"
proof -
  let ?g = "\<lambda>ob c. fst (Observe h ob c)"
  have "clean (fold ?g obs (NewWithMembership ms im))"
    using assms(2) by (simp add: clean_def runChecker_def)
  then obtain c0 where c0: "tracked c0" "clean (fst (Observe h ob c0))"
    using fold_split [of ?g, OF okstep_observe [OF assms(1)] assms(3) tracked_new] by blast
  have "sameTermAt l r i"
    using assms(6-8) by (auto simp: sameTermAt_def)
  then have "agreeAt l r j"
    using observe_logs [OF assms(1) c0 assms(4,5)] assms(9-11) by simp
  then show ?thesis
    unfolding agreeAt_def by (metis not_None_eq)
qed

theorem clean_logs_match_witness:
  "\<exists>e. stateEntryAt (noDurable (exObserved ''a'')) 1 = Some e \<and> stateEntryAt (noDurable (exObserved ''b'')) 1 = Some e"
  by (rule clean_logs_match [OF encodes_exHasher exHistory_clean, of exObservation "exObserved ''a''" "exObserved ''b''" 1 exEntry exEntry])
    (simp_all add: exObservation_def exObserved_def stateEntryAt_def entryFrom_def zeroSnapshot_def)

text \<open>
  A double vote that started with a vote for the node itself is reported with that node listed twice, and
  \<open>ValidateViolation\<close> refuses every such report: an artifact that carries the genuine violation is invalid.
\<close>

theorem self_double_vote_rejected:
  assumes "encodes h" and "noID n = a" and "noID n' = a" and "a \<noteq> []" and "b \<noteq> []" and "a \<noteq> b"
    and "CurrentTerm (hardOf n) = CurrentTerm (hardOf n')" and "VotedFor (hardOf n) = a" and "VotedFor (hardOf n') = b"
  shows "\<exists>v. ckViolations (checkVote h t' n' (checkVote h t n (NewWithMembership ms im))) = [v] \<and>
    vID v = DurableDoubleVote \<and> vNodes v = sort [a, a, b] \<and> ValidateViolation sha v = Some ErrNodes"
proof -
  define c where "c = checkVote h t n (NewWithMembership ms im)"
  define c1 where "c1 = c\<lparr>ckVotes := AList.update a [(CurrentTerm (hardOf n'), a)] (ckVotes c)\<rparr>"
  let ?ev = "EvDoubleVote (CurrentTerm (hardOf n')) a b"
  have c: "lookupOr [] (ckVotes c) a = [(CurrentTerm (hardOf n'), a)]" "ckViolations c1 = []" "ckSeen c1 = []"
    using assms by (simp_all add: c_def c1_def checkVote_def NewWithMembership_def Let_def lookupOr_def)
  then have step: "checkVote h t' n' c = addViolation h t' DurableDoubleVote [a, a, b] ?ev c1"
    using assms by (simp add: checkVote_def c1_def Let_def)
  obtain f where "Fingerprint (snd h) DurableDoubleVote (sort [a, a, b]) (fst h ?ev) = Inr f"
    using assms(1) by (simp add: encodes_def Fingerprint_def jsonCompact_def)
  then have v: "ckViolations (checkVote h t' n' c) =
      [\<lparr>vID = DurableDoubleVote, vAtNS = t', vNodes = sort [a, a, b], vEvidence = fst h ?ev, vFingerprint = f\<rparr>]"
    using c unfolding step by (simp add: addViolation_def Let_def del: sort_key_simps)
  have "\<not> nodesProper None (sort [a, a, b])"
    using assms by (cases "a \<le> b") auto
  then have "ValidateViolation sha \<lparr>vID = DurableDoubleVote, vAtNS = t', vNodes = sort [a, a, b], vEvidence = fst h ?ev, vFingerprint = f\<rparr>
      = Some ErrNodes"
    by (simp add: ValidateViolation_def del: sort_key_simps)
  then show ?thesis
    using v by (simp add: c_def del: sort_key_simps)
qed

theorem self_double_vote_rejected_witness:
  "\<exists>v. ckViolations (checkVote exHasher 5 ((exObserved ''a'')\<lparr>noDurable := zeroState\<lparr>hardState := \<lparr>CurrentTerm = 1, VotedFor = ''b'', CommitIndex = 0\<rparr>\<rparr>\<rparr>)
      (checkVote exHasher 3 (exObserved ''a'') (NewWithMembership [''a'', ''b''] zeroMembership))) = [v] \<and>
    vID v = DurableDoubleVote \<and> vNodes v = sort [''a'', ''a'', ''b''] \<and> ValidateViolation (snd exHasher) v = Some ErrNodes"
  by (rule self_double_vote_rejected [OF encodes_exHasher]) (simp_all add: exObserved_def)

end
