(* ===== verification/Network.thy ===== *)
theory Network
  imports SimProps Decision
begin

text \<open>
  The simulated network of \<open>src/network.go\<close>: link configurations, partition matrices and the router that
  sends packets through the simulator's event queue. The router record holds the simulator and the random
  stream that the Go router points to. Handlers are values of a type \<open>'h\<close> that an argument \<open>run\<close> calls; a
  decision source is a state of type \<open>'s\<close> with the two functions of \<open>NetworkDecisionSource\<close>, passed as
  \<open>src\<close>. The trace sink and the observer collect what they are given; \<open>None\<close> is Go's \<open>nil\<close>. The outer
  \<open>None\<close> of \<open>Send\<close> is a panic of the random stream.
\<close>

section \<open>Links and partitions\<close>

datatype net_error =
    ErrNilSimulator | ErrNilRand | ErrEmptyNode | ErrNilHandler | ErrDuplicateNode | ErrUnknownSource
  | ErrUnknownTarget | ErrInvalidLink | ErrInvalidMatrix | ErrPacketExhausted | ErrInvalidNetworkDecision
  | ErrUncacheableRouter | ErrSim sim_error | ErrForeign string | ErrDecider dec_error

type_synonym route = "NodeID \<times> NodeID"

record LinkConfig =
  MinLatency :: int
  MaxLatency :: int
  LossProbability :: gofloat

definition validateLink :: "LinkConfig \<Rightarrow> net_error option" where
  "validateLink c =
     (if MinLatency c < 0 \<or> MaxLatency c < MinLatency c then Some ErrInvalidLink
      else case LossProbability c of
        NaN \<Rightarrow> Some ErrInvalidLink
      | Infinite _ \<Rightarrow> Some ErrInvalidLink
      | Finite q \<Rightarrow> if q < 0 \<or> q > 1 then Some ErrInvalidLink else None)"

record PartitionMatrix =
  pmNodes :: "NodeID list"
  pmAllowed :: "route list"

text \<open>The \<open>seen\<close> loop of both constructors: it collects the nodes in order and stops at an empty or repeated one.\<close>

fun admitNodes :: "NodeID list \<Rightarrow> NodeID list \<Rightarrow> net_error + NodeID list" where
  "admitNodes seen [] = Inr seen"
| "admitNodes seen (n # ns) =
     (if n = [] then Inl ErrInvalidMatrix
      else if n \<in> set seen then Inl ErrInvalidMatrix
      else admitNodes (seen @ [n]) ns)"

definition allowRoute :: "route \<Rightarrow> PartitionMatrix \<Rightarrow> PartitionMatrix" where
  "allowRoute rt m = m\<lparr>pmAllowed := List.insert rt (pmAllowed m)\<rparr>"

fun fillRows :: "NodeID list \<Rightarrow> (NodeID \<times> bool list) list \<Rightarrow> PartitionMatrix \<Rightarrow> net_error + PartitionMatrix" where
  "fillRows nodes [] m = Inr m"
| "fillRows nodes ((from, permits) # rows) m =
     (if length permits \<noteq> length nodes then Inl ErrInvalidMatrix
      else fillRows nodes rows
        (fold (\<lambda>(to, permit) m. if permit then allowRoute (from, to) m else m) (zip nodes permits) m))"

definition NewPartitionMatrix :: "NodeID list \<Rightarrow> bool list list \<Rightarrow> net_error + PartitionMatrix" where
  "NewPartitionMatrix nodes allowed =
     (if length nodes = 0 \<or> length allowed \<noteq> length nodes then Inl ErrInvalidMatrix
      else case admitNodes [] nodes of
        Inl err \<Rightarrow> Inl err
      | Inr _ \<Rightarrow> fillRows nodes (zip nodes allowed) \<lparr>pmNodes = nodes, pmAllowed = []\<rparr>)"

fun joinGroups :: "NodeID list list \<Rightarrow> PartitionMatrix \<Rightarrow> net_error + PartitionMatrix" where
  "joinGroups [] m = Inr m"
| "joinGroups (g # gs) m =
     (if length g = 0 then Inl ErrInvalidMatrix
      else case admitNodes (pmNodes m) g of
        Inl err \<Rightarrow> Inl err
      | Inr seen \<Rightarrow> joinGroups gs (fold allowRoute (List.product g g) (m\<lparr>pmNodes := seen\<rparr>)))"

definition NewPartitions :: "NodeID list list \<Rightarrow> net_error + PartitionMatrix" where
  "NewPartitions groups =
     (if length groups = 0 then Inl ErrInvalidMatrix else joinGroups groups \<lparr>pmNodes = [], pmAllowed = []\<rparr>)"

definition Allows :: "PartitionMatrix option \<Rightarrow> NodeID \<Rightarrow> NodeID \<Rightarrow> bool" where
  "Allows m source target = (case m of None \<Rightarrow> True | Some m \<Rightarrow> (source, target) \<in> set (pmAllowed m))"

definition matrixNodes :: "PartitionMatrix option \<Rightarrow> NodeID list" where
  "matrixNodes m = (case m of None \<Rightarrow> [] | Some m \<Rightarrow> pmNodes m)"

section \<open>Packets and events\<close>

record 'm Packet =
  pkID :: u64
  pkFrom :: NodeID
  pkTo :: NodeID
  pkMessage :: 'm
  pkSentAt :: int

datatype NetworkEventKind = PacketScheduled | PacketDelivered | PacketDropped

datatype DropReason = NotDropped | DropLoss | DropPartition | DropTargetUnavailable

record 'm NetworkEvent =
  neKind :: NetworkEventKind
  nePacket :: "'m Packet"
  neAt :: int
  neDeliveryAt :: int
  neReason :: DropReason
  neWasInFlight :: bool

record SendResult =
  srPacketID :: u64
  srScheduled :: bool
  srDeliveryAt :: int
  srDropReason :: DropReason

definition traceDropReason :: "DropReason \<Rightarrow> string" where
  "traceDropReason reason =
     (case reason of DropLoss \<Rightarrow> ''loss'' | DropPartition \<Rightarrow> ''partition''
      | DropTargetUnavailable \<Rightarrow> ''target_unavailable'' | NotDropped \<Rightarrow> [])"

text \<open>The trace events of the router; the last field of a packet event is the optional delivery time.\<close>

datatype 'm net_trace =
    TraceNodeRegistered int NodeID
  | TraceNodeUnregistered int NodeID
  | TraceLinkSet int NodeID NodeID LinkConfig
  | TraceLinkReset int NodeID NodeID
  | TracePartitionChanged int bool "NodeID list" "route list"
  | TracePacketScheduled int u64 NodeID NodeID 'm "int option"
  | TracePacketDelivered int u64 NodeID NodeID 'm "int option"
  | TracePacketDropped int u64 NodeID NodeID 'm string "int option"

text \<open>What the simulator calls: the delivery closure of \<open>Send\<close>, or a callback of another component.\<close>

datatype ('m, 'o) action = Deliver "'m Packet" int | Foreign 'o

record ('m, 'o, 'h, 's) Router =
  rtSim :: "('m, 'o) action Simulator"
  rtRng :: Rand
  rtDefaultLink :: LinkConfig
  rtLinks :: "(route \<times> LinkConfig) list"
  rtHandlers :: "(NodeID \<times> 'h) list"
  rtPartition :: "PartitionMatrix option"
  rtClone :: "('m \<Rightarrow> 'm) option"
  rtObserver :: "'m NetworkEvent list option"
  rtNextPacket :: u64
  rtExhausted :: bool
  rtTrace :: "'m net_trace list option"
  rtDecisions :: "'s option"
  rtTagger :: "('m Packet \<Rightarrow> net_error + EventTag) option"

text \<open>\<open>NetworkDecisionSource\<close>: \<open>Drop\<close> and \<open>Latency\<close>, each returning the source's next state.\<close>

type_synonym ('s, 'm) decisionSource =
  "('s \<Rightarrow> 'm Packet \<Rightarrow> LinkConfig \<Rightarrow> 's \<times> (net_error + bool)) \<times>
   ('s \<Rightarrow> 'm Packet \<Rightarrow> LinkConfig \<Rightarrow> 's \<times> (net_error + int))"

definition NewRouter ::
    "('m, 'o) action Simulator option \<Rightarrow> Rand option \<Rightarrow> LinkConfig \<Rightarrow> ('m \<Rightarrow> 'm) option \<Rightarrow>
     net_error + ('m, 'o, 'h, 's) Router" where
  "NewRouter simulator random link clone =
     (case simulator of None \<Rightarrow> Inl ErrNilSimulator
      | Some s \<Rightarrow> (case random of None \<Rightarrow> Inl ErrNilRand
         | Some rng \<Rightarrow> (case validateLink link of Some err \<Rightarrow> Inl err
            | None \<Rightarrow> Inr \<lparr>rtSim = s, rtRng = rng, rtDefaultLink = link, rtLinks = [], rtHandlers = [],
                rtPartition = None, rtClone = clone, rtObserver = None, rtNextPacket = 1, rtExhausted = False,
                rtTrace = None, rtDecisions = None, rtTagger = None\<rparr>)))"

abbreviation simNow :: "('m, 'o, 'h, 's) Router \<Rightarrow> int" where
  "simNow r \<equiv> now (rtSim r)"

definition routerTrace :: "'m net_trace \<Rightarrow> ('m, 'o, 'h, 's) Router \<Rightarrow> ('m, 'o, 'h, 's) Router" where
  "routerTrace ev r = r\<lparr>rtTrace := map_option (\<lambda>es. es @ [ev]) (rtTrace r)\<rparr>"

section \<open>Configuration\<close>

definition Register :: "NodeID \<Rightarrow> 'h option \<Rightarrow> ('m, 'o, 'h, 's) Router \<Rightarrow> ('m, 'o, 'h, 's) Router \<times> net_error option" where
  "Register node handler r =
     (if node = [] then (r, Some ErrEmptyNode)
      else case handler of
        None \<Rightarrow> (r, Some ErrNilHandler)
      | Some f \<Rightarrow>
          if map_of (rtHandlers r) node \<noteq> None then (r, Some ErrDuplicateNode)
          else (routerTrace (TraceNodeRegistered (simNow r) node)
                  (r\<lparr>rtHandlers := AList.update node f (rtHandlers r)\<rparr>), None))"

definition Unregister :: "NodeID \<Rightarrow> ('m, 'o, 'h, 's) Router \<Rightarrow> ('m, 'o, 'h, 's) Router \<times> bool" where
  "Unregister node r =
     (if map_of (rtHandlers r) node = None then (r, False)
      else (routerTrace (TraceNodeUnregistered (simNow r) node)
              (r\<lparr>rtHandlers := AList.delete node (rtHandlers r)\<rparr>), True))"

definition routerSetTraceSink :: "'m net_trace list option \<Rightarrow> ('m, 'o, 'h, 's) Router \<Rightarrow> ('m, 'o, 'h, 's) Router" where
  "routerSetTraceSink sink r = r\<lparr>rtTrace := sink\<rparr>"

definition SetDecisionSource :: "'s option \<Rightarrow> ('m, 'o, 'h, 's) Router \<Rightarrow> ('m, 'o, 'h, 's) Router" where
  "SetDecisionSource source r = r\<lparr>rtDecisions := source\<rparr>"

definition SetPacketEventTagger ::
    "('m Packet \<Rightarrow> net_error + EventTag) option \<Rightarrow> ('m, 'o, 'h, 's) Router \<Rightarrow> ('m, 'o, 'h, 's) Router" where
  "SetPacketEventTagger tagger r = r\<lparr>rtTagger := tagger\<rparr>"

definition SetObserver :: "'m NetworkEvent list option \<Rightarrow> ('m, 'o, 'h, 's) Router \<Rightarrow> ('m, 'o, 'h, 's) Router" where
  "SetObserver observer r = r\<lparr>rtObserver := observer\<rparr>"

definition SetLink ::
    "NodeID \<Rightarrow> NodeID \<Rightarrow> LinkConfig \<Rightarrow> ('m, 'o, 'h, 's) Router \<Rightarrow> ('m, 'o, 'h, 's) Router \<times> net_error option" where
  "SetLink from to config r =
     (if from = [] \<or> to = [] then (r, Some ErrEmptyNode)
      else case validateLink config of
        Some err \<Rightarrow> (r, Some err)
      | None \<Rightarrow> (routerTrace (TraceLinkSet (simNow r) from to config)
                  (r\<lparr>rtLinks := AList.update (from, to) config (rtLinks r)\<rparr>), None))"

definition ResetLink :: "NodeID \<Rightarrow> NodeID \<Rightarrow> ('m, 'o, 'h, 's) Router \<Rightarrow> ('m, 'o, 'h, 's) Router" where
  "ResetLink from to r =
     routerTrace (TraceLinkReset (simNow r) from to) (r\<lparr>rtLinks := AList.delete (from, to) (rtLinks r)\<rparr>)"

definition SetPartition :: "PartitionMatrix option \<Rightarrow> ('m, 'o, 'h, 's) Router \<Rightarrow> ('m, 'o, 'h, 's) Router" where
  "SetPartition matrix r =
     (let r1 = r\<lparr>rtPartition := matrix\<rparr> in
      routerTrace (TracePartitionChanged (simNow r1) (matrix \<noteq> None) (matrixNodes matrix)
        (filter (\<lambda>(f, t). Allows matrix f t) (List.product (matrixNodes matrix) (matrixNodes matrix)))) r1)"

section \<open>The canonical state\<close>

text \<open>A link's loss probability stands for its \<open>float64\<close> bits.\<close>

record CanonicalLinkState =
  clFrom :: NodeID
  clTo :: NodeID
  clMinLatencyNS :: int
  clMaxLatencyNS :: int
  clLossProbability :: gofloat

record RouterState =
  rsSchema :: string
  rsDefaultLink :: CanonicalLinkState
  rsLinks :: "CanonicalLinkState list"
  rsEndpoints :: "NodeID list"
  rsPartitionActive :: bool
  rsPartitionNodes :: "NodeID list"
  rsAllowed :: "route list"
  rsNextPacket :: u64
  rsExhausted :: bool
  rsRandom :: RandState

definition canonicalLink :: "NodeID \<Rightarrow> NodeID \<Rightarrow> LinkConfig \<Rightarrow> CanonicalLinkState" where
  "canonicalLink from to link =
     \<lparr>clFrom = from, clTo = to, clMinLatencyNS = MinLatency link, clMaxLatencyNS = MaxLatency link,
      clLossProbability = LossProbability link\<rparr>"

definition routerCanonicalState :: "('m, 'o, 'h, 's) Router \<Rightarrow> net_error + RouterState" where
  "routerCanonicalState r =
     (if rtTrace r \<noteq> None \<or> rtObserver r \<noteq> None \<or> rtTagger r = None then Inl ErrUncacheableRouter
      else Inr
        \<lparr>rsSchema = ''d-raft.router-state/v1'',
         rsDefaultLink = canonicalLink [] [] (rtDefaultLink r),
         rsLinks = sort_key (\<lambda>l. (clFrom l, clTo l)) (map (\<lambda>((f, t), l). canonicalLink f t l) (rtLinks r)),
         rsEndpoints = sort (map fst (rtHandlers r)),
         rsPartitionActive = (rtPartition r \<noteq> None),
         rsPartitionNodes = matrixNodes (rtPartition r),
         rsAllowed = (case rtPartition r of None \<Rightarrow> [] | Some m \<Rightarrow> sort (pmAllowed m)),
         rsNextPacket = rtNextPacket r, rsExhausted = rtExhausted r, rsRandom = RandStateOf (Some (rtRng r))\<rparr>)"

section \<open>Sending and delivering\<close>

definition observedTrace :: "'m NetworkEvent \<Rightarrow> 'm net_trace" where
  "observedTrace ev =
     (let p = nePacket ev in
      case neKind ev of
        PacketScheduled \<Rightarrow> TracePacketScheduled (neAt ev) (pkID p) (pkFrom p) (pkTo p) (pkMessage p) (Some (neDeliveryAt ev))
      | PacketDelivered \<Rightarrow> TracePacketDelivered (neAt ev) (pkID p) (pkFrom p) (pkTo p) (pkMessage p) (Some (neDeliveryAt ev))
      | PacketDropped \<Rightarrow> TracePacketDropped (neAt ev) (pkID p) (pkFrom p) (pkTo p) (pkMessage p)
          (traceDropReason (neReason ev)) (if neWasInFlight ev then Some (neDeliveryAt ev) else None))"

definition observeEvent :: "'m NetworkEvent \<Rightarrow> ('m, 'o, 'h, 's) Router \<Rightarrow> ('m, 'o, 'h, 's) Router" where
  "observeEvent ev r =
     (let r1 = routerTrace (observedTrace ev) r
      in r1\<lparr>rtObserver := map_option (\<lambda>es. es @ [ev]) (rtObserver r1)\<rparr>)"

definition dropPacket ::
    "'m Packet \<Rightarrow> DropReason \<Rightarrow> int \<Rightarrow> bool \<Rightarrow> ('m, 'o, 'h, 's) Router \<Rightarrow> ('m, 'o, 'h, 's) Router \<times> SendResult" where
  "dropPacket p reason deliveryAt wasInFlight r =
     (observeEvent \<lparr>neKind = PacketDropped, nePacket = p, neAt = simNow r, neDeliveryAt = deliveryAt,
        neReason = reason, neWasInFlight = wasInFlight\<rparr> r,
      \<lparr>srPacketID = pkID p, srScheduled = False, srDeliveryAt = 0, srDropReason = reason\<rparr>)"

text \<open>The loss and latency choices of \<open>Send\<close>: by the decision source when there is one, by the stream otherwise.\<close>

definition decideLoss ::
    "('s, 'm) decisionSource \<Rightarrow> 'm Packet \<Rightarrow> LinkConfig \<Rightarrow> ('m, 'o, 'h, 's) Router
       \<Rightarrow> (('m, 'o, 'h, 's) Router \<times> (net_error + bool)) option" where
  "decideLoss src p link r =
     (case rtDecisions r of
        Some d \<Rightarrow>
          (case fst src d p link of
             (d1, Inl err) \<Rightarrow> Some (r\<lparr>rtDecisions := Some d1\<rparr>, Inl err)
           | (d1, Inr dropped) \<Rightarrow>
               Some (r\<lparr>rtDecisions := Some d1\<rparr>,
                 if dropped \<and> LossProbability link = Finite 0 \<or> \<not> dropped \<and> LossProbability link = Finite 1
                 then Inl ErrInvalidNetworkDecision else Inr dropped))
      | None \<Rightarrow> map_option (\<lambda>(rng, dropped). (r\<lparr>rtRng := rng\<rparr>, Inr dropped)) (Chance (LossProbability link) (rtRng r)))"

definition decideLatency ::
    "('s, 'm) decisionSource \<Rightarrow> 'm Packet \<Rightarrow> LinkConfig \<Rightarrow> ('m, 'o, 'h, 's) Router
       \<Rightarrow> (('m, 'o, 'h, 's) Router \<times> (net_error + int)) option" where
  "decideLatency src p link r =
     (case rtDecisions r of
        Some d \<Rightarrow>
          (case snd src d p link of
             (d1, Inl err) \<Rightarrow> Some (r\<lparr>rtDecisions := Some d1\<rparr>, Inl err)
           | (d1, Inr latency) \<Rightarrow>
               Some (r\<lparr>rtDecisions := Some d1\<rparr>,
                 if latency < MinLatency link \<or> latency > MaxLatency link
                 then Inl ErrInvalidNetworkDecision else Inr latency))
      | None \<Rightarrow> map_option (\<lambda>(rng, latency). (r\<lparr>rtRng := rng\<rparr>, Inr latency))
                 (Duration (MinLatency link) (MaxLatency link) (rtRng r)))"

definition scheduleDelivery ::
    "'m Packet \<Rightarrow> int \<Rightarrow> ('m, 'o, 'h, 's) Router \<Rightarrow> ('m, 'o, 'h, 's) Router \<times> (net_error + SendResult)" where
  "scheduleDelivery p latency r =
     (let deliveryAt = simNow r + latency;
          act = Some (Deliver p deliveryAt);
          (s1, res) = (case rtTagger r of
              None \<Rightarrow> map_prod id (map_sum ErrSim id) (Schedule latency act (rtSim r))
            | Some tagger \<Rightarrow>
                (case tagger p of
                   Inl err \<Rightarrow> (rtSim r, Inl err)
                 | Inr tag \<Rightarrow> map_prod id (map_sum ErrSim id) (ScheduleTagged latency tag act (rtSim r))));
          r1 = r\<lparr>rtSim := s1\<rparr>
      in case res of
           Inl err \<Rightarrow> (r1, Inl err)
         | Inr _ \<Rightarrow>
             (observeEvent \<lparr>neKind = PacketScheduled, nePacket = p, neAt = simNow r1, neDeliveryAt = deliveryAt,
                neReason = NotDropped, neWasInFlight = False\<rparr> r1,
              Inr \<lparr>srPacketID = pkID p, srScheduled = True, srDeliveryAt = deliveryAt, srDropReason = NotDropped\<rparr>))"

definition linkFor :: "NodeID \<Rightarrow> NodeID \<Rightarrow> ('m, 'o, 'h, 's) Router \<Rightarrow> LinkConfig" where
  "linkFor from to r = (case map_of (rtLinks r) (from, to) of Some link \<Rightarrow> link | None \<Rightarrow> rtDefaultLink r)"

text \<open>The identifier of the next packet is taken before anything else; the last one exhausts the space.\<close>

definition takeID :: "('m, 'o, 'h, 's) Router \<Rightarrow> ('m, 'o, 'h, 's) Router" where
  "takeID r = (if rtNextPacket r = MaxUint64 then r\<lparr>rtExhausted := True\<rparr> else r\<lparr>rtNextPacket := rtNextPacket r + 1\<rparr>)"

definition packetFor :: "NodeID \<Rightarrow> NodeID \<Rightarrow> 'm \<Rightarrow> ('m, 'o, 'h, 's) Router \<Rightarrow> 'm Packet" where
  "packetFor from to message r =
     \<lparr>pkID = rtNextPacket r, pkFrom = from, pkTo = to,
      pkMessage = (case rtClone r of None \<Rightarrow> message | Some clone \<Rightarrow> clone message), pkSentAt = simNow r\<rparr>"

definition Send ::
    "('s, 'm) decisionSource \<Rightarrow> NodeID \<Rightarrow> NodeID \<Rightarrow> 'm \<Rightarrow> ('m, 'o, 'h, 's) Router
       \<Rightarrow> (('m, 'o, 'h, 's) Router \<times> (net_error + SendResult)) option" where
  "Send src from to message r =
     (if map_of (rtHandlers r) from = None then Some (r, Inl ErrUnknownSource)
      else if map_of (rtHandlers r) to = None then Some (r, Inl ErrUnknownTarget)
      else if rtExhausted r then Some (r, Inl ErrPacketExhausted)
      else
        let r1 = takeID r; p = packetFor from to message r
        in
          if \<not> Allows (rtPartition r1) from to then Some (map_prod id Inr (dropPacket p DropPartition 0 False r1))
          else
            let link = linkFor from to r1 in
            (case decideLoss src p link r1 of
               None \<Rightarrow> None
             | Some (r2, Inl err) \<Rightarrow> Some (r2, Inl err)
             | Some (r2, Inr True) \<Rightarrow> Some (map_prod id Inr (dropPacket p DropLoss 0 False r2))
             | Some (r2, Inr False) \<Rightarrow>
                 (case decideLatency src p link r2 of
                    None \<Rightarrow> None
                  | Some (r3, Inl err) \<Rightarrow> Some (r3, Inl err)
                  | Some (r3, Inr latency) \<Rightarrow> Some (scheduleDelivery p latency r3))))"

definition JSONPacketEventTagger :: "('m Packet \<Rightarrow> net_error + bytes) \<Rightarrow> 'm Packet \<Rightarrow> net_error + EventTag" where
  "JSONPacketEventTagger marshal p =
     (case marshal p of Inl err \<Rightarrow> Inl err | Inr data \<Rightarrow> Inr (''network_delivery'', data))"

definition deliver ::
    "('h \<Rightarrow> 'm Packet \<Rightarrow> ('m, 'o, 'h, 's) Router \<Rightarrow> ('m, 'o, 'h, 's) Router) \<Rightarrow> 'm Packet \<Rightarrow> int
       \<Rightarrow> ('m, 'o, 'h, 's) Router \<Rightarrow> ('m, 'o, 'h, 's) Router" where
  "deliver run p deliveryAt r =
     (if \<not> Allows (rtPartition r) (pkFrom p) (pkTo p) then fst (dropPacket p DropPartition deliveryAt True r)
      else case map_of (rtHandlers r) (pkTo p) of
        None \<Rightarrow> fst (dropPacket p DropTargetUnavailable deliveryAt True r)
      | Some handler \<Rightarrow>
          run handler p (observeEvent \<lparr>neKind = PacketDelivered, nePacket = p, neAt = simNow r, neDeliveryAt = deliveryAt,
            neReason = NotDropped, neWasInFlight = False\<rparr> r))"

end
