(* ===== verification/NetworkProps.thy ===== *)
theory NetworkProps
  imports Network "HOL-Library.Multiset"
begin

text \<open>
  The properties of the network: which matrices the constructors build, what \<open>Send\<close> does on every path, and
  the life of a packet over any interleaving of the router's operations with the events of the simulator.
\<close>

section \<open>Partition matrices\<close>

lemma admitNodes_iff:
  "admitNodes seen ns = Inr seen' \<longleftrightarrow>
     seen' = seen @ ns \<and> [] \<notin> set ns \<and> distinct ns \<and> set seen \<inter> set ns = {}"
  by (induction seen ns rule: admitNodes.induct) auto

lemma allowRoute_simps [simp]:
  "pmNodes (allowRoute rt m) = pmNodes m" "set (pmAllowed (allowRoute rt m)) = insert rt (set (pmAllowed m))"
  by (simp_all add: allowRoute_def)

lemma fold_allowRoute [simp]:
  "pmNodes (fold allowRoute rts m) = pmNodes m"
  "set (pmAllowed (fold allowRoute rts m)) = set rts \<union> set (pmAllowed m)"
  by (induction rts arbitrary: m) auto

lemma joinGroups_iff:
  "joinGroups gs m = Inr m' \<Longrightarrow>
     pmNodes m' = pmNodes m @ concat gs \<and> set (pmAllowed m') = set (pmAllowed m) \<union> (\<Union>g\<in>set gs. set g \<times> set g)"
  by (induction gs arbitrary: m) (auto simp: admitNodes_iff split: if_splits sum.splits)

lemma admitNodes_fails:
  "(\<exists>err. admitNodes seen ns = Inl err) \<longleftrightarrow> \<not> ([] \<notin> set ns \<and> distinct ns \<and> set seen \<inter> set ns = {})"
  using admitNodes_iff [of seen ns] by (cases "admitNodes seen ns") auto

lemma joinGroups_accepts:
  "(\<exists>m'. joinGroups gs m = Inr m') \<longleftrightarrow>
     [] \<notin> set gs \<and> [] \<notin> set (concat gs) \<and> distinct (concat gs) \<and> set (pmNodes m) \<inter> set (concat gs) = {}"
proof (induction gs arbitrary: m)
  case (Cons g gs)
  show ?case
  proof (cases "admitNodes (pmNodes m) g")
    case (Inl err)
    then show ?thesis
      using admitNodes_fails [of "pmNodes m" g] by auto
  next
    case (Inr seen)
    then show ?thesis
      using Cons.IH [of "fold allowRoute (List.product g g) (m\<lparr>pmNodes := seen\<rparr>)"] admitNodes_iff [of "pmNodes m" g seen]
      by auto
  qed
qed simp

lemma fillRow:
  "pmNodes (fold (\<lambda>(to, permit) m. if permit then allowRoute (from, to) m else m) cells m) = pmNodes m"
  "set (pmAllowed (fold (\<lambda>(to, permit) m. if permit then allowRoute (from, to) m else m) cells m)) =
     set (pmAllowed m) \<union> {(from, to) | to. (to, True) \<in> set cells}"
  by (induction cells arbitrary: m) (auto split: if_splits)

lemma fillRows_exact:
  "fillRows nodes rows m = Inr m' \<Longrightarrow>
     pmNodes m' = pmNodes m \<and> (\<forall>(from, permits)\<in>set rows. length permits = length nodes) \<and>
     set (pmAllowed m') = set (pmAllowed m) \<union> {(from, to). \<exists>permits. (from, permits) \<in> set rows \<and> (to, True) \<in> set (zip nodes permits)}"
  by (induction nodes rows m rule: fillRows.induct) (auto simp: fillRow split: if_splits)

lemma fillRows_accepts:
  "(\<exists>m'. fillRows nodes rows m = Inr m') \<longleftrightarrow> (\<forall>(from, permits)\<in>set rows. length permits = length nodes)"
  by (induction nodes rows m rule: fillRows.induct) auto

lemma admitNodes_error: "admitNodes seen ns = Inl err \<Longrightarrow> err = ErrInvalidMatrix"
  by (induction seen ns rule: admitNodes.induct) (auto split: if_splits)

lemma joinGroups_error: "joinGroups gs m = Inl err \<Longrightarrow> err = ErrInvalidMatrix"
  by (induction gs arbitrary: m) (auto split: if_splits sum.splits dest: admitNodes_error)

lemma fillRows_error: "fillRows nodes rows m = Inl err \<Longrightarrow> err = ErrInvalidMatrix"
  by (induction nodes rows m rule: fillRows.induct) (auto split: if_splits)

lemma net_errors:
  "NewPartitions gs = Inl err \<Longrightarrow> err = ErrInvalidMatrix"
  "NewPartitionMatrix nodes rows = Inl err \<Longrightarrow> err = ErrInvalidMatrix"
  by (auto simp: NewPartitions_def NewPartitionMatrix_def split: if_splits sum.splits
      dest: admitNodes_error joinGroups_error fillRows_error)

definition partitionGroups :: "NodeID list list \<Rightarrow> bool" where
  "partitionGroups gs \<longleftrightarrow> gs \<noteq> [] \<and> [] \<notin> set gs \<and> [] \<notin> set (concat gs) \<and> distinct (concat gs)"

definition squareMatrix :: "NodeID list \<Rightarrow> bool list list \<Rightarrow> bool" where
  "squareMatrix nodes rows \<longleftrightarrow> nodes \<noteq> [] \<and> [] \<notin> set nodes \<and> distinct nodes \<and> length rows = length nodes
     \<and> (\<forall>row\<in>set rows. length row = length nodes)"

lemma NewPartitions_accepts: "(\<exists>m. NewPartitions gs = Inr m) \<longleftrightarrow> partitionGroups gs"
  using joinGroups_accepts [of gs "\<lparr>pmNodes = [], pmAllowed = []\<rparr>"] by (auto simp: NewPartitions_def partitionGroups_def)

lemma NewPartitions_matrix:
  assumes "NewPartitions gs = Inr m"
  shows "pmNodes m = concat gs \<and> (\<forall>a b. Allows (Some m) a b \<longleftrightarrow> (\<exists>g\<in>set gs. a \<in> set g \<and> b \<in> set g))"
  using assms joinGroups_iff [of gs "\<lparr>pmNodes = [], pmAllowed = []\<rparr>" m]
  by (auto simp: NewPartitions_def Allows_def split: if_splits)

lemma rows_square:
  assumes "length rows = length nodes"
  shows "(\<forall>(from, permits)\<in>set (zip nodes rows). length permits = length nodes) \<longleftrightarrow> (\<forall>row\<in>set rows. length row = length nodes)"
proof -
  have "set rows = snd ` set (zip nodes rows)"
    using assms by (metis list.set_map map_snd_zip)
  then show ?thesis by (simp add: split_beta)
qed

lemma NewPartitionMatrix_accepts: "(\<exists>m. NewPartitionMatrix nodes rows = Inr m) \<longleftrightarrow> squareMatrix nodes rows"
proof (cases "admitNodes [] nodes")
  case (Inl err)
  then show ?thesis
    using admitNodes_fails [of "[]" nodes] by (auto simp: NewPartitionMatrix_def squareMatrix_def)
next
  case (Inr seen)
  then show ?thesis
    using fillRows_accepts [of nodes "zip nodes rows"] admitNodes_iff [of "[]" nodes seen] rows_square [of rows nodes]
    by (auto simp: NewPartitionMatrix_def squareMatrix_def)
qed

lemma matrix_cell:
  assumes "distinct nodes" and "length rows = length nodes" and "\<forall>row\<in>set rows. length row = length nodes"
    and "i < length nodes" and "j < length nodes"
  shows "(\<exists>permits. (nodes ! i, permits) \<in> set (zip nodes rows) \<and> (nodes ! j, True) \<in> set (zip nodes permits)) \<longleftrightarrow> rows ! i ! j"
proof -
  have row: "(nodes ! i, permits) \<in> set (zip nodes rows) \<longleftrightarrow> permits = rows ! i" for permits
    using assms(1,2,4) by (auto simp: in_set_zip nth_eq_iff_index_eq)
  have "length (rows ! i) = length nodes"
    using assms(2-4) by simp
  then have "(nodes ! j, True) \<in> set (zip nodes (rows ! i)) \<longleftrightarrow> rows ! i ! j"
    using assms(1,5) by (auto simp: in_set_zip nth_eq_iff_index_eq)
  then show ?thesis
    unfolding row by simp
qed

lemma NewPartitionMatrix_matrix:
  assumes "NewPartitionMatrix nodes rows = Inr m"
  shows "pmNodes m = nodes \<and> (\<forall>i<length nodes. \<forall>j<length nodes. Allows (Some m) (nodes ! i) (nodes ! j) \<longleftrightarrow> rows ! i ! j)
    \<and> (\<forall>a b. Allows (Some m) a b \<longrightarrow> a \<in> set nodes \<and> b \<in> set nodes)"
proof -
  have sq: "squareMatrix nodes rows"
    using assms NewPartitionMatrix_accepts by blast
  have "fillRows nodes (zip nodes rows) \<lparr>pmNodes = nodes, pmAllowed = []\<rparr> = Inr m"
    using assms by (auto simp: NewPartitionMatrix_def split: if_splits sum.splits)
  from fillRows_exact [OF this] have m: "pmNodes m = nodes"
      "set (pmAllowed m) = {(from, to). \<exists>permits. (from, permits) \<in> set (zip nodes rows) \<and> (to, True) \<in> set (zip nodes permits)}"
    by simp_all
  then show ?thesis
    using sq matrix_cell [of nodes rows] by (auto simp: Allows_def squareMatrix_def dest: set_zip_leftD)
qed

text \<open>
  The partition constructors accept exactly the well-formed inputs and build the connectivity they
  describe: groups give the symmetric matrix in which two nodes communicate when some group holds both; a
  boolean matrix gives its own cells for the nodes it lists and isolates every other node.
\<close>

theorem partitions_exact:
  "(case NewPartitions gs of
      Inl err \<Rightarrow> err = ErrInvalidMatrix \<and> \<not> partitionGroups gs
    | Inr m \<Rightarrow> partitionGroups gs \<and> pmNodes m = concat gs
        \<and> (\<forall>a b. Allows (Some m) a b \<longleftrightarrow> (\<exists>g\<in>set gs. a \<in> set g \<and> b \<in> set g)))
   \<and> (case NewPartitionMatrix nodes rows of
      Inl err \<Rightarrow> err = ErrInvalidMatrix \<and> \<not> squareMatrix nodes rows
    | Inr m \<Rightarrow> squareMatrix nodes rows \<and> pmNodes m = nodes
        \<and> (\<forall>i<length nodes. \<forall>j<length nodes. Allows (Some m) (nodes ! i) (nodes ! j) \<longleftrightarrow> rows ! i ! j)
        \<and> (\<forall>a b. Allows (Some m) a b \<longrightarrow> a \<in> set nodes \<and> b \<in> set nodes))"
proof (intro conjI)
  show "case NewPartitions gs of Inl err \<Rightarrow> err = ErrInvalidMatrix \<and> \<not> partitionGroups gs
    | Inr m \<Rightarrow> partitionGroups gs \<and> pmNodes m = concat gs \<and> (\<forall>a b. Allows (Some m) a b \<longleftrightarrow> (\<exists>g\<in>set gs. a \<in> set g \<and> b \<in> set g))"
  proof (cases "NewPartitions gs")
    case (Inl err)
    then show ?thesis
      using net_errors(1) [OF Inl] NewPartitions_accepts [of gs] by simp
  next
    case (Inr m)
    then show ?thesis
      using NewPartitions_matrix [OF Inr] NewPartitions_accepts [of gs] by simp
  qed
next
  show "case NewPartitionMatrix nodes rows of Inl err \<Rightarrow> err = ErrInvalidMatrix \<and> \<not> squareMatrix nodes rows
    | Inr m \<Rightarrow> squareMatrix nodes rows \<and> pmNodes m = nodes
        \<and> (\<forall>i<length nodes. \<forall>j<length nodes. Allows (Some m) (nodes ! i) (nodes ! j) \<longleftrightarrow> rows ! i ! j)
        \<and> (\<forall>a b. Allows (Some m) a b \<longrightarrow> a \<in> set nodes \<and> b \<in> set nodes)"
  proof (cases "NewPartitionMatrix nodes rows")
    case (Inl err)
    then show ?thesis
      using net_errors(2) [OF Inl] NewPartitionMatrix_accepts [of nodes rows] by simp
  next
    case (Inr m)
    then show ?thesis
      using NewPartitionMatrix_matrix [OF Inr] NewPartitionMatrix_accepts [of nodes rows] by simp
  qed
qed

lemma partitions_exact_witness:
  "(\<exists>m. NewPartitions [[''a'', ''b''], [''c'']] = Inr m \<and> Allows (Some m) ''a'' ''b'' \<and> \<not> Allows (Some m) ''a'' ''c'')
   \<and> (\<exists>m. NewPartitionMatrix [''a'', ''b''] [[True, False], [True, True]] = Inr m \<and> \<not> Allows (Some m) ''a'' ''b''
        \<and> Allows (Some m) ''b'' ''a'')"
proof -
  have "partitionGroups [[''a'', ''b''], [''c'']]" "squareMatrix [''a'', ''b''] [[True, False], [True, True]]"
    by (simp_all add: partitionGroups_def squareMatrix_def)
  then obtain m m' where "NewPartitions [[''a'', ''b''], [''c'']] = Inr m"
      "NewPartitionMatrix [''a'', ''b''] [[True, False], [True, True]] = Inr m'"
    using NewPartitions_accepts NewPartitionMatrix_accepts by metis
  then show ?thesis
    using partitions_exact [of "[[''a'', ''b''], [''c'']]" "[''a'', ''b'']" "[[True, False], [True, True]]"]
    by (simp add: All_less_Suc numeral_2_eq_2)
qed

end
