(* ===== verification/NetworkLife.thy ===== *)
theory NetworkLife
  imports NetworkProps
begin

text \<open>
  What \<open>Send\<close> does on every path, and the life of a packet: over any interleaving of sends, configuration
  changes, foreign events and deliveries, a scheduled packet is in flight, delivered or dropped, exactly one
  of them, and its end comes at the time announced when it was scheduled.
\<close>

section \<open>Scheduling through the simulator\<close>

definition addedEvent :: "'a Simulator \<Rightarrow> int \<Rightarrow> 'a \<Rightarrow> 'a Simulator \<Rightarrow> bool" where
  "addedEvent s t act s' \<longleftrightarrow> simInv s' \<and> now s' = now s \<and>
     (\<exists>i. i \<notin> set (slots (queue s)) \<and> set (slots (queue s')) = insert i (set (slots (queue s)))
        \<and> evWhen (store (queue s') i) = t \<and> evAction (store (queue s') i) = Some act
        \<and> (\<forall>a\<in>set (slots (queue s)). evWhen (store (queue s') a) = evWhen (store (queue s) a)
             \<and> evAction (store (queue s') a) = evAction (store (queue s) a)))"

lemma scheduleAt_added:
  assumes "simInv s" and "scheduleAt t tag (Some act) s = (s', res)"
  shows "(\<exists>err. res = Inl err \<and> s' = s) \<or> (\<exists>i. res = Inr i \<and> addedEvent s t act s')"
proof (cases "t < 0 \<or> t < now s \<or> exhausted s")
  case True
  then obtain err where "scheduleAt t tag (Some act) s = (s, Inl err)"
    using scheduleAt_refused by blast
  then show ?thesis
    using assms(2) by simp
next
  case False
  then have ok: "0 \<le> t" "now s \<le> t" "\<not> exhausted s"
    by simp_all
  show ?thesis
  proof (rule scheduleAt_accepted [OF assms(1) ok, of tag act])
    fix s1
    assume eq: "scheduleAt t tag (Some act) s = (s1, Inr (nextFree s))"
    assume rest: "simInv s1" "now s1 = now s" "set (slots (queue s1)) = insert (nextFree s) (set (slots (queue s)))"
      "nextFree s \<notin> set (slots (queue s))" "evWhen (store (queue s1) (nextFree s)) = t"
      "evAction (store (queue s1) (nextFree s)) = Some act"
      "\<forall>a\<in>set (slots (queue s)). evWhen (store (queue s1) a) = evWhen (store (queue s) a)
         \<and> evTag (store (queue s1) a) = evTag (store (queue s) a) \<and> evAction (store (queue s1) a) = evAction (store (queue s) a)"
    then have "addedEvent s t act s1"
      unfolding addedEvent_def by (intro conjI exI [of _ "nextFree s"]) auto
    then show ?thesis
      using eq assms(2) by simp
  qed
qed

lemma Schedule_added:
  assumes "simInv s"
  shows "Schedule delay (Some act) s = (s', res) \<Longrightarrow>
      (\<exists>err. res = Inl err \<and> s' = s) \<or> (\<exists>i. res = Inr i \<and> addedEvent s (now s + delay) act s')"
    and "ScheduleTagged delay tag (Some act) s = (s', res) \<Longrightarrow>
      (\<exists>err. res = Inl err \<and> s' = s) \<or> (\<exists>i. res = Inr i \<and> addedEvent s (now s + delay) act s')"
  using scheduleAt_added [OF assms]
  by (auto simp: Schedule_def ScheduleTagged_def ScheduleAt_def ScheduleAtTagged_def split: if_splits option.splits)

section \<open>Packets in flight\<close>

definition flight :: "('m, 'o) action option \<Rightarrow> ('m Packet \<times> int) multiset" where
  "flight act = (case act of Some (Deliver p t) \<Rightarrow> {#(p, t)#} | _ \<Rightarrow> {#})"

definition inFlight :: "('m, 'o) action Simulator \<Rightarrow> ('m Packet \<times> int) multiset" where
  "inFlight s = (\<Sum>a\<in>set (slots (queue s)). flight (evAction (store (queue s) a)))"

definition timely :: "('m, 'o) action Simulator \<Rightarrow> bool" where
  "timely s \<longleftrightarrow> (\<forall>a\<in>set (slots (queue s)). \<forall>p t. evAction (store (queue s) a) = Some (Deliver p t) \<longrightarrow> evWhen (store (queue s) a) = t)"

lemma flight_simps [simp]: "flight (Some (Deliver p t)) = {#(p, t)#}" "flight (Some (Foreign x)) = {#}" "flight None = {#}"
  by (simp_all add: flight_def)

lemma inFlight_added:
  assumes "addedEvent s t act s'"
  shows "inFlight s' = inFlight s + flight (Some act)"
proof -
  obtain i where i: "i \<notin> set (slots (queue s))" "set (slots (queue s')) = insert i (set (slots (queue s)))"
      "evAction (store (queue s') i) = Some act"
      "\<forall>a\<in>set (slots (queue s)). evAction (store (queue s') a) = evAction (store (queue s) a)"
    using assms unfolding addedEvent_def by blast
  then have "(\<Sum>a\<in>set (slots (queue s)). flight (evAction (store (queue s') a))) = inFlight s"
    unfolding inFlight_def by (intro sum.cong) auto
  then show ?thesis
    unfolding inFlight_def [of s'] i(2) using i(1,3) by (simp add: add.commute)
qed

lemma timely_added:
  assumes "addedEvent s t act s'" and "timely s" and "\<And>p u. act = Deliver p u \<Longrightarrow> u = t"
  shows "timely s'"
  using assms unfolding addedEvent_def timely_def by auto

section \<open>Sending\<close>

definition linkOk :: "LinkConfig \<Rightarrow> bool" where
  "linkOk l \<longleftrightarrow> validateLink l = None \<and> MaxLatency l \<le> MaxInt64"

definition routerInv :: "('m, 'o, 'h, 's) Router \<Rightarrow> bool" where
  "routerInv r \<longleftrightarrow> simInv (rtSim r) \<and> timely (rtSim r) \<and> linkOk (rtDefaultLink r) \<and> (\<forall>(k, l)\<in>set (rtLinks r). linkOk l)"

definition redrawn :: "('m, 'o, 'h, 's) Router \<Rightarrow> ('m, 'o, 'h, 's) Router \<Rightarrow> bool" where
  "redrawn r r' \<longleftrightarrow> (\<exists>rng d. r' = r\<lparr>rtRng := rng, rtDecisions := d\<rparr>)"

lemma redrawnI [intro]: "redrawn r (r\<lparr>rtRng := rng\<rparr>)" "redrawn r (r\<lparr>rtDecisions := d\<rparr>)"
  unfolding redrawn_def by (rule exI [of _ rng], rule exI [of _ "rtDecisions r"], simp)
    (rule exI [of _ "rtRng r"], rule exI [of _ d], simp)

lemma linkFor_ok: "routerInv r \<Longrightarrow> linkOk (linkFor from to r)"
  by (auto simp: routerInv_def linkFor_def split: option.split dest: map_of_SomeD)

lemma decideLoss_total:
  assumes "linkOk link"
  obtains r' res where "decideLoss src p link r = Some (r', res)" and "redrawn r r'"
    and "res = Inr True \<Longrightarrow> LossProbability link \<noteq> Finite 0" and "res = Inr False \<Longrightarrow> LossProbability link \<noteq> Finite 1"
proof (cases "rtDecisions r")
  case None
  obtain q where q: "LossProbability link = Finite q" "0 \<le> q" "q \<le> 1"
    using assms by (cases "LossProbability link") (auto simp: linkOk_def validateLink_def split: if_splits)
  then obtain rng b where "Chance (Finite q) (rtRng r) = Some (rng, b)" "b \<Longrightarrow> q \<noteq> 0" "\<not> b \<Longrightarrow> q \<noteq> 1"
    by (cases "q = 0"; cases "q = 1") (auto simp: Chance_def Let_def split_beta)
  then show thesis
    using None q by (intro that [of "r\<lparr>rtRng := rng\<rparr>" "Inr b"]) (auto simp: decideLoss_def)
next
  case (Some d)
  obtain d1 c where c: "fst src d p link = (d1, c)"
    by fastforce
  show thesis
  proof (cases c)
    case (Inl err)
    then show thesis
      using Some c by (intro that [of "r\<lparr>rtDecisions := Some d1\<rparr>" "Inl err"]) (auto simp: decideLoss_def)
  next
    case (Inr b)
    let ?res = "if b \<and> LossProbability link = Finite 0 \<or> \<not> b \<and> LossProbability link = Finite 1
      then Inl ErrInvalidNetworkDecision else Inr b"
    show thesis
      using Some c Inr by (intro that [of "r\<lparr>rtDecisions := Some d1\<rparr>" ?res]) (auto simp: decideLoss_def split: if_splits)
  qed
qed

lemma decideLatency_total:
  assumes "linkOk link"
  obtains r' res where "decideLatency src p link r = Some (r', res)" and "redrawn r r'"
    and "\<And>l. res = Inr l \<Longrightarrow> MinLatency link \<le> l \<and> l \<le> MaxLatency link"
proof (cases "rtDecisions r")
  case None
  have "0 \<le> MinLatency link" "MinLatency link \<le> MaxLatency link" "MaxLatency link \<le> MaxInt64"
    using assms by (auto simp: linkOk_def validateLink_def split: if_splits)
  then obtain rng l where "Duration (MinLatency link) (MaxLatency link) (rtRng r) = Some (rng, l)"
      "MinLatency link \<le> l" "l \<le> MaxLatency link"
    using Duration_range [of "MinLatency link" "MaxLatency link" "rtRng r"] by auto
  then show thesis
    using None by (intro that [of "r\<lparr>rtRng := rng\<rparr>" "Inr l"]) (auto simp: decideLatency_def)
next
  case (Some d)
  obtain d1 c where c: "snd src d p link = (d1, c)"
    by fastforce
  show thesis
  proof (cases c)
    case (Inl err)
    then show thesis
      using Some c by (intro that [of "r\<lparr>rtDecisions := Some d1\<rparr>" "Inl err"]) (auto simp: decideLatency_def)
  next
    case (Inr l)
    let ?res = "if l < MinLatency link \<or> l > MaxLatency link then Inl ErrInvalidNetworkDecision else Inr l"
    show thesis
      using Some c Inr by (intro that [of "r\<lparr>rtDecisions := Some d1\<rparr>" ?res]) (auto simp: decideLatency_def split: if_splits)
  qed
qed

section \<open>The paths of Send\<close>

definition scheduledEvent :: "'m Packet \<Rightarrow> int \<Rightarrow> int \<Rightarrow> 'm NetworkEvent" where
  "scheduledEvent p u d =
     \<lparr>neKind = PacketScheduled, nePacket = p, neAt = u, neDeliveryAt = d, neReason = NotDropped, neWasInFlight = False\<rparr>"

text \<open>The four outcomes: refused, refused after the identifier was taken, dropped at once, scheduled.\<close>

definition sendRefused :: "('m, 'o, 'h, 's) Router \<Rightarrow> ('m, 'o, 'h, 's) Router \<Rightarrow> net_error + SendResult \<Rightarrow> bool" where
  "sendRefused r r' res \<longleftrightarrow> (\<exists>err. res = Inl err) \<and> (r' = r \<or> \<not> rtExhausted r \<and> redrawn (takeID r) r')"

definition sendDropped ::
    "NodeID \<Rightarrow> NodeID \<Rightarrow> 'm \<Rightarrow> ('m, 'o, 'h, 's) Router \<Rightarrow> ('m, 'o, 'h, 's) Router \<Rightarrow> net_error + SendResult \<Rightarrow> bool" where
  "sendDropped from to message r r' res \<longleftrightarrow>
     (\<exists>r1 reason. \<not> rtExhausted r \<and> map_of (rtHandlers r) from \<noteq> None \<and> map_of (rtHandlers r) to \<noteq> None \<and> redrawn (takeID r) r1
        \<and> reason = (if Allows (rtPartition r) from to then DropLoss else DropPartition)
        \<and> (reason = DropLoss \<longrightarrow> LossProbability (linkFor from to r) \<noteq> Finite 0)
        \<and> r' = fst (dropPacket (packetFor from to message r) reason 0 False r1)
        \<and> res = Inr (snd (dropPacket (packetFor from to message r) reason 0 False r1)))"

definition sendScheduled ::
    "NodeID \<Rightarrow> NodeID \<Rightarrow> 'm \<Rightarrow> ('m, 'o, 'h, 's) Router \<Rightarrow> ('m, 'o, 'h, 's) Router \<Rightarrow> net_error + SendResult \<Rightarrow> bool" where
  "sendScheduled from to message r r' res \<longleftrightarrow>
     (\<exists>r1 s1 l. \<not> rtExhausted r \<and> map_of (rtHandlers r) from \<noteq> None \<and> map_of (rtHandlers r) to \<noteq> None \<and> redrawn (takeID r) r1
        \<and> Allows (rtPartition r) from to \<and> LossProbability (linkFor from to r) \<noteq> Finite 1
        \<and> MinLatency (linkFor from to r) \<le> l \<and> l \<le> MaxLatency (linkFor from to r)
        \<and> addedEvent (rtSim r) (simNow r + l) (Deliver (packetFor from to message r) (simNow r + l)) s1
        \<and> r' = observeEvent (scheduledEvent (packetFor from to message r) (simNow r) (simNow r + l)) (r1\<lparr>rtSim := s1\<rparr>)
        \<and> res = Inr \<lparr>srPacketID = rtNextPacket r, srScheduled = True, srDeliveryAt = simNow r + l, srDropReason = NotDropped\<rparr>)"

lemma takeID_simps [simp]:
  "rtSim (takeID r) = rtSim r" "rtDefaultLink (takeID r) = rtDefaultLink r" "rtLinks (takeID r) = rtLinks r"
  "rtHandlers (takeID r) = rtHandlers r" "rtPartition (takeID r) = rtPartition r" "rtClone (takeID r) = rtClone r"
  "rtObserver (takeID r) = rtObserver r"
  by (simp_all add: takeID_def)

lemma redrawn_simps:
  assumes "redrawn r r'"
  shows "rtSim r' = rtSim r" and "rtDefaultLink r' = rtDefaultLink r" and "rtLinks r' = rtLinks r" and "rtHandlers r' = rtHandlers r"
    and "rtPartition r' = rtPartition r" and "rtObserver r' = rtObserver r" and "rtNextPacket r' = rtNextPacket r"
    and "rtExhausted r' = rtExhausted r"
  using assms by (auto simp: redrawn_def)

lemma redrawn_trans: "redrawn a b \<Longrightarrow> redrawn b c \<Longrightarrow> redrawn a c"
  by (auto simp: redrawn_def) blast

lemma redrawn_refl: "redrawn r r"
  unfolding redrawn_def by (rule exI [of _ "rtRng r"], rule exI [of _ "rtDecisions r"]) simp

lemma scheduleDelivery_cases:
  assumes "simInv (rtSim r)" and "scheduleDelivery p l r = (r', res)"
  shows "(\<exists>err. res = Inl err \<and> r' = r) \<or>
    (\<exists>s1. addedEvent (rtSim r) (simNow r + l) (Deliver p (simNow r + l)) s1
      \<and> r' = observeEvent (scheduledEvent p (simNow r) (simNow r + l)) (r\<lparr>rtSim := s1\<rparr>)
      \<and> res = Inr \<lparr>srPacketID = pkID p, srScheduled = True, srDeliveryAt = simNow r + l, srDropReason = NotDropped\<rparr>)"
proof -
  let ?act = "Deliver p (simNow r + l)"
  define out where "out = (case rtTagger r of
      None \<Rightarrow> map_prod id (map_sum ErrSim id) (Schedule l (Some ?act) (rtSim r))
    | Some tagger \<Rightarrow> (case tagger p of Inl err \<Rightarrow> (rtSim r, Inl err)
        | Inr tag \<Rightarrow> map_prod id (map_sum ErrSim id) (ScheduleTagged l tag (Some ?act) (rtSim r))))"
  have "(\<exists>err. out = (rtSim r, Inl err)) \<or> (\<exists>s1 i. out = (s1, Inr i) \<and> addedEvent (rtSim r) (simNow r + l) ?act s1)"
  proof (cases "rtTagger r")
    case None
    obtain s1 res1 where "Schedule l (Some ?act) (rtSim r) = (s1, res1)"
      by fastforce
    then show ?thesis
      using Schedule_added(1) [OF assms(1), of l ?act s1 res1] None by (auto simp: out_def)
  next
    case (Some tagger)
    show ?thesis
    proof (cases "tagger p")
      case (Inr tag)
      obtain s1 res1 where "ScheduleTagged l tag (Some ?act) (rtSim r) = (s1, res1)"
        by fastforce
      then show ?thesis
        using Schedule_added(2) [OF assms(1), of l tag ?act s1 res1] Some Inr by (auto simp: out_def)
    qed (simp add: out_def Some)
  qed
  moreover have "scheduleDelivery p l r = (let (s1, res) = out; r1 = r\<lparr>rtSim := s1\<rparr> in case res of Inl err \<Rightarrow> (r1, Inl err)
      | Inr _ \<Rightarrow> (observeEvent (scheduledEvent p (simNow r1) (simNow r + l)) r1,
          Inr \<lparr>srPacketID = pkID p, srScheduled = True, srDeliveryAt = simNow r + l, srDropReason = NotDropped\<rparr>))"
    unfolding scheduleDelivery_def out_def scheduledEvent_def Let_def by (rule refl)
  ultimately show ?thesis
    using assms(2) by (auto simp: Let_def addedEvent_def)
qed

lemma sendDroppedI:
  assumes "\<not> (map_of (rtHandlers r) from = None \<or> map_of (rtHandlers r) to = None \<or> rtExhausted r)"
    and "redrawn (takeID r) r1" and "reason = (if Allows (rtPartition r) from to then DropLoss else DropPartition)"
    and "reason = DropLoss \<Longrightarrow> LossProbability (linkFor from to r) \<noteq> Finite 0"
    and "map_prod id Inr (dropPacket (packetFor from to message r) reason 0 False r1) = (r', res)"
  shows "sendDropped from to message r r' res"
  using assms unfolding sendDropped_def by (intro exI [of _ r1] exI [of _ reason]) (auto simp: dropPacket_def)

lemma Send_cases:
  assumes "routerInv r"
  obtains r' res where "Send src from to message r = Some (r', res)"
    and "sendRefused r r' res \<or> sendDropped from to message r r' res \<or> sendScheduled from to message r r' res"
proof (cases "map_of (rtHandlers r) from = None \<or> map_of (rtHandlers r) to = None \<or> rtExhausted r")
  case True
  then have "\<exists>err. Send src from to message r = Some (r, Inl err)"
    by (auto simp: Send_def)
  then show thesis
    using that by (auto simp: sendRefused_def)
next
  case False
  let ?p = "packetFor from to message r" and ?link = "linkFor from to r"
  have link: "linkFor from to (takeID r) = ?link" "linkOk ?link"
    by (simp add: linkFor_def split: option.split) (rule linkFor_ok [OF assms])
  have send: "Send src from to message r = (if \<not> Allows (rtPartition r) from to then Some (map_prod id Inr (dropPacket ?p DropPartition 0 False (takeID r)))
     else (case decideLoss src ?p ?link (takeID r) of None \<Rightarrow> None | Some (r2, Inl err) \<Rightarrow> Some (r2, Inl err)
       | Some (r2, Inr True) \<Rightarrow> Some (map_prod id Inr (dropPacket ?p DropLoss 0 False r2))
       | Some (r2, Inr False) \<Rightarrow> (case decideLatency src ?p ?link r2 of None \<Rightarrow> None | Some (r3, Inl err) \<Rightarrow> Some (r3, Inl err)
           | Some (r3, Inr latency) \<Rightarrow> Some (scheduleDelivery ?p latency r3))))"
    using False unfolding Send_def Let_def takeID_simps link(1) by (simp only: de_Morgan_disj if_False)
  show thesis
  proof (cases "Allows (rtPartition r) from to")
    case blocked: False
    then show thesis
      using send sendDroppedI [OF False redrawn_refl, of DropPartition message]
      by (intro that [OF _ disjI2 [OF disjI1]]) (auto simp: map_prod_def split_beta)
  next
    case open_route: True
    obtain r2 res2 where loss: "decideLoss src ?p ?link (takeID r) = Some (r2, res2)" "redrawn (takeID r) r2"
        "res2 = Inr True \<Longrightarrow> LossProbability ?link \<noteq> Finite 0" "res2 = Inr False \<Longrightarrow> LossProbability ?link \<noteq> Finite 1"
      using decideLoss_total [OF link(2)] by metis
    consider err where "res2 = Inl err" | "res2 = Inr True" | "res2 = Inr False"
      by (metis sum.exhaust)
    then show thesis
    proof cases
      case 1
      then show thesis
        using False send loss(1,2) open_route by (intro that) (auto simp: sendRefused_def)
    next
      case 2
      then show thesis
        using send loss(1,3) open_route sendDroppedI [OF False loss(2), of DropLoss message]
        by (intro that [OF _ disjI2 [OF disjI1]]) (auto simp: map_prod_def split_beta)
    next
      case 3
      obtain r3 res3 where lat: "decideLatency src ?p ?link r2 = Some (r3, res3)" "redrawn r2 r3"
          "\<And>l. res3 = Inr l \<Longrightarrow> MinLatency ?link \<le> l \<and> l \<le> MaxLatency ?link"
        using decideLatency_total [OF link(2)] by metis
      have r3: "redrawn (takeID r) r3" "rtSim r3 = rtSim r"
        using redrawn_trans [OF loss(2) lat(2)] redrawn_simps(1) by fastforce+
      show thesis
      proof (cases res3)
        case (Inl err)
        then show thesis
          using False send loss(1) lat(1) open_route 3 r3 by (intro that) (auto simp: sendRefused_def)
      next
        case (Inr l)
        obtain r' res where sched: "scheduleDelivery ?p l r3 = (r', res)"
          by fastforce
        have "sendRefused r r' res \<or> sendScheduled from to message r r' res"
          using scheduleDelivery_cases [OF _ sched] assms False open_route lat(3) [OF Inr] loss(4) [OF 3] r3
          unfolding sendRefused_def sendScheduled_def routerInv_def by (fastforce simp: packetFor_def)
        then show thesis
          using send loss(1) lat(1) open_route 3 Inr sched by (intro that) auto
      qed
    qed
  qed
qed


end
