(* ===== verification/NetworkSend.thy ===== *)
theory NetworkSend
  imports NetworkLife
begin

text \<open>The contract of \<open>Send\<close>, and the life of packets over whole executions.\<close>

section \<open>Send\<close>

lemma routerTrace_simps [simp]:
  "rtSim (routerTrace e r) = rtSim r" "rtDefaultLink (routerTrace e r) = rtDefaultLink r" "rtLinks (routerTrace e r) = rtLinks r"
  "rtHandlers (routerTrace e r) = rtHandlers r" "rtPartition (routerTrace e r) = rtPartition r"
  "rtObserver (routerTrace e r) = rtObserver r" "rtNextPacket (routerTrace e r) = rtNextPacket r"
  "rtExhausted (routerTrace e r) = rtExhausted r"
  by (simp_all add: routerTrace_def)

lemma observeEvent_simps [simp]:
  "rtSim (observeEvent e r) = rtSim r" "rtDefaultLink (observeEvent e r) = rtDefaultLink r" "rtLinks (observeEvent e r) = rtLinks r"
  "rtHandlers (observeEvent e r) = rtHandlers r" "rtPartition (observeEvent e r) = rtPartition r"
  "rtObserver (observeEvent e r) = map_option (\<lambda>es. es @ [e]) (rtObserver r)" "rtNextPacket (observeEvent e r) = rtNextPacket r"
  "rtExhausted (observeEvent e r) = rtExhausted r"
  by (simp_all add: observeEvent_def Let_def)

lemma routerInv_frame:
  "\<lbrakk>routerInv r; simInv (rtSim r'); timely (rtSim r'); rtDefaultLink r' = rtDefaultLink r; rtLinks r' = rtLinks r\<rbrakk> \<Longrightarrow> routerInv r'"
  by (simp add: routerInv_def)

definition sentEvents :: "('m, 'o, 'h, 's) Router \<Rightarrow> ('m, 'o, 'h, 's) Router \<Rightarrow> 'm NetworkEvent list \<Rightarrow> bool" where
  "sentEvents r r' es \<longleftrightarrow> rtObserver r' = map_option (\<lambda>old. old @ es) (rtObserver r)"

text \<open>What a send changes, for the three outcomes together.\<close>

lemma send_effect:
  assumes inv: "routerInv r"
    and out: "sendRefused r r' res \<or> sendDropped from to message r r' res \<or> sendScheduled from to message r r' res"
  shows "routerInv r'" and "simNow r' = simNow r"
    and "rtNextPacket r' = rtNextPacket r \<and> rtExhausted r' = rtExhausted r \<and> (\<exists>err. res = Inl err) \<or>
      \<not> rtExhausted r \<and> rtNextPacket r' = rtNextPacket (takeID r) \<and> rtExhausted r' = rtExhausted (takeID r)"
    and "sendRefused r r' res \<Longrightarrow> rtSim r' = rtSim r \<and> rtObserver r' = rtObserver r"
    and "sendDropped from to message r r' res \<Longrightarrow> rtSim r' = rtSim r"
    and "sendScheduled from to message r r' res \<Longrightarrow> res = Inr sr \<Longrightarrow>
      inFlight (rtSim r') = add_mset (packetFor from to message r, srDeliveryAt sr) (inFlight (rtSim r))"
proof -
  have sched: "simInv (rtSim r') \<and> timely (rtSim r') \<and> simNow r' = simNow r \<and> rtDefaultLink r' = rtDefaultLink r \<and> rtLinks r' = rtLinks r
      \<and> inFlight (rtSim r') = add_mset (packetFor from to message r, srDeliveryAt (projr res)) (inFlight (rtSim r))"
    if sends: "sendScheduled from to message r r' res"
  proof -
    obtain r1 s1 l where s1: "redrawn (takeID r) r1"
        "addedEvent (rtSim r) (simNow r + l) (Deliver (packetFor from to message r) (simNow r + l)) s1"
        "r' = observeEvent (scheduledEvent (packetFor from to message r) (simNow r) (simNow r + l)) (r1\<lparr>rtSim := s1\<rparr>)"
        "res = Inr \<lparr>srPacketID = rtNextPacket r, srScheduled = True, srDeliveryAt = simNow r + l, srDropReason = NotDropped\<rparr>"
      using sends unfolding sendScheduled_def by blast
    then show ?thesis
      using inFlight_added [OF s1(2)] timely_added [OF s1(2)] inv redrawn_simps(1-3) [OF s1(1)]
      by (simp add: routerInv_def addedEvent_def)
  qed
  show refused: "sendRefused r r' res \<Longrightarrow> rtSim r' = rtSim r \<and> rtObserver r' = rtObserver r"
    using redrawn_simps(1,6) [of "takeID r" r'] by (auto simp: sendRefused_def)
  show dropped: "sendDropped from to message r r' res \<Longrightarrow> rtSim r' = rtSim r"
    using redrawn_simps(1) [of "takeID r"] by (auto simp: sendDropped_def dropPacket_def)
  have frame: "rtDefaultLink r' = rtDefaultLink r" "rtLinks r' = rtLinks r"
    if "sendRefused r r' res \<or> sendDropped from to message r r' res"
    using that redrawn_simps(2,3) [of "takeID r"] by (auto simp: sendRefused_def sendDropped_def dropPacket_def)
  show "routerInv r'" "simNow r' = simNow r"
    using out inv sched refused dropped frame routerInv_frame [OF inv, of r'] unfolding routerInv_def [of r] by metis+
  show "rtNextPacket r' = rtNextPacket r \<and> rtExhausted r' = rtExhausted r \<and> (\<exists>err. res = Inl err) \<or>
      \<not> rtExhausted r \<and> rtNextPacket r' = rtNextPacket (takeID r) \<and> rtExhausted r' = rtExhausted (takeID r)"
    using out redrawn_simps(7,8) [of "takeID r"]
    by (auto simp: sendRefused_def sendDropped_def sendScheduled_def dropPacket_def)
  show "sendScheduled from to message r r' res \<Longrightarrow> res = Inr sr \<Longrightarrow>
      inFlight (rtSim r') = add_mset (packetFor from to message r, srDeliveryAt sr) (inFlight (rtSim r))"
    using sched by simp
qed

text \<open>
  C25. \<open>Send\<close> always returns, and keeps the router's invariant and the clock. When it reports an error no
  packet is put in flight. Otherwise both ends are registered and the packet carries the next identifier; it
  is dropped at once because the partition blocks the route, or by a loss draw on a link that can lose, or
  exactly it is added to the packets in flight, on an allowed route of a link that can deliver, with a delivery
  time inside the link's latency range.
\<close>

theorem send_contract:
  assumes "routerInv r"
  shows "\<exists>r' res. Send src from to message r = Some (r', res) \<and> routerInv r' \<and> simNow r' = simNow r \<and>
    (case res of
       Inl err \<Rightarrow> rtSim r' = rtSim r
     | Inr sr \<Rightarrow> map_of (rtHandlers r) from \<noteq> None \<and> map_of (rtHandlers r) to \<noteq> None \<and> srPacketID sr = rtNextPacket r \<and>
         (if srScheduled sr then Allows (rtPartition r) from to \<and> LossProbability (linkFor from to r) \<noteq> Finite 1
            \<and> simNow r + MinLatency (linkFor from to r) \<le> srDeliveryAt sr
            \<and> srDeliveryAt sr \<le> simNow r + MaxLatency (linkFor from to r)
            \<and> inFlight (rtSim r') = add_mset (packetFor from to message r, srDeliveryAt sr) (inFlight (rtSim r))
          else rtSim r' = rtSim r \<and>
            (if Allows (rtPartition r) from to
             then srDropReason sr = DropLoss \<and> LossProbability (linkFor from to r) \<noteq> Finite 0
             else srDropReason sr = DropPartition)))"
proof -
  obtain r' res where send: "Send src from to message r = Some (r', res)"
    and out: "sendRefused r r' res \<or> sendDropped from to message r r' res \<or> sendScheduled from to message r r' res"
    using Send_cases [OF assms] by metis
  note eff = send_effect [OF assms out]
  show ?thesis
  proof (intro exI conjI)
    show "case res of Inl err \<Rightarrow> rtSim r' = rtSim r | Inr sr \<Rightarrow> map_of (rtHandlers r) from \<noteq> None \<and> map_of (rtHandlers r) to \<noteq> None
         \<and> srPacketID sr = rtNextPacket r \<and>
         (if srScheduled sr then Allows (rtPartition r) from to \<and> LossProbability (linkFor from to r) \<noteq> Finite 1
            \<and> simNow r + MinLatency (linkFor from to r) \<le> srDeliveryAt sr \<and> srDeliveryAt sr \<le> simNow r + MaxLatency (linkFor from to r)
            \<and> inFlight (rtSim r') = add_mset (packetFor from to message r, srDeliveryAt sr) (inFlight (rtSim r))
          else rtSim r' = rtSim r \<and> (if Allows (rtPartition r) from to
             then srDropReason sr = DropLoss \<and> LossProbability (linkFor from to r) \<noteq> Finite 0 else srDropReason sr = DropPartition))"
      using out
    proof (elim disjE)
      assume refused: "sendRefused r r' res"
      then obtain err where "res = Inl err"
        unfolding sendRefused_def by blast
      then show ?thesis
        using eff(4) [OF refused] by simp
    next
      assume d: "sendDropped from to message r r' res"
      then show ?thesis
        using eff(5) [OF d] unfolding sendDropped_def by (auto simp: dropPacket_def packetFor_def)
    next
      assume s: "sendScheduled from to message r r' res"
      then obtain l where "map_of (rtHandlers r) from \<noteq> None" "map_of (rtHandlers r) to \<noteq> None"
          "Allows (rtPartition r) from to" "LossProbability (linkFor from to r) \<noteq> Finite 1"
          "MinLatency (linkFor from to r) \<le> l" "l \<le> MaxLatency (linkFor from to r)"
          "res = Inr \<lparr>srPacketID = rtNextPacket r, srScheduled = True, srDeliveryAt = simNow r + l, srDropReason = NotDropped\<rparr>"
        unfolding sendScheduled_def by blast
      then show ?thesis
        using eff(6) [OF s] by simp
    qed
  qed (use send eff in auto)
qed

end
