(* ===== verification/NetworkRun.thy ===== *)
theory NetworkRun
  imports NetworkSend
begin

text \<open>
  Whole executions of the network as a step relation: sends, configuration changes, foreign events and the
  events of the simulator in any order. A delivered packet's handler runs at the end of \<open>deliver\<close>, so what
  the handler does are the steps that follow.
\<close>

section \<open>Steps\<close>

definition runAction :: "('m, 'o) action \<Rightarrow> ('m, 'o, 'h, 's) Router \<Rightarrow> ('m, 'o, 'h, 's) Router" where
  "runAction act r = (case act of Deliver p t \<Rightarrow> deliver (\<lambda>_ _ r. r) p t r | Foreign _ \<Rightarrow> r)"

inductive netStep :: "('s, 'm) decisionSource \<Rightarrow> ('m, 'o, 'h, 's) Router \<Rightarrow> ('m, 'o, 'h, 's) Router \<Rightarrow> bool"
  for src :: "('s, 'm) decisionSource" where
  send: "Send src from to message r = Some (r', res) \<Longrightarrow> netStep src r r'"
| register: "netStep src r (fst (Register n handler r))"
| unregister: "netStep src r (fst (Unregister n r))"
| setLink: "MaxLatency config \<le> MaxInt64 \<Longrightarrow> netStep src r (fst (SetLink from to config r))"
| resetLink: "netStep src r (ResetLink from to r)"
| setPartition: "netStep src r (SetPartition matrix r)"
| setDecisions: "netStep src r (SetDecisionSource d r)"
| setTagger: "netStep src r (SetPacketEventTagger tagger r)"
| setTrace: "netStep src r (routerSetTraceSink sink r)"
| foreign: "scheduleAt t tag (Some (Foreign x)) (rtSim r) = (s', res) \<Longrightarrow> netStep src r (r\<lparr>rtSim := s'\<rparr>)"
| cancelForeign: "evAction (store (queue (rtSim r)) a) = Some (Foreign x) \<Longrightarrow> Cancel a (rtSim r) = Some (s', b) \<Longrightarrow>
    netStep src r (r\<lparr>rtSim := s'\<rparr>)"
| event: "evAction (store (queue (rtSim r)) (slots (queue (rtSim r)) ! 0)) = Some act \<Longrightarrow>
    simStep (\<lambda>_ s. s) (rtSim r) = Some (s', True) \<Longrightarrow> netStep src r (runAction act (r\<lparr>rtSim := s'\<rparr>))"

definition started :: "('m, 'o, 'h, 's) Router \<Rightarrow> bool" where
  "started r \<longleftrightarrow> (\<exists>rng link clone r0. MaxLatency link \<le> MaxInt64 \<and>
     NewRouter (Some newSimulator) (Some rng) link clone = Inr r0 \<and> r = SetObserver (Some []) r0)"

inductive netReachable :: "('s, 'm) decisionSource \<Rightarrow> ('m, 'o, 'h, 's) Router \<Rightarrow> bool"
  for src :: "('s, 'm) decisionSource" where
  start: "started r \<Longrightarrow> netReachable src r"
| step: "netReachable src r \<Longrightarrow> netStep src r r' \<Longrightarrow> netReachable src r'"

section \<open>The ledger of packets\<close>

definition isScheduled :: "'m NetworkEvent \<Rightarrow> bool" where
  "isScheduled e \<longleftrightarrow> neKind e = PacketScheduled"

definition isDelivered :: "'m NetworkEvent \<Rightarrow> bool" where
  "isDelivered e \<longleftrightarrow> neKind e = PacketDelivered"

definition isLostInFlight :: "'m NetworkEvent \<Rightarrow> bool" where
  "isLostInFlight e \<longleftrightarrow> neKind e = PacketDropped \<and> neWasInFlight e"

definition logged :: "('m NetworkEvent \<Rightarrow> bool) \<Rightarrow> 'm NetworkEvent list \<Rightarrow> ('m Packet \<times> int) multiset" where
  "logged P es = mset (map (\<lambda>e. (nePacket e, neDeliveryAt e)) (filter P es))"

lemma logged_simps [simp]:
  "logged P [] = {#}" "logged P (es @ fs) = logged P es + logged P fs"
  "logged P [e] = (if P e then {#(nePacket e, neDeliveryAt e)#} else {#})"
  by (simp_all add: logged_def)

definition ledgerOk :: "'m NetworkEvent list \<Rightarrow> ('m, 'o, 'h, 's) Router \<Rightarrow> bool" where
  "ledgerOk es r \<longleftrightarrow>
     logged isScheduled es = inFlight (rtSim r) + logged isDelivered es + logged isLostInFlight es
     \<and> (\<forall>e\<in>set es. isDelivered e \<or> isLostInFlight e \<longrightarrow> neAt e = neDeliveryAt e)
     \<and> distinct (map (\<lambda>e. pkID (nePacket e)) (filter isScheduled es))
     \<and> (\<forall>e\<in>set es. isScheduled e \<longrightarrow> rtExhausted r \<or> pkID (nePacket e) < rtNextPacket r)"

definition lifeInv :: "('m, 'o, 'h, 's) Router \<Rightarrow> bool" where
  "lifeInv r \<longleftrightarrow> routerInv r \<and> (\<exists>es. rtObserver r = Some es \<and> ledgerOk es r)"

lemma lifeInv_frame:
  assumes "lifeInv r" and "routerInv r'" and "rtObserver r' = rtObserver r" and "inFlight (rtSim r') = inFlight (rtSim r)"
    and "rtNextPacket r' = rtNextPacket r" and "rtExhausted r' = rtExhausted r"
  shows "lifeInv r'"
  using assms by (auto simp: lifeInv_def ledgerOk_def)

lemma lifeInv_observe:
  assumes "rtObserver r = Some es" and "ledgerOk (es @ [e]) (observeEvent e r)" and "routerInv r"
  shows "lifeInv (observeEvent e r)"
  using assms routerInv_frame [of r "observeEvent e r"] by (auto simp: lifeInv_def routerInv_def)

lemma started_inv: "started r \<Longrightarrow> lifeInv r"
  using newSimulator_inv
  by (auto simp: started_def NewRouter_def SetObserver_def lifeInv_def routerInv_def ledgerOk_def inFlight_def timely_def
      linkOk_def newSimulator_def emptyHeap_def split: option.splits)

lemma takeID_later:
  assumes "k < rtNextPacket r"
  shows "rtExhausted (takeID r) \<or> k < rtNextPacket (takeID r)"
proof (cases "rtNextPacket r = MaxUint64")
  case False
  then have "rtNextPacket r < rtNextPacket r + 1"
    using unat_plus_one [of "rtNextPacket r"] by (simp add: word_less_nat_alt)
  then show ?thesis
    using assms False less_trans [OF assms] by (simp add: takeID_def)
qed (simp add: takeID_def)

lemma takeID_passes: "rtExhausted (takeID r) \<or> rtNextPacket r < rtNextPacket (takeID r)"
  using unat_plus_one [of "rtNextPacket r"] by (auto simp: takeID_def word_less_nat_alt)

lemma takeID_exhausted: "rtExhausted r \<Longrightarrow> rtExhausted (takeID r)"
  by (simp add: takeID_def)

lemma life_send:
  assumes life: "lifeInv r" and send: "Send src from to message r = Some (r', res)"
  shows "lifeInv r'"
proof -
  have inv: "routerInv r"
    using life by (simp add: lifeInv_def)
  obtain es where es: "rtObserver r = Some es" "ledgerOk es r"
    using life by (auto simp: lifeInv_def)
  have out: "sendRefused r r' res \<or> sendDropped from to message r r' res \<or> sendScheduled from to message r r' res"
    using Send_cases [OF inv, of src "from" to message] send by (metis option.inject prod.inject)
  note eff = send_effect [OF inv out]
  have ids: "rtExhausted r' \<or> pkID (nePacket e) < rtNextPacket r'" if "e \<in> set es" "isScheduled e" for e
    using eff(3) es(2) that takeID_later [of "pkID (nePacket e)" r] takeID_exhausted [of r] unfolding ledgerOk_def by auto
  from out show ?thesis
  proof (elim disjE)
    assume "sendRefused r r' res"
    then show ?thesis
      using eff(1,4) es ids by (auto simp: lifeInv_def ledgerOk_def)
  next
    assume d: "sendDropped from to message r r' res"
    then obtain r1 e where "redrawn (takeID r) r1" "r' = observeEvent e r1" "\<not> isScheduled e" "\<not> isDelivered e" "\<not> isLostInFlight e"
      unfolding sendDropped_def dropPacket_def by (auto simp: isScheduled_def isDelivered_def isLostInFlight_def)
    then show ?thesis
      using eff(1) eff(5) [OF d] es ids redrawn_simps(6) [of "takeID r" r1] by (auto simp: lifeInv_def ledgerOk_def)
  next
    assume s: "sendScheduled from to message r r' res"
    then obtain r1 s1 l where r1: "redrawn (takeID r) r1" "\<not> rtExhausted r"
        "r' = observeEvent (scheduledEvent (packetFor from to message r) (simNow r) (simNow r + l)) (r1\<lparr>rtSim := s1\<rparr>)"
        "res = Inr \<lparr>srPacketID = rtNextPacket r, srScheduled = True, srDeliveryAt = simNow r + l, srDropReason = NotDropped\<rparr>"
      unfolding sendScheduled_def by blast
    let ?e = "scheduledEvent (packetFor from to message r) (simNow r) (simNow r + l)"
    have e: "isScheduled ?e" "\<not> isDelivered ?e" "\<not> isLostInFlight ?e" "pkID (nePacket ?e) = rtNextPacket r"
        "nePacket ?e = packetFor from to message r" "neDeliveryAt ?e = simNow r + l"
      by (simp_all add: isScheduled_def isDelivered_def isLostInFlight_def scheduledEvent_def packetFor_def)
    have fresh: "rtNextPacket r \<notin> (\<lambda>e. pkID (nePacket e)) ` set (filter isScheduled es)"
      using es(2) r1(2) by (auto simp: ledgerOk_def)
    have "rtNextPacket r' = rtNextPacket (takeID r)" "rtExhausted r' = rtExhausted (takeID r)"
      using redrawn_simps(7,8) [OF r1(1)] r1(3) by simp_all
    then have "rtExhausted r' \<or> rtNextPacket r < rtNextPacket r'"
      using takeID_passes [of r] by simp
    then have "ledgerOk (es @ [?e]) r'"
      using es(2) e ids fresh eff(6) [OF s r1(4)] unfolding ledgerOk_def by auto
    then show ?thesis
      using eff(1) es(1) r1(3) redrawn_simps(6) [OF r1(1)] by (auto simp: lifeInv_def)
  qed
qed

section \<open>Events\<close>

lemma life_event:
  assumes life: "lifeInv r" and act: "evAction (store (queue (rtSim r)) (slots (queue (rtSim r)) ! 0)) = Some act"
    and step: "simStep (\<lambda>_ s. s) (rtSim r) = Some (s', True)"
  shows "lifeInv (runAction act (r\<lparr>rtSim := s'\<rparr>))"
proof -
  let ?s = "rtSim r" and ?r = "r\<lparr>rtSim := s'\<rparr>"
  obtain es where inv: "routerInv r" and es: "rtObserver r = Some es" "ledgerOk es r"
    using life by (auto simp: lifeInv_def)
  have ne: "slots (queue ?s) \<noteq> []"
    using step by (auto simp: simStep_empty)
  obtain a act' s1 where a: "a = slots (queue ?s) ! 0" "a \<in> set (slots (queue ?s))"
      "evAction (store (queue ?s) a) = Some act'" "simStep (\<lambda>_ s. s) ?s = Some (s1, True)" "simInv s1"
      "now s1 = evWhen (store (queue ?s) a)" "set (slots (queue s1)) = set (slots (queue ?s)) - {a}"
      "\<forall>b. evWhen (store (queue s1) b) = evWhen (store (queue ?s) b)"
      "\<forall>b. b \<noteq> a \<longrightarrow> evAction (store (queue s1) b) = evAction (store (queue ?s) b)"
    by (rule simStep_next_all [of ?s "\<lambda>_ s. s", OF _ ne]) (use inv in \<open>simp_all add: routerInv_def\<close>)
  have s1: "s1 = s'" "act' = act"
    using a(1,3,4) act step by simp_all
  have "inFlight s' = (\<Sum>b\<in>set (slots (queue ?s)) - {a}. flight (evAction (store (queue ?s) b)))"
    unfolding inFlight_def a(7) [unfolded s1] using a(9) s1 by (intro sum.cong) auto
  then have fl: "inFlight ?s = flight (Some act) + inFlight s'"
    unfolding inFlight_def [of ?s] using sum.remove [OF _ a(2), of "\<lambda>b. flight (evAction (store (queue ?s) b))"] a(3) s1 by simp
  have ti: "timely s'"
    using inv a(7-9) s1 unfolding routerInv_def timely_def by auto
  have inv': "routerInv ?r"
    using inv a(5) s1 ti by (auto simp: routerInv_def)
  show ?thesis
  proof (cases act)
    case (Deliver p t)
    have t: "now s' = t"
      using inv a(1-3,6) s1 Deliver unfolding routerInv_def timely_def by auto
    have end_ok: "lifeInv (observeEvent e ?r)"
      if "nePacket e = p" "neDeliveryAt e = t" "neAt e = t" "\<not> isScheduled e" "isDelivered e \<noteq> isLostInFlight e" for e
      using that es fl inv' Deliver by (intro lifeInv_observe [of _ es]) (auto simp: ledgerOk_def ac_simps)
    show ?thesis
      unfolding Deliver runAction_def deliver_def dropPacket_def
      by (auto simp: t intro!: end_ok split: option.splits) (simp_all add: isScheduled_def isDelivered_def isLostInFlight_def)
  next
    case (Foreign x)
    then show ?thesis
      using es fl inv' by (auto simp: runAction_def lifeInv_def ledgerOk_def)
  qed
qed

lemma life_foreign:
  assumes life: "lifeInv r" and sched: "scheduleAt t tag (Some (Foreign x)) (rtSim r) = (s', res)"
  shows "lifeInv (r\<lparr>rtSim := s'\<rparr>)"
proof -
  have inv: "routerInv r"
    using life by (simp add: lifeInv_def)
  then consider "s' = rtSim r" | "addedEvent (rtSim r) t (Foreign x) s'"
    using scheduleAt_added [OF _ sched] by (auto simp: routerInv_def)
  then show ?thesis
  proof cases
    case 2
    then show ?thesis
      using inFlight_added [OF 2] timely_added [OF 2] inv
      by (intro lifeInv_frame [OF life]) (auto simp: routerInv_def addedEvent_def)
  qed (use life in simp)
qed

lemma life_cancel:
  assumes life: "lifeInv r" and act: "evAction (store (queue (rtSim r)) a) = Some (Foreign x)"
    and cancel: "Cancel a (rtSim r) = Some (s', b)"
  shows "lifeInv (r\<lparr>rtSim := s'\<rparr>)"
proof (cases "a \<in> set (pendingIDs (rtSim r))")
  case False
  then have "s' = rtSim r"
    using cancel by (simp add: Cancel_unknown)
  then show ?thesis
    using life by simp
next
  case True
  have inv: "routerInv r"
    using life by (simp add: lifeInv_def)
  then have sinv: "simInv (rtSim r)"
    by (simp add: routerInv_def)
  obtain s1 where s1: "Cancel a (rtSim r) = Some (s1, True)" "simInv s1" "now s1 = now (rtSim r)"
      "set (slots (queue s1)) = set (slots (queue (rtSim r))) - {a}"
      "\<forall>b\<in>set (slots (queue s1)). evWhen (store (queue s1) b) = evWhen (store (queue (rtSim r)) b)
         \<and> evAction (store (queue s1) b) = evAction (store (queue (rtSim r)) b)"
    by (rule Cancel_pending [OF sinv True])
  have "a \<in> set (slots (queue (rtSim r)))"
    using sinv True by (simp add: simInv_def)
  moreover have "inFlight s1 = (\<Sum>b\<in>set (slots (queue (rtSim r))) - {a}. flight (evAction (store (queue (rtSim r)) b)))"
    unfolding inFlight_def s1(4) [symmetric] using s1(5) by (intro sum.cong) auto
  ultimately have "inFlight s1 = inFlight (rtSim r)"
    unfolding inFlight_def [of "rtSim r"]
    using sum.remove [of "set (slots (queue (rtSim r)))" a "\<lambda>b. flight (evAction (store (queue (rtSim r)) b))"] act by simp
  moreover have "timely s1"
    using inv s1(4,5) unfolding routerInv_def timely_def by auto
  moreover have "s' = s1"
    using s1(1) cancel by simp
  ultimately show ?thesis
    using inv s1(2) by (intro lifeInv_frame [OF life]) (auto simp: routerInv_def)
qed

lemma set_AList_update: "(k, v) \<in> set (AList.update k' v' al) \<Longrightarrow> (k, v) \<in> set al \<or> (k = k' \<and> v = v')"
  by (induction al) (auto split: if_splits)

lemma set_AList_delete: "x \<in> set (AList.delete k al) \<Longrightarrow> x \<in> set al"
  by (simp add: AList.delete_eq)

lemma life_configure:
  assumes life: "lifeInv r"
  shows "lifeInv (fst (Register n handler r))" and "lifeInv (fst (Unregister n r))" and "lifeInv (ResetLink from to r)"
    and "lifeInv (SetPartition matrix r)" and "lifeInv (SetDecisionSource d r)" and "lifeInv (SetPacketEventTagger tagger r)"
    and "lifeInv (routerSetTraceSink sink r)"
    and "MaxLatency config \<le> MaxInt64 \<Longrightarrow> lifeInv (fst (SetLink from to config r))"
proof -
  have inv: "routerInv r"
    using life by (simp add: lifeInv_def)
  note frame = lifeInv_frame [OF life routerInv_frame [OF inv]]
  show "lifeInv (fst (Register n handler r))" "lifeInv (fst (Unregister n r))" "lifeInv (SetPartition matrix r)"
      "lifeInv (SetDecisionSource d r)" "lifeInv (SetPacketEventTagger tagger r)" "lifeInv (routerSetTraceSink sink r)"
    using inv life by (auto simp: Register_def Unregister_def SetPartition_def SetDecisionSource_def SetPacketEventTagger_def
        routerSetTraceSink_def routerInv_def Let_def intro!: frame split: option.splits)
  have "routerInv (ResetLink from to r)"
    using inv by (auto simp: routerInv_def ResetLink_def dest: set_AList_delete)
  then show "lifeInv (ResetLink from to r)"
    by (rule lifeInv_frame [OF life]) (simp_all add: ResetLink_def)
  assume max: "MaxLatency config \<le> MaxInt64"
  have "routerInv (fst (SetLink from to config r))"
    using inv max by (auto simp: routerInv_def SetLink_def linkOk_def dest!: set_AList_update split: option.splits)
  then show "lifeInv (fst (SetLink from to config r))"
    by (rule lifeInv_frame [OF life]) (simp_all add: SetLink_def split: option.splits)
qed

lemma reachable_life:
  assumes "netReachable src r"
  shows "lifeInv r"
  using assms
proof (induction rule: netReachable.induct)
  case (step r r')
  from step.hyps(2) step.IH show ?case
    by (cases rule: netStep.cases) (auto intro: life_send life_configure life_foreign life_cancel life_event)
qed (rule started_inv)


section \<open>Conservation\<close>

text \<open>
  C26. Packets are conserved. In every state that the network reaches by sends, configuration changes, foreign
  events and the simulator's own steps, the packets announced as scheduled are exactly those still in flight,
  those delivered and those dropped on arrival, each once; no two of them share an identifier; and every
  delivery or drop on arrival happened at the time announced when the packet was scheduled.
\<close>

theorem packets_conserved:
  assumes "netReachable src r" and "rtObserver r = Some es"
  shows "logged isScheduled es = inFlight (rtSim r) + logged isDelivered es + logged isLostInFlight es
    \<and> distinct (map (\<lambda>e. pkID (nePacket e)) (filter isScheduled es))
    \<and> (\<forall>e\<in>set es. isDelivered e \<or> isLostInFlight e \<longrightarrow> neAt e = neDeliveryAt e)"
  using reachable_life [OF assms(1)] assms(2) by (simp add: lifeInv_def ledgerOk_def)

definition exRouter :: "(nat, unit, unit, unit) Router" where
  "exRouter = \<lparr>rtSim = newSimulator, rtRng = NewRand 1,
     rtDefaultLink = \<lparr>MinLatency = 5, MaxLatency = 5, LossProbability = Finite 0\<rparr>, rtLinks = [], rtHandlers = [],
     rtPartition = None, rtClone = None, rtObserver = Some [], rtNextPacket = 1, rtExhausted = False, rtTrace = None,
     rtDecisions = None, rtTagger = None\<rparr>"

definition exSource :: "(unit, nat) decisionSource" where
  "exSource = ((\<lambda>d _ _. (d, Inr False)), (\<lambda>d _ _. (d, Inr 5)))"

definition exRegistered :: "(nat, unit, unit, unit) Router" where
  "exRegistered = fst (Register ''b'' (Some ()) (fst (Register ''a'' (Some ()) exRouter)))"

lemma exRegistered_reachable: "netReachable exSource exRegistered"
proof -
  have "NewRouter (Some newSimulator) (Some (NewRand 1)) \<lparr>MinLatency = 5, MaxLatency = 5, LossProbability = Finite 0\<rparr> None =
      Inr (SetObserver None exRouter)"
    by (simp add: NewRouter_def validateLink_def exRouter_def SetObserver_def)
  moreover have "exRouter = SetObserver (Some []) (SetObserver None exRouter)"
    by (simp add: exRouter_def SetObserver_def)
  ultimately have "started exRouter"
    unfolding started_def
    by (intro exI [of _ "NewRand 1"] exI [of _ "\<lparr>MinLatency = 5, MaxLatency = 5, LossProbability = Finite 0\<rparr>"] exI [of _ None]
        exI [of _ "SetObserver None exRouter"]) (simp add: MaxInt64_def)
  then show ?thesis
    unfolding exRegistered_def
    by (rule netReachable.step [OF netReachable.step [OF netReachable.start netStep.register] netStep.register])
qed

lemma exRegistered_inv: "routerInv exRegistered"
  using reachable_life [OF exRegistered_reachable] by (simp add: lifeInv_def)

lemma exRegistered_simps:
  "rtHandlers exRegistered = [(''a'', ()), (''b'', ())]" "rtPartition exRegistered = None" "rtNextPacket exRegistered = 1"
  "linkFor x y exRegistered = \<lparr>MinLatency = 5, MaxLatency = 5, LossProbability = Finite 0\<rparr>" "rtExhausted exRegistered = False"
  "rtSim exRegistered = newSimulator" "rtObserver exRegistered = Some []" "rtDecisions exRegistered = None" "rtTagger exRegistered = None"
  by (simp_all add: exRegistered_def exRouter_def Register_def routerTrace_def linkFor_def)

theorem packets_conserved_witness:
  "netReachable exSource exRegistered \<and> rtObserver exRegistered = Some [] \<and>
   (\<exists>r' res es. Send exSource ''a'' ''b'' 7 exRegistered = Some (r', res) \<and> rtObserver r' = Some es \<and>
      logged isScheduled es = inFlight (rtSim r') + logged isDelivered es + logged isLostInFlight es)"
proof -
  obtain r' res where send: "Send exSource ''a'' ''b'' 7 exRegistered = Some (r', res)"
    by (rule Send_cases [OF exRegistered_inv])
  have reach: "netReachable exSource r'"
    using netReachable.step [OF exRegistered_reachable netStep.send [OF send]] .
  then obtain es where "rtObserver r' = Some es"
    using reachable_life [OF reach] by (auto simp: lifeInv_def)
  then show ?thesis
    using packets_conserved [OF reach] exRegistered_reachable send by (auto simp: exRegistered_simps)
qed

theorem send_contract_witness:
  "routerInv exRegistered \<and>
   (\<exists>r' res. Send exSource ''a'' ''b'' 7 exRegistered = Some (r', res) \<and> routerInv r' \<and>
      (case res of Inl err \<Rightarrow> rtSim r' = newSimulator
       | Inr sr \<Rightarrow> srPacketID sr = 1 \<and> srScheduled sr \<and> srDeliveryAt sr = 5
           \<and> inFlight (rtSim r') = {#(packetFor ''a'' ''b'' 7 exRegistered, 5)#}))"
proof -
  have fresh: "inFlight newSimulator = {#}" "now newSimulator = 0"
    by (simp_all add: inFlight_def newSimulator_def emptyHeap_def)
  show ?thesis
    using send_contract [OF exRegistered_inv, of exSource "''a''" "''b''" 7] exRegistered_inv
    apply (elim exE conjE)
    subgoal for r' res
      by (cases res) (auto simp: exRegistered_simps Allows_def fresh intro!: exI [of _ r'] exI [of _ res] split: if_splits)
    done
qed

end
