(* ===== verification/Artifact.thy ===== *)
theory Artifact
  imports Checker Decision
begin

text \<open>
  Run artifacts (\<open>src/artifact/artifact.go\<close>): the data of a recorded run, the validation of scenarios,
  configurations and whole runs, the resource budget, and the bounded encoder. \<open>crypto/sha256\<close> is the argument
  \<open>sha\<close> and \<open>json.Marshal\<close> of the values written by the encoder is the argument \<open>marshal\<close>. Error messages are
  dropped: an error wraps \<open>ErrInvalidArtifact\<close> or is \<open>ErrArtifactTooLarge\<close>. The unexported presence flags that
  \<open>UnmarshalJSON\<close> sets are fields of the records.
\<close>

section \<open>Constants\<close>

definition RunSchemaV1 :: string where "RunSchemaV1 = ''d-raft.run/v1''"
definition RunSchemaV2 :: string where "RunSchemaV2 = ''d-raft.run/v2''"
definition RunSchema :: string where "RunSchema = ''d-raft.run/v3''"
definition ReferenceAdapterID :: string where "ReferenceAdapterID = ''d-raft/reference''"
definition ReferenceAdapterV1 :: string where "ReferenceAdapterV1 = ''1''"
definition ReferenceAdapterV2 :: string where "ReferenceAdapterV2 = ''2''"
definition ReferenceAdapterV3 :: string where "ReferenceAdapterV3 = ''3''"
definition MessageCodecV1 :: string where "MessageCodecV1 = ''d-raft.raft-message/json-v1''"
definition MessageCodecV2 :: string where "MessageCodecV2 = ''d-raft.raft-message/json-v2''"
definition MessageCodecV3 :: string where "MessageCodecV3 = ''d-raft.raft-message/json-v3''"
definition ObservationSchemaV1 :: string where "ObservationSchemaV1 = ''d-raft.observation/v1''"
definition ObservationSchemaV2 :: string where "ObservationSchemaV2 = ''d-raft.observation/v2''"
definition ObservationSchemaV3 :: string where "ObservationSchemaV3 = ''d-raft.observation/v3''"

definition DefaultMaxArtifactBytes :: int where "DefaultMaxArtifactBytes = 64 * 2 ^ 20"
definition MaxMembers :: nat where "MaxMembers = 31"
definition MaxActions :: nat where "MaxActions = 10000"
definition MaxDecisions :: nat where "MaxDecisions = 100000"
definition MaxActionPayloadBytes :: nat where "MaxActionPayloadBytes = 2 ^ 20"
definition MaxDecisionContextBytes :: nat where "MaxDecisionContextBytes = 2 ^ 20"
definition MaxDecisionOptions :: nat where "MaxDecisionOptions = 1024"
definition MaxTotalDecisionOptions :: int where "MaxTotalDecisionOptions = 1000000"
definition MaxDecisionTextBytes :: nat where "MaxDecisionTextBytes = 4 * 2 ^ 10"
definition MaxViolations :: nat where "MaxViolations = 1024"
definition MaxViolationEvidenceBytes :: nat where "MaxViolationEvidenceBytes = 2 ^ 20"
definition MaxOutcomeErrorBytes :: nat where "MaxOutcomeErrorBytes = 4 * 2 ^ 10"
definition MaxScenarioSteps :: u64 where "MaxScenarioSteps = 1000000"
definition MaxVirtualDurationNS :: int where "MaxVirtualDurationNS = 24 * 3600 * 1000000000"

datatype artifact_error = ErrInvalidArtifact | ErrArtifactTooLarge

section \<open>Data\<close>

text \<open>\<open>ActionKind\<close> is a Go string: the named constants and any other value.\<close>

definition ActionPropose :: string where "ActionPropose = ''propose''"
definition ActionCrash :: string where "ActionCrash = ''crash''"
definition ActionRestart :: string where "ActionRestart = ''restart''"
definition ActionCrashAfterNextPersist :: string where "ActionCrashAfterNextPersist = ''crash_after_next_persist''"
definition ActionSnapshot :: string where "ActionSnapshot = ''snapshot''"
definition ActionBeginMembership :: string where "ActionBeginMembership = ''begin_membership''"
definition ActionFinalizeMembership :: string where "ActionFinalizeMembership = ''finalize_membership''"
definition ActionPartition :: string where "ActionPartition = ''partition''"
definition ActionHeal :: string where "ActionHeal = ''heal''"

lemmas action_kinds = ActionPropose_def ActionCrash_def ActionRestart_def ActionCrashAfterNextPersist_def ActionSnapshot_def
  ActionBeginMembership_def ActionFinalizeMembership_def ActionPartition_def ActionHeal_def

record Action =
  acAtNS :: int
  acKind :: string
  acNode :: NodeID
  acData :: bytes
  acGroups :: "NodeID list list"
  acVoters :: "NodeID list"
  acLearners :: "NodeID list"
  acVotersPresent :: bool
  acLearnersPresent :: bool

record Scenario =
  snID :: string
  snVersion :: string
  snDurationNS :: int
  snMaxSteps :: u64
  snActions :: "Action list"

record Adapter =
  adID :: string
  adVersion :: string

record Configuration =
  cfMembers :: "NodeID list"
  cfVoters :: "NodeID list"
  cfLearners :: "NodeID list"
  cfInfrastructureSeed :: u64
  cfNetworkMinLatencyNS :: int
  cfNetworkMaxLatencyNS :: int
  cfNetworkLossProbability :: gofloat
  cfElectionTimeoutMinNS :: int
  cfElectionTimeoutMaxNS :: int
  cfHeartbeatIntervalNS :: int
  cfStorageLatencyNS :: int
  cfStopOnViolation :: bool
  cfVotersPresent :: bool
  cfLearnersPresent :: bool

record Reproducibility =
  rpDecisionSeed :: u64
  rpGitRevision :: string
  rpGitModified :: bool
  rpGoVersion :: string
  rpDecisionSchema :: string
  rpCheckerSchema :: string
  rpMessageCodec :: string
  rpObservationSchema :: string

record Outcome =
  ocStatus :: string
  ocSteps :: u64
  ocEndNS :: int
  ocObservationDigest :: string
  ocError :: string
  ocViolations :: "Violation list"

definition OutcomeCompleted :: string where "OutcomeCompleted = ''completed''"
definition OutcomeViolation :: string where "OutcomeViolation = ''violation''"
definition OutcomeError :: string where "OutcomeError = ''error''"
definition OutcomeBudgetExhausted :: string where "OutcomeBudgetExhausted = ''budget_exhausted''"

lemmas outcome_statuses = OutcomeCompleted_def OutcomeViolation_def OutcomeError_def OutcomeBudgetExhausted_def

record Run =
  rnSchema :: string
  rnScenario :: Scenario
  rnAdapter :: Adapter
  rnConfiguration :: Configuration
  rnReproducibility :: Reproducibility
  rnDecisions :: Tape
  rnOutcome :: Outcome

text \<open>The build data (revision, modification flag and Go version) come from the Go runtime.\<close>

definition NewReproducibility :: "string \<times> bool \<Rightarrow> string \<Rightarrow> u64 \<Rightarrow> Reproducibility" where
  "NewReproducibility revision goVersion seed =
     \<lparr>rpDecisionSeed = seed, rpGitRevision = fst revision, rpGitModified = snd revision, rpGoVersion = goVersion,
      rpDecisionSchema = DecisionSchema, rpCheckerSchema = CheckSchema, rpMessageCodec = MessageCodecV3,
      rpObservationSchema = ObservationSchemaV3\<rparr>"

text \<open>\<open>buildRevision\<close>, from the build settings when there are any: the last setting of a key wins.\<close>

definition buildRevision :: "(string \<times> string) list option \<Rightarrow> string \<times> bool" where
  "buildRevision info =
     (case info of
        None \<Rightarrow> (''unknown'', False)
      | Some settings \<Rightarrow> fold (\<lambda>(key, value) (revision, modified).
           if key = ''vcs.revision'' then (value, modified)
           else if key = ''vcs.modified'' then (revision, value = ''true'')
           else (revision, modified)) settings (''unknown'', False))"

definition OutcomesEqual :: "Outcome \<Rightarrow> Outcome \<Rightarrow> bool" where
  "OutcomesEqual left right \<longleftrightarrow>
     (if ocStatus left \<noteq> ocStatus right \<or> ocSteps left \<noteq> ocSteps right \<or> ocEndNS left \<noteq> ocEndNS right
         \<or> ocObservationDigest left \<noteq> ocObservationDigest right \<or> ocError left \<noteq> ocError right
         \<or> length (ocViolations left) \<noteq> length (ocViolations right) then False
      else list_all (\<lambda>(l, r). vFingerprint l = vFingerprint r) (zip (ocViolations left) (ocViolations right)))"

section \<open>Identifiers, metadata and digests\<close>

definition alphanumeric :: "char \<Rightarrow> bool" where
  "alphanumeric ch \<longleftrightarrow> CHR ''a'' \<le> ch \<and> ch \<le> CHR ''z'' \<or> CHR ''A'' \<le> ch \<and> ch \<le> CHR ''Z'' \<or> CHR ''0'' \<le> ch \<and> ch \<le> CHR ''9''"

text \<open>The loop of \<open>validIdentifier\<close>; the flag is \<open>index > 0\<close>.\<close>

fun identifierChars :: "bool \<Rightarrow> bool \<Rightarrow> string \<Rightarrow> bool" where
  "identifierChars allowSlash inner [] = True"
| "identifierChars allowSlash inner (ch # rest) =
     (if alphanumeric ch then identifierChars allowSlash True rest
      else if inner \<and> (ch = CHR ''-'' \<or> ch = CHR ''_'' \<or> ch = CHR ''.'' \<or> ch = CHR ''+'' \<or> allowSlash \<and> ch = CHR ''/'')
      then identifierChars allowSlash True rest
      else False)"

definition validIdentifier :: "string \<Rightarrow> bool \<Rightarrow> nat \<Rightarrow> bool" where
  "validIdentifier value allowSlash maximum \<longleftrightarrow>
     (if length value = 0 \<or> length value > maximum then False else identifierChars allowSlash False value)"

definition validMetadata :: "string \<Rightarrow> nat \<Rightarrow> bool" where
  "validMetadata value maximum \<longleftrightarrow>
     (if length value = 0 \<or> length value > maximum then False
      else list_all (\<lambda>ch. \<not> ((of_char ch :: nat) < 0x20 \<or> of_char ch > (0x7e :: nat))) value)"

definition validDigest :: "string \<Rightarrow> bool" where
  "validDigest value \<longleftrightarrow>
     (case DecodeString value of None \<Rightarrow> False
      | Some decoded \<Rightarrow> length decoded = 32 \<and> EncodeToString decoded = value)"

section \<open>Partition groups\<close>

text \<open>The three-way comparison of two groups: item by item, then by length.\<close>

fun compareGroups :: "NodeID list \<Rightarrow> NodeID list \<Rightarrow> int" where
  "compareGroups (l # ls) (r # rs) = (if l < r then - 1 else if l > r then 1 else compareGroups ls rs)"
| "compareGroups [] (r # rs) = - 1"
| "compareGroups (l # ls) [] = 1"
| "compareGroups [] [] = 0"

fun partitionGroupsSorted :: "NodeID list list \<Rightarrow> bool" where
  "partitionGroupsSorted (left # right # groups) =
     (if compareGroups left right \<ge> 0 then False else partitionGroupsSorted (right # groups))"
| "partitionGroupsSorted groups = True"

text \<open>The nodes of one group against the members and the nodes seen before: the seen nodes, or \<open>None\<close> on an error.\<close>

fun partitionNodes :: "NodeID list \<Rightarrow> NodeID list \<Rightarrow> NodeID list \<Rightarrow> NodeID list option" where
  "partitionNodes universe partitioned [] = Some partitioned"
| "partitionNodes universe partitioned (node # nodes) =
     (if node \<notin> set universe then None
      else if node \<in> set partitioned then None
      else partitionNodes universe (node # partitioned) nodes)"

fun groupsProper :: "NodeID list \<Rightarrow> NodeID list \<Rightarrow> NodeID list list \<Rightarrow> bool" where
  "groupsProper universe partitioned [] = True"
| "groupsProper universe partitioned (g # gs) =
     (if length g = 0 then False
      else if \<not> sorted g then False
      else case partitionNodes universe partitioned g of
        None \<Rightarrow> False
      | Some partitioned' \<Rightarrow> groupsProper universe partitioned' gs)"

section \<open>Scenarios and configurations\<close>

definition membershipOf :: "NodeID list \<Rightarrow> NodeID list \<Rightarrow> Membership" where
  "membershipOf voters learners = zeroMembership\<lparr>Voters := voters, Learners := learners\<rparr>"

text \<open>The \<open>switch\<close> on the kind of an action: whether it passes.\<close>

definition actionFits :: "Action \<Rightarrow> NodeID list \<Rightarrow> string \<Rightarrow> bool" where
  "actionFits a universe schema \<longleftrightarrow>
     (if acKind a = ActionPropose then
        (if length (acGroups a) \<noteq> 0 \<or> length (acVoters a) \<noteq> 0 \<or> length (acLearners a) \<noteq> 0 then False
         else if acNode a \<noteq> [] then acNode a \<in> set universe else True)
      else if acKind a = ActionCrash \<or> acKind a = ActionRestart \<or> acKind a = ActionCrashAfterNextPersist then
        (if length (acData a) \<noteq> 0 \<or> length (acGroups a) \<noteq> 0 \<or> length (acVoters a) \<noteq> 0 \<or> length (acLearners a) \<noteq> 0 then False
         else acNode a \<in> set universe)
      else if acKind a = ActionSnapshot then
        (if schema = RunSchemaV1 \<or> length (acGroups a) \<noteq> 0 \<or> length (acVoters a) \<noteq> 0 \<or> length (acLearners a) \<noteq> 0 then False
         else acNode a \<in> set universe)
      else if acKind a = ActionBeginMembership then
        (if schema \<noteq> RunSchema \<or> length (acData a) \<noteq> 0 \<or> length (acGroups a) \<noteq> 0
            \<or> \<not> ValidateMembership (membershipOf (acVoters a) (acLearners a)) universe then False
         else if acNode a \<noteq> [] then acNode a \<in> set universe else True)
      else if acKind a = ActionFinalizeMembership then
        (if schema \<noteq> RunSchema \<or> length (acData a) \<noteq> 0 \<or> length (acGroups a) \<noteq> 0 \<or> length (acVoters a) \<noteq> 0
            \<or> length (acLearners a) \<noteq> 0 then False
         else if acNode a \<noteq> [] then acNode a \<in> set universe else True)
      else if acKind a = ActionPartition then
        (if acNode a \<noteq> [] \<or> length (acData a) \<noteq> 0 \<or> length (acGroups a) = 0 \<or> length (acVoters a) \<noteq> 0
            \<or> length (acLearners a) \<noteq> 0 then False
         else if \<not> groupsProper universe [] (acGroups a) then False
         else partitionGroupsSorted (acGroups a))
      else if acKind a = ActionHeal then
        \<not> (acNode a \<noteq> [] \<or> length (acData a) \<noteq> 0 \<or> length (acGroups a) \<noteq> 0 \<or> length (acVoters a) \<noteq> 0
            \<or> length (acLearners a) \<noteq> 0)
      else False)"

fun validateActions :: "Action list \<Rightarrow> int \<Rightarrow> int \<Rightarrow> NodeID list \<Rightarrow> string \<Rightarrow> artifact_error option" where
  "validateActions [] previous duration universe schema = None"
| "validateActions (a # rest) previous duration universe schema =
     (if acAtNS a < previous \<or> acAtNS a < 0 \<or> acAtNS a > duration \<or> length (acData a) > MaxActionPayloadBytes
      then Some ErrInvalidArtifact
      else if schema \<noteq> RunSchema \<and> (acVotersPresent a \<or> acLearnersPresent a) then Some ErrInvalidArtifact
      else if acVotersPresent a \<and> length (acVoters a) = 0 \<or> acLearnersPresent a \<and> length (acLearners a) = 0
      then Some ErrInvalidArtifact
      else if schema = RunSchema \<and> acKind a \<noteq> ActionBeginMembership \<and> (acVotersPresent a \<or> acLearnersPresent a)
      then Some ErrInvalidArtifact
      else if \<not> actionFits a universe schema then Some ErrInvalidArtifact
      else validateActions rest (acAtNS a) duration universe schema)"

definition validateScenario :: "Scenario \<Rightarrow> NodeID list \<Rightarrow> string \<Rightarrow> artifact_error option" where
  "validateScenario s universe schema =
     (if \<not> validIdentifier (snID s) True 128 \<or> \<not> validIdentifier (snVersion s) False 64 \<or> snDurationNS s < 0
         \<or> snDurationNS s > MaxVirtualDurationNS \<or> snMaxSteps s = 0 \<or> snMaxSteps s > MaxScenarioSteps
         \<or> length (snActions s) > MaxActions then Some ErrInvalidArtifact
      else validateActions (snActions s) (- 1) (snDurationNS s) universe schema)"

fun membersProper :: "NodeID option \<Rightarrow> NodeID list \<Rightarrow> bool" where
  "membersProper previous [] = True"
| "membersProper previous (m # ms) =
     (if \<not> validIdentifier m False 64 \<or> previous = Some m then False else membersProper (Some m) ms)"

definition lossInvalid :: "gofloat \<Rightarrow> bool" where
  "lossInvalid p = (case p of NaN \<Rightarrow> True | Infinite _ \<Rightarrow> True | Finite q \<Rightarrow> q < 0 \<or> q > 1)"

definition validateConfiguration :: "Configuration \<Rightarrow> bool \<Rightarrow> artifact_error option" where
  "validateConfiguration c allowRoles =
     (if length (cfMembers c) = 0 \<or> length (cfMembers c) > MaxMembers \<or> \<not> sorted (cfMembers c)
         \<or> cfNetworkMinLatencyNS c < 0 \<or> cfNetworkMaxLatencyNS c < cfNetworkMinLatencyNS c
         \<or> cfNetworkMaxLatencyNS c > MaxVirtualDurationNS \<or> cfElectionTimeoutMinNS c \<le> 0
         \<or> cfElectionTimeoutMaxNS c < cfElectionTimeoutMinNS c \<or> cfElectionTimeoutMaxNS c > MaxVirtualDurationNS
         \<or> cfHeartbeatIntervalNS c \<le> 0 \<or> cfHeartbeatIntervalNS c \<ge> cfElectionTimeoutMinNS c
         \<or> cfStorageLatencyNS c < 0 \<or> cfStorageLatencyNS c > MaxVirtualDurationNS
         \<or> lossInvalid (cfNetworkLossProbability c) then Some ErrInvalidArtifact
      else let canonical = sort (cfMembers c) in
        if \<not> membersProper None canonical then Some ErrInvalidArtifact
        else if \<not> allowRoles \<and> (cfVotersPresent c \<or> cfLearnersPresent c \<or> length (cfVoters c) \<noteq> 0 \<or> length (cfLearners c) \<noteq> 0)
        then Some ErrInvalidArtifact
        else if allowRoles \<and> (cfVotersPresent c \<and> length (cfVoters c) = 0 \<or> cfLearnersPresent c \<and> length (cfLearners c) = 0)
        then Some ErrInvalidArtifact
        else if allowRoles \<and> (length (cfVoters c) > 0 \<or> length (cfLearners c) > 0)
            \<and> \<not> ValidateMembership (membershipOf (cfVoters c) (cfLearners c)) canonical
        then Some ErrInvalidArtifact
        else None)"

definition ValidateExperiment :: "Scenario \<Rightarrow> Configuration \<Rightarrow> artifact_error option" where
  "ValidateExperiment s c =
     (case validateConfiguration c True of
        Some err \<Rightarrow> Some err
      | None \<Rightarrow> validateScenario s (cfMembers c) RunSchema)"

end
