(* ===== verification/Explore.thy ===== *)
theory Explore
  imports Artifact
begin

text \<open>
  Bounded depth-first exploration (\<open>src/explore/explore.go\<close>): every choice prefix is run from a clean start,
  an open choice pushes one child per candidate selection, and a cache of canonical states prunes prefixes
  that reach a state explored before. A \<open>Runner\<close> is a deterministic program that asks the decider it is given
  and finally returns; a value of type \<open>program\<close> is such a runner as a tree of its questions. Integers of type
  \<open>int\<close> that the bounds keep small are HOL integers, and slices are lists with the top of the stack first.
\<close>

section \<open>Runs\<close>

text \<open>The error of a run wraps an error of the decider or is the runner's own.\<close>

datatype run_error = DeciderError dec_error | RunnerError string

datatype program =
    Return Outcome "bytes option" "run_error option"
  | Ask Choice "dec_error + Selection \<Rightarrow> program"

type_synonym run_result = "Outcome \<times> bytes option \<times> run_error option"

primrec runProgram :: "'s chooser \<Rightarrow> program \<Rightarrow> 's \<Rightarrow> ('s \<times> run_result) option" where
  "runProgram pick (Return oc canon err) s = Some (s, oc, canon, err)"
| "runProgram pick (Ask c k) s =
     (case pick s c of None \<Rightarrow> None | Some (s', answer) \<Rightarrow> runProgram pick (k answer) s')"

section \<open>Bounds and results\<close>

datatype explore_error =
    ErrInvalidBounds | ErrInvalidCacheBounds | ErrMissingCanonicalState | ErrInvalidOutcomeStatus
  | ErrDecision dec_error | ErrRun run_error

record CacheBounds =
  cbMaxEntries :: int
  cbMaxBytes :: int

record Bounds =
  bdMaxRuns :: int
  bdMaxDepth :: int
  bdMaxBranchesPerChoice :: int
  bdRangeSamples :: int
  bdFallbackSeed :: u64
  bdStopOnViolation :: bool
  bdTargetFingerprint :: string

record Execution =
  exTape :: Tape
  exOutcome :: Outcome

record Result =
  reRuns :: int
  reOpenChoices :: int
  reCompleted :: int
  reCompletedRuns :: int
  reErrorRuns :: int
  reBudgetExhaustedRuns :: int
  rePrunedPrefixes :: int
  reDepthBoundHits :: int
  reSampledDomains :: int
  reOutcomeViolationRuns :: int
  reViolatingRuns :: int
  reStatePruned :: int
  reCacheLookups :: int
  reCacheHits :: int
  reCacheMisses :: int
  reHashCollisions :: int
  reUniqueStates :: int
  reCacheBytes :: int
  reCacheBudgetSkips :: int
  reTruncated :: bool
  reFirstViolation :: "Execution option"

definition zeroResult :: Result where
  "zeroResult = \<lparr>reRuns = 0, reOpenChoices = 0, reCompleted = 0, reCompletedRuns = 0, reErrorRuns = 0,
     reBudgetExhaustedRuns = 0, rePrunedPrefixes = 0, reDepthBoundHits = 0, reSampledDomains = 0,
     reOutcomeViolationRuns = 0, reViolatingRuns = 0, reStatePruned = 0, reCacheLookups = 0, reCacheHits = 0,
     reCacheMisses = 0, reHashCollisions = 0, reUniqueStates = 0, reCacheBytes = 0, reCacheBudgetSkips = 0,
     reTruncated = False, reFirstViolation = None\<rparr>"

definition validBounds :: "Bounds \<Rightarrow> bool" where
  "validBounds b \<longleftrightarrow> bdMaxRuns b > 0 \<and> bdMaxRuns b \<le> 100000 \<and> bdMaxDepth b \<ge> 0 \<and> bdMaxDepth b \<le> 64
     \<and> bdMaxBranchesPerChoice b > 0 \<and> bdMaxBranchesPerChoice b \<le> 64 \<and> bdRangeSamples b > 0 \<and> bdRangeSamples b \<le> 3"

section \<open>The state cache\<close>

record stateCache =
  scBuckets :: "(bytes \<times> bytes list) list"
  scBounds :: CacheBounds
  scLookups :: int
  scHits :: int
  scMisses :: int
  scCollisions :: int
  scEntries :: int
  scBytes :: int
  scBudgetSkips :: int

definition newStateCache :: "CacheBounds \<Rightarrow> stateCache" where
  "newStateCache cb = \<lparr>scBuckets = [], scBounds = cb, scLookups = 0, scHits = 0, scMisses = 0, scCollisions = 0,
     scEntries = 0, scBytes = 0, scBudgetSkips = 0\<rparr>"

text \<open>The scan of a bucket: collisions counted, and whether the state was found.\<close>

fun scanBucket :: "bytes \<Rightarrow> bytes list \<Rightarrow> int \<Rightarrow> int \<times> bool" where
  "scanBucket canonical [] n = (n, False)"
| "scanBucket canonical (b # bs) n = (if b \<noteq> canonical then scanBucket canonical bs (n + 1) else (n, True))"

definition seenState :: "(bytes \<Rightarrow> bytes) \<Rightarrow> bytes \<Rightarrow> stateCache \<Rightarrow> stateCache \<times> bool" where
  "seenState hash canonical c0 =
     (let c = c0\<lparr>scLookups := scLookups c0 + 1\<rparr>;
          digest = hash canonical;
          bucket = (case map_of (scBuckets c) digest of None \<Rightarrow> [] | Some b \<Rightarrow> b);
          (n, found) = scanBucket canonical bucket (scCollisions c);
          c1 = c\<lparr>scCollisions := n\<rparr>
      in if found then (c1\<lparr>scHits := scHits c1 + 1\<rparr>, True)
         else
           let c2 = c1\<lparr>scMisses := scMisses c1 + 1\<rparr> in
           if scEntries c2 \<ge> cbMaxEntries (scBounds c2)
              \<or> int (length canonical) > cbMaxBytes (scBounds c2) - scBytes c2
           then (c2\<lparr>scBudgetSkips := scBudgetSkips c2 + 1\<rparr>, False)
           else (c2\<lparr>scBuckets := AList.update digest (bucket @ [canonical]) (scBuckets c2),
                    scEntries := scEntries c2 + 1, scBytes := scBytes c2 + int (length canonical)\<rparr>, False))"

definition appendField :: "bytes \<Rightarrow> bytes \<Rightarrow> bytes" where
  "appendField destination value = destination @ be64 (length value) @ value"

definition cacheIdentity :: "bytes \<Rightarrow> Choice \<Rightarrow> int \<Rightarrow> dec_error + bytes" where
  "cacheIdentity canonical c remainingDepth =
     (case CanonicalDomain c of
        Inl e \<Rightarrow> Inl e
      | Inr dm \<Rightarrow> (case CanonicalContext c of
           Inl e \<Rightarrow> Inl e
         | Inr ctx \<Rightarrow>
             Inr (appendField (appendField (appendField (appendField (appendField (appendField []
               (ascii ''d-raft.explore-cache/v1'')) canonical) (ascii (chID c))) (ascii (chKind c))) dm) ctx
               @ be64 (nat remainingDepth))))"

section \<open>Candidates and outcomes\<close>

definition candidates :: "Choice \<Rightarrow> Bounds \<Rightarrow> dec_error + (Selection list \<times> bool)" where
  "candidates c b =
     (case ValidateChoice c of
        Some e \<Rightarrow> Inl e
      | None \<Rightarrow>
          if chOptions c \<noteq> [] then
            let limit = min (int (length (chOptions c))) (bdMaxBranchesPerChoice b)
            in Inr (map (optionSelection \<circ> oID) (take (nat limit) (chOptions c)), limit < int (length (chOptions c)))
          else
            let lo = the (chMin c); hi = the (chMax c);
                span = hi - lo + 1;
                samples = min (bdRangeSamples b) (bdMaxBranchesPerChoice b)
            in if span \<le> samples then Inr (map numberSelection [lo..hi], False)
               else Inr (map numberSelection ([lo] @ (if samples \<ge> 3 then [lo + (hi - lo) div 2] else [])
                      @ (if samples \<ge> 2 then [hi] else [])), True))"

definition outcomeMatches :: "Outcome \<Rightarrow> string \<Rightarrow> bool" where
  "outcomeMatches oc target = list_ex (\<lambda>v. target = [] \<or> vFingerprint v = target) (ocViolations oc)"

definition recordOutcomeStatus :: "Outcome \<Rightarrow> Result \<Rightarrow> Result \<times> explore_error option" where
  "recordOutcomeStatus oc r =
     (if ocStatus oc = OutcomeCompleted then (r\<lparr>reCompletedRuns := reCompletedRuns r + 1\<rparr>, None)
      else if ocStatus oc = OutcomeViolation then (r\<lparr>reOutcomeViolationRuns := reOutcomeViolationRuns r + 1\<rparr>, None)
      else if ocStatus oc = OutcomeError then (r\<lparr>reErrorRuns := reErrorRuns r + 1\<rparr>, None)
      else if ocStatus oc = OutcomeBudgetExhausted then (r\<lparr>reBudgetExhaustedRuns := reBudgetExhaustedRuns r + 1\<rparr>, None)
      else (r, Some ErrInvalidOutcomeStatus))"

section \<open>One prefix\<close>

text \<open>What an iteration of the loop does next: go on with a stack and a cache, or return.\<close>

datatype verdict = Continue Result "Tape list" "stateCache option" | Stop Result "explore_error option" "stateCache option"

text \<open>A completed run: its status, and a violation that matches the target.\<close>

definition settle :: "Bounds \<Rightarrow> Tape list \<Rightarrow> stateCache option \<Rightarrow> Execution \<Rightarrow> Result \<Rightarrow> verdict" where
  "settle b stack cache e r =
     (let r1 = r\<lparr>reCompleted := reCompleted r + 1\<rparr> in
      case recordOutcomeStatus (exOutcome e) r1 of
        (r2, Some err) \<Rightarrow> Stop r2 (Some err) cache
      | (r2, None) \<Rightarrow>
          if outcomeMatches (exOutcome e) (bdTargetFingerprint b) then
            let r3 = r2\<lparr>reViolatingRuns := reViolatingRuns r2 + 1,
                        reFirstViolation := (case reFirstViolation r2 of None \<Rightarrow> Some e | Some x \<Rightarrow> Some x)\<rparr>
            in if bdStopOnViolation b then Stop (r3\<lparr>reTruncated := (stack \<noteq> [])\<rparr>) None cache
               else Continue r3 stack cache
          else Continue r2 stack cache)"

text \<open>\<open>complete\<close>: the prefix, then seeded choices. The flag tells that the prefix was not consumed.\<close>

definition completeRun ::
    "(bytes \<Rightarrow> bytes) \<Rightarrow> program \<Rightarrow> Tape \<Rightarrow> u64 \<Rightarrow> (explore_error + (Execution option)) option" where
  "completeRun sha p tape seed =
     (case NewPrefixThenDecider sha tape (Some (NewSeedDecider seed)) of
        Inl e \<Rightarrow> Some (Inl (ErrDecision e))
      | Inr combined \<Rightarrow>
          (case runProgram (recorderChoose sha (prefixThenChoose sha seedChoose)) p (NewRecorder (Some combined)) of
             None \<Rightarrow> None
           | Some (rec, oc, _, Some err) \<Rightarrow> Some (Inl (ErrRun err))
           | Some (rec, oc, _, None) \<Rightarrow>
               (case prefixThenFinish (the (recBase rec)) of
                  Some ErrTapeNotConsumed \<Rightarrow> Some (Inr None)
                | Some e \<Rightarrow> Some (Inl (ErrDecision e))
                | None \<Rightarrow> (case recErr rec of
                     Some e \<Rightarrow> Some (Inl (ErrDecision e))
                   | None \<Rightarrow> Some (Inr (Some \<lparr>exTape = recorderTape rec, exOutcome = oc\<rparr>))))))"

text \<open>The children of a prefix, pushed last selection first.\<close>

fun pushChildren :: "(bytes \<Rightarrow> bytes) \<Rightarrow> Choice \<Rightarrow> Tape \<Rightarrow> Selection list \<Rightarrow> Tape list \<Rightarrow> dec_error + Tape list" where
  "pushChildren sha c prefix [] stack = Inr stack"
| "pushChildren sha c prefix (s # rest) stack =
     (case newEntry sha c s of
        Inl e \<Rightarrow> Inl e
      | Inr entry \<Rightarrow> pushChildren sha c prefix rest (prefix\<lparr>tpEntries := tpEntries prefix @ [entry]\<rparr> # stack))"

definition expand ::
    "(bytes \<Rightarrow> bytes) \<Rightarrow> Bounds \<Rightarrow> Tape \<Rightarrow> Choice \<Rightarrow> Tape list \<Rightarrow> stateCache option \<Rightarrow> Result \<Rightarrow> verdict" where
  "expand sha b prefix c stack cache r =
     (case candidates c b of
        Inl e \<Rightarrow> Stop r (Some (ErrDecision e)) cache
      | Inr (selections, sampled) \<Rightarrow>
          let r1 = (if sampled then r\<lparr>reSampledDomains := reSampledDomains r + 1\<rparr> else r) in
          (case pushChildren sha c prefix (rev selections) stack of
             Inl e \<Rightarrow> Stop r1 (Some (ErrDecision e)) cache
           | Inr stack' \<Rightarrow> Continue r1 stack' cache))"

text \<open>An open choice: consult the cache, then expand.\<close>

definition openChoice ::
    "(bytes \<Rightarrow> bytes) \<Rightarrow> Bounds \<Rightarrow> Tape \<Rightarrow> Choice \<Rightarrow> bytes option \<Rightarrow> Tape list \<Rightarrow> stateCache option \<Rightarrow> Result \<Rightarrow> verdict" where
  "openChoice sha b prefix c canonical stack cache r =
     (case cache of
        None \<Rightarrow> expand sha b prefix c stack cache r
      | Some sc \<Rightarrow>
          (case canonical of
             None \<Rightarrow> Stop r (Some ErrMissingCanonicalState) cache
           | Some bs \<Rightarrow>
               (case cacheIdentity bs c (bdMaxDepth b - int (length (tpEntries prefix))) of
                  Inl e \<Rightarrow> Stop r (Some (ErrDecision e)) cache
                | Inr identity \<Rightarrow>
                    (case seenState sha identity sc of
                       (sc', True) \<Rightarrow> Continue (r\<lparr>reStatePruned := reStatePruned r + 1\<rparr>) stack (Some sc')
                     | (sc', False) \<Rightarrow> expand sha b prefix c stack (Some sc') r))))"

definition explorePrefix ::
    "(bytes \<Rightarrow> bytes) \<Rightarrow> program \<Rightarrow> Bounds \<Rightarrow> Tape \<Rightarrow> Tape list \<Rightarrow> stateCache option \<Rightarrow> Result \<Rightarrow> verdict option" where
  "explorePrefix sha p b prefix stack cache r =
     (if int (length (tpEntries prefix)) \<ge> bdMaxDepth b then
        let r1 = r\<lparr>reDepthBoundHits := reDepthBoundHits r + 1\<rparr> in
        (case completeRun sha p prefix (bdFallbackSeed b) of
           None \<Rightarrow> None
         | Some done \<Rightarrow>
             let r2 = r1\<lparr>reRuns := reRuns r1 + 1\<rparr> in
             Some (case done of
                Inl err \<Rightarrow> Stop r2 (Some err) cache
              | Inr None \<Rightarrow> Continue (r2\<lparr>rePrunedPrefixes := rePrunedPrefixes r2 + 1\<rparr>) stack cache
              | Inr (Some e) \<Rightarrow> settle b stack cache e r2))
      else
        (case NewPrefixDecider sha prefix of
           Inl err \<Rightarrow> Some (Stop r (Some (ErrDecision err)) cache)
         | Inr d0 \<Rightarrow>
             (case runProgram (prefixChoose sha) p d0 of
                None \<Rightarrow> None
              | Some (d, oc, canonical, runErr) \<Rightarrow>
                  let r1 = r\<lparr>reRuns := reRuns r + 1\<rparr> in
                  Some (case runErr of
                     Some (DeciderError (OpenChoice _ c)) \<Rightarrow>
                       (case prefixFinish d of
                          Some e \<Rightarrow> Stop r1 (Some (ErrDecision e)) cache
                        | None \<Rightarrow> openChoice sha b prefix c canonical stack cache (r1\<lparr>reOpenChoices := reOpenChoices r1 + 1\<rparr>))
                   | Some err \<Rightarrow> Stop r1 (Some (ErrRun err)) cache
                   | None \<Rightarrow>
                       (case prefixFinish d of
                          Some ErrTapeNotConsumed \<Rightarrow> Continue (r1\<lparr>rePrunedPrefixes := rePrunedPrefixes r1 + 1\<rparr>) stack cache
                        | Some e \<Rightarrow> Stop r1 (Some (ErrDecision e)) cache
                        | None \<Rightarrow> settle b stack cache \<lparr>exTape = prefix, exOutcome = oc\<rparr> r1)))))"

section \<open>The loop\<close>

lemma recordOutcomeStatus_runs: "recordOutcomeStatus oc r = (r', err) \<Longrightarrow> reRuns r' = reRuns r"
  by (auto simp: recordOutcomeStatus_def split: if_splits)

lemma settle_runs: "settle b stack cache e r = Continue r' stack' cache' \<Longrightarrow> reRuns r' = reRuns r"
  by (auto simp: settle_def Let_def dest!: recordOutcomeStatus_runs split: prod.splits option.splits if_splits)

lemma expand_runs: "expand sha b prefix c stack cache r = Continue r' stack' cache' \<Longrightarrow> reRuns r' = reRuns r"
  by (auto simp: expand_def Let_def split: sum.splits prod.splits)

lemma openChoice_runs: "openChoice sha b prefix c canonical stack cache r = Continue r' stack' cache' \<Longrightarrow> reRuns r' = reRuns r"
  by (auto simp: openChoice_def dest: expand_runs split: option.splits sum.splits prod.splits bool.splits)

lemma explorePrefix_runs:
  "explorePrefix sha p b prefix stack cache r = Some (Continue r' stack' cache') \<Longrightarrow> reRuns r' = reRuns r + 1"
  by (auto simp: explorePrefix_def Let_def dest!: settle_runs openChoice_runs
      split: if_splits option.splits sum.splits prod.splits run_error.splits dec_error.splits)

function dfsLoop ::
    "(bytes \<Rightarrow> bytes) \<Rightarrow> program \<Rightarrow> Bounds \<Rightarrow> Tape list \<Rightarrow> stateCache option \<Rightarrow> Result
       \<Rightarrow> (Result \<times> explore_error option \<times> stateCache option) option" where
  "dfsLoop sha p b [] cache r = Some (r\<lparr>reTruncated := False\<rparr>, None, cache)"
| "dfsLoop sha p b (prefix # stack) cache r =
     (if reRuns r < bdMaxRuns b then
        (case explorePrefix sha p b prefix stack cache r of
           None \<Rightarrow> None
         | Some (Stop r' err cache') \<Rightarrow> Some (r', err, cache')
         | Some (Continue r' stack' cache') \<Rightarrow> dfsLoop sha p b stack' cache' r')
      else Some (r\<lparr>reTruncated := True\<rparr>, None, cache))"
  by pat_completeness auto
termination
  by (relation "measure (\<lambda>(sha, p, b, stack, cache, r). nat (bdMaxRuns b - reRuns r))")
    (auto dest: explorePrefix_runs)

declare dfsLoop.simps [simp del]

text \<open>The deferred function copies the cache's counters into whatever result is returned.\<close>

definition cacheStatistics :: "stateCache option \<Rightarrow> Result \<Rightarrow> Result" where
  "cacheStatistics cache r =
     (case cache of
        None \<Rightarrow> r
      | Some c \<Rightarrow> r\<lparr>reCacheLookups := scLookups c, reCacheHits := scHits c, reCacheMisses := scMisses c,
          reHashCollisions := scCollisions c, reUniqueStates := scEntries c, reCacheBytes := scBytes c,
          reCacheBudgetSkips := scBudgetSkips c\<rparr>)"

definition dfs ::
    "(bytes \<Rightarrow> bytes) \<Rightarrow> program \<Rightarrow> Bounds \<Rightarrow> stateCache option \<Rightarrow> (Result \<times> explore_error option) option" where
  "dfs sha p b cache =
     map_option (\<lambda>(r, err, cache'). (cacheStatistics cache' r, err))
       (dfsLoop sha p b [\<lparr>tpSchema = DecisionSchema, tpEntries = []\<rparr>] cache zeroResult)"

text \<open>A nil runner is \<open>None\<close>. \<open>DFS\<close> drops the canonical state of the run.\<close>

primrec dropCanonical :: "program \<Rightarrow> program" where
  "dropCanonical (Return oc canon err) = Return oc None err"
| "dropCanonical (Ask c k) = Ask c (\<lambda>answer. dropCanonical (k answer))"

definition DFS :: "(bytes \<Rightarrow> bytes) \<Rightarrow> program option \<Rightarrow> Bounds \<Rightarrow> (Result \<times> explore_error option) option" where
  "DFS sha run b =
     (case run of
        None \<Rightarrow> Some (zeroResult, Some ErrInvalidBounds)
      | Some p \<Rightarrow> if \<not> validBounds b then Some (zeroResult, Some ErrInvalidBounds) else dfs sha (dropCanonical p) b None)"

definition DFSWithCache ::
    "(bytes \<Rightarrow> bytes) \<Rightarrow> program option \<Rightarrow> Bounds \<Rightarrow> CacheBounds \<Rightarrow> (Result \<times> explore_error option) option" where
  "DFSWithCache sha run b cb =
     (case run of
        None \<Rightarrow> Some (zeroResult, Some ErrInvalidBounds)
      | Some p \<Rightarrow>
          if \<not> validBounds b then Some (zeroResult, Some ErrInvalidBounds)
          else if cbMaxEntries cb \<le> 0 \<or> cbMaxBytes cb \<le> 0 then Some (zeroResult, Some ErrInvalidCacheBounds)
          else dfs sha p b (Some (newStateCache cb)))"

end
