(* ===== verification/ExploreRuns.thy ===== *)
theory ExploreRuns
  imports Explore DecisionProps
begin

text \<open>
  What a single run of the explorer does: a prefix that records valid selections leads the program to the
  point it records, where the run ends, opens a choice or is completed with seeded choices.
\<close>

section \<open>Points of a program\<close>

text \<open>\<open>reach sha p es q\<close>: answered with the selections of the entries \<open>es\<close>, the program \<open>p\<close> continues as \<open>q\<close>.\<close>

inductive reach :: "(bytes \<Rightarrow> bytes) \<Rightarrow> program \<Rightarrow> TapeEntry list \<Rightarrow> program \<Rightarrow> bool" for sha p where
  here: "reach sha p [] p"
| answer: "reach sha p es (Ask c k) \<Longrightarrow> newEntry sha c s = Inr e \<Longrightarrow> reach sha p (es @ [e]) (k (Inr s))"

lemma reach_stored: "reach sha p es q \<Longrightarrow> list_all (entryStored sha) es"
  by (induction rule: reach.induct) (auto dest: newEntry_stored)

lemma tapeChoose_recorded:
  assumes "tpEntries (tdTape d) ! tdIndex d = e" and "tdIndex d < length (tpEntries (tdTape d))" and "newEntry sha c s = Inr e"
  shows "tapeChoose sha d c = Some (d\<lparr>tdIndex := Suc (tdIndex d)\<rparr>, Inr s)"
  using assms by (auto simp: tapeChoose_def newEntry_Inr canonicalChoice_def)

text \<open>A decider that answers the first entries of a tape from the tape, for runs of any program.\<close>

lemma run_along:
  assumes "reach sha p es q" and "\<And>c s e es1. newEntry sha c s = Inr e \<Longrightarrow> (\<exists>rest. es1 @ e # rest = full) \<Longrightarrow>
      pick (st (length es1)) c = Some (st (Suc (length es1)), Inr s)"
    and "\<exists>rest. es @ rest = full"
  shows "runProgram pick p (st 0) = runProgram pick q (st (length es))"
  using assms(1,3)
proof (induction rule: reach.induct)
  case (answer es c k s e)
  then obtain rest where "es @ e # rest = full"
    by auto
  then show ?case
    using answer assms(2) [of c s e es] by auto
qed simp

definition tapeOf :: "TapeEntry list \<Rightarrow> Tape" where
  "tapeOf es = \<lparr>tpSchema = DecisionSchema, tpEntries = es\<rparr>"

lemma tapeOf_entries [simp]: "tpEntries (tapeOf es) = es" "tpSchema (tapeOf es) = DecisionSchema"
  by (simp_all add: tapeOf_def)

definition replayAt :: "TapeEntry list \<Rightarrow> nat \<Rightarrow> TapeDecider" where
  "replayAt es i = \<lparr>tdTape = tapeOf es, tdIndex = i, tdIncludeOperationIDs = False\<rparr>"

definition prefixAt :: "TapeEntry list \<Rightarrow> nat \<Rightarrow> PrefixDecider" where
  "prefixAt es i = \<lparr>pdReplay = replayAt es i, pdLength = length es\<rparr>"

lemma newPrefix:
  assumes "reach sha p es q"
  shows "NewPrefixDecider sha (tapeOf es) = Inr (prefixAt es 0)"
  using reach_stored [OF assms] by (simp add: NewPrefixDecider_def newTapeDecider_def prefixAt_def replayAt_def)

lemma prefix_run:
  assumes "reach sha p es q"
  shows "runProgram (prefixChoose sha) p (prefixAt es 0) = runProgram (prefixChoose sha) q (prefixAt es (length es))"
proof (rule run_along [OF assms, where full = es and st = "prefixAt es"])
  fix c s e es1
  assume new: "newEntry sha c s = Inr e" and "\<exists>rest. es1 @ e # rest = es"
  then obtain rest where es: "es = es1 @ e # rest"
    by auto
  then have "tapeChoose sha (replayAt es (length es1)) c = Some (replayAt es (Suc (length es1)), Inr s)"
    using tapeChoose_recorded [of "replayAt es (length es1)" e sha c s] new by (simp add: replayAt_def)
  then show "prefixChoose sha (prefixAt es (length es1)) c = Some (prefixAt es (Suc (length es1)), Inr s)"
    using es by (simp add: prefixChoose_def prefixAt_def) (simp add: replayAt_def)
qed simp

lemma prefix_finished [simp]: "prefixFinish (prefixAt es (length es)) = None"
  by (simp add: prefixFinish_def tapeFinish_def prefixAt_def replayAt_def)

lemma prefix_opens:
  assumes "ValidateChoice c = None"
  shows "prefixChoose sha (prefixAt es (length es)) c = Some (prefixAt es (length es), Inl (OpenChoice (length es) c))"
  using assms by (simp add: prefixChoose_def prefixAt_def replayAt_def)

text \<open>The recorder over a prefix and a seeded decider, after \<open>i\<close> answers from the prefix.\<close>

definition recordedAt :: "u64 \<Rightarrow> TapeEntry list \<Rightarrow> nat \<Rightarrow> Rand PrefixThenDecider Recorder" where
  "recordedAt seed es i = \<lparr>recBase = Some \<lparr>ptReplay = replayAt es i, ptLength = length es, ptFallback = NewSeedDecider seed\<rparr>,
     recEntries = take i es, recErr = None\<rparr>"

lemma complete_run:
  assumes "reach sha p es (Return oc canon None)"
  shows "completeRun sha p (tapeOf es) seed = Some (Inr (Some \<lparr>exTape = tapeOf es, exOutcome = oc\<rparr>))"
proof -
  let ?pick = "recorderChoose sha (prefixThenChoose sha seedChoose)"
  have "runProgram ?pick p (recordedAt seed es 0) = runProgram ?pick (Return oc canon None) (recordedAt seed es (length es))"
  proof (rule run_along [OF assms, where full = es and st = "recordedAt seed es"])
    fix c s e es1
    assume new: "newEntry sha c s = Inr e" and "\<exists>rest. es1 @ e # rest = es"
    then obtain rest where es: "es = es1 @ e # rest"
      by auto
    then have "tapeChoose sha (replayAt es (length es1)) c = Some (replayAt es (Suc (length es1)), Inr s)"
      using tapeChoose_recorded [of "replayAt es (length es1)" e sha c s] new by (simp add: replayAt_def)
    then show "?pick (recordedAt seed es (length es1)) c = Some (recordedAt seed es (Suc (length es1)), Inr s)"
      using es new by (simp add: recorderChoose_def prefixThenChoose_def recordedAt_def) (simp add: replayAt_def)
  qed simp
  moreover have "NewPrefixThenDecider sha (tapeOf es) (Some (NewSeedDecider seed)) =
      Inr \<lparr>ptReplay = replayAt es 0, ptLength = length es, ptFallback = NewSeedDecider seed\<rparr>"
    using reach_stored [OF assms] by (simp add: NewPrefixThenDecider_def newTapeDecider_def replayAt_def)
  ultimately show ?thesis
    by (simp add: completeRun_def NewRecorder_def recordedAt_def prefixThenFinish_def tapeFinish_def recorderTape_def tapeOf_def)
      (simp add: replayAt_def tapeOf_def)
qed

end
