(* ===== verification/ExploreProps.thy ===== *)
theory ExploreProps
  imports ExploreRuns
begin

text \<open>
  The properties of the explorer: it returns within its bounds with consistent counters, and an exploration
  that was neither truncated nor sampled missed no violation, with or without the state cache.
\<close>

section \<open>What a program can do\<close>

text \<open>\<open>yields q n oc\<close>: with \<open>n\<close> valid selections the program completes with the outcome \<open>oc\<close>.\<close>

inductive yields :: "program \<Rightarrow> nat \<Rightarrow> Outcome \<Rightarrow> bool" where
  returns: "yields (Return oc canon None) 0 oc"
| asks: "ValidateSelection c s = None \<Longrightarrow> yields (k (Inr s)) n oc \<Longrightarrow> yields (Ask c k) (Suc n) oc"

inductive_cases yields_ReturnE: "yields (Return oc' canon err) n oc"
inductive_cases yields_AskE: "yields (Ask c k) n oc"

text \<open>
  The contract of a runner: it asks valid choices, gives up at the open-choice error and reports it, and
  reports no open choice on its own.
\<close>

definition obedient :: "(bytes \<Rightarrow> bytes) \<Rightarrow> program \<Rightarrow> bool" where
  "obedient sha p \<longleftrightarrow>
     (\<forall>es c k. reach sha p es (Ask c k) \<longrightarrow> ValidateChoice c = None \<and>
        (\<exists>oc canon. k (Inl (OpenChoice (length es) c)) = Return oc canon (Some (DeciderError (OpenChoice (length es) c)))))
     \<and> (\<forall>es oc canon i c. \<not> reach sha p es (Return oc canon (Some (DeciderError (OpenChoice i c)))))"

definition opensAt :: "(bytes \<Rightarrow> bytes) \<Rightarrow> program \<Rightarrow> TapeEntry list \<Rightarrow> Choice \<Rightarrow> program \<Rightarrow> bytes \<Rightarrow> bool" where
  "opensAt sha p es c q canon \<longleftrightarrow> reach sha p es q \<and>
     (\<exists>k oc err. q = Ask c k \<and> k (Inl (OpenChoice (length es) c)) = Return oc (Some canon) err)"

text \<open>Markov-complete canonical states: where the state is the same, the same completions lie ahead.\<close>

definition markov :: "(bytes \<Rightarrow> bytes) \<Rightarrow> program \<Rightarrow> bool" where
  "markov sha p \<longleftrightarrow> (\<forall>es c q canon es' c' q'. opensAt sha p es c q canon \<longrightarrow> opensAt sha p es' c' q' canon \<longrightarrow>
     length canon < 2 ^ 64 \<and> (\<forall>n oc. yields q n oc \<longleftrightarrow> yields q' n oc))"

lemma reach_unique: "reach sha p es q \<Longrightarrow> reach sha p es q' \<Longrightarrow> q = q'"
proof (induction arbitrary: q' rule: reach.induct)
  case here
  then show ?case
    by (auto elim: reach.cases)
next
  case (answer es c k s e)
  from answer.prems obtain c' k' s' where "reach sha p es (Ask c' k')" "newEntry sha c' s' = Inr e" "q' = k' (Inr s')"
    by (auto elim: reach.cases)
  then show ?case
    using answer.IH [of "Ask c' k'"] answer.hyps(2) by (auto simp: newEntry_Inr)
qed

lemma newEntry_selection: "ValidateChoice c = None \<Longrightarrow> ValidateSelection c s = None \<Longrightarrow> \<exists>e. newEntry sha c s = Inr e"
  by (auto intro: newEntry_valid simp: ValidateSelection_def)

section \<open>Candidates\<close>

lemma candidates_all:
  assumes "candidates c b = Inr (sels, False)" and "bdMaxBranchesPerChoice b > 0" and "bdRangeSamples b > 0"
  shows "ValidateChoice c = None" and "validateSelection c s = None \<Longrightarrow> s \<in> set sels"
proof -
  show v: "ValidateChoice c = None"
    using assms(1) by (auto simp: candidates_def split: option.splits)
  assume sel: "validateSelection c s = None"
  show "s \<in> set sels"
  proof (cases "chOptions c = []")
    case False
    then have "set sels = (optionSelection \<circ> oID) ` set (chOptions c)"
      using assms(1) v by (auto simp: candidates_def Let_def split: if_splits)
    moreover obtain opt where "opt \<in> set (chOptions c)" "selOption s = oID opt" "selNumber s = None"
      using sel False by (auto simp: validateSelection_def split: if_splits)
    ultimately show ?thesis
      by (auto simp: optionSelection_def image_iff intro!: bexI [of _ opt])
  next
    case True
    obtain lo hi where range: "chMin c = Some lo" "chMax c = Some hi"
      using valid_domain [OF v True] by metis
    then have "sels = map numberSelection [lo..hi]"
      using assms(1) v True by (auto simp: candidates_def Let_def split: if_splits)
    moreover obtain n where "selNumber s = Some n" "selOption s = []" "lo \<le> n" "n \<le> hi"
      using sel True range by (auto simp: validateSelection_def split: option.splits if_splits)
    ultimately show ?thesis
      by (auto simp: numberSelection_def image_iff intro!: bexI [of _ n])
  qed
qed

lemma pushChildren_exact:
  assumes "pushChildren sha c (tapeOf es) sels stack = Inr stack'"
  shows "set stack' = set stack \<union> {tapeOf (es @ [e]) | s e. s \<in> set sels \<and> newEntry sha c s = Inr e}"
    and "s \<in> set sels \<Longrightarrow> \<exists>e. newEntry sha c s = Inr e"
proof -
  have "set stack' = set stack \<union> {tapeOf (es @ [e]) | s e. s \<in> set sels \<and> newEntry sha c s = Inr e} \<and>
      (\<forall>s\<in>set sels. \<exists>e. newEntry sha c s = Inr e)"
    using assms
  proof (induction sels arbitrary: stack)
    case (Cons s sels)
    then obtain e where e: "newEntry sha c s = Inr e"
      and rest: "pushChildren sha c (tapeOf es) sels (tapeOf (es @ [e]) # stack) = Inr stack'"
      by (auto simp: tapeOf_def split: sum.splits)
    show ?case
      using Cons.IH [OF rest] e by auto
  qed simp
  then show "set stack' = set stack \<union> {tapeOf (es @ [e]) | s e. s \<in> set sels \<and> newEntry sha c s = Inr e}"
      "s \<in> set sels \<Longrightarrow> \<exists>e. newEntry sha c s = Inr e"
    by auto
qed

section \<open>The cache\<close>

definition stored :: "stateCache \<Rightarrow> bytes set" where
  "stored c = {x. \<exists>digest bucket. map_of (scBuckets c) digest = Some bucket \<and> x \<in> set bucket}"

lemma scanBucket_found: "snd (scanBucket x bs n) \<longleftrightarrow> x \<in> set bs"
  by (induction x bs n rule: scanBucket.induct) auto

lemma seenState_hit: "seenState h x c = (c', True) \<Longrightarrow> x \<in> stored c \<and> stored c' = stored c"
  using scanBucket_found [of x _ "scCollisions c"]
  by (auto simp: seenState_def Let_def stored_def split: prod.splits if_splits option.splits) (metis snd_conv)+

lemma seenState_miss: "seenState h x c = (c', False) \<Longrightarrow> stored c' \<subseteq> insert x (stored c)"
  by (auto simp: seenState_def Let_def stored_def update_conv' split: prod.splits if_splits option.splits) blast+

lemma field_inject:
  assumes "length a < 2 ^ 64" and "length a' < 2 ^ 64" and "appendField xs a @ ys = appendField xs a' @ ys'"
  shows "a = a'"
  using keyField_inject [of a a' ys ys'] assms by (simp add: appendField_def)

lemma cacheIdentity_fields:
  assumes "cacheIdentity canon c d = Inr x"
  obtains ys where "x = appendField (appendField [] (ascii ''d-raft.explore-cache/v1'')) canon @ ys @ be64 (nat d)"
  using assms by (auto simp: cacheIdentity_def appendField_def split: sum.splits)

lemma cacheIdentity_inject:
  assumes "cacheIdentity canon c d = Inr x" and "cacheIdentity canon' c' d' = Inr x"
    and "length canon < 2 ^ 64" and "length canon' < 2 ^ 64" and "nat d < 2 ^ 64" and "nat d' < 2 ^ 64"
  shows "canon = canon' \<and> nat d = nat d'"
proof -
  obtain ys ys' where x: "x = appendField (appendField [] (ascii ''d-raft.explore-cache/v1'')) canon @ ys @ be64 (nat d)"
      "x = appendField (appendField [] (ascii ''d-raft.explore-cache/v1'')) canon' @ ys' @ be64 (nat d')"
    using assms(1,2) cacheIdentity_fields by metis
  then have "canon = canon'"
    using field_inject [OF assms(3,4)] by metis
  moreover have "be64 (nat d) = be64 (nat d')"
    using arg_cong [OF x(1), of "\<lambda>z. drop (length z - 8) z"] arg_cong [OF x(2), of "\<lambda>z. drop (length z - 8) z"] by simp
  then have "nat d = nat d'"
    by (rule be64_inject [OF assms(5,6)])
  ultimately show ?thesis by simp
qed

section \<open>One iteration\<close>

definition depthOf :: "Bounds \<Rightarrow> nat" where
  "depthOf b = nat (bdMaxDepth b)"

text \<open>A completed run with the target violation, \<open>n\<close> choices below the prefix and within the depth.\<close>

definition threat :: "(bytes \<Rightarrow> bytes) \<Rightarrow> program \<Rightarrow> Bounds \<Rightarrow> Tape \<Rightarrow> nat \<Rightarrow> bool" where
  "threat sha p b t n \<longleftrightarrow> (\<exists>es q oc. t = tapeOf es \<and> reach sha p es q \<and> yields q n oc \<and>
     length es + n \<le> depthOf b \<and> outcomeMatches oc (bdTargetFingerprint b))"

definition itemOk :: "(bytes \<Rightarrow> bytes) \<Rightarrow> program \<Rightarrow> Bounds \<Rightarrow> Tape \<Rightarrow> bool" where
  "itemOk sha p b t \<longleftrightarrow> (\<exists>es q. t = tapeOf es \<and> reach sha p es q \<and> length es \<le> depthOf b)"

lemma tapeOf_inject [simp]: "tapeOf es = tapeOf es' \<longleftrightarrow> es = es'"
  by (metis tapeOf_entries(1))

lemma threat_at:
  assumes "reach sha p es q"
  shows "threat sha p b (tapeOf es) n \<longleftrightarrow>
     (\<exists>oc. yields q n oc \<and> length es + n \<le> depthOf b \<and> outcomeMatches oc (bdTargetFingerprint b))"
proof
  assume "threat sha p b (tapeOf es) n"
  then obtain q' oc where "reach sha p es q'" "yields q' n oc" "length es + n \<le> depthOf b"
      "outcomeMatches oc (bdTargetFingerprint b)"
    by (auto simp: threat_def)
  then show "\<exists>oc. yields q n oc \<and> length es + n \<le> depthOf b \<and> outcomeMatches oc (bdTargetFingerprint b)"
    using reach_unique [OF assms] by blast
qed (use assms in \<open>auto simp: threat_def\<close>)

lemma not_deep: "length es < depthOf b \<Longrightarrow> \<not> bdMaxDepth b \<le> int (length es)"
  by (simp add: depthOf_def)

lemma recordOutcomeStatus_keeps:
  "recordOutcomeStatus oc r = (r', err) \<Longrightarrow> reSampledDomains r' = reSampledDomains r \<and> reViolatingRuns r' = reViolatingRuns r"
  by (auto simp: recordOutcomeStatus_def split: if_splits)

lemma settle_effect:
  "settle b stack cache e r = Continue r' stack' cache' \<Longrightarrow> stack' = stack \<and> cache' = cache \<and>
     reSampledDomains r' = reSampledDomains r \<and>
     reViolatingRuns r' = reViolatingRuns r + (if outcomeMatches (exOutcome e) (bdTargetFingerprint b) then 1 else 0)"
  "settle b stack cache e r = Stop r' None cache' \<Longrightarrow> reSampledDomains r' = reSampledDomains r \<and>
     reViolatingRuns r' = reViolatingRuns r + 1"
  by (auto simp: settle_def Let_def dest!: recordOutcomeStatus_keeps split: prod.splits option.splits if_splits)

lemma expand_effect:
  assumes "expand sha b (tapeOf es) c stack cache r = Continue r' stack' cache'"
    and "bdMaxBranchesPerChoice b > 0" and "bdRangeSamples b > 0"
  shows "cache' = cache \<and> reViolatingRuns r' = reViolatingRuns r \<and> reSampledDomains r \<le> reSampledDomains r'"
    and "reSampledDomains r' = reSampledDomains r \<Longrightarrow> ValidateChoice c = None \<and>
      set stack' = set stack \<union> {tapeOf (es @ [e]) | s e. newEntry sha c s = Inr e}"
proof -
  obtain sels sampled where cand: "candidates c b = Inr (sels, sampled)"
    and push: "pushChildren sha c (tapeOf es) (rev sels) stack = Inr stack'"
    and r': "r' = (if sampled then r\<lparr>reSampledDomains := reSampledDomains r + 1\<rparr> else r)" "cache' = cache"
    using assms(1) by (auto simp: expand_def Let_def split: sum.splits prod.splits)
  show "cache' = cache \<and> reViolatingRuns r' = reViolatingRuns r \<and> reSampledDomains r \<le> reSampledDomains r'"
    using r' by simp
  assume "reSampledDomains r' = reSampledDomains r"
  then have cand: "candidates c b = Inr (sels, False)"
    using cand r' by (cases sampled) auto
  then show "ValidateChoice c = None \<and> set stack' = set stack \<union> {tapeOf (es @ [e]) | s e. newEntry sha c s = Inr e}"
    using candidates_all [OF cand assms(2,3)] pushChildren_exact(1) [OF push] by (auto simp: newEntry_Inr)
qed

lemma expand_no_stop: "expand sha b prefix c stack cache r \<noteq> Stop r' None cache'"
  by (auto simp: expand_def Let_def split: sum.splits prod.splits)

text \<open>The three ways on from a prefix: no threat left in it, pruned by the cache, or expanded.\<close>

definition cleared :: "(bytes \<Rightarrow> bytes) \<Rightarrow> program \<Rightarrow> Bounds \<Rightarrow> Tape \<Rightarrow> Tape list \<Rightarrow> Tape list \<Rightarrow> stateCache option \<Rightarrow> stateCache option \<Rightarrow> bool" where
  "cleared sha p b prefix stack stack' cache cache' \<longleftrightarrow>
     (\<forall>n. \<not> threat sha p b prefix n) \<and> stack' = stack \<and> cache' = cache"

definition identityAt :: "(bytes \<Rightarrow> bytes) \<Rightarrow> program \<Rightarrow> Bounds \<Rightarrow> TapeEntry list \<Rightarrow> bytes \<Rightarrow> bool" where
  "identityAt sha p b es x \<longleftrightarrow> (\<exists>c q canon. opensAt sha p es c q canon \<and>
     cacheIdentity canon c (bdMaxDepth b - int (length es)) = Inr x \<and> length es < depthOf b)"

definition pruned :: "(bytes \<Rightarrow> bytes) \<Rightarrow> program \<Rightarrow> Bounds \<Rightarrow> Tape \<Rightarrow> Tape list \<Rightarrow> Tape list \<Rightarrow> stateCache option \<Rightarrow> stateCache option \<Rightarrow> bool" where
  "pruned sha p b prefix stack stack' cache cache' \<longleftrightarrow> stack' = stack \<and>
     (\<exists>es x sc sc'. prefix = tapeOf es \<and> identityAt sha p b es x \<and> cache = Some sc \<and> cache' = Some sc' \<and>
        x \<in> stored sc \<and> stored sc' = stored sc)"

definition expanded :: "(bytes \<Rightarrow> bytes) \<Rightarrow> program \<Rightarrow> Bounds \<Rightarrow> Tape \<Rightarrow> Tape list \<Rightarrow> Tape list \<Rightarrow> stateCache option \<Rightarrow> stateCache option \<Rightarrow> bool" where
  "expanded sha p b prefix stack stack' cache cache' \<longleftrightarrow>
     (\<exists>es c k. prefix = tapeOf es \<and> reach sha p es (Ask c k) \<and> ValidateChoice c = None \<and> length es < depthOf b \<and>
        set stack' = set stack \<union> {tapeOf (es @ [e]) | s e. newEntry sha c s = Inr e} \<and>
        (cache = None \<and> cache' = None \<or>
         (\<exists>x sc sc'. identityAt sha p b es x \<and> cache = Some sc \<and> cache' = Some sc' \<and> stored sc' \<subseteq> insert x (stored sc))))"

lemma explore_open:
  assumes ok: "obedient sha p" and at: "reach sha p es (Ask c k)" and deep: "length es < depthOf b"
  shows "\<exists>oc canon. k (Inl (OpenChoice (length es) c)) = Return oc canon (Some (DeciderError (OpenChoice (length es) c))) \<and>
    explorePrefix sha p b (tapeOf es) stack cache r = Some (openChoice sha b (tapeOf es) c canon stack cache
       (r\<lparr>reRuns := reRuns r + 1, reOpenChoices := reOpenChoices r + 1\<rparr>))"
proof -
  obtain oc canon where k: "k (Inl (OpenChoice (length es) c)) = Return oc canon (Some (DeciderError (OpenChoice (length es) c)))"
    and v: "ValidateChoice c = None"
    using ok at unfolding obedient_def by blast
  have "runProgram (prefixChoose sha) p (prefixAt es 0) =
      Some (prefixAt es (length es), oc, canon, Some (DeciderError (OpenChoice (length es) c)))"
    unfolding prefix_run [OF at] by (simp add: prefix_opens [OF v] k)
  then show ?thesis
    using k not_deep [OF deep] newPrefix [OF at] by (simp add: explorePrefix_def Let_def)
qed

lemma explore_return:
  assumes at: "reach sha p es (Return oc canon err)" and deep: "length es < depthOf b"
  shows "explorePrefix sha p b (tapeOf es) stack cache r = Some (case err of
      Some (DeciderError (OpenChoice i c)) \<Rightarrow> openChoice sha b (tapeOf es) c canon stack cache
        (r\<lparr>reRuns := reRuns r + 1, reOpenChoices := reOpenChoices r + 1\<rparr>)
    | Some e \<Rightarrow> Stop (r\<lparr>reRuns := reRuns r + 1\<rparr>) (Some (ErrRun e)) cache
    | None \<Rightarrow> settle b stack cache \<lparr>exTape = tapeOf es, exOutcome = oc\<rparr> (r\<lparr>reRuns := reRuns r + 1\<rparr>))"
  using prefix_run [OF at] newPrefix [OF at] not_deep [OF deep]
  by (auto simp: explorePrefix_def Let_def split: option.splits run_error.splits dec_error.splits)

text \<open>Counters never go back.\<close>

definition ahead :: "Result \<Rightarrow> Result \<Rightarrow> bool" where
  "ahead r r' \<longleftrightarrow> reSampledDomains r \<le> reSampledDomains r' \<and> reViolatingRuns r \<le> reViolatingRuns r'"

lemma settle_ahead: "settle b stack cache e r = Continue r' stack' cache' \<Longrightarrow> ahead r r'"
    "settle b stack cache e r = Stop r' None cache' \<Longrightarrow> ahead r r' \<and> reViolatingRuns r < reViolatingRuns r'"
  using settle_effect by (fastforce simp: ahead_def)+

lemma openChoice_ahead:
  "openChoice sha b prefix c canonical stack cache r = Continue r' stack' cache' \<Longrightarrow> ahead r r'"
  "openChoice sha b prefix c canonical stack cache r \<noteq> Stop r' None cache'"
  using expand_no_stop
  by (auto simp: openChoice_def expand_def ahead_def Let_def split: option.splits sum.splits prod.splits bool.splits)

lemma explorePrefix_ahead:
  "explorePrefix sha p b prefix stack cache r = Some (Continue r' stack' cache') \<Longrightarrow> ahead r r'"
  "explorePrefix sha p b prefix stack cache r = Some (Stop r' None cache') \<Longrightarrow>
     ahead r r' \<and> reViolatingRuns r < reViolatingRuns r'"
  using openChoice_ahead(2)
  by (auto simp: explorePrefix_def Let_def ahead_def dest!: settle_ahead openChoice_ahead(1)
      split: if_splits option.splits sum.splits prod.splits run_error.splits dec_error.splits)

lemma dfsLoop_ahead: "dfsLoop sha p b stack cache r = Some (res, None, cache') \<Longrightarrow> ahead r res"
proof (induction sha p b stack cache r rule: dfsLoop.induct)
  case (2 sha p b prefix stack cache r)
  show ?case
  proof (cases "reRuns r < bdMaxRuns b")
    case True
    note step = 2(2) [unfolded dfsLoop.simps(2) [of sha p b prefix] if_P [OF True]]
    show ?thesis
    proof (cases "explorePrefix sha p b prefix stack cache r")
      case (Some v)
      show ?thesis
      proof (cases v)
        case (Continue r1 stack1 cache1)
        then show ?thesis
          using explorePrefix_ahead(1) [OF Some [unfolded Continue]] 2(1) [OF True Some Continue] step Some
          by (auto simp: ahead_def)
      next
        case (Stop r1 err cache1)
        then show ?thesis
          using step Some explorePrefix_ahead(2) [of sha p b prefix stack cache r r1 cache1] by auto
      qed
    qed (use step in simp)
  next
    case False
    then show ?thesis
      using 2(2) by (auto simp: dfsLoop.simps ahead_def)
  qed
qed (auto simp: dfsLoop.simps ahead_def)

lemma explore_deep:
  assumes "\<not> length es < depthOf b" and "0 \<le> bdMaxDepth b"
    and "explorePrefix sha p b (tapeOf es) stack cache r = Some (Continue r' stack' cache')"
  shows "stack' = stack \<and> cache' = cache"
  using assms settle_effect(1) [of b stack cache _ _ r' stack' cache']
  by (auto simp: explorePrefix_def depthOf_def Let_def split: if_splits option.splits sum.splits)

lemma explore_step:
  assumes ok: "obedient sha p" and item: "itemOk sha p b prefix" and bounds: "validBounds b"
    and step: "explorePrefix sha p b prefix stack cache r = Some (Continue r' stack' cache')"
    and same: "reSampledDomains r' = reSampledDomains r" "reViolatingRuns r' = reViolatingRuns r"
  shows "cleared sha p b prefix stack stack' cache cache' \<or> pruned sha p b prefix stack stack' cache cache'
    \<or> expanded sha p b prefix stack stack' cache cache'"
proof -
  obtain es q where es: "prefix = tapeOf es" "reach sha p es q" "length es \<le> depthOf b"
    using item by (auto simp: itemOk_def)
  have b: "bdMaxBranchesPerChoice b > 0" "bdRangeSamples b > 0" "0 \<le> bdMaxDepth b"
    using bounds by (simp_all add: validBounds_def)
  show ?thesis
  proof (cases q)
    case (Return oc canon err)
    note at = es(2) [unfolded Return]
    show ?thesis
    proof (cases "length es < depthOf b")
      case deep: True
      have verdict: "err = None \<and> settle b stack cache \<lparr>exTape = tapeOf es, exOutcome = oc\<rparr> (r\<lparr>reRuns := reRuns r + 1\<rparr>) = Continue r' stack' cache'"
        using step es(1) explore_return [OF at deep, of stack cache r] ok at
        by (auto simp: obedient_def split: option.splits run_error.splits dec_error.splits)
      then have "\<not> outcomeMatches oc (bdTargetFingerprint b)" "stack' = stack" "cache' = cache"
        using settle_effect(1) same(2) by (fastforce split: if_splits)+
      then show ?thesis
        by (auto simp: cleared_def es(1) threat_at [OF at] elim: yields_ReturnE)
    next
      case False
      then have deep: "length es = depthOf b"
        using es(3) by simp
      have run: "completeRun sha p (tapeOf es) (bdFallbackSeed b) = Some (Inr (Some \<lparr>exTape = tapeOf es, exOutcome = oc\<rparr>))" if "err = None"
        using complete_run at that by blast
      have "\<not> outcomeMatches oc (bdTargetFingerprint b)" if "err = None"
      proof -
        have "settle b stack cache \<lparr>exTape = tapeOf es, exOutcome = oc\<rparr>
            (r\<lparr>reDepthBoundHits := reDepthBoundHits r + 1, reRuns := reRuns r + 1\<rparr>) = Continue r' stack' cache'"
          using step es(1) run [OF that] deep b(3) by (auto simp: explorePrefix_def depthOf_def Let_def split: if_splits)
        then show ?thesis
          using settle_effect(1) same(2) by (fastforce split: if_splits)
      qed
      then show ?thesis
        using explore_deep [OF False b(3)] step es(1)
        by (auto simp: cleared_def threat_at [OF at] elim: yields_ReturnE)
    qed
  next
    case (Ask c k)
    note at = es(2) [unfolded Ask]
    show ?thesis
    proof (cases "length es < depthOf b")
      case False
      then have "\<not> threat sha p b prefix n" for n
        using es(3) by (auto simp: es(1) threat_at [OF at] elim: yields_AskE)
      then show ?thesis
        using explore_deep [OF False b(3)] step es(1) by (simp add: cleared_def)
    next
      case deep: True
      let ?r = "r\<lparr>reRuns := reRuns r + 1, reOpenChoices := reOpenChoices r + 1\<rparr>"
      obtain oc canon where k: "k (Inl (OpenChoice (length es) c)) = Return oc canon (Some (DeciderError (OpenChoice (length es) c)))"
        and out: "openChoice sha b (tapeOf es) c canon stack cache ?r = Continue r' stack' cache'"
        using explore_open [OF ok at deep, of stack cache r] step es(1) by auto
      show ?thesis
      proof (cases cache)
        case None
        then have "expand sha b (tapeOf es) c stack cache ?r = Continue r' stack' cache'"
          using out by (simp add: openChoice_def)
        then show ?thesis
          using expand_effect [OF _ b(1,2)] same(1) at deep None es(1) unfolding expanded_def by fastforce
      next
        case (Some sc)
        then obtain bs x sc' hit where x: "canon = Some bs" "cacheIdentity bs c (bdMaxDepth b - int (length es)) = Inr x"
            "seenState sha x sc = (sc', hit)"
          using out by (auto simp: openChoice_def split: option.splits sum.splits prod.splits)
        then have id: "identityAt sha p b es x"
          using at k deep unfolding identityAt_def opensAt_def by blast
        show ?thesis
        proof (cases hit)
          case True
          then have "stack' = stack" "cache' = Some sc'"
            using out x Some by (auto simp: openChoice_def)
          then show ?thesis
            using seenState_hit [OF x(3) [unfolded True [THEN eqTrueI]]] id Some es(1) True x(3) by (auto simp: pruned_def)
        next
          case False
          then have miss: "seenState sha x sc = (sc', False)"
            using x(3) by simp
          then have "expand sha b (tapeOf es) c stack (Some sc') ?r = Continue r' stack' cache'"
            using out x Some by (simp add: openChoice_def)
          from expand_effect(1) [OF this b(1,2)] expand_effect(2) [OF this b(1,2)]
          have "cache' = Some sc'" "ValidateChoice c = None"
              "set stack' = set stack \<union> {tapeOf (es @ [e]) | s e. newEntry sha c s = Inr e}"
            using same(1) by simp_all
          then show ?thesis
            using seenState_miss [OF miss] id Some es(1) at deep unfolding expanded_def by fastforce
        qed
      qed
    qed
  qed
qed

section \<open>Nothing is missed\<close>

text \<open>What the cache stands for: the threats of a stored state lie strictly closer below some prefix of the stack.\<close>

definition seenInv :: "(bytes \<Rightarrow> bytes) \<Rightarrow> program \<Rightarrow> Bounds \<Rightarrow> stateCache option \<Rightarrow> Tape list \<Rightarrow> bool" where
  "seenInv sha p b cache stack \<longleftrightarrow> (\<forall>sc x. cache = Some sc \<longrightarrow> x \<in> stored sc \<longrightarrow> (\<exists>es. identityAt sha p b es x \<and>
     (\<forall>n. threat sha p b (tapeOf es) n \<longrightarrow> (\<exists>t\<in>set stack. \<exists>m<n. threat sha p b t m))))"

lemma identity_threats:
  assumes "markov sha p" and "validBounds b" and "identityAt sha p b es x" and "identityAt sha p b es' x"
  shows "threat sha p b (tapeOf es) n \<longleftrightarrow> threat sha p b (tapeOf es') n"
proof -
  obtain c q canon c' q' canon' where at: "opensAt sha p es c q canon" "opensAt sha p es' c' q' canon'"
    and x: "cacheIdentity canon c (bdMaxDepth b - int (length es)) = Inr x"
      "cacheIdentity canon' c' (bdMaxDepth b - int (length es')) = Inr x"
    and deep: "length es < depthOf b" "length es' < depthOf b"
    using assms(3,4) by (auto simp: identityAt_def)
  have fits: "length canon < 2 ^ 64" "length canon' < 2 ^ 64"
    using assms(1) at unfolding markov_def by blast+
  have "nat (bdMaxDepth b - int (length es)) < 2 ^ 64" "nat (bdMaxDepth b - int (length es')) < 2 ^ 64"
    using assms(2) by (auto simp: validBounds_def)
  from cacheIdentity_inject [OF x fits this]
  have same: "canon = canon'" "length es = length es'"
    using deep by (auto simp: depthOf_def)
  have r: "reach sha p es q" "reach sha p es' q'"
    using at by (auto simp: opensAt_def)
  have "yields q n oc \<longleftrightarrow> yields q' n oc" for oc
    using assms(1) at same(1) unfolding markov_def by blast
  then show ?thesis
    using same(2) by (simp add: threat_at [OF r(1)] threat_at [OF r(2)])
qed

lemma seenInv_drop:
  assumes inv: "seenInv sha p b cache (t0 # stack)"
    and gone: "\<And>n. threat sha p b t0 n \<Longrightarrow> \<exists>t\<in>set stack. \<exists>m\<le>n. threat sha p b t m"
  shows "seenInv sha p b cache stack"
  unfolding seenInv_def
proof (intro allI impI)
  fix sc x assume "cache = Some sc" "x \<in> stored sc"
  then obtain es where es: "identityAt sha p b es x"
    and th: "\<And>n. threat sha p b (tapeOf es) n \<Longrightarrow> \<exists>t\<in>set (t0 # stack). \<exists>m<n. threat sha p b t m"
    using inv unfolding seenInv_def by blast
  have "\<exists>t\<in>set stack. \<exists>m<n. threat sha p b t m" if threat: "threat sha p b (tapeOf es) n" for n
  proof -
    obtain t m where t: "t \<in> set (t0 # stack)" "m < n" "threat sha p b t m"
      using th [OF threat] by blast
    show ?thesis
    proof (cases "t = t0")
      case True
      then obtain t' m' where "t' \<in> set stack" "m' \<le> m" "threat sha p b t' m'"
        using gone t(3) by blast
      then show ?thesis
        using t(2) by (meson le_less_trans)
    qed (use t in auto)
  qed
  then show "\<exists>es. identityAt sha p b es x \<and> (\<forall>n. threat sha p b (tapeOf es) n \<longrightarrow> (\<exists>t\<in>set stack. \<exists>m<n. threat sha p b t m))"
    using es by blast
qed

text \<open>A pruned prefix loses nothing: its least threat appears strictly closer below another prefix.\<close>

lemma pruned_threats:
  assumes "markov sha p" and "validBounds b" and inv: "seenInv sha p b (Some sc) (tapeOf es # stack)"
    and x: "identityAt sha p b es x" "x \<in> stored sc" and threat: "threat sha p b (tapeOf es) n"
  shows "\<exists>t\<in>set stack. \<exists>m\<le>n. threat sha p b t m"
proof -
  define n0 where "n0 = (LEAST n. threat sha p b (tapeOf es) n)"
  have n0: "threat sha p b (tapeOf es) n0" "n0 \<le> n"
    unfolding n0_def using threat by (auto intro: LeastI Least_le)
  obtain es' where es': "identityAt sha p b es' x"
    and th: "\<And>n. threat sha p b (tapeOf es') n \<Longrightarrow> \<exists>t\<in>set (tapeOf es # stack). \<exists>m<n. threat sha p b t m"
    using inv x(2) unfolding seenInv_def by blast
  obtain t m where t: "t \<in> set (tapeOf es # stack)" "m < n0" "threat sha p b t m"
    using th n0(1) identity_threats [OF assms(1,2) x(1) es'] by blast
  then have "t \<noteq> tapeOf es"
    using not_less_Least [of m "threat sha p b (tapeOf es)"] by (auto simp: n0_def)
  then show ?thesis
    using t n0(2) by (intro bexI [of _ t] exI [of _ m]) auto
qed

text \<open>Expanding a prefix moves each of its threats one choice closer.\<close>

lemma expanded_threats:
  assumes at: "reach sha p es (Ask c k)" and valid: "ValidateChoice c = None"
    and st: "set stack' = set stack \<union> {tapeOf (es @ [e]) | s e. newEntry sha c s = Inr e}"
    and threat: "threat sha p b (tapeOf es) n"
  shows "\<exists>t\<in>set stack'. \<exists>m<n. threat sha p b t m"
proof -
  obtain oc where oc: "yields (Ask c k) n oc" "length es + n \<le> depthOf b" "outcomeMatches oc (bdTargetFingerprint b)"
    using threat threat_at [OF at] by blast
  obtain s m where s: "ValidateSelection c s = None" "yields (k (Inr s)) m oc" "n = Suc m"
    using oc(1) by (auto elim: yields_AskE)
  obtain e where e: "newEntry sha c s = Inr e"
    using newEntry_selection [OF valid s(1)] by blast
  have "threat sha p b (tapeOf (es @ [e])) m"
    unfolding threat_at [OF reach.answer [OF at e]] using oc s by auto
  then show ?thesis
    using st e s(3) by blast
qed

lemma expanded_items:
  assumes "expanded sha p b prefix stack stack' cache cache'" and "\<forall>t\<in>set stack. itemOk sha p b t"
  shows "\<forall>t\<in>set stack'. itemOk sha p b t"
  using assms reach.answer unfolding expanded_def itemOk_def by fastforce

lemma loop_misses_nothing:
  assumes "obedient sha p" and "validBounds b" and "cache \<noteq> None \<Longrightarrow> markov sha p"
    and "dfsLoop sha p b stack cache r = Some (res, None, cache1)" and "\<not> reTruncated res"
    and "reSampledDomains res = 0" and "reViolatingRuns res = 0" and "0 \<le> reSampledDomains r" and "0 \<le> reViolatingRuns r"
    and "\<forall>t\<in>set stack. itemOk sha p b t" and "seenInv sha p b cache stack"
  shows "\<forall>t\<in>set stack. \<forall>n. \<not> threat sha p b t n"
  using assms
proof (induction sha p b stack cache r rule: dfsLoop.induct)
  case (2 sha p b prefix stack cache r)
  note prems = 2(2-12)
  have run: "reRuns r < bdMaxRuns b"
    using prems(4,5) by (auto simp: dfsLoop.simps split: if_splits)
  note loop = prems(4) [unfolded dfsLoop.simps(2) [of sha p b prefix] if_P [OF run]]
  show ?case
  proof (cases "explorePrefix sha p b prefix stack cache r")
    case None
    then show ?thesis
      using loop by simp
  next
    case (Some v)
    show ?thesis
    proof (cases v)
      case (Stop r1 err cache2)
      then show ?thesis
        using loop Some explorePrefix_ahead(2) [of sha p b prefix stack cache r r1 cache2] prems(7,9) by auto
    next
      case (Continue r1 stack1 cache2)
      note step = Some [unfolded Continue]
      have rest: "dfsLoop sha p b stack1 cache2 r1 = Some (res, None, cache1)"
        using loop Some Continue by simp
      have "ahead r r1" "ahead r1 res"
        using explorePrefix_ahead(1) [OF step] dfsLoop_ahead [OF rest] by auto
      then have same: "reSampledDomains r1 = reSampledDomains r" "reViolatingRuns r1 = reViolatingRuns r"
          "0 \<le> reSampledDomains r1" "0 \<le> reViolatingRuns r1"
        using prems(6-9) by (auto simp: ahead_def)
      have item: "itemOk sha p b prefix" "\<forall>t\<in>set stack. itemOk sha p b t"
        using prems(10) by auto
      note IH = 2(1) [OF run Some Continue prems(1,2) _ rest prems(5-7) same(3,4)]
      from explore_step [OF prems(1) item(1) prems(2) step same(1,2)] show ?thesis
      proof (elim disjE)
        assume c: "cleared sha p b prefix stack stack1 cache cache2"
        then have "seenInv sha p b cache stack"
          by (intro seenInv_drop [OF prems(11)]) (auto simp: cleared_def)
        then show ?thesis
          using c IH prems(3) item(2) by (auto simp: cleared_def)
      next
        assume pr: "pruned sha p b prefix stack stack1 cache cache2"
        then obtain es x sc sc' where x: "prefix = tapeOf es" "identityAt sha p b es x" "cache = Some sc" "cache2 = Some sc'"
            "x \<in> stored sc" "stored sc' = stored sc" "stack1 = stack"
          by (auto simp: pruned_def)
        have m: "markov sha p"
          using prems(3) x(3) by simp
        have gone: "threat sha p b prefix n \<Longrightarrow> \<exists>t\<in>set stack. \<exists>m\<le>n. threat sha p b t m" for n
          using pruned_threats [OF m prems(2) _ x(2,5)] prems(11) x(1,3) by blast
        have "seenInv sha p b cache2 stack"
          using seenInv_drop [OF prems(11) gone] x(3,4,6) by (simp add: seenInv_def)
        then have "\<forall>t\<in>set stack. \<forall>n. \<not> threat sha p b t n"
          using IH m item(2) x(7) by blast
        then show ?thesis
          using gone by auto
      next
        assume e: "expanded sha p b prefix stack stack1 cache cache2"
        then obtain es c k where es: "prefix = tapeOf es" "reach sha p es (Ask c k)" "ValidateChoice c = None"
            "set stack1 = set stack \<union> {tapeOf (es @ [e]) | s e. newEntry sha c s = Inr e}"
          by (auto simp: expanded_def)
        note closer = expanded_threats [OF es(2-4)]
        have "seenInv sha p b cache (prefix # stack1)"
          using prems(11) es(4) unfolding seenInv_def by fastforce
        then have old: "seenInv sha p b cache stack1"
          by (rule seenInv_drop) (use closer es(1) in \<open>meson less_imp_le\<close>)
        have "seenInv sha p b cache2 stack1"
          using e old closer unfolding expanded_def seenInv_def es(1) tapeOf_inject by (elim exE conjE disjE) blast+
        moreover have "cache2 \<noteq> None \<Longrightarrow> markov sha p"
          using e prems(3) by (auto simp: expanded_def)
        ultimately have clear: "\<forall>t\<in>set stack1. \<forall>n. \<not> threat sha p b t n"
          using IH expanded_items [OF e item(2)] by blast
        then have "\<not> threat sha p b prefix n" for n
          using closer es(1) by blast
        then show ?thesis
          using clear es(4) by auto
      qed
    qed
  qed
qed simp

end
