(* ===== verification/ExploreCounts.thy ===== *)
theory ExploreCounts
  imports ExploreProps
begin

text \<open>Every run of the explorer returns, the loop stays within its bounds and its counters add up.\<close>

section \<open>Runs always return\<close>

text \<open>Every choice that the program can ask has bounds that fit \<open>int64\<close>.\<close>

primrec intProgram :: "program \<Rightarrow> bool" where
  "intProgram (Return oc canon err) = True"
| "intProgram (Ask c k) = (wfChoice c \<and> (\<forall>a. intProgram (k a)))"

lemma runProgram_total:
  assumes "\<And>s c. wfChoice c \<Longrightarrow> pick s c \<noteq> None" and "intProgram p"
  shows "runProgram pick p s \<noteq> None"
  using assms(2)
proof (induction p arbitrary: s)
  case (Ask c k)
  then obtain s' a where "pick s c = Some (s', a)"
    using assms(1) [of c s] by auto
  then show ?case
    using Ask by auto
qed simp

lemma tapeChoose_total: "tapeChoose sha d c \<noteq> None"
  by (auto simp: tapeChoose_def Let_def split: sum.splits option.splits)

lemma prefixChoose_total: "prefixChoose sha d c \<noteq> None"
  using tapeChoose_total [of sha "pdReplay d" c] by (auto simp: prefixChoose_def split: option.splits)

lemma seedChoose_total:
  assumes "wfChoice c"
  shows "seedChoose r c \<noteq> None"
proof (cases "ValidateChoice c")
  case None
  show ?thesis
  proof (cases "chOptions c = []")
    case True
    then show ?thesis
      using seed_range [OF None True assms, of r] by auto
  next
    case False
    show ?thesis
    proof (cases "totalWeight 0 (chOptions c)")
      case w: None
      then show ?thesis
        using None False by (simp add: seedChoose_def)
    next
      case (Some t)
      then show ?thesis
        using seed_options [OF None False Some, of r] by auto
    qed
  qed
qed (simp add: seedChoose_def)

lemma completeChoose_total:
  assumes "wfChoice c"
  shows "recorderChoose sha (prefixThenChoose sha seedChoose) r c \<noteq> None"
proof -
  have "prefixThenChoose sha seedChoose d c \<noteq> None" for d
    using tapeChoose_total [of sha "ptReplay d" c] seedChoose_total [OF assms, of "ptFallback d"]
    by (auto simp: prefixThenChoose_def)
  from this [of "the (recBase r)"] show ?thesis
    by (cases "recErr r"; cases "recBase r") (auto simp: recorderChoose_def split: option.splits sum.splits)
qed

lemma explorePrefix_total:
  assumes "intProgram p"
  shows "explorePrefix sha p b prefix stack cache r \<noteq> None"
proof -
  have run: "runProgram (recorderChoose sha (prefixThenChoose sha seedChoose)) p s \<noteq> None" for s
    using completeChoose_total by (rule runProgram_total [OF _ assms])
  have "completeRun sha p prefix (bdFallbackSeed b) \<noteq> None"
  proof (cases "NewPrefixThenDecider sha prefix (Some (NewSeedDecider (bdFallbackSeed b)))")
    case (Inr combined)
    then show ?thesis
      using run [of "NewRecorder (Some combined)"]
      by (auto simp: completeRun_def split: option.splits dec_error.splits)
  qed (simp add: completeRun_def)
  moreover have "runProgram (prefixChoose sha) p (projr (NewPrefixDecider sha prefix)) \<noteq> None"
    by (rule runProgram_total [OF prefixChoose_total assms])
  ultimately show ?thesis
    by (auto simp: explorePrefix_def Let_def split: option.splits sum.splits)
qed

lemma dfsLoop_total: "intProgram p \<Longrightarrow> dfsLoop sha p b stack cache r \<noteq> None"
proof (induction sha p b stack cache r rule: dfsLoop.induct)
  case (2 sha p b prefix stack cache r)
  obtain v where v: "explorePrefix sha p b prefix stack cache r = Some v"
    using explorePrefix_total [OF 2(2), of sha b prefix stack cache r] by auto
  show ?case
  proof (cases v)
    case (Continue r1 stack1 cache1)
    then show ?thesis
      using 2(1) [OF _ v Continue 2(2)] v by (simp add: dfsLoop.simps)
  qed (simp add: dfsLoop.simps v)
qed (simp add: dfsLoop.simps)

section \<open>Counters\<close>

definition statuses :: "Result \<Rightarrow> int" where
  "statuses r = reCompletedRuns r + reOutcomeViolationRuns r + reErrorRuns r + reBudgetExhaustedRuns r"

text \<open>Every run but the last \<open>k\<close> has been accounted for.\<close>

definition balanced :: "int \<Rightarrow> Result \<Rightarrow> bool" where
  "balanced k r \<longleftrightarrow> reRuns r = reOpenChoices r + reCompleted r + rePrunedPrefixes r + k \<and> reCompleted r = statuses r
     \<and> 0 \<le> reViolatingRuns r \<and> reViolatingRuns r \<le> reCompleted r \<and> 0 \<le> reStatePruned r \<and> reStatePruned r \<le> reOpenChoices r"

definition cacheOk :: "stateCache option \<Rightarrow> Result \<Rightarrow> bool" where
  "cacheOk cache r \<longleftrightarrow> (\<forall>c. cache = Some c \<longrightarrow> scLookups c = reOpenChoices r \<and> scHits c = reStatePruned r
     \<and> scLookups c = scHits c + scMisses c \<and> scEntries c \<le> cbMaxEntries (scBounds c) \<and> scBytes c \<le> cbMaxBytes (scBounds c))"

lemma seenState_counts:
  assumes seen: "seenState h x c = (c', hit)" and ok: "cacheOk (Some c) r"
    and r': "r' = r\<lparr>reOpenChoices := reOpenChoices r + 1, reStatePruned := reStatePruned r + (if hit then 1 else 0)\<rparr>"
  shows "cacheOk (Some c') r'"
proof -
  obtain n found where scan: "scanBucket x (case map_of (scBuckets c) (h x) of None \<Rightarrow> [] | Some b \<Rightarrow> b) (scCollisions c) = (n, found)"
    by fastforce
  show ?thesis
  proof (cases found)
    case True
    then have "c' = c\<lparr>scLookups := scLookups c + 1, scCollisions := n, scHits := scHits c + 1\<rparr>" "hit"
      using seen scan by (simp_all add: seenState_def Let_def)
    then show ?thesis
      using ok r' by (simp add: cacheOk_def)
  next
    case False
    show ?thesis
    proof (cases "scEntries c \<ge> cbMaxEntries (scBounds c) \<or> int (length x) > cbMaxBytes (scBounds c) - scBytes c")
      case True
      then have "c' = c\<lparr>scLookups := scLookups c + 1, scCollisions := n, scMisses := scMisses c + 1,
          scBudgetSkips := scBudgetSkips c + 1\<rparr>" "\<not> hit"
        using seen scan False by (simp_all add: seenState_def Let_def)
      then show ?thesis
        using ok r' by (simp add: cacheOk_def)
    next
      case room: False
      then have "scEntries c' = scEntries c + 1" "scBytes c' = scBytes c + int (length x)" "scLookups c' = scLookups c + 1"
          "scMisses c' = scMisses c + 1" "scHits c' = scHits c" "scBounds c' = scBounds c" "\<not> hit"
        using seen scan False by (auto simp add: seenState_def Let_def)
      then show ?thesis
        using ok r' room by (simp add: cacheOk_def)
    qed
  qed
qed

lemma recordOutcomeStatus_counts:
  "recordOutcomeStatus oc r = (r', None) \<Longrightarrow> statuses r' = statuses r + 1 \<and> reRuns r' = reRuns r \<and> reOpenChoices r' = reOpenChoices r
     \<and> reCompleted r' = reCompleted r \<and> rePrunedPrefixes r' = rePrunedPrefixes r \<and> reViolatingRuns r' = reViolatingRuns r
     \<and> reStatePruned r' = reStatePruned r"
  by (auto simp: recordOutcomeStatus_def statuses_def split: if_splits)

lemma settle_counts:
  assumes "balanced 1 r" and "cacheOk cache r"
  shows "settle b stack cache e r = Continue r' stack' cache' \<Longrightarrow> balanced 0 r' \<and> cacheOk cache' r'"
    and "settle b stack cache e r = Stop r' None cache' \<Longrightarrow> balanced 0 r' \<and> cacheOk cache' r'"
proof -
  obtain r2 err where rec: "recordOutcomeStatus (exOutcome e) (r\<lparr>reCompleted := reCompleted r + 1\<rparr>) = (r2, err)"
    by fastforce
  have fin: "balanced 0 r2 \<and> reViolatingRuns r2 < reCompleted r2 \<and> cacheOk cache r2" if "err = None"
    using recordOutcomeStatus_counts [OF rec [unfolded that]] assms by (auto simp: balanced_def cacheOk_def statuses_def)
  show "settle b stack cache e r = Continue r' stack' cache' \<Longrightarrow> balanced 0 r' \<and> cacheOk cache' r'"
      "settle b stack cache e r = Stop r' None cache' \<Longrightarrow> balanced 0 r' \<and> cacheOk cache' r'"
    using fin rec by (auto simp: settle_def Let_def balanced_def cacheOk_def statuses_def split: option.splits if_splits)
qed

lemma expand_counts:
  "balanced k r \<Longrightarrow> cacheOk cache r \<Longrightarrow> expand sha b prefix c stack cache r = Continue r' stack' cache' \<Longrightarrow>
     balanced k r' \<and> cacheOk cache' r'"
  by (auto simp: expand_def Let_def balanced_def cacheOk_def statuses_def split: sum.splits prod.splits)

lemma openChoice_counts:
  assumes r: "balanced 1 r" "cacheOk cache r"
    and out: "openChoice sha b prefix c canonical stack cache (r\<lparr>reOpenChoices := reOpenChoices r + 1\<rparr>) = Continue r' stack' cache'"
  shows "balanced 0 r' \<and> cacheOk cache' r'"
proof -
  let ?r = "r\<lparr>reOpenChoices := reOpenChoices r + 1\<rparr>"
  have bal: "balanced 0 ?r"
    using r(1) by (simp add: balanced_def statuses_def)
  show ?thesis
  proof (cases cache)
    case None
    then have "expand sha b prefix c stack cache ?r = Continue r' stack' cache'" "cacheOk cache ?r"
      using out by (simp_all add: openChoice_def cacheOk_def)
    then show ?thesis
      using expand_counts [OF bal] by blast
  next
    case (Some sc)
    then obtain x sc' hit where seen: "seenState sha x sc = (sc', hit)"
      and rest: "(if hit then Continue (?r\<lparr>reStatePruned := reStatePruned ?r + 1\<rparr>) stack (Some sc')
        else expand sha b prefix c stack (Some sc') ?r) = Continue r' stack' cache'"
      using out by (auto simp: openChoice_def split: option.splits sum.splits prod.splits bool.splits)
    note cok = seenState_counts [OF seen r(2) [unfolded Some] refl]
    show ?thesis
    proof (cases hit)
      case True
      then show ?thesis
        using rest cok r(1) by (auto simp: balanced_def statuses_def)
    next
      case False
      then have "expand sha b prefix c stack (Some sc') ?r = Continue r' stack' cache'" "cacheOk (Some sc') ?r"
        using rest cok by simp_all
      then show ?thesis
        using expand_counts [OF bal] by blast
    qed
  qed
qed

lemma explorePrefix_counts:
  assumes r: "balanced 0 r" "cacheOk cache r"
  shows "explorePrefix sha p b prefix stack cache r = Some (Continue r' stack' cache') \<Longrightarrow> balanced 0 r' \<and> cacheOk cache' r'"
    and "explorePrefix sha p b prefix stack cache r = Some (Stop r' None cache') \<Longrightarrow> balanced 0 r' \<and> cacheOk cache' r'"
proof -
  have one: "balanced 1 (r\<lparr>reRuns := reRuns r + 1\<rparr>)" "cacheOk cache (r\<lparr>reRuns := reRuns r + 1\<rparr>)"
      "balanced 1 (r\<lparr>reDepthBoundHits := n, reRuns := reRuns r + 1\<rparr>)" "cacheOk cache (r\<lparr>reDepthBoundHits := n, reRuns := reRuns r + 1\<rparr>)"
      "balanced 0 (r\<lparr>reRuns := reRuns r + 1, rePrunedPrefixes := rePrunedPrefixes r + 1\<rparr>)"
      "cacheOk cache (r\<lparr>reRuns := reRuns r + 1, rePrunedPrefixes := rePrunedPrefixes r + 1\<rparr>)"
      "balanced 0 (r\<lparr>reDepthBoundHits := n, reRuns := reRuns r + 1, rePrunedPrefixes := rePrunedPrefixes r + 1\<rparr>)"
      "cacheOk cache (r\<lparr>reDepthBoundHits := n, reRuns := reRuns r + 1, rePrunedPrefixes := rePrunedPrefixes r + 1\<rparr>)" for n
    using r by (auto simp: balanced_def cacheOk_def statuses_def)
  have opened: "openChoice sha b prefix c canonical stack cache (r\<lparr>reRuns := reRuns r + 1, reOpenChoices := reOpenChoices r + 1\<rparr>)
      = Continue r' stack' cache' \<Longrightarrow> balanced 0 r' \<and> cacheOk cache' r'" for c canonical
    using openChoice_counts [OF one(1,2), of sha b prefix c canonical stack r' stack' cache'] by simp
  show "explorePrefix sha p b prefix stack cache r = Some (Continue r' stack' cache') \<Longrightarrow> balanced 0 r' \<and> cacheOk cache' r'"
    using one opened settle_counts(1) [OF one(1,2)] settle_counts(1) [OF one(3,4)]
    by (auto simp: explorePrefix_def Let_def
        split: if_splits option.splits sum.splits prod.splits run_error.splits dec_error.splits)
  show "explorePrefix sha p b prefix stack cache r = Some (Stop r' None cache') \<Longrightarrow> balanced 0 r' \<and> cacheOk cache' r'"
    using openChoice_ahead(2) settle_counts(2) [OF one(1,2)] settle_counts(2) [OF one(3,4)]
    by (auto simp: explorePrefix_def Let_def
        split: if_splits option.splits sum.splits prod.splits run_error.splits dec_error.splits)
qed

lemma settle_runs_stop: "settle b stack cache e r = Stop r' err cache' \<Longrightarrow> reRuns r' = reRuns r"
  by (auto simp: settle_def Let_def dest!: recordOutcomeStatus_runs split: prod.splits option.splits if_splits)

lemma openChoice_runs_stop: "openChoice sha b prefix c canonical stack cache r = Stop r' err cache' \<Longrightarrow> reRuns r' = reRuns r"
  by (auto simp: openChoice_def expand_def Let_def split: option.splits sum.splits prod.splits bool.splits)

lemma explorePrefix_runs_stop:
  "explorePrefix sha p b prefix stack cache r = Some (Stop r' err cache') \<Longrightarrow> reRuns r' \<le> reRuns r + 1"
  by (auto simp: explorePrefix_def Let_def dest!: settle_runs_stop openChoice_runs_stop
      split: if_splits option.splits sum.splits prod.splits run_error.splits dec_error.splits)

lemma dfsLoop_runs:
  "dfsLoop sha p b stack cache r = Some (res, err, cache') \<Longrightarrow> reRuns r \<le> bdMaxRuns b \<Longrightarrow> reRuns res \<le> bdMaxRuns b"
proof (induction sha p b stack cache r rule: dfsLoop.induct)
  case (2 sha p b prefix stack cache r)
  show ?case
  proof (cases "reRuns r < bdMaxRuns b")
    case True
    note step = 2(2) [unfolded dfsLoop.simps(2) [of sha p b prefix] if_P [OF True]]
    show ?thesis
    proof (cases "explorePrefix sha p b prefix stack cache r")
      case (Some v)
      show ?thesis
      proof (cases v)
        case (Continue r1 stack1 cache1)
        then show ?thesis
          using explorePrefix_runs [OF Some [unfolded Continue]] 2(1) [OF True Some Continue] step Some True by auto
      next
        case (Stop r1 err cache1)
        then show ?thesis
          using step Some explorePrefix_runs_stop [OF Some [unfolded Stop]] True by auto
      qed
    qed (use step in simp)
  qed (use 2(2,3) in \<open>auto simp: dfsLoop.simps\<close>)
qed (auto simp: dfsLoop.simps)

lemma dfsLoop_counts:
  "dfsLoop sha p b stack cache r = Some (res, None, cache') \<Longrightarrow> balanced 0 r \<Longrightarrow> cacheOk cache r \<Longrightarrow>
     balanced 0 res \<and> cacheOk cache' res"
proof (induction sha p b stack cache r rule: dfsLoop.induct)
  case (2 sha p b prefix stack cache r)
  show ?case
  proof (cases "reRuns r < bdMaxRuns b")
    case True
    note step = 2(2) [unfolded dfsLoop.simps(2) [of sha p b prefix] if_P [OF True]]
    show ?thesis
    proof (cases "explorePrefix sha p b prefix stack cache r")
      case (Some v)
      show ?thesis
      proof (cases v)
        case (Continue r1 stack1 cache1)
        then show ?thesis
          using explorePrefix_counts(1) [OF 2(3,4) Some [unfolded Continue]] 2(1) [OF True Some Continue] step Some by auto
      next
        case (Stop r1 err cache1)
        then show ?thesis
          using step Some explorePrefix_counts(2) [OF 2(3,4), of sha p b prefix stack r1 cache1] by auto
      qed
    qed (use step in simp)
  qed (use 2(2-4) in \<open>auto simp: dfsLoop.simps balanced_def cacheOk_def statuses_def\<close>)
qed (auto simp: dfsLoop.simps balanced_def cacheOk_def statuses_def)

end
