(* ===== verification/ExploreTheorems.thy ===== *)
theory ExploreTheorems
  imports ExploreCounts
begin

text \<open>The two properties of the explorer, with a concrete exploration as their witness.\<close>

section \<open>Without canonical states\<close>

lemma reach_drop: "reach sha p es q \<Longrightarrow> reach sha (dropCanonical p) es (dropCanonical q)"
proof (induction rule: reach.induct)
  case (answer es c k s e)
  then show ?case
    using reach.answer [of sha "dropCanonical p" es c "\<lambda>a. dropCanonical (k a)" s e] by simp
qed (rule reach.here)

lemma reach_dropped: "reach sha (dropCanonical p) es q' \<Longrightarrow> \<exists>q. reach sha p es q \<and> q' = dropCanonical q"
proof (induction es q' rule: reach.induct)
  case here
  show ?case
    using reach.here by blast
next
  case (answer es c k' s e)
  then obtain q where q: "reach sha p es q" "Ask c k' = dropCanonical q"
    by blast
  then obtain k where "q = Ask c k" "k' = (\<lambda>a. dropCanonical (k a))"
    by (cases q) auto
  then show ?case
    using q(1) answer.hyps(2) reach.answer by blast
qed

lemma yields_drop: "yields p n oc \<Longrightarrow> yields (dropCanonical p) n oc"
  by (induction rule: yields.induct) (auto intro: yields.intros)

lemma obedient_drop:
  assumes "obedient sha p"
  shows "obedient sha (dropCanonical p)"
  unfolding obedient_def
proof (intro conjI allI impI)
  fix es c k'
  assume "reach sha (dropCanonical p) es (Ask c k')"
  then obtain q where q: "reach sha p es q" "Ask c k' = dropCanonical q"
    using reach_dropped by blast
  then obtain k where k: "q = Ask c k" "k' = (\<lambda>a. dropCanonical (k a))"
    by (cases q) auto
  then show "ValidateChoice c = None"
    using q(1) assms by (auto simp: obedient_def)
  obtain oc canon where "k (Inl (OpenChoice (length es) c)) = Return oc canon (Some (DeciderError (OpenChoice (length es) c)))"
    using q(1) k(1) assms unfolding obedient_def by blast
  then show "\<exists>oc canon. k' (Inl (OpenChoice (length es) c)) = Return oc canon (Some (DeciderError (OpenChoice (length es) c)))"
    using k(2) by simp
next
  fix es oc canon i c
  show "\<not> reach sha (dropCanonical p) es (Return oc canon (Some (DeciderError (OpenChoice i c))))"
  proof
    assume "reach sha (dropCanonical p) es (Return oc canon (Some (DeciderError (OpenChoice i c))))"
    then obtain q where q: "reach sha p es q" "Return oc canon (Some (DeciderError (OpenChoice i c))) = dropCanonical q"
      using reach_dropped by blast
    then obtain canon' where "q = Return oc canon' (Some (DeciderError (OpenChoice i c)))"
      by (cases q) auto
    then show False
      using q(1) assms by (auto simp: obedient_def)
  qed
qed

lemma intProgram_drop: "intProgram p \<Longrightarrow> intProgram (dropCanonical p)"
  by (induction p) auto

section \<open>The entry points\<close>

text \<open>An exploration, with the cache of the given bounds or without one.\<close>

definition explores :: "(bytes \<Rightarrow> bytes) \<Rightarrow> program \<Rightarrow> Bounds \<Rightarrow> CacheBounds option \<Rightarrow> (Result \<times> explore_error option) option" where
  "explores sha p b cb = (case cb of None \<Rightarrow> DFS sha (Some p) b | Some x \<Rightarrow> DFSWithCache sha (Some p) b x)"

lemma explores_loop:
  assumes "explores sha p b cb = Some (res, err)" and "validBounds b" and "err = None"
  obtains q cache cache' r where "dfsLoop sha q b [tapeOf []] cache zeroResult = Some (r, err, cache')"
    "res = cacheStatistics cache' r" "cb = None \<and> q = dropCanonical p \<and> cache = None \<or>
     (\<exists>x. cb = Some x \<and> q = p \<and> cache = Some (newStateCache x) \<and> cbMaxEntries x > 0 \<and> cbMaxBytes x > 0)"
proof (cases cb)
  case None
  then show ?thesis
    using assms that [of "dropCanonical p" None]
    by (auto simp: explores_def DFS_def dfs_def tapeOf_def split: if_splits)
next
  case (Some x)
  then show ?thesis
    using assms that [of p "Some (newStateCache x)"]
    by (auto simp: explores_def DFSWithCache_def dfs_def tapeOf_def split: if_splits)
qed

lemma explores_returns: "intProgram p \<Longrightarrow> explores sha p b cb \<noteq> None"
  using dfsLoop_total [OF intProgram_drop, of p sha b "[tapeOf []]" None zeroResult]
    dfsLoop_total [of p sha b "[tapeOf []]" "map_option newStateCache cb" zeroResult]
  by (auto simp: explores_def DFS_def DFSWithCache_def dfs_def tapeOf_def split: option.split)

lemma seenState_bounds: "seenState h x c = (c', hit) \<Longrightarrow> scBounds c' = scBounds c"
  by (auto simp: seenState_def Let_def split: prod.splits if_splits)

lemma settle_bounds:
  "settle b stack cache e r = Continue r' stack' cache' \<Longrightarrow> cache' = cache"
  "settle b stack cache e r = Stop r' err cache' \<Longrightarrow> cache' = cache"
  by (auto simp: settle_def Let_def split: prod.splits option.splits if_splits)

lemma openChoice_bounds:
  "openChoice sha b prefix c canonical stack cache r = Continue r' stack' cache' \<Longrightarrow>
     map_option scBounds cache' = map_option scBounds cache"
  "openChoice sha b prefix c canonical stack cache r = Stop r' err cache' \<Longrightarrow>
     map_option scBounds cache' = map_option scBounds cache"
  by (auto simp: openChoice_def expand_def Let_def dest!: seenState_bounds
      split: option.splits sum.splits prod.splits bool.splits)

lemma explorePrefix_bounds:
  "explorePrefix sha p b prefix stack cache r = Some (Continue r' stack' cache') \<Longrightarrow>
     map_option scBounds cache' = map_option scBounds cache"
  "explorePrefix sha p b prefix stack cache r = Some (Stop r' err cache') \<Longrightarrow>
     map_option scBounds cache' = map_option scBounds cache"
  by (auto simp: explorePrefix_def Let_def dest!: settle_bounds openChoice_bounds
      split: if_splits option.splits sum.splits prod.splits run_error.splits dec_error.splits)

lemma dfsLoop_bounds:
  "dfsLoop sha p b stack cache r = Some (res, err, cache') \<Longrightarrow> map_option scBounds cache' = map_option scBounds cache"
proof (induction sha p b stack cache r rule: dfsLoop.induct)
  case (2 sha p b prefix stack cache r)
  show ?case
  proof (cases "reRuns r < bdMaxRuns b")
    case True
    note step = 2(2) [unfolded dfsLoop.simps(2) [of sha p b prefix] if_P [OF True]]
    show ?thesis
    proof (cases "explorePrefix sha p b prefix stack cache r")
      case (Some v)
      show ?thesis
      proof (cases v)
        case (Continue r1 stack1 cache1)
        then show ?thesis
          using explorePrefix_bounds(1) [OF Some [unfolded Continue]] 2(1) [OF True Some Continue] step Some by simp
      next
        case (Stop r1 err1 cache1)
        then show ?thesis
          using step Some explorePrefix_bounds(2) [OF Some [unfolded Stop]] by simp
      qed
    qed (use step in simp)
  qed (use 2(2) in \<open>simp add: dfsLoop.simps\<close>)
qed (simp add: dfsLoop.simps)

lemma explores_runs:
  assumes "explores sha p b cb = Some (res, err)" and "validBounds b"
  shows "reRuns res \<le> bdMaxRuns b"
proof -
  have zero: "reRuns zeroResult \<le> bdMaxRuns b" and copy: "reRuns (cacheStatistics cache r) = reRuns r" for cache r
    using assms(2) by (auto simp: zeroResult_def validBounds_def cacheStatistics_def split: option.splits)
  show ?thesis
    using assms(1) zero
    by (auto simp: explores_def DFS_def DFSWithCache_def dfs_def copy split: option.splits if_splits dest!: dfsLoop_runs)
qed

section \<open>The properties\<close>

text \<open>A program that draws a number from 0 to 1 and completes.\<close>

definition exCoin :: Choice where
  "exCoin = \<lparr>chID = ''coin'', chKind = ''draw'', chOptions = [], chMin = Some 0, chMax = Some 1, chContext = []\<rparr>"

definition exOutcomeOk :: Outcome where
  "exOutcomeOk = \<lparr>ocStatus = OutcomeCompleted, ocSteps = 1, ocEndNS = 0, ocObservationDigest = [], ocError = [], ocViolations = []\<rparr>"

definition exProgram :: program where
  "exProgram = Ask exCoin (\<lambda>a. case a of Inl e \<Rightarrow> Return exOutcomeOk (Some [0]) (Some (DeciderError e)) | Inr s \<Rightarrow> Return exOutcomeOk None None)"

definition exBounds :: Bounds where
  "exBounds = \<lparr>bdMaxRuns = 9, bdMaxDepth = 4, bdMaxBranchesPerChoice = 3, bdRangeSamples = 3, bdFallbackSeed = 1,
     bdStopOnViolation = False, bdTargetFingerprint = []\<rparr>"

definition exCache :: CacheBounds where
  "exCache = \<lparr>cbMaxEntries = 5, cbMaxBytes = 5000\<rparr>"

lemma exBounds_valid: "validBounds exBounds"
  by (simp add: validBounds_def exBounds_def)

lemma exCoin_valid: "ValidateChoice exCoin = None"
  by (simp add: ValidateChoice_def exCoin_def)

lemma exCoin_selections: "ValidateSelection exCoin (numberSelection 0) = None" "ValidateSelection exCoin (numberSelection 1) = None"
  using exCoin_valid by (simp_all add: ValidateSelection_def) (simp_all add: validateSelection_def numberSelection_def exCoin_def)

lemma exProgram_int: "intProgram exProgram"
  by (auto simp: exProgram_def wfChoice_def exCoin_def MaxInt64_def split: sum.split)

lemma exProgram_reach:
  "reach id exProgram es q \<Longrightarrow> es = [] \<and> q = exProgram \<or> length es = 1 \<and> q = Return exOutcomeOk None None"
  by (induction rule: reach.induct) (auto simp: exProgram_def)

lemma exProgram_obedient: "obedient id exProgram"
  using exCoin_valid by (auto simp: obedient_def dest!: exProgram_reach) (auto simp: exProgram_def)

lemma exProgram_markov: "markov id exProgram"
  by (auto simp: markov_def opensAt_def dest!: exProgram_reach) (auto simp: exProgram_def)

lemma exProgram_explored:
  "\<exists>r. explores id exProgram exBounds (Some exCache) = Some (r, None) \<and> \<not> reTruncated r \<and> reSampledDomains r = 0
     \<and> reViolatingRuns r = 0"
proof -
  obtain e0 e1 where e: "newEntry id exCoin (numberSelection 0) = Inr e0" "newEntry id exCoin (numberSelection 1) = Inr e1"
    using exCoin_selections newEntry_selection [OF exCoin_valid] by blast
  have at: "reach id exProgram [] exProgram" "reach id exProgram [e0] (Return exOutcomeOk None None)"
      "reach id exProgram [e1] (Return exOutcomeOk None None)"
    using reach.here [of id exProgram] reach.answer [of id exProgram "[]" exCoin _ _ e0] reach.answer [of id exProgram "[]" exCoin _ _ e1] e
    by (fastforce simp: exProgram_def)+
  have deep: "0 < depthOf exBounds" "1 < depthOf exBounds"
    by (simp_all add: depthOf_def exBounds_def)
  obtain x where x: "cacheIdentity [0] exCoin 4 = Inr x"
    using exCoin_valid valid_canonical [OF exCoin_valid] by (auto simp: cacheIdentity_def CanonicalDomain_def CanonicalContext_def canonicalChoiceUnchecked_def split: sum.splits)
  obtain sc hit where sc: "seenState id x (newStateCache exCache) = (sc, hit)"
    by fastforce
  have "\<not> hit"
    using sc by (auto simp: seenState_def newStateCache_def Let_def split: if_splits)
  have cand: "candidates exCoin exBounds = Inr ([numberSelection 0, numberSelection 1], False)"
    using exCoin_valid by (simp add: candidates_def) (simp add: exCoin_def exBounds_def upto.simps)
  let ?r = "zeroResult\<lparr>reRuns := 1, reOpenChoices := 1\<rparr>"
  have ask: "reach id exProgram [] (Ask exCoin (\<lambda>a. case a of
      Inl e \<Rightarrow> Return exOutcomeOk (Some [0]) (Some (DeciderError e)) | Inr s \<Rightarrow> Return exOutcomeOk None None))"
    using at(1) by (simp add: exProgram_def)
  have first: "explorePrefix id exProgram exBounds (tapeOf []) [] (Some (newStateCache exCache)) zeroResult =
      Some (Continue ?r [tapeOf [e0], tapeOf [e1]] (Some sc))"
    using explore_open [OF exProgram_obedient ask, of exBounds "[]" "Some (newStateCache exCache)" zeroResult]
      deep x sc \<open>\<not> hit\<close> cand e
    by (auto simp: openChoice_def expand_def exBounds_def zeroResult_def tapeOf_def)
  have ret: "explorePrefix id exProgram exBounds (tapeOf [e]) stack cache r =
      Some (Continue (r\<lparr>reRuns := reRuns r + 1, reCompleted := reCompleted r + 1, reCompletedRuns := reCompletedRuns r + 1\<rparr>) stack cache)"
    if "reach id exProgram [e] (Return exOutcomeOk None None)" for e stack cache r
    using explore_return [OF that, of exBounds stack cache r] deep(2)
    by (simp add: settle_def Let_def recordOutcomeStatus_def outcomeMatches_def exOutcomeOk_def)
  have "explores id exProgram exBounds (Some exCache) = map_option (\<lambda>(r, err, cache'). (cacheStatistics cache' r, err))
      (dfsLoop id exProgram exBounds [tapeOf []] (Some (newStateCache exCache)) zeroResult)"
    using exBounds_valid by (simp add: explores_def DFSWithCache_def dfs_def exCache_def tapeOf_def)
  moreover have small: "bdMaxRuns exBounds = 9" "reRuns zeroResult = 0" "reSampledDomains zeroResult = 0" "reViolatingRuns zeroResult = 0"
    by (simp_all add: exBounds_def zeroResult_def)
  ultimately show ?thesis
    using small by (simp add: dfsLoop.simps first ret [OF at(2)] ret [OF at(3)] cacheStatistics_def)
qed

text \<open>
  C27. An exploration always returns. It never runs the program more often than MaxRuns, and when it ends without an
  error its counters add up: every run opened a choice, completed with one of the four statuses or was a pruned
  prefix; with a cache, every pruned state is a hit at an open choice, the cache was consulted once for every open
  choice, and it stays within its own bounds.
\<close>

theorem exploration_bounded:
  assumes "intProgram p" and "validBounds b"
  shows "\<exists>res err. explores sha p b cb = Some (res, err) \<and> reRuns res \<le> bdMaxRuns b
    \<and> (err \<noteq> None \<or> balanced 0 res \<and> (case cb of None \<Rightarrow> True
      | Some x \<Rightarrow> reCacheLookups res = reOpenChoices res \<and> reCacheHits res = reStatePruned res
          \<and> reCacheLookups res = reCacheHits res + reCacheMisses res
          \<and> reUniqueStates res \<le> cbMaxEntries x \<and> reCacheBytes res \<le> cbMaxBytes x))"
proof -
  obtain res err where ex: "explores sha p b cb = Some (res, err)"
    using explores_returns [OF assms(1)] by fastforce
  show ?thesis
  proof (cases "err = None")
    case True
    obtain q cache cache' r where loop: "dfsLoop sha q b [tapeOf []] cache zeroResult = Some (r, err, cache')"
      and res: "res = cacheStatistics cache' r" and kind: "cb = None \<and> q = dropCanonical p \<and> cache = None \<or>
        (\<exists>x. cb = Some x \<and> q = p \<and> cache = Some (newStateCache x) \<and> cbMaxEntries x > 0 \<and> cbMaxBytes x > 0)"
      using explores_loop [OF ex assms(2) True] .
    have start: "balanced 0 zeroResult" "cacheOk cache zeroResult"
      using kind by (auto simp: balanced_def statuses_def zeroResult_def cacheOk_def newStateCache_def)
    have "balanced 0 r" and ok: "cacheOk cache' r"
      using dfsLoop_counts [OF loop [unfolded True] start] by auto
    then have bal: "balanced 0 res"
      by (auto simp: res balanced_def statuses_def cacheStatistics_def split: option.split)
    show ?thesis
    proof (cases cb)
      case None
      then show ?thesis
        using ex explores_runs [OF ex assms(2)] bal by auto
    next
      case (Some x)
      then have "map_option scBounds cache' = Some x"
        using dfsLoop_bounds [OF loop] kind by (auto simp: newStateCache_def)
      then obtain sc where "cache' = Some sc" "scBounds sc = x"
        by auto
      then show ?thesis
        using ex explores_runs [OF ex assms(2)] bal Some ok by (auto simp: res cacheOk_def cacheStatistics_def)
    qed
  qed (use ex explores_runs [OF ex assms(2)] in auto)
qed

theorem exploration_bounded_witness:
  "intProgram exProgram \<and> validBounds exBounds \<and> (\<exists>res err. explores id exProgram exBounds (Some exCache) = Some (res, err)
     \<and> reRuns res \<le> 9)"
  using exploration_bounded [of exProgram exBounds id "Some exCache"] exProgram_int exBounds_valid by (auto simp: exBounds_def)

lemma start_item: "validBounds b \<Longrightarrow> itemOk sha p b (tapeOf [])"
  unfolding itemOk_def using reach.here by fastforce

lemma empty_cache: "seenInv sha p b (Some (newStateCache x)) stack"
  by (simp add: seenInv_def stored_def newStateCache_def)

text \<open>
  C28. An exploration that ends without an error, was not truncated, sampled no domain and counted no violation has
  missed none: no sequence of valid selections within the depth bound makes the program complete with the target
  violation. This needs a runner that keeps the contract of its decider and, with a cache, canonical states that
  determine the completions ahead; it holds for every hash function, collisions included.
\<close>

theorem exploration_exhaustive:
  assumes "obedient sha p" and "validBounds b" and "cb \<noteq> None \<Longrightarrow> markov sha p"
    and "explores sha p b cb = Some (res, None)" and "\<not> reTruncated res"
    and "reSampledDomains res = 0" and "reViolatingRuns res = 0"
    and "yields p n oc" and "int n \<le> bdMaxDepth b"
  shows "\<not> outcomeMatches oc (bdTargetFingerprint b)"
proof
  assume target: "outcomeMatches oc (bdTargetFingerprint b)"
  obtain q cache cache' r where loop: "dfsLoop sha q b [tapeOf []] cache zeroResult = Some (r, None, cache')"
    and res: "res = cacheStatistics cache' r" and kind: "cb = None \<and> q = dropCanonical p \<and> cache = None \<or>
      (\<exists>x. cb = Some x \<and> q = p \<and> cache = Some (newStateCache x) \<and> cbMaxEntries x > 0 \<and> cbMaxBytes x > 0)"
    using explores_loop [OF assms(4,2) refl] .
  have r: "\<not> reTruncated r" "reSampledDomains r = 0" "reViolatingRuns r = 0"
    using assms(5-7) by (auto simp: res cacheStatistics_def split: option.splits)
  have q: "obedient sha q" "yields q n oc"
    using kind assms(1,8) obedient_drop yields_drop by auto
  have "\<forall>t\<in>set [tapeOf []]. \<forall>n. \<not> threat sha q b t n"
  proof (rule loop_misses_nothing [OF q(1) assms(2) _ loop r])
    show "cache \<noteq> None \<Longrightarrow> markov sha q"
      using kind assms(3) by auto
    show "seenInv sha q b cache [tapeOf []]"
      using kind empty_cache by (auto simp: seenInv_def stored_def newStateCache_def)
  qed (use start_item [OF assms(2)] in \<open>auto simp: zeroResult_def\<close>)
  moreover have "threat sha q b (tapeOf []) n"
    unfolding threat_def using reach.here q(2) assms(9) target by (fastforce simp: depthOf_def)
  ultimately show False by simp
qed

theorem exploration_exhaustive_witness:
  "obedient id exProgram \<and> markov id exProgram \<and> yields exProgram 1 exOutcomeOk \<and> \<not> outcomeMatches exOutcomeOk []"
proof -
  have "yields exProgram 1 exOutcomeOk"
    using yields.asks [OF exCoin_selections(1), of "\<lambda>a. case a of Inl e \<Rightarrow> Return exOutcomeOk (Some [0]) (Some (DeciderError e))
      | Inr s \<Rightarrow> Return exOutcomeOk None None" 0] yields.returns by (simp add: exProgram_def)
  moreover obtain r where "explores id exProgram exBounds (Some exCache) = Some (r, None)" "\<not> reTruncated r"
      "reSampledDomains r = 0" "reViolatingRuns r = 0"
    using exProgram_explored by blast
  ultimately show ?thesis
    using exploration_exhaustive [OF exProgram_obedient exBounds_valid exProgram_markov, of "Some exCache" r 1 exOutcomeOk]
      exProgram_obedient exProgram_markov by (simp add: exBounds_def)
qed

end
