(* ===== verification/ArtifactRun.thy ===== *)
theory ArtifactRun
  imports Artifact
begin

text \<open>
  Whole runs of \<open>src/artifact/artifact.go\<close>: the resource budget, the validation of a run artifact and the
  bounded encoder.
\<close>

section \<open>The resource budget\<close>

text \<open>The closure \<open>add\<close>: the bytes used so far, or the error.\<close>

definition addSize :: "int \<Rightarrow> int \<Rightarrow> int \<Rightarrow> artifact_error + int" where
  "addSize budget n used =
     (if n < 0 \<or> n > budget - used then Inl ErrArtifactTooLarge else Inr (used + n))"

fun addSizes :: "int \<Rightarrow> int list \<Rightarrow> int \<Rightarrow> artifact_error + int" where
  "addSizes budget [] used = Inr used"
| "addSizes budget (n # ns) used =
     (case addSize budget n used of Inl err \<Rightarrow> Inl err | Inr used' \<Rightarrow> addSizes budget ns used')"

definition len :: "'a list \<Rightarrow> int" where
  "len xs = int (length xs)"

definition headerSizes :: "Run \<Rightarrow> int list" where
  "headerSizes r = map len
     [rnSchema r, snID (rnScenario r), snVersion (rnScenario r), adID (rnAdapter r), adVersion (rnAdapter r),
      rpGitRevision (rnReproducibility r), rpGoVersion (rnReproducibility r), rpDecisionSchema (rnReproducibility r),
      rpCheckerSchema (rnReproducibility r), rpMessageCodec (rnReproducibility r), rpObservationSchema (rnReproducibility r),
      tpSchema (rnDecisions r), ocStatus (rnOutcome r), ocError (rnOutcome r), ocObservationDigest (rnOutcome r)]
     @ map len (cfMembers (rnConfiguration r)) @ map len (cfVoters (rnConfiguration r))
     @ map len (cfLearners (rnConfiguration r))"

definition actionSizes :: "Action \<Rightarrow> int list" where
  "actionSizes a = (len (acKind a) + len (acNode a) + len (acData a)) # map len (concat (acGroups a))
     @ map len (acVoters a) @ map len (acLearners a)"

definition violationSizes :: "Violation \<Rightarrow> int list" where
  "violationSizes v = (len (vID v) + len (vEvidence v) + len (vFingerprint v)) # map len (vNodes v)"

fun budgetOptions :: "int \<Rightarrow> DOption list \<Rightarrow> int \<Rightarrow> artifact_error + int" where
  "budgetOptions budget [] used = Inr used"
| "budgetOptions budget (opt # opts) used =
     (if length (oID opt) > MaxDecisionTextBytes then Inl ErrInvalidArtifact
      else case addSize budget (len (oID opt)) used of
        Inl err \<Rightarrow> Inl err
      | Inr used' \<Rightarrow> budgetOptions budget opts used')"

fun budgetEntries :: "int \<Rightarrow> TapeEntry list \<Rightarrow> int \<Rightarrow> int \<Rightarrow> artifact_error + int" where
  "budgetEntries budget [] totalOptions used = Inr used"
| "budgetEntries budget (e # es) totalOptions used =
     (let c = teChoice e in
      if length (chContext c) > MaxDecisionContextBytes \<or> length (chOptions c) > MaxDecisionOptions
         \<or> length (chID c) > MaxDecisionTextBytes \<or> length (chKind c) > MaxDecisionTextBytes
         \<or> length (selOption (teSelection e)) > MaxDecisionTextBytes then Inl ErrInvalidArtifact
      else if len (chOptions c) > MaxTotalDecisionOptions - totalOptions then Inl ErrInvalidArtifact
      else case addSize budget (len (chID c) + len (chKind c) + len (chContext c) + len (teDomainDigest e)
                + len (teContextDigest e) + len (selOption (teSelection e))) used of
        Inl err \<Rightarrow> Inl err
      | Inr used1 \<Rightarrow> (case budgetOptions budget (chOptions c) used1 of
            Inl err \<Rightarrow> Inl err
          | Inr used2 \<Rightarrow> budgetEntries budget es (totalOptions + len (chOptions c)) used2))"

definition validateResourceBudget :: "Run \<Rightarrow> int \<Rightarrow> artifact_error option" where
  "validateResourceBudget r maximum =
     (if maximum \<le> 0 then Some ErrInvalidArtifact
      else let budget = maximum div 2 in
        case addSizes budget (headerSizes r @ concat (map actionSizes (snActions (rnScenario r)))) 0 of
          Inl err \<Rightarrow> Some err
        | Inr used1 \<Rightarrow> (case budgetEntries budget (tpEntries (rnDecisions r)) 0 used1 of
              Inl err \<Rightarrow> Some err
            | Inr used2 \<Rightarrow>
                (case addSizes budget (concat (map violationSizes (ocViolations (rnOutcome r)))) used2 of
                   Inl err \<Rightarrow> Some err
                 | Inr used3 \<Rightarrow> None)))"

section \<open>Validation of a run\<close>

definition referenceSchemas :: "string \<Rightarrow> string \<Rightarrow> Reproducibility \<Rightarrow> bool" where
  "referenceSchemas version schema rp \<longleftrightarrow>
     (if version = ReferenceAdapterV1 then \<not> (schema \<noteq> RunSchemaV1 \<or> rpMessageCodec rp \<noteq> MessageCodecV1
         \<or> rpCheckerSchema rp \<noteq> SchemaV1 \<or> rpObservationSchema rp \<noteq> ObservationSchemaV1)
      else if version = ReferenceAdapterV2 then \<not> (schema \<noteq> RunSchemaV2 \<or> rpMessageCodec rp \<noteq> MessageCodecV2
         \<or> rpCheckerSchema rp \<noteq> SchemaV2 \<or> rpObservationSchema rp \<noteq> ObservationSchemaV2)
      else if version = ReferenceAdapterV3 then \<not> (schema \<noteq> RunSchema \<or> rpMessageCodec rp \<noteq> MessageCodecV3
         \<or> rpCheckerSchema rp \<noteq> CheckSchema \<or> rpObservationSchema rp \<noteq> ObservationSchemaV3)
      else False)"

fun validateViolations :: "(bytes \<Rightarrow> bytes) \<Rightarrow> Run \<Rightarrow> Violation list \<Rightarrow> artifact_error option" where
  "validateViolations sha r [] = None"
| "validateViolations sha r (v # vs) =
     (let validationErr = (case ValidateViolation sha v of
           Some e \<Rightarrow> Some e
         | None \<Rightarrow> if adID (rnAdapter r) = ReferenceAdapterID
             then ValidateViolationForSchema sha (rpCheckerSchema (rnReproducibility r)) v else None)
      in if \<not> validIdentifier (vID v) True 128 \<or> vAtNS v < 0 \<or> vAtNS v > ocEndNS (rnOutcome r)
            \<or> length (vEvidence v) > MaxViolationEvidenceBytes \<or> validationErr \<noteq> None then Some ErrInvalidArtifact
         else if \<not> list_all (\<lambda>n. n \<in> set (cfMembers (rnConfiguration r))) (vNodes v) then Some ErrInvalidArtifact
         else validateViolations sha r vs)"

definition outcomeConsistent :: "Run \<Rightarrow> bool" where
  "outcomeConsistent r \<longleftrightarrow>
     (let oc = rnOutcome r; sc = rnScenario r in
      if ocStatus oc = OutcomeCompleted then
        \<not> (ocEndNS oc \<noteq> snDurationNS sc \<or> ocError oc \<noteq> [] \<or> length (ocViolations oc) \<noteq> 0)
      else if ocStatus oc = OutcomeViolation then \<not> (ocError oc \<noteq> [] \<or> length (ocViolations oc) = 0)
      else if ocStatus oc = OutcomeError then \<not> (ocError oc = [] \<or> length (ocViolations oc) \<noteq> 0)
      else if ocStatus oc = OutcomeBudgetExhausted then
        \<not> (ocSteps oc \<noteq> snMaxSteps sc \<or> ocError oc \<noteq> [] \<or> length (ocViolations oc) \<noteq> 0)
      else False)"

definition validateMetadata :: "Reproducibility \<Rightarrow> bool" where
  "validateMetadata rp \<longleftrightarrow>
     \<not> (rpDecisionSchema rp \<noteq> DecisionSchema \<or> \<not> validMetadata (rpCheckerSchema rp) 128
        \<or> \<not> validMetadata (rpMessageCodec rp) 128 \<or> \<not> validMetadata (rpObservationSchema rp) 128
        \<or> \<not> validMetadata (rpGoVersion rp) 128 \<or> \<not> validMetadata (rpGitRevision rp) 256)"

text \<open>The checks from the decisions on.\<close>

definition validateRecorded :: "(bytes \<Rightarrow> bytes) \<Rightarrow> Run \<Rightarrow> artifact_error option" where
  "validateRecorded sha r =
     (let oc = rnOutcome r; sc = rnScenario r in
      case newTapeDecider sha (rnDecisions r) False of
        Inl err \<Rightarrow> Some ErrInvalidArtifact
      | Inr _ \<Rightarrow>
          if ocSteps oc > snMaxSteps sc \<or> ocEndNS oc < 0 \<or> ocEndNS oc > snDurationNS sc
             \<or> \<not> validDigest (ocObservationDigest oc) \<or> length (ocError oc) > MaxOutcomeErrorBytes
             \<or> length (ocViolations oc) > MaxViolations then Some ErrInvalidArtifact
          else case validateViolations sha r (ocViolations oc) of
            Some err \<Rightarrow> Some err
          | None \<Rightarrow> if \<not> outcomeConsistent r then Some ErrInvalidArtifact else None)"

definition Validate :: "(bytes \<Rightarrow> bytes) \<Rightarrow> Run \<Rightarrow> artifact_error option" where
  "Validate sha r =
     (if rnSchema r \<noteq> RunSchemaV1 \<and> rnSchema r \<noteq> RunSchemaV2 \<and> rnSchema r \<noteq> RunSchema then Some ErrInvalidArtifact
      else if adID (rnAdapter r) = [] \<or> adVersion (rnAdapter r) = [] then Some ErrInvalidArtifact
      else if \<not> validIdentifier (adID (rnAdapter r)) True 128 \<or> \<not> validIdentifier (adVersion (rnAdapter r)) False 64
      then Some ErrInvalidArtifact
      else case validateConfiguration (rnConfiguration r) (rnSchema r = RunSchema) of
        Some err \<Rightarrow> Some err
      | None \<Rightarrow> (case validateScenario (rnScenario r) (cfMembers (rnConfiguration r)) (rnSchema r) of
          Some err \<Rightarrow> Some err
        | None \<Rightarrow>
            if \<not> validateMetadata (rnReproducibility r) then Some ErrInvalidArtifact
            else if adID (rnAdapter r) = ReferenceAdapterID
               \<and> \<not> referenceSchemas (adVersion (rnAdapter r)) (rnSchema r) (rnReproducibility r) then Some ErrInvalidArtifact
            else if length (tpEntries (rnDecisions r)) > MaxDecisions then Some ErrInvalidArtifact
            else case (if rnSchema r \<noteq> RunSchemaV1 then validateResourceBudget r DefaultMaxArtifactBytes else None) of
              Some err \<Rightarrow> Some err
            | None \<Rightarrow> validateRecorded sha r))"

section \<open>The bounded encoder\<close>

text \<open>The values that the encoder passes to \<open>json.Marshal\<close>.\<close>

datatype json_value =
    JString string | JInt int | JUint u64 | JAction Action | JAdapter Adapter | JConfiguration Configuration
  | JReproducibility Reproducibility | JEntry TapeEntry | JViolation Violation

text \<open>One write to the output: a literal or a marshalled value.\<close>

datatype json_part = Literal string | Value json_value

definition partBytes :: "(json_value \<Rightarrow> bytes) \<Rightarrow> json_part \<Rightarrow> bytes" where
  "partBytes marshal p = (case p of Literal s \<Rightarrow> ascii s | Value v \<Rightarrow> marshal v)"

text \<open>\<open>boundedBuffer.Write\<close>\<close>

definition writeBounded :: "int \<Rightarrow> bytes \<Rightarrow> bytes \<Rightarrow> artifact_error + bytes" where
  "writeBounded maximum buffer dat =
     (if len dat > maximum - len buffer then Inl ErrArtifactTooLarge else Inr (buffer @ dat))"

fun writeJSONParts :: "(json_value \<Rightarrow> bytes) \<Rightarrow> int \<Rightarrow> json_part list \<Rightarrow> bytes \<Rightarrow> artifact_error + bytes" where
  "writeJSONParts marshal maximum [] buffer = Inr buffer"
| "writeJSONParts marshal maximum (p # ps) buffer =
     (case writeBounded maximum buffer (partBytes marshal p) of
        Inl err \<Rightarrow> Inl err
      | Inr buffer' \<Rightarrow> writeJSONParts marshal maximum ps buffer')"

text \<open>A JSON array written element by element, with commas in between.\<close>

fun writeElements :: "(json_value \<Rightarrow> bytes) \<Rightarrow> int \<Rightarrow> nat \<Rightarrow> json_value list \<Rightarrow> bytes \<Rightarrow> artifact_error + bytes" where
  "writeElements marshal maximum index [] buffer = Inr buffer"
| "writeElements marshal maximum index (v # vs) buffer =
     (case writeJSONParts marshal maximum ((if index > 0 then [Literal '',''] else []) @ [Value v]) buffer of
        Inl err \<Rightarrow> Inl err
      | Inr buffer' \<Rightarrow> writeElements marshal maximum (Suc index) vs buffer')"

definition encodeScenario :: "(json_value \<Rightarrow> bytes) \<Rightarrow> int \<Rightarrow> Scenario \<Rightarrow> bytes \<Rightarrow> artifact_error + bytes" where
  "encodeScenario marshal maximum s buffer =
     (case writeJSONParts marshal maximum [Literal ''{\"id\":'', Value (JString (snID s)), Literal '',\"version\":'',
          Value (JString (snVersion s)), Literal '',\"duration_ns\":'', Value (JInt (snDurationNS s)),
          Literal '',\"max_steps\":'', Value (JUint (snMaxSteps s))] buffer of
        Inl err \<Rightarrow> Inl err
      | Inr b1 \<Rightarrow>
          (case (if length (snActions s) > 0 then
                   (case writeJSONParts marshal maximum [Literal '',\"actions\":[''] b1 of
                      Inl err \<Rightarrow> Inl err
                    | Inr b2 \<Rightarrow> (case writeElements marshal maximum 0 (map JAction (snActions s)) b2 of
                        Inl err \<Rightarrow> Inl err
                      | Inr b3 \<Rightarrow> writeJSONParts marshal maximum [Literal '']''] b3))
                 else Inr b1) of
             Inl err \<Rightarrow> Inl err
           | Inr b4 \<Rightarrow> writeJSONParts marshal maximum [Literal ''}''] b4))"

text \<open>A nil slice of entries is written as \<open>null\<close>: lists do not tell it from an empty one, so it is a flag.\<close>

definition encodeTape :: "(json_value \<Rightarrow> bytes) \<Rightarrow> int \<Rightarrow> bool \<Rightarrow> Tape \<Rightarrow> bytes \<Rightarrow> artifact_error + bytes" where
  "encodeTape marshal maximum nilEntries t buffer =
     (case writeJSONParts marshal maximum [Literal ''{\"schema\":'', Value (JString (tpSchema t)), Literal '',\"entries\":''] buffer of
        Inl err \<Rightarrow> Inl err
      | Inr b1 \<Rightarrow>
          if nilEntries then writeJSONParts marshal maximum [Literal ''null}''] b1
          else (case writeJSONParts marshal maximum [Literal ''[''] b1 of
              Inl err \<Rightarrow> Inl err
            | Inr b2 \<Rightarrow> (case writeElements marshal maximum 0 (map JEntry (tpEntries t)) b2 of
                Inl err \<Rightarrow> Inl err
              | Inr b3 \<Rightarrow> writeJSONParts marshal maximum [Literal '']}''] b3)))"

definition encodeOutcome :: "(json_value \<Rightarrow> bytes) \<Rightarrow> int \<Rightarrow> Outcome \<Rightarrow> bytes \<Rightarrow> artifact_error + bytes" where
  "encodeOutcome marshal maximum oc buffer =
     (case writeJSONParts marshal maximum ([Literal ''{\"status\":'', Value (JString (ocStatus oc)), Literal '',\"steps\":'',
          Value (JUint (ocSteps oc)), Literal '',\"end_ns\":'', Value (JInt (ocEndNS oc)),
          Literal '',\"observation_digest\":'', Value (JString (ocObservationDigest oc))]
          @ (if ocError oc \<noteq> [] then [Literal '',\"error\":'', Value (JString (ocError oc))] else [])) buffer of
        Inl err \<Rightarrow> Inl err
      | Inr b1 \<Rightarrow>
          (case (if length (ocViolations oc) > 0 then
                   (case writeJSONParts marshal maximum [Literal '',\"violations\":[''] b1 of
                      Inl err \<Rightarrow> Inl err
                    | Inr b2 \<Rightarrow> (case writeElements marshal maximum 0 (map JViolation (ocViolations oc)) b2 of
                        Inl err \<Rightarrow> Inl err
                      | Inr b3 \<Rightarrow> writeJSONParts marshal maximum [Literal '']''] b3))
                 else Inr b1) of
             Inl err \<Rightarrow> Inl err
           | Inr b4 \<Rightarrow> writeJSONParts marshal maximum [Literal ''}''] b4))"

definition encodeRun :: "(json_value \<Rightarrow> bytes) \<Rightarrow> int \<Rightarrow> bool \<Rightarrow> Run \<Rightarrow> bytes \<Rightarrow> artifact_error + bytes" where
  "encodeRun marshal maximum nilEntries r buffer =
     (case writeJSONParts marshal maximum [Literal ''{\"schema\":'', Value (JString (rnSchema r)), Literal '',\"scenario\":''] buffer of
        Inl err \<Rightarrow> Inl err
      | Inr b1 \<Rightarrow> (case encodeScenario marshal maximum (rnScenario r) b1 of
          Inl err \<Rightarrow> Inl err
        | Inr b2 \<Rightarrow> (case writeJSONParts marshal maximum [Literal '',\"adapter\":'', Value (JAdapter (rnAdapter r)),
              Literal '',\"configuration\":'', Value (JConfiguration (rnConfiguration r)), Literal '',\"reproducibility\":'',
              Value (JReproducibility (rnReproducibility r)), Literal '',\"decisions\":''] b2 of
            Inl err \<Rightarrow> Inl err
          | Inr b3 \<Rightarrow> (case encodeTape marshal maximum nilEntries (rnDecisions r) b3 of
              Inl err \<Rightarrow> Inl err
            | Inr b4 \<Rightarrow> (case writeJSONParts marshal maximum [Literal '',\"outcome\":''] b4 of
                Inl err \<Rightarrow> Inl err
              | Inr b5 \<Rightarrow> (case encodeOutcome marshal maximum (rnOutcome r) b5 of
                  Inl err \<Rightarrow> Inl err
                | Inr b6 \<Rightarrow> writeJSONParts marshal maximum [Literal (''}'' @ [CHR 0x0A])] b6))))))"

text \<open>The bytes that \<open>encodeWithLimit\<close> hands to its writer; the writer itself is I/O.\<close>

definition encodeWithLimit ::
    "(bytes \<Rightarrow> bytes) \<Rightarrow> (json_value \<Rightarrow> bytes) \<Rightarrow> bool \<Rightarrow> Run \<Rightarrow> int \<Rightarrow> artifact_error + bytes" where
  "encodeWithLimit sha marshal nilEntries r maximum =
     (if maximum \<le> 0 then Inl ErrInvalidArtifact
      else case Validate sha r of
        Some err \<Rightarrow> Inl err
      | None \<Rightarrow> (case (if rnSchema r \<noteq> RunSchemaV1 then validateResourceBudget r maximum else None) of
          Some err \<Rightarrow> Inl err
        | None \<Rightarrow> encodeRun marshal maximum nilEntries r []))"

definition Encode :: "(bytes \<Rightarrow> bytes) \<Rightarrow> (json_value \<Rightarrow> bytes) \<Rightarrow> bool \<Rightarrow> Run \<Rightarrow> artifact_error + bytes" where
  "Encode sha marshal nilEntries r = encodeWithLimit sha marshal nilEntries r DefaultMaxArtifactBytes"

end
