(* ===== verification/ArtifactProps.thy ===== *)
theory ArtifactProps
  imports ArtifactRun NetworkProps RaftWf
begin

text \<open>
  Properties of run artifacts: what validation accepts, the canonical form of partition actions, the resource
  budget as a bound on a sum, and the bounded encoder against the text it writes.
\<close>

section \<open>Canonical partitions\<close>

lemma compareGroups_less: "compareGroups ls rs < 0 \<longleftrightarrow> ls < rs"
  by (induction ls rs rule: compareGroups.induct) auto

lemma partitionGroupsSorted_iff: "partitionGroupsSorted gs \<longleftrightarrow> sorted_wrt (<) gs"
proof (induction gs rule: partitionGroupsSorted.induct)
  case (1 l r gs)
  have "l < r \<Longrightarrow> sorted_wrt (<) (r # gs) \<Longrightarrow> sorted_wrt (<) (l # r # gs)"
    by (auto intro: less_trans)
  then show ?case
    using 1 compareGroups_less [of l r] by (auto simp: not_le)
qed auto

lemma partitionNodes_iff:
  "partitionNodes universe seen ns = Some seen' \<longleftrightarrow>
     set ns \<subseteq> set universe \<and> distinct ns \<and> set ns \<inter> set seen = {} \<and> seen' = rev ns @ seen"
  by (induction universe seen ns arbitrary: rule: partitionNodes.induct) auto

lemma partitionNodes_None:
  "partitionNodes universe seen ns = None \<longleftrightarrow> \<not> (set ns \<subseteq> set universe \<and> distinct ns \<and> set ns \<inter> set seen = {})"
  using partitionNodes_iff [of universe seen ns] by (metis not_Some_eq)

lemma groupsProper_iff:
  "groupsProper universe seen gs \<longleftrightarrow> [] \<notin> set gs \<and> (\<forall>g\<in>set gs. sorted g) \<and> set (concat gs) \<subseteq> set universe
     \<and> distinct (concat gs) \<and> set (concat gs) \<inter> set seen = {}"
proof (induction gs arbitrary: seen)
  case (Cons g gs)
  show ?case
  proof (cases "partitionNodes universe seen g")
    case None
    then show ?thesis
      using partitionNodes_None [of universe seen g] by auto
  next
    case (Some seen')
    then have "set g \<subseteq> set universe" "distinct g" "set g \<inter> set seen = {}" "set seen' = set g \<union> set seen"
      using partitionNodes_iff [of universe seen g seen'] by auto
    then show ?thesis
      using Some Cons.IH [of seen'] by auto
  qed
qed simp

text \<open>The partition actions that validation accepts.\<close>

lemma partition_fits:
  "acKind a = ActionPartition \<Longrightarrow> actionFits a universe schema \<longleftrightarrow>
     acNode a = [] \<and> acData a = [] \<and> acVoters a = [] \<and> acLearners a = [] \<and> acGroups a \<noteq> [] \<and> [] \<notin> set (acGroups a)
     \<and> (\<forall>g\<in>set (acGroups a). sorted g) \<and> set (concat (acGroups a)) \<subseteq> set universe \<and> distinct (concat (acGroups a))
     \<and> sorted_wrt (<) (acGroups a)"
  by (auto simp: actionFits_def action_kinds groupsProper_iff partitionGroupsSorted_iff)

lemma canonical_groups:
  assumes "acKind b = ActionPartition" and "actionFits b universe schema"
  shows "acGroups b = sorted_list_of_set (sorted_list_of_set ` set ` set (acGroups b))"
proof -
  have b: "\<forall>g\<in>set (acGroups b). sorted g" "distinct (concat (acGroups b))" "sorted_wrt (<) (acGroups b)"
    using assms by (auto simp: partition_fits)
  have "sorted_list_of_set (set g) = g" if "g \<in> set (acGroups b)" for g
    using that b(1,2) by (simp add: distinct_concat_iff sorted_list_of_set.idem_if_sorted_distinct)
  then have "sorted_list_of_set ` set ` set (acGroups b) = set (acGroups b)"
    by force
  then show ?thesis
    using b(3) by (simp add: strict_sorted_iff sorted_list_of_set.idem_if_sorted_distinct)
qed

definition exPartition :: Action where
  "exPartition = \<lparr>acAtNS = 5, acKind = ActionPartition, acNode = [], acData = [], acGroups = [[''a'', ''b''], [''c'']],
     acVoters = [], acLearners = [], acVotersPresent = False, acLearnersPresent = False\<rparr>"

text \<open>
  A partition that validation accepts can be executed: the router's constructor builds a matrix from its
  groups, in which two nodes communicate exactly when a group holds both. The action is also the only accepted
  one for its groups: another with the same sets of nodes lists them identically.
\<close>

theorem accepted_partition:
  assumes "acKind a = ActionPartition" and "actionFits a universe schema" and "[] \<notin> set universe"
  shows "(\<exists>m. NewPartitions (acGroups a) = Inr m
      \<and> (\<forall>x y. Allows (Some m) x y = (\<exists>g\<in>set (acGroups a). x \<in> set g \<and> y \<in> set g)))
    \<and> (\<forall>a' universe' schema'. acKind a' = ActionPartition \<and> actionFits a' universe' schema'
        \<and> set ` set (acGroups a) = set ` set (acGroups a') \<longrightarrow> acGroups a = acGroups a')"
proof (intro conjI allI impI)
  have gs: "acGroups a \<noteq> []" "[] \<notin> set (acGroups a)" "set (concat (acGroups a)) \<subseteq> set universe" "distinct (concat (acGroups a))"
    using assms(1,2) by (auto simp: partition_fits)
  then have "partitionGroups (acGroups a)"
    using assms(3) unfolding partitionGroups_def by blast
  then obtain m where "NewPartitions (acGroups a) = Inr m"
    using NewPartitions_accepts by blast
  then show "\<exists>m. NewPartitions (acGroups a) = Inr m
      \<and> (\<forall>x y. Allows (Some m) x y = (\<exists>g\<in>set (acGroups a). x \<in> set g \<and> y \<in> set g))"
    using NewPartitions_matrix by simp
next
  fix a' universe' schema'
  assume a': "acKind a' = ActionPartition \<and> actionFits a' universe' schema' \<and> set ` set (acGroups a) = set ` set (acGroups a')"
  then show "acGroups a = acGroups a'"
    using canonical_groups [OF assms(1,2)] canonical_groups [of a' universe' schema'] by metis
qed

theorem accepted_partition_witness:
  "acKind exPartition = ActionPartition \<and> actionFits exPartition [''a'', ''b'', ''c''] RunSchema
   \<and> (\<exists>m. NewPartitions (acGroups exPartition) = Inr m \<and> Allows (Some m) ''a'' ''b'' \<and> \<not> Allows (Some m) ''a'' ''c'')"
proof -
  have fits: "acKind exPartition = ActionPartition" "actionFits exPartition [''a'', ''b'', ''c''] RunSchema"
    by (auto simp: partition_fits exPartition_def)
  then show ?thesis
    using accepted_partition [OF fits] by (auto simp: exPartition_def)
qed

section \<open>The encoder\<close>

text \<open>\<open>writes M f txt\<close>: within the bound \<open>M\<close>, the writer \<open>f\<close> appends the text or reports that it does not fit.\<close>

definition appends :: "int \<Rightarrow> (bytes \<Rightarrow> artifact_error + bytes) \<Rightarrow> bytes \<Rightarrow> bool" where
  "appends M f txt \<longleftrightarrow> (\<forall>buffer. len buffer \<le> M \<longrightarrow>
     f buffer = (if len (buffer @ txt) \<le> M then Inr (buffer @ txt) else Inl ErrArtifactTooLarge))"

lemma appends_text: "appends M f s \<Longrightarrow> s = t \<Longrightarrow> appends M f t"
  by simp

lemma appends_then:
  assumes "appends M f s" and "appends M g t"
  shows "appends M (\<lambda>buffer. case f buffer of Inl err \<Rightarrow> Inl err | Inr buffer' \<Rightarrow> g buffer') (s @ t)"
  unfolding appends_def
proof (intro allI impI)
  fix buffer :: bytes assume fits: "len buffer \<le> M"
  show "(case f buffer of Inl err \<Rightarrow> Inl err | Inr buffer' \<Rightarrow> g buffer') =
      (if len (buffer @ s @ t) \<le> M then Inr (buffer @ s @ t) else Inl ErrArtifactTooLarge)"
  proof (cases "len (buffer @ s) \<le> M")
    case True
    then show ?thesis
      using assms fits by (simp add: appends_def)
  next
    case False
    then have "\<not> len (buffer @ s @ t) \<le> M"
      by (simp add: len_def)
    then show ?thesis
      using assms(1) fits False by (simp add: appends_def)
  qed
qed

lemma appends_parts: "appends M (writeJSONParts marshal M ps) (concat (map (partBytes marshal) ps))"
proof (induction ps)
  case Nil
  then show ?case
    by (simp add: appends_def)
next
  case (Cons p ps)
  have "appends M (\<lambda>buffer. writeBounded M buffer (partBytes marshal p)) (partBytes marshal p)"
    by (simp add: appends_def writeBounded_def len_def)
  from appends_then [OF this Cons] show ?case
    by simp
qed

fun elementsText :: "bool \<Rightarrow> bytes list \<Rightarrow> bytes" where
  "elementsText inner [] = []"
| "elementsText inner (x # xs) = (if inner then ascii '','' else []) @ x @ elementsText True xs"

lemma appends_elements:
  "appends M (writeElements marshal M n vs) (elementsText (n > 0) (map marshal vs))"
proof (induction vs arbitrary: n)
  case Nil
  then show ?case
    by (simp add: appends_def)
next
  case (Cons v vs)
  let ?ps = "(if n > 0 then [Literal '',''] else []) @ [Value v]"
  have "writeElements marshal M n (v # vs) = (\<lambda>buffer. case writeJSONParts marshal M ?ps buffer of
      Inl err \<Rightarrow> Inl err | Inr buffer' \<Rightarrow> writeElements marshal M (Suc n) vs buffer')"
    by (rule ext) (simp only: writeElements.simps)
  note eq = this
  show ?case
    unfolding eq
    by (rule appends_text [OF appends_then [OF appends_parts [of M marshal ?ps] Cons [of "Suc n"]]]) (simp add: partBytes_def)
qed

text \<open>The text of a run: what \<open>json.Marshal\<close> of the whole value lays out.\<close>

definition arrayText :: "bytes list \<Rightarrow> bytes" where
  "arrayText xs = ascii ''['' @ elementsText False xs @ ascii '']''"

definition scenarioText :: "(json_value \<Rightarrow> bytes) \<Rightarrow> Scenario \<Rightarrow> bytes" where
  "scenarioText marshal s =
     ascii ''{\"id\":'' @ marshal (JString (snID s)) @ ascii '',\"version\":'' @ marshal (JString (snVersion s))
     @ ascii '',\"duration_ns\":'' @ marshal (JInt (snDurationNS s)) @ ascii '',\"max_steps\":'' @ marshal (JUint (snMaxSteps s))
     @ (if snActions s = [] then [] else ascii '',\"actions\":'' @ arrayText (map (marshal \<circ> JAction) (snActions s))) @ ascii ''}''"

definition tapeText :: "(json_value \<Rightarrow> bytes) \<Rightarrow> bool \<Rightarrow> Tape \<Rightarrow> bytes" where
  "tapeText marshal nilEntries t =
     ascii ''{\"schema\":'' @ marshal (JString (tpSchema t)) @ ascii '',\"entries\":''
     @ (if nilEntries then ascii ''null'' else arrayText (map (marshal \<circ> JEntry) (tpEntries t))) @ ascii ''}''"

definition outcomeText :: "(json_value \<Rightarrow> bytes) \<Rightarrow> Outcome \<Rightarrow> bytes" where
  "outcomeText marshal oc =
     ascii ''{\"status\":'' @ marshal (JString (ocStatus oc)) @ ascii '',\"steps\":'' @ marshal (JUint (ocSteps oc))
     @ ascii '',\"end_ns\":'' @ marshal (JInt (ocEndNS oc)) @ ascii '',\"observation_digest\":''
     @ marshal (JString (ocObservationDigest oc))
     @ (if ocError oc = [] then [] else ascii '',\"error\":'' @ marshal (JString (ocError oc)))
     @ (if ocViolations oc = [] then [] else ascii '',\"violations\":'' @ arrayText (map (marshal \<circ> JViolation) (ocViolations oc)))
     @ ascii ''}''"

definition runText :: "(json_value \<Rightarrow> bytes) \<Rightarrow> bool \<Rightarrow> Run \<Rightarrow> bytes" where
  "runText marshal nilEntries r =
     ascii ''{\"schema\":'' @ marshal (JString (rnSchema r)) @ ascii '',\"scenario\":'' @ scenarioText marshal (rnScenario r)
     @ ascii '',\"adapter\":'' @ marshal (JAdapter (rnAdapter r)) @ ascii '',\"configuration\":''
     @ marshal (JConfiguration (rnConfiguration r)) @ ascii '',\"reproducibility\":''
     @ marshal (JReproducibility (rnReproducibility r)) @ ascii '',\"decisions\":'' @ tapeText marshal nilEntries (rnDecisions r)
     @ ascii '',\"outcome\":'' @ outcomeText marshal (rnOutcome r) @ ascii ''}'' @ [10]"

lemma appends_array:
  "appends M (\<lambda>buffer. case writeJSONParts marshal M [Literal opening] buffer of
        Inl err \<Rightarrow> Inl err
      | Inr b2 \<Rightarrow> (case writeElements marshal M 0 vs b2 of
          Inl err \<Rightarrow> Inl err
        | Inr b3 \<Rightarrow> writeJSONParts marshal M [Literal closing] b3))
     (ascii opening @ elementsText False (map marshal vs) @ ascii closing)"
  by (rule appends_text [OF appends_then [OF appends_parts appends_then [OF appends_elements appends_parts]]])
    (simp add: partBytes_def)

lemma appends_optional:
  "appends M f s \<Longrightarrow> appends M (\<lambda>buffer. if b then f buffer else Inr buffer) (if b then s else [])"
  by (simp add: appends_def)

lemma appends_branch:
  "appends M f s \<Longrightarrow> appends M g t \<Longrightarrow> appends M (\<lambda>buffer. if b then f buffer else g buffer) (if b then s else t)"
  by (simp add: appends_def)

lemma appends_scenario: "appends M (encodeScenario marshal M s) (scenarioText marshal s)"
  unfolding encodeScenario_def
  by (rule appends_text [OF appends_then [OF appends_parts appends_then [OF appends_optional
        [OF appends_array] appends_parts]]])
    (simp add: scenarioText_def arrayText_def partBytes_def)

lemma appends_tape: "appends M (encodeTape marshal M nilEntries t) (tapeText marshal nilEntries t)"
  unfolding encodeTape_def
  by (rule appends_text [OF appends_then [OF appends_parts appends_branch [OF appends_parts
        appends_array]]])
    (simp add: tapeText_def arrayText_def partBytes_def)

lemma appends_outcome: "appends M (encodeOutcome marshal M oc) (outcomeText marshal oc)"
  unfolding encodeOutcome_def
  by (rule appends_text [OF appends_then [OF appends_parts appends_then [OF appends_optional
        [OF appends_array] appends_parts]]])
    (simp add: outcomeText_def arrayText_def partBytes_def)

lemma appends_run: "appends M (encodeRun marshal M nilEntries r) (runText marshal nilEntries r)"
  unfolding encodeRun_def
  by (rule appends_text [OF appends_then [OF appends_parts appends_then [OF appends_scenario appends_then [OF appends_parts
        appends_then [OF appends_tape appends_then [OF appends_parts appends_then [OF appends_outcome appends_parts]]]]]]])
    (simp add: runText_def partBytes_def)

text \<open>
  The streaming encoder is the one-shot encoder with a size check: a valid run within the resource budget is
  written as the JSON text of its fields when that text fits the limit, and refused as too large exactly when it does
  not; an invalid run writes nothing.
\<close>

theorem encode_exact:
  "encodeWithLimit sha marshal nilEntries r maximum =
     (if maximum \<le> 0 then Inl ErrInvalidArtifact
      else case Validate sha r of Some err \<Rightarrow> Inl err
      | None \<Rightarrow> (case (if rnSchema r \<noteq> RunSchemaV1 then validateResourceBudget r maximum else None) of Some err \<Rightarrow> Inl err
        | None \<Rightarrow> if int (length (runText marshal nilEntries r)) \<le> maximum then Inr (runText marshal nilEntries r)
                   else Inl ErrArtifactTooLarge))"
  using appends_run [of maximum marshal nilEntries r]
  by (auto simp: encodeWithLimit_def appends_def len_def split: option.split)

section \<open>The resource budget\<close>

lemma len_nonneg [simp]: "0 \<le> len xs"
  by (simp add: len_def)

lemma addSizes_exact:
  "list_all (\<lambda>n. 0 \<le> n) ns \<Longrightarrow> used \<le> budget \<Longrightarrow> addSizes budget ns used =
     (if used + sum_list ns \<le> budget then Inr (used + sum_list ns) else Inl ErrArtifactTooLarge)"
proof (induction ns arbitrary: used)
  case (Cons n ns)
  have "0 \<le> sum_list ns"
    using Cons.prems(1) by (simp add: list_all_iff sum_list_nonneg)
  then show ?case
    using Cons.prems Cons.IH [of "used + n"] by (auto simp: addSize_def)
qed simp

definition optionSizes :: "DOption list \<Rightarrow> int list" where
  "optionSizes opts = map (\<lambda>opt. len (oID opt)) opts"

definition entrySizes :: "TapeEntry \<Rightarrow> int list" where
  "entrySizes e = (len (chID (teChoice e)) + len (chKind (teChoice e)) + len (chContext (teChoice e)) + len (teDomainDigest e)
     + len (teContextDigest e) + len (selOption (teSelection e))) # optionSizes (chOptions (teChoice e))"

definition entryWithin :: "TapeEntry \<Rightarrow> bool" where
  "entryWithin e \<longleftrightarrow> length (chContext (teChoice e)) \<le> MaxDecisionContextBytes \<and> length (chOptions (teChoice e)) \<le> MaxDecisionOptions
     \<and> length (chID (teChoice e)) \<le> MaxDecisionTextBytes \<and> length (chKind (teChoice e)) \<le> MaxDecisionTextBytes
     \<and> length (selOption (teSelection e)) \<le> MaxDecisionTextBytes
     \<and> list_all (\<lambda>opt. length (oID opt) \<le> MaxDecisionTextBytes) (chOptions (teChoice e))"

lemma addSize_Inr: "addSize budget n used = Inr used' \<longleftrightarrow> 0 \<le> n \<and> used + n \<le> budget \<and> used' = used + n"
  by (auto simp: addSize_def)

lemma budgetOptions_exact:
  "used \<le> budget \<Longrightarrow> budgetOptions budget opts used = Inr used' \<longleftrightarrow>
     list_all (\<lambda>opt. length (oID opt) \<le> MaxDecisionTextBytes) opts \<and> used' = used + sum_list (optionSizes opts) \<and> used' \<le> budget"
proof (induction opts arbitrary: used)
  case Nil
  then show ?case
    by (auto simp: optionSizes_def)
next
  case (Cons opt opts)
  have "0 \<le> sum_list (optionSizes opts)"
    by (auto simp: optionSizes_def intro!: sum_list_nonneg)
  then show ?case
    using Cons.IH [of "used + len (oID opt)"] Cons.prems
    using len_nonneg [of "oID opt"] by (auto simp: optionSizes_def addSize_def not_less simp del: len_nonneg)
qed

lemma budgetEntries_exact:
  "used \<le> budget \<Longrightarrow> budgetEntries budget es totalOptions used = Inr used' \<longleftrightarrow>
     list_all entryWithin es \<and> (es = [] \<or> totalOptions + (\<Sum>e\<leftarrow>es. len (chOptions (teChoice e))) \<le> MaxTotalDecisionOptions)
     \<and> used' = used + sum_list (concat (map entrySizes es)) \<and> used' \<le> budget"
proof (induction es arbitrary: totalOptions used)
  case (Cons e es)
  let ?c = "teChoice e"
  let ?n = "len (chID ?c) + len (chKind ?c) + len (chContext ?c) + len (teDomainDigest e) + len (teContextDigest e)
      + len (selOption (teSelection e))"
  have pos: "0 \<le> sum_list (optionSizes (chOptions ?c))" "0 \<le> sum_list (concat (map entrySizes es))"
      "0 \<le> (\<Sum>e\<leftarrow>es. len (chOptions (teChoice e)))" "0 \<le> ?n"
    by (auto simp: optionSizes_def entrySizes_def intro!: sum_list_nonneg add_nonneg_nonneg)
  have rest: "0 \<le> (\<Sum>e\<leftarrow>es. len (chOptions (teChoice e)))"
    using pos(3) .
  consider (limits) "\<not> (length (chContext ?c) \<le> MaxDecisionContextBytes \<and> length (chOptions ?c) \<le> MaxDecisionOptions
        \<and> length (chID ?c) \<le> MaxDecisionTextBytes \<and> length (chKind ?c) \<le> MaxDecisionTextBytes
        \<and> length (selOption (teSelection e)) \<le> MaxDecisionTextBytes)"
    | (options) "totalOptions + len (chOptions ?c) > MaxTotalDecisionOptions"
    | (ok) "length (chContext ?c) \<le> MaxDecisionContextBytes" "length (chOptions ?c) \<le> MaxDecisionOptions"
        "length (chID ?c) \<le> MaxDecisionTextBytes" "length (chKind ?c) \<le> MaxDecisionTextBytes"
        "length (selOption (teSelection e)) \<le> MaxDecisionTextBytes" "totalOptions + len (chOptions ?c) \<le> MaxTotalDecisionOptions"
    by linarith
  then show ?case
  proof cases
    case limits
    then show ?thesis
      by (auto simp: entryWithin_def Let_def not_less)
  next
    case options
    then show ?thesis
      using rest by (auto simp: Let_def)
  next
    case ok
    have unfolded: "budgetEntries budget (e # es) totalOptions used = (case addSize budget ?n used of Inl err \<Rightarrow> Inl err
        | Inr used1 \<Rightarrow> (case budgetOptions budget (chOptions ?c) used1 of Inl err \<Rightarrow> Inl err
            | Inr used2 \<Rightarrow> budgetEntries budget es (totalOptions + len (chOptions ?c)) used2))"
      using ok by (simp add: Let_def not_less)
    show ?thesis
    proof (cases "used + ?n \<le> budget")
      case False
      then have "addSize budget ?n used = Inl ErrArtifactTooLarge"
        by (simp add: addSize_def)
      moreover have "\<not> used + sum_list (concat (map entrySizes (e # es))) \<le> budget"
        using False pos(1,2) by (simp add: entrySizes_def)
      ultimately show ?thesis
        unfolding unfolded by auto
    next
      case True
      then have add: "addSize budget ?n used = Inr (used + ?n)"
        using addSize_Inr pos(4) by blast
      note opts = budgetOptions_exact [OF True, of "chOptions ?c"]
      show ?thesis
      proof (cases "budgetOptions budget (chOptions ?c) (used + ?n)")
        case (Inl err)
        then have "\<not> (entryWithin e \<and> used + sum_list (concat (map entrySizes (e # es))) \<le> budget)"
          using opts [of "used + ?n + sum_list (optionSizes (chOptions ?c))"] pos(2)
          by (auto simp: entryWithin_def entrySizes_def)
        then show ?thesis
          unfolding unfolded using add Inl by auto
      next
        case (Inr used2)
        then have used2: "list_all (\<lambda>opt. length (oID opt) \<le> MaxDecisionTextBytes) (chOptions ?c)"
            "used2 = used + ?n + sum_list (optionSizes (chOptions ?c))" "used2 \<le> budget"
          using opts by auto
        have within: "entryWithin e"
          using ok used2(1) by (simp add: entryWithin_def)
        have count: "(es = [] \<or> totalOptions + len (chOptions ?c) + (\<Sum>e\<leftarrow>es. len (chOptions (teChoice e))) \<le> MaxTotalDecisionOptions)
            = (totalOptions + (\<Sum>e\<leftarrow>e # es. len (chOptions (teChoice e))) \<le> MaxTotalDecisionOptions)"
          using ok(6) by (cases "es = []") (auto simp: add.assoc)
        have bytes: "used + sum_list (concat (map entrySizes (e # es))) = used2 + sum_list (concat (map entrySizes es))"
          using used2(2) by (simp add: entrySizes_def)
        have step: "budgetEntries budget (e # es) totalOptions used = budgetEntries budget es (totalOptions + len (chOptions ?c)) used2"
          by (simp only: unfolded add Inr sum.case)
        show ?thesis
          unfolding step Cons.IH [OF used2(3)] count bytes using within by simp
      qed
    qed
  qed
qed auto

definition runSizes :: "Run \<Rightarrow> int list" where
  "runSizes r = headerSizes r @ concat (map actionSizes (snActions (rnScenario r)))
     @ concat (map entrySizes (tpEntries (rnDecisions r))) @ concat (map violationSizes (ocViolations (rnOutcome r)))"

text \<open>
  The resource budget is a bound on one sum, without overflow or double counting: a run passes exactly when each
  decision keeps its own limits, there are at most a million options, and the bytes of all its texts and payloads
  together are at most half of the limit.
\<close>

theorem budget_exact:
  "validateResourceBudget r maximum = None \<longleftrightarrow> 0 < maximum \<and> list_all entryWithin (tpEntries (rnDecisions r))
     \<and> (\<Sum>e\<leftarrow>tpEntries (rnDecisions r). int (length (chOptions (teChoice e)))) \<le> MaxTotalDecisionOptions
     \<and> sum_list (runSizes r) \<le> maximum div 2"
proof (cases "0 < maximum")
  case True
  let ?b = "maximum div 2"
  let ?h = "headerSizes r @ concat (map actionSizes (snActions (rnScenario r)))"
  let ?es = "tpEntries (rnDecisions r)"
  let ?v = "concat (map violationSizes (ocViolations (rnOutcome r)))"
  have nonneg: "list_all (\<lambda>n. 0 \<le> n) ?h" "list_all (\<lambda>n. 0 \<le> n) ?v" "list_all (\<lambda>n. 0 \<le> n) (concat (map entrySizes ?es))"
    by (auto simp: list_all_iff headerSizes_def actionSizes_def violationSizes_def entrySizes_def optionSizes_def)
  then have sums: "0 \<le> sum_list ?h" "0 \<le> sum_list ?v" "0 \<le> sum_list (concat (map entrySizes ?es))"
    by (auto simp only: list_all_iff intro: sum_list_nonneg)
  have total: "sum_list (runSizes r) = sum_list ?h + sum_list (concat (map entrySizes ?es)) + sum_list ?v"
    by (simp add: runSizes_def)
  have start: "addSizes ?b ?h 0 = (if sum_list ?h \<le> ?b then Inr (sum_list ?h) else Inl ErrArtifactTooLarge)"
    using addSizes_exact [OF nonneg(1), of 0 ?b] True by simp
  have opts: "?es = [] \<or> 0 + (\<Sum>e\<leftarrow>?es. len (chOptions (teChoice e))) \<le> MaxTotalDecisionOptions \<longleftrightarrow>
      (\<Sum>e\<leftarrow>?es. int (length (chOptions (teChoice e)))) \<le> MaxTotalDecisionOptions"
    by (auto simp: len_def MaxTotalDecisionOptions_def)
  show ?thesis
  proof (cases "sum_list ?h \<le> ?b")
    case False
    then show ?thesis
      using start True sums total by (simp add: validateResourceBudget_def Let_def)
  next
    case fits: True
    note entries = budgetEntries_exact [OF fits, of ?es 0]
    show ?thesis
    proof (cases "budgetEntries ?b ?es 0 (sum_list ?h)")
      case (Inl err)
      then show ?thesis
        using start True fits sums total entries [of "sum_list ?h + sum_list (concat (map entrySizes ?es))"] opts
        by (auto simp: validateResourceBudget_def Let_def)
    next
      case (Inr used)
      then have "list_all entryWithin ?es" "(\<Sum>e\<leftarrow>?es. int (length (chOptions (teChoice e)))) \<le> MaxTotalDecisionOptions"
          "used = sum_list ?h + sum_list (concat (map entrySizes ?es))" "used \<le> ?b"
        using entries [of used] opts by auto
      then show ?thesis
        using start True fits total addSizes_exact [OF nonneg(2), of used ?b] Inr
        by (auto simp: validateResourceBudget_def Let_def)
    qed
  qed
qed (simp add: validateResourceBudget_def)

section \<open>Accepted configurations\<close>

lemma validIdentifier_nonempty: "validIdentifier m slash n \<Longrightarrow> m \<noteq> []"
  by (auto simp: validIdentifier_def)

lemma membersProper_iff:
  "membersProper previous ms \<longleftrightarrow> list_all (\<lambda>m. validIdentifier m False 64) ms \<and> successively (\<noteq>) ms
     \<and> (ms \<noteq> [] \<longrightarrow> previous \<noteq> Some (hd ms))"
  by (induction previous ms rule: membersProper.induct) (auto simp: successively_Cons)

lemma configuration_members:
  assumes "validateConfiguration c roles = None"
  shows "cfMembers c \<noteq> []" "length (cfMembers c) \<le> MaxMembers" "sorted (cfMembers c)" "distinct (cfMembers c)"
    "[] \<notin> set (cfMembers c)" "list_all (\<lambda>m. validIdentifier m False 64) (cfMembers c)"
proof -
  have ms: "cfMembers c \<noteq> []" "length (cfMembers c) \<le> MaxMembers" "sorted (cfMembers c)"
      "membersProper None (cfMembers c)"
    using assms by (auto simp: validateConfiguration_def Let_def sorted_sort_id split: if_splits)
  then show "cfMembers c \<noteq> []" "length (cfMembers c) \<le> MaxMembers" "sorted (cfMembers c)"
    by simp_all
  show v: "list_all (\<lambda>m. validIdentifier m False 64) (cfMembers c)"
    using ms(4) by (simp add: membersProper_iff)
  then show "[] \<notin> set (cfMembers c)"
    using validIdentifier_nonempty by (auto simp: list_all_iff)
  show "distinct (cfMembers c)"
    using ms(3,4) sorted_successively_neq by (auto simp: membersProper_iff)
qed

lemma configuration_roles:
  assumes "validateConfiguration c roles = None"
  shows "cfVoters c = [] \<and> cfLearners c = [] \<or> validateMembership (membershipOf (cfVoters c) (cfLearners c)) (cfMembers c)"
  using assms configuration_members(3) [OF assms]
  by (auto simp: validateConfiguration_def Let_def sorted_sort_id ValidateMembership_def split: if_splits)

lemma configuration_network:
  assumes "validateConfiguration c roles = None"
  shows "validateLink \<lparr>MinLatency = cfNetworkMinLatencyNS c, MaxLatency = cfNetworkMaxLatencyNS c,
    LossProbability = cfNetworkLossProbability c\<rparr> = None"
  using assms
  by (auto simp: validateConfiguration_def validateLink_def lossInvalid_def split: if_splits gofloat.splits)

text \<open>The configuration of one node, as the harness builds it.\<close>

definition nodeConfig :: "Configuration \<Rightarrow> NodeID \<Rightarrow> Config" where
  "nodeConfig c i = \<lparr>cID = i, cMembers = cfMembers c, cVoters = cfVoters c, cLearners = cfLearners c, AppliedIndex = 0\<rparr>"

lemma configuration_initial:
  assumes "validateConfiguration c roles = None"
  shows "snd (initialMembershipOf (nodeConfig c i) (cfMembers c))"
    "validateMembership (fst (initialMembershipOf (nodeConfig c i) (cfMembers c))) (cfMembers c)"
proof -
  note ms = configuration_members [OF assms]
  have "validateMembership (stableMembership (cfMembers c) []) (cfMembers c)"
    using ms by (simp add: validateMembership_iff stableMembership_def canonicalNodeSet_iff sorted_sort_id)
  moreover have "stableMembership (cfVoters c) (cfLearners c) = membershipOf (cfVoters c) (cfLearners c)"
    if "validateMembership (membershipOf (cfVoters c) (cfLearners c)) (cfMembers c)"
    using that by (auto simp: validateMembership_iff membershipOf_def zeroMembership_def stableMembership_def canonicalNodeSet_iff
        sorted_sort_id)
  moreover have "validateMembership (membershipOf (cfVoters c) (cfLearners c)) (cfMembers c) \<Longrightarrow> cfVoters c \<noteq> []"
    by (simp add: validateMembership_iff membershipOf_def)
  ultimately show "snd (initialMembershipOf (nodeConfig c i) (cfMembers c))"
      "validateMembership (fst (initialMembershipOf (nodeConfig c i) (cfMembers c))) (cfMembers c)"
    using configuration_roles [OF assms]
    by (auto simp: initialMembershipOf_def nodeConfig_def Let_def)
qed

lemma configuration_node:
  assumes "validateConfiguration c roles = None" and "i \<in> set (cfMembers c)"
  shows "validate (nodeConfig c i) zeroState = None"
proof -
  note ms = configuration_members [OF assms(1)]
  have "\<not> hasDuplicateNeighbour (cfMembers c)"
    using ms(3,4) hasDuplicateNeighbour_distinct by blast
  moreover obtain m where "initialMembershipOf (nodeConfig c i) (cfMembers c) = (m, True)"
    using configuration_initial(1) [OF assms(1), of i] by (metis prod.collapse)
  moreover have "nodeConfig c i = \<lparr>cID = i, cMembers = cfMembers c, cVoters = cfVoters c, cLearners = cfLearners c, AppliedIndex = 0\<rparr>"
    by (simp add: nodeConfig_def)
  ultimately show ?thesis
    using ms assms(2)
    by (auto simp: validate_def validateTail_def zeroState_def zeroSnapshot_def sorted_sort_id Let_def zeroMembership_def
        membershipIsZero_def)
qed

definition exRun :: Run where
  "exRun = \<lparr>rnSchema = RunSchema,
     rnScenario = \<lparr>snID = ''idle'', snVersion = ''1'', snDurationNS = 9, snMaxSteps = 5, snActions = []\<rparr>,
     rnAdapter = \<lparr>adID = ''x'', adVersion = ''1''\<rparr>,
     rnConfiguration = \<lparr>cfMembers = [''a'', ''b''], cfVoters = [], cfLearners = [], cfInfrastructureSeed = 1,
       cfNetworkMinLatencyNS = 1, cfNetworkMaxLatencyNS = 2, cfNetworkLossProbability = Finite 0,
       cfElectionTimeoutMinNS = 3, cfElectionTimeoutMaxNS = 4, cfHeartbeatIntervalNS = 1, cfStorageLatencyNS = 0,
       cfStopOnViolation = True, cfVotersPresent = False, cfLearnersPresent = False\<rparr>,
     rnReproducibility = NewReproducibility (''unknown'', False) ''go1'' 1,
     rnDecisions = \<lparr>tpSchema = DecisionSchema, tpEntries = []\<rparr>,
     rnOutcome = \<lparr>ocStatus = OutcomeCompleted, ocSteps = 0, ocEndNS = 9,
       ocObservationDigest = EncodeToString (replicate 32 0), ocError = [], ocViolations = []\<rparr>\<rparr>"

lemma exRun_configuration: "validateConfiguration (rnConfiguration exRun) True = None"
  by (simp add: exRun_def validateConfiguration_def lossInvalid_def MaxMembers_def MaxVirtualDurationNS_def
      validIdentifier_def alphanumeric_def less_eq_char_def)

text \<open>
  A configuration that validation accepts starts a cluster: the network accepts its link, and the constructor of
  the Raft node accepts it for every member on an empty store, with the members of the configuration and a valid
  initial membership.
\<close>

theorem accepted_configuration:
  assumes "validateConfiguration c roles = None" and "i \<in> set (cfMembers c)"
  shows "validateLink \<lparr>MinLatency = cfNetworkMinLatencyNS c, MaxLatency = cfNetworkMaxLatencyNS c,
      LossProbability = cfNetworkLossProbability c\<rparr> = None
    \<and> (\<exists>n. New (nodeConfig c i) zeroState = Some (Inr n) \<and> nid n = i \<and> RaftData.members n = cfMembers c
        \<and> validateMembership (initialMembership n) (cfMembers c))"
proof -
  note init = configuration_initial [OF assms(1), of i]
  obtain m where m: "initialMembershipOf (nodeConfig c i) (cfMembers c) = (m, True)" "validateMembership m (cfMembers c)"
    using init by (cases "initialMembershipOf (nodeConfig c i) (cfMembers c)") auto
  have sorted: "sort (cfMembers c) = cfMembers c"
    using configuration_members(3) [OF assms(1)] by (simp add: sorted_sort_id)
  have "\<exists>n. New (nodeConfig c i) zeroState = Some (Inr n) \<and> nid n = i \<and> RaftData.members n = cfMembers c \<and> initialMembership n = m"
    using configuration_node [OF assms] m(1) sorted
    by (auto simp: New_def refreshMembership_def nodeConfig_def Let_def membershipAt_def zeroState_def zeroSnapshot_def)
  then show ?thesis
    using configuration_network [OF assms(1)] m(2) by auto
qed

theorem accepted_configuration_witness:
  "validateConfiguration (rnConfiguration exRun) True = None \<and>
   (\<exists>n. New (nodeConfig (rnConfiguration exRun) ''b'') zeroState = Some (Inr n) \<and> nid n = ''b'')"
  using accepted_configuration [OF exRun_configuration, of "''b''"] exRun_configuration by (auto simp: exRun_def)

section \<open>Accepted runs\<close>













end
