(* ===== verification/Minimize.thy ===== *)
theory Minimize
  imports Explore ArtifactRun
begin

text \<open>
  Minimization of violating runs (\<open>src/minimize/minimize.go\<close>): delta debugging of the actions of the scenario and
  of the guidance entries, then simpler selections. \<open>experiment.Execute\<close> is the argument \<open>execute\<close>, a program that
  asks the decider it is given; the build data of a new artifact are the argument \<open>build\<close>. The outer \<open>None\<close> is a
  panic of a decider. Clones are the identity on immutable values.
\<close>

section \<open>Bounds and results\<close>

datatype min_error =
    ErrMinBounds | ErrNoViolation | ErrNotReproducible | ErrUnsupportedAdapter
  | ErrMinArtifact artifact_error | ErrMinDecision dec_error | ErrMinRun run_error

definition MaxRunsLimit :: int where "MaxRunsLimit = 100000"

record MinBounds =
  mbMaxRuns :: int
  mbFallbackSeed :: u64
  mbTargetFingerprint :: string

record MinResult =
  mrRun :: Run
  mrRuns :: int
  mrActionsRemoved :: int
  mrGuidanceEntriesRemoved :: int
  mrSelectionsShrunk :: int
  mrTruncated :: bool

type_synonym evaluator = "Scenario \<Rightarrow> Tape \<Rightarrow> (min_error + Run \<times> bool) option"

section \<open>Simpler selections\<close>

definition optionExists :: "Choice \<Rightarrow> string \<Rightarrow> bool" where
  "optionExists c i = list_ex (\<lambda>opt. oID opt = i) (chOptions c)"

definition selectionExists :: "Selection list \<Rightarrow> Selection \<Rightarrow> bool" where
  "selectionExists sels target = list_ex (\<lambda>s. selOption s = selOption target) sels"

text \<open>The halving cursor between the minimum and the recorded number.\<close>

function cursorValues :: "int \<Rightarrow> int \<Rightarrow> int \<Rightarrow> int list" where
  "cursorValues minimum original cursor =
     (if cursor > minimum \<and> cursor < original then
        cursor # (if original - cursor \<le> 1 then [] else cursorValues minimum original (cursor + (original - cursor) div 2))
      else [])"
  by pat_completeness auto
termination
  by (relation "measure (\<lambda>(minimum, original, cursor). nat (original - cursor))") auto

declare cursorValues.simps [simp del]

definition simplerSelections :: "TapeEntry \<Rightarrow> Selection list" where
  "simplerSelections e =
     (let c = teChoice e; current = teSelection e in
      if length (chOptions c) > 0 then
        fold (\<lambda>preferred result.
            if preferred \<noteq> selOption current \<and> optionExists c preferred \<and> \<not> selectionExists result (optionSelection preferred)
            then result @ [optionSelection preferred] else result)
          [''drop'', oID (hd (chOptions c))] []
      else (case selNumber current of
          None \<Rightarrow> []
        | Some original \<Rightarrow>
            let minimum = the (chMin c) in
            if original \<le> minimum then []
            else map numberSelection
              (minimum # cursorValues minimum original (minimum + (original - minimum) div 2))))"

definition hasViolation :: "Outcome \<Rightarrow> string \<Rightarrow> bool" where
  "hasViolation oc target = list_ex (\<lambda>v. vFingerprint v = target) (ocViolations oc)"

section \<open>Delta debugging\<close>

definition removeChunk :: "nat \<Rightarrow> nat \<Rightarrow> 'a list \<Rightarrow> 'a list" where
  "removeChunk start stop xs = take start xs @ drop stop xs"

text \<open>
  The inner loop over the chunks of a list of a given length, for a test of the candidate without the chunk from
  \<open>start\<close> to \<open>stop\<close>: the runs so far, and the accepted candidate with its chunk, if any.
\<close>

function tryChunks ::
    "(nat \<Rightarrow> nat \<Rightarrow> (min_error + Run \<times> bool) option) \<Rightarrow> nat \<Rightarrow> nat \<Rightarrow> int \<Rightarrow> nat \<Rightarrow> int
       \<Rightarrow> (min_error + int \<times> (Run \<times> nat \<times> nat) option) option" where
  "tryChunks test width chunk maxRuns start runs =
     (if start < width \<and> runs < maxRuns then
        (let stop = min (start + chunk) width in
         case test start stop of
           None \<Rightarrow> None
         | Some (Inl err) \<Rightarrow> Some (Inl err)
         | Some (Inr (candidate, matches)) \<Rightarrow>
             if matches then Some (Inr (runs + 1, Some (candidate, start, stop)))
             else tryChunks test width chunk maxRuns (start + chunk) (runs + 1))
      else Some (Inr (runs, None)))"
  by pat_completeness auto
termination
  by (relation "measure (\<lambda>(test, width, chunk, maxRuns, start, runs). nat (maxRuns - runs))") auto

declare tryChunks.simps [simp del]

lemma tryChunks_step:
  "start < width \<Longrightarrow> runs < maxRuns \<Longrightarrow> tryChunks test width chunk maxRuns start runs =
     (case test start (min (start + chunk) width) of
        None \<Rightarrow> None
      | Some (Inl err) \<Rightarrow> Some (Inl err)
      | Some (Inr (candidate, matches)) \<Rightarrow>
          if matches then Some (Inr (runs + 1, Some (candidate, start, min (start + chunk) width)))
          else tryChunks test width chunk maxRuns (start + chunk) (runs + 1))"
  by (subst tryChunks.simps) (simp only: Let_def simp_thms if_True)

lemma tryChunks_stop:
  "\<not> (start < width \<and> runs < maxRuns) \<Longrightarrow> tryChunks test width chunk maxRuns start runs = Some (Inr (runs, None))"
  by (subst tryChunks.simps) auto

lemma tryChunks_runs:
  "tryChunks test width chunk maxRuns start runs = Some (Inr (runs', found)) \<Longrightarrow>
     runs \<le> runs' \<and> (runs \<le> maxRuns \<longrightarrow> runs' \<le> maxRuns) \<and> (start < width \<and> runs < maxRuns \<longrightarrow> runs < runs')"
proof (induction test width chunk maxRuns start runs rule: tryChunks.induct)
  case (1 test width chunk maxRuns start runs)
  show ?case
  proof (cases "start < width \<and> runs < maxRuns")
    case True
    then have step: "(case test start (min (start + chunk) width) of
        None \<Rightarrow> None
      | Some (Inl err) \<Rightarrow> Some (Inl err)
      | Some (Inr (candidate, matches)) \<Rightarrow>
          if matches then Some (Inr (runs + 1, Some (candidate, start, min (start + chunk) width)))
          else tryChunks test width chunk maxRuns (start + chunk) (runs + 1)) = Some (Inr (runs', found))"
      using 1(2) tryChunks_step by simp
    then obtain candidate matches where t: "test start (min (start + chunk) width) = Some (Inr (candidate, matches))"
      by (auto split: option.splits sum.splits)
    show ?thesis
    proof (cases matches)
      case True
      then show ?thesis
        using step t \<open>start < width \<and> runs < maxRuns\<close> by simp
    next
      case False
      then show ?thesis
        using 1(1) [OF True refl t refl refl] step t True by simp
    qed
  qed (use 1(2) tryChunks_stop in simp)
qed

definition chunkSize :: "nat \<Rightarrow> nat \<Rightarrow> nat" where
  "chunkSize width granularity = (width + granularity - 1) div granularity"

definition withActions :: "Scenario \<Rightarrow> Action list \<Rightarrow> Scenario" where
  "withActions s acts = s\<lparr>snActions := acts\<rparr>"

definition withEntries :: "Tape \<Rightarrow> TapeEntry list \<Rightarrow> Tape" where
  "withEntries t es = t\<lparr>tpEntries := es\<rparr>"

definition testActions :: "evaluator \<Rightarrow> Run \<Rightarrow> Tape \<Rightarrow> nat \<Rightarrow> nat \<Rightarrow> (min_error + Run \<times> bool) option" where
  "testActions evaluate current guide start stop =
     evaluate (withActions (rnScenario current) (removeChunk start stop (snActions (rnScenario current)))) guide"

definition testEntries :: "evaluator \<Rightarrow> Run \<Rightarrow> Tape \<Rightarrow> nat \<Rightarrow> nat \<Rightarrow> (min_error + Run \<times> bool) option" where
  "testEntries evaluate current guide start stop =
     evaluate (rnScenario current) (withEntries guide (removeChunk start stop (tpEntries guide)))"

text \<open>The first loop: chunks of actions; an accepted candidate brings its own decisions as the guide.\<close>

function reduceActions ::
    "evaluator \<Rightarrow> int \<Rightarrow> Run \<Rightarrow> Tape \<Rightarrow> nat \<Rightarrow> int \<Rightarrow> (min_error + Run \<times> Tape \<times> int) option" where
  "reduceActions evaluate maxRuns current guide granularity runs =
     (let width = length (snActions (rnScenario current)) in
      if width > 0 \<and> runs < maxRuns then
        (case tryChunks (testActions evaluate current guide) width (chunkSize width granularity) maxRuns 0 runs of
           None \<Rightarrow> None
         | Some (Inl err) \<Rightarrow> Some (Inl err)
         | Some (Inr (runs', Some (candidate, start, stop))) \<Rightarrow>
             reduceActions evaluate maxRuns candidate (rnDecisions candidate) (max 2 (granularity - 1)) runs'
         | Some (Inr (runs', None)) \<Rightarrow>
             if granularity \<ge> width then Some (Inr (current, guide, runs'))
             else reduceActions evaluate maxRuns current guide (min width (granularity * 2)) runs')
      else Some (Inr (current, guide, runs)))"
  by pat_completeness auto
termination
  by (relation "measure (\<lambda>(evaluate, maxRuns, current, guide, granularity, runs). nat (maxRuns - runs))")
    (auto dest: tryChunks_runs)

declare reduceActions.simps [simp del]

text \<open>The second loop: chunks of guidance entries.\<close>

function reduceEntries ::
    "evaluator \<Rightarrow> int \<Rightarrow> Run \<Rightarrow> Tape \<Rightarrow> nat \<Rightarrow> int \<Rightarrow> (min_error + Run \<times> Tape \<times> int) option" where
  "reduceEntries evaluate maxRuns current guide granularity runs =
     (let width = length (tpEntries guide) in
      if width > 0 \<and> runs < maxRuns then
        (case tryChunks (testEntries evaluate current guide) width (chunkSize width granularity) maxRuns 0 runs of
           None \<Rightarrow> None
         | Some (Inl err) \<Rightarrow> Some (Inl err)
         | Some (Inr (runs', Some (candidate, start, stop))) \<Rightarrow>
             reduceEntries evaluate maxRuns candidate (withEntries guide (removeChunk start stop (tpEntries guide)))
               (max 2 (granularity - 1)) runs'
         | Some (Inr (runs', None)) \<Rightarrow>
             if granularity \<ge> width then Some (Inr (current, guide, runs'))
             else reduceEntries evaluate maxRuns current guide (min width (granularity * 2)) runs')
      else Some (Inr (current, guide, runs)))"
  by pat_completeness auto
termination
  by (relation "measure (\<lambda>(evaluate, maxRuns, current, guide, granularity, runs). nat (maxRuns - runs))")
    (auto dest: tryChunks_runs)

declare reduceEntries.simps [simp del]

section \<open>Shrinking selections\<close>

definition withSelection :: "Tape \<Rightarrow> nat \<Rightarrow> Selection \<Rightarrow> Tape" where
  "withSelection t i s = withEntries t ((tpEntries t)[i := (tpEntries t ! i)\<lparr>teSelection := s\<rparr>])"

text \<open>The selections of one entry: the state after the loop and whether one was accepted.\<close>

fun trySelections ::
    "evaluator \<Rightarrow> int \<Rightarrow> nat \<Rightarrow> Selection list \<Rightarrow> Run \<Rightarrow> Tape \<Rightarrow> int \<Rightarrow> (min_error + Run \<times> Tape \<times> int \<times> bool) option" where
  "trySelections evaluate maxRuns i [] current guide runs = Some (Inr (current, guide, runs, False))"
| "trySelections evaluate maxRuns i (s # rest) current guide runs =
     (case evaluate (rnScenario current) (withSelection guide i s) of
        None \<Rightarrow> None
      | Some (Inl err) \<Rightarrow> Some (Inl err)
      | Some (Inr (candidate, matches)) \<Rightarrow>
          if matches then Some (Inr (candidate, withSelection guide i s, runs + 1, True))
          else if runs + 1 \<ge> maxRuns then Some (Inr (current, guide, runs + 1, False))
          else trySelections evaluate maxRuns i rest current guide (runs + 1))"

fun shrinkEntries ::
    "evaluator \<Rightarrow> int \<Rightarrow> nat list \<Rightarrow> Run \<Rightarrow> Tape \<Rightarrow> int \<Rightarrow> int \<Rightarrow> (min_error + Run \<times> Tape \<times> int \<times> int) option" where
  "shrinkEntries evaluate maxRuns [] current guide runs shrunk = Some (Inr (current, guide, runs, shrunk))"
| "shrinkEntries evaluate maxRuns (i # rest) current guide runs shrunk =
     (if runs \<ge> maxRuns then Some (Inr (current, guide, runs, shrunk))
      else case trySelections evaluate maxRuns i (simplerSelections (tpEntries guide ! i)) current guide runs of
        None \<Rightarrow> None
      | Some (Inl err) \<Rightarrow> Some (Inl err)
      | Some (Inr (current', guide', runs', took)) \<Rightarrow>
          shrinkEntries evaluate maxRuns rest current' guide' runs' (if took then shrunk + 1 else shrunk))"

section \<open>The minimizer\<close>

definition minimize :: "Run \<Rightarrow> MinBounds \<Rightarrow> evaluator \<Rightarrow> (min_error + MinResult) option" where
  "minimize input b evaluate =
     (case reduceActions evaluate (mbMaxRuns b) input (rnDecisions input) 2 0 of
        None \<Rightarrow> None
      | Some (Inl err) \<Rightarrow> Some (Inl err)
      | Some (Inr (current1, guide1, runs1)) \<Rightarrow>
          (case reduceEntries evaluate (mbMaxRuns b) current1 guide1 2 runs1 of
             None \<Rightarrow> None
           | Some (Inl err) \<Rightarrow> Some (Inl err)
           | Some (Inr (current2, guide2, runs2)) \<Rightarrow>
               (case shrinkEntries evaluate (mbMaxRuns b) [0..<length (tpEntries guide2)] current2 guide2 runs2 0 of
                  None \<Rightarrow> None
                | Some (Inl err) \<Rightarrow> Some (Inl err)
                | Some (Inr (current3, guide3, runs3, shrunk)) \<Rightarrow>
                    Some (Inr \<lparr>mrRun = current3, mrRuns = runs3,
                      mrActionsRemoved = len (snActions (rnScenario input)) - len (snActions (rnScenario current3)),
                      mrGuidanceEntriesRemoved = len (tpEntries guide1) - len (tpEntries guide3),
                      mrSelectionsShrunk = shrunk, mrTruncated = (runs3 \<ge> mbMaxRuns b)\<rparr>))))"

text \<open>The closure \<open>evaluate\<close> of \<open>Artifact\<close>: a guided, recorded run of the candidate.\<close>

type_synonym executor = "Scenario \<Rightarrow> Configuration \<Rightarrow> program"

definition evaluateCandidate ::
    "(bytes \<Rightarrow> bytes) \<Rightarrow> executor \<Rightarrow> (u64 \<Rightarrow> Reproducibility) \<Rightarrow> Run \<Rightarrow> u64 \<Rightarrow> string \<Rightarrow> evaluator" where
  "evaluateCandidate sha execute build input seed target scenario guide =
     (case NewGuidedDecider sha guide (Some (NewSeedDecider seed)) of
        Inl err \<Rightarrow> Some (Inl (ErrMinDecision err))
      | Inr guided \<Rightarrow>
          (case runProgram (recorderChoose sha (guidedChoose seedChoose)) (execute scenario (rnConfiguration input))
                  (NewRecorder (Some guided)) of
             None \<Rightarrow> None
           | Some (rec, oc, _, Some err) \<Rightarrow> Some (Inl (ErrMinRun err))
           | Some (rec, oc, _, None) \<Rightarrow>
               (case recErr rec of
                  Some err \<Rightarrow> Some (Inl (ErrMinDecision err))
                | None \<Rightarrow>
                    let candidate = input\<lparr>rnScenario := scenario, rnDecisions := recorderTape rec, rnOutcome := oc,
                          rnReproducibility := build seed\<rparr>
                    in (case Validate sha candidate of
                          Some err \<Rightarrow> Some (Inl (ErrMinArtifact err))
                        | None \<Rightarrow> Some (Inr (candidate, hasViolation oc target))))))"

definition targetOf :: "Run \<Rightarrow> MinBounds \<Rightarrow> string" where
  "targetOf input b =
     (if mbTargetFingerprint b = [] \<and> length (ocViolations (rnOutcome input)) > 0
      then vFingerprint (hd (ocViolations (rnOutcome input))) else mbTargetFingerprint b)"

definition minimizeArtifact ::
    "(bytes \<Rightarrow> bytes) \<Rightarrow> executor \<Rightarrow> (u64 \<Rightarrow> Reproducibility) \<Rightarrow> Run \<Rightarrow> MinBounds \<Rightarrow> (min_error + MinResult) option" where
  "minimizeArtifact sha execute build input b =
     (case Validate sha input of
        Some err \<Rightarrow> Some (Inl (ErrMinArtifact err))
      | None \<Rightarrow>
          if mbMaxRuns b \<le> 0 \<or> mbMaxRuns b > MaxRunsLimit then Some (Inl ErrMinBounds)
          else let target = targetOf input b in
          if target = [] \<or> \<not> hasViolation (rnOutcome input) target then Some (Inl ErrNoViolation)
          else if adID (rnAdapter input) \<noteq> ReferenceAdapterID \<or> adVersion (rnAdapter input) \<noteq> ReferenceAdapterV3
          then Some (Inl ErrUnsupportedAdapter)
          else (case newTapeDecider sha (rnDecisions input) False of
             Inl err \<Rightarrow> Some (Inl (ErrMinDecision err))
           | Inr replay \<Rightarrow>
               (case runProgram (tapeChoose sha) (execute (rnScenario input) (rnConfiguration input)) replay of
                  None \<Rightarrow> None
                | Some (replay', oc, _, Some err) \<Rightarrow> Some (Inl (ErrMinRun err))
                | Some (replay', oc, _, None) \<Rightarrow>
                    if tapeFinish replay' \<noteq> None \<or> \<not> OutcomesEqual (rnOutcome input) oc then Some (Inl ErrNotReproducible)
                    else if mbMaxRuns b - 1 = 0 then
                      Some (Inr \<lparr>mrRun = input, mrRuns = 1, mrActionsRemoved = 0, mrGuidanceEntriesRemoved = 0,
                        mrSelectionsShrunk = 0, mrTruncated = True\<rparr>)
                    else (case minimize input (b\<lparr>mbMaxRuns := mbMaxRuns b - 1\<rparr>)
                             (evaluateCandidate sha execute build input (mbFallbackSeed b) target) of
                        None \<Rightarrow> None
                      | Some (Inl err) \<Rightarrow> Some (Inl err)
                      | Some (Inr result) \<Rightarrow> Some (Inr (result\<lparr>mrRuns := mrRuns result + 1\<rparr>))))))"

end
