(* ===== verification/MinimizeProps.thy ===== *)
theory MinimizeProps
  imports Minimize ExploreCounts "HOL-Library.Sublist"
begin

text \<open>
  Properties of the minimizer: what it returns is a valid, replayable artifact with the target violation and a
  subsequence of the actions; a search that was not truncated is 1-minimal; and it returns within its bound.
\<close>

section \<open>What an evaluator promises\<close>

lemma tryChunks_found:
  "tryChunks test width chunk maxRuns start runs = Some (Inr (runs', Some (candidate, a, b))) \<Longrightarrow> test a b = Some (Inr (candidate, True)) \<and> a \<le> b"
proof (induction test width chunk maxRuns start runs rule: tryChunks.induct)
  case (1 test width chunk maxRuns start runs)
  show ?case
  proof (cases "start < width \<and> runs < maxRuns")
    case True
    then obtain c matches where t: "test start (min (start + chunk) width) = Some (Inr (c, matches))"
      using 1(2) tryChunks_step [of start width runs maxRuns] by (auto split: option.splits sum.splits)
    show ?thesis
    proof (cases matches)
      case True
      then show ?thesis
        using 1(2) t \<open>start < width \<and> runs < maxRuns\<close> by (auto simp: tryChunks_step)
    next
      case False
      then show ?thesis
        using 1(1) [OF True refl t refl refl] 1(2) t True by (simp add: tryChunks_step)
    qed
  qed (use 1(2) in \<open>simp add: tryChunks_stop\<close>)
qed

lemma tryChunks_singles:
  "tryChunks test width chunk maxRuns start runs = Some (Inr (runs', None)) \<Longrightarrow> runs' < maxRuns \<Longrightarrow> chunk = 1 \<Longrightarrow>
     start \<le> i \<Longrightarrow> i < width \<Longrightarrow> \<exists>rn. test i (Suc i) = Some (Inr (rn, False))"
proof (induction test width chunk maxRuns start runs rule: tryChunks.induct)
  case (1 test width chunk maxRuns start runs)
  have "runs < maxRuns"
    using tryChunks_runs [OF 1(2)] 1(3) by simp
  then have True: "start < width \<and> runs < maxRuns"
    using 1(5,6) by simp
  then obtain c where t: "test start (min (start + chunk) width) = Some (Inr (c, False))"
    and rest: "tryChunks test width chunk maxRuns (start + chunk) (runs + 1) = Some (Inr (runs', None))"
    using 1(2) by (auto simp: tryChunks_step split: option.splits sum.splits if_splits)
  show ?case
  proof (cases "i = start")
    case True
    then show ?thesis
      using t 1(4,6) by (simp add: min_def split: if_splits)
  next
    case False
    then show ?thesis
      using 1(1) [OF True refl t refl refl] rest 1(3-6) by simp
  qed
qed

lemma removed_subseq: "start \<le> stop \<Longrightarrow> subseq (removeChunk start stop xs) xs"
proof -
  assume "start \<le> stop"
  then have "drop stop xs = drop (stop - start) (drop start xs)"
    by simp
  then have "subseq (drop stop xs) (drop start xs)"
    by (metis suffix_drop suffix_imp_subseq)
  then have "subseq (take start xs @ drop stop xs) (take start xs @ drop start xs)"
    by (rule list_emb_append_mono [OF subseq_order.order_refl])
  then show ?thesis
    by (simp add: removeChunk_def)
qed

lemma reduceActions_cases:
  assumes "reduceActions evaluate maxRuns c g granularity runs = Some (Inr (c', g', runs'))"
  obtains (stop) "snActions (rnScenario c) = [] \<or> maxRuns \<le> runs" and "c' = c" and "g' = g" and "runs' = runs"
    | (exhausted) "tryChunks (testActions evaluate c g) (length (snActions (rnScenario c))) (chunkSize (length (snActions (rnScenario c))) granularity) maxRuns 0 runs = Some (Inr (runs', None))"
        and "length (snActions (rnScenario c)) \<le> granularity" and "snActions (rnScenario c) \<noteq> []" and "runs < maxRuns" and "c' = c" and "g' = g"
    | (took) candidate a b r where
        "tryChunks (testActions evaluate c g) (length (snActions (rnScenario c))) (chunkSize (length (snActions (rnScenario c))) granularity) maxRuns 0 runs = Some (Inr (r, Some (candidate, a, b)))"
        and "snActions (rnScenario c) \<noteq> []" and "runs < maxRuns"
        and "reduceActions evaluate maxRuns candidate (rnDecisions candidate) (max 2 (granularity - 1)) r = Some (Inr (c', g', runs'))"
    | (refine) r where
        "tryChunks (testActions evaluate c g) (length (snActions (rnScenario c))) (chunkSize (length (snActions (rnScenario c))) granularity) maxRuns 0 runs = Some (Inr (r, None))"
        and "snActions (rnScenario c) \<noteq> []" and "runs < maxRuns"
        and "reduceActions evaluate maxRuns c g (min (length (snActions (rnScenario c))) (granularity * 2)) r = Some (Inr (c', g', runs'))"
proof -
  let ?w = "length (snActions (rnScenario c))"
  let ?t = "tryChunks (testActions evaluate c g) ?w (chunkSize ?w granularity) maxRuns 0 runs"
  have step: "reduceActions evaluate maxRuns c g granularity runs =
     (if ?w > 0 \<and> runs < maxRuns then
        (case ?t of
           None \<Rightarrow> None
         | Some (Inl err) \<Rightarrow> Some (Inl err)
         | Some (Inr (r, Some (candidate, a, b))) \<Rightarrow>
             reduceActions evaluate maxRuns candidate (rnDecisions candidate) (max 2 (granularity - 1)) r
         | Some (Inr (r, None)) \<Rightarrow>
             if granularity \<ge> ?w then Some (Inr (c, g, r))
             else reduceActions evaluate maxRuns c g (min ?w (granularity * 2)) r)
      else Some (Inr (c, g, runs)))"
    by (subst reduceActions.simps) (simp only: Let_def)
  note st = assms [unfolded step]
  show thesis
  proof (cases "?w > 0 \<and> runs < maxRuns")
    case False
    show thesis
      by (rule stop) (use st [unfolded if_not_P [OF False]] False in auto)
  next
    case True
    note st = st [unfolded if_P [OF True]]
    obtain r found where t: "?t = Some (Inr (r, found))"
      using st by (auto split: option.splits sum.splits)
    note st = st [unfolded t option.case sum.case prod.case]
    show thesis
    proof (cases found)
      case None
      note st = st [unfolded None option.case]
      show thesis
      proof (cases "granularity \<ge> ?w")
        case True
        show thesis
          by (rule exhausted) (use st True t None \<open>?w > 0 \<and> runs < maxRuns\<close> in auto)
      next
        case False
        show thesis
          by (rule refine [OF t [unfolded None]]) (use st False True in auto)
      qed
    next
      case (Some x)
      obtain candidate a b where x: "x = (candidate, a, b)"
        by (cases x)
      note st = st [unfolded Some x option.case prod.case]
      show thesis
        by (rule took [OF t [unfolded Some x] _ _ st]) (use True in auto)
    qed
  qed
qed

lemma reduceEntries_cases:
  assumes "reduceEntries evaluate maxRuns c g granularity runs = Some (Inr (c', g', runs'))"
  obtains (stop) "tpEntries g = [] \<or> maxRuns \<le> runs" and "c' = c" and "g' = g" and "runs' = runs"
    | (exhausted) "tryChunks (testEntries evaluate c g) (length (tpEntries g)) (chunkSize (length (tpEntries g)) granularity) maxRuns 0 runs = Some (Inr (runs', None))"
        and "length (tpEntries g) \<le> granularity" and "tpEntries g \<noteq> []" and "runs < maxRuns" and "c' = c" and "g' = g"
    | (took) candidate a b r where
        "tryChunks (testEntries evaluate c g) (length (tpEntries g)) (chunkSize (length (tpEntries g)) granularity) maxRuns 0 runs = Some (Inr (r, Some (candidate, a, b)))"
        and "tpEntries g \<noteq> []" and "runs < maxRuns"
        and "reduceEntries evaluate maxRuns candidate (withEntries g (removeChunk a b (tpEntries g))) (max 2 (granularity - 1)) r = Some (Inr (c', g', runs'))"
    | (refine) r where
        "tryChunks (testEntries evaluate c g) (length (tpEntries g)) (chunkSize (length (tpEntries g)) granularity) maxRuns 0 runs = Some (Inr (r, None))"
        and "tpEntries g \<noteq> []" and "runs < maxRuns"
        and "reduceEntries evaluate maxRuns c g (min (length (tpEntries g)) (granularity * 2)) r = Some (Inr (c', g', runs'))"
proof -
  let ?w = "length (tpEntries g)"
  let ?t = "tryChunks (testEntries evaluate c g) ?w (chunkSize ?w granularity) maxRuns 0 runs"
  have step: "reduceEntries evaluate maxRuns c g granularity runs =
     (if ?w > 0 \<and> runs < maxRuns then
        (case ?t of
           None \<Rightarrow> None
         | Some (Inl err) \<Rightarrow> Some (Inl err)
         | Some (Inr (r, Some (candidate, a, b))) \<Rightarrow>
             reduceEntries evaluate maxRuns candidate (withEntries g (removeChunk a b (tpEntries g))) (max 2 (granularity - 1)) r
         | Some (Inr (r, None)) \<Rightarrow>
             if granularity \<ge> ?w then Some (Inr (c, g, r))
             else reduceEntries evaluate maxRuns c g (min ?w (granularity * 2)) r)
      else Some (Inr (c, g, runs)))"
    by (subst reduceEntries.simps) (simp only: Let_def)
  note st = assms [unfolded step]
  show thesis
  proof (cases "?w > 0 \<and> runs < maxRuns")
    case False
    show thesis
      by (rule stop) (use st [unfolded if_not_P [OF False]] False in auto)
  next
    case True
    note st = st [unfolded if_P [OF True]]
    obtain r found where t: "?t = Some (Inr (r, found))"
      using st by (auto split: option.splits sum.splits)
    note st = st [unfolded t option.case sum.case prod.case]
    show thesis
    proof (cases found)
      case None
      note st = st [unfolded None option.case]
      show thesis
      proof (cases "granularity \<ge> ?w")
        case True
        show thesis
          by (rule exhausted) (use st True t None \<open>?w > 0 \<and> runs < maxRuns\<close> in auto)
      next
        case False
        show thesis
          by (rule refine [OF t [unfolded None]]) (use st False True in auto)
      qed
    next
      case (Some x)
      obtain candidate a b where x: "x = (candidate, a, b)"
        by (cases x)
      note st = st [unfolded Some x option.case prod.case]
      show thesis
        by (rule took [OF t [unfolded Some x] _ _ st]) (use True in auto)
    qed
  qed
qed

text \<open>
  An accepted candidate is good, and it is a run of the scenario that was asked for. The loops rely on nothing else.
\<close>

locale sound_evaluator =
  fixes evaluate :: evaluator and good :: "Run \<Rightarrow> bool"
  assumes taken: "evaluate scenario guide = Some (Inr (candidate, True)) \<Longrightarrow> good candidate \<and> rnScenario candidate = scenario"
begin

lemma testActions_taken:
  "testActions evaluate current guide a b = Some (Inr (candidate, True)) \<Longrightarrow> good candidate \<and>
     rnScenario candidate = withActions (rnScenario current) (removeChunk a b (snActions (rnScenario current)))"
  unfolding testActions_def by (rule taken)

lemma testEntries_taken:
  "testEntries evaluate current guide a b = Some (Inr (candidate, True)) \<Longrightarrow> good candidate \<and> rnScenario candidate = rnScenario current"
  unfolding testEntries_def by (rule taken)

lemma reduceActions_keeps:
  "reduceActions evaluate maxRuns c g granularity runs = Some (Inr (c', g', runs')) \<Longrightarrow> good c \<Longrightarrow>
     good c' \<and> subseq (snActions (rnScenario c')) (snActions (rnScenario c))
     \<and> rnScenario c' = withActions (rnScenario c) (snActions (rnScenario c'))
     \<and> runs \<le> runs' \<and> (runs \<le> maxRuns \<longrightarrow> runs' \<le> maxRuns)"
proof (induction "nat (maxRuns - runs)" arbitrary: c g granularity runs rule: less_induct)
  case less
  from less.prems(1) show ?case
  proof (cases rule: reduceActions_cases)
    case stop
    then show ?thesis
      using less.prems(2) by (simp add: withActions_def)
  next
    case exhausted
    then show ?thesis
      using less.prems(2) tryChunks_runs [OF exhausted(1)] by (simp add: withActions_def)
  next
    case (took candidate a b r)
    have r: "runs < r" "r \<le> maxRuns"
      using tryChunks_runs [OF took(1)] took(2,3) by auto
    have cand: "good candidate" "a \<le> b"
        "rnScenario candidate = withActions (rnScenario c) (removeChunk a b (snActions (rnScenario c)))"
      using tryChunks_found [OF took(1)] testActions_taken by blast+
    have "subseq (snActions (rnScenario candidate)) (snActions (rnScenario c))"
      using removed_subseq [OF cand(2)] cand(3) by (simp add: withActions_def)
    then show ?thesis
      using less.hyps [OF _ took(4) cand(1)] r cand(3) by (auto simp: withActions_def intro: subseq_order.order_trans)
  next
    case (refine r)
    have "runs < r" "r \<le> maxRuns"
      using tryChunks_runs [OF refine(1)] refine(2,3) by auto
    then show ?thesis
      using less.hyps [OF _ refine(4) less.prems(2)] by auto
  qed
qed

lemma reduceEntries_keeps:
  "reduceEntries evaluate maxRuns c g granularity runs = Some (Inr (c', g', runs')) \<Longrightarrow> good c \<Longrightarrow>
     good c' \<and> rnScenario c' = rnScenario c \<and> runs \<le> runs' \<and> (runs \<le> maxRuns \<longrightarrow> runs' \<le> maxRuns)"
proof (induction "nat (maxRuns - runs)" arbitrary: c g granularity runs rule: less_induct)
  case less
  from less.prems(1) show ?case
  proof (cases rule: reduceEntries_cases)
    case exhausted
    then show ?thesis
      using less.prems(2) tryChunks_runs [OF exhausted(1)] by simp
  next
    case (took candidate a b r)
    have r: "runs < r" "r \<le> maxRuns"
      using tryChunks_runs [OF took(1)] took(2,3) by auto
    have "good candidate" "rnScenario candidate = rnScenario c"
      using tryChunks_found [OF took(1)] testEntries_taken by blast+
    then show ?thesis
      using less.hyps [OF _ took(4)] r by auto
  next
    case (refine r)
    have "runs < r" "r \<le> maxRuns"
      using tryChunks_runs [OF refine(1)] refine(2,3) by auto
    then show ?thesis
      using less.hyps [OF _ refine(4) less.prems(2)] by auto
  qed (use less.prems(2) in simp)
qed

lemma trySelections_keeps:
  "trySelections evaluate maxRuns i sels c g runs = Some (Inr (c', g', runs', took)) \<Longrightarrow> good c \<Longrightarrow> runs < maxRuns \<Longrightarrow>
     good c' \<and> rnScenario c' = rnScenario c \<and> runs \<le> runs' \<and> runs' \<le> maxRuns"
proof (induction sels arbitrary: runs)
  case (Cons s sels)
  then obtain candidate matches where ev: "evaluate (rnScenario c) (withSelection g i s) = Some (Inr (candidate, matches))"
    by (auto split: option.splits sum.splits)
  show ?case
  proof (cases matches)
    case True
    then show ?thesis
      using Cons.prems ev taken [of "rnScenario c" "withSelection g i s" candidate] by auto
  next
    case False
    then show ?thesis
      using Cons.prems ev Cons.IH [of "runs + 1"] by (auto split: if_splits)
  qed
qed auto

lemma shrinkEntries_keeps:
  "shrinkEntries evaluate maxRuns is c g runs shrunk = Some (Inr (c', g', runs', shrunk')) \<Longrightarrow> good c \<Longrightarrow> runs \<le> maxRuns \<Longrightarrow>
     good c' \<and> rnScenario c' = rnScenario c \<and> runs \<le> runs' \<and> runs' \<le> maxRuns"
proof (induction "is" arbitrary: c g runs shrunk)
  case (Cons i js)
  show ?case
  proof (cases "maxRuns \<le> runs")
    case False
    then obtain c1 g1 runs1 took where
      t: "trySelections evaluate maxRuns i (simplerSelections (tpEntries g ! i)) c g runs = Some (Inr (c1, g1, runs1, took))"
      using Cons.prems(1) by (auto split: option.splits sum.splits)
    then have rest: "shrinkEntries evaluate maxRuns js c1 g1 runs1 (if took then shrunk + 1 else shrunk) = Some (Inr (c', g', runs', shrunk'))"
      using Cons.prems(1) False by simp
    show ?thesis
      using trySelections_keeps [OF t Cons.prems(2)] False Cons.IH [OF rest] by auto
  qed (use Cons.prems in auto)
qed auto

lemma minimize_keeps:
  assumes "minimize input b evaluate = Some (Inr res)" and "good input" and "0 \<le> mbMaxRuns b"
  shows "good (mrRun res) \<and> subseq (snActions (rnScenario (mrRun res))) (snActions (rnScenario input))
    \<and> rnScenario (mrRun res) = withActions (rnScenario input) (snActions (rnScenario (mrRun res)))
    \<and> 0 \<le> mrRuns res \<and> mrRuns res \<le> mbMaxRuns b
    \<and> mrActionsRemoved res = int (length (snActions (rnScenario input))) - int (length (snActions (rnScenario (mrRun res))))"
proof -
  obtain c1 g1 r1 c2 g2 r2 c3 g3 r3 k where
    p1: "reduceActions evaluate (mbMaxRuns b) input (rnDecisions input) 2 0 = Some (Inr (c1, g1, r1))"
    and p2: "reduceEntries evaluate (mbMaxRuns b) c1 g1 2 r1 = Some (Inr (c2, g2, r2))"
    and p3: "shrinkEntries evaluate (mbMaxRuns b) [0..<length (tpEntries g2)] c2 g2 r2 0 = Some (Inr (c3, g3, r3, k))"
    and res: "mrRun res = c3" "mrRuns res = r3"
      "mrActionsRemoved res = len (snActions (rnScenario input)) - len (snActions (rnScenario c3))"
    using assms(1) by (auto simp: minimize_def split: option.splits sum.splits)
  note k1 = reduceActions_keeps [OF p1 assms(2)]
  then have k2: "good c2" "rnScenario c2 = rnScenario c1" "r1 \<le> r2" "r2 \<le> mbMaxRuns b"
    using reduceEntries_keeps [OF p2] assms(3) by auto
  have k3: "good c3" "rnScenario c3 = rnScenario c2" "r2 \<le> r3" "r3 \<le> mbMaxRuns b"
    using shrinkEntries_keeps [OF p3 k2(1,4)] by auto
  show ?thesis
    using k1 k2 k3 res assms(3) by (auto simp: len_def)
qed

end

section \<open>A recorded run replays\<close>

lemma reach_ask:
  "reach sha q es q' \<Longrightarrow> q = k (Inr s) \<Longrightarrow> newEntry sha c s = Inr e \<Longrightarrow> reach sha (Ask c k) (e # es) q'"
proof (induction rule: reach.induct)
  case here
  then show ?case
    using reach.answer [OF reach.here, of sha c s e k] by simp
next
  case (answer es c' k' s' e')
  then show ?case
    using reach.answer [of sha "Ask c k" "e # es" c' k' s' e'] by simp
qed

lemma recorded_reach:
  "runProgram (recorderChoose sha pick) p r = Some (r', oc, canon, err) \<Longrightarrow> recErr r' = None \<Longrightarrow>
     recErr r = None \<and> (\<exists>es. recEntries r' = recEntries r @ es \<and> reach sha p es (Return oc canon err))"
proof (induction p arbitrary: r)
  case (Return oc' canon' err')
  then show ?case
    using reach.here by auto
next
  case (Ask c k)
  then obtain r1 a where ch: "recorderChoose sha pick r c = Some (r1, a)"
    and rest: "runProgram (recorderChoose sha pick) (k a) r1 = Some (r', oc, canon, err)"
    by (auto split: option.splits)
  have "recErr r1 = None"
    using Ask.IH [OF _ rest Ask.prems(2)] by auto
  then obtain s e where a: "a = Inr s" and new: "newEntry sha c s = Inr e" "recErr r = None" "recEntries r1 = recEntries r @ [e]"
    using ch by (auto simp: recorderChoose_def split: option.splits sum.splits)
  obtain es where "recEntries r' = recEntries r1 @ es" "reach sha (k a) es (Return oc canon err)"
    using Ask.IH [OF _ rest Ask.prems(2)] by auto
  then show ?case
    using reach_ask [OF _ _ new(1), of "k a" es _ k] a new(2,3) by auto
qed

lemma reach_replays:
  assumes "reach sha p es (Return oc canon err)"
  shows "newTapeDecider sha (tapeOf es) False = Inr (replayAt es 0)"
    "runProgram (tapeChoose sha) p (replayAt es 0) = Some (replayAt es (length es), oc, canon, err)"
    "tapeFinish (replayAt es (length es)) = None"
proof -
  show "newTapeDecider sha (tapeOf es) False = Inr (replayAt es 0)"
    using reach_stored [OF assms] by (simp add: newTapeDecider_def replayAt_def)
  have "runProgram (tapeChoose sha) p (replayAt es 0) = runProgram (tapeChoose sha) (Return oc canon err) (replayAt es (length es))"
  proof (rule run_along [OF assms, where full = es and st = "replayAt es"])
    fix c s e es1
    assume new: "newEntry sha c s = Inr e" and "\<exists>rest. es1 @ e # rest = es"
    then have "tpEntries (tdTape (replayAt es (length es1))) ! tdIndex (replayAt es (length es1)) = e"
        "tdIndex (replayAt es (length es1)) < length (tpEntries (tdTape (replayAt es (length es1))))"
      by (auto simp: replayAt_def)
    then show "tapeChoose sha (replayAt es (length es1)) c = Some (replayAt es (Suc (length es1)), Inr s)"
      using tapeChoose_recorded [of "replayAt es (length es1)" e sha c s] new by (simp add: replayAt_def)
  qed simp
  then show "runProgram (tapeChoose sha) p (replayAt es 0) = Some (replayAt es (length es), oc, canon, err)"
    by simp
  show "tapeFinish (replayAt es (length es)) = None"
    by (simp add: tapeFinish_def replayAt_def)
qed

text \<open>The check that \<open>Artifact\<close> makes before it starts: an exact replay with an equal outcome.\<close>

definition reproduces :: "(bytes \<Rightarrow> bytes) \<Rightarrow> executor \<Rightarrow> Run \<Rightarrow> bool" where
  "reproduces sha execute r \<longleftrightarrow> (\<exists>d d' oc canon. newTapeDecider sha (rnDecisions r) False = Inr d
     \<and> runProgram (tapeChoose sha) (execute (rnScenario r) (rnConfiguration r)) d = Some (d', oc, canon, None)
     \<and> tapeFinish d' = None \<and> OutcomesEqual (rnOutcome r) oc)"

lemma OutcomesEqual_refl [simp]: "OutcomesEqual oc oc"
  by (auto simp: OutcomesEqual_def list_all_iff in_set_zip)

definition goodRun :: "(bytes \<Rightarrow> bytes) \<Rightarrow> executor \<Rightarrow> Run \<Rightarrow> string \<Rightarrow> Run \<Rightarrow> bool" where
  "goodRun sha execute input target r \<longleftrightarrow> Validate sha r = None \<and> hasViolation (rnOutcome r) target
     \<and> rnConfiguration r = rnConfiguration input \<and> rnAdapter r = rnAdapter input \<and> reproduces sha execute r"

lemma evaluateCandidate_taken:
  assumes "evaluateCandidate sha execute build input seed target scenario guide = Some (Inr (candidate, True))"
  shows "goodRun sha execute input target candidate \<and> rnScenario candidate = scenario"
proof -
  let ?p = "execute scenario (rnConfiguration input)"
  obtain guided rec oc canon where
    run: "runProgram (recorderChoose sha (guidedChoose seedChoose)) ?p (NewRecorder (Some guided)) = Some (rec, oc, canon, None)"
    and ok: "recErr rec = None" and valid: "Validate sha candidate = None" "hasViolation oc target"
    and cand: "candidate = input\<lparr>rnScenario := scenario, rnDecisions := recorderTape rec, rnOutcome := oc,
                          rnReproducibility := build seed\<rparr>"
    using assms by (auto simp: evaluateCandidate_def Let_def split: sum.splits option.splits)
  obtain es where es: "recEntries rec = es" "reach sha ?p es (Return oc canon None)"
    using recorded_reach [OF run ok] by (auto simp: NewRecorder_def)
  have "reproduces sha execute candidate"
    using reach_replays [OF es(2)] es(1) cand unfolding reproduces_def by (auto simp: recorderTape_def tapeOf_def)
  then show ?thesis
    using valid cand by (simp add: goodRun_def)
qed

interpretation candidates: sound_evaluator "evaluateCandidate sha execute build input seed target" "goodRun sha execute input target"
  for sha execute build input seed target
  by unfold_locales (rule evaluateCandidate_taken)

text \<open>A successful minimization: trivial, when one run is allowed, or the search.\<close>

lemma minimizeArtifact_success:
  assumes "minimizeArtifact sha execute build input b = Some (Inr res)"
  obtains (single) "mbMaxRuns b = 1" and "res = \<lparr>mrRun = input, mrRuns = 1, mrActionsRemoved = 0, mrGuidanceEntriesRemoved = 0,
                        mrSelectionsShrunk = 0, mrTruncated = True\<rparr>" and "goodRun sha execute input (targetOf input b) input"
    | (search) res' where "1 < mbMaxRuns b" and "goodRun sha execute input (targetOf input b) input"
        and "minimize input (b\<lparr>mbMaxRuns := mbMaxRuns b - 1\<rparr>)
               (evaluateCandidate sha execute build input (mbFallbackSeed b) (targetOf input b)) = Some (Inr res')"
        and "res = res'\<lparr>mrRuns := mrRuns res' + 1\<rparr>"
proof -
  have b: "0 < mbMaxRuns b" "Validate sha input = None" "hasViolation (rnOutcome input) (targetOf input b)"
    using assms by (auto simp: minimizeArtifact_def Let_def not_le split: option.splits if_splits)
  obtain d d' oc canon where replay: "newTapeDecider sha (rnDecisions input) False = Inr d"
      "runProgram (tapeChoose sha) (execute (rnScenario input) (rnConfiguration input)) d = Some (d', oc, canon, None)"
      "tapeFinish d' = None" "OutcomesEqual (rnOutcome input) oc"
    and rest: "(if mbMaxRuns b - 1 = 0 then
                      Some (Inr \<lparr>mrRun = input, mrRuns = 1, mrActionsRemoved = 0, mrGuidanceEntriesRemoved = 0,
                        mrSelectionsShrunk = 0, mrTruncated = True\<rparr>)
                    else (case minimize input (b\<lparr>mbMaxRuns := mbMaxRuns b - 1\<rparr>)
                             (evaluateCandidate sha execute build input (mbFallbackSeed b) (targetOf input b)) of
                        None \<Rightarrow> None
                      | Some (Inl err) \<Rightarrow> Some (Inl err)
                      | Some (Inr result) \<Rightarrow> Some (Inr (result\<lparr>mrRuns := mrRuns result + 1\<rparr>)))) = Some (Inr res)"
    using assms by (auto simp: minimizeArtifact_def Let_def split: option.splits sum.splits if_splits)
  have good: "goodRun sha execute input (targetOf input b) input"
    using b replay unfolding goodRun_def reproduces_def by blast
  show thesis
  proof (cases "mbMaxRuns b = 1")
    case True
    then show thesis
      using single good rest by simp
  next
    case False
    then show thesis
      using search [OF _ good] b(1) rest by (auto split: option.splits sum.splits)
  qed
qed

text \<open>
  C30. Minimization is sound: the run it returns is a valid artifact that still carries the target violation and
  replays exactly to an equal outcome; it keeps the configuration and differs from the input scenario only in a
  subsequence of the actions, as many fewer as reported; and the number of runs is within the bound.
\<close>

theorem minimize_sound:
  assumes "minimizeArtifact sha execute build input b = Some (Inr res)"
  shows "Validate sha (mrRun res) = None \<and> hasViolation (rnOutcome (mrRun res)) (targetOf input b)
    \<and> reproduces sha execute (mrRun res) \<and> rnConfiguration (mrRun res) = rnConfiguration input
    \<and> rnScenario (mrRun res) = (rnScenario input)\<lparr>snActions := snActions (rnScenario (mrRun res))\<rparr>
    \<and> subseq (snActions (rnScenario (mrRun res))) (snActions (rnScenario input))
    \<and> mrActionsRemoved res = int (length (snActions (rnScenario input))) - int (length (snActions (rnScenario (mrRun res))))
    \<and> 1 \<le> mrRuns res \<and> mrRuns res \<le> mbMaxRuns b"
  using assms
proof (cases rule: minimizeArtifact_success)
  case single
  then show ?thesis
    by (simp add: goodRun_def)
next
  case (search res')
  then show ?thesis
    using candidates.minimize_keeps [OF search(3,2)] by (simp add: goodRun_def withActions_def)
qed

section \<open>Minimality\<close>

lemma chunkSize_one: "0 < width \<Longrightarrow> width \<le> granularity \<Longrightarrow> chunkSize width granularity = 1"
  by (auto simp: chunkSize_def intro: div_nat_eqI)

lemma reduceActions_minimal:
  "reduceActions evaluate maxRuns c g granularity runs = Some (Inr (c', g', runs')) \<Longrightarrow> runs' < maxRuns \<Longrightarrow>
     i < length (snActions (rnScenario c')) \<Longrightarrow> \<exists>rn. testActions evaluate c' g' i (Suc i) = Some (Inr (rn, False))"
proof (induction "nat (maxRuns - runs)" arbitrary: c g granularity runs rule: less_induct)
  case less
  from less.prems(1) show ?case
  proof (cases rule: reduceActions_cases)
    case stop
    then show ?thesis
      using less.prems(2,3) by auto
  next
    case exhausted
    have "chunkSize (length (snActions (rnScenario c))) granularity = 1"
      using chunkSize_one exhausted(2,3) by simp
    then show ?thesis
      using tryChunks_singles [OF exhausted(1) less.prems(2), of i] less.prems(3) exhausted(5,6) by simp
  next
    case (took candidate a b r)
    then show ?thesis
      using less.hyps [OF _ took(4) less.prems(2,3)] tryChunks_runs [OF took(1)] by auto
  next
    case (refine r)
    then show ?thesis
      using less.hyps [OF _ refine(4) less.prems(2,3)] tryChunks_runs [OF refine(1)] by auto
  qed
qed

text \<open>
  C31. A minimization that was not truncated is 1-minimal in its actions: under one guide, dropping any single action
  of the result was tried and lost the violation.
\<close>

theorem minimize_minimal:
  assumes "minimizeArtifact sha execute build input b = Some (Inr res)" and "\<not> mrTruncated res"
  shows "\<exists>guide. \<forall>i < length (snActions (rnScenario (mrRun res))). \<exists>rn.
    evaluateCandidate sha execute build input (mbFallbackSeed b) (targetOf input b)
      ((rnScenario (mrRun res))\<lparr>snActions := removeChunk i (Suc i) (snActions (rnScenario (mrRun res)))\<rparr>) guide
      = Some (Inr (rn, False))"
  using assms(1)
proof (cases rule: minimizeArtifact_success)
  case single
  then show ?thesis
    using assms(2) by simp
next
  case (search res')
  let ?ev = "evaluateCandidate sha execute build input (mbFallbackSeed b) (targetOf input b)"
  let ?m = "mbMaxRuns b - 1"
  obtain c1 g1 r1 c2 g2 r2 c3 g3 r3 k where
    p1: "reduceActions ?ev ?m input (rnDecisions input) 2 0 = Some (Inr (c1, g1, r1))"
    and p2: "reduceEntries ?ev ?m c1 g1 2 r1 = Some (Inr (c2, g2, r2))"
    and p3: "shrinkEntries ?ev ?m [0..<length (tpEntries g2)] c2 g2 r2 0 = Some (Inr (c3, g3, r3, k))"
    and res': "mrRun res' = c3" "mrTruncated res' = (r3 \<ge> ?m)"
    using search(3) by (auto simp: minimize_def split: option.splits sum.splits)
  have k1: "goodRun sha execute input (targetOf input b) c1" "r1 \<le> ?m"
    using candidates.reduceActions_keeps [OF p1 search(2)] search(1) by auto
  then have k2: "goodRun sha execute input (targetOf input b) c2" "rnScenario c2 = rnScenario c1" "r1 \<le> r2" "r2 \<le> ?m"
    using candidates.reduceEntries_keeps [OF p2] by auto
  have k3: "rnScenario c3 = rnScenario c2" "r2 \<le> r3"
    using candidates.shrinkEntries_keeps [OF p3 k2(1,4)] by auto
  have "r1 < ?m"
    using assms(2) search(4) res' k2(3) k3(2) by simp
  from reduceActions_minimal [OF p1 this] show ?thesis
    using k2(2) k3(1) res'(1) search(4)
    by (intro exI [of _ g1]) (simp add: testActions_def withActions_def)
qed

section \<open>Termination\<close>

lemma guidedChoose_total: "wfChoice c \<Longrightarrow> recorderChoose sha (guidedChoose seedChoose) r c \<noteq> None"
  using seedChoose_total [of c "gdFallback (the (recBase r))"]
  by (cases "recErr r"; cases "recBase r") (auto simp: recorderChoose_def guidedChoose_def split: option.splits sum.splits)

lemma evaluateCandidate_total:
  assumes "\<forall>sc cf. intProgram (execute sc cf)"
  shows "evaluateCandidate sha execute build input seed target scenario guide \<noteq> None"
proof -
  have run: "runProgram (recorderChoose sha (guidedChoose seedChoose)) (execute scenario (rnConfiguration input)) s \<noteq> None" for s
    using guidedChoose_total by (rule runProgram_total [OF _ assms [rule_format]])
  show ?thesis
    using run [of "NewRecorder (Some (projr (NewGuidedDecider sha guide (Some (NewSeedDecider seed)))))"]
    by (auto simp: evaluateCandidate_def Let_def split: sum.splits option.splits)
qed

lemma tryChunks_total:
  assumes "\<forall>a b. test a b \<noteq> None"
  shows "tryChunks test width chunk maxRuns start runs \<noteq> None"
  using assms
proof (induction test width chunk maxRuns start runs rule: tryChunks.induct)
  case (1 test width chunk maxRuns start runs)
  show ?case
  proof (cases "start < width \<and> runs < maxRuns")
    case True
    obtain a where t: "test start (min (start + chunk) width) = Some a"
      using 1(2) by blast
    show ?thesis
    proof (cases a)
      case (Inr x)
      obtain candidate matches where x: "x = (candidate, matches)"
        by (cases x)
      show ?thesis
        using 1(1) [OF True refl t [unfolded Inr x] refl refl] 1(2) t True Inr x
        by (cases matches) (simp_all add: tryChunks_step)
    qed (use t True in \<open>simp add: tryChunks_step\<close>)
  qed (simp add: tryChunks_stop)
qed

lemma reduceActions_total:
  assumes ev: "\<forall>sc g. evaluate sc g \<noteq> None"
  shows "reduceActions evaluate maxRuns c g granularity runs \<noteq> None"
proof (induction "nat (maxRuns - runs)" arbitrary: c g granularity runs rule: less_induct)
  case less
  let ?w = "length (snActions (rnScenario c))"
  obtain t where t: "tryChunks (testActions evaluate c g) ?w (chunkSize ?w granularity) maxRuns 0 runs = Some t"
    using tryChunks_total [of "testActions evaluate c g"] ev unfolding testActions_def by blast
  show ?case
  proof (cases "?w > 0 \<and> runs < maxRuns")
    case True
    then have "t = Inr (r, found) \<Longrightarrow> nat (maxRuns - r) < nat (maxRuns - runs)" for r found
      using t tryChunks_runs [of "testActions evaluate c g" ?w _ maxRuns 0 runs r found] by auto
    then show ?thesis
      using t less.hyps by (subst reduceActions.simps) (auto simp: Let_def split: sum.splits option.splits)
  qed (subst reduceActions.simps, auto simp: Let_def)
qed

lemma reduceEntries_total:
  assumes ev: "\<forall>sc g. evaluate sc g \<noteq> None"
  shows "reduceEntries evaluate maxRuns c g granularity runs \<noteq> None"
proof (induction "nat (maxRuns - runs)" arbitrary: c g granularity runs rule: less_induct)
  case less
  let ?w = "length (tpEntries g)"
  obtain t where t: "tryChunks (testEntries evaluate c g) ?w (chunkSize ?w granularity) maxRuns 0 runs = Some t"
    using tryChunks_total [of "testEntries evaluate c g"] ev unfolding testEntries_def by blast
  show ?case
  proof (cases "?w > 0 \<and> runs < maxRuns")
    case True
    then have "t = Inr (r, found) \<Longrightarrow> nat (maxRuns - r) < nat (maxRuns - runs)" for r found
      using t tryChunks_runs [of "testEntries evaluate c g" ?w _ maxRuns 0 runs r found] by auto
    then show ?thesis
      using t less.hyps by (subst reduceEntries.simps) (auto simp: Let_def split: sum.splits option.splits)
  qed (subst reduceEntries.simps, auto simp: Let_def)
qed

lemma trySelections_total:
  assumes "\<forall>sc g. evaluate sc g \<noteq> None"
  shows "trySelections evaluate maxRuns i sels c g runs \<noteq> None"
proof (induction sels arbitrary: runs)
  case (Cons s sels)
  obtain a where "evaluate (rnScenario c) (withSelection g i s) = Some a"
    using assms by blast
  then show ?case
    using Cons.IH [of "runs + 1"] by (auto split: sum.splits)
qed simp

lemma shrinkEntries_total:
  assumes "\<forall>sc g. evaluate sc g \<noteq> None"
  shows "shrinkEntries evaluate maxRuns is c g runs shrunk \<noteq> None"
proof (induction "is" arbitrary: c g runs shrunk)
  case (Cons i js)
  obtain a where "trySelections evaluate maxRuns i (simplerSelections (tpEntries g ! i)) c g runs = Some a"
    using trySelections_total [OF assms] by blast
  then show ?case
    using Cons.IH by (auto split: sum.splits)
qed simp

lemma minimize_total:
  assumes "\<forall>sc g. evaluate sc g \<noteq> None"
  shows "minimize input b evaluate \<noteq> None"
proof -
  note total = reduceActions_total [OF assms] reduceEntries_total [OF assms] shrinkEntries_total [OF assms]
  obtain x where x: "reduceActions evaluate (mbMaxRuns b) input (rnDecisions input) 2 0 = Some x"
    using total(1) by blast
  show ?thesis
  proof (cases x)
    case (Inr y)
    obtain c1 g1 r1 where y: "y = (c1, g1, r1)"
      by (cases y)
    obtain z where z: "reduceEntries evaluate (mbMaxRuns b) c1 g1 2 r1 = Some z"
      using total(2) by blast
    show ?thesis
    proof (cases z)
      case inner: (Inr v)
      obtain c2 g2 r2 where v: "v = (c2, g2, r2)"
        by (cases v)
      obtain u where "shrinkEntries evaluate (mbMaxRuns b) [0..<length (tpEntries g2)] c2 g2 r2 0 = Some u"
        using total(3) by blast
      then show ?thesis
        using x Inr y z inner v by (auto simp: minimize_def split: sum.splits)
    qed (use x Inr y z in \<open>simp add: minimize_def\<close>)
  qed (use x in \<open>simp add: minimize_def\<close>)
qed

text \<open>
  Minimization always returns, with a result or an error, when the runs it evaluates ask choices whose bounds
  fit their type.
\<close>

theorem minimize_returns:
  assumes "\<forall>sc cf. intProgram (execute sc cf)"
  shows "minimizeArtifact sha execute build input b \<noteq> None"
proof -
  have replay: "runProgram (tapeChoose sha) (execute (rnScenario input) (rnConfiguration input)) d \<noteq> None" for d
    using tapeChoose_total by (rule runProgram_total [OF _ assms [rule_format]])
  have "minimize input (b\<lparr>mbMaxRuns := mbMaxRuns b - 1\<rparr>)
      (evaluateCandidate sha execute build input (mbFallbackSeed b) (targetOf input b)) \<noteq> None"
    by (rule minimize_total) (use evaluateCandidate_total [OF assms] in blast)
  then show ?thesis
    using replay [of "projr (newTapeDecider sha (rnDecisions input) False)"]
    by (auto simp: minimizeArtifact_def Let_def split: option.splits sum.splits)
qed

section \<open>Simpler selections\<close>

lemma cursorValues_between: "n \<in> set (cursorValues minimum original cursor) \<Longrightarrow> minimum < n \<and> n < original"
proof (induction minimum original cursor rule: cursorValues.induct)
  case (1 minimum original cursor)
  show ?case
    using 1 by (subst (asm) cursorValues.simps) (auto split: if_splits)
qed

text \<open>
  Every simpler selection that is tried keeps the recorded entry valid for a tape and differs from the recorded
  selection: a smaller number of the range, or the option \<open>drop\<close> or the first one.
\<close>

theorem simpler_valid:
  assumes "entryStored sha e" and "s \<in> set (simplerSelections e)"
  shows "entryStored sha (e\<lparr>teSelection := s\<rparr>) \<and> s \<noteq> teSelection e
    \<and> (case selNumber (teSelection e) of
         Some n \<Rightarrow> \<exists>m. s = numberSelection m \<and> the (chMin (teChoice e)) \<le> m \<and> m < n
       | None \<Rightarrow> s = optionSelection ''drop'' \<or> s = optionSelection (oID (hd (chOptions (teChoice e)))))"
proof -
  let ?c = "teChoice e" and ?s = "teSelection e"
  have stored: "ValidateChoice ?c = None" "validateSelection ?c ?s = None"
    using assms(1) entryStored_valid by (auto simp: entryStored_def split: sum.splits)
  have keep: "validateSelection ?c s = None \<Longrightarrow> entryStored sha (e\<lparr>teSelection := s\<rparr>)"
    using assms(1) by (auto simp: entryStored_def split: sum.splits)
  show ?thesis
  proof (cases "chOptions ?c = []")
    case False
    then have n: "selNumber ?s = None"
      using stored(2) by (auto simp: validateSelection_def split: if_splits)
    have "s \<in> {optionSelection ''drop'', optionSelection (oID (hd (chOptions ?c)))}" "selOption s \<noteq> selOption ?s"
        "optionExists ?c (selOption s)"
      using assms(2) False by (auto simp: simplerSelections_def Let_def optionSelection_def split: if_splits)
    moreover from this obtain opt where opt: "opt \<in> set (chOptions ?c)" "selOption s = oID opt"
      by (auto simp: optionExists_def list_ex_iff)
    moreover have "selOption s \<noteq> []" "selNumber s = None"
      using opt calculation(1) valid_options [OF stored(1)] by (auto simp: optionsValid_iff optionSelection_def)
    ultimately have "validateSelection ?c s = None" "s = optionSelection ''drop'' \<or> s = optionSelection (oID (hd (chOptions ?c)))"
        "s \<noteq> ?s"
      using False by (auto simp: validateSelection_def)
    then show ?thesis
      using n keep by simp
  next
    case True
    obtain lo hi where range: "chMin ?c = Some lo" "chMax ?c = Some hi"
      using valid_domain [OF stored(1) True] by metis
    then obtain n where n: "selNumber ?s = Some n" "lo \<le> n" "n \<le> hi"
      using stored(2) True by (auto simp: validateSelection_def split: option.splits if_splits)
    then obtain m where m: "s = numberSelection m" "lo \<le> m" "m < n"
      using assms(2) True range cursorValues_between
      by (fastforce simp: simplerSelections_def Let_def split: if_splits)
    then show ?thesis
      using n range True keep by (auto simp: validateSelection_def numberSelection_def dest: arg_cong [of _ _ selNumber])
  qed
qed


section \<open>An example\<close>

text \<open>The program asks nothing and fails when there is an action; the run has one action more than it needs.\<close>

definition exSha :: "bytes \<Rightarrow> bytes" where
  "exSha bs = replicate 32 0"

definition exViolation :: Violation where
  "exViolation = \<lparr>vID = ElectionSafety, vAtNS = 3, vNodes = [''a''], vEvidence = [49], vFingerprint = EncodeToString (replicate 12 0)\<rparr>"

definition exBuild :: "u64 \<Rightarrow> Reproducibility" where
  "exBuild = NewReproducibility (''unknown'', False) ''go1''"

definition exFailure :: Outcome where
  "exFailure = \<lparr>ocStatus = OutcomeViolation, ocSteps = 2, ocEndNS = 3, ocObservationDigest = EncodeToString (replicate 32 0),
     ocError = [], ocViolations = [exViolation]\<rparr>"

definition exIdle :: Outcome where
  "exIdle = \<lparr>ocStatus = OutcomeCompleted, ocSteps = 2, ocEndNS = 9, ocObservationDigest = EncodeToString (replicate 32 0),
     ocError = [], ocViolations = []\<rparr>"

definition exResult :: "Action list \<Rightarrow> Outcome" where
  "exResult acts = (if acts = [] then exIdle else exFailure)"

definition exHeal :: Action where
  "exHeal = \<lparr>acAtNS = 1, acKind = ActionHeal, acNode = [], acData = [], acGroups = [], acVoters = [], acLearners = [],
     acVotersPresent = False, acLearnersPresent = False\<rparr>"

definition exFailing :: "Action list \<Rightarrow> Run" where
  "exFailing acts = \<lparr>rnSchema = RunSchema,
     rnScenario = \<lparr>snID = ''split'', snVersion = ''1'', snDurationNS = 9, snMaxSteps = 5, snActions = acts\<rparr>,
     rnAdapter = \<lparr>adID = ReferenceAdapterID, adVersion = ReferenceAdapterV3\<rparr>,
     rnConfiguration = \<lparr>cfMembers = [''a'', ''b''], cfVoters = [], cfLearners = [], cfInfrastructureSeed = 1,
       cfNetworkMinLatencyNS = 1, cfNetworkMaxLatencyNS = 2, cfNetworkLossProbability = Finite 0,
       cfElectionTimeoutMinNS = 3, cfElectionTimeoutMaxNS = 4, cfHeartbeatIntervalNS = 1, cfStorageLatencyNS = 0,
       cfStopOnViolation = True, cfVotersPresent = False, cfLearnersPresent = False\<rparr>,
     rnReproducibility = exBuild 1,
     rnDecisions = \<lparr>tpSchema = DecisionSchema, tpEntries = []\<rparr>,
     rnOutcome = exResult acts\<rparr>"

definition exExecute :: executor where
  "exExecute sc cf = Return (exResult (snActions sc)) None None"

lemma exViolation_valid: "ValidateViolation exSha exViolation = None"
proof -
  have "jsonValid [49]"
    by code_simp
  then show ?thesis
    by (simp add: ValidateViolation_def exViolation_def Fingerprint_def exSha_def ElectionSafety_def jsonCompact_def)
qed

definition exMinimal :: Run where
  "exMinimal = (exFailing [exHeal])\<lparr>rnReproducibility := exBuild 7\<rparr>"

lemmas identifier_simps = validIdentifier_def alphanumeric_def less_eq_char_def

lemma exFailing_parts:
  "validateConfiguration (rnConfiguration (exFailing acts)) True = None"
  "acts = [] \<or> acts = [exHeal] \<or> acts = [exHeal, exHeal] \<Longrightarrow> validateScenario (rnScenario (exFailing acts)) [''a'', ''b''] RunSchema = None"
  "validateMetadata (exBuild n)"
  "acts = [] \<or> acts = [exHeal] \<or> acts = [exHeal, exHeal] \<Longrightarrow> validateResourceBudget ((exFailing acts)\<lparr>rnReproducibility := exBuild n\<rparr>) DefaultMaxArtifactBytes = None"
proof -
  show "validateConfiguration (rnConfiguration (exFailing acts)) True = None"
    by (simp add: exFailing_def validateConfiguration_def lossInvalid_def MaxMembers_def MaxVirtualDurationNS_def identifier_simps)
  show "validateScenario (rnScenario (exFailing acts)) [''a'', ''b''] RunSchema = None" if "acts = [] \<or> acts = [exHeal] \<or> acts = [exHeal, exHeal]"
    using that by (auto simp: exFailing_def validateScenario_def MaxVirtualDurationNS_def MaxScenarioSteps_def MaxActions_def
        identifier_simps exHeal_def MaxActionPayloadBytes_def actionFits_def action_kinds)
  show "validateMetadata (exBuild n)"
    by (simp add: exBuild_def validateMetadata_def NewReproducibility_def validMetadata_def CheckSchema_def MessageCodecV3_def
        ObservationSchemaV3_def)
  show "validateResourceBudget ((exFailing acts)\<lparr>rnReproducibility := exBuild n\<rparr>) DefaultMaxArtifactBytes = None"
    if "acts = [] \<or> acts = [exHeal] \<or> acts = [exHeal, exHeal]"
    using that by (auto simp: validateResourceBudget_def exFailing_def headerSizes_def len_def addSize_def DefaultMaxArtifactBytes_def
        exBuild_def NewReproducibility_def RunSchema_def CheckSchema_def MessageCodecV3_def ObservationSchemaV3_def DecisionSchema_def
        exResult_def exIdle_def OutcomeCompleted_def exFailure_def OutcomeViolation_def exViolation_def violationSizes_def ElectionSafety_def exHeal_def actionSizes_def
        ActionHeal_def ReferenceAdapterID_def ReferenceAdapterV3_def)
qed

lemma exFailing_recorded: "validateRecorded exSha ((exFailing acts)\<lparr>rnReproducibility := exBuild n\<rparr>) = None"
proof -
  have dig: "validDigest (EncodeToString (replicate 32 0))"
    by (simp add: validDigest_def)
  have "acts \<noteq> [] \<Longrightarrow> validateViolations exSha ((exFailing acts)\<lparr>rnReproducibility := exBuild n\<rparr>) [exViolation] = None"
    using exViolation_valid
    by (simp add: ValidateViolationForSchema_def exFailing_def exBuild_def NewReproducibility_def)
      (simp add: exViolation_def exResult_def exFailure_def violationSupported_def identifier_simps ElectionSafety_def MaxViolationEvidenceBytes_def)
  then show ?thesis
    using dig by (cases "acts = []") (simp_all add: exFailing_def validateRecorded_def newTapeDecider_def outcomeConsistent_def
        outcome_statuses Let_def MaxOutcomeErrorBytes_def MaxViolations_def exResult_def exFailure_def exIdle_def)
qed

lemma exFailing_valid:
  assumes "acts = [] \<or> acts = [exHeal] \<or> acts = [exHeal, exHeal]"
  shows "Validate exSha ((exFailing acts)\<lparr>rnReproducibility := exBuild n\<rparr>) = None"
proof -
  let ?r = "(exFailing acts)\<lparr>rnReproducibility := exBuild n\<rparr>"
  have fields: "rnSchema ?r = RunSchema" "rnAdapter ?r = \<lparr>adID = ReferenceAdapterID, adVersion = ReferenceAdapterV3\<rparr>"
      "rnConfiguration ?r = rnConfiguration (exFailing acts)" "rnScenario ?r = rnScenario (exFailing acts)"
      "rnReproducibility ?r = exBuild n" "tpEntries (rnDecisions ?r) = []" "cfMembers (rnConfiguration (exFailing acts)) = [''a'', ''b'']"
    by (simp_all add: exFailing_def)
  have ids: "ReferenceAdapterID \<noteq> []" "ReferenceAdapterV3 \<noteq> []" "validIdentifier ReferenceAdapterID True 128"
      "validIdentifier ReferenceAdapterV3 False 64"
    by (simp_all add: ReferenceAdapterID_def ReferenceAdapterV3_def identifier_simps)
  have refs: "referenceSchemas ReferenceAdapterV3 RunSchema (exBuild n)"
    by (simp add: referenceSchemas_def ReferenceAdapterV1_def ReferenceAdapterV2_def ReferenceAdapterV3_def exBuild_def NewReproducibility_def)
  show ?thesis
    unfolding Validate_def fields
    using ids refs exFailing_parts(1) [of acts] exFailing_parts(2,4) [OF assms] exFailing_parts(3)
      exFailing_recorded [where acts = acts and n = n]
    by (simp add: RunSchema_def RunSchemaV1_def)
qed

lemma exCandidate:
  assumes "acts = [] \<or> acts = [exHeal] \<or> acts = [exHeal, exHeal]"
  shows "evaluateCandidate exSha exExecute exBuild (exFailing acts') 7 (vFingerprint exViolation) (rnScenario (exFailing acts))
      \<lparr>tpSchema = DecisionSchema, tpEntries = []\<rparr> = Some (Inr ((exFailing acts)\<lparr>rnReproducibility := exBuild 7\<rparr>, acts \<noteq> []))"
proof -
  let ?guide = "\<lparr>tpSchema = DecisionSchema, tpEntries = []\<rparr>"
  let ?r = "(exFailing acts)\<lparr>rnReproducibility := exBuild 7\<rparr>"
  have guide: "NewGuidedDecider exSha ?guide (Some s) = Inr \<lparr>gdEntries = [], gdFallback = s\<rparr>" for s :: Rand
    by (simp add: NewGuidedDecider_def newTapeDecider_def)
  have same: "(exFailing acts')\<lparr>rnScenario := rnScenario (exFailing acts), rnDecisions := ?guide, rnOutcome := exResult acts,
      rnReproducibility := exBuild 7\<rparr> = ?r" "snActions (rnScenario (exFailing acts)) = acts"
    by (simp_all add: exFailing_def)
  have "hasViolation (exResult acts) (vFingerprint exViolation) \<longleftrightarrow> acts \<noteq> []"
    by (simp add: hasViolation_def exResult_def exFailure_def exIdle_def)
  then show ?thesis
    unfolding evaluateCandidate_def guide
    using exFailing_valid [OF assms, of 7] same by (simp add: exExecute_def NewRecorder_def recorderTape_def Let_def)
qed

lemma exMinimize:
  "minimizeArtifact exSha exExecute exBuild (exFailing [exHeal, exHeal]) \<lparr>mbMaxRuns = 10, mbFallbackSeed = 7, mbTargetFingerprint = []\<rparr> =
     Some (Inr \<lparr>mrRun = exMinimal, mrRuns = 3, mrActionsRemoved = 1, mrGuidanceEntriesRemoved = 0, mrSelectionsShrunk = 0,
       mrTruncated = False\<rparr>)"
proof -
  let ?input = "exFailing [exHeal, exHeal]"
  let ?target = "vFingerprint exViolation"
  let ?guide = "\<lparr>tpSchema = DecisionSchema, tpEntries = []\<rparr>"
  let ?ev = "evaluateCandidate exSha exExecute exBuild ?input 7 ?target"
  have input: "Validate exSha ?input = None"
  proof -
    have "?input\<lparr>rnReproducibility := exBuild 1\<rparr> = ?input"
      by (simp add: exFailing_def)
    then show ?thesis
      using exFailing_valid [of "[exHeal, exHeal]" 1] by simp
  qed
  have "length ?target = 24"
    by (simp add: exViolation_def)
  then have hit: "hasViolation exFailure ?target" "?target \<noteq> []"
    by (auto simp: hasViolation_def exFailure_def)
  have proj: "rnDecisions (exFailing acts) = ?guide" "snActions (rnScenario (exFailing acts)) = acts"
      "withActions (rnScenario (exFailing acts)) acts' = rnScenario (exFailing acts')"
      "rnDecisions exMinimal = ?guide" "rnScenario exMinimal = rnScenario (exFailing [exHeal])" for acts acts'
    by (simp_all add: exFailing_def withActions_def exMinimal_def)
  have one: "testActions ?ev ?input ?guide 0 1 = Some (Inr (exMinimal, True))"
    using exCandidate [of "[exHeal]" "[exHeal, exHeal]"] by (simp add: testActions_def proj removeChunk_def exMinimal_def)
  have none: "testActions ?ev exMinimal ?guide 0 1 = Some (Inr ((exFailing [])\<lparr>rnReproducibility := exBuild 7\<rparr>, False))"
    using exCandidate [of "[]" "[exHeal, exHeal]"] by (simp add: testActions_def proj removeChunk_def)
  have tried: "tryChunks (testActions ?ev ?input ?guide) 2 1 9 0 0 = Some (Inr (1, Some (exMinimal, 0, 1)))"
      "tryChunks (testActions ?ev exMinimal ?guide) 1 1 9 0 1 = Some (Inr (2, None))"
    using one none by (simp_all add: tryChunks_step tryChunks_stop)
  have "reduceActions ?ev 9 exMinimal ?guide 2 1 = Some (Inr (exMinimal, ?guide, 2))"
    using tried(2) by (subst reduceActions.simps) (simp add: chunkSize_def proj)
  then have "reduceActions ?ev 9 ?input ?guide 2 0 = Some (Inr (exMinimal, ?guide, 2))"
    using tried(1) by (subst reduceActions.simps) (simp add: chunkSize_def proj numeral_2_eq_2 [symmetric])
  then have "minimize ?input \<lparr>mbMaxRuns = 9, mbFallbackSeed = 7, mbTargetFingerprint = []\<rparr> ?ev =
      Some (Inr \<lparr>mrRun = exMinimal, mrRuns = 2, mrActionsRemoved = 1, mrGuidanceEntriesRemoved = 0, mrSelectionsShrunk = 0,
       mrTruncated = False\<rparr>)"
    by (simp add: minimize_def reduceEntries.simps proj len_def)
  moreover have "targetOf ?input \<lparr>mbMaxRuns = 10, mbFallbackSeed = 7, mbTargetFingerprint = []\<rparr> = ?target"
    by (simp add: targetOf_def exFailing_def exResult_def exFailure_def)
  moreover have "rnOutcome ?input = exFailure" "rnAdapter ?input = \<lparr>adID = ReferenceAdapterID, adVersion = ReferenceAdapterV3\<rparr>"
    by (simp_all add: exFailing_def exResult_def)
  moreover have "newTapeDecider exSha ?guide False = Inr \<lparr>tdTape = ?guide, tdIndex = 0, tdIncludeOperationIDs = False\<rparr>"
    by (simp add: newTapeDecider_def)
  ultimately show ?thesis
    using input hit by (simp add: minimizeArtifact_def Let_def MaxRunsLimit_def exExecute_def tapeFinish_def proj exResult_def)
qed

theorem minimize_sound_witness:
  "Validate exSha exMinimal = None \<and> hasViolation (rnOutcome exMinimal) (vFingerprint exViolation)
   \<and> reproduces exSha exExecute exMinimal \<and> snActions (rnScenario exMinimal) = [exHeal]"
proof -
  have "targetOf (exFailing [exHeal, exHeal]) \<lparr>mbMaxRuns = 10, mbFallbackSeed = 7, mbTargetFingerprint = []\<rparr> = vFingerprint exViolation"
    by (simp add: targetOf_def exFailing_def exResult_def exFailure_def)
  then show ?thesis
    using minimize_sound [OF exMinimize] by (simp add: exMinimal_def exFailing_def)
qed

theorem minimize_minimal_witness:
  "snActions (rnScenario exMinimal) = [exHeal] \<and> (\<exists>guide rn.
     evaluateCandidate exSha exExecute exBuild (exFailing [exHeal, exHeal]) 7 (vFingerprint exViolation) (rnScenario (exFailing [])) guide
       = Some (Inr (rn, False)))"
proof -
  have "targetOf (exFailing [exHeal, exHeal]) \<lparr>mbMaxRuns = 10, mbFallbackSeed = 7, mbTargetFingerprint = []\<rparr> = vFingerprint exViolation"
    by (simp add: targetOf_def exFailing_def exResult_def exFailure_def)
  moreover have "(rnScenario exMinimal)\<lparr>snActions := []\<rparr> = rnScenario (exFailing [])" "snActions (rnScenario exMinimal) = [exHeal]"
    by (simp_all add: exMinimal_def exFailing_def)
  ultimately show ?thesis
    using minimize_minimal [OF exMinimize] by (auto simp: removeChunk_def)
qed

theorem minimize_returns_witness:
  "minimizeArtifact exSha exExecute exBuild exMinimal \<lparr>mbMaxRuns = 10, mbFallbackSeed = 7, mbTargetFingerprint = []\<rparr> \<noteq> None"
  by (rule minimize_returns) (simp add: exExecute_def)

definition exDraw :: Choice where
  "exDraw = \<lparr>chID = ''lat/1'', chKind = ''network_latency'', chOptions = [], chMin = Some 0, chMax = Some 9, chContext = []\<rparr>"

theorem simpler_valid_witness:
  "\<exists>e. newEntry id exDraw (numberSelection 8) = Inr e \<and> entryStored id (e\<lparr>teSelection := numberSelection 4\<rparr>)"
proof -
  have v: "ValidateChoice exDraw = None" "validateSelection exDraw (numberSelection 8) = None"
    by (simp_all add: ValidateChoice_def validateSelection_def numberSelection_def exDraw_def)
  then obtain e where e: "newEntry id exDraw (numberSelection 8) = Inr e"
    using newEntry_valid by blast
  then have "teChoice e = exDraw" "teSelection e = numberSelection 8"
    by (auto simp: newEntry_Inr)
  then have "numberSelection 4 \<in> set (simplerSelections e)"
    by (simp add: simplerSelections_def exDraw_def numberSelection_def cursorValues.simps [of 0 8 4])
  from simpler_valid [OF newEntry_stored [OF e] this] show ?thesis
    using e by blast
qed

end
