(* ===== verification/DriverNode.thy ===== *)
theory DriverNode
  imports RaftCluster
begin

text \<open>
  What the harness relies on of a node beyond Election Safety: only \<open>Step\<close> itself asks for a write. No handler's
  effects contain one, so neither do the effects held back by an outstanding write.
\<close>

fun asksWrite :: "Effect \<Rightarrow> bool" where
  "asksWrite (EffectPersist t st) = True"
| "asksWrite (EffectSend m) = False"
| "asksWrite EffectResetElectionTimer = False"
| "asksWrite EffectResetHeartbeatTimer = False"
| "asksWrite (EffectApply e) = False"
| "asksWrite (EffectInstallSnapshot s) = False"

definition calm :: "Effect list \<Rightarrow> bool" where
  "calm effs \<longleftrightarrow> (\<forall>e\<in>set effs. \<not> asksWrite e)"

lemma calm_simps [simp]:
  "calm []" "calm (e # effs) \<longleftrightarrow> \<not> asksWrite e \<and> calm effs" "calm (effs @ effs') \<longleftrightarrow> calm effs \<and> calm effs'"
  "calm (map (\<lambda>i. EffectSend (f i)) is)"
  by (auto simp: calm_def)

definition calmResult :: "(Node \<times> bool \<times> Effect list) option \<Rightarrow> bool" where
  "calmResult r \<longleftrightarrow> (\<forall>n' dirty effs. r = Some (n', dirty, effs) \<longrightarrow> calm effs)"

definition calmOutcome :: "(Node \<times> (raft_error + bool \<times> Effect list)) option \<Rightarrow> bool" where
  "calmOutcome r \<longleftrightarrow> (\<forall>n' dirty effs. r = Some (n', Inr (dirty, effs)) \<longrightarrow> calm effs)"

lemma calmResult_intros [simp]:
  "calmResult None" "calmResult (Some (n', d, effs)) \<longleftrightarrow> calm effs"
  by (auto simp: calmResult_def)

lemma calmOutcome_intros [simp]:
  "calmOutcome None" "calmOutcome (Some (n', Inl err))" "calmOutcome (Some (n', Inr (d, effs))) \<longleftrightarrow> calm effs"
  by (auto simp: calmOutcome_def)

lemma calmOutcome_if: "calmOutcome a \<Longrightarrow> calmOutcome b \<Longrightarrow> calmOutcome (if P then a else b)"
  by simp

lemma calm_applyCommitted: "applyCommitted n = Some (n', effs) \<Longrightarrow> calm effs"
proof (induction n arbitrary: n' effs rule: applyCommitted.induct)
  case (1 n)
  let ?n1 = "n\<lparr>applied := applied n + 1\<rparr>"
  show ?case
  proof (cases "applied n < CommitIndex (hs n)")
    case True
    then obtain e effs1 where "entryAt ?n1 (applied ?n1) = Some e" "applyCommitted ?n1 = Some (n', effs1)"
        "effs = EffectApply e # effs1"
      using "1.prems" by (subst (asm) applyCommitted.simps) (auto simp: Let_def split: option.splits)
    then show ?thesis
      using "1.IH" [OF True refl] by simp
  qed (use "1.prems" in \<open>simp add: applyCommitted.simps\<close>)
qed

lemma calm_advanceLoop: "advanceLoop index old n = Some (n', effs) \<Longrightarrow> calm effs"
proof (induction index old n arbitrary: n' effs rule: advanceLoop.induct)
  case (1 index old n)
  then show ?case
    by (subst (asm) (3) advanceLoop.simps)
      (auto simp: Let_def dest: calm_applyCommitted split: if_splits option.splits)
qed

lemma calm_advanceCommit: "advanceCommit n = Some (n', effs) \<Longrightarrow> calm effs"
  by (auto simp: advanceCommit_def dest: calm_advanceLoop)

lemma calm_broadcastLoop: "broadcastLoop ms n = Some (n', effs) \<Longrightarrow> calm effs"
  by (induction ms arbitrary: n effs) (auto split: if_splits option.splits)

lemma calm_broadcastAppend: "broadcastAppend n = Some (n', effs) \<Longrightarrow> calm effs"
  by (auto simp: broadcastAppend_def dest: calm_broadcastLoop)

lemmas calm_dests = calm_applyCommitted calm_advanceCommit calm_broadcastAppend

lemma calm_becomeLeader: "becomeLeader n = Some (n', Inr effs) \<Longrightarrow> calm effs"
  by (auto simp: becomeLeader_def Let_def bind_eq_Some_conv dest!: calm_dests split: if_splits prod.splits)

lemma calm_startElection: "calmOutcome (startElection n)"
proof -
  have "calmOutcome (case becomeLeader m of None \<Rightarrow> None | Some (n2, Inl err) \<Rightarrow> Some (n2, Inl err)
      | Some (n2, Inr effs) \<Rightarrow> Some (n2, Inr (True, [EffectResetElectionTimer] @ effs)))" for m
    using calm_becomeLeader [of m] by (auto split: option.split sum.split)
  then show ?thesis
    unfolding startElection_def Let_def by (intro calmOutcome_if) simp_all
qed

lemma calm_handleRequestVote: "handleRequestVote msg n = (n', d, effs) \<Longrightarrow> calm effs"
proof -
  have "calm (snd (snd (handleRequestVote msg n)))"
    by (simp add: handleRequestVote_def Let_def)
  then show "handleRequestVote msg n = (n', d, effs) \<Longrightarrow> calm effs"
    by (metis snd_conv)
qed

lemma calm_handleRequestVoteResponse: "calmOutcome (handleRequestVoteResponse msg n)"
proof -
  have "calmOutcome (case becomeLeader m of None \<Rightarrow> None | Some (n2, Inl err) \<Rightarrow> Some (n2, Inl err)
      | Some (n2, Inr effs) \<Rightarrow> Some (n2, Inr (True, effs)))" for m
    using calm_becomeLeader [of m] by (auto split: option.split sum.split)
  then show ?thesis
    by (simp add: handleRequestVoteResponse_def Let_def split: option.split)
qed

lemma calm_rejectAppend [simp]: "calm (rejectAppend msg hint n)"
  by (simp add: rejectAppend_def)

lemma calm_finishAppend: "calmResult (finishAppend msg dirty n)"
  by (auto simp: calmResult_def finishAppend_def Let_def bind_eq_Some_conv dest!: calm_dests split: if_splits prod.splits)

lemma calm_storeEntries: "calmResult (storeEntries msg n)"
  using calm_finishAppend unfolding calmResult_def storeEntries_def
  by (auto simp: bind_eq_Some_conv split: if_splits prod.splits bool.splits)

lemma calm_handleAppendEntries: "calmResult (handleAppendEntries msg n)"
  using calm_storeEntries by (auto simp: handleAppendEntries_def Let_def split: option.splits sum.splits)

lemma calm_handleInstallSnapshot: "calmResult (handleInstallSnapshot msg n)"
  by (auto simp: calmResult_def handleInstallSnapshot_def rejectSnapshot_def Let_def bind_eq_Some_conv split: if_splits option.splits)

lemma calm_advanceAfterMatch: "calmResult (advanceAfterMatch msg n)"
  by (auto simp: calmResult_def advanceAfterMatch_def Let_def bind_eq_Some_conv dest!: calm_dests split: if_splits prod.splits)

lemma calm_responses: "calmResult (handleInstallSnapshotResponse msg n)" "calmResult (handleAppendEntriesResponse msg n)"
  using calm_advanceAfterMatch
  by (auto simp: handleInstallSnapshotResponse_def handleAppendEntriesResponse_def Let_def calmResult_def bind_eq_Some_conv
      split: if_splits prod.splits)

lemma calm_appendMembershipEntry: "calmOutcome (appendMembershipEntry ty m n)"
  by (auto simp: calmOutcome_def appendMembershipEntry_def Let_def bind_eq_Some_conv dest!: calm_dests
      split: if_splits prod.splits option.splits)

lemma calm_membership: "calmOutcome (beginMembership vs ls n)" "calmOutcome (finalizeMembership n)"
  using calm_appendMembershipEntry by (auto simp: beginMembership_def finalizeMembership_def Let_def)

lemma calm_propose: "calmOutcome (propose payload n)"
  by (auto simp: calmOutcome_def propose_def Let_def bind_eq_Some_conv dest!: calm_dests split: if_splits prod.splits)

lemma calm_takeSnapshot: "calmOutcome (takeSnapshot index payload n)"
  by (auto simp: calmOutcome_def takeSnapshot_def Let_def bind_eq_Some_conv split: if_splits)

lemma calm_lift:
  "calmResult r \<Longrightarrow> calmOutcome (map_option (\<lambda>(n1, changed, effs). (n1, Inr (h \<or> changed, effs))) r)"
  by (auto simp: calmResult_def calmOutcome_def)

lemma calm_stepMessage: "calmOutcome (stepMessage msg n)"
proof -
  have vote: "calmResult (Some (handleRequestVote msg m))" for m
    using calm_handleRequestVote [of msg m] by (auto simp: calmResult_def)
  have reply: "calmOutcome (map_option (\<lambda>(n1, r). (n1, map_sum id (\<lambda>(changed, effs). (h \<or> changed, effs)) r))
      (handleRequestVoteResponse msg m))" for h m
  proof (cases "handleRequestVoteResponse msg m")
    case (Some p)
    obtain n1 res where "p = (n1, res)"
      by (cases p)
    then show ?thesis
      using calm_handleRequestVoteResponse [of msg m] Some by (cases res) auto
  qed simp
  show ?thesis
    unfolding stepMessage_def Let_def
    by (intro calmOutcome_if calm_lift vote reply calm_handleAppendEntries calm_handleInstallSnapshot calm_responses
        calmOutcome_intros(2))
qed

lemma calm_dispatch: "calmOutcome (dispatch inp n)"
proof (cases inp)
  case InputHeartbeatTimeout
  then show ?thesis
    by (auto simp: dispatch_def calmOutcome_def dest: calm_broadcastAppend)
qed (simp_all add: dispatch_def calm_startElection calm_stepMessage calm_propose calm_takeSnapshot calm_membership)

lemma calm_Start: "Start n = Some (n', effs) \<Longrightarrow> calm effs"
  by (auto simp: Start_def Let_def dest: calm_applyCommitted split: if_splits option.splits)

text \<open>A node whose held effects ask for no write, and what a step of it returns.\<close>

definition calmNode :: "Node \<Rightarrow> bool" where
  "calmNode n \<longleftrightarrow> (\<forall>t held. pending n = Some (t, held) \<longrightarrow> calm held)"

lemma Step_calm:
  assumes "Step inp n = Some (n', r)" and "\<And>t. inp \<noteq> InputPersisted t" and "pending n = None"
    and "pending n' = None \<or> (\<exists>t held. pending n' = Some (t, held) \<and> r = Inr [EffectPersist t (state n')])"
  shows "calmNode n'" and "r = Inr effs \<Longrightarrow> pending n' = None \<Longrightarrow> calm effs"
proof -
  obtain n1 y where d: "dispatch inp n = Some (n1, y)" and b: "barrier (n1, y) = (n', r)"
    using assms(1) unfolding Step_dispatch [OF assms(3,2)] by auto
  have c: "calm fs" if "y = Inr (dirty, fs)" for dirty fs
    using calm_dispatch [of inp n] d that by simp
  show "calmNode n'"
  proof (cases "pending n' = None")
    case False
    then obtain t held where p: "pending n' = Some (t, held)" and r: "r = Inr [EffectPersist t (state n')]"
      using assms(4) by (elim disjE exE conjE) simp_all
    obtain dirty fs where y: "y = Inr (dirty, fs)"
      using b r by (cases y) auto
    have dirty
    proof (rule ccontr)
      assume "\<not> dirty"
      then have "fs = [EffectPersist t (state n')]"
        using b unfolding y r by simp
      then show False
        using c [OF y] by simp
    qed
    then have "n' = n1\<lparr>nextWriteToken := nextWriteToken n1 + 1, pending := Some (nextWriteToken n1, fs)\<rparr>"
      using b unfolding y by (simp only: barrier.simps if_True prod.inject)
    then have "pending n' = Some (nextWriteToken n1, fs)"
      by simp
    then show ?thesis
      using c [OF y] by (simp add: calmNode_def)
  qed (simp add: calmNode_def)
  show "calm effs" if r: "r = Inr effs" and clean: "pending n' = None"
  proof (cases y)
    case (Inl err)
    then show ?thesis
      using b unfolding r Inl by simp
  next
    case (Inr p)
    obtain dirty fs where p: "p = (dirty, fs)"
      by (cases p)
    have "\<not> dirty"
    proof
      assume dirty
      then have "n' = n1\<lparr>nextWriteToken := nextWriteToken n1 + 1, pending := Some (nextWriteToken n1, fs)\<rparr>"
        using b unfolding Inr p by (simp only: barrier.simps if_True prod.inject)
      then show False
        using clean by simp
    qed
    then have "fs = effs"
      using b unfolding r Inr p by simp
    then show ?thesis
      using c [of dirty fs] Inr p by simp
  qed
qed

end
