(* ===== verification/Driver.thy ===== *)
theory Driver
  imports Network Checker AppOracle
begin

text \<open>
  The cluster harness of \<open>src/raftsim/cluster.go\<close>, first part: its configuration, the processes with their
  durable stores, the causal envelopes, the decisions it asks for, and the recovery of the portable
  application. What the harness takes from outside is one record \<open>env\<close>: the decider, \<open>json.Marshal\<close> on the
  values it is given, the checker's hash, and the strict checkpoint decoder. The decider's state lives in the
  router, which also consults it.
\<close>

section \<open>Errors\<close>

datatype cluster_error =
    ErrHarnessConfig | ErrBootstrapped | ErrUnknownNode NodeID | ErrNodeDown NodeID | ErrNodeUp NodeID
  | ErrNoLeader | ErrApplyOrder | ErrTransportIdentity | ErrClusterUncacheable | ErrApplicationDisabled
  | ErrApplicationSnapshot | ErrApplicationUnavailable | ErrOverlappingPersistence NodeID
  | ErrRaft raft_error | ErrNetwork net_error | ErrScheduler sim_error | ErrChoice dec_error
  | ErrPortable app_error | ErrViolation Violation

section \<open>Configuration\<close>

record 's HarnessConfig =
  hcMembers :: "NodeID list"
  hcVoters :: "NodeID list"
  hcLearners :: "NodeID list"
  hcSeed :: u64
  hcNetwork :: LinkConfig
  hcElectionTimeoutMin :: int
  hcElectionTimeoutMax :: int
  hcHeartbeatInterval :: int
  hcStorageLatency :: int
  hcTrace :: bool
  hcStopOnViolation :: bool
  hcDecider :: "'s option"
  hcApplication :: "string option"

definition millisecond :: int where "millisecond = 1000000"

definition DefaultConfig :: "NodeID list \<Rightarrow> 's HarnessConfig" where
  "DefaultConfig ms =
     \<lparr>hcMembers = ms, hcVoters = [], hcLearners = [], hcSeed = 0,
      hcNetwork = \<lparr>MinLatency = 5 * millisecond, MaxLatency = 25 * millisecond, LossProbability = Finite 0\<rparr>,
      hcElectionTimeoutMin = 150 * millisecond, hcElectionTimeoutMax = 300 * millisecond,
      hcHeartbeatInterval = 50 * millisecond, hcStorageLatency = millisecond, hcTrace = False,
      hcStopOnViolation = True, hcDecider = None, hcApplication = None\<rparr>"

text \<open>The loop over the sorted members: an empty one or a repeated one is an error.\<close>

fun membersDistinct :: "NodeID option \<Rightarrow> NodeID list \<Rightarrow> bool" where
  "membersDistinct previous [] = True"
| "membersDistinct previous (m # ms) =
     (if m = [] then False else if previous = Some m then False else membersDistinct (Some m) ms)"

definition validateHarness :: "'s HarnessConfig \<Rightarrow> cluster_error option" where
  "validateHarness c =
     (if length (hcMembers c) = 0 then Some ErrHarnessConfig
      else
        let ms = sort (hcMembers c) in
        if \<not> membersDistinct None ms then Some ErrHarnessConfig
        else if (length (hcVoters c) > 0 \<or> length (hcLearners c) > 0)
            \<and> \<not> ValidateMembership (stableMembership (hcVoters c) (hcLearners c)) ms then Some ErrHarnessConfig
        else if validateLink (hcNetwork c) \<noteq> None then Some ErrHarnessConfig
        else if hcElectionTimeoutMin c \<le> 0 \<or> hcElectionTimeoutMax c < hcElectionTimeoutMin c then Some ErrHarnessConfig
        else if hcHeartbeatInterval c \<le> 0 \<or> hcHeartbeatInterval c \<ge> hcElectionTimeoutMin c then Some ErrHarnessConfig
        else if hcStorageLatency c < 0 then Some ErrHarnessConfig
        else case hcApplication c of
          None \<Rightarrow> None
        | Some profile \<Rightarrow> if configValidate profile \<noteq> None then Some ErrHarnessConfig else None)"

section \<open>Processes\<close>

record StableStore =
  dsState :: PersistentState
  dsAppliedIndex :: u64
  dsApplied :: "Entry list"
  dsInstalledSnapshot :: Snapshot

definition emptyStore :: StableStore where
  "emptyStore = \<lparr>dsState = zeroState, dsAppliedIndex = 0, dsApplied = [], dsInstalledSnapshot = zeroSnapshot\<rparr>"

datatype timerKind = NoTimer | ElectionTimer | HeartbeatTimer

record queuedInput =
  qiInput :: Input
  qiIncarnation :: u64
  qiTimer :: timerKind
  qiGeneration :: u64

definition plainInput :: "Input \<Rightarrow> u64 \<Rightarrow> queuedInput" where
  "plainInput inp incarnation = \<lparr>qiInput = inp, qiIncarnation = incarnation, qiTimer = NoTimer, qiGeneration = 0\<rparr>"

record process =
  prNode :: "Node option"
  prUp :: bool
  prIncarnation :: u64
  prStore :: StableStore
  prRandom :: Rand
  prMailbox :: "queuedInput list"
  prElectionEvent :: EventID
  prElectionGeneration :: u64
  prHeartbeatEvent :: EventID
  prHeartbeatGeneration :: u64
  prPersistEvent :: EventID
  prPersistAckEvent :: EventID
  prPersistGeneration :: u64
  prCrashAfterPersist :: bool
  prSendSequence :: u64
  prApplication :: "Machine option"

definition newProcess :: "Rand \<Rightarrow> Machine option \<Rightarrow> process" where
  "newProcess random application =
     \<lparr>prNode = None, prUp = True, prIncarnation = 1, prStore = emptyStore, prRandom = random, prMailbox = [],
      prElectionEvent = 0, prElectionGeneration = 0, prHeartbeatEvent = 0, prHeartbeatGeneration = 0,
      prPersistEvent = 0, prPersistAckEvent = 0, prPersistGeneration = 0, prCrashAfterPersist = False,
      prSendSequence = 0, prApplication = application\<rparr>"

record Envelope =
  nvSenderIncarnation :: u64
  nvSendSequence :: u64
  nvOperationIDs :: "string list"
  nvMessage :: Message

text \<open>Cloning an envelope is the identity on values.\<close>

definition cloneEnvelope :: "Envelope \<Rightarrow> Envelope" where
  "cloneEnvelope e = e"

text \<open>The callbacks that the harness schedules, with the variables that their closures capture.\<close>

datatype callback =
    StorageCompletion NodeID u64 u64 PersistentState u64
  | PersistenceAck NodeID u64 u64 u64
  | ElectionFires NodeID u64 u64
  | HeartbeatFires NodeID u64 u64
  | ScheduledCrash NodeID
  | ScheduledRestart NodeID

section \<open>Trace events and JSON values\<close>

datatype cluster_detail =
    DetailIncarnation u64 | DetailMessage Message | DetailInput Input | DetailTransition Status Status
  | DetailCompleted u64 PersistentState | DetailScheduled u64 int | DetailSnapshot Snapshot | DetailViolation Violation

record cluster_trace =
  ctKind :: string
  ctAtNS :: int
  ctComponent :: string
  ctAction :: string
  ctDetails :: cluster_detail

record networkDecisionContext =
  ncFrom :: NodeID
  ncTo :: NodeID
  ncSenderIncarnation :: u64
  ncSendSequence :: u64
  ncCausal :: bool
  ncOperationIDs :: "string list"
  ncMessage :: Message
  ncMinLatencyNS :: int
  ncMaxLatencyNS :: int
  ncLossProbability :: gofloat

record processState =
  psID :: NodeID
  psUp :: bool
  psIncarnation :: u64
  psStore :: StableStore
  psRandom :: RandState
  psMailbox :: "queuedInput list"
  psElectionEvent :: EventID
  psElectionGeneration :: u64
  psHeartbeatEvent :: EventID
  psHeartbeatGeneration :: u64
  psPersistEvent :: EventID
  psPersistAckEvent :: EventID
  psPersistGeneration :: u64
  psCrashAfterPersist :: bool
  psSendSequence :: u64
  psNode :: "NodeState option"

record clusterState =
  csuSchema :: string
  csuBootstrapped :: bool
  csuMembers :: "NodeID list"
  csuSimulator :: SimulatorState
  csuRouter :: RouterState
  csuProcesses :: "processState list"
  csuChecker :: CheckerState
  csuViolations :: "Violation list"
  csuError :: "cluster_error option"

text \<open>
  The values that the harness passes to \<open>json.Marshal\<close>: maps of a node, an incarnation, a generation, a write
  token and a durable state, packets, contexts and the canonical state.
\<close>

datatype wire =
    WireTimer NodeID u64 u64 | WireWrite NodeID u64 u64 u64 | WireCompletion NodeID u64 u64 PersistentState u64
  | WireNode NodeID | WirePacket "Envelope Packet" | WireNetwork networkDecisionContext | WireCluster clusterState

record 's env =
  enChoose :: "'s \<Rightarrow> Choice \<Rightarrow> 's \<times> (dec_error + Selection)"
  enCausal :: bool
  enMarshal :: "wire \<Rightarrow> bytes"
  enHash :: hasher
  enMarshalCheckpoint :: "Checkpoint \<Rightarrow> bytes"
  enDecodeStrict :: "bytes \<Rightarrow> Checkpoint option"

abbreviation enSha :: "'s env \<Rightarrow> bytes \<Rightarrow> bytes" where
  "enSha env \<equiv> snd (enHash env)"

definition messageTypeString :: "MessageType \<Rightarrow> string" where
  "messageTypeString t =
     (if t = RequestVote then ''request_vote'' else if t = RequestVoteResponse then ''request_vote_response''
      else if t = AppendEntries then ''append_entries'' else if t = AppendEntriesResponse then ''append_entries_response''
      else if t = InstallSnapshot then ''install_snapshot'' else if t = InstallSnapshotResponse then ''install_snapshot_response''
      else ''unknown'')"

definition inputAction :: "Input \<Rightarrow> string" where
  "inputAction inp =
     (case inp of
        InputElectionTimeout \<Rightarrow> ''election_timeout''
      | InputHeartbeatTimeout \<Rightarrow> ''heartbeat_timeout''
      | InputMessage msg \<Rightarrow> ''message/'' @ messageTypeString (mType msg)
      | InputProposal _ \<Rightarrow> ''proposal''
      | InputPersisted _ \<Rightarrow> ''persisted''
      | InputSnapshot _ _ \<Rightarrow> ''snapshot''
      | InputBeginMembership _ _ \<Rightarrow> ''begin_membership''
      | InputFinalizeMembership \<Rightarrow> ''finalize_membership''
      | InputUnknown _ \<Rightarrow> ''unknown'')"

section \<open>The cluster\<close>

record 's SimCluster =
  cuConfig :: "'s HarnessConfig"
  cuMembers :: "NodeID list"
  cuRouter :: "(Envelope, callback, NodeID, 's) Router"
  cuProcesses :: "NodeID \<Rightarrow> process option"
  cuChecker :: Checker
  cuBootstrapped :: bool
  cuViolations :: "Violation list"
  cuErr :: "cluster_error option"
  cuTrace :: "cluster_trace list option"

text \<open>
  Operations return the cluster and the error, if any; the outer \<open>None\<close> is a panic. The state is kept when an
  error is returned: what happened before it has happened.
\<close>

type_synonym 's outcome = "('s SimCluster \<times> cluster_error option) option"

definition andThen :: "'s outcome \<Rightarrow> ('s SimCluster \<Rightarrow> 's outcome) \<Rightarrow> 's outcome" where
  "andThen r f =
     (case r of None \<Rightarrow> None | Some (c, Some err) \<Rightarrow> Some (c, Some err) | Some (c, None) \<Rightarrow> f c)"

definition updateProc :: "NodeID \<Rightarrow> (process \<Rightarrow> process) \<Rightarrow> 's SimCluster \<Rightarrow> 's SimCluster" where
  "updateProc i f c = c\<lparr>cuProcesses := (cuProcesses c)(i := map_option f (cuProcesses c i))\<rparr>"

abbreviation simOf :: "'s SimCluster \<Rightarrow> (Envelope, callback) action Simulator" where
  "simOf c \<equiv> rtSim (cuRouter c)"

definition withSim :: "(Envelope, callback) action Simulator \<Rightarrow> 's SimCluster \<Rightarrow> 's SimCluster" where
  "withSim s c = c\<lparr>cuRouter := (cuRouter c)\<lparr>rtSim := s\<rparr>\<rparr>"

definition failWith :: "cluster_error \<Rightarrow> 's SimCluster \<Rightarrow> 's SimCluster" where
  "failWith err c = (case cuErr c of None \<Rightarrow> c\<lparr>cuErr := Some err\<rparr> | Some _ \<Rightarrow> c)"

definition traceCluster :: "NodeID \<Rightarrow> string \<Rightarrow> string \<Rightarrow> cluster_detail \<Rightarrow> 's SimCluster \<Rightarrow> 's SimCluster" where
  "traceCluster i kind name details c =
     c\<lparr>cuTrace := map_option (\<lambda>es. es @ [\<lparr>ctKind = kind, ctAtNS = now (simOf c), ctComponent = ''raft/'' @ i,
        ctAction = name, ctDetails = details\<rparr>]) (cuTrace c)\<rparr>"

text \<open>\<open>eventTag\<close> and \<open>ScheduleTagged\<close>: the callback of an event with a JSON tag.\<close>

definition eventTag :: "'s env \<Rightarrow> string \<Rightarrow> wire \<Rightarrow> EventTag" where
  "eventTag env kind payload = (kind, enMarshal env payload)"

definition scheduleCallback ::
    "'s env \<Rightarrow> int \<Rightarrow> string \<Rightarrow> wire \<Rightarrow> callback \<Rightarrow> 's SimCluster \<Rightarrow> 's SimCluster \<times> (cluster_error + EventID)" where
  "scheduleCallback env delay kind payload cb c =
     (let (s, res) = ScheduleTagged delay (eventTag env kind payload) (Some (Foreign cb)) (simOf c)
      in (withSim s c, map_sum ErrScheduler id res))"

definition cancelEvent :: "EventID \<Rightarrow> 's SimCluster \<Rightarrow> 's SimCluster option" where
  "cancelEvent a c = map_option (\<lambda>(s, _). withSim s c) (Cancel a (simOf c))"

section \<open>Decisions\<close>

text \<open>
  \<open>chooseDuration\<close>. Without a decider the result is the minimum; otherwise the decider's answer is validated.
\<close>

definition chooseDuration ::
    "'s env \<Rightarrow> string \<Rightarrow> string \<Rightarrow> int \<Rightarrow> int \<Rightarrow> wire \<Rightarrow> 's SimCluster \<Rightarrow> 's SimCluster \<times> (cluster_error + int)" where
  "chooseDuration env i kind minimum maximum context c =
     (case rtDecisions (cuRouter c) of
        None \<Rightarrow> (c, Inr minimum)
      | Some d \<Rightarrow>
          let choice = \<lparr>chID = i, chKind = kind, chOptions = [], chMin = Some minimum, chMax = Some maximum,
                chContext = enMarshal env context\<rparr>;
              (d1, answer) = enChoose env d choice;
              c1 = c\<lparr>cuRouter := (cuRouter c)\<lparr>rtDecisions := Some d1\<rparr>\<rparr>
          in case answer of
               Inl err \<Rightarrow> (c1, Inl (ErrChoice err))
             | Inr selection \<Rightarrow>
                 (case ValidateSelection choice selection of
                    Some err \<Rightarrow> (c1, Inl (ErrChoice err))
                  | None \<Rightarrow> (c1, Inr (the (selNumber selection)))))"

text \<open>
  \<open>lossOptions\<close>. The weight is exact for a \<open>float64\<close>; a NaN, which a validated link excludes, converts to
  \<open>2^63\<close> on amd64.
\<close>

definition lossOptions :: "gofloat \<Rightarrow> DOption list" where
  "lossOptions p =
     (let always = (\<lambda>name. [\<lparr>oID = name, oWeight = 1\<rparr>]);
          weighted = (\<lambda>w. [\<lparr>oID = ''drop'', oWeight = w\<rparr>, \<lparr>oID = ''deliver'', oWeight = 2 ^ 53 - w\<rparr>])
      in case p of
           NaN \<Rightarrow> weighted (2 ^ 63)
         | Infinite positive \<Rightarrow> if positive then always ''drop'' else always ''deliver''
         | Finite q \<Rightarrow>
             if q \<le> 0 then always ''deliver''
             else if q \<ge> 1 then always ''drop''
             else weighted (word_of_int \<lceil>q * 2 ^ 53\<rceil>))"

definition operationID :: "Entry \<Rightarrow> string" where
  "operationID e =
     (let plain = ''raft-entry/'' @ showNat (unat (eTerm e)) @ ''/'' @ showNat (unat (eIndex e)) in
      if eType e = EntryCommand then
        (case DecodeCommand (eData e) of Inl _ \<Rightarrow> plain | Inr command \<Rightarrow> EncodeToString (cmdID command))
      else plain)"

fun collectIDs :: "string list \<Rightarrow> Entry list \<Rightarrow> string list" where
  "collectIDs ids [] = ids"
| "collectIDs ids (e # es) =
     (if operationID e \<in> set ids then collectIDs ids es else collectIDs (ids @ [operationID e]) es)"

definition operationIDs :: "Entry list \<Rightarrow> string list" where
  "operationIDs entries = sort (collectIDs [] entries)"

definition semanticNetworkContext :: "Envelope Packet \<Rightarrow> LinkConfig \<Rightarrow> bool \<Rightarrow> networkDecisionContext" where
  "semanticNetworkContext p link includeIDs =
     (let ids = nvOperationIDs (pkMessage p) in
      \<lparr>ncFrom = pkFrom p, ncTo = pkTo p, ncSenderIncarnation = nvSenderIncarnation (pkMessage p),
       ncSendSequence = nvSendSequence (pkMessage p), ncCausal = includeIDs,
       ncOperationIDs = (if includeIDs then (if length ids = 0 then operationIDs (mEntries (nvMessage (pkMessage p))) else ids) else []),
       ncMessage = nvMessage (pkMessage p), ncMinLatencyNS = MinLatency link, ncMaxLatencyNS = MaxLatency link,
       ncLossProbability = LossProbability link\<rparr>)"

definition networkChoiceID :: "Envelope Packet \<Rightarrow> string \<Rightarrow> string" where
  "networkChoiceID p suffix =
     ''network/'' @ pkFrom p @ ''/'' @ showNat (unat (nvSenderIncarnation (pkMessage p))) @ ''/''
       @ showNat (unat (nvSendSequence (pkMessage p))) @ ''/'' @ suffix"

definition raftDrop :: "'s env \<Rightarrow> 's \<Rightarrow> Envelope Packet \<Rightarrow> LinkConfig \<Rightarrow> 's \<times> (net_error + bool)" where
  "raftDrop env d p link =
     (let choice = \<lparr>chID = networkChoiceID p ''loss'', chKind = ''network_loss'',
            chOptions = lossOptions (LossProbability link), chMin = None, chMax = None,
            chContext = enMarshal env (WireNetwork (semanticNetworkContext p link (enCausal env)))\<rparr>;
          (d1, answer) = enChoose env d choice
      in case answer of
           Inl err \<Rightarrow> (d1, Inl (ErrDecider err))
         | Inr selection \<Rightarrow>
             (case ValidateSelection choice selection of
                Some err \<Rightarrow> (d1, Inl (ErrDecider err))
              | None \<Rightarrow> (d1, Inr (selOption selection = ''drop''))))"

definition raftLatency :: "'s env \<Rightarrow> 's \<Rightarrow> Envelope Packet \<Rightarrow> LinkConfig \<Rightarrow> 's \<times> (net_error + int)" where
  "raftLatency env d p link =
     (let choice = \<lparr>chID = networkChoiceID p ''latency'', chKind = ''network_latency'', chOptions = [],
            chMin = Some (MinLatency link), chMax = Some (MaxLatency link),
            chContext = enMarshal env (WireNetwork (semanticNetworkContext p link (enCausal env)))\<rparr>;
          (d1, answer) = enChoose env d choice
      in case answer of
           Inl err \<Rightarrow> (d1, Inl (ErrDecider err))
         | Inr selection \<Rightarrow>
             (case ValidateSelection choice selection of
                Some err \<Rightarrow> (d1, Inl (ErrDecider err))
              | None \<Rightarrow> (d1, Inr (the (selNumber selection)))))"

definition raftNetworkDecisions :: "'s env \<Rightarrow> ('s, Envelope) decisionSource" where
  "raftNetworkDecisions env = (raftDrop env, raftLatency env)"

section \<open>The portable application\<close>

definition applyApplicationEntry :: "(bytes \<Rightarrow> bytes) \<Rightarrow> Entry \<Rightarrow> Machine \<Rightarrow> app_error + Machine" where
  "applyApplicationEntry sha e m =
     (if eType e = EntryCommand then
        (case ApplyEncoded sha (eData e) (Some m) of
           (Some m', Inr _) \<Rightarrow> Inr m'
         | (_, Inl err) \<Rightarrow> Inl err
         | (None, Inr _) \<Rightarrow> Inl ErrInvalidCheckpoint)
      else if eType e = EntryNoop \<or> eType e = EntryConfigJoint \<or> eType e = EntryConfigFinal then Inr m
      else Inl ErrInvalidEntry)"

definition restoreData :: "'s env \<Rightarrow> bytes \<Rightarrow> app_error + Machine" where
  "restoreData env data =
     (case DecodeCheckpoint (enSha env) (enMarshalCheckpoint env) (enDecodeStrict env) data of
        Inl err \<Rightarrow> Inl err
      | Inr cp \<Rightarrow> Restore (enSha env) cp)"

text \<open>The loop of \<open>recoverApplication\<close> over the applied entries.\<close>

fun recoverEntries :: "(bytes \<Rightarrow> bytes) \<Rightarrow> u64 \<Rightarrow> u64 \<Rightarrow> Entry list \<Rightarrow> u64 \<Rightarrow> Machine \<Rightarrow> cluster_error + Machine" where
  "recoverEntries sha base limit [] last_index m = (if last_index \<noteq> limit then Inl ErrApplyOrder else Inr m)"
| "recoverEntries sha base limit (e # es) last_index m =
     (if eIndex e \<le> base then recoverEntries sha base limit es last_index m
      else if last_index = MaxUint64 \<or> eIndex e \<noteq> last_index + 1 \<or> eIndex e > limit then Inl ErrApplyOrder
      else (case applyApplicationEntry sha e m of
          Inl err \<Rightarrow> Inl (ErrPortable err)
        | Inr m' \<Rightarrow> recoverEntries sha base limit es (eIndex e) m'))"

definition recoverApplication :: "'s env \<Rightarrow> StableStore \<Rightarrow> cluster_error + Machine" where
  "recoverApplication env st =
     (let s = snapshot (dsState st) in
      if LastIncludedIndex s > 0 \<and> LastIncludedIndex s \<le> dsAppliedIndex st then
        (case restoreData env (sData s) of
           Inl err \<Rightarrow> Inl (ErrPortable err)
         | Inr m \<Rightarrow> recoverEntries (enSha env) (LastIncludedIndex s) (dsAppliedIndex st) (dsApplied st) (LastIncludedIndex s) m)
      else recoverEntries (enSha env) 0 (dsAppliedIndex st) (dsApplied st) 0 (newMachine (enSha env)))"

end
