(* ===== verification/DriverRun.thy ===== *)
theory DriverRun
  imports Driver
begin

text \<open>
  The cluster harness, second part: the effects of a node, the mailbox, timers, crashes and restarts, the
  callbacks of scheduled events, observation, and the public operations, up to the loops that run the
  simulation.
\<close>

section \<open>Observation\<close>

text \<open>\<open>None\<close> is the nil dereference of a process that is up without a node.\<close>

definition observeProcess :: "'s SimCluster \<Rightarrow> NodeID \<Rightarrow> NodeObservation option" where
  "observeProcess c i =
     (case cuProcesses c i of
        None \<Rightarrow> None
      | Some p \<Rightarrow>
          if prUp p \<and> prNode p = None then None
          else Some \<lparr>noID = i, noUp = prUp p, noStatus = (if prUp p then map_option nodeStatus (prNode p) else None),
             noDurable = dsState (prStore p), noAppliedIndex = dsAppliedIndex (prStore p), noApplied = dsApplied (prStore p)\<rparr>)"

fun observeProcesses :: "'s SimCluster \<Rightarrow> NodeID list \<Rightarrow> NodeObservation list option" where
  "observeProcesses c [] = Some []"
| "observeProcesses c (i # is) =
     (case observeProcess c i of
        None \<Rightarrow> None
      | Some n \<Rightarrow> map_option (\<lambda>ns. n # ns) (observeProcesses c is))"

definition observe :: "'s env \<Rightarrow> 's SimCluster \<Rightarrow> 's SimCluster option" where
  "observe env c =
     (case observeProcesses c (cuMembers c) of
        None \<Rightarrow> None
      | Some nodes \<Rightarrow>
          let (checker, found) = Observe (enHash env) \<lparr>obAt = now (simOf c), obNodes = nodes\<rparr> (cuChecker c);
              c1 = c\<lparr>cuChecker := checker, cuViolations := cuViolations c @ found\<rparr>;
              c2 = fold (\<lambda>v. traceCluster [] ''protocol_state'' ''invariant_violation'' (DetailViolation v)) found c1
          in Some (if hcStopOnViolation (cuConfig c2) \<and> length found > 0 then failWith (ErrViolation (hd found)) c2 else c2))"

text \<open>The end of most operations: \<open>c.observe(); return c.err\<close>.\<close>

definition observed :: "'s env \<Rightarrow> 's SimCluster \<Rightarrow> 's outcome" where
  "observed env c = map_option (\<lambda>c1. (c1, cuErr c1)) (observe env c)"

section \<open>Timers\<close>

definition electionDelay ::
    "'s env \<Rightarrow> NodeID \<Rightarrow> u64 \<Rightarrow> u64 \<Rightarrow> 's SimCluster \<Rightarrow> ('s SimCluster \<times> (cluster_error + int)) option" where
  "electionDelay env i incarnation generation c =
     (case rtDecisions (cuRouter c) of
        None \<Rightarrow>
          (case cuProcesses c i of
             None \<Rightarrow> None
           | Some p \<Rightarrow>
               map_option (\<lambda>(rng, d). (updateProc i (\<lambda>p. p\<lparr>prRandom := rng\<rparr>) c, Inr d))
                 (Duration (hcElectionTimeoutMin (cuConfig c)) (hcElectionTimeoutMax (cuConfig c)) (prRandom p)))
      | Some _ \<Rightarrow>
          Some (chooseDuration env
            (''timer/'' @ i @ ''/'' @ showNat (unat incarnation) @ ''/election/'' @ showNat (unat generation)) ''election_timeout''
            (hcElectionTimeoutMin (cuConfig c)) (hcElectionTimeoutMax (cuConfig c)) (WireTimer i incarnation generation) c))"

definition armElection :: "'s env \<Rightarrow> NodeID \<Rightarrow> process \<Rightarrow> 's SimCluster \<Rightarrow> 's outcome" where
  "armElection env i p c =
     (let generation = prElectionGeneration p + 1; incarnation = prIncarnation p;
          c1 = updateProc i (\<lambda>p. p\<lparr>prElectionGeneration := generation\<rparr>) c
      in case electionDelay env i incarnation generation c1 of
           None \<Rightarrow> None
         | Some (c2, Inl err) \<Rightarrow> Some (c2, Some err)
         | Some (c2, Inr delay) \<Rightarrow>
             (case scheduleCallback env delay ''election_timer'' (WireTimer i incarnation generation)
                     (ElectionFires i incarnation generation) c2 of
                (c3, Inl err) \<Rightarrow> Some (c3, Some err)
              | (c3, Inr event) \<Rightarrow> Some (updateProc i (\<lambda>p. p\<lparr>prElectionEvent := event\<rparr>) c3, None)))"

definition resetElectionTimer :: "'s env \<Rightarrow> NodeID \<Rightarrow> 's SimCluster \<Rightarrow> 's outcome" where
  "resetElectionTimer env i c =
     (case cuProcesses c i of
        None \<Rightarrow> None
      | Some p \<Rightarrow>
          (case (if prElectionEvent p \<noteq> 0
                 then map_option (updateProc i (\<lambda>p. p\<lparr>prElectionEvent := 0\<rparr>)) (cancelEvent (prElectionEvent p) c)
                 else Some c) of
             None \<Rightarrow> None
           | Some c1 \<Rightarrow>
               (case prNode p of
                  None \<Rightarrow> None
                | Some n \<Rightarrow> if \<not> IsVoter n then Some (c1, None) else armElection env i p c1)))"

definition resetHeartbeatTimer :: "'s env \<Rightarrow> NodeID \<Rightarrow> 's SimCluster \<Rightarrow> 's outcome" where
  "resetHeartbeatTimer env i c =
     (case cuProcesses c i of
        None \<Rightarrow> None
      | Some p \<Rightarrow>
          (case (if prHeartbeatEvent p \<noteq> 0 then cancelEvent (prHeartbeatEvent p) c else Some c) of
             None \<Rightarrow> None
           | Some c1 \<Rightarrow>
               let generation = prHeartbeatGeneration p + 1; incarnation = prIncarnation p;
                   c2 = updateProc i (\<lambda>p. p\<lparr>prHeartbeatGeneration := generation\<rparr>) c1
               in (case scheduleCallback env (hcHeartbeatInterval (cuConfig c2)) ''heartbeat_timer''
                          (WireTimer i incarnation generation) (HeartbeatFires i incarnation generation) c2 of
                     (c3, Inl err) \<Rightarrow> Some (c3, Some err)
                   | (c3, Inr event) \<Rightarrow> Some (updateProc i (\<lambda>p. p\<lparr>prHeartbeatEvent := event\<rparr>) c3, None))))"

definition syncElection :: "Role \<Rightarrow> Role \<Rightarrow> NodeID \<Rightarrow> 's SimCluster \<Rightarrow> 's SimCluster option" where
  "syncElection before after i c =
     (case cuProcesses c i of
        None \<Rightarrow> None
      | Some p \<Rightarrow>
          if before \<noteq> Leader \<and> after = Leader \<and> prElectionEvent p \<noteq> 0
          then map_option (updateProc i (\<lambda>p. p\<lparr>prElectionEvent := 0, prElectionGeneration := prElectionGeneration p + 1\<rparr>))
                 (cancelEvent (prElectionEvent p) c)
          else Some c)"

definition syncHeartbeat :: "Role \<Rightarrow> Role \<Rightarrow> NodeID \<Rightarrow> 's SimCluster \<Rightarrow> 's SimCluster option" where
  "syncHeartbeat before after i c =
     (case cuProcesses c i of
        None \<Rightarrow> None
      | Some p \<Rightarrow>
          if before = Leader \<and> after \<noteq> Leader \<and> prHeartbeatEvent p \<noteq> 0
          then map_option (updateProc i (\<lambda>p. p\<lparr>prHeartbeatEvent := 0, prHeartbeatGeneration := prHeartbeatGeneration p + 1\<rparr>))
                 (cancelEvent (prHeartbeatEvent p) c)
          else Some c)"

definition syncRoleTimers :: "Role \<Rightarrow> Role \<Rightarrow> NodeID \<Rightarrow> 's SimCluster \<Rightarrow> 's SimCluster option" where
  "syncRoleTimers before after i c = Option.bind (syncElection before after i c) (syncHeartbeat before after i)"

section \<open>Effects\<close>

definition persistEffect :: "'s env \<Rightarrow> NodeID \<Rightarrow> u64 \<Rightarrow> PersistentState \<Rightarrow> 's SimCluster \<Rightarrow> 's outcome" where
  "persistEffect env i token st c =
     (case cuProcesses c i of
        None \<Rightarrow> None
      | Some p \<Rightarrow>
          if prPersistEvent p \<noteq> 0 \<or> prPersistAckEvent p \<noteq> 0 then Some (c, Some (ErrOverlappingPersistence i))
          else
            let generation = prPersistGeneration p + 1; incarnation = prIncarnation p;
                c1 = updateProc i (\<lambda>p. p\<lparr>prPersistGeneration := generation\<rparr>) c
            in (case chooseDuration env
                  (''storage/'' @ i @ ''/'' @ showNat (unat incarnation) @ ''/'' @ showNat (unat generation)) ''storage_latency''
                  (hcStorageLatency (cuConfig c1)) (hcStorageLatency (cuConfig c1))
                  (WireWrite i incarnation generation token) c1 of
                  (c2, Inl err) \<Rightarrow> Some (c2, Some err)
                | (c2, Inr delay) \<Rightarrow>
                    (case scheduleCallback env delay ''storage_completion'' (WireCompletion i incarnation generation st token)
                            (StorageCompletion i incarnation generation st token) c2 of
                       (c3, Inl err) \<Rightarrow> Some (c3, Some err)
                     | (c3, Inr event) \<Rightarrow>
                         let c4 = updateProc i (\<lambda>p. p\<lparr>prPersistEvent := event\<rparr>) c3 in
                         Some (traceCluster i ''persistence'' ''scheduled'' (DetailScheduled token (now (simOf c4) + delay)) c4, None))))"

definition sendEffect :: "'s env \<Rightarrow> NodeID \<Rightarrow> Message \<Rightarrow> 's SimCluster \<Rightarrow> 's outcome" where
  "sendEffect env i msg c =
     (case cuProcesses c i of
        None \<Rightarrow> None
      | Some p \<Rightarrow>
          let seqno = prSendSequence p + 1;
              c1 = updateProc i (\<lambda>p. p\<lparr>prSendSequence := seqno\<rparr>) c;
              envelope = \<lparr>nvSenderIncarnation = prIncarnation p, nvSendSequence = seqno,
                nvOperationIDs = (if enCausal env \<and> rtDecisions (cuRouter c1) \<noteq> None then operationIDs (mEntries msg) else []),
                nvMessage = msg\<rparr>
          in (case Send (raftNetworkDecisions env) i (mTo msg) envelope (cuRouter c1) of
                None \<Rightarrow> None
              | Some (r, Inl err) \<Rightarrow> Some (c1\<lparr>cuRouter := r\<rparr>, Some (ErrNetwork err))
              | Some (r, Inr _) \<Rightarrow> Some (c1\<lparr>cuRouter := r\<rparr>, None)))"

definition applyEffect :: "'s env \<Rightarrow> NodeID \<Rightarrow> Entry \<Rightarrow> 's SimCluster \<Rightarrow> 's outcome" where
  "applyEffect env i e c =
     (case cuProcesses c i of
        None \<Rightarrow> None
      | Some p \<Rightarrow>
          if eIndex e \<noteq> dsAppliedIndex (prStore p) + 1 then Some (c, Some ErrApplyOrder)
          else if hcApplication (cuConfig c) \<noteq> None \<and> prApplication p = None then Some (c, Some ErrApplicationUnavailable)
          else
            (case (case prApplication p of
                     None \<Rightarrow> Inr None
                   | Some m \<Rightarrow> map_sum ErrPortable Some (applyApplicationEntry (enSha env) e m)) of
               Inl err \<Rightarrow> Some (c, Some err)
             | Inr application \<Rightarrow>
                 Some (updateProc i (\<lambda>p. p\<lparr>prStore := (prStore p)\<lparr>dsAppliedIndex := eIndex e,
                     dsApplied := dsApplied (prStore p) @ [e]\<rparr>, prApplication := application\<rparr>) c, None)))"

definition installedApplication :: "'s env \<Rightarrow> process \<Rightarrow> Snapshot \<Rightarrow> cluster_error + Machine option" where
  "installedApplication env p s =
     (case prApplication p of
        None \<Rightarrow> Inr None
      | Some m \<Rightarrow>
          (case restoreData env (sData s) of
             Inl err \<Rightarrow> Inl (ErrPortable err)
           | Inr restored \<Rightarrow>
               if LastIncludedIndex s = dsAppliedIndex (prStore p)
                  \<and> commitmentOf (enSha env) restored \<noteq> commitmentOf (enSha env) m then Inl ErrApplicationSnapshot
               else Inr (Some restored)))"

definition installEffect :: "'s env \<Rightarrow> NodeID \<Rightarrow> Snapshot \<Rightarrow> 's SimCluster \<Rightarrow> 's outcome" where
  "installEffect env i s c =
     (case cuProcesses c i of
        None \<Rightarrow> None
      | Some p \<Rightarrow>
          if LastIncludedIndex s < dsAppliedIndex (prStore p) then Some (c, Some ErrApplyOrder)
          else if hcApplication (cuConfig c) \<noteq> None \<and> prApplication p = None then Some (c, Some ErrApplicationUnavailable)
          else
            (case installedApplication env p s of
               Inl err \<Rightarrow> Some (c, Some err)
             | Inr application \<Rightarrow>
                 Some (traceCluster i ''persistence'' ''snapshot_installed'' (DetailSnapshot s)
                   (updateProc i (\<lambda>p. p\<lparr>prStore := (prStore p)\<lparr>dsAppliedIndex := LastIncludedIndex s, dsInstalledSnapshot := s,
                      dsApplied := filter (\<lambda>e. \<not> eIndex e \<le> LastIncludedIndex s) (dsApplied (prStore p))\<rparr>,
                      prApplication := application\<rparr>) c), None)))"

definition processEffect :: "'s env \<Rightarrow> NodeID \<Rightarrow> Effect \<Rightarrow> 's SimCluster \<Rightarrow> 's outcome" where
  "processEffect env i eff c =
     (case eff of
        EffectPersist token st \<Rightarrow> persistEffect env i token st c
      | EffectSend msg \<Rightarrow> sendEffect env i msg c
      | EffectResetElectionTimer \<Rightarrow> resetElectionTimer env i c
      | EffectResetHeartbeatTimer \<Rightarrow> resetHeartbeatTimer env i c
      | EffectApply e \<Rightarrow> applyEffect env i e c
      | EffectInstallSnapshot s \<Rightarrow> installEffect env i s c)"

fun processEffects :: "'s env \<Rightarrow> NodeID \<Rightarrow> Effect list \<Rightarrow> 's SimCluster \<Rightarrow> 's outcome" where
  "processEffects env i [] c = Some (c, None)"
| "processEffects env i (eff # effs) c = andThen (processEffect env i eff c) (processEffects env i effs)"

section \<open>Inputs\<close>

definition queuedInputIsCurrent :: "process \<Rightarrow> Node \<Rightarrow> queuedInput \<Rightarrow> bool" where
  "queuedInputIsCurrent p n q \<longleftrightarrow>
     (if qiIncarnation q \<noteq> prIncarnation p then False
      else case qiTimer q of
        ElectionTimer \<Rightarrow> qiGeneration q = prElectionGeneration p \<and> role n \<noteq> Leader
      | HeartbeatTimer \<Rightarrow> qiGeneration q = prHeartbeatGeneration p \<and> role n = Leader
      | NoTimer \<Rightarrow> True)"

text \<open>The step of the node, its effects, and the timers of the new role. The node keeps its new state even on an error.\<close>

definition transitionTrace :: "NodeID \<Rightarrow> Node \<Rightarrow> 's SimCluster \<Rightarrow> 's SimCluster option" where
  "transitionTrace i before c =
     (case Option.bind (cuProcesses c i) prNode of
        None \<Rightarrow> None
      | Some after \<Rightarrow> Some (traceCluster i ''protocol_state'' ''transition'' (DetailTransition (nodeStatus before) (nodeStatus after)) c))"

definition stepNode :: "'s env \<Rightarrow> NodeID \<Rightarrow> Node \<Rightarrow> Input \<Rightarrow> 's SimCluster \<Rightarrow> 's outcome" where
  "stepNode env i n inp c =
     (case Step inp n of
        None \<Rightarrow> None
      | Some (n1, Inl err) \<Rightarrow> Some (updateProc i (\<lambda>p. p\<lparr>prNode := Some n1\<rparr>) c, Some (ErrRaft err))
      | Some (n1, Inr effs) \<Rightarrow> processEffects env i effs (updateProc i (\<lambda>p. p\<lparr>prNode := Some n1\<rparr>) c))"

definition submit :: "'s env \<Rightarrow> NodeID \<Rightarrow> queuedInput \<Rightarrow> 's SimCluster \<Rightarrow> 's outcome" where
  "submit env i q c =
     (case cuProcesses c i of
        None \<Rightarrow> None
      | Some p \<Rightarrow>
          if \<not> prUp p \<or> qiIncarnation q \<noteq> prIncarnation p then Some (c, None)
          else (case prNode p of
             None \<Rightarrow> None
           | Some n \<Rightarrow>
               if AwaitingPersistence n then Some (updateProc i (\<lambda>p. p\<lparr>prMailbox := prMailbox p @ [q]\<rparr>) c, None)
               else if \<not> queuedInputIsCurrent p n q then Some (c, None)
               else
                 andThen (stepNode env i n (qiInput q)
                     (traceCluster i ''protocol_input'' (inputAction (qiInput q)) (DetailInput (qiInput q)) c))
                   (\<lambda>c1. case transitionTrace i n c1 of
                      None \<Rightarrow> None
                    | Some c2 \<Rightarrow>
                        (case Option.bind (cuProcesses c2 i) prNode of
                           None \<Rightarrow> None
                         | Some after \<Rightarrow> map_option (\<lambda>c3. (c3, None)) (syncRoleTimers (role n) (role after) i c2)))))"

text \<open>
  The loop of \<open>drain\<close>, with the length of the mailbox as fuel: an iteration takes one input off the mailbox,
  and a node that waits for no write adds none. An error goes to \<open>fail\<close>.
\<close>

fun drainLoop :: "'s env \<Rightarrow> nat \<Rightarrow> NodeID \<Rightarrow> 's SimCluster \<Rightarrow> 's SimCluster option" where
  "drainLoop env 0 i c = Some c"
| "drainLoop env (Suc fuel) i c =
     (case cuProcesses c i of
        None \<Rightarrow> None
      | Some p \<Rightarrow>
          if \<not> prUp p then Some c
          else (case prNode p of
             None \<Rightarrow> None
           | Some n \<Rightarrow>
               if AwaitingPersistence n then Some c
               else (case prMailbox p of
                  [] \<Rightarrow> Some c
                | q # rest \<Rightarrow>
                    (case submit env i q (updateProc i (\<lambda>p. p\<lparr>prMailbox := rest\<rparr>) c) of
                       None \<Rightarrow> None
                     | Some (c1, Some err) \<Rightarrow> Some (failWith err c1)
                     | Some (c1, None) \<Rightarrow> drainLoop env fuel i c1))))"

definition drain :: "'s env \<Rightarrow> NodeID \<Rightarrow> 's SimCluster \<Rightarrow> 's SimCluster option" where
  "drain env i c = (case cuProcesses c i of None \<Rightarrow> None | Some p \<Rightarrow> drainLoop env (length (prMailbox p)) i c)"

text \<open>\<open>receive\<close>, the handler of a node.\<close>

definition receive :: "'s env \<Rightarrow> NodeID \<Rightarrow> Envelope Packet \<Rightarrow> 's SimCluster \<Rightarrow> 's SimCluster option" where
  "receive env i packet c =
     (let envelope = pkMessage packet; msg = nvMessage envelope in
      if nvSenderIncarnation envelope = 0 \<or> nvSendSequence envelope = 0 \<or> pkFrom packet \<noteq> mFrom msg
         \<or> pkTo packet \<noteq> mTo msg \<or> mTo msg \<noteq> i then Some (failWith ErrTransportIdentity c)
      else (case cuProcesses c i of
         None \<Rightarrow> None
       | Some p \<Rightarrow>
           if \<not> prUp p then Some (traceCluster i ''protocol_drop'' ''process_down'' (DetailMessage msg) c)
           else (case submit env i (plainInput (InputMessage msg) (prIncarnation p)) c of
              None \<Rightarrow> None
            | Some (c1, Some err) \<Rightarrow> Some (failWith err c1)
            | Some (c1, None) \<Rightarrow> Some c1)))"

section \<open>Crash and restart\<close>

fun cancelEvents :: "EventID list \<Rightarrow> 's SimCluster \<Rightarrow> 's SimCluster option" where
  "cancelEvents [] c = Some c"
| "cancelEvents (a # as) c =
     (case (if a \<noteq> 0 then cancelEvent a c else Some c) of None \<Rightarrow> None | Some c1 \<Rightarrow> cancelEvents as c1)"

definition cancelProcessEvents :: "NodeID \<Rightarrow> 's SimCluster \<Rightarrow> 's SimCluster option" where
  "cancelProcessEvents i c =
     (case cuProcesses c i of
        None \<Rightarrow> None
      | Some p \<Rightarrow>
          map_option (updateProc i (\<lambda>p. p\<lparr>prElectionEvent := 0, prHeartbeatEvent := 0, prPersistEvent := 0, prPersistAckEvent := 0,
              prElectionGeneration := prElectionGeneration p + 1, prHeartbeatGeneration := prHeartbeatGeneration p + 1,
              prPersistGeneration := prPersistGeneration p + 1\<rparr>))
            (cancelEvents [prElectionEvent p, prHeartbeatEvent p, prPersistEvent p, prPersistAckEvent p] c))"

definition crashed :: "process \<Rightarrow> process" where
  "crashed p = p\<lparr>prUp := False, prIncarnation := prIncarnation p + 1, prNode := None, prApplication := None,
     prMailbox := [], prCrashAfterPersist := False, prSendSequence := 0\<rparr>"

definition Crash :: "'s env \<Rightarrow> NodeID \<Rightarrow> 's SimCluster \<Rightarrow> 's outcome" where
  "Crash env i c =
     (case cuProcesses c i of
        None \<Rightarrow> Some (c, Some (ErrUnknownNode i))
      | Some p \<Rightarrow>
          if \<not> prUp p then Some (c, Some (ErrNodeDown i))
          else (case cancelProcessEvents i (updateProc i crashed c) of
             None \<Rightarrow> None
           | Some c1 \<Rightarrow>
               observed env (traceCluster i ''process_lifecycle'' ''crashed'' (DetailIncarnation (prIncarnation p + 1)) c1)))"

definition nodeConfigFor :: "NodeID \<Rightarrow> process \<Rightarrow> 's SimCluster \<Rightarrow> Config" where
  "nodeConfigFor i p c = \<lparr>cID = i, cMembers = cuMembers c, cVoters = hcVoters (cuConfig c), cLearners = hcLearners (cuConfig c),
     AppliedIndex = dsAppliedIndex (prStore p)\<rparr>"

definition start :: "'s env \<Rightarrow> NodeID \<Rightarrow> 's SimCluster \<Rightarrow> 's outcome" where
  "start env i c =
     (case cuProcesses c i of
        None \<Rightarrow> None
      | Some p \<Rightarrow>
          (case (if hcApplication (cuConfig c) \<noteq> None
                 then map_sum id (\<lambda>m. updateProc i (\<lambda>p. p\<lparr>prApplication := Some m\<rparr>) c) (recoverApplication env (prStore p))
                 else Inr c) of
             Inl err \<Rightarrow> Some (c, Some err)
           | Inr c1 \<Rightarrow>
               (case New (nodeConfigFor i p c1) (dsState (prStore p)) of
                  None \<Rightarrow> None
                | Some (Inl err) \<Rightarrow> Some (c1, Some (ErrRaft err))
                | Some (Inr n) \<Rightarrow>
                    (case Start n of
                       None \<Rightarrow> None
                     | Some (n1, effs) \<Rightarrow> processEffects env i effs (updateProc i (\<lambda>p. p\<lparr>prNode := Some n1\<rparr>) c1)))))"

definition Restart :: "'s env \<Rightarrow> NodeID \<Rightarrow> 's SimCluster \<Rightarrow> 's outcome" where
  "Restart env i c =
     (case cuProcesses c i of
        None \<Rightarrow> Some (c, Some (ErrUnknownNode i))
      | Some p \<Rightarrow>
          if prUp p then Some (c, Some (ErrNodeUp i))
          else (case start env i (updateProc i (\<lambda>p. p\<lparr>prUp := True, prMailbox := []\<rparr>) c) of
             None \<Rightarrow> None
           | Some (c1, Some err) \<Rightarrow> Some (updateProc i (\<lambda>p. p\<lparr>prUp := False\<rparr>) c1, Some err)
           | Some (c1, None) \<Rightarrow>
               observed env (traceCluster i ''process_lifecycle'' ''restarted'' (DetailIncarnation (prIncarnation p)) c1)))"

end
