(* ===== verification/DriverOps.thy ===== *)
theory DriverOps
  imports DriverRun
begin

text \<open>
  The cluster harness, third part: the callbacks of scheduled events, \<open>Step\<close> and the loops over it,
  construction and bootstrap, the commands and faults a caller can inject, and the canonical state.
\<close>

section \<open>Callbacks\<close>

text \<open>The guard that the storage callbacks share: the process is the one that asked for the write.\<close>

definition sameWrite :: "u64 \<Rightarrow> u64 \<Rightarrow> process \<Rightarrow> bool" where
  "sameWrite incarnation generation p \<longleftrightarrow>
     \<not> (\<not> prUp p \<or> prIncarnation p \<noteq> incarnation \<or> prPersistGeneration p \<noteq> generation)"

definition failOn :: "'s outcome \<Rightarrow> 's SimCluster option" where
  "failOn r =
     (case r of None \<Rightarrow> None | Some (c, None) \<Rightarrow> Some c | Some (c, Some err) \<Rightarrow> Some (failWith err c))"

definition completeStorage ::
    "'s env \<Rightarrow> NodeID \<Rightarrow> u64 \<Rightarrow> u64 \<Rightarrow> PersistentState \<Rightarrow> u64 \<Rightarrow> 's SimCluster \<Rightarrow> 's SimCluster option" where
  "completeStorage env i incarnation generation st token c =
     (case cuProcesses c i of
        None \<Rightarrow> None
      | Some p \<Rightarrow>
          if \<not> sameWrite incarnation generation p then Some c
          else
            let c1 = traceCluster i ''persistence'' ''completed'' (DetailCompleted token st)
                  (updateProc i (\<lambda>p. p\<lparr>prPersistEvent := 0, prStore := (prStore p)\<lparr>dsState := st\<rparr>\<rparr>) c)
            in
            if prCrashAfterPersist p then failOn (Crash env i (updateProc i (\<lambda>p. p\<lparr>prCrashAfterPersist := False\<rparr>) c1))
            else (case scheduleCallback env 0 ''persistence_ack'' (WireWrite i incarnation generation token)
                    (PersistenceAck i incarnation generation token) c1 of
                 (c2, Inl err) \<Rightarrow> Some (failWith err c2)
               | (c2, Inr event) \<Rightarrow> Some (updateProc i (\<lambda>p. p\<lparr>prPersistAckEvent := event\<rparr>) c2)))"

definition acknowledgeStorage ::
    "'s env \<Rightarrow> NodeID \<Rightarrow> u64 \<Rightarrow> u64 \<Rightarrow> u64 \<Rightarrow> 's SimCluster \<Rightarrow> 's SimCluster option" where
  "acknowledgeStorage env i incarnation generation token c =
     (case cuProcesses c i of
        None \<Rightarrow> None
      | Some p \<Rightarrow>
          if \<not> sameWrite incarnation generation p then Some c
          else (case prNode p of
             None \<Rightarrow> None
           | Some n \<Rightarrow>
               (case stepNode env i n (InputPersisted token) (updateProc i (\<lambda>p. p\<lparr>prPersistAckEvent := 0\<rparr>) c) of
                  None \<Rightarrow> None
                | Some (c1, Some err) \<Rightarrow> Some (failWith err c1)
                | Some (c1, None) \<Rightarrow> drain env i c1)))"

definition fireElection :: "'s env \<Rightarrow> NodeID \<Rightarrow> u64 \<Rightarrow> u64 \<Rightarrow> 's SimCluster \<Rightarrow> 's SimCluster option" where
  "fireElection env i incarnation generation c =
     (case cuProcesses c i of
        None \<Rightarrow> None
      | Some p \<Rightarrow>
          if \<not> prUp p \<or> prIncarnation p \<noteq> incarnation \<or> prElectionGeneration p \<noteq> generation then Some c
          else (case prNode p of
             None \<Rightarrow> None
           | Some n \<Rightarrow>
               if role n = Leader then Some c
               else failOn (submit env i \<lparr>qiInput = InputElectionTimeout, qiIncarnation = incarnation, qiTimer = ElectionTimer,
                   qiGeneration = generation\<rparr> (updateProc i (\<lambda>p. p\<lparr>prElectionEvent := 0\<rparr>) c))))"

definition fireHeartbeat :: "'s env \<Rightarrow> NodeID \<Rightarrow> u64 \<Rightarrow> u64 \<Rightarrow> 's SimCluster \<Rightarrow> 's SimCluster option" where
  "fireHeartbeat env i incarnation generation c =
     (case cuProcesses c i of
        None \<Rightarrow> None
      | Some p \<Rightarrow>
          if \<not> prUp p \<or> prIncarnation p \<noteq> incarnation \<or> prHeartbeatGeneration p \<noteq> generation then Some c
          else (case prNode p of
             None \<Rightarrow> None
           | Some n \<Rightarrow>
               if role n \<noteq> Leader then Some c
               else failOn (submit env i \<lparr>qiInput = InputHeartbeatTimeout, qiIncarnation = incarnation, qiTimer = HeartbeatTimer,
                   qiGeneration = generation\<rparr> (updateProc i (\<lambda>p. p\<lparr>prHeartbeatEvent := 0\<rparr>) c))))"

definition runCallback :: "'s env \<Rightarrow> callback \<Rightarrow> 's SimCluster \<Rightarrow> 's SimCluster option" where
  "runCallback env cb c =
     (case cb of
        StorageCompletion i incarnation generation st token \<Rightarrow> completeStorage env i incarnation generation st token c
      | PersistenceAck i incarnation generation token \<Rightarrow> acknowledgeStorage env i incarnation generation token c
      | ElectionFires i incarnation generation \<Rightarrow> fireElection env i incarnation generation c
      | HeartbeatFires i incarnation generation \<Rightarrow> fireHeartbeat env i incarnation generation c
      | ScheduledCrash i \<Rightarrow> failOn (Crash env i c)
      | ScheduledRestart i \<Rightarrow> failOn (Restart env i c))"

text \<open>
  A delivery: the router's part, then the handler when the packet was delivered to one.
\<close>

definition handlerOf :: "Envelope Packet \<Rightarrow> (Envelope, callback, NodeID, 's) Router \<Rightarrow> NodeID option" where
  "handlerOf p r = (if Allows (rtPartition r) (pkFrom p) (pkTo p) then map_of (rtHandlers r) (pkTo p) else None)"

definition runDelivery :: "'s env \<Rightarrow> Envelope Packet \<Rightarrow> int \<Rightarrow> 's SimCluster \<Rightarrow> 's SimCluster option" where
  "runDelivery env p deliveryAt c =
     (let c1 = c\<lparr>cuRouter := deliver (\<lambda>_ _ r. r) p deliveryAt (cuRouter c)\<rparr> in
      case handlerOf p (cuRouter c) of None \<Rightarrow> Some c1 | Some i \<Rightarrow> receive env i p c1)"

definition runEvent :: "'s env \<Rightarrow> (Envelope, callback) action \<Rightarrow> 's SimCluster \<Rightarrow> 's SimCluster option" where
  "runEvent env act c =
     (case act of Deliver p t \<Rightarrow> runDelivery env p t c | Foreign cb \<Rightarrow> runCallback env cb c)"

section \<open>Steps\<close>

text \<open>The scheduler's step pops the event and advances the clock; its callback then runs on the cluster.\<close>

definition nextAction :: "'s SimCluster \<Rightarrow> (Envelope, callback) action option" where
  "nextAction c = evAction (store (queue (simOf c)) (slots (queue (simOf c)) ! 0))"

definition simulatorStep :: "'s env \<Rightarrow> 's SimCluster \<Rightarrow> ('s SimCluster \<times> bool) option" where
  "simulatorStep env c =
     (case simStep (\<lambda>_ s. s) (simOf c) of
        None \<Rightarrow> None
      | Some (s, False) \<Rightarrow> Some (c, False)
      | Some (s, True) \<Rightarrow>
          (case nextAction c of
             None \<Rightarrow> None
           | Some act \<Rightarrow> map_option (\<lambda>c1. (c1, True)) (runEvent env act (withSim s c))))"

definition clusterStep :: "'s env \<Rightarrow> 's SimCluster \<Rightarrow> ('s SimCluster \<times> bool \<times> cluster_error option) option" where
  "clusterStep env c =
     (if cuErr c \<noteq> None then Some (c, False, cuErr c)
      else (case simulatorStep env c of
         None \<Rightarrow> None
       | Some (c1, False) \<Rightarrow> Some (c1, False, cuErr c1)
       | Some (c1, True) \<Rightarrow> map_option (\<lambda>c2. (c2, True, cuErr c2)) (observe env c1)))"

fun runStepsLoop :: "'s env \<Rightarrow> nat \<Rightarrow> int \<Rightarrow> 's SimCluster \<Rightarrow> ('s SimCluster \<times> int \<times> cluster_error option) option" where
  "runStepsLoop env 0 n c = Some (c, n, None)"
| "runStepsLoop env (Suc fuel) n c =
     (case clusterStep env c of
        None \<Rightarrow> None
      | Some (c1, moved_on, err) \<Rightarrow> if err \<noteq> None \<or> \<not> moved_on then Some (c1, n, err) else runStepsLoop env fuel (n + 1) c1)"

definition clusterRunSteps :: "'s env \<Rightarrow> int \<Rightarrow> 's SimCluster \<Rightarrow> ('s SimCluster \<times> int \<times> cluster_error option) option" where
  "clusterRunSteps env limit c = runStepsLoop env (nat limit) 0 c"

text \<open>
  \<open>RunUntil\<close>. The loop need not end, so \<open>None\<close> is a panic or a run that does not return. When it ends nothing is
  due, so the scheduler's own \<open>RunUntil\<close> only moves the clock and its callback argument is not called.
\<close>

partial_function (option) untilLoop ::
    "'s env \<Rightarrow> int \<Rightarrow> int \<Rightarrow> 's SimCluster \<Rightarrow> ('s SimCluster \<times> int \<times> cluster_error option \<times> bool) option" where
  "untilLoop env stop n c =
     (case NextEventTime (simOf c) of (next_at, pending_event) \<Rightarrow>
        if \<not> pending_event \<or> next_at > stop then Some (c, n, None, True)
        else Option.bind (clusterStep env c) (\<lambda>(c1, moved_on, err).
          if err \<noteq> None \<or> \<not> moved_on then Some (c1, n, err, False) else untilLoop env stop (n + 1) c1))"

definition settleClock :: "int \<Rightarrow> 's SimCluster \<Rightarrow> 's outcome" where
  "settleClock stop c =
     (case Simulator.RunUntil (\<lambda>_ s. s) stop (simOf c) of
        None \<Rightarrow> None
      | Some (s, Inl err) \<Rightarrow> Some (withSim s c, Some (ErrScheduler err))
      | Some (s, Inr _) \<Rightarrow> Some (withSim s c, None))"

definition clusterRunUntil :: "'s env \<Rightarrow> int \<Rightarrow> 's SimCluster \<Rightarrow> ('s SimCluster \<times> int \<times> cluster_error option) option" where
  "clusterRunUntil env stop c =
     (if cuErr c \<noteq> None then Some (c, 0, cuErr c)
      else if stop < now (simOf c) then map_option (\<lambda>(c1, err). (c1, 0, err)) (settleClock stop c)
      else (case untilLoop env stop 0 c of
         None \<Rightarrow> None
       | Some (c1, n, err, drained) \<Rightarrow>
           if drained then map_option (\<lambda>(c2, err). (c2, n, err)) (settleClock stop c1) else Some (c1, n, err)))"

section \<open>Construction\<close>

fun makeProcesses ::
    "'s env \<Rightarrow> bool \<Rightarrow> NodeID list \<Rightarrow> Rand \<Rightarrow> (NodeID \<Rightarrow> process option) \<Rightarrow> NodeID \<Rightarrow> process option" where
  "makeProcesses env application [] rootRandom ps = ps"
| "makeProcesses env application (i # is) rootRandom ps =
     (let (rootRandom1, random) = Split rootRandom in
      makeProcesses env application is rootRandom1
        (ps(i \<mapsto> newProcess random (if application then Some (newMachine (enSha env)) else None))))"

fun registerMembers :: "NodeID list \<Rightarrow> 's SimCluster \<Rightarrow> cluster_error + 's SimCluster" where
  "registerMembers [] c = Inr c"
| "registerMembers (i # is) c =
     (case Register i (Some i) (cuRouter c) of
        (r, Some err) \<Rightarrow> Inl (ErrNetwork err)
      | (r, None) \<Rightarrow> registerMembers is (c\<lparr>cuRouter := r\<rparr>))"

definition initialRoles :: "'s HarnessConfig \<Rightarrow> NodeID list \<Rightarrow> Membership" where
  "initialRoles config ms =
     (if length (hcVoters config) = 0 \<and> length (hcLearners config) = 0 then stableMembership ms []
      else stableMembership (hcVoters config) (hcLearners config))"

definition configuredRouter ::
    "'s env \<Rightarrow> 's HarnessConfig \<Rightarrow> (Envelope, callback, NodeID, 's) Router \<Rightarrow> (Envelope, callback, NodeID, 's) Router" where
  "configuredRouter env config r =
     (let r1 = (if hcTrace config then routerSetTraceSink (Some []) r else r);
          r2 = (if hcDecider config \<noteq> None then SetDecisionSource (hcDecider config) r1 else r1)
      in SetPacketEventTagger (Some (JSONPacketEventTagger (\<lambda>p. Inr (enMarshal env (WirePacket p))))) r2)"

definition NewPaused :: "'s env \<Rightarrow> 's HarnessConfig \<Rightarrow> cluster_error + 's SimCluster" where
  "NewPaused env config0 =
     (case validateHarness config0 of
        Some err \<Rightarrow> Inl err
      | None \<Rightarrow>
          let ms = sort (hcMembers config0);
              config = config0\<lparr>hcMembers := ms\<rparr>;
              simulator = (if hcTrace config then newSimulator\<lparr>trace := Some []\<rparr> else newSimulator);
              rootRandom0 = NewRand (hcSeed config);
              rootRandom1 = (if hcTrace config \<and> hcDecider config = None then SetTraceSink True ''cluster'' rootRandom0 else rootRandom0);
              (rootRandom2, networkRandom) = Split rootRandom1
          in (case NewRouter (Some simulator) (Some networkRandom) (hcNetwork config) (Some cloneEnvelope) of
                Inl err \<Rightarrow> Inl (ErrNetwork err)
              | Inr r \<Rightarrow>
                  registerMembers ms
                    \<lparr>cuConfig = config, cuMembers = ms, cuRouter = configuredRouter env config r,
                     cuProcesses = makeProcesses env (hcApplication config \<noteq> None) ms rootRandom2 (\<lambda>_. None),
                     cuChecker = NewWithMembership ms (initialRoles config ms), cuBootstrapped = False,
                     cuViolations = [], cuErr = None, cuTrace = (if hcTrace config then Some [] else None)\<rparr>))"

fun startAll :: "'s env \<Rightarrow> NodeID list \<Rightarrow> 's SimCluster \<Rightarrow> 's outcome" where
  "startAll env [] c = Some (c, None)"
| "startAll env (i # is) c = andThen (start env i c) (startAll env is)"

definition Bootstrap :: "'s env \<Rightarrow> 's SimCluster \<Rightarrow> 's outcome" where
  "Bootstrap env c =
     (if cuBootstrapped c then Some (c, Some ErrBootstrapped)
      else andThen (startAll env (cuMembers c) c) (\<lambda>c1. observed env (c1\<lparr>cuBootstrapped := True\<rparr>)))"

text \<open>\<open>New\<close>: on an error the caller gets no cluster.\<close>

definition NewCluster :: "'s env \<Rightarrow> 's HarnessConfig \<Rightarrow> (cluster_error + 's SimCluster) option" where
  "NewCluster env config =
     (case NewPaused env config of
        Inl err \<Rightarrow> Some (Inl err)
      | Inr c \<Rightarrow>
          (case Bootstrap env c of
             None \<Rightarrow> None
           | Some (c1, Some err) \<Rightarrow> Some (Inl err)
           | Some (c1, None) \<Rightarrow> Some (Inr c1)))"

end
