(* ===== verification/DriverApi.thy ===== *)
theory DriverApi
  imports DriverOps
begin

text \<open>
  The cluster harness, fourth part: what a caller can ask and inject, from proposals and membership changes to
  partitions and scheduled crashes, and the canonical state of the whole cluster.
\<close>

section \<open>Queries\<close>

definition clusterStatus :: "NodeID \<Rightarrow> 's SimCluster \<Rightarrow> (cluster_error + Status) option" where
  "clusterStatus i c =
     (case cuProcesses c i of
        None \<Rightarrow> Some (Inl (ErrUnknownNode i))
      | Some p \<Rightarrow> if \<not> prUp p then Some (Inl (ErrNodeDown i)) else map_option (Inr \<circ> nodeStatus) (prNode p))"

fun statusesOf :: "NodeID list \<Rightarrow> 's SimCluster \<Rightarrow> Status list option" where
  "statusesOf [] c = Some []"
| "statusesOf (i # is) c =
     (case cuProcesses c i of
        None \<Rightarrow> None
      | Some p \<Rightarrow>
          if \<not> prUp p then statusesOf is c
          else (case prNode p of None \<Rightarrow> None | Some n \<Rightarrow> map_option (\<lambda>sts. nodeStatus n # sts) (statusesOf is c)))"

definition Statuses :: "'s SimCluster \<Rightarrow> Status list option" where
  "Statuses c = statusesOf (cuMembers c) c"

definition clusterStore :: "NodeID \<Rightarrow> 's SimCluster \<Rightarrow> cluster_error + StableStore" where
  "clusterStore i c = (case cuProcesses c i of None \<Rightarrow> Inl (ErrUnknownNode i) | Some p \<Rightarrow> Inr (prStore p))"

definition ApplicationCommitment :: "'s env \<Rightarrow> NodeID \<Rightarrow> 's SimCluster \<Rightarrow> cluster_error + Commitment" where
  "ApplicationCommitment env i c =
     (case cuProcesses c i of
        None \<Rightarrow> Inl (ErrUnknownNode i)
      | Some p \<Rightarrow>
          if hcApplication (cuConfig c) = None then Inl ErrApplicationDisabled
          else map_sum id (commitmentOf (enSha env))
            (case prApplication p of Some m \<Rightarrow> Inr m | None \<Rightarrow> recoverApplication env (prStore p)))"

text \<open>The unique live leader: the empty name and \<open>False\<close> when there is none or more than one.\<close>

fun findLeader :: "NodeID list \<Rightarrow> NodeID \<Rightarrow> 's SimCluster \<Rightarrow> (NodeID \<times> bool) option" where
  "findLeader [] found c = Some (found, found \<noteq> [])"
| "findLeader (i # is) found c =
     (case cuProcesses c i of
        None \<Rightarrow> None
      | Some p \<Rightarrow>
          if \<not> prUp p then findLeader is found c
          else (case prNode p of
             None \<Rightarrow> None
           | Some n \<Rightarrow>
               if role n \<noteq> Leader then findLeader is found c
               else if found \<noteq> [] then Some ([], False)
               else findLeader is i c))"

definition clusterLeader :: "'s SimCluster \<Rightarrow> (NodeID \<times> bool) option" where
  "clusterLeader c = findLeader (cuMembers c) [] c"

section \<open>Commands\<close>

text \<open>The checks that the targeted commands share, and the submission of a plain input.\<close>

definition submitPlain :: "'s env \<Rightarrow> NodeID \<Rightarrow> process \<Rightarrow> Input \<Rightarrow> 's SimCluster \<Rightarrow> 's outcome" where
  "submitPlain env i p inp c = andThen (submit env i (plainInput inp (prIncarnation p)) c) (observed env)"

definition atLeader :: "NodeID \<Rightarrow> 's SimCluster \<Rightarrow> (process \<Rightarrow> 's outcome) \<Rightarrow> 's outcome" where
  "atLeader i c f =
     (case cuProcesses c i of
        None \<Rightarrow> Some (c, Some (ErrUnknownNode i))
      | Some p \<Rightarrow>
          if \<not> prUp p then Some (c, Some (ErrNodeDown i))
          else (case prNode p of
             None \<Rightarrow> None
           | Some n \<Rightarrow> if role n \<noteq> Leader then Some (c, Some (ErrRaft ErrNotLeader)) else f p))"

definition throughLeader :: "'s SimCluster \<Rightarrow> (NodeID \<Rightarrow> 's outcome) \<Rightarrow> 's outcome" where
  "throughLeader c f =
     (case clusterLeader c of
        None \<Rightarrow> None
      | Some (i, unique) \<Rightarrow> if \<not> unique then Some (c, Some ErrNoLeader) else f i)"

definition ProposeTo :: "'s env \<Rightarrow> NodeID \<Rightarrow> bytes \<Rightarrow> 's SimCluster \<Rightarrow> 's outcome" where
  "ProposeTo env i data c =
     atLeader i c (\<lambda>p.
       case (if hcApplication (cuConfig c) \<noteq> None then map_sum id (\<lambda>_. ()) (DecodeCommand data) else Inr ()) of
         Inl err \<Rightarrow> Some (c, Some (ErrPortable err))
       | Inr _ \<Rightarrow> submitPlain env i p (InputProposal data) c)"

definition Propose :: "'s env \<Rightarrow> bytes \<Rightarrow> 's SimCluster \<Rightarrow> 's outcome" where
  "Propose env data c = throughLeader c (\<lambda>i. ProposeTo env i data c)"

definition BeginMembershipChangeTo :: "'s env \<Rightarrow> NodeID \<Rightarrow> NodeID list \<Rightarrow> NodeID list \<Rightarrow> 's SimCluster \<Rightarrow> 's outcome" where
  "BeginMembershipChangeTo env i voters learners c =
     atLeader i c (\<lambda>p. submitPlain env i p (InputBeginMembership voters learners) c)"

definition BeginMembershipChange :: "'s env \<Rightarrow> NodeID list \<Rightarrow> NodeID list \<Rightarrow> 's SimCluster \<Rightarrow> 's outcome" where
  "BeginMembershipChange env voters learners c = throughLeader c (\<lambda>i. BeginMembershipChangeTo env i voters learners c)"

definition FinalizeMembershipChangeTo :: "'s env \<Rightarrow> NodeID \<Rightarrow> 's SimCluster \<Rightarrow> 's outcome" where
  "FinalizeMembershipChangeTo env i c = atLeader i c (\<lambda>p. submitPlain env i p InputFinalizeMembership c)"

definition FinalizeMembershipChange :: "'s env \<Rightarrow> 's SimCluster \<Rightarrow> 's outcome" where
  "FinalizeMembershipChange env c = throughLeader c (\<lambda>i. FinalizeMembershipChangeTo env i c)"

definition snapshotProcess :: "'s env \<Rightarrow> NodeID \<Rightarrow> bytes \<Rightarrow> 's SimCluster \<Rightarrow> 's outcome" where
  "snapshotProcess env i data c =
     (case cuProcesses c i of
        None \<Rightarrow> Some (c, Some (ErrUnknownNode i))
      | Some p \<Rightarrow>
          if \<not> prUp p then Some (c, Some (ErrNodeDown i))
          else submitPlain env i p (InputSnapshot (dsAppliedIndex (prStore p)) data) c)"

definition takeClusterSnapshot :: "'s env \<Rightarrow> NodeID \<Rightarrow> bytes \<Rightarrow> 's SimCluster \<Rightarrow> 's outcome" where
  "takeClusterSnapshot env i data c =
     (if hcApplication (cuConfig c) \<noteq> None then Some (c, Some ErrApplicationSnapshot) else snapshotProcess env i data c)"

definition SnapshotApplication :: "'s env \<Rightarrow> NodeID \<Rightarrow> 's SimCluster \<Rightarrow> 's outcome" where
  "SnapshotApplication env i c =
     (case cuProcesses c i of
        None \<Rightarrow> Some (c, Some (ErrUnknownNode i))
      | Some p \<Rightarrow>
          if hcApplication (cuConfig c) = None then Some (c, Some ErrApplicationDisabled)
          else if \<not> prUp p then Some (c, Some (ErrNodeDown i))
          else (case prApplication p of
             None \<Rightarrow> Some (c, Some ErrApplicationUnavailable)
           | Some m \<Rightarrow>
               (case EncodeCheckpoint (enSha env) (enMarshalCheckpoint env) (checkpointOf (enSha env) m) of
                  Inl err \<Rightarrow> Some (c, Some (ErrPortable err))
                | Inr data \<Rightarrow> snapshotProcess env i data c)))"

section \<open>Faults\<close>

definition CrashAfterNextPersist :: "NodeID \<Rightarrow> 's SimCluster \<Rightarrow> 's SimCluster \<times> cluster_error option" where
  "CrashAfterNextPersist i c =
     (case cuProcesses c i of
        None \<Rightarrow> (c, Some (ErrUnknownNode i))
      | Some p \<Rightarrow> if \<not> prUp p then (c, Some (ErrNodeDown i)) else (updateProc i (\<lambda>p. p\<lparr>prCrashAfterPersist := True\<rparr>) c, None))"

definition ScheduleCrash :: "'s env \<Rightarrow> int \<Rightarrow> NodeID \<Rightarrow> 's SimCluster \<Rightarrow> 's SimCluster \<times> (cluster_error + EventID)" where
  "ScheduleCrash env delay i c = scheduleCallback env delay ''scheduled_crash'' (WireNode i) (ScheduledCrash i) c"

definition ScheduleRestart :: "'s env \<Rightarrow> int \<Rightarrow> NodeID \<Rightarrow> 's SimCluster \<Rightarrow> 's SimCluster \<times> (cluster_error + EventID)" where
  "ScheduleRestart env delay i c = scheduleCallback env delay ''scheduled_restart'' (WireNode i) (ScheduledRestart i) c"

definition Partition :: "NodeID list list \<Rightarrow> 's SimCluster \<Rightarrow> 's SimCluster \<times> cluster_error option" where
  "Partition groups c =
     (case NewPartitions groups of
        Inl err \<Rightarrow> (c, Some (ErrNetwork err))
      | Inr matrix \<Rightarrow> (c\<lparr>cuRouter := SetPartition (Some matrix) (cuRouter c)\<rparr>, None))"

definition Heal :: "'s SimCluster \<Rightarrow> 's SimCluster" where
  "Heal c = c\<lparr>cuRouter := SetPartition None (cuRouter c)\<rparr>"

section \<open>The canonical state\<close>

definition CanonicalStateSchema :: string where "CanonicalStateSchema = ''d-raft.raftsim-state/v1''"

definition processStateOf :: "NodeID \<Rightarrow> process \<Rightarrow> processState" where
  "processStateOf i p =
     \<lparr>psID = i, psUp = prUp p, psIncarnation = prIncarnation p, psStore = prStore p, psRandom = RandStateOf (Some (prRandom p)),
      psMailbox = prMailbox p, psElectionEvent = prElectionEvent p, psElectionGeneration = prElectionGeneration p,
      psHeartbeatEvent = prHeartbeatEvent p, psHeartbeatGeneration = prHeartbeatGeneration p,
      psPersistEvent = prPersistEvent p, psPersistAckEvent = prPersistAckEvent p, psPersistGeneration = prPersistGeneration p,
      psCrashAfterPersist = prCrashAfterPersist p, psSendSequence = prSendSequence p, psNode = map_option nodeState (prNode p)\<rparr>"

fun processStates :: "NodeID list \<Rightarrow> 's SimCluster \<Rightarrow> processState list option" where
  "processStates [] c = Some []"
| "processStates (i # is) c =
     (case cuProcesses c i of
        None \<Rightarrow> None
      | Some p \<Rightarrow> map_option (\<lambda>ps. processStateOf i p # ps) (processStates is c))"

text \<open>A nil cluster is \<open>None\<close>; the text of a stored error stands for the error.\<close>

definition clusterCanonicalState :: "'s env \<Rightarrow> 's SimCluster option \<Rightarrow> (cluster_error + bytes) option" where
  "clusterCanonicalState env cluster =
     (case cluster of
        None \<Rightarrow> Some (Inl ErrClusterUncacheable)
      | Some c \<Rightarrow>
          if hcTrace (cuConfig c) \<or> hcApplication (cuConfig c) \<noteq> None then Some (Inl ErrClusterUncacheable)
          else (case CanonicalState (simOf c) of
             Inl err \<Rightarrow> Some (Inl ErrClusterUncacheable)
           | Inr simState \<Rightarrow>
               (case routerCanonicalState (cuRouter c) of
                  Inl err \<Rightarrow> Some (Inl ErrClusterUncacheable)
                | Inr routerState \<Rightarrow>
                    map_option (\<lambda>ps. Inr (enMarshal env (WireCluster
                      \<lparr>csuSchema = CanonicalStateSchema, csuBootstrapped = cuBootstrapped c, csuMembers = cuMembers c,
                       csuSimulator = simState, csuRouter = routerState, csuProcesses = ps, csuChecker = checkerState (cuChecker c),
                       csuViolations = cuViolations c, csuError = cuErr c\<rparr>)))
                      (processStates (cuMembers c) c))))"

end
