(* ===== verification/DriverQueue.thy ===== *)
theory DriverQueue
  imports DriverApi NetworkRun
begin

text \<open>
  The event queue of the harness as a finite map from event identifiers to what they run, and what scheduling,
  cancelling, sending and stepping do to it.
\<close>

section \<open>Pending actions\<close>

definition pendingAction :: "'a Simulator \<Rightarrow> EventID \<Rightarrow> 'a option" where
  "pendingAction s a = (if a \<in> set (slots (queue s)) then evAction (store (queue s) a) else None)"

lemma pending_slot: "simInv s \<Longrightarrow> a \<in> set (slots (queue s)) \<longleftrightarrow> pendingAction s a \<noteq> None"
  by (auto simp: pendingAction_def simInv_def)

lemma pending_positive: "simInv s \<Longrightarrow> pendingAction s a = Some act \<Longrightarrow> a \<noteq> 0"
  by (auto simp: pendingAction_def simInv_def split: if_splits)

lemma pending_ext:
  assumes "\<And>b. b \<in> set (slots (queue s')) \<longleftrightarrow> b \<in> set (slots (queue s)) \<and> b \<noteq> a"
    and "\<And>b. b \<in> set (slots (queue s')) \<Longrightarrow> evAction (store (queue s') b) = evAction (store (queue s) b)"
  shows "pendingAction s' = (pendingAction s)(a := None)"
  using assms by (auto simp: pendingAction_def fun_eq_iff)

lemma pending_added:
  assumes "addedEvent s t act s'"
  shows "\<exists>i. i \<noteq> 0 \<and> pendingAction s i = None \<and> pendingAction s' = (pendingAction s)(i \<mapsto> act)"
proof -
  obtain i where i: "simInv s'" "i \<notin> set (slots (queue s))" "set (slots (queue s')) = insert i (set (slots (queue s)))"
      "evAction (store (queue s') i) = Some act"
      "\<forall>a\<in>set (slots (queue s)). evAction (store (queue s') a) = evAction (store (queue s) a)"
    using assms unfolding addedEvent_def by blast
  then have "pendingAction s i = None" "pendingAction s' = (pendingAction s)(i \<mapsto> act)"
    by (auto simp: pendingAction_def fun_eq_iff)
  then show ?thesis
    using i(1) pending_positive [of s' i act] by auto
qed

lemma pending_scheduled:
  assumes inv: "simInv s" and sched: "ScheduleTagged delay tag (Some act) s = (s', res)"
  shows "(\<exists>err. res = Inl err \<and> s' = s) \<or>
    (\<exists>i. res = Inr i \<and> i \<noteq> 0 \<and> pendingAction s i = None \<and> pendingAction s' = (pendingAction s)(i \<mapsto> act)
       \<and> addedEvent s (now s + delay) act s')"
proof (cases "\<exists>err. res = Inl err")
  case True
  then show ?thesis
    using Schedule_added(2) [OF inv sched] by auto
next
  case False
  then have at: "scheduleAt (now s + delay) tag (Some act) s = (s', res)"
    using sched by (auto simp: ScheduleTagged_def ScheduleAtTagged_def split: if_splits option.splits)
  then have ok: "0 \<le> now s + delay" "now s \<le> now s + delay" "\<not> exhausted s"
    using False by (auto simp: scheduleAt_def split: if_splits)
  show ?thesis
  proof (rule scheduleAt_accepted [OF inv ok, of tag act])
    fix s1
    assume eq: "scheduleAt (now s + delay) tag (Some act) s = (s1, Inr (nextFree s))"
    assume rest: "simInv s1" "now s1 = now s" "set (slots (queue s1)) = insert (nextFree s) (set (slots (queue s)))"
      "nextFree s \<notin> set (slots (queue s))" "evWhen (store (queue s1) (nextFree s)) = now s + delay"
      "evAction (store (queue s1) (nextFree s)) = Some act"
      "\<forall>a\<in>set (slots (queue s)). evWhen (store (queue s1) a) = evWhen (store (queue s) a)
         \<and> evTag (store (queue s1) a) = evTag (store (queue s) a) \<and> evAction (store (queue s1) a) = evAction (store (queue s) a)"
    have p: "pendingAction s (nextFree s) = None" "pendingAction s1 = (pendingAction s)(nextFree s \<mapsto> act)"
      using rest by (auto simp: pendingAction_def fun_eq_iff)
    have "addedEvent s (now s + delay) act s1"
      unfolding addedEvent_def using rest by (intro conjI exI [of _ "nextFree s"]) auto
    then show ?thesis
      using eq at p pending_positive [OF rest(1), of "nextFree s" act] by auto
  qed
qed

section \<open>The router's invariant\<close>

lemma withSim_simps [simp]:
  "cuRouter (withSim s c) = (cuRouter c)\<lparr>rtSim := s\<rparr>" "cuProcesses (withSim s c) = cuProcesses c"
  "cuMembers (withSim s c) = cuMembers c" "cuConfig (withSim s c) = cuConfig c" "cuErr (withSim s c) = cuErr c"
  "cuBootstrapped (withSim s c) = cuBootstrapped c"
  by (simp_all add: withSim_def)

lemma withSim_id [simp]: "withSim (simOf c) c = c"
  by (simp add: withSim_def)

lemma routerInv_sim: "routerInv r \<Longrightarrow> simInv (rtSim r)"
  by (simp add: routerInv_def)

lemma routerInv_added:
  assumes "routerInv r" and "addedEvent (rtSim r) t (Foreign x) s"
  shows "routerInv (r\<lparr>rtSim := s\<rparr>)"
  using assms timely_added [OF assms(2)] by (auto simp: routerInv_def addedEvent_def)

lemma scheduleCallback_cases:
  assumes inv: "routerInv (cuRouter c)" and sched: "scheduleCallback env delay kind w cb c = (c', res)"
  obtains err where "res = Inl err" and "c' = c"
  | i s where "res = Inr i" and "c' = withSim s c" and "routerInv (cuRouter c')" and "i \<noteq> 0"
      and "pendingAction (simOf c) i = None" and "pendingAction s = (pendingAction (simOf c))(i \<mapsto> Foreign cb)"
      and "now s = now (simOf c)"
proof -
  obtain s res1 where s: "ScheduleTagged delay (eventTag env kind w) (Some (Foreign cb)) (simOf c) = (s, res1)"
    by fastforce
  have c': "c' = withSim s c" "res = map_sum ErrScheduler id res1"
    using sched s by (simp_all add: scheduleCallback_def)
  from pending_scheduled [OF routerInv_sim [OF inv] s] show thesis
  proof (elim disjE exE conjE)
    fix err
    assume "res1 = Inl err" "s = simOf c"
    then show thesis
      using that(1) c' by simp
  next
    fix i
    assume a: "res1 = Inr i" "i \<noteq> 0" "pendingAction (simOf c) i = None"
      "pendingAction s = (pendingAction (simOf c))(i \<mapsto> Foreign cb)" "addedEvent (simOf c) (now (simOf c) + delay) (Foreign cb) s"
    then have "now s = now (simOf c)"
      by (simp add: addedEvent_def)
    then show thesis
      using that(2) [of i s] a c' routerInv_added [OF inv a(5)] by simp
  qed
qed

lemma cancelEvent_cases:
  assumes inv: "routerInv (cuRouter c)"
  obtains s where "cancelEvent a c = Some (withSim s c)" and "routerInv (cuRouter (withSim s c))"
    and "pendingAction s = (pendingAction (simOf c))(a := None)" and "now s = now (simOf c)"
proof (cases "a \<in> set (pendingIDs (simOf c))")
  case False
  then have "a \<notin> set (slots (queue (simOf c)))"
    using inv by (simp add: routerInv_def simInv_def)
  then have "(pendingAction (simOf c))(a := None) = pendingAction (simOf c)"
    by (auto simp: pendingAction_def fun_eq_iff)
  then show thesis
    using that [of "simOf c"] inv False by (simp add: cancelEvent_def Cancel_unknown)
next
  case True
  have sinv: "simInv (simOf c)"
    using inv by (rule routerInv_sim)
  obtain s where s: "Cancel a (simOf c) = Some (s, True)" "simInv s" "now s = now (simOf c)"
      "set (slots (queue s)) = set (slots (queue (simOf c))) - {a}"
      "\<forall>b\<in>set (slots (queue s)). evWhen (store (queue s) b) = evWhen (store (queue (simOf c)) b)
         \<and> evAction (store (queue s) b) = evAction (store (queue (simOf c)) b)"
    by (rule Cancel_pending [OF sinv True])
  have "timely s"
    using inv s(4,5) unfolding routerInv_def timely_def by auto
  then have "routerInv (cuRouter (withSim s c))"
    using inv s(2) by (simp add: routerInv_def)
  moreover have "pendingAction s = (pendingAction (simOf c))(a := None)"
    using s(4,5) by (intro pending_ext) auto
  ultimately show thesis
    using that [of s] s(1,3) by (simp add: cancelEvent_def)
qed

lemma simStep_cases:
  assumes inv: "routerInv (cuRouter c)" and step: "simStep (\<lambda>_ s. s) (simOf c) = Some (s, True)"
  obtains a act where "nextAction c = Some act" and "pendingAction (simOf c) a = Some act"
    and "routerInv (cuRouter (withSim s c))" and "pendingAction s = (pendingAction (simOf c))(a := None)"
    and "a = slots (queue (simOf c)) ! 0" and "now s = evWhen (store (queue (simOf c)) a)"
proof -
  have ne: "slots (queue (simOf c)) \<noteq> []"
    using step by (auto simp: simStep_empty)
  obtain a act s1 where a: "a = slots (queue (simOf c)) ! 0" "a \<in> set (slots (queue (simOf c)))"
      "evAction (store (queue (simOf c)) a) = Some act" "simStep (\<lambda>_ s. s) (simOf c) = Some (s1, True)" "simInv s1"
      "now s1 = evWhen (store (queue (simOf c)) a)" "set (slots (queue s1)) = set (slots (queue (simOf c))) - {a}"
      "\<forall>b. evWhen (store (queue s1) b) = evWhen (store (queue (simOf c)) b)"
      "\<forall>b. b \<noteq> a \<longrightarrow> evAction (store (queue s1) b) = evAction (store (queue (simOf c)) b)"
    by (rule simStep_next_all [of "simOf c" "\<lambda>_ s. s", OF routerInv_sim [OF inv] ne])
  have s: "s1 = s"
    using a(4) step by simp
  have "timely s"
    using inv a(7-9) unfolding routerInv_def timely_def s by auto
  then have inv': "routerInv (cuRouter (withSim s c))"
    using inv a(5) unfolding s by (simp add: routerInv_def)
  have "pendingAction s = (pendingAction (simOf c))(a := None)"
    using a(7,9) unfolding s by (intro pending_ext) auto
  then show thesis
    using that [of act a] a(1-3,6) inv' unfolding s by (simp add: nextAction_def pendingAction_def)
qed

section \<open>Sending and delivering\<close>

text \<open>What the harness keeps of its router.\<close>

definition harnessRouter :: "(Envelope, callback, NodeID, 's) Router \<Rightarrow> bool" where
  "harnessRouter r \<longleftrightarrow> routerInv r \<and> rtClone r = Some cloneEnvelope \<and> (\<forall>i j. map_of (rtHandlers r) i = Some j \<longrightarrow> i = j)"

lemma observeEvent_frame [simp]:
  "rtSim (observeEvent e r) = rtSim r" "rtClone (observeEvent e r) = rtClone r" "rtHandlers (observeEvent e r) = rtHandlers r"
  "rtDefaultLink (observeEvent e r) = rtDefaultLink r" "rtLinks (observeEvent e r) = rtLinks r"
  "rtDecisions (observeEvent e r) = rtDecisions r" "rtPartition (observeEvent e r) = rtPartition r"
  by (simp_all add: observeEvent_def routerTrace_def)

lemma redrawn_more:
  assumes "redrawn r r'"
  shows "rtClone r' = rtClone r" and "rtHandlers r' = rtHandlers r"
  using assms by (auto simp: redrawn_def)

lemma takeID_more [simp]: "rtClone (takeID r) = rtClone r" "rtHandlers (takeID r) = rtHandlers r"
  by (simp_all add: takeID_def)

lemma Send_pending:
  assumes inv: "harnessRouter r" and send: "Send src i dest e r = Some (r', res)"
  shows "harnessRouter r'" and "now (rtSim r') = now (rtSim r)"
    and "pendingAction (rtSim r') = pendingAction (rtSim r) \<or>
      (\<exists>a p t. a \<noteq> 0 \<and> pendingAction (rtSim r) a = None \<and> pendingAction (rtSim r') = (pendingAction (rtSim r))(a \<mapsto> Deliver p t)
         \<and> pkMessage p = e)"
proof -
  have rinv: "routerInv r" and clone: "rtClone r = Some cloneEnvelope"
    using inv by (auto simp: harnessRouter_def)
  have out: "sendRefused r r' res \<or> sendDropped i dest e r r' res \<or> sendScheduled i dest e r r' res"
    using Send_cases [OF rinv, of src i dest e] send by (metis option.inject prod.inject)
  note eff = send_effect [OF rinv out]
  have keep: "rtClone r' = rtClone r \<and> rtHandlers r' = rtHandlers r"
    using out unfolding sendRefused_def sendDropped_def sendScheduled_def dropPacket_def
    by (auto simp: redrawn_more)
  show "harnessRouter r'" "now (rtSim r') = now (rtSim r)"
    using eff(1,2) keep inv by (auto simp: harnessRouter_def)
  from out show "pendingAction (rtSim r') = pendingAction (rtSim r) \<or>
      (\<exists>a p t. a \<noteq> 0 \<and> pendingAction (rtSim r) a = None \<and> pendingAction (rtSim r') = (pendingAction (rtSim r))(a \<mapsto> Deliver p t)
         \<and> pkMessage p = e)"
  proof (elim disjE)
    assume "sendScheduled i dest e r r' res"
    then obtain r1 s1 l where s1: "addedEvent (rtSim r) (simNow r + l) (Deliver (packetFor i dest e r) (simNow r + l)) s1"
        "r' = observeEvent (scheduledEvent (packetFor i dest e r) (simNow r) (simNow r + l)) (r1\<lparr>rtSim := s1\<rparr>)"
      unfolding sendScheduled_def by blast
    moreover have "pkMessage (packetFor i dest e r) = e"
      using clone by (simp add: packetFor_def cloneEnvelope_def)
    ultimately show ?thesis
      using pending_added [OF s1(1)] by auto
  qed (use eff(4,5) in simp_all)
qed

lemma deliver_frame:
  "rtSim (deliver (\<lambda>_ _ r. r) p t r) = rtSim r" "harnessRouter (deliver (\<lambda>_ _ r. r) p t r) = harnessRouter r"
  by (auto simp: deliver_def dropPacket_def harnessRouter_def routerInv_def split: option.splits)

lemma SetPartition_frame:
  "rtSim (SetPartition m r) = rtSim r" "harnessRouter (SetPartition m r) = harnessRouter r"
  by (simp_all add: SetPartition_def routerTrace_def harnessRouter_def routerInv_def Let_def)

lemma decisions_frame: "harnessRouter (r\<lparr>rtDecisions := d\<rparr>) = harnessRouter r"
  by (simp add: harnessRouter_def routerInv_def)

end
