(* ===== verification/DriverFrame.thy ===== *)
theory DriverFrame
  imports DriverNode DriverQueue
begin

text \<open>
  What the operations of the harness leave alone. Most of them change neither a node, nor a durable state, nor
  the bookkeeping of a write; they take events off the queue, and put on it only timers, faults and packets that
  carry given messages. This is one relation, reflexive and transitive, so each operation is composed from its parts.
\<close>

section \<open>The frame\<close>

text \<open>An input that a mailbox may hold, when \<open>S\<close> is what was ever sent.\<close>

definition inputOk :: "Message set \<Rightarrow> Input \<Rightarrow> bool" where
  "inputOk S inp \<longleftrightarrow> (\<forall>t. inp \<noteq> InputPersisted t) \<and> (\<forall>m. inp = InputMessage m \<longrightarrow> m \<in> S)"

definition kept :: "Message set \<Rightarrow> process \<Rightarrow> process \<Rightarrow> bool" where
  "kept S p p' \<longleftrightarrow> prUp p' = prUp p \<and> prNode p' = prNode p \<and> dsState (prStore p') = dsState (prStore p)
     \<and> prIncarnation p' = prIncarnation p \<and> prPersistGeneration p' = prPersistGeneration p
     \<and> prPersistEvent p' = prPersistEvent p \<and> prPersistAckEvent p' = prPersistAckEvent p
     \<and> (\<forall>q\<in>set (prMailbox p'). q \<in> set (prMailbox p) \<or> inputOk S (qiInput q))"

fun storageCallback :: "callback \<Rightarrow> bool" where
  "storageCallback (StorageCompletion i inc gen st tok) = True"
| "storageCallback (PersistenceAck i inc gen tok) = True"
| "storageCallback (ElectionFires i inc gen) = False"
| "storageCallback (HeartbeatFires i inc gen) = False"
| "storageCallback (ScheduledCrash i) = False"
| "storageCallback (ScheduledRestart i) = False"

fun tame :: "Message set \<Rightarrow> (Envelope, callback) action \<Rightarrow> bool" where
  "tame S (Deliver p t) \<longleftrightarrow> nvMessage (pkMessage p) \<in> S"
| "tame S (Foreign cb) \<longleftrightarrow> \<not> storageCallback cb"

definition still :: "Message set \<Rightarrow> 's SimCluster \<Rightarrow> 's SimCluster \<Rightarrow> bool" where
  "still S c c' \<longleftrightarrow> (harnessRouter (cuRouter c) \<longrightarrow> harnessRouter (cuRouter c')
     \<and> (\<forall>i. rel_option (kept S) (cuProcesses c i) (cuProcesses c' i))
     \<and> (\<forall>a act. pendingAction (simOf c') a = Some act \<longrightarrow> pendingAction (simOf c) a = Some act \<or> tame S act))"

lemma stillI:
  assumes "harnessRouter (cuRouter c) \<Longrightarrow> harnessRouter (cuRouter c')"
    and "\<And>i. harnessRouter (cuRouter c) \<Longrightarrow> rel_option (kept S) (cuProcesses c i) (cuProcesses c' i)"
    and "\<And>a act. harnessRouter (cuRouter c) \<Longrightarrow> pendingAction (simOf c') a = Some act
      \<Longrightarrow> pendingAction (simOf c) a = Some act \<or> tame S act"
  shows "still S c c'"
  unfolding still_def using assms by blast

lemma kept_refl [simp]: "kept S p p"
  by (simp add: kept_def)

lemma kept_trans: "kept S p q \<Longrightarrow> kept S q r \<Longrightarrow> kept S p r"
  unfolding kept_def by (elim conjE, intro conjI; (metis | fastforce))

lemma kept_option_refl [simp]: "rel_option (kept S) x x"
  by (simp add: option.rel_refl)

lemma kept_option_trans: "rel_option (kept S) x y \<Longrightarrow> rel_option (kept S) y z \<Longrightarrow> rel_option (kept S) x z"
  by (cases x; cases y; cases z) (auto intro: kept_trans)

lemma still_refl [simp]: "still S c c"
  by (auto simp: still_def)

lemma still_trans: "still S a b \<Longrightarrow> still S b c \<Longrightarrow> still S a c"
  unfolding still_def using kept_option_trans by blast

lemma still_router: "still S c c' \<Longrightarrow> harnessRouter (cuRouter c) \<Longrightarrow> harnessRouter (cuRouter c')"
  by (simp add: still_def)

text \<open>A change of neither the router nor the processes.\<close>

lemma still_same: "cuRouter c' = cuRouter c \<Longrightarrow> cuProcesses c' = cuProcesses c \<Longrightarrow> still S c c'"
  by (simp add: still_def)

lemma still_router_change:
  assumes "cuProcesses c' = cuProcesses c" and "simOf c' = simOf c"
    and "harnessRouter (cuRouter c) \<Longrightarrow> harnessRouter (cuRouter c')"
  shows "still S c c'"
  using assms by (simp add: still_def)

lemma updateProc_simps [simp]:
  "cuRouter (updateProc i f c) = cuRouter c" "cuConfig (updateProc i f c) = cuConfig c" "cuErr (updateProc i f c) = cuErr c"
  "cuMembers (updateProc i f c) = cuMembers c" "cuBootstrapped (updateProc i f c) = cuBootstrapped c"
  "cuProcesses (updateProc i f c) = (cuProcesses c)(i := map_option f (cuProcesses c i))"
  by (simp_all add: updateProc_def)

lemma still_update: "(\<And>p. cuProcesses c i = Some p \<Longrightarrow> kept S p (f p)) \<Longrightarrow> still S c (updateProc i f c)"
  by (cases "cuProcesses c i") (auto simp: still_def)

lemma still_then_update: "still S c c1 \<Longrightarrow> (\<And>p. kept S p (f p)) \<Longrightarrow> still S c (updateProc i f c1)"
  by (rule still_trans [OF _ still_update])

text \<open>The changes of a process that the harness makes outside its writes.\<close>

lemma kept_fields [simp]:
  "kept S p (p\<lparr>prElectionEvent := a\<rparr>)" "kept S p (p\<lparr>prElectionGeneration := g\<rparr>)" "kept S p (p\<lparr>prHeartbeatEvent := a\<rparr>)"
  "kept S p (p\<lparr>prHeartbeatGeneration := g\<rparr>)" "kept S p (p\<lparr>prRandom := rng\<rparr>)" "kept S p (p\<lparr>prSendSequence := g\<rparr>)"
  "kept S p (p\<lparr>prApplication := app\<rparr>)" "kept S p (p\<lparr>prCrashAfterPersist := b\<rparr>)"
  "kept S p (p\<lparr>prElectionEvent := a, prElectionGeneration := g\<rparr>)" "kept S p (p\<lparr>prHeartbeatEvent := a, prHeartbeatGeneration := g\<rparr>)"
  "kept S p (p\<lparr>prStore := (prStore p)\<lparr>dsAppliedIndex := j, dsApplied := es\<rparr>, prApplication := app\<rparr>)"
  "kept S p (p\<lparr>prStore := (prStore p)\<lparr>dsAppliedIndex := j, dsApplied := es, dsInstalledSnapshot := s\<rparr>, prApplication := app\<rparr>)"
  by (simp_all add: kept_def)

lemma traceCluster_simps [simp]:
  "cuRouter (traceCluster i k a d c) = cuRouter c" "cuProcesses (traceCluster i k a d c) = cuProcesses c"
  "cuConfig (traceCluster i k a d c) = cuConfig c" "cuErr (traceCluster i k a d c) = cuErr c"
  "cuMembers (traceCluster i k a d c) = cuMembers c"
  by (simp_all add: traceCluster_def)

lemma failWith_simps [simp]:
  "cuRouter (failWith err c) = cuRouter c" "cuProcesses (failWith err c) = cuProcesses c" "cuConfig (failWith err c) = cuConfig c"
  "cuMembers (failWith err c) = cuMembers c"
  by (simp_all add: failWith_def split: option.split)

lemma still_trace [simp]: "still S c (traceCluster i k a d c)" "still S c (failWith err c)"
  by (rule still_same; simp)+

section \<open>Observation\<close>

lemma fold_traceCluster:
  "cuRouter (fold (\<lambda>v. traceCluster i k a (d v)) vs c) = cuRouter c"
  "cuProcesses (fold (\<lambda>v. traceCluster i k a (d v)) vs c) = cuProcesses c"
  by (induction vs arbitrary: c) simp_all

lemma observe_frame:
  assumes "observe env c = Some c'"
  shows "cuRouter c' = cuRouter c" and "cuProcesses c' = cuProcesses c"
proof -
  obtain nodes checker found where o: "observeProcesses c (cuMembers c) = Some nodes"
      "Observe (enHash env) \<lparr>obAt = now (simOf c), obNodes = nodes\<rparr> (cuChecker c) = (checker, found)"
    using assms by (auto simp: observe_def split: option.splits prod.splits)
  let ?c2 = "fold (\<lambda>v. traceCluster [] ''protocol_state'' ''invariant_violation'' (DetailViolation v)) found
      (c\<lparr>cuChecker := checker, cuViolations := cuViolations c @ found\<rparr>)"
  have c': "c' = (if hcStopOnViolation (cuConfig ?c2) \<and> length found > 0 then failWith (ErrViolation (hd found)) ?c2 else ?c2)"
    using assms o by (simp add: observe_def Let_def)
  show "cuRouter c' = cuRouter c" "cuProcesses c' = cuProcesses c"
    unfolding c' by (simp_all add: fold_traceCluster)
qed

lemma observed_still: "observed env c = Some (c', err) \<Longrightarrow> still S c c'"
  using observe_frame [of env c] by (auto simp: observed_def intro: still_same)

section \<open>Events\<close>

lemma scheduleCallback_still:
  assumes "scheduleCallback env delay kind w cb c = (c', res)" and "\<not> storageCallback cb"
  shows "still S c c'" and "cuProcesses c' = cuProcesses c"
proof -
  show "cuProcesses c' = cuProcesses c"
    using assms(1) by (auto simp: scheduleCallback_def split: prod.splits)
  show "still S c c'"
  proof (rule stillI)
    assume h: "harnessRouter (cuRouter c)"
    then have inv: "routerInv (cuRouter c)"
      by (simp add: harnessRouter_def)
    show "harnessRouter (cuRouter c')"
      using h by (rule_tac scheduleCallback_cases [OF inv assms(1)]) (auto simp: harnessRouter_def)
    show "pendingAction (simOf c) a = Some act \<or> tame S act" if "pendingAction (simOf c') a = Some act" for a act
      using that assms(2) by (rule_tac scheduleCallback_cases [OF inv assms(1)]) (auto split: if_splits)
    show "rel_option (kept S) (cuProcesses c i) (cuProcesses c' i)" for i
      using \<open>cuProcesses c' = cuProcesses c\<close> by simp
  qed
qed

lemma cancelEvent_still:
  assumes "cancelEvent a c = Some c'"
  shows "still S c c'" and "cuProcesses c' = cuProcesses c"
proof -
  show "cuProcesses c' = cuProcesses c"
    using assms by (auto simp: cancelEvent_def)
  show "still S c c'"
  proof (rule stillI)
    assume h: "harnessRouter (cuRouter c)"
    then have inv: "routerInv (cuRouter c)"
      by (simp add: harnessRouter_def)
    show "harnessRouter (cuRouter c')"
      using h assms by (rule_tac cancelEvent_cases [OF inv, of a]) (auto simp: harnessRouter_def)
    show "pendingAction (simOf c) b = Some act \<or> tame S act" if "pendingAction (simOf c') b = Some act" for b act
      using that assms by (rule_tac cancelEvent_cases [OF inv, of a]) (auto split: if_splits)
    show "rel_option (kept S) (cuProcesses c i) (cuProcesses c' i)" for i
      using \<open>cuProcesses c' = cuProcesses c\<close> by simp
  qed
qed

text \<open>The events cancelled by a crash, all of them.\<close>

lemma cancelEvents_cases:
  assumes "harnessRouter (cuRouter c)" and "cancelEvents as c = Some c'"
  shows "harnessRouter (cuRouter c') \<and> cuProcesses c' = cuProcesses c
    \<and> (\<forall>a act. pendingAction (simOf c') a = Some act \<longrightarrow> pendingAction (simOf c) a = Some act \<and> (a \<in> set as \<longrightarrow> a = 0))"
  using assms
proof (induction as arbitrary: c)
  case (Cons b as)
  have inv: "routerInv (cuRouter c)"
    using Cons.prems(1) by (simp add: harnessRouter_def)
  show ?case
  proof (cases "b = 0")
    case True
    then show ?thesis
      using Cons by auto
  next
    case False
    show ?thesis
    proof (rule cancelEvent_cases [OF inv, of b])
      fix s
      assume s: "cancelEvent b c = Some (withSim s c)" "routerInv (cuRouter (withSim s c))"
        "pendingAction s = (pendingAction (simOf c))(b := None)"
      then have "harnessRouter (cuRouter (withSim s c))"
        using Cons.prems(1) by (simp add: harnessRouter_def)
      moreover have "cancelEvents as (withSim s c) = Some c'"
        using Cons.prems(2) s(1) False by simp
      ultimately have ih: "harnessRouter (cuRouter c') \<and> cuProcesses c' = cuProcesses c
          \<and> (\<forall>a act. pendingAction (simOf c') a = Some act \<longrightarrow> pendingAction s a = Some act \<and> (a \<in> set as \<longrightarrow> a = 0))"
        using Cons.IH [of "withSim s c"] by simp
      have "pendingAction (simOf c) a = Some act \<and> (a \<in> set (b # as) \<longrightarrow> a = 0)"
        if "pendingAction (simOf c') a = Some act" for a act
      proof -
        have "pendingAction s a = Some act \<and> (a \<in> set as \<longrightarrow> a = 0)"
          using ih that by blast
        then show ?thesis
          using s(3) by (auto split: if_splits)
      qed
      then show ?thesis
        using ih by blast
    qed
  qed
qed simp

section \<open>Decisions, timers and effects\<close>

lemma chooseDuration_still:
  assumes "chooseDuration env i k lo hi w c = (c', r)"
  shows "still S c c'" and "cuProcesses c' = cuProcesses c"
proof -
  have "c' = c \<or> (\<exists>d. c' = c\<lparr>cuRouter := (cuRouter c)\<lparr>rtDecisions := d\<rparr>\<rparr>)"
    using assms by (auto simp: chooseDuration_def Let_def split: option.splits prod.splits sum.splits)
  then show "still S c c'" "cuProcesses c' = cuProcesses c"
    by (auto intro: still_router_change simp: decisions_frame)
qed

lemma electionDelay_still:
  assumes "electionDelay env i inc gen c = Some (c', r)"
  shows "still S c c'"
proof (cases "rtDecisions (cuRouter c)")
  case None
  then show ?thesis
    using assms by (auto simp: electionDelay_def intro!: still_update split: option.splits)
next
  case (Some d)
  then show ?thesis
    using assms by (auto simp: electionDelay_def dest: chooseDuration_still(1))
qed

lemma armElection_still:
  assumes "armElection env i p c = Some (c', err)"
  shows "still S c c'"
proof -
  let ?c1 = "updateProc i (\<lambda>q. q\<lparr>prElectionGeneration := prElectionGeneration p + 1\<rparr>) c"
  have s1: "still S c ?c1"
    by (rule still_update) simp
  obtain c2 r where d: "electionDelay env i (prIncarnation p) (prElectionGeneration p + 1) ?c1 = Some (c2, r)"
    using assms by (auto simp: armElection_def Let_def split: option.splits)
  note s2 = still_trans [OF s1 electionDelay_still [OF d]]
  show ?thesis
  proof (cases r)
    case (Inl e)
    then show ?thesis
      using assms d s2 by (simp add: armElection_def Let_def)
  next
    case (Inr delay)
    obtain c3 res where s: "scheduleCallback env delay ''election_timer'' (WireTimer i (prIncarnation p) (prElectionGeneration p + 1))
        (ElectionFires i (prIncarnation p) (prElectionGeneration p + 1)) c2 = (c3, res)"
      by fastforce
    note s3 = still_trans [OF s2 scheduleCallback_still(1) [OF s]]
    have "c' = c3 \<or> (\<exists>event. c' = updateProc i (\<lambda>q. q\<lparr>prElectionEvent := event\<rparr>) c3)"
      using assms d Inr s by (auto simp: armElection_def Let_def split: sum.splits)
    then show ?thesis
      using still_then_update [OF s3] s3 by auto
  qed
qed

lemma resetElectionTimer_still:
  assumes "resetElectionTimer env i c = Some (c', err)"
  shows "still S c c'"
proof -
  obtain p where p: "cuProcesses c i = Some p"
    using assms by (auto simp: resetElectionTimer_def split: option.splits)
  obtain c1 where c1: "(if prElectionEvent p \<noteq> 0
      then map_option (updateProc i (\<lambda>p. p\<lparr>prElectionEvent := 0\<rparr>)) (cancelEvent (prElectionEvent p) c) else Some c) = Some c1"
    using assms p by (auto simp: resetElectionTimer_def split: option.splits)
  have s1: "still S c c1"
    using c1 by (auto split: if_splits intro!: still_update intro: still_trans dest!: cancelEvent_still(1) [of _ _ _ S])
  have "c' = c1 \<or> armElection env i p c1 = Some (c', err)"
    using assms p c1 by (auto simp: resetElectionTimer_def split: option.splits if_splits)
  then show ?thesis
    using s1 by (auto intro: still_trans armElection_still)
qed

lemma resetHeartbeatTimer_still:
  assumes "resetHeartbeatTimer env i c = Some (c', err)"
  shows "still S c c'"
proof -
  obtain p where p: "cuProcesses c i = Some p"
    using assms by (auto simp: resetHeartbeatTimer_def split: option.splits)
  obtain c1 where c1: "(if prHeartbeatEvent p \<noteq> 0 then cancelEvent (prHeartbeatEvent p) c else Some c) = Some c1"
    using assms p by (auto simp: resetHeartbeatTimer_def split: option.splits)
  have s1: "still S c c1"
    using c1 by (auto split: if_splits dest: cancelEvent_still(1))
  let ?c2 = "updateProc i (\<lambda>q. q\<lparr>prHeartbeatGeneration := prHeartbeatGeneration p + 1\<rparr>) c1"
  have s2: "still S c ?c2"
    by (rule still_trans [OF s1 still_update]) simp
  obtain c3 res where s: "scheduleCallback env (hcHeartbeatInterval (cuConfig ?c2)) ''heartbeat_timer''
      (WireTimer i (prIncarnation p) (prHeartbeatGeneration p + 1)) (HeartbeatFires i (prIncarnation p) (prHeartbeatGeneration p + 1))
      ?c2 = (c3, res)"
    by fastforce
  note s3 = still_trans [OF s2 scheduleCallback_still(1) [OF s]]
  have "c' = c3 \<or> (\<exists>event. c' = updateProc i (\<lambda>q. q\<lparr>prHeartbeatEvent := event\<rparr>) c3)"
    using assms p c1 s by (auto simp: resetHeartbeatTimer_def Let_def split: sum.splits)
  then show ?thesis
    using still_then_update [OF s3] s3 by auto
qed

lemma syncRoleTimers_still:
  assumes "syncRoleTimers before after i c = Some c'"
  shows "still S c c'"
proof -
  obtain c1 where c1: "syncElection before after i c = Some c1" "syncHeartbeat before after i c1 = Some c'"
    using assms by (auto simp: syncRoleTimers_def bind_eq_Some_conv)
  have "still S c c1"
    using c1(1) by (auto simp: syncElection_def split: option.splits if_splits
        intro!: still_update intro: still_trans dest!: cancelEvent_still(1) [of _ _ _ S])
  moreover have "still S c1 c'"
    using c1(2) by (auto simp: syncHeartbeat_def split: option.splits if_splits
        intro!: still_update intro: still_trans dest!: cancelEvent_still(1) [of _ _ _ S])
  ultimately show ?thesis
    by (rule still_trans)
qed

lemma sendEffect_still:
  assumes "sendEffect env i msg c = Some (c', err)" and "msg \<in> S"
  shows "still S c c'"
proof -
  obtain p where p: "cuProcesses c i = Some p"
    using assms(1) by (auto simp: sendEffect_def split: option.splits)
  let ?c1 = "updateProc i (\<lambda>q. q\<lparr>prSendSequence := prSendSequence p + 1\<rparr>) c"
  have s1: "still S c ?c1"
    by (rule still_update) simp
  obtain e r res where e: "nvMessage e = msg"
      and send: "Send (raftNetworkDecisions env) i (mTo msg) e (cuRouter ?c1) = Some (r, res)" and c': "c' = ?c1\<lparr>cuRouter := r\<rparr>"
  proof -
    let ?e = "\<lparr>nvSenderIncarnation = prIncarnation p, nvSendSequence = prSendSequence p + 1,
        nvOperationIDs = (if enCausal env \<and> rtDecisions (cuRouter ?c1) \<noteq> None then operationIDs (mEntries msg) else []),
        nvMessage = msg\<rparr>"
    obtain r res where "Send (raftNetworkDecisions env) i (mTo msg) ?e (cuRouter ?c1) = Some (r, res)" "c' = ?c1\<lparr>cuRouter := r\<rparr>"
      using assms(1) p by (auto simp: sendEffect_def Let_def split: option.splits sum.splits prod.splits)
    then show thesis
      using that [of ?e] by simp
  qed
  have "still S ?c1 c'"
  proof (rule stillI)
    assume h: "harnessRouter (cuRouter ?c1)"
    note sp = Send_pending [OF h send]
    show "harnessRouter (cuRouter c')"
      using sp(1) by (simp add: c')
    show "rel_option (kept S) (cuProcesses ?c1 j) (cuProcesses c' j)" for j
      by (simp add: c')
    show "pendingAction (simOf ?c1) a = Some act \<or> tame S act" if "pendingAction (simOf c') a = Some act" for a act
      using sp(3) that e assms(2) by (auto simp: c' split: if_splits)
  qed
  with s1 show ?thesis
    by (rule still_trans)
qed

lemma applyEffect_still:
  assumes "applyEffect env i e c = Some (c', err)"
  shows "still S c c'"
proof -
  have "c' = c \<or> (\<exists>p app. c' = updateProc i (\<lambda>p. p\<lparr>prStore := (prStore p)\<lparr>dsAppliedIndex := eIndex e,
      dsApplied := dsApplied (prStore p) @ [e]\<rparr>, prApplication := app\<rparr>) c)"
    using assms unfolding applyEffect_def by (auto split: option.splits if_splits sum.splits)
  then show ?thesis
    by (auto intro: still_update)
qed

lemma installEffect_still:
  assumes "installEffect env i s c = Some (c', err)"
  shows "still S c c'"
proof -
  let ?f = "\<lambda>app p. p\<lparr>prStore := (prStore p)\<lparr>dsAppliedIndex := LastIncludedIndex s, dsInstalledSnapshot := s,
      dsApplied := filter (\<lambda>e. \<not> eIndex e \<le> LastIncludedIndex s) (dsApplied (prStore p))\<rparr>, prApplication := app\<rparr>"
  have kept: "kept S p (?f app p)" for p app
    by (simp add: kept_def)
  have "c' = c \<or> (\<exists>app. c' = traceCluster i ''persistence'' ''snapshot_installed'' (DetailSnapshot s) (updateProc i (?f app) c))"
    using assms unfolding installEffect_def by (auto split: option.splits if_splits sum.splits)
  then show ?thesis
    using still_trans [OF still_then_update [OF still_refl kept] still_trace(1)] by auto
qed

lemma processEffect_still:
  assumes "processEffect env i eff c = Some (c', err)" and "\<not> asksWrite eff" and "\<And>m. eff = EffectSend m \<Longrightarrow> m \<in> S"
  shows "still S c c'"
  using assms by (cases eff)
    (auto simp: processEffect_def intro: sendEffect_still resetElectionTimer_still resetHeartbeatTimer_still applyEffect_still installEffect_still)

lemma andThen_Some:
  assumes "andThen r f = Some (c', err)"
  obtains e where "r = Some (c', Some e)" and "err = Some e" | c1 where "r = Some (c1, None)" and "f c1 = Some (c', err)"
  using assms by (auto simp: andThen_def split: option.splits)

lemma processEffects_single: "processEffects env i [eff] c = processEffect env i eff c"
  by (auto simp: andThen_def split: option.split)

lemma processEffects_still:
  assumes "processEffects env i effs c = Some (c', err)" and "calm effs" and "\<And>m. EffectSend m \<in> set effs \<Longrightarrow> m \<in> S"
  shows "still S c c'"
  using assms
proof (induction effs arbitrary: c)
  case (Cons eff effs)
  have quiet: "\<not> asksWrite eff" "calm effs" "\<And>m. eff = EffectSend m \<Longrightarrow> m \<in> S" "\<And>m. EffectSend m \<in> set effs \<Longrightarrow> m \<in> S"
    using Cons.prems(2,3) by auto
  from Cons.prems(1) have "andThen (processEffect env i eff c) (processEffects env i effs) = Some (c', err)"
    by simp
  then show ?case
  proof (cases rule: andThen_Some)
    case (1 e)
    then show ?thesis
      using processEffect_still quiet(1,3) by blast
  next
    case (2 c1)
    then show ?thesis
      using still_trans [OF processEffect_still [OF 2(1) quiet(1,3)] Cons.IH [OF 2(2) quiet(2,4)]] by blast
  qed
qed simp

text \<open>What a caller can do to the network, the clock and the faults.\<close>

text \<open>When nothing is due the scheduler only moves its clock.\<close>

lemma simRunUntil_settled:
  assumes inv: "simInv s" and idle_queue: "stop < now s \<or> slots (queue s) = [] \<or> stop < evWhen (store (queue s) (slots (queue s) ! 0))"
    and r: "Simulator.RunUntil (\<lambda>_ s. s) stop s = Some (s', res)"
  shows "simInv s'" and "queue s' = queue s"
proof -
  have "simInv s' \<and> queue s' = queue s"
  proof (cases "0 \<le> stop \<and> now s \<le> stop")
    case True
    have "\<not> (slots (queue s) \<noteq> [] \<and> evWhen (store (queue s) (slots (queue s) ! 0)) \<le> stop)"
      using idle_queue True by auto
    then have none: "runUntilLoop (\<lambda>_ s. s) stop 0 s = Some (s, 0)"
      by (subst runUntilLoop.simps) auto
    have "respectful (\<lambda>_ s. s)"
      by (simp add: respectful_def)
    then obtain s1 k where "runUntilLoop (\<lambda>_ s. s) stop 0 s = Some (s1, k)"
        "\<forall>a\<in>set (slots (queue s1)). stop < evWhen (store (queue s1) a)"
      using runUntilLoop_ends [of "\<lambda>_ s. s" stop s 0] inv True by auto
    then have later: "\<forall>a\<in>set (slots (queue s)). stop < evWhen (store (queue s) a)"
      using none by simp
    have s': "s' = (if now s \<noteq> stop then recordTrace (TraceClockAdvanced stop) (s\<lparr>now := stop\<rparr>) else s)"
      using r True none by (auto simp: Simulator.RunUntil_def)
    have "simInv (s\<lparr>now := stop\<rparr>)"
      using inv later True by (auto simp: simInv_def nextFree_def)
    then show ?thesis
      using inv by (simp add: s')
  next
    case False
    then have "s' = s"
      using r by (auto simp: Simulator.RunUntil_def split: if_splits)
    then show ?thesis
      using inv by simp
  qed
  then show "simInv s'" "queue s' = queue s"
    by simp_all
qed

lemma settleClock_still:
  assumes "settleClock stop c = Some (c', err)"
    and idle_queue: "stop < now (simOf c) \<or> NextEventTime (simOf c) = (t, more_pending) \<and> (\<not> more_pending \<or> stop < t)"
  shows "still S c c'" and "cuProcesses c' = cuProcesses c" and "cuErr c' = cuErr c"
proof -
  obtain s res where s: "Simulator.RunUntil (\<lambda>_ s. s) stop (simOf c) = Some (s, res)" and c': "c' = withSim s c"
    using assms(1) by (auto simp: settleClock_def split: option.splits prod.splits sum.splits)
  show "cuProcesses c' = cuProcesses c" "cuErr c' = cuErr c"
    by (simp_all add: c')
  show "still S c c'"
  proof (rule stillI)
    assume h: "harnessRouter (cuRouter c)"
    then have inv: "simInv (simOf c)"
      by (simp add: harnessRouter_def routerInv_def)
    have "stop < now (simOf c) \<or> slots (queue (simOf c)) = [] \<or> stop < evWhen (store (queue (simOf c)) (slots (queue (simOf c)) ! 0))"
      using idle_queue by (auto simp: NextEventTime_def split: if_splits)
    note settled = simRunUntil_settled [OF inv this s]
    show "harnessRouter (cuRouter c')"
      using h settled by (simp add: c' harnessRouter_def routerInv_def timely_def)
    show "pendingAction (simOf c) a = Some act \<or> tame S act" if "pendingAction (simOf c') a = Some act" for a act
    proof -
      have "pendingAction s = pendingAction (simOf c)"
        unfolding pendingAction_def settled(2) ..
      then show ?thesis
        using that by (simp add: c')
    qed
  qed (simp add: c')
qed

lemma Partition_still: "still S c (fst (Partition groups c))" "still S c (Heal c)"
  by (auto simp: Partition_def Heal_def SetPartition_frame intro: still_router_change split: sum.split)

lemma CrashAfterNextPersist_still: "still S c (fst (CrashAfterNextPersist i c))"
  by (auto simp: CrashAfterNextPersist_def intro: still_update split: option.split)

lemma ScheduleCrash_still: "still S c (fst (ScheduleCrash env delay i c))" "still S c (fst (ScheduleRestart env delay i c))"
  unfolding ScheduleCrash_def ScheduleRestart_def
  by (metis prod.collapse scheduleCallback_still(1) storageCallback.simps(5,6))+

lemma settled_still:
  assumes "simStep (\<lambda>_ s. s) (simOf c) = Some (s, True)"
  shows "still S c (withSim s c)"
proof (rule stillI)
  assume h: "harnessRouter (cuRouter c)"
  then have inv: "routerInv (cuRouter c)"
    by (simp add: harnessRouter_def)
  show "harnessRouter (cuRouter (withSim s c))"
    using h by (rule_tac simStep_cases [OF inv assms]) (auto simp: harnessRouter_def)
  show "pendingAction (simOf c) a = Some act \<or> tame S act" if "pendingAction (simOf (withSim s c)) a = Some act" for a act
    using that by (rule_tac simStep_cases [OF inv assms]) (auto split: if_splits)
qed simp

end
