(* ===== verification/DriverLink.thy ===== *)
theory DriverLink
  imports DriverFrame
begin

text \<open>
  The harness against the cluster of \<open>RaftCluster\<close>. A state of the harness is linked to a cluster when the nodes
  that are up are its live nodes, the durable states its disks, every packet under way or waiting in a mailbox was
  sent, and every storage event on the queue is the one that its process waits for and belongs to the write in
  flight. Each operation of the harness takes a linked state to a linked state by steps of the cluster.
\<close>

section \<open>The link\<close>

definition processLink :: "Cluster \<Rightarrow> NodeID \<Rightarrow> process option \<Rightarrow> bool" where
  "processLink C i x \<longleftrightarrow>
     (case x of
        None \<Rightarrow> live C i = None
      | Some p \<Rightarrow> live C i = (if prUp p then prNode p else None) \<and> disk C i = dsState (prStore p)
          \<and> (prUp p \<longrightarrow> (\<forall>n. prNode p = Some n \<longrightarrow> calmNode n))
          \<and> (\<forall>q\<in>set (prMailbox p). inputOk (sent C) (qiInput q)) \<and> (prPersistEvent p = 0 \<or> prPersistAckEvent p = 0))"

fun actionLink :: "Cluster \<Rightarrow> (NodeID \<Rightarrow> process option) \<Rightarrow> EventID \<Rightarrow> (Envelope, callback) action \<Rightarrow> bool" where
  "actionLink C ps a (Deliver p t) \<longleftrightarrow> nvMessage (pkMessage p) \<in> sent C"
| "actionLink C ps a (Foreign (StorageCompletion i inc gen st tok)) \<longleftrightarrow>
     (\<exists>p. ps i = Some p \<and> sameWrite inc gen p \<and> prPersistEvent p = a \<and> writes C i = Some (tok, st))"
| "actionLink C ps a (Foreign (PersistenceAck i inc gen tok)) \<longleftrightarrow>
     (\<exists>p. ps i = Some p \<and> sameWrite inc gen p \<and> prPersistAckEvent p = a \<and> writes C i = Some (tok, disk C i))"
| "actionLink C ps a (Foreign (ElectionFires i inc gen)) \<longleftrightarrow> True"
| "actionLink C ps a (Foreign (HeartbeatFires i inc gen)) \<longleftrightarrow> True"
| "actionLink C ps a (Foreign (ScheduledCrash i)) \<longleftrightarrow> True"
| "actionLink C ps a (Foreign (ScheduledRestart i)) \<longleftrightarrow> True"

definition linked :: "'s SimCluster \<Rightarrow> Cluster \<Rightarrow> bool" where
  "linked c C \<longleftrightarrow> harnessRouter (cuRouter c) \<and> (\<forall>i. processLink C i (cuProcesses c i))
     \<and> (\<forall>a act. pendingAction (simOf c) a = Some act \<longrightarrow> actionLink C (cuProcesses c) a act)"

lemma linkedI:
  assumes "harnessRouter (cuRouter c)" and "\<And>i. processLink C i (cuProcesses c i)"
    and "\<And>a act. pendingAction (simOf c) a = Some act \<Longrightarrow> actionLink C (cuProcesses c) a act"
  shows "linked c C"
  using assms by (simp add: linked_def)

lemma linkedD:
  assumes "linked c C"
  shows "harnessRouter (cuRouter c)" and "processLink C i (cuProcesses c i)"
    and "pendingAction (simOf c) a = Some act \<Longrightarrow> actionLink C (cuProcesses c) a act"
  using assms by (simp_all add: linked_def)

lemma linked_router: "linked c C \<Longrightarrow> routerInv (cuRouter c)"
  by (simp add: linked_def harnessRouter_def)

lemma linked_process:
  assumes "linked c C" and "cuProcesses c i = Some p"
  shows "live C i = (if prUp p then prNode p else None)" and "disk C i = dsState (prStore p)"
    and "prUp p \<Longrightarrow> prNode p = Some n \<Longrightarrow> calmNode n" and "q \<in> set (prMailbox p) \<Longrightarrow> inputOk (sent C) (qiInput q)"
    and "prPersistEvent p = 0 \<or> prPersistAckEvent p = 0"
  using linkedD(2) [OF assms(1), of i] assms(2) by (auto simp: processLink_def)

lemma inputOk_mono: "inputOk S inp \<Longrightarrow> S \<subseteq> T \<Longrightarrow> inputOk T inp"
  by (auto simp: inputOk_def)

text \<open>The owner and the kind of the events that the link speaks of.\<close>

lemma sameWrite_kept: "kept S p p' \<Longrightarrow> sameWrite inc gen p' = sameWrite inc gen p"
  by (simp add: kept_def sameWrite_def)

lemma kept_some: "rel_option (kept S) x y \<Longrightarrow> x = Some p \<Longrightarrow> \<exists>p'. y = Some p' \<and> kept S p p'"
  by (auto simp: option_rel_Some1)

lemma actionLink_kept:
  assumes "\<And>i. rel_option (kept S) (ps i) (ps' i)" and "actionLink C ps a act"
  shows "actionLink C ps' a act"
proof (cases act)
  case (Foreign cb)
  then show ?thesis
  proof (cases cb)
    case (StorageCompletion i inc gen st tok)
    then obtain p where p: "ps i = Some p" "sameWrite inc gen p" "prPersistEvent p = a" "writes C i = Some (tok, st)"
      using assms(2) Foreign by auto
    obtain p' where "ps' i = Some p'" "kept S p p'"
      using kept_some [OF assms(1) p(1)] by blast
    then show ?thesis
      using p Foreign StorageCompletion sameWrite_kept [of S p p'] by (auto simp: kept_def)
  next
    case (PersistenceAck i inc gen tok)
    then obtain p where p: "ps i = Some p" "sameWrite inc gen p" "prPersistAckEvent p = a" "writes C i = Some (tok, disk C i)"
      using assms(2) Foreign by auto
    obtain p' where "ps' i = Some p'" "kept S p p'"
      using kept_some [OF assms(1) p(1)] by blast
    then show ?thesis
      using p Foreign PersistenceAck sameWrite_kept [of S p p'] by (auto simp: kept_def)
  qed simp_all
qed (use assms(2) in simp)

lemma actionLink_tame: "tame (sent C) act \<Longrightarrow> actionLink C ps a act"
proof (cases act)
  case (Foreign cb)
  then show "tame (sent C) act \<Longrightarrow> actionLink C ps a act"
    by (cases cb) simp_all
qed simp

lemma processLink_kept:
  assumes "rel_option (kept (sent C)) x y" and "processLink C i x"
  shows "processLink C i y"
proof (cases x)
  case (Some p)
  then obtain p' where y: "y = Some p'" and k: "kept (sent C) p p'"
    using kept_some [OF assms(1)] by blast
  have "inputOk (sent C) (qiInput q)" if "q \<in> set (prMailbox p')" for q
    using k that assms(2) Some by (auto simp: kept_def processLink_def)
  then show ?thesis
    using assms(2) Some y k by (simp add: processLink_def kept_def)
qed (use assms in simp)

text \<open>A frame keeps the link.\<close>

lemma still_linked:
  assumes "linked c C" and "still (sent C) c c'"
  shows "linked c' C"
proof -
  have s: "harnessRouter (cuRouter c')" "\<And>i. rel_option (kept (sent C)) (cuProcesses c i) (cuProcesses c' i)"
      "\<And>a act. pendingAction (simOf c') a = Some act \<Longrightarrow> pendingAction (simOf c) a = Some act \<or> tame (sent C) act"
    using assms(2) linkedD(1) [OF assms(1)] by (auto simp: still_def)
  show ?thesis
  proof (rule linkedI)
    show "processLink C i (cuProcesses c' i)" for i
      by (rule processLink_kept [OF s(2) linkedD(2) [OF assms(1)]])
    show "actionLink C (cuProcesses c') a act" if "pendingAction (simOf c') a = Some act" for a act
    proof (cases "tame (sent C) act")
      case False
      then show ?thesis
        using actionLink_kept [of "sent C" "cuProcesses c" "cuProcesses c'" C a act, OF s(2)] linkedD(3) [OF assms(1)] s(3) [OF that]
        by blast
    qed (rule actionLink_tame)
  qed (rule s(1))
qed

section \<open>Changes at one node\<close>

text \<open>A node without a write in flight has no storage event on the queue.\<close>

fun owner :: "(Envelope, callback) action \<Rightarrow> NodeID option" where
  "owner (Deliver p t) = None"
| "owner (Foreign (StorageCompletion i inc gen st tok)) = Some i"
| "owner (Foreign (PersistenceAck i inc gen tok)) = Some i"
| "owner (Foreign (ElectionFires i inc gen)) = None"
| "owner (Foreign (HeartbeatFires i inc gen)) = None"
| "owner (Foreign (ScheduledCrash i)) = None"
| "owner (Foreign (ScheduledRestart i)) = None"

lemma actionLink_write: "actionLink C ps a act \<Longrightarrow> owner act = Some i \<Longrightarrow> writes C i \<noteq> None"
proof (cases act)
  case (Foreign cb)
  then show "actionLink C ps a act \<Longrightarrow> owner act = Some i \<Longrightarrow> writes C i \<noteq> None"
    by (cases cb) auto
qed simp

text \<open>An action that is not of node \<open>i\<close> stays linked when only node \<open>i\<close> changes and more is sent.\<close>

lemma actionLink_other:
  assumes "actionLink C ps a act" and "owner act \<noteq> Some i" and "\<And>j. j \<noteq> i \<Longrightarrow> ps' j = ps j"
    and "\<And>j. j \<noteq> i \<Longrightarrow> writes C' j = writes C j \<and> disk C' j = disk C j" and "sent C \<subseteq> sent C'"
  shows "actionLink C' ps' a act"
proof (cases act)
  case (Foreign cb)
  then show ?thesis
    using assms by (cases cb) auto
qed (use assms in auto)

lemma processLink_other:
  assumes "processLink C j x" and "live C' j = live C j" and "disk C' j = disk C j" and "sent C \<subseteq> sent C'"
  shows "processLink C' j x"
  using assms inputOk_mono [OF _ assms(4)] by (auto simp: processLink_def split: option.splits)

text \<open>The new link when node \<open>i\<close> changes: its process, and the storage events it has.\<close>

lemma linked_change:
  assumes link: "linked c C" and h: "harnessRouter (cuRouter c')"
    and ps: "\<And>j. j \<noteq> i \<Longrightarrow> cuProcesses c' j = cuProcesses c j"
    and C': "\<And>j. j \<noteq> i \<Longrightarrow> live C' j = live C j \<and> writes C' j = writes C j \<and> disk C' j = disk C j" "sent C \<subseteq> sent C'"
    and proc: "processLink C' i (cuProcesses c' i)"
    and act: "\<And>a act. pendingAction (simOf c') a = Some act \<Longrightarrow> pendingAction (simOf c) a = Some act \<and> owner act \<noteq> Some i
      \<or> actionLink C' (cuProcesses c') a act"
  shows "linked c' C'"
proof (rule linkedI)
  show "processLink C' j (cuProcesses c' j)" for j
  proof (cases "j = i")
    case False
    then show ?thesis
      using processLink_other [OF linkedD(2) [OF link, of j]] ps C' by simp
  qed (use proc in simp)
  show "actionLink C' (cuProcesses c') a act" if "pendingAction (simOf c') a = Some act" for a act
    using act [OF that]
  proof
    assume a: "pendingAction (simOf c) a = Some act \<and> owner act \<noteq> Some i"
    show ?thesis
      by (rule actionLink_other [of C "cuProcesses c" a act i]) (use a linkedD(3) [OF link] ps C' in auto)
  qed
qed (rule h)

section \<open>A write\<close>

text \<open>The cluster after a node's step: the effects of the step are processed against it.\<close>

lemma persistEffect_linked:
  assumes link: "linked c C" and w: "writes C i = Some (token, st)" and up: "cuProcesses c i = Some p" "prUp p"
    and persist: "persistEffect env i token st c = Some (c', err)"
  shows "linked c' C"
proof (cases "prPersistEvent p \<noteq> 0 \<or> prPersistAckEvent p \<noteq> 0")
  case True
  then have "c' = c"
    using persist up(1) by (simp add: persistEffect_def)
  then show ?thesis
    using link by simp
next
  case False
  let ?g = "prPersistGeneration p + 1"
  let ?c1 = "updateProc i (\<lambda>q. q\<lparr>prPersistGeneration := ?g\<rparr>) c"
  let ?id = "''storage/'' @ i @ ''/'' @ showNat (unat (prIncarnation p)) @ ''/'' @ showNat (unat ?g)"
  obtain c2 d where d: "chooseDuration env ?id ''storage_latency'' (hcStorageLatency (cuConfig c)) (hcStorageLatency (cuConfig c))
      (WireWrite i (prIncarnation p) ?g token) ?c1 = (c2, d)"
    by fastforce
  have noevents: "owner act \<noteq> Some i" if "pendingAction (simOf c) a = Some act" for a act
  proof
    assume o: "owner act = Some i"
    have "a \<noteq> 0"
      using pending_positive [OF routerInv_sim [OF linked_router [OF link]] that] .
    moreover have "a = 0"
      using linkedD(3) [OF link that] o False up(1) by (cases act rule: owner.cases) auto
    ultimately show False
      by simp
  qed
  have p1: "cuProcesses ?c1 i = Some (p\<lparr>prPersistGeneration := ?g\<rparr>)"
    using up(1) by simp
  have l1: "linked ?c1 C"
  proof (rule linked_change [OF link, of _ i])
    show "processLink C i (cuProcesses ?c1 i)"
      using linkedD(2) [OF link, of i] up(1) unfolding p1 by (simp add: processLink_def)
  qed (use linkedD(1) [OF link] noevents in simp_all)
  have "linked c2 C" and p2: "cuProcesses c2 = cuProcesses ?c1"
    using still_linked [OF l1 chooseDuration_still(1) [OF d]] chooseDuration_still(2) [OF d] by simp_all
  note l2 = \<open>linked c2 C\<close>
  show ?thesis
  proof (cases d)
    case (Inl e)
    then show ?thesis
      using persist up(1) False d l2 by (simp add: persistEffect_def Let_def)
  next
    case (Inr delay)
    obtain c3 res where s: "scheduleCallback env delay ''storage_completion'' (WireCompletion i (prIncarnation p) ?g st token)
        (StorageCompletion i (prIncarnation p) ?g st token) c2 = (c3, res)"
      by fastforce
    show ?thesis
    proof (rule scheduleCallback_cases [OF linked_router [OF l2] s])
      fix e
      assume "res = Inl e" "c3 = c2"
      then show "linked c' C"
        using persist up(1) False d Inr s l2 by (simp add: persistEffect_def Let_def)
    next
      fix b s'
      assume b: "res = Inr b" "c3 = withSim s' c2" "routerInv (cuRouter c3)" "b \<noteq> 0" "pendingAction (simOf c2) b = None"
        "pendingAction s' = (pendingAction (simOf c2))(b \<mapsto> Foreign (StorageCompletion i (prIncarnation p) ?g st token))"
      let ?c4 = "updateProc i (\<lambda>q. q\<lparr>prPersistEvent := b\<rparr>) c3"
      have p3: "cuProcesses c3 i = Some (p\<lparr>prPersistGeneration := ?g\<rparr>)"
        using up(1) p2 b(2) by simp
      have p4: "cuProcesses ?c4 i = Some (p\<lparr>prPersistGeneration := ?g, prPersistEvent := b\<rparr>)"
        using up(1) p2 b(2) by simp
      have noevents2: "owner act \<noteq> Some i" if "pendingAction (simOf c2) a = Some act" for a act
      proof
        assume o: "owner act = Some i"
        have "a \<noteq> 0"
          using pending_positive [OF routerInv_sim [OF linked_router [OF l2]] that] .
        moreover have "a = 0"
          using linkedD(3) [OF l2 that] o False p1 p2 by (cases act rule: owner.cases) auto
        ultimately show False
          by simp
      qed
      have "linked ?c4 C"
      proof (rule linked_change [OF l2, of _ i])
        show "harnessRouter (cuRouter ?c4)"
          using linkedD(1) [OF l2] b(2,3) by (simp add: harnessRouter_def)
        show "processLink C i (cuProcesses ?c4 i)"
          using linkedD(2) [OF link, of i] up(1) False p4 by (auto simp: processLink_def)
        show "pendingAction (simOf c2) a = Some act \<and> owner act \<noteq> Some i \<or> actionLink C (cuProcesses ?c4) a act"
          if "pendingAction (simOf ?c4) a = Some act" for a act
        proof (cases "a = b")
          case True
          then have "act = Foreign (StorageCompletion i (prIncarnation p) ?g st token)"
            using that b(2,6) by simp
          then show ?thesis
            using p3 True w up(2) by (simp add: sameWrite_def)
        next
          case False
          then show ?thesis
            using that b(2,6) noevents2 by simp
        qed
      qed (use b(2) in simp_all)
      moreover have "c' = traceCluster i ''persistence'' ''scheduled'' (DetailScheduled token (now (simOf ?c4) + delay)) ?c4"
        using persist up(1) False d Inr s b(1) by (simp add: persistEffect_def Let_def)
      ultimately show "linked c' C"
        using still_linked still_trace(1) by metis
    qed
  qed
qed

section \<open>The step of a node\<close>

text \<open>What a step with an ordinary input does: the new node is calm, and it asks for a write or waits for none.\<close>

lemma input_outcome:
  assumes reach: "creach C" and n: "live C i = Some n" "pending n = None" and inp: "inputOk (sent C) inp"
    and r: "Step inp n = Some (n', r)"
  obtains (clean) "pending n' = None" and "calmNode n'" and "\<And>effs. r = Inr effs \<Longrightarrow> calm effs"
  | (dirty) t held where "pending n' = Some (t, held)" and "calmNode n'" and "r = Inr [EffectPersist t (state n')]"
proof -
  have other: "\<And>t. inp \<noteq> InputPersisted t" and wire: "\<And>m. inp = InputMessage m \<Longrightarrow> m \<in> sent C"
    using inp by (auto simp: inputOk_def)
  have "nodeInv (ballots (sent C)) (disk C i) n"
    using clusterInvD(2) [OF clusterInv_reach [OF reach] n(1)] .
  then have binv: "ballotInv (ballots (sent C)) n"
    by (simp add: nodeInv_def)
  have just: "backed (ballots (sent C)) inp n"
    unfolding backed_def ballots_def using wire by fastforce
  have cases: "pending n' = None \<and> sameVote n n' \<or> (\<exists>t held. pending n' = Some (t, held) \<and> r = Inr [EffectPersist t (state n')])"
    by (rule Step_clean [OF n(2) other r binv just])
  then have "pending n' = None \<or> (\<exists>t held. pending n' = Some (t, held) \<and> r = Inr [EffectPersist t (state n')])"
    by (elim disjE exE conjE) simp_all
  note calmed = Step_calm [OF r other n(2) this]
  from cases show thesis
  proof (elim disjE exE conjE)
    assume p: "pending n' = None"
    show thesis
      by (rule clean [OF p calmed(1)]) (rule calmed(2) [OF _ p])
  next
    fix t held
    assume "pending n' = Some (t, held)" "r = Inr [EffectPersist t (state n')]"
    then show thesis
      using dirty calmed(1) by blast
  qed
qed

lemma sends_member: "EffectSend m \<in> set effs \<Longrightarrow> m \<in> sends (Inr effs)"
  by (simp add: sends_def)

text \<open>The node of a process takes its new state; the write in flight, if any, has no storage event yet.\<close>

lemma node_linked:
  assumes link: "linked c C" and p: "cuProcesses c i = Some p" "prUp p" and w: "writes C i = None"
    and n': "calmNode n'"
    and C': "C' = C\<lparr>live := (live C)(i \<mapsto> n'), writes := (writes C)(i := w'), sent := sent C \<union> S\<rparr>"
  shows "linked (updateProc i (\<lambda>p. p\<lparr>prNode := Some n'\<rparr>) c) C'"
proof (rule linked_change [OF link, of _ i])
  have "processLink C i (Some p)"
    using linkedD(2) [OF link, of i] p(1) by simp
  then show "processLink C' i (cuProcesses (updateProc i (\<lambda>p. p\<lparr>prNode := Some n'\<rparr>) c) i)"
    using p n' inputOk_mono [of "sent C" _ "sent C \<union> S"] by (auto simp: processLink_def C')
  show "pendingAction (simOf c) a = Some act \<and> owner act \<noteq> Some i
      \<or> actionLink C' (cuProcesses (updateProc i (\<lambda>p. p\<lparr>prNode := Some n'\<rparr>) c)) a act"
    if "pendingAction (simOf (updateProc i (\<lambda>p. p\<lparr>prNode := Some n'\<rparr>) c)) a = Some act" for a act
    using that actionLink_write [OF linkedD(3) [OF link], of a act i] w by auto
qed (use linkedD(1) [OF link] in \<open>auto simp: C'\<close>)

text \<open>A state of the harness that a reachable cluster explains.\<close>

definition tracked :: "'s SimCluster \<Rightarrow> bool" where
  "tracked c \<longleftrightarrow> (\<exists>C. creach C \<and> linked c C)"

lemma trackedI [intro]: "creach C \<Longrightarrow> linked c C \<Longrightarrow> tracked c"
  by (auto simp: tracked_def)

lemma still_tracked: "tracked c \<Longrightarrow> (\<And>S. still S c c') \<Longrightarrow> tracked c'"
  unfolding tracked_def using still_linked by blast

lemma stepNode_tracked:
  assumes reach: "creach C" and link: "linked c C" and p: "cuProcesses c i = Some p" "prUp p" "prNode p = Some n"
    and clean: "pending n = None" and inp: "inputOk (sent C) inp" and step: "stepNode env i n inp c = Some (c', err)"
  shows "tracked c'"
proof -
  have live: "live C i = Some n"
    using linked_process(1) [OF link p(1)] p by simp
  note inv = clusterInv_reach [OF reach]
  have w: "writes C i = None"
    using clusterInvD(3) [OF inv, of i] live clean by (cases "writes C i") auto
  obtain n' r where r: "Step inp n = Some (n', r)"
    using step by (auto simp: stepNode_def split: option.splits)
  let ?C = "C\<lparr>live := (live C)(i \<mapsto> n'), writes := (writes C)(i := RaftCluster.started n' r (writes C i)), sent := sent C \<union> sends r\<rparr>"
  let ?c = "updateProc i (\<lambda>p. p\<lparr>prNode := Some n'\<rparr>) c"
  have "cstep C ?C"
    by (rule cstep.input [OF live _ _ r]) (use inp in \<open>auto simp: inputOk_def\<close>)
  then have reach': "creach ?C"
    using creach.step [OF reach] by blast
  have p': "cuProcesses ?c i = Some (p\<lparr>prNode := Some n'\<rparr>)" "prUp (p\<lparr>prNode := Some n'\<rparr>)"
    using p by simp_all
  from reach live clean inp r show ?thesis
  proof (cases rule: input_outcome)
    case clean
    have l: "linked ?c ?C"
      by (rule node_linked [OF link p(1,2) w clean(2) refl])
    show ?thesis
    proof (cases r)
      case (Inl e)
      then show ?thesis
        using step r reach' l by (auto simp: stepNode_def)
    next
      case (Inr effs)
      then have "processEffects env i effs ?c = Some (c', err)"
        using step r by (simp add: stepNode_def)
      then have "still (sent ?C) ?c c'"
        by (rule processEffects_still) (use clean(3) Inr sends_member in auto)
      then show ?thesis
        using reach' still_linked [OF l] by blast
    qed
  next
    case (dirty t held)
    have l: "linked ?c ?C"
      by (rule node_linked [OF link p(1,2) w dirty(2) refl])
    have w': "writes ?C i = Some (t, state n')"
      using dirty(1,3) by (simp add: RaftCluster.started_def)
    have "processEffects env i [EffectPersist t (state n')] ?c = Some (c', err)"
      using step r dirty(3) by (simp add: stepNode_def)
    then have "persistEffect env i t (state n') ?c = Some (c', err)"
      by (simp only: processEffects_single) (simp add: processEffect_def)
    then show ?thesis
      using reach' persistEffect_linked [OF l w' p'] by blast
  qed
qed

text \<open>The acknowledgement of a completed write.\<close>

lemma ackNode_tracked:
  assumes reach: "creach C" and link: "linked c C" and p: "cuProcesses c i = Some p" "prUp p" "prNode p = Some n"
    and w: "writes C i = Some (t, disk C i)" and noevents: "\<And>a act. pendingAction (simOf c) a = Some act \<Longrightarrow> owner act \<noteq> Some i"
    and step: "stepNode env i n (InputPersisted t) c = Some (c', err)"
  shows "tracked c'"
proof -
  have live: "live C i = Some n"
    using linked_process(1) [OF link p(1)] p by simp
  obtain held where held: "pending n = Some (t, held)"
    using clusterInvD(3) [OF clusterInv_reach [OF reach] w] live by auto
  have calm: "calm held"
    using linked_process(3) [OF link p(1,2,3)] held by (simp add: calmNode_def)
  obtain n' r where r: "Step (InputPersisted t) n = Some (n', r)"
    using step by (auto simp: stepNode_def split: option.splits)
  let ?C = "C\<lparr>live := (live C)(i \<mapsto> n'), writes := (writes C)(i := None), sent := sent C \<union> sends r\<rparr>"
  let ?c = "updateProc i (\<lambda>p. p\<lparr>prNode := Some n'\<rparr>) c"
  have reach': "creach ?C"
    using creach.step [OF reach cstep.ack [OF live w refl r]] .
  have out: "n' = n \<and> (\<exists>e. r = Inl e) \<or> n' = n\<lparr>pending := None\<rparr> \<and> r = Inr held"
    using r held by (auto simp: Step_def acknowledgePersistence_def split: if_splits)
  then have calm': "calmNode n'"
    using linked_process(3) [OF link p(1,2,3)] by (auto simp: calmNode_def)
  have l: "linked ?c ?C"
  proof (rule linked_change [OF link, of _ i])
    have "processLink C i (Some p)"
      using linkedD(2) [OF link, of i] p(1) by simp
    then show "processLink ?C i (cuProcesses ?c i)"
      using p calm' inputOk_mono [of "sent C" _ "sent C \<union> sends r"] by (auto simp: processLink_def)
  qed (use linkedD(1) [OF link] noevents in auto)
  show ?thesis
  proof (cases r)
    case (Inl e)
    then show ?thesis
      using step r reach' l by (auto simp: stepNode_def)
  next
    case (Inr effs)
    then have "processEffects env i effs ?c = Some (c', err)"
      using step r by (simp add: stepNode_def)
    then have "still (sent ?C) ?c c'"
      by (rule processEffects_still) (use calm out Inr sends_member in auto)
    then show ?thesis
      using reach' still_linked [OF l] by blast
  qed
qed

section \<open>Inputs\<close>

lemma transitionTrace_still: "transitionTrace i n c = Some c' \<Longrightarrow> still S c c'"
  by (auto simp: transitionTrace_def split: option.splits)

lemma submit_tracked:
  assumes reach: "creach C" and link: "linked c C" and inp: "inputOk (sent C) (qiInput q)" and sub: "submit env i q c = Some (c', err)"
  shows "tracked c'"
proof -
  obtain p where p: "cuProcesses c i = Some p"
    using sub by (auto simp: submit_def split: option.splits)
  have here: "tracked c"
    using reach link by blast
  show ?thesis
  proof (cases "\<not> prUp p \<or> qiIncarnation q \<noteq> prIncarnation p")
    case True
    then show ?thesis
      using sub p here by (simp add: submit_def)
  next
    case False
    then obtain n where n: "prNode p = Some n"
      using sub p by (auto simp: submit_def split: option.splits)
    show ?thesis
    proof (cases "AwaitingPersistence n")
      case True
      then have c': "c' = updateProc i (\<lambda>p. p\<lparr>prMailbox := prMailbox p @ [q]\<rparr>) c"
        using sub p False n by (simp add: submit_def)
      have "still (sent C) c c'"
        unfolding c' by (rule still_update) (use inp in \<open>auto simp: kept_def\<close>)
      then show ?thesis
        using reach still_linked [OF link] by blast
    next
      case free: False
      show ?thesis
      proof (cases "queuedInputIsCurrent p n q")
        case current: True
        let ?c = "traceCluster i ''protocol_input'' (inputAction (qiInput q)) (DetailInput (qiInput q)) c"
        let ?rest = "\<lambda>c1. case transitionTrace i n c1 of None \<Rightarrow> None
          | Some c2 \<Rightarrow> (case Option.bind (cuProcesses c2 i) prNode of None \<Rightarrow> None
             | Some after \<Rightarrow> map_option (\<lambda>c3. (c3, None)) (syncRoleTimers (role n) (role after) i c2))"
        have l: "linked ?c C"
          using still_linked [OF link] by simp
        have idle_node: "pending n = None"
          using free by (cases "pending n") (auto simp: AwaitingPersistence_def)
        have stepped: "tracked c1" if "stepNode env i n (qiInput q) ?c = Some (c1, e)" for c1 e
          by (rule stepNode_tracked [OF reach l _ _ n idle_node inp that]) (use p False in simp_all)
        have "andThen (stepNode env i n (qiInput q) ?c) ?rest = Some (c', err)"
          using sub p False n free current by (simp add: submit_def)
        then show ?thesis
        proof (cases rule: andThen_Some)
          case (1 e)
          then show ?thesis
            using stepped by blast
        next
          case (2 c1)
          then obtain c2 and after :: Node where "transitionTrace i n c1 = Some c2" "syncRoleTimers (role n) (role after) i c2 = Some c'"
            by (auto split: option.splits)
          then have "still S c1 c'" for S
            using still_trans [OF transitionTrace_still syncRoleTimers_still] by blast
          then show ?thesis
            using still_tracked [OF stepped [OF 2(1)]] by blast
        qed
      qed (use sub p n free here False in \<open>simp add: submit_def\<close>)
    qed
  qed
qed

lemma drainLoop_tracked:
  assumes "tracked c" and "drainLoop env fuel i c = Some c'"
  shows "tracked c'"
  using assms
proof (induction fuel arbitrary: c)
  case (Suc fuel)
  obtain p where p: "cuProcesses c i = Some p"
    using Suc.prems(2) by (auto split: option.splits)
  show ?case
  proof (cases "prUp p \<and> (\<exists>n. prNode p = Some n \<and> \<not> AwaitingPersistence n) \<and> prMailbox p \<noteq> []")
    case True
    then obtain n q rest where n: "prNode p = Some n" "\<not> AwaitingPersistence n" "prMailbox p = q # rest" "prUp p"
      by (auto simp: neq_Nil_conv)
    obtain C where C: "creach C" "linked c C"
      using Suc.prems(1) by (auto simp: tracked_def)
    let ?c = "updateProc i (\<lambda>p. p\<lparr>prMailbox := rest\<rparr>) c"
    have "still (sent C) c ?c"
      by (rule still_update) (use p n(3) in \<open>auto simp: kept_def\<close>)
    then have l: "linked ?c C"
      by (rule still_linked [OF C(2)])
    have q: "inputOk (sent C) (qiInput q)"
      using linked_process(4) [OF C(2) p, of q] n(3) by simp
    obtain c1 e where s: "submit env i q ?c = Some (c1, e)"
      using Suc.prems(2) p n by (auto split: option.splits)
    have t: "tracked c1"
      by (rule submit_tracked [OF C(1) l q s])
    show ?thesis
    proof (cases e)
      case None
      then show ?thesis
        using Suc.prems(2) p n s t Suc.IH by simp
    next
      case (Some err)
      then have "c' = failWith err c1"
        using Suc.prems(2) p n s by simp
      then show ?thesis
        using still_tracked [OF t] by simp
    qed
  next
    case False
    then have "c' = c"
      using Suc.prems(2) p by (auto split: option.splits if_splits list.splits)
    then show ?thesis
      using Suc.prems(1) by simp
  qed
qed simp

lemma drain_tracked: "tracked c \<Longrightarrow> drain env i c = Some c' \<Longrightarrow> tracked c'"
  by (auto simp: drain_def intro: drainLoop_tracked split: option.splits)

end
