(* ===== verification/DriverReach.thy ===== *)
theory DriverReach
  imports DriverLink
begin

text \<open>
  The rest of the link: crashes, restarts, storage events, timers, deliveries and the loops, and what a caller can
  do. Every state of the harness that a caller can reach is linked to a reachable cluster.
\<close>

section \<open>Crashes\<close>

text \<open>Node \<open>i\<close> goes down and none of its storage events stays on the queue.\<close>

lemma down_linked:
  assumes link: "linked c C" and h: "harnessRouter (cuRouter c')" and ps: "cuProcesses c' = (cuProcesses c)(i \<mapsto> p')"
    and p: "cuProcesses c i = Some p"
    and p': "\<not> prUp p'" "dsState (prStore p') = dsState (prStore p)" "set (prMailbox p') \<subseteq> set (prMailbox p)"
      "prPersistEvent p' = 0 \<or> prPersistAckEvent p' = 0"
    and act: "\<And>a act. pendingAction (simOf c') a = Some act \<Longrightarrow> pendingAction (simOf c) a = Some act \<and> owner act \<noteq> Some i"
  shows "linked c' (C\<lparr>live := (live C)(i := None), writes := (writes C)(i := None)\<rparr>)"
proof (rule linked_change [OF link h, of i])
  have "processLink C i (Some p)"
    using linkedD(2) [OF link, of i] p by simp
  then show "processLink (C\<lparr>live := (live C)(i := None), writes := (writes C)(i := None)\<rparr>) i (cuProcesses c' i)"
    using p' by (auto simp: processLink_def ps)
qed (use ps act in auto)

lemma linked_storage:
  assumes "linked c C" and "pendingAction (simOf c) a = Some act" and "owner act = Some i"
  obtains p where "cuProcesses c i = Some p" and "prUp p" and "prPersistEvent p = a \<or> prPersistAckEvent p = a"
    and "writes C i \<noteq> None" and "a \<noteq> 0"
proof -
  have "a \<noteq> 0"
    by (rule pending_positive [OF routerInv_sim [OF linked_router [OF assms(1)]] assms(2)])
  then show thesis
    using that linkedD(3) [OF assms(1,2)] assms(3) by (cases act rule: owner.cases) (auto simp: sameWrite_def)
qed

lemma Crash_tracked:
  assumes "tracked c" and "Crash env i c = Some (c', err)"
  shows "tracked c'"
proof -
  obtain C where C: "creach C" "linked c C"
    using assms(1) by (auto simp: tracked_def)
  consider "c' = c" | p where "cuProcesses c i = Some p" "prUp p"
    using assms(2) by (cases "cuProcesses c i") (auto simp: Crash_def split: if_splits)
  then show ?thesis
  proof cases
    case (2 p)
    obtain c1 where c1: "cancelProcessEvents i (updateProc i crashed c) = Some c1"
      and obs: "observed env (traceCluster i ''process_lifecycle'' ''crashed'' (DetailIncarnation (prIncarnation p + 1)) c1) = Some (c', err)"
      using assms(2) 2 by (auto simp: Crash_def split: option.splits)
    let ?q = "crashed p"
    obtain c2 where c2: "cancelEvents [prElectionEvent ?q, prHeartbeatEvent ?q, prPersistEvent ?q, prPersistAckEvent ?q]
        (updateProc i crashed c) = Some c2"
      and up: "c1 = updateProc i (\<lambda>p. p\<lparr>prElectionEvent := 0, prHeartbeatEvent := 0, prPersistEvent := 0, prPersistAckEvent := 0,
              prElectionGeneration := prElectionGeneration p + 1, prHeartbeatGeneration := prHeartbeatGeneration p + 1,
              prPersistGeneration := prPersistGeneration p + 1\<rparr>) c2"
      using c1 2(1) by (auto simp: cancelProcessEvents_def)
    have "harnessRouter (cuRouter (updateProc i crashed c))"
      using linkedD(1) [OF C(2)] by simp
    note cancel = cancelEvents_cases [OF this c2]
    have ev: "prPersistEvent ?q = prPersistEvent p" "prPersistAckEvent ?q = prPersistAckEvent p"
      by (simp_all add: crashed_def)
    have "linked c1 (C\<lparr>live := (live C)(i := None), writes := (writes C)(i := None)\<rparr>)"
    proof (rule down_linked [OF C(2) _ _ 2(1)])
      show "harnessRouter (cuRouter c1)"
        using cancel by (simp add: up)
      show "cuProcesses c1 = (cuProcesses c)(i \<mapsto> ?q\<lparr>prElectionEvent := 0, prHeartbeatEvent := 0, prPersistEvent := 0,
          prPersistAckEvent := 0, prElectionGeneration := prElectionGeneration ?q + 1,
          prHeartbeatGeneration := prHeartbeatGeneration ?q + 1, prPersistGeneration := prPersistGeneration ?q + 1\<rparr>)"
        using cancel 2(1) by (simp add: up)
      show "pendingAction (simOf c) a = Some act \<and> owner act \<noteq> Some i" if "pendingAction (simOf c1) a = Some act" for a act
      proof -
        have "pendingAction (simOf c2) a = Some act"
          using that by (simp add: up)
        then have a: "pendingAction (simOf c) a = Some act"
            "a \<in> {prPersistEvent p, prPersistAckEvent p} \<Longrightarrow> a = 0"
          using cancel ev by auto
        have "owner act \<noteq> Some i"
          using linked_storage [OF C(2) a(1), of i] a(2) 2(1) by (metis insert_iff option.inject)
        then show ?thesis
          using a(1) by simp
      qed
    qed (simp_all add: crashed_def)
    then have "tracked c1"
      using creach.step [OF C(1) cstep.crash] by blast
    then show ?thesis
      using still_tracked still_trans [OF still_trace(1) observed_still [OF obs]] by blast
  qed (use assms(1) in simp)
qed

section \<open>Starting and restarting\<close>

abbreviation down :: "NodeID \<Rightarrow> 's SimCluster \<Rightarrow> 's SimCluster" where
  "down i \<equiv> updateProc i (\<lambda>p. p\<lparr>prUp := False\<rparr>)"

text \<open>A node that is not live can be taken down, and one without a node can be taken for up.\<close>

lemma linked_down:
  assumes link: "linked c C" and live: "live C i = None" and reach: "creach C"
  shows "linked (down i c) C"
proof (cases "cuProcesses c i")
  case None
  then have "still (sent C) c (down i c)"
    by (intro still_update) simp
  then show ?thesis
    by (rule still_linked [OF link])
next
  case (Some p)
  have w: "writes C i = None"
    using clusterInvD(3) [OF clusterInv_reach [OF reach], of i] live by (cases "writes C i") auto
  show ?thesis
  proof (rule linked_change [OF link, of _ i])
    have "processLink C i (Some p)"
      using linkedD(2) [OF link, of i] Some by simp
    then show "processLink C i (cuProcesses (down i c) i)"
      using Some live by (simp add: processLink_def)
    show "pendingAction (simOf c) a = Some act \<and> owner act \<noteq> Some i \<or> actionLink C (cuProcesses (down i c)) a act"
      if "pendingAction (simOf (down i c)) a = Some act" for a act
      using that linked_storage [OF link, of a act i] w by auto
  qed (use linkedD(1) [OF link] in simp_all)
qed

lemma linked_up:
  assumes link: "linked (down i c) C" and "cuProcesses c i = Some p" and "prNode p = None"
  shows "linked c C"
proof (rule linked_change [OF link, of _ i])
  have "processLink C i (Some (p\<lparr>prUp := False\<rparr>))"
    using linkedD(2) [OF link, of i] assms(2) by simp
  then show "processLink C i (cuProcesses c i)"
    using assms(2,3) by (simp add: processLink_def)
  show "pendingAction (simOf (down i c)) a = Some act \<and> owner act \<noteq> Some i \<or> actionLink C (cuProcesses c) a act"
    if "pendingAction (simOf c) a = Some act" for a act
    using that linked_storage [OF link, of a act i] assms(2) by fastforce
qed (use linkedD(1) [OF link] in simp_all)

lemma start_tracked:
  assumes reach: "creach C" and link: "linked (down i c) C" and p: "cuProcesses c i = Some p" "prUp p"
    and st: "start env i c = Some (c', err)"
  shows "tracked (down i c')" and "err = None \<or> prNode p = None \<Longrightarrow> tracked c'"
    and "j \<noteq> i \<Longrightarrow> cuProcesses c j = Some q \<Longrightarrow> \<exists>q'. cuProcesses c' j = Some q' \<and> prUp q' = prUp q \<and> prNode q' = prNode q"
proof -
  have others: "\<exists>q'. cuProcesses c2 j = Some q' \<and> prUp q' = prUp q \<and> prNode q' = prNode q"
    if "rel_option (kept S) (cuProcesses c1 j) (cuProcesses c2 j)" "cuProcesses c1 j = Some q" for c1 c2 :: "'a SimCluster" and S q
    using kept_some [OF that] by (auto simp: kept_def)
  let ?recovered = "if hcApplication (cuConfig c) \<noteq> None
      then map_sum id (\<lambda>m. updateProc i (\<lambda>p. p\<lparr>prApplication := Some m\<rparr>) c) (recoverApplication env (prStore p)) else Inr c"
  have live: "live C i = None" and disk: "disk C i = dsState (prStore p)"
    using linked_process(1,2) [OF link, of i "p\<lparr>prUp := False\<rparr>"] p by simp_all
  consider (refused) err' where "err = Some err'" "still (sent C) (down i c) (down i c')"
      "\<exists>p'. cuProcesses c' i = Some p' \<and> prNode p' = prNode p"
    | (run) c1 n n1 effs where "New (nodeConfigFor i p c1) (dsState (prStore p)) = Some (Inr n)" "Start n = Some (n1, effs)"
        "processEffects env i effs (updateProc i (\<lambda>p. p\<lparr>prNode := Some n1\<rparr>) c1) = Some (c', err)"
        "still (sent C) (down i c) (down i c1)" "\<exists>p'. cuProcesses c1 i = Some p' \<and> prUp p' \<and> prPersistEvent p' = prPersistEvent p
          \<and> prPersistAckEvent p' = prPersistAckEvent p" "cuRouter c1 = cuRouter c" "cuProcesses c1 = cuProcesses (updateProc i (\<lambda>q. the (cuProcesses c1 i)) c)"
  proof (cases ?recovered)
    case (Inl e)
    then show thesis
      using st p refused [of e] by (simp add: start_def)
  next
    case (Inr c1)
    have c1: "c1 = c \<or> (\<exists>m. c1 = updateProc i (\<lambda>p. p\<lparr>prApplication := Some m\<rparr>) c)"
      using Inr by (cases "recoverApplication env (prStore p)") (auto split: if_splits)
    have frame: "still (sent C) (down i c) (down i c1)" "\<exists>p'. cuProcesses c1 i = Some p' \<and> prUp p' \<and> prNode p' = prNode p
        \<and> prPersistEvent p' = prPersistEvent p \<and> prPersistAckEvent p' = prPersistAckEvent p" "cuRouter c1 = cuRouter c"
        "cuProcesses c1 = cuProcesses (updateProc i (\<lambda>q. the (cuProcesses c1 i)) c)"
      using c1 p by (auto simp: still_def kept_def)
    have st': "(case New (nodeConfigFor i p c1) (dsState (prStore p)) of
                  None \<Rightarrow> None
                | Some (Inl err) \<Rightarrow> Some (c1, Some (ErrRaft err))
                | Some (Inr n) \<Rightarrow>
                    (case Start n of
                       None \<Rightarrow> None
                     | Some (n1, effs) \<Rightarrow> processEffects env i effs (updateProc i (\<lambda>p. p\<lparr>prNode := Some n1\<rparr>) c1))) = Some (c', err)"
      using st p Inr by (simp add: start_def)
    show thesis
    proof (cases "New (nodeConfigFor i p c1) (dsState (prStore p))")
      case (Some x)
      show thesis
      proof (cases x)
        case (Inl e)
        then show thesis
          using st' Some refused [of "ErrRaft e"] frame by auto
      next
        case (Inr n)
        then obtain n1 effs where "Start n = Some (n1, effs)"
          using st' Some by (auto split: option.splits)
        then show thesis
          using st' Some Inr run [of c1 n n1 effs] frame by auto
      qed
    qed (use st' in simp)
  qed
  then have "tracked (down i c') \<and> (err = None \<or> prNode p = None \<longrightarrow> tracked c')
    \<and> (j \<noteq> i \<and> cuProcesses c j = Some q \<longrightarrow> (\<exists>q'. cuProcesses c' j = Some q' \<and> prUp q' = prUp q \<and> prNode q' = prNode q))"
  proof cases
    case refused
    have l: "linked (down i c') C"
      by (rule still_linked [OF link refused(2)])
    have "rel_option (kept (sent C)) (cuProcesses (down i c) j) (cuProcesses (down i c') j)"
      using refused(2) linkedD(1) [OF link] by (simp add: still_def)
    then have "j \<noteq> i \<Longrightarrow> cuProcesses c j = Some q \<Longrightarrow> \<exists>q'. cuProcesses c' j = Some q' \<and> prUp q' = prUp q \<and> prNode q' = prNode q"
      using others [of _ "down i c" "down i c'"] by simp
    then show ?thesis
      using reach l refused(1,3) linked_up [OF l] by auto
  next
    case run
    let ?C = "C\<lparr>live := (live C)(i \<mapsto> n1), writes := (writes C)(i := None), sent := sent C \<union> sends (Inr effs)\<rparr>"
    let ?c = "updateProc i (\<lambda>p. p\<lparr>prNode := Some n1\<rparr>) c1"
    obtain p1 where p1: "cuProcesses c1 i = Some p1" "prUp p1"
      using run(5) by blast
    have reach': "creach ?C"
      by (rule creach.step [OF reach cstep.restart [OF live _ _ run(2)]]) (use run(1) disk in \<open>auto simp: nodeConfigFor_def\<close>)
    have w: "writes C i = None"
      using clusterInvD(3) [OF clusterInv_reach [OF reach], of i] live by (cases "writes C i") auto
    have l1: "linked (down i c1) C"
      by (rule still_linked [OF link run(4)])
    have calm': "calmNode n1"
      using New_fresh(6) [OF run(1)] Start_frame [OF run(2)] by (fastforce simp: calmNode_def)
    have l: "linked ?c ?C"
    proof (rule linked_change [OF l1, of _ i])
      have "processLink C i (Some (p1\<lparr>prUp := False\<rparr>))"
        using linkedD(2) [OF l1, of i] p1 by simp
      then show "processLink ?C i (cuProcesses ?c i)"
        using p1 calm' inputOk_mono [of "sent C" _ "sent C \<union> sends (Inr effs)"] by (auto simp: processLink_def)
      show "pendingAction (simOf (down i c1)) a = Some act \<and> owner act \<noteq> Some i \<or> actionLink ?C (cuProcesses ?c) a act"
        if "pendingAction (simOf ?c) a = Some act" for a act
        using that linked_storage [OF l1, of a act i] w by auto
    qed (use linkedD(1) [OF l1] in auto)
    have "still (sent ?C) ?c c'"
      by (rule processEffects_still [OF run(3)]) (use calm_Start [OF run(2)] sends_member in auto)
    then have l': "linked c' ?C"
      by (rule still_linked [OF l])
    obtain p' where p': "cuProcesses c' i = Some p'"
      using linked_process(1) linkedD(2) [OF l', of i] by (cases "cuProcesses c' i") (auto simp: processLink_def)
    have "linked (down i c') (?C\<lparr>live := (live ?C)(i := None), writes := (writes ?C)(i := None)\<rparr>)"
    proof (rule down_linked [OF l' _ _ p'])
      show "cuProcesses (down i c') = (cuProcesses c')(i \<mapsto> p'\<lparr>prUp := False\<rparr>)"
        using p' by simp
      show "pendingAction (simOf c') a = Some act \<and> owner act \<noteq> Some i" if "pendingAction (simOf (down i c')) a = Some act" for a act
        using that linked_storage [OF l', of a act i] by auto
    qed (use linkedD(1) [OF l'] linked_process(5) [OF l' p'] in simp_all)
    then have t: "tracked (down i c')"
      using creach.step [OF reach' cstep.crash] by blast
    have "\<exists>q'. cuProcesses c' j = Some q' \<and> prUp q' = prUp q \<and> prNode q' = prNode q" if "j \<noteq> i" "cuProcesses c j = Some q"
    proof -
      have "rel_option (kept (sent ?C)) (cuProcesses ?c j) (cuProcesses c' j)"
        using \<open>still (sent ?C) ?c c'\<close> linkedD(1) [OF l] by (simp add: still_def)
      moreover have "cuProcesses ?c j = Some q"
        using that fun_cong [OF run(7), of j] by simp
      ultimately show ?thesis
        by (rule others)
    qed
    then show ?thesis
      using t reach' l' by blast
  qed
  then show "tracked (down i c')" "err = None \<or> prNode p = None \<Longrightarrow> tracked c'"
      "j \<noteq> i \<Longrightarrow> cuProcesses c j = Some q \<Longrightarrow> \<exists>q'. cuProcesses c' j = Some q' \<and> prUp q' = prUp q \<and> prNode q' = prNode q"
    by blast+
qed

lemma Restart_tracked:
  assumes "tracked c" and "Restart env i c = Some (c', err)"
  shows "tracked c'"
proof -
  obtain C where C: "creach C" "linked c C"
    using assms(1) by (auto simp: tracked_def)
  consider "c' = c" | p where "cuProcesses c i = Some p" "\<not> prUp p"
    using assms(2) by (cases "cuProcesses c i") (auto simp: Restart_def split: if_splits)
  then show ?thesis
  proof cases
    case (2 p)
    let ?c = "updateProc i (\<lambda>p. p\<lparr>prUp := True, prMailbox := []\<rparr>) c"
    have "still (sent C) c (down i ?c)"
      using 2 by (auto simp: still_def kept_def)
    then have l: "linked (down i ?c) C"
      by (rule still_linked [OF C(2)])
    obtain c1 e where st: "start env i ?c = Some (c1, e)"
      using assms(2) 2 by (auto simp: Restart_def split: option.splits)
    have p: "cuProcesses ?c i = Some (p\<lparr>prUp := True, prMailbox := []\<rparr>)" "prUp (p\<lparr>prUp := True, prMailbox := []\<rparr>)"
      using 2 by simp_all
    note started = start_tracked [OF C(1) l p st]
    show ?thesis
    proof (cases e)
      case None
      then have "observed env (traceCluster i ''process_lifecycle'' ''restarted'' (DetailIncarnation (prIncarnation p)) c1) = Some (c', err)"
        using assms(2) 2 st by (simp add: Restart_def)
      then show ?thesis
        using started(2) None still_tracked still_trans [OF still_trace(1) observed_still] by blast
    next
      case (Some err')
      then have "c' = down i c1"
        using assms(2) 2 st by (simp add: Restart_def)
      then show ?thesis
        using started(1) by simp
    qed
  qed (use assms(1) in simp)
qed

section \<open>Events\<close>

lemma failOn_tracked:
  assumes "\<And>c1 err. r = Some (c1, err) \<Longrightarrow> tracked c1" and "failOn r = Some c'"
  shows "tracked c'"
proof -
  obtain c1 err where r: "r = Some (c1, err)"
    using assms(2) by (auto simp: failOn_def split: option.splits)
  have "still S c1 c'" for S
    using assms(2) r by (cases err) (auto simp: failOn_def)
  then show ?thesis
    using still_tracked [OF assms(1) [OF r]] by blast
qed

text \<open>After an event was taken off the queue, no other storage event of its node is left.\<close>

lemma popped_storage:
  assumes link: "linked c C" and pop: "pendingAction s = (pendingAction (simOf c))(a := None)"
    and p: "cuProcesses c i = Some p" and a: "prPersistEvent p = a \<or> prPersistAckEvent p = a" "a \<noteq> 0"
    and b: "pendingAction s b = Some act"
  shows "owner act \<noteq> Some i"
proof
  assume o: "owner act = Some i"
  have b': "pendingAction (simOf c) b = Some act" "b \<noteq> a"
    using b pop by (auto split: if_splits)
  show False
    using linked_storage [OF link b'(1) o] linked_process(5) [OF link p] p a b'(2) by (metis option.inject)
qed

lemma completeStorage_tracked:
  assumes reach: "creach C" and link: "linked c C" and link1: "linked c1 C" and same: "cuProcesses c1 = cuProcesses c"
    and pop: "pendingAction (simOf c1) = (pendingAction (simOf c))(a := None)"
    and act: "actionLink C (cuProcesses c) a (Foreign (StorageCompletion i inc gen st tok))" and a: "a \<noteq> 0"
    and run: "completeStorage env i inc gen st tok c1 = Some c'"
  shows "tracked c'"
proof -
  obtain p where p: "cuProcesses c i = Some p" "sameWrite inc gen p" "prPersistEvent p = a" and w: "writes C i = Some (tok, st)"
    using act by auto
  have ack0: "prPersistAckEvent p = 0"
    using linked_process(5) [OF link p(1)] p(3) a by simp
  have p1: "cuProcesses c1 i = Some p"
    using p(1) same by simp
  have noevents: "owner b \<noteq> Some i" if "pendingAction (simOf c1) x = Some b" for x b
    using popped_storage [OF link pop p(1)] p(3) a that by simp
  let ?C = "C\<lparr>disk := (disk C)(i := st)\<rparr>"
  let ?c2 = "traceCluster i ''persistence'' ''completed'' (DetailCompleted tok st)
      (updateProc i (\<lambda>p. p\<lparr>prPersistEvent := 0, prStore := (prStore p)\<lparr>dsState := st\<rparr>\<rparr>) c1)"
  have reach': "creach ?C"
    by (rule creach.step [OF reach cstep.flush [OF w]])
  have l2: "linked ?c2 ?C"
  proof (rule linked_change [OF link1, of _ i])
    have "processLink C i (Some p)"
      using linkedD(2) [OF link, of i] p(1) by simp
    then show "processLink ?C i (cuProcesses ?c2 i)"
      using p1 by (auto simp: processLink_def)
  qed (use linkedD(1) [OF link1] noevents in auto)
  show ?thesis
  proof (cases "prCrashAfterPersist p")
    case True
    let ?c3 = "updateProc i (\<lambda>p. p\<lparr>prCrashAfterPersist := False\<rparr>) ?c2"
    have "still (sent ?C) ?c2 ?c3"
      by (rule still_update) simp
    then have t: "tracked ?c3"
      using reach' still_linked [OF l2] by blast
    have crash: "failOn (Crash env i ?c3) = Some c'"
      using run p1 p(2) True by (simp add: completeStorage_def Let_def)
    show ?thesis
      by (rule failOn_tracked [OF _ crash]) (rule Crash_tracked [OF t])
  next
    case False
    obtain c3 res where s: "scheduleCallback env 0 ''persistence_ack'' (WireWrite i inc gen tok) (PersistenceAck i inc gen tok) ?c2 = (c3, res)"
      by fastforce
    show ?thesis
    proof (rule scheduleCallback_cases [OF linked_router [OF l2] s])
      fix e
      assume "res = Inl e" "c3 = ?c2"
      then have "c' = failWith e ?c2"
        using run p1 p(2) False s by (simp add: completeStorage_def Let_def)
      then show ?thesis
        using reach' still_linked [OF l2 still_trace(2)] by blast
    next
      fix b s'
      assume b: "res = Inr b" "c3 = withSim s' ?c2" "routerInv (cuRouter c3)" "b \<noteq> 0" "pendingAction (simOf ?c2) b = None"
        "pendingAction s' = (pendingAction (simOf ?c2))(b \<mapsto> Foreign (PersistenceAck i inc gen tok))"
      have c': "c' = updateProc i (\<lambda>p. p\<lparr>prPersistAckEvent := b\<rparr>) c3"
        using run p1 p(2) False s b(1) by (simp add: completeStorage_def Let_def)
      have p3: "cuProcesses c3 i = Some (p\<lparr>prPersistEvent := 0, prStore := (prStore p)\<lparr>dsState := st\<rparr>\<rparr>)"
        using p1 b(2) by simp
      have "linked c' ?C"
      proof (rule linked_change [OF l2, of _ i])
        show "harnessRouter (cuRouter c')"
          using linkedD(1) [OF l2] b(2,3) by (simp add: c' harnessRouter_def)
        have "processLink ?C i (Some (p\<lparr>prPersistEvent := 0, prStore := (prStore p)\<lparr>dsState := st\<rparr>\<rparr>))"
          using linkedD(2) [OF l2, of i] p1 by simp
        then show "processLink ?C i (cuProcesses c' i)"
          using p3 by (simp add: c' processLink_def)
        show "pendingAction (simOf ?c2) x = Some act \<and> owner act \<noteq> Some i \<or> actionLink ?C (cuProcesses c') x act"
          if "pendingAction (simOf c') x = Some act" for x act
        proof (cases "x = b")
          case True
          then have "act = Foreign (PersistenceAck i inc gen tok)"
            using that b(2,6) by (simp add: c')
          then show ?thesis
            using p3 True w p(2) by (simp add: c' sameWrite_def)
        next
          case False
          then show ?thesis
            using that b(2,6) noevents by (simp add: c')
        qed
      qed (use b(2) in \<open>simp_all add: c'\<close>)
      then show ?thesis
        using reach' by blast
    qed
  qed
qed

lemma acknowledgeStorage_tracked:
  assumes reach: "creach C" and link: "linked c C" and link1: "linked c1 C" and same: "cuProcesses c1 = cuProcesses c"
    and pop: "pendingAction (simOf c1) = (pendingAction (simOf c))(a := None)"
    and act: "actionLink C (cuProcesses c) a (Foreign (PersistenceAck i inc gen tok))" and a: "a \<noteq> 0"
    and run: "acknowledgeStorage env i inc gen tok c1 = Some c'"
  shows "tracked c'"
proof -
  obtain p where p: "cuProcesses c i = Some p" "sameWrite inc gen p" "prPersistAckEvent p = a"
      and w: "writes C i = Some (tok, disk C i)"
    using act by auto
  have p1: "cuProcesses c1 i = Some p"
    using p(1) same by simp
  have noevents: "owner b \<noteq> Some i" if "pendingAction (simOf c1) x = Some b" for x b
    using popped_storage [OF link pop p(1)] p(3) a that by simp
  let ?c2 = "updateProc i (\<lambda>p. p\<lparr>prPersistAckEvent := 0\<rparr>) c1"
  have l2: "linked ?c2 C"
  proof (rule linked_change [OF link1, of _ i])
    have "processLink C i (Some p)"
      using linkedD(2) [OF link, of i] p(1) by simp
    then show "processLink C i (cuProcesses ?c2 i)"
      using p1 by (auto simp: processLink_def)
  qed (use linkedD(1) [OF link1] noevents in auto)
  obtain n where n: "prNode p = Some n"
    using run p1 p(2) by (auto simp: acknowledgeStorage_def split: option.splits)
  obtain c3 e where step: "stepNode env i n (InputPersisted tok) ?c2 = Some (c3, e)"
    using run p1 p(2) n by (auto simp: acknowledgeStorage_def split: option.splits)
  have t: "tracked c3"
    by (rule ackNode_tracked [where p = "p\<lparr>prPersistAckEvent := 0\<rparr>", OF reach l2 _ _ _ w _ step]) (use p1 p(2) n noevents in \<open>auto simp: sameWrite_def\<close>)
  show ?thesis
  proof (cases e)
    case None
    then show ?thesis
      using run p1 p(2) n step drain_tracked [OF t] by (simp add: acknowledgeStorage_def)
  next
    case (Some err)
    then have "c' = failWith err c3"
      using run p1 p(2) n step by (simp add: acknowledgeStorage_def)
    then show ?thesis
      using still_tracked [OF t] by simp
  qed
qed

lemma fires_tracked:
  assumes reach: "creach C" and link: "linked c C"
  shows "fireElection env i inc gen c = Some c' \<Longrightarrow> tracked c'" and "fireHeartbeat env i inc gen c = Some c' \<Longrightarrow> tracked c'"
proof -
  have here: "tracked c"
    using reach link by blast
  have sub: "tracked c2" if "failOn (submit env i q (updateProc i f c)) = Some c2" and "\<And>p S. kept S p (f p)"
      and "qiInput q = InputElectionTimeout \<or> qiInput q = InputHeartbeatTimeout" for q f c2
  proof (rule failOn_tracked [OF _ that(1)])
    fix c1 err
    assume s: "submit env i q (updateProc i f c) = Some (c1, err)"
    have l: "linked (updateProc i f c) C"
      by (rule still_linked [OF link still_update]) (rule that(2))
    show "tracked c1"
      by (rule submit_tracked [OF reach l _ s]) (use that(3) in \<open>auto simp: inputOk_def\<close>)
  qed
  show "tracked c'" if "fireElection env i inc gen c = Some c'"
    using that here sub unfolding fireElection_def by (auto split: option.splits if_splits)
  show "tracked c'" if "fireHeartbeat env i inc gen c = Some c'"
    using that here sub unfolding fireHeartbeat_def by (auto split: option.splits if_splits)
qed

lemma receive_tracked:
  assumes reach: "creach C" and link: "linked c C" and m: "nvMessage (pkMessage packet) \<in> sent C"
    and run: "receive env i packet c = Some c'"
  shows "tracked c'"
proof -
  have here: "tracked c"
    using reach link by blast
  let ?msg = "nvMessage (pkMessage packet)"
  let ?q = "\<lambda>p. plainInput (InputMessage ?msg) (prIncarnation p)"
  consider "\<forall>S. still S c c'" | p :: process where "failOn (submit env i (?q p) c) = Some c'"
  proof (cases "nvSenderIncarnation (pkMessage packet) = 0 \<or> nvSendSequence (pkMessage packet) = 0 \<or> pkFrom packet \<noteq> mFrom ?msg
      \<or> pkTo packet \<noteq> mTo ?msg \<or> mTo ?msg \<noteq> i")
    case True
    then have "c' = failWith ErrTransportIdentity c"
      using run by (simp add: receive_def)
    then show thesis
      using that(1) by simp
  next
    case False
    then obtain p where p: "cuProcesses c i = Some p"
      using run by (auto simp: receive_def Let_def split: option.splits)
    show thesis
    proof (cases "prUp p")
      case True
      then have "failOn (submit env i (?q p) c) = Some c'"
        using run p False by (auto simp: receive_def failOn_def Let_def split: option.splits)
      then show thesis
        by (rule that(2))
    next
      case down: False
      then have "c' = traceCluster i ''protocol_drop'' ''process_down'' (DetailMessage ?msg) c"
        using run p False by (simp add: receive_def Let_def)
      then show thesis
        using that(1) by simp
    qed
  qed
  then show ?thesis
  proof cases
    case 1
    then show ?thesis
      using still_tracked [OF here] by blast
  next
    case (2 p)
    show ?thesis
    proof (rule failOn_tracked [OF _ 2])
      show "tracked c1" if "submit env i (?q p) c = Some (c1, err)" for c1 err
        by (rule submit_tracked [OF reach link _ that]) (use m in \<open>simp add: inputOk_def plainInput_def\<close>)
    qed
  qed
qed

lemma runEvent_tracked:
  assumes reach: "creach C" and link: "linked c C" and pop: "simStep (\<lambda>_ s. s) (simOf c) = Some (s, True)"
    and act: "nextAction c = Some act" and run: "runEvent env act (withSim s c) = Some c'"
  shows "tracked c'"
proof -
  let ?c = "withSim s c"
  have l: "linked ?c C"
    by (rule still_linked [OF link settled_still [OF pop]])
  obtain a where a: "pendingAction (simOf c) a = Some act" "pendingAction s = (pendingAction (simOf c))(a := None)"
    by (rule simStep_cases [OF linked_router [OF link] pop]) (use act in simp)
  have a0: "a \<noteq> 0"
    by (rule pending_positive [OF routerInv_sim [OF linked_router [OF link]] a(1)])
  have pop': "pendingAction (simOf ?c) = (pendingAction (simOf c))(a := None)"
    using a(2) by simp
  note ok = linkedD(3) [OF link a(1)]
  have here: "tracked ?c"
    using reach l by blast
  show ?thesis
  proof (cases act)
    case (Deliver p t)
    let ?c1 = "?c\<lparr>cuRouter := deliver (\<lambda>_ _ r. r) p t (cuRouter ?c)\<rparr>"
    have "still (sent C) ?c ?c1"
      by (rule still_router_change) (simp_all add: deliver_frame)
    then have l1: "linked ?c1 C"
      by (rule still_linked [OF l])
    show ?thesis
    proof (cases "handlerOf p (cuRouter ?c)")
      case None
      then have "c' = ?c1"
        using run Deliver by (simp add: runEvent_def runDelivery_def)
      then show ?thesis
        using reach l1 by blast
    next
      case (Some i)
      then have received: "receive env i p ?c1 = Some c'"
        using run Deliver by (simp add: runEvent_def runDelivery_def)
      show ?thesis
        by (rule receive_tracked [OF reach l1 _ received]) (use ok Deliver in simp)
    qed
  next
    case (Foreign cb)
    then have cb: "runCallback env cb ?c = Some c'"
      using run by (simp add: runEvent_def)
    show ?thesis
    proof (cases cb)
      case (StorageCompletion i inc gen st tok)
      then show ?thesis
        using completeStorage_tracked [OF reach link l _ pop' _ a0] cb ok Foreign by (simp add: runCallback_def)
    next
      case (PersistenceAck i inc gen tok)
      then show ?thesis
        using acknowledgeStorage_tracked [OF reach link l _ pop' _ a0] cb ok Foreign by (simp add: runCallback_def)
    next
      case (ElectionFires i inc gen)
      then show ?thesis
        using fires_tracked(1) [OF reach l] cb by (simp add: runCallback_def)
    next
      case (HeartbeatFires i inc gen)
      then show ?thesis
        using fires_tracked(2) [OF reach l] cb by (simp add: runCallback_def)
    next
      case (ScheduledCrash i)
      then have "failOn (Crash env i ?c) = Some c'"
        using cb by (simp add: runCallback_def)
      then show ?thesis
        by (rule failOn_tracked [rotated]) (rule Crash_tracked [OF here])
    next
      case (ScheduledRestart i)
      then have "failOn (Restart env i ?c) = Some c'"
        using cb by (simp add: runCallback_def)
      then show ?thesis
        by (rule failOn_tracked [rotated]) (rule Restart_tracked [OF here])
    qed
  qed
qed

section \<open>Runs\<close>

lemma observe_still: "observe env c = Some c' \<Longrightarrow> still S c c'"
  using observe_frame [of env c] by (auto intro: still_same)

lemma clusterStep_tracked:
  assumes "tracked c" and "clusterStep env c = Some (c', more_events, err)"
  shows "tracked c'"
proof -
  obtain C where C: "creach C" "linked c C"
    using assms(1) by (auto simp: tracked_def)
  consider "c' = c" | s act c1 where "simStep (\<lambda>_ s. s) (simOf c) = Some (s, True)" "nextAction c = Some act"
      "runEvent env act (withSim s c) = Some c1" "observe env c1 = Some c'"
    using assms(2) unfolding clusterStep_def simulatorStep_def by (auto split: if_splits option.splits bool.splits)
  then show ?thesis
  proof cases
    case 2
    show ?thesis
      by (rule still_tracked [OF runEvent_tracked [OF C 2(1,2,3)] observe_still [OF 2(4)]])
  qed (use assms(1) in simp)
qed

lemma runStepsLoop_tracked: "tracked c \<Longrightarrow> runStepsLoop env fuel k c = Some (c', r) \<Longrightarrow> tracked c'"
proof (induction fuel arbitrary: c k)
  case (Suc fuel)
  obtain c1 moved err where step: "clusterStep env c = Some (c1, moved, err)"
    using Suc.prems(2) by (auto split: option.splits)
  note t = clusterStep_tracked [OF Suc.prems(1) step]
  show ?case
    using Suc.prems(2) step t Suc.IH [OF t] by (auto split: if_splits)
qed simp

text \<open>Whether the queue holds nothing that is due by \<open>stop\<close>.\<close>

definition quietUntil :: "int \<Rightarrow> 's SimCluster \<Rightarrow> bool" where
  "quietUntil stop c \<longleftrightarrow> (case NextEventTime (simOf c) of (t, more_events) \<Rightarrow> \<not> more_events \<or> stop < t)"

lemma untilLoop_tracked:
  assumes "tracked c" and "untilLoop env stop k c = Some (c', k', err, drained)"
  shows "tracked c'" and "drained \<Longrightarrow> quietUntil stop c'"
proof -
  let ?P = "\<lambda>env stop k c r. tracked c \<longrightarrow> (case r of (c', k', err, drained) \<Rightarrow> tracked c' \<and> (drained \<longrightarrow> quietUntil stop c'))"
  have "?P env stop k c (c', k', err, drained)"
  proof (rule untilLoop.raw_induct [where P = ?P, OF _ assms(2)])
    fix loop env stop k c r
    assume ih: "\<And>env stop k c r. loop env stop k c = Some r \<Longrightarrow> ?P env stop k c r"
      and body: "(case NextEventTime (simOf c) of (next_at, pending_event) \<Rightarrow>
        if \<not> pending_event \<or> stop < next_at then Some (c, k, None, True)
        else Option.bind (clusterStep env c) (\<lambda>(c1, moved_on, err).
          if err \<noteq> None \<or> \<not> moved_on then Some (c1, k, err, False) else loop env stop (k + 1) c1)) = Some r"
    show "?P env stop k c r"
    proof
      assume here: "tracked c"
      show "case r of (c', k', err, drained) \<Rightarrow> tracked c' \<and> (drained \<longrightarrow> quietUntil stop c')"
      proof (cases "quietUntil stop c")
        case True
        then show ?thesis
          using body here by (auto simp: quietUntil_def split: prod.splits)
      next
        case False
        then obtain c1 moved e where step: "clusterStep env c = Some (c1, moved, e)"
            and rest: "(if e \<noteq> None \<or> \<not> moved then Some (c1, k, e, False) else loop env stop (k + 1) c1) = Some r"
          using body by (auto simp: bind_eq_Some_conv quietUntil_def split: prod.splits)
        note t = clusterStep_tracked [OF here step]
        show ?thesis
        proof (cases "e \<noteq> None \<or> \<not> moved")
          case True
          then show ?thesis
            using rest t by auto
        next
          case False
          then have "loop env stop (k + 1) c1 = Some r"
            using rest by (simp only: if_False)
          then show ?thesis
            using ih t by blast
        qed
      qed
    qed
  qed
  then show "tracked c'" "drained \<Longrightarrow> quietUntil stop c'"
    using assms(1) by simp_all
qed

lemma clusterRunUntil_tracked:
  assumes "tracked c" and "clusterRunUntil env stop c = Some (c', k, err)"
  shows "tracked c'"
proof -
  consider "c' = c" | e where "stop < now (simOf c)" "settleClock stop c = Some (c', e)"
    | e where "untilLoop env stop 0 c = Some (c', k, e, False)"
    | c1 e e' where "untilLoop env stop 0 c = Some (c1, k, e, True)" "settleClock stop c1 = Some (c', e')"
    using assms(2) unfolding clusterRunUntil_def by (auto split: if_splits option.splits)
  then show ?thesis
  proof cases
    case (2 e)
    show ?thesis
      by (rule still_tracked [OF assms(1) settleClock_still(1) [OF 2(2)]]) (use 2(1) in simp)
  next
    case (3 e)
    then show ?thesis
      using untilLoop_tracked [OF assms(1)] by blast
  next
    case (4 c1 e e')
    note t = untilLoop_tracked [OF assms(1) 4(1)]
    obtain t more_events where "NextEventTime (simOf c1) = (t, more_events) \<and> (\<not> more_events \<or> stop < t)"
      using t(2) by (auto simp: quietUntil_def)
    then show ?thesis
      using still_tracked [OF t(1)] settleClock_still(1) [OF 4(2)] by blast
  qed (use assms(1) in simp)
qed

end
