(* ===== verification/DriverProps.thy ===== *)
theory DriverProps
  imports DriverReach
begin

text \<open>
  The properties of the cluster harness. \<open>hreach\<close> is every state that a caller can bring a harness to by its
  exported operations; each of them refines a reachable cluster, which gives Election Safety for the harness itself.
\<close>

section \<open>Commands\<close>

lemma submitPlain_tracked:
  assumes "tracked c" and "submitPlain env i p inp c = Some (c', err)" and "\<And>S. inputOk S inp"
  shows "tracked c'"
proof -
  obtain C where C: "creach C" "linked c C"
    using assms(1) by (auto simp: tracked_def)
  have s: "tracked c1" if "submit env i (plainInput inp (prIncarnation p)) c = Some (c1, e)" for c1 e
    by (rule submit_tracked [OF C _ that]) (simp add: plainInput_def assms(3))
  from assms(2) have "andThen (submit env i (plainInput inp (prIncarnation p)) c) (observed env) = Some (c', err)"
    by (simp add: submitPlain_def)
  then show ?thesis
  proof (cases rule: andThen_Some)
    case (1 e)
    then show ?thesis
      using s by blast
  next
    case (2 c1)
    show ?thesis
      by (rule still_tracked [OF s [OF 2(1)] observed_still [OF 2(2)]])
  qed
qed

text \<open>A command that asks a process for a plain input, or is refused.\<close>

definition commands :: "'s SimCluster \<Rightarrow> 's SimCluster \<Rightarrow> 's env \<Rightarrow> bool" where
  "commands c c' env \<longleftrightarrow> c' = c \<or> (\<exists>i p inp err. (\<forall>S. inputOk S inp) \<and> submitPlain env i p inp c = Some (c', err))"

lemma commands_tracked: "tracked c \<Longrightarrow> commands c c' env \<Longrightarrow> tracked c'"
  unfolding commands_def using submitPlain_tracked by blast

lemma plain_inputs [simp]:
  "inputOk S (InputProposal d)" "inputOk S (InputSnapshot k d)" "inputOk S (InputBeginMembership vs ls)" "inputOk S InputFinalizeMembership"
  by (simp_all add: inputOk_def)

lemma atLeader_commands:
  assumes "atLeader i c f = Some (c', err)" and "\<And>p err. f p = Some (c', err) \<Longrightarrow> commands c c' env"
  shows "commands c c' env"
  using assms by (auto simp: atLeader_def commands_def split: option.splits if_splits)

lemma throughLeader_commands:
  assumes "throughLeader c f = Some (c', err)" and "\<And>i err. f i = Some (c', err) \<Longrightarrow> commands c c' env"
  shows "commands c c' env"
  using assms by (auto simp: throughLeader_def commands_def split: option.splits if_splits)

lemma submitPlain_commands: "submitPlain env i p inp c = Some (c', err) \<Longrightarrow> (\<And>S. inputOk S inp) \<Longrightarrow> commands c c' env"
  unfolding commands_def by blast

lemma ProposeTo_commands:
  assumes "ProposeTo env i data c = Some (c', err)"
  shows "commands c c' env"
  using assms unfolding ProposeTo_def
proof (rule atLeader_commands)
  fix p err
  assume "(case (if hcApplication (cuConfig c) \<noteq> None then map_sum id (\<lambda>_. ()) (DecodeCommand data) else Inr ()) of
      Inl err \<Rightarrow> Some (c, Some (ErrPortable err)) | Inr _ \<Rightarrow> submitPlain env i p (InputProposal data) c) = Some (c', err)"
  then have "c' = c \<or> submitPlain env i p (InputProposal data) c = Some (c', err)"
    by (auto split: sum.splits)
  moreover have "submitPlain env i p (InputProposal data) c = Some (c', err) \<Longrightarrow> commands c c' env"
    by (erule submitPlain_commands) simp
  ultimately show "commands c c' env"
    by (auto simp: commands_def)
qed

lemma membership_commands:
  "BeginMembershipChangeTo env i vs ls c = Some (c', err) \<Longrightarrow> commands c c' env"
  "FinalizeMembershipChangeTo env i c = Some (c', err) \<Longrightarrow> commands c c' env"
  unfolding BeginMembershipChangeTo_def FinalizeMembershipChangeTo_def
  by (erule atLeader_commands, erule submitPlain_commands, simp)+

lemma leader_commands:
  "Propose env data c = Some (c', err) \<Longrightarrow> commands c c' env"
  "BeginMembershipChange env vs ls c = Some (c', err) \<Longrightarrow> commands c c' env"
  "FinalizeMembershipChange env c = Some (c', err) \<Longrightarrow> commands c c' env"
  unfolding Propose_def BeginMembershipChange_def FinalizeMembershipChange_def
  by (erule throughLeader_commands, erule ProposeTo_commands)
    (erule throughLeader_commands, erule membership_commands)+

lemma snapshot_commands:
  "takeClusterSnapshot env i data c = Some (c', err) \<Longrightarrow> commands c c' env"
  "SnapshotApplication env i c = Some (c', err) \<Longrightarrow> commands c c' env"
proof -
  have sp: "commands c c' env" if "snapshotProcess env i data c = Some (c', err)" for data err
    using that submitPlain_commands [of env i _ "InputSnapshot _ data" c c' err]
    by (auto simp: snapshotProcess_def commands_def split: option.splits if_splits)
  show "takeClusterSnapshot env i data c = Some (c', err) \<Longrightarrow> commands c c' env"
    using sp by (auto simp: takeClusterSnapshot_def commands_def split: if_splits)
  show "SnapshotApplication env i c = Some (c', err) \<Longrightarrow> commands c c' env"
    using sp by (auto simp: SnapshotApplication_def commands_def split: option.splits if_splits sum.splits)
qed

section \<open>Construction\<close>

lemma membersDistinct_distinct:
  assumes "sorted ms" and "membersDistinct previous ms" and "\<And>m. previous = Some m \<Longrightarrow> \<forall>x\<in>set ms. m \<le> x"
  shows "distinct ms \<and> (\<forall>m. previous = Some m \<longrightarrow> m \<notin> set ms)"
  using assms
proof (induction ms arbitrary: previous)
  case (Cons m ms)
  have ih: "distinct ms \<and> m \<notin> set ms"
    using Cons.IH [of "Some m"] Cons.prems by (auto split: if_splits)
  have "p \<notin> set (m # ms)" if "previous = Some p" for p
    using Cons.prems that by (fastforce split: if_splits)
  then show ?case
    using ih by auto
qed simp

lemma validateHarness_distinct: "validateHarness config = None \<Longrightarrow> distinct (sort (hcMembers config))"
  using membersDistinct_distinct [of "sort (hcMembers config)" None] by (auto simp: validateHarness_def Let_def split: if_splits)

definition allFresh :: "(NodeID \<Rightarrow> process option) \<Rightarrow> bool" where
  "allFresh ps \<longleftrightarrow> (\<forall>i p. ps i = Some p \<longrightarrow> (\<exists>rng app. p = newProcess rng app))"

lemma makeProcesses_fresh: "allFresh ps \<Longrightarrow> allFresh (makeProcesses env app is rng ps)"
proof (induction "is" arbitrary: rng ps)
  case (Cons i "is")
  obtain rng1 random where s: "Split rng = (rng1, random)"
    by fastforce
  have "allFresh (ps(i \<mapsto> newProcess random (if app then Some (newMachine (enSha env)) else None)))"
    using Cons.prems by (auto simp: allFresh_def)
  then show ?case
    using Cons.IH s by (auto simp del: fun_upd_apply)
qed simp

lemma makeProcesses_dom: "dom (makeProcesses env app is rng ps) = set is \<union> dom ps"
proof (induction "is" arbitrary: rng ps)
  case (Cons i "is")
  obtain rng1 random where "Split rng = (rng1, random)"
    by fastforce
  then show ?case
    using Cons.IH by (auto simp del: fun_upd_apply)
qed simp

lemma registerMembers_frame:
  assumes "registerMembers is c = Inr c'"
  shows "harnessRouter (cuRouter c) \<Longrightarrow> harnessRouter (cuRouter c')" and "cuProcesses c' = cuProcesses c"
    and "cuMembers c' = cuMembers c" and "simOf c' = simOf c"
proof -
  have "(harnessRouter (cuRouter c) \<longrightarrow> harnessRouter (cuRouter c')) \<and> cuProcesses c' = cuProcesses c \<and> cuMembers c' = cuMembers c
      \<and> simOf c' = simOf c"
    using assms
  proof (induction "is" arbitrary: c)
    case (Cons i "is")
    obtain r where r: "Register i (Some i) (cuRouter c) = (r, None)" "registerMembers is (c\<lparr>cuRouter := r\<rparr>) = Inr c'"
      using Cons.prems by (auto split: prod.splits option.splits)
    have "rtSim r = simOf c \<and> (harnessRouter (cuRouter c) \<longrightarrow> harnessRouter r)"
      using r(1) by (auto simp: Register_def harnessRouter_def routerInv_def routerTrace_def update_conv split: if_splits)
    then show ?case
      using Cons.IH [OF r(2)] by simp
  qed simp
  then show "harnessRouter (cuRouter c) \<Longrightarrow> harnessRouter (cuRouter c')" "cuProcesses c' = cuProcesses c"
      "cuMembers c' = cuMembers c" "simOf c' = simOf c"
    by simp_all
qed

text \<open>A new harness: no node has been started, the stores are empty, the queue holds nothing.\<close>

lemma NewPaused_fresh:
  assumes "NewPaused env config = Inr c" and "MaxLatency (hcNetwork config) \<le> MaxInt64"
  shows "harnessRouter (cuRouter c)" and "allFresh (cuProcesses c)" and "pendingAction (simOf c) a = None"
    and "distinct (cuMembers c)" and "set (cuMembers c) = dom (cuProcesses c)"
proof -
  have valid: "validateHarness config = None"
    using assms(1) by (auto simp: NewPaused_def split: option.splits)
  let ?ms = "sort (hcMembers config)"
  let ?cfg = "config\<lparr>hcMembers := ?ms\<rparr>"
  let ?sim = "if hcTrace ?cfg then newSimulator\<lparr>trace := Some []\<rparr> else newSimulator :: (Envelope, callback) action Simulator"
  obtain rng1 rng2 where "Split (if hcTrace ?cfg \<and> hcDecider ?cfg = None then SetTraceSink True ''cluster'' (NewRand (hcSeed ?cfg))
      else NewRand (hcSeed ?cfg)) = (rng1, rng2)"
    by fastforce
  then have new: "(case NewRouter (Some ?sim) (Some rng2) (hcNetwork config) (Some cloneEnvelope) of
      Inl err \<Rightarrow> Inl (ErrNetwork err)
    | Inr r \<Rightarrow> registerMembers ?ms
        \<lparr>cuConfig = ?cfg, cuMembers = ?ms, cuRouter = configuredRouter env ?cfg r,
         cuProcesses = makeProcesses env (hcApplication ?cfg \<noteq> None) ?ms rng1 (\<lambda>_. None),
         cuChecker = NewWithMembership ?ms (initialRoles ?cfg ?ms), cuBootstrapped = False,
         cuViolations = [], cuErr = None, cuTrace = (if hcTrace ?cfg then Some [] else None)\<rparr>) = Inr c"
    using assms(1) valid unfolding NewPaused_def Let_def by simp
  then obtain r :: "(Envelope, callback, NodeID, 'a) Router" where r: "NewRouter (Some ?sim) (Some rng2) (hcNetwork config) (Some cloneEnvelope) = Inr r"
    by (cases "NewRouter (Some ?sim) (Some rng2) (hcNetwork config) (Some cloneEnvelope) :: net_error + (Envelope, callback, NodeID, 'a) Router")
      simp_all
  define c0 where "c0 = \<lparr>cuConfig = ?cfg, cuMembers = ?ms, cuRouter = configuredRouter env ?cfg r,
         cuProcesses = makeProcesses env (hcApplication ?cfg \<noteq> None) ?ms rng1 (\<lambda>_. None),
         cuChecker = NewWithMembership ?ms (initialRoles ?cfg ?ms), cuBootstrapped = False,
         cuViolations = [], cuErr = None, cuTrace = (if hcTrace ?cfg then Some [] else None)\<rparr>"
  have c0: "cuRouter c0 = configuredRouter env ?cfg r" "cuMembers c0 = ?ms"
      "cuProcesses c0 = makeProcesses env (hcApplication ?cfg \<noteq> None) ?ms rng1 (\<lambda>_. None)"
    by (simp_all add: c0_def)
  have reg: "registerMembers ?ms c0 = Inr c"
    using new unfolding r c0_def by simp
  note frame = registerMembers_frame [OF reg]
  have inv: "simInv ?sim"
    by (simp add: simInv_def newSimulator_def emptyHeap_def heapInv_def indexed_def keys_def heapOrdered_def)
  have sim: "rtSim r = ?sim" "rtLinks r = []" "rtHandlers r = []" "rtClone r = Some cloneEnvelope" "linkOk (rtDefaultLink r)"
    using r assms(2) by (auto simp: NewRouter_def linkOk_def split: option.splits)
  have slots: "slots (queue ?sim) = []"
    by (simp add: newSimulator_def emptyHeap_def)
  have conf: "rtSim (configuredRouter env ?cfg r) = rtSim r" "rtLinks (configuredRouter env ?cfg r) = rtLinks r"
      "rtHandlers (configuredRouter env ?cfg r) = rtHandlers r" "rtClone (configuredRouter env ?cfg r) = rtClone r"
      "rtDefaultLink (configuredRouter env ?cfg r) = rtDefaultLink r"
    by (simp_all add: configuredRouter_def Let_def routerSetTraceSink_def SetDecisionSource_def SetPacketEventTagger_def)
  have "harnessRouter (cuRouter c0)"
    using inv slots sim unfolding c0(1) harnessRouter_def routerInv_def conf timely_def by simp
  then show "harnessRouter (cuRouter c)"
    by (rule frame(1))
  show "allFresh (cuProcesses c)"
    unfolding frame(2) c0(3) by (rule makeProcesses_fresh) (simp add: allFresh_def)
  show "pendingAction (simOf c) a = None"
    using slots sim(1) unfolding frame(4) c0(1) conf(1) pendingAction_def by simp
  show "distinct (cuMembers c)"
    using validateHarness_distinct [OF valid] by (simp add: frame(3) c0(2))
  show "set (cuMembers c) = dom (cuProcesses c)"
    unfolding frame(2,3) c0(2,3) makeProcesses_dom by simp
qed

lemma NewPaused_tracked:
  assumes "NewPaused env config = Inr c" and "MaxLatency (hcNetwork config) \<le> MaxInt64"
  shows "tracked c"
proof -
  note f = NewPaused_fresh [OF assms]
  let ?C = "\<lparr>live = (\<lambda>_. None), disk = (\<lambda>i. case cuProcesses c i of None \<Rightarrow> zeroState | Some p \<Rightarrow> dsState (prStore p)),
      writes = (\<lambda>_. None), sent = {}\<rparr>"
  have "creach ?C"
    by (rule creach.start) (simp add: cinit_def)
  moreover have "linked c ?C"
  proof (rule linkedI [OF f(1)])
    show "processLink ?C i (cuProcesses c i)" for i
    proof (cases "cuProcesses c i")
      case (Some p)
      then obtain rng app where "p = newProcess rng app"
        using f(2) unfolding allFresh_def by blast
      then show ?thesis
        using Some by (simp add: processLink_def newProcess_def)
    qed (simp add: processLink_def)
  qed (simp add: f(3))
  ultimately show ?thesis
    by blast
qed

definition untouched :: "'s SimCluster \<Rightarrow> NodeID \<Rightarrow> bool" where
  "untouched c i \<longleftrightarrow> (\<exists>p. cuProcesses c i = Some p \<and> prUp p \<and> prNode p = None)"

lemma startAll_tracked:
  assumes "tracked c" and "distinct is" and "\<forall>i\<in>set is. untouched c i" and "startAll env is c = Some (c', err)"
  shows "tracked c'"
  using assms
proof (induction "is" arbitrary: c)
  case (Cons i "is")
  obtain p where p: "cuProcesses c i = Some p" "prUp p" "prNode p = None"
    using Cons.prems(3) by (auto simp: untouched_def)
  obtain C where C: "creach C" "linked c C"
    using Cons.prems(1) by (auto simp: tracked_def)
  have "live C i = None"
    using linked_process(1) [OF C(2) p(1)] p(3) by simp
  note down = linked_down [OF C(2) this C(1)]
  from Cons.prems(4) have "andThen (start env i c) (startAll env is) = Some (c', err)"
    by simp
  then show ?case
  proof (cases rule: andThen_Some)
    case (1 e)
    show ?thesis
      by (rule start_tracked(2) [OF C(1) down p(1,2) 1(1)]) (use p(3) in simp)
  next
    case (2 c1)
    note st = start_tracked [OF C(1) down p(1,2) 2(1)]
    have "tracked c1"
      by (rule st(2)) simp
    moreover have "\<forall>j\<in>set is. untouched c1 j"
    proof
      fix j
      assume j: "j \<in> set is"
      then obtain q where q: "cuProcesses c j = Some q" "prUp q" "prNode q = None" and "j \<noteq> i"
        using Cons.prems(2,3) by (auto simp: untouched_def)
      then show "untouched c1 j"
        using st(3) [of j q] by (auto simp: untouched_def)
    qed
    ultimately show ?thesis
      using Cons.IH [OF _ _ _ 2(2)] Cons.prems(2) by simp
  qed
qed simp

lemma Bootstrap_tracked:
  assumes new: "NewPaused env config = Inr c" "MaxLatency (hcNetwork config) \<le> MaxInt64" and boot: "Bootstrap env c = Some (c', err)"
  shows "tracked c'"
proof -
  note f = NewPaused_fresh [OF new]
  have here: "tracked c"
    by (rule NewPaused_tracked [OF new])
  have "\<forall>i\<in>set (cuMembers c). untouched c i"
    using f(2) unfolding f(5) by (fastforce simp: untouched_def allFresh_def newProcess_def)
  then have started: "tracked c1" if "startAll env (cuMembers c) c = Some (c1, e)" for c1 e
    using startAll_tracked [OF here f(4) _ that] by blast
  show ?thesis
  proof (cases "cuBootstrapped c")
    case True
    then show ?thesis
      using boot here by (simp add: Bootstrap_def)
  next
    case False
    then have "andThen (startAll env (cuMembers c) c) (\<lambda>c1. observed env (c1\<lparr>cuBootstrapped := True\<rparr>)) = Some (c', err)"
      using boot by (simp add: Bootstrap_def)
    then show ?thesis
    proof (cases rule: andThen_Some)
      case (1 e)
      then show ?thesis
        using started by blast
    next
      case (2 c1)
      have "still S c1 c'" for S
        by (rule still_trans [OF still_same observed_still [OF 2(2)]]) simp_all
      then show ?thesis
        using still_tracked [OF started [OF 2(1)]] by blast
    qed
  qed
qed

section \<open>Reachable harnesses\<close>

text \<open>One use of an exported operation that changes the harness. \<open>None\<close>, a panic or a run without end, is no use.\<close>

inductive harnessOp :: "'s env \<Rightarrow> 's SimCluster \<Rightarrow> 's SimCluster \<Rightarrow> bool" for env where
  step: "clusterStep env c = Some (c', b, err) \<Longrightarrow> harnessOp env c c'"
| run_steps: "clusterRunSteps env limit c = Some (c', k, err) \<Longrightarrow> harnessOp env c c'"
| run_until: "clusterRunUntil env stop c = Some (c', k, err) \<Longrightarrow> harnessOp env c c'"
| crash: "Crash env i c = Some (c', err) \<Longrightarrow> harnessOp env c c'"
| restart: "Restart env i c = Some (c', err) \<Longrightarrow> harnessOp env c c'"
| propose: "Propose env data c = Some (c', err) \<Longrightarrow> harnessOp env c c'"
| propose_to: "ProposeTo env i data c = Some (c', err) \<Longrightarrow> harnessOp env c c'"
| begin_change: "BeginMembershipChange env vs ls c = Some (c', err) \<Longrightarrow> harnessOp env c c'"
| begin_change_to: "BeginMembershipChangeTo env i vs ls c = Some (c', err) \<Longrightarrow> harnessOp env c c'"
| finalize_change: "FinalizeMembershipChange env c = Some (c', err) \<Longrightarrow> harnessOp env c c'"
| finalize_change_to: "FinalizeMembershipChangeTo env i c = Some (c', err) \<Longrightarrow> harnessOp env c c'"
| take_snapshot: "takeClusterSnapshot env i data c = Some (c', err) \<Longrightarrow> harnessOp env c c'"
| snapshot_application: "SnapshotApplication env i c = Some (c', err) \<Longrightarrow> harnessOp env c c'"
| crash_after_persist: "CrashAfterNextPersist i c = (c', err) \<Longrightarrow> harnessOp env c c'"
| schedule_crash: "ScheduleCrash env delay i c = (c', r) \<Longrightarrow> harnessOp env c c'"
| schedule_restart: "ScheduleRestart env delay i c = (c', r) \<Longrightarrow> harnessOp env c c'"
| partition: "Partition groups c = (c', err) \<Longrightarrow> harnessOp env c c'"
| heal: "harnessOp env c (Heal c)"

text \<open>
  \<open>New\<close> is \<open>NewPaused\<close> and \<open>Bootstrap\<close>. The bound on the latency is the range of a \<open>time.Duration\<close>.
\<close>

inductive hreach :: "'s env \<Rightarrow> 's SimCluster \<Rightarrow> bool" for env where
  paused: "NewPaused env config = Inr c \<Longrightarrow> MaxLatency (hcNetwork config) \<le> MaxInt64 \<Longrightarrow> hreach env c"
| booted: "NewPaused env config = Inr c \<Longrightarrow> MaxLatency (hcNetwork config) \<le> MaxInt64 \<Longrightarrow> Bootstrap env c = Some (c', err)
    \<Longrightarrow> hreach env c'"
| op: "hreach env c \<Longrightarrow> harnessOp env c c' \<Longrightarrow> hreach env c'"

lemma harnessOp_tracked:
  assumes "tracked c" and "harnessOp env c c'"
  shows "tracked c'"
  using assms(2)
proof cases
  case (run_steps limit k err)
  then show ?thesis
    using runStepsLoop_tracked [OF assms(1)] by (auto simp: clusterRunSteps_def)
next
  case (crash_after_persist i err)
  then show ?thesis
    using still_tracked [OF assms(1)] CrashAfterNextPersist_still by (metis fst_conv)
next
  case (schedule_crash delay i r)
  then show ?thesis
    using still_tracked [OF assms(1)] ScheduleCrash_still(1) by (metis fst_conv)
next
  case (schedule_restart delay i r)
  then show ?thesis
    using still_tracked [OF assms(1)] ScheduleCrash_still(2) by (metis fst_conv)
next
  case (partition groups err)
  then show ?thesis
    using still_tracked [OF assms(1)] Partition_still(1) by (metis fst_conv)
next
  case heal
  then show ?thesis
    using still_tracked [OF assms(1)] Partition_still(2) by blast
next
  case (step b err)
  then show ?thesis
    by (rule clusterStep_tracked [OF assms(1)])
next
  case (run_until stop k err)
  then show ?thesis
    by (rule clusterRunUntil_tracked [OF assms(1)])
next
  case (crash i err)
  then show ?thesis
    by (rule Crash_tracked [OF assms(1)])
next
  case (restart i err)
  then show ?thesis
    by (rule Restart_tracked [OF assms(1)])
next
  case (propose data err)
  then show ?thesis
    by (rule commands_tracked [OF assms(1) leader_commands(1)])
next
  case (propose_to i data err)
  then show ?thesis
    by (rule commands_tracked [OF assms(1) ProposeTo_commands])
next
  case (begin_change vs ls err)
  then show ?thesis
    by (rule commands_tracked [OF assms(1) leader_commands(2)])
next
  case (begin_change_to i vs ls err)
  then show ?thesis
    by (rule commands_tracked [OF assms(1) membership_commands(1)])
next
  case (finalize_change err)
  then show ?thesis
    by (rule commands_tracked [OF assms(1) leader_commands(3)])
next
  case (finalize_change_to i err)
  then show ?thesis
    by (rule commands_tracked [OF assms(1) membership_commands(2)])
next
  case (take_snapshot i data err)
  then show ?thesis
    by (rule commands_tracked [OF assms(1) snapshot_commands(1)])
next
  case (snapshot_application i err)
  then show ?thesis
    by (rule commands_tracked [OF assms(1) snapshot_commands(2)])
qed

lemma hreach_tracked: "hreach env c \<Longrightarrow> tracked c"
proof (induction rule: hreach.induct)
  case (paused config c)
  then show ?case
    by (rule NewPaused_tracked)
next
  case (booted config c c' err)
  then show ?case
    by (rule Bootstrap_tracked)
next
  case (op c c')
  from op.IH op.hyps(2) show ?case
    by (rule harnessOp_tracked)
qed

end
