(* ===== verification/DriverTheorems.thy ===== *)
theory DriverTheorems
  imports DriverProps AppProps
begin

text \<open>The properties of the harness, each with a run of a concrete harness on which it is applied.\<close>

section \<open>The mailbox\<close>

definition mailOf :: "'s SimCluster \<Rightarrow> NodeID \<Rightarrow> queuedInput list option" where
  "mailOf c i = map_option prMailbox (cuProcesses c i)"


lemma mailOf_update: "(\<And>p. prMailbox (f p) = prMailbox p) \<Longrightarrow> mailOf (updateProc i f c) = mailOf c"
  by (auto simp: mailOf_def fun_eq_iff option.map_comp comp_def)

lemma mailOf_simps [simp]:
  "mailOf (traceCluster i k a d c) = mailOf c" "mailOf (withSim s c) = mailOf c" "mailOf (c\<lparr>cuRouter := r\<rparr>) = mailOf c"
  "mailOf (updateProc i (\<lambda>p. p\<lparr>prElectionEvent := a1\<rparr>) c) = mailOf c"
  "mailOf (updateProc i (\<lambda>p. p\<lparr>prElectionGeneration := g\<rparr>) c) = mailOf c"
  "mailOf (updateProc i (\<lambda>p. p\<lparr>prHeartbeatEvent := a1\<rparr>) c) = mailOf c"
  "mailOf (updateProc i (\<lambda>p. p\<lparr>prHeartbeatGeneration := g\<rparr>) c) = mailOf c"
  "mailOf (updateProc i (\<lambda>p. p\<lparr>prRandom := rng\<rparr>) c) = mailOf c"
  "mailOf (updateProc i (\<lambda>p. p\<lparr>prNode := nd\<rparr>) c) = mailOf c"
  "mailOf (updateProc i (\<lambda>p. p\<lparr>prSendSequence := g\<rparr>) c) = mailOf c"
  "mailOf (updateProc i (\<lambda>p. p\<lparr>prPersistGeneration := g\<rparr>) c) = mailOf c"
  "mailOf (updateProc i (\<lambda>p. p\<lparr>prPersistEvent := a1\<rparr>) c) = mailOf c"
  "mailOf (updateProc i (\<lambda>p. p\<lparr>prElectionEvent := 0, prElectionGeneration := prElectionGeneration p + 1\<rparr>) c) = mailOf c"
  "mailOf (updateProc i (\<lambda>p. p\<lparr>prHeartbeatEvent := 0, prHeartbeatGeneration := prHeartbeatGeneration p + 1\<rparr>) c) = mailOf c"
  by (simp_all add: mailOf_update) (simp_all add: mailOf_def fun_eq_iff)



















section \<open>Replay of the applied entries\<close>

lemma recoverEntries_append:
  assumes "recoverEntries sha base limit es prev m = Inr m1" and "limit \<noteq> MaxUint64" and "base \<le> limit"
    and "eIndex e = limit + 1" and "applyApplicationEntry sha e m1 = Inr m2"
  shows "recoverEntries sha base (limit + 1) (es @ [e]) prev m = Inr m2"
proof -
  have grows: "x \<le> limit \<Longrightarrow> x \<le> limit + 1" "x > limit + 1 \<Longrightarrow> x > limit" for x
    using assms(2) by (auto simp: word_le_nat_alt word_less_nat_alt unat_plus_one less_imp_not_MaxUint64)
  show ?thesis
    using assms(1)
  proof (induction es arbitrary: prev m)
    case Nil
    have "\<not> limit + 1 \<le> base"
      using assms(2,3) by (auto simp: word_le_nat_alt unat_plus_one)
    then show ?case
      using Nil assms(2,4,5) by (auto split: if_splits)
  next
    case (Cons d es)
    then show ?case
      using grows by (auto split: if_splits sum.splits)
  qed
qed

section \<open>A run to the end of a time span\<close>

lemma tracked_sim: "tracked c \<Longrightarrow> simInv (simOf c)"
  by (auto simp: tracked_def linked_def harnessRouter_def routerInv_def)

lemma clusterStep_moves:
  assumes "tracked c" and "clusterStep env c = Some (c', went, None)" and "slots (queue (simOf c)) \<noteq> []"
  shows went
proof -
  obtain a act s where "simStep (\<lambda>_ s. s) (simOf c) = Some (s, True)"
    by (rule simStep_next_all [of "simOf c" "\<lambda>_ s. s", OF tracked_sim [OF assms(1)] assms(3)]) blast
  then show ?thesis
    using assms(2) by (auto simp: clusterStep_def simulatorStep_def split: if_splits option.splits)
qed

lemma untilLoop_complete:
  assumes here: "tracked c" and loop: "untilLoop env stop k c = Some (c', k', None, at_end)"
  shows at_end
proof -
  let ?P = "\<lambda>(env :: 'a env) (stop :: int) (k :: int) (c :: 'a SimCluster) r.
      tracked c \<longrightarrow> (case r of (c' :: 'a SimCluster, k' :: int, err :: cluster_error option, at_end) \<Rightarrow> err = None \<longrightarrow> at_end)"
  have "?P env stop k c (c', k', None, at_end)"
  proof (rule untilLoop.raw_induct [where P = ?P, OF _ loop])
    fix loop env stop k c r
    assume ih: "\<And>env stop k c r. loop env stop k c = Some r \<Longrightarrow> ?P env stop k c r"
      and body: "(case NextEventTime (simOf c) of (next_at, pending_event) \<Rightarrow>
        if \<not> pending_event \<or> stop < next_at then Some (c, k, None, True)
        else Option.bind (clusterStep env c) (\<lambda>(c1, moved_on, err).
          if err \<noteq> None \<or> \<not> moved_on then Some (c1, k, err, False) else loop env stop (k + 1) c1)) = Some r"
    show "?P env stop k c r"
    proof (cases "tracked c \<and> \<not> quietUntil stop c")
      case False
      then show ?thesis
        using body by (auto simp: quietUntil_def split: prod.splits)
    next
      case True
      then obtain c1 went e where step: "clusterStep env c = Some (c1, went, e)"
          and rest: "(if e \<noteq> None \<or> \<not> went then Some (c1, k, e, False) else loop env stop (k + 1) c1) = Some r"
        using body by (auto simp: bind_eq_Some_conv quietUntil_def split: prod.splits)
      show ?thesis
      proof (cases "e \<noteq> None \<or> \<not> went")
        case stop: True
        have "slots (queue (simOf c)) \<noteq> []"
          using True by (auto simp: quietUntil_def NextEventTime_def)
        then have "e \<noteq> None"
          using True stop step clusterStep_moves [of c env c1 went] by auto
        then show ?thesis
          using rest stop by auto
      next
        case False
        then have "loop env stop (k + 1) c1 = Some r"
          using rest by (simp only: if_False)
        then show ?thesis
          using ih clusterStep_tracked [OF _ step] True by blast
      qed
    qed
  qed
  then show ?thesis
    using here by simp
qed

lemma settleClock_now:
  assumes "settleClock stop c = Some (c', None)" and "quietUntil stop c \<or> stop < now (simOf c)"
  shows "now (simOf c') = stop" and "queue (simOf c') = queue (simOf c)"
proof -
  obtain s k where s: "Simulator.RunUntil (\<lambda>_ s. s) stop (simOf c) = Some (s, Inr k)" and c': "c' = withSim s c"
    using assms(1) by (auto simp: settleClock_def split: option.splits prod.splits sum.splits)
  then have bound: "0 \<le> stop" "now (simOf c) \<le> stop"
    by (auto simp: Simulator.RunUntil_def split: if_splits)
  then have "\<not> (slots (queue (simOf c)) \<noteq> [] \<and> evWhen (store (queue (simOf c)) (slots (queue (simOf c)) ! 0)) \<le> stop)"
    using assms(2) by (auto simp: quietUntil_def NextEventTime_def)
  then have none: "runUntilLoop (\<lambda>_ s. s) stop 0 (simOf c) = Some (simOf c, 0)"
    by (subst runUntilLoop.simps) auto
  show "now (simOf c') = stop" "queue (simOf c') = queue (simOf c)"
    using s bound none by (auto simp: c' Simulator.RunUntil_def split: if_splits)
qed

section \<open>A concrete harness\<close>

text \<open>One member, and a decider that answers with the first number and the last option.\<close>

definition firstAnswer :: "unit \<Rightarrow> Choice \<Rightarrow> unit \<times> (dec_error + Selection)" where
  "firstAnswer d ch = (d, Inr (if chOptions ch \<noteq> [] then optionSelection (oID (last (chOptions ch))) else numberSelection (the (chMin ch))))"

definition exHarnessEnv :: "unit env" where
  "exHarnessEnv = \<lparr>enChoose = firstAnswer, enCausal = False, enMarshal = (\<lambda>_. ascii ''{}''),
     enHash = (\<lambda>_. ascii ''{}'', \<lambda>_. replicate 32 0), enMarshalCheckpoint = (\<lambda>_. []), enDecodeStrict = (\<lambda>_. None)\<rparr>"

definition exHarnessConfig :: "unit HarnessConfig" where
  "exHarnessConfig = \<lparr>hcMembers = [''a''], hcVoters = [], hcLearners = [], hcSeed = 0,
      hcNetwork = \<lparr>MinLatency = 1, MaxLatency = 1, LossProbability = Finite 0\<rparr>, hcElectionTimeoutMin = 3,
      hcElectionTimeoutMax = 3, hcHeartbeatInterval = 1, hcStorageLatency = 1, hcTrace = False,
      hcStopOnViolation = True, hcDecider = Some (), hcApplication = None\<rparr>"

definition exRunning :: "int \<Rightarrow> (unit SimCluster \<times> int \<times> cluster_error option) option" where
  "exRunning k = (case NewCluster exHarnessEnv exHarnessConfig of
      Some (Inr c) \<Rightarrow> clusterRunSteps exHarnessEnv k c | _ \<Rightarrow> None)"

lemma exRunning_reach: "exRunning k = Some (c, j, err) \<Longrightarrow> hreach exHarnessEnv c"
proof -
  assume run: "exRunning k = Some (c, j, err)"
  then obtain c1 where c1: "NewCluster exHarnessEnv exHarnessConfig = Some (Inr c1)" and steps: "clusterRunSteps exHarnessEnv k c1 = Some (c, j, err)"
    by (auto simp: exRunning_def split: option.splits sum.splits)
  obtain c0 where "NewPaused exHarnessEnv exHarnessConfig = Inr c0" "Bootstrap exHarnessEnv c0 = Some (c1, None)"
    using c1 by (auto simp: NewCluster_def split: sum.splits option.splits prod.splits)
  moreover have "MaxLatency (hcNetwork exHarnessConfig) \<le> MaxInt64"
    by (simp add: exHarnessConfig_def MaxInt64_def)
  ultimately have "hreach exHarnessEnv c1"
    by (blast intro: hreach.booted)
  then show ?thesis
    using hreach.op harnessOp.run_steps [OF steps] by blast
qed

text \<open>A member that is up with a node that passes a test.\<close>

definition upWith :: "(process \<Rightarrow> Node \<Rightarrow> bool) \<Rightarrow> NodeID \<Rightarrow> 's SimCluster \<Rightarrow> bool" where
  "upWith test i c =
     (case cuProcesses c i of
        None \<Rightarrow> False
      | Some p \<Rightarrow> prUp p \<and> (case prNode p of None \<Rightarrow> False | Some n \<Rightarrow> test p n))"

lemma upWithE:
  assumes "upWith test i c"
  obtains p n where "cuProcesses c i = Some p" and "prUp p" and "prNode p = Some n" and "test p n"
  using assms by (auto simp: upWith_def split: option.splits)

lemma exWaiting:
  "(case exRunning 1 of None \<Rightarrow> False
    | Some (c, k, err) \<Rightarrow> k = 1 \<and> err = None \<and> upWith (\<lambda>p n. AwaitingPersistence n \<and> prPersistEvent p = 2) ''a'' c
        \<and> (case pendingAction (simOf c) 2 of Some (Foreign (StorageCompletion i inc gen st tok)) \<Rightarrow> i = ''a'' | _ \<Rightarrow> False))"
  by code_simp

lemma exBooted:
  "(case exRunning 0 of None \<Rightarrow> False
    | Some (c, k, err) \<Rightarrow> err = None \<and> cuErr c = None \<and> now (simOf c) = 0 \<and> NextEventTime (simOf c) = (3, True))"
  by code_simp



lemma exLeading:
  "(case exRunning 3 of None \<Rightarrow> False
    | Some (c, k, err) \<Rightarrow> k = 3 \<and> err = None \<and> upWith (\<lambda>p n. role n = Leader \<and> \<not> AwaitingPersistence n) ''a'' c)"
  by code_simp

section \<open>The properties\<close>



text \<open>
  C3. Election Safety of the harness: two processes that are up and lead in one term, under configurations with
  intersecting quorums, are the same process.
\<close>

theorem harness_election_safety:
  assumes "hreach env c"
    and "cuProcesses c i = Some p" and "prUp p" and "prNode p = Some n" and "role n = Leader"
    and "cuProcesses c j = Some p'" and "prUp p'" and "prNode p' = Some n'" and "role n' = Leader"
    and "CurrentTerm (hs n) = CurrentTerm (hs n')" and "compatible (electionMembership n) (electionMembership n')"
  shows "i = j"
proof -
  obtain C where C: "creach C" "linked c C"
    using hreach_tracked [OF assms(1)] by (auto simp: tracked_def)
  have "live C i = Some n" "live C j = Some n'"
    using linked_process(1) [OF C(2)] assms(2-4,6-8) by auto
  then show ?thesis
    using leaders_agree [OF C(1)] assms(5,9-11) by blast
qed

theorem harness_election_safety_witness:
  "\<exists>c p n. hreach exHarnessEnv c \<and> cuProcesses c ''a'' = Some p \<and> prUp p \<and> prNode p = Some n \<and> role n = Leader
    \<and> (\<forall>j p' n'. cuProcesses c j = Some p' \<and> prUp p' \<and> prNode p' = Some n' \<and> role n' = Leader \<and> CurrentTerm (hs n) = CurrentTerm (hs n')
        \<and> electionMembership n = electionMembership n' \<longrightarrow> ''a'' = j)"
proof -
  obtain c k err where run: "exRunning 3 = Some (c, k, err)" and up: "upWith (\<lambda>p n. role n = Leader \<and> \<not> AwaitingPersistence n) ''a'' c"
    using exLeading by (auto split: option.splits)
  obtain p n where p: "cuProcesses c ''a'' = Some p" "prUp p" "prNode p = Some n" "role n = Leader \<and> \<not> AwaitingPersistence n"
    using up by (rule upWithE)
  note reach = exRunning_reach [OF run]
  have "''a'' = j" if "cuProcesses c j = Some p'" "prUp p'" "prNode p' = Some n'" "role n' = Leader"
      "CurrentTerm (hs n) = CurrentTerm (hs n')" "electionMembership n = electionMembership n'" for j p' n'
    by (rule harness_election_safety [OF reach p(1-3) _ that(1-5)]) (use p(4) that(6) in \<open>simp_all add: compatible_def\<close>)
  then show ?thesis
    using reach p by blast
qed

text \<open>
  C6. No storage event on the queue is stale. A completion belongs to the process that is up, in its current
  incarnation and generation, carries the token of the write its node waits for, and will store the node's state. An
  acknowledgement is on the queue only once that state is in the store.
\<close>

theorem storage_events_current:
  assumes "hreach env c"
  shows "(\<forall>a i inc gen st tok. pendingAction (simOf c) a = Some (Foreign (StorageCompletion i inc gen st tok)) \<longrightarrow>
      (\<exists>p n held. cuProcesses c i = Some p \<and> sameWrite inc gen p \<and> prPersistEvent p = a \<and> prPersistAckEvent p = 0
         \<and> prNode p = Some n \<and> pending n = Some (tok, held) \<and> state n = st))
    \<and> (\<forall>a i inc gen tok. pendingAction (simOf c) a = Some (Foreign (PersistenceAck i inc gen tok)) \<longrightarrow>
      (\<exists>p n held. cuProcesses c i = Some p \<and> sameWrite inc gen p \<and> prPersistAckEvent p = a \<and> prPersistEvent p = 0
         \<and> prNode p = Some n \<and> pending n = Some (tok, held) \<and> dsState (prStore p) = state n))"
proof -
  obtain C where C: "creach C" "linked c C"
    using hreach_tracked [OF assms] by (auto simp: tracked_def)
  note inv = clusterInv_reach [OF C(1)]
  have ids: "a \<noteq> 0" if "pendingAction (simOf c) a = Some act" for a act
    by (rule pending_positive [OF routerInv_sim [OF linked_router [OF C(2)]] that])
  have node: "\<exists>n held. prNode p = Some n \<and> pending n = Some (tok, held) \<and> state n = st"
    if "cuProcesses c i = Some p" "sameWrite inc gen p" "writes C i = Some (tok, st)" for i p inc gen tok st
    using clusterInvD(3) [OF inv that(3)] linked_process(1) [OF C(2) that(1)] that(2) by (auto simp: sameWrite_def)
  have "\<exists>p n held. cuProcesses c i = Some p \<and> sameWrite inc gen p \<and> prPersistEvent p = a \<and> prPersistAckEvent p = 0
      \<and> prNode p = Some n \<and> pending n = Some (tok, held) \<and> state n = st"
    if pend: "pendingAction (simOf c) a = Some (Foreign (StorageCompletion i inc gen st tok))" for a i inc gen st tok
  proof -
    obtain p where p: "cuProcesses c i = Some p" "sameWrite inc gen p" "prPersistEvent p = a" "writes C i = Some (tok, st)"
      using linkedD(3) [OF C(2) pend] by auto
    then show ?thesis
      using node [OF p(1,2,4)] linked_process(5) [OF C(2) p(1)] ids [OF pend] by auto
  qed
  moreover have "\<exists>p n held. cuProcesses c i = Some p \<and> sameWrite inc gen p \<and> prPersistAckEvent p = a \<and> prPersistEvent p = 0
      \<and> prNode p = Some n \<and> pending n = Some (tok, held) \<and> dsState (prStore p) = state n"
    if pend: "pendingAction (simOf c) a = Some (Foreign (PersistenceAck i inc gen tok))" for a i inc gen tok
  proof -
    obtain p where p: "cuProcesses c i = Some p" "sameWrite inc gen p" "prPersistAckEvent p = a" "writes C i = Some (tok, disk C i)"
      using linkedD(3) [OF C(2) pend] by auto
    then show ?thesis
      using node [OF p(1,2,4)] linked_process(2,5) [OF C(2) p(1)] ids [OF pend] by auto
  qed
  ultimately show ?thesis
    by blast
qed

theorem storage_events_current_witness:
  "\<exists>c i inc gen st tok p n held. hreach exHarnessEnv c \<and> pendingAction (simOf c) 2 = Some (Foreign (StorageCompletion i inc gen st tok))
    \<and> cuProcesses c i = Some p \<and> sameWrite inc gen p \<and> prNode p = Some n \<and> pending n = Some (tok, held) \<and> state n = st"
proof -
  obtain c k err where run: "exRunning 1 = Some (c, k, err)"
      and pend: "case pendingAction (simOf c) 2 of Some (Foreign (StorageCompletion i inc gen st tok)) \<Rightarrow> i = ''a'' | _ \<Rightarrow> False"
    using exWaiting by (auto split: option.splits)
  obtain i inc gen st tok where "pendingAction (simOf c) 2 = Some (Foreign (StorageCompletion i inc gen st tok))"
    using pend by (auto split: option.splits action.splits callback.splits)
  then show ?thesis
    using storage_events_current [OF exRunning_reach [OF run]] exRunning_reach [OF run] by blast
qed

text \<open>
  C7. Votes and terms are durable. In every reachable harness the store of a process that is up is not ahead of its
  node and disagrees with no vote of its term, and when the node waits for no write both are the node's own.
\<close>

theorem votes_durable:
  assumes "hreach env c" and "cuProcesses c i = Some p" and "prUp p" and "prNode p = Some n"
  shows "keepsVote (hardState (dsState (prStore p))) (hs n)
    \<and> (\<not> AwaitingPersistence n \<longrightarrow> CurrentTerm (hardState (dsState (prStore p))) = CurrentTerm (hs n)
         \<and> VotedFor (hardState (dsState (prStore p))) = VotedFor (hs n))"
proof -
  obtain C where C: "creach C" "linked c C"
    using hreach_tracked [OF assms(1)] by (auto simp: tracked_def)
  have "live C i = Some n"
    using linked_process(1) [OF C(2) assms(2)] assms(3,4) by simp
  then have "nodeInv (ballots (sent C)) (disk C i) n"
    using clusterInvD(2) [OF clusterInv_reach [OF C(1)]] by blast
  then show ?thesis
    unfolding linked_process(2) [OF C(2) assms(2)] nodeInv_def AwaitingPersistence_def by (auto split: option.splits)
qed

theorem votes_durable_witness:
  "\<exists>c p n. hreach exHarnessEnv c \<and> cuProcesses c ''a'' = Some p \<and> prNode p = Some n \<and> role n = Leader
    \<and> CurrentTerm (hardState (dsState (prStore p))) = CurrentTerm (hs n) \<and> VotedFor (hardState (dsState (prStore p))) = VotedFor (hs n)"
proof -
  obtain c k err where run: "exRunning 3 = Some (c, k, err)" and up: "upWith (\<lambda>p n. role n = Leader \<and> \<not> AwaitingPersistence n) ''a'' c"
    using exLeading by (auto split: option.splits)
  obtain p n where p: "cuProcesses c ''a'' = Some p" "prUp p" "prNode p = Some n" "role n = Leader \<and> \<not> AwaitingPersistence n"
    using up by (rule upWithE)
  show ?thesis
    using votes_durable [OF exRunning_reach [OF run] p(1-3)] exRunning_reach [OF run] p by blast
qed



text \<open>
  C33. A crash loses nothing that was applied: when the application recovered from a store is \<open>m\<close>, and \<open>m\<close> applies the
  next entry, then the application recovered after that entry was recorded is the machine after the entry. The store's
  snapshot must not be ahead of the applied index, or recording the entry would change where recovery starts.
\<close>

theorem recovery_replays_applied:
  assumes "recoverApplication env st = Inr m" and "applyApplicationEntry (enSha env) e m = Inr m'"
    and "dsAppliedIndex st \<noteq> MaxUint64" and "eIndex e = dsAppliedIndex st + 1"
    and "LastIncludedIndex (snapshot (dsState st)) \<le> dsAppliedIndex st"
  shows "recoverApplication env (st\<lparr>dsAppliedIndex := eIndex e, dsApplied := dsApplied st @ [e]\<rparr>) = Inr m'"
proof -
  let ?b = "LastIncludedIndex (snapshot (dsState st))"
  have later: "?b \<le> dsAppliedIndex st + 1"
    using assms(3,5) by (auto simp: word_le_nat_alt unat_plus_one less_imp_not_MaxUint64)
  show ?thesis
  proof (cases "?b > 0")
    case True
    then obtain m0 where m0: "restoreData env (sData (snapshot (dsState st))) = Inr m0"
        "recoverEntries (enSha env) ?b (dsAppliedIndex st) (dsApplied st) ?b m0 = Inr m"
      using assms(1,5) by (auto simp: recoverApplication_def Let_def split: sum.splits)
    then show ?thesis
      using recoverEntries_append [OF m0(2) assms(3,5,4,2)] True later assms(4)
      by (simp add: recoverApplication_def Let_def)
  next
    case False
    then have r: "recoverEntries (enSha env) 0 (dsAppliedIndex st) (dsApplied st) 0 (newMachine (enSha env)) = Inr m"
      using assms(1) by (auto simp: recoverApplication_def Let_def)
    then show ?thesis
      using recoverEntries_append [OF r assms(3) _ assms(4,2)] False assms(4) by (simp add: recoverApplication_def Let_def)
  qed
qed

definition exReplayEnv :: "unit env" where
  "exReplayEnv = exHarnessEnv\<lparr>enHash := (\<lambda>_. [], exSha)\<rparr>"

definition exApplied :: Entry where
  "exApplied = \<lparr>eIndex = 1, eTerm = 1, eType = EntryCommand, eData = exData, eMembership = zeroMembership\<rparr>"

theorem recovery_replays_applied_witness:
  "recoverApplication exReplayEnv (emptyStore\<lparr>dsAppliedIndex := 1, dsApplied := [exApplied]\<rparr>) = Inr exMachine"
proof -
  have empty: "recoverApplication exReplayEnv emptyStore = Inr (newMachine exSha)"
    by (simp add: recoverApplication_def emptyStore_def zeroState_def zeroSnapshot_def exReplayEnv_def Let_def)
  have step: "applyApplicationEntry (enSha exReplayEnv) exApplied (newMachine exSha) = Inr exMachine"
    using exMachine_step by (auto simp: applyApplicationEntry_def exReplayEnv_def exApplied_def)
  have "recoverApplication exReplayEnv (emptyStore\<lparr>dsAppliedIndex := eIndex exApplied,
      dsApplied := dsApplied emptyStore @ [exApplied]\<rparr>) = Inr exMachine"
    by (rule recovery_replays_applied [OF empty step])
      (simp_all add: emptyStore_def exApplied_def zeroState_def zeroSnapshot_def MaxUint64_def)
  then show ?thesis
    by (simp add: emptyStore_def exApplied_def)
qed

text \<open>
  \<open>RunUntil\<close> ends where it was asked to: when it returns without an error the clock stands at the requested time
  and no event that is due is left.
\<close>

theorem cluster_run_until_exact:
  assumes "hreach env c" and "clusterRunUntil env stop c = Some (c', k, None)"
  shows "now (simOf c') = stop \<and> (\<forall>t. NextEventTime (simOf c') = (t, True) \<longrightarrow> stop < t) \<and> hreach env c'"
proof -
  have here: "tracked c"
    by (rule hreach_tracked [OF assms(1)])
  have there: "hreach env c'"
    by (rule hreach.op [OF assms(1) harnessOp.run_until [OF assms(2)]])
  consider (past) "stop < now (simOf c)" "settleClock stop c = Some (c', None)"
    | (ran) c1 e at_end where "untilLoop env stop 0 c = Some (c1, k, e, at_end)" "at_end \<Longrightarrow> settleClock stop c1 = Some (c', None)"
        "\<not> at_end \<Longrightarrow> e = None"
    using assms(2) unfolding clusterRunUntil_def by (auto split: if_splits option.splits)
  then show ?thesis
  proof cases
    case past
    then show ?thesis
      using there by (auto simp: settleClock_def Simulator.RunUntil_def split: option.splits prod.splits sum.splits if_splits)
  next
    case ran
    have at_end
      using ran(1,3) untilLoop_complete [OF here, of env stop 0 c1 k at_end] by (cases at_end) auto
    then have quiet: "quietUntil stop c1" and settle: "settleClock stop c1 = Some (c', None)"
      using untilLoop_tracked(2) [OF here ran(1)] ran(2) by auto
    note s = settleClock_now [OF settle disjI1 [OF quiet]]
    have "NextEventTime (simOf c') = NextEventTime (simOf c1)"
      using s(2) by (simp add: NextEventTime_def)
    then show ?thesis
      using s(1) quiet there by (auto simp: quietUntil_def)
  qed
qed

theorem cluster_run_until_exact_witness:
  "\<exists>c c' k. hreach exHarnessEnv c \<and> clusterRunUntil exHarnessEnv 2 c = Some (c', k, None) \<and> now (simOf c') = 2 \<and> hreach exHarnessEnv c'"
proof -
  obtain c k err where run: "exRunning 0 = Some (c, k, err)" and c: "cuErr c = None" "now (simOf c) = 0" "NextEventTime (simOf c) = (3, True)"
    using exBooted by (auto split: option.splits)
  have "slots (queue (simOf c)) \<noteq> []" "evWhen (store (queue (simOf c)) (slots (queue (simOf c)) ! 0)) = 3"
    using c(3) by (auto simp: NextEventTime_def split: if_splits)
  then have "runUntilLoop (\<lambda>_ s. s) 2 0 (simOf c) = Some (simOf c, 0)"
    by (subst runUntilLoop.simps) auto
  then obtain s where "Simulator.RunUntil (\<lambda>_ s. s) 2 (simOf c) = Some (s, Inr 0)"
    using c(2) by (simp add: Simulator.RunUntil_def)
  moreover have "untilLoop exHarnessEnv 2 0 c = Some (c, 0, None, True)"
    using c(3) by (subst untilLoop.simps) simp
  ultimately obtain c' where "clusterRunUntil exHarnessEnv 2 c = Some (c', 0, None)"
    using c(1,2) by (auto simp: clusterRunUntil_def settleClock_def)
  then show ?thesis
    using cluster_run_until_exact [OF exRunning_reach [OF run]] exRunning_reach [OF run] by blast
qed

end
