(* ===== verification/JsonScan.thy ===== *)
theory JsonScan
  imports JsonText
begin

text \<open>
  Strict JSON (\<open>src/internal/strictjson/strictjson.go\<close>): the walk over the first value of a document that
  rejects a name repeated in an object, after escape processing, and nesting that is too deep. The decoder's
  token stream is the grammar of \<^term>\<open>jsonValid\<close>. The walk also returns the value it has read, which is what
  the typed reads of the callers see: numbers keep their text, strings are unquoted as \<open>json.Unmarshal\<close>
  does, and objects keep their members in order. The text predicates of \<open>unicode/utf8\<close>, \<open>unicode\<close> and \<open>strings\<close>
  that the validators share come first. The fuel is twice the number of bytes; every call consumes one.
\<close>

section \<open>Runes\<close>

definition runeValue :: "nat \<Rightarrow> bytes \<Rightarrow> nat" where
  "runeValue n bs =
     (let byte = (\<lambda>i. unat (bs ! i)) in
      if n = 1 then byte 0
      else if n = 2 then (byte 0 - 0xC0) * 64 + (byte 1 - 0x80)
      else if n = 3 then (byte 0 - 0xE0) * 4096 + (byte 1 - 0x80) * 64 + (byte 2 - 0x80)
      else (byte 0 - 0xF0) * 262144 + (byte 1 - 0x80) * 4096 + (byte 2 - 0x80) * 64 + (byte 3 - 0x80))"

text \<open>The runes of a Go string: a byte that starts no valid sequence reads as U+FFFD.\<close>

function runes :: "bytes \<Rightarrow> nat list" where
  "runes [] = []"
| "runes (b # bs) =
     (let n = runeWidth (b # bs) in
      if n = 0 then 0xFFFD # runes bs else runeValue n (b # bs) # runes (drop (n - 1) bs))"
  by pat_completeness auto

termination
  by (relation "measure length") (auto simp: less_Suc_eq_le)

function utf8Valid :: "bytes \<Rightarrow> bool" where
  "utf8Valid [] = True"
| "utf8Valid (b # bs) =
     (let n = runeWidth (b # bs) in if n = 0 then False else utf8Valid (drop (n - 1) bs))"
  by pat_completeness auto

termination
  by (relation "measure length") (auto simp: less_Suc_eq_le)

definition isControl :: "nat \<Rightarrow> bool" where
  "isControl r \<longleftrightarrow> r < 0x20 \<or> 0x7F \<le> r \<and> r < 0xA0"

definition isSpace :: "nat \<Rightarrow> bool" where
  "isSpace r \<longleftrightarrow> r \<in> {9, 10, 11, 12, 13, 0x20, 0x85, 0xA0, 0x1680, 0x2028, 0x2029, 0x202F, 0x205F, 0x3000}
     \<or> 0x2000 \<le> r \<and> r \<le> 0x200A"

text \<open>\<open>utf8.ValidString\<close>, \<open>strings.TrimSpace(value) == value\<close> and \<open>strings.IndexFunc(value, unicode.IsControl) < 0\<close>.\<close>

definition validString :: "string \<Rightarrow> bool" where
  "validString value \<longleftrightarrow> utf8Valid (ascii value)"

definition trimmed :: "string \<Rightarrow> bool" where
  "trimmed value \<longleftrightarrow> (case runes (ascii value) of [] \<Rightarrow> True | rs \<Rightarrow> \<not> isSpace (hd rs) \<and> \<not> isSpace (last rs))"

definition controlFree :: "string \<Rightarrow> bool" where
  "controlFree value \<longleftrightarrow> list_all (\<lambda>r. \<not> isControl r) (runes (ascii value))"

section \<open>String literals\<close>

definition encodeRune :: "nat \<Rightarrow> bytes" where
  "encodeRune r =
     (if r < 0x80 then [of_nat r]
      else if r < 0x800 then [of_nat (0xC0 + r div 64), of_nat (0x80 + r mod 64)]
      else if r > 0x10FFFF \<or> 0xD800 \<le> r \<and> r \<le> 0xDFFF then [0xEF, 0xBF, 0xBD]
      else if r < 0x10000
      then [of_nat (0xE0 + r div 4096), of_nat (0x80 + r div 64 mod 64), of_nat (0x80 + r mod 64)]
      else [of_nat (0xF0 + r div 262144), of_nat (0x80 + r div 4096 mod 64), of_nat (0x80 + r div 64 mod 64),
            of_nat (0x80 + r mod 64)])"

definition hexNat :: "byte \<Rightarrow> nat" where
  "hexNat b = (if isDigit b then unat b - 48 else if 97 \<le> b then unat b - 87 else unat b - 55)"

text \<open>\<open>getu4\<close>: the code unit of the four-digit escape at the head.\<close>

definition escapedUnit :: "bytes \<Rightarrow> nat option" where
  "escapedUnit bs =
     (case bs of
        s # u # a # b # c # d # _ \<Rightarrow>
          if s = 92 \<and> u = 117 \<and> isHex a \<and> isHex b \<and> isHex c \<and> isHex d
          then Some (hexNat a * 4096 + hexNat b * 256 + hexNat c * 16 + hexNat d) else None
      | _ \<Rightarrow> None)"

text \<open>\<open>utf16.DecodeRune\<close>, with \<open>None\<close> for the replacement character.\<close>

definition surrogatePair :: "nat \<Rightarrow> nat option \<Rightarrow> nat option" where
  "surrogatePair high next =
     (case next of
        None \<Rightarrow> None
      | Some low \<Rightarrow>
          if 0xD800 \<le> high \<and> high < 0xDC00 \<and> 0xDC00 \<le> low \<and> low < 0xE000
          then Some ((high - 0xD800) * 1024 + (low - 0xDC00) + 0x10000) else None)"

text \<open>The character of a one-letter escape.\<close>

definition escapedByte :: "byte \<Rightarrow> byte" where
  "escapedByte e =
     (if e = 98 then 8 else if e = 102 then 12 else if e = 110 then 10 else if e = 114 then 13
      else if e = 116 then 9 else e)"

text \<open>The contents of a literal that the grammar has accepted.\<close>

function unquote :: "bytes \<Rightarrow> bytes" where
  "unquote [] = []"
| "unquote (b # bs) =
     (if b = 92 then
        (case escapedUnit (b # bs) of
           Some r \<Rightarrow>
             if 0xD800 \<le> r \<and> r < 0xE000 then
               (case surrogatePair r (escapedUnit (drop 5 bs)) of
                  Some dec \<Rightarrow> encodeRune dec @ unquote (drop 11 bs)
                | None \<Rightarrow> encodeRune 0xFFFD @ unquote (drop 5 bs))
             else encodeRune r @ unquote (drop 5 bs)
         | None \<Rightarrow> (case bs of [] \<Rightarrow> [] | e # rest \<Rightarrow> escapedByte e # unquote rest))
      else if b < 0x80 then b # unquote bs
      else
        let n = runeWidth (b # bs) in
        if n = 0 then encodeRune 0xFFFD @ unquote bs else take n (b # bs) @ unquote (drop (n - 1) bs))"
  by pat_completeness auto

termination
  by (relation "measure length") (auto simp: less_Suc_eq_le)

section \<open>The walk\<close>

datatype json =
    JNull | JBool bool | JNumber bytes | JString string | JArray "json list" | JObject "(string \<times> json) list"

datatype scan_error = ErrDuplicateName | ErrNestingTooDeep | ErrSyntax

definition maxNestingDepth :: nat where "maxNestingDepth = 10000"

text \<open>What a read consumed: the bytes before the rest.\<close>

definition consumed_bytes :: "bytes \<Rightarrow> bytes \<Rightarrow> bytes" where
  "consumed_bytes bs rest = take (length bs - length rest) bs"

definition byteChar :: "byte \<Rightarrow> char" where
  "byteChar b = Char (bit b 0) (bit b 1) (bit b 2) (bit b 3) (bit b 4) (bit b 5) (bit b 6) (bit b 7)"

text \<open>The string whose literal starts after an opening quote and ends before \<open>rest\<close>.\<close>

definition literal :: "bytes \<Rightarrow> bytes \<Rightarrow> string" where
  "literal bs rest = map byteChar (unquote (butlast (consumed_bytes bs rest)))"

definition readWord :: "bytes \<Rightarrow> json \<Rightarrow> bytes \<Rightarrow> scan_error + json \<times> bytes" where
  "readWord word v bs = (case expect word bs of None \<Rightarrow> Inl ErrSyntax | Some rest \<Rightarrow> Inr (v, rest))"

fun scanValue :: "nat \<Rightarrow> nat \<Rightarrow> bytes \<Rightarrow> scan_error + json \<times> bytes"
  and scanElements :: "nat \<Rightarrow> nat \<Rightarrow> bytes \<Rightarrow> scan_error + json list \<times> bytes"
  and scanMembers :: "nat \<Rightarrow> nat \<Rightarrow> string list \<Rightarrow> bytes \<Rightarrow> scan_error + (string \<times> json) list \<times> bytes" where
  "scanValue 0 depth bs = Inl ErrSyntax"
| "scanValue (Suc fuel) depth bs =
     (case skipWS bs of
        [] \<Rightarrow> Inl ErrSyntax
      | b # rest \<Rightarrow>
          if b = 123 then
            (if depth \<ge> maxNestingDepth then Inl ErrNestingTooDeep
             else (case skipWS rest of
               [] \<Rightarrow> Inl ErrSyntax
             | c # rest' \<Rightarrow>
                 if c = 125 then Inr (JObject [], rest')
                 else (case scanMembers fuel (Suc depth) [] rest of
                   Inl e \<Rightarrow> Inl e | Inr (ms, r) \<Rightarrow> Inr (JObject ms, r))))
          else if b = 91 then
            (if depth \<ge> maxNestingDepth then Inl ErrNestingTooDeep
             else (case skipWS rest of
               [] \<Rightarrow> Inl ErrSyntax
             | c # rest' \<Rightarrow>
                 if c = 93 then Inr (JArray [], rest')
                 else (case scanElements fuel (Suc depth) rest of
                   Inl e \<Rightarrow> Inl e | Inr (vs, r) \<Rightarrow> Inr (JArray vs, r))))
          else if b = 34 then
            (case jsonString rest of None \<Rightarrow> Inl ErrSyntax | Some r \<Rightarrow> Inr (JString (literal rest r), r))
          else if b = 116 then readWord [114, 117, 101] (JBool True) rest
          else if b = 102 then readWord [97, 108, 115, 101] (JBool False) rest
          else if b = 110 then readWord [117, 108, 108] JNull rest
          else (case jsonNumber (b # rest) of
            None \<Rightarrow> Inl ErrSyntax | Some r \<Rightarrow> Inr (JNumber (consumed_bytes (b # rest) r), r)))"
| "scanElements 0 depth bs = Inl ErrSyntax"
| "scanElements (Suc fuel) depth bs =
     (case scanValue fuel depth bs of
        Inl e \<Rightarrow> Inl e
      | Inr (v, r) \<Rightarrow> (case skipWS r of
           [] \<Rightarrow> Inl ErrSyntax
         | b # rest \<Rightarrow>
             if b = 44 then (case scanElements fuel depth rest of Inl e \<Rightarrow> Inl e | Inr (vs, r') \<Rightarrow> Inr (v # vs, r'))
             else if b = 93 then Inr ([v], rest)
             else Inl ErrSyntax))"
| "scanMembers 0 depth names bs = Inl ErrSyntax"
| "scanMembers (Suc fuel) depth names bs =
     (case skipWS bs of
        [] \<Rightarrow> Inl ErrSyntax
      | q # r0 \<Rightarrow>
          if q \<noteq> 34 then Inl ErrSyntax
          else (case jsonString r0 of
            None \<Rightarrow> Inl ErrSyntax
          | Some r1 \<Rightarrow>
              let name = literal r0 r1 in
              if name \<in> set names then Inl ErrDuplicateName
              else (case skipWS r1 of
                [] \<Rightarrow> Inl ErrSyntax
              | c # r2 \<Rightarrow>
                  if c \<noteq> 58 then Inl ErrSyntax
                  else (case scanValue fuel depth r2 of
                    Inl e \<Rightarrow> Inl e
                  | Inr (v, r3) \<Rightarrow> (case skipWS r3 of
                      [] \<Rightarrow> Inl ErrSyntax
                    | b # rest \<Rightarrow>
                        if b = 44 then
                          (case scanMembers fuel depth (name # names) rest of
                             Inl e \<Rightarrow> Inl e | Inr (ms, r) \<Rightarrow> Inr ((name, v) # ms, r))
                        else if b = 125 then Inr ([(name, v)], rest)
                        else Inl ErrSyntax)))))"

text \<open>The lexical depth count: its arguments are the depth and whether it is in a string, and after a backslash.\<close>

fun depthExceeds :: "nat \<Rightarrow> bool \<Rightarrow> bool \<Rightarrow> bytes \<Rightarrow> bool" where
  "depthExceeds depth inString escaped [] = False"
| "depthExceeds depth inString escaped (b # bs) =
     (if inString then
        (if escaped then depthExceeds depth True False bs
         else if b = 92 then depthExceeds depth True True bs
         else if b = 34 then depthExceeds depth False False bs
         else depthExceeds depth True False bs)
      else if b = 34 then depthExceeds depth True escaped bs
      else if b = 91 \<or> b = 123 then
        (if Suc depth > maxNestingDepth then True else depthExceeds (Suc depth) False escaped bs)
      else if b = 93 \<or> b = 125 then depthExceeds (if depth > 0 then depth - 1 else depth) False escaped bs
      else depthExceeds depth False escaped bs)"

definition exceedsNestingDepth :: "bytes \<Rightarrow> bool" where
  "exceedsNestingDepth document = depthExceeds 0 False False document"

definition scanDocument :: "bytes \<Rightarrow> scan_error + json \<times> bytes" where
  "scanDocument document = scanValue (2 * length document + 2) 0 document"

definition RejectDuplicateNames :: "bytes \<Rightarrow> scan_error option" where
  "RejectDuplicateNames document =
     (case scanDocument document of
        Inr _ \<Rightarrow> None
      | Inl e \<Rightarrow> if e \<noteq> ErrDuplicateName \<and> exceedsNestingDepth document then Some ErrNestingTooDeep else Some e)"

text \<open>What is read when nothing follows the value but white space.\<close>

definition readDocument :: "bytes \<Rightarrow> json option" where
  "readDocument document =
     (case scanDocument document of
        Inl _ \<Rightarrow> None | Inr (v, rest) \<Rightarrow> if skipWS rest = [] then Some v else None)"

end
