(* ===== verification/SemPlan.thy ===== *)
theory SemPlan
  imports Artifact AppOracle JsonScan "HOL-Library.Product_Lexorder"
begin

text \<open>
  Semantic plans (\<open>src/semanticplan/plan.go\<close> and the keys and directives of \<open>projector.go\<close>): the portable keys
  of choices, the directives, plans and adapter capabilities with their validation, and the preflight that
  decides whether two adapters can run a plan. A slice that the code tests against \<open>nil\<close> is an option, the
  others are lists. \<open>apporacle.Config\<close> is its only field, the schema. Error messages are dropped; an error is
  the sentinel it wraps, \<open>ErrOther\<close> when it wraps none.
\<close>

datatype plan_error =
    ErrInvalidPlan | ErrInvalidCapabilities | ErrDocumentTooLarge | ErrInvalidProjection | ErrDuplicateTarget
  | ErrInvalidExecution | ErrInvalidCausal | ErrCausalConflict | ErrOther

definition items :: "'a list option \<Rightarrow> 'a list" where
  "items xs = (case xs of None \<Rightarrow> [] | Some ys \<Rightarrow> ys)"

lemma items_simps [simp]: "items None = []" "items (Some xs) = xs"
  by (simp_all add: items_def)

section \<open>Texts\<close>

text \<open>The two regular expressions of \<open>outcome.go\<close>, and the checks of endpoints, node IDs and adapters.\<close>

definition digestPattern :: "string \<Rightarrow> bool" where
  "digestPattern value \<longleftrightarrow> length value = 64
     \<and> list_all (\<lambda>ch. CHR ''0'' \<le> ch \<and> ch \<le> CHR ''9'' \<or> CHR ''a'' \<le> ch \<and> ch \<le> CHR ''f'') value"

definition lowerAlnum :: "char \<Rightarrow> bool" where
  "lowerAlnum ch \<longleftrightarrow> CHR ''a'' \<le> ch \<and> ch \<le> CHR ''z'' \<or> CHR ''0'' \<le> ch \<and> ch \<le> CHR ''9''"

text \<open>The automaton of the expression after its first letter; a slash needs a letter or digit after it.\<close>

fun invariantTail :: "string \<Rightarrow> bool" where
  "invariantTail [] = True"
| "invariantTail (ch # rest) =
     (if lowerAlnum ch \<or> ch \<in> {CHR ''.'', CHR ''_'', CHR ''-''} then invariantTail rest
      else if ch = CHR ''/'' then (case rest of [] \<Rightarrow> False | c # _ \<Rightarrow> lowerAlnum c \<and> invariantTail rest)
      else False)"

definition invariantPattern :: "string \<Rightarrow> bool" where
  "invariantPattern value \<longleftrightarrow>
     (case value of [] \<Rightarrow> False | ch # rest \<Rightarrow> CHR ''a'' \<le> ch \<and> ch \<le> CHR ''z'' \<and> invariantTail rest)"

definition validEndpoint :: "string \<Rightarrow> bool" where
  "validEndpoint value \<longleftrightarrow>
     (if value = [] \<or> length value > 4096 \<or> \<not> validString value then False else controlFree value)"

definition validateNodeID :: "NodeID \<Rightarrow> plan_error option" where
  "validateNodeID value =
     (if value = [] \<or> length value > 256 \<or> \<not> validString value \<or> \<not> trimmed value \<or> \<not> controlFree value
      then Some ErrOther else None)"

definition validateAdapterID :: "Adapter \<Rightarrow> plan_error option" where
  "validateAdapterID a =
     (if adID a = [] \<or> length (adID a) > 256 \<or> adVersion a = [] \<or> length (adVersion a) > 256
         \<or> \<not> validString (adID a) \<or> \<not> validString (adVersion a) \<or> \<not> trimmed (adID a) \<or> \<not> trimmed (adVersion a)
         \<or> \<not> controlFree (adID a @ adVersion a)
      then Some ErrOther else None)"

section \<open>Portable keys and directives\<close>

definition ElectionTimeout :: string where "ElectionTimeout = ''election_timeout''"
definition NetworkLoss :: string where "NetworkLoss = ''network_loss''"
definition NetworkLatency :: string where "NetworkLatency = ''network_latency''"
definition StorageLatency :: string where "StorageLatency = ''storage_latency''"

lemmas choice_kinds = ElectionTimeout_def NetworkLoss_def NetworkLatency_def StorageLatency_def

definition deliver_option :: string where "deliver_option = ''deliver''"
definition drop_option :: string where "drop_option = ''drop''"

record PortableKey =
  pkKind :: string
  pkNode :: NodeID
  pkFrom :: NodeID
  pkTo :: NodeID
  pkIncarnation :: u64
  pkOccurrence :: u64

record Directive =
  drKey :: PortableKey
  drSourceIndex :: u64
  drSelection :: Selection

definition supportedKind :: "string \<Rightarrow> bool" where
  "supportedKind kind \<longleftrightarrow> kind = ElectionTimeout \<or> kind = StorageLatency \<or> kind = NetworkLoss \<or> kind = NetworkLatency"

definition keyValidate :: "PortableKey \<Rightarrow> plan_error option" where
  "keyValidate k =
     (if \<not> supportedKind (pkKind k) then Some ErrInvalidProjection
      else if pkIncarnation k = 0 \<or> pkOccurrence k = 0 then Some ErrInvalidProjection
      else if pkKind k = ElectionTimeout \<or> pkKind k = StorageLatency then
        (if \<not> validEndpoint (pkNode k) \<or> pkFrom k \<noteq> [] \<or> pkTo k \<noteq> [] then Some ErrInvalidProjection else None)
      else
        (if pkNode k \<noteq> [] \<or> \<not> validEndpoint (pkFrom k) \<or> \<not> validEndpoint (pkTo k) then Some ErrInvalidProjection
         else None))"

definition validateDirectiveSelection :: "Directive \<Rightarrow> plan_error option" where
  "validateDirectiveSelection d =
     (if pkKind (drKey d) = NetworkLoss then
        (if selNumber (drSelection d) \<noteq> None
            \<or> selOption (drSelection d) \<noteq> deliver_option \<and> selOption (drSelection d) \<noteq> drop_option
         then Some ErrInvalidProjection else None)
      else (case selNumber (drSelection d) of
          None \<Rightarrow> Some ErrInvalidProjection
        | Some n \<Rightarrow> if selOption (drSelection d) \<noteq> [] \<or> n < 0 then Some ErrInvalidProjection else None))"

text \<open>The loop of \<open>ValidateDirectives\<close>: the previous source index and the keys seen.\<close>

fun validateDirectivesFrom :: "u64 option \<Rightarrow> PortableKey list \<Rightarrow> Directive list \<Rightarrow> plan_error option" where
  "validateDirectivesFrom previous seen [] = None"
| "validateDirectivesFrom previous seen (d # ds) =
     (if unat (drSourceIndex d) \<ge> MaxDecisions then Some ErrInvalidProjection
      else if (case previous of None \<Rightarrow> False | Some p \<Rightarrow> p \<ge> drSourceIndex d) then Some ErrInvalidProjection
      else (case keyValidate (drKey d) of
          Some e \<Rightarrow> Some e
        | None \<Rightarrow> (case validateDirectiveSelection d of
            Some e \<Rightarrow> Some e
          | None \<Rightarrow>
              if drKey d \<in> set seen then Some ErrInvalidProjection
              else validateDirectivesFrom (Some (drSourceIndex d)) (drKey d # seen) ds)))"

definition ValidateDirectives :: "Directive list \<Rightarrow> plan_error option" where
  "ValidateDirectives ds = validateDirectivesFrom None [] ds"

section \<open>Plans\<close>

definition SemanticPlanSchema :: string where "SemanticPlanSchema = ''d-raft.semantic-plan/v1''"
definition AdapterCapabilitiesSchema :: string where "AdapterCapabilitiesSchema = ''d-raft.adapter-capabilities/v1''"
definition MembershipFixedAllVoters :: string where "MembershipFixedAllVoters = ''fixed_all_voters''"
definition maxCapabilitiesDocumentBytes :: int where "maxCapabilitiesDocumentBytes = 2 ^ 20"
definition maxCapabilityValues :: nat where "maxCapabilityValues = 1024"
definition maxCapabilityValueBytes :: nat where "maxCapabilityValueBytes = 256"

definition V1ProjectionKinds :: "string list" where
  "V1ProjectionKinds = [ElectionTimeout, NetworkLatency, NetworkLoss, StorageLatency]"

definition V1Actions :: "string list" where
  "V1Actions = [ActionCrash, ActionHeal, ActionPartition, ActionPropose, ActionRestart]"

record Convergence =
  cvWorkloadEndNS :: int
  cvComparisonBoundaryNS :: int

record Source =
  srAdapter :: Adapter
  srRunSHA256 :: string

record Plan =
  plSchema :: string
  plScenario :: Scenario
  plConfiguration :: Configuration
  plApplication :: string
  plConvergence :: Convergence
  plSource :: Source
  plFallbackSeed :: u64
  plDirectives :: "Directive list option"

record Capabilities =
  cbSchema :: string
  cbAdapter :: Adapter
  cbMembershipProfiles :: "string list option"
  cbActions :: "string list option"
  cbApplicationProfiles :: "string list option"
  cbProjectionKinds :: "string list option"
  cbInvariantIDs :: "string list option"

text \<open>The closure \<open>consume\<close>: what remains of the budget, or \<open>None\<close> when the amount does not fit.\<close>

definition consume :: "int \<Rightarrow> int \<Rightarrow> int option" where
  "consume amount remaining = (if amount < 0 \<or> amount > remaining then None else Some (remaining - amount))"

fun consumeAll :: "int list \<Rightarrow> int \<Rightarrow> int option" where
  "consumeAll [] remaining = Some remaining"
| "consumeAll (a # as) remaining = (case consume a remaining of None \<Rightarrow> None | Some r \<Rightarrow> consumeAll as r)"

fun consumeActions :: "Action list \<Rightarrow> int \<Rightarrow> int option" where
  "consumeActions [] remaining = Some remaining"
| "consumeActions (a # rest) remaining =
     (let encodedDataBytes = (int (length (acData a)) + 2) div 3 * 4 in
      (case consume (512 + encodedDataBytes + int (length (acNode a))) remaining of
         None \<Rightarrow> None
       | Some r \<Rightarrow> (case consumeAll (map (\<lambda>node. int (length node) + 4) (concat (acGroups a))) r of
           None \<Rightarrow> None
         | Some r' \<Rightarrow> consumeActions rest r')))"

definition planFitsResourceBudget :: "Plan \<Rightarrow> bool" where
  "planFitsResourceBudget plan \<longleftrightarrow>
     (case consumeActions (snActions (plScenario plan)) (DefaultMaxArtifactBytes - 4096) of
        None \<Rightarrow> False
      | Some r \<Rightarrow> consumeAll (map (\<lambda>d. 512 + int (length (pkNode (drKey d))) + int (length (pkFrom (drKey d)))
            + int (length (pkTo (drKey d)))) (items (plDirectives plan))) r \<noteq> None)"

definition keyNodes :: "PortableKey \<Rightarrow> NodeID list" where
  "keyNodes k = filter (\<lambda>node. node \<noteq> []) [pkNode k, pkFrom k, pkTo k]"

definition planValidate :: "Plan \<Rightarrow> plan_error option" where
  "planValidate plan =
     (let c = plConvergence plan in
      if plSchema plan \<noteq> SemanticPlanSchema then Some ErrInvalidPlan
      else if ValidateExperiment (plScenario plan) (plConfiguration plan) \<noteq> None then Some ErrInvalidPlan
      else if \<not> planFitsResourceBudget plan then Some ErrInvalidPlan
      else if configValidate (plApplication plan) \<noteq> None then Some ErrInvalidPlan
      else if validateAdapterID (srAdapter (plSource plan)) \<noteq> None then Some ErrInvalidPlan
      else if \<not> digestPattern (srRunSHA256 (plSource plan)) then Some ErrInvalidPlan
      else if cvComparisonBoundaryNS c \<noteq> snDurationNS (plScenario plan) \<or> cvWorkloadEndNS c < 0
              \<or> cvWorkloadEndNS c \<ge> cvComparisonBoundaryNS c then Some ErrInvalidPlan
      else if \<not> list_all (\<lambda>a. \<not> acAtNS a > cvWorkloadEndNS c) (snActions (plScenario plan)) then Some ErrInvalidPlan
      else if plDirectives plan = None \<or> length (items (plDirectives plan)) > MaxDecisions then Some ErrInvalidPlan
      else if ValidateDirectives (items (plDirectives plan)) \<noteq> None then Some ErrInvalidPlan
      else if \<not> list_all (\<lambda>d. list_all (\<lambda>node. node \<in> set (cfMembers (plConfiguration plan))) (keyNodes (drKey d)))
          (items (plDirectives plan)) then Some ErrInvalidPlan
      else None)"

section \<open>Capabilities\<close>

fun strictlySorted :: "string list \<Rightarrow> bool" where
  "strictlySorted (x # y # rest) = (if x \<ge> y then False else strictlySorted (y # rest))"
| "strictlySorted values = True"

definition boundedSet :: "string list option \<Rightarrow> bool" where
  "boundedSet values \<longleftrightarrow> \<not> (values = None \<or> length (items values) > maxCapabilityValues \<or> \<not> strictlySorted (items values))"

definition validateMembershipProfiles :: "string list option \<Rightarrow> plan_error option" where
  "validateMembershipProfiles values =
     (if \<not> boundedSet values then Some ErrInvalidCapabilities
      else if \<not> list_all (\<lambda>value. value = MembershipFixedAllVoters) (items values) then Some ErrInvalidCapabilities
      else None)"

definition validateActionKinds :: "string list option \<Rightarrow> plan_error option" where
  "validateActionKinds values =
     (if \<not> boundedSet values then Some ErrInvalidCapabilities
      else if \<not> list_all (\<lambda>value. value \<in> {ActionPropose, ActionCrash, ActionRestart, ActionCrashAfterNextPersist,
          ActionSnapshot, ActionBeginMembership, ActionFinalizeMembership, ActionPartition, ActionHeal}) (items values)
      then Some ErrInvalidCapabilities
      else None)"

definition validateCapabilityStrings :: "string list option \<Rightarrow> (string \<Rightarrow> bool) \<Rightarrow> plan_error option" where
  "validateCapabilityStrings values valid =
     (if \<not> boundedSet values then Some ErrInvalidCapabilities
      else if \<not> list_all (\<lambda>value. \<not> (length value = 0 \<or> length value > maxCapabilityValueBytes \<or> \<not> trimmed value
          \<or> \<not> controlFree value \<or> \<not> valid value)) (items values) then Some ErrInvalidCapabilities
      else None)"

definition validateApplicationProfiles :: "string list option \<Rightarrow> plan_error option" where
  "validateApplicationProfiles values = validateCapabilityStrings values (\<lambda>value. value = CommandSchema)"

definition validateProjectionKinds :: "string list option \<Rightarrow> plan_error option" where
  "validateProjectionKinds values =
     (if \<not> boundedSet values then Some ErrInvalidCapabilities
      else if \<not> list_all supportedKind (items values) then Some ErrInvalidCapabilities
      else None)"

definition capabilitiesValidate :: "Capabilities \<Rightarrow> plan_error option" where
  "capabilitiesValidate c =
     (if cbSchema c \<noteq> AdapterCapabilitiesSchema then Some ErrInvalidCapabilities
      else if validateAdapterID (cbAdapter c) \<noteq> None then Some ErrInvalidCapabilities
      else case validateMembershipProfiles (cbMembershipProfiles c) of Some e \<Rightarrow> Some e | None \<Rightarrow>
      (case validateActionKinds (cbActions c) of Some e \<Rightarrow> Some e | None \<Rightarrow>
      (case validateApplicationProfiles (cbApplicationProfiles c) of Some e \<Rightarrow> Some e | None \<Rightarrow>
      (case validateProjectionKinds (cbProjectionKinds c) of Some e \<Rightarrow> Some e | None \<Rightarrow>
       validateCapabilityStrings (cbInvariantIDs c) invariantPattern))))"

section \<open>Preflight\<close>

definition RejectFixedAllVoters :: string where "RejectFixedAllVoters = ''plan/fixed_all_voters_required''"
definition RejectUnsupportedAction :: string where "RejectUnsupportedAction = ''plan/unsupported_action''"
definition RejectInvalidCommand :: string where "RejectInvalidCommand = ''plan/invalid_portable_command''"
definition RejectDuplicateCommand :: string where "RejectDuplicateCommand = ''plan/duplicate_command_id''"
definition RejectUnbalancedLifecycle :: string where "RejectUnbalancedLifecycle = ''plan/unbalanced_lifecycle''"
definition RejectUnhealedNetwork :: string where "RejectUnhealedNetwork = ''plan/unhealed_network''"
definition RejectSourceAdapter :: string where "RejectSourceAdapter = ''capability/left/source_adapter''"
definition RejectLeftMembership :: string where "RejectLeftMembership = ''capability/left/membership_profile''"
definition RejectRightMembership :: string where "RejectRightMembership = ''capability/right/membership_profile''"
definition RejectLeftAction :: string where "RejectLeftAction = ''capability/left/action''"
definition RejectRightAction :: string where "RejectRightAction = ''capability/right/action''"
definition RejectLeftApplication :: string where "RejectLeftApplication = ''capability/left/application_profile''"
definition RejectRightApplication :: string where "RejectRightApplication = ''capability/right/application_profile''"
definition RejectLeftProjectionKind :: string where "RejectLeftProjectionKind = ''capability/left/projection_kind''"
definition RejectRightProjectionKind :: string where "RejectRightProjectionKind = ''capability/right/projection_kind''"

record Eligibility =
  elEligible :: bool
  elRejections :: "string list option"

definition fixedAllVoters :: "Configuration \<Rightarrow> bool" where
  "fixedAllVoters c \<longleftrightarrow>
     (if length (cfLearners c) \<noteq> 0 then False
      else if length (cfVoters c) = 0 then True
      else cfMembers c = cfVoters c)"

text \<open>The state of the walk over the actions: what \<open>Preflight\<close> keeps in its local variables.\<close>

record Walk =
  wkRejections :: "string list"
  wkRequired :: "string list"
  wkCommands :: "CommandID list"
  wkUp :: "(NodeID \<times> bool) list"
  wkPartitioned :: bool
  wkLifecycleValid :: bool

definition isUp :: "Walk \<Rightarrow> NodeID \<Rightarrow> bool" where
  "isUp w node \<longleftrightarrow> map_get False (Some (wkUp w)) node"

definition walkAction :: "Action \<Rightarrow> Walk \<Rightarrow> Walk" where
  "walkAction a w0 =
     (let w = w0\<lparr>wkRequired := List.insert (acKind a) (wkRequired w0)\<rparr> in
      if acKind a = ActionPropose then
        (case DecodeCommand (acData a) of
           Inl _ \<Rightarrow> w\<lparr>wkRejections := wkRejections w @ [RejectInvalidCommand]\<rparr>
         | Inr command \<Rightarrow>
             if cmdID command \<in> set (wkCommands w) then w\<lparr>wkRejections := wkRejections w @ [RejectDuplicateCommand]\<rparr>
             else w\<lparr>wkCommands := cmdID command # wkCommands w\<rparr>)
      else if acKind a = ActionCrash then
        (if \<not> isUp w (acNode a) then w\<lparr>wkLifecycleValid := False\<rparr>
         else w\<lparr>wkUp := AList.update (acNode a) False (wkUp w)\<rparr>)
      else if acKind a = ActionRestart then
        (if isUp w (acNode a) then w\<lparr>wkLifecycleValid := False\<rparr>
         else w\<lparr>wkUp := AList.update (acNode a) True (wkUp w)\<rparr>)
      else if acKind a = ActionPartition then w\<lparr>wkPartitioned := True\<rparr>
      else if acKind a = ActionHeal then w\<lparr>wkPartitioned := False\<rparr>
      else w\<lparr>wkRejections := wkRejections w @ [RejectUnsupportedAction]\<rparr>)"

definition startWalk :: "Plan \<Rightarrow> Capabilities \<Rightarrow> Capabilities \<Rightarrow> Walk" where
  "startWalk plan left right =
     \<lparr>wkRejections =
        (if \<not> fixedAllVoters (plConfiguration plan) then [RejectFixedAllVoters] else [])
        @ (if srAdapter (plSource plan) \<noteq> cbAdapter left then [RejectSourceAdapter] else [])
        @ (if MembershipFixedAllVoters \<notin> set (items (cbMembershipProfiles left)) then [RejectLeftMembership] else [])
        @ (if MembershipFixedAllVoters \<notin> set (items (cbMembershipProfiles right)) then [RejectRightMembership] else [])
        @ (if plApplication plan \<notin> set (items (cbApplicationProfiles left)) then [RejectLeftApplication] else [])
        @ (if plApplication plan \<notin> set (items (cbApplicationProfiles right)) then [RejectRightApplication] else []),
      wkRequired = [], wkCommands = [],
      wkUp = map (\<lambda>m. (m, True)) (remdups (cfMembers (plConfiguration plan))),
      wkPartitioned = False, wkLifecycleValid = True\<rparr>"

text \<open>\<open>slices.Sort\<close> followed by \<open>slices.Compact\<close>: the sorted list without repetitions.\<close>

definition sortCompact :: "string list \<Rightarrow> string list" where
  "sortCompact values = remdups_adj (sort values)"

text \<open>The code ranges over Go maps for the required actions and for the nodes that are up; the order is lost
  in the sort and in the conjunction.\<close>

definition rejectionsOf :: "Walk \<Rightarrow> Capabilities \<Rightarrow> Capabilities \<Rightarrow> string list" where
  "rejectionsOf w left right =
     wkRejections w
     @ (if \<not> (wkLifecycleValid w \<and> list_all snd (wkUp w)) then [RejectUnbalancedLifecycle] else [])
     @ (if wkPartitioned w then [RejectUnhealedNetwork] else [])
     @ concat (map (\<lambda>action.
         (if action \<notin> set (items (cbActions left)) then [RejectLeftAction] else [])
         @ (if action \<notin> set (items (cbActions right)) then [RejectRightAction] else [])) (wkRequired w))
     @ concat (map (\<lambda>kind.
         (if kind \<notin> set (items (cbProjectionKinds left)) then [RejectLeftProjectionKind] else [])
         @ (if kind \<notin> set (items (cbProjectionKinds right)) then [RejectRightProjectionKind] else [])) V1ProjectionKinds)"

definition Preflight :: "Plan \<Rightarrow> Capabilities \<Rightarrow> Capabilities \<Rightarrow> plan_error + Eligibility" where
  "Preflight plan left right =
     (case planValidate plan of Some e \<Rightarrow> Inl e | None \<Rightarrow>
     (case capabilitiesValidate left of Some e \<Rightarrow> Inl e | None \<Rightarrow>
     (case capabilitiesValidate right of Some e \<Rightarrow> Inl e | None \<Rightarrow>
        let rejections = sortCompact
          (rejectionsOf (fold walkAction (snActions (plScenario plan)) (startWalk plan left right)) left right) in
        Inr \<lparr>elEligible = (length rejections = 0), elRejections = Some rejections\<rparr>)))"

section \<open>Documents\<close>

text \<open>
  \<open>DecodePlan\<close> and \<open>DecodeCapabilities\<close>: the reader is \<open>None\<close> when it is \<open>nil\<close>, and otherwise the bytes it
  yields up to a read error; the typed decoding of the one value is the argument \<open>decode\<close>.
\<close>

definition decodePlanDocument ::
  "(bytes \<Rightarrow> 'a option) \<Rightarrow> (bytes \<times> bool) option \<Rightarrow> int \<Rightarrow> plan_error + 'a" where
  "decodePlanDocument decode reader maximum =
     (case reader of
        None \<Rightarrow> Inl ErrOther
      | Some (contents, failing) \<Rightarrow>
          let data = take (nat (maximum + 1)) contents in
          if failing \<and> int (length contents) \<le> maximum then Inl ErrOther
          else if int (length data) > maximum then Inl ErrDocumentTooLarge
          else if RejectDuplicateNames data \<noteq> None then Inl ErrOther
          else (case decode data of None \<Rightarrow> Inl ErrOther | Some v \<Rightarrow> if readDocument data = None then Inl ErrOther else Inr v))"

definition DecodePlan :: "(bytes \<Rightarrow> Plan option) \<Rightarrow> (bytes \<times> bool) option \<Rightarrow> plan_error + Plan" where
  "DecodePlan decode reader =
     (case decodePlanDocument decode reader DefaultMaxArtifactBytes of
        Inl _ \<Rightarrow> Inl ErrInvalidPlan
      | Inr plan \<Rightarrow> (case planValidate plan of Some e \<Rightarrow> Inl e | None \<Rightarrow> Inr plan))"

definition DecodeCapabilities :: "(bytes \<Rightarrow> Capabilities option) \<Rightarrow> (bytes \<times> bool) option \<Rightarrow> plan_error + Capabilities" where
  "DecodeCapabilities decode reader =
     (case decodePlanDocument decode reader maxCapabilitiesDocumentBytes of
        Inl _ \<Rightarrow> Inl ErrInvalidCapabilities
      | Inr c \<Rightarrow> (case capabilitiesValidate c of Some e \<Rightarrow> Inl e | None \<Rightarrow> Inr c))"

text \<open>\<open>digestCanonicalJSON\<close>: \<open>json.Marshal\<close> is an argument and \<open>None\<close> is its error.\<close>

definition digestCanonicalJSON :: "(bytes \<Rightarrow> bytes) \<Rightarrow> ('a \<Rightarrow> bytes option) \<Rightarrow> 'a \<Rightarrow> plan_error + string" where
  "digestCanonicalJSON sha marshal value =
     (case marshal value of None \<Rightarrow> Inl ErrOther | Some encoded \<Rightarrow> Inr (EncodeToString (sha encoded)))"

definition DigestPlan :: "(bytes \<Rightarrow> bytes) \<Rightarrow> (Plan \<Rightarrow> bytes option) \<Rightarrow> Plan \<Rightarrow> plan_error + string" where
  "DigestPlan sha marshal plan =
     (case planValidate plan of
        Some e \<Rightarrow> Inl e
      | None \<Rightarrow> (case marshal plan of None \<Rightarrow> Inl ErrInvalidPlan | Some encoded \<Rightarrow> Inr (EncodeToString (sha encoded))))"

end
