(* ===== verification/SemProject.thy ===== *)
theory SemProject
  imports SemPlan
begin

text \<open>
  Projection of semantic plans (\<open>src/semanticplan/projector.go\<close>): the portable identity of a choice, the
  directives of a source tape, and the projector, which answers each target choice with the directive of its
  key, with the only selection of a fixed choice, or with the seeded fallback. Maps with keys of a fixed set
  are association lists; sets of keys are lists. The outer \<open>None\<close> of \<open>Choose\<close> is a panic of the fallback.
\<close>

section \<open>The identity of a choice\<close>

definition maximumContextBytes :: int where "maximumContextBytes = 16 * 2 ^ 20"

definition decodeContextObject :: "bytes \<Rightarrow> (string \<times> json) list option" where
  "decodeContextObject document =
     (if length document = 0 \<or> int (length document) > maximumContextBytes \<or> \<not> utf8Valid document then None
      else if RejectDuplicateNames document \<noteq> None then None
      else (case readDocument document of Some (JObject object) \<Rightarrow> Some object | _ \<Rightarrow> None))"

definition requiredString :: "(string \<times> json) list \<Rightarrow> string \<Rightarrow> string option" where
  "requiredString object name =
     (case map_of object name of
        Some (JString value) \<Rightarrow> if validEndpoint value then Some value else None
      | _ \<Rightarrow> None)"

definition parseUint :: "bytes \<Rightarrow> u64 option" where
  "parseUint text =
     (let value = foldl (\<lambda>n b. n * 10 + (unat b - 48)) 0 text in
      if text = [] \<or> \<not> list_all isDigit text \<or> value \<ge> 2 ^ 64 then None else Some (of_nat value))"

text \<open>The name found among alternatives, or \<open>None\<close> when two of them are present.\<close>

fun foundName :: "(string \<times> json) list \<Rightarrow> string \<Rightarrow> string list \<Rightarrow> string option" where
  "foundName object found [] = Some found"
| "foundName object found (name # names) =
     (if map_of object name = None then foundName object found names
      else if found \<noteq> [] then None
      else foundName object name names)"

text \<open>The text of a value that is not a number starts with a quote, a bracket, a brace or a letter, which
  \<open>strconv.ParseUint\<close> refuses.\<close>

definition requiredUint :: "(string \<times> json) list \<Rightarrow> string list \<Rightarrow> u64 option" where
  "requiredUint object names =
     (case foundName object [] names of
        None \<Rightarrow> None
      | Some found \<Rightarrow>
          if found = [] then None
          else (case map_of object found of
            Some (JNumber text) \<Rightarrow> if text = [] \<or> text = [48] \<or> hd text = 48 then None else parseUint text
          | _ \<Rightarrow> None))"

definition rejectFields :: "(string \<times> json) list \<Rightarrow> string list \<Rightarrow> bool" where
  "rejectFields object names \<longleftrightarrow> list_ex (\<lambda>name. map_of object name \<noteq> None) names"

definition validatePortableChoice :: "Choice \<Rightarrow> plan_error option" where
  "validatePortableChoice c =
     (if ValidateChoice c \<noteq> None then Some ErrInvalidProjection
      else if \<not> supportedKind (chKind c) then Some ErrInvalidProjection
      else if chKind c = NetworkLoss then
        (if length (chOptions c) = 0 then Some ErrInvalidProjection
         else if \<not> list_all (\<lambda>opt. oID opt = deliver_option \<or> oID opt = drop_option) (chOptions c)
         then Some ErrInvalidProjection
         else None)
      else if chMin c = None \<or> chMax c = None then Some ErrInvalidProjection
      else None)"

definition durationKey :: "string \<Rightarrow> (string \<times> json) list \<Rightarrow> PortableKey option" where
  "durationKey kind object =
     (if rejectFields object [''from'', ''to'', ''sender_incarnation'', ''send_sequence''] then None
      else do {
        node \<leftarrow> requiredString object ''node'';
        incarnation \<leftarrow> requiredUint object [''incarnation''];
        occurrence \<leftarrow> requiredUint object [''generation''];
        Some \<lparr>pkKind = kind, pkNode = node, pkFrom = [], pkTo = [], pkIncarnation = incarnation,
          pkOccurrence = occurrence\<rparr>
      })"

definition networkKey :: "string \<Rightarrow> (string \<times> json) list \<Rightarrow> PortableKey option" where
  "networkKey kind object =
     (if rejectFields object [''node'', ''incarnation'', ''generation''] then None
      else do {
        source \<leftarrow> requiredString object ''from'';
        target \<leftarrow> requiredString object ''to'';
        incarnation \<leftarrow> requiredUint object [''sender_incarnation''];
        occurrence \<leftarrow> requiredUint object [''send_sequence''];
        Some \<lparr>pkKind = kind, pkNode = [], pkFrom = source, pkTo = target, pkIncarnation = incarnation,
          pkOccurrence = occurrence\<rparr>
      })"

definition PortableKeyForChoice :: "Choice \<Rightarrow> plan_error + PortableKey" where
  "PortableKeyForChoice c =
     (case validatePortableChoice c of
        Some e \<Rightarrow> Inl e
      | None \<Rightarrow>
          (case decodeContextObject (chContext c) of
             None \<Rightarrow> Inl ErrInvalidProjection
           | Some object \<Rightarrow>
               (case (if chKind c = ElectionTimeout \<or> chKind c = StorageLatency then durationKey (chKind c) object
                      else networkKey (chKind c) object) of
                  None \<Rightarrow> Inl ErrInvalidProjection
                | Some key \<Rightarrow> (case keyValidate key of Some e \<Rightarrow> Inl e | None \<Rightarrow> Inr key))))"

definition fixedSelection :: "Choice \<Rightarrow> Selection option" where
  "fixedSelection c =
     (if length (chOptions c) = 1 then Some (optionSelection (oID (hd (chOptions c))))
      else (case (chMin c, chMax c) of
          (Some lo, Some hi) \<Rightarrow> if lo = hi then Some (numberSelection lo) else None
        | _ \<Rightarrow> None))"

section \<open>Directives of a tape\<close>

fun directivesFrom :: "nat \<Rightarrow> PortableKey list \<Rightarrow> TapeEntry list \<Rightarrow> plan_error + Directive list" where
  "directivesFrom index seen [] = Inr []"
| "directivesFrom index seen (entry # entries) =
     (case validatePortableChoice (teChoice entry) of
        Some _ \<Rightarrow> Inl ErrInvalidProjection
      | None \<Rightarrow>
          (case PortableKeyForChoice (teChoice entry) of
             Inl e \<Rightarrow> Inl e
           | Inr key \<Rightarrow>
               if key \<in> set seen then Inl ErrDuplicateTarget
               else (case directivesFrom (Suc index) (key # seen) entries of
                 Inl e \<Rightarrow> Inl e
               | Inr ds \<Rightarrow>
                   if fixedSelection (teChoice entry) \<noteq> None then Inr ds
                   else Inr (\<lparr>drKey = key, drSourceIndex = of_nat index, drSelection = teSelection entry\<rparr> # ds))))"

definition DirectivesFromTape :: "(bytes \<Rightarrow> bytes) \<Rightarrow> Tape \<Rightarrow> plan_error + Directive list" where
  "DirectivesFromTape sha tape =
     (case newTapeDecider sha tape False of
        Inl _ \<Rightarrow> Inl ErrInvalidProjection
      | Inr _ \<Rightarrow>
          (case directivesFrom 0 [] (tpEntries tape) of
             Inl e \<Rightarrow> Inl e
           | Inr ds \<Rightarrow> (case ValidateDirectives ds of Some e \<Rightarrow> Inl e | None \<Rightarrow> Inr ds)))"

section \<open>Orders\<close>

definition cmpCompare :: "'a :: linorder \<Rightarrow> 'a \<Rightarrow> int" where
  "cmpCompare l r = (if l < r then - 1 else if l > r then 1 else 0)"

fun firstNonzero :: "int list \<Rightarrow> int" where
  "firstNonzero [] = 0"
| "firstNonzero (c # cs) = (if c \<noteq> 0 then c else firstNonzero cs)"

definition compareKeys :: "PortableKey \<Rightarrow> PortableKey \<Rightarrow> int" where
  "compareKeys l r = firstNonzero
     [cmpCompare (pkKind l) (pkKind r), cmpCompare (pkNode l) (pkNode r), cmpCompare (pkFrom l) (pkFrom r),
      cmpCompare (pkTo l) (pkTo r), cmpCompare (pkIncarnation l) (pkIncarnation r),
      cmpCompare (pkOccurrence l) (pkOccurrence r)]"

definition compareDirectives :: "Directive \<Rightarrow> Directive \<Rightarrow> int" where
  "compareDirectives l r =
     (let comparison = cmpCompare (drSourceIndex l) (drSourceIndex r) in
      if comparison \<noteq> 0 then comparison else compareKeys (drKey l) (drKey r))"

text \<open>The sorts order by these comparisons, which are the lexicographic orders of the tuples of fields.\<close>

definition keyTuple :: "PortableKey \<Rightarrow> string \<times> NodeID \<times> NodeID \<times> NodeID \<times> u64 \<times> u64" where
  "keyTuple k = (pkKind k, pkNode k, pkFrom k, pkTo k, pkIncarnation k, pkOccurrence k)"

definition directiveTuple :: "Directive \<Rightarrow> u64 \<times> string \<times> NodeID \<times> NodeID \<times> NodeID \<times> u64 \<times> u64" where
  "directiveTuple d = (drSourceIndex d, keyTuple (drKey d))"

definition sortKeys :: "PortableKey list \<Rightarrow> PortableKey list" where
  "sortKeys keys = sort_key keyTuple keys"

definition sortDirectives :: "Directive list \<Rightarrow> Directive list" where
  "sortDirectives ds = sort_key directiveTuple ds"

section \<open>The projector\<close>

datatype ProjectionFidelity = ProjectionExact | ProjectionPartial | ProjectionFailed | OtherFidelity string

record ProjectionReport =
  prFidelity :: ProjectionFidelity
  prDirectives :: int
  prProjected :: int
  prFixed :: int
  prAdditional :: "PortableKey list option"
  prUnmatched :: "Directive list option"

record Projector =
  pjDirectives :: "(PortableKey \<times> Directive) list"
  pjConsumed :: "PortableKey list"
  pjSeen :: "PortableKey list"
  pjFallback :: Rand
  pjAdditional :: "PortableKey list"
  pjProjected :: int
  pjFixed :: int
  pjFailed :: "plan_error option"

definition NewProjector :: "Directive list \<Rightarrow> u64 \<Rightarrow> plan_error + Projector" where
  "NewProjector ds seed =
     (case ValidateDirectives ds of
        Some e \<Rightarrow> Inl e
      | None \<Rightarrow> Inr \<lparr>pjDirectives = fold (\<lambda>d m. AList.update (drKey d) d m) ds [], pjConsumed = [], pjSeen = [],
          pjFallback = NewSeedDecider seed, pjAdditional = [], pjProjected = 0, pjFixed = 0, pjFailed = None\<rparr>)"

definition fail_with :: "plan_error \<Rightarrow> Projector \<Rightarrow> Projector \<times> (plan_error + Selection)" where
  "fail_with e p = (case pjFailed p of Some f \<Rightarrow> (p, Inl f) | None \<Rightarrow> (p\<lparr>pjFailed := Some e\<rparr>, Inl e))"

text \<open>The answer for a choice whose key is new: fixed, pinned by a directive, or from the fallback.\<close>

definition answer_key ::
  "Projector \<Rightarrow> Choice \<Rightarrow> PortableKey \<Rightarrow> (Projector \<times> (plan_error + Selection)) option" where
  "answer_key p c key =
     (case fixedSelection c of
        Some sel \<Rightarrow> Some (p\<lparr>pjFixed := pjFixed p + 1\<rparr>, Inr sel)
      | None \<Rightarrow>
          (case map_of (pjDirectives p) key of
             Some d \<Rightarrow>
               if ValidateSelection c (drSelection d) \<noteq> None then Some (fail_with ErrInvalidProjection p)
               else Some (p\<lparr>pjConsumed := List.insert key (pjConsumed p), pjProjected := pjProjected p + 1\<rparr>,
                      Inr (drSelection d))
           | None \<Rightarrow>
               (case seedChoose (pjFallback p) c of
                  None \<Rightarrow> None
                | Some (r, Inl _) \<Rightarrow> Some (fail_with ErrInvalidProjection (p\<lparr>pjFallback := r\<rparr>))
                | Some (r, Inr sel) \<Rightarrow> Some (p\<lparr>pjFallback := r, pjAdditional := pjAdditional p @ [key]\<rparr>, Inr sel))))"

definition projectorChoose :: "Projector \<Rightarrow> Choice \<Rightarrow> (Projector \<times> (plan_error + Selection)) option" where
  "projectorChoose p c =
     (case pjFailed p of
        Some e \<Rightarrow> Some (p, Inl e)
      | None \<Rightarrow>
          (case validatePortableChoice c of
             Some e \<Rightarrow> Some (fail_with e p)
           | None \<Rightarrow>
               (case PortableKeyForChoice c of
                  Inl e \<Rightarrow> Some (fail_with e p)
                | Inr key \<Rightarrow>
                    if key \<in> set (pjSeen p) then Some (fail_with ErrDuplicateTarget p)
                    else answer_key (p\<lparr>pjSeen := key # pjSeen p\<rparr>) c key)))"

definition projectorFinish :: "Projector \<Rightarrow> ProjectionReport" where
  "projectorFinish p =
     (let unmatched = sortDirectives (map snd (filter (\<lambda>(key, d). key \<notin> set (pjConsumed p)) (pjDirectives p)));
          additional = sortKeys (pjAdditional p);
          fidelity = (if pjFailed p \<noteq> None then ProjectionFailed
            else if length additional \<noteq> 0 \<or> length unmatched \<noteq> 0 then ProjectionPartial
            else ProjectionExact)
      in \<lparr>prFidelity = fidelity, prDirectives = int (length (pjDirectives p)), prProjected = pjProjected p,
          prFixed = pjFixed p, prAdditional = Some additional, prUnmatched = Some unmatched\<rparr>)"

text \<open>The methods on a pointer that may be \<open>nil\<close>.\<close>

definition Choose :: "Projector option \<Rightarrow> Choice \<Rightarrow> (Projector option \<times> (plan_error + Selection)) option" where
  "Choose receiver c =
     (case receiver of
        None \<Rightarrow> Some (None, Inl ErrInvalidProjection)
      | Some p \<Rightarrow> map_option (\<lambda>(q, answer). (Some q, answer)) (projectorChoose p c))"

definition Finish :: "Projector option \<Rightarrow> ProjectionReport" where
  "Finish receiver =
     (case receiver of
        None \<Rightarrow> \<lparr>prFidelity = ProjectionFailed, prDirectives = 0, prProjected = 0, prFixed = 0,
          prAdditional = Some [], prUnmatched = Some []\<rparr>
      | Some p \<Rightarrow> projectorFinish p)"

definition projectorErr :: "Projector option \<Rightarrow> plan_error option" where
  "projectorErr receiver = (case receiver of None \<Rightarrow> Some ErrInvalidProjection | Some p \<Rightarrow> pjFailed p)"

end
