(* ===== verification/SemOutcome.thy ===== *)
theory SemOutcome
  imports SemProject
begin

text \<open>
  Normalized outcomes and their comparison (\<open>src/semanticplan/outcome.go\<close>). A defined string type with named
  constants is a datatype whose last constructor stands for every other string. \<open>json.Marshal\<close> and
  \<open>crypto/sha256\<close> are the arguments \<open>marshal\<close> and \<open>sha\<close>; decoding of documents goes through
  \<^term>\<open>decodePlanDocument\<close>, whose bound and checks \<open>decodeNormalized\<close> shares.
\<close>

section \<open>Data\<close>

definition NormalizedOutcomeSchema :: string where "NormalizedOutcomeSchema = ''d-raft.normalized-outcome/v1''"
definition NormalizedComparisonSchema :: string where "NormalizedComparisonSchema = ''d-raft.normalized-comparison/v1''"
definition maxNormalizedDocumentBytes :: int where "maxNormalizedDocumentBytes = 8 * 2 ^ 20"
definition maxNormalizedNodes :: nat where "maxNormalizedNodes = 1024"
definition maxNormalizedInvariants :: nat where "maxNormalizedInvariants = 1024"

datatype EligibilityStatus = EligibilityEligible | EligibilityIneligible | OtherEligibility string

datatype CompletionStatus =
    CompletionNotExecuted | CompletionCompleted | CompletionSafetyViolation | CompletionDecisionExhausted
  | CompletionStepLimit | CompletionTimeLimit | CompletionExecutionError | OtherCompletion string

definition completionStatuses :: "CompletionStatus list" where
  "completionStatuses =
     [CompletionNotExecuted, CompletionCompleted, CompletionSafetyViolation, CompletionDecisionExhausted,
      CompletionStepLimit, CompletionTimeLimit, CompletionExecutionError]"

record NodeCommitment =
  ncNode :: NodeID
  ncCommitment :: Commitment

record NormalizedOutcome =
  noSchema :: string
  noPlanSHA256 :: string
  noExecutionSHA256 :: string
  noAdapter :: Adapter
  noEligibility :: EligibilityStatus
  noProjection :: ProjectionFidelity
  noCompletion :: CompletionStatus
  noNodesAgree :: bool
  noNodeCommitments :: "NodeCommitment list option"
  noNegotiated :: "string list option"
  noCommon :: "string list option"
  noSpecific :: "string list option"

datatype EligibilityComparison =
    EligibilityBothEligible | EligibilityLeftIneligible | EligibilityRightIneligible | EligibilityBothIneligible
  | OtherEligibilityComparison string

datatype AgreementStatus = AgreementAgree | AgreementDisagree | AgreementNotComparable | OtherAgreement string

datatype ProjectionComparison =
    ProjectionBothExact | ProjectionLeftPartial | ProjectionRightPartial | ProjectionBothPartial
  | ProjectionNotComparable | OtherProjectionComparison string

datatype ExecutionBoundaryComparison =
    ExecutionBothReached | ExecutionLeftNotReached | ExecutionRightNotReached | ExecutionNeitherReached
  | ExecutionNotComparable | OtherExecutionBoundary string

datatype ApplicationComparison =
    ApplicationAgree | ApplicationWorkloadDivergence | ApplicationStateDivergence
  | ApplicationLeftNodesDisagreeAtBoundary | ApplicationRightNodesDisagreeAtBoundary | ApplicationNotComparable
  | OtherApplication string

definition eligibilityComparisons :: "EligibilityComparison list" where
  "eligibilityComparisons =
     [EligibilityBothEligible, EligibilityLeftIneligible, EligibilityRightIneligible, EligibilityBothIneligible]"

definition agreementStatuses :: "AgreementStatus list" where
  "agreementStatuses = [AgreementAgree, AgreementDisagree, AgreementNotComparable]"

definition projectionComparisons :: "ProjectionComparison list" where
  "projectionComparisons =
     [ProjectionBothExact, ProjectionLeftPartial, ProjectionRightPartial, ProjectionBothPartial,
      ProjectionNotComparable]"

definition executionBoundaryComparisons :: "ExecutionBoundaryComparison list" where
  "executionBoundaryComparisons =
     [ExecutionBothReached, ExecutionLeftNotReached, ExecutionRightNotReached, ExecutionNeitherReached,
      ExecutionNotComparable]"

definition applicationComparisons :: "ApplicationComparison list" where
  "applicationComparisons =
     [ApplicationAgree, ApplicationWorkloadDivergence, ApplicationStateDivergence,
      ApplicationLeftNodesDisagreeAtBoundary, ApplicationRightNodesDisagreeAtBoundary, ApplicationNotComparable]"

lemmas status_lists = completionStatuses_def eligibilityComparisons_def agreementStatuses_def
  projectionComparisons_def executionBoundaryComparisons_def applicationComparisons_def

record NormalizedComparison =
  npSchema :: string
  npPlanSHA256 :: string
  npLeftExecutionSHA256 :: string
  npRightExecutionSHA256 :: string
  npLeftOutcomeSHA256 :: string
  npRightOutcomeSHA256 :: string
  npLeftAdapter :: Adapter
  npRightAdapter :: Adapter
  npEligibility :: EligibilityComparison
  npLeftProjection :: ProjectionFidelity
  npRightProjection :: ProjectionFidelity
  npProjection :: ProjectionComparison
  npLeftCompletion :: CompletionStatus
  npRightCompletion :: CompletionStatus
  npExecutionBoundary :: ExecutionBoundaryComparison
  npSafety :: AgreementStatus
  npNegotiated :: "string list option"
  npShared :: "string list option"
  npLeftOnly :: "string list option"
  npRightOnly :: "string list option"
  npApplication :: ApplicationComparison

section \<open>Sets of identifiers\<close>

fun invariantsFrom :: "string option \<Rightarrow> string list \<Rightarrow> bool" where
  "invariantsFrom previous [] = True"
| "invariantsFrom previous (v # vs) =
     (if \<not> invariantPattern v then False
      else if (case previous of None \<Rightarrow> False | Some p \<Rightarrow> p \<ge> v) then False
      else invariantsFrom (Some v) vs)"

definition validateInvariantSet :: "string list option \<Rightarrow> plan_error option" where
  "validateInvariantSet values =
     (if values = None \<or> length (items values) > maxNormalizedInvariants then Some ErrOther
      else if \<not> invariantsFrom None (items values) then Some ErrOther
      else None)"

definition canonicalStrings :: "string list option \<Rightarrow> string list" where
  "canonicalStrings values = sortCompact (items values)"

fun intersects :: "string list \<Rightarrow> string list \<Rightarrow> bool" where
  "intersects (l # ls) (r # rs) =
     (if l < r then intersects ls (r # rs) else if l > r then intersects (l # ls) rs else True)"
| "intersects left right = False"

fun isSubset :: "string list \<Rightarrow> string list \<Rightarrow> bool" where
  "isSubset [] universe = True"
| "isSubset (v # vs) universe =
     (case dropWhile (\<lambda>x. x < v) universe of
        [] \<Rightarrow> False
      | x # rest \<Rightarrow> if x \<noteq> v then False else isSubset vs (x # rest))"

text \<open>The shared, left-only and right-only members.\<close>

fun partitionSets :: "string list \<Rightarrow> string list \<Rightarrow> string list \<times> string list \<times> string list" where
  "partitionSets (l # ls) (r # rs) =
     (if l < r then (case partitionSets ls (r # rs) of (shared, a, b) \<Rightarrow> (shared, l # a, b))
      else if l > r then (case partitionSets (l # ls) rs of (shared, a, b) \<Rightarrow> (shared, a, r # b))
      else (case partitionSets ls rs of (shared, a, b) \<Rightarrow> (l # shared, a, b)))"
| "partitionSets [] rs = ([], [], rs)"
| "partitionSets ls [] = ([], ls, [])"

definition NormalizeInvariantIDs ::
  "string list option \<Rightarrow> string list option \<Rightarrow> plan_error + (string list \<times> string list)" where
  "NormalizeInvariantIDs observed negotiatedCommon =
     (let seen = canonicalStrings observed; universe = canonicalStrings negotiatedCommon in
      case validateInvariantSet (Some seen) of Some e \<Rightarrow> Inl e | None \<Rightarrow>
      (case validateInvariantSet (Some universe) of Some e \<Rightarrow> Inl e | None \<Rightarrow>
         Inr (filter (\<lambda>v. v \<in> set universe) seen, filter (\<lambda>v. v \<notin> set universe) seen)))"

section \<open>Commitments\<close>

definition commitmentsAgree :: "NodeCommitment list \<Rightarrow> bool" where
  "commitmentsAgree ns =
     (case ns of [] \<Rightarrow> False | n # rest \<Rightarrow> list_all (\<lambda>m. ncCommitment m = ncCommitment n) rest)"

definition validateCommitment :: "Commitment \<Rightarrow> plan_error option" where
  "validateCommitment c =
     (if cmSchema c \<noteq> CommitmentSchema \<or> unat (cmCommands c) > MaxCommands \<or> \<not> digestPattern (cmChainDigest c)
         \<or> \<not> digestPattern (cmStateDigest c) then Some ErrOther else None)"

fun commitmentsFrom :: "NodeID option \<Rightarrow> NodeCommitment list \<Rightarrow> bool" where
  "commitmentsFrom previous [] = True"
| "commitmentsFrom previous (n # ns) =
     (if validateNodeID (ncNode n) \<noteq> None then False
      else if (case previous of None \<Rightarrow> False | Some p \<Rightarrow> p \<ge> ncNode n) then False
      else if validateCommitment (ncCommitment n) \<noteq> None then False
      else commitmentsFrom (Some (ncNode n)) ns)"

text \<open>The keys of the map are distinct, so the order of the sort is total.\<close>

definition NormalizeNodeCommitments ::
  "(NodeID, Commitment) gomap \<Rightarrow> plan_error + (NodeCommitment list \<times> bool)" where
  "NormalizeNodeCommitments commitments =
     (case commitments of
        None \<Rightarrow> Inl ErrOther
      | Some cs \<Rightarrow>
          if length cs > maxNormalizedNodes then Inl ErrOther
          else if \<not> list_all (\<lambda>(node, commitment). validateNodeID node = None \<and> validateCommitment commitment = None) cs
          then Inl ErrOther
          else
            let ns = sort_key ncNode (map (\<lambda>(node, commitment). \<lparr>ncNode = node, ncCommitment = commitment\<rparr>) cs) in
            Inr (ns, commitmentsAgree ns))"

section \<open>Outcomes\<close>

definition knownFidelity :: "ProjectionFidelity \<Rightarrow> bool" where
  "knownFidelity f \<longleftrightarrow> \<not> (f \<noteq> ProjectionExact \<and> f \<noteq> ProjectionPartial \<and> f \<noteq> ProjectionFailed)"

text \<open>The checks on the statuses of an outcome.\<close>

definition outcomeStatuses :: "NormalizedOutcome \<Rightarrow> bool" where
  "outcomeStatuses outcome \<longleftrightarrow>
     (if noEligibility outcome \<noteq> EligibilityEligible \<and> noEligibility outcome \<noteq> EligibilityIneligible then False
      else if \<not> knownFidelity (noProjection outcome) then False
      else if noCompletion outcome \<notin> set completionStatuses then False
      else if noEligibility outcome = EligibilityIneligible then
        \<not> (noProjection outcome \<noteq> ProjectionFailed \<or> noCompletion outcome \<noteq> CompletionNotExecuted
           \<or> length (items (noNodeCommitments outcome)) \<noteq> 0 \<or> noNodesAgree outcome
           \<or> length (items (noCommon outcome)) \<noteq> 0 \<or> length (items (noSpecific outcome)) \<noteq> 0)
      else if noCompletion outcome = CompletionNotExecuted then False
      else \<not> (noProjection outcome = ProjectionFailed \<and> noCompletion outcome \<noteq> CompletionExecutionError))"

definition outcomeValidate :: "NormalizedOutcome \<Rightarrow> plan_error option" where
  "outcomeValidate outcome =
     (let ns = noNodeCommitments outcome; common = items (noCommon outcome);
          specific = items (noSpecific outcome); negotiated = items (noNegotiated outcome) in
      if noSchema outcome \<noteq> NormalizedOutcomeSchema then Some ErrOther
      else if \<not> digestPattern (noPlanSHA256 outcome) \<or> \<not> digestPattern (noExecutionSHA256 outcome) then Some ErrOther
      else if validateAdapterID (noAdapter outcome) \<noteq> None then Some ErrOther
      else if \<not> outcomeStatuses outcome then Some ErrOther
      else if ns = None \<or> length (items ns) > maxNormalizedNodes then Some ErrOther
      else if \<not> commitmentsFrom None (items ns) then Some ErrOther
      else if noNodesAgree outcome \<noteq> commitmentsAgree (items ns) then Some ErrOther
      else case validateInvariantSet (noNegotiated outcome) of Some e \<Rightarrow> Some e | None \<Rightarrow>
      (case validateInvariantSet (noCommon outcome) of Some e \<Rightarrow> Some e | None \<Rightarrow>
      (case validateInvariantSet (noSpecific outcome) of Some e \<Rightarrow> Some e | None \<Rightarrow>
         if intersects common specific then Some ErrOther
         else if \<not> isSubset common negotiated \<or> intersects specific negotiated then Some ErrOther
         else None)))"

text \<open>Nodes that repeat leave the order of their entries open, and then validation fails in every order.\<close>

definition CanonicalizeOutcome :: "NormalizedOutcome \<Rightarrow> plan_error + NormalizedOutcome" where
  "CanonicalizeOutcome outcome =
     (let ns = map_option (sort_key ncNode) (noNodeCommitments outcome);
          canonical = outcome\<lparr>noNodeCommitments := ns, noCommon := Some (canonicalStrings (noCommon outcome)),
            noSpecific := Some (canonicalStrings (noSpecific outcome)),
            noNegotiated := Some (canonicalStrings (noNegotiated outcome)),
            noNodesAgree := commitmentsAgree (items ns)\<rparr>
      in (case outcomeValidate canonical of Some e \<Rightarrow> Inl e | None \<Rightarrow> Inr canonical))"

definition DigestNormalizedOutcome ::
  "(bytes \<Rightarrow> bytes) \<Rightarrow> (NormalizedOutcome \<Rightarrow> bytes option) \<Rightarrow> NormalizedOutcome \<Rightarrow> plan_error + string" where
  "DigestNormalizedOutcome sha marshal outcome =
     (case outcomeValidate outcome of Some e \<Rightarrow> Inl e | None \<Rightarrow> digestCanonicalJSON sha marshal outcome)"

section \<open>The axes of a comparison\<close>

definition compareEligibility :: "EligibilityStatus \<Rightarrow> EligibilityStatus \<Rightarrow> EligibilityComparison" where
  "compareEligibility left right =
     (if left = EligibilityEligible \<and> right = EligibilityEligible then EligibilityBothEligible
      else if left = EligibilityIneligible \<and> right = EligibilityEligible then EligibilityLeftIneligible
      else if left = EligibilityEligible \<and> right = EligibilityIneligible then EligibilityRightIneligible
      else EligibilityBothIneligible)"

definition eligibilityFromComparison :: "EligibilityComparison \<Rightarrow> bool \<Rightarrow> EligibilityStatus" where
  "eligibilityFromComparison comparison left =
     (case comparison of
        EligibilityBothEligible \<Rightarrow> EligibilityEligible
      | EligibilityLeftIneligible \<Rightarrow> if left then EligibilityIneligible else EligibilityEligible
      | EligibilityRightIneligible \<Rightarrow> if left then EligibilityEligible else EligibilityIneligible
      | _ \<Rightarrow> EligibilityIneligible)"

definition compareProjection ::
  "ProjectionFidelity \<Rightarrow> ProjectionFidelity \<Rightarrow> EligibilityStatus \<Rightarrow> EligibilityStatus \<Rightarrow> ProjectionComparison" where
  "compareProjection left right leftEligibility rightEligibility =
     (if leftEligibility \<noteq> EligibilityEligible \<or> rightEligibility \<noteq> EligibilityEligible then ProjectionNotComparable
      else if left = ProjectionFailed \<or> right = ProjectionFailed then ProjectionNotComparable
      else if left = ProjectionExact \<and> right = ProjectionExact then ProjectionBothExact
      else if left = ProjectionPartial \<and> right = ProjectionExact then ProjectionLeftPartial
      else if left = ProjectionExact \<and> right = ProjectionPartial then ProjectionRightPartial
      else ProjectionBothPartial)"

definition completionReachedBoundary :: "CompletionStatus \<Rightarrow> bool" where
  "completionReachedBoundary status \<longleftrightarrow> status = CompletionCompleted"

definition compareExecutionBoundary ::
  "CompletionStatus \<Rightarrow> CompletionStatus \<Rightarrow> EligibilityStatus \<Rightarrow> EligibilityStatus \<Rightarrow> ExecutionBoundaryComparison" where
  "compareExecutionBoundary left right leftEligibility rightEligibility =
     (if leftEligibility \<noteq> EligibilityEligible \<or> rightEligibility \<noteq> EligibilityEligible then ExecutionNotComparable
      else
        let leftReached = completionReachedBoundary left; rightReached = completionReachedBoundary right in
        if leftReached \<and> rightReached then ExecutionBothReached
        else if \<not> leftReached \<and> rightReached then ExecutionLeftNotReached
        else if leftReached \<and> \<not> rightReached then ExecutionRightNotReached
        else ExecutionNeitherReached)"

definition agreement :: "bool \<Rightarrow> AgreementStatus" where
  "agreement equal = (if equal then AgreementAgree else AgreementDisagree)"

definition compareApplication :: "NormalizedOutcome \<Rightarrow> NormalizedOutcome \<Rightarrow> ApplicationComparison" where
  "compareApplication left right =
     (let ls = items (noNodeCommitments left); rs = items (noNodeCommitments right) in
      if length ls = 0 \<or> length rs = 0 then ApplicationNotComparable
      else if length ls \<noteq> length rs then ApplicationNotComparable
      else if \<not> list_all (\<lambda>(l, r). ncNode l = ncNode r) (zip ls rs) then ApplicationNotComparable
      else if \<not> noNodesAgree left then ApplicationLeftNodesDisagreeAtBoundary
      else if \<not> noNodesAgree right then ApplicationRightNodesDisagreeAtBoundary
      else
        let l = ncCommitment (hd ls); r = ncCommitment (hd rs) in
        if cmCommands l \<noteq> cmCommands r \<or> cmChainDigest l \<noteq> cmChainDigest r then ApplicationWorkloadDivergence
        else if cmStateDigest l \<noteq> cmStateDigest r then ApplicationStateDivergence
        else ApplicationAgree)"

section \<open>Comparisons\<close>

definition validateProjectionCompletionPair ::
  "EligibilityStatus \<Rightarrow> ProjectionFidelity \<Rightarrow> CompletionStatus \<Rightarrow> plan_error option" where
  "validateProjectionCompletionPair eligibility projection completion =
     (if \<not> knownFidelity projection then Some ErrOther
      else if eligibility = EligibilityIneligible then
        (if projection \<noteq> ProjectionFailed \<or> completion \<noteq> CompletionNotExecuted then Some ErrOther else None)
      else if completion = CompletionNotExecuted then Some ErrOther
      else if projection = ProjectionFailed \<and> completion \<noteq> CompletionExecutionError then Some ErrOther
      else None)"

text \<open>The partition of the common identifiers, and the safety axis over it.\<close>

definition comparisonSets :: "NormalizedComparison \<Rightarrow> plan_error option" where
  "comparisonSets p =
     (let shared = items (npShared p); lefts = items (npLeftOnly p); rights = items (npRightOnly p);
          negotiated = items (npNegotiated p) in
      case validateInvariantSet (npShared p) of Some e \<Rightarrow> Some e | None \<Rightarrow>
      (case validateInvariantSet (npNegotiated p) of Some e \<Rightarrow> Some e | None \<Rightarrow>
      (case validateInvariantSet (npLeftOnly p) of Some e \<Rightarrow> Some e | None \<Rightarrow>
      (case validateInvariantSet (npRightOnly p) of Some e \<Rightarrow> Some e | None \<Rightarrow>
       if intersects shared lefts \<or> intersects shared rights \<or> intersects lefts rights then Some ErrOther
       else if \<not> isSubset shared negotiated \<or> \<not> isSubset lefts negotiated \<or> \<not> isSubset rights negotiated
       then Some ErrOther
       else if npExecutionBoundary p \<noteq> ExecutionBothReached
          \<and> (npSafety p \<noteq> AgreementNotComparable \<or> npApplication p \<noteq> ApplicationNotComparable) then Some ErrOther
       else if npExecutionBoundary p = ExecutionBothReached \<and> npSafety p = AgreementNotComparable then Some ErrOther
       else if npSafety p = AgreementAgree \<and> (length lefts \<noteq> 0 \<or> length rights \<noteq> 0) then Some ErrOther
       else if npSafety p = AgreementDisagree \<and> length lefts + length rights = 0 then Some ErrOther
       else if npSafety p = AgreementNotComparable \<and> length shared + length lefts + length rights \<noteq> 0 then Some ErrOther
       else None))))"

definition comparisonValidate :: "NormalizedComparison \<Rightarrow> plan_error option" where
  "comparisonValidate p =
     (let leftEligibility = eligibilityFromComparison (npEligibility p) True;
          rightEligibility = eligibilityFromComparison (npEligibility p) False in
      if npSchema p \<noteq> NormalizedComparisonSchema then Some ErrOther
      else if \<not> digestPattern (npPlanSHA256 p) \<or> \<not> digestPattern (npLeftExecutionSHA256 p)
          \<or> \<not> digestPattern (npRightExecutionSHA256 p) \<or> \<not> digestPattern (npLeftOutcomeSHA256 p)
          \<or> \<not> digestPattern (npRightOutcomeSHA256 p) then Some ErrOther
      else if validateAdapterID (npLeftAdapter p) \<noteq> None then Some ErrOther
      else if validateAdapterID (npRightAdapter p) \<noteq> None then Some ErrOther
      else if npEligibility p \<notin> set eligibilityComparisons \<or> npProjection p \<notin> set projectionComparisons
          \<or> npExecutionBoundary p \<notin> set executionBoundaryComparisons \<or> npLeftCompletion p \<notin> set completionStatuses
          \<or> npRightCompletion p \<notin> set completionStatuses \<or> npSafety p \<notin> set agreementStatuses
          \<or> npApplication p \<notin> set applicationComparisons then Some ErrOther
      else case validateProjectionCompletionPair leftEligibility (npLeftProjection p) (npLeftCompletion p) of
        Some e \<Rightarrow> Some e | None \<Rightarrow>
      (case validateProjectionCompletionPair rightEligibility (npRightProjection p) (npRightCompletion p) of
        Some e \<Rightarrow> Some e | None \<Rightarrow>
       if npProjection p \<noteq> compareProjection (npLeftProjection p) (npRightProjection p) leftEligibility rightEligibility
       then Some ErrOther
       else if npExecutionBoundary p
          \<noteq> compareExecutionBoundary (npLeftCompletion p) (npRightCompletion p) leftEligibility rightEligibility
       then Some ErrOther
       else comparisonSets p))"

definition freshComparison :: "NormalizedOutcome \<Rightarrow> NormalizedOutcome \<Rightarrow> string \<Rightarrow> string \<Rightarrow> NormalizedComparison" where
  "freshComparison left right leftDigest rightDigest =
     \<lparr>npSchema = NormalizedComparisonSchema, npPlanSHA256 = noPlanSHA256 left,
      npLeftExecutionSHA256 = noExecutionSHA256 left, npRightExecutionSHA256 = noExecutionSHA256 right,
      npLeftOutcomeSHA256 = leftDigest, npRightOutcomeSHA256 = rightDigest,
      npLeftAdapter = noAdapter left, npRightAdapter = noAdapter right,
      npEligibility = compareEligibility (noEligibility left) (noEligibility right),
      npLeftProjection = noProjection left, npRightProjection = noProjection right,
      npProjection = compareProjection (noProjection left) (noProjection right) (noEligibility left) (noEligibility right),
      npLeftCompletion = noCompletion left, npRightCompletion = noCompletion right,
      npExecutionBoundary =
        compareExecutionBoundary (noCompletion left) (noCompletion right) (noEligibility left) (noEligibility right),
      npSafety = AgreementNotComparable, npNegotiated = noNegotiated left, npShared = Some [], npLeftOnly = Some [],
      npRightOnly = Some [], npApplication = ApplicationNotComparable\<rparr>"

definition CompareNormalized ::
  "(bytes \<Rightarrow> bytes) \<Rightarrow> (NormalizedOutcome \<Rightarrow> bytes option) \<Rightarrow> NormalizedOutcome \<Rightarrow> NormalizedOutcome
     \<Rightarrow> plan_error + NormalizedComparison" where
  "CompareNormalized sha marshal left right =
     (case outcomeValidate left of Some e \<Rightarrow> Inl e | None \<Rightarrow>
     (case outcomeValidate right of Some e \<Rightarrow> Inl e | None \<Rightarrow>
      if noPlanSHA256 left \<noteq> noPlanSHA256 right then Inl ErrOther
      else if items (noNegotiated left) \<noteq> items (noNegotiated right) then Inl ErrOther
      else case DigestNormalizedOutcome sha marshal left of Inl e \<Rightarrow> Inl e | Inr leftDigest \<Rightarrow>
      (case DigestNormalizedOutcome sha marshal right of Inl e \<Rightarrow> Inl e | Inr rightDigest \<Rightarrow>
         let p = freshComparison left right leftDigest rightDigest;
             q = (if npExecutionBoundary p = ExecutionBothReached then
                (case partitionSets (items (noCommon left)) (items (noCommon right)) of
                   (shared, lefts, rights) \<Rightarrow>
                     p\<lparr>npShared := Some shared, npLeftOnly := Some lefts, npRightOnly := Some rights,
                       npSafety := agreement (length lefts = 0 \<and> length rights = 0),
                       npApplication := compareApplication left right\<rparr>)
                else p)
         in (case comparisonValidate q of Some e \<Rightarrow> Inl e | None \<Rightarrow> Inr q))))"

definition DigestNormalizedComparison ::
  "(bytes \<Rightarrow> bytes) \<Rightarrow> (NormalizedComparison \<Rightarrow> bytes option) \<Rightarrow> NormalizedComparison \<Rightarrow> plan_error + string" where
  "DigestNormalizedComparison sha marshal p =
     (case comparisonValidate p of Some e \<Rightarrow> Inl e | None \<Rightarrow> digestCanonicalJSON sha marshal p)"

section \<open>Documents\<close>

text \<open>\<open>decodeNormalized\<close> differs from \<open>decodePlanDocument\<close> in its bound and in its error for a long document.\<close>

definition decodeNormalized :: "(bytes \<Rightarrow> 'a option) \<Rightarrow> (bytes \<times> bool) option \<Rightarrow> plan_error + 'a" where
  "decodeNormalized decode reader =
     (case decodePlanDocument decode reader maxNormalizedDocumentBytes of Inl _ \<Rightarrow> Inl ErrOther | Inr v \<Rightarrow> Inr v)"

definition DecodeNormalizedOutcome ::
  "(bytes \<Rightarrow> NormalizedOutcome option) \<Rightarrow> (bytes \<times> bool) option \<Rightarrow> plan_error + NormalizedOutcome" where
  "DecodeNormalizedOutcome decode reader =
     (case decodeNormalized decode reader of
        Inl e \<Rightarrow> Inl e
      | Inr outcome \<Rightarrow> (case outcomeValidate outcome of Some e \<Rightarrow> Inl e | None \<Rightarrow> Inr outcome))"

definition DecodeNormalizedComparison ::
  "(bytes \<Rightarrow> NormalizedComparison option) \<Rightarrow> (bytes \<times> bool) option \<Rightarrow> plan_error + NormalizedComparison" where
  "DecodeNormalizedComparison decode reader =
     (case decodeNormalized decode reader of
        Inl e \<Rightarrow> Inl e
      | Inr p \<Rightarrow> (case comparisonValidate p of Some e \<Rightarrow> Inl e | None \<Rightarrow> Inr p))"

end
