(* ===== verification/SemExec.thy ===== *)
theory SemExec
  imports SemOutcome
begin

text \<open>
  Semantic executions (\<open>src/semanticplan/execution.go\<close>): the evidence of one attempted projection, its
  validation, the independent reconstruction of its accounting from the plan and the tape, and the
  normalization that removes what is local to an adapter. \<open>json.Marshal\<close> of each kind of document and
  \<open>crypto/sha256\<close> are the fields of \<open>Wire\<close>. The outer \<open>None\<close> of a result is a panic of the fallback decider.
\<close>

section \<open>Data\<close>

definition SemanticExecutionSchema :: string where "SemanticExecutionSchema = ''d-raft.semantic-execution/v1''"
definition maxExecutionErrorBytes :: nat where "maxExecutionErrorBytes = 4 * 2 ^ 10"

text \<open>\<open>seEntriesPresent\<close> says that the entries of the tape are not a \<open>nil\<close> slice.\<close>

record SemanticExecution =
  seSchema :: string
  sePlanSHA256 :: string
  seCapabilitiesSHA256 :: string
  seAdapter :: Adapter
  seReproducibility :: Reproducibility
  seEligibility :: EligibilityStatus
  seRejections :: "string list option"
  seProjection :: ProjectionReport
  seDecisions :: Tape
  seEntriesPresent :: bool
  seOutcome :: "Outcome option"
  seOperationalError :: string
  seNodeCommitments :: "NodeCommitment list option"

record Wire =
  wrSha :: "bytes \<Rightarrow> bytes"
  wrPlan :: "Plan \<Rightarrow> bytes option"
  wrCapabilities :: "Capabilities \<Rightarrow> bytes option"
  wrExecution :: "SemanticExecution \<Rightarrow> bytes option"

section \<open>Validation of the parts\<close>

definition reproducibilityText :: "string \<Rightarrow> nat \<Rightarrow> bool" where
  "reproducibilityText value maximum \<longleftrightarrow>
     \<not> (value = [] \<or> length value > maximum \<or> \<not> validString value \<or> \<not> trimmed value \<or> \<not> controlFree value)"

definition validateExecutionReproducibility :: "Reproducibility \<Rightarrow> plan_error option" where
  "validateExecutionReproducibility r =
     (if rpDecisionSchema r \<noteq> DecisionSchema then Some ErrOther
      else if \<not> list_all (\<lambda>(value, maximum). reproducibilityText value maximum)
          [(rpGitRevision r, 256), (rpGoVersion r, 128), (rpCheckerSchema r, 256), (rpMessageCodec r, 256),
           (rpObservationSchema r, 256)] then Some ErrOther
      else None)"

definition validRejectionCode :: "string \<Rightarrow> bool" where
  "validRejectionCode value \<longleftrightarrow> value \<in>
     {RejectFixedAllVoters, RejectUnsupportedAction, RejectInvalidCommand, RejectDuplicateCommand,
      RejectUnbalancedLifecycle, RejectUnhealedNetwork, RejectSourceAdapter, RejectLeftMembership,
      RejectRightMembership, RejectLeftAction, RejectRightAction, RejectLeftApplication, RejectRightApplication,
      RejectLeftProjectionKind, RejectRightProjectionKind}"

fun strictRejectionsFrom :: "string option \<Rightarrow> string list \<Rightarrow> bool" where
  "strictRejectionsFrom previous [] = True"
| "strictRejectionsFrom previous (v # vs) =
     (if \<not> validRejectionCode v \<or> (case previous of None \<Rightarrow> False | Some p \<Rightarrow> p \<ge> v) then False
      else strictRejectionsFrom (Some v) vs)"

definition strictRejectionSet :: "string list \<Rightarrow> bool" where
  "strictRejectionSet values = strictRejectionsFrom None values"

fun keysFrom :: "PortableKey option \<Rightarrow> PortableKey list \<Rightarrow> plan_error option" where
  "keysFrom previous [] = None"
| "keysFrom previous (key # ks) =
     (case keyValidate key of
        Some e \<Rightarrow> Some e
      | None \<Rightarrow>
          if (case previous of None \<Rightarrow> False | Some p \<Rightarrow> compareKeys p key \<ge> 0) then Some ErrOther
          else keysFrom (Some key) ks)"

definition validateProjectionReport :: "ProjectionReport \<Rightarrow> int \<Rightarrow> plan_error option" where
  "validateProjectionReport report recorded =
     (let additional = items (prAdditional report); unmatched = items (prUnmatched report);
          bound = int MaxDecisions in
      if prDirectives report < 0 \<or> prProjected report < 0 \<or> prFixed report < 0
         \<or> prProjected report > prDirectives report \<or> prAdditional report = None \<or> prUnmatched report = None
      then Some ErrOther
      else if prDirectives report > bound \<or> prProjected report > bound \<or> prFixed report > bound
         \<or> int (length additional) > bound \<or> int (length unmatched) > bound then Some ErrOther
      else case keysFrom None additional of Some e \<Rightarrow> Some e | None \<Rightarrow>
      (case ValidateDirectives unmatched of Some e \<Rightarrow> Some e | None \<Rightarrow>
       if recorded \<noteq> prProjected report + prFixed report + int (length additional) then Some ErrOther
       else (case prFidelity report of
          ProjectionExact \<Rightarrow>
            if length additional \<noteq> 0 \<or> length unmatched \<noteq> 0 \<or> prProjected report \<noteq> prDirectives report
            then Some ErrOther else None
        | ProjectionPartial \<Rightarrow>
            if length additional + length unmatched = 0
               \<or> prProjected report + int (length unmatched) \<noteq> prDirectives report then Some ErrOther else None
        | ProjectionFailed \<Rightarrow>
            if prProjected report + int (length unmatched) > prDirectives report then Some ErrOther else None
        | OtherFidelity _ \<Rightarrow> Some ErrOther)))"

fun rawViolations :: "(bytes \<Rightarrow> bytes) \<Rightarrow> int \<Rightarrow> string list \<Rightarrow> Violation list \<Rightarrow> plan_error option" where
  "rawViolations sha end_ns seen [] = None"
| "rawViolations sha end_ns seen (v # vs) =
     (if vAtNS v < 0 \<or> vAtNS v > end_ns \<or> length (vEvidence v) > MaxViolationEvidenceBytes then Some ErrOther
      else if ValidateViolation sha v \<noteq> None then Some ErrOther
      else if vFingerprint v \<in> set seen then Some ErrOther
      else rawViolations sha end_ns (vFingerprint v # seen) vs)"

definition validateRawOutcome :: "(bytes \<Rightarrow> bytes) \<Rightarrow> Outcome \<Rightarrow> plan_error option" where
  "validateRawOutcome sha outcome =
     (if ocEndNS outcome < 0 \<or> ocSteps outcome > MaxScenarioSteps \<or> \<not> digestPattern (ocObservationDigest outcome)
         \<or> length (ocError outcome) > maxExecutionErrorBytes \<or> length (ocViolations outcome) > MaxViolations
      then Some ErrOther
      else case rawViolations sha (ocEndNS outcome) [] (ocViolations outcome) of Some e \<Rightarrow> Some e | None \<Rightarrow>
        if ocStatus outcome = OutcomeCompleted then
          (if ocError outcome \<noteq> [] \<or> length (ocViolations outcome) \<noteq> 0 then Some ErrOther else None)
        else if ocStatus outcome = OutcomeViolation then
          (if ocError outcome \<noteq> [] \<or> length (ocViolations outcome) = 0 then Some ErrOther else None)
        else if ocStatus outcome = OutcomeError then
          (if ocError outcome = [] \<or> length (ocViolations outcome) \<noteq> 0 then Some ErrOther else None)
        else if ocStatus outcome = OutcomeBudgetExhausted then
          (if ocError outcome \<noteq> [] \<or> length (ocViolations outcome) \<noteq> 0 then Some ErrOther else None)
        else Some ErrOther)"

text \<open>\<open>validateNodeCommitmentList\<close>; the nodes seen are its map.\<close>

fun commitmentListFrom :: "NodeID option \<Rightarrow> NodeID list \<Rightarrow> NodeCommitment list \<Rightarrow> plan_error option" where
  "commitmentListFrom previous seen [] = None"
| "commitmentListFrom previous seen (n # ns) =
     (case validateNodeID (ncNode n) of Some e \<Rightarrow> Some e | None \<Rightarrow>
     (case validateCommitment (ncCommitment n) of Some e \<Rightarrow> Some e | None \<Rightarrow>
      if ncNode n \<in> set seen then Some ErrOther
      else if (case previous of None \<Rightarrow> False | Some p \<Rightarrow> p \<ge> ncNode n) then Some ErrOther
      else commitmentListFrom (Some (ncNode n)) (ncNode n # seen) ns))"

definition validateNodeCommitmentList :: "NodeCommitment list \<Rightarrow> plan_error option" where
  "validateNodeCommitmentList ns = commitmentListFrom None [] ns"

section \<open>Executions\<close>

text \<open>The \<open>switch\<close> on the eligibility.\<close>

definition eligibilityEvidence :: "SemanticExecution \<Rightarrow> bool" where
  "eligibilityEvidence x \<longleftrightarrow>
     (if seEligibility x = EligibilityIneligible then
        \<not> (length (items (seRejections x)) = 0 \<or> prFidelity (seProjection x) \<noteq> ProjectionFailed
           \<or> length (tpEntries (seDecisions x)) \<noteq> 0 \<or> seOutcome x \<noteq> None \<or> seOperationalError x \<noteq> []
           \<or> length (items (seNodeCommitments x)) \<noteq> 0)
      else if seEligibility x = EligibilityEligible then
        (if length (items (seRejections x)) \<noteq> 0 then False
         else if seOutcome x = None \<and> seOperationalError x = [] then False
         else \<not> (seOutcome x \<noteq> None \<and> seOperationalError x \<noteq> []))
      else False)"

definition outcomeEvidence :: "(bytes \<Rightarrow> bytes) \<Rightarrow> SemanticExecution \<Rightarrow> bool" where
  "outcomeEvidence sha x \<longleftrightarrow>
     (case seOutcome x of
        None \<Rightarrow> True
      | Some outcome \<Rightarrow>
          if validateRawOutcome sha outcome \<noteq> None then False
          else \<not> (prFidelity (seProjection x) = ProjectionFailed \<and> ocStatus outcome \<noteq> OutcomeError))"

definition executionValidate :: "Wire \<Rightarrow> SemanticExecution \<Rightarrow> plan_error option" where
  "executionValidate w x =
     (let entries = tpEntries (seDecisions x) in
      if seSchema x \<noteq> SemanticExecutionSchema then Some ErrInvalidExecution
      else if \<not> digestPattern (sePlanSHA256 x) \<or> \<not> digestPattern (seCapabilitiesSHA256 x) then Some ErrInvalidExecution
      else if validateAdapterID (seAdapter x) \<noteq> None then Some ErrInvalidExecution
      else if validateExecutionReproducibility (seReproducibility x) \<noteq> None then Some ErrInvalidExecution
      else if seRejections x = None \<or> \<not> strictRejectionSet (items (seRejections x)) then Some ErrInvalidExecution
      else if tpSchema (seDecisions x) \<noteq> DecisionSchema \<or> \<not> seEntriesPresent x then Some ErrInvalidExecution
      else if length entries > MaxDecisions then Some ErrInvalidExecution
      else if (case newTapeDecider (wrSha w) (seDecisions x) False of Inl _ \<Rightarrow> True | Inr _ \<Rightarrow> False)
      then Some ErrInvalidExecution
      else if seNodeCommitments x = None then Some ErrInvalidExecution
      else if validateNodeCommitmentList (items (seNodeCommitments x)) \<noteq> None then Some ErrInvalidExecution
      else if validateProjectionReport (seProjection x) (int (length entries)) \<noteq> None then Some ErrInvalidExecution
      else if length (seOperationalError x) > maxExecutionErrorBytes \<or> CHR 0x00 \<in> set (seOperationalError x)
      then Some ErrInvalidExecution
      else if \<not> eligibilityEvidence x then Some ErrInvalidExecution
      else if \<not> outcomeEvidence (wrSha w) x then Some ErrInvalidExecution
      else (case wrExecution w x of
          None \<Rightarrow> Some ErrInvalidExecution
        | Some encoded \<Rightarrow> if int (length encoded) > DefaultMaxArtifactBytes then Some ErrInvalidExecution else None))"

definition DecodeSemanticExecution ::
  "Wire \<Rightarrow> (bytes \<Rightarrow> SemanticExecution option) \<Rightarrow> (bytes \<times> bool) option
     \<Rightarrow> plan_error + SemanticExecution" where
  "DecodeSemanticExecution w decode reader =
     (case decodePlanDocument decode reader DefaultMaxArtifactBytes of
        Inl _ \<Rightarrow> Inl ErrInvalidExecution
      | Inr x \<Rightarrow> (case executionValidate w x of Some e \<Rightarrow> Inl e | None \<Rightarrow> Inr x))"

definition DigestCapabilities :: "Wire \<Rightarrow> Capabilities \<Rightarrow> plan_error + string" where
  "DigestCapabilities w c =
     (case capabilitiesValidate c of Some e \<Rightarrow> Inl e | None \<Rightarrow> digestCanonicalJSON (wrSha w) (wrCapabilities w) c)"

definition DigestSemanticExecution :: "Wire \<Rightarrow> SemanticExecution \<Rightarrow> plan_error + string" where
  "DigestSemanticExecution w x =
     (case executionValidate w x of Some e \<Rightarrow> Inl e | None \<Rightarrow> digestCanonicalJSON (wrSha w) (wrExecution w) x)"

fun commonSorted :: "string list \<Rightarrow> string list \<Rightarrow> string list" where
  "commonSorted (l # ls) (r # rs) =
     (if l < r then commonSorted ls (r # rs)
      else if l > r then commonSorted (l # ls) rs
      else l # commonSorted ls rs)"
| "commonSorted ls rs = []"

definition NegotiateInvariantIDs :: "Capabilities \<Rightarrow> Capabilities \<Rightarrow> plan_error + string list" where
  "NegotiateInvariantIDs left right =
     (case capabilitiesValidate left of Some e \<Rightarrow> Inl e | None \<Rightarrow>
     (case capabilitiesValidate right of Some e \<Rightarrow> Inl e | None \<Rightarrow>
        Inr (commonSorted (items (cbInvariantIDs left)) (items (cbInvariantIDs right)))))"

section \<open>Verification of the projection\<close>

fun verifyEntries :: "Projector \<Rightarrow> TapeEntry list \<Rightarrow> (plan_error + Projector) option" where
  "verifyEntries p [] = Some (Inr p)"
| "verifyEntries p (entry # entries) =
     (case projectorChoose p (teChoice entry) of
        None \<Rightarrow> None
      | Some (q, Inl _) \<Rightarrow> Some (Inl ErrInvalidExecution)
      | Some (q, Inr sel) \<Rightarrow>
          if sel \<noteq> teSelection entry then Some (Inl ErrInvalidExecution) else verifyEntries q entries)"

definition unexecutedReport :: "Directive list \<Rightarrow> ProjectionReport" where
  "unexecutedReport ds =
     \<lparr>prFidelity = ProjectionFailed, prDirectives = int (length ds), prProjected = 0, prFixed = 0,
      prAdditional = Some [], prUnmatched = Some ds\<rparr>"

definition VerifyExecutionProjection ::
  "Wire \<Rightarrow> Plan \<Rightarrow> SemanticExecution \<Rightarrow> (plan_error + unit) option" where
  "VerifyExecutionProjection w plan x =
     (case planValidate plan of Some e \<Rightarrow> Some (Inl e) | None \<Rightarrow>
     (case executionValidate w x of Some e \<Rightarrow> Some (Inl e) | None \<Rightarrow>
      if rpDecisionSeed (seReproducibility x) \<noteq> plFallbackSeed plan then Some (Inl ErrInvalidExecution)
      else if seEligibility x = EligibilityIneligible then
        (if unexecutedReport (items (plDirectives plan)) \<noteq> seProjection x then Some (Inl ErrInvalidExecution)
         else Some (Inr ()))
      else case NewProjector (items (plDirectives plan)) (plFallbackSeed plan) of Inl e \<Rightarrow> Some (Inl e) | Inr p \<Rightarrow>
      (case verifyEntries p (tpEntries (seDecisions x)) of
         None \<Rightarrow> None
       | Some (Inl e) \<Rightarrow> Some (Inl e)
       | Some (Inr q) \<Rightarrow>
           let finished_report = projectorFinish q;
               want = (if prFidelity (seProjection x) = ProjectionFailed
                 then finished_report\<lparr>prFidelity := ProjectionFailed\<rparr> else finished_report) in
           if want \<noteq> seProjection x then Some (Inl ErrInvalidExecution) else Some (Inr ()))))"

text \<open>\<open>cloneProjectionReport\<close>, \<open>cloneNodeCommitments\<close>: copies, with empty lists for \<open>nil\<close>.\<close>

definition cloneProjectionReport :: "ProjectionReport \<Rightarrow> ProjectionReport" where
  "cloneProjectionReport report =
     report\<lparr>prAdditional := Some (items (prAdditional report)), prUnmatched := Some (items (prUnmatched report))\<rparr>"

definition NewEligibleExecution ::
  "Wire \<Rightarrow> Plan \<Rightarrow> Capabilities \<Rightarrow> Reproducibility \<Rightarrow> ProjectionReport \<Rightarrow> Tape \<Rightarrow> Outcome option
     \<Rightarrow> string \<Rightarrow> NodeCommitment list option \<Rightarrow> (plan_error + SemanticExecution) option" where
  "NewEligibleExecution w plan c reproducibility projection tape outcome operationalError ns =
     (case DigestPlan (wrSha w) (wrPlan w) plan of Inl e \<Rightarrow> Some (Inl e) | Inr planDigest \<Rightarrow>
     (case DigestCapabilities w c of Inl e \<Rightarrow> Some (Inl e) | Inr capabilitiesDigest \<Rightarrow>
        let x = \<lparr>seSchema = SemanticExecutionSchema, sePlanSHA256 = planDigest,
              seCapabilitiesSHA256 = capabilitiesDigest, seAdapter = cbAdapter c, seReproducibility = reproducibility,
              seEligibility = EligibilityEligible, seRejections = Some [],
              seProjection = cloneProjectionReport projection, seDecisions = tape, seEntriesPresent = True,
              seOutcome = outcome, seOperationalError = operationalError, seNodeCommitments = Some (items ns)\<rparr>
        in (case executionValidate w x of Some e \<Rightarrow> Some (Inl e) | None \<Rightarrow>
           (case VerifyExecutionProjection w plan x of
              None \<Rightarrow> None
            | Some (Inl e) \<Rightarrow> Some (Inl e)
            | Some (Inr _) \<Rightarrow> Some (Inr x)))))"

section \<open>Normalization\<close>

definition bilateralPreflight :: "Plan \<Rightarrow> Capabilities \<Rightarrow> Capabilities \<Rightarrow> plan_error + Eligibility" where
  "bilateralPreflight plan here peer =
     (if cbAdapter here = srAdapter (plSource plan) then Preflight plan here peer
      else if cbAdapter peer = srAdapter (plSource plan) then Preflight plan peer here
      else Inl ErrInvalidExecution)"

definition classifyCompletion :: "Outcome \<Rightarrow> int \<Rightarrow> ProjectionFidelity \<Rightarrow> CompletionStatus" where
  "classifyCompletion outcome boundary_ns fidelity =
     (if fidelity = ProjectionFailed \<or> ocStatus outcome = OutcomeError then CompletionExecutionError
      else if ocEndNS outcome = boundary_ns \<and> (ocStatus outcome = OutcomeCompleted \<or> ocStatus outcome = OutcomeViolation)
      then CompletionCompleted
      else if ocStatus outcome = OutcomeViolation then CompletionSafetyViolation
      else if ocStatus outcome = OutcomeBudgetExhausted then CompletionStepLimit
      else if ocStatus outcome = OutcomeCompleted then CompletionTimeLimit
      else CompletionExecutionError)"

definition validatePlanCommitmentNodes :: "Plan \<Rightarrow> NodeCommitment list \<Rightarrow> plan_error option" where
  "validatePlanCommitmentNodes plan ns =
     (if length ns \<noteq> length (cfMembers (plConfiguration plan)) then Some ErrInvalidExecution
      else if \<not> list_all (\<lambda>(n, m). ncNode n = m) (zip ns (cfMembers (plConfiguration plan))) then Some ErrInvalidExecution
      else None)"

definition validateOutcomeAgainstPlan :: "Plan \<Rightarrow> Outcome \<Rightarrow> plan_error option" where
  "validateOutcomeAgainstPlan plan outcome =
     (if ocEndNS outcome > cvComparisonBoundaryNS (plConvergence plan) \<or> ocSteps outcome > snMaxSteps (plScenario plan)
      then Some ErrInvalidExecution
      else if ocStatus outcome = OutcomeBudgetExhausted \<and> ocSteps outcome \<noteq> snMaxSteps (plScenario plan)
      then Some ErrInvalidExecution
      else if \<not> list_all (\<lambda>v. list_all (\<lambda>node. node \<in> set (cfMembers (plConfiguration plan))) (vNodes v))
          (ocViolations outcome) then Some ErrInvalidExecution
      else None)"

text \<open>The normalized outcome before execution evidence is added.\<close>

definition blankOutcome :: "SemanticExecution \<Rightarrow> string \<Rightarrow> string \<Rightarrow> string list \<Rightarrow> NormalizedOutcome" where
  "blankOutcome x planDigest executionDigest negotiated =
     \<lparr>noSchema = NormalizedOutcomeSchema, noPlanSHA256 = planDigest, noExecutionSHA256 = executionDigest,
      noAdapter = seAdapter x, noEligibility = seEligibility x, noProjection = prFidelity (seProjection x),
      noCompletion = CompletionNotExecuted, noNodesAgree = False, noNodeCommitments = Some [],
      noNegotiated = Some negotiated, noCommon = Some [], noSpecific = Some []\<rparr>"

definition normalizeVerified ::
  "Plan \<Rightarrow> Capabilities \<Rightarrow> SemanticExecution \<Rightarrow> string list \<Rightarrow> NormalizedOutcome \<Rightarrow> plan_error + NormalizedOutcome" where
  "normalizeVerified plan c x negotiated blank =
     (if seEligibility x = EligibilityIneligible then CanonicalizeOutcome blank
      else
        let base = blank\<lparr>noNodeCommitments := Some (items (seNodeCommitments x))\<rparr> in
        (case seOutcome x of
           None \<Rightarrow> CanonicalizeOutcome (base\<lparr>noCompletion := CompletionExecutionError\<rparr>)
         | Some outcome \<Rightarrow>
             (case validateOutcomeAgainstPlan plan outcome of
                Some e \<Rightarrow> Inl e
              | None \<Rightarrow>
                  let completion = classifyCompletion outcome (cvComparisonBoundaryNS (plConvergence plan))
                        (prFidelity (seProjection x));
                      observed = map vID (ocViolations outcome) in
                  if \<not> list_all (\<lambda>i. i \<in> set (items (cbInvariantIDs c))) observed then Inl ErrInvalidExecution
                  else (case NormalizeInvariantIDs (Some observed) (Some negotiated) of
                    Inl e \<Rightarrow> Inl e
                  | Inr (common, specific) \<Rightarrow>
                      if completionReachedBoundary completion
                         \<and> validatePlanCommitmentNodes plan (items (noNodeCommitments base)) \<noteq> None
                      then Inl ErrInvalidExecution
                      else CanonicalizeOutcome (base\<lparr>noCompletion := completion, noCommon := Some common,
                        noSpecific := Some specific\<rparr>)))))"

definition NormalizeExecution ::
  "Wire \<Rightarrow> Plan \<Rightarrow> Capabilities \<Rightarrow> Capabilities \<Rightarrow> SemanticExecution
     \<Rightarrow> (plan_error + NormalizedOutcome) option" where
  "NormalizeExecution w plan c peer x =
     (case DigestPlan (wrSha w) (wrPlan w) plan of Inl e \<Rightarrow> Some (Inl e) | Inr planDigest \<Rightarrow>
     (case DigestCapabilities w c of Inl e \<Rightarrow> Some (Inl e) | Inr capabilitiesDigest \<Rightarrow>
     (case NegotiateInvariantIDs c peer of Inl e \<Rightarrow> Some (Inl e) | Inr negotiated \<Rightarrow>
     (case bilateralPreflight plan c peer of Inl e \<Rightarrow> Some (Inl e) | Inr eligibility \<Rightarrow>
     (case executionValidate w x of Some e \<Rightarrow> Some (Inl e) | None \<Rightarrow>
      if sePlanSHA256 x \<noteq> planDigest then Some (Inl ErrInvalidExecution)
      else if seCapabilitiesSHA256 x \<noteq> capabilitiesDigest \<or> seAdapter x \<noteq> cbAdapter c then Some (Inl ErrInvalidExecution)
      else if seEligibility x \<noteq> (if \<not> elEligible eligibility then EligibilityIneligible else EligibilityEligible)
          \<or> items (seRejections x) \<noteq> items (elRejections eligibility) then Some (Inl ErrInvalidExecution)
      else case VerifyExecutionProjection w plan x of
        None \<Rightarrow> None
      | Some (Inl e) \<Rightarrow> Some (Inl e)
      | Some (Inr _) \<Rightarrow>
          (case DigestSemanticExecution w x of
             Inl e \<Rightarrow> Some (Inl e)
           | Inr executionDigest \<Rightarrow>
               Some (normalizeVerified plan c x negotiated (blankOutcome x planDigest executionDigest negotiated))))))))"

end
