(* ===== verification/SemCausal.thy ===== *)
theory SemCausal
  imports SemExec
begin

text \<open>
  Causal replay (\<open>src/semanticplan/causal.go\<close>): the operation identifiers of a network-loss choice, the
  directives that give every attempt of an operation one disposition, the causal projector and its report,
  and the durable evidence. Sets of strings are lists, maps association lists.
\<close>

section \<open>Operation identifiers\<close>

definition CausalReplaySchema :: string where "CausalReplaySchema = ''d-raft.causal-replay/v1''"
definition CausalEvidenceSchema :: string where "CausalEvidenceSchema = ''d-raft.causal-evidence/v1''"

definition boundedID :: "string \<Rightarrow> bool" where
  "boundedID i \<longleftrightarrow> \<not> (i = [] \<or> length i > 128 \<or> \<not> trimmed i)"

fun sortedIDs :: "string option \<Rightarrow> string list \<Rightarrow> bool" where
  "sortedIDs previous [] = True"
| "sortedIDs previous (i # rest) =
     (if \<not> boundedID i \<or> (case previous of None \<Rightarrow> False | Some p \<Rightarrow> p \<ge> i) then False
      else sortedIDs (Some i) rest)"

text \<open>\<open>json.Unmarshal\<close> into a \<open>bool\<close> and into a \<open>[]string\<close>: \<open>null\<close> leaves the zero value.\<close>

definition readBool :: "json \<Rightarrow> bool option" where
  "readBool v = (case v of JBool b \<Rightarrow> Some b | JNull \<Rightarrow> Some False | _ \<Rightarrow> None)"

fun readStrings :: "json list \<Rightarrow> string list option" where
  "readStrings [] = Some []"
| "readStrings (v # vs) =
     (case (case v of JString value \<Rightarrow> Some value | JNull \<Rightarrow> Some [] | _ \<Rightarrow> None) of
        None \<Rightarrow> None
      | Some value \<Rightarrow> map_option (Cons value) (readStrings vs))"

definition choiceOperationContext :: "Choice \<Rightarrow> (string list \<times> bool) option" where
  "choiceOperationContext c =
     (if chKind c \<noteq> NetworkLoss \<or> length (chContext c) = 0 then Some ([], False)
      else if RejectDuplicateNames (chContext c) \<noteq> None then None
      else (case (case readDocument (chContext c) of Some (JObject object) \<Rightarrow> Some object | Some JNull \<Rightarrow> Some [] | _ \<Rightarrow> None) of
          None \<Rightarrow> None
        | Some object \<Rightarrow>
            (case (case map_of object ''causal'' of None \<Rightarrow> Some False | Some v \<Rightarrow> readBool v) of
               None \<Rightarrow> None
             | Some causal \<Rightarrow>
                 (case map_of object ''operation_ids'' of
                    None \<Rightarrow> Some ([], causal)
                  | Some (JArray vs) \<Rightarrow>
                      (case readStrings vs of
                         None \<Rightarrow> None
                       | Some ids \<Rightarrow> if \<not> sortedIDs None ids then None else Some (ids, causal))
                  | Some _ \<Rightarrow> None))))"

definition ChoiceOperationIDs :: "Choice \<Rightarrow> string list option" where
  "ChoiceOperationIDs c = map_option fst (choiceOperationContext c)"

section \<open>Directives\<close>

record CausalDirective =
  cdOperationID :: string
  cdSourceIndices :: "u64 list"
  cdSelection :: Selection

fun sourceIndicesFrom :: "u64 option \<Rightarrow> u64 list \<Rightarrow> bool" where
  "sourceIndicesFrom previous [] = True"
| "sourceIndicesFrom previous (i # rest) =
     (if unat i \<ge> MaxDecisions \<or> (case previous of None \<Rightarrow> False | Some p \<Rightarrow> p \<ge> i) then False
      else sourceIndicesFrom (Some i) rest)"

fun causalDirectivesFrom :: "string option \<Rightarrow> CausalDirective list \<Rightarrow> plan_error option" where
  "causalDirectivesFrom previous [] = None"
| "causalDirectivesFrom previous (d # ds) =
     (if \<not> boundedID (cdOperationID d) then Some ErrInvalidCausal
      else if (case previous of None \<Rightarrow> False | Some p \<Rightarrow> p \<ge> cdOperationID d) then Some ErrInvalidCausal
      else if length (cdSourceIndices d) = 0 then Some ErrInvalidCausal
      else if \<not> sourceIndicesFrom None (cdSourceIndices d) then Some ErrInvalidCausal
      else if selNumber (cdSelection d) \<noteq> None
         \<or> selOption (cdSelection d) \<noteq> drop_option \<and> selOption (cdSelection d) \<noteq> deliver_option
      then Some ErrInvalidCausal
      else causalDirectivesFrom (Some (cdOperationID d)) ds)"

definition ValidateCausalDirectives :: "CausalDirective list \<Rightarrow> plan_error option" where
  "ValidateCausalDirectives ds = causalDirectivesFrom None ds"

text \<open>The loop of \<open>ValidateCausalTape\<close>: whether a loss was seen.\<close>

fun causalLosses :: "bool \<Rightarrow> TapeEntry list \<Rightarrow> plan_error + bool" where
  "causalLosses sawLoss [] = Inr sawLoss"
| "causalLosses sawLoss (entry # entries) =
     (if chKind (teChoice entry) \<noteq> NetworkLoss then causalLosses sawLoss entries
      else (case choiceOperationContext (teChoice entry) of
          None \<Rightarrow> Inl ErrInvalidCausal
        | Some (ids, causal) \<Rightarrow> if \<not> causal then Inl ErrInvalidCausal else causalLosses True entries))"

definition ValidateCausalTape :: "(bytes \<Rightarrow> bytes) \<Rightarrow> Tape \<Rightarrow> plan_error option" where
  "ValidateCausalTape sha tape =
     (case newTapeDecider sha tape True of
        Inl _ \<Rightarrow> Some ErrInvalidCausal
      | Inr _ \<Rightarrow>
          (case causalLosses False (tpEntries tape) of
             Inl e \<Rightarrow> Some e
           | Inr sawLoss \<Rightarrow> if \<not> sawLoss then Some ErrInvalidCausal else None))"

text \<open>The identifiers of one entry added to the map of directives.\<close>

fun addOperations ::
  "u64 \<Rightarrow> Selection \<Rightarrow> string list \<Rightarrow> (string \<times> CausalDirective) list
     \<Rightarrow> plan_error + (string \<times> CausalDirective) list" where
  "addOperations index selection [] byID = Inr byID"
| "addOperations index selection (i # ids) byID =
     (if selOption selection \<noteq> drop_option \<and> selOption selection \<noteq> deliver_option then Inl ErrInvalidCausal
      else (case map_of byID i of
          None \<Rightarrow> addOperations index selection ids
            (AList.update i \<lparr>cdOperationID = i, cdSourceIndices = [index], cdSelection = selection\<rparr> byID)
        | Some d \<Rightarrow>
            if cdSelection d \<noteq> selection then Inl ErrCausalConflict
            else addOperations index selection ids
              (AList.update i (d\<lparr>cdSourceIndices := cdSourceIndices d @ [index]\<rparr>) byID)))"

fun collectOperations ::
  "nat \<Rightarrow> TapeEntry list \<Rightarrow> (string \<times> CausalDirective) list \<Rightarrow> plan_error + (string \<times> CausalDirective) list" where
  "collectOperations index [] byID = Inr byID"
| "collectOperations index (entry # entries) byID =
     (if chKind (teChoice entry) \<noteq> NetworkLoss then collectOperations (Suc index) entries byID
      else (case choiceOperationContext (teChoice entry) of
          None \<Rightarrow> Inl ErrInvalidCausal
        | Some (ids, causal) \<Rightarrow>
            if \<not> causal then Inl ErrInvalidCausal
            else (case addOperations (of_nat index) (teSelection entry) ids byID of
              Inl e \<Rightarrow> Inl e
            | Inr byID' \<Rightarrow> collectOperations (Suc index) entries byID')))"

definition CausalDirectivesFromTape :: "(bytes \<Rightarrow> bytes) \<Rightarrow> Tape \<Rightarrow> plan_error + CausalDirective list" where
  "CausalDirectivesFromTape sha tape =
     (case ValidateCausalTape sha tape of Some e \<Rightarrow> Inl e | None \<Rightarrow>
     (case collectOperations 0 (tpEntries tape) [] of Inl e \<Rightarrow> Inl e | Inr byID \<Rightarrow>
        let ds = sort_key cdOperationID (map snd byID) in
        (case ValidateCausalDirectives ds of Some e \<Rightarrow> Inl e | None \<Rightarrow> Inr ds)))"

section \<open>Reports\<close>

record CausalProjectionReport =
  crSchema :: string
  crFidelity :: ProjectionFidelity
  crDirectives :: int
  crProjected :: int
  crAdditional :: "string list option"
  crUnmatched :: "CausalDirective list option"

definition fitsBudget :: "('a \<Rightarrow> bytes option) \<Rightarrow> 'a \<Rightarrow> bool" where
  "fitsBudget marshal value \<longleftrightarrow>
     (case marshal value of None \<Rightarrow> False | Some encoded \<Rightarrow> \<not> int (length encoded) > DefaultMaxArtifactBytes)"

definition reportValidate ::
  "(CausalProjectionReport \<Rightarrow> bytes option) \<Rightarrow> CausalProjectionReport \<Rightarrow> plan_error option" where
  "reportValidate marshal report =
     (let additional = items (crAdditional report); unmatched = items (crUnmatched report) in
      if crSchema report \<noteq> CausalReplaySchema then Some ErrInvalidCausal
      else if \<not> knownFidelity (crFidelity report) then Some ErrInvalidCausal
      else if crDirectives report < 0 \<or> crDirectives report > int MaxDecisions \<or> crProjected report < 0
         \<or> crProjected report > crDirectives report then Some ErrInvalidCausal
      else if crAdditional report = None \<or> crUnmatched report = None then Some ErrInvalidCausal
      else if \<not> sortedIDs None additional then Some ErrInvalidCausal
      else case ValidateCausalDirectives unmatched of Some e \<Rightarrow> Some e | None \<Rightarrow>
       if int (length unmatched) > crDirectives report then Some ErrInvalidCausal
       else if crFidelity report = ProjectionExact
         \<and> (length additional \<noteq> 0 \<or> length unmatched \<noteq> 0 \<or> crProjected report \<noteq> crDirectives report)
       then Some ErrInvalidCausal
       else if crFidelity report = ProjectionPartial \<and> length additional = 0 \<and> length unmatched = 0
         \<and> crProjected report = crDirectives report then Some ErrInvalidCausal
       else if \<not> fitsBudget marshal report then Some ErrInvalidCausal
       else None)"

definition DecodeCausalProjectionReport ::
  "(CausalProjectionReport \<Rightarrow> bytes option) \<Rightarrow> (bytes \<Rightarrow> CausalProjectionReport option) \<Rightarrow> (bytes \<times> bool) option
     \<Rightarrow> plan_error + CausalProjectionReport" where
  "DecodeCausalProjectionReport marshal decode reader =
     (case decodePlanDocument decode reader DefaultMaxArtifactBytes of
        Inl _ \<Rightarrow> Inl ErrInvalidCausal
      | Inr report \<Rightarrow> (case reportValidate marshal report of Some e \<Rightarrow> Inl e | None \<Rightarrow> Inr report))"

section \<open>The projector\<close>

record CausalProjector =
  cpDirectives :: "(string \<times> CausalDirective) list"
  cpConsumed :: "string list"
  cpAdditional :: "string list"
  cpFallback :: Rand
  cpFailed :: "plan_error option"

definition NewCausalProjector :: "CausalDirective list \<Rightarrow> u64 \<Rightarrow> plan_error + CausalProjector" where
  "NewCausalProjector ds seed =
     (case ValidateCausalDirectives ds of
        Some e \<Rightarrow> Inl e
      | None \<Rightarrow> Inr \<lparr>cpDirectives = fold (\<lambda>d m. AList.update (cdOperationID d) d m) ds [], cpConsumed = [],
          cpAdditional = [], cpFallback = NewSeedDecider seed, cpFailed = None\<rparr>)"

text \<open>\<open>IncludeOperationIDs\<close>: tapes of this projector carry operation identifiers.\<close>

definition IncludeOperationIDs :: "CausalProjector \<Rightarrow> bool" where
  "IncludeOperationIDs p = True"

definition causalFail :: "plan_error \<Rightarrow> CausalProjector \<Rightarrow> CausalProjector \<times> (plan_error + Selection)" where
  "causalFail e p = (p\<lparr>cpFailed := Some e\<rparr>, Inl e)"

text \<open>The answer of the fallback, which continues with the projector it leaves. Its errors are those of the
  decision package.\<close>

definition fallbackAnswer ::
  "CausalProjector \<Rightarrow> Choice \<Rightarrow> (CausalProjector \<Rightarrow> CausalProjector) \<Rightarrow> (CausalProjector \<times> (plan_error + Selection)) option" where
  "fallbackAnswer p c note_choice =
     (case seedChoose (cpFallback p) c of
        None \<Rightarrow> None
      | Some (r, Inl _) \<Rightarrow> Some (causalFail ErrOther (p\<lparr>cpFallback := r\<rparr>))
      | Some (r, Inr sel) \<Rightarrow> Some (note_choice (p\<lparr>cpFallback := r\<rparr>), Inr sel))"

definition addAdditional :: "string \<Rightarrow> CausalProjector \<Rightarrow> CausalProjector" where
  "addAdditional i p = p\<lparr>cpAdditional := List.insert i (cpAdditional p)\<rparr>"

text \<open>
  The loop over the identifiers: the additional ones found so far and, unless two directives conflict, the
  common disposition of the known ones and whether one is unknown.
\<close>

fun mergeIDs ::
  "(string \<times> CausalDirective) list \<Rightarrow> string list \<Rightarrow> Selection option \<Rightarrow> bool \<Rightarrow> string list
     \<Rightarrow> string list \<times> (Selection option \<times> bool) option" where
  "mergeIDs ds [] selected unknown additional = (additional, Some (selected, unknown))"
| "mergeIDs ds (i # rest) selected unknown additional =
     (case map_of ds i of
        None \<Rightarrow> mergeIDs ds rest selected True (List.insert i additional)
      | Some d \<Rightarrow>
          (case selected of
             None \<Rightarrow> mergeIDs ds rest (Some (cdSelection d)) unknown additional
           | Some s \<Rightarrow>
               if s \<noteq> cdSelection d then (additional, None)
               else mergeIDs ds rest selected unknown additional))"

definition causalChoose :: "CausalProjector \<Rightarrow> Choice \<Rightarrow> (CausalProjector \<times> (plan_error + Selection)) option" where
  "causalChoose p c =
     (case cpFailed p of
        Some e \<Rightarrow> Some (p, Inl e)
      | None \<Rightarrow>
          if ValidateChoice c \<noteq> None then Some (causalFail ErrOther p)
          else if chKind c \<noteq> NetworkLoss then fallbackAnswer p c (addAdditional (chID c))
          else (case choiceOperationContext c of
            None \<Rightarrow> Some (causalFail ErrInvalidCausal p)
          | Some (ids, causal) \<Rightarrow>
              if \<not> causal then Some (causalFail ErrInvalidCausal p)
              else if length ids = 0 then fallbackAnswer p c (addAdditional (chID c))
              else (case mergeIDs (cpDirectives p) ids None False (cpAdditional p) of
                (additional, merged) \<Rightarrow>
                  let q = p\<lparr>cpAdditional := additional\<rparr> in
                  (case merged of
                     None \<Rightarrow> Some (causalFail ErrCausalConflict q)
                   | Some (None, unknown) \<Rightarrow>
                       if ValidateSelection c (optionSelection deliver_option) \<noteq> None
                       then fallbackAnswer q c id
                       else Some (q, Inr (optionSelection deliver_option))
                   | Some (Some selected, unknown) \<Rightarrow>
                       if selOption selected = drop_option \<and> unknown then Some (causalFail ErrCausalConflict q)
                       else if ValidateSelection c selected \<noteq> None then Some (causalFail ErrCausalConflict q)
                       else Some (q\<lparr>cpConsumed := fold List.insert
                           (filter (\<lambda>i. map_of (cpDirectives q) i \<noteq> None) ids) (cpConsumed q)\<rparr>, Inr selected)))))"

definition causalReport :: "CausalProjector \<Rightarrow> CausalProjectionReport" where
  "causalReport p =
     (let additional = sort (cpAdditional p);
          unmatched = sort_key cdOperationID
            (map snd (filter (\<lambda>(i, d). i \<notin> set (cpConsumed p)) (cpDirectives p)));
          fidelity = (if cpFailed p \<noteq> None then ProjectionFailed
            else if length additional > 0 \<or> length unmatched > 0 then ProjectionPartial
            else ProjectionExact)
      in \<lparr>crSchema = CausalReplaySchema, crFidelity = fidelity, crDirectives = int (length (cpDirectives p)),
          crProjected = int (length (cpConsumed p)), crAdditional = Some additional, crUnmatched = Some unmatched\<rparr>)"

definition causalFinish :: "(CausalProjectionReport \<Rightarrow> bytes option) \<Rightarrow> CausalProjector \<Rightarrow> CausalProjectionReport" where
  "causalFinish marshal p =
     (let report = causalReport p in
      if reportValidate marshal report \<noteq> None then
        \<lparr>crSchema = CausalReplaySchema, crFidelity = ProjectionFailed, crDirectives = int (length (cpDirectives p)),
         crProjected = int (length (cpConsumed p)), crAdditional = Some [], crUnmatched = Some []\<rparr>
      else report)"

text \<open>The methods on a pointer that may be \<open>nil\<close>.\<close>

definition CausalChoose ::
  "CausalProjector option \<Rightarrow> Choice \<Rightarrow> (CausalProjector option \<times> (plan_error + Selection)) option" where
  "CausalChoose receiver c =
     (case receiver of
        None \<Rightarrow> Some (None, Inl ErrInvalidCausal)
      | Some p \<Rightarrow> map_option (\<lambda>(q, answer). (Some q, answer)) (causalChoose p c))"

definition CausalFinish ::
  "(CausalProjectionReport \<Rightarrow> bytes option) \<Rightarrow> CausalProjector option \<Rightarrow> CausalProjectionReport" where
  "CausalFinish marshal receiver =
     (case receiver of
        None \<Rightarrow> \<lparr>crSchema = CausalReplaySchema, crFidelity = ProjectionFailed, crDirectives = 0, crProjected = 0,
          crAdditional = Some [], crUnmatched = Some []\<rparr>
      | Some p \<Rightarrow> causalFinish marshal p)"

definition causalErr :: "CausalProjector option \<Rightarrow> plan_error option" where
  "causalErr receiver = (case receiver of None \<Rightarrow> Some ErrInvalidCausal | Some p \<Rightarrow> cpFailed p)"

section \<open>Evidence\<close>

record CausalReplayEvidence =
  ceSchema :: string
  cePlanSHA256 :: string
  ceSourceAdapter :: Adapter
  ceTargetAdapter :: Adapter
  ceFallbackSeed :: u64
  ceSourceTape :: Tape
  ceTargetTape :: Tape
  ceSourceOutcome :: Outcome
  ceTargetOutcome :: Outcome
  ceReport :: CausalProjectionReport

record CausalWire =
  cwSha :: "bytes \<Rightarrow> bytes"
  cwReport :: "CausalProjectionReport \<Rightarrow> bytes option"
  cwEvidence :: "CausalReplayEvidence \<Rightarrow> bytes option"

fun verifyTargets :: "CausalProjector \<Rightarrow> TapeEntry list \<Rightarrow> (plan_error + CausalProjector) option" where
  "verifyTargets p [] = Some (Inr p)"
| "verifyTargets p (entry # entries) =
     (case causalChoose p (teChoice entry) of
        None \<Rightarrow> None
      | Some (q, Inl _) \<Rightarrow> Some (Inl ErrInvalidCausal)
      | Some (q, Inr sel) \<Rightarrow>
          if sel \<noteq> teSelection entry then Some (Inl ErrInvalidCausal) else verifyTargets q entries)"

definition evidenceValidate :: "CausalWire \<Rightarrow> CausalReplayEvidence \<Rightarrow> (plan_error + unit) option" where
  "evidenceValidate w e =
     (if ceSchema e \<noteq> CausalEvidenceSchema then Some (Inl ErrInvalidCausal)
      else if \<not> digestPattern (cePlanSHA256 e) then Some (Inl ErrInvalidCausal)
      else if validateAdapterID (ceSourceAdapter e) \<noteq> None then Some (Inl ErrInvalidCausal)
      else if validateAdapterID (ceTargetAdapter e) \<noteq> None then Some (Inl ErrInvalidCausal)
      else case ValidateCausalTape (cwSha w) (ceSourceTape e) of Some err \<Rightarrow> Some (Inl err) | None \<Rightarrow>
      if ValidateCausalTape (cwSha w) (ceTargetTape e) \<noteq> None then Some (Inl ErrInvalidCausal)
      else if (case newTapeDecider (cwSha w) (ceTargetTape e) True of Inl _ \<Rightarrow> True | Inr _ \<Rightarrow> False)
      then Some (Inl ErrInvalidCausal)
      else case reportValidate (cwReport w) (ceReport e) of Some err \<Rightarrow> Some (Inl err) | None \<Rightarrow>
      if crFidelity (ceReport e) = ProjectionFailed then Some (Inl ErrInvalidCausal)
      else if validateRawOutcome (cwSha w) (ceSourceOutcome e) \<noteq> None then Some (Inl ErrInvalidCausal)
      else if validateRawOutcome (cwSha w) (ceTargetOutcome e) \<noteq> None then Some (Inl ErrInvalidCausal)
      else case CausalDirectivesFromTape (cwSha w) (ceSourceTape e) of Inl err \<Rightarrow> Some (Inl err) | Inr ds \<Rightarrow>
      (case NewCausalProjector ds (ceFallbackSeed e) of Inl err \<Rightarrow> Some (Inl err) | Inr p \<Rightarrow>
      (case verifyTargets p (tpEntries (ceTargetTape e)) of
         None \<Rightarrow> None
       | Some (Inl err) \<Rightarrow> Some (Inl err)
       | Some (Inr q) \<Rightarrow>
           if causalFinish (cwReport w) q \<noteq> ceReport e then Some (Inl ErrInvalidCausal)
           else if \<not> fitsBudget (cwEvidence w) e then Some (Inl ErrInvalidCausal)
           else Some (Inr ()))))"

definition DecodeCausalReplayEvidence ::
  "CausalWire \<Rightarrow> (bytes \<Rightarrow> CausalReplayEvidence option) \<Rightarrow> (bytes \<times> bool) option
     \<Rightarrow> (plan_error + CausalReplayEvidence) option" where
  "DecodeCausalReplayEvidence w decode reader =
     (case decodePlanDocument decode reader DefaultMaxArtifactBytes of
        Inl _ \<Rightarrow> Some (Inl ErrInvalidCausal)
      | Inr e \<Rightarrow>
          (case evidenceValidate w e of None \<Rightarrow> None | Some (Inl err) \<Rightarrow> Some (Inl err) | Some (Inr _) \<Rightarrow> Some (Inr e)))"

definition DigestCausalReplayEvidence :: "CausalWire \<Rightarrow> CausalReplayEvidence \<Rightarrow> (plan_error + string) option" where
  "DigestCausalReplayEvidence w e =
     (case evidenceValidate w e of
        None \<Rightarrow> None
      | Some (Inl err) \<Rightarrow> Some (Inl err)
      | Some (Inr _) \<Rightarrow> Some (digestCanonicalJSON (cwSha w) (cwEvidence w) e))"

end
