(* ===== verification/SemProjectProps.thy ===== *)
theory SemProjectProps
  imports SemExec DecisionProps JsonScanProps
begin

text \<open>
  The projector: what its answers are, the accounting of its report, and projection of a source tape onto its
  own choices.
\<close>

section \<open>Orders of keys\<close>

lemma keyTuple_inject [simp]: "keyTuple j = keyTuple k \<longleftrightarrow> j = k"
  by (cases j, cases k) (simp add: keyTuple_def)

lemma cmpCompare_simps [simp]:
  "cmpCompare l r = 0 \<longleftrightarrow> l = r" "cmpCompare l r < 0 \<longleftrightarrow> l < r" "0 \<le> cmpCompare l r \<longleftrightarrow> r \<le> l"
  by (auto simp: cmpCompare_def)

lemma compareKeys_less: "compareKeys j k < 0 \<longleftrightarrow> keyTuple j < keyTuple k"
  by (auto simp: compareKeys_def keyTuple_def less_prod_def)

lemma compareDirectives_less: "compareDirectives d e < 0 \<longleftrightarrow> directiveTuple d < directiveTuple e"
  by (auto simp: compareDirectives_def directiveTuple_def Let_def less_prod_def compareKeys_less)

section \<open>Validated directives\<close>

definition directiveOk :: "Directive \<Rightarrow> bool" where
  "directiveOk d \<longleftrightarrow> unat (drSourceIndex d) < MaxDecisions \<and> keyValidate (drKey d) = None
     \<and> validateDirectiveSelection d = None"

lemma validateDirectivesFrom_iff:
  "validateDirectivesFrom previous seen ds = None \<longleftrightarrow>
     list_all directiveOk ds \<and> sorted_wrt (<) (map drSourceIndex ds) \<and> distinct (map drKey ds)
     \<and> (\<forall>d \<in> set ds. drKey d \<notin> set seen \<and> (\<forall>p. previous = Some p \<longrightarrow> p < drSourceIndex d))"
proof (induction ds arbitrary: previous seen)
  case (Cons d ds)
  have "drKey d \<in> drKey ` set ds \<longleftrightarrow> (\<exists>e \<in> set ds. drKey e = drKey d)"
    by (metis imageE image_eqI)
  then show ?case
    by (auto simp: Cons.IH directiveOk_def not_le split: option.splits dest: less_trans)
qed simp

lemma ValidateDirectives_iff:
  "ValidateDirectives ds = None \<longleftrightarrow>
     list_all directiveOk ds \<and> sorted_wrt (<) (map drSourceIndex ds) \<and> distinct (map drKey ds)"
  by (simp add: ValidateDirectives_def validateDirectivesFrom_iff)

lemma ValidateDirectives_filter: "ValidateDirectives ds = None \<Longrightarrow> ValidateDirectives (filter P ds) = None"
  by (auto simp: ValidateDirectives_iff list_all_iff distinct_map_filter sorted_wrt_map sorted_wrt_filter)

lemma sortDirectives_valid: "ValidateDirectives ds = None \<Longrightarrow> sortDirectives ds = ds"
proof -
  assume "ValidateDirectives ds = None"
  then have "sorted_wrt (\<lambda>d e. directiveTuple d < directiveTuple e) ds"
    by (auto simp: ValidateDirectives_iff sorted_wrt_map directiveTuple_def less_prod_def elim: sorted_wrt_mono_rel [rotated])
  then show ?thesis
    unfolding sortDirectives_def
    by (intro sort_key_id_if_sorted) (auto simp: sorted_wrt_map elim!: sorted_wrt_mono_rel [rotated])
qed

definition pinned :: "Directive list \<Rightarrow> (PortableKey \<times> Directive) list" where
  "pinned ds = map (\<lambda>d. (drKey d, d)) ds"

lemma AList_update_new: "k \<notin> fst ` set al \<Longrightarrow> AList.update k v al = al @ [(k, v)]"
  by (induction al) auto

lemma fold_update_distinct:
  "distinct (map f ds) \<Longrightarrow> fst ` set al \<inter> f ` set ds = {} \<Longrightarrow>
     fold (\<lambda>d m. AList.update (f d) d m) ds al = al @ map (\<lambda>d. (f d, d)) ds"
  by (induction ds arbitrary: al) (auto simp: AList_update_new)

definition fresh_projector :: "Directive list \<Rightarrow> u64 \<Rightarrow> Projector" where
  "fresh_projector ds seed = \<lparr>pjDirectives = pinned ds, pjConsumed = [], pjSeen = [], pjFallback = NewSeedDecider seed,
     pjAdditional = [], pjProjected = 0, pjFixed = 0, pjFailed = None\<rparr>"

lemma NewProjector_Inr: "NewProjector ds seed = Inr p \<longleftrightarrow> ValidateDirectives ds = None \<and> p = fresh_projector ds seed"
proof (cases "ValidateDirectives ds")
  case None
  then have "distinct (map drKey ds)" by (simp add: ValidateDirectives_iff)
  then show ?thesis
    using None fold_update_distinct [of drKey ds "[]"] by (auto simp: NewProjector_def fresh_projector_def pinned_def)
qed (simp add: NewProjector_def)

lemma map_of_pinned: "distinct (map drKey ds) \<Longrightarrow> map_of (pinned ds) k = Some d \<longleftrightarrow> d \<in> set ds \<and> drKey d = k"
  by (auto simp: pinned_def map_of_eq_Some_iff comp_def)

lemma map_of_pinned_None: "map_of (pinned ds) k = None \<longleftrightarrow> k \<notin> drKey ` set ds"
  by (auto simp: pinned_def map_of_eq_None_iff image_image)

section \<open>The accounting of the projector\<close>

text \<open>What holds of a projector for the directives \<open>ds\<close> after it has answered \<open>n\<close> choices.\<close>

definition projInv :: "Directive list \<Rightarrow> nat \<Rightarrow> Projector \<Rightarrow> bool" where
  "projInv ds n p \<longleftrightarrow>
     pjDirectives p = pinned ds
     \<and> distinct (pjConsumed p) \<and> (\<forall>k \<in> set (pjConsumed p). k \<in> set (pjSeen p) \<and> map_of (pinned ds) k \<noteq> None)
     \<and> distinct (pjAdditional p) \<and> (\<forall>k \<in> set (pjAdditional p). k \<in> set (pjSeen p) \<and> map_of (pinned ds) k = None)
     \<and> pjProjected p = int (length (pjConsumed p)) \<and> 0 \<le> pjFixed p
     \<and> int n = pjFixed p + pjProjected p + int (length (pjAdditional p))
     \<and> (\<forall>k \<in> set (pjSeen p). keyValidate k = None)"

lemma projInv_fresh: "projInv ds 0 (fresh_projector ds seed)"
  by (simp add: projInv_def fresh_projector_def)

lemma key_valid: "PortableKeyForChoice c = Inr k \<Longrightarrow> keyValidate k = None"
  by (auto simp: PortableKeyForChoice_def split: option.splits)

lemma portable_valid:
  "PortableKeyForChoice c = Inr k \<Longrightarrow> validatePortableChoice c = None \<and> ValidateChoice c = None"
  by (auto simp: PortableKeyForChoice_def validatePortableChoice_def split: option.splits if_splits)

text \<open>The cases of an answered choice.\<close>

lemma projectorChoose_Inr:
  assumes "projectorChoose p c = Some (q, Inr sel)"
  obtains k where "pjFailed p = None" "PortableKeyForChoice c = Inr k" "k \<notin> set (pjSeen p)"
    "answer_key (p\<lparr>pjSeen := k # pjSeen p\<rparr>) c k = Some (q, Inr sel)"
  using assms
  by (auto simp: projectorChoose_def fail_with_def split: option.splits sum.splits if_splits)

lemma answer_key_Inr:
  "answer_key p c k = Some (q, Inr sel) \<longleftrightarrow>
     fixedSelection c = Some sel \<and> q = p\<lparr>pjFixed := pjFixed p + 1\<rparr>
     \<or> (\<exists>d. fixedSelection c = None \<and> map_of (pjDirectives p) k = Some d \<and> ValidateSelection c (drSelection d) = None
          \<and> sel = drSelection d
          \<and> q = p\<lparr>pjConsumed := List.insert k (pjConsumed p), pjProjected := pjProjected p + 1\<rparr>)
     \<or> (\<exists>r. fixedSelection c = None \<and> map_of (pjDirectives p) k = None \<and> seedChoose (pjFallback p) c = Some (r, Inr sel)
          \<and> q = p\<lparr>pjFallback := r, pjAdditional := pjAdditional p @ [k]\<rparr>)"
  by (auto simp: answer_key_def fail_with_def split: option.splits sum.splits if_splits prod.splits)

lemma projectorChoose_answers:
  assumes "projInv ds n p" and "projectorChoose p c = Some (q, Inr sel)"
  shows "projInv ds (Suc n) q \<and> pjFailed q = None"
proof -
  obtain k where k: "pjFailed p = None" "PortableKeyForChoice c = Inr k" "k \<notin> set (pjSeen p)"
    "answer_key (p\<lparr>pjSeen := k # pjSeen p\<rparr>) c k = Some (q, Inr sel)"
    using assms(2) by (rule projectorChoose_Inr)
  have "k \<notin> set (pjConsumed p)" "k \<notin> set (pjAdditional p)"
    using assms(1) k(3) by (auto simp: projInv_def)
  then show ?thesis
    using k(4) assms(1) k(1,2) key_valid [OF k(2)]
    unfolding answer_key_Inr
    by (auto simp: projInv_def)
qed

lemma fail_with_frame:
  "fst (fail_with e p) = p\<lparr>pjFailed := pjFailed (fst (fail_with e p))\<rparr>" "pjFailed (fst (fail_with e p)) \<noteq> None"
  by (auto simp: fail_with_def split: option.splits)

text \<open>A refused choice changes neither the accounting nor the directives consumed.\<close>

lemma projectorChoose_fails:
  assumes "projectorChoose p c = Some (q, Inl e)"
  shows "pjFailed q \<noteq> None \<and> pjDirectives q = pjDirectives p \<and> pjConsumed q = pjConsumed p
     \<and> pjAdditional q = pjAdditional p \<and> pjProjected q = pjProjected p \<and> pjFixed q = pjFixed p
     \<and> set (pjSeen p) \<subseteq> set (pjSeen q) \<and> (\<forall>k \<in> set (pjSeen q) - set (pjSeen p). keyValidate k = None)"
  using assms
  by (auto simp: projectorChoose_def answer_key_def fail_with_def key_valid split: option.splits sum.splits if_splits)

lemma projectorChoose_failed:
  assumes "projInv ds n p" and "projectorChoose p c = Some (q, Inl e)"
  shows "projInv ds n q \<and> pjFailed q \<noteq> None"
  using assms(1) projectorChoose_fails [OF assms(2)] unfolding projInv_def by auto

section \<open>Runs\<close>

text \<open>A client that asks for a list of choices and stops at the first error; the selections it got.\<close>

fun projectAll :: "Projector \<Rightarrow> Choice list \<Rightarrow> (Projector \<times> Selection list) option" where
  "projectAll p [] = Some (p, [])"
| "projectAll p (c # cs) =
     (case projectorChoose p c of
        None \<Rightarrow> None
      | Some (q, Inl e) \<Rightarrow> Some (q, [])
      | Some (q, Inr sel) \<Rightarrow> map_option (\<lambda>(r, sels). (r, sel # sels)) (projectAll q cs))"

lemma projectAll_inv:
  assumes "projInv ds n p" and "projectAll p cs = Some (q, sels)" and "pjFailed p = None"
  shows "projInv ds (n + length sels) q \<and> length sels \<le> length cs
     \<and> (pjFailed q = None \<longleftrightarrow> length sels = length cs)"
  using assms
proof (induction cs arbitrary: n p sels)
  case (Cons c cs)
  show ?case
  proof (cases "projectorChoose p c")
    case None
    then show ?thesis using Cons.prems(2) by simp
  next
    case (Some ra)
    obtain r a where ra: "ra = (r, a)" by (cases ra)
    show ?thesis
    proof (cases a)
      case (Inl e)
      then show ?thesis
        using Cons.prems(2) Some ra projectorChoose_failed [OF Cons.prems(1), of c r e] by simp
    next
      case (Inr sel)
      then obtain sels' where "projectAll r cs = Some (q, sels')" "sels = sel # sels'"
        using Cons.prems(2) Some ra by auto
      then show ?thesis
        using projectorChoose_answers [OF Cons.prems(1), of c r sel] Some ra Inr
          Cons.IH [of "Suc n" r sels'] by simp
    qed
  qed
qed simp

lemma keysFrom_iff:
  "keysFrom previous ks = None \<longleftrightarrow>
     (\<forall>k \<in> set ks. keyValidate k = None \<and> (\<forall>p. previous = Some p \<longrightarrow> keyTuple p < keyTuple k))
     \<and> sorted_wrt (\<lambda>j k. keyTuple j < keyTuple k) ks"
proof (induction ks arbitrary: previous)
  case (Cons k ks)
  have "0 \<le> compareKeys j k \<longleftrightarrow> \<not> keyTuple j < keyTuple k" for j
    using compareKeys_less [of j k] by linarith
  then show ?case
    by (auto simp: Cons.IH split: option.splits dest: less_trans)
qed simp

lemma sortKeys_strict:
  assumes "distinct ks" shows "sorted_wrt (\<lambda>j k. keyTuple j < keyTuple k) (sortKeys ks)"
proof -
  have "sorted (map keyTuple (sortKeys ks))" "distinct (map keyTuple (sortKeys ks))"
    using assms by (simp_all add: sortKeys_def distinct_map inj_on_def)
  then have "sorted_wrt (<) (map keyTuple (sortKeys ks))"
    by (simp add: strict_sorted_iff)
  then show ?thesis by (simp add: sorted_wrt_map)
qed

definition unmatchedOf :: "Projector \<Rightarrow> Directive list \<Rightarrow> Directive list" where
  "unmatchedOf p ds = filter (\<lambda>d. drKey d \<notin> set (pjConsumed p)) ds"

lemma finish_fields:
  assumes "pjDirectives p = pinned ds" and "ValidateDirectives ds = None"
  shows "prUnmatched (projectorFinish p) = Some (unmatchedOf p ds)"
    and "prAdditional (projectorFinish p) = Some (sortKeys (pjAdditional p))"
    and "prDirectives (projectorFinish p) = int (length ds)"
    and "prFidelity (projectorFinish p) =
      (if pjFailed p \<noteq> None then ProjectionFailed
       else if pjAdditional p = [] \<and> unmatchedOf p ds = [] then ProjectionExact else ProjectionPartial)"
    and "prProjected (projectorFinish p) = pjProjected p" "prFixed (projectorFinish p) = pjFixed p"
proof -
  have "map snd (filter (\<lambda>(k, d). k \<notin> set (pjConsumed p)) (pjDirectives p)) = unmatchedOf p ds"
    by (simp add: assms(1) pinned_def unmatchedOf_def filter_map comp_def)
  moreover have "sortDirectives (unmatchedOf p ds) = unmatchedOf p ds"
    using ValidateDirectives_filter [OF assms(2)] by (simp add: unmatchedOf_def sortDirectives_valid)
  moreover have "sortKeys (pjAdditional p) = [] \<longleftrightarrow> pjAdditional p = []"
    by (metis sortKeys_def length_0_conv length_sort)
  ultimately show "prUnmatched (projectorFinish p) = Some (unmatchedOf p ds)"
    "prAdditional (projectorFinish p) = Some (sortKeys (pjAdditional p))"
    "prDirectives (projectorFinish p) = int (length ds)"
    "prFidelity (projectorFinish p) =
      (if pjFailed p \<noteq> None then ProjectionFailed
       else if pjAdditional p = [] \<and> unmatchedOf p ds = [] then ProjectionExact else ProjectionPartial)"
    "prProjected (projectorFinish p) = pjProjected p" "prFixed (projectorFinish p) = pjFixed p"
    by (auto simp: projectorFinish_def Let_def assms(1) pinned_def)
qed

lemma unmatched_count:
  assumes "projInv ds n p" and "ValidateDirectives ds = None"
  shows "length (unmatchedOf p ds) + length (pjConsumed p) = length ds"
proof -
  let ?hit = "filter (\<lambda>d. drKey d \<in> set (pjConsumed p)) ds"
  have d: "distinct (map drKey ds)" using assms(2) by (simp add: ValidateDirectives_iff)
  have "set (pjConsumed p) \<subseteq> drKey ` set ds"
    using assms(1) by (auto simp: projInv_def map_of_pinned_None)
  then have same: "set (map drKey ?hit) = set (pjConsumed p)" by auto
  have "distinct (map drKey ?hit)" using d by (rule distinct_map_filter)
  then have "length (map drKey ?hit) = card (set (pjConsumed p))"
    using distinct_card same by metis
  moreover have "card (set (pjConsumed p)) = length (pjConsumed p)"
    using assms(1) by (simp add: projInv_def distinct_card)
  ultimately show ?thesis
    using sum_length_filter_compl [of "\<lambda>d. drKey d \<in> set (pjConsumed p)" ds] by (simp add: unmatchedOf_def)
qed

lemma finish_valid:
  assumes "projInv ds n p" and "ValidateDirectives ds = None" and "length ds \<le> MaxDecisions" and "n \<le> MaxDecisions"
  shows "validateProjectionReport (projectorFinish p) (int n) = None"
proof -
  note f = finish_fields [OF _ assms(2), of p]
  have p: "pjDirectives p = pinned ds" using assms(1) by (simp add: projInv_def)
  have additional: "keysFrom None (sortKeys (pjAdditional p)) = None"
    using assms(1) sortKeys_strict [of "pjAdditional p"] by (auto simp: keysFrom_iff projInv_def sortKeys_def)
  have unmatched: "ValidateDirectives (unmatchedOf p ds) = None"
    using assms(2) by (simp add: unmatchedOf_def ValidateDirectives_filter)
  have len: "length (sortKeys (pjAdditional p)) = length (pjAdditional p)" by (simp add: sortKeys_def)
  have counts: "length (unmatchedOf p ds) + length (pjConsumed p) = length ds"
    "int n = pjFixed p + int (length (pjConsumed p)) + int (length (pjAdditional p))"
    "pjProjected p = int (length (pjConsumed p))" "0 \<le> pjFixed p"
    using unmatched_count [OF assms(1,2)] assms(1) by (simp_all add: projInv_def)
  show ?thesis
    using counts assms(3,4) len
    by (auto simp: validateProjectionReport_def Let_def f [OF p] additional unmatched split: if_splits)
qed

section \<open>Answers\<close>

lemma fixed_valid:
  assumes "ValidateChoice c = None" and "fixedSelection c = Some sel"
  shows "validateSelection c sel = None"
proof (cases "length (chOptions c) = 1")
  case True
  then obtain opt where opt: "chOptions c = [opt]" by (auto simp: length_Suc_conv)
  then have "oID opt \<noteq> []" using valid_options [OF assms(1)] by (auto split: if_splits)
  then show ?thesis using assms(2) opt by (auto simp: fixedSelection_def validateSelection_def optionSelection_def)
next
  case False
  then obtain n where n: "chMin c = Some n" "chMax c = Some n" "sel = numberSelection n"
    using assms(2) by (auto simp: fixedSelection_def split: option.splits if_splits)
  then have "chOptions c = []"
    using assms(1) by (auto simp: ValidateChoice_def Let_def split: if_splits)
  then show ?thesis using n by (simp add: validateSelection_def numberSelection_def)
qed

lemma fixed_unique:
  assumes "ValidateChoice c = None" and "fixedSelection c = Some sel" and "validateSelection c sel' = None"
  shows "sel' = sel"
proof (cases "length (chOptions c) = 1")
  case True
  then obtain opt where "chOptions c = [opt]" by (auto simp: length_Suc_conv)
  then show ?thesis
    using assms(2,3) by (auto simp: fixedSelection_def validateSelection_def optionSelection_def split: if_splits)
next
  case False
  then obtain n where n: "chMin c = Some n" "chMax c = Some n" "sel = numberSelection n"
    using assms(2) by (auto simp: fixedSelection_def split: option.splits if_splits)
  then have "chOptions c = []"
    using assms(1) by (auto simp: ValidateChoice_def Let_def split: if_splits)
  then show ?thesis
    using n assms(3) by (auto simp: validateSelection_def numberSelection_def split: option.splits if_splits)
qed

lemma projectorChoose_selection:
  assumes "projectorChoose p c = Some (q, Inr sel)" and "wfChoice c"
  shows "ValidateSelection c sel = None"
proof -
  obtain k where k: "PortableKeyForChoice c = Inr k" "answer_key (p\<lparr>pjSeen := k # pjSeen p\<rparr>) c k = Some (q, Inr sel)"
    using assms(1) by (rule projectorChoose_Inr)
  have v: "ValidateChoice c = None" using portable_valid [OF k(1)] by simp
  show ?thesis
    using k(2) fixed_valid [OF v] seed_answers [OF _ assms(2)] v
    unfolding answer_key_Inr by (auto simp: ValidateSelection_def)
qed

section \<open>Projecting a tape onto its own choices\<close>

definition entryKey :: "TapeEntry \<Rightarrow> PortableKey" where
  "entryKey e = projr (PortableKeyForChoice (teChoice e))"

definition variable_entries :: "TapeEntry list \<Rightarrow> TapeEntry list" where
  "variable_entries es = filter (\<lambda>e. fixedSelection (teChoice e) = None) es"

lemma directivesFrom_Inr:
  assumes "directivesFrom i seen es = Inr ds"
  shows "(\<forall>e \<in> set es. PortableKeyForChoice (teChoice e) = Inr (entryKey e) \<and> entryKey e \<notin> set seen)
     \<and> distinct (map entryKey es)
     \<and> map (\<lambda>d. (drKey d, drSelection d)) ds = map (\<lambda>e. (entryKey e, teSelection e)) (variable_entries es)"
  using assms
proof (induction es arbitrary: i seen ds)
  case (Cons e es)
  obtain k ds' where k: "PortableKeyForChoice (teChoice e) = Inr k" "k \<notin> set seen"
    "directivesFrom (Suc i) (k # seen) es = Inr ds'"
    and ds: "ds = (if fixedSelection (teChoice e) \<noteq> None then ds'
      else \<lparr>drKey = k, drSourceIndex = of_nat i, drSelection = teSelection e\<rparr> # ds')"
    using Cons.prems by (auto split: option.splits sum.splits if_splits)
  then show ?case
    using Cons.IH [OF k(3)] by (auto simp: entryKey_def variable_entries_def)
qed (simp add: variable_entries_def)

text \<open>What the projection of recorded entries relies on.\<close>

definition sourced :: "Directive list \<Rightarrow> TapeEntry list \<Rightarrow> bool" where
  "sourced ds es \<longleftrightarrow> distinct (map entryKey es) \<and>
     (\<forall>e \<in> set es. PortableKeyForChoice (teChoice e) = Inr (entryKey e)
        \<and> validateSelection (teChoice e) (teSelection e) = None
        \<and> (fixedSelection (teChoice e) = None \<longrightarrow>
             (\<exists>d. map_of (pinned ds) (entryKey e) = Some d \<and> drSelection d = teSelection e)))"

lemma sourced_choice:
  assumes "sourced ds (e # es)" and "pjDirectives p = pinned ds" and "pjFailed p = None" and "entryKey e \<notin> set (pjSeen p)"
  shows "\<exists>q. projectorChoose p (teChoice e) = Some (q, Inr (teSelection e)) \<and> pjDirectives q = pinned ds
     \<and> pjFailed q = None \<and> pjSeen q = entryKey e # pjSeen p \<and> pjAdditional q = pjAdditional p
     \<and> set (pjConsumed q) = set (pjConsumed p) \<union> entryKey ` set (variable_entries [e])"
proof -
  have key: "PortableKeyForChoice (teChoice e) = Inr (entryKey e)"
    and stored: "validateSelection (teChoice e) (teSelection e) = None"
    using assms(1) by (auto simp: sourced_def)
  have v: "validatePortableChoice (teChoice e) = None" "ValidateChoice (teChoice e) = None"
    using portable_valid [OF key] by auto
  show ?thesis
  proof (cases "fixedSelection (teChoice e)")
    case (Some sel)
    then have "teSelection e = sel" using fixed_unique [OF v(2) Some stored] by simp
    then show ?thesis
      using Some assms(2-4) key v by (simp add: projectorChoose_def answer_key_def variable_entries_def)
  next
    case None
    then obtain d where "map_of (pinned ds) (entryKey e) = Some d" "drSelection d = teSelection e"
      using assms(1) by (auto simp: sourced_def)
    then show ?thesis
      using None assms(2-4) key v stored
      by (simp add: projectorChoose_def answer_key_def variable_entries_def ValidateSelection_def)
  qed
qed

lemma sourced_run:
  assumes "sourced ds es" and "pjDirectives p = pinned ds" and "pjFailed p = None"
    and "entryKey ` set es \<inter> set (pjSeen p) = {}"
  shows "\<exists>q. projectAll p (map teChoice es) = Some (q, map teSelection es) \<and> pjDirectives q = pinned ds
     \<and> pjFailed q = None \<and> pjAdditional q = pjAdditional p
     \<and> set (pjConsumed q) = set (pjConsumed p) \<union> entryKey ` set (variable_entries es)"
  using assms
proof (induction es arbitrary: p)
  case Nil
  then show ?case by (simp add: variable_entries_def)
next
  case (Cons e es)
  obtain q where q: "projectorChoose p (teChoice e) = Some (q, Inr (teSelection e))" "pjDirectives q = pinned ds"
    "pjFailed q = None" "pjSeen q = entryKey e # pjSeen p" "pjAdditional q = pjAdditional p"
    "set (pjConsumed q) = set (pjConsumed p) \<union> entryKey ` set (variable_entries [e])"
    using sourced_choice [OF Cons.prems(1-3)] Cons.prems(4) by auto
  have "sourced ds es" "entryKey ` set es \<inter> set (pjSeen q) = {}"
    using Cons.prems(1,4) q(4) by (auto simp: sourced_def)
  then obtain r where "projectAll q (map teChoice es) = Some (r, map teSelection es)" "pjDirectives r = pinned ds"
    "pjFailed r = None" "pjAdditional r = pjAdditional q"
    "set (pjConsumed r) = set (pjConsumed q) \<union> entryKey ` set (variable_entries es)"
    using Cons.IH [OF _ q(2,3)] by blast
  then show ?case
    using q by (auto simp: variable_entries_def)
qed

lemma entryStored_selection: "entryStored sha e \<Longrightarrow> validateSelection (teChoice e) (teSelection e) = None"
  by (auto simp: entryStored_def split: sum.splits prod.splits)

lemma tape_sourced:
  assumes "DirectivesFromTape sha tape = Inr ds" and "mset es = mset (tpEntries tape)"
  shows "ValidateDirectives ds = None \<and> sourced ds es \<and> drKey ` set ds = entryKey ` set (variable_entries es)"
proof -
  have from_tape: "directivesFrom 0 [] (tpEntries tape) = Inr ds" and v: "ValidateDirectives ds = None"
    and stored: "list_all (entryStored sha) (tpEntries tape)"
    using assms(1) by (auto simp: DirectivesFromTape_def newTapeDecider_Inr split: sum.splits option.splits)
  note f = directivesFrom_Inr [OF from_tape]
  have same: "set es = set (tpEntries tape)" by (rule mset_eq_setD) (rule assms(2))
  have d: "distinct (map entryKey es)"
    using f mset_eq_imp_distinct_iff [of "map entryKey es" "map entryKey (tpEntries tape)"] assms(2) by simp
  have pairs: "(\<lambda>d. (drKey d, drSelection d)) ` set ds = (\<lambda>e. (entryKey e, teSelection e)) ` set (variable_entries es)"
  proof -
    have "set (map (\<lambda>d. (drKey d, drSelection d)) ds)
        = set (map (\<lambda>e. (entryKey e, teSelection e)) (variable_entries (tpEntries tape)))"
      using f by simp
    then show ?thesis by (simp add: variable_entries_def same)
  qed
  have "\<exists>d. map_of (pinned ds) (entryKey e) = Some d \<and> drSelection d = teSelection e"
    if "e \<in> set es" "fixedSelection (teChoice e) = None" for e
  proof -
    have "(entryKey e, teSelection e) \<in> (\<lambda>d. (drKey d, drSelection d)) ` set ds"
      unfolding pairs using that by (simp add: variable_entries_def)
    then obtain d where "d \<in> set ds" "drKey d = entryKey e" "drSelection d = teSelection e" by auto
    then show ?thesis using map_of_pinned [of ds "entryKey e" d] v by (auto simp: ValidateDirectives_iff)
  qed
  then have "sourced ds es"
    using d f same stored by (auto simp: sourced_def list_all_iff dest: entryStored_selection)
  moreover have "drKey ` set ds = entryKey ` set (variable_entries es)"
    using arg_cong [OF pairs, of "image fst"] by (simp add: image_image)
  ultimately show ?thesis using v by blast
qed

section \<open>The answers of a run\<close>

text \<open>The directive that pins a choice with several selections.\<close>

definition pins :: "Directive \<Rightarrow> Choice \<Rightarrow> bool" where
  "pins d c \<longleftrightarrow> fixedSelection c = None \<and> PortableKeyForChoice c = Inr (drKey d)"

lemma projectorChoose_step:
  assumes "projectorChoose p c = Some (q, Inr sel)"
  shows "\<exists>k. PortableKeyForChoice c = Inr k \<and> k \<notin> set (pjSeen p) \<and> pjSeen q = k # pjSeen p
     \<and> pjDirectives q = pjDirectives p \<and> pjFailed q = None
     \<and> (\<forall>s. fixedSelection c = Some s \<longrightarrow> sel = s)
     \<and> (\<forall>d. fixedSelection c = None \<and> map_of (pjDirectives p) k = Some d \<longrightarrow> sel = drSelection d)
     \<and> set (pjConsumed q) = (if fixedSelection c = None \<and> map_of (pjDirectives p) k \<noteq> None
          then insert k (set (pjConsumed p)) else set (pjConsumed p))"
proof -
  obtain k where k: "pjFailed p = None" "PortableKeyForChoice c = Inr k" "k \<notin> set (pjSeen p)"
    "answer_key (p\<lparr>pjSeen := k # pjSeen p\<rparr>) c k = Some (q, Inr sel)"
    using assms by (rule projectorChoose_Inr)
  then show ?thesis unfolding answer_key_Inr by auto
qed

lemma projectAll_Cons:
  assumes "projectAll p (c # cs) = Some (q, sels)"
  obtains (fails) r e where "projectorChoose p c = Some (r, Inl e)" "q = r" "sels = []"
  | (answers) r sel sels' where "projectorChoose p c = Some (r, Inr sel)" "projectAll r cs = Some (q, sels')"
      "sels = sel # sels'"
  using assms by (auto split: option.splits sum.splits prod.splits)

lemma run_answers:
  assumes "projectAll p cs = Some (q, sels)" and "pjDirectives p = pinned ds" and "i < length sels"
  shows "\<exists>k. PortableKeyForChoice (cs ! i) = Inr k \<and> k \<notin> set (pjSeen p)
     \<and> (\<forall>s. fixedSelection (cs ! i) = Some s \<longrightarrow> sels ! i = s)
     \<and> (\<forall>d. fixedSelection (cs ! i) = None \<and> map_of (pinned ds) k = Some d \<longrightarrow> sels ! i = drSelection d)
     \<and> (\<forall>j < i. PortableKeyForChoice (cs ! j) \<noteq> Inr k)
     \<and> (wfChoice (cs ! i) \<longrightarrow> ValidateSelection (cs ! i) (sels ! i) = None)"
  using assms
proof (induction cs arbitrary: p sels i)
  case (Cons c cs)
  show ?case
    using Cons.prems(1)
  proof (cases rule: projectAll_Cons)
    case (fails r e)
    then show ?thesis using Cons.prems(3) by simp
  next
    case (answers r sel sels')
    obtain k where k: "PortableKeyForChoice c = Inr k" "k \<notin> set (pjSeen p)" "pjSeen r = k # pjSeen p"
      "pjDirectives r = pinned ds" "\<forall>s. fixedSelection c = Some s \<longrightarrow> sel = s"
      "\<forall>d. fixedSelection c = None \<and> map_of (pinned ds) k = Some d \<longrightarrow> sel = drSelection d"
      using projectorChoose_step [OF answers(1)] Cons.prems(2) by auto
    show ?thesis
    proof (cases i)
      case 0
      then show ?thesis using k answers projectorChoose_selection [OF answers(1)] by auto
    next
      case (Suc m)
      then show ?thesis
        using Cons.IH [OF answers(2) k(4), of m] Cons.prems(3) answers(3) k(1-3)
        by (force simp: less_Suc_eq_0_disj)
    qed
  qed
qed simp

lemma run_consumed:
  assumes "projectAll p cs = Some (q, sels)" and "pjDirectives p = pinned ds" and "ValidateDirectives ds = None"
    and "d \<in> set ds"
  shows "drKey d \<in> set (pjConsumed q) \<longleftrightarrow> drKey d \<in> set (pjConsumed p) \<or> (\<exists>c \<in> set (take (length sels) cs). pins d c)"
  using assms(1,2)
proof (induction cs arbitrary: p sels)
  case (Cons c cs)
  have found: "map_of (pinned ds) (drKey d) = Some d"
    using map_of_pinned [of ds "drKey d" d] assms(3,4) by (simp add: ValidateDirectives_iff)
  show ?case
    using Cons.prems(1)
  proof (cases rule: projectAll_Cons)
    case (fails r e)
    then show ?thesis using projectorChoose_fails [OF fails(1)] by simp
  next
    case (answers r sel sels')
    obtain k where k: "PortableKeyForChoice c = Inr k" "pjDirectives r = pinned ds"
      "set (pjConsumed r) = (if fixedSelection c = None \<and> map_of (pinned ds) k \<noteq> None
          then insert k (set (pjConsumed p)) else set (pjConsumed p))"
      using projectorChoose_step [OF answers(1)] Cons.prems(2) by auto
    have "drKey d \<in> set (pjConsumed r) \<longleftrightarrow> drKey d \<in> set (pjConsumed p) \<or> pins d c"
      using k found by (auto simp: pins_def)
    then show ?thesis
      using Cons.IH [OF answers(2) k(2)] answers(3) by auto
  qed
qed simp

section \<open>Verification of the evidence\<close>

lemma finish_failed:
  assumes "projectorChoose r c = Some (q, Inl e)" and "pjFailed r = None"
  shows "projectorFinish q = (projectorFinish r)\<lparr>prFidelity := ProjectionFailed\<rparr>"
  using projectorChoose_fails [OF assms(1)] by (auto simp: projectorFinish_def Let_def)

lemma run_verifies:
  assumes "projectAll p cs = Some (q, sels)" and "pjFailed p = None"
    and "map teChoice es = take (length sels) cs" and "map teSelection es = sels"
  shows "\<exists>r. verifyEntries p es = Some (Inr r) \<and>
     projectorFinish q = (if pjFailed q = None then projectorFinish r
       else (projectorFinish r)\<lparr>prFidelity := ProjectionFailed\<rparr>)
     \<and> (prFidelity (projectorFinish q) = ProjectionFailed \<longleftrightarrow> pjFailed q \<noteq> None)"
  using assms
proof (induction cs arbitrary: p sels es)
  case Nil
  then show ?case by (auto simp: projectorFinish_def Let_def)
next
  case (Cons c cs)
  show ?case
    using Cons.prems(1)
  proof (cases rule: projectAll_Cons)
    case (fails r e)
    then show ?thesis
      using Cons.prems finish_failed [OF fails(1)] projectorChoose_fails [OF fails(1)]
      by (auto simp: projectorFinish_def Let_def)
  next
    case (answers r sel sels')
    obtain x xs where x: "es = x # xs" "teChoice x = c" "teSelection x = sel"
      "map teChoice xs = take (length sels') cs" "map teSelection xs = sels'"
      using Cons.prems(3,4) answers(3) by (cases es) auto
    have "pjFailed r = None" using projectorChoose_step [OF answers(1)] by blast
    then show ?thesis
      using Cons.IH [OF answers(2) _ x(4,5)] x(1-3) answers(1) by simp
  qed
qed

section \<open>An example\<close>

definition exObject :: "(string \<times> bytes) list \<Rightarrow> bytes" where
  "exObject members_of = [123] @ joinComma (map (\<lambda>(name, value). jsonField name value) members_of) @ [125]"

definition exWait :: Choice where
  "exWait = \<lparr>chID = ''timer/a/1'', chKind = ''election_timeout'', chOptions = [], chMin = Some 5, chMax = Some 9,
     chContext = exObject [(''node'', jsonQuote (ascii ''a'')), (''incarnation'', showDec 1), (''generation'', showDec 1)]\<rparr>"

definition exLoss :: Choice where
  "exLoss = \<lparr>chID = ''loss/1'', chKind = ''network_loss'', chOptions = [\<lparr>oID = ''drop'', oWeight = 1\<rparr>, \<lparr>oID = ''deliver'', oWeight = 3\<rparr>],
     chMin = None, chMax = None,
     chContext = exObject [(''from'', jsonQuote (ascii ''a'')), (''to'', jsonQuote (ascii ''b'')),
       (''sender_incarnation'', showDec 1), (''send_sequence'', showDec 4)]\<rparr>"

definition exHash :: "bytes \<Rightarrow> bytes" where
  "exHash data = replicate 32 7"

definition exEntry :: "Choice \<Rightarrow> Selection \<Rightarrow> TapeEntry" where
  "exEntry c s = projr (newEntry exHash c s)"

definition exEntries :: "TapeEntry list" where
  "exEntries = [exEntry exWait (numberSelection 7), exEntry exLoss (optionSelection ''drop'')]"

definition exSource :: Tape where
  "exSource = \<lparr>tpSchema = DecisionSchema, tpEntries = exEntries\<rparr>"

lemma exWait_context:
  "readDocument (chContext exWait) =
     Some (JObject [(''node'', JString ''a''), (''incarnation'', JNumber [49]), (''generation'', JNumber [49])])"
  by code_simp

lemma exLoss_context:
  "readDocument (chContext exLoss) =
     Some (JObject [(''from'', JString ''a''), (''to'', JString ''b''), (''sender_incarnation'', JNumber [49]),
       (''send_sequence'', JNumber [52])])"
  by code_simp

lemma ex_utf8: "utf8Valid (chContext exWait)" "utf8Valid (chContext exLoss)"
  by code_simp+

lemma ex_sizes:
  "chContext exWait \<noteq> [] \<and> \<not> int (length (chContext exWait)) > maximumContextBytes"
  "chContext exLoss \<noteq> [] \<and> \<not> int (length (chContext exLoss)) > maximumContextBytes"
  by code_simp+

lemma ex_fields:
  "chID exWait = ''timer/a/1''" "chKind exWait = ''election_timeout''" "chOptions exWait = []" "chMin exWait = Some 5"
  "chMax exWait = Some 9" "chID exLoss = ''loss/1''" "chKind exLoss = ''network_loss''" "chMin exLoss = None"
  "chOptions exLoss = [\<lparr>oID = ''drop'', oWeight = 1\<rparr>, \<lparr>oID = ''deliver'', oWeight = 3\<rparr>]" "chMax exLoss = None"
  by (simp_all add: exWait_def exLoss_def)

lemmas ex_facts = exWait_context exLoss_context ex_utf8 ex_sizes ex_fields

lemma ex_valid: "ValidateChoice exWait = None" "ValidateChoice exLoss = None" "wfChoice exWait" "wfChoice exLoss"
  using readDocument_valid [OF exWait_context] readDocument_valid [OF exLoss_context]
  by (simp_all add: ValidateChoice_def ex_fields wfChoice_def MaxInt64_def)

lemma ex_numbers: "parseUint [49] = Some 1" "parseUint [52] = Some 4"
  by (simp_all add: parseUint_def isDigit_def)

lemma ex_endpoints: "validEndpoint ''a''" "validEndpoint ''b''"
  by code_simp+

lemma ex_objects:
  "decodeContextObject (chContext exWait) =
     Some [(''node'', JString ''a''), (''incarnation'', JNumber [49]), (''generation'', JNumber [49])]"
  "decodeContextObject (chContext exLoss) =
     Some [(''from'', JString ''a''), (''to'', JString ''b''), (''sender_incarnation'', JNumber [49]),
       (''send_sequence'', JNumber [52])]"
  using ex_sizes readDocument_accepts [OF exWait_context] readDocument_accepts [OF exLoss_context]
  by (simp_all add: decodeContextObject_def ex_facts)

definition exWaitKey :: PortableKey where
  "exWaitKey = \<lparr>pkKind = ElectionTimeout, pkNode = ''a'', pkFrom = [], pkTo = [],
     pkIncarnation = 1, pkOccurrence = 1\<rparr>"

definition exLossKey :: PortableKey where
  "exLossKey = \<lparr>pkKind = NetworkLoss, pkNode = [], pkFrom = ''a'', pkTo = ''b'',
     pkIncarnation = 1, pkOccurrence = 4\<rparr>"

lemma exWait_key: "PortableKeyForChoice exWait = Inr exWaitKey"
  by (simp add: PortableKeyForChoice_def validatePortableChoice_def ex_valid ex_fields choice_kinds supportedKind_def
      ex_objects durationKey_def rejectFields_def requiredString_def requiredUint_def ex_numbers ex_endpoints keyValidate_def exWaitKey_def)

lemma exLoss_key: "PortableKeyForChoice exLoss = Inr exLossKey"
  by (simp add: PortableKeyForChoice_def validatePortableChoice_def ex_valid ex_fields choice_kinds supportedKind_def
      ex_objects networkKey_def rejectFields_def requiredString_def requiredUint_def ex_numbers ex_endpoints keyValidate_def
      deliver_option_def drop_option_def exLossKey_def)

lemma ex_keys: "exWaitKey \<noteq> exLossKey" "exLossKey \<noteq> exWaitKey" "pkKind exWaitKey = ElectionTimeout"
  "pkKind exLossKey = NetworkLoss" "keyValidate exWaitKey = None" "keyValidate exLossKey = None"
  using key_valid [OF exWait_key] key_valid [OF exLoss_key] by (simp_all add: exWaitKey_def exLossKey_def)

lemma ex_fixed: "fixedSelection exWait = None" "fixedSelection exLoss = None"
  by (simp_all add: fixedSelection_def ex_fields)

lemma ex_entries:
  "newEntry exHash exWait (numberSelection 7) = Inr (exEntry exWait (numberSelection 7))"
  "newEntry exHash exLoss (optionSelection ''drop'') = Inr (exEntry exLoss (optionSelection ''drop''))"
proof -
  have "validateSelection exWait (numberSelection 7) = None" "validateSelection exLoss (optionSelection ''drop'') = None"
    by (simp_all add: validateSelection_def ex_fields numberSelection_def optionSelection_def)
  then show "newEntry exHash exWait (numberSelection 7) = Inr (exEntry exWait (numberSelection 7))"
    "newEntry exHash exLoss (optionSelection ''drop'') = Inr (exEntry exLoss (optionSelection ''drop''))"
    using newEntry_valid [OF ex_valid(1), of "numberSelection 7" exHash]
      newEntry_valid [OF ex_valid(2), of "optionSelection ''drop''" exHash] by (auto simp: exEntry_def)
qed

lemma ex_entry_fields [simp]:
  "teChoice (exEntry exWait (numberSelection 7)) = exWait" "teSelection (exEntry exWait (numberSelection 7)) = numberSelection 7"
  "teChoice (exEntry exLoss (optionSelection ''drop'')) = exLoss"
  "teSelection (exEntry exLoss (optionSelection ''drop'')) = optionSelection ''drop''"
  using ex_entries by (auto simp: newEntry_Inr)

lemma ex_entryKeys [simp]:
  "entryKey (exEntry exWait (numberSelection 7)) = exWaitKey"
  "entryKey (exEntry exLoss (optionSelection ''drop'')) = exLossKey"
  by (simp_all add: entryKey_def exWait_key exLoss_key)

definition exDirectives :: "Directive list" where
  "exDirectives =
     [\<lparr>drKey = exWaitKey, drSourceIndex = 0, drSelection = numberSelection 7\<rparr>,
      \<lparr>drKey = exLossKey, drSourceIndex = 1, drSelection = optionSelection ''drop''\<rparr>]"

lemma exDirectives_valid: "ValidateDirectives exDirectives = None"
  by (simp add: ValidateDirectives_iff exDirectives_def directiveOk_def MaxDecisions_def ex_keys choice_kinds
      validateDirectiveSelection_def numberSelection_def optionSelection_def drop_option_def)

lemma exSource_directives: "DirectivesFromTape exHash exSource = Inr exDirectives"
proof -
  have "list_all (entryStored exHash) exEntries"
    using newEntry_stored [OF ex_entries(1)] newEntry_stored [OF ex_entries(2)] by (simp add: exEntries_def)
  moreover have "directivesFrom 0 [] exEntries = Inr exDirectives"
    using portable_valid [OF exWait_key] portable_valid [OF exLoss_key]
    by (simp add: exEntries_def exDirectives_def exWait_key exLoss_key ex_fixed ex_keys)
  ultimately show ?thesis
    by (simp add: DirectivesFromTape_def newTapeDecider_def exSource_def exDirectives_valid)
qed

section \<open>Properties\<close>

text \<open>
  C13. Projecting a plan onto the run it came from: from the directives of a validated source tape, the
  projector answers the choices of the tape, asked in any order whatever, with the recorded selections, and
  its report is exact.
\<close>

theorem source_projects_exactly:
  assumes "DirectivesFromTape sha tape = Inr ds" and "mset es = mset (tpEntries tape)"
  shows "\<exists>p q. NewProjector ds seed = Inr p \<and> projectAll p (map teChoice es) = Some (q, map teSelection es)
    \<and> prFidelity (projectorFinish q) = ProjectionExact"
proof -
  note t = tape_sourced [OF assms]
  let ?p = "fresh_projector ds seed"
  obtain q where q: "projectAll ?p (map teChoice es) = Some (q, map teSelection es)" "pjDirectives q = pinned ds"
    "pjFailed q = None" "pjAdditional q = []" "set (pjConsumed q) = entryKey ` set (variable_entries es)"
    using sourced_run [of ds es ?p] t by (auto simp: fresh_projector_def)
  have "unmatchedOf q ds = []"
    using q(5) t by (auto simp: unmatchedOf_def filter_empty_conv)
  then show ?thesis
    using q t finish_fields(4) [OF q(2)] by (intro exI [of _ ?p] exI [of _ q]) (simp add: NewProjector_Inr)
qed

theorem source_projects_exactly_witness:
  "\<exists>p q. NewProjector exDirectives 3 = Inr p
    \<and> projectAll p [exLoss, exWait] = Some (q, [optionSelection ''drop'', numberSelection 7])
    \<and> prFidelity (projectorFinish q) = ProjectionExact"
  using source_projects_exactly [OF exSource_directives, of "rev exEntries" 3]
  by (simp add: exSource_def exEntries_def)

text \<open>
  C35. The answers of a projection: whatever choices a target asks, every selection it gets lies in the domain
  of its choice, a choice with one selection gets that one, a directive is obeyed by the choice with its key,
  and no key is answered twice.
\<close>

theorem projection_obeys:
  assumes "NewProjector ds seed = Inr p" and "projectAll p cs = Some (q, sels)" and "i < length sels"
  shows "(wfChoice (cs ! i) \<longrightarrow> ValidateSelection (cs ! i) (sels ! i) = None)
    \<and> (\<forall>sel. fixedSelection (cs ! i) = Some sel \<longrightarrow> sels ! i = sel)
    \<and> (\<forall>d \<in> set ds. pins d (cs ! i) \<longrightarrow> sels ! i = drSelection d)
    \<and> (\<forall>j < i. PortableKeyForChoice (cs ! j) \<noteq> PortableKeyForChoice (cs ! i))"
proof -
  have v: "ValidateDirectives ds = None" and p: "pjDirectives p = pinned ds"
    using assms(1) by (auto simp: NewProjector_Inr fresh_projector_def)
  have "map_of (pinned ds) (drKey d) = Some d" if "d \<in> set ds" for d
    using map_of_pinned [of ds "drKey d" d] that v by (simp add: ValidateDirectives_iff)
  then show ?thesis
    using run_answers [OF assms(2) p assms(3)] by (auto simp: pins_def)
qed

lemma exRun_projected:
  "projectAll (fresh_projector exDirectives 3) [exLoss, exWait] =
     Some (the (map_option fst (projectAll (fresh_projector exDirectives 3) [exLoss, exWait])),
       [optionSelection ''drop'', numberSelection 7])"
proof -
  note t = tape_sourced [OF exSource_directives, of "rev exEntries"]
  show ?thesis
    using sourced_run [of exDirectives "rev exEntries" "fresh_projector exDirectives 3"] t
    by (auto simp: fresh_projector_def exSource_def exEntries_def)
qed

lemma exProjector: "NewProjector exDirectives 3 = Inr (fresh_projector exDirectives 3)"
  by (simp add: NewProjector_Inr exDirectives_valid)

theorem projection_obeys_witness:
  "ValidateSelection exWait (numberSelection 7) = None \<and> numberSelection 7 = drSelection (hd exDirectives)
    \<and> PortableKeyForChoice exLoss \<noteq> PortableKeyForChoice exWait"
proof -
  have "hd exDirectives \<in> set exDirectives" "pins (hd exDirectives) exWait"
    by (simp_all add: exDirectives_def pins_def exWait_key ex_fixed)
  moreover have "ValidateSelection exWait (numberSelection 7) = None
      \<and> (\<forall>d \<in> set exDirectives. pins d exWait \<longrightarrow> numberSelection 7 = drSelection d)
      \<and> PortableKeyForChoice exLoss \<noteq> PortableKeyForChoice exWait"
    using projection_obeys [OF exProjector exRun_projected, of 1] by (simp add: ex_valid)
  ultimately show ?thesis by blast
qed

text \<open>
  C36. The accounting of a projection: after any run, cut short by an error or not, the report passes the
  validation of executions for the number of answers that were recorded, lists as unmatched exactly the
  directives that pinned no answered choice, and is failed exactly when the run was cut short and exact
  exactly when it was complete with no directive unmatched and no additional choice.
\<close>

theorem projection_accounts:
  assumes "NewProjector ds seed = Inr p" and "projectAll p cs = Some (q, sels)"
    and "length ds \<le> MaxDecisions" and "length cs \<le> MaxDecisions"
  shows "validateProjectionReport (projectorFinish q) (int (length sels)) = None
    \<and> prUnmatched (projectorFinish q) = Some (filter (\<lambda>d. \<not> (\<exists>c \<in> set (take (length sels) cs). pins d c)) ds)
    \<and> (prFidelity (projectorFinish q) = ProjectionFailed \<longleftrightarrow> length sels < length cs)
    \<and> (prFidelity (projectorFinish q) = ProjectionExact \<longleftrightarrow>
         length sels = length cs \<and> prUnmatched (projectorFinish q) = Some [] \<and> prAdditional (projectorFinish q) = Some [])"
proof -
  have v: "ValidateDirectives ds = None" and p: "p = fresh_projector ds seed"
    using assms(1) by (auto simp: NewProjector_Inr)
  have inv: "projInv ds (length sels) q" and sels: "length sels \<le> length cs"
    and failed: "pjFailed q = None \<longleftrightarrow> length sels = length cs"
    using projectAll_inv [OF projInv_fresh, of ds seed cs q sels] assms(2) p by (simp_all add: fresh_projector_def)
  have q: "pjDirectives q = pinned ds" using inv by (simp add: projInv_def)
  note f = finish_fields [OF q v]
  have "drKey d \<in> set (pjConsumed q) \<longleftrightarrow> (\<exists>c \<in> set (take (length sels) cs). pins d c)" if "d \<in> set ds" for d
    using run_consumed [OF assms(2) _ v that] p by (simp add: fresh_projector_def)
  then have unmatched: "unmatchedOf q ds = filter (\<lambda>d. \<not> (\<exists>c \<in> set (take (length sels) cs). pins d c)) ds"
    unfolding unmatchedOf_def by (intro filter_cong) auto
  have "sortKeys (pjAdditional q) = [] \<longleftrightarrow> pjAdditional q = []"
    by (metis sortKeys_def length_0_conv length_sort)
  then show ?thesis
    using finish_valid [OF inv v assms(3)] assms(4) sels failed f(1,2,4) unmatched by auto
qed

theorem projection_accounts_witness:
  "\<exists>q. projectAll (fresh_projector exDirectives 3) [exLoss, exWait] =
       Some (q, [optionSelection ''drop'', numberSelection 7])
    \<and> validateProjectionReport (projectorFinish q) 2 = None \<and> prFidelity (projectorFinish q) \<noteq> ProjectionFailed"
  using projection_accounts [OF exProjector exRun_projected] exRun_projected
  by (force simp: exDirectives_def MaxDecisions_def)

end
