(* ===== verification/SemOutcomeProps.thy ===== *)
theory SemOutcomeProps
  imports SemProjectProps
begin

text \<open>
  Normalized outcomes: the sorted-list operations are the set operations, comparisons of valid outcomes always
  validate, and the two orders of a comparison mirror each other.
\<close>

section \<open>Sorted sets of strings\<close>

lemma invariantsFrom_iff:
  "invariantsFrom previous vs \<longleftrightarrow> list_all invariantPattern vs \<and> sorted_wrt (<) vs
     \<and> (\<forall>v \<in> set vs. \<forall>p. previous = Some p \<longrightarrow> p < v)"
  by (induction vs arbitrary: previous) (auto simp: not_le split: option.splits dest: less_trans)

definition invariantSet :: "string list \<Rightarrow> bool" where
  "invariantSet vs \<longleftrightarrow> length vs \<le> maxNormalizedInvariants \<and> list_all invariantPattern vs \<and> sorted_wrt (<) vs"

lemma validateInvariantSet_iff:
  "validateInvariantSet listed = None \<longleftrightarrow> (\<exists>vs. listed = Some vs \<and> invariantSet vs)"
  by (cases listed) (auto simp: validateInvariantSet_def invariantsFrom_iff invariantSet_def)

lemma validateInvariantSet_Some: "invariantSet vs \<Longrightarrow> validateInvariantSet (Some vs) = None"
  by (simp add: validateInvariantSet_iff)

lemma remdups_adj_strict: "sorted vs \<Longrightarrow> sorted_wrt (<) (remdups_adj vs)"
  by (induction vs rule: remdups_adj.induct) auto

lemma sortCompact_props [simp]: "set (sortCompact vs) = set vs" "sorted_wrt (<) (sortCompact vs)"
  by (simp_all add: sortCompact_def remdups_adj_strict)

lemma sortCompact_id: "sorted_wrt (<) vs \<Longrightarrow> sortCompact vs = vs"
  by (metis strict_sorted_equal sortCompact_props)

lemma intersects_iff:
  "sorted_wrt (<) ls \<Longrightarrow> sorted_wrt (<) rs \<Longrightarrow> intersects ls rs \<longleftrightarrow> set ls \<inter> set rs \<noteq> {}"
  by (induction ls rs rule: intersects.induct) (auto dest: less_trans)

lemma isSubset_iff:
  "sorted_wrt (<) vs \<Longrightarrow> sorted_wrt (<) us \<Longrightarrow> isSubset vs us \<longleftrightarrow> set vs \<subseteq> set us"
proof (induction vs arbitrary: us)
  case (Cons v vs)
  let ?tail = "dropWhile (\<lambda>x. x < v) us"
  have split: "us = takeWhile (\<lambda>x. x < v) us @ ?tail" by simp
  have sorted_tail: "sorted_wrt (<) ?tail"
    using Cons.prems(2) split sorted_wrt_append by metis
  have low: "x < v" if "x \<in> set (takeWhile (\<lambda>x. x < v) us)" for x
    using that by (rule set_takeWhileD [THEN conjunct2])
  have member: "x \<in> set us \<longleftrightarrow> x \<in> set ?tail" if "v \<le> x" for x
  proof -
    have "set us = set (takeWhile (\<lambda>x. x < v) us) \<union> set ?tail"
      by (metis set_append split)
    then show ?thesis using that low [of x] by auto
  qed
  have larger: "v < x" if "x \<in> set vs" for x using Cons.prems(1) that by simp
  show ?case
  proof (cases ?tail)
    case Nil
    then have "v \<notin> set us" using member [of v] by (simp only: list.set) simp
    then show ?thesis unfolding isSubset.simps Nil by simp
  next
    case (Cons x rest)
    have "\<not> x < v" using Cons hd_dropWhile [of "\<lambda>x. x < v" us] by auto
    moreover have "\<forall>y \<in> set rest. x < y" using sorted_tail Cons by simp
    ultimately have "v \<in> set us \<longleftrightarrow> x = v" using member [of v] Cons by auto
    moreover have "set vs \<subseteq> set us \<longleftrightarrow> set vs \<subseteq> set (x # rest)"
      using member larger Cons by (metis less_imp_le subset_iff)
    ultimately show ?thesis
      using Cons.IH [of "x # rest"] Cons.prems(1) sorted_tail Cons by auto
  qed
qed simp

lemma partitionSets_sets:
  "sorted_wrt (<) ls \<Longrightarrow> sorted_wrt (<) rs \<Longrightarrow> partitionSets ls rs = (shared, a, b) \<Longrightarrow>
     set shared = set ls \<inter> set rs \<and> set a = set ls - set rs \<and> set b = set rs - set ls
     \<and> sorted_wrt (<) shared \<and> sorted_wrt (<) a \<and> sorted_wrt (<) b
     \<and> length shared \<le> length ls \<and> length a \<le> length ls \<and> length b \<le> length rs"
proof (induction ls rs arbitrary: shared a b rule: partitionSets.induct)
  case (1 l ls r rs)
  consider (less) "l < r" | (more) "r < l" | (same) "l = r" by fastforce
  then show ?case
  proof cases
    case less
    obtain s a' b' where p: "partitionSets ls (r # rs) = (s, a', b')" by (metis prod_cases3)
    have "l \<notin> set (r # rs)" using less "1.prems"(2) by auto
    then show ?thesis
      using "1.IH"(1) [OF less _ _ p] "1.prems" less p by auto
  next
    case more
    obtain s a' b' where p: "partitionSets (l # ls) rs = (s, a', b')" by (metis prod_cases3)
    have not_less: "\<not> l < r" and "r \<notin> set (l # ls)" using more "1.prems"(1) by auto
    then show ?thesis
      using "1.IH"(2) [OF not_less more _ _ p] "1.prems" more p by auto
  next
    case same
    obtain s a' b' where p: "partitionSets ls rs = (s, a', b')" by (metis prod_cases3)
    show ?thesis
      using "1.IH"(3) [OF _ _ _ _ p] "1.prems" same p by auto
  qed
qed auto

section \<open>Digests\<close>

lemma hexDigit_range: "n < 16 \<Longrightarrow>
   CHR ''0'' \<le> hexDigit n \<and> hexDigit n \<le> CHR ''9'' \<or> CHR ''a'' \<le> hexDigit n \<and> hexDigit n \<le> CHR ''f''"
proof -
  assume "n < 16"
  then have "n \<in> set [0..<16]" by simp
  then show ?thesis by (auto simp: upt_rec hexDigit_def)
qed

lemma digestPattern_encode: "length bs = 32 \<Longrightarrow> digestPattern (EncodeToString bs)"
proof -
  have "list_all (\<lambda>ch. CHR ''0'' \<le> ch \<and> ch \<le> CHR ''9'' \<or> CHR ''a'' \<le> ch \<and> ch \<le> CHR ''f'') (EncodeToString bs)"
  proof (induction bs)
    case (Cons b bs)
    have "unat b < 256" using unsigned_less [of b] by simp
    then have "unat b div 16 < 16" "unat b mod 16 < 16" by simp_all
    then show ?case using Cons hexDigit_range by simp
  qed simp
  then show "length bs = 32 \<Longrightarrow> digestPattern (EncodeToString bs)" by (simp add: digestPattern_def)
qed

section \<open>Valid outcomes\<close>

lemma outcomeValidate_None:
  assumes "outcomeValidate x = None"
  obtains ns negotiated common specific where
    "noNodeCommitments x = Some ns" "noNegotiated x = Some negotiated" "noCommon x = Some common"
    "noSpecific x = Some specific" "invariantSet negotiated" "invariantSet common" "invariantSet specific"
    "set common \<subseteq> set negotiated" "set specific \<inter> set negotiated = {}" "set common \<inter> set specific = {}"
    "outcomeStatuses x" "digestPattern (noPlanSHA256 x)" "digestPattern (noExecutionSHA256 x)"
    "validateAdapterID (noAdapter x) = None" "commitmentsFrom None ns" "noNodesAgree x = commitmentsAgree ns"
proof -
  obtain ns where ns: "noNodeCommitments x = Some ns"
    using assms by (auto simp: outcomeValidate_def Let_def split: if_splits)
  obtain negotiated common specific where sets: "noNegotiated x = Some negotiated" "noCommon x = Some common"
    "noSpecific x = Some specific" "invariantSet negotiated" "invariantSet common" "invariantSet specific"
    using assms
    by (auto simp: outcomeValidate_def Let_def validateInvariantSet_iff split: if_splits option.splits)
  then have "sorted_wrt (<) negotiated" "sorted_wrt (<) common" "sorted_wrt (<) specific"
    by (simp_all add: invariantSet_def)
  then have "set common \<subseteq> set negotiated" "set specific \<inter> set negotiated = {}" "set common \<inter> set specific = {}"
    using assms sets(1-3) isSubset_iff intersects_iff
    by (auto simp: outcomeValidate_def Let_def split: if_splits option.splits)
  then show thesis
    using assms sets ns
    by (intro that [OF ns sets(1-3)]) (auto simp: outcomeValidate_def Let_def split: if_splits option.splits)
qed

lemma statuses_pair:
  "outcomeStatuses x \<Longrightarrow> validateProjectionCompletionPair (noEligibility x) (noProjection x) (noCompletion x) = None"
  by (auto simp: outcomeStatuses_def validateProjectionCompletionPair_def split: if_splits)

lemma statuses_known:
  assumes "outcomeStatuses x"
  shows "noCompletion x \<in> set completionStatuses" "noEligibility x \<in> {EligibilityEligible, EligibilityIneligible}"
  using assms by (auto simp: outcomeStatuses_def split: if_splits)

lemma compare_known:
  "compareEligibility l r \<in> set eligibilityComparisons" "compareProjection f g l r \<in> set projectionComparisons"
  "compareExecutionBoundary c d l r \<in> set executionBoundaryComparisons"
  "compareApplication x y \<in> set applicationComparisons" "agreement b \<in> set agreementStatuses"
  by (auto simp: compareEligibility_def compareProjection_def compareExecutionBoundary_def compareApplication_def
      agreement_def status_lists Let_def)

lemma eligibility_back:
  "l \<in> {EligibilityEligible, EligibilityIneligible} \<Longrightarrow> r \<in> {EligibilityEligible, EligibilityIneligible} \<Longrightarrow>
     eligibilityFromComparison (compareEligibility l r) True = l \<and> eligibilityFromComparison (compareEligibility l r) False = r"
  by (auto simp: eligibilityFromComparison_def compareEligibility_def)

section \<open>Comparisons of valid outcomes\<close>

definition bothReached :: "NormalizedOutcome \<Rightarrow> NormalizedOutcome \<Rightarrow> bool" where
  "bothReached left right \<longleftrightarrow> noEligibility left = EligibilityEligible \<and> noEligibility right = EligibilityEligible
     \<and> noCompletion left = CompletionCompleted \<and> noCompletion right = CompletionCompleted"

lemma boundary_iff:
  "compareExecutionBoundary (noCompletion l) (noCompletion r) (noEligibility l) (noEligibility r) = ExecutionBothReached
     \<longleftrightarrow> bothReached l r"
  by (auto simp: compareExecutionBoundary_def bothReached_def completionReachedBoundary_def Let_def)

text \<open>The comparison that \<open>CompareNormalized\<close> builds before it validates it.\<close>

definition comparisonOf :: "NormalizedOutcome \<Rightarrow> NormalizedOutcome \<Rightarrow> string \<Rightarrow> string \<Rightarrow> NormalizedComparison" where
  "comparisonOf left right leftDigest rightDigest =
     (let p = freshComparison left right leftDigest rightDigest in
      if bothReached left right then
        (case partitionSets (items (noCommon left)) (items (noCommon right)) of
           (shared, lefts, rights) \<Rightarrow>
             p\<lparr>npShared := Some shared, npLeftOnly := Some lefts, npRightOnly := Some rights,
               npSafety := agreement (length lefts = 0 \<and> length rights = 0),
               npApplication := compareApplication left right\<rparr>)
      else p)"

lemma invariantSet_subset:
  assumes "invariantSet us" and "set vs \<subseteq> set us" and "sorted_wrt (<) vs" and "length vs \<le> length us"
  shows "invariantSet vs"
  using assms by (auto simp: invariantSet_def list_all_iff)

lemma comparison_sets_valid:
  assumes "outcomeValidate left = None" and "outcomeValidate right = None" and "noNegotiated left = noNegotiated right"
  shows "comparisonSets (comparisonOf left right ld rd) = None"
proof -
  obtain ns negotiated lc ls where l: "noNegotiated left = Some negotiated" "noCommon left = Some lc"
    "invariantSet negotiated" "invariantSet lc" "set lc \<subseteq> set negotiated"
    using assms(1) by (rule outcomeValidate_None)
  obtain ns' negotiated' rc rs where r: "noNegotiated right = Some negotiated'" "noCommon right = Some rc"
    "invariantSet negotiated'" "invariantSet rc" "set rc \<subseteq> set negotiated'"
    using assms(2) by (rule outcomeValidate_None)
  have empty: "invariantSet []" by (simp add: invariantSet_def)
  show ?thesis
  proof (cases "bothReached left right")
    case False
    then have "npExecutionBoundary (comparisonOf left right ld rd) \<noteq> ExecutionBothReached"
      using boundary_iff [of left right] by (simp add: comparisonOf_def freshComparison_def Let_def)
    then show ?thesis
      using False l(1,3) empty
      by (simp add: comparisonSets_def comparisonOf_def freshComparison_def Let_def validateInvariantSet_Some)
  next
    case True
    obtain shared a b where p: "partitionSets lc rc = (shared, a, b)" by (metis prod_cases3)
    have sorted: "sorted_wrt (<) lc" "sorted_wrt (<) rc" "sorted_wrt (<) negotiated"
      using l(3,4) r(4) by (simp_all add: invariantSet_def)
    note parts = partitionSets_sets [OF sorted(1,2) p]
    have valid: "invariantSet shared" "invariantSet a" "invariantSet b"
      using parts invariantSet_subset [OF l(4)] invariantSet_subset [OF r(4)] by auto
    have subsets: "isSubset shared negotiated" "isSubset a negotiated" "isSubset b negotiated"
      using parts l(1,5) r(1,5) assms(3) sorted(3) isSubset_iff by auto
    have disjoint: "\<not> intersects shared a" "\<not> intersects shared b" "\<not> intersects a b"
      using parts intersects_iff by auto
    let ?q = "comparisonOf left right ld rd"
    have q: "npShared ?q = Some shared" "npLeftOnly ?q = Some a" "npRightOnly ?q = Some b"
      "npNegotiated ?q = Some negotiated" "npSafety ?q = agreement (length a = 0 \<and> length b = 0)"
      "npExecutionBoundary ?q = ExecutionBothReached"
      using True boundary_iff [of left right] p l(1,2) r(2) by (simp_all add: comparisonOf_def freshComparison_def Let_def)
    show ?thesis
    proof (cases "a = [] \<and> b = []")
      case True
      then show ?thesis
        unfolding comparisonSets_def q using valid l(3) subsets disjoint
        by (simp add: Let_def validateInvariantSet_Some agreement_def)
    next
      case False
      then show ?thesis
        unfolding comparisonSets_def q using valid l(3) subsets disjoint
        by (simp add: Let_def validateInvariantSet_Some agreement_def)
    qed
  qed
qed

lemma comparison_valid:
  assumes "outcomeValidate left = None" and "outcomeValidate right = None" and "noNegotiated left = noNegotiated right"
    and "digestPattern ld" and "digestPattern rd"
  shows "comparisonValidate (comparisonOf left right ld rd) = None"
proof -
  let ?q = "comparisonOf left right ld rd"
  obtain ns negotiated lc ls where l: "outcomeStatuses left" "digestPattern (noPlanSHA256 left)"
    "digestPattern (noExecutionSHA256 left)" "validateAdapterID (noAdapter left) = None"
    using assms(1) by (rule outcomeValidate_None)
  obtain ns' negotiated' rc rs where r: "outcomeStatuses right" "digestPattern (noExecutionSHA256 right)"
    "validateAdapterID (noAdapter right) = None"
    using assms(2) by (rule outcomeValidate_None)
  have q: "npSchema ?q = NormalizedComparisonSchema" "npPlanSHA256 ?q = noPlanSHA256 left"
    "npLeftExecutionSHA256 ?q = noExecutionSHA256 left" "npRightExecutionSHA256 ?q = noExecutionSHA256 right"
    "npLeftOutcomeSHA256 ?q = ld" "npRightOutcomeSHA256 ?q = rd" "npLeftAdapter ?q = noAdapter left"
    "npRightAdapter ?q = noAdapter right"
    "npEligibility ?q = compareEligibility (noEligibility left) (noEligibility right)"
    "npLeftProjection ?q = noProjection left" "npRightProjection ?q = noProjection right"
    "npProjection ?q = compareProjection (noProjection left) (noProjection right) (noEligibility left) (noEligibility right)"
    "npLeftCompletion ?q = noCompletion left" "npRightCompletion ?q = noCompletion right"
    "npExecutionBoundary ?q =
      compareExecutionBoundary (noCompletion left) (noCompletion right) (noEligibility left) (noEligibility right)"
    by (simp_all add: comparisonOf_def freshComparison_def Let_def split: prod.split)
  have vocabulary: "npSafety ?q \<in> set agreementStatuses" "npApplication ?q \<in> set applicationComparisons"
    using compare_known(4,5)
    by (auto simp: comparisonOf_def freshComparison_def Let_def status_lists split: prod.split)
  show ?thesis
    unfolding comparisonValidate_def q
    using assms(4,5) l r vocabulary statuses_pair [OF l(1)] statuses_pair [OF r(1)] statuses_known [OF l(1)]
      statuses_known [OF r(1)] compare_known(1-3) eligibility_back comparison_sets_valid [OF assms(1-3)]
    by (simp add: Let_def)
qed

lemma CompareNormalized_valid:
  assumes "outcomeValidate left = None" and "outcomeValidate right = None"
    and "noPlanSHA256 left = noPlanSHA256 right" and "noNegotiated left = noNegotiated right"
    and "marshal left = Some a" and "marshal right = Some b" and "length (sha a) = 32" and "length (sha b) = 32"
  shows "CompareNormalized sha marshal left right =
     Inr (comparisonOf left right (EncodeToString (sha a)) (EncodeToString (sha b)))"
proof -
  let ?ld = "EncodeToString (sha a)" and ?rd = "EncodeToString (sha b)"
  have valid: "comparisonValidate (comparisonOf left right ?ld ?rd) = None"
    using comparison_valid [OF assms(1,2,4)] digestPattern_encode assms(7,8) by blast
  have fresh: "npExecutionBoundary (freshComparison left right ?ld ?rd) = ExecutionBothReached \<longleftrightarrow> bothReached left right"
    using boundary_iff [of left right] by (simp add: freshComparison_def)
  show ?thesis
    using assms valid
    by (simp add: CompareNormalized_def DigestNormalizedOutcome_def digestCanonicalJSON_def Let_def fresh comparisonOf_def)
qed

section \<open>The other order\<close>

lemma partitionSets_swap:
  "partitionSets rs ls = (case partitionSets ls rs of (shared, a, b) \<Rightarrow> (shared, b, a))"
proof (induction ls rs rule: partitionSets.induct)
  case (1 l ls r rs)
  consider (less) "l < r" "\<not> r < l" | (more) "r < l" "\<not> l < r" | (same) "\<not> l < r" "\<not> r < l" "l = r" by fastforce
  then show ?case using 1 by cases (simp_all split: prod.split)
next
  case (2 rs)
  show ?case by (cases rs) simp_all
qed simp

fun mirrorEligibility :: "EligibilityComparison \<Rightarrow> EligibilityComparison" where
  "mirrorEligibility EligibilityLeftIneligible = EligibilityRightIneligible"
| "mirrorEligibility EligibilityRightIneligible = EligibilityLeftIneligible"
| "mirrorEligibility e = e"

fun mirrorProjection :: "ProjectionComparison \<Rightarrow> ProjectionComparison" where
  "mirrorProjection ProjectionLeftPartial = ProjectionRightPartial"
| "mirrorProjection ProjectionRightPartial = ProjectionLeftPartial"
| "mirrorProjection p = p"

fun mirrorBoundary :: "ExecutionBoundaryComparison \<Rightarrow> ExecutionBoundaryComparison" where
  "mirrorBoundary ExecutionLeftNotReached = ExecutionRightNotReached"
| "mirrorBoundary ExecutionRightNotReached = ExecutionLeftNotReached"
| "mirrorBoundary b = b"

fun mirrorApplication :: "ApplicationComparison \<Rightarrow> ApplicationComparison" where
  "mirrorApplication ApplicationLeftNodesDisagreeAtBoundary = ApplicationRightNodesDisagreeAtBoundary"
| "mirrorApplication ApplicationRightNodesDisagreeAtBoundary = ApplicationLeftNodesDisagreeAtBoundary"
| "mirrorApplication a = a"

definition mirror :: "NormalizedComparison \<Rightarrow> NormalizedComparison" where
  "mirror p = p\<lparr>npLeftExecutionSHA256 := npRightExecutionSHA256 p, npRightExecutionSHA256 := npLeftExecutionSHA256 p,
     npLeftOutcomeSHA256 := npRightOutcomeSHA256 p, npRightOutcomeSHA256 := npLeftOutcomeSHA256 p,
     npLeftAdapter := npRightAdapter p, npRightAdapter := npLeftAdapter p,
     npEligibility := mirrorEligibility (npEligibility p),
     npLeftProjection := npRightProjection p, npRightProjection := npLeftProjection p,
     npProjection := mirrorProjection (npProjection p),
     npLeftCompletion := npRightCompletion p, npRightCompletion := npLeftCompletion p,
     npExecutionBoundary := mirrorBoundary (npExecutionBoundary p),
     npLeftOnly := npRightOnly p, npRightOnly := npLeftOnly p, npApplication := mirrorApplication (npApplication p)\<rparr>"

lemma eligibility_mirrors: "compareEligibility r l = mirrorEligibility (compareEligibility l r)"
  by (cases l; cases r; simp add: compareEligibility_def)

lemma boundary_mirrors: "compareExecutionBoundary d c r l = mirrorBoundary (compareExecutionBoundary c d l r)"
  by (cases "l = EligibilityEligible"; cases "r = EligibilityEligible"; cases "completionReachedBoundary c";
      cases "completionReachedBoundary d"; simp add: compareExecutionBoundary_def)

lemma projection_mirrors:
  "knownFidelity f \<Longrightarrow> knownFidelity g \<Longrightarrow>
     compareProjection g f r l = mirrorProjection (compareProjection f g l r)"
  by (cases "l = EligibilityEligible"; cases "r = EligibilityEligible"; cases f; cases g;
      simp add: compareProjection_def knownFidelity_def)

lemma zip_swap: "list_all (\<lambda>(l, r). f l = f r) (zip ls rs) \<longleftrightarrow> list_all (\<lambda>(l, r). f l = f r) (zip rs ls)"
  by (induction ls rs rule: list_induct2') auto

lemma application_mirrors:
  assumes "noNodesAgree left \<or> noNodesAgree right"
  shows "compareApplication right left = mirrorApplication (compareApplication left right)"
proof -
  let ?ls = "items (noNodeCommitments left)" and ?rs = "items (noNodeCommitments right)"
  consider (empty) "?ls = []" | (other) "?rs = []" | (lengths) "length ?ls \<noteq> length ?rs" "?ls \<noteq> []" "?rs \<noteq> []"
    | (nodes) "length ?ls = length ?rs" "?ls \<noteq> []" "\<not> list_all (\<lambda>(l, r). ncNode l = ncNode r) (zip ?ls ?rs)"
    | (same) "length ?ls = length ?rs" "?ls \<noteq> []" "list_all (\<lambda>(l, r). ncNode l = ncNode r) (zip ?ls ?rs)"
    by blast
  then show ?thesis
  proof cases
    case same
    then have "?rs \<noteq> []" "list_all (\<lambda>(l, r). ncNode l = ncNode r) (zip ?rs ?ls)"
      using zip_swap [of ncNode ?ls ?rs] by auto
    moreover define l where "l = ncCommitment (hd ?ls)"
    moreover define r where "r = ncCommitment (hd ?rs)"
    ultimately show ?thesis
      using same assms
      by (cases "noNodesAgree left"; cases "noNodesAgree right"; cases "cmCommands l = cmCommands r";
          cases "cmChainDigest l = cmChainDigest r"; cases "cmStateDigest l = cmStateDigest r";
          simp add: compareApplication_def Let_def)
  next
    case nodes
    then show ?thesis
      using zip_swap [of ncNode ?ls ?rs] by (simp add: compareApplication_def Let_def)
  qed (simp_all add: compareApplication_def Let_def)
qed

lemma bothReached_swap: "bothReached right left = bothReached left right"
  by (auto simp: bothReached_def)

lemma mirror_update:
  "(mirror p)\<lparr>npShared := s, npLeftOnly := b, npRightOnly := a, npSafety := x, npApplication := mirrorApplication y\<rparr>
     = mirror (p\<lparr>npShared := s, npLeftOnly := a, npRightOnly := b, npSafety := x, npApplication := y\<rparr>)"
  by (simp add: mirror_def)

lemma comparisonOf_mirrors:
  assumes "outcomeStatuses left" and "outcomeStatuses right" and "noPlanSHA256 left = noPlanSHA256 right"
    and "noNegotiated left = noNegotiated right" and "bothReached left right \<Longrightarrow> noNodesAgree left \<or> noNodesAgree right"
  shows "comparisonOf right left rd ld = mirror (comparisonOf left right ld rd)"
proof -
  have known: "knownFidelity (noProjection left)" "knownFidelity (noProjection right)"
    using assms(1,2) by (auto simp: outcomeStatuses_def split: if_splits)
  have fresh: "freshComparison right left rd ld = mirror (freshComparison left right ld rd)"
    unfolding freshComparison_def mirror_def
    by (simp add: assms(3,4) eligibility_mirrors [of "noEligibility right" "noEligibility left"]
        boundary_mirrors [of "noCompletion right" "noCompletion left" "noEligibility right" "noEligibility left"]
        projection_mirrors [OF known, of "noEligibility right" "noEligibility left"])
  obtain shared a b where p: "partitionSets (items (noCommon left)) (items (noCommon right)) = (shared, a, b)"
    by (metis prod_cases3)
  then have q: "partitionSets (items (noCommon right)) (items (noCommon left)) = (shared, b, a)"
    by (subst partitionSets_swap) simp
  show ?thesis
  proof (cases "bothReached left right")
    case True
    have "agreement (length b = 0 \<and> length a = 0) = agreement (length a = 0 \<and> length b = 0)"
      by (simp add: agreement_def conj_commute)
    then show ?thesis
      using True application_mirrors [OF assms(5) [OF True]] bothReached_swap [of right left]
      by (simp only: comparisonOf_def p q Let_def fresh prod.case if_True mirror_update refl)
  next
    case False
    then show ?thesis
      using bothReached_swap [of right left] by (simp add: comparisonOf_def Let_def fresh)
  qed
qed

section \<open>An example\<close>

definition exDigest :: "byte \<Rightarrow> string" where
  "exDigest b = EncodeToString (replicate 32 b)"

lemma exDigest_valid [simp]: "digestPattern (exDigest b)"
  unfolding exDigest_def by (rule digestPattern_encode) simp

definition exCommitment :: Commitment where
  "exCommitment = \<lparr>cmSchema = CommitmentSchema, cmCommands = 1, cmChainDigest = exDigest 0,
     cmStateDigest = exDigest 1\<rparr>"

definition exNormal :: "string \<Rightarrow> string list \<Rightarrow> NormalizedOutcome" where
  "exNormal name common =
     \<lparr>noSchema = NormalizedOutcomeSchema, noPlanSHA256 = exDigest 0,
      noExecutionSHA256 = exDigest 2, noAdapter = \<lparr>adID = name, adVersion = ''1''\<rparr>,
      noEligibility = EligibilityEligible, noProjection = ProjectionPartial, noCompletion = CompletionCompleted,
      noNodesAgree = True, noNodeCommitments = Some [\<lparr>ncNode = ''a'', ncCommitment = exCommitment\<rparr>],
      noNegotiated = Some [''log'', ''vote''], noCommon = Some common, noSpecific = Some [''own/check'']\<rparr>"

lemma ex_letters: "validString [c] \<and> trimmed [c] \<and> controlFree [c]" if "c \<in> {CHR ''a'', CHR ''l'', CHR ''r'', CHR ''1''}"
  using that
  by (auto simp: validString_def trimmed_def controlFree_def isSpace_def isControl_def runeWidth_def runeValue_def)

lemma ex_texts: "validateAdapterID \<lparr>adID = ''l'', adVersion = ''1''\<rparr> = None"
  "validateAdapterID \<lparr>adID = ''r'', adVersion = ''1''\<rparr> = None" "validateNodeID ''a'' = None"
  "invariantPattern ''log''" "invariantPattern ''vote''" "invariantPattern ''own/check''"
proof -
  have "controlFree ''l1''" "controlFree ''r1''"
    by (simp_all add: controlFree_def isControl_def runeWidth_def runeValue_def)
  then show "validateAdapterID \<lparr>adID = ''l'', adVersion = ''1''\<rparr> = None"
    "validateAdapterID \<lparr>adID = ''r'', adVersion = ''1''\<rparr> = None" "validateNodeID ''a'' = None"
    by (simp_all add: validateAdapterID_def validateNodeID_def ex_letters)
qed (simp_all add: invariantPattern_def lowerAlnum_def)

lemma exCommitment_valid: "validateCommitment exCommitment = None"
  by (simp add: validateCommitment_def exCommitment_def MaxCommands_def)

lemma exNormal_valid:
  assumes "validateAdapterID \<lparr>adID = name, adVersion = ''1''\<rparr> = None" and "common \<in> {[''log''], [''log'', ''vote'']}"
  shows "outcomeValidate (exNormal name common) = None"
  using assms ex_texts exCommitment_valid
  by (auto simp: outcomeValidate_def exNormal_def Let_def outcomeStatuses_def knownFidelity_def status_lists
      validateInvariantSet_def commitmentsAgree_def maxNormalizedNodes_def
      maxNormalizedInvariants_def)

lemmas ex_valid_pair = exNormal_valid [OF ex_texts(1), of "[''log'']"] exNormal_valid [OF ex_texts(2), of "[''log'', ''vote'']"]

section \<open>Properties\<close>



text \<open>
  The two orders of a comparison: swapping the outcomes swaps the sides of every axis, unless both runs
  completed and on both sides the nodes disagree; then both orders report the left side.
\<close>

theorem comparison_mirrors:
  assumes "outcomeValidate left = None" and "outcomeValidate right = None"
    and "noPlanSHA256 left = noPlanSHA256 right" and "noNegotiated left = noNegotiated right"
    and "marshal left = Some a" and "marshal right = Some b" and "length (sha a) = 32" and "length (sha b) = 32"
    and "bothReached left right \<Longrightarrow> noNodesAgree left \<or> noNodesAgree right"
  shows "CompareNormalized sha marshal right left = map_sum id mirror (CompareNormalized sha marshal left right)"
proof -
  have "outcomeStatuses left" using assms(1) by (rule outcomeValidate_None)
  moreover have "outcomeStatuses right" using assms(2) by (rule outcomeValidate_None)
  ultimately show ?thesis
    using comparisonOf_mirrors [OF _ _ assms(3,4,9)] CompareNormalized_valid [OF assms(1-8)]
      CompareNormalized_valid [OF assms(2,1) assms(3) [symmetric] assms(4) [symmetric] assms(6,5,8,7)]
    by simp
qed

theorem comparison_mirrors_witness:
  "CompareNormalized exHash (\<lambda>_. Some []) (exNormal ''r'' [''log'', ''vote'']) (exNormal ''l'' [''log'']) =
     map_sum id mirror
       (CompareNormalized exHash (\<lambda>_. Some []) (exNormal ''l'' [''log'']) (exNormal ''r'' [''log'', ''vote'']))"
  by (rule comparison_mirrors [OF ex_valid_pair]) (simp_all add: exNormal_def exHash_def)

end
