(* ===== verification/SemPlanProps.thy ===== *)
theory SemPlanProps
  imports SemOutcomeProps
begin

text \<open>
  Plans and capabilities: plain texts pass the text checks, the walk of the preflight over the actions, and
  what an eligible plan is.
\<close>

section \<open>Plain texts\<close>

definition plainChar :: "char \<Rightarrow> bool" where
  "plainChar c \<longleftrightarrow> 0x21 \<le> (of_char c :: nat) \<and> (of_char c :: nat) \<le> 0x7E"

lemma unat_of_char: "unat (of_char c :: byte) = of_char c"
proof -
  have "unat (of_nat (of_char c) :: byte) = of_char c"
    using nat_of_char_less_256 [of c] by (simp add: unat_of_nat)
  then show ?thesis by (simp only: of_nat_of_char)
qed

lemma plain_runes:
  "list_all plainChar s \<Longrightarrow> runes (ascii s) = map of_char s \<and> utf8Valid (ascii s)"
proof (induction s)
  case (Cons c s)
  have "runeWidth (of_char c # ascii s) = 1"
    using Cons.prems by (simp add: runeWidth_def word_less_nat_alt unat_of_char plainChar_def)
  then show ?case
    using Cons by (simp add: runeValue_def unat_of_char)
qed simp

lemma plain_text:
  assumes "list_all plainChar s"
  shows "validString s" "trimmed s" "controlFree s"
proof -
  have r: "runes (ascii s) = map of_char s" "utf8Valid (ascii s)" using plain_runes [OF assms] by auto
  have plain: "plainChar c" if "c \<in> set s" for c using assms that by (simp add: list_all_iff)
  show "validString s" using r(2) by (simp add: validString_def)
  have space: "\<not> isSpace (of_char c)" if "c \<in> set s" for c
    using plain [OF that] by (auto simp: plainChar_def isSpace_def)
  show "trimmed s"
    unfolding trimmed_def r(1) using space by (cases s) (auto simp: last_map)
  show "controlFree s"
    using plain by (fastforce simp: controlFree_def r(1) list_all_iff isControl_def plainChar_def)
qed

section \<open>Capabilities\<close>

lemma strictlySorted_iff: "strictlySorted vs \<longleftrightarrow> sorted_wrt (<) vs"
  by (induction vs rule: strictlySorted.induct) (auto dest: less_trans)

lemma capabilities_invariants:
  assumes "capabilitiesValidate c = None"
  shows "sorted_wrt (<) (items (cbInvariantIDs c))" "list_all invariantPattern (items (cbInvariantIDs c))"
    "length (items (cbInvariantIDs c)) \<le> maxNormalizedInvariants"
proof -
  have "validateCapabilityStrings (cbInvariantIDs c) invariantPattern = None"
    using assms by (auto simp: capabilitiesValidate_def split: if_splits option.splits)
  then show "sorted_wrt (<) (items (cbInvariantIDs c))" "list_all invariantPattern (items (cbInvariantIDs c))"
    "length (items (cbInvariantIDs c)) \<le> maxNormalizedInvariants"
    by (auto simp: validateCapabilityStrings_def boundedSet_def strictlySorted_iff list_all_iff maxCapabilityValues_def
        maxNormalizedInvariants_def split: if_splits)
qed

lemma commonSorted_nil: "commonSorted ls [] = []" "commonSorted [] rs = []"
  by (cases ls; simp)+

lemma commonSorted_swap: "commonSorted rs ls = commonSorted ls rs"
proof (induction ls rs rule: commonSorted.induct)
  case (1 l ls r rs)
  consider (less) "l < r" "\<not> r < l" | (more) "r < l" "\<not> l < r" | (same) "\<not> l < r" "\<not> r < l" "l = r" by fastforce
  then show ?case using 1 by cases simp_all
qed (simp_all add: commonSorted_nil)

lemma commonSorted_sets:
  "sorted_wrt (<) ls \<Longrightarrow> sorted_wrt (<) rs \<Longrightarrow>
     set (commonSorted ls rs) = set ls \<inter> set rs \<and> sorted_wrt (<) (commonSorted ls rs)
     \<and> length (commonSorted ls rs) \<le> length ls"
proof (induction ls rs rule: commonSorted.induct)
  case (1 l ls r rs)
  consider (less) "l < r" "\<not> r < l" | (more) "r < l" "\<not> l < r" | (same) "\<not> l < r" "\<not> r < l" "l = r" by fastforce
  then show ?case
  proof cases
    case less
    then have "l \<notin> set (r # rs)" using 1(5) by auto
    then show ?thesis using 1 less by auto
  next
    case more
    then have "r \<notin> set (l # ls)" using 1(4) by auto
    then show ?thesis using 1 more by auto
  next
    case same
    then show ?thesis using 1 by auto
  qed
qed auto

lemma Negotiate_Inr:
  assumes "NegotiateInvariantIDs c peer = Inr negotiated"
  shows "invariantSet negotiated" "set negotiated = set (items (cbInvariantIDs c)) \<inter> set (items (cbInvariantIDs peer))"
    "NegotiateInvariantIDs peer c = Inr negotiated"
proof -
  have v: "capabilitiesValidate c = None" "capabilitiesValidate peer = None"
    and n: "negotiated = commonSorted (items (cbInvariantIDs c)) (items (cbInvariantIDs peer))"
    using assms by (auto simp: NegotiateInvariantIDs_def split: option.splits)
  note sets = commonSorted_sets [OF capabilities_invariants(1) [OF v(1)] capabilities_invariants(1) [OF v(2)]]
  show "set negotiated = set (items (cbInvariantIDs c)) \<inter> set (items (cbInvariantIDs peer))"
    using sets n by simp
  show "invariantSet negotiated"
    using sets n capabilities_invariants(2,3) [OF v(1)] by (auto simp: invariantSet_def list_all_iff)
  show "NegotiateInvariantIDs peer c = Inr negotiated"
    using v n commonSorted_swap by (simp add: NegotiateInvariantIDs_def)
qed

section \<open>The walk of the preflight\<close>

text \<open>The restarts (\<open>True\<close>) and crashes (\<open>False\<close>) of a node, and the proposals, in the order of the actions.\<close>

definition lifecycle :: "NodeID \<Rightarrow> Action list \<Rightarrow> bool list" where
  "lifecycle node acts = map (\<lambda>a. acKind a = ActionRestart)
     (filter (\<lambda>a. acNode a = node \<and> (acKind a = ActionCrash \<or> acKind a = ActionRestart)) acts)"

definition commandOf :: "Action \<Rightarrow> CommandID option" where
  "commandOf a = (case DecodeCommand (acData a) of Inl _ \<Rightarrow> None | Inr command \<Rightarrow> Some (cmdID command))"

definition proposals :: "Action list \<Rightarrow> Action list" where
  "proposals acts = filter (\<lambda>a. acKind a = ActionPropose) acts"

definition networkActions :: "Action list \<Rightarrow> Action list" where
  "networkActions acts = filter (\<lambda>a. acKind a = ActionPartition \<or> acKind a = ActionHeal) acts"

fun alternates :: "bool \<Rightarrow> bool list \<Rightarrow> bool" where
  "alternates up [] = up"
| "alternates up (restart # rest) = (restart \<noteq> up \<and> alternates restart rest)"

lemma alternates_iff: "alternates True evs \<longleftrightarrow> (\<exists>n. evs = concat (replicate n [False, True]))"
proof
  show "alternates True evs \<Longrightarrow> \<exists>n. evs = concat (replicate n [False, True])"
  proof (induction evs rule: induct_list012)
    case 1
    then show ?case by (intro exI [of _ 0]) simp
  next
    case (3 x y zs)
    then obtain n where "zs = concat (replicate n [False, True])" by auto
    then show ?case using 3(3) by (intro exI [of _ "Suc n"]) simp
  qed simp
next
  assume "\<exists>n. evs = concat (replicate n [False, True])"
  then obtain n where "evs = concat (replicate n [False, True])" ..
  moreover have "alternates True (concat (replicate n [False, True]))" by (induction n) simp_all
  ultimately show "alternates True evs" by simp
qed

lemmas kind_distinct = action_kinds

definition keepsUp :: "Walk \<Rightarrow> NodeID set \<Rightarrow> bool" where
  "keepsUp w ns \<longleftrightarrow> wkLifecycleValid w \<and> (\<forall>m \<in> ns. isUp w m)"

lemma walkAction_invalid: "\<not> wkLifecycleValid w \<Longrightarrow> \<not> wkLifecycleValid (walkAction a w)"
  by (auto simp: walkAction_def Let_def split: sum.splits)

lemma walk_invalid: "\<not> wkLifecycleValid w \<Longrightarrow> \<not> wkLifecycleValid (fold walkAction acts w)"
  by (induction acts arbitrary: w) (auto simp: walkAction_invalid)

lemma walkAction_required: "set (wkRequired (walkAction a w)) = insert (acKind a) (set (wkRequired w))"
  by (auto simp: walkAction_def Let_def split: sum.splits)

lemma walk_required: "set (wkRequired (fold walkAction acts w)) = acKind ` set acts \<union> set (wkRequired w)"
  by (induction acts arbitrary: w) (auto simp: walkAction_required)

lemma walkAction_partitioned:
  "wkPartitioned (walkAction a w) \<longleftrightarrow>
     (if acKind a = ActionPartition then True else if acKind a = ActionHeal then False else wkPartitioned w)"
  by (auto simp: walkAction_def Let_def kind_distinct split: sum.splits)

lemma walk_partitioned:
  "wkPartitioned (fold walkAction acts w) \<longleftrightarrow>
     (if networkActions acts = [] then wkPartitioned w else acKind (last (networkActions acts)) = ActionPartition)"
  by (induction acts arbitrary: w) (auto simp: walkAction_partitioned networkActions_def kind_distinct)

text \<open>Kinds outside the vocabulary, proposals that do not decode and repeated commands are rejected, and nothing
  else on the way.\<close>

lemma walkAction_rejections:
  "wkRejections (walkAction a w) = [] \<longleftrightarrow> wkRejections w = [] \<and> acKind a \<in> set V1Actions
     \<and> (acKind a = ActionPropose \<longrightarrow> (\<exists>i. commandOf a = Some i \<and> i \<notin> set (wkCommands w)))"
  "wkRejections (walkAction a w) = [] \<Longrightarrow> set (wkCommands (walkAction a w)) =
     (if acKind a = ActionPropose then insert (the (commandOf a)) (set (wkCommands w)) else set (wkCommands w))"
  by (auto simp: walkAction_def Let_def commandOf_def V1Actions_def kind_distinct split: sum.splits if_splits)

lemma walk_rejections:
  "wkRejections (fold walkAction acts w) = [] \<longleftrightarrow> wkRejections w = [] \<and> (\<forall>a \<in> set acts. acKind a \<in> set V1Actions)
     \<and> (\<forall>a \<in> set (proposals acts). commandOf a \<noteq> None \<and> the (commandOf a) \<notin> set (wkCommands w))
     \<and> distinct (map commandOf (proposals acts))"
proof (induction acts arbitrary: w)
  case (Cons a acts)
  show ?case
  proof (cases "wkRejections (walkAction a w) = []")
    case False
    then have "wkRejections (fold walkAction (a # acts) w) \<noteq> []" using Cons.IH by simp
    then show ?thesis
      using False by (auto simp: walkAction_rejections(1) proposals_def)
  next
    case True
    then show ?thesis
      using walkAction_rejections(1) [of a w] walkAction_rejections(2) [OF True]
      by (auto simp: Cons.IH proposals_def)
  qed
qed (simp add: proposals_def)

lemma isUp_update [simp]: "isUp (w\<lparr>wkUp := AList.update node v (wkUp w)\<rparr>) m = (if m = node then v else isUp w m)"
  by (simp add: isUp_def)

lemma isUp_cong: "wkUp w = wkUp w' \<Longrightarrow> isUp w m = isUp w' m"
  by (simp add: isUp_def)

definition moves :: "Action \<Rightarrow> bool" where
  "moves a \<longleftrightarrow> acKind a = ActionCrash \<or> acKind a = ActionRestart"

lemma walkAction_stays:
  "\<not> moves a \<Longrightarrow> wkUp (walkAction a w) = wkUp w \<and> wkLifecycleValid (walkAction a w) = wkLifecycleValid w"
  by (auto simp: walkAction_def Let_def moves_def split: sum.splits)

lemma walkAction_moves:
  assumes "moves a"
  shows "wkLifecycleValid (walkAction a w) \<longleftrightarrow>
      wkLifecycleValid w \<and> (acKind a = ActionRestart) \<noteq> isUp w (acNode a)"
    and "wkLifecycleValid (walkAction a w) \<Longrightarrow>
      isUp (walkAction a w) m = (if m = acNode a then acKind a = ActionRestart else isUp w m)"
    and "acNode a \<in> fst ` set (wkUp w) \<Longrightarrow> fst ` set (wkUp (walkAction a w)) = fst ` set (wkUp w)"
    and "distinct (map fst (wkUp w)) \<Longrightarrow> distinct (map fst (wkUp (walkAction a w)))"
  using assms
  by (auto simp: walkAction_def Let_def moves_def kind_distinct isUp_def dom_update distinct_update split: if_splits)

lemma walk_lifecycle:
  "(\<forall>a \<in> set acts. moves a \<longrightarrow> acNode a \<in> ns) \<Longrightarrow>
     keepsUp (fold walkAction acts w) ns \<longleftrightarrow>
       wkLifecycleValid w \<and> (\<forall>m \<in> ns. alternates (isUp w m) (lifecycle m acts))"
proof (induction acts arbitrary: w)
  case Nil
  then show ?case by (simp add: keepsUp_def lifecycle_def)
next
  case (Cons a acts)
  show ?case
  proof (cases "moves a")
    case False
    then have "lifecycle m (a # acts) = lifecycle m acts" for m by (simp add: lifecycle_def moves_def)
    then show ?thesis
      using Cons walkAction_stays [OF False, of w] isUp_cong [of "walkAction a w" w] by simp
  next
    case True
    have node: "acNode a \<in> ns" using True Cons.prems by simp
    have events: "lifecycle m (a # acts) = (if acNode a = m then [acKind a = ActionRestart] else []) @ lifecycle m acts" for m
      using True by (simp add: lifecycle_def moves_def)
    show ?thesis
    proof (cases "wkLifecycleValid (walkAction a w)")
      case False
      then have "\<not> keepsUp (fold walkAction (a # acts) w) ns" using walk_invalid by (simp add: keepsUp_def)
      then show ?thesis
        using False walkAction_moves(1) [OF True, of w] node events by auto
    next
      case valid: True
      then have "keepsUp (fold walkAction (a # acts) w) ns \<longleftrightarrow>
          (\<forall>m \<in> ns. alternates (isUp (walkAction a w) m) (lifecycle m acts))"
        using Cons by simp
      then show ?thesis
        using walkAction_moves(1) [OF True, of w] walkAction_moves(2) [OF True valid] valid events
        by (auto split: if_splits)
    qed
  qed
qed

lemma walk_keys:
  "(\<forall>a \<in> set acts. moves a \<longrightarrow> acNode a \<in> fst ` set (wkUp w)) \<Longrightarrow> distinct (map fst (wkUp w)) \<Longrightarrow>
     fst ` set (wkUp (fold walkAction acts w)) = fst ` set (wkUp w) \<and> distinct (map fst (wkUp (fold walkAction acts w)))"
proof (induction acts arbitrary: w)
  case (Cons a acts)
  have "fst ` set (wkUp (walkAction a w)) = fst ` set (wkUp w)" "distinct (map fst (wkUp (walkAction a w)))"
    using Cons.prems walkAction_moves(3,4) [of a w] walkAction_stays [of a w] by (cases "moves a"; simp)+
  then show ?case using Cons.IH [of "walkAction a w"] Cons.prems(1) by simp
qed simp

lemma all_up:
  assumes "distinct (map fst (wkUp w))"
  shows "list_all snd (wkUp w) \<longleftrightarrow> (\<forall>m \<in> fst ` set (wkUp w). isUp w m)"
proof -
  have "isUp w m = v" if "(m, v) \<in> set (wkUp w)" for m v
    using map_of_is_SomeI [OF assms that] by (simp add: isUp_def map_get_def)
  then show ?thesis by (auto simp: list_all_iff)
qed

section \<open>Eligible plans\<close>

lemma actions_fit: "validateActions acts previous dur universe RunSchema = None \<Longrightarrow> a \<in> set acts \<Longrightarrow> actionFits a universe RunSchema"
  by (induction acts arbitrary: previous) (auto split: if_splits)

lemma plan_moves:
  assumes "planValidate plan = None" and "a \<in> set (snActions (plScenario plan))" and "moves a"
  shows "acNode a \<in> set (cfMembers (plConfiguration plan))"
proof -
  have "ValidateExperiment (plScenario plan) (plConfiguration plan) = None"
    using assms(1) by (auto simp: planValidate_def Let_def split: if_splits)
  then have "validateScenario (plScenario plan) (cfMembers (plConfiguration plan)) RunSchema = None"
    by (simp add: ValidateExperiment_def split: option.splits)
  then have "actionFits a (cfMembers (plConfiguration plan)) RunSchema"
    using actions_fit assms(2) by (auto simp: validateScenario_def split: if_splits)
  then show ?thesis
    using assms(3) by (auto simp: actionFits_def moves_def kind_distinct split: if_splits)
qed

text \<open>What two adapters must declare for a plan, and what its actions must be.\<close>

definition supports :: "Capabilities \<Rightarrow> Plan \<Rightarrow> bool" where
  "supports c plan \<longleftrightarrow> MembershipFixedAllVoters \<in> set (items (cbMembershipProfiles c))
     \<and> plApplication plan \<in> set (items (cbApplicationProfiles c))
     \<and> (\<forall>a \<in> set (snActions (plScenario plan)). acKind a \<in> set (items (cbActions c)))
     \<and> set V1ProjectionKinds \<subseteq> set (items (cbProjectionKinds c))"

definition portable_actions :: "Plan \<Rightarrow> bool" where
  "portable_actions plan \<longleftrightarrow>
     (let acts = snActions (plScenario plan) in
      (\<forall>a \<in> set acts. acKind a \<in> set V1Actions)
      \<and> (\<forall>a \<in> set (proposals acts). commandOf a \<noteq> None) \<and> distinct (map commandOf (proposals acts))
      \<and> (\<forall>m \<in> set (cfMembers (plConfiguration plan)). \<exists>n. lifecycle m acts = concat (replicate n [False, True]))
      \<and> (networkActions acts = [] \<or> acKind (last (networkActions acts)) = ActionHeal))"

lemma sortCompact_empty: "sortCompact vs = [] \<longleftrightarrow> vs = []"
  by (metis set_empty sortCompact_props(1))

lemma startWalk_fields:
  "wkRequired (startWalk plan left right) = []" "wkCommands (startWalk plan left right) = []"
  "\<not> wkPartitioned (startWalk plan left right)" "wkLifecycleValid (startWalk plan left right)"
  "fst ` set (wkUp (startWalk plan left right)) = set (cfMembers (plConfiguration plan))"
  "distinct (map fst (wkUp (startWalk plan left right)))"
  by (auto simp: startWalk_def comp_def image_image)

lemma startWalk_up:
  "m \<in> set (cfMembers (plConfiguration plan)) \<Longrightarrow> isUp (startWalk plan left right) m"
  by (simp add: isUp_def startWalk_def map_get_def map_of_map_restrict)

lemma network_last:
  "networkActions acts \<noteq> [] \<Longrightarrow>
     acKind (last (networkActions acts)) = ActionPartition \<longleftrightarrow> acKind (last (networkActions acts)) \<noteq> ActionHeal"
  using last_in_set [of "networkActions acts"] by (auto simp: networkActions_def kind_distinct)

lemma rejections_empty:
  assumes "planValidate plan = None"
  shows "rejectionsOf (fold walkAction (snActions (plScenario plan)) (startWalk plan left right)) left right = []
     \<longleftrightarrow> fixedAllVoters (plConfiguration plan) \<and> srAdapter (plSource plan) = cbAdapter left
       \<and> supports left plan \<and> supports right plan \<and> portable_actions plan"
proof -
  let ?acts = "snActions (plScenario plan)" and ?begun = "startWalk plan left right"
  let ?ms = "set (cfMembers (plConfiguration plan))"
  let ?w = "fold walkAction ?acts ?begun"
  have moving: "\<forall>a \<in> set ?acts. moves a \<longrightarrow> acNode a \<in> ?ms" using plan_moves [OF assms] by blast
  have ks: "fst ` set (wkUp ?w) = ?ms" "distinct (map fst (wkUp ?w))"
    using walk_keys [of ?acts ?begun] moving startWalk_fields(5,6) by simp_all
  have "wkLifecycleValid ?w \<and> list_all snd (wkUp ?w) \<longleftrightarrow> keepsUp ?w ?ms"
    using all_up [OF ks(2)] ks(1) by (auto simp: keepsUp_def)
  also have "\<dots> \<longleftrightarrow> (\<forall>m \<in> ?ms. \<exists>n. lifecycle m ?acts = concat (replicate n [False, True]))"
    using walk_lifecycle [OF moving, of ?begun] startWalk_up [of _ plan left right] startWalk_fields(4)
    by (auto simp: alternates_iff)
  finally have lives: "wkLifecycleValid ?w \<and> list_all snd (wkUp ?w) \<longleftrightarrow>
      (\<forall>m \<in> ?ms. \<exists>n. lifecycle m ?acts = concat (replicate n [False, True]))" .
  have healed: "\<not> wkPartitioned ?w \<longleftrightarrow> networkActions ?acts = [] \<or> acKind (last (networkActions ?acts)) = ActionHeal"
    using walk_partitioned [of ?acts ?begun] startWalk_fields(3) network_last [of ?acts] by auto
  have required: "set (wkRequired ?w) = acKind ` set ?acts"
    using walk_required [of ?acts ?begun] startWalk_fields(1) by simp
  have start: "wkRejections ?begun = [] \<longleftrightarrow> fixedAllVoters (plConfiguration plan) \<and> srAdapter (plSource plan) = cbAdapter left
      \<and> MembershipFixedAllVoters \<in> set (items (cbMembershipProfiles left))
      \<and> MembershipFixedAllVoters \<in> set (items (cbMembershipProfiles right))
      \<and> plApplication plan \<in> set (items (cbApplicationProfiles left))
      \<and> plApplication plan \<in> set (items (cbApplicationProfiles right))"
    by (simp add: startWalk_def)
  have walked: "wkRejections ?w = [] \<longleftrightarrow> wkRejections ?begun = [] \<and> (\<forall>a \<in> set ?acts. acKind a \<in> set V1Actions)
      \<and> (\<forall>a \<in> set (proposals ?acts). commandOf a \<noteq> None) \<and> distinct (map commandOf (proposals ?acts))"
    using walk_rejections [of ?acts ?begun] startWalk_fields(2) by simp
  have declared: "concat (map (\<lambda>k. (if k \<notin> set (items (f left)) then [x] else []) @ (if k \<notin> set (items (f right)) then [y] else [])) ks')
      = [] \<longleftrightarrow> set ks' \<subseteq> set (items (f left)) \<and> set ks' \<subseteq> set (items (f right))" for f ks' and x y :: string
    by (induction ks') auto
  show ?thesis
    unfolding rejectionsOf_def append_is_Nil_conv declared walked start required
    using lives healed
    by (auto simp: supports_def portable_actions_def Let_def split: if_splits)
qed

text \<open>
  C37. Eligibility: the preflight of a valid plan and two valid declarations always answers; its rejections are
  a sorted set of codes; and the plan is eligible exactly when the membership is fixed with all members
  voting, the source adapter is the left one, both adapters declare what the plan uses, every proposal is a
  distinct portable command, every node alternates crash and restart and ends up, and the network ends healed.
\<close>

theorem preflight_eligible:
  assumes "planValidate plan = None" and "capabilitiesValidate left = None" and "capabilitiesValidate right = None"
  shows "\<exists>codes. Preflight plan left right = Inr \<lparr>elEligible = (codes = []), elRejections = Some codes\<rparr>
    \<and> sorted_wrt (<) codes
    \<and> (codes = [] \<longleftrightarrow> fixedAllVoters (plConfiguration plan) \<and> srAdapter (plSource plan) = cbAdapter left
         \<and> supports left plan \<and> supports right plan \<and> portable_actions plan)"
  using assms rejections_empty [OF assms(1), of left right]
  by (simp add: Preflight_def Let_def sortCompact_empty)

section \<open>An example\<close>

definition exMove :: "int \<Rightarrow> string \<Rightarrow> Action" where
  "exMove at_ns kind = \<lparr>acAtNS = at_ns, acKind = kind, acNode = ''a'', acData = [], acGroups = [], acVoters = [], acLearners = [],
     acVotersPresent = False, acLearnersPresent = False\<rparr>"

definition exPlan :: Plan where
  "exPlan =
     \<lparr>plSchema = SemanticPlanSchema,
      plScenario = \<lparr>snID = ''s'', snVersion = ''1'', snDurationNS = 9, snMaxSteps = 5,
        snActions = [exMove 1 ActionCrash, exMove 2 ActionRestart]\<rparr>,
      plConfiguration = \<lparr>cfMembers = [''a'', ''b''], cfVoters = [], cfLearners = [], cfInfrastructureSeed = 1,
        cfNetworkMinLatencyNS = 1, cfNetworkMaxLatencyNS = 2, cfNetworkLossProbability = Finite 0,
        cfElectionTimeoutMinNS = 3, cfElectionTimeoutMaxNS = 4, cfHeartbeatIntervalNS = 1, cfStorageLatencyNS = 0,
        cfStopOnViolation = True, cfVotersPresent = False, cfLearnersPresent = False\<rparr>,
      plApplication = CommandSchema,
      plConvergence = \<lparr>cvWorkloadEndNS = 5, cvComparisonBoundaryNS = 9\<rparr>,
      plSource = \<lparr>srAdapter = \<lparr>adID = ''l'', adVersion = ''1''\<rparr>, srRunSHA256 = exDigest 3\<rparr>,
      plFallbackSeed = 3, plDirectives = Some exDirectives\<rparr>"

definition exCapabilities :: "string \<Rightarrow> string list \<Rightarrow> Capabilities" where
  "exCapabilities name ids =
     \<lparr>cbSchema = AdapterCapabilitiesSchema, cbAdapter = \<lparr>adID = name, adVersion = ''1''\<rparr>,
      cbMembershipProfiles = Some [MembershipFixedAllVoters], cbActions = Some V1Actions,
      cbApplicationProfiles = Some [CommandSchema], cbProjectionKinds = Some V1ProjectionKinds, cbInvariantIDs = Some ids\<rparr>"

lemma exPlan_valid: "planValidate exPlan = None"
proof -
  have valid_run: "ValidateExperiment (plScenario exPlan) (plConfiguration exPlan) = None"
    by (simp add: exPlan_def ValidateExperiment_def validateConfiguration_def lossInvalid_def MaxMembers_def
        MaxVirtualDurationNS_def validIdentifier_def alphanumeric_def less_eq_char_def validateScenario_def
        MaxScenarioSteps_def MaxActions_def exMove_def MaxActionPayloadBytes_def actionFits_def kind_distinct)
  have budget: "planFitsResourceBudget exPlan"
    by (simp add: planFitsResourceBudget_def exPlan_def exMove_def consume_def DefaultMaxArtifactBytes_def exDirectives_def
        exWaitKey_def exLossKey_def)
  have known: "list_all (\<lambda>d. list_all (\<lambda>node. node \<in> set [''a'', ''b'']) (keyNodes (drKey d))) exDirectives"
    by (simp add: exDirectives_def keyNodes_def exWaitKey_def exLossKey_def)
  show ?thesis
    using valid_run budget known exDirectives_valid ex_texts(1)
    by (simp add: planValidate_def) (simp add: exPlan_def configValidate_def exMove_def exDirectives_def MaxDecisions_def)
qed

lemma exCapabilities_valid:
  assumes "validateAdapterID \<lparr>adID = name, adVersion = ''1''\<rparr> = None" and "ids \<in> {[''log'', ''vote''], [''log'', ''own/check'', ''vote'']}"
  shows "capabilitiesValidate (exCapabilities name ids) = None"
proof -
  have plain: "list_all plainChar CommandSchema" "list_all plainChar ''log''" "list_all plainChar ''vote''"
    "list_all plainChar ''own/check''"
    by (simp_all add: plainChar_def CommandSchema_def)
  have "validateCapabilityStrings (Some [CommandSchema]) (\<lambda>v. v = CommandSchema) = None"
    using plain_text [OF plain(1)]
    by (simp add: validateCapabilityStrings_def boundedSet_def maxCapabilityValues_def maxCapabilityValueBytes_def)
      (simp add: CommandSchema_def)
  moreover have "validateCapabilityStrings (Some ids) invariantPattern = None"
    using assms(2) plain_text [OF plain(2)] plain_text [OF plain(3)] plain_text [OF plain(4)] ex_texts(4-6)
    by (auto simp: validateCapabilityStrings_def boundedSet_def maxCapabilityValues_def maxCapabilityValueBytes_def)
  moreover have "validateActionKinds (Some V1Actions) = None"
    by (simp add: validateActionKinds_def boundedSet_def maxCapabilityValues_def V1Actions_def kind_distinct)
  moreover have "validateProjectionKinds (Some V1ProjectionKinds) = None"
    by (simp add: validateProjectionKinds_def boundedSet_def maxCapabilityValues_def V1ProjectionKinds_def choice_kinds
        supportedKind_def)
  ultimately show ?thesis
    using assms(1)
    by (simp add: capabilitiesValidate_def exCapabilities_def validateMembershipProfiles_def boundedSet_def
        maxCapabilityValues_def validateApplicationProfiles_def)
qed

definition exLeft :: Capabilities where "exLeft = exCapabilities ''l'' [''log'', ''own/check'', ''vote'']"
definition exRight :: Capabilities where "exRight = exCapabilities ''r'' [''log'', ''vote'']"

lemma ex_capabilities: "capabilitiesValidate exLeft = None" "capabilitiesValidate exRight = None"
  unfolding exLeft_def exRight_def by (rule exCapabilities_valid; simp add: ex_texts)+

lemma exPlan_eligible:
  "fixedAllVoters (plConfiguration exPlan)" "srAdapter (plSource exPlan) = cbAdapter exLeft" "supports exLeft exPlan"
  "supports exRight exPlan" "portable_actions exPlan"
proof -
  have "lifecycle ''a'' (snActions (plScenario exPlan)) = concat (replicate 1 [False, True])"
    "lifecycle ''b'' (snActions (plScenario exPlan)) = concat (replicate 0 [False, True])"
    by (simp_all add: lifecycle_def exPlan_def exMove_def kind_distinct)
  then have "\<forall>m \<in> {''a'', ''b''}. \<exists>n. lifecycle m (snActions (plScenario exPlan)) = concat (replicate n [False, True])"
    by blast
  then show "portable_actions exPlan"
    by (auto simp: portable_actions_def exPlan_def exMove_def proposals_def networkActions_def V1Actions_def kind_distinct)
qed (auto simp: fixedAllVoters_def exPlan_def exLeft_def exRight_def exCapabilities_def supports_def exMove_def V1Actions_def)

theorem preflight_eligible_witness:
  "planValidate exPlan = None \<and> Preflight exPlan exLeft exRight = Inr \<lparr>elEligible = True, elRejections = Some []\<rparr>"
  using preflight_eligible [OF exPlan_valid ex_capabilities] exPlan_valid exPlan_eligible by auto

end
