(* ===== verification/SemExecProps.thy ===== *)
theory SemExecProps
  imports SemPlanProps
begin

text \<open>
  Executions: the evidence of a recorded projection verifies, what normalization keeps of an execution, and
  the normalized outcomes of both sides of an experiment compare.
\<close>

section \<open>Canonical outcomes\<close>

lemma Canonicalize_Inr:
  assumes "CanonicalizeOutcome x = Inr n"
  shows "outcomeValidate n = None \<and> noPlanSHA256 n = noPlanSHA256 x \<and> noEligibility n = noEligibility x
    \<and> noProjection n = noProjection x \<and> noCompletion n = noCompletion x
    \<and> noNodeCommitments n = map_option (sort_key ncNode) (noNodeCommitments x)
    \<and> noNegotiated n = Some (canonicalStrings (noNegotiated x)) \<and> noCommon n = Some (canonicalStrings (noCommon x))
    \<and> noSpecific n = Some (canonicalStrings (noSpecific x))"
  using assms by (auto simp: CanonicalizeOutcome_def Let_def split: option.splits)

lemma NormalizeIDs_Inr:
  assumes "NormalizeInvariantIDs (Some observed) (Some negotiated) = Inr (common, specific)"
  shows "set common = set observed \<inter> set negotiated" "set specific = set observed - set negotiated"
  using assms by (auto simp: NormalizeInvariantIDs_def canonicalStrings_def Let_def split: option.splits)

lemma commitmentListFrom_sorted:
  "commitmentListFrom previous seen ns = None \<Longrightarrow>
     sorted_wrt (<) (map ncNode ns) \<and> (\<forall>n \<in> set ns. \<forall>p. previous = Some p \<longrightarrow> p < ncNode n)"
  by (induction ns arbitrary: previous seen) (fastforce simp: not_le split: option.splits if_splits dest: less_trans)+

lemma commitments_sorted:
  "validateNodeCommitmentList ns = None \<Longrightarrow> sort_key ncNode ns = ns"
  using commitmentListFrom_sorted [of None "[]" ns]
  by (auto simp: validateNodeCommitmentList_def sorted_wrt_map intro!: sort_key_id_if_sorted elim!: sorted_wrt_mono_rel [rotated])

lemma plan_nodes:
  "validatePlanCommitmentNodes plan ns = None \<longleftrightarrow> map ncNode ns = cfMembers (plConfiguration plan)"
proof -
  have "list_all (\<lambda>(n, m). ncNode n = m) (zip ns ms) \<longleftrightarrow> map ncNode ns = ms" if "length ns = length ms" for ms
    using that by (induction ns ms rule: list_induct2) auto
  moreover have "map ncNode ns = ms \<Longrightarrow> length ns = length ms" for ms by auto
  ultimately show ?thesis
    by (metis (no_types, lifting) validatePlanCommitmentNodes_def option.distinct(1))
qed

definition atBoundary :: "Plan \<Rightarrow> SemanticExecution \<Rightarrow> Outcome \<Rightarrow> bool" where
  "atBoundary plan x outcome \<longleftrightarrow> prFidelity (seProjection x) \<noteq> ProjectionFailed
     \<and> ocEndNS outcome = cvComparisonBoundaryNS (plConvergence plan)
     \<and> (ocStatus outcome = OutcomeCompleted \<or> ocStatus outcome = OutcomeViolation)"

lemma classify_completed:
  "classifyCompletion outcome (cvComparisonBoundaryNS (plConvergence plan)) (prFidelity (seProjection x)) = CompletionCompleted
     \<longleftrightarrow> atBoundary plan x outcome"
  by (auto simp: classifyCompletion_def atBoundary_def outcome_statuses)

lemma NormalizeExecution_Inr:
  assumes "NormalizeExecution w plan c peer x = Some (Inr n)"
  obtains planDigest executionDigest negotiated where
    "DigestPlan (wrSha w) (wrPlan w) plan = Inr planDigest" "NegotiateInvariantIDs c peer = Inr negotiated"
    "executionValidate w x = None"
    "normalizeVerified plan c x negotiated (blankOutcome x planDigest executionDigest negotiated) = Inr n"
  using assms
  by (auto simp: NormalizeExecution_def Let_def split: option.splits sum.splits if_splits)

text \<open>The cases of a normalization.\<close>

lemma normalizeVerified_Inr:
  assumes "normalizeVerified plan c x negotiated blank = Inr n"
  obtains (ineligible) "seEligibility x = EligibilityIneligible" "CanonicalizeOutcome blank = Inr n"
  | (no_outcome) "seEligibility x \<noteq> EligibilityIneligible" "seOutcome x = None"
      "CanonicalizeOutcome (blank\<lparr>noNodeCommitments := Some (items (seNodeCommitments x)),
         noCompletion := CompletionExecutionError\<rparr>) = Inr n"
  | (outcome) outcome common specific where "seEligibility x \<noteq> EligibilityIneligible" "seOutcome x = Some outcome"
      "NormalizeInvariantIDs (Some (map vID (ocViolations outcome))) (Some negotiated) = Inr (common, specific)"
      "completionReachedBoundary (classifyCompletion outcome (cvComparisonBoundaryNS (plConvergence plan))
          (prFidelity (seProjection x))) \<Longrightarrow> validatePlanCommitmentNodes plan (items (seNodeCommitments x)) = None"
      "CanonicalizeOutcome (blank\<lparr>noNodeCommitments := Some (items (seNodeCommitments x)),
         noCompletion := classifyCompletion outcome (cvComparisonBoundaryNS (plConvergence plan)) (prFidelity (seProjection x)),
         noCommon := Some common, noSpecific := Some specific\<rparr>) = Inr n"
proof (cases "seEligibility x = EligibilityIneligible")
  case True
  then show ?thesis using assms by (intro ineligible) (simp_all add: normalizeVerified_def)
next
  case False
  show ?thesis
  proof (cases "seOutcome x")
    case None
    then show ?thesis using assms False by (intro no_outcome) (simp_all add: normalizeVerified_def Let_def)
  next
    case (Some oc)
    obtain common specific where
      "NormalizeInvariantIDs (Some (map vID (ocViolations oc))) (Some negotiated) = Inr (common, specific)"
      using assms False Some
      by (auto simp: normalizeVerified_def Let_def split: option.splits sum.splits if_splits)
    then show ?thesis
      using assms False Some
      by (intro outcome [of oc common specific])
        (auto simp: normalizeVerified_def Let_def split: option.splits if_splits)
  qed
qed

lemma normalized_fields:
  assumes "normalizeVerified plan c x negotiated (blankOutcome x planDigest executionDigest negotiated) = Inr n"
    and "invariantSet negotiated"
  shows "outcomeValidate n = None" "noPlanSHA256 n = planDigest" "noNegotiated n = Some negotiated"
proof -
  have same: "sortCompact negotiated = negotiated" using assms(2) by (simp add: invariantSet_def sortCompact_id)
  from assms(1) have "outcomeValidate n = None \<and> noPlanSHA256 n = planDigest \<and> noNegotiated n = Some negotiated"
    by (cases rule: normalizeVerified_Inr)
      (auto simp: blankOutcome_def canonicalStrings_def same dest!: Canonicalize_Inr)
  then show "outcomeValidate n = None" "noPlanSHA256 n = planDigest" "noNegotiated n = Some negotiated" by auto
qed

lemma execution_commitments:
  "executionValidate w x = None \<Longrightarrow> sort_key ncNode (items (seNodeCommitments x)) = items (seNodeCommitments x)"
  by (rule commitments_sorted) (auto simp: executionValidate_def Let_def split: if_splits)

lemma execution_eligibility:
  "executionValidate w x = None \<Longrightarrow> seEligibility x \<in> {EligibilityEligible, EligibilityIneligible}"
  by (auto simp: executionValidate_def eligibilityEvidence_def Let_def split: if_splits)

lemma execution_digest:
  "DigestPlan sha marshal plan = Inr d \<Longrightarrow> planValidate plan = None"
  by (auto simp: DigestPlan_def split: option.splits)

section \<open>Verification\<close>

lemma recorded_verifies:
  assumes "planValidate plan = None" and "executionValidate w x = None" and "seEligibility x = EligibilityEligible"
    and "rpDecisionSeed (seReproducibility x) = plFallbackSeed plan"
    and "projectAll (fresh_projector (items (plDirectives plan)) (plFallbackSeed plan)) cs = Some (q, sels)"
    and "map teChoice (tpEntries (seDecisions x)) = take (length sels) cs"
    and "map teSelection (tpEntries (seDecisions x)) = sels" and "seProjection x = projectorFinish q"
  shows "VerifyExecutionProjection w plan x = Some (Inr ())"
proof -
  let ?p = "fresh_projector (items (plDirectives plan)) (plFallbackSeed plan)"
  have v: "ValidateDirectives (items (plDirectives plan)) = None"
    using assms(1) by (auto simp: planValidate_def Let_def split: if_splits)
  then have new: "NewProjector (items (plDirectives plan)) (plFallbackSeed plan) = Inr ?p" by (simp add: NewProjector_Inr)
  obtain r where r: "verifyEntries ?p (tpEntries (seDecisions x)) = Some (Inr r)"
    "projectorFinish q = (if pjFailed q = None then projectorFinish r
       else (projectorFinish r)\<lparr>prFidelity := ProjectionFailed\<rparr>)"
    "prFidelity (projectorFinish q) = ProjectionFailed \<longleftrightarrow> pjFailed q \<noteq> None"
    using run_verifies [OF assms(5) _ assms(6,7)] by (auto simp: fresh_projector_def)
  show ?thesis
    using assms(1-4,8) new r by (auto simp: VerifyExecutionProjection_def Let_def)
qed

section \<open>An example\<close>

definition exTools :: Reproducibility where
  "exTools = \<lparr>rpDecisionSeed = 3, rpGitRevision = ''r1'', rpGitModified = False, rpGoVersion = ''go1.24'',
     rpDecisionSchema = DecisionSchema, rpCheckerSchema = ''checker'', rpMessageCodec = ''codec'',
     rpObservationSchema = ''observation''\<rparr>"

definition exProjected :: Projector where
  "exProjected = fst (the (projectAll (fresh_projector exDirectives 3) (map teChoice exEntries)))"

definition exBoundary :: Outcome where
  "exBoundary = \<lparr>ocStatus = OutcomeCompleted, ocSteps = 4, ocEndNS = 9, ocObservationDigest = exDigest 5, ocError = [],
     ocViolations = []\<rparr>"

definition exWire :: Wire where
  "exWire = \<lparr>wrSha = exHash, wrPlan = (\<lambda>_. Some []), wrCapabilities = (\<lambda>_. Some []), wrExecution = (\<lambda>_. Some [])\<rparr>"

definition exExecution :: "Capabilities \<Rightarrow> SemanticExecution" where
  "exExecution c =
     \<lparr>seSchema = SemanticExecutionSchema, sePlanSHA256 = exDigest 7, seCapabilitiesSHA256 = exDigest 7,
      seAdapter = cbAdapter c, seReproducibility = exTools, seEligibility = EligibilityEligible,
      seRejections = Some [], seProjection = projectorFinish exProjected, seDecisions = exSource,
      seEntriesPresent = True, seOutcome = Some exBoundary, seOperationalError = [],
      seNodeCommitments = Some [\<lparr>ncNode = ''a'', ncCommitment = exCommitment\<rparr>, \<lparr>ncNode = ''b'', ncCommitment = exCommitment\<rparr>]\<rparr>"

lemma exProjected_run:
  "projectAll (fresh_projector exDirectives 3) (map teChoice exEntries) = Some (exProjected, map teSelection exEntries)"
  "validateProjectionReport (projectorFinish exProjected) 2 = None"
  "prFidelity (projectorFinish exProjected) \<noteq> ProjectionFailed"
proof -
  note t = tape_sourced [OF exSource_directives, of exEntries]
  obtain q where q: "projectAll (fresh_projector exDirectives 3) (map teChoice exEntries) = Some (q, map teSelection exEntries)"
    "pjFailed q = None"
    using sourced_run [of exDirectives exEntries "fresh_projector exDirectives 3"] t
    by (auto simp: fresh_projector_def exSource_def)
  then show run: "projectAll (fresh_projector exDirectives 3) (map teChoice exEntries) = Some (exProjected, map teSelection exEntries)"
    by (simp add: exProjected_def)
  have "projInv exDirectives 2 exProjected"
    using projectAll_inv [OF projInv_fresh run] by (simp add: fresh_projector_def exEntries_def numeral_2_eq_2)
  then show "validateProjectionReport (projectorFinish exProjected) 2 = None"
    using finish_valid [OF _ exDirectives_valid, of 2 exProjected] by (simp add: exDirectives_def MaxDecisions_def)
  show "prFidelity (projectorFinish exProjected) \<noteq> ProjectionFailed"
    using q run by (auto simp: projectorFinish_def Let_def)
qed

lemma exTools_valid: "validateExecutionReproducibility exTools = None"
proof -
  have "list_all plainChar ''r1''" "list_all plainChar ''go1.24''" "list_all plainChar ''checker''"
    "list_all plainChar ''codec''" "list_all plainChar ''observation''"
    by (simp_all add: plainChar_def)
  then show ?thesis
    by (simp add: validateExecutionReproducibility_def exTools_def reproducibilityText_def plain_text)
qed

lemma exNode: "validateNodeID ''b'' = None"
  using plain_text [of "''b''"] by (simp add: validateNodeID_def plainChar_def)

lemma exCommitments_valid:
  "validateNodeCommitmentList [\<lparr>ncNode = ''a'', ncCommitment = exCommitment\<rparr>, \<lparr>ncNode = ''b'', ncCommitment = exCommitment\<rparr>] = None"
  by (simp add: validateNodeCommitmentList_def ex_texts(3) exNode exCommitment_valid)

lemma exEntries_stored: "list_all (entryStored exHash) exEntries"
  using newEntry_stored [OF ex_entries(1)] newEntry_stored [OF ex_entries(2)] by (simp add: exEntries_def)

lemma exExecution_valid:
  assumes "c = exLeft \<or> c = exRight"
  shows "executionValidate exWire (exExecution c) = None"
proof -
  have adapter: "validateAdapterID (cbAdapter c) = None"
    using assms ex_texts(1,2) by (auto simp: exLeft_def exRight_def exCapabilities_def)
  have tape: "newTapeDecider exHash exSource False \<noteq> Inl e" for e
    by (simp add: newTapeDecider_def exSource_def exEntries_stored)
  have raw: "validateRawOutcome exHash exBoundary = None"
    by (simp add: validateRawOutcome_def exBoundary_def MaxScenarioSteps_def)
  have fits: "length exEntries = 2" "\<not> 2 > MaxDecisions" by (simp_all add: exEntries_def MaxDecisions_def)
  have evidence: "eligibilityEvidence (exExecution c)" "outcomeEvidence exHash (exExecution c)"
    using raw exProjected_run(3) by (simp_all add: eligibilityEvidence_def outcomeEvidence_def exExecution_def)
  show ?thesis
    using adapter tape fits evidence exTools_valid exCommitments_valid exProjected_run(2)
    unfolding executionValidate_def Let_def
    by (simp add: exExecution_def exWire_def exSource_def strictRejectionSet_def DefaultMaxArtifactBytes_def split: sum.splits)
qed

lemma exExecution_verifies:
  assumes "c = exLeft \<or> c = exRight"
  shows "VerifyExecutionProjection exWire exPlan (exExecution c) = Some (Inr ())"
  by (rule recorded_verifies [OF exPlan_valid exExecution_valid [OF assms], of "map teChoice exEntries" exProjected "map teSelection exEntries"])
    (simp_all add: exExecution_def exTools_def exPlan_def exProjected_run exSource_def)

lemma exPreflight: "Preflight exPlan exLeft exRight = Inr \<lparr>elEligible = True, elRejections = Some []\<rparr>"
proof -
  have "rejectionsOf (fold walkAction (snActions (plScenario exPlan)) (startWalk exPlan exLeft exRight)) exLeft exRight = []"
    using rejections_empty [OF exPlan_valid] exPlan_eligible by blast
  then show ?thesis
    by (simp add: Preflight_def Let_def exPlan_valid ex_capabilities sortCompact_def)
qed

lemma exBilateral:
  "bilateralPreflight exPlan exLeft exRight = Inr \<lparr>elEligible = True, elRejections = Some []\<rparr>"
  "bilateralPreflight exPlan exRight exLeft = Inr \<lparr>elEligible = True, elRejections = Some []\<rparr>"
proof -
  have "cbAdapter exRight \<noteq> cbAdapter exLeft" by (simp add: exLeft_def exRight_def exCapabilities_def)
  then show "bilateralPreflight exPlan exLeft exRight = Inr \<lparr>elEligible = True, elRejections = Some []\<rparr>"
    "bilateralPreflight exPlan exRight exLeft = Inr \<lparr>elEligible = True, elRejections = Some []\<rparr>"
    using exPreflight exPlan_eligible(2) by (simp_all add: bilateralPreflight_def)
qed

lemma exNegotiated:
  "NegotiateInvariantIDs exLeft exRight = Inr [''log'', ''vote'']" "NegotiateInvariantIDs exRight exLeft = Inr [''log'', ''vote'']"
proof -
  show "NegotiateInvariantIDs exLeft exRight = Inr [''log'', ''vote'']"
    by (simp add: NegotiateInvariantIDs_def ex_capabilities) (simp add: exLeft_def exRight_def exCapabilities_def)
  then show "NegotiateInvariantIDs exRight exLeft = Inr [''log'', ''vote'']" by (rule Negotiate_Inr(3))
qed

lemma exOutcome:
  assumes "c = exLeft \<or> c = exRight"
  shows "\<exists>n. normalizeVerified exPlan c (exExecution c) [''log'', ''vote'']
      (blankOutcome (exExecution c) (exDigest 7) (exDigest 7) [''log'', ''vote'']) = Inr n \<and> noCompletion n = CompletionCompleted"
proof -
  let ?ns = "[\<lparr>ncNode = ''a'', ncCommitment = exCommitment\<rparr>, \<lparr>ncNode = ''b'', ncCommitment = exCommitment\<rparr>]"
  let ?n = "(blankOutcome (exExecution c) (exDigest 7) (exDigest 7) [''log'', ''vote''])
      \<lparr>noNodeCommitments := Some ?ns, noCompletion := CompletionCompleted, noCommon := Some [], noSpecific := Some []\<rparr>"
  have adapter: "validateAdapterID (cbAdapter c) = None"
    using assms ex_texts(1,2) by (auto simp: exLeft_def exRight_def exCapabilities_def)
  have plan: "validateOutcomeAgainstPlan exPlan exBoundary = None" "validatePlanCommitmentNodes exPlan ?ns = None"
    by (simp_all add: validateOutcomeAgainstPlan_def validatePlanCommitmentNodes_def exPlan_def exBoundary_def outcome_statuses)
  have completed: "classifyCompletion exBoundary (cvComparisonBoundaryNS (plConvergence exPlan)) (prFidelity (seProjection (exExecution c)))
      = CompletionCompleted"
    using exProjected_run(3) by (simp add: classifyCompletion_def exBoundary_def exPlan_def exExecution_def outcome_statuses)
  have ids: "NormalizeInvariantIDs (Some []) (Some [''log'', ''vote'']) = Inr ([], [])"
    using ex_texts(4,5)
    by (simp add: NormalizeInvariantIDs_def canonicalStrings_def sortCompact_def validateInvariantSet_def maxNormalizedInvariants_def)
  have fidelity: "prFidelity (projectorFinish exProjected) \<in> {ProjectionExact, ProjectionPartial}"
    using exProjected_run(3) by (auto simp: projectorFinish_def Let_def split: if_splits)
  have "\<exists>n. CanonicalizeOutcome ?n = Inr n"
    using adapter exNode fidelity ex_texts exCommitment_valid
    by (auto simp: CanonicalizeOutcome_def outcomeValidate_def blankOutcome_def exExecution_def Let_def outcomeStatuses_def
        knownFidelity_def status_lists canonicalStrings_def sortCompact_def validateInvariantSet_def commitmentsAgree_def
        maxNormalizedNodes_def maxNormalizedInvariants_def)
  then obtain n where n: "CanonicalizeOutcome ?n = Inr n" by blast
  then have "noCompletion n = CompletionCompleted" using Canonicalize_Inr [OF n] by (simp add: blankOutcome_def)
  then show ?thesis
    using n plan completed ids
    by (intro exI [of _ n]) (simp add: normalizeVerified_def exExecution_def Let_def blankOutcome_def exBoundary_def)
qed

lemma exNormalized:
  assumes "c = exLeft \<and> peer = exRight \<or> c = exRight \<and> peer = exLeft"
  shows "\<exists>n. NormalizeExecution exWire exPlan c peer (exExecution c) = Some (Inr n) \<and> noCompletion n = CompletionCompleted"
proof -
  have c: "c = exLeft \<or> c = exRight" using assms by blast
  have digests: "DigestPlan (wrSha exWire) (wrPlan exWire) exPlan = Inr (exDigest 7)" "DigestCapabilities exWire c = Inr (exDigest 7)"
    "DigestSemanticExecution exWire (exExecution c) = Inr (exDigest 7)"
    using c exExecution_valid [OF c] ex_capabilities exPlan_valid
    by (auto simp: DigestPlan_def DigestCapabilities_def DigestSemanticExecution_def digestCanonicalJSON_def exWire_def
        exHash_def exDigest_def)
  have "NegotiateInvariantIDs c peer = Inr [''log'', ''vote'']"
    "bilateralPreflight exPlan c peer = Inr \<lparr>elEligible = True, elRejections = Some []\<rparr>"
    using assms exNegotiated exBilateral by auto
  moreover have "sePlanSHA256 (exExecution c) = exDigest 7" "seCapabilitiesSHA256 (exExecution c) = exDigest 7"
    "seAdapter (exExecution c) = cbAdapter c" "seEligibility (exExecution c) = EligibilityEligible"
    "seRejections (exExecution c) = Some []"
    by (simp_all add: exExecution_def)
  ultimately show ?thesis
    using digests exExecution_valid [OF c] exExecution_verifies [OF c] exOutcome [OF c]
    by (simp add: NormalizeExecution_def)
qed

section \<open>Properties\<close>

text \<open>
  C14. Recorded evidence verifies: whatever choices a target asked of the projector of a plan, and whether the
  run was complete or cut short by a refused choice, the document with the answered choices as its tape and
  the projector's report passes the independent reconstruction, when it is a valid document of that seed.
\<close>

theorem evidence_verifies:
  assumes "planValidate plan = None" and "executionValidate w x = None" and "seEligibility x = EligibilityEligible"
    and "rpDecisionSeed (seReproducibility x) = plFallbackSeed plan"
    and "NewProjector (items (plDirectives plan)) (plFallbackSeed plan) = Inr p" and "projectAll p cs = Some (q, sels)"
    and "map teChoice (tpEntries (seDecisions x)) = take (length sels) cs"
    and "map teSelection (tpEntries (seDecisions x)) = sels" and "seProjection x = projectorFinish q"
  shows "VerifyExecutionProjection w plan x = Some (Inr ())"
  using recorded_verifies [OF assms(1-4) _ assms(7-9)] assms(5,6) by (simp add: NewProjector_Inr)

theorem evidence_verifies_witness:
  "VerifyExecutionProjection exWire exPlan (exExecution exRight) = Some (Inr ())"
  by (rule evidence_verifies [OF exPlan_valid exExecution_valid, of exRight "fresh_projector exDirectives 3" "map teChoice exEntries"
        exProjected "map teSelection exEntries"])
    (simp_all add: exExecution_def exTools_def exPlan_def exProjected_run exSource_def exProjector)

text \<open>
  C11. What normalization keeps: a normalized outcome is valid over the invariants both adapters declare; it is
  completed exactly when the execution was eligible and its outcome reached the comparison boundary without a
  failed projection, and then it commits every member of the plan; and the violations of an eligible
  execution are split into the common and the adapter's own.
\<close>

theorem normalization_faithful:
  assumes "NormalizeExecution w plan c peer x = Some (Inr n)"
  shows "outcomeValidate n = None
    \<and> set (items (noNegotiated n)) = set (items (cbInvariantIDs c)) \<inter> set (items (cbInvariantIDs peer))
    \<and> (noCompletion n = CompletionCompleted \<longleftrightarrow> seEligibility x = EligibilityEligible
         \<and> (\<exists>outcome. seOutcome x = Some outcome \<and> atBoundary plan x outcome))
    \<and> (noCompletion n = CompletionCompleted \<longrightarrow>
         map ncNode (items (noNodeCommitments n)) = cfMembers (plConfiguration plan))
    \<and> (\<forall>outcome. seEligibility x = EligibilityEligible \<and> seOutcome x = Some outcome \<longrightarrow>
         set (items (noCommon n)) = vID ` set (ocViolations outcome) \<inter> set (items (noNegotiated n))
         \<and> set (items (noSpecific n)) = vID ` set (ocViolations outcome) - set (items (noNegotiated n)))"
proof -
  obtain planDigest executionDigest negotiated where n: "NegotiateInvariantIDs c peer = Inr negotiated"
    "executionValidate w x = None"
    "normalizeVerified plan c x negotiated (blankOutcome x planDigest executionDigest negotiated) = Inr n"
    using assms by (rule NormalizeExecution_Inr)
  note f = normalized_fields [OF n(3) Negotiate_Inr(1) [OF n(1)]]
  have sorted: "sort_key ncNode (items (seNodeCommitments x)) = items (seNodeCommitments x)"
    using execution_commitments [OF n(2)] .
  from n(3) show ?thesis
  proof (cases rule: normalizeVerified_Inr)
    case ineligible
    then show ?thesis
      using f Negotiate_Inr(2) [OF n(1)] by (auto simp: blankOutcome_def dest!: Canonicalize_Inr)
  next
    case no_outcome
    then show ?thesis
      using f Negotiate_Inr(2) [OF n(1)] by (auto simp: blankOutcome_def dest!: Canonicalize_Inr)
  next
    case (outcome oc common specific)
    have eligible: "seEligibility x = EligibilityEligible"
      using execution_eligibility [OF n(2)] outcome(1) by simp
    have canonical: "noCompletion n = classifyCompletion oc (cvComparisonBoundaryNS (plConvergence plan)) (prFidelity (seProjection x))"
      "noNodeCommitments n = Some (items (seNodeCommitments x))" "set (items (noCommon n)) = set common"
      "set (items (noSpecific n)) = set specific"
      using Canonicalize_Inr [OF outcome(5)] sorted by (auto simp: canonicalStrings_def)
    show ?thesis
      using f Negotiate_Inr(2) [OF n(1)] canonical eligible outcome(2,4) NormalizeIDs_Inr [OF outcome(3)]
        classify_completed [of oc plan x] plan_nodes [of plan "items (seNodeCommitments x)"]
      by (auto simp: completionReachedBoundary_def)
  qed
qed

theorem normalization_faithful_witness:
  "\<exists>n. NormalizeExecution exWire exPlan exLeft exRight (exExecution exLeft) = Some (Inr n)
    \<and> set (items (noNegotiated n)) = {''log'', ''vote''} \<and> map ncNode (items (noNodeCommitments n)) = [''a'', ''b'']"
proof -
  obtain n where n: "NormalizeExecution exWire exPlan exLeft exRight (exExecution exLeft) = Some (Inr n)"
    "noCompletion n = CompletionCompleted"
    using exNormalized [of exLeft exRight] by blast
  then show ?thesis
    using normalization_faithful [OF n(1)] by (force simp: exLeft_def exRight_def exCapabilities_def exPlan_def)
qed

text \<open>
  C39. The two sides of an experiment compare: when the executions of one plan by two adapters both normalize,
  each against the other's capabilities, their normalized outcomes have a comparison, and it validates.
\<close>

theorem normalized_comparable:
  assumes "NormalizeExecution w plan c peer x = Some (Inr l)" and "NormalizeExecution w plan peer c y = Some (Inr r)"
    and "marshal l = Some a" and "marshal r = Some b" and "length (wrSha w a) = 32" and "length (wrSha w b) = 32"
  shows "\<exists>p. CompareNormalized (wrSha w) marshal l r = Inr p \<and> comparisonValidate p = None"
proof -
  obtain d e negotiated where l: "DigestPlan (wrSha w) (wrPlan w) plan = Inr d" "NegotiateInvariantIDs c peer = Inr negotiated"
    "normalizeVerified plan c x negotiated (blankOutcome x d e negotiated) = Inr l"
    using assms(1) by (rule NormalizeExecution_Inr)
  obtain d' e' negotiated' where r: "DigestPlan (wrSha w) (wrPlan w) plan = Inr d'" "NegotiateInvariantIDs peer c = Inr negotiated'"
    "normalizeVerified plan peer y negotiated' (blankOutcome y d' e' negotiated') = Inr r"
    using assms(2) by (rule NormalizeExecution_Inr)
  have "negotiated' = negotiated" "d' = d"
    using Negotiate_Inr(3) [OF l(2)] r(1,2) l(1) by simp_all
  then have valid: "outcomeValidate l = None" "outcomeValidate r = None" "noPlanSHA256 l = noPlanSHA256 r"
    "noNegotiated l = noNegotiated r"
    using normalized_fields [OF l(3) Negotiate_Inr(1) [OF l(2)]] normalized_fields [OF r(3) Negotiate_Inr(1) [OF r(2)]]
    by simp_all
  show ?thesis
    using CompareNormalized_valid [OF valid assms(3-6)]
      comparison_valid [OF valid(1,2,4) digestPattern_encode [OF assms(5)] digestPattern_encode [OF assms(6)]] by blast
qed

theorem normalized_comparable_witness:
  "\<exists>l r p. NormalizeExecution exWire exPlan exLeft exRight (exExecution exLeft) = Some (Inr l)
    \<and> NormalizeExecution exWire exPlan exRight exLeft (exExecution exRight) = Some (Inr r)
    \<and> CompareNormalized exHash (\<lambda>_. Some []) l r = Inr p \<and> comparisonValidate p = None"
proof -
  obtain l r where n: "NormalizeExecution exWire exPlan exLeft exRight (exExecution exLeft) = Some (Inr l)"
    "NormalizeExecution exWire exPlan exRight exLeft (exExecution exRight) = Some (Inr r)"
    using exNormalized [of exLeft exRight] exNormalized [of exRight exLeft] by blast
  then show ?thesis
    using normalized_comparable [OF n, of "\<lambda>_. Some []" "[]" "[]"] by (auto simp: exWire_def exHash_def)
qed

end
