(* ===== verification/SemCausalProps.thy ===== *)
theory SemCausalProps
  imports SemCausal SemExecProps
begin

text \<open>
  Causal replay: the directives of a source tape give every operation the disposition it had there, the
  projector applies it to every attempt of the operation, and an exact report leaves nothing uncovered.
\<close>

section \<open>The directives of a source tape\<close>

definition operationsOf :: "Choice \<Rightarrow> string set" where
  "operationsOf c = (case choiceOperationContext c of None \<Rightarrow> {} | Some (ids, causal) \<Rightarrow> set ids)"

abbreviation operations :: "TapeEntry \<Rightarrow> string set" where
  "operations entry \<equiv> operationsOf (teChoice entry)"

definition dispositions :: "(string \<times> CausalDirective) list \<Rightarrow> string \<rightharpoonup> Selection" where
  "dispositions al i = map_option cdSelection (map_of al i)"

definition keyed :: "(string \<times> CausalDirective) list \<Rightarrow> bool" where
  "keyed al \<longleftrightarrow> distinct (map fst al) \<and> (\<forall>(k, d) \<in> set al. cdOperationID d = k)"

lemma keyed_update: "keyed al \<Longrightarrow> cdOperationID d = k \<Longrightarrow> keyed (AList.update k d al)"
proof -
  have "set (AList.update k d al) \<subseteq> insert (k, d) (set al)" by (induction al) auto
  then show "keyed al \<Longrightarrow> cdOperationID d = k \<Longrightarrow> keyed (AList.update k d al)"
    by (auto simp: keyed_def distinct_update)
qed

lemma operations_other: "chKind c \<noteq> NetworkLoss \<Longrightarrow> operationsOf c = {}"
  by (simp add: operationsOf_def choiceOperationContext_def)

lemma addOperations_Inr:
  assumes "addOperations index sel ids al = Inr bl" and "keyed al"
  shows "keyed bl \<and> dispositions bl = (\<lambda>i. if i \<in> set ids then Some sel else dispositions al i)
    \<and> (\<forall>i \<in> set ids. dispositions al i \<in> {None, Some sel})"
  using assms
proof (induction ids arbitrary: al)
  case (Cons i ids)
  let ?fresh = "\<lparr>cdOperationID = i, cdSourceIndices = [index], cdSelection = sel\<rparr>"
  show ?case
  proof (cases "map_of al i")
    case None
    have rest: "addOperations index sel ids (AList.update i ?fresh al) = Inr bl"
      using Cons.prems(1) None by (auto split: if_splits)
    have step: "dispositions (AList.update i ?fresh al) = (dispositions al)(i \<mapsto> sel)"
      by (auto simp: dispositions_def update_conv')
    show ?thesis
      using Cons.IH [OF rest] keyed_update [OF Cons.prems(2), of ?fresh i] None
      unfolding step by (auto simp: dispositions_def fun_eq_iff split: if_splits)
  next
    case (Some d)
    let ?more = "d\<lparr>cdSourceIndices := cdSourceIndices d @ [index]\<rparr>"
    have rest: "addOperations index sel ids (AList.update i ?more al) = Inr bl" and same: "cdSelection d = sel"
      using Cons.prems(1) Some by (auto split: if_splits)
    have "cdOperationID ?more = i"
      using Cons.prems(2) map_of_SomeD [OF Some] by (auto simp: keyed_def)
    moreover have step: "dispositions (AList.update i ?more al) = dispositions al"
      using Some by (auto simp: dispositions_def update_conv')
    ultimately show ?thesis
      using Cons.IH [OF rest] keyed_update [OF Cons.prems(2), of ?more i] Some same
      unfolding step by (auto simp: dispositions_def fun_eq_iff split: if_splits)
  qed
qed (simp add: fun_eq_iff)

lemma collectOperations_Inr:
  assumes "collectOperations index es al = Inr bl" and "keyed al"
  shows "keyed bl \<and> (\<forall>i sel. dispositions bl i = Some sel \<longleftrightarrow>
      dispositions al i = Some sel \<or> (\<exists>e \<in> set es. i \<in> operations e \<and> teSelection e = sel))"
  using assms
proof (induction es arbitrary: index al)
  case (Cons e es)
  show ?case
  proof (cases "chKind (teChoice e) = NetworkLoss")
    case False
    then show ?thesis
      using Cons.IH [of "Suc index" al] Cons.prems operations_other [OF False] by auto
  next
    case True
    obtain ids cl where c: "choiceOperationContext (teChoice e) = Some (ids, True)"
      "addOperations (of_nat index) (teSelection e) ids al = Inr cl" "collectOperations (Suc index) es cl = Inr bl"
      using Cons.prems(1) True by (auto split: option.splits prod.splits if_splits sum.splits)
    note a = addOperations_Inr [OF c(2) Cons.prems(2)]
    show ?thesis
      using a Cons.IH [OF c(3)] c(1)
      by (auto simp: operationsOf_def split: if_splits)
  qed
qed simp

lemma causalDirectivesFrom_sorted:
  "causalDirectivesFrom previous ds = None \<Longrightarrow>
     sorted_wrt (<) (map cdOperationID ds) \<and> (\<forall>d \<in> set ds. \<forall>p. previous = Some p \<longrightarrow> p < cdOperationID d)"
proof (induction ds arbitrary: previous)
  case (Cons d ds)
  then have "causalDirectivesFrom (Some (cdOperationID d)) ds = None" "\<forall>p. previous = Some p \<longrightarrow> p < cdOperationID d"
    by (auto simp: not_le split: if_splits option.splits)
  then show ?case using Cons.IH [of "Some (cdOperationID d)"] by (fastforce dest: less_trans)
qed simp

text \<open>A projector that looks directives up by the operation in the tape they come from.\<close>

definition replays :: "TapeEntry list \<Rightarrow> CausalProjector \<Rightarrow> bool" where
  "replays es p \<longleftrightarrow> keyed (cpDirectives p) \<and> (\<forall>i sel. dispositions (cpDirectives p) i = Some sel \<longleftrightarrow>
      (\<exists>e \<in> set es. i \<in> operations e \<and> teSelection e = sel))"

lemma tape_replays:
  assumes "CausalDirectivesFromTape sha tape = Inr ds" and "NewCausalProjector ds seed = Inr p"
  shows "replays (tpEntries tape) p \<and> cpConsumed p = [] \<and> cpAdditional p = [] \<and> cpFailed p = None"
proof -
  obtain al where al: "collectOperations 0 (tpEntries tape) [] = Inr al" "ds = sort_key cdOperationID (map snd al)"
    "ValidateCausalDirectives ds = None"
    using assms(1) by (auto simp: CausalDirectivesFromTape_def Let_def split: option.splits sum.splits)
  have empties: "keyed []" "dispositions [] i = None" for i by (simp_all add: keyed_def dispositions_def)
  have k: "keyed al" and d: "\<And>i sel. dispositions al i = Some sel \<longleftrightarrow> (\<exists>e \<in> set (tpEntries tape). i \<in> operations e \<and> teSelection e = sel)"
    using collectOperations_Inr [OF al(1)] by (simp_all add: empties)
  have ids: "distinct (map cdOperationID ds)"
    using causalDirectivesFrom_sorted [of None ds] al(3) by (simp add: ValidateCausalDirectives_def strict_sorted_iff)
  have p: "cpDirectives p = map (\<lambda>d. (cdOperationID d, d)) ds" "cpConsumed p = []" "cpAdditional p = []" "cpFailed p = None"
    using assms(2) al(3) fold_update_distinct [of cdOperationID ds "[]"] ids by (auto simp: NewCausalProjector_def)
  have "map_of (cpDirectives p) i = Some x \<longleftrightarrow> map_of al i = Some x" for i x
  proof -
    have "map_of (cpDirectives p) i = Some x \<longleftrightarrow> x \<in> set ds \<and> cdOperationID x = i"
      using ids by (auto simp: p map_of_eq_Some_iff comp_def)
    also have "\<dots> \<longleftrightarrow> (i, x) \<in> set al"
      using k by (force simp: al(2) keyed_def)
    finally show ?thesis using k by (simp add: keyed_def map_of_eq_Some_iff)
  qed
  then have "map_of (cpDirectives p) = map_of al" by (metis ext not_Some_eq)
  then have same: "dispositions (cpDirectives p) = dispositions al" by (auto simp: dispositions_def)
  moreover have "keyed (cpDirectives p)" using ids by (auto simp: keyed_def p comp_def)
  ultimately show ?thesis using d p by (simp add: replays_def)
qed

section \<open>The answers of the projector\<close>

lemma mergeIDs_Some:
  "mergeIDs ds ids selected unknown additional = (more_ids, Some (sel, unknown')) \<Longrightarrow>
     (\<forall>s. selected = Some s \<longrightarrow> sel = Some s)
     \<and> (\<forall>i \<in> set ids. \<forall>d. map_of ds i = Some d \<longrightarrow> sel = Some (cdSelection d))
     \<and> (sel = None \<longleftrightarrow> selected = None \<and> (\<forall>i \<in> set ids. map_of ds i = None))
     \<and> (unknown' \<longleftrightarrow> unknown \<or> (\<exists>i \<in> set ids. map_of ds i = None))
     \<and> set more_ids = set additional \<union> {i \<in> set ids. map_of ds i = None}"
proof (induction ids arbitrary: selected unknown additional)
  case (Cons i ids)
  show ?case
  proof (cases "map_of ds i")
    case None
    then show ?thesis using Cons.IH [of selected True "List.insert i additional"] Cons.prems by auto
  next
    case (Some d)
    have "mergeIDs ds ids (Some (cdSelection d)) unknown additional = (more_ids, Some (sel, unknown'))"
      "selected \<in> {None, Some (cdSelection d)}"
      using Cons.prems Some by (auto split: option.splits if_splits)
    then show ?thesis using Cons.IH [of "Some (cdSelection d)" unknown additional] Some by auto
  qed
qed simp

lemma set_fold_insert: "set (fold List.insert xs ys) = set xs \<union> set ys"
  by (induction xs arbitrary: ys) auto

text \<open>What an answered choice leaves.\<close>

lemma causalChoose_answers:
  assumes "causalChoose p c = Some (q, Inr sel)"
  shows "cpFailed q = None \<and> cpDirectives q = cpDirectives p
    \<and> (\<forall>i \<in> operationsOf c. \<forall>s. dispositions (cpDirectives p) i = Some s \<longrightarrow> sel = s
         \<and> (selOption sel = drop_option \<longrightarrow> operationsOf c \<subseteq> dom (dispositions (cpDirectives p))))
    \<and> set (cpConsumed q) = set (cpConsumed p) \<union> (operationsOf c \<inter> dom (dispositions (cpDirectives p)))
    \<and> set (cpAdditional q) = set (cpAdditional p) \<union>
        (if operationsOf c = {} then {chID c} else operationsOf c - dom (dispositions (cpDirectives p)))"
proof -
  have fallback: "\<exists>r. q = f (p'\<lparr>cpFallback := r\<rparr>)" if "fallbackAnswer p' c f = Some (q, Inr sel)" for p' f
    using that by (auto simp: fallbackAnswer_def causalFail_def split: option.splits prod.splits sum.splits)
  have ok: "cpFailed p = None" "ValidateChoice c = None"
    using assms by (auto simp: causalChoose_def causalFail_def split: option.splits if_splits)
  show ?thesis
  proof (cases "chKind c = NetworkLoss")
    case False
    then show ?thesis
      using assms ok fallback [of p "addAdditional (chID c)"] operations_other [OF False]
      by (auto simp: causalChoose_def addAdditional_def)
  next
    case True
    obtain ids where c: "choiceOperationContext c = Some (ids, True)"
      using assms ok True by (auto simp: causalChoose_def causalFail_def split: option.splits if_splits)
    then have ops: "operationsOf c = set ids" by (simp add: operationsOf_def)
    show ?thesis
    proof (cases "ids = []")
      case True
      then show ?thesis
        using assms ok \<open>chKind c = NetworkLoss\<close> c ops fallback [of p "addAdditional (chID c)"]
        by (auto simp: causalChoose_def addAdditional_def)
    next
      case False
      obtain more_ids selected unknown where m:
        "mergeIDs (cpDirectives p) ids None False (cpAdditional p) = (more_ids, Some (selected, unknown))"
        using assms ok \<open>chKind c = NetworkLoss\<close> c False
        by (auto simp: causalChoose_def causalFail_def Let_def split: option.splits prod.splits)
      note merged = mergeIDs_Some [OF m]
      have ds: "dispositions (cpDirectives p) i = Some s \<longleftrightarrow> (\<exists>d. map_of (cpDirectives p) i = Some d \<and> cdSelection d = s)" for i s
        by (auto simp: dispositions_def)
      have dm: "i \<in> dom (dispositions (cpDirectives p)) \<longleftrightarrow> map_of (cpDirectives p) i \<noteq> None" for i
        by (auto simp: dispositions_def dom_def)
      show ?thesis
      proof (cases selected)
        case None
        have "cpFailed q = None \<and> cpDirectives q = cpDirectives p \<and> cpConsumed q = cpConsumed p \<and> cpAdditional q = more_ids"
          using assms ok \<open>chKind c = NetworkLoss\<close> c False m None fallback [of "p\<lparr>cpAdditional := more_ids\<rparr>" id]
          by (auto simp: causalChoose_def Let_def split: if_splits)
        then show ?thesis
          using merged None False dm unfolding ops by (auto simp: ds)
      next
        case (Some s)
        have "sel = s" "\<not> (selOption s = drop_option \<and> unknown)" "q = p\<lparr>cpAdditional := more_ids, cpConsumed := fold List.insert
             (filter (\<lambda>i. map_of (cpDirectives p) i \<noteq> None) ids) (cpConsumed p)\<rparr>"
          using assms ok \<open>chKind c = NetworkLoss\<close> c False m Some
          by (auto simp: causalChoose_def causalFail_def Let_def split: if_splits)
        then show ?thesis
          using merged Some False ok dm unfolding ops by (auto simp: ds set_fold_insert)
      qed
    qed
  qed
qed

lemma verifyTargets_Inr:
  assumes "verifyTargets p es = Some (Inr q)" and "cpFailed p = None"
  shows "cpFailed q = None \<and> cpDirectives q = cpDirectives p
    \<and> (\<forall>e \<in> set es. \<forall>i \<in> operations e. \<forall>s. dispositions (cpDirectives p) i = Some s \<longrightarrow> teSelection e = s
         \<and> (selOption (teSelection e) = drop_option \<longrightarrow> operations e \<subseteq> dom (dispositions (cpDirectives p))))
    \<and> set (cpConsumed q) = set (cpConsumed p) \<union> ((\<Union>e \<in> set es. operations e) \<inter> dom (dispositions (cpDirectives p)))
    \<and> (set (cpAdditional q) = {} \<longleftrightarrow> set (cpAdditional p) = {}
         \<and> (\<forall>e \<in> set es. operations e \<noteq> {} \<and> operations e \<subseteq> dom (dispositions (cpDirectives p))))"
  using assms
proof (induction es arbitrary: p)
  case (Cons e es)
  obtain r where r: "causalChoose p (teChoice e) = Some (r, Inr (teSelection e))" "verifyTargets r es = Some (Inr q)"
    using Cons.prems(1) by (auto split: option.splits prod.splits sum.splits if_splits)
  note a = causalChoose_answers [OF r(1)]
  show ?case
    using a Cons.IH [OF r(2)] by (auto split: if_splits)
qed auto

section \<open>Valid evidence\<close>

text \<open>What validation of evidence establishes.\<close>

lemma evidence_runs:
  assumes "evidenceValidate w e = Some (Inr ())"
  obtains p q where "replays (tpEntries (ceSourceTape e)) p" "cpConsumed p = []" "cpAdditional p = []" "cpFailed p = None"
    "verifyTargets p (tpEntries (ceTargetTape e)) = Some (Inr q)" "causalFinish (cwReport w) q = ceReport e"
    "crFidelity (ceReport e) \<noteq> ProjectionFailed"
proof -
  obtain ds p q where x: "CausalDirectivesFromTape (cwSha w) (ceSourceTape e) = Inr ds"
    "NewCausalProjector ds (ceFallbackSeed e) = Inr p"
    "verifyTargets p (tpEntries (ceTargetTape e)) = Some (Inr q)" "causalFinish (cwReport w) q = ceReport e"
    "crFidelity (ceReport e) \<noteq> ProjectionFailed"
    using assms by (auto simp: evidenceValidate_def split: option.splits sum.splits if_splits)
  then show ?thesis using tape_replays [OF x(1,2)] that by blast
qed

lemma replays_dom: "replays es p \<Longrightarrow> dom (dispositions (cpDirectives p)) = (\<Union>e \<in> set es. operations e)"
  by (auto simp: replays_def dom_def)

lemma keyed_unmatched:
  "keyed al \<Longrightarrow> map snd (filter (\<lambda>(i, d). i \<notin> A) al) = [] \<longleftrightarrow> dom (dispositions al) \<subseteq> A"
  by (auto simp: filter_empty_conv dispositions_def dom_def keyed_def map_of_eq_Some_iff split: prod.splits)

lemma causalFinish_fidelity:
  assumes "cpFailed q = None" and "crFidelity (causalFinish marshal q) \<noteq> ProjectionFailed"
  shows "crFidelity (causalFinish marshal q) = ProjectionExact \<longleftrightarrow>
     cpAdditional q = [] \<and> map snd (filter (\<lambda>(i, d). i \<notin> set (cpConsumed q)) (cpDirectives q)) = []"
proof -
  have "sort xs = [] \<longleftrightarrow> xs = []" for xs :: "string list" by (metis length_0_conv length_sort)
  moreover have "sort_key cdOperationID ds = [] \<longleftrightarrow> ds = []" for ds by (metis length_0_conv length_sort)
  ultimately show ?thesis
    using assms by (auto simp: causalFinish_def causalReport_def Let_def split: if_splits)
qed

section \<open>An example\<close>

definition exBatch :: Choice where
  "exBatch = exLoss\<lparr>chContext := exObject [(''causal'', ascii ''true''), (''operation_ids'', ascii ''[\"op\"]'')]\<rparr>"

definition exCausal :: CausalReplayEvidence where
  "exCausal = (let tape = \<lparr>tpSchema = DecisionSchema, tpEntries = [exEntry exBatch (optionSelection ''drop'')]\<rparr> in
     \<lparr>ceSchema = CausalEvidenceSchema, cePlanSHA256 = exDigest 1, ceSourceAdapter = cbAdapter exLeft,
      ceTargetAdapter = cbAdapter exRight, ceFallbackSeed = 3, ceSourceTape = tape, ceTargetTape = tape,
      ceSourceOutcome = exBoundary, ceTargetOutcome = exBoundary,
      ceReport = \<lparr>crSchema = CausalReplaySchema, crFidelity = ProjectionExact, crDirectives = 1, crProjected = 1,
        crAdditional = Some [], crUnmatched = Some []\<rparr>\<rparr>)"

definition exCausalWire :: CausalWire where
  "exCausalWire = \<lparr>cwSha = exHash, cwReport = (\<lambda>_. Some []), cwEvidence = (\<lambda>_. Some [])\<rparr>"

lemma exBatch_context: "chContext exBatch \<noteq> []"
  "readDocument (chContext exBatch) = Some (JObject [(''causal'', JBool True), (''operation_ids'', JArray [JString ''op''])])"
  by code_simp+

lemma exBatch_fields: "chKind exBatch = NetworkLoss" "ValidateChoice exBatch = None"
  "validateSelection exBatch (optionSelection ''drop'') = None"
  using readDocument_valid [OF exBatch_context(2)]
  by (simp_all add: exBatch_def exLoss_def NetworkLoss_def ValidateChoice_def validateSelection_def optionSelection_def)

lemma op_plain: "boundedID ''op''"
  using plain_text [of "''op''"] by (simp add: boundedID_def plainChar_def)

lemma exBatch_operations: "choiceOperationContext exBatch = Some ([''op''], True)"
  using readDocument_accepts [OF exBatch_context(2)] exBatch_context op_plain
  by (simp add: choiceOperationContext_def exBatch_fields readBool_def)

lemma exBatch_entry:
  "entryStored exHash (exEntry exBatch (optionSelection ''drop''))" "teChoice (exEntry exBatch (optionSelection ''drop'')) = exBatch"
  "teSelection (exEntry exBatch (optionSelection ''drop'')) = optionSelection ''drop''"
proof -
  have "newEntry exHash exBatch (optionSelection ''drop'') = Inr (exEntry exBatch (optionSelection ''drop''))"
    using newEntry_valid [OF exBatch_fields(2), of "optionSelection ''drop''" exHash] exBatch_fields(3) by (auto simp: exEntry_def)
  then show "entryStored exHash (exEntry exBatch (optionSelection ''drop''))"
    "teChoice (exEntry exBatch (optionSelection ''drop'')) = exBatch"
    "teSelection (exEntry exBatch (optionSelection ''drop'')) = optionSelection ''drop''"
    using newEntry_stored by (auto simp: newEntry_Inr)
qed

lemma exCausal_valid: "evidenceValidate exCausalWire exCausal = Some (Inr ())"
proof -
  let ?d = "\<lparr>cdOperationID = ''op'', cdSourceIndices = [0], cdSelection = optionSelection ''drop''\<rparr>"
  let ?tape = "\<lparr>tpSchema = DecisionSchema, tpEntries = [exEntry exBatch (optionSelection ''drop'')]\<rparr>"
  let ?p = "\<lparr>cpDirectives = [(''op'', ?d)], cpConsumed = [], cpAdditional = [], cpFallback = NewSeedDecider 3, cpFailed = None\<rparr>"
  have tape: "newTapeDecider exHash ?tape True = Inr \<lparr>tdTape = ?tape, tdIndex = 0, tdIncludeOperationIDs = True\<rparr>"
    by (simp add: newTapeDecider_def exBatch_entry)
  have causal: "ValidateCausalTape exHash ?tape = None"
    by (simp add: ValidateCausalTape_def tape exBatch_entry exBatch_fields exBatch_operations)
  have ds_valid: "ValidateCausalDirectives [?d] = None"
    by (simp add: ValidateCausalDirectives_def op_plain MaxDecisions_def optionSelection_def drop_option_def)
  have dropped: "selOption (optionSelection ''drop'') = drop_option" by (simp add: optionSelection_def drop_option_def)
  have ds: "CausalDirectivesFromTape exHash ?tape = Inr [?d]"
    using ds_valid
    by (simp add: CausalDirectivesFromTape_def causal exBatch_entry exBatch_fields exBatch_operations dropped)
  have p: "NewCausalProjector [?d] 3 = Inr ?p" using ds_valid by (simp add: NewCausalProjector_def)
  have run: "verifyTargets ?p (tpEntries ?tape) = Some (Inr (?p\<lparr>cpConsumed := [''op'']\<rparr>))"
    using exBatch_fields
    by (simp add: exBatch_entry causalChoose_def exBatch_operations ValidateSelection_def Let_def)
  have report: "reportValidate (\<lambda>_. Some []) (ceReport exCausal) = None"
    by (simp add: reportValidate_def exCausal_def Let_def knownFidelity_def MaxDecisions_def ValidateCausalDirectives_def
        fitsBudget_def DefaultMaxArtifactBytes_def)
  have finished: "causalFinish (\<lambda>_. Some []) (?p\<lparr>cpConsumed := [''op'']\<rparr>) = ceReport exCausal"
    using report by (simp add: causalFinish_def causalReport_def exCausal_def Let_def)
  have raw: "validateRawOutcome exHash exBoundary = None"
    by (simp add: validateRawOutcome_def exBoundary_def MaxScenarioSteps_def)
  have adapters: "validateAdapterID (cbAdapter exLeft) = None" "validateAdapterID (cbAdapter exRight) = None"
    using ex_texts(1,2) by (simp_all add: exLeft_def exRight_def exCapabilities_def)
  show ?thesis
    using raw adapters tape causal ds p run report finished
    by (simp add: evidenceValidate_def exCausalWire_def exCausal_def Let_def fitsBudget_def DefaultMaxArtifactBytes_def)
qed

lemma exCausal_entries:
  "tpEntries (ceSourceTape exCausal) = [exEntry exBatch (optionSelection ''drop'')]"
  "tpEntries (ceTargetTape exCausal) = [exEntry exBatch (optionSelection ''drop'')]"
  "operationsOf exBatch = {''op''}"
  by (simp_all add: exCausal_def Let_def operationsOf_def exBatch_operations)

section \<open>Properties\<close>

text \<open>
  C12. One disposition for every attempt: in valid evidence, a loss choice of the target gets the recorded
  selection of every loss choice of the source that shares an operation with it; and a batch dropped for a
  replayed operation holds no operation that the source did not have.
\<close>

theorem causal_dispositions:
  assumes "evidenceValidate w e = Some (Inr ())"
    and "s \<in> set (tpEntries (ceSourceTape e))" and "t \<in> set (tpEntries (ceTargetTape e))"
    and "i \<in> operationsOf (teChoice s)" and "i \<in> operationsOf (teChoice t)"
  shows "teSelection t = teSelection s
    \<and> (selOption (teSelection t) = drop_option \<longrightarrow>
         operationsOf (teChoice t) \<subseteq> (\<Union>s' \<in> set (tpEntries (ceSourceTape e)). operationsOf (teChoice s')))"
proof -
  obtain p q where x: "replays (tpEntries (ceSourceTape e)) p" "cpFailed p = None"
    "verifyTargets p (tpEntries (ceTargetTape e)) = Some (Inr q)"
    using assms(1) by (rule evidence_runs)
  have "dispositions (cpDirectives p) i = Some (teSelection s)"
    using x(1) assms(2,4) by (auto simp: replays_def)
  then show ?thesis
    using verifyTargets_Inr [OF x(3,2)] assms(3,5) replays_dom [OF x(1)] by auto
qed

theorem causal_dispositions_witness:
  "evidenceValidate exCausalWire exCausal = Some (Inr ())
    \<and> teSelection (exEntry exBatch (optionSelection ''drop'')) = optionSelection ''drop'' \<and> operationsOf exBatch \<subseteq> {''op''}"
  using causal_dispositions [OF exCausal_valid, of "exEntry exBatch (optionSelection ''drop'')"
      "exEntry exBatch (optionSelection ''drop'')" "''op''"] exCausal_valid
  by (simp add: exCausal_entries exBatch_entry)

text \<open>
  C40. What an exact replay covers: valid evidence is exact if and only if every choice of the target is a loss
  choice of operations that the source had, and every operation of the source was attempted in the target.
\<close>

theorem causal_exact:
  assumes "evidenceValidate w e = Some (Inr ())"
  shows "crFidelity (ceReport e) = ProjectionExact \<longleftrightarrow>
    (\<forall>t \<in> set (tpEntries (ceTargetTape e)). operationsOf (teChoice t) \<noteq> {})
    \<and> (\<Union>t \<in> set (tpEntries (ceTargetTape e)). operationsOf (teChoice t)) =
        (\<Union>s \<in> set (tpEntries (ceSourceTape e)). operationsOf (teChoice s))"
proof -
  obtain p q where x: "replays (tpEntries (ceSourceTape e)) p" "cpConsumed p = []" "cpAdditional p = []" "cpFailed p = None"
    "verifyTargets p (tpEntries (ceTargetTape e)) = Some (Inr q)" "causalFinish (cwReport w) q = ceReport e"
    "crFidelity (ceReport e) \<noteq> ProjectionFailed"
    using assms by (rule evidence_runs)
  note v = verifyTargets_Inr [OF x(5,4)]
  have "keyed (cpDirectives q)" using x(1) v by (simp add: replays_def)
  then show ?thesis
    using causalFinish_fidelity [of q "cwReport w"] v x(2,3,6,7) keyed_unmatched [of "cpDirectives q" "set (cpConsumed q)"]
    by (auto simp: replays_dom [OF x(1)])
qed

theorem causal_exact_witness:
  "evidenceValidate exCausalWire exCausal = Some (Inr ()) \<and> crFidelity (ceReport exCausal) = ProjectionExact"
  using causal_exact [OF exCausal_valid] exCausal_valid by (simp add: exCausal_entries exBatch_entry)

section \<open>Reports that fail without an error\<close>

definition exLong :: Choice where
  "exLong = exWait\<lparr>chID := replicate 129 CHR ''x''\<rparr>"

text \<open>
  A choice whose identifier is longer than those of operations is answered, and then the report of the
  projector is failed although the projector has no error.
\<close>

lemma long_choice_fails:
  assumes "NewCausalProjector ds seed = Inr p"
  shows "\<exists>q sel. causalChoose p exLong = Some (q, Inr sel) \<and> causalErr (Some q) = None
    \<and> crFidelity (causalFinish marshal q) = ProjectionFailed"
proof -
  have c: "ValidateChoice exLong = None" "wfChoice exLong" "chKind exLong \<noteq> NetworkLoss" "chOptions exLong = []"
    using readDocument_valid [OF exWait_context] ex_valid
    by (simp_all add: exLong_def ValidateChoice_def ex_fields wfChoice_def MaxInt64_def NetworkLoss_def)
  obtain r sel where "seedChoose (cpFallback p) exLong = Some (r, Inr sel)"
    using seed_range [OF c(1,4,2)] by blast
  moreover have p: "cpFailed p = None" "cpAdditional p = []" using assms by (auto simp: NewCausalProjector_def split: option.splits)
  moreover have "\<not> sortedIDs None [chID exLong]" by (simp add: exLong_def boundedID_def)
  ultimately show ?thesis
    using c by (simp add: causalChoose_def fallbackAnswer_def addAdditional_def causalErr_def causalFinish_def
        causalReport_def reportValidate_def Let_def knownFidelity_def)
qed

end
